(* ===== verification/Fluvora_Prelude.thy ===== *)
theory Fluvora_Prelude
  imports Main "HOL-Library.Word" "HOL-Library.AList" "HOL-Library.Multiset"
begin

text \<open>
  Shared vocabulary of the development: the machine integers and byte strings the Rust sources
  use, \<open>Result\<close> values with the early return of the \<open>?\<close> operator, checked slice access,
  big-endian encodings, \<open>HashMap\<close> as an association list with distinct keys, Rust strings as
  lists of Unicode scalar values, and \<open>Duration\<close> as a number of nanoseconds.

  Conventions. \<open>usize\<close> is \<^typ>\<open>nat\<close>: a slice or a \<open>Vec\<close> is never longer than
  \<open>isize::MAX\<close>, so sums of positions and lengths of one slice do not overflow, and wherever the
  sources write \<open>checked_add\<close> or \<open>saturating_add\<close> on positions the overflow branch returns
  the same error as the bounds check that follows it. \<open>u8\<close> to \<open>u128\<close> are words of their
  width. \<open>Duration\<close> subtraction in the sources is always \<open>saturating_sub\<close>, which is the
  truncated subtraction of \<^typ>\<open>nat\<close>.
\<close>

unbundle bit_operations_syntax

section \<open>Types\<close>

type_synonym u8 = "8 word"
type_synonym u16 = "16 word"
type_synonym u32 = "32 word"
type_synonym u64 = "64 word"
type_synonym u128 = "128 word"
type_synonym bytes = "u8 list"
type_synonym duration = nat
type_synonym ('e, 'a) result = "'e + 'a"

named_theorems result_simps \<open>reduction of the early-return operator and of option conversions\<close>
named_theorems slice_simps \<open>checked slice access on concatenations\<close>
named_theorems wire_reads \<open>reading a value back from a concatenation of encodings\<close>
named_theorems wire_simps \<open>big-endian encodings: lengths and round trips\<close>

section \<open>Result values\<close>

fun bind_r :: "('e, 'a) result \<Rightarrow> ('a \<Rightarrow> ('e, 'b) result) \<Rightarrow> ('e, 'b) result" where
  "bind_r (Inl e) k = Inl e"
| "bind_r (Inr x) k = k x"

definition ok_or :: "'e \<Rightarrow> 'a option \<Rightarrow> ('e, 'a) result" where
  "ok_or e x = (case x of None \<Rightarrow> Inl e | Some v \<Rightarrow> Inr v)"

definition map_err :: "('e \<Rightarrow> 'f) \<Rightarrow> ('e, 'a) result \<Rightarrow> ('f, 'a) result" where
  "map_err f m = (case m of Inl e \<Rightarrow> Inl (f e) | Inr x \<Rightarrow> Inr x)"

definition guard_r :: "bool \<Rightarrow> 'e \<Rightarrow> ('e, unit) result" where
  "guard_r b e = (if b then Inr () else Inl e)"

definition is_ok :: "('e, 'a) result \<Rightarrow> bool" where
  "is_ok m = (case m of Inl _ \<Rightarrow> False | Inr _ \<Rightarrow> True)"

section \<open>Checked slice access\<close>

definition get_at :: "'a list \<Rightarrow> nat \<Rightarrow> 'a option" where
  "get_at xs i = (if i < length xs then Some (xs ! i) else None)"

definition get_range :: "'a list \<Rightarrow> nat \<Rightarrow> nat \<Rightarrow> 'a list option" where
  "get_range xs i j = (if i \<le> j \<and> j \<le> length xs then Some (take (j - i) (drop i xs)) else None)"

section \<open>Network byte order\<close>

primrec be_bytes :: "nat \<Rightarrow> nat \<Rightarrow> bytes" where
  "be_bytes 0 x = []"
| "be_bytes (Suc n) x = word_of_nat (x div 256 ^ n) # be_bytes n (x mod 256 ^ n)"

definition be_nat :: "bytes \<Rightarrow> nat" where
  "be_nat bs = foldl (\<lambda>acc b. acc * 256 + unat b) 0 bs"

definition to_be :: "'a::len word \<Rightarrow> bytes" where
  "to_be w = be_bytes (LENGTH('a) div 8) (unat w)"

definition from_be :: "bytes \<Rightarrow> 'a::len word" where
  "from_be bs = word_of_nat (be_nat bs)"

text \<open>The checked big-endian reader each protocol crate defines over its own error type.\<close>

definition read_be :: "'e \<Rightarrow> bytes \<Rightarrow> nat \<Rightarrow> ('e, 'a::len word) result" where
  "read_be e input position =
     bind_r (ok_or e (get_range input position (position + LENGTH('a) div 8)))
       (\<lambda>bs. Inr (from_be bs))"

section \<open>Checked and saturating arithmetic\<close>

definition checked_add :: "'a::len word \<Rightarrow> 'a word \<Rightarrow> 'a word option" where
  "checked_add a b = (if unat a + unat b < 2 ^ LENGTH('a) then Some (a + b) else None)"

definition checked_mul :: "'a::len word \<Rightarrow> 'a word \<Rightarrow> 'a word option" where
  "checked_mul a b = (if unat a * unat b < 2 ^ LENGTH('a) then Some (a * b) else None)"

definition saturating_add :: "'a::len word \<Rightarrow> 'a word \<Rightarrow> 'a word" where
  "saturating_add a b = (if unat a + unat b < 2 ^ LENGTH('a) then a + b else - 1)"

definition saturating_mul :: "'a::len word \<Rightarrow> 'a word \<Rightarrow> 'a word" where
  "saturating_mul a b = (if unat a * unat b < 2 ^ LENGTH('a) then a * b else - 1)"

section \<open>Hash maps, strings\<close>

type_synonym ('k, 'v) hash_map = "('k \<times> 'v) list"

abbreviation hm_get :: "('k, 'v) hash_map \<Rightarrow> 'k \<Rightarrow> 'v option" where
  "hm_get m k \<equiv> map_of m k"

abbreviation hm_insert :: "'k \<Rightarrow> 'v \<Rightarrow> ('k, 'v) hash_map \<Rightarrow> ('k, 'v) hash_map" where
  "hm_insert k v m \<equiv> AList.update k v m"

abbreviation hm_remove :: "'k \<Rightarrow> ('k, 'v) hash_map \<Rightarrow> ('k, 'v) hash_map" where
  "hm_remove k m \<equiv> AList.delete k m"

abbreviation hm_wf :: "('k, 'v) hash_map \<Rightarrow> bool" where
  "hm_wf m \<equiv> distinct (map fst m)"

definition hm_of_list :: "('k \<times> 'v) list \<Rightarrow> ('k, 'v) hash_map" where
  "hm_of_list xs = foldl (\<lambda>m p. hm_insert (fst p) (snd p) m) [] xs"

definition hm_contains :: "('k, 'v) hash_map \<Rightarrow> 'k \<Rightarrow> bool" where
  "hm_contains m k = (hm_get m k \<noteq> None)"

text \<open>A Rust \<open>String\<close> is a list of Unicode scalar values; \<open>len\<close> and \<open>bytes\<close> see its
  UTF-8 encoding.\<close>

type_synonym rust_string = "nat list"

definition utf8_char :: "nat \<Rightarrow> bytes" where
  "utf8_char c =
     (if c < 128 then [word_of_nat c]
      else if c < 2048 then [word_of_nat (192 + c div 64), word_of_nat (128 + c mod 64)]
      else if c < 65536 then
        [word_of_nat (224 + c div 4096), word_of_nat (128 + c div 64 mod 64),
         word_of_nat (128 + c mod 64)]
      else
        [word_of_nat (240 + c div 262144), word_of_nat (128 + c div 4096 mod 64),
         word_of_nat (128 + c div 64 mod 64), word_of_nat (128 + c mod 64)])"

definition str_bytes :: "rust_string \<Rightarrow> bytes" where
  "str_bytes s = concat (map utf8_char s)"

definition str_len :: "rust_string \<Rightarrow> nat" where
  "str_len s = length (str_bytes s)"

definition is_control :: "nat \<Rightarrow> bool" where
  "is_control c \<longleftrightarrow> c < 32 \<or> (127 \<le> c \<and> c < 160)"

definition is_ascii_uppercase :: "u8 \<Rightarrow> bool" where
  "is_ascii_uppercase b \<longleftrightarrow> 65 \<le> b \<and> b \<le> 90"

definition is_ascii_alphanumeric :: "u8 \<Rightarrow> bool" where
  "is_ascii_alphanumeric b \<longleftrightarrow>
     (48 \<le> b \<and> b \<le> 57) \<or> (65 \<le> b \<and> b \<le> 90) \<or> (97 \<le> b \<and> b \<le> 122)"

section \<open>Lemmas on results\<close>

lemma bind_r_cong [fundef_cong]:
  assumes "m = m'" and "\<And>x. m' = Inr x \<Longrightarrow> k x = k' x"
  shows "bind_r m k = bind_r m' k'"
  using assms by (cases m') auto

lemma bind_r_eq_Inr [result_simps]: "bind_r m k = Inr y \<longleftrightarrow> (\<exists>x. m = Inr x \<and> k x = Inr y)"
  by (cases m) auto

lemma bind_r_eq_Inl:
  "bind_r m k = Inl e \<longleftrightarrow> m = Inl e \<or> (\<exists>x. m = Inr x \<and> k x = Inl e)"
  by (cases m) auto

lemma ok_or_simps [simp]: "ok_or e None = Inl e" "ok_or e (Some v) = Inr v"
  by (simp_all add: ok_or_def)

lemma ok_or_eq_Inr [result_simps]: "ok_or e x = Inr v \<longleftrightarrow> x = Some v"
  by (cases x) auto

lemma map_err_simps [simp]: "map_err f (Inl e) = Inl (f e)" "map_err f (Inr x) = Inr x"
  by (simp_all add: map_err_def)

lemma map_err_eq_Inr [result_simps]: "map_err f m = Inr x \<longleftrightarrow> m = Inr x"
  by (cases m) auto

lemma guard_r_simps [simp]: "guard_r True e = Inr ()" "guard_r False e = Inl e"
  by (simp_all add: guard_r_def)

lemma guard_r_eq_Inr [result_simps]: "guard_r b e = Inr u \<longleftrightarrow> b"
  by (simp add: guard_r_def)

lemma guard_r_eq_Inl: "guard_r b e = Inl e' \<longleftrightarrow> \<not> b \<and> e' = e"
  by (auto simp: guard_r_def)

lemma is_ok_simps [simp]: "is_ok (Inl e) = False" "is_ok (Inr x) = True"
  by (simp_all add: is_ok_def)

lemma is_ok_iff: "is_ok m \<longleftrightarrow> (\<exists>x. m = Inr x)"
  by (cases m) auto

section \<open>Lemmas on arithmetic\<close>

lemma unat_add_no_wrap:
  "unat a + unat b < 2 ^ LENGTH('a) \<Longrightarrow> unat (a + b :: 'a::len word) = unat a + unat b"
  using unat_add_lem by blast

lemma unat_mult_no_wrap:
  "unat a * unat b < 2 ^ LENGTH('a) \<Longrightarrow> unat (a * b :: 'a::len word) = unat a * unat b"
  using unat_mult_lem by blast

lemma unat_ucast_up:
  "LENGTH('a) \<le> LENGTH('b) \<Longrightarrow> unat (ucast (w :: 'a::len word) :: 'b::len word) = unat w"
proof -
  assume "LENGTH('a) \<le> LENGTH('b)"
  then have "(2 :: nat) ^ LENGTH('a) \<le> 2 ^ LENGTH('b)" by (rule power_increasing) simp
  then have "unat w < 2 ^ LENGTH('b)" using unsigned_less [of w] by (rule less_le_trans [rotated])
  then show ?thesis by (simp add: unsigned_ucast_eq take_bit_nat_eq_self)
qed

lemma take_bit_word_small: "unat (w :: 'a::len word) < 2 ^ n \<Longrightarrow> take_bit n w = w"
  by (metis unsigned_take_bit_eq take_bit_nat_eq_self unsigned_word_eqI)

lemma bit_word_small: "unat (w :: 'a::len word) < 2 ^ n \<Longrightarrow> bit w i \<Longrightarrow> i < n"
  by (metis bit_take_bit_iff take_bit_word_small)

lemma unat_minus_1: "unat (- 1 :: 'a::len word) = 2 ^ LENGTH('a) - 1"
  by (simp add: unsigned_minus_1_eq_mask mask_eq_exp_minus_1)

lemma unat_less_u64: "unat (w :: u64) < 18446744073709551616"
  using unsigned_less [of w] by simp

lemma unat_less_u32: "unat (w :: u32) < 4294967296"
  using unsigned_less [of w] by simp

lemma unat_less_u16: "unat (w :: u16) < 65536"
  using unsigned_less [of w] by simp

lemma checked_add_Some:
  "checked_add a b = Some c \<longleftrightarrow>
     unat a + unat b < 2 ^ LENGTH('a) \<and> (c :: 'a::len word) = a + b"
  by (auto simp: checked_add_def)

lemma checked_mul_Some:
  "checked_mul a b = Some c \<longleftrightarrow>
     unat a * unat b < 2 ^ LENGTH('a) \<and> (c :: 'a::len word) = a * b"
  by (auto simp: checked_mul_def)

lemma unat_saturating_add:
  "unat (saturating_add a b :: 'a::len word) = min (unat a + unat b) (2 ^ LENGTH('a) - 1)"
  by (auto simp: saturating_add_def unat_add_no_wrap unat_minus_1)

lemma unat_saturating_mul:
  "unat (saturating_mul a b :: 'a::len word) = min (unat a * unat b) (2 ^ LENGTH('a) - 1)"
  by (auto simp: saturating_mul_def unat_mult_no_wrap unat_minus_1)

lemma odd_top_bit: "x < 2 * m \<Longrightarrow> odd (x div m) \<longleftrightarrow> m \<le> (x :: nat)"
proof -
  assume x: "x < 2 * m"
  show ?thesis
  proof (cases "m \<le> x")
    case True
    with x have "x div m = 1" by (intro div_nat_eqI) simp_all
    with True show ?thesis by simp
  qed simp
qed

section \<open>Lemmas on hash maps\<close>

text \<open>Look-ups stay look-ups: the library would turn them into membership of the list.\<close>

declare map_of_eq_Some_iff [simp del]

lemma hm_insert_wf [simp]: "hm_wf m \<Longrightarrow> hm_wf (hm_insert k v m)"
  by (rule distinct_update)

lemma hm_remove_wf [simp]: "hm_wf m \<Longrightarrow> hm_wf (hm_remove k m)"
  by (rule distinct_delete)

lemma hm_get_insert [simp]: "hm_get (hm_insert k v m) k' = (if k' = k then Some v else hm_get m k')"
  by (simp add: update_conv')

lemma hm_get_remove [simp]: "hm_get (hm_remove k m) k' = (if k' = k then None else hm_get m k')"
  by (simp add: delete_conv')

lemma hm_insert_fresh: "k \<notin> fst ` set m \<Longrightarrow> hm_insert k v m = m @ [(k, v)]"
  by (induction m) auto

lemma hm_insert_subset: "set (hm_insert k v m) \<subseteq> insert (k, v) (set m)"
  by (induction m) auto

lemma hm_remove_subset: "set (hm_remove k m) \<subseteq> set m"
  by (auto simp: AList.delete_eq)

lemma hm_length_insert:
  "length (hm_insert k v m) = (if hm_contains m k then length m else Suc (length m))"
  by (induction m) (auto simp: hm_contains_def)

lemma hm_length_remove: "length (hm_remove k m) \<le> length m"
  by (simp add: AList.delete_eq)

lemma hm_contains_iff: "hm_contains m k \<longleftrightarrow> k \<in> fst ` set m"
  by (auto simp: hm_contains_def map_of_eq_None_iff)

lemma hm_wf_get_iff: "hm_wf m \<Longrightarrow> hm_get m k = Some v \<longleftrightarrow> (k, v) \<in> set m"
  by (rule map_of_eq_Some_iff)

lemma hm_of_list_append:
  "foldl (\<lambda>m p. hm_insert (fst p) (snd p) m) ys xs = ys @ xs" if "distinct (map fst (ys @ xs))"
  using that
proof (induction xs arbitrary: ys)
  case Nil
  then show ?case by simp
next
  case (Cons x xs)
  from Cons.prems have "hm_insert (fst x) (snd x) ys = ys @ [x]"
    by (simp add: hm_insert_fresh)
  with Cons.IH [of "ys @ [x]"] Cons.prems show ?case by simp
qed

lemma hm_of_list_distinct: "distinct (map fst xs) \<Longrightarrow> hm_of_list xs = xs"
  using hm_of_list_append [of "[]" xs] by (simp add: hm_of_list_def)

lemma hm_of_list_wf: "hm_wf (hm_of_list xs)"
proof -
  have "hm_wf ys \<Longrightarrow> hm_wf (foldl (\<lambda>m p. hm_insert (fst p) (snd p) m) ys xs)" for ys :: "('a \<times> 'b) list"
    by (induction xs arbitrary: ys) simp_all
  from this [of "[]"] show ?thesis by (simp add: hm_of_list_def)
qed

lemma hm_of_list_keys: "fst ` set (hm_of_list xs) = fst ` set xs"
proof -
  have "fst ` set (foldl (\<lambda>m p. hm_insert (fst p) (snd p) m) ys xs) = fst ` set ys \<union> fst ` set xs"
    for ys :: "('a \<times> 'b) list"
  proof (induction xs arbitrary: ys)
    case Nil
    then show ?case by simp
  next
    case (Cons x xs)
    then show ?case by (auto simp: dom_update)
  qed
  from this [of "[]"] show ?thesis by (simp add: hm_of_list_def)
qed

lemma hm_of_list_full: "length (hm_of_list xs) = length xs \<Longrightarrow> distinct (map fst xs)"
proof -
  assume len: "length (hm_of_list xs) = length xs"
  have "card (set (map fst xs)) = card (set (map fst (hm_of_list xs)))"
    using hm_of_list_keys [of xs] by simp
  also have "\<dots> = length (map fst (hm_of_list xs))"
    by (rule distinct_card) (rule hm_of_list_wf)
  finally have "card (set (map fst xs)) = length (map fst xs)" using len by simp
  then show ?thesis by (rule card_distinct)
qed

section \<open>Alignment to four bytes\<close>

definition pad4 :: "nat \<Rightarrow> nat" where
  "pad4 n = (4 - n mod 4) mod 4"

lemma pad4_cases:
  "n mod 4 = 0 \<and> pad4 n = 0 \<or> n mod 4 = 1 \<and> pad4 n = 3 \<or>
   n mod 4 = 2 \<and> pad4 n = 2 \<or> n mod 4 = 3 \<and> pad4 n = 1"
proof -
  have "n mod 4 < 4" by simp
  then consider "n mod 4 = 0" | "n mod 4 = 1" | "n mod 4 = 2" | "n mod 4 = 3" by linarith
  then show ?thesis unfolding pad4_def by cases simp_all
qed

lemma pad4_mod: "(n + pad4 n) mod 4 = 0"
proof -
  have "(n + pad4 n) mod 4 = (n mod 4 + pad4 n) mod 4" by (simp add: mod_add_left_eq)
  then show ?thesis using pad4_cases [of n] by auto
qed

lemma pad4_0 [simp]: "pad4 0 = 0"
  by (simp add: pad4_def)

lemma pad4_less: "pad4 n < 4"
  by (simp add: pad4_def)

lemma pad4_Suc: "n mod 4 \<noteq> 0 \<Longrightarrow> pad4 n = Suc (pad4 (Suc n))"
  using pad4_cases [of n] by (auto simp: pad4_def mod_Suc)

lemma pad4_aligned: "n mod 4 = 0 \<Longrightarrow> pad4 n = 0"
  by (simp add: pad4_def)

text \<open>The loop that appends zero bytes up to the next multiple of four.\<close>

function pad_zero4 :: "bytes \<Rightarrow> bytes" where
  "pad_zero4 bs = (if length bs mod 4 \<noteq> 0 then pad_zero4 (bs @ [0]) else bs)"
  by pat_completeness auto
termination
  by (relation "measure (\<lambda>bs. pad4 (length bs))") (simp_all add: pad4_Suc)

declare pad_zero4.simps [simp del]

lemma pad_zero4_eq: "pad_zero4 bs = bs @ replicate (pad4 (length bs)) 0"
proof (induction bs rule: pad_zero4.induct)
  case (1 bs)
  show ?case
  proof (cases "length bs mod 4 = 0")
    case True
    then show ?thesis by (subst pad_zero4.simps) (simp add: pad4_aligned)
  next
    case False
    with 1 [OF this] show ?thesis by (subst pad_zero4.simps) (simp add: pad4_Suc)
  qed
qed

section \<open>Lemmas on slices\<close>

lemma drop_split: "drop n xs = take k (drop n xs) @ drop (n + k) xs"
  by (metis add.commute append_take_drop_id drop_drop)

lemma get_at_Some [simp]: "get_at xs i = Some x \<longleftrightarrow> i < length xs \<and> xs ! i = x"
  by (auto simp: get_at_def)

lemma get_at_None [simp]: "get_at xs i = None \<longleftrightarrow> length xs \<le> i"
  by (auto simp: get_at_def)

lemma get_range_Some:
  "get_range xs i j = Some ys \<longleftrightarrow> i \<le> j \<and> j \<le> length xs \<and> ys = take (j - i) (drop i xs)"
  by (auto simp: get_range_def)

lemma get_range_length: "get_range xs i j = Some ys \<Longrightarrow> length ys = j - i"
  by (auto simp: get_range_Some)

lemma get_range_append1 [slice_simps]:
  "j \<le> length xs \<Longrightarrow> get_range (xs @ ys) i j = get_range xs i j"
  by (auto simp: get_range_def)

lemma get_range_append2 [slice_simps]:
  "length xs \<le> i \<Longrightarrow> get_range (xs @ ys) i j =
     (if i \<le> j then get_range ys (i - length xs) (j - length xs) else None)"
  by (auto simp: get_range_def)

lemma get_range_prefix [slice_simps]:
  "get_range (xs @ ys) 0 (length xs) = Some xs"
  by (simp add: get_range_def)

lemma get_range_mid [slice_simps]:
  "i = length xs \<Longrightarrow> j = length xs + length ys \<Longrightarrow> get_range (xs @ ys @ zs) i j = Some ys"
  by (simp add: get_range_def)

section \<open>Lemmas on big-endian encodings\<close>

lemma length_be_bytes [wire_simps, simp]: "length (be_bytes n x) = n"
  by (induction n arbitrary: x) auto

lemma be_nat_foldl: "foldl (\<lambda>acc b. acc * 256 + unat b) a bs = a * 256 ^ length bs + be_nat bs"
proof (induction bs arbitrary: a)
  case Nil
  then show ?case by (simp add: be_nat_def)
next
  case (Cons b bs)
  have "foldl (\<lambda>acc b. acc * 256 + unat b) a (b # bs)
      = (a * 256 + unat b) * 256 ^ length bs + be_nat bs"
    using Cons.IH [of "a * 256 + unat b"] by simp
  moreover have "be_nat (b # bs) = unat b * 256 ^ length bs + be_nat bs"
    using Cons.IH [of "unat b"] by (simp add: be_nat_def)
  ultimately show ?case by (simp add: algebra_simps)
qed

lemma be_nat_Nil [simp]: "be_nat [] = 0"
  by (simp add: be_nat_def)

lemma be_nat_Cons [simp]: "be_nat (b # bs) = unat b * 256 ^ length bs + be_nat bs"
  using be_nat_foldl [of "unat b" bs] by (simp add: be_nat_def)

lemma unat_byte_less: "unat (b :: u8) < 256"
  using unsigned_less [of b] by simp

lemma be_nat_less: "be_nat bs < 256 ^ length bs"
proof (induction bs)
  case Nil
  then show ?case by simp
next
  case (Cons b bs)
  have "unat b + 1 \<le> 256" using unat_byte_less [of b] by simp
  then have "(unat b + 1) * 256 ^ length bs \<le> 256 * 256 ^ length bs"
    by (rule mult_le_mono1)
  then have "unat b * 256 ^ length bs + 256 ^ length bs \<le> 256 ^ length (b # bs)"
    by (simp add: algebra_simps)
  with Cons.IH show ?case by (simp only: be_nat_Cons)
qed

lemma unat_word_of_nat_less: "x < 2 ^ LENGTH('a) \<Longrightarrow> unat (word_of_nat x :: 'a::len word) = x"
  by (simp add: unsigned_of_nat take_bit_nat_eq_self)

lemma be_nat_be_bytes: "x < 256 ^ n \<Longrightarrow> be_nat (be_bytes n x) = x"
proof (induction n arbitrary: x)
  case 0
  then show ?case by simp
next
  case (Suc n)
  have "x div 256 ^ n < 256"
    using Suc.prems by (simp add: less_mult_imp_div_less mult.commute)
  then have "unat (word_of_nat (x div 256 ^ n) :: u8) = x div 256 ^ n"
    by (simp add: unat_word_of_nat_less)
  moreover have "be_nat (be_bytes n (x mod 256 ^ n)) = x mod 256 ^ n"
    by (rule Suc.IH) simp
  ultimately show ?case by (simp add: div_mult_mod_eq)
qed

lemma be_bytes_be_nat: "be_bytes (length bs) (be_nat bs) = bs"
proof (induction bs)
  case Nil
  then show ?case by simp
next
  case (Cons b bs)
  have d: "be_nat (b # bs) div 256 ^ length bs = unat b"
    using be_nat_less [of bs] by simp
  have m: "be_nat (b # bs) mod 256 ^ length bs = be_nat bs"
    using be_nat_less [of bs] by simp
  have "be_bytes (length (b # bs)) (be_nat (b # bs))
      = word_of_nat (be_nat (b # bs) div 256 ^ length bs)
        # be_bytes (length bs) (be_nat (b # bs) mod 256 ^ length bs)"
    by simp
  then show ?case by (simp only: d m Cons.IH) simp
qed

lemma length_to_be [wire_simps, simp]: "length (to_be (w :: 'a::len word)) = LENGTH('a) div 8"
  by (simp add: to_be_def)

lemma pow_256: "8 dvd n \<Longrightarrow> (256 :: nat) ^ (n div 8) = 2 ^ n"
proof -
  assume "8 dvd n"
  then have "(2 :: nat) ^ n = 2 ^ (8 * (n div 8))" by simp
  also have "\<dots> = (2 ^ 8) ^ (n div 8)" by (rule power_mult)
  finally show ?thesis by simp
qed

lemma from_be_to_be:
  assumes "8 dvd LENGTH('a)"
  shows "from_be (to_be (w :: 'a::len word)) = w"
proof -
  have "unat w < 256 ^ (LENGTH('a) div 8)"
    using unsigned_less [of w] by (simp only: pow_256 assms)
  then show ?thesis by (simp add: from_be_def to_be_def be_nat_be_bytes)
qed

lemma to_be_from_be:
  assumes "8 dvd LENGTH('a)" and "length bs = LENGTH('a) div 8"
  shows "to_be (from_be bs :: 'a::len word) = bs"
proof -
  have "be_nat bs < 2 ^ LENGTH('a)"
    using be_nat_less [of bs] by (simp add: assms(2) pow_256 assms(1))
  then have "unat (from_be bs :: 'a word) = be_nat bs"
    by (simp add: from_be_def unat_word_of_nat_less)
  then show ?thesis
    using be_bytes_be_nat [of bs] by (simp add: to_be_def assms(2))
qed

text \<open>
  The contract of a fixed-width wire integer, as every parser uses it: an encoder, a decoder, a
  width, and that they are inverse to each other. The client lemmas read a value back from any
  surrounding bytes.
\<close>

locale wire_int =
  fixes width :: nat
    and enc :: "'w \<Rightarrow> bytes"
    and dec :: "bytes \<Rightarrow> 'w"
  assumes enc_length: "length (enc w) = width"
    and dec_enc: "dec (enc w) = w"
    and enc_dec: "length bs = width \<Longrightarrow> enc (dec bs) = bs"
begin

lemma enc_inj: "enc v = enc w \<longleftrightarrow> v = w"
  by (metis dec_enc)

lemma range_enc:
  "position = length pre \<Longrightarrow>
     get_range (pre @ enc w @ post) position (position + width) = Some (enc w)"
  by (simp add: get_range_def enc_length)

lemma range_dec:
  "get_range input position (position + width) = Some bs \<Longrightarrow> enc (dec bs) = bs"
  by (rule enc_dec) (auto simp: get_range_Some)

end

lemma wire_int_be:
  assumes "8 dvd LENGTH('a)" and "n = LENGTH('a) div 8"
  shows "wire_int n (to_be :: 'a::len word \<Rightarrow> bytes) from_be"
proof
  show "length (to_be w) = n" for w :: "'a word"
    using assms(2) length_to_be [of w] by metis
  show "from_be (to_be w) = w" for w :: "'a word"
    by (rule from_be_to_be [OF assms(1)])
  show "to_be (from_be bs :: 'a word) = bs" if "length bs = n" for bs
    using that by (simp only: assms(2) to_be_from_be [OF assms(1)])
qed

interpretation be16: wire_int 2 "to_be :: u16 \<Rightarrow> bytes" from_be
  by (rule wire_int_be) simp_all

interpretation be32: wire_int 4 "to_be :: u32 \<Rightarrow> bytes" from_be
  by (rule wire_int_be) simp_all

interpretation be64: wire_int 8 "to_be :: u64 \<Rightarrow> bytes" from_be
  by (rule wire_int_be) simp_all

lemmas be_round [wire_simps, simp] = be16.dec_enc be32.dec_enc be64.dec_enc

lemma read_be_at:
  assumes "8 dvd LENGTH('a)" and "position = length pre"
  shows "read_be e (pre @ to_be (w :: 'a::len word) @ post) position = Inr w"
  by (simp add: read_be_def assms(2) get_range_def from_be_to_be [OF assms(1)])

text \<open>A read beyond a prefix does not depend on that prefix.\<close>

lemma read_be_append [wire_reads]:
  assumes "length pre \<le> position"
  shows "read_be e (pre @ post) position = read_be e post (position - length pre)"
proof -
  have "get_range (pre @ post) position (position + w) =
      get_range post (position - length pre) (position - length pre + w)" for w
    using assms by (simp add: get_range_append2)
  then show ?thesis by (simp only: read_be_def)
qed

lemma read_be_take:
  fixes n :: nat
  assumes "position + LENGTH('a) div 8 \<le> n" and "n \<le> length input"
  shows "(read_be e (take n input @ rest) position :: ('e, 'a::len word) result) = read_be e input position"
proof -
  have "get_range (take n input @ rest) position (position + LENGTH('a) div 8) =
      get_range input position (position + LENGTH('a) div 8)"
    using assms by (auto simp: get_range_def drop_take min_def)
  then show ?thesis by (simp add: read_be_def)
qed

lemma read_be_Inr:
  "read_be e input position = Inr (w :: 'a::len word) \<longleftrightarrow>
     position + LENGTH('a) div 8 \<le> length input \<and>
     w = from_be (take (LENGTH('a) div 8) (drop position input))"
  by (auto simp: read_be_def result_simps get_range_Some)

lemma read_be_Cons [wire_reads]: "1 \<le> position \<Longrightarrow> read_be e (b # post) position = read_be e post (position - 1)"
  using read_be_append [of "[b]" position e post] by simp

lemma read_be_0 [wire_reads]:
  "read_be e (to_be (a :: u16) @ post) 0 = Inr a"
  "read_be e (to_be (b :: u32) @ post) 0 = Inr b"
  "read_be e (to_be (c :: u64) @ post) 0 = Inr c"
  by (simp_all add: read_be_def get_range_def)

lemma read_be_0_last [wire_reads]:
  "read_be e (to_be (a :: u16)) 0 = Inr a"
  "read_be e (to_be (b :: u32)) 0 = Inr b"
  "read_be e (to_be (c :: u64)) 0 = Inr c"
  using read_be_0 [where post = "[]"] by simp_all

lemma get_at_append [wire_reads]:
  "length pre \<le> position \<Longrightarrow> get_at (pre @ post) position = get_at post (position - length pre)"
  by (auto simp: get_at_def nth_append)

lemma get_at_Cons [wire_reads]:
  "get_at (b # post) 0 = Some b" "1 \<le> position \<Longrightarrow> get_at (b # post) position = get_at post (position - 1)"
  by (auto simp: get_at_def nth_Cons')

text \<open>The encodings spelt out, for evaluation on concrete values.\<close>

lemma to_be_u16: "to_be (w :: u16) = [word_of_nat (unat w div 256), word_of_nat (unat w mod 256)]"
  by (simp add: to_be_def numeral_2_eq_2)

lemma to_be_u32:
  "to_be (w :: u32) = [word_of_nat (unat w div 16777216), word_of_nat (unat w mod 16777216 div 65536),
     word_of_nat (unat w mod 16777216 mod 65536 div 256),
     word_of_nat (unat w mod 16777216 mod 65536 mod 256)]"
proof -
  have "be_bytes (Suc (Suc (Suc (Suc 0)))) x =
      [word_of_nat (x div 16777216), word_of_nat (x mod 16777216 div 65536),
       word_of_nat (x mod 16777216 mod 65536 div 256), word_of_nat (x mod 16777216 mod 65536 mod 256)]"
    for x by simp
  moreover have "LENGTH(32) div 8 = Suc (Suc (Suc (Suc 0)))" by simp
  ultimately show ?thesis by (simp only: to_be_def)
qed

lemma replicate_numeral: "replicate (numeral k) x = x # replicate (pred_numeral k) x"
  by (simp add: numeral_eq_Suc)

lemmas wire_eval = replicate_numeral to_be_u16 to_be_u32 read_be_def from_be_def get_range_def

end
