(* ===== verification/Bytes_Codec.thy ===== *)
theory Bytes_Codec
  imports Fluvora_Prelude
begin

text \<open>
  The checked reader and the bounded writer of \<open>crates/foundation/bytes-codec/src/lib.rs\<close>.
  A method taking \<open>&mut self\<close> returns its result together with the object it leaves behind, so
  that what a failing call does to the object is part of the model. The lemmas show that a failed
  call changes nothing, that a writer never passes its limit, and that what a writer accepted field
  by field is read back by a cursor.
\<close>

section \<open>Reader\<close>

record decode_error =
  de_offset :: nat
  de_needed :: nat
  de_remaining :: nat

record encode_error =
  ee_current :: nat
  ee_additional :: nat
  ee_limit :: nat

record read_cursor =
  rc_input :: bytes
  rc_offset :: nat

definition rc_new :: "bytes \<Rightarrow> read_cursor" where
  "rc_new input = \<lparr>rc_input = input, rc_offset = 0\<rparr>"

definition rc_position :: "read_cursor \<Rightarrow> nat" where
  "rc_position c = rc_offset c"

definition rc_remaining :: "read_cursor \<Rightarrow> nat" where
  "rc_remaining c = length (rc_input c) - rc_offset c"

definition rc_is_empty :: "read_cursor \<Rightarrow> bool" where
  "rc_is_empty c \<longleftrightarrow> rc_remaining c = 0"

definition rc_rest :: "read_cursor \<Rightarrow> bytes" where
  "rc_rest c = (case get_range (rc_input c) (rc_offset c) (length (rc_input c)) of
      None \<Rightarrow> [] | Some bs \<Rightarrow> bs)"

definition rc_take :: "nat \<Rightarrow> read_cursor \<Rightarrow> (decode_error, bytes) result \<times> read_cursor" where
  "rc_take n c =
     (let remaining = rc_remaining c in
      if n > remaining then
        (Inl \<lparr>de_offset = rc_offset c, de_needed = n, de_remaining = remaining\<rparr>, c)
      else
        (Inr (take n (drop (rc_offset c) (rc_input c))), c\<lparr>rc_offset := rc_offset c + n\<rparr>))"

definition rc_read_u8 :: "read_cursor \<Rightarrow> (decode_error, u8) result \<times> read_cursor" where
  "rc_read_u8 c =
     (let offset = rc_position c in
      case rc_take 1 c of
        (Inl e, c') \<Rightarrow> (Inl e, c')
      | (Inr bs, c') \<Rightarrow>
          (ok_or \<lparr>de_offset = offset, de_needed = 1, de_remaining = 0\<rparr> (get_at bs 0), c'))"

text \<open>\<open>read_u16\<close>, \<open>read_u32\<close> and \<open>read_u64\<close> differ in the width only.\<close>

definition rc_read_be :: "read_cursor \<Rightarrow> (decode_error, 'a::len word) result \<times> read_cursor" where
  "rc_read_be c =
     (let offset = rc_position c; width = LENGTH('a) div 8 in
      case rc_take width c of
        (Inl e, c') \<Rightarrow> (Inl e, c')
      | (Inr bs, c') \<Rightarrow>
          (if length bs = width then Inr (from_be bs)
           else Inl \<lparr>de_offset = offset, de_needed = width, de_remaining = length bs\<rparr>, c'))"

definition rc_read_u16 :: "read_cursor \<Rightarrow> (decode_error, u16) result \<times> read_cursor" where
  "rc_read_u16 = rc_read_be"

definition rc_read_u32 :: "read_cursor \<Rightarrow> (decode_error, u32) result \<times> read_cursor" where
  "rc_read_u32 = rc_read_be"

definition rc_read_u64 :: "read_cursor \<Rightarrow> (decode_error, u64) result \<times> read_cursor" where
  "rc_read_u64 = rc_read_be"

section \<open>Writer\<close>

record write_buffer =
  wb_bytes :: bytes
  wb_limit :: nat

definition wb_with_limit :: "nat \<Rightarrow> write_buffer" where
  "wb_with_limit limit = \<lparr>wb_bytes = [], wb_limit = limit\<rparr>"

definition wb_error :: "write_buffer \<Rightarrow> nat \<Rightarrow> encode_error" where
  "wb_error w additional =
     \<lparr>ee_current = length (wb_bytes w), ee_additional = additional, ee_limit = wb_limit w\<rparr>"

definition wb_extend_from_slice ::
    "bytes \<Rightarrow> write_buffer \<Rightarrow> (encode_error, unit) result \<times> write_buffer" where
  "wb_extend_from_slice value w =
     (let new_len = length (wb_bytes w) + length value in
      if new_len > wb_limit w then (Inl (wb_error w (length value)), w)
      else (Inr (), w\<lparr>wb_bytes := wb_bytes w @ value\<rparr>))"

definition wb_write_u8 :: "u8 \<Rightarrow> write_buffer \<Rightarrow> (encode_error, unit) result \<times> write_buffer" where
  "wb_write_u8 value = wb_extend_from_slice [value]"

definition wb_write_u16 :: "u16 \<Rightarrow> write_buffer \<Rightarrow> (encode_error, unit) result \<times> write_buffer" where
  "wb_write_u16 value = wb_extend_from_slice (to_be value)"

definition wb_write_u32 :: "u32 \<Rightarrow> write_buffer \<Rightarrow> (encode_error, unit) result \<times> write_buffer" where
  "wb_write_u32 value = wb_extend_from_slice (to_be value)"

definition wb_write_u64 :: "u64 \<Rightarrow> write_buffer \<Rightarrow> (encode_error, unit) result \<times> write_buffer" where
  "wb_write_u64 value = wb_extend_from_slice (to_be value)"

definition wb_set_slice ::
    "nat \<Rightarrow> bytes \<Rightarrow> write_buffer \<Rightarrow> (encode_error, unit) result \<times> write_buffer" where
  "wb_set_slice offset value w =
     (let stop = offset + length value in
      case get_range (wb_bytes w) offset stop of
        None \<Rightarrow> (Inl (wb_error w (length value)), w)
      | Some _ \<Rightarrow> (Inr (), w\<lparr>wb_bytes :=
          take offset (wb_bytes w) @ value @ drop stop (wb_bytes w)\<rparr>))"

definition wb_set_u16 :: "nat \<Rightarrow> u16 \<Rightarrow> write_buffer \<Rightarrow> (encode_error, unit) result \<times> write_buffer" where
  "wb_set_u16 offset value = wb_set_slice offset (to_be value)"

definition wb_set_u32 :: "nat \<Rightarrow> u32 \<Rightarrow> write_buffer \<Rightarrow> (encode_error, unit) result \<times> write_buffer" where
  "wb_set_u32 offset value = wb_set_slice offset (to_be value)"

section \<open>Sequences of calls\<close>

text \<open>What the protocol encoders do with a writer and the decoders with a cursor: a sequence of
  typed fields. The kind of a field fixes which reader is called.\<close>

datatype field = FU8 u8 | FU16 u16 | FU32 u32 | FU64 u64 | FBytes bytes

datatype field_kind = KU8 | KU16 | KU32 | KU64 | KBytes nat

fun kind_of :: "field \<Rightarrow> field_kind" where
  "kind_of (FU8 _) = KU8"
| "kind_of (FU16 _) = KU16"
| "kind_of (FU32 _) = KU32"
| "kind_of (FU64 _) = KU64"
| "kind_of (FBytes bs) = KBytes (length bs)"

fun field_bytes :: "field \<Rightarrow> bytes" where
  "field_bytes (FU8 v) = [v]"
| "field_bytes (FU16 v) = to_be v"
| "field_bytes (FU32 v) = to_be v"
| "field_bytes (FU64 v) = to_be v"
| "field_bytes (FBytes bs) = bs"

fun write_field :: "field \<Rightarrow> write_buffer \<Rightarrow> (encode_error, unit) result \<times> write_buffer" where
  "write_field (FU8 v) w = wb_write_u8 v w"
| "write_field (FU16 v) w = wb_write_u16 v w"
| "write_field (FU32 v) w = wb_write_u32 v w"
| "write_field (FU64 v) w = wb_write_u64 v w"
| "write_field (FBytes bs) w = wb_extend_from_slice bs w"

fun write_fields :: "field list \<Rightarrow> write_buffer \<Rightarrow> (encode_error, unit) result \<times> write_buffer" where
  "write_fields [] w = (Inr (), w)"
| "write_fields (f # fs) w =
     (case write_field f w of
        (Inl e, w') \<Rightarrow> (Inl e, w')
      | (Inr _, w') \<Rightarrow> write_fields fs w')"

definition map_read :: "('a \<Rightarrow> 'b) \<Rightarrow> (decode_error, 'a) result \<times> read_cursor \<Rightarrow>
    (decode_error, 'b) result \<times> read_cursor" where
  "map_read f rc = (bind_r (fst rc) (\<lambda>x. Inr (f x)), snd rc)"

fun read_field :: "field_kind \<Rightarrow> read_cursor \<Rightarrow> (decode_error, field) result \<times> read_cursor" where
  "read_field KU8 c = map_read FU8 (rc_read_u8 c)"
| "read_field KU16 c = map_read FU16 (rc_read_u16 c)"
| "read_field KU32 c = map_read FU32 (rc_read_u32 c)"
| "read_field KU64 c = map_read FU64 (rc_read_u64 c)"
| "read_field (KBytes n) c = map_read FBytes (rc_take n c)"

fun read_fields :: "field_kind list \<Rightarrow> read_cursor \<Rightarrow>
    (decode_error, field list) result \<times> read_cursor" where
  "read_fields [] c = (Inr [], c)"
| "read_fields (k # ks) c =
     (case read_field k c of
        (Inl e, c') \<Rightarrow> (Inl e, c')
      | (Inr f, c') \<Rightarrow> map_read (\<lambda>fs. f # fs) (read_fields ks c'))"

section \<open>Invariants\<close>

text \<open>A cursor stays inside its input and a writer inside its limit.\<close>

definition rc_wf :: "read_cursor \<Rightarrow> bool" where
  "rc_wf c \<longleftrightarrow> rc_offset c \<le> length (rc_input c)"

definition wb_wf :: "write_buffer \<Rightarrow> bool" where
  "wb_wf w \<longleftrightarrow> length (wb_bytes w) \<le> wb_limit w"

lemma rc_wf_new [simp]: "rc_wf (rc_new input)"
  by (simp add: rc_wf_def rc_new_def)

lemma rc_rest_eq: "rc_wf c \<Longrightarrow> rc_rest c = drop (rc_offset c) (rc_input c)"
  by (simp add: rc_rest_def rc_wf_def get_range_def)

lemma rc_rest_new [simp]: "rc_rest (rc_new input) = input"
  by (simp add: rc_rest_eq) (simp add: rc_new_def)

lemma rc_take_ok:
  assumes "rc_wf c" and "rc_rest c = bs @ rest"
  shows "rc_take (length bs) c = (Inr bs, c\<lparr>rc_offset := rc_offset c + length bs\<rparr>)"
    and "rc_wf (c\<lparr>rc_offset := rc_offset c + length bs\<rparr>)"
    and "rc_rest (c\<lparr>rc_offset := rc_offset c + length bs\<rparr>) = rest"
proof -
  have d: "drop (rc_offset c) (rc_input c) = bs @ rest"
    using assms by (simp add: rc_rest_eq)
  have "length (drop (rc_offset c) (rc_input c)) = length bs + length rest"
    by (simp only: d length_append)
  then have l: "length (rc_input c) = rc_offset c + length bs + length rest"
    using assms(1) by (simp add: rc_wf_def)
  then show "rc_take (length bs) c = (Inr bs, c\<lparr>rc_offset := rc_offset c + length bs\<rparr>)"
    using d by (simp add: rc_take_def rc_remaining_def)
  show wf: "rc_wf (c\<lparr>rc_offset := rc_offset c + length bs\<rparr>)"
    using l by (simp add: rc_wf_def)
  have "drop (length bs + rc_offset c) (rc_input c) = rest"
    by (metis append_eq_conv_conj d drop_drop)
  then show "rc_rest (c\<lparr>rc_offset := rc_offset c + length bs\<rparr>) = rest"
    by (simp add: rc_rest_eq [OF wf] add.commute)
qed

text \<open>A failed read returns the cursor it was given.\<close>

lemma rc_take_err: "rc_take n c = (Inl e, c') \<Longrightarrow> c' = c"
  by (auto simp: rc_take_def Let_def split: if_splits)

lemma rc_take_lenD: "rc_take n c = (Inr bs, c') \<Longrightarrow> length bs = n"
  by (auto simp: rc_take_def rc_remaining_def Let_def split: if_splits)

lemma rc_take_wf: "rc_wf c \<Longrightarrow> rc_take n c = (r, c') \<Longrightarrow> rc_wf c'"
  by (auto simp: rc_take_def rc_remaining_def rc_wf_def Let_def split: if_splits)

lemma rc_read_be_err: "(rc_read_be c :: (decode_error, 'a::len word) result \<times> _) = (Inl e, c') \<Longrightarrow> c' = c"
  by (auto simp: rc_read_be_def Let_def dest: rc_take_err rc_take_lenD
      split: prod.splits sum.splits if_splits)

lemma rc_read_u8_err: "rc_read_u8 c = (Inl e, c') \<Longrightarrow> c' = c"
  by (auto simp: rc_read_u8_def Let_def ok_or_def dest: rc_take_err rc_take_lenD
      split: prod.splits sum.splits option.splits)

lemma rc_read_be_ok:
  assumes "rc_wf c" and "rc_rest c = to_be (v :: 'a::len word) @ rest" and "8 dvd LENGTH('a)"
  shows "\<exists>c'. rc_read_be c = (Inr v, c') \<and> rc_wf c' \<and> rc_rest c' = rest"
  using rc_take_ok [OF assms(1,2)] by (simp add: rc_read_be_def from_be_to_be [OF assms(3)])

lemma rc_read_u8_ok:
  assumes "rc_wf c" and "rc_rest c = [v] @ rest"
  shows "\<exists>c'. rc_read_u8 c = (Inr v, c') \<and> rc_wf c' \<and> rc_rest c' = rest"
  using rc_take_ok [OF assms] by (simp add: rc_read_u8_def get_at_def)

lemmas rc_defs = rc_read_u16_def rc_read_u32_def rc_read_u64_def

lemma read_field_ok:
  assumes "rc_wf c" and "rc_rest c = field_bytes f @ rest"
  shows "\<exists>c'. read_field (kind_of f) c = (Inr f, c') \<and> rc_wf c' \<and> rc_rest c' = rest"
proof (cases f)
  case (FU8 v)
  with assms rc_read_u8_ok [of c v rest] show ?thesis by (auto simp: map_read_def)
next
  case (FU16 v)
  with assms rc_read_be_ok [of c v rest] show ?thesis by (auto simp: map_read_def rc_defs)
next
  case (FU32 v)
  with assms rc_read_be_ok [of c v rest] show ?thesis by (auto simp: map_read_def rc_defs)
next
  case (FU64 v)
  with assms rc_read_be_ok [of c v rest] show ?thesis by (auto simp: map_read_def rc_defs)
next
  case (FBytes bs)
  with assms rc_take_ok [of c bs rest] show ?thesis by (auto simp: map_read_def)
qed

lemma read_fields_ok:
  assumes "rc_wf c" and "rc_rest c = concat (map field_bytes fs) @ rest"
  shows "\<exists>c'. read_fields (map kind_of fs) c = (Inr fs, c') \<and> rc_wf c' \<and> rc_rest c' = rest"
  using assms
proof (induction fs arbitrary: c)
  case Nil
  then show ?case by simp
next
  case (Cons f fs)
  from Cons.prems have "rc_rest c = field_bytes f @ (concat (map field_bytes fs) @ rest)"
    by simp
  from read_field_ok [OF Cons.prems(1) this] obtain c1 where
    c1: "read_field (kind_of f) c = (Inr f, c1)" and
    "rc_wf c1" and "rc_rest c1 = concat (map field_bytes fs) @ rest"
    by blast
  then obtain c2 where "read_fields (map kind_of fs) c1 = (Inr fs, c2)"
    and "rc_wf c2" and "rc_rest c2 = rest"
    using Cons.IH by blast
  with c1 show ?case by (simp add: map_read_def)
qed

text \<open>The writer: a field is either appended as a whole or refused with the writer unchanged.\<close>

lemmas wb_defs = wb_write_u8_def wb_write_u16_def wb_write_u32_def wb_write_u64_def

lemma write_field_eq: "write_field f w = wb_extend_from_slice (field_bytes f) w"
  by (cases f) (simp_all add: wb_defs)

lemma wb_extend_ok:
  "wb_extend_from_slice v w = (Inr u, w') \<longleftrightarrow>
     length (wb_bytes w) + length v \<le> wb_limit w \<and> w' = w\<lparr>wb_bytes := wb_bytes w @ v\<rparr>"
  by (auto simp: wb_extend_from_slice_def Let_def)

lemma wb_extend_err:
  "wb_extend_from_slice v w = (Inl e, w') \<longleftrightarrow>
     length (wb_bytes w) + length v > wb_limit w \<and> w' = w \<and> e = wb_error w (length v)"
  by (auto simp: wb_extend_from_slice_def Let_def)

lemma wb_extend_wf: "wb_wf w \<Longrightarrow> wb_extend_from_slice v w = (r, w') \<Longrightarrow> wb_wf w'"
  by (auto simp: wb_extend_from_slice_def wb_wf_def Let_def split: if_splits)

lemma wb_set_slice_wf: "wb_wf w \<Longrightarrow> wb_set_slice i v w = (r, w') \<Longrightarrow> wb_wf w'"
  by (auto simp: wb_set_slice_def wb_wf_def get_range_def Let_def split: if_splits)

lemma write_fields_ok:
  assumes "write_fields fs w = (Inr u, w')"
  shows "wb_bytes w' = wb_bytes w @ concat (map field_bytes fs) \<and> wb_limit w' = wb_limit w"
  using assms
proof (induction fs arbitrary: w)
  case Nil
  then show ?case by simp
next
  case (Cons f fs)
  from Cons.prems obtain u1 w1 where w1: "write_field f w = (Inr u1, w1)"
    and "write_fields fs w1 = (Inr u, w')"
    by (auto split: prod.splits sum.splits)
  with Cons.IH have "wb_bytes w' = wb_bytes w1 @ concat (map field_bytes fs)"
    and "wb_limit w' = wb_limit w1" by blast+
  with w1 show ?case by (auto simp: write_field_eq wb_extend_ok)
qed

lemma write_fields_wf: "wb_wf w \<Longrightarrow> write_fields fs w = (r, w') \<Longrightarrow> wb_wf w'"
proof (induction fs arbitrary: w)
  case Nil
  then show ?case by simp
next
  case (Cons f fs)
  then show ?case
    by (auto simp: write_field_eq split: prod.splits sum.splits dest: wb_extend_wf)
qed

lemma write_fields_fit:
  "length (wb_bytes w) + length (concat (map field_bytes fs)) \<le> wb_limit w \<Longrightarrow>
     \<exists>w'. write_fields fs w = (Inr (), w')"
proof (induction fs arbitrary: w)
  case Nil
  then show ?case by simp
next
  case (Cons f fs)
  let ?w1 = "w\<lparr>wb_bytes := wb_bytes w @ field_bytes f\<rparr>"
  from Cons.prems have "write_field f w = (Inr (), ?w1)"
    by (simp add: write_field_eq wb_extend_ok)
  moreover have "\<exists>w'. write_fields fs ?w1 = (Inr (), w')"
    using Cons.prems by (intro Cons.IH) simp
  ultimately show ?case by simp
qed

section \<open>Properties\<close>

text \<open>Writing a sequence of fields with a bounded \<open>WriteBuffer\<close> succeeds exactly when the
  encoded fields fit the limit; the encoding is then the concatenation of the fields, it does not
  exceed the limit, and a \<open>ReadCursor\<close> over it reads the same fields back and ends empty.\<close>

lemma codec_fields_roundtrip:
  "(\<exists>w. write_fields fs (wb_with_limit limit) = (Inr (), w) \<and>
        wb_bytes w = concat (map field_bytes fs) \<and> length (wb_bytes w) \<le> limit \<and>
        (\<exists>c. read_fields (map kind_of fs) (rc_new (wb_bytes w)) = (Inr fs, c) \<and> rc_is_empty c))
   = (length (concat (map field_bytes fs)) \<le> limit)"
    (is "?L = ?R")
proof
  assume ?L
  then show ?R by auto
next
  assume ?R
  then obtain w where w: "write_fields fs (wb_with_limit limit) = (Inr (), w)"
    using write_fields_fit [of "wb_with_limit limit" fs] by (auto simp: wb_with_limit_def)
  then have b: "wb_bytes w = concat (map field_bytes fs)"
    using write_fields_ok [OF w] by (simp add: wb_with_limit_def)
  then obtain c where "read_fields (map kind_of fs) (rc_new (wb_bytes w)) = (Inr fs, c)"
    and "rc_wf c" and "rc_rest c = []"
    using read_fields_ok [of "rc_new (wb_bytes w)" fs "[]"] by auto
  moreover from this have "rc_is_empty c"
    by (simp add: rc_is_empty_def rc_remaining_def rc_rest_eq)
  ultimately show ?L using w b \<open>?R\<close> by auto
qed

end
