(* ===== verification/Domain_Room.thy ===== *)
theory Domain_Room
  imports Fluvora_Prelude
begin

text \<open>
  The event-sourced room aggregate of \<open>crates/foundation/domain/src/lib.rs\<close>: commands are
  decided against the current state (\<open>decide_*\<close>), the accepted ones become events, and
  \<open>apply\<close> is the only function that changes a room. \<open>HashMap\<close> members are an association
  list with distinct keys, \<open>HashSet\<close> fields are finite sets, \<open>VecDeque\<close> histories are lists
  whose head is the front.
\<close>

section \<open>Identifiers and values\<close>

datatype user_id = UserId (user_word: u128)
datatype room_id = RoomId u128
datatype command_id = CommandId u128

instantiation user_id :: linorder
begin

definition less_eq_user_id :: "user_id \<Rightarrow> user_id \<Rightarrow> bool" where
  "less_eq_user_id a b \<longleftrightarrow> user_word a \<le> user_word b"

definition less_user_id :: "user_id \<Rightarrow> user_id \<Rightarrow> bool" where
  "less_user_id a b \<longleftrightarrow> user_word a < user_word b"

instance
  by standard (auto simp: less_eq_user_id_def less_user_id_def user_id.expand)

end

datatype room_mode = Sfu | P2p | Live | Vod

datatype member_role = Host | CoHost | Publisher | Audience

fun can_publish :: "member_role \<Rightarrow> bool" where
  "can_publish Host = True"
| "can_publish CoHost = True"
| "can_publish Publisher = True"
| "can_publish Audience = False"

fun can_moderate :: "member_role \<Rightarrow> bool" where
  "can_moderate Host = True"
| "can_moderate CoHost = True"
| "can_moderate Publisher = False"
| "can_moderate Audience = False"

definition max_chat_bytes_const :: nat where
  "max_chat_bytes_const = 4096"

definition max_custom_namespace_bytes :: nat where
  "max_custom_namespace_bytes = 64"

definition max_custom_data_bytes_const :: nat where
  "max_custom_data_bytes_const = 60 * 1024"

definition command_history_limit :: nat where
  "command_history_limit = 4096"

definition gift_transaction_history_limit :: nat where
  "gift_transaction_history_limit = 4096"

definition max_gift_transaction_id_bytes :: nat where
  "max_gift_transaction_id_bytes = 512"

definition max_gift_id_bytes :: nat where
  "max_gift_id_bytes = 256"

record room_policy =
  max_members :: nat
  max_publishers :: nat
  max_chat_bytes :: nat
  max_custom_data_bytes :: nat

definition default_policy :: room_policy where
  "default_policy =
     \<lparr>max_members = 10000, max_publishers = 32, max_chat_bytes = max_chat_bytes_const,
      max_custom_data_bytes = max_custom_data_bytes_const\<rparr>"

record verified_gift_receipt =
  transaction_id :: rust_string
  gift_id :: rust_string
  quantity :: u32
  unit_value :: u64
  currency :: rust_string
  recipient :: user_id

record custom_data =
  cd_namespace :: rust_string
  cd_schema_version :: u16
  cd_payload :: bytes

datatype room_command =
    Join user_id
  | Leave user_id
  | SetRole (actor: user_id) (target: user_id) (new_role: member_role)
  | StartPublishing user_id
  | StopPublishing user_id
  | SendChat user_id u128 rust_string
  | RecordVerifiedGift user_id verified_gift_receipt
  | SendCustomData user_id custom_data
  | End user_id

datatype room_event_kind =
    Created user_id room_mode
  | MemberJoined user_id member_role
  | MemberLeft user_id
  | RoleChanged user_id member_role
  | PublishingStarted user_id
  | PublishingStopped user_id
  | ChatSent user_id u128 rust_string
  | GiftRecorded user_id verified_gift_receipt u64
  | CustomDataSent user_id custom_data
  | Ended user_id

record room_event =
  ev_sequence :: u64
  ev_command_id :: command_id
  ev_timestamp_millis :: u64
  ev_kind :: room_event_kind

datatype command_outcome = Applied room_event | Duplicate

datatype room_error =
    EmptyEventStream
  | InvalidCreationEvent
  | InvalidSnapshot
  | EventSequenceGap u64 u64
  | SequenceExhausted
  | RoomEnded
  | AlreadyMember user_id
  | NotMember user_id
  | PermissionDenied user_id
  | HostCannotLeave
  | MemberLimit
  | PublisherLimit
  | AlreadyPublishing user_id
  | NotPublishing user_id
  | InvalidChatLength nat
  | InvalidGiftReceipt
  | DuplicateGiftTransaction
  | GiftValueOverflow
  | InvalidCustomData

record room =
  rm_id :: room_id
  rm_mode :: room_mode
  rm_policy :: room_policy
  rm_members :: "(user_id, member_role) hash_map"
  rm_publishers :: "user_id set"
  rm_ended :: bool
  rm_sequence :: u64
  rm_processed_commands :: "command_id set"
  rm_command_order :: "command_id list"
  rm_gift_transactions :: "rust_string set"
  rm_gift_transaction_order :: "rust_string list"

record room_snapshot =
  sn_schema_version :: u8
  sn_id :: room_id
  sn_mode :: room_mode
  sn_policy :: room_policy
  sn_members :: "(user_id \<times> member_role) list"
  sn_publishers :: "user_id list"
  sn_ended :: bool
  sn_sequence :: u64
  sn_command_order :: "command_id list"
  sn_gift_transaction_order :: "rust_string list"

section \<open>Validation\<close>

definition valid_custom_namespace :: "rust_string \<Rightarrow> bool" where
  "valid_custom_namespace value =
     (let bytes = str_bytes value in
      bytes \<noteq> [] \<and> length bytes \<le> max_custom_namespace_bytes \<and>
      is_ascii_alphanumeric (hd bytes) \<and> is_ascii_alphanumeric (last bytes) \<and>
      list_all (\<lambda>b. is_ascii_alphanumeric b \<or> b = 46 \<or> b = 95 \<or> b = 45) bytes)"

definition valid_gift_text :: "rust_string \<Rightarrow> nat \<Rightarrow> bool" where
  "valid_gift_text value maximum_bytes \<longleftrightarrow>
     value \<noteq> [] \<and> str_len value \<le> maximum_bytes \<and> \<not> list_ex is_control value"

section \<open>Deciding commands\<close>

definition require_member :: "room \<Rightarrow> user_id \<Rightarrow> (room_error, member_role) result" where
  "require_member r user = ok_or (NotMember user) (hm_get (rm_members r) user)"

definition decide_join :: "room \<Rightarrow> user_id \<Rightarrow> (room_error, room_event_kind) result" where
  "decide_join r user =
     (if hm_contains (rm_members r) user then Inl (AlreadyMember user)
      else if length (rm_members r) \<ge> max_members (rm_policy r) then Inl MemberLimit
      else Inr (MemberJoined user Audience))"

definition decide_leave :: "room \<Rightarrow> user_id \<Rightarrow> (room_error, room_event_kind) result" where
  "decide_leave r user =
     bind_r (require_member r user) (\<lambda>role.
       case role of Host \<Rightarrow> Inl HostCannotLeave | _ \<Rightarrow> Inr (MemberLeft user))"

definition decide_role_change ::
    "room \<Rightarrow> user_id \<Rightarrow> user_id \<Rightarrow> member_role \<Rightarrow> (room_error, room_event_kind) result" where
  "decide_role_change r act user role =
     bind_r (require_member r act) (\<lambda>actor_role.
     bind_r (require_member r user) (\<lambda>current.
       if \<not> can_moderate actor_role \<or>
          (actor_role = CoHost \<and> (current = Host \<or> current = CoHost)) \<or>
          current = Host \<or> role = Host
       then Inl (PermissionDenied act)
       else Inr (RoleChanged user role)))"

definition decide_start_publishing :: "room \<Rightarrow> user_id \<Rightarrow> (room_error, room_event_kind) result" where
  "decide_start_publishing r user =
     bind_r (require_member r user) (\<lambda>role.
       if rm_mode r = Vod \<or> \<not> can_publish role then Inl (PermissionDenied user)
       else if user \<in> rm_publishers r then Inl (AlreadyPublishing user)
       else if card (rm_publishers r) \<ge> max_publishers (rm_policy r) then Inl PublisherLimit
       else Inr (PublishingStarted user))"

definition decide_stop_publishing :: "room \<Rightarrow> user_id \<Rightarrow> (room_error, room_event_kind) result" where
  "decide_stop_publishing r user =
     bind_r (require_member r user) (\<lambda>_.
       if user \<notin> rm_publishers r then Inl (NotPublishing user)
       else Inr (PublishingStopped user))"

definition decide_chat ::
    "room \<Rightarrow> user_id \<Rightarrow> u128 \<Rightarrow> rust_string \<Rightarrow> (room_error, room_event_kind) result" where
  "decide_chat r user message_id text =
     bind_r (require_member r user) (\<lambda>_.
       if text = [] \<or> str_len text > max_chat_bytes (rm_policy r)
       then Inl (InvalidChatLength (str_len text))
       else Inr (ChatSent user message_id text))"

definition decide_gift ::
    "room \<Rightarrow> user_id \<Rightarrow> verified_gift_receipt \<Rightarrow> (room_error, room_event_kind) result" where
  "decide_gift r sender receipt =
     bind_r (require_member r sender) (\<lambda>_.
     bind_r (require_member r (recipient receipt)) (\<lambda>_.
       if \<not> valid_gift_text (transaction_id receipt) max_gift_transaction_id_bytes \<or>
          \<not> valid_gift_text (gift_id receipt) max_gift_id_bytes \<or>
          quantity receipt = 0 \<or>
          str_len (currency receipt) \<noteq> 3 \<or>
          \<not> list_all is_ascii_uppercase (str_bytes (currency receipt))
       then Inl InvalidGiftReceipt
       else if transaction_id receipt \<in> rm_gift_transactions r then Inl DuplicateGiftTransaction
       else bind_r (ok_or GiftValueOverflow
                      (checked_mul (unit_value receipt) (ucast (quantity receipt))))
              (\<lambda>total_value. Inr (GiftRecorded sender receipt total_value))))"

definition decide_custom_data ::
    "room \<Rightarrow> user_id \<Rightarrow> custom_data \<Rightarrow> (room_error, room_event_kind) result" where
  "decide_custom_data r user data =
     bind_r (require_member r user) (\<lambda>_.
       if \<not> valid_custom_namespace (cd_namespace data) \<or>
          length (cd_payload data) > max_custom_data_bytes (rm_policy r)
       then Inl InvalidCustomData
       else Inr (CustomDataSent user data))"

definition decide_end :: "room \<Rightarrow> user_id \<Rightarrow> (room_error, room_event_kind) result" where
  "decide_end r act =
     bind_r (require_member r act) (\<lambda>role.
       if role \<noteq> Host then Inl (PermissionDenied act) else Inr (Ended act))"

fun decide :: "room \<Rightarrow> room_command \<Rightarrow> (room_error, room_event_kind) result" where
  "decide r (Join user) = decide_join r user"
| "decide r (Leave user) = decide_leave r user"
| "decide r (SetRole act user role) = decide_role_change r act user role"
| "decide r (StartPublishing user) = decide_start_publishing r user"
| "decide r (StopPublishing user) = decide_stop_publishing r user"
| "decide r (SendChat user message_id text) = decide_chat r user message_id text"
| "decide r (RecordVerifiedGift sender receipt) = decide_gift r sender receipt"
| "decide r (SendCustomData user data) = decide_custom_data r user data"
| "decide r (End act) = decide_end r act"

section \<open>Applying events\<close>

text \<open>The \<open>while\<close> loop that drops the oldest entries of a history beyond its limit.\<close>

fun evict_front :: "nat \<Rightarrow> 'a set \<Rightarrow> 'a list \<Rightarrow> 'a set \<times> 'a list" where
  "evict_front limit seen [] = (seen, [])"
| "evict_front limit seen (x # xs) =
     (if length (x # xs) > limit then evict_front limit (seen - {x}) xs else (seen, x # xs))"

definition remember_command :: "command_id \<Rightarrow> room \<Rightarrow> room" where
  "remember_command cid r =
     (let seen = rm_processed_commands r;
          order = (if cid \<in> seen then rm_command_order r else rm_command_order r @ [cid]);
          (seen', order') = evict_front command_history_limit (insert cid seen) order
      in r\<lparr>rm_processed_commands := seen', rm_command_order := order'\<rparr>)"

definition remember_gift_transaction :: "rust_string \<Rightarrow> room \<Rightarrow> room" where
  "remember_gift_transaction tx r =
     (let seen = rm_gift_transactions r;
          order = (if tx \<in> seen then rm_gift_transaction_order r
                   else rm_gift_transaction_order r @ [tx]);
          (seen', order') = evict_front gift_transaction_history_limit (insert tx seen) order
      in r\<lparr>rm_gift_transactions := seen', rm_gift_transaction_order := order'\<rparr>)"

definition set_member_role :: "user_id \<Rightarrow> member_role \<Rightarrow> room \<Rightarrow> room" where
  "set_member_role user role r =
     (let r' = r\<lparr>rm_members := hm_insert user role (rm_members r)\<rparr> in
      if can_publish role then r' else r'\<lparr>rm_publishers := rm_publishers r' - {user}\<rparr>)"

fun apply_kind :: "room_event_kind \<Rightarrow> room \<Rightarrow> room" where
  "apply_kind (Created host _) r = r\<lparr>rm_members := hm_insert host Host (rm_members r)\<rparr>"
| "apply_kind (MemberJoined user role) r = set_member_role user role r"
| "apply_kind (RoleChanged user role) r = set_member_role user role r"
| "apply_kind (MemberLeft user) r =
     r\<lparr>rm_members := hm_remove user (rm_members r), rm_publishers := rm_publishers r - {user}\<rparr>"
| "apply_kind (PublishingStarted user) r = r\<lparr>rm_publishers := insert user (rm_publishers r)\<rparr>"
| "apply_kind (PublishingStopped user) r = r\<lparr>rm_publishers := rm_publishers r - {user}\<rparr>"
| "apply_kind (GiftRecorded _ receipt _) r = remember_gift_transaction (transaction_id receipt) r"
| "apply_kind (Ended _) r = r\<lparr>rm_publishers := {}, rm_ended := True\<rparr>"
| "apply_kind (ChatSent _ _ _) r = r"
| "apply_kind (CustomDataSent _ _) r = r"

definition apply_event :: "room_event \<Rightarrow> room \<Rightarrow> room" where
  "apply_event e r =
     remember_command (ev_command_id e) ((apply_kind (ev_kind e) r)\<lparr>rm_sequence := ev_sequence e\<rparr>)"

section \<open>Creating, executing, restoring\<close>

definition empty_room :: "room_id \<Rightarrow> room_mode \<Rightarrow> room_policy \<Rightarrow> room" where
  "empty_room rid mode policy =
     \<lparr>rm_id = rid, rm_mode = mode, rm_policy = policy, rm_members = [], rm_publishers = {},
      rm_ended = False, rm_sequence = 0, rm_processed_commands = {}, rm_command_order = [],
      rm_gift_transactions = {}, rm_gift_transaction_order = []\<rparr>"

definition create :: "room_id \<Rightarrow> room_mode \<Rightarrow> user_id \<Rightarrow> room_policy \<Rightarrow> command_id \<Rightarrow> u64 \<Rightarrow>
    room \<times> room_event" where
  "create rid mode host policy cid timestamp =
     (let event = \<lparr>ev_sequence = 1, ev_command_id = cid, ev_timestamp_millis = timestamp,
                   ev_kind = Created host mode\<rparr>
      in (apply_event event (empty_room rid mode policy), event))"

definition execute :: "room \<Rightarrow> command_id \<Rightarrow> u64 \<Rightarrow> room_command \<Rightarrow>
    (room_error, command_outcome) result \<times> room" where
  "execute r cid timestamp command =
     (if cid \<in> rm_processed_commands r then (Inr Duplicate, r)
      else if rm_ended r then (Inl RoomEnded, r)
      else case decide r command of
        Inl e \<Rightarrow> (Inl e, r)
      | Inr kind \<Rightarrow>
          (case checked_add (rm_sequence r) 1 of
             None \<Rightarrow> (Inl SequenceExhausted, r)
           | Some next_sequence \<Rightarrow>
               (let event = \<lparr>ev_sequence = next_sequence, ev_command_id = cid,
                             ev_timestamp_millis = timestamp, ev_kind = kind\<rparr>
                in (Inr (Applied event), apply_event event r))))"

text \<open>\<open>room.sequence + 1\<close> is unchecked in the source; the word addition wraps as the release
  profile does. The event that reaches \<open>u64::MAX\<close> is the last one \<open>execute\<close> produces.\<close>

fun replay_events :: "room_event list \<Rightarrow> room \<Rightarrow> (room_error, room) result" where
  "replay_events [] r = Inr r"
| "replay_events (e # es) r =
     (let expected = rm_sequence r + 1 in
      if ev_sequence e \<noteq> expected then Inl (EventSequenceGap expected (ev_sequence e))
      else replay_events es (apply_event e r))"

definition is_creation_event :: "room_mode \<Rightarrow> room_event \<Rightarrow> bool" where
  "is_creation_event mode e =
     (case ev_kind e of Created _ event_mode \<Rightarrow> event_mode = mode | _ \<Rightarrow> False)"

definition restore :: "room_id \<Rightarrow> room_mode \<Rightarrow> room_policy \<Rightarrow> room_event list \<Rightarrow>
    (room_error, room) result" where
  "restore rid mode policy events =
     bind_r (ok_or EmptyEventStream (get_at events 0)) (\<lambda>first.
       if \<not> is_creation_event mode first then Inl InvalidCreationEvent
       else replay_events events (empty_room rid mode policy))"

definition snapshot :: "room \<Rightarrow> room_snapshot" where
  "snapshot r =
     \<lparr>sn_schema_version = 1, sn_id = rm_id r, sn_mode = rm_mode r, sn_policy = rm_policy r,
      sn_members = sort_key fst (rm_members r),
      sn_publishers = sorted_list_of_set (rm_publishers r),
      sn_ended = rm_ended r, sn_sequence = rm_sequence r,
      sn_command_order = rm_command_order r,
      sn_gift_transaction_order = rm_gift_transaction_order r\<rparr>"

definition policy_valid :: "room_policy \<Rightarrow> bool" where
  "policy_valid policy \<longleftrightarrow>
     2 \<le> max_members policy \<and> max_members policy \<le> 100000 \<and>
     1 \<le> max_publishers policy \<and> max_publishers policy \<le> 1024 \<and>
     1 \<le> max_chat_bytes policy \<and> max_chat_bytes policy \<le> max_chat_bytes_const \<and>
     1 \<le> max_custom_data_bytes policy \<and>
     max_custom_data_bytes policy \<le> max_custom_data_bytes_const"

definition restore_snapshot :: "room_snapshot \<Rightarrow> (room_error, room) result" where
  "restore_snapshot s =
     (let members = hm_of_list (sn_members s);
          publishers = set (sn_publishers s);
          processed_commands = set (sn_command_order s);
          gift_transactions = set (sn_gift_transaction_order s);
          policy = sn_policy s;
          histories_valid =
            (sn_command_order s \<noteq> [] \<and>
             length (sn_command_order s) \<le> command_history_limit \<and>
             card processed_commands = length (sn_command_order s) \<and>
             length (sn_gift_transaction_order s) \<le> gift_transaction_history_limit \<and>
             card gift_transactions = length (sn_gift_transaction_order s) \<and>
             list_all (\<lambda>tx. valid_gift_text tx max_gift_transaction_id_bytes)
               (sn_gift_transaction_order s));
          membership_valid =
            (members \<noteq> [] \<and> length members = length (sn_members s) \<and>
             length members \<le> max_members policy \<and>
             length (filter (\<lambda>p. snd p = Host) members) = 1);
          publishers_valid =
            (card publishers = length (sn_publishers s) \<and>
             card publishers \<le> max_publishers policy \<and>
             (\<forall>user\<in>publishers. case hm_get members user of
                 None \<Rightarrow> False | Some role \<Rightarrow> can_publish role) \<and>
             (\<not> sn_ended s \<or> publishers = {}))
      in if sn_schema_version s \<noteq> 1 \<or> sn_sequence s = 0 \<or> \<not> policy_valid policy \<or>
            \<not> histories_valid \<or> \<not> membership_valid \<or> \<not> publishers_valid
         then Inl InvalidSnapshot
         else Inr
           \<lparr>rm_id = sn_id s, rm_mode = sn_mode s, rm_policy = policy, rm_members = members,
            rm_publishers = publishers, rm_ended = sn_ended s, rm_sequence = sn_sequence s,
            rm_processed_commands = processed_commands,
            rm_command_order = sn_command_order s,
            rm_gift_transactions = gift_transactions,
            rm_gift_transaction_order = sn_gift_transaction_order s\<rparr>)"

section \<open>Histories\<close>

text \<open>The room keeps two bounded duplicate-suppression histories, each a set of the entries and a
  queue of them in arrival order. Both obey one contract: the queue is the most recent entries, the
  set its elements.\<close>

definition last_n :: "nat \<Rightarrow> 'a list \<Rightarrow> 'a list" where
  "last_n n xs = drop (length xs - n) xs"

definition history_ok :: "nat \<Rightarrow> 'a set \<Rightarrow> 'a list \<Rightarrow> bool" where
  "history_ok limit seen order \<longleftrightarrow> seen = set order \<and> distinct order \<and> length order \<le> limit"

lemma last_n_all: "length xs \<le> n \<Longrightarrow> last_n n xs = xs"
  by (simp add: last_n_def)

lemma last_n_Cons: "last_n n (x # xs) = (if n \<le> length xs then last_n n xs else x # xs)"
  by (auto simp: last_n_def Suc_diff_le)

lemma length_last_n: "length (last_n n xs) \<le> n"
  by (simp add: last_n_def)

lemma distinct_last_n: "distinct xs \<Longrightarrow> distinct (last_n n xs)"
  by (simp add: last_n_def)

lemma last_n_snoc: "0 < n \<Longrightarrow> last_n n (last_n n xs @ [x]) = last_n n (xs @ [x])"
  by (cases "length xs < n") (auto simp: last_n_def Suc_diff_le)

lemma last_n_snoc_neq_Nil: "0 < n \<Longrightarrow> last_n n (xs @ [x]) \<noteq> []"
  by (simp add: last_n_def)

lemma evict_front_eq:
  "seen = set order \<Longrightarrow> distinct order \<Longrightarrow>
     evict_front limit seen order = (set (last_n limit order), last_n limit order)"
proof (induction limit seen order rule: evict_front.induct)
  case (1 limit seen)
  then show ?case by (simp add: last_n_def)
next
  case (2 limit seen x xs)
  show ?case
  proof (cases "length (x # xs) > limit")
    case True
    with 2 show ?thesis by (auto simp: last_n_Cons)
  next
    case False
    with 2 show ?thesis by (simp add: last_n_Cons)
  qed
qed

locale dedup_history =
  fixes limit :: nat
    and seen :: "'s \<Rightarrow> 'a set"
    and order :: "'s \<Rightarrow> 'a list"
    and remember :: "'a \<Rightarrow> 's \<Rightarrow> 's"
  assumes limit_pos: "0 < limit"
    and remember_old: "history_ok limit (seen s) (order s) \<Longrightarrow> x \<in> seen s \<Longrightarrow>
      order (remember x s) = order s \<and> seen (remember x s) = seen s"
    and remember_new: "history_ok limit (seen s) (order s) \<Longrightarrow> x \<notin> seen s \<Longrightarrow>
      order (remember x s) = last_n limit (order s @ [x]) \<and>
      seen (remember x s) = set (last_n limit (order s @ [x]))"
begin

lemma remember_ok:
  assumes "history_ok limit (seen s) (order s)"
  shows "history_ok limit (seen (remember x s)) (order (remember x s))"
proof (cases "x \<in> seen s")
  case True
  with assms remember_old show ?thesis by metis
next
  case False
  with assms have "distinct (order s @ [x])" by (simp add: history_ok_def)
  with False show ?thesis
    using remember_new [OF assms False]
    by (simp add: history_ok_def distinct_last_n length_last_n)
qed

lemma remember_log:
  assumes "history_ok limit (seen s) (order s)" and "order s = last_n limit log" and "x \<notin> seen s"
  shows "order (remember x s) = last_n limit (log @ [x])"
  using remember_new [OF assms(1,3)] assms(2) last_n_snoc [OF limit_pos] by metis

lemma remember_neq_Nil:
  assumes "history_ok limit (seen s) (order s)"
  shows "order (remember x s) \<noteq> []"
proof (cases "x \<in> seen s")
  case True
  with assms remember_old [OF assms True] show ?thesis by (auto simp: history_ok_def)
next
  case False
  then show ?thesis using remember_new [OF assms False] last_n_snoc_neq_Nil [OF limit_pos] by metis
qed

end

interpretation commands: dedup_history command_history_limit rm_processed_commands
    rm_command_order remember_command
proof
  show "0 < command_history_limit" by (simp add: command_history_limit_def)
qed (auto simp: remember_command_def history_ok_def Let_def evict_front_eq last_n_all insert_absorb)

interpretation gifts: dedup_history gift_transaction_history_limit rm_gift_transactions
    rm_gift_transaction_order remember_gift_transaction
proof
  show "0 < gift_transaction_history_limit" by (simp add: gift_transaction_history_limit_def)
qed (auto simp: remember_gift_transaction_def history_ok_def Let_def evict_front_eq last_n_all
    insert_absorb)

text \<open>Remembering touches nothing but its own history.\<close>

lemma remember_command_frame [simp]:
  "rm_id (remember_command c r) = rm_id r"
  "rm_mode (remember_command c r) = rm_mode r"
  "rm_policy (remember_command c r) = rm_policy r"
  "rm_members (remember_command c r) = rm_members r"
  "rm_publishers (remember_command c r) = rm_publishers r"
  "rm_ended (remember_command c r) = rm_ended r"
  "rm_sequence (remember_command c r) = rm_sequence r"
  "rm_gift_transactions (remember_command c r) = rm_gift_transactions r"
  "rm_gift_transaction_order (remember_command c r) = rm_gift_transaction_order r"
  by (simp_all add: remember_command_def Let_def split: prod.splits)

lemma remember_gift_frame [simp]:
  "rm_id (remember_gift_transaction t r) = rm_id r"
  "rm_mode (remember_gift_transaction t r) = rm_mode r"
  "rm_policy (remember_gift_transaction t r) = rm_policy r"
  "rm_members (remember_gift_transaction t r) = rm_members r"
  "rm_publishers (remember_gift_transaction t r) = rm_publishers r"
  "rm_ended (remember_gift_transaction t r) = rm_ended r"
  "rm_sequence (remember_gift_transaction t r) = rm_sequence r"
  "rm_processed_commands (remember_gift_transaction t r) = rm_processed_commands r"
  "rm_command_order (remember_gift_transaction t r) = rm_command_order r"
  by (simp_all add: remember_gift_transaction_def Let_def split: prod.splits)

lemma set_member_role_frame [simp]:
  "rm_id (set_member_role u x r) = rm_id r"
  "rm_mode (set_member_role u x r) = rm_mode r"
  "rm_policy (set_member_role u x r) = rm_policy r"
  "rm_members (set_member_role u x r) = hm_insert u x (rm_members r)"
  "rm_publishers (set_member_role u x r) =
     (if can_publish x then rm_publishers r else rm_publishers r - {u})"
  "rm_ended (set_member_role u x r) = rm_ended r"
  "rm_sequence (set_member_role u x r) = rm_sequence r"
  "rm_processed_commands (set_member_role u x r) = rm_processed_commands r"
  "rm_command_order (set_member_role u x r) = rm_command_order r"
  "rm_gift_transactions (set_member_role u x r) = rm_gift_transactions r"
  "rm_gift_transaction_order (set_member_role u x r) = rm_gift_transaction_order r"
  by (simp_all add: set_member_role_def Let_def)

lemma apply_kind_frame [simp]:
  "rm_id (apply_kind k r) = rm_id r"
  "rm_mode (apply_kind k r) = rm_mode r"
  "rm_policy (apply_kind k r) = rm_policy r"
  "rm_sequence (apply_kind k r) = rm_sequence r"
  "rm_processed_commands (apply_kind k r) = rm_processed_commands r"
  "rm_command_order (apply_kind k r) = rm_command_order r"
  by (cases k; simp)+

lemma apply_event_frame [simp]:
  "rm_id (apply_event e r) = rm_id r"
  "rm_mode (apply_event e r) = rm_mode r"
  "rm_policy (apply_event e r) = rm_policy r"
  "rm_members (apply_event e r) = rm_members (apply_kind (ev_kind e) r)"
  "rm_publishers (apply_event e r) = rm_publishers (apply_kind (ev_kind e) r)"
  "rm_ended (apply_event e r) = rm_ended (apply_kind (ev_kind e) r)"
  "rm_sequence (apply_event e r) = ev_sequence e"
  "rm_gift_transactions (apply_event e r) = rm_gift_transactions (apply_kind (ev_kind e) r)"
  "rm_gift_transaction_order (apply_event e r) =
     rm_gift_transaction_order (apply_kind (ev_kind e) r)"
  by (simp_all add: apply_event_def)

section \<open>The aggregate invariant\<close>

definition members_ok :: "room \<Rightarrow> bool" where
  "members_ok r \<longleftrightarrow>
     hm_wf (rm_members r) \<and> length (rm_members r) \<le> max_members (rm_policy r) \<and>
     (\<exists>!host. hm_get (rm_members r) host = Some Host)"

definition publishers_ok :: "room \<Rightarrow> bool" where
  "publishers_ok r \<longleftrightarrow>
     finite (rm_publishers r) \<and> card (rm_publishers r) \<le> max_publishers (rm_policy r) \<and>
     (\<forall>u\<in>rm_publishers r. \<exists>role. hm_get (rm_members r) u = Some role \<and> can_publish role) \<and>
     (rm_ended r \<longrightarrow> rm_publishers r = {})"

definition histories_ok :: "room \<Rightarrow> bool" where
  "histories_ok r \<longleftrightarrow>
     rm_command_order r \<noteq> [] \<and>
     history_ok command_history_limit (rm_processed_commands r) (rm_command_order r) \<and>
     history_ok gift_transaction_history_limit (rm_gift_transactions r) (rm_gift_transaction_order r) \<and>
     (\<forall>tx\<in>set (rm_gift_transaction_order r). valid_gift_text tx max_gift_transaction_id_bytes)"

definition room_inv :: "room \<Rightarrow> bool" where
  "room_inv r \<longleftrightarrow> members_ok r \<and> publishers_ok r \<and> histories_ok r \<and> rm_sequence r \<noteq> 0"

lemma require_member_Inr [simp]:
  "require_member r u = Inr role \<longleftrightarrow> hm_get (rm_members r) u = Some role"
  by (auto simp: require_member_def ok_or_eq_Inr)

lemmas decide_defs = decide_join_def decide_leave_def decide_role_change_def
  decide_start_publishing_def decide_stop_publishing_def decide_chat_def decide_gift_def
  decide_custom_data_def decide_end_def

text \<open>What an accepted command says about the room: one elimination rule over the kind of the
  event.\<close>

lemma decide_kindE:
  assumes "decide r cmd = Inr kind"
  obtains
    (joined) u where "cmd = Join u" "kind = MemberJoined u Audience"
      "hm_get (rm_members r) u = None" "length (rm_members r) < max_members (rm_policy r)"
  | (left) u role where "cmd = Leave u" "kind = MemberLeft u"
      "hm_get (rm_members r) u = Some role" "role \<noteq> Host"
  | (role) act u new_r act_role cur where "cmd = SetRole act u new_r" "kind = RoleChanged u new_r"
      "hm_get (rm_members r) act = Some act_role" "hm_get (rm_members r) u = Some cur"
      "can_moderate act_role" "cur \<noteq> Host" "new_r \<noteq> Host"
      "act_role = CoHost \<Longrightarrow> cur \<noteq> CoHost"
  | (start) u role where "cmd = StartPublishing u" "kind = PublishingStarted u"
      "hm_get (rm_members r) u = Some role" "can_publish role" "rm_mode r \<noteq> Vod"
      "u \<notin> rm_publishers r" "card (rm_publishers r) < max_publishers (rm_policy r)"
  | (stop) u where "cmd = StopPublishing u" "kind = PublishingStopped u" "u \<in> rm_publishers r"
  | (chat) u m t where "cmd = SendChat u m t" "kind = ChatSent u m t"
      "hm_contains (rm_members r) u" "t \<noteq> []" "str_len t \<le> max_chat_bytes (rm_policy r)"
  | (gift) sender receipt total where "cmd = RecordVerifiedGift sender receipt"
      "kind = GiftRecorded sender receipt total"
      "hm_contains (rm_members r) sender" "hm_contains (rm_members r) (recipient receipt)"
      "valid_gift_text (transaction_id receipt) max_gift_transaction_id_bytes"
      "transaction_id receipt \<notin> rm_gift_transactions r"
      "unat total = unat (unit_value receipt) * unat (quantity receipt)"
  | (custom) u d where "cmd = SendCustomData u d" "kind = CustomDataSent u d"
      "hm_contains (rm_members r) u"
      "length (cd_payload d) \<le> max_custom_data_bytes (rm_policy r)"
  | (ended) act where "cmd = End act" "kind = Ended act" "hm_get (rm_members r) act = Some Host"
proof (cases cmd)
  case (Join u)
  with assms joined show thesis by (auto simp: decide_defs hm_contains_def split: if_splits)
next
  case (Leave u)
  with assms obtain cur where "hm_get (rm_members r) u = Some cur"
    and "(case cur of Host \<Rightarrow> Inl HostCannotLeave | _ \<Rightarrow> Inr (MemberLeft u)) = Inr kind"
    by (auto simp: decide_defs bind_r_eq_Inr)
  with Leave left show thesis by (cases cur) auto
next
  case (SetRole a u x)
  with assms role show thesis by (auto simp: decide_defs bind_r_eq_Inr split: if_splits)
next
  case (StartPublishing u)
  with assms start show thesis
    by (auto simp: decide_defs bind_r_eq_Inr not_le split: if_splits)
next
  case (StopPublishing u)
  with assms stop show thesis by (auto simp: decide_defs bind_r_eq_Inr split: if_splits)
next
  case (SendChat u m t)
  with assms chat show thesis
    by (auto simp: decide_defs bind_r_eq_Inr hm_contains_def not_less split: if_splits)
next
  case (RecordVerifiedGift sender receipt)
  from assms RecordVerifiedGift obtain total where
    k: "kind = GiftRecorded sender receipt total" and
    c: "checked_mul (unit_value receipt) (ucast (quantity receipt)) = Some total" and
    m: "hm_contains (rm_members r) sender" "hm_contains (rm_members r) (recipient receipt)" and
    v: "valid_gift_text (transaction_id receipt) max_gift_transaction_id_bytes"
      "transaction_id receipt \<notin> rm_gift_transactions r"
    by (auto simp: decide_defs result_simps hm_contains_def split: if_splits)
  have "unat (ucast (quantity receipt) :: u64) = unat (quantity receipt)"
    by (simp add: unat_ucast_up)
  with c have "unat total = unat (unit_value receipt) * unat (quantity receipt)"
    by (auto simp: checked_mul_Some unat_mult_no_wrap)
  with k m v RecordVerifiedGift gift show thesis by blast
next
  case (SendCustomData u d)
  with assms custom show thesis
    by (auto simp: decide_defs bind_r_eq_Inr hm_contains_def not_less split: if_splits)
next
  case (End a)
  with assms ended show thesis by (auto simp: decide_defs bind_r_eq_Inr split: if_splits)
qed

lemma one_host_insert:
  assumes "\<exists>!h. hm_get m h = Some Host" and "hm_get m u \<noteq> Some Host" and "x \<noteq> Host"
  shows "\<exists>!h. hm_get (hm_insert u x m) h = Some Host"
  using assms by (metis hm_get_insert option.inject)

lemma one_host_remove:
  assumes "\<exists>!h. hm_get m h = Some Host" and "hm_get m u \<noteq> Some Host"
  shows "\<exists>!h. hm_get (hm_remove u m) h = Some Host"
  using assms by (metis hm_get_remove option.distinct(1))

lemma apply_members_ok:
  assumes "members_ok r" and "decide r cmd = Inr kind"
  shows "members_ok (apply_kind kind r)"
proof -
  have m: "hm_wf (rm_members r)" "length (rm_members r) \<le> max_members (rm_policy r)"
    "\<exists>!h. hm_get (rm_members r) h = Some Host"
    using assms(1) by (simp_all only: members_ok_def)
  from assms(2) show ?thesis
  proof (cases rule: decide_kindE)
    case (joined u)
    with m one_host_insert [of "rm_members r" u Audience] show ?thesis
      by (simp add: members_ok_def hm_length_insert hm_contains_def)
  next
    case (left u role)
    with m one_host_remove [of "rm_members r" u] hm_length_remove [of u "rm_members r"]
    show ?thesis by (simp add: members_ok_def)
  next
    case (role act u new_r act_role cur)
    with m one_host_insert [of "rm_members r" u new_r] show ?thesis
      by (simp add: members_ok_def hm_length_insert hm_contains_def)
  qed (use assms(1) in \<open>simp_all add: members_ok_def\<close>)
qed

lemma apply_publishers_ok:
  assumes "publishers_ok r" and "decide r cmd = Inr kind" and "\<not> rm_ended r"
  shows "publishers_ok (apply_kind kind r)"
  using assms(2)
proof (cases rule: decide_kindE)
  case (joined u)
  have "card (rm_publishers r - {u}) \<le> card (rm_publishers r)" by (rule card_Diff1_le)
  with joined assms(1,3) show ?thesis by (auto simp: publishers_ok_def)
next
  case (left u role)
  have "card (rm_publishers r - {u}) \<le> card (rm_publishers r)" by (rule card_Diff1_le)
  with left assms(1,3) show ?thesis by (auto simp: publishers_ok_def)
next
  case (role act u new_r act_role cur)
  have "card (rm_publishers r - {u}) \<le> card (rm_publishers r)" by (rule card_Diff1_le)
  with role assms(1,3) show ?thesis by (auto simp: publishers_ok_def)
next
  case (stop u)
  have "card (rm_publishers r - {u}) \<le> card (rm_publishers r)" by (rule card_Diff1_le)
  with stop assms(1,3) show ?thesis by (auto simp: publishers_ok_def)
qed (use assms(1,3) in \<open>auto simp: publishers_ok_def card_insert_if\<close>)

lemma histories_ok_gifts:
  assumes "histories_ok r" and "valid_gift_text tx max_gift_transaction_id_bytes"
  shows "histories_ok (remember_gift_transaction tx r)"
proof -
  have h: "history_ok gift_transaction_history_limit (rm_gift_transactions r)
      (rm_gift_transaction_order r)" using assms(1) by (simp add: histories_ok_def)
  have "set (rm_gift_transaction_order (remember_gift_transaction tx r))
      \<subseteq> insert tx (set (rm_gift_transaction_order r))"
    using gifts.remember_old [OF h, of tx] gifts.remember_new [OF h, of tx]
    by (cases "tx \<in> rm_gift_transactions r") (auto simp: last_n_def dest: in_set_dropD)
  with assms gifts.remember_ok [OF h] show ?thesis by (auto simp: histories_ok_def)
qed

lemma apply_histories_ok:
  assumes "histories_ok r" and "decide r cmd = Inr kind"
  shows "histories_ok (apply_kind kind r)"
  using assms(2)
proof (cases rule: decide_kindE)
  case (gift sender receipt total)
  with assms(1) show ?thesis by (simp add: histories_ok_gifts)
qed (use assms(1) in \<open>simp_all add: histories_ok_def\<close>)

lemma remember_command_inv:
  assumes "histories_ok r"
  shows "histories_ok (remember_command c r)"
  using assms commands.remember_ok [of r c] commands.remember_neq_Nil [of r c]
  by (simp add: histories_ok_def)

lemma apply_event_inv:
  assumes "room_inv r" and "\<not> rm_ended r" and "decide r cmd = Inr (ev_kind e)"
    and "ev_sequence e \<noteq> 0"
  shows "room_inv (apply_event e r)"
proof -
  let ?r' = "(apply_kind (ev_kind e) r)\<lparr>rm_sequence := ev_sequence e\<rparr>"
  have "members_ok r" "publishers_ok r" "histories_ok r" using assms(1) by (simp_all add: room_inv_def)
  from apply_members_ok [OF this(1) assms(3)] apply_publishers_ok [OF this(2) assms(3,2)]
    apply_histories_ok [OF this(3) assms(3)]
  have "members_ok ?r'" "publishers_ok ?r'" "histories_ok ?r'"
    by (simp_all add: members_ok_def publishers_ok_def histories_ok_def)
  then show ?thesis
    using assms(4) remember_command_inv
    by (simp add: room_inv_def apply_event_def members_ok_def publishers_ok_def)
qed

text \<open>\<open>execute\<close> either leaves the room alone or applies one decided event.\<close>

lemma execute_cases:
  assumes "execute r cid ts cmd = (res, r')"
  obtains (rejected) e where "res = Inl e" "r' = r"
  | (duplicate) "res = Inr Duplicate" "r' = r" "cid \<in> rm_processed_commands r"
  | (applied) e where "res = Inr (Applied e)" "r' = apply_event e r" "\<not> rm_ended r"
      "cid \<notin> rm_processed_commands r" "decide r cmd = Inr (ev_kind e)" "ev_command_id e = cid"
      "unat (ev_sequence e) = unat (rm_sequence r) + 1" "ev_sequence e = rm_sequence r + 1"
proof (cases "cid \<in> rm_processed_commands r \<or> rm_ended r")
  case True
  with assms rejected duplicate show thesis by (auto simp: execute_def split: if_splits)
next
  case False
  show thesis
  proof (cases "decide r cmd")
    case (Inl e)
    with False assms rejected show thesis by (auto simp: execute_def)
  next
    case (Inr kind)
    show thesis
    proof (cases "checked_add (rm_sequence r) 1")
      case None
      with False Inr assms rejected show thesis by (auto simp: execute_def)
    next
      case (Some n)
      let ?e = "\<lparr>ev_sequence = n, ev_command_id = cid, ev_timestamp_millis = ts, ev_kind = kind\<rparr>"
      from False Inr Some assms have "res = Inr (Applied ?e)" and "r' = apply_event ?e r"
        by (auto simp: execute_def Let_def)
      moreover from Some have "unat n = unat (rm_sequence r) + 1" and "n = rm_sequence r + 1"
        using unat_add_no_wrap [of "rm_sequence r" 1] by (auto simp: checked_add_Some)
      ultimately show thesis using False Inr applied [of ?e] by simp
    qed
  qed
qed

lemma execute_inv: "room_inv r \<Longrightarrow> execute r cid ts cmd = (res, r') \<Longrightarrow> room_inv r'"
  by (erule execute_cases) (auto intro: apply_event_inv)

lemma empty_room_sel [simp]:
  "rm_id (empty_room i m p) = i" "rm_mode (empty_room i m p) = m"
  "rm_policy (empty_room i m p) = p" "rm_members (empty_room i m p) = []"
  "rm_publishers (empty_room i m p) = {}" "rm_ended (empty_room i m p) = False"
  "rm_sequence (empty_room i m p) = 0" "rm_processed_commands (empty_room i m p) = {}"
  "rm_command_order (empty_room i m p) = []" "rm_gift_transactions (empty_room i m p) = {}"
  "rm_gift_transaction_order (empty_room i m p) = []"
  by (simp_all add: empty_room_def)

lemma create_command_order:
  assumes "create i m h p c t = (r, e)"
  shows "rm_command_order r = [c]" and "rm_processed_commands r = {c}"
  using assms by (auto simp: create_def apply_event_def remember_command_def empty_room_def
      command_history_limit_def Let_def)

lemma create_inv:
  assumes "create i m h p c t = (r, e)" and "1 \<le> max_members p"
  shows "room_inv r"
  using assms create_command_order [OF assms(1)]
  by (auto simp: create_def room_inv_def members_ok_def publishers_ok_def histories_ok_def
      history_ok_def command_history_limit_def gift_transaction_history_limit_def Let_def
      split: if_splits)

section \<open>Rooms and their event logs\<close>

text \<open>A room together with the events it has produced, in order: the events the control store
  persists. Rejected and duplicate commands add nothing.\<close>

inductive room_log :: "user_id \<Rightarrow> room \<Rightarrow> room_event list \<Rightarrow> bool" where
  created: "create i m host p c t = (r, e) \<Longrightarrow> room_log host r [e]"
| executed: "room_log host r log \<Longrightarrow> execute r cid ts cmd = (Inr (Applied e), r') \<Longrightarrow>
     room_log host r' (log @ [e])"

definition gift_id_of :: "room_event \<Rightarrow> rust_string option" where
  "gift_id_of e = (case ev_kind e of GiftRecorded _ receipt _ \<Rightarrow> Some (transaction_id receipt) | _ \<Rightarrow> None)"

definition gift_ids :: "room_event list \<Rightarrow> rust_string list" where
  "gift_ids log = List.map_filter gift_id_of log"

lemma gift_ids_snoc:
  "gift_ids (log @ [e]) = gift_ids log @ (case gift_id_of e of None \<Rightarrow> [] | Some t \<Rightarrow> [t])"
  by (auto simp: gift_ids_def List.map_filter_def split: option.splits)

lemma applied_eventE:
  assumes "execute r cid ts cmd = (Inr (Applied e), r')"
  shows "r' = apply_event e r" "\<not> rm_ended r" "cid \<notin> rm_processed_commands r"
    "decide r cmd = Inr (ev_kind e)" "ev_command_id e = cid"
    "unat (ev_sequence e) = unat (rm_sequence r) + 1" "ev_sequence e = rm_sequence r + 1"
  using assms by (auto elim!: execute_cases)

lemma room_log_nonempty: "room_log host r log \<Longrightarrow> log \<noteq> []"
  by (induction rule: room_log.induct) auto

lemma room_log_inv: "room_log host r log \<Longrightarrow> 1 \<le> max_members (rm_policy r) \<Longrightarrow> room_inv r"
proof (induction rule: room_log.induct)
  case (created i m host p c t r e)
  then have "rm_policy r = p" by (auto simp: create_def Let_def)
  with created show ?case by (auto intro: create_inv)
next
  case (executed host r log cid ts cmd e r')
  then have "rm_policy r' = rm_policy r" using applied_eventE(1) [OF executed.hyps(2)] by simp
  with executed show ?case by (metis execute_inv)
qed

lemma room_log_sequence: "room_log host r log \<Longrightarrow> unat (rm_sequence r) = length log"
proof (induction rule: room_log.induct)
  case (created i m host p c t r e)
  then show ?case by (auto simp: create_def Let_def)
next
  case (executed host r log cid ts cmd e r')
  with applied_eventE(1,6) [OF executed.hyps(2)] show ?case by simp
qed

lemma room_log_numbering:
  "room_log host r log \<Longrightarrow> i < length log \<Longrightarrow> unat (ev_sequence (log ! i)) = i + 1"
proof (induction arbitrary: i rule: room_log.induct)
  case (created j m host p c t r e)
  then show ?case by (auto simp: create_def Let_def)
next
  case (executed host r log cid ts cmd e r')
  have "unat (ev_sequence e) = length log + 1"
    using applied_eventE(6) [OF executed.hyps(2)] room_log_sequence [OF executed.hyps(1)] by simp
  with executed show ?case by (auto simp: nth_append less_Suc_eq)
qed

lemma room_log_host:
  "room_log host r log \<Longrightarrow> hm_get (rm_members r) u = Some Host \<longleftrightarrow> u = host"
proof (induction rule: room_log.induct)
  case (created i m host p c t r e)
  then show ?case by (auto simp: create_def Let_def split: if_splits)
next
  case (executed host r log cid ts cmd e r')
  note r' = applied_eventE(1) [OF executed.hyps(2)]
  from applied_eventE(4) [OF executed.hyps(2)] show ?case
    by (cases rule: decide_kindE) (use executed.IH in \<open>auto simp: r' split: if_splits\<close>)
qed

lemma apply_event_command_order:
  assumes "histories_ok r" and "ev_command_id e \<notin> rm_processed_commands r"
    and "rm_command_order r = last_n command_history_limit log"
  shows "rm_command_order (apply_event e r) =
    last_n command_history_limit (log @ [ev_command_id e])"
  using assms commands.remember_log
      [of "(apply_kind (ev_kind e) r)\<lparr>rm_sequence := ev_sequence e\<rparr>" log "ev_command_id e"]
  by (simp add: apply_event_def histories_ok_def)

lemma room_log_command_order:
  "room_log host r log \<Longrightarrow> 1 \<le> max_members (rm_policy r) \<Longrightarrow>
     rm_command_order r = last_n command_history_limit (map ev_command_id log)"
proof (induction rule: room_log.induct)
  case (created i m host p c t r e)
  then have "ev_command_id e = c" by (auto simp: create_def Let_def)
  with create_command_order [OF created.hyps] show ?case
    by (simp add: last_n_def command_history_limit_def)
next
  case (executed host r log cid ts cmd e r')
  note r' = applied_eventE [OF executed.hyps(2)]
  from executed.prems r' have m: "1 \<le> max_members (rm_policy r)" by simp
  then have "histories_ok r" using room_log_inv [OF executed.hyps(1)] by (simp add: room_inv_def)
  from apply_event_command_order [OF this _ executed.IH [OF m], of e] r' show ?case by simp
qed

lemma apply_kind_gift_order:
  assumes "histories_ok r" and "decide r cmd = Inr (ev_kind e)"
    and "rm_gift_transaction_order r = last_n gift_transaction_history_limit log"
  shows "rm_gift_transaction_order (apply_kind (ev_kind e) r) =
    last_n gift_transaction_history_limit (log @ (case gift_id_of e of None \<Rightarrow> [] | Some t \<Rightarrow> [t]))"
  using assms(2)
proof (cases rule: decide_kindE)
  case (gift sender receipt total)
  with assms gifts.remember_log [of r log "transaction_id receipt"] show ?thesis
    by (simp add: gift_id_of_def histories_ok_def)
qed (use assms(3) in \<open>simp_all add: gift_id_of_def\<close>)

lemma room_log_gift_order:
  "room_log host r log \<Longrightarrow> 1 \<le> max_members (rm_policy r) \<Longrightarrow>
     rm_gift_transaction_order r = last_n gift_transaction_history_limit (gift_ids log)"
proof (induction rule: room_log.induct)
  case (created i m host p c t r e)
  then show ?case
    by (auto simp: create_def Let_def gift_ids_def gift_id_of_def last_n_def List.map_filter_def)
next
  case (executed host r log cid ts cmd e r')
  note r' = applied_eventE [OF executed.hyps(2)]
  from executed.prems r' have m: "1 \<le> max_members (rm_policy r)" by simp
  then have "histories_ok r" using room_log_inv [OF executed.hyps(1)] by (simp add: room_inv_def)
  from apply_kind_gift_order [OF this r'(4) executed.IH [OF m]] r' show ?case
    by (simp add: gift_ids_snoc)
qed

lemma replay_events_snoc:
  "replay_events es r = Inr r' \<Longrightarrow> ev_sequence e = rm_sequence r' + 1 \<Longrightarrow>
     replay_events (es @ [e]) r = Inr (apply_event e r')"
  by (induction es arbitrary: r) (auto simp: Let_def split: if_splits)

lemma room_log_replay:
  "room_log host r log \<Longrightarrow> replay_events log (empty_room (rm_id r) (rm_mode r) (rm_policy r)) = Inr r"
proof (induction rule: room_log.induct)
  case (created i m host p c t r e)
  then show ?case by (auto simp: create_def Let_def)
next
  case (executed host r log cid ts cmd e r')
  note r' = applied_eventE [OF executed.hyps(2)]
  from replay_events_snoc [OF executed.IH r'(7)] r'(1) show ?case by simp
qed

lemma room_log_first: "room_log host r log \<Longrightarrow> is_creation_event (rm_mode r) (log ! 0)"
proof (induction rule: room_log.induct)
  case (created i m host p c t r e)
  then show ?case by (auto simp: create_def Let_def is_creation_event_def)
next
  case (executed host r log cid ts cmd e r')
  then show ?case
    using room_log_nonempty [OF executed.hyps(1)] applied_eventE(1) [OF executed.hyps(2)]
    by (simp add: nth_append)
qed

section \<open>Snapshots\<close>

lemma host_count:
  assumes "hm_wf m"
  shows "length (filter (\<lambda>p. snd p = Host) m) = 1 \<longleftrightarrow> (\<exists>!h. hm_get m h = Some Host)"
proof -
  let ?f = "filter (\<lambda>p. snd p = Host) m"
  have "distinct (map fst ?f)" using assms by (rule distinct_map_filter)
  then have "length ?f = card (set (map fst ?f))" using distinct_card [of "map fst ?f"] by simp
  moreover have "set (map fst ?f) = {h. hm_get m h = Some Host}"
    using assms by (force simp: hm_wf_get_iff)
  moreover have "card {h. hm_get m h = Some Host} = 1 \<longleftrightarrow> (\<exists>!h. hm_get m h = Some Host)"
    by (auto simp: card_1_singleton_iff set_eq_iff)
  ultimately show ?thesis by simp
qed

lemma sort_key_members:
  assumes "hm_wf m"
  shows "hm_wf (sort_key fst m)" and "hm_get (sort_key fst m) = hm_get m"
proof -
  have "mset (map fst (sort_key fst m)) = mset (map fst m)" by simp
  with assms show wf: "hm_wf (sort_key fst m)" using mset_eq_imp_distinct_iff by blast
  show "hm_get (sort_key fst m) = hm_get m"
    by (rule map_of_inject_set [THEN iffD2]) (use assms wf in simp_all)
qed

lemma snapshot_restores:
  assumes "room_inv r" and "policy_valid (rm_policy r)"
  shows "restore_snapshot (snapshot r) = Inr (r\<lparr>rm_members := sort_key fst (rm_members r)\<rparr>)"
proof -
  let ?m = "sort_key fst (rm_members r)"
  have mem: "hm_wf (rm_members r)" "length (rm_members r) \<le> max_members (rm_policy r)"
    "\<exists>!h. hm_get (rm_members r) h = Some Host"
    using assms(1) by (simp_all add: room_inv_def members_ok_def)
  note sorted = sort_key_members [OF mem(1)]
  have host: "length (filter (\<lambda>p. snd p = Host) ?m) = Suc 0"
    using host_count [OF sorted(1)] mem(3) sorted(2) by simp
  then have ne: "?m \<noteq> []" by auto
  have pub: "finite (rm_publishers r)" "card (rm_publishers r) \<le> max_publishers (rm_policy r)"
    "\<forall>u\<in>rm_publishers r. case hm_get (rm_members r) u of None \<Rightarrow> False | Some x \<Rightarrow> can_publish x"
    "rm_ended r \<longrightarrow> rm_publishers r = {}"
    using assms(1) by (auto simp: room_inv_def publishers_ok_def)
  have hist: "rm_command_order r \<noteq> []" "rm_processed_commands r = set (rm_command_order r)"
    "distinct (rm_command_order r)" "length (rm_command_order r) \<le> command_history_limit"
    "rm_gift_transactions r = set (rm_gift_transaction_order r)"
    "distinct (rm_gift_transaction_order r)"
    "length (rm_gift_transaction_order r) \<le> gift_transaction_history_limit"
    "list_all (\<lambda>tx. valid_gift_text tx max_gift_transaction_id_bytes) (rm_gift_transaction_order r)"
    using assms(1) by (simp_all add: room_inv_def histories_ok_def history_ok_def list_all_iff)
  show ?thesis
    using assms pub hist mem(2) ne host
    by (simp add: restore_snapshot_def snapshot_def Let_def hm_of_list_distinct sorted
        distinct_card room_inv_def)
qed

lemma restore_snapshot_inv:
  assumes "restore_snapshot s = Inr r"
  shows "room_inv r \<and> policy_valid (rm_policy r)"
proof -
  let ?m = "hm_of_list (sn_members s)"
  have wf: "hm_wf ?m" by (rule hm_of_list_wf)
  from assms have r: "rm_members r = ?m" "rm_publishers r = set (sn_publishers s)"
    "rm_policy r = sn_policy s" "rm_ended r = sn_ended s" "rm_sequence r = sn_sequence s"
    "rm_processed_commands r = set (sn_command_order s)" "rm_command_order r = sn_command_order s"
    "rm_gift_transactions r = set (sn_gift_transaction_order s)"
    "rm_gift_transaction_order r = sn_gift_transaction_order s"
    and ok: "sn_sequence s \<noteq> 0" "policy_valid (sn_policy s)" "sn_command_order s \<noteq> []"
      "length (sn_command_order s) \<le> command_history_limit"
      "card (set (sn_command_order s)) = length (sn_command_order s)"
      "length (sn_gift_transaction_order s) \<le> gift_transaction_history_limit"
      "card (set (sn_gift_transaction_order s)) = length (sn_gift_transaction_order s)"
      "list_all (\<lambda>tx. valid_gift_text tx max_gift_transaction_id_bytes) (sn_gift_transaction_order s)"
      "length ?m \<le> max_members (sn_policy s)" "length (filter (\<lambda>p. snd p = Host) ?m) = 1"
      "card (set (sn_publishers s)) \<le> max_publishers (sn_policy s)"
      "\<forall>u\<in>set (sn_publishers s). case hm_get ?m u of None \<Rightarrow> False | Some x \<Rightarrow> can_publish x"
      "sn_ended s \<longrightarrow> set (sn_publishers s) = {}"
    by (auto simp: restore_snapshot_def Let_def split: if_splits)
  have "members_ok r" using ok wf host_count [OF wf] by (simp add: members_ok_def r)
  moreover have "publishers_ok r"
    using ok by (auto simp: publishers_ok_def r split: option.splits)
  moreover have "histories_ok r"
    using ok by (simp add: histories_ok_def history_ok_def r card_distinct list_all_iff)
  ultimately show ?thesis using ok by (simp add: room_inv_def r)
qed

section \<open>Properties\<close>

text \<open>A concrete room for the witnesses: user 10 has just created it and is its host.\<close>

definition demo_room :: room where
  "demo_room = fst (create (RoomId 1) Live (UserId 10) default_policy (CommandId 1) 100)"

definition demo_event :: room_event where
  "demo_event = snd (create (RoomId 1) Live (UserId 10) default_policy (CommandId 1) 100)"

lemma demo_room_log: "room_log (UserId 10) demo_room [demo_event]"
  by (rule room_log.created) (simp add: demo_room_def demo_event_def)

lemma demo_room_policy: "rm_policy demo_room = default_policy"
  by (simp add: demo_room_def create_def Let_def)

lemma demo_policy_valid: "policy_valid default_policy"
  by (simp add: policy_valid_def default_policy_def max_chat_bytes_const_def
      max_custom_data_bytes_const_def)

text \<open>A receipt whose other fields \<open>decide_gift\<close> accepts.\<close>

definition receipt_details_ok :: "verified_gift_receipt \<Rightarrow> bool" where
  "receipt_details_ok receipt \<longleftrightarrow> valid_gift_text (gift_id receipt) max_gift_id_bytes \<and>
     quantity receipt \<noteq> 0 \<and> str_len (currency receipt) = 3 \<and>
     list_all is_ascii_uppercase (str_bytes (currency receipt))"

lemma spent_gift_refused:
  assumes "cid \<notin> rm_processed_commands r" and "transaction_id receipt \<in> rm_gift_transactions r"
  shows "\<exists>e. execute r cid ts (RecordVerifiedGift sender receipt) = (Inl e, r)"
proof (cases "execute r cid ts (RecordVerifiedGift sender receipt)" rule: prod.exhaust)
  case (Pair res r')
  then show ?thesis
  proof (cases rule: execute_cases)
    case (applied e)
    from applied(5) assms(2) have False by (cases rule: decide_kindE) auto
    then show ?thesis ..
  qed (use Pair assms(1) in simp_all)
qed

lemma spent_gift_reported:
  assumes "cid \<notin> rm_processed_commands r" and "transaction_id receipt \<in> rm_gift_transactions r"
    and "valid_gift_text (transaction_id receipt) max_gift_transaction_id_bytes"
    and "\<not> rm_ended r" and "hm_contains (rm_members r) sender"
    and "hm_contains (rm_members r) (recipient receipt)" and "receipt_details_ok receipt"
  shows "execute r cid ts (RecordVerifiedGift sender receipt) = (Inl DuplicateGiftTransaction, r)"
  using assms by (auto simp: execute_def decide_gift_def require_member_def receipt_details_ok_def
      hm_contains_def result_simps)

definition demo_receipt :: verified_gift_receipt where
  "demo_receipt = \<lparr>transaction_id = [116, 49], gift_id = [114], quantity = 2,
     unit_value = 5, currency = [69, 85, 82], recipient = UserId 10\<rparr>"

definition gift_event :: room_event where
  "gift_event = \<lparr>ev_sequence = 2, ev_command_id = CommandId 2, ev_timestamp_millis = 7,
     ev_kind = GiftRecorded (UserId 10) demo_receipt 10\<rparr>"

definition gifted_room :: room where
  "gifted_room = apply_event gift_event demo_room"

lemma demo_receipt_ok:
  "receipt_details_ok demo_receipt"
  "valid_gift_text (transaction_id demo_receipt) max_gift_transaction_id_bytes"
  by (simp_all add: receipt_details_ok_def demo_receipt_def valid_gift_text_def str_len_def str_bytes_def
      utf8_char_def is_control_def is_ascii_uppercase_def max_gift_id_bytes_def
      max_gift_transaction_id_bytes_def)

lemma demo_room_fields:
  "rm_members demo_room = [(UserId 10, Host)]" "rm_processed_commands demo_room = {CommandId 1}"
  "rm_command_order demo_room = [CommandId 1]" "rm_gift_transactions demo_room = {}"
  "rm_ended demo_room = False" "rm_sequence demo_room = 1" "rm_policy demo_room = default_policy"
  by (simp_all add: demo_room_def create_def apply_event_def remember_command_def
      empty_room_def command_history_limit_def Let_def)

lemma gifted_room_fields:
  "rm_members gifted_room = [(UserId 10, Host)]" "rm_ended gifted_room = False"
  "rm_policy gifted_room = default_policy"
  by (simp_all add: gifted_room_def gift_event_def apply_event_def remember_command_def
      remember_gift_transaction_def demo_room_fields Let_def split: prod.splits)

lemma gifted_room_log: "room_log (UserId 10) gifted_room [demo_event, gift_event]"
proof -
  have d: "decide demo_room (RecordVerifiedGift (UserId 10) demo_receipt) = Inr (ev_kind gift_event)"
    using demo_receipt_ok
    by (simp add: decide_gift_def require_member_def demo_room_fields receipt_details_ok_def
        demo_receipt_def gift_event_def checked_mul_def)
  have "execute demo_room (CommandId 2) 7 (RecordVerifiedGift (UserId 10) demo_receipt) =
      (Inr (Applied gift_event), gifted_room)"
    unfolding execute_def d
    by (simp add: demo_room_fields checked_add_def gift_event_def gifted_room_def Let_def)
  from room_log.executed [OF demo_room_log this] show ?thesis by simp
qed

text \<open>C1. In every room reached from \<open>create\<close> by executing commands, under a policy that admits at
  least one member: the creator is the one and only host, members and publishers stay within the
  policy, every active publisher is a member whose role may publish, an ended room has no
  publishers, and both duplicate-suppression histories are consistent and bounded.\<close>

theorem room_invariant:
  assumes "room_log host r log" and "1 \<le> max_members (rm_policy r)"
  shows "room_inv r \<and> (\<forall>u. hm_get (rm_members r) u = Some Host \<longleftrightarrow> u = host)"
  using room_log_inv [OF assms] room_log_host [OF assms(1)] by blast

theorem room_invariant_witness:
  "room_inv demo_room \<and> (\<forall>u. hm_get (rm_members demo_room) u = Some Host \<longleftrightarrow> u = UserId 10)"
  by (rule room_invariant [OF demo_room_log]) (simp add: demo_room_policy default_policy_def)

text \<open>C2. Restoring a room from exactly the events it emitted rebuilds exactly the room that
  emitted them, and those events are numbered 1, 2, 3, and so on without a gap.\<close>

theorem restore_replays_log:
  assumes "room_log host r log"
  shows "restore (rm_id r) (rm_mode r) (rm_policy r) log = Inr r \<and>
    (\<forall>i<length log. unat (ev_sequence (log ! i)) = i + 1)"
  using room_log_replay [OF assms] room_log_first [OF assms] room_log_nonempty [OF assms]
    room_log_numbering [OF assms]
  by (simp add: restore_def get_at_def)

theorem restore_replays_log_witness:
  "restore (RoomId 1) Live default_policy [demo_event] = Inr demo_room"
  using restore_replays_log [OF demo_room_log]
  by (simp add: demo_room_def create_def Let_def)

text \<open>C5. Idempotency and single spending: the remembered command identifiers are those of the last
  4096 events and the remembered payment transactions those of the last 4096 gifts, all distinct;
  resubmitting a remembered command reports a duplicate and changes nothing, whatever the command.
  A gift with a remembered transaction, under a command not yet seen, is answered with an error and
  changes nothing; the error is \<open>DuplicateGiftTransaction\<close> unless the room has ended, the sender or
  the recipient is not a member, or the receipt is malformed, which are reported first.\<close>

theorem room_idempotent:
  assumes "room_log host r log" and "1 \<le> max_members (rm_policy r)"
  shows "rm_command_order r = last_n 4096 (map ev_command_id log) \<and> distinct (rm_command_order r) \<and>
    rm_gift_transaction_order r = last_n 4096 (gift_ids log) \<and>
    distinct (rm_gift_transaction_order r) \<and>
    (\<forall>cid ts cmd. cid \<in> set (last_n 4096 (map ev_command_id log)) \<longrightarrow>
       execute r cid ts cmd = (Inr Duplicate, r)) \<and>
    (\<forall>cid ts sender receipt. cid \<notin> set (last_n 4096 (map ev_command_id log)) \<and>
         transaction_id receipt \<in> set (last_n 4096 (gift_ids log)) \<longrightarrow>
       (\<exists>e. execute r cid ts (RecordVerifiedGift sender receipt) = (Inl e, r)) \<and>
       (\<not> rm_ended r \<and> hm_contains (rm_members r) sender \<and>
          hm_contains (rm_members r) (recipient receipt) \<and> receipt_details_ok receipt \<longrightarrow>
        execute r cid ts (RecordVerifiedGift sender receipt) = (Inl DuplicateGiftTransaction, r)))"
proof -
  have inv: "histories_ok r" using room_log_inv [OF assms] by (simp add: room_inv_def)
  have c: "rm_command_order r = last_n 4096 (map ev_command_id log)"
    using room_log_command_order [OF assms] by (simp add: command_history_limit_def)
  have g: "rm_gift_transaction_order r = last_n 4096 (gift_ids log)"
    using room_log_gift_order [OF assms] by (simp add: gift_transaction_history_limit_def)
  have dup: "execute r cid ts cmd = (Inr Duplicate, r)"
    if "cid \<in> set (last_n 4096 (map ev_command_id log))" for cid ts cmd
    using that inv c by (simp add: execute_def histories_ok_def history_ok_def)
  have fresh: "cid \<notin> rm_processed_commands r"
    if "cid \<notin> set (last_n 4096 (map ev_command_id log))" for cid
    using that inv c by (simp add: histories_ok_def history_ok_def)
  have spent: "transaction_id receipt \<in> rm_gift_transactions r"
      "valid_gift_text (transaction_id receipt) max_gift_transaction_id_bytes"
    if "transaction_id receipt \<in> set (last_n 4096 (gift_ids log))" for receipt
    using that inv g by (simp_all add: histories_ok_def history_ok_def)
  show ?thesis
    using inv c g dup fresh spent spent_gift_refused spent_gift_reported
    by (auto simp: histories_ok_def history_ok_def)
qed

theorem room_idempotent_witness:
  "execute gifted_room (CommandId 1) 7 (End (UserId 10)) = (Inr Duplicate, gifted_room) \<and>
   execute gifted_room (CommandId 3) 8 (RecordVerifiedGift (UserId 10) demo_receipt)
     = (Inl DuplicateGiftTransaction, gifted_room)"
proof -
  have m: "1 \<le> max_members (rm_policy gifted_room)"
    by (simp add: gifted_room_fields default_policy_def)
  have l: "last_n 4096 (map ev_command_id [demo_event, gift_event]) = [CommandId 1, CommandId 2]"
    "last_n 4096 (gift_ids [demo_event, gift_event]) = [transaction_id demo_receipt]"
    by (simp_all add: last_n_def gift_ids_def gift_id_of_def List.map_filter_def demo_event_def
        gift_event_def create_def Let_def)
  note p = room_idempotent [OF gifted_room_log m, unfolded l]
  from p have "execute gifted_room (CommandId 1) 7 (End (UserId 10)) = (Inr Duplicate, gifted_room)" by simp
  moreover have "execute gifted_room (CommandId 3) 8 (RecordVerifiedGift (UserId 10) demo_receipt)
     = (Inl DuplicateGiftTransaction, gifted_room)"
    using p demo_receipt_ok by (simp add: gifted_room_fields hm_contains_def demo_receipt_def)
  ultimately show ?thesis ..
qed

text \<open>C6. Who may change what. If executing a command changes the role of a user, then that user
  joined as audience, or left and was not the host, or a host or co-host changed the role; the
  host's role never changes, nobody becomes host, and a co-host cannot touch another co-host. If a
  user starts publishing, they asked for it themselves, their role allows it, the room is not a
  playback room, and the publisher limit was not reached.\<close>

theorem room_authorization:
  assumes "execute r cid ts cmd = (res, r')"
  shows "(hm_get (rm_members r') u \<noteq> hm_get (rm_members r) u \<longrightarrow>
      (cmd = Join u \<and> hm_get (rm_members r) u = None \<and> hm_get (rm_members r') u = Some Audience) \<or>
      (cmd = Leave u \<and> hm_get (rm_members r) u \<noteq> Some Host \<and> hm_get (rm_members r') u = None) \<or>
      (\<exists>act act_role role. cmd = SetRole act u role \<and>
         hm_get (rm_members r) act = Some act_role \<and> can_moderate act_role \<and>
         hm_get (rm_members r) u \<noteq> Some Host \<and> role \<noteq> Host \<and>
         (act_role = CoHost \<longrightarrow> hm_get (rm_members r) u \<noteq> Some CoHost) \<and>
         hm_get (rm_members r') u = Some role)) \<and>
    (u \<in> rm_publishers r' - rm_publishers r \<longrightarrow>
      cmd = StartPublishing u \<and> rm_mode r \<noteq> Vod \<and>
      card (rm_publishers r) < max_publishers (rm_policy r) \<and>
      (\<exists>role. hm_get (rm_members r) u = Some role \<and> can_publish role))"
  using assms
proof (cases rule: execute_cases)
  case (applied e)
  note r' = applied(2)
  from applied(5) show ?thesis
    by (cases rule: decide_kindE) (auto simp: r')
qed simp_all

theorem room_authorization_witness:
  "hm_get (rm_members (snd (execute demo_room (CommandId 2) 7 (Join (UserId 11))))) (UserId 11)
     = Some Audience"
proof -
  let ?x = "execute demo_room (CommandId 2) 7 (Join (UserId 11))"
  have sel: "rm_members demo_room = [(UserId 10, Host)]" "rm_processed_commands demo_room = {CommandId 1}"
    "rm_ended demo_room = False" "rm_sequence demo_room = 1" "rm_policy demo_room = default_policy"
    by (simp_all add: demo_room_def create_def apply_event_def remember_command_def
        empty_room_def command_history_limit_def Let_def)
  have "hm_get (rm_members (snd ?x)) (UserId 11) \<noteq> hm_get (rm_members demo_room) (UserId 11)"
    by (simp add: execute_def sel decide_join_def hm_contains_def default_policy_def
        checked_add_def Let_def)
  with room_authorization [of demo_room "CommandId 2" 7 "Join (UserId 11)" "fst ?x" "snd ?x"
      "UserId 11"]
  show ?thesis by auto
qed

text \<open>C7. Restoring the snapshot of a room that satisfies the invariant, under a policy within the
  persisted bounds, yields the same room: every field is unchanged and the member map is the same
  map (its entries listed by user identifier).\<close>

theorem snapshot_roundtrip:
  assumes "room_inv r" and "policy_valid (rm_policy r)"
  shows "\<exists>r'. restore_snapshot (snapshot r) = Inr r' \<and> r' = r\<lparr>rm_members := rm_members r'\<rparr> \<and>
    hm_get (rm_members r') = hm_get (rm_members r) \<and> mset (rm_members r') = mset (rm_members r)"
  using snapshot_restores [OF assms] sort_key_members(2) [of "rm_members r"] assms(1)
  by (simp add: room_inv_def members_ok_def)

theorem snapshot_roundtrip_witness:
  "\<exists>r'. restore_snapshot (snapshot demo_room) = Inr r' \<and> r' = demo_room\<lparr>rm_members := rm_members r'\<rparr> \<and>
    hm_get (rm_members r') = hm_get (rm_members demo_room) \<and>
    mset (rm_members r') = mset (rm_members demo_room)"
proof (rule snapshot_roundtrip)
  show "room_inv demo_room"
    by (rule room_log_inv [OF demo_room_log]) (simp add: demo_room_policy default_policy_def)
  show "policy_valid (rm_policy demo_room)" by (simp add: demo_room_policy demo_policy_valid)
qed

fun execute_all :: "room \<Rightarrow> (command_id \<times> u64 \<times> room_command) list \<Rightarrow> room" where
  "execute_all r [] = r"
| "execute_all r ((cid, ts, cmd) # rest) = execute_all (snd (execute r cid ts cmd)) rest"

lemma execute_all_inv: "room_inv r \<Longrightarrow> room_inv (execute_all r cmds)"
proof (induction r cmds rule: execute_all.induct)
  case (2 r cid ts cmd rest)
  then show ?case using execute_inv [of r cid ts cmd] by (metis execute_all.simps(2) surj_pair snd_conv)
qed simp

text \<open>Whatever snapshot \<open>restore_snapshot\<close> accepts, the room it returns satisfies the aggregate
  invariant, and so does every room later commands lead to.\<close>

lemma snapshot_sound:
  assumes "restore_snapshot s = Inr r"
  shows "room_inv (execute_all r cmds)"
  using restore_snapshot_inv [OF assms] execute_all_inv by blast

lemma snapshot_sound_witness:
  "room_inv (execute_all (demo_room\<lparr>rm_members := sort_key fst (rm_members demo_room)\<rparr>)
     [(CommandId 2, 7, Join (UserId 11))])"
proof (rule snapshot_sound [OF snapshot_restores])
  show "room_inv demo_room"
    by (rule room_log_inv [OF demo_room_log]) (simp add: demo_room_policy default_policy_def)
  show "policy_valid (rm_policy demo_room)" by (simp add: demo_room_policy demo_policy_valid)
qed

end
