(* ===== verification/Rtp_Extension.thy ===== *)
theory Rtp_Extension
  imports Fluvora_Prelude
begin

text \<open>
  RFC 8285 header extensions, \<open>crates/webrtc/rtp/src/extension.rs\<close>, and the error type of the
  crate, \<open>crates/webrtc/rtp/src/error.rs\<close>. The parsers walk a block with an index; here the
  argument is the part of the block from that index on. \<open>HeaderExtension\<close> and
  \<open>OwnedHeaderExtension\<close> differ in ownership only and are one record.
\<close>

section \<open>Definitions\<close>

datatype extension_format = OneByte | TwoByte | Opaque u16

datatype rtp_error =
    PacketTooShort nat
  | UnsupportedVersion u8
  | TruncatedHeader
  | InvalidPadding nat
  | TooManyCsrcs nat
  | InvalidPayloadType u8
  | TruncatedExtension
  | InvalidExtensionId extension_format u8
  | InvalidExtensionLength extension_format nat
  | ExtensionBlockTooLarge
  | PaddingTooLarge nat
  | PacketTooLarge
  | UnsupportedExtensionRewrite

definition from_profile :: "u16 \<Rightarrow> extension_format" where
  "from_profile p =
     (if p = 0xbede then OneByte else if p AND 0xfff0 = 0x1000 then TwoByte else Opaque p)"

fun profile :: "extension_format \<Rightarrow> u16" where
  "profile OneByte = 0xbede"
| "profile TwoByte = 0x1000"
| "profile (Opaque p) = p"

record header_extension =
  he_id :: u8
  he_value :: bytes

function parse_one_byte :: "bytes \<Rightarrow> (rtp_error, header_extension list) result" where
  "parse_one_byte [] = Inr []"
| "parse_one_byte (header # rest) =
     (if header = 0 then parse_one_byte rest
      else let ident = drop_bit 4 header in
        if ident = 15 then Inr []
        else let len = unat ((header AND 0x0f) + 1) in
          bind_r (ok_or TruncatedExtension (get_range rest 0 len)) (\<lambda>value.
          bind_r (parse_one_byte (drop len rest)) (\<lambda>es.
            Inr (\<lparr>he_id = ident, he_value = value\<rparr> # es))))"
  by pat_completeness auto
termination
  by (relation "measure length") auto

function parse_two_byte :: "bytes \<Rightarrow> (rtp_error, header_extension list) result" where
  "parse_two_byte [] = Inr []"
| "parse_two_byte (ident # rest) =
     (if ident = 0 then parse_two_byte rest
      else case rest of
        [] \<Rightarrow> Inl TruncatedExtension
      | len_byte # rest' \<Rightarrow>
          let len = unat len_byte in
          bind_r (ok_or TruncatedExtension (get_range rest' 0 len)) (\<lambda>value.
          bind_r (parse_two_byte (drop len rest')) (\<lambda>es.
            Inr (\<lparr>he_id = ident, he_value = value\<rparr> # es))))"
  by pat_completeness auto
termination
  by (relation "measure length") auto

fun parse_extensions :: "extension_format \<Rightarrow> bytes \<Rightarrow> (rtp_error, header_extension list) result" where
  "parse_extensions OneByte data = parse_one_byte data"
| "parse_extensions TwoByte data = parse_two_byte data"
| "parse_extensions (Opaque _) data = Inr []"

fun encode_one_byte :: "header_extension list \<Rightarrow> (rtp_error, bytes) result" where
  "encode_one_byte [] = Inr []"
| "encode_one_byte (e # es) =
     (if \<not> (1 \<le> he_id e \<and> he_id e \<le> 14) then Inl (InvalidExtensionId OneByte (he_id e))
      else if \<not> (1 \<le> length (he_value e) \<and> length (he_value e) \<le> 16)
        then Inl (InvalidExtensionLength OneByte (length (he_value e)))
      else
        let encoded_length = word_of_nat (length (he_value e) - 1) in
        bind_r (encode_one_byte es) (\<lambda>out.
          Inr ((push_bit 4 (he_id e) OR encoded_length) # he_value e @ out)))"

fun encode_two_byte :: "header_extension list \<Rightarrow> (rtp_error, bytes) result" where
  "encode_two_byte [] = Inr []"
| "encode_two_byte (e # es) =
     (if he_id e = 0 then Inl (InvalidExtensionId TwoByte (he_id e))
      else if length (he_value e) > 255
        then Inl (InvalidExtensionLength TwoByte (length (he_value e)))
      else bind_r (encode_two_byte es) (\<lambda>out.
          Inr (he_id e # word_of_nat (length (he_value e)) # he_value e @ out)))"

fun encode_extensions :: "extension_format \<Rightarrow> header_extension list \<Rightarrow> (rtp_error, bytes) result" where
  "encode_extensions OneByte es = encode_one_byte es"
| "encode_extensions TwoByte es = encode_two_byte es"
| "encode_extensions (Opaque p) es =
     (if es = [] then Inr [] else Inl (InvalidExtensionId (Opaque p) 0))"

section \<open>Round trips\<close>

lemma from_profile_profile [simp]:
  "from_profile (profile OneByte) = OneByte" "from_profile (profile TwoByte) = TwoByte"
  by (simp_all add: from_profile_def)

lemma nibbles:
  fixes a b :: u8
  assumes "a < 16" and "b < 16"
  shows "drop_bit 4 (push_bit 4 a OR b) = a" and "(push_bit 4 a OR b) AND 15 = b"
proof -
  have m: "(15 :: u8) = mask 4" by (simp add: mask_eq_exp_minus_1)
  have a: "n < 4" if "bit a n" for n
    using bit_word_small [of a 4 n] assms(1) that by (simp add: word_less_nat_alt)
  have b: "n < 4" if "bit b n" for n
    using bit_word_small [of b 4 n] assms(2) that by (simp add: word_less_nat_alt)
  show "drop_bit 4 (push_bit 4 a OR b) = a"
    by (rule bit_word_eqI) (auto simp: bit_simps dest: a b)
  show "(push_bit 4 a OR b) AND 15 = b"
    unfolding m by (rule bit_word_eqI) (auto simp: bit_simps dest: b)
qed

lemma nibble_header:
  fixes i :: u8
  assumes "1 \<le> i" and "i \<le> 14" and "1 \<le> n" and "n \<le> 16"
  defines "h \<equiv> push_bit 4 i OR (word_of_nat (n - 1) :: u8)"
  shows "h \<noteq> 0" and "drop_bit 4 h = i" and "unat ((h AND 15) + 1) = n"
proof -
  let ?l = "word_of_nat (n - 1) :: u8"
  have ul: "unat ?l = n - 1" using assms(4) by (intro unat_word_of_nat_less) simp
  have i: "i < 16" using assms(2) by (simp add: word_le_nat_alt word_less_nat_alt)
  have l: "?l < 16" using ul assms(3,4) by (simp add: word_less_nat_alt)
  show d: "drop_bit 4 h = i" unfolding h_def by (rule nibbles(1) [OF i l])
  then show "h \<noteq> 0" using assms(1) by auto
  have "(h AND 15) + 1 = ?l + 1" unfolding h_def using nibbles(2) [OF i l] by simp
  moreover have "unat (?l + 1) = n" using ul assms(3,4) by (subst unat_add_no_wrap) auto
  ultimately show "unat ((h AND 15) + 1) = n" by simp
qed

lemma parse_one_byte_zeros: "parse_one_byte (replicate k 0) = Inr []"
  by (induction k) auto

lemma parse_two_byte_zeros: "parse_two_byte (replicate k 0) = Inr []"
  by (induction k) auto

text \<open>The encoder's output, followed by the zero bytes that fill the last word, parses back.\<close>

lemma one_byte_roundtrip:
  "encode_one_byte es = Inr out \<Longrightarrow> parse_one_byte (out @ replicate k 0) = Inr es"
proof (induction es arbitrary: out)
  case Nil
  then show ?case by (simp add: parse_one_byte_zeros)
next
  case (Cons e es)
  from Cons.prems obtain out' where
    i: "1 \<le> he_id e" "he_id e \<le> 14" and n: "1 \<le> length (he_value e)" "length (he_value e) \<le> 16"
    and out': "encode_one_byte es = Inr out'"
    and out: "out = (push_bit 4 (he_id e) OR word_of_nat (length (he_value e) - 1)) # he_value e @ out'"
    by (auto simp: result_simps Let_def split: if_splits)
  note h = nibble_header [OF i n]
  have "he_id e \<noteq> 15" using i(2) by auto
  then show ?case
    using Cons.IH [OF out'] h
    by (simp add: out Let_def get_range_def)
qed

lemma two_byte_roundtrip:
  "encode_two_byte es = Inr out \<Longrightarrow> parse_two_byte (out @ replicate k 0) = Inr es"
proof (induction es arbitrary: out)
  case Nil
  then show ?case by (simp add: parse_two_byte_zeros)
next
  case (Cons e es)
  from Cons.prems obtain out' where
    i: "he_id e \<noteq> 0" and n: "length (he_value e) \<le> 255"
    and out': "encode_two_byte es = Inr out'"
    and out: "out = he_id e # word_of_nat (length (he_value e)) # he_value e @ out'"
    by (auto simp: result_simps Let_def not_less split: if_splits)
  have "unat (word_of_nat (length (he_value e)) :: u8) = length (he_value e)"
    using n by (intro unat_word_of_nat_less) simp
  then show ?case
    using Cons.IH [OF out'] i
    by (simp add: out Let_def get_range_def)
qed

lemma extensions_roundtrip:
  assumes "encode_extensions f es = Inr out"
  shows "parse_extensions (from_profile (profile f)) (out @ replicate k 0) = Inr es"
proof (cases f)
  case (Opaque p)
  with assms have "es = []" "out = []" by (auto split: if_splits)
  with Opaque show ?thesis
    by (cases "from_profile p") (simp_all add: parse_one_byte_zeros parse_two_byte_zeros)
qed (use assms in \<open>simp_all add: one_byte_roundtrip two_byte_roundtrip del: profile.simps\<close>)

end
