(* ===== verification/Rtp_Packet.thy ===== *)
theory Rtp_Packet
  imports Rtp_Extension
begin

text \<open>
  RTP packets, \<open>crates/webrtc/rtp/src/packet.rs\<close>: the datagram parser, the header-length check
  that works on encrypted packets, the builder, and the two rewriters the SFU uses. A borrowed
  packet of the source is a record of the values it borrows.
\<close>

section \<open>Definitions\<close>

definition fixed_header_len :: nat where
  "fixed_header_len = 12"

definition max_packet_len :: nat where
  "max_packet_len = 65535"

definition read_u16 :: "bytes \<Rightarrow> nat \<Rightarrow> (rtp_error, u16) result" where
  "read_u16 input position = read_be TruncatedHeader input position"

definition read_u32 :: "bytes \<Rightarrow> nat \<Rightarrow> (rtp_error, u32) result" where
  "read_u32 input position = read_be TruncatedHeader input position"

definition parse_header_length :: "bytes \<Rightarrow> (rtp_error, nat) result" where
  "parse_header_length input =
     (if length input < fixed_header_len then Inl (PacketTooShort (length input))
      else let first = input ! 0; version = drop_bit 6 first in
        if version \<noteq> 2 then Inl (UnsupportedVersion version)
        else let csrc_count = unat (first AND 0x0f);
                 position = fixed_header_len + csrc_count * 4 in
          if get_range input 0 position = None then Inl TruncatedHeader
          else if first AND 0x10 \<noteq> 0 then
            bind_r (read_u16 input (position + 2)) (\<lambda>words.
              let position' = position + 4 + unat words * 4 in
              if get_range input 0 position' = None then Inl TruncatedHeader else Inr position')
          else Inr position)"

record header =
  h_marker :: bool
  h_payload_type :: u8
  h_sequence_number :: u16
  h_timestamp :: u32
  h_ssrc :: u32
  h_csrcs :: "u32 list"

record extension_rewrite =
  xr_source_id :: u8
  xr_destination_id :: "u8 option"
  xr_replacement :: "bytes option"

record packet =
  p_header :: header
  p_header_len :: nat
  p_extension_format :: "extension_format option"
  p_extension_data :: "bytes option"
  p_extensions :: "header_extension list"
  p_payload :: bytes
  p_padding_len :: nat

definition parse_padding :: "bool \<Rightarrow> bytes \<Rightarrow> (rtp_error, nat) result" where
  "parse_padding has_padding pl =
     (if \<not> has_padding then Inr 0
      else if pl = [] then Inl (InvalidPadding 0)
      else let padding_len = unat (last pl) in
        if padding_len = 0 \<or> padding_len > length pl then Inl (InvalidPadding padding_len)
        else Inr padding_len)"

primrec read_csrcs :: "nat \<Rightarrow> bytes \<Rightarrow> nat \<Rightarrow> (rtp_error, u32 list \<times> nat) result" where
  "read_csrcs 0 input position = Inr ([], position)"
| "read_csrcs (Suc n) input position =
     bind_r (read_u32 input position) (\<lambda>csrc.
     bind_r (read_csrcs n input (position + 4)) (\<lambda>(csrcs, position'). Inr (csrc # csrcs, position')))"

definition parse_extension_block :: "bool \<Rightarrow> bytes \<Rightarrow> nat \<Rightarrow>
    (rtp_error, extension_format option \<times> bytes option \<times> header_extension list \<times> nat) result" where
  "parse_extension_block has_extension input position =
     (if has_extension then
        bind_r (read_u16 input position) (\<lambda>prof.
        bind_r (read_u16 input (position + 2)) (\<lambda>words.
          let position' = position + 4; stop = position' + unat words * 4 in
          bind_r (ok_or TruncatedHeader (get_range input position' stop)) (\<lambda>data.
          let format = from_profile prof in
          bind_r (parse_extensions format data) (\<lambda>parsed.
            Inr (Some format, Some data, parsed, stop)))))
      else Inr (None, None, [], position))"

definition parse :: "bytes \<Rightarrow> (rtp_error, packet) result" where
  "parse input =
     (if length input < fixed_header_len then Inl (PacketTooShort (length input))
      else let first = input ! 0; version = drop_bit 6 first in
        if version \<noteq> 2 then Inl (UnsupportedVersion version)
        else let has_padding = (first AND 0x20 \<noteq> 0);
                 has_extension = (first AND 0x10 \<noteq> 0);
                 csrc_count = unat (first AND 0x0f) in
          bind_r (read_csrcs csrc_count input fixed_header_len) (\<lambda>(csrcs, position).
          bind_r (parse_extension_block has_extension input position)
            (\<lambda>(format, data, extensions, position').
          bind_r (ok_or TruncatedHeader (get_range input position' (length input)))
            (\<lambda>payload_and_padding.
          bind_r (parse_padding has_padding payload_and_padding) (\<lambda>padding_len.
          if padding_len > length payload_and_padding then Inl (InvalidPadding padding_len)
          else let payload_len = length payload_and_padding - padding_len in
          bind_r (ok_or (InvalidPadding padding_len) (get_range payload_and_padding 0 payload_len))
            (\<lambda>pl.
          bind_r (read_u16 input 2) (\<lambda>sequence_number.
          bind_r (read_u32 input 4) (\<lambda>timestamp.
          bind_r (read_u32 input 8) (\<lambda>ssrc.
            Inr \<lparr>p_header = \<lparr>h_marker = (input ! 1 AND 0x80 \<noteq> 0),
                             h_payload_type = input ! 1 AND 0x7f,
                             h_sequence_number = sequence_number, h_timestamp = timestamp,
                             h_ssrc = ssrc, h_csrcs = csrcs\<rparr>,
                 p_header_len = position', p_extension_format = format,
                 p_extension_data = data, p_extensions = extensions,
                 p_payload = pl, p_padding_len = padding_len\<rparr>)))))))))"

record packet_builder =
  b_header :: header
  b_payload :: bytes
  b_extension_format :: "extension_format option"
  b_extensions :: "header_extension list"
  b_padding_len :: nat

definition pb_new :: "u8 \<Rightarrow> u16 \<Rightarrow> u32 \<Rightarrow> u32 \<Rightarrow> bytes \<Rightarrow> packet_builder" where
  "pb_new payload_type sequence_number timestamp ssrc pl =
     \<lparr>b_header = \<lparr>h_marker = False, h_payload_type = payload_type,
                   h_sequence_number = sequence_number, h_timestamp = timestamp,
                   h_ssrc = ssrc, h_csrcs = []\<rparr>,
      b_payload = pl, b_extension_format = None, b_extensions = [], b_padding_len = 0\<rparr>"

definition pb_marker :: "bool \<Rightarrow> packet_builder \<Rightarrow> packet_builder" where
  "pb_marker m b = b\<lparr>b_header := (b_header b)\<lparr>h_marker := m\<rparr>\<rparr>"

definition pb_csrcs :: "u32 list \<Rightarrow> packet_builder \<Rightarrow> packet_builder" where
  "pb_csrcs cs b = b\<lparr>b_header := (b_header b)\<lparr>h_csrcs := cs\<rparr>\<rparr>"

definition pb_extensions ::
    "extension_format \<Rightarrow> header_extension list \<Rightarrow> packet_builder \<Rightarrow> packet_builder" where
  "pb_extensions f es b = b\<lparr>b_extension_format := Some f, b_extensions := es\<rparr>"

definition pb_padding :: "nat \<Rightarrow> packet_builder \<Rightarrow> packet_builder" where
  "pb_padding n b = b\<lparr>b_padding_len := n\<rparr>"

definition validate_builder :: "packet_builder \<Rightarrow> (rtp_error, unit) result" where
  "validate_builder b =
     (if h_payload_type (b_header b) > 127 then Inl (InvalidPayloadType (h_payload_type (b_header b)))
      else if length (h_csrcs (b_header b)) > 15 then Inl (TooManyCsrcs (length (h_csrcs (b_header b))))
      else if b_padding_len b > 255 then Inl (PaddingTooLarge (b_padding_len b))
      else Inr ())"

definition bool_u8 :: "bool \<Rightarrow> u8" where
  "bool_u8 b = (if b then 1 else 0)"

definition encode_fixed_header :: "header \<Rightarrow> bool \<Rightarrow> nat \<Rightarrow> bytes" where
  "encode_fixed_header h has_extension padding_len =
     (let first = push_bit 6 2 OR push_bit 5 (bool_u8 (padding_len > 0)) OR
                  push_bit 4 (bool_u8 has_extension) OR
                  (if length (h_csrcs h) \<le> 255 then word_of_nat (length (h_csrcs h)) else 0)
      in [first, push_bit 7 (bool_u8 (h_marker h)) OR h_payload_type h] @
         to_be (h_sequence_number h) @ to_be (h_timestamp h) @ to_be (h_ssrc h))"

definition build :: "packet_builder \<Rightarrow> (rtp_error, bytes) result" where
  "build b =
     bind_r (validate_builder b) (\<lambda>_.
     bind_r (case b_extension_format b of
         None \<Rightarrow> Inr None
       | Some format \<Rightarrow> bind_r (encode_extensions format (b_extensions b)) (\<lambda>d. Inr (Some d)))
       (\<lambda>extension_data.
     let extension_len = (case extension_data of None \<Rightarrow> 0 | Some d \<Rightarrow> length d);
         padded_extension_len = extension_len + (4 - extension_len mod 4) mod 4 in
     if padded_extension_len div 4 > 65535 then Inl ExtensionBlockTooLarge
     else let extension_words = word_of_nat (padded_extension_len div 4) :: u16;
         total_len = fixed_header_len + length (h_csrcs (b_header b)) * 4 +
           (if extension_data \<noteq> None then 4 + padded_extension_len else 0) +
           length (b_payload b) + b_padding_len b in
     if total_len > max_packet_len then Inl PacketTooLarge
     else let
         fixed = encode_fixed_header (b_header b) (extension_data \<noteq> None) (b_padding_len b);
         csrcs = concat (map to_be (h_csrcs (b_header b)));
         ext = (case (b_extension_format b, extension_data) of
                  (Some format, Some data) \<Rightarrow>
                    to_be (profile format) @ to_be extension_words @ data @
                    replicate (padded_extension_len - length data) 0
                | _ \<Rightarrow> []);
         output = fixed @ csrcs @ ext @ b_payload b in
       Inr (if b_padding_len b > 0
            then output @ replicate (total_len - length output - 1) 0 @ [word_of_nat (b_padding_len b)]
            else output)))"

definition rewrite_extension ::
    "extension_rewrite list \<Rightarrow> header_extension \<Rightarrow> header_extension option" where
  "rewrite_extension rewrites e =
     (case find (\<lambda>r. xr_source_id r = he_id e) rewrites of
        None \<Rightarrow> Some e
      | Some r \<Rightarrow>
          (case xr_destination_id r of
             None \<Rightarrow> None
           | Some d \<Rightarrow> Some \<lparr>he_id = d, he_value =
               (case xr_replacement r of None \<Rightarrow> he_value e | Some v \<Rightarrow> v)\<rparr>))"

fun rewritable :: "extension_format option \<Rightarrow> extension_format option" where
  "rewritable None = None"
| "rewritable (Some (Opaque _)) = None"
| "rewritable (Some f) = Some f"

definition rewrite_header_extensions ::
    "bytes \<Rightarrow> extension_rewrite list \<Rightarrow> (rtp_error, bytes) result" where
  "rewrite_header_extensions input rewrites =
     (if rewrites = [] then Inr input
      else bind_r (parse input) (\<lambda>p.
        bind_r (ok_or UnsupportedExtensionRewrite (rewritable (p_extension_format p))) (\<lambda>format.
          let es = List.map_filter (rewrite_extension rewrites) (p_extensions p) in
          build
            (pb_padding (p_padding_len p)
            (pb_extensions format es
            (pb_csrcs (h_csrcs (p_header p))
            (pb_marker (h_marker (p_header p))
            (pb_new (h_payload_type (p_header p)) (h_sequence_number (p_header p))
               (h_timestamp (p_header p)) (h_ssrc (p_header p)) (p_payload p)))))))))"

record rewrite =
  rw_marker :: "bool option"
  rw_payload_type :: "u8 option"
  rw_sequence_number :: "u16 option"
  rw_timestamp :: "u32 option"
  rw_ssrc :: "u32 option"

text \<open>\<open>copy_from_slice\<close> into a sub-slice.\<close>

definition splice :: "nat \<Rightarrow> bytes \<Rightarrow> bytes \<Rightarrow> bytes" where
  "splice i v xs = take i xs @ v @ drop (i + length v) xs"

text \<open>The assignments after the payload type: marker, sequence number, timestamp, SSRC.\<close>

definition rewrite_fields :: "rewrite \<Rightarrow> bytes \<Rightarrow> bytes" where
  "rewrite_fields r packet =
     (let p1 = (case rw_marker r of None \<Rightarrow> packet
                | Some m \<Rightarrow> packet[1 := (packet ! 1 AND 0x7f) OR push_bit 7 (bool_u8 m)]);
          p2 = (case rw_sequence_number r of None \<Rightarrow> p1 | Some s \<Rightarrow> splice 2 (to_be s) p1);
          p3 = (case rw_timestamp r of None \<Rightarrow> p2 | Some t \<Rightarrow> splice 4 (to_be t) p2)
      in (case rw_ssrc r of None \<Rightarrow> p3 | Some s \<Rightarrow> splice 8 (to_be s) p3))"

definition rewrite_apply :: "rewrite \<Rightarrow> bytes \<Rightarrow> (rtp_error, unit) result \<times> bytes" where
  "rewrite_apply r packet =
     (case parse packet of
        Inl e \<Rightarrow> (Inl e, packet)
      | Inr _ \<Rightarrow>
          (case rw_payload_type r of
             Some pt \<Rightarrow> if pt > 127 then (Inl (InvalidPayloadType pt), packet) else
               (Inr (), rewrite_fields r (packet[1 := (packet ! 1 AND 0x80) OR pt]))
           | None \<Rightarrow> (Inr (), rewrite_fields r packet)))"

section \<open>Header bytes\<close>

lemma first_byte:
  fixes n :: nat and p x :: bool
  assumes "n \<le> 15"
  defines "f \<equiv> push_bit 6 2 OR push_bit 5 (bool_u8 p) OR push_bit 4 (bool_u8 x) OR word_of_nat n"
  shows "drop_bit 6 f = 2" and "(f AND 0x20 \<noteq> 0) = p" and "(f AND 0x10 \<noteq> 0) = x"
    and "unat (f AND 0x0f) = n"
proof -
  have "n \<in> {0, 1, 2, 3, 4, 5, 6, 7, 8, 9, 10, 11, 12, 13, 14, 15}"
    using assms(1) by (simp only: insert_iff empty_iff) arith
  then show "drop_bit 6 f = 2" and "(f AND 0x20 \<noteq> 0) = p" and "(f AND 0x10 \<noteq> 0) = x"
    and "unat (f AND 0x0f) = n"
    unfolding f_def by (cases p; cases x; auto simp: bool_u8_def)+
qed

lemma second_byte:
  fixes pt :: u8 and m :: bool
  assumes "pt \<le> 127"
  defines "g \<equiv> push_bit 7 (bool_u8 m) OR pt"
  shows "(g AND 0x80 \<noteq> 0) = m" and "g AND 0x7f = pt"
proof -
  have pt: "n < 7" if "bit pt n" for n
    using bit_word_small [of pt 7 n] assms(1) that by (simp add: word_le_nat_alt)
  have m80: "(0x80 :: u8) = push_bit 7 1" and m7f: "(0x7f :: u8) = mask 7"
    by (simp_all add: mask_eq_exp_minus_1)
  have "bit g 7 = m"
    using pt [of 7] by (auto simp: g_def bool_u8_def bit_simps)
  then show "(g AND 0x80 \<noteq> 0) = m"
    unfolding m80 by (metis and_exp_eq_0_iff_not_bit push_bit_of_1)
  show "g AND 0x7f = pt"
    unfolding m7f g_def by (rule bit_word_eqI) (auto simp: bit_simps bool_u8_def dest: pt)
qed

section \<open>Parsing a laid-out packet\<close>

lemma read_csrcs_layout:
  "position = length pre \<Longrightarrow>
     read_csrcs (length cs) (pre @ concat (map to_be cs) @ post) position
       = Inr (cs, position + length cs * 4)"
proof (induction cs arbitrary: pre position)
  case Nil
  then show ?case by simp
next
  case (Cons c cs)
  have "read_u32 (pre @ to_be c @ concat (map to_be cs) @ post) position = Inr c"
    unfolding read_u32_def by (rule read_be_at) (simp_all add: Cons.prems)
  moreover have "read_csrcs (length cs) ((pre @ to_be c) @ concat (map to_be cs) @ post) (position + 4)
      = Inr (cs, (position + 4) + length cs * 4)"
    by (rule Cons.IH) (simp add: Cons.prems)
  ultimately show ?case by simp
qed

lemma extension_block_layout:
  fixes words :: u16
  assumes "position = length pre" and "length data = unat words * 4"
    and "parse_extensions (from_profile prof) data = Inr es"
  shows "parse_extension_block True (pre @ to_be prof @ to_be words @ data @ post) position =
    Inr (Some (from_profile prof), Some data, es, position + 4 + length data)"
proof -
  have "read_u16 (pre @ to_be prof @ to_be words @ data @ post) position = Inr prof"
    unfolding read_u16_def by (rule read_be_at) (simp_all add: assms(1))
  moreover have "read_u16 ((pre @ to_be prof) @ to_be words @ data @ post) (position + 2) = Inr words"
    unfolding read_u16_def by (rule read_be_at) (simp_all add: assms(1))
  moreover have "get_range ((pre @ to_be prof @ to_be words) @ data @ post) (position + 4)
      (position + 4 + unat words * 4) = Some data"
    by (rule get_range_mid) (simp_all add: assms)
  ultimately show ?thesis using assms(2,3) by (simp add: parse_extension_block_def)
qed

definition padding_bytes :: "nat \<Rightarrow> bytes" where
  "padding_bytes n = (if n > 0 then replicate (n - 1) 0 @ [word_of_nat n] else [])"

lemma length_padding_bytes [simp]: "length (padding_bytes n) = n"
  by (simp add: padding_bytes_def)

lemma parse_padding_layout:
  "n \<le> 255 \<Longrightarrow> parse_padding (n > 0) (pl @ padding_bytes n) = Inr n"
  by (auto simp: parse_padding_def padding_bytes_def unat_word_of_nat_less Let_def)

lemma length_fixed_header [simp]: "length (encode_fixed_header h x n) = 12"
  by (simp add: encode_fixed_header_def Let_def)

lemma fixed_header_reads:
  "read_u16 (encode_fixed_header h x n @ rest) 2 = Inr (h_sequence_number h)"
  "read_u32 (encode_fixed_header h x n @ rest) 4 = Inr (h_timestamp h)"
  "read_u32 (encode_fixed_header h x n @ rest) 8 = Inr (h_ssrc h)"
proof -
  have "\<exists>a b. encode_fixed_header h x n =
      [a, b] @ to_be (h_sequence_number h) @ to_be (h_timestamp h) @ to_be (h_ssrc h)"
    unfolding encode_fixed_header_def Let_def by (intro exI) (rule refl)
  then obtain a b where e: "encode_fixed_header h x n =
      [a, b] @ to_be (h_sequence_number h) @ to_be (h_timestamp h) @ to_be (h_ssrc h)"
    by (elim exE)
  show "read_u16 (encode_fixed_header h x n @ rest) 2 = Inr (h_sequence_number h)"
    unfolding read_u16_def e append_assoc by (rule read_be_at) simp_all
  have "read_u32 (([a, b] @ to_be (h_sequence_number h)) @ to_be (h_timestamp h) @
      to_be (h_ssrc h) @ rest) 4 = Inr (h_timestamp h)"
    unfolding read_u32_def by (rule read_be_at) simp_all
  then show "read_u32 (encode_fixed_header h x n @ rest) 4 = Inr (h_timestamp h)"
    by (simp only: e append_assoc)
  have "read_u32 (([a, b] @ to_be (h_sequence_number h) @ to_be (h_timestamp h)) @
      to_be (h_ssrc h) @ rest) 8 = Inr (h_ssrc h)"
    unfolding read_u32_def by (rule read_be_at) simp_all
  then show "read_u32 (encode_fixed_header h x n @ rest) 8 = Inr (h_ssrc h)"
    by (simp only: e append_assoc)
qed

text \<open>What a packet looks like on the wire, and that the parser reads it back.\<close>

definition wire_extension :: "(extension_format \<times> u16 \<times> bytes) option \<Rightarrow> bytes" where
  "wire_extension x = (case x of None \<Rightarrow> []
     | Some (format, words, data) \<Rightarrow> to_be (profile format) @ to_be words @ data)"

lemma wire_extension_layout:
  assumes "position = length pre"
    and "\<And>f w d. x = Some (f, w, d) \<Longrightarrow> length d = unat w * 4 \<and>
      parse_extensions (from_profile (profile f)) d = Inr es"
    and "x = None \<Longrightarrow> es = []"
  shows "parse_extension_block (x \<noteq> None) (pre @ wire_extension x @ post) position =
    Inr (map_option (\<lambda>(f, _, _). from_profile (profile f)) x, map_option (\<lambda>(_, _, d). d) x, es,
         position + length (wire_extension x))"
proof (cases x)
  case None
  with assms(3) show ?thesis by (simp add: parse_extension_block_def wire_extension_def)
next
  case (Some y)
  obtain f w d where y: "y = (f, w, d)" by (cases y)
  with Some assms(2) have "length d = unat w * 4"
    "parse_extensions (from_profile (profile f)) d = Inr es" by auto
  from extension_block_layout [OF assms(1) this] Some y show ?thesis
    by (simp add: wire_extension_def)
qed

lemma parse_layout:
  fixes h :: header
  assumes "length (h_csrcs h) \<le> 15" and "h_payload_type h \<le> 127" and "n \<le> 255"
    and "\<And>f w d. x = Some (f, w, d) \<Longrightarrow> length d = unat w * 4 \<and>
      parse_extensions (from_profile (profile f)) d = Inr es"
    and "x = None \<Longrightarrow> es = []"
  shows "parse (encode_fixed_header h (x \<noteq> None) n @ concat (map to_be (h_csrcs h)) @
      wire_extension x @ pl @ padding_bytes n) =
    Inr \<lparr>p_header = h,
         p_header_len = 12 + length (h_csrcs h) * 4 + length (wire_extension x),
         p_extension_format = map_option (\<lambda>(f, _, _). from_profile (profile f)) x,
         p_extension_data = map_option (\<lambda>(_, _, d). d) x,
         p_extensions = es, p_payload = pl, p_padding_len = n\<rparr>"
    (is "parse ?input = _")
proof -
  let ?fx = "encode_fixed_header h (x \<noteq> None) n"
  let ?cs = "concat (map to_be (h_csrcs h)) :: bytes"
  let ?first = "?input ! 0" and ?second = "?input ! 1"
  have ne: "?fx = ?fx ! 0 # ?fx ! 1 # drop 2 ?fx"
    by (simp add: encode_fixed_header_def Let_def)
  have nth: "?first = ?fx ! 0" "?second = ?fx ! 1"
    by (simp_all add: nth_append)
  have first: "drop_bit 6 ?first = 2" "(?first AND 0x20 \<noteq> 0) = (n > 0)"
    "(?first AND 0x10 \<noteq> 0) = (x \<noteq> None)" "unat (?first AND 0x0f) = length (h_csrcs h)"
    unfolding nth using first_byte [OF assms(1), of "n > 0" "x \<noteq> None"] assms(1)
    by (simp_all add: encode_fixed_header_def Let_def)
  have second: "(?second AND 0x80 \<noteq> 0) = h_marker h" "?second AND 0x7f = h_payload_type h"
    unfolding nth using second_byte [OF assms(2), of "h_marker h"]
    by (simp_all add: encode_fixed_header_def Let_def)
  have len: "length ?cs = length (h_csrcs h) * 4"
    by (simp add: length_concat o_def sum_list_triv)
  have cs: "read_csrcs (length (h_csrcs h)) ?input 12 = Inr (h_csrcs h, 12 + length (h_csrcs h) * 4)"
    by (rule read_csrcs_layout) simp
  have ext: "parse_extension_block (x \<noteq> None) ?input (12 + length (h_csrcs h) * 4) =
      Inr (map_option (\<lambda>(f, _, _). from_profile (profile f)) x, map_option (\<lambda>(_, _, d). d) x, es,
           12 + length (h_csrcs h) * 4 + length (wire_extension x))"
    using wire_extension_layout [of _ "?fx @ ?cs" x es "pl @ padding_bytes n", OF _ assms(4,5)] len
    by simp
  have tail: "get_range ?input (12 + length (h_csrcs h) * 4 + length (wire_extension x)) (length ?input)
      = Some (pl @ padding_bytes n)"
    using len by (simp add: get_range_def)
  show ?thesis
    unfolding parse_def fixed_header_len_def Let_def first second
    using cs ext tail parse_padding_layout [OF assms(3), of pl]
    by (simp add: fixed_header_reads get_range_prefix get_range_def)
qed

section \<open>Building and parsing\<close>

lemma build_tail:
  "total_len = length output + n \<Longrightarrow>
     (if n > 0 then output @ replicate (total_len - length output - 1) 0 @ [word_of_nat n] else output)
       = output @ padding_bytes n"
  by (simp add: padding_bytes_def)

lemma length_csrcs: "length (concat (map to_be (cs :: u32 list))) = length cs * 4"
  by (simp add: length_concat o_def sum_list_triv)

lemma build_plain:
  assumes "b_extension_format b = None" and "build b = Inr out"
  shows "validate_builder b = Inr ()"
    and "12 + length (h_csrcs (b_header b)) * 4 + length (b_payload b) + b_padding_len b \<le> 65535"
    and "out = (encode_fixed_header (b_header b) False (b_padding_len b) @
      concat (map to_be (h_csrcs (b_header b))) @ b_payload b) @ padding_bytes (b_padding_len b)"
proof -
  show v: "validate_builder b = Inr ()"
    using assms(2) unfolding build_def by (cases "validate_builder b") simp_all
  let ?total = "12 + length (h_csrcs (b_header b)) * 4 + length (b_payload b) + b_padding_len b"
  let ?o = "encode_fixed_header (b_header b) False (b_padding_len b) @
      concat (map to_be (h_csrcs (b_header b))) @ b_payload b"
  have "build b = (if ?total > 65535 then Inl PacketTooLarge else Inr (?o @ padding_bytes (b_padding_len b)))"
    unfolding build_def v
    by (simp add: assms(1) Let_def fixed_header_len_def max_packet_len_def length_csrcs
        padding_bytes_def)
  then show "?total \<le> 65535" and "out = ?o @ padding_bytes (b_padding_len b)"
    using assms(2) by (simp_all split: if_splits)
qed

lemma build_extended:
  assumes "b_extension_format b = Some f" and "build b = Inr out"
  shows "\<exists>d. validate_builder b = Inr () \<and> encode_extensions f (b_extensions b) = Inr d \<and>
    (length d + pad4 (length d)) div 4 \<le> 65535 \<and>
    12 + length (h_csrcs (b_header b)) * 4 + (4 + (length d + pad4 (length d))) +
      length (b_payload b) + b_padding_len b \<le> 65535 \<and>
    out = (encode_fixed_header (b_header b) True (b_padding_len b) @
      concat (map to_be (h_csrcs (b_header b))) @ (to_be (profile f) @
      to_be (word_of_nat ((length d + pad4 (length d)) div 4) :: u16) @ d @
      replicate (pad4 (length d)) 0) @ b_payload b) @ padding_bytes (b_padding_len b)"
proof -
  have v: "validate_builder b = Inr ()"
    using assms(2) unfolding build_def by (cases "validate_builder b") simp_all
  obtain d where d: "encode_extensions f (b_extensions b) = Inr d"
    using assms unfolding build_def v by (cases "encode_extensions f (b_extensions b)") simp_all
  define k where "k = pad4 (length d)"
  have k: "(4 - length d mod 4) mod 4 = k" by (simp only: k_def pad4_def)
  let ?w = "word_of_nat ((length d + k) div 4) :: u16"
  let ?total = "12 + length (h_csrcs (b_header b)) * 4 + (4 + (length d + k)) +
      length (b_payload b) + b_padding_len b"
  let ?o = "encode_fixed_header (b_header b) True (b_padding_len b) @
      concat (map to_be (h_csrcs (b_header b))) @ (to_be (profile f) @ to_be ?w @ d @
      replicate k 0) @ b_payload b"
  have "build b = (if (length d + k) div 4 > 65535 then Inl ExtensionBlockTooLarge
      else if ?total > 65535 then Inl PacketTooLarge
      else Inr (if b_padding_len b > 0 then
        ?o @ replicate (?total - length ?o - 1) 0 @ [word_of_nat (b_padding_len b)] else ?o))"
    unfolding build_def v by (simp add: assms(1) d Let_def fixed_header_len_def max_packet_len_def k)
  also have "(if b_padding_len b > 0 then
      ?o @ replicate (?total - length ?o - 1) 0 @ [word_of_nat (b_padding_len b)] else ?o) =
      ?o @ padding_bytes (b_padding_len b)"
    by (rule build_tail) (simp add: length_csrcs)
  finally show ?thesis
    using assms(2) v d unfolding k_def
    by (intro exI [of _ d]) (simp split: if_splits del: append_assoc)
qed

lemma validate_builder_Inr:
  "validate_builder b = Inr u \<longleftrightarrow> h_payload_type (b_header b) \<le> 127 \<and>
     length (h_csrcs (b_header b)) \<le> 15 \<and> b_padding_len b \<le> 255"
  by (auto simp: validate_builder_def not_less)

lemma build_layout:
  assumes "build b = Inr out"
  shows "\<exists>x es. out = encode_fixed_header (b_header b) (x \<noteq> None) (b_padding_len b) @
       concat (map to_be (h_csrcs (b_header b))) @
       wire_extension x @ b_payload b @ padding_bytes (b_padding_len b) \<and>
    (\<forall>f w d. x = Some (f, w, d) \<longrightarrow> length d = unat w * 4 \<and>
       parse_extensions (from_profile (profile f)) d = Inr es) \<and>
    (x = None \<longrightarrow> es = []) \<and> map_option fst x = b_extension_format b \<and>
    es = (case b_extension_format b of None \<Rightarrow> [] | Some _ \<Rightarrow> b_extensions b) \<and>
    validate_builder b = Inr () \<and> length out \<le> 65535"
proof (cases "b_extension_format b")
  case None
  from build_plain [OF None assms] None show ?thesis
    by (intro exI [of _ None] exI [of _ "[]"]) (simp add: wire_extension_def length_csrcs)
next
  case (Some f)
  then obtain d where v: "validate_builder b = Inr ()"
    and d: "encode_extensions f (b_extensions b) = Inr d"
    and w: "(length d + pad4 (length d)) div 4 \<le> 65535"
    and tot: "12 + length (h_csrcs (b_header b)) * 4 + (4 + (length d + pad4 (length d))) +
      length (b_payload b) + b_padding_len b \<le> 65535"
    and out: "out = (encode_fixed_header (b_header b) True (b_padding_len b) @
      concat (map to_be (h_csrcs (b_header b))) @ (to_be (profile f) @
      to_be (word_of_nat ((length d + pad4 (length d)) div 4) :: u16) @ d @
      replicate (pad4 (length d)) 0) @ b_payload b) @ padding_bytes (b_padding_len b)"
    using build_extended [OF Some assms] by (elim exE conjE)
  define k where "k = pad4 (length d)"
  define u :: u16 where "u = word_of_nat ((length d + k) div 4)"
  have "unat u = (length d + k) div 4"
    unfolding u_def using w by (intro unat_word_of_nat_less) (simp add: k_def)
  moreover have "(length d + k) div 4 * 4 = length d + k"
    using pad4_mod [of "length d"] by (simp add: k_def mod_0_imp_dvd)
  ultimately have "length (d @ replicate k 0) = unat u * 4" by simp
  moreover have "parse_extensions (from_profile (profile f)) (d @ replicate k 0) = Inr (b_extensions b)"
    by (rule extensions_roundtrip [OF d])
  moreover have "length out \<le> 65535"
    using tot unfolding out by (simp add: length_csrcs)
  ultimately show ?thesis
    using Some v out
    by (intro exI [of _ "Some (f, u, d @ replicate k 0)"] exI [of _ "b_extensions b"])
      (simp add: wire_extension_def k_def u_def)
qed

lemma build_parse:
  assumes "build b = Inr out"
  shows "\<exists>p. parse out = Inr p \<and> p_header p = b_header b \<and> p_payload p = b_payload b \<and>
    p_padding_len p = b_padding_len b \<and>
    p_extension_format p = map_option (\<lambda>f. from_profile (profile f)) (b_extension_format b) \<and>
    p_extensions p = (case b_extension_format b of None \<Rightarrow> [] | Some _ \<Rightarrow> b_extensions b) \<and>
    length out \<le> 65535"
proof -
  from build_layout [OF assms] obtain x es where
    l: "out = encode_fixed_header (b_header b) (x \<noteq> None) (b_padding_len b) @
       concat (map to_be (h_csrcs (b_header b))) @ wire_extension x @ b_payload b @
       padding_bytes (b_padding_len b)"
    and x: "\<forall>f w d. x = Some (f, w, d) \<longrightarrow> length d = unat w * 4 \<and>
       parse_extensions (from_profile (profile f)) d = Inr es" "x = None \<longrightarrow> es = []"
    and f: "map_option fst x = b_extension_format b"
    and e: "es = (case b_extension_format b of None \<Rightarrow> [] | Some _ \<Rightarrow> b_extensions b)"
    and v: "validate_builder b = Inr ()" "length out \<le> 65535"
    by (elim exE conjE)
  have fmt: "map_option (\<lambda>(f, _, _). from_profile (profile f)) x =
      map_option (\<lambda>f. from_profile (profile f)) (b_extension_format b)"
    unfolding f [symmetric] by (cases x) auto
  have "parse out = Inr \<lparr>p_header = b_header b,
         p_header_len = 12 + length (h_csrcs (b_header b)) * 4 + length (wire_extension x),
         p_extension_format = map_option (\<lambda>(f, _, _). from_profile (profile f)) x,
         p_extension_data = map_option (\<lambda>(_, _, d). d) x,
         p_extensions = es, p_payload = b_payload b, p_padding_len = b_padding_len b\<rparr>"
    unfolding l using v(1) x by (intro parse_layout) (simp_all add: validate_builder_Inr)
  then show ?thesis
    using fmt e v(2) by simp
qed

section \<open>What a parsed packet says about its bytes\<close>

lemma read_csrcs_Inr:
  "read_csrcs n input position = Inr (cs, position') \<Longrightarrow>
     length cs = n \<and> position' = position + n * 4 \<and> (n = 0 \<or> position' \<le> length input)"
proof (induction n arbitrary: position cs position')
  case 0
  then show ?case by simp
next
  case (Suc n)
  from Suc.prems obtain c cs' where
    "read_u32 input position = Inr c" "read_csrcs n input (position + 4) = Inr (cs', position')"
    "cs = c # cs'"
    by (auto simp: result_simps)
  with Suc.IH [of "position + 4" cs' position'] show ?case
    by (auto simp: read_u32_def read_be_Inr)
qed

lemma parse_eq:
  "parse input = Inr p \<longleftrightarrow>
     12 \<le> length input \<and> drop_bit 6 (input ! 0) = 2 \<and>
     (\<exists>position. read_csrcs (unat (input ! 0 AND 0x0f)) input 12 = Inr (h_csrcs (p_header p), position) \<and>
        parse_extension_block (input ! 0 AND 0x10 \<noteq> 0) input position =
          Inr (p_extension_format p, p_extension_data p, p_extensions p, p_header_len p)) \<and>
     p_header_len p \<le> length input \<and>
     parse_padding (input ! 0 AND 0x20 \<noteq> 0) (drop (p_header_len p) input) = Inr (p_padding_len p) \<and>
     p_header_len p + p_padding_len p \<le> length input \<and>
     p_payload p = take (length input - p_header_len p - p_padding_len p) (drop (p_header_len p) input) \<and>
     h_marker (p_header p) = (input ! 1 AND 0x80 \<noteq> 0) \<and>
     h_payload_type (p_header p) = input ! 1 AND 0x7f \<and>
     read_u16 input 2 = Inr (h_sequence_number (p_header p)) \<and>
     read_u32 input 4 = Inr (h_timestamp (p_header p)) \<and>
     read_u32 input 8 = Inr (h_ssrc (p_header p))"
    (is "?L = ?R")
proof
  assume ?L
  then show ?R
    by (fastforce simp: parse_def fixed_header_len_def Let_def result_simps get_range_Some
        split: if_splits)
next
  assume ?R
  then show ?L
    by (fastforce simp: parse_def fixed_header_len_def Let_def result_simps get_range_Some
        split: if_splits)
qed

lemma parse_extension_block_Inr:
  assumes "parse_extension_block x input position = Inr (f, d, es, position')"
  shows "position \<le> position'" and "x \<Longrightarrow> position' \<le> length input"
    and "\<not> x \<Longrightarrow> position' = position"
    and "x \<Longrightarrow> \<exists>words. read_u16 input (position + 2) = Inr words \<and>
      position' = position + 4 + unat words * 4"
  using assms by (auto simp: parse_extension_block_def result_simps Let_def get_range_Some
      split: if_splits)

text \<open>The three parts of a parsed datagram: header, payload, padding.\<close>

lemma parse_parts:
  assumes "parse input = Inr p"
  shows "12 \<le> p_header_len p"
    and "length input = p_header_len p + length (p_payload p) + p_padding_len p"
    and "input = take (p_header_len p) input @ p_payload p @
      drop (p_header_len p + length (p_payload p)) input"
proof -
  from assms obtain position where
    cs: "read_csrcs (unat (input ! 0 AND 0x0f)) input 12 = Inr (h_csrcs (p_header p), position)"
    and ext: "parse_extension_block (input ! 0 AND 0x10 \<noteq> 0) input position =
      Inr (p_extension_format p, p_extension_data p, p_extensions p, p_header_len p)"
    and len: "p_header_len p + p_padding_len p \<le> length input"
    and pl: "p_payload p =
      take (length input - p_header_len p - p_padding_len p) (drop (p_header_len p) input)"
    unfolding parse_eq by (elim conjE exE)
  show "12 \<le> p_header_len p"
    using parse_extension_block_Inr(1) [OF ext] read_csrcs_Inr [OF cs] by simp
  have n: "length (p_payload p) = length input - p_header_len p - p_padding_len p"
    unfolding pl using len by simp
  then show "length input = p_header_len p + length (p_payload p) + p_padding_len p"
    using len by simp
  have "p_payload p @ drop (p_header_len p + length (p_payload p)) input = drop (p_header_len p) input"
    unfolding n unfolding pl by (metis add.commute append_take_drop_id drop_drop)
  then show "input = take (p_header_len p) input @ p_payload p @
      drop (p_header_len p + length (p_payload p)) input"
    by simp
qed

section \<open>The header length of an encrypted packet\<close>

lemma parse_header_length_agrees:
  assumes "parse input = Inr p"
  shows "parse_header_length input = Inr (p_header_len p)"
proof -
  from assms obtain position where
    l: "12 \<le> length input" and v: "drop_bit 6 (input ! 0) = 2"
    and cs: "read_csrcs (unat (input ! 0 AND 0x0f)) input 12 = Inr (h_csrcs (p_header p), position)"
    and ext: "parse_extension_block (input ! 0 AND 0x10 \<noteq> 0) input position =
      Inr (p_extension_format p, p_extension_data p, p_extensions p, p_header_len p)"
    unfolding parse_eq by (elim conjE exE)
  have pos: "12 + unat (input ! 0 AND 0x0f) * 4 = position" "position \<le> length input"
    using read_csrcs_Inr [OF cs] l by auto
  show ?thesis
  proof (cases "input ! 0 AND 0x10 = 0")
    case True
    with parse_extension_block_Inr(3) [OF ext] pos l v show ?thesis
      by (simp add: parse_header_length_def fixed_header_len_def Let_def get_range_def)
  next
    case False
    with parse_extension_block_Inr(2,4) [OF ext] pos l v show ?thesis
      by (auto simp: parse_header_length_def fixed_header_len_def Let_def get_range_def)
  qed
qed

lemma parse_header_length_Inr:
  "parse_header_length input = Inr n \<longleftrightarrow>
     12 \<le> length input \<and> drop_bit 6 (input ! 0) = 2 \<and>
     12 + unat (input ! 0 AND 0x0f) * 4 \<le> length input \<and>
     (if input ! 0 AND 0x10 \<noteq> 0
      then \<exists>words. read_u16 input (12 + unat (input ! 0 AND 0x0f) * 4 + 2) = Inr words \<and>
         n = 12 + unat (input ! 0 AND 0x0f) * 4 + 4 + unat words * 4 \<and> n \<le> length input
      else n = 12 + unat (input ! 0 AND 0x0f) * 4)"
  by (auto simp: parse_header_length_def fixed_header_len_def Let_def result_simps get_range_def
      split: if_splits)

text \<open>Only the header itself is read: replacing what follows it changes nothing.\<close>

lemma parse_header_length_prefix:
  assumes "parse_header_length input = Inr n"
  shows "n \<le> length input" and "12 \<le> n"
    and "parse_header_length (take n input @ rest) = Inr n"
proof -
  show n: "n \<le> length input" and n12: "12 \<le> n"
    using assms unfolding parse_header_length_Inr by (auto split: if_splits)
  have nth: "(take n input @ rest) ! 0 = input ! 0"
    using n n12 by (simp add: nth_append)
  have rd: "(read_u16 (take n input @ rest) i) = read_u16 input i" if "i + 2 \<le> n" for i
    unfolding read_u16_def using that n by (intro read_be_take) simp_all
  show "parse_header_length (take n input @ rest) = Inr n"
  proof (cases "input ! 0 AND 0x10 = 0")
    case True
    with assms n n12 show ?thesis unfolding parse_header_length_Inr nth by simp
  next
    case False
    with assms obtain words where
      "read_u16 input (12 + unat (input ! 0 AND 0x0f) * 4 + 2) = Inr words"
      and w: "n = 12 + unat (input ! 0 AND 0x0f) * 4 + 4 + unat words * 4"
      unfolding parse_header_length_Inr by auto
    moreover from w have "12 + unat (input ! 0 AND 0x0f) * 4 + 2 + 2 \<le> n" by simp
    ultimately have "read_u16 (take n input @ rest) (12 + unat (input ! 0 AND 0x0f) * 4 + 2) = Inr words"
      using rd by metis
    with assms n n12 w False show ?thesis unfolding parse_header_length_Inr nth by simp
  qed
qed

section \<open>Replacing the fixed header fields\<close>

lemma read_csrcs_prefix:
  "length pre = length pre' \<Longrightarrow> length pre \<le> position \<Longrightarrow>
     read_csrcs n (pre @ rest) position = read_csrcs n (pre' @ rest) position"
  by (induction n arbitrary: position) (simp_all add: read_u32_def read_be_append)

lemma parse_extension_block_prefix:
  "length pre = length pre' \<Longrightarrow> length pre \<le> position \<Longrightarrow>
     parse_extension_block x (pre @ rest) position = parse_extension_block x (pre' @ rest) position"
  by (simp add: parse_extension_block_def read_u16_def read_be_append get_range_append2)

lemma splice_at:
  "i = length pre \<Longrightarrow> length v = length w \<Longrightarrow> splice i v (pre @ w @ post) = pre @ v @ post"
  by (simp add: splice_def)

text \<open>The layout every datagram of at least twelve bytes has.\<close>

definition fixed_layout :: "u8 \<Rightarrow> u8 \<Rightarrow> u16 \<Rightarrow> u32 \<Rightarrow> u32 \<Rightarrow> bytes" where
  "fixed_layout a b s t c = [a, b] @ to_be s @ to_be t @ to_be c"

lemma length_fixed_layout [simp]: "length (fixed_layout a b s t c) = 12"
  by (simp add: fixed_layout_def)

lemma fixed_layout_nth [simp]:
  "(fixed_layout a b s t c @ rest) ! 0 = a" "(fixed_layout a b s t c @ rest) ! 1 = b"
  "(fixed_layout a b s t c @ rest) ! Suc 0 = b"
  by (simp_all add: fixed_layout_def)

lemma fixed_layout_reads [simp]:
  "read_u16 (fixed_layout a b s t c @ rest) 2 = Inr s"
  "read_u32 (fixed_layout a b s t c @ rest) 4 = Inr t"
  "read_u32 (fixed_layout a b s t c @ rest) 8 = Inr c"
proof -
  show "read_u16 (fixed_layout a b s t c @ rest) 2 = Inr s"
    unfolding read_u16_def fixed_layout_def append_assoc by (rule read_be_at) simp_all
  have "read_u32 (([a, b] @ to_be s) @ to_be t @ to_be c @ rest) 4 = Inr t"
    unfolding read_u32_def by (rule read_be_at) simp_all
  then show "read_u32 (fixed_layout a b s t c @ rest) 4 = Inr t"
    by (simp only: fixed_layout_def append_assoc)
  have "read_u32 (([a, b] @ to_be s @ to_be t) @ to_be c @ rest) 8 = Inr c"
    unfolding read_u32_def by (rule read_be_at) simp_all
  then show "read_u32 (fixed_layout a b s t c @ rest) 8 = Inr c"
    by (simp only: fixed_layout_def append_assoc)
qed

lemma fixed_layout_exists:
  assumes "12 \<le> length input"
  shows "\<exists>s t c. input = fixed_layout (input ! 0) (input ! 1) s t c @ drop 12 input"
proof -
  have d: "drop 2 input = take 2 (drop 2 input) @ drop 4 input"
    "drop 4 input = take 4 (drop 4 input) @ drop 8 input"
    "drop 8 input = take 4 (drop 8 input) @ drop 12 input"
    using drop_split [of 2 input 2] drop_split [of 4 input 4] drop_split [of 8 input 4] by simp_all
  obtain a b rest where i: "input = a # b # rest"
    using assms by (cases input; cases "tl input") auto
  have e: "take 2 (drop 2 input) = to_be (from_be (take 2 (drop 2 input)) :: u16)"
    "take 4 (drop 4 input) = to_be (from_be (take 4 (drop 4 input)) :: u32)"
    "take 4 (drop 8 input) = to_be (from_be (take 4 (drop 8 input)) :: u32)"
    using assms by (simp_all add: be16.enc_dec be32.enc_dec)
  have "input = [input ! 0, input ! 1] @ drop 2 input" using i by simp
  also have "drop 2 input = take 2 (drop 2 input) @ take 4 (drop 4 input) @ take 4 (drop 8 input) @
      drop 12 input"
    using d by metis
  finally show ?thesis
    unfolding fixed_layout_def using e by (metis append_assoc)
qed

lemma parse_fixed_layout:
  assumes "parse (fixed_layout a b s t c @ rest) = Inr p"
  shows "parse (fixed_layout a b' s' t' c' @ rest) =
    Inr (p\<lparr>p_header := \<lparr>h_marker = (b' AND 0x80 \<noteq> 0), h_payload_type = b' AND 0x7f,
      h_sequence_number = s', h_timestamp = t', h_ssrc = c', h_csrcs = h_csrcs (p_header p)\<rparr>\<rparr>)"
proof -
  let ?i = "fixed_layout a b s t c @ rest" and ?j = "fixed_layout a b' s' t' c' @ rest"
  have n: "12 \<le> p_header_len p" by (rule parse_parts(1) [OF assms])
  have d: "drop (p_header_len p) ?i = drop (p_header_len p) ?j" using n by simp
  have e: "parse_extension_block x ?i k = parse_extension_block x ?j k" if "12 \<le> k" for k x
    by (rule parse_extension_block_prefix) (simp_all add: that)
  have r: "read_csrcs k ?i 12 = read_csrcs k ?j 12" for k
    by (rule read_csrcs_prefix) simp_all
  from assms obtain position where
    cs: "read_csrcs (unat (a AND 0x0f)) ?i 12 = Inr (h_csrcs (p_header p), position)"
    and ext: "parse_extension_block (a AND 0x10 \<noteq> 0) ?i position =
      Inr (p_extension_format p, p_extension_data p, p_extensions p, p_header_len p)"
    and others: "p_header_len p \<le> length ?i" "drop_bit 6 a = 2"
      "parse_padding (a AND 0x20 \<noteq> 0) (drop (p_header_len p) ?i) = Inr (p_padding_len p)"
      "p_header_len p + p_padding_len p \<le> length ?i"
      "p_payload p = take (length ?i - p_header_len p - p_padding_len p) (drop (p_header_len p) ?i)"
    unfolding parse_eq fixed_layout_nth by (elim conjE exE)
  have "12 \<le> position" using read_csrcs_Inr [OF cs] by simp
  with ext have ext': "parse_extension_block (a AND 0x10 \<noteq> 0) ?j position =
      Inr (p_extension_format p, p_extension_data p, p_extensions p, p_header_len p)"
    by (simp only: e)
  show ?thesis
    unfolding parse_eq using others cs ext' n by (auto simp: r [symmetric])
qed

lemma second_byte_updates:
  fixes b pt :: u8
  shows "pt \<le> 127 \<Longrightarrow> ((b AND 0x80) OR pt) AND 0x7f = pt"
    and "pt \<le> 127 \<Longrightarrow> ((b AND 0x80) OR pt) AND 0x80 = b AND 0x80"
    and "((b AND 0x7f) OR push_bit 7 (bool_u8 m)) AND 0x7f = b AND 0x7f"
    and "(((b AND 0x7f) OR push_bit 7 (bool_u8 m)) AND 0x80 \<noteq> 0) = m"
proof -
  have b80: "bit (0x80 :: u8) n \<longleftrightarrow> n = 7" and b7f: "bit (0x7f :: u8) n \<longleftrightarrow> n < 7" for n
    using bit_exp_iff [where 'a = u8, of 7 n] bit_mask_iff [where 'a = u8, of 7 n]
    by (auto simp: mask_eq_exp_minus_1)
  have pt: "n < 7" if "bit pt n" "pt \<le> 127" for n
    using bit_word_small [of pt 7 n] that by (simp add: word_le_nat_alt)
  show "pt \<le> 127 \<Longrightarrow> ((b AND 0x80) OR pt) AND 0x7f = pt"
    by (rule bit_word_eqI) (auto simp: bit_and_iff bit_or_iff bit_push_bit_iff b80 b7f dest: pt simp del: bit_numeral_word_iff)
  show "pt \<le> 127 \<Longrightarrow> ((b AND 0x80) OR pt) AND 0x80 = b AND 0x80"
    by (rule bit_word_eqI) (auto simp: bit_and_iff bit_or_iff bit_push_bit_iff b80 b7f dest: pt simp del: bit_numeral_word_iff)
  show "((b AND 0x7f) OR push_bit 7 (bool_u8 m)) AND 0x7f = b AND 0x7f"
    by (rule bit_word_eqI) (auto simp: bit_and_iff bit_or_iff bit_push_bit_iff b80 b7f bool_u8_def simp del: bit_numeral_word_iff)
  have "bit ((b AND 0x7f) OR push_bit 7 (bool_u8 m)) 7 = m"
    by (auto simp: bit_and_iff bit_or_iff bit_push_bit_iff b7f bool_u8_def simp del: bit_numeral_word_iff)
  moreover have "(0x80 :: u8) = 2 ^ 7" by simp
  ultimately show "(((b AND 0x7f) OR push_bit 7 (bool_u8 m)) AND 0x80 \<noteq> 0) = m"
    by (metis and_exp_eq_0_iff_not_bit)
qed

lemma second_byte_rewritten:
  fixes b :: u8 and m :: "bool option"
  assumes "\<And>v. pt = Some v \<Longrightarrow> v \<le> 127"
  defines "b1 \<equiv> case pt of None \<Rightarrow> b | Some v \<Rightarrow> (b AND 0x80) OR v"
  defines "b2 \<equiv> case m of None \<Rightarrow> b1 | Some m \<Rightarrow> (b1 AND 0x7f) OR push_bit 7 (bool_u8 m)"
  shows "(b2 AND 0x80 \<noteq> 0) = (case m of None \<Rightarrow> b AND 0x80 \<noteq> 0 | Some m \<Rightarrow> m)"
    and "b2 AND 0x7f = (case pt of None \<Rightarrow> b AND 0x7f | Some v \<Rightarrow> v)"
proof -
  have 1: "b1 AND 0x80 = b AND 0x80" "b1 AND 0x7f = (case pt of None \<Rightarrow> b AND 0x7f | Some v \<Rightarrow> v)"
    unfolding b1_def using assms(1) by (auto simp: second_byte_updates(1,2) split: option.split)
  show "(b2 AND 0x80 \<noteq> 0) = (case m of None \<Rightarrow> b AND 0x80 \<noteq> 0 | Some m \<Rightarrow> m)"
    unfolding b2_def using 1 second_byte_updates(4) [of b1] by (auto split: option.split)
  show "b2 AND 0x7f = (case pt of None \<Rightarrow> b AND 0x7f | Some v \<Rightarrow> v)"
    unfolding b2_def using 1 second_byte_updates(3) [of b1] by (auto split: option.split)
qed

definition rewrite_header :: "rewrite \<Rightarrow> header \<Rightarrow> header" where
  "rewrite_header r h =
     \<lparr>h_marker = (case rw_marker r of None \<Rightarrow> h_marker h | Some m \<Rightarrow> m),
      h_payload_type = (case rw_payload_type r of None \<Rightarrow> h_payload_type h | Some v \<Rightarrow> v),
      h_sequence_number = (case rw_sequence_number r of None \<Rightarrow> h_sequence_number h | Some v \<Rightarrow> v),
      h_timestamp = (case rw_timestamp r of None \<Rightarrow> h_timestamp h | Some v \<Rightarrow> v),
      h_ssrc = (case rw_ssrc r of None \<Rightarrow> h_ssrc h | Some v \<Rightarrow> v), h_csrcs = h_csrcs h\<rparr>"

lemma splice_layout:
  "splice 2 (to_be s') (fixed_layout a b s t c @ rest) = fixed_layout a b s' t c @ rest"
  "splice 4 (to_be t') (fixed_layout a b s t c @ rest) = fixed_layout a b s t' c @ rest"
  "splice 8 (to_be c') (fixed_layout a b s t c @ rest) = fixed_layout a b s t c' @ rest"
  using splice_at [of 2 "[a, b]" "to_be s'" "to_be s" "to_be t @ to_be c @ rest"]
    splice_at [of 4 "[a, b] @ to_be s" "to_be t'" "to_be t" "to_be c @ rest"]
    splice_at [of 8 "[a, b] @ to_be s @ to_be t" "to_be c'" "to_be c" rest]
  by (simp_all add: fixed_layout_def)

lemma layout_update: "(fixed_layout a b s t c @ rest)[1 := b'] = fixed_layout a b' s t c @ rest"
  "(fixed_layout a b s t c @ rest)[Suc 0 := b'] = fixed_layout a b' s t c @ rest"
  by (simp_all add: fixed_layout_def)

lemma rewrite_fields_layout:
  "rewrite_fields r (fixed_layout a b s t c @ rest) = fixed_layout a
     (case rw_marker r of None \<Rightarrow> b | Some m \<Rightarrow> (b AND 0x7f) OR push_bit 7 (bool_u8 m))
     (case rw_sequence_number r of None \<Rightarrow> s | Some v \<Rightarrow> v)
     (case rw_timestamp r of None \<Rightarrow> t | Some v \<Rightarrow> v)
     (case rw_ssrc r of None \<Rightarrow> c | Some v \<Rightarrow> v) @ rest"
  unfolding rewrite_fields_def Let_def
  by (cases "rw_marker r"; cases "rw_sequence_number r"; cases "rw_timestamp r"; cases "rw_ssrc r";
      simp add: splice_layout layout_update)

lemma parse_header_of_layout:
  assumes "parse (fixed_layout a b s t c @ rest) = Inr p"
  shows "h_marker (p_header p) = (b AND 0x80 \<noteq> 0)" and "h_payload_type (p_header p) = b AND 0x7f"
    and "h_sequence_number (p_header p) = s" and "h_timestamp (p_header p) = t"
    and "h_ssrc (p_header p) = c"
  using assms unfolding parse_eq by simp_all

lemma rewrite_apply_parses:
  assumes "parse input = Inr p" and "\<And>v. rw_payload_type r = Some v \<Longrightarrow> v \<le> 127"
  shows "\<exists>out. rewrite_apply r input = (Inr (), out) \<and> length out = length input \<and>
    parse out = Inr (p\<lparr>p_header := rewrite_header r (p_header p)\<rparr>)"
proof -
  obtain s t c where i: "input = fixed_layout (input ! 0) (input ! 1) s t c @ drop 12 input"
    using fixed_layout_exists [of input] assms(1) unfolding parse_eq by blast
  define a b rest where "a = input ! 0" and "b = input ! 1" and "rest = drop 12 input"
  with i have i: "input = fixed_layout a b s t c @ rest" by simp
  note p = assms(1) [unfolded i]
  let ?b = "case rw_payload_type r of None \<Rightarrow> b | Some v \<Rightarrow> (b AND 0x80) OR v"
  let ?out = "rewrite_fields r (fixed_layout a ?b s t c @ rest)"
  have "rewrite_apply r input = (Inr (), ?out)"
    using p assms(2) unfolding rewrite_apply_def i
    by (cases "rw_payload_type r") (auto simp: layout_update not_less)
  moreover have "length ?out = length input"
    unfolding rewrite_fields_layout i by simp
  moreover have "parse ?out = Inr (p\<lparr>p_header := rewrite_header r (p_header p)\<rparr>)"
    unfolding rewrite_fields_layout parse_fixed_layout [OF p] rewrite_header_def
      parse_header_of_layout [OF p]
    using second_byte_rewritten [OF assms(2), where b = b and m = "rw_marker r"] by (simp only:)
  ultimately show ?thesis by blast
qed

section \<open>Properties\<close>

lemma rewritable_Some: "rewritable x = Some f \<longleftrightarrow> x = Some f \<and> (f = OneByte \<or> f = TwoByte)"
  by (cases x rule: rewritable.cases) auto

text \<open>C39. A datagram the builder accepts parses back to the values it was built from: the fixed
  header with its CSRC list, the extensions, the payload and the amount of padding. It is never
  longer than a UDP payload can be, and its format is the one the profile number on the wire
  denotes.\<close>

theorem packet_roundtrip:
  assumes "build b = Inr out"
  shows "length out \<le> 65535 \<and>
    (\<exists>p. parse out = Inr p \<and> p_header p = b_header b \<and> p_payload p = b_payload b \<and>
      p_padding_len p = b_padding_len b \<and>
      p_extension_format p = map_option (\<lambda>f. from_profile (profile f)) (b_extension_format b) \<and>
      p_extensions p = (case b_extension_format b of None \<Rightarrow> [] | Some _ \<Rightarrow> b_extensions b))"
  using build_parse [OF assms] by blast

definition sample_builder :: packet_builder where
  "sample_builder = pb_padding 3 (pb_extensions OneByte [\<lparr>he_id = 1, he_value = [7]\<rparr>]
     (pb_csrcs [9] (pb_marker True (pb_new 96 5 1000 77 [1, 2, 3]))))"

definition sample_packet :: bytes where
  "sample_packet = [0xb1, 0xe0, 0, 5, 0, 0, 3, 232, 0, 0, 0, 77, 0, 0, 0, 9,
     0xbe, 0xde, 0, 1, 0x10, 7, 0, 0, 1, 2, 3, 0, 0, 3]"

lemmas build_eval =
  build_def validate_builder_def pb_padding_def pb_extensions_def pb_csrcs_def pb_marker_def
  pb_new_def encode_fixed_header_def max_packet_len_def fixed_header_len_def bool_u8_def
  Let_def wire_eval

lemmas parse_eval =
  parse_def fixed_header_len_def parse_extension_block_def parse_padding_def read_u16_def
  read_u32_def from_profile_def Let_def wire_eval

theorem packet_roundtrip_witness:
  "build sample_builder = Inr sample_packet \<and>
   (\<exists>p. parse sample_packet = Inr p \<and> p_header p = b_header sample_builder \<and>
      p_extensions p = [\<lparr>he_id = 1, he_value = [7]\<rparr>] \<and> p_padding_len p = 3)"
proof -
  have b: "build sample_builder = Inr sample_packet"
    by (simp add: build_eval sample_builder_def sample_packet_def)
  show ?thesis
    using packet_roundtrip [OF b] b by (auto simp: sample_builder_def pb_padding_def pb_extensions_def
        pb_csrcs_def pb_marker_def pb_new_def)
qed

text \<open>What the parser accepts it accounts for byte by byte: header, payload and padding
  partition the datagram, the payload is the slice between them, and the header-length check used
  on encrypted packets computes the same header length. That check reads the header only, so it
  gives the same answer on a packet whose payload has been replaced by ciphertext.\<close>

lemma parse_accounts_for_input:
  assumes "parse input = Inr p"
  shows "length input = p_header_len p + length (p_payload p) + p_padding_len p \<and>
    input = take (p_header_len p) input @ p_payload p @
      drop (p_header_len p + length (p_payload p)) input \<and>
    (\<forall>ciphertext. parse_header_length (take (p_header_len p) input @ ciphertext) =
      Inr (p_header_len p))"
  using parse_parts [OF assms]
    parse_header_length_prefix(3) [OF parse_header_length_agrees [OF assms]] by blast

lemma parse_accounts_for_input_witness:
  "(\<exists>p. parse sample_packet = Inr p \<and> 24 + length (p_payload p) + p_padding_len p = 30 \<and>
     parse_header_length (take 24 sample_packet @ [255]) = Inr 24)"
proof -
  have "case parse sample_packet of Inl _ \<Rightarrow> False | Inr p \<Rightarrow> p_header_len p = 24"
    by (simp add: parse_eval sample_packet_def)
  then obtain p where p: "parse sample_packet = Inr p" and n: "p_header_len p = 24"
    by (cases "parse sample_packet") simp_all
  from parse_accounts_for_input [OF p] have
    "length sample_packet = 24 + length (p_payload p) + p_padding_len p"
    and "parse_header_length (take 24 sample_packet @ [255]) = Inr 24"
    unfolding n by blast+
  then show ?thesis using p by (auto simp: sample_packet_def)
qed

text \<open>The in-place rewrite of the SFU. On a datagram that parses and a payload type that fits
  seven bits it succeeds, keeps the length, and the result parses to the same packet with exactly
  the requested header fields replaced; extensions, CSRCs, payload and padding are untouched. On
  any other input it reports the error and leaves the buffer as it was.\<close>

lemma rewrite_apply_exact:
  "case parse input of
     Inl e \<Rightarrow> rewrite_apply r input = (Inl e, input)
   | Inr p \<Rightarrow>
       if (case rw_payload_type r of None \<Rightarrow> True | Some v \<Rightarrow> v \<le> 127)
       then \<exists>out. rewrite_apply r input = (Inr (), out) \<and> length out = length input \<and>
              parse out = Inr (p\<lparr>p_header := rewrite_header r (p_header p)\<rparr>)
       else rewrite_apply r input = (Inl (InvalidPayloadType (the (rw_payload_type r))), input)"
proof (cases "parse input")
  case (Inl e)
  then show ?thesis by (simp add: rewrite_apply_def)
next
  case (Inr p)
  show ?thesis
  proof (cases "case rw_payload_type r of None \<Rightarrow> True | Some v \<Rightarrow> v \<le> 127")
    case True
    then have "\<And>v. rw_payload_type r = Some v \<Longrightarrow> v \<le> 127" by simp
    from rewrite_apply_parses [OF Inr this] Inr True show ?thesis by simp
  next
    case False
    with Inr show ?thesis by (auto simp: rewrite_apply_def split: option.splits)
  qed
qed

lemma rewrite_header_extensions_parses:
  assumes "rewrite_header_extensions input rewrites = Inr out" and "rewrites \<noteq> []"
  shows "\<exists>p q. parse input = Inr p \<and> parse out = Inr q \<and> p_header q = p_header p \<and>
    p_payload q = p_payload p \<and> p_padding_len q = p_padding_len p \<and>
    p_extension_format q = p_extension_format p \<and>
    p_extensions q = List.map_filter (rewrite_extension rewrites) (p_extensions p)"
proof -
  let ?b = "\<lambda>p format. pb_padding (p_padding_len p)
      (pb_extensions format (List.map_filter (rewrite_extension rewrites) (p_extensions p))
      (pb_csrcs (h_csrcs (p_header p)) (pb_marker (h_marker (p_header p))
      (pb_new (h_payload_type (p_header p)) (h_sequence_number (p_header p))
         (h_timestamp (p_header p)) (h_ssrc (p_header p)) (p_payload p)))))"
  obtain p format where p: "parse input = Inr p" and f: "rewritable (p_extension_format p) = Some format"
    and b: "build (?b p format) = Inr out"
    using assms unfolding rewrite_header_extensions_def
    by (auto simp: bind_r_eq_Inr ok_or_eq_Inr Let_def)
  from f have fmt: "p_extension_format p = Some format" "from_profile (profile format) = format"
    by (auto simp: rewritable_Some simp del: profile.simps)
  have "b_header (?b p format) = p_header p" "b_payload (?b p format) = p_payload p"
    "b_padding_len (?b p format) = p_padding_len p"
    "b_extension_format (?b p format) = Some format"
    "b_extensions (?b p format) = List.map_filter (rewrite_extension rewrites) (p_extensions p)"
    by (simp_all add: pb_padding_def pb_extensions_def pb_csrcs_def pb_marker_def pb_new_def)
  with build_parse [OF b] p fmt show ?thesis by auto
qed

text \<open>Whether a packet can be built, and so whether its extensions can be rewritten, does not depend
  on what the marker, payload type, sequence number, timestamp and source are.\<close>

lemma build_ok_header:
  assumes "h_csrcs h = h_csrcs (b_header b)" and "h_payload_type h \<le> 127"
    and "h_payload_type (b_header b) \<le> 127"
  shows "is_ok (build (b\<lparr>b_header := h\<rparr>)) = is_ok (build b)"
proof -
  have v: "is_ok (validate_builder (b\<lparr>b_header := h\<rparr>)) = is_ok (validate_builder b)"
    using assms by (simp add: validate_builder_def not_le [symmetric])
  show ?thesis
  proof (cases "validate_builder b")
    case (Inl e)
    moreover from Inl v obtain e' where "validate_builder (b\<lparr>b_header := h\<rparr>) = Inl e'"
      by (cases "validate_builder (b\<lparr>b_header := h\<rparr>)") auto
    ultimately show ?thesis by (simp add: build_def)
  next
    case u: (Inr u)
    from u v obtain u' where u': "validate_builder (b\<lparr>b_header := h\<rparr>) = Inr u'"
      by (cases "validate_builder (b\<lparr>b_header := h\<rparr>)") auto
    have keep: "b_extension_format (b\<lparr>b_header := h\<rparr>) = b_extension_format b"
      "b_extensions (b\<lparr>b_header := h\<rparr>) = b_extensions b" "b_padding_len (b\<lparr>b_header := h\<rparr>) = b_padding_len b"
      "b_payload (b\<lparr>b_header := h\<rparr>) = b_payload b" "b_header (b\<lparr>b_header := h\<rparr>) = h" by simp_all
    show ?thesis
      unfolding build_def u u' keep bind_r.simps
      by (cases "case b_extension_format b of None \<Rightarrow> Inr None
         | Some format \<Rightarrow> bind_r (encode_extensions format (b_extensions b)) (\<lambda>d. Inr (Some d))")
        (simp_all only: bind_r.simps Let_def assms(1) is_ok_simps if_distrib [of is_ok])
  qed
qed

lemma payload_type_bound: "parse input = Inr p \<Longrightarrow> h_payload_type (p_header p) \<le> 127"
  using parse_eq [of input p] word_and_le1 [of "input ! 1" "0x7f"] by (simp add: and.commute)

lemma rewrite_header_extensions_ok_header:
  assumes "parse input = Inr p" and "parse input' = Inr (p\<lparr>p_header := h\<rparr>)"
    and "h_csrcs h = h_csrcs (p_header p)"
  shows "is_ok (rewrite_header_extensions input' rs) = is_ok (rewrite_header_extensions input rs)"
proof (cases "rs = [] \<or> rewritable (p_extension_format p) = None")
  case True
  with assms(1,2) show ?thesis by (auto simp: rewrite_header_extensions_def)
next
  case False
  then obtain format where f: "rewritable (p_extension_format p) = Some format" by blast
  let ?b = "\<lambda>h. \<lparr>b_header = h, b_payload = p_payload p, b_extension_format = Some format,
     b_extensions = List.map_filter (rewrite_extension rs) (p_extensions p), b_padding_len = p_padding_len p\<rparr>"
  have eta: "\<lparr>h_marker = h_marker h', h_payload_type = h_payload_type h',
      h_sequence_number = h_sequence_number h', h_timestamp = h_timestamp h', h_ssrc = h_ssrc h',
      h_csrcs = h_csrcs h'\<rparr> = h'" for h' :: header by (cases h') simp
  have "rewrite_header_extensions input' rs = build (?b h)"
    "rewrite_header_extensions input rs = build (?b (p_header p))"
    using assms(1,2) f False
    by (simp_all add: rewrite_header_extensions_def pb_padding_def pb_extensions_def pb_csrcs_def
        pb_marker_def pb_new_def eta)
  moreover have "is_ok (build ((?b (p_header p))\<lparr>b_header := h\<rparr>)) = is_ok (build (?b (p_header p)))"
    by (rule build_ok_header)
      (use assms(3) payload_type_bound [OF assms(1)] payload_type_bound [OF assms(2)] in simp_all)
  ultimately show ?thesis by simp
qed

text \<open>Rewriting header extensions. When it succeeds on a non-empty rewrite list, the result is
  a packet with the same fixed header, CSRCs, payload and padding whose extension list is the old
  one with each rewrite applied in order of first match: renumbered, given a new value, or
  dropped.\<close>

lemma rewrite_header_extensions_exact:
  assumes "rewrite_header_extensions input rewrites = Inr out" and "rewrites \<noteq> []"
  shows "\<exists>p q. parse input = Inr p \<and> parse out = Inr q \<and> p_header q = p_header p \<and>
    p_payload q = p_payload p \<and> p_padding_len q = p_padding_len p \<and>
    p_extension_format q = p_extension_format p \<and>
    p_extensions q = List.map_filter (rewrite_extension rewrites) (p_extensions p)"
  by (rule rewrite_header_extensions_parses [OF assms])

lemma rewrite_header_extensions_exact_witness:
  "\<exists>out p q. rewrite_header_extensions sample_packet
       [\<lparr>xr_source_id = 1, xr_destination_id = Some 4, xr_replacement = None\<rparr>] = Inr out \<and>
     parse sample_packet = Inr p \<and> parse out = Inr q \<and> p_payload q = p_payload p \<and>
     p_extensions p = [\<lparr>he_id = 1, he_value = [7]\<rparr>] \<and>
     p_extensions q = [\<lparr>he_id = 4, he_value = [7]\<rparr>]"
proof -
  let ?r = "[\<lparr>xr_source_id = 1, xr_destination_id = Some 4, xr_replacement = None\<rparr>]"
  have "case parse sample_packet of Inl _ \<Rightarrow> False
      | Inr p \<Rightarrow> p_extensions p = [\<lparr>he_id = 1, he_value = [7]\<rparr>]"
    by (simp add: parse_eval sample_packet_def)
  then have e: "\<exists>p. parse sample_packet = Inr p \<and> p_extensions p = [\<lparr>he_id = 1, he_value = [7]\<rparr>]"
    by (cases "parse sample_packet") simp_all
  have "is_ok (rewrite_header_extensions sample_packet ?r)"
    by (simp add: rewrite_header_extensions_def build_eval parse_eval sample_packet_def
        List.map_filter_def rewrite_extension_def)
  then obtain out where out: "rewrite_header_extensions sample_packet ?r = Inr out"
    unfolding is_ok_iff by blast
  have f: "List.map_filter (rewrite_extension ?r) [\<lparr>he_id = 1, he_value = [7]\<rparr>] =
      [\<lparr>he_id = 4, he_value = [7]\<rparr>]"
    by (simp add: List.map_filter_def rewrite_extension_def)
  from rewrite_header_extensions_exact [OF out] e f out show ?thesis by auto
qed

end
