(* ===== verification/Rtcp_Twcc.thy ===== *)
theory Rtcp_Twcc
  imports Fluvora_Prelude
begin

text \<open>
  The error type of the RTCP crate, \<open>crates/webrtc/rtcp/src/error.rs\<close>, its checked readers, and
  the transport-wide congestion control feedback body, \<open>crates/webrtc/rtcp/src/twcc.rs\<close>. Signed
  integers are words read by \<open>sint\<close>; \<open>to_be_bytes\<close> is the same for both signs.
\<close>

type_synonym i16 = "16 word"
type_synonym i32 = "32 word"

section \<open>Definitions\<close>

datatype rtcp_error =
    PacketTooShort nat
  | UnsupportedVersion u8
  | InvalidPacketLength nat nat
  | TruncatedPacket
  | InvalidPadding nat
  | InvalidBodyLength u8 nat
  | InvalidCumulativeLoss i32
  | CountTooLarge nat
  | SdesItemTooLarge nat
  | ReservedTwccStatus u8
  | InvalidTwccStatusCount
  | InvalidTwccDeltas
  | InvalidReferenceTime i32
  | PacketTooLarge

datatype twcc_status = NotReceived | ReceivedSmallDelta u8 | ReceivedLargeDelta i16

record transport_wide_feedback =
  tw_sender_ssrc :: u32
  tw_media_ssrc :: u32
  tw_base_sequence_number :: u16
  tw_reference_time :: i32
  tw_feedback_packet_count :: u8
  tw_statuses :: "twcc_status list"

definition rtcp_read_u16 :: "bytes \<Rightarrow> nat \<Rightarrow> (rtcp_error, u16) result" where
  "rtcp_read_u16 input position = read_be TruncatedPacket input position"

definition rtcp_read_u32 :: "bytes \<Rightarrow> nat \<Rightarrow> (rtcp_error, u32) result" where
  "rtcp_read_u32 input position = read_be TruncatedPacket input position"

definition rtcp_read_u64 :: "bytes \<Rightarrow> nat \<Rightarrow> (rtcp_error, u64) result" where
  "rtcp_read_u64 input position = read_be TruncatedPacket input position"

definition read_i16 :: "bytes \<Rightarrow> nat \<Rightarrow> (rtcp_error, i16) result" where
  "read_i16 input position = read_be InvalidTwccDeltas input position"

definition read_i24 :: "bytes \<Rightarrow> nat \<Rightarrow> (rtcp_error, i32) result" where
  "read_i24 input position =
     bind_r (ok_or TruncatedPacket (get_range input position (position + 3))) (\<lambda>bs.
       let sign = (if bs ! 0 AND 0x80 = 0 then 0 else 0xff) in
       Inr (from_be [sign, bs ! 0, bs ! 1, bs ! 2]))"

definition write_i24 :: "i32 \<Rightarrow> bytes" where
  "write_i24 v = drop 1 (to_be v)"

definition fits_i24 :: "i32 \<Rightarrow> bool" where
  "fits_i24 v \<longleftrightarrow> - 8388608 \<le> sint v \<and> sint v \<le> 8388607"

text \<open>The vector chunks: the loop over the symbol positions that are left.\<close>

fun decode_vector :: "bool \<Rightarrow> u16 \<Rightarrow> nat \<Rightarrow> nat list \<Rightarrow> u8 list \<Rightarrow> (rtcp_error, u8 list) result" where
  "decode_vector two_bit chunk status_count [] symbols = Inr symbols"
| "decode_vector two_bit chunk status_count (i # is) symbols =
     (if length symbols = status_count then Inr symbols
      else let symbol = (if two_bit then ucast (drop_bit (12 - i * 2) chunk AND 3)
                         else ucast (drop_bit (13 - i) chunk AND 1)) in
        if symbol = 3 then Inl (ReservedTwccStatus symbol)
        else decode_vector two_bit chunk status_count is (symbols @ [symbol]))"

definition decode_chunk :: "u16 \<Rightarrow> nat \<Rightarrow> u8 list \<Rightarrow> (rtcp_error, u8 list) result" where
  "decode_chunk chunk status_count symbols =
     (if chunk AND 0x8000 = 0 then
        let symbol = ucast (drop_bit 13 chunk AND 3) in
        if symbol = 3 then Inl (ReservedTwccStatus symbol)
        else let run_length = unat (chunk AND 0x1fff) in
          if run_length = 0 then Inl InvalidTwccStatusCount
          else Inr (symbols @ replicate (min run_length (status_count - length symbols)) symbol)
      else
        let two_bit = (chunk AND 0x4000 \<noteq> 0) in
        decode_vector two_bit chunk status_count [0..<if two_bit then 7 else 14] symbols)"

function read_symbols :: "bytes \<Rightarrow> nat \<Rightarrow> nat \<Rightarrow> u8 list \<Rightarrow> (rtcp_error, u8 list \<times> nat) result" where
  "read_symbols body status_count position symbols =
     (if length symbols < status_count then
        bind_r (rtcp_read_u16 body position) (\<lambda>chunk.
        bind_r (decode_chunk chunk status_count symbols) (\<lambda>symbols'.
          read_symbols body status_count (position + 2) symbols'))
      else Inr (symbols, position))"
  by pat_completeness auto
termination
  by (relation "measure (\<lambda>(body, _, position, _). length body - position)")
    (auto simp: rtcp_read_u16_def read_be_Inr)

declare read_symbols.simps [simp del]

fun read_statuses :: "bytes \<Rightarrow> nat \<Rightarrow> u8 list \<Rightarrow> (rtcp_error, twcc_status list \<times> nat) result" where
  "read_statuses body position [] = Inr ([], position)"
| "read_statuses body position (symbol # symbols) =
     (if symbol = 0 then
        bind_r (read_statuses body position symbols) (\<lambda>(ss, p). Inr (NotReceived # ss, p))
      else if symbol = 1 then
        bind_r (ok_or InvalidTwccDeltas (get_at body position)) (\<lambda>delta.
        bind_r (read_statuses body (position + 1) symbols) (\<lambda>(ss, p).
          Inr (ReceivedSmallDelta delta # ss, p)))
      else if symbol = 2 then
        bind_r (read_i16 body position) (\<lambda>delta.
        bind_r (read_statuses body (position + 2) symbols) (\<lambda>(ss, p).
          Inr (ReceivedLargeDelta delta # ss, p)))
      else Inl (ReservedTwccStatus symbol))"

definition twcc_parse :: "bytes \<Rightarrow> (rtcp_error, transport_wide_feedback) result" where
  "twcc_parse body =
     (if length body < 16 then Inl (InvalidBodyLength 205 (length body))
      else
        bind_r (rtcp_read_u32 body 0) (\<lambda>sender_ssrc.
        bind_r (rtcp_read_u32 body 4) (\<lambda>media_ssrc.
        bind_r (rtcp_read_u16 body 8) (\<lambda>base_sequence_number.
        bind_r (rtcp_read_u16 body 10) (\<lambda>status_count.
        bind_r (read_i24 body 12) (\<lambda>reference_time.
        let feedback_packet_count = body ! 15 in
        bind_r (read_symbols body (unat status_count) 16 []) (\<lambda>(symbols, position).
        bind_r (read_statuses body position symbols) (\<lambda>(statuses, position').
        bind_r (ok_or InvalidTwccDeltas (get_range body position' (length body))) (\<lambda>rest.
        if (\<exists>b\<in>set rest. b \<noteq> 0) \<or> length body - position' > 3 then Inl InvalidTwccDeltas
        else Inr \<lparr>tw_sender_ssrc = sender_ssrc, tw_media_ssrc = media_ssrc,
                  tw_base_sequence_number = base_sequence_number,
                  tw_reference_time = reference_time,
                  tw_feedback_packet_count = feedback_packet_count,
                  tw_statuses = statuses\<rparr>)))))))))"

fun status_symbol :: "twcc_status \<Rightarrow> u16" where
  "status_symbol NotReceived = 0"
| "status_symbol (ReceivedSmallDelta _) = 1"
| "status_symbol (ReceivedLargeDelta _) = 2"

text \<open>One chunk of at most seven statuses: the loop over the enumerated statuses.\<close>

fun encode_chunk :: "nat \<Rightarrow> twcc_status list \<Rightarrow> u16 \<Rightarrow> u16" where
  "encode_chunk i [] chunk = chunk"
| "encode_chunk i (status # statuses) chunk =
     encode_chunk (i + 1) statuses (chunk OR push_bit (12 - i * 2) (status_symbol status))"

function encode_chunks :: "twcc_status list \<Rightarrow> bytes" where
  "encode_chunks [] = []"
| "encode_chunks (s # ss) =
     to_be (encode_chunk 0 (take 7 (s # ss)) 0xc000) @ encode_chunks (drop 7 (s # ss))"
  by pat_completeness auto
termination
  by (relation "measure length") auto

fun encode_delta :: "twcc_status \<Rightarrow> bytes" where
  "encode_delta NotReceived = []"
| "encode_delta (ReceivedSmallDelta d) = [d]"
| "encode_delta (ReceivedLargeDelta d) = to_be d"

definition twcc_encode :: "transport_wide_feedback \<Rightarrow> (rtcp_error, bytes) result" where
  "twcc_encode feedback =
     (if length (tw_statuses feedback) > 65535 then Inl InvalidTwccStatusCount
      else if \<not> fits_i24 (tw_reference_time feedback)
        then Inl (InvalidReferenceTime (tw_reference_time feedback))
      else Inr (pad_zero4
        (to_be (tw_sender_ssrc feedback) @ to_be (tw_media_ssrc feedback) @
         to_be (tw_base_sequence_number feedback) @
         to_be (word_of_nat (length (tw_statuses feedback)) :: u16) @
         write_i24 (tw_reference_time feedback) @ [tw_feedback_packet_count feedback] @
         encode_chunks (tw_statuses feedback) @ concat (map encode_delta (tw_statuses feedback)))))"

section \<open>Signed 24-bit integers\<close>

lemma sign_bit_u8: "(b :: u8) AND 0x80 = 0 \<longleftrightarrow> unat b < 128"
proof -
  have "(0x80 :: u8) = 2 ^ 7" by simp
  then have "b AND 0x80 = 0 \<longleftrightarrow> \<not> bit b 7" by (metis and_exp_eq_0_iff_not_bit)
  moreover have "bit b 7 \<longleftrightarrow> bit (unat b) 7" by (simp add: bit_unsigned_iff)
  moreover have "bit (unat b) 7 \<longleftrightarrow> odd (unat b div 128)" by (simp add: bit_iff_odd)
  moreover have "odd (unat b div 128) \<longleftrightarrow> 128 \<le> unat b"
    using unat_byte_less [of b] by (intro odd_top_bit) simp
  ultimately show ?thesis by auto
qed

lemma fits_i24_unat: "fits_i24 v \<longleftrightarrow> unat v < 8388608 \<or> 4286578688 \<le> unat v"
proof -
  have "unat v < 4294967296" using unsigned_less [of v] by simp
  have b: "bit (uint v) 31 \<longleftrightarrow> 2147483648 \<le> unat v"
  proof -
    have "bit (uint v) 31 \<longleftrightarrow> bit (unat v) 31" by (simp add: bit_unsigned_iff)
    also have "\<dots> \<longleftrightarrow> odd (unat v div 2147483648)" by (simp add: bit_iff_odd)
    finally have "bit (uint v) 31 \<longleftrightarrow> odd (unat v div 2147483648)" .
    moreover have "odd (unat v div 2147483648) \<longleftrightarrow> 2147483648 \<le> unat v"
      using \<open>unat v < 4294967296\<close> by (intro odd_top_bit) simp
    ultimately show ?thesis by simp
  qed
  have "sint v = signed_take_bit 31 (uint v)" by (simp add: sint_uint)
  also have "\<dots> = uint v - 4294967296 * of_bool (bit (uint v) 31)"
    using uint_bounded [of v]
    by (simp add: signed_take_bit_eq_take_bit_minus take_bit_int_eq_self)
  finally have "sint v = int (unat v) - (if 2147483648 \<le> unat v then 4294967296 else 0)"
    unfolding b by auto
  moreover define n where "n = unat v"
  ultimately have "sint v = int n - (if 2147483648 \<le> n then 4294967296 else 0)" "n < 4294967296"
    using \<open>unat v < 4294967296\<close> by simp_all
  then show ?thesis unfolding fits_i24_def n_def [symmetric] by auto
qed

lemma i24_roundtrip:
  assumes "fits_i24 v" and "position = length pre"
  shows "read_i24 (pre @ write_i24 v @ post) position = Inr v"
proof -
  obtain a b c d where t: "to_be v = [a, b, c, d]" and a: "a = word_of_nat (unat v div 16777216)"
    and b: "b = word_of_nat (unat v mod 16777216 div 65536)"
    by (simp add: to_be_u32)
  have "unat v < 4294967296" using unsigned_less [of v] by simp
  then have ua: "unat a = unat v div 16777216" and ub: "unat b = unat v mod 16777216 div 65536"
    unfolding a b by (auto intro!: unat_word_of_nat_less simp: less_mult_imp_div_less)
  have "(if b AND 0x80 = 0 then 0 else 0xff) = a"
  proof (cases "unat v < 8388608")
    case True
    then have "unat b < 128" "unat a = 0" unfolding ua ub by (simp_all add: less_mult_imp_div_less)
    then have "b AND 0x80 = 0" "a = 0" using sign_bit_u8 [of b] by (auto simp: word_unat_eq_iff [of a])
    then show ?thesis by simp
  next
    case False
    with assms(1) have v: "4286578688 \<le> unat v" by (simp add: fits_i24_unat)
    with \<open>unat v < 4294967296\<close> have "unat v div 16777216 = 255" by auto
    moreover have "unat v mod 16777216 div 65536 \<ge> 128"
    proof -
      have "unat v mod 16777216 = unat v - 255 * 16777216"
        using \<open>unat v div 16777216 = 255\<close> by (simp add: modulo_nat_def)
      then show ?thesis using v by simp
    qed
    ultimately have "b AND 0x80 \<noteq> 0" "a = 0xff"
      using ua ub sign_bit_u8 [of b] by (auto simp: word_unat_eq_iff [of a])
    then show ?thesis by simp
  qed
  moreover have "get_range (pre @ write_i24 v @ post) position (position + 3) = Some [b, c, d]"
    unfolding write_i24_def t by (simp add: assms(2) get_range_def)
  ultimately show ?thesis
    using be32.dec_enc [of v] by (simp add: read_i24_def t)
qed

lemma read_i24_append [wire_reads]:
  "length pre \<le> position \<Longrightarrow> read_i24 (pre @ post) position = read_i24 post (position - length pre)"
  by (simp add: read_i24_def get_range_append2)

lemma read_i24_Cons [wire_reads]: "1 \<le> position \<Longrightarrow> read_i24 (b # post) position = read_i24 post (position - 1)"
  using read_i24_append [of "[b]" position post] by simp

lemma read_i24_0 [wire_reads]: "fits_i24 v \<Longrightarrow> read_i24 (write_i24 v @ post) 0 = Inr v"
  using i24_roundtrip [of v 0 "[]" post] by simp

lemmas rtcp_read_defs = rtcp_read_u16_def rtcp_read_u32_def rtcp_read_u64_def

section \<open>Status chunks\<close>

fun sym :: "twcc_status \<Rightarrow> u8" where
  "sym NotReceived = 0"
| "sym (ReceivedSmallDelta _) = 1"
| "sym (ReceivedLargeDelta _) = 2"

lemma sym_symbol: "status_symbol s = ucast (sym s)"
  by (cases s) simp_all

lemma sym_not_3 [simp]: "sym s \<noteq> 3"
  by (cases s) simp_all

lemma status_symbol_bit: "bit (status_symbol s) n \<Longrightarrow> n < 2"
  using bit_word_small [of "status_symbol s" 2 n] by (cases s) simp_all

lemma bit_encode_chunk:
  "bit (encode_chunk i ss c) n \<longleftrightarrow>
     bit c n \<or> (\<exists>k < length ss. bit (push_bit (12 - (i + k) * 2) (status_symbol (ss ! k))) n)"
proof (induction ss arbitrary: i c)
  case Nil
  then show ?case by simp
next
  case (Cons s ss)
  have "(\<exists>k < length (s # ss). bit (push_bit (12 - (i + k) * 2) (status_symbol ((s # ss) ! k))) n) \<longleftrightarrow>
      bit (push_bit (12 - i * 2) (status_symbol s)) n \<or>
      (\<exists>k < length ss. bit (push_bit (12 - (i + 1 + k) * 2) (status_symbol (ss ! k))) n)"
    by (auto simp: less_Suc_eq_0_disj)
  with Cons.IH [of "i + 1"] show ?case by (simp add: bit_or_iff disj_assoc)
qed

text \<open>Each two-bit field of a chunk holds the symbol put there.\<close>

lemma encode_chunk_field:
  assumes "length ss \<le> 7" and "k < length ss"
  shows "drop_bit (12 - k * 2) (encode_chunk 0 ss 0xc000) AND 3 = status_symbol (ss ! k)"
proof (rule bit_word_eqI)
  fix n
  assume n: "n < LENGTH(16)"
  have b3: "bit (3 :: u16) n \<longleftrightarrow> n < 2"
  proof -
    have "(3 :: u16) = mask 2" by (simp add: mask_eq_exp_minus_1)
    then show ?thesis by (simp only: bit_mask_iff) (auto simp: possible_bit_def)
  qed
  have top: "\<not> bit (0xc000 :: u16) m" if "m < 14" for m
  proof -
    have "(0xc000 :: u16) = push_bit 14 3" by simp
    then show ?thesis using that by (simp only: bit_push_bit_iff) simp
  qed
  show "bit (drop_bit (12 - k * 2) (encode_chunk 0 ss 0xc000) AND 3) n =
      bit (status_symbol (ss ! k)) n"
  proof (cases "n < 2")
    case False
    then show ?thesis using status_symbol_bit [of "ss ! k" n]
      by (auto simp: bit_and_iff b3 simp del: bit_numeral_word_iff)
  next
    case True
    let ?m = "12 - k * 2 + n"
    have m: "?m < 14" using True by simp
    have "bit (push_bit (12 - j * 2) (status_symbol (ss ! j))) ?m \<longleftrightarrow>
        j = k \<and> bit (status_symbol (ss ! k)) n" if "j < length ss" for j
    proof (cases "j = k")
      case True
      then show ?thesis using m by (simp add: bit_push_bit_iff possible_bit_def)
    next
      case False
      have "\<not> (12 - j * 2 \<le> ?m \<and> ?m - (12 - j * 2) < 2)"
        using False that assms \<open>n < 2\<close> by linarith
      then show ?thesis using False status_symbol_bit by (auto simp: bit_push_bit_iff)
    qed
    then have "bit (encode_chunk 0 ss 0xc000) ?m = bit (status_symbol (ss ! k)) n"
      unfolding bit_encode_chunk using top [OF m] assms(2) by auto
    then show ?thesis
      using True by (simp add: bit_and_iff b3 bit_drop_bit_eq del: bit_numeral_word_iff)
  qed
qed

lemma decode_vector_fields:
  assumes "\<forall>j < length ss. ucast (drop_bit (12 - j * 2) c AND 3) = sym (ss ! j)"
    and "length ss = min 7 (total_count - base)" and "base \<le> total_count"
  shows "length symbols = base + k \<Longrightarrow> k \<le> length ss \<Longrightarrow>
    decode_vector True c total_count [k..<7] symbols = Inr (symbols @ map sym (drop k ss))"
proof (induction "7 - k" arbitrary: k symbols)
  case 0
  then have "[k..<7] = []" "drop k ss = []" using assms(2) by auto
  then show ?case by simp
next
  case (Suc x)
  then have k: "[k..<7] = k # [Suc k..<7]" by (simp add: upt_conv_Cons)
  show ?case
  proof (cases "k < length ss")
    case False
    then have "length symbols = total_count" "drop k ss = []" using Suc assms(2,3) by auto
    then show ?thesis unfolding k by simp
  next
    case True
    then have d: "drop k ss = ss ! k # drop (Suc k) ss" by (simp add: Cons_nth_drop_Suc)
    have "decode_vector True c total_count [Suc k..<7] (symbols @ [sym (ss ! k)]) =
        Inr ((symbols @ [sym (ss ! k)]) @ map sym (drop (Suc k) ss))"
      by (rule Suc.hyps(1)) (use Suc True in auto)
    moreover have "length symbols \<noteq> total_count" using Suc.prems True assms(2,3) by auto
    ultimately show ?thesis unfolding k d using assms(1) True by simp
  qed
qed

lemma decode_encode_chunk:
  assumes "length ss = min 7 (total_count - length symbols)" and "length symbols \<le> total_count"
  shows "decode_chunk (encode_chunk 0 ss 0xc000) total_count symbols = Inr (symbols @ map sym ss)"
proof -
  let ?c = "encode_chunk 0 ss 0xc000"
  have e: "(0x8000 :: u16) = 2 ^ 15" "(0x4000 :: u16) = 2 ^ 14" by simp_all
  have "bit (0xc000 :: u16) 15" "bit (0xc000 :: u16) 14"
    by (simp_all add: bit_iff_odd)
  then have "bit ?c 15" "bit ?c 14" by (simp_all add: bit_encode_chunk)
  then have top: "?c AND 0x8000 \<noteq> 0" "?c AND 0x4000 \<noteq> 0"
    unfolding e by (simp_all only: and_exp_eq_0_iff_not_bit simp_thms)
  have "ucast (drop_bit (12 - j * 2) ?c AND 3) = sym (ss ! j)" if "j < length ss" for j
    using encode_chunk_field [of ss j] that assms(1) by (cases "ss ! j") simp_all
  then have "decode_vector True ?c total_count [0..<7] symbols = Inr (symbols @ map sym (drop 0 ss))"
    using assms by (intro decode_vector_fields) auto
  with top show ?thesis by (simp add: decode_chunk_def)
qed

lemma read_symbols_layout:
  "position = length pre \<Longrightarrow> length symbols + length ss = total_count \<Longrightarrow>
     read_symbols (pre @ encode_chunks ss @ post) total_count position symbols =
       Inr (symbols @ map sym ss, position + length (encode_chunks ss))"
proof (induction ss arbitrary: pre position symbols rule: encode_chunks.induct)
  case 1
  then show ?case by (subst read_symbols.simps) simp
next
  case (2 s ss)
  let ?ss = "s # ss"
  let ?c = "encode_chunk 0 (take 7 ?ss) 0xc000"
  let ?rest = "encode_chunks (drop 7 ?ss) @ post"
  have "rtcp_read_u16 (pre @ to_be ?c @ ?rest) position = Inr ?c"
    unfolding rtcp_read_u16_def by (rule read_be_at) (simp_all add: "2.prems"(1))
  moreover have "decode_chunk ?c total_count symbols = Inr (symbols @ map sym (take 7 ?ss))"
    using "2.prems"(2) by (intro decode_encode_chunk) auto
  moreover have "read_symbols ((pre @ to_be ?c) @ ?rest) total_count (position + 2)
      (symbols @ map sym (take 7 ?ss)) =
      Inr ((symbols @ map sym (take 7 ?ss)) @ map sym (drop 7 ?ss),
           position + 2 + length (encode_chunks (drop 7 ?ss)))"
    by (rule "2.IH") (use "2.prems" in auto)
  moreover have "(symbols @ map sym (take 7 ?ss)) @ map sym (drop 7 ?ss) = symbols @ map sym ?ss"
    by (simp only: append_assoc map_append [symmetric] append_take_drop_id)
  ultimately show ?case
    using "2.prems"(2) by (subst read_symbols.simps) simp
qed

lemma read_statuses_layout:
  "position = length pre \<Longrightarrow>
     read_statuses (pre @ concat (map encode_delta ss) @ post) position (map sym ss) =
       Inr (ss, position + length (concat (map encode_delta ss)))"
proof (induction ss arbitrary: pre position)
  case Nil
  then show ?case by simp
next
  case (Cons s ss)
  let ?rest = "concat (map encode_delta ss) @ post"
  have ih: "read_statuses ((pre @ encode_delta s) @ ?rest) (position + length (encode_delta s))
      (map sym ss) = Inr (ss, position + length (encode_delta s) + length (concat (map encode_delta ss)))"
    by (rule Cons.IH) (simp add: Cons.prems)
  show ?case
  proof (cases s)
    case NotReceived
    with ih show ?thesis by simp
  next
    case (ReceivedSmallDelta d)
    with ih Cons.prems show ?thesis by (simp add: get_at_def)
  next
    case (ReceivedLargeDelta d)
    have "read_i16 (pre @ to_be d @ ?rest) position = Inr d"
      unfolding read_i16_def by (rule read_be_at) (simp_all add: Cons.prems)
    with ih ReceivedLargeDelta show ?thesis by simp
  qed
qed

section \<open>Encoding and parsing a feedback body\<close>

lemma length_write_i24 [simp]: "length (write_i24 v) = 3"
  by (simp add: write_i24_def)

lemma twcc_roundtrip:
  assumes "twcc_encode feedback = Inr body"
  shows "twcc_parse body = Inr feedback" and "length body mod 4 = 0"
proof -
  let ?ss = "tw_statuses feedback"
  let ?a = "to_be (tw_sender_ssrc feedback) :: bytes" and ?b = "to_be (tw_media_ssrc feedback) :: bytes"
  let ?c = "to_be (tw_base_sequence_number feedback) :: bytes"
  let ?n = "word_of_nat (length ?ss) :: u16"
  let ?r = "write_i24 (tw_reference_time feedback)" and ?f = "[tw_feedback_packet_count feedback]"
  let ?chunks = "encode_chunks ?ss" and ?deltas = "concat (map encode_delta ?ss)"
  let ?core = "?a @ ?b @ ?c @ to_be ?n @ ?r @ ?f @ ?chunks @ ?deltas"
  define z where "z = replicate (pad4 (length ?core)) (0 :: u8)"
  from assms have len: "length ?ss \<le> 65535" and fits: "fits_i24 (tw_reference_time feedback)"
    and body: "body = ?core @ z"
    unfolding twcc_encode_def z_def by (auto simp: pad_zero4_eq split: if_splits)
  show "length body mod 4 = 0"
    unfolding body z_def using pad4_mod [of "length ?core"] by (simp del: append_assoc)
  have n: "unat ?n = length ?ss" using len by (intro unat_word_of_nat_less) simp
  have r1: "rtcp_read_u32 body 0 = Inr (tw_sender_ssrc feedback)"
    unfolding rtcp_read_u32_def body append_assoc
    using read_be_at [of 0 "[]" TruncatedPacket "tw_sender_ssrc feedback"] by simp
  have "rtcp_read_u32 (?a @ ?b @ (?c @ to_be ?n @ ?r @ ?f @ ?chunks @ ?deltas @ z)) 4 =
      Inr (tw_media_ssrc feedback)"
    unfolding rtcp_read_u32_def by (rule read_be_at) simp_all
  then have r2: "rtcp_read_u32 body 4 = Inr (tw_media_ssrc feedback)"
    by (simp only: body append_assoc)
  have "rtcp_read_u16 ((?a @ ?b) @ ?c @ (to_be ?n @ ?r @ ?f @ ?chunks @ ?deltas @ z)) 8 =
      Inr (tw_base_sequence_number feedback)"
    unfolding rtcp_read_u16_def by (rule read_be_at) simp_all
  then have r3: "rtcp_read_u16 body 8 = Inr (tw_base_sequence_number feedback)"
    by (simp only: body append_assoc)
  have "rtcp_read_u16 ((?a @ ?b @ ?c) @ to_be ?n @ (?r @ ?f @ ?chunks @ ?deltas @ z)) 10 = Inr ?n"
    unfolding rtcp_read_u16_def by (rule read_be_at) simp_all
  then have r4: "rtcp_read_u16 body 10 = Inr ?n" by (simp only: body append_assoc)
  have "read_i24 ((?a @ ?b @ ?c @ to_be ?n) @ ?r @ (?f @ ?chunks @ ?deltas @ z)) 12 =
      Inr (tw_reference_time feedback)"
    by (rule i24_roundtrip [OF fits]) simp
  then have r5: "read_i24 body 12 = Inr (tw_reference_time feedback)"
    by (simp only: body append_assoc)
  have r6: "body ! 15 = tw_feedback_packet_count feedback" and long: "\<not> length body < 16"
    by (simp_all add: body nth_append)
  let ?p = "16 + length ?chunks"
  have "read_symbols ((?a @ ?b @ ?c @ to_be ?n @ ?r @ ?f) @ ?chunks @ (?deltas @ z)) (length ?ss) 16 [] =
      Inr ([] @ map sym ?ss, ?p)"
    by (rule read_symbols_layout) simp_all
  then have r7: "read_symbols body (length ?ss) 16 [] = Inr (map sym ?ss, ?p)"
    by (simp only: body append_assoc append_Nil)
  let ?q = "?p + length ?deltas"
  have "read_statuses ((?a @ ?b @ ?c @ to_be ?n @ ?r @ ?f @ ?chunks) @ ?deltas @ z) ?p (map sym ?ss) =
      Inr (?ss, ?q)"
    by (rule read_statuses_layout) simp
  then have r8: "read_statuses body ?p (map sym ?ss) = Inr (?ss, ?q)"
    by (simp only: body append_assoc)
  have "length ?core = ?q" by simp
  then have q: "length body = ?q + length z" and rest: "get_range body ?q (?q + length z) = Some z"
    unfolding body get_range_def by (simp_all del: append_assoc)
  have z: "length z \<le> 3" "\<forall>b\<in>set z. b = 0"
    using pad4_less [of "length ?core"] by (simp_all add: z_def)
  show "twcc_parse body = Inr feedback"
    unfolding twcc_parse_def r1 r2 r3 r4 r5 r6 using long z
    by (simp add: n r7 r8 rest q)
qed

end
