(* ===== verification/Rtcp.thy ===== *)
theory Rtcp
  imports Rtcp_Twcc
begin

text \<open>
  RTCP compound packets, \<open>crates/webrtc/rtcp/src/codec.rs\<close> and \<open>model.rs\<close>: sender and receiver
  reports, source descriptions, generic NACKs, picture loss indications, transport-wide feedback,
  and every other packet as raw bytes. The compound parser walks the input; here its argument is
  the part that remains.
\<close>

section \<open>Definitions\<close>

record report_block =
  rb_ssrc :: u32
  rb_fraction_lost :: u8
  rb_cumulative_lost :: i32
  rb_extended_highest_sequence :: u32
  rb_jitter :: u32
  rb_last_sender_report :: u32
  rb_delay_since_last_sender_report :: u32

record sender_report =
  sr_sender_ssrc :: u32
  sr_ntp_timestamp :: u64
  sr_rtp_timestamp :: u32
  sr_sender_packet_count :: u32
  sr_sender_octet_count :: u32
  sr_reports :: "report_block list"

record receiver_report =
  rr_sender_ssrc :: u32
  rr_reports :: "report_block list"

record sdes_item =
  si_item_type :: u8
  si_value :: bytes

record sdes_chunk =
  sc_ssrc :: u32
  sc_items :: "sdes_item list"

record source_description =
  sd_chunks :: "sdes_chunk list"

record nack_entry =
  ne_packet_id :: u16
  ne_lost_packet_bitmask :: u16

record generic_nack =
  gn_sender_ssrc :: u32
  gn_media_ssrc :: u32
  gn_entries :: "nack_entry list"

record picture_loss_indication =
  pli_sender_ssrc :: u32
  pli_media_ssrc :: u32

record raw_packet =
  raw_count :: u8
  raw_packet_type :: u8
  raw_body :: bytes

datatype rtcp_packet =
    SenderReport sender_report
  | ReceiverReport receiver_report
  | SourceDescription source_description
  | GenericNack generic_nack
  | PictureLossIndication picture_loss_indication
  | TransportWideFeedback transport_wide_feedback
  | Raw raw_packet

definition require_body_len :: "u8 \<Rightarrow> bytes \<Rightarrow> nat \<Rightarrow> (rtcp_error, unit) result" where
  "require_body_len packet_type body expected =
     (if length body = expected then Inr () else Inl (InvalidBodyLength packet_type (length body)))"

definition checked_count :: "nat \<Rightarrow> (rtcp_error, u8) result" where
  "checked_count n = (if n > 31 then Inl (CountTooLarge n) else Inr (word_of_nat n))"

primrec parse_report_blocks :: "bytes \<Rightarrow> nat \<Rightarrow> nat \<Rightarrow> (rtcp_error, report_block list) result" where
  "parse_report_blocks body position 0 = Inr []"
| "parse_report_blocks body position (Suc n) =
     bind_r (rtcp_read_u32 body position) (\<lambda>ssrc.
     bind_r (ok_or TruncatedPacket (get_at body (position + 4))) (\<lambda>fraction_lost.
     bind_r (read_i24 body (position + 5)) (\<lambda>cumulative_lost.
     bind_r (rtcp_read_u32 body (position + 8)) (\<lambda>extended_highest_sequence.
     bind_r (rtcp_read_u32 body (position + 12)) (\<lambda>jitter.
     bind_r (rtcp_read_u32 body (position + 16)) (\<lambda>last_sender_report.
     bind_r (rtcp_read_u32 body (position + 20)) (\<lambda>delay.
     bind_r (parse_report_blocks body (position + 24) n) (\<lambda>reports.
       Inr (\<lparr>rb_ssrc = ssrc, rb_fraction_lost = fraction_lost,
             rb_cumulative_lost = cumulative_lost,
             rb_extended_highest_sequence = extended_highest_sequence, rb_jitter = jitter,
             rb_last_sender_report = last_sender_report,
             rb_delay_since_last_sender_report = delay\<rparr> # reports)))))))))"

definition parse_sender_report :: "u8 \<Rightarrow> bytes \<Rightarrow> (rtcp_error, sender_report) result" where
  "parse_sender_report report_count body =
     bind_r (require_body_len 200 body (24 + unat report_count * 24)) (\<lambda>_.
     bind_r (rtcp_read_u32 body 0) (\<lambda>sender_ssrc.
     bind_r (rtcp_read_u64 body 4) (\<lambda>ntp_timestamp.
     bind_r (rtcp_read_u32 body 12) (\<lambda>rtp_timestamp.
     bind_r (rtcp_read_u32 body 16) (\<lambda>sender_packet_count.
     bind_r (rtcp_read_u32 body 20) (\<lambda>sender_octet_count.
     bind_r (parse_report_blocks body 24 (unat report_count)) (\<lambda>reports.
       Inr \<lparr>sr_sender_ssrc = sender_ssrc, sr_ntp_timestamp = ntp_timestamp,
            sr_rtp_timestamp = rtp_timestamp, sr_sender_packet_count = sender_packet_count,
            sr_sender_octet_count = sender_octet_count, sr_reports = reports\<rparr>)))))))"

definition parse_receiver_report :: "u8 \<Rightarrow> bytes \<Rightarrow> (rtcp_error, receiver_report) result" where
  "parse_receiver_report report_count body =
     bind_r (require_body_len 201 body (4 + unat report_count * 24)) (\<lambda>_.
     bind_r (rtcp_read_u32 body 0) (\<lambda>sender_ssrc.
     bind_r (parse_report_blocks body 4 (unat report_count)) (\<lambda>reports.
       Inr \<lparr>rr_sender_ssrc = sender_ssrc, rr_reports = reports\<rparr>)))"

function parse_sdes_items :: "bytes \<Rightarrow> nat \<Rightarrow> (rtcp_error, sdes_item list \<times> nat) result" where
  "parse_sdes_items body position =
     bind_r (ok_or TruncatedPacket (get_at body position)) (\<lambda>item_type.
     if item_type = 0 then Inr ([], position + 1)
     else
       bind_r (ok_or TruncatedPacket (get_at body (position + 1))) (\<lambda>len_byte.
       let stop = position + 2 + unat len_byte in
       bind_r (ok_or TruncatedPacket (get_range body (position + 2) stop)) (\<lambda>v.
       bind_r (parse_sdes_items body stop) (\<lambda>(items, p).
         Inr (\<lparr>si_item_type = item_type, si_value = v\<rparr> # items, p)))))"
  by pat_completeness auto
termination
  by (relation "measure (\<lambda>(body, position). length body - position)")
    (auto simp: result_simps)

declare parse_sdes_items.simps [simp del]

function skip_sdes_padding :: "bytes \<Rightarrow> nat \<Rightarrow> nat \<Rightarrow> (rtcp_error, nat) result" where
  "skip_sdes_padding body chunk_start position =
     (if (position - chunk_start) mod 4 \<noteq> 0 then
        bind_r (ok_or TruncatedPacket (get_at body position)) (\<lambda>b.
        if b \<noteq> 0 then Inl (InvalidPadding 0)
        else skip_sdes_padding body chunk_start (position + 1))
      else Inr position)"
  by pat_completeness auto
termination
  by (relation "measure (\<lambda>(body, _, position). length body - position)")
    (auto simp: result_simps)

declare skip_sdes_padding.simps [simp del]

primrec parse_sdes_chunks :: "nat \<Rightarrow> bytes \<Rightarrow> nat \<Rightarrow> (rtcp_error, sdes_chunk list \<times> nat) result" where
  "parse_sdes_chunks 0 body position = Inr ([], position)"
| "parse_sdes_chunks (Suc n) body position =
     bind_r (rtcp_read_u32 body position) (\<lambda>ssrc.
     bind_r (parse_sdes_items body (position + 4)) (\<lambda>(items, p).
     bind_r (skip_sdes_padding body position p) (\<lambda>p'.
     bind_r (parse_sdes_chunks n body p') (\<lambda>(chunks, p'').
       Inr (\<lparr>sc_ssrc = ssrc, sc_items = items\<rparr> # chunks, p'')))))"

definition parse_source_description :: "u8 \<Rightarrow> bytes \<Rightarrow> (rtcp_error, source_description) result" where
  "parse_source_description chunk_count body =
     bind_r (parse_sdes_chunks (unat chunk_count) body 0) (\<lambda>(chunks, position).
     if position \<noteq> length body then Inl (InvalidBodyLength 202 (length body))
     else Inr \<lparr>sd_chunks = chunks\<rparr>)"

function parse_nack_entries :: "bytes \<Rightarrow> nat \<Rightarrow> (rtcp_error, nack_entry list) result" where
  "parse_nack_entries body position =
     (if position < length body then
        bind_r (rtcp_read_u16 body position) (\<lambda>packet_id.
        bind_r (rtcp_read_u16 body (position + 2)) (\<lambda>lost_packet_bitmask.
        bind_r (parse_nack_entries body (position + 4)) (\<lambda>entries.
          Inr (\<lparr>ne_packet_id = packet_id, ne_lost_packet_bitmask = lost_packet_bitmask\<rparr> # entries))))
      else Inr [])"
  by pat_completeness auto
termination
  by (relation "measure (\<lambda>(body, position). length body - position)") auto

declare parse_nack_entries.simps [simp del]

definition parse_nack :: "bytes \<Rightarrow> (rtcp_error, generic_nack) result" where
  "parse_nack body =
     (if length body < 8 \<or> (length body - 8) mod 4 \<noteq> 0
      then Inl (InvalidBodyLength 205 (length body))
      else bind_r (parse_nack_entries body 8) (\<lambda>entries.
        bind_r (rtcp_read_u32 body 0) (\<lambda>sender_ssrc.
        bind_r (rtcp_read_u32 body 4) (\<lambda>media_ssrc.
          Inr \<lparr>gn_sender_ssrc = sender_ssrc, gn_media_ssrc = media_ssrc, gn_entries = entries\<rparr>))))"

definition parse_pli :: "bytes \<Rightarrow> (rtcp_error, picture_loss_indication) result" where
  "parse_pli body =
     bind_r (require_body_len 206 body 8) (\<lambda>_.
     bind_r (rtcp_read_u32 body 0) (\<lambda>sender_ssrc.
     bind_r (rtcp_read_u32 body 4) (\<lambda>media_ssrc.
       Inr \<lparr>pli_sender_ssrc = sender_ssrc, pli_media_ssrc = media_ssrc\<rparr>)))"

definition map_ok :: "('a \<Rightarrow> 'b) \<Rightarrow> ('e, 'a) result \<Rightarrow> ('e, 'b) result" where
  "map_ok f m = bind_r m (\<lambda>x. Inr (f x))"

definition parse_packet :: "u8 \<Rightarrow> u8 \<Rightarrow> bytes \<Rightarrow> (rtcp_error, rtcp_packet) result" where
  "parse_packet cnt packet_type body =
     (if packet_type = 200 then map_ok SenderReport (parse_sender_report cnt body)
      else if packet_type = 201 then map_ok ReceiverReport (parse_receiver_report cnt body)
      else if packet_type = 202 then map_ok SourceDescription (parse_source_description cnt body)
      else if packet_type = 205 \<and> cnt = 1 then map_ok GenericNack (parse_nack body)
      else if packet_type = 205 \<and> cnt = 15 then map_ok TransportWideFeedback (twcc_parse body)
      else if packet_type = 206 \<and> cnt = 1 then map_ok PictureLossIndication (parse_pli body)
      else Inr (Raw \<lparr>raw_count = cnt, raw_packet_type = packet_type, raw_body = body\<rparr>))"

definition strip_padding :: "bool \<Rightarrow> bytes \<Rightarrow> (rtcp_error, bytes) result" where
  "strip_padding has_padding body =
     (if \<not> has_padding then Inr body
      else if body = [] then Inl (InvalidPadding 0)
      else let padding_len = unat (last body) in
        if padding_len = 0 \<or> padding_len > length body then Inl (InvalidPadding padding_len)
        else let content_len = length body - padding_len in
          bind_r (ok_or (InvalidPadding padding_len) (get_range body content_len (length body - 1)))
            (\<lambda>padding.
          if (\<exists>b\<in>set padding. b \<noteq> 0) then Inl (InvalidPadding padding_len)
          else ok_or (InvalidPadding padding_len) (get_range body 0 content_len)))"

text \<open>The loop of \<open>parse_compound\<close> on the bytes from the current position on.\<close>

function parse_packets :: "bytes \<Rightarrow> (rtcp_error, rtcp_packet list) result" where
  "parse_packets remaining =
     (if remaining = [] then Inr []
      else if length remaining < 4 then Inl (PacketTooShort (length remaining))
      else let first = remaining ! 0; version = drop_bit 6 first in
        if version \<noteq> 2 then Inl (UnsupportedVersion version)
        else let has_padding = (first AND 0x20 \<noteq> 0);
                 cnt = first AND 0x1f;
                 packet_type = remaining ! 1;
                 words_minus_one = unat (from_be [remaining ! 2, remaining ! 3] :: u16);
                 packet_len = (words_minus_one + 1) * 4 in
          bind_r (ok_or (InvalidPacketLength packet_len (length remaining))
              (get_range remaining 0 packet_len)) (\<lambda>packet_bytes.
          bind_r (ok_or TruncatedPacket (get_range packet_bytes 4 (length packet_bytes)))
            (\<lambda>body_with_padding.
          bind_r (strip_padding has_padding body_with_padding) (\<lambda>body.
          bind_r (parse_packet cnt packet_type body) (\<lambda>packet.
          bind_r (parse_packets (drop packet_len remaining)) (\<lambda>packets.
            Inr (packet # packets)))))))"
  by pat_completeness auto
termination
  by (relation "measure length") (auto simp: result_simps get_range_Some)

declare parse_packets.simps [simp del]

definition parse_compound :: "bytes \<Rightarrow> (rtcp_error, rtcp_packet list) result" where
  "parse_compound input =
     bind_r (parse_packets input) (\<lambda>packets.
     if packets = [] then Inl (PacketTooShort 0) else Inr packets)"

definition encode_report_block :: "report_block \<Rightarrow> (rtcp_error, bytes) result" where
  "encode_report_block report =
     (if \<not> fits_i24 (rb_cumulative_lost report)
      then Inl (InvalidCumulativeLoss (rb_cumulative_lost report))
      else Inr (to_be (rb_ssrc report) @ [rb_fraction_lost report] @
        write_i24 (rb_cumulative_lost report) @ to_be (rb_extended_highest_sequence report) @
        to_be (rb_jitter report) @ to_be (rb_last_sender_report report) @
        to_be (rb_delay_since_last_sender_report report)))"

fun encode_report_blocks :: "report_block list \<Rightarrow> (rtcp_error, bytes) result" where
  "encode_report_blocks [] = Inr []"
| "encode_report_blocks (r # rs) =
     bind_r (encode_report_block r) (\<lambda>b.
     bind_r (encode_report_blocks rs) (\<lambda>bs. Inr (b @ bs)))"

definition encode_sender_report :: "sender_report \<Rightarrow> (rtcp_error, u8 \<times> u8 \<times> bytes) result" where
  "encode_sender_report report =
     bind_r (checked_count (length (sr_reports report))) (\<lambda>cnt.
     bind_r (encode_report_blocks (sr_reports report)) (\<lambda>blocks.
       Inr (cnt, 200, to_be (sr_sender_ssrc report) @ to_be (sr_ntp_timestamp report) @
         to_be (sr_rtp_timestamp report) @ to_be (sr_sender_packet_count report) @
         to_be (sr_sender_octet_count report) @ blocks)))"

definition encode_receiver_report :: "receiver_report \<Rightarrow> (rtcp_error, u8 \<times> u8 \<times> bytes) result" where
  "encode_receiver_report report =
     bind_r (checked_count (length (rr_reports report))) (\<lambda>cnt.
     bind_r (encode_report_blocks (rr_reports report)) (\<lambda>blocks.
       Inr (cnt, 201, to_be (rr_sender_ssrc report) @ blocks)))"

fun encode_sdes_items :: "sdes_item list \<Rightarrow> (rtcp_error, bytes) result" where
  "encode_sdes_items [] = Inr []"
| "encode_sdes_items (i # is) =
     (if length (si_value i) > 255 then Inl (SdesItemTooLarge (length (si_value i)))
      else bind_r (encode_sdes_items is) (\<lambda>bs.
        Inr ([si_item_type i, word_of_nat (length (si_value i))] @ si_value i @ bs)))"

fun encode_sdes_chunks :: "sdes_chunk list \<Rightarrow> (rtcp_error, bytes) result" where
  "encode_sdes_chunks [] = Inr []"
| "encode_sdes_chunks (c # cs) =
     bind_r (encode_sdes_items (sc_items c)) (\<lambda>items.
     bind_r (encode_sdes_chunks cs) (\<lambda>bs.
       Inr (pad_zero4 (to_be (sc_ssrc c) @ items @ [0]) @ bs)))"

definition encode_sdes :: "source_description \<Rightarrow> (rtcp_error, u8 \<times> u8 \<times> bytes) result" where
  "encode_sdes description =
     bind_r (checked_count (length (sd_chunks description))) (\<lambda>cnt.
     bind_r (encode_sdes_chunks (sd_chunks description)) (\<lambda>body. Inr (cnt, 202, body)))"

definition encode_nack :: "generic_nack \<Rightarrow> bytes" where
  "encode_nack nack = to_be (gn_sender_ssrc nack) @ to_be (gn_media_ssrc nack) @
     concat (map (\<lambda>e. to_be (ne_packet_id e) @ to_be (ne_lost_packet_bitmask e)) (gn_entries nack))"

definition encode_pli :: "picture_loss_indication \<Rightarrow> bytes" where
  "encode_pli pli = to_be (pli_sender_ssrc pli) @ to_be (pli_media_ssrc pli)"

fun encode_packet :: "rtcp_packet \<Rightarrow> (rtcp_error, u8 \<times> u8 \<times> bytes) result" where
  "encode_packet (SenderReport report) = encode_sender_report report"
| "encode_packet (ReceiverReport report) = encode_receiver_report report"
| "encode_packet (SourceDescription description) = encode_sdes description"
| "encode_packet (GenericNack nack) = Inr (1, 205, encode_nack nack)"
| "encode_packet (PictureLossIndication pli) = Inr (1, 206, encode_pli pli)"
| "encode_packet (TransportWideFeedback feedback) =
     bind_r (twcc_encode feedback) (\<lambda>body. Inr (15, 205, body))"
| "encode_packet (Raw raw) = Inr (raw_count raw, raw_packet_type raw, raw_body raw)"

definition rtcp_max_packet_len :: nat where
  "rtcp_max_packet_len = 262144"

text \<open>The loop of \<open>encode_compound\<close>, with the output written so far.\<close>

fun encode_packets :: "rtcp_packet list \<Rightarrow> bytes \<Rightarrow> (rtcp_error, bytes) result" where
  "encode_packets [] output = Inr output"
| "encode_packets (packet # packets) output =
     bind_r (encode_packet packet) (\<lambda>(cnt, packet_type, body0).
       let body = pad_zero4 body0; words_minus_one = (length body + 4) div 4 - 1 in
       if words_minus_one > 65535 then Inl PacketTooLarge
       else if cnt > 31 then Inl (CountTooLarge (unat cnt))
       else let output' = output @ [0x80 OR cnt, packet_type] @
                  to_be (word_of_nat words_minus_one :: u16) @ body in
         if length output' > rtcp_max_packet_len then Inl PacketTooLarge
         else encode_packets packets output')"

definition encode_compound :: "rtcp_packet list \<Rightarrow> (rtcp_error, bytes) result" where
  "encode_compound packets = encode_packets packets []"

section \<open>Bodies\<close>

lemma length_encode_report_block: "encode_report_block r = Inr b \<Longrightarrow> length b = 24"
  by (auto simp: encode_report_block_def split: if_splits)

lemma length_encode_report_blocks: "encode_report_blocks rs = Inr bs \<Longrightarrow> length bs = length rs * 24"
  by (induction rs arbitrary: bs) (auto simp: result_simps dest: length_encode_report_block)

lemma parse_report_blocks_append:
  "length pre \<le> position \<Longrightarrow>
     parse_report_blocks (pre @ body) position n = parse_report_blocks body (position - length pre) n"
  by (induction n arbitrary: position) (simp_all add: rtcp_read_defs wire_reads)

lemma report_blocks_roundtrip:
  "encode_report_blocks rs = Inr bs \<Longrightarrow> parse_report_blocks (bs @ post) 0 (length rs) = Inr rs"
proof (induction rs arbitrary: bs)
  case Nil
  then show ?case by simp
next
  case (Cons r rs)
  then obtain b bs' where b: "encode_report_block r = Inr b" and bs': "encode_report_blocks rs = Inr bs'"
    and bs: "bs = b @ bs'"
    by (auto simp: result_simps)
  have rest: "parse_report_blocks (b @ bs' @ post) 24 (length rs) = Inr rs"
    using Cons.IH [OF bs'] by (simp add: parse_report_blocks_append length_encode_report_block [OF b])
  from b have fits: "fits_i24 (rb_cumulative_lost r)"
    and e: "b = to_be (rb_ssrc r) @ [rb_fraction_lost r] @
        write_i24 (rb_cumulative_lost r) @ to_be (rb_extended_highest_sequence r) @
        to_be (rb_jitter r) @ to_be (rb_last_sender_report r) @
        to_be (rb_delay_since_last_sender_report r)"
    by (auto simp: encode_report_block_def split: if_splits)
  show ?case
    unfolding bs append_assoc length_Cons parse_report_blocks.simps
    using rest fits by (simp add: e rtcp_read_defs wire_reads)
qed

lemma checked_count_Inr: "checked_count n = Inr c \<Longrightarrow> unat c = n \<and> n \<le> 31"
  by (auto simp: checked_count_def unat_word_of_nat_less split: if_splits)

lemma sender_report_roundtrip:
  assumes "encode_sender_report r = Inr (cnt, ty, body)"
  shows "ty = 200" and "parse_sender_report cnt body = Inr r" and "length body mod 4 = 0"
proof -
  from assms obtain blocks where c: "checked_count (length (sr_reports r)) = Inr cnt"
    and bs: "encode_report_blocks (sr_reports r) = Inr blocks" and ty: "ty = 200"
    and body: "body = to_be (sr_sender_ssrc r) @ to_be (sr_ntp_timestamp r) @
         to_be (sr_rtp_timestamp r) @ to_be (sr_sender_packet_count r) @
         to_be (sr_sender_octet_count r) @ blocks"
    by (auto simp: encode_sender_report_def result_simps)
  note n = checked_count_Inr [OF c] and l = length_encode_report_blocks [OF bs]
  show "ty = 200" by (rule ty)
  show "length body mod 4 = 0" by (simp add: body l mod_eq_0_iff_dvd)
  show "parse_sender_report cnt body = Inr r"
    using report_blocks_roundtrip [OF bs, of "[]"] n l
    by (simp add: parse_sender_report_def require_body_len_def body rtcp_read_defs wire_reads
        parse_report_blocks_append)
qed

lemma receiver_report_roundtrip:
  assumes "encode_receiver_report r = Inr (cnt, ty, body)"
  shows "ty = 201" and "parse_receiver_report cnt body = Inr r" and "length body mod 4 = 0"
proof -
  from assms obtain blocks where c: "checked_count (length (rr_reports r)) = Inr cnt"
    and bs: "encode_report_blocks (rr_reports r) = Inr blocks" and ty: "ty = 201"
    and body: "body = to_be (rr_sender_ssrc r) @ blocks"
    by (auto simp: encode_receiver_report_def result_simps)
  note n = checked_count_Inr [OF c] and l = length_encode_report_blocks [OF bs]
  show "ty = 201" by (rule ty)
  show "length body mod 4 = 0" by (simp add: body l mod_eq_0_iff_dvd)
  show "parse_receiver_report cnt body = Inr r"
    using report_blocks_roundtrip [OF bs, of "[]"] n l
    by (simp add: parse_receiver_report_def require_body_len_def body rtcp_read_defs wire_reads
        parse_report_blocks_append)
qed

lemma pli_roundtrip: "parse_pli (encode_pli p) = Inr p"
  by (simp add: parse_pli_def encode_pli_def require_body_len_def rtcp_read_defs wire_reads)

definition nack_bytes :: "nack_entry list \<Rightarrow> bytes" where
  "nack_bytes es = concat (map (\<lambda>e. to_be (ne_packet_id e) @ to_be (ne_lost_packet_bitmask e)) es)"

lemma length_nack_bytes: "length (nack_bytes es) = length es * 4"
  by (induction es) (simp_all add: nack_bytes_def)

lemma nack_entries_roundtrip:
  "position = length pre \<Longrightarrow> parse_nack_entries (pre @ nack_bytes es) position = Inr es"
proof (induction es arbitrary: pre position)
  case Nil
  then show ?case by (subst parse_nack_entries.simps) (simp add: nack_bytes_def)
next
  case (Cons e es)
  let ?e = "to_be (ne_packet_id e) @ to_be (ne_lost_packet_bitmask e) :: bytes"
  have n: "nack_bytes (e # es) = ?e @ nack_bytes es" by (simp add: nack_bytes_def)
  have "parse_nack_entries ((pre @ ?e) @ nack_bytes es) (position + 4) = Inr es"
    by (rule Cons.IH) (simp add: Cons.prems)
  then show ?case
    unfolding n by (subst parse_nack_entries.simps)
      (simp add: Cons.prems rtcp_read_defs wire_reads)
qed

lemma nack_roundtrip: "parse_nack (encode_nack n) = Inr n" "length (encode_nack n) mod 4 = 0"
proof -
  have e: "encode_nack n = (to_be (gn_sender_ssrc n) @ to_be (gn_media_ssrc n)) @
      nack_bytes (gn_entries n)"
    by (simp add: encode_nack_def nack_bytes_def)
  have "parse_nack_entries (encode_nack n) 8 = Inr (gn_entries n)"
    unfolding e by (rule nack_entries_roundtrip) simp
  then show "parse_nack (encode_nack n) = Inr n"
    unfolding parse_nack_def e by (simp add: rtcp_read_defs wire_reads length_nack_bytes)
  show "length (encode_nack n) mod 4 = 0"
    unfolding e by (simp add: length_nack_bytes mod_eq_0_iff_dvd)
qed

section \<open>Source descriptions\<close>

lemma sdes_items_roundtrip:
  "encode_sdes_items is = Inr bs \<Longrightarrow> \<forall>i\<in>set is. si_item_type i \<noteq> 0 \<Longrightarrow> position = length pre \<Longrightarrow>
     parse_sdes_items (pre @ bs @ 0 # post) position = Inr (is, position + length bs + 1)"
proof (induction "is" arbitrary: bs pre position)
  case Nil
  then show ?case by (subst parse_sdes_items.simps) (simp add: wire_reads)
next
  case (Cons i "is")
  then obtain bs' where n: "length (si_value i) \<le> 255" and bs': "encode_sdes_items is = Inr bs'"
    and bs: "bs = [si_item_type i, word_of_nat (length (si_value i))] @ si_value i @ bs'"
    by (auto simp: result_simps not_less split: if_splits)
  let ?head = "[si_item_type i, word_of_nat (length (si_value i))] @ si_value i"
  let ?stop = "position + 2 + length (si_value i)"
  have ih: "parse_sdes_items ((pre @ ?head) @ bs' @ 0 # post) ?stop = Inr (is, ?stop + length bs' + 1)"
    by (rule Cons.IH [OF bs']) (use Cons.prems in auto)
  have u: "unat (word_of_nat (length (si_value i)) :: u8) = length (si_value i)"
    using n by (intro unat_word_of_nat_less) simp
  have "get_range ((pre @ [si_item_type i, word_of_nat (length (si_value i))]) @ si_value i @
      bs' @ 0 # post) (position + 2) ?stop = Some (si_value i)"
    by (rule get_range_mid) (simp_all add: Cons.prems(3))
  with ih u Cons.prems(2,3) show ?case
    unfolding bs by (subst parse_sdes_items.simps) (simp add: wire_reads)
qed

lemma skip_sdes_padding_layout:
  "position = length pre \<Longrightarrow> k = pad4 (position - start) \<Longrightarrow> start \<le> position \<Longrightarrow>
     skip_sdes_padding (pre @ replicate k 0 @ post) start position = Inr (position + k)"
proof (induction k arbitrary: pre position)
  case 0
  then have "(position - start) mod 4 = 0" using pad4_mod [of "position - start"] by simp
  then show ?case by (subst skip_sdes_padding.simps) simp
next
  case (Suc k)
  then have m: "(position - start) mod 4 \<noteq> 0" using pad4_aligned [of "position - start"] by auto
  with Suc.prems have "k = pad4 (Suc position - start)"
    using pad4_Suc [OF m] by (simp add: Suc_diff_le)
  with Suc.IH [of "Suc position" "pre @ [0]"] Suc.prems
  have "skip_sdes_padding (pre @ 0 # replicate k 0 @ post) start (Suc position) = Inr (Suc position + k)"
    by simp
  then show ?case using m by (subst skip_sdes_padding.simps) (simp add: Suc.prems(1) wire_reads)
qed

definition sdes_wf :: "source_description \<Rightarrow> bool" where
  "sdes_wf d \<longleftrightarrow> (\<forall>c\<in>set (sd_chunks d). \<forall>i\<in>set (sc_items c). si_item_type i \<noteq> 0)"

lemma sdes_chunks_roundtrip:
  "encode_sdes_chunks cs = Inr bs \<Longrightarrow> \<forall>c\<in>set cs. \<forall>i\<in>set (sc_items c). si_item_type i \<noteq> 0 \<Longrightarrow>
     position = length pre \<Longrightarrow>
     parse_sdes_chunks (length cs) (pre @ bs @ post) position = Inr (cs, position + length bs) \<and>
     length bs mod 4 = 0"
proof (induction cs arbitrary: bs pre position)
  case Nil
  then show ?case by simp
next
  case (Cons c cs)
  then obtain items bs' where items: "encode_sdes_items (sc_items c) = Inr items"
    and bs': "encode_sdes_chunks cs = Inr bs'"
    and bs0: "bs = pad_zero4 (to_be (sc_ssrc c) @ items @ [0]) @ bs'"
    by (auto simp: result_simps)
  define k where "k = pad4 (4 + length items + 1)"
  have bs: "bs = to_be (sc_ssrc c) @ items @ 0 # replicate k 0 @ bs'"
    unfolding bs0 by (simp add: pad_zero4_eq k_def)
  have al: "(4 + length items + 1 + k) mod 4 = 0" unfolding k_def by (rule pad4_mod)
  have "parse_sdes_items ((pre @ to_be (sc_ssrc c)) @ items @ 0 # replicate k 0 @ bs' @ post)
      (position + 4) = Inr (sc_items c, position + 4 + length items + 1)"
    by (rule sdes_items_roundtrip [OF items]) (use Cons.prems in auto)
  moreover have "skip_sdes_padding ((pre @ to_be (sc_ssrc c) @ items @ [0]) @ replicate k 0 @ bs' @ post)
      position (position + 4 + length items + 1) = Inr (position + 4 + length items + 1 + k)"
    by (rule skip_sdes_padding_layout) (simp_all add: Cons.prems(3) k_def)
  moreover have ih: "parse_sdes_chunks (length cs)
      ((pre @ to_be (sc_ssrc c) @ items @ 0 # replicate k 0) @ bs' @ post)
      (position + 4 + length items + 1 + k) =
      Inr (cs, position + 4 + length items + 1 + k + length bs') \<and> length bs' mod 4 = 0"
    by (rule Cons.IH [OF bs']) (use Cons.prems in auto)
  moreover have "length bs mod 4 = 0"
  proof -
    have "length bs = (4 + length items + 1 + k) + length bs'" by (simp add: bs)
    then show ?thesis using al ih by (metis add_0 mod_add_eq mod_mod_trivial)
  qed
  ultimately show ?case
    by (simp add: bs rtcp_read_defs wire_reads Cons.prems(3))
qed

lemma sdes_roundtrip:
  assumes "encode_sdes d = Inr (cnt, ty, body)" and "sdes_wf d"
  shows "ty = 202" and "parse_source_description cnt body = Inr d" and "length body mod 4 = 0"
proof -
  from assms(1) have c: "checked_count (length (sd_chunks d)) = Inr cnt"
    and b: "encode_sdes_chunks (sd_chunks d) = Inr body" and ty: "ty = 202"
    by (auto simp: encode_sdes_def result_simps)
  from sdes_chunks_roundtrip [OF b, of 0 "[]" "[]"] assms(2) checked_count_Inr [OF c] ty
  show "ty = 202" and "parse_source_description cnt body = Inr d" and "length body mod 4 = 0"
    by (simp_all add: parse_source_description_def sdes_wf_def)
qed

section \<open>Compound packets\<close>

text \<open>A raw packet must not claim a type the codec interprets, and must fill its words.\<close>

fun rtcp_wf :: "rtcp_packet \<Rightarrow> bool" where
  "rtcp_wf (SourceDescription d) = sdes_wf d"
| "rtcp_wf (Raw r) =
     (raw_packet_type r \<notin> {200, 201, 202} \<and>
      (raw_packet_type r = 205 \<longrightarrow> raw_count r \<noteq> 1 \<and> raw_count r \<noteq> 15) \<and>
      (raw_packet_type r = 206 \<longrightarrow> raw_count r \<noteq> 1) \<and> length (raw_body r) mod 4 = 0)"
| "rtcp_wf _ = True"

lemma packet_body_roundtrip:
  assumes "encode_packet p = Inr (cnt, ty, body)" and "rtcp_wf p"
  shows "parse_packet cnt ty body = Inr p \<and> length body mod 4 = 0"
proof (cases p)
  case (SenderReport r)
  with assms sender_report_roundtrip [of r cnt ty body] show ?thesis by (auto simp: parse_packet_def map_ok_def)
next
  case (ReceiverReport r)
  with assms receiver_report_roundtrip [of r cnt ty body] show ?thesis by (auto simp: parse_packet_def map_ok_def)
next
  case (SourceDescription d)
  with assms sdes_roundtrip [of d cnt ty body] show ?thesis by (auto simp: parse_packet_def map_ok_def)
next
  case (GenericNack n)
  with assms nack_roundtrip [of n] show ?thesis by (auto simp: parse_packet_def map_ok_def)
next
  case (PictureLossIndication q)
  with assms pli_roundtrip [of q] show ?thesis
    by (auto simp: parse_packet_def map_ok_def encode_pli_def)
next
  case (TransportWideFeedback t)
  with assms twcc_roundtrip [of t body] show ?thesis
    by (auto simp: parse_packet_def map_ok_def result_simps)
next
  case (Raw r)
  with assms show ?thesis by (auto simp: parse_packet_def)
qed

lemma compound_first_byte:
  assumes "(c :: u8) \<le> 31"
  shows "drop_bit 6 (0x80 OR c) = 2" and "(0x80 OR c) AND 0x20 = 0" and "(0x80 OR c) AND 0x1f = c"
proof -
  have "unat c \<le> 31" using assms by (simp add: word_le_nat_alt)
  then have "unat c \<in> set [0..<32]" by simp
  moreover have "c = word_of_nat (unat c)" by simp
  ultimately have "c \<in> word_of_nat ` set [0..<32]" by (metis image_eqI)
  then show "drop_bit 6 (0x80 OR c) = 2" and "(0x80 OR c) AND 0x20 = 0" and "(0x80 OR c) AND 0x1f = c"
    by (auto simp: upt_rec)
qed

lemma parse_packets_step:
  assumes "cnt \<le> 31" and "length body mod 4 = 0" and "length body div 4 \<le> 65535"
    and "parse_packet cnt ty body = Inr p" and "parse_packets rest = Inr ps"
  shows "parse_packets ([0x80 OR cnt, ty] @ to_be (word_of_nat (length body div 4) :: u16) @ body @ rest) =
    Inr (p # ps)"
proof -
  let ?w = "word_of_nat (length body div 4) :: u16"
  let ?i = "[0x80 OR cnt, ty] @ to_be ?w @ body @ rest"
  obtain x y where xy: "to_be ?w = [x, y]" by (simp add: to_be_u16)
  have "from_be [x, y] = ?w" using be16.dec_enc [of ?w] by (simp only: xy)
  moreover have "unat ?w = length body div 4" using assms(3) by (intro unat_word_of_nat_less) simp
  moreover have "(length body div 4 + 1) * 4 = length body + 4"
    using assms(2) by (simp add: mod_0_imp_dvd)
  ultimately have len: "(unat (from_be [x, y] :: u16) + 1) * 4 = length body + 4" by metis
  define f n where "f = 0x80 OR cnt" and "n = length body + 4"
  define inp where "inp = f # ty # x # y # body @ rest"
  have f: "drop_bit 6 f = 2" "f AND 0x20 = 0" "f AND 0x1f = cnt"
    unfolding f_def by (rule compound_first_byte [OF assms(1)])+
  have i: "?i = inp" by (simp add: xy inp_def f_def)
  have nth: "inp \<noteq> []" "\<not> length inp < 4" "inp ! 0 = f" "inp ! 1 = ty" "inp ! 2 = x" "inp ! 3 = y"
    by (simp_all add: inp_def)
  have len_n: "(unat (from_be [x, y] :: u16) + 1) * 4 = n" using len by (simp only: n_def)
  have g: "get_range inp 0 n = Some (f # ty # x # y # body)"
    using get_range_prefix [of "f # ty # x # y # body" rest] by (simp add: eval_nat_numeral inp_def n_def)
  have h: "get_range (f # ty # x # y # body) 4 (length (f # ty # x # y # body)) = Some body"
    by (simp add: get_range_def)
  have d: "drop n inp = rest"
    by (simp add: eval_nat_numeral inp_def n_def)
  show ?thesis
    unfolding i by (subst parse_packets.simps)
      (simp only: nth len_n f g h d Let_def if_True if_False simp_thms ok_or_simps bind_r.simps
        strip_padding_def assms(4,5))
qed

lemma encode_packets_roundtrip:
  "encode_packets ps acc = Inr res \<Longrightarrow> \<forall>p\<in>set ps. rtcp_wf p \<Longrightarrow>
     \<exists>t. res = acc @ t \<and> parse_packets t = Inr ps \<and>
       (length acc \<le> rtcp_max_packet_len \<longrightarrow> length res \<le> rtcp_max_packet_len)"
proof (induction ps arbitrary: acc)
  case Nil
  then show ?case by (auto simp: parse_packets.simps [of "[]"])
next
  case (Cons p ps)
  from Cons.prems(1) obtain cnt ty body0 where e: "encode_packet p = Inr (cnt, ty, body0)"
    by (auto simp: result_simps)
  have b: "parse_packet cnt ty body0 = Inr p" "length body0 mod 4 = 0"
    using packet_body_roundtrip [OF e] Cons.prems(2) by auto
  then have z: "pad_zero4 body0 = body0" by (simp add: pad_zero4_eq pad4_aligned)
  have w: "(length body0 + 4) div 4 - 1 = length body0 div 4" by simp
  let ?t = "[0x80 OR cnt, ty] @ to_be (word_of_nat (length body0 div 4) :: u16) @ body0"
  from Cons.prems(1) have g: "length body0 div 4 \<le> 65535" "cnt \<le> 31"
    "length (acc @ ?t) \<le> rtcp_max_packet_len" "encode_packets ps (acc @ ?t) = Inr res"
    unfolding encode_packets.simps e bind_r.simps prod.case z w Let_def
    by (simp_all only: not_less split: if_splits) simp_all
  from Cons.IH [OF g(4)] Cons.prems(2) obtain t where
    t: "res = (acc @ ?t) @ t" "parse_packets t = Inr ps" "length res \<le> rtcp_max_packet_len"
    using g(3) by auto
  have "parse_packets (?t @ t) = Inr (p # ps)"
    using parse_packets_step [OF g(2) b(2) g(1) b(1) t(2)] by simp
  with t show ?case by (intro exI [of _ "?t @ t"]) simp
qed

section \<open>Properties\<close>

text \<open>C40. RTCP round trip. Whatever well-formed list of packets \<open>encode_compound\<close> accepts,
  \<open>parse_compound\<close> reads back as the same list: reports with their signed 24-bit loss counters,
  source descriptions with their padding, NACKs, picture loss indications, transport-wide feedback
  with its packed status chunks, and raw packets. The output is never longer than 262144 bytes.\<close>

theorem rtcp_roundtrip:
  assumes "encode_compound packets = Inr out" and "packets \<noteq> []" and "\<forall>p\<in>set packets. rtcp_wf p"
  shows "parse_compound out = Inr packets \<and> length out \<le> rtcp_max_packet_len"
proof -
  from encode_packets_roundtrip [of packets "[]" out] assms
  have "parse_packets out = Inr packets" "length out \<le> rtcp_max_packet_len"
    by (auto simp: encode_compound_def rtcp_max_packet_len_def)
  then show ?thesis using assms(2) by (simp add: parse_compound_def)
qed

definition sample_compound :: "rtcp_packet list" where
  "sample_compound =
     [ReceiverReport \<lparr>rr_sender_ssrc = 1, rr_reports = [\<lparr>rb_ssrc = 2, rb_fraction_lost = 3,
        rb_cumulative_lost = - 5, rb_extended_highest_sequence = 6, rb_jitter = 7,
        rb_last_sender_report = 8, rb_delay_since_last_sender_report = 9\<rparr>]\<rparr>,
      SourceDescription \<lparr>sd_chunks = [\<lparr>sc_ssrc = 1, sc_items = [\<lparr>si_item_type = 1, si_value = [97, 98]\<rparr>]\<rparr>]\<rparr>,
      TransportWideFeedback \<lparr>tw_sender_ssrc = 1, tw_media_ssrc = 2, tw_base_sequence_number = 100,
        tw_reference_time = 77, tw_feedback_packet_count = 4,
        tw_statuses = [ReceivedSmallDelta 9, NotReceived, ReceivedLargeDelta 300]\<rparr>,
      PictureLossIndication \<lparr>pli_sender_ssrc = 1, pli_media_ssrc = 2\<rparr>]"

theorem rtcp_roundtrip_witness:
  "\<exists>out. encode_compound sample_compound = Inr out \<and> parse_compound out = Inr sample_compound \<and>
     length out = 88"
proof -
  have "fits_i24 (- 5)" "fits_i24 77" by (simp_all add: fits_i24_def)
  then have "\<exists>out. encode_compound sample_compound = Inr out \<and> length out = 88"
    unfolding sample_compound_def encode_compound_def
    by (simp add: encode_receiver_report_def checked_count_def encode_report_block_def
        encode_sdes_def twcc_encode_def encode_pli_def pad_zero4_eq pad4_def rtcp_max_packet_len_def
        Let_def)
  then obtain out where out: "encode_compound sample_compound = Inr out" and n: "length out = 88"
    by blast
  have "\<forall>p\<in>set sample_compound. rtcp_wf p"
    by (simp add: sample_compound_def sdes_wf_def)
  with rtcp_roundtrip [OF out] out n show ?thesis by (auto simp: sample_compound_def)
qed

end
