(* ===== verification/Rtc_Datagram.thy ===== *)
theory Rtc_Datagram
  imports Rtp_Packet Rtcp
begin

text \<open>
  Classification of datagrams on the shared UDP socket, \<open>crates/webrtc/rtc-datagram/src/lib.rs\<close>,
  and its agreement with the RTP and RTCP encoders.
\<close>

section \<open>Definitions\<close>

datatype datagram_kind = DgStun | DgTurnChannelData | DgDtls | DgRtp | DgRtcp | DgUnknown

definition is_stun :: "bytes \<Rightarrow> bool" where
  "is_stun input \<longleftrightarrow> length input \<ge> 20 \<and> get_range input 4 8 = Some [0x21, 0x12, 0xa4, 0x42]"

definition is_turn_channel_data :: "bytes \<Rightarrow> bool" where
  "is_turn_channel_data input =
     (case get_range input 0 2 of None \<Rightarrow> False
      | Some bs \<Rightarrow> let channel = (from_be [bs ! 0, bs ! 1] :: u16) in
          0x4000 \<le> channel \<and> channel \<le> 0x7fff)"

definition classify :: "bytes \<Rightarrow> datagram_kind" where
  "classify input =
     (case input of [] \<Rightarrow> DgUnknown
      | first # _ \<Rightarrow>
          if first \<le> 3 \<and> is_stun input then DgStun
          else if 64 \<le> first \<and> first \<le> 79 \<and> is_turn_channel_data input then DgTurnChannelData
          else if 20 \<le> first \<and> first \<le> 63 then DgDtls
          else if 128 \<le> first \<and> first \<le> 191 \<and> length input \<ge> 2 then
            (if 192 \<le> input ! 1 \<and> input ! 1 \<le> 223 then DgRtcp else DgRtp)
          else DgUnknown)"

definition is_rtcp_mux_safe_payload_type :: "u8 \<Rightarrow> bool" where
  "is_rtcp_mux_safe_payload_type payload_type \<longleftrightarrow>
     payload_type \<le> 127 \<and> \<not> (payload_type \<ge> 64 \<and> payload_type \<le> 95)"

section \<open>First and second bytes\<close>

lemma version_2_range: "drop_bit 6 (b :: u8) = 2 \<longleftrightarrow> 128 \<le> b \<and> b \<le> 191"
proof -
  have "unat (drop_bit 6 b) = unat b div 64" 
    by (simp add: drop_bit_eq_div unat_div)
  moreover have "drop_bit 6 b = 2 \<longleftrightarrow> unat (drop_bit 6 b) = 2" by (simp add: word_unat_eq_iff)
  moreover have "unat b div 64 = 2 \<longleftrightarrow> 128 \<le> unat b \<and> unat b \<le> 191"
  proof
    assume "unat b div 64 = 2"
    then show "128 \<le> unat b \<and> unat b \<le> 191" using div_mult_mod_eq [of "unat b" 64]
        mod_less_divisor [of 64 "unat b"] by linarith
  next
    assume "128 \<le> unat b \<and> unat b \<le> 191"
    then show "unat b div 64 = 2" by (intro div_nat_eqI) simp_all
  qed
  ultimately show ?thesis by (simp add: word_le_nat_alt)
qed

lemma classify_version_2:
  assumes "drop_bit 6 a = 2"
  shows "classify (a # b # rest) = (if 192 \<le> b \<and> b \<le> 223 then DgRtcp else DgRtp)"
  using assms unfolding version_2_range classify_def by (auto simp: word_le_nat_alt)

text \<open>With the marker bit set, the payload types from 64 to 95 and only they look like RTCP.\<close>

lemma unat_second_byte:
  assumes "pt \<le> 127"
  shows "unat (push_bit 7 (bool_u8 m) OR pt) = (if m then 128 else 0) + unat pt"
proof (cases m)
  case True
  have "\<not> bit pt 7" using bit_word_small [of pt 7 7] assms by (auto simp: word_le_nat_alt)
  then have "pt AND 2 ^ 7 = 0" by (simp only: and_exp_eq_0_iff_not_bit) simp
  then have "push_bit 7 1 AND pt = 0" by (simp add: and.commute)
  then have "push_bit 7 1 OR pt = push_bit 7 1 + pt" by (simp add: disjunctive_add_eq_or)
  moreover have "unat (push_bit 7 1 + pt) = 128 + unat pt"
    using assms by (subst unat_add_no_wrap) (simp_all add: word_le_nat_alt)
  ultimately show ?thesis using True by (simp add: bool_u8_def)
qed (simp add: bool_u8_def)

lemma mux_safe_iff:
  "is_rtcp_mux_safe_payload_type pt \<longleftrightarrow> pt \<le> 127 \<and>
     (\<forall>m. \<not> (192 \<le> push_bit 7 (bool_u8 m) OR pt \<and> push_bit 7 (bool_u8 m) OR pt \<le> 223))"
proof (cases "pt \<le> 127")
  case False
  then show ?thesis by (simp add: is_rtcp_mux_safe_payload_type_def)
next
  case True
  then show ?thesis
    unfolding is_rtcp_mux_safe_payload_type_def
    by (auto simp: word_le_nat_alt unat_second_byte all_bool_eq)
qed

lemma build_starts:
  assumes "build b = Inr out"
  shows "\<exists>a rest. drop_bit 6 a = 2 \<and> h_payload_type (b_header b) \<le> 127 \<and>
    out = a # (push_bit 7 (bool_u8 (h_marker (b_header b))) OR h_payload_type (b_header b)) # rest"
proof -
  from build_layout [OF assms] obtain x :: "(extension_format \<times> u16 \<times> bytes) option" and rest where
    out: "out = encode_fixed_header (b_header b) (x \<noteq> None) (b_padding_len b) @ rest"
    and v: "validate_builder b = Inr ()"
    by blast
  have n: "length (h_csrcs (b_header b)) \<le> 15" "h_payload_type (b_header b) \<le> 127"
    using v by (simp_all add: validate_builder_Inr)
  from first_byte(1) [OF n(1), of "b_padding_len b > 0" "x \<noteq> None"] n show ?thesis
    unfolding out encode_fixed_header_def Let_def by auto
qed

lemma encode_compound_starts:
  assumes "encode_compound (p # ps) = Inr out" and "encode_packet p = Inr (cnt, ty, body)"
  shows "\<exists>a rest. drop_bit 6 a = 2 \<and> out = a # ty # rest"
proof -
  have extends: "\<exists>t. res = acc @ t" if "encode_packets qs acc = Inr res" for qs acc res
    using that by (induction qs arbitrary: acc) (force simp: result_simps Let_def split: if_splits)+
  from assms have "cnt \<le> 31"
    by (auto simp: encode_compound_def Let_def split: if_splits)
  moreover from assms obtain t where "out = [0x80 OR cnt, ty] @ t"
    by (auto simp: encode_compound_def Let_def dest!: extends split: if_splits)
  ultimately show ?thesis using compound_first_byte(1) [of cnt] by auto
qed

section \<open>Properties\<close>

text \<open>Multiplexing is unambiguous. A packet built by the RTP builder with a payload type the
  check allows is classified as RTP whatever its marker, extensions and payload, and a compound
  packet that starts with an RTCP packet type of the reserved range is classified as RTCP. The
  check is as permissive as it can be: a seven-bit payload type it refuses collides with RTCP when
  the marker is set.\<close>

lemma mux_unambiguous:
  "(\<forall>b out. build b = Inr out \<and> is_rtcp_mux_safe_payload_type (h_payload_type (b_header b)) \<longrightarrow>
      classify out = DgRtp) \<and>
   (\<forall>p ps cnt ty body out. encode_compound (p # ps) = Inr out \<and>
      encode_packet p = Inr (cnt, ty, body) \<and> 192 \<le> ty \<and> ty \<le> 223 \<longrightarrow> classify out = DgRtcp) \<and>
   (\<forall>b out. build b = Inr out \<and> h_marker (b_header b) \<and>
      \<not> is_rtcp_mux_safe_payload_type (h_payload_type (b_header b)) \<longrightarrow> classify out = DgRtcp)"
proof (intro conjI allI impI; elim conjE)
  fix b out
  assume "build b = Inr out" and "is_rtcp_mux_safe_payload_type (h_payload_type (b_header b))"
  then show "classify out = DgRtp"
    using build_starts [of b out] by (auto simp: mux_safe_iff classify_version_2)
next
  fix p ps cnt ty body out
  assume "encode_compound (p # ps) = Inr out" and "encode_packet p = Inr (cnt, ty, body)"
    and "192 \<le> ty" and "ty \<le> 223"
  then show "classify out = DgRtcp"
    using encode_compound_starts [of p ps out cnt ty body] by (auto simp: classify_version_2)
next
  fix b out
  assume "build b = Inr out" and m: "h_marker (b_header b)"
    and u: "\<not> is_rtcp_mux_safe_payload_type (h_payload_type (b_header b))"
  then obtain a rest where a: "drop_bit 6 a = 2" and pt: "h_payload_type (b_header b) \<le> 127"
    and out: "out = a # (push_bit 7 (bool_u8 True) OR h_payload_type (b_header b)) # rest"
    using build_starts [of b out] by auto
  have "192 \<le> push_bit 7 (bool_u8 True) OR h_payload_type (b_header b)"
    "push_bit 7 (bool_u8 True) OR h_payload_type (b_header b) \<le> 223"
    using pt u by (auto simp: word_le_nat_alt unat_second_byte is_rtcp_mux_safe_payload_type_def)
  then show "classify out = DgRtcp" unfolding out classify_version_2 [OF a] by simp
qed

lemma mux_unambiguous_witness:
  "classify sample_packet = DgRtp \<and>
   (\<exists>out. encode_compound [PictureLossIndication \<lparr>pli_sender_ssrc = 1, pli_media_ssrc = 2\<rparr>] = Inr out \<and>
      classify out = DgRtcp)"
proof
  have b: "build sample_builder = Inr sample_packet"
    by (simp add: build_eval sample_builder_def sample_packet_def)
  have "h_payload_type (b_header sample_builder) = 96"
    by (simp add: sample_builder_def pb_padding_def pb_extensions_def pb_csrcs_def pb_marker_def pb_new_def)
  then have "is_rtcp_mux_safe_payload_type (h_payload_type (b_header sample_builder))"
    by (simp add: is_rtcp_mux_safe_payload_type_def)
  with mux_unambiguous b show "classify sample_packet = DgRtp" by blast
next
  let ?p = "PictureLossIndication \<lparr>pli_sender_ssrc = 1, pli_media_ssrc = 2\<rparr>"
  have "is_ok (encode_compound [?p])"
    by (simp add: encode_compound_def encode_pli_def pad_zero4_eq pad4_def rtcp_max_packet_len_def Let_def)
  then obtain out where out: "encode_compound [?p] = Inr out" by (auto simp: is_ok_iff)
  moreover have "encode_packet ?p = Inr (1, 206, encode_pli \<lparr>pli_sender_ssrc = 1, pli_media_ssrc = 2\<rparr>)"
    by simp
  moreover have "192 \<le> (206 :: u8) \<and> (206 :: u8) \<le> 223" by simp
  ultimately have "classify out = DgRtcp" using mux_unambiguous by blast
  with out show "\<exists>out. encode_compound [?p] = Inr out \<and> classify out = DgRtcp" by blast
qed

end
