(* ===== verification/Srtp_Replay.thy ===== *)
theory Srtp_Replay
  imports Rtp_Packet Rtcp
begin

text \<open>
  The replay window and the index estimate of SRTP, \<open>crates/webrtc/srtp/src/replay.rs\<close>, with the
  error type of the crate, \<open>error.rs\<close>. The window is a refinement of the set of all indices ever
  accepted; the contract it offers to its two clients, the SRTP and the SRTCP receiver, is a
  locale.
\<close>

section \<open>Definitions\<close>

datatype srtp_error =
    InvalidMasterKeyLength nat
  | InvalidMasterSaltLength nat
  | AuthenticationFailed
  | ReplayDetected
  | PacketTooOld
  | NonMonotonicSequence
  | PacketIndexExhausted
  | SrtcpPacketTooShort nat
  | RtpErr rtp_error
  | RtcpErr rtcp_error

record replay_window =
  rw_maximum :: "u64 option"
  rw_bitmap :: u64

definition rw_default :: replay_window where
  "rw_default = \<lparr>rw_maximum = None, rw_bitmap = 0\<rparr>"

definition rw_check :: "replay_window \<Rightarrow> u64 \<Rightarrow> (srtp_error, unit) result" where
  "rw_check w index =
     (case rw_maximum w of None \<Rightarrow> Inr ()
      | Some maximum \<Rightarrow>
          if index > maximum then Inr ()
          else let distance = maximum - index in
            if distance \<ge> 64 then Inl PacketTooOld
            else if rw_bitmap w AND push_bit (unat distance) 1 \<noteq> 0 then Inl ReplayDetected
            else Inr ())"

definition rw_accept :: "replay_window \<Rightarrow> u64 \<Rightarrow> replay_window" where
  "rw_accept w index =
     (case rw_maximum w of None \<Rightarrow> w\<lparr>rw_maximum := Some index, rw_bitmap := 1\<rparr>
      | Some maximum \<Rightarrow>
          if index > maximum then
            let advance = index - maximum in
            w\<lparr>rw_bitmap := (if advance \<ge> 64 then 1 else push_bit (unat advance) (rw_bitmap w) OR 1),
              rw_maximum := Some index\<rparr>
          else w\<lparr>rw_bitmap := rw_bitmap w OR push_bit (unat (maximum - index)) 1\<rparr>)"

definition estimate_index :: "u64 option \<Rightarrow> u16 \<Rightarrow> u64" where
  "estimate_index highest sequence_number =
     (case highest of None \<Rightarrow> ucast sequence_number
      | Some highest \<Rightarrow>
          let modulus = push_bit 16 1;
              half = modulus div 2;
              base = highest - highest mod modulus;
              candidate = base + ucast sequence_number in
          if saturating_add candidate half < highest then saturating_add candidate modulus
          else if candidate > saturating_add highest half \<and> candidate \<ge> modulus
            then candidate - modulus
          else candidate)"

section \<open>The window as a set\<close>

definition rw_inv :: "replay_window \<Rightarrow> u64 set \<Rightarrow> bool" where
  "rw_inv w A \<longleftrightarrow>
     (case rw_maximum w of None \<Rightarrow> A = {}
      | Some m \<Rightarrow> m \<in> A \<and> (\<forall>a\<in>A. a \<le> m) \<and>
          (\<forall>d < 64. d \<le> unat m \<longrightarrow> bit (rw_bitmap w) d = (m - word_of_nat d \<in> A)))"

lemma rw_inv_default: "rw_inv rw_default {}"
  by (simp add: rw_inv_def rw_default_def)

lemma sub_word_of_nat: "i \<le> m \<Longrightarrow> m - word_of_nat (unat (m - i)) = (i :: u64)"
  by simp

text \<open>What each outcome of the check says about the indices accepted so far.\<close>

lemma rw_check_spec:
  assumes "rw_inv w A"
  shows "rw_check w i = Inr () \<Longrightarrow> i \<notin> A"
    and "rw_check w i = Inl ReplayDetected \<Longrightarrow> i \<in> A"
    and "rw_check w i = Inl PacketTooOld \<Longrightarrow> \<exists>m\<in>A. unat i + 64 \<le> unat m"
    and "rw_check w i \<in> {Inr (), Inl ReplayDetected, Inl PacketTooOld}"
proof -
  show "rw_check w i \<in> {Inr (), Inl ReplayDetected, Inl PacketTooOld}"
    by (auto simp: rw_check_def Let_def split: option.splits)
  have main: "(rw_check w i = Inr () \<longrightarrow> i \<notin> A) \<and> (rw_check w i = Inl ReplayDetected \<longrightarrow> i \<in> A) \<and>
      (rw_check w i = Inl PacketTooOld \<longrightarrow> (\<exists>m\<in>A. unat i + 64 \<le> unat m))"
  proof (cases "rw_maximum w")
    case None
    with assms show ?thesis by (simp add: rw_check_def rw_inv_def)
  next
    case (Some m)
    with assms have m: "m \<in> A" "\<forall>a\<in>A. a \<le> m"
      and b: "\<And>d. d < 64 \<Longrightarrow> d \<le> unat m \<Longrightarrow> bit (rw_bitmap w) d = (m - word_of_nat d \<in> A)"
      by (simp_all add: rw_inv_def)
    show ?thesis
    proof (cases "i > m")
      case True
      with Some m show ?thesis by (auto simp: rw_check_def)
    next
      case False
      then have le: "i \<le> m" by simp
      let ?d = "m - i"
      have ud: "unat ?d = unat m - unat i" using le by (simp add: unat_sub word_le_nat_alt)
      show ?thesis
      proof (cases "?d \<ge> 64")
        case True
        then have "64 \<le> unat m - unat i" using ud by (simp add: word_le_nat_alt)
        then have "unat i + 64 \<le> unat m" by simp
        with Some False True m show ?thesis by (auto simp: rw_check_def)
      next
        case small: False
        then have "unat ?d < 64" by (simp add: word_le_nat_alt not_le)
        moreover have "unat ?d \<le> unat m" using ud by simp
        ultimately have "bit (rw_bitmap w) (unat ?d) = (i \<in> A)"
          using b [of "unat ?d"] sub_word_of_nat [OF le] by simp
        with Some False small show ?thesis by (simp add: rw_check_def Let_def and_exp_eq_0_iff_not_bit)
      qed
    qed
  qed
  then show "rw_check w i = Inr () \<Longrightarrow> i \<notin> A"
    and "rw_check w i = Inl ReplayDetected \<Longrightarrow> i \<in> A"
    and "rw_check w i = Inl PacketTooOld \<Longrightarrow> \<exists>m\<in>A. unat i + 64 \<le> unat m"
    by blast+
qed

lemma unat_sub_word_of_nat:
  assumes "d \<le> unat (m :: u64)"
  shows "unat (m - word_of_nat d) = unat m - d"
proof -
  have "unat m < 2 ^ 64" using unsigned_less [of m] by simp
  with assms have "d < 2 ^ 64" by (rule le_less_trans)
  then have u: "unat (word_of_nat d :: u64) = d" by (intro unat_word_of_nat_less) simp
  then have "word_of_nat d \<le> m" using assms by (simp add: word_le_nat_alt)
  then show ?thesis by (simp add: unat_sub u)
qed

lemma sub_word_of_nat_ne:
  assumes "0 < d" and "d \<le> unat (i :: u64)"
  shows "i - word_of_nat d \<noteq> i"
proof -
  have "unat (i - word_of_nat d) \<noteq> unat i"
    unfolding unat_sub_word_of_nat [OF assms(2)] using assms by simp
  then show ?thesis by metis
qed

lemma rw_accept_newer:
  assumes "rw_inv w A" and "rw_maximum w = Some m" and "m < i"
  shows "rw_inv (rw_accept w i) (insert i A)"
proof -
  have m: "\<forall>a\<in>A. a \<le> m"
    and b: "\<And>d. d < 64 \<Longrightarrow> d \<le> unat m \<Longrightarrow> bit (rw_bitmap w) d = (m - word_of_nat d \<in> A)"
    using assms by (simp_all add: rw_inv_def)
  let ?n = "unat (i - m)"
  have n: "?n = unat i - unat m" "0 < ?n" "unat i = unat m + ?n"
    using assms(3) by (auto simp: unat_sub word_less_nat_alt word_le_nat_alt)
  have old: "(i - word_of_nat d \<in> insert i A) =
      (d = 0 \<or> ?n \<le> d \<and> m - word_of_nat (d - ?n) \<in> A)" if d: "d \<le> unat i" for d
  proof -
    have ui: "unat (i - word_of_nat d) = unat i - d" by (rule unat_sub_word_of_nat [OF d])
    consider "d = 0" | "0 < d" "d < ?n" | "0 < d" "?n \<le> d" by linarith
    then show ?thesis
    proof cases
      case 1
      then show ?thesis by simp
    next
      case 2
      then have "m < i - word_of_nat d" unfolding word_less_nat_alt ui using n by linarith
      then have "i - word_of_nat d \<notin> A" using m by auto
      moreover have "i - word_of_nat d \<noteq> i" by (rule sub_word_of_nat_ne [OF 2(1) d])
      ultimately show ?thesis using 2 by simp
    next
      case 3
      have le: "d - ?n \<le> unat m" using d n by linarith
      have "unat (m - word_of_nat (d - ?n)) = unat (i - word_of_nat d)"
        unfolding unat_sub_word_of_nat [OF le] ui using n 3 by linarith
      then have "m - word_of_nat (d - ?n) = i - word_of_nat d" by (simp only: word_unat_eq_iff)
      moreover have "i - word_of_nat d \<noteq> i" by (rule sub_word_of_nat_ne [OF 3(1) d])
      ultimately show ?thesis using 3 by simp
    qed
  qed
  have "bit (rw_bitmap (rw_accept w i)) d = (i - word_of_nat d \<in> insert i A)"
    if "d < 64" and "d \<le> unat i" for d
  proof (cases "64 \<le> i - m")
    case True
    then have "\<not> ?n \<le> d" using that by (simp add: word_le_nat_alt)
    with True show ?thesis
      unfolding old [OF that(2)] using assms(2,3) by (simp add: rw_accept_def bit_1_iff)
  next
    case False
    have "bit (rw_bitmap w) (d - ?n) = (m - word_of_nat (d - ?n) \<in> A)" if "?n \<le> d"
      by (rule b) (use that \<open>d < 64\<close> \<open>d \<le> unat i\<close> n in linarith)+
    then show ?thesis
      unfolding old [OF that(2)] using False assms(2,3) that(1)
      by (auto simp: rw_accept_def bit_or_iff bit_push_bit_iff bit_1_iff)
  qed
  moreover have "rw_maximum (rw_accept w i) = Some i"
    using assms(2,3) by (simp add: rw_accept_def Let_def)
  ultimately show ?thesis using m assms(3) by (auto simp: rw_inv_def)
qed

lemma rw_accept_older:
  assumes "rw_inv w A" and "rw_maximum w = Some m" and "i \<le> m" and "unat (m - i) < 64"
  shows "rw_inv (rw_accept w i) (insert i A)"
proof -
  let ?n = "unat (m - i)"
  have n: "?n = unat m - unat i" "unat i \<le> unat m"
    using assms(3) by (simp_all add: unat_sub word_le_nat_alt)
  have acc: "rw_accept w i = w\<lparr>rw_bitmap := rw_bitmap w OR push_bit ?n 1\<rparr>"
    using assms(2,3) by (simp add: rw_accept_def)
  have "bit (rw_bitmap (rw_accept w i)) d = (m - word_of_nat d \<in> insert i A)"
    if "d < 64" and "d \<le> unat m" for d
  proof -
    have "m - word_of_nat d = i \<longleftrightarrow> d = ?n"
      using unat_sub_word_of_nat [OF that(2)] n that(2) by (auto simp: word_unat_eq_iff)
    moreover have "bit (rw_bitmap w) d = (m - word_of_nat d \<in> A)"
      using assms(1,2) that by (simp add: rw_inv_def)
    moreover have "bit (push_bit ?n 1 :: u64) d \<longleftrightarrow> d = ?n"
      using that(1) by (auto simp: bit_exp_iff possible_bit_def)
    ultimately show ?thesis unfolding acc by (auto simp: bit_or_iff)
  qed
  then show ?thesis using assms by (auto simp: rw_inv_def acc)
qed

lemma rw_accept_inv:
  assumes "rw_inv w A" and "rw_check w i = Inr ()"
  shows "rw_inv (rw_accept w i) (insert i A)"
proof (cases "rw_maximum w")
  case None
  with assms(1) show ?thesis
    by (auto simp: rw_inv_def rw_accept_def bit_1_iff unat_sub_word_of_nat word_unat_eq_iff)
next
  case (Some m)
  show ?thesis
  proof (cases "m < i")
    case True
    then show ?thesis by (rule rw_accept_newer [OF assms(1) Some])
  next
    case False
    with Some assms(2) have "\<not> 64 \<le> m - i" by (auto simp: rw_check_def Let_def split: if_splits)
    then have "unat (m - i) < 64" by (simp add: word_le_nat_alt not_le)
    with False show ?thesis by (intro rw_accept_older [OF assms(1) Some]) simp_all
  qed
qed

section \<open>The contract of a replay filter\<close>

definition lookup_or :: "'w \<Rightarrow> ('k, 'w) hash_map \<Rightarrow> 'k \<Rightarrow> 'w" where
  "lookup_or d t k = (case hm_get t k of None \<Rightarrow> d | Some w \<Rightarrow> w)"

lemma lookup_or_insert [simp]: "lookup_or d (hm_insert k w t) k' = (if k' = k then w else lookup_or d t k')"
  by (simp add: lookup_or_def)

lemma lookup_or_Nil [simp]: "lookup_or d [] k = d"
  by (simp add: lookup_or_def)

locale anti_replay =
  fixes fresh :: "'w \<Rightarrow> 'i \<Rightarrow> bool"
    and accept :: "'w \<Rightarrow> 'i \<Rightarrow> 'w"
    and start :: 'w
    and holds :: "'w \<Rightarrow> 'i set \<Rightarrow> bool"
  assumes holds_start: "holds start {}"
    and fresh_new: "holds w A \<Longrightarrow> fresh w i \<Longrightarrow> i \<notin> A"
    and holds_accept: "holds w A \<Longrightarrow> fresh w i \<Longrightarrow> holds (accept w i) (insert i A)"
begin

text \<open>A table of filters, one per source, and the log of what they have let through.\<close>

definition guards :: "('k, 'w) hash_map \<Rightarrow> ('k \<times> 'i) list \<Rightarrow> bool" where
  "guards t log \<longleftrightarrow> distinct log \<and> (\<forall>k. holds (lookup_or start t k) {i. (k, i) \<in> set log})"

lemma guards_empty: "guards [] []"
  by (simp add: guards_def holds_start)

lemma guards_accept:
  assumes "guards t log" and "fresh (lookup_or start t k) i"
  shows "guards (hm_insert k (accept (lookup_or start t k) i) t) ((k, i) # log)"
proof -
  have h: "holds (lookup_or start t k) {i. (k, i) \<in> set log}" using assms(1) by (simp add: guards_def)
  have "(k, i) \<notin> set log" using fresh_new [OF h assms(2)] by simp
  moreover have "holds (accept (lookup_or start t k) i) (insert i {i. (k, i) \<in> set log})"
    by (rule holds_accept [OF h assms(2)])
  moreover have "{j. (k, j) \<in> set ((k, i) # log)} = insert i {i. (k, i) \<in> set log}" by auto
  ultimately show ?thesis using assms(1) by (simp add: guards_def)
qed

end

interpretation window: anti_replay "\<lambda>w i. rw_check w i = Inr ()" rw_accept rw_default rw_inv
  by unfold_locales (simp_all add: rw_inv_default rw_check_spec(1) rw_accept_inv)

section \<open>Properties\<close>

text \<open>Offering a sequence of indices to one window, as a receiver does: those that pass the check
  are accepted. The result lists them, the latest first.\<close>

fun rw_offer :: "replay_window \<Rightarrow> u64 list \<Rightarrow> u64 list \<Rightarrow> replay_window \<times> u64 list" where
  "rw_offer w accepted [] = (w, accepted)"
| "rw_offer w accepted (i # is) =
     (if rw_check w i = Inr () then rw_offer (rw_accept w i) (i # accepted) is
      else rw_offer w accepted is)"

lemma rw_offer_inv:
  "rw_inv w (set accepted) \<Longrightarrow> distinct accepted \<Longrightarrow> rw_offer w accepted is = (w', accepted') \<Longrightarrow>
     rw_inv w' (set accepted') \<and> distinct accepted'"
proof (induction w accepted "is" rule: rw_offer.induct)
  case (1 w accepted)
  then show ?case by simp
next
  case (2 w accepted i "is")
  show ?case
  proof (cases "rw_check w i = Inr ()")
    case True
    with 2 rw_check_spec(1) [OF "2.prems"(1) True] rw_accept_inv [OF "2.prems"(1) True]
    show ?thesis by simp
  next
    case False
    with 2 show ?thesis by simp
  qed
qed

lemma rw_check_exact:
  assumes "rw_inv w A"
  shows "rw_check w i = (if \<exists>m\<in>A. unat i + 64 \<le> unat m then Inl PacketTooOld
    else if i \<in> A then Inl ReplayDetected else Inr ())"
proof (cases "rw_maximum w")
  case None
  with assms show ?thesis by (simp add: rw_check_def rw_inv_def)
next
  case (Some m)
  with assms have m: "m \<in> A" "\<forall>a\<in>A. a \<le> m" by (simp_all add: rw_inv_def)
  have "rw_check w i = Inl PacketTooOld" if "\<exists>m\<in>A. unat i + 64 \<le> unat m"
  proof -
    from that m have "unat i + 64 \<le> unat m" by (force simp: word_le_nat_alt)
    then have "i \<le> m" "64 \<le> m - i" by (simp_all add: word_le_nat_alt unat_sub)
    with Some show ?thesis by (auto simp: rw_check_def)
  qed
  with rw_check_spec [OF assms, of i] show ?thesis by auto
qed

text \<open>C38. The 64-entry bitmap decides exactly. Offer any sequence of indices, in any order, to a
  fresh window: no index is ever accepted twice, and at every moment the check answers
  \<open>PacketTooOld\<close> if and only if some accepted index is at least 64 ahead, \<open>ReplayDetected\<close> if and
  only if the index was accepted and is still within the window, and lets every other index
  pass.\<close>

theorem replay_window_exact:
  assumes "rw_offer rw_default [] indices = (w, accepted)"
  shows "distinct accepted \<and>
    (\<forall>i. rw_check w i = (if \<exists>m\<in>set accepted. unat i + 64 \<le> unat m then Inl PacketTooOld
       else if i \<in> set accepted then Inl ReplayDetected else Inr ()))"
  using rw_offer_inv [OF _ _ assms] rw_check_exact [of w "set accepted"]
  by (simp add: rw_inv_default)

theorem replay_window_exact_witness:
  "rw_offer rw_default [] [5, 3, 5, 70, 5, 68] = (\<lparr>rw_maximum = Some 70, rw_bitmap = 5\<rparr>, [68, 70, 3, 5]) \<and>
   rw_check \<lparr>rw_maximum = Some 70, rw_bitmap = 5\<rparr> 68 = Inl ReplayDetected"
proof -
  have r: "rw_offer rw_default [] [5, 3, 5, 70, 5, 68] =
      (\<lparr>rw_maximum = Some 70, rw_bitmap = 5\<rparr>, [68, 70, 3, 5])"
    by (simp add: rw_default_def rw_check_def rw_accept_def)
  show ?thesis using replay_window_exact [OF r] r by simp
qed

end
