(* ===== verification/Srtp.thy ===== *)
theory Srtp
  imports Srtp_Replay
begin

text \<open>
  The SRTP/SRTCP context, \<open>crates/webrtc/srtp/src/context.rs\<close> and \<open>keys.rs\<close>: key derivation,
  protection and unprotection of both protocols, and the outbound index state. The AES-128 counter
  mode keystream and HMAC-SHA1 come from crates outside the repository; they are the two fields of
  a record that every operation takes. An operation that changes the context returns the new one
  beside its result, and the in-place operations return the buffer too.
\<close>

section \<open>Definitions\<close>

text \<open>The digest is an array of 20 bytes, \<open>[u8; 20]\<close>: a word of 160 bits whose big-endian bytes
  are the elements of the array.\<close>

record crypto =
  cr_keystream :: "bytes \<Rightarrow> bytes \<Rightarrow> nat \<Rightarrow> u8"
  cr_hmac :: "bytes \<Rightarrow> bytes \<Rightarrow> 160 word"

datatype protection_profile = Aes128CmSha1_80 | Aes128CmSha1_32

fun rtp_tag_len :: "protection_profile \<Rightarrow> nat" where
  "rtp_tag_len Aes128CmSha1_80 = 10"
| "rtp_tag_len Aes128CmSha1_32 = 4"

fun rtcp_tag_len :: "protection_profile \<Rightarrow> nat" where
  "rtcp_tag_len Aes128CmSha1_80 = 10"
| "rtcp_tag_len Aes128CmSha1_32 = 10"

record keying_material =
  km_master_key :: bytes
  km_master_salt :: bytes

definition km_new :: "bytes \<Rightarrow> bytes \<Rightarrow> (srtp_error, keying_material) result" where
  "km_new master_key master_salt =
     (if length master_key \<noteq> 16 then Inl (InvalidMasterKeyLength (length master_key))
      else if length master_salt \<noteq> 14 then Inl (InvalidMasterSaltLength (length master_salt))
      else Inr \<lparr>km_master_key = master_key, km_master_salt = master_salt\<rparr>)"

record session_keys =
  sk_encryption :: bytes
  sk_authentication :: bytes
  sk_salt :: bytes

text \<open>\<open>apply_keystream\<close> of the counter-mode cipher started at an initialisation vector.\<close>

definition apply_keystream :: "crypto \<Rightarrow> bytes \<Rightarrow> bytes \<Rightarrow> bytes \<Rightarrow> bytes" where
  "apply_keystream cr key iv buffer =
     map2 (\<lambda>b i. b XOR cr_keystream cr key iv i) buffer [0..<length buffer]"

definition derive_key :: "crypto \<Rightarrow> keying_material \<Rightarrow> nat \<Rightarrow> u8 \<Rightarrow> bytes" where
  "derive_key cr material len label =
     (let iv0 = km_master_salt material @ [0, 0]; iv = iv0[7 := iv0 ! 7 XOR label] in
      apply_keystream cr (km_master_key material) iv (replicate len 0))"

definition derive :: "crypto \<Rightarrow> keying_material \<Rightarrow> u8 \<Rightarrow> u8 \<Rightarrow> u8 \<Rightarrow> session_keys" where
  "derive cr material encryption_label authentication_label salt_label =
     \<lparr>sk_encryption = derive_key cr material 16 encryption_label,
      sk_authentication = derive_key cr material 20 authentication_label,
      sk_salt = derive_key cr material 14 salt_label\<rparr>"

definition derive_srtp :: "crypto \<Rightarrow> keying_material \<Rightarrow> session_keys" where
  "derive_srtp cr material = derive cr material 0 1 2"

definition derive_srtcp :: "crypto \<Rightarrow> keying_material \<Rightarrow> session_keys" where
  "derive_srtcp cr material = derive cr material 3 4 5"

definition MAX_SRTP_INDEX :: u64 where
  "MAX_SRTP_INDEX = push_bit 48 1 - 1"

definition MAX_SRTCP_INDEX :: u32 where
  "MAX_SRTCP_INDEX = 0x7fffffff"

record outbound_rtp_state =
  or_highest_index :: "u64 option"

definition or_default :: outbound_rtp_state where
  "or_default = \<lparr>or_highest_index = None\<rparr>"

definition advance :: "outbound_rtp_state \<Rightarrow> u16 \<Rightarrow> (srtp_error, u64) result \<times> outbound_rtp_state" where
  "advance s sequence_number =
     (let index = estimate_index (or_highest_index s) sequence_number in
      if (case or_highest_index s of None \<Rightarrow> False | Some highest \<Rightarrow> index \<le> highest)
      then (Inl NonMonotonicSequence, s)
      else if index > MAX_SRTP_INDEX then (Inl PacketIndexExhausted, s)
      else (Inr index, s\<lparr>or_highest_index := Some index\<rparr>))"

record srtp_context =
  sx_profile :: protection_profile
  sx_outbound_rtp_keys :: session_keys
  sx_inbound_rtp_keys :: session_keys
  sx_outbound_rtcp_keys :: session_keys
  sx_inbound_rtcp_keys :: session_keys
  sx_outbound_rtp :: "(u32, outbound_rtp_state) hash_map"
  sx_inbound_rtp :: "(u32, replay_window) hash_map"
  sx_outbound_rtcp_index :: u32
  sx_inbound_rtcp :: "(u32, replay_window) hash_map"

definition sx_new :: "crypto \<Rightarrow> protection_profile \<Rightarrow> keying_material \<Rightarrow> keying_material \<Rightarrow> srtp_context" where
  "sx_new cr prof outbound inbound =
     \<lparr>sx_profile = prof,
      sx_outbound_rtp_keys = derive_srtp cr outbound, sx_inbound_rtp_keys = derive_srtp cr inbound,
      sx_outbound_rtcp_keys = derive_srtcp cr outbound, sx_inbound_rtcp_keys = derive_srtcp cr inbound,
      sx_outbound_rtp = [], sx_inbound_rtp = [], sx_outbound_rtcp_index = 0, sx_inbound_rtcp = []\<rparr>"

definition xor_slice :: "nat \<Rightarrow> bytes \<Rightarrow> bytes \<Rightarrow> bytes" where
  "xor_slice start v iv =
     take start iv @ map2 (XOR) (take (length v) (drop start iv)) v @ drop (start + length v) iv"

definition make_iv :: "bytes \<Rightarrow> u32 \<Rightarrow> u64 \<Rightarrow> bytes" where
  "make_iv salt ssrc index =
     xor_slice 8 (drop 2 (to_be index)) (xor_slice 4 (to_be ssrc) (salt @ [0, 0]))"

definition crypt :: "crypto \<Rightarrow> bytes \<Rightarrow> session_keys \<Rightarrow> u32 \<Rightarrow> u64 \<Rightarrow> bytes" where
  "crypt cr pl keys ssrc index =
     apply_keystream cr (sk_encryption keys) (make_iv (sk_salt keys) ssrc index) pl"

definition authenticate_rtp :: "crypto \<Rightarrow> session_keys \<Rightarrow> bytes \<Rightarrow> u32 \<Rightarrow> bytes" where
  "authenticate_rtp cr keys packet rollover_counter =
     to_be (cr_hmac cr (sk_authentication keys) (packet @ to_be rollover_counter))"

definition authenticate :: "crypto \<Rightarrow> session_keys \<Rightarrow> bytes \<Rightarrow> bytes" where
  "authenticate cr keys packet = to_be (cr_hmac cr (sk_authentication keys) packet)"

definition verify_tag :: "bytes \<Rightarrow> bytes \<Rightarrow> (srtp_error, unit) result" where
  "verify_tag expected received =
     (if length expected = length received \<and> expected = received then Inr ()
      else Inl AuthenticationFailed)"

definition srtp_read_u16 :: "bytes \<Rightarrow> nat \<Rightarrow> (srtp_error, u16) result" where
  "srtp_read_u16 input position = read_be AuthenticationFailed input position"

definition srtp_read_u32 :: "bytes \<Rightarrow> nat \<Rightarrow> (srtp_error, u32) result" where
  "srtp_read_u32 input position = read_be AuthenticationFailed input position"

text \<open>\<open>u32::try_from(index >> 16)\<close>.\<close>

definition rollover :: "u64 \<Rightarrow> (srtp_error, u32) result" where
  "rollover index =
     (if unat (drop_bit 16 index) \<le> 4294967295 then Inr (ucast (drop_bit 16 index))
      else Inl PacketIndexExhausted)"

definition protect_rtp :: "crypto \<Rightarrow> srtp_context \<Rightarrow> bytes \<Rightarrow>
    (srtp_error, unit) result \<times> srtp_context \<times> bytes" where
  "protect_rtp cr ctx packet =
     (case parse packet of
        Inl e \<Rightarrow> (Inl (RtpErr e), ctx, packet)
      | Inr parsed \<Rightarrow>
          let header_len = p_header_len parsed;
              sequence_number = h_sequence_number (p_header parsed);
              ssrc = h_ssrc (p_header parsed);
              (advanced, state) = advance (lookup_or or_default (sx_outbound_rtp ctx) ssrc) sequence_number;
              ctx' = ctx\<lparr>sx_outbound_rtp := hm_insert ssrc state (sx_outbound_rtp ctx)\<rparr> in
          (case advanced of
             Inl e \<Rightarrow> (Inl e, ctx', packet)
           | Inr index \<Rightarrow>
               if header_len > length packet then (Inl AuthenticationFailed, ctx', packet)
               else let packet' = take header_len packet @
                      crypt cr (drop header_len packet) (sx_outbound_rtp_keys ctx) ssrc index in
                 (case rollover index of
                    Inl e \<Rightarrow> (Inl e, ctx', packet')
                  | Inr roc \<Rightarrow>
                      let tag = authenticate_rtp cr (sx_outbound_rtp_keys ctx) packet' roc in
                      (Inr (), ctx', packet' @ take (rtp_tag_len (sx_profile ctx)) tag))))"

text \<open>The part of \<open>unprotect_rtp\<close> before the window is updated: source, index and plaintext.\<close>

definition open_rtp :: "crypto \<Rightarrow> srtp_context \<Rightarrow> bytes \<Rightarrow> (srtp_error, u32 \<times> u64 \<times> bytes) result" where
  "open_rtp cr ctx packet =
     (let tag_len = rtp_tag_len (sx_profile ctx) in
      if length packet < tag_len then Inl AuthenticationFailed
      else let encrypted_len = length packet - tag_len;
               encrypted = take encrypted_len packet;
               received_tag = drop encrypted_len packet in
        bind_r (map_err RtpErr (parse_header_length encrypted)) (\<lambda>header_len.
        bind_r (srtp_read_u16 encrypted 2) (\<lambda>sequence_number.
        bind_r (srtp_read_u32 encrypted 8) (\<lambda>ssrc.
        let replay = lookup_or rw_default (sx_inbound_rtp ctx) ssrc;
            index = estimate_index (rw_maximum replay) sequence_number in
        bind_r (rw_check replay index) (\<lambda>_.
        bind_r (rollover index) (\<lambda>roc.
        let expected = authenticate_rtp cr (sx_inbound_rtp_keys ctx) encrypted roc in
        bind_r (verify_tag (take tag_len expected) received_tag) (\<lambda>_.
        if header_len > length encrypted then Inl AuthenticationFailed
        else let plaintext = take header_len encrypted @
               crypt cr (drop header_len encrypted) (sx_inbound_rtp_keys ctx) ssrc index in
          bind_r (map_err RtpErr (parse plaintext)) (\<lambda>_. Inr (ssrc, index, plaintext)))))))))"

definition unprotect_rtp :: "crypto \<Rightarrow> srtp_context \<Rightarrow> bytes \<Rightarrow>
    (srtp_error, bytes) result \<times> srtp_context" where
  "unprotect_rtp cr ctx packet =
     (case open_rtp cr ctx packet of
        Inl e \<Rightarrow> (Inl e, ctx)
      | Inr (ssrc, index, plaintext) \<Rightarrow>
          (Inr plaintext, ctx\<lparr>sx_inbound_rtp := hm_insert ssrc
             (rw_accept (lookup_or rw_default (sx_inbound_rtp ctx) ssrc) index) (sx_inbound_rtp ctx)\<rparr>))"

definition protect_rtcp :: "crypto \<Rightarrow> srtp_context \<Rightarrow> bytes \<Rightarrow>
    (srtp_error, unit) result \<times> srtp_context \<times> bytes" where
  "protect_rtcp cr ctx packet =
     (case parse_compound packet of
        Inl e \<Rightarrow> (Inl (RtcpErr e), ctx, packet)
      | Inr _ \<Rightarrow>
          if length packet < 8 then (Inl (SrtcpPacketTooShort (length packet)), ctx, packet)
          else if sx_outbound_rtcp_index ctx > MAX_SRTCP_INDEX
            then (Inl PacketIndexExhausted, ctx, packet)
          else let index = sx_outbound_rtcp_index ctx in
            (case checked_add index 1 of
               None \<Rightarrow> (Inl PacketIndexExhausted, ctx, packet)
             | Some next \<Rightarrow>
                 let ctx' = ctx\<lparr>sx_outbound_rtcp_index := next\<rparr> in
                 (case srtp_read_u32 packet 4 of
                    Inl e \<Rightarrow> (Inl e, ctx', packet)
                  | Inr ssrc \<Rightarrow>
                      let packet' = take 8 packet @
                            crypt cr (drop 8 packet) (sx_outbound_rtcp_keys ctx) ssrc (ucast index) @
                            to_be (index OR 0x80000000);
                          tag = authenticate cr (sx_outbound_rtcp_keys ctx) packet' in
                      (Inr (), ctx', packet' @ take (rtcp_tag_len (sx_profile ctx)) tag))))"

definition open_rtcp :: "crypto \<Rightarrow> srtp_context \<Rightarrow> bytes \<Rightarrow> (srtp_error, u32 \<times> u64 \<times> bytes) result" where
  "open_rtcp cr ctx packet =
     (let tag_len = rtcp_tag_len (sx_profile ctx) in
      if length packet < tag_len then Inl (SrtcpPacketTooShort (length packet))
      else let authenticated_len = length packet - tag_len in
        if authenticated_len < 12 then Inl (SrtcpPacketTooShort (length packet))
        else let authenticated = take authenticated_len packet;
                 received_tag = drop authenticated_len packet;
                 index_offset = authenticated_len - 4 in
          bind_r (srtp_read_u32 authenticated index_offset) (\<lambda>index_word.
          let encrypted = (index_word AND 0x80000000 \<noteq> 0);
              index = index_word AND MAX_SRTCP_INDEX in
          bind_r (srtp_read_u32 authenticated 4) (\<lambda>ssrc.
          bind_r (rw_check (lookup_or rw_default (sx_inbound_rtcp ctx) ssrc) (ucast index)) (\<lambda>_.
          let expected = authenticate cr (sx_inbound_rtcp_keys ctx) authenticated in
          bind_r (verify_tag (take tag_len expected) received_tag) (\<lambda>_.
          let sealed = take index_offset authenticated;
              plaintext = (if encrypted
                then take 8 sealed @ crypt cr (drop 8 sealed) (sx_inbound_rtcp_keys ctx) ssrc (ucast index)
                else sealed) in
          bind_r (map_err RtcpErr (parse_compound plaintext)) (\<lambda>_.
            Inr (ssrc, ucast index, plaintext)))))))"

definition unprotect_rtcp :: "crypto \<Rightarrow> srtp_context \<Rightarrow> bytes \<Rightarrow>
    (srtp_error, bytes) result \<times> srtp_context" where
  "unprotect_rtcp cr ctx packet =
     (case open_rtcp cr ctx packet of
        Inl e \<Rightarrow> (Inl e, ctx)
      | Inr (ssrc, index, plaintext) \<Rightarrow>
          (Inr plaintext, ctx\<lparr>sx_inbound_rtcp := hm_insert ssrc
             (rw_accept (lookup_or rw_default (sx_inbound_rtcp ctx) ssrc) index) (sx_inbound_rtcp ctx)\<rparr>))"

section \<open>Keystream application\<close>

lemma length_apply_keystream [simp]: "length (apply_keystream cr key iv b) = length b"
  by (simp add: apply_keystream_def)

lemma nth_apply_keystream:
  "i < length b \<Longrightarrow> apply_keystream cr key iv b ! i = b ! i XOR cr_keystream cr key iv i"
  by (simp add: apply_keystream_def)

lemma apply_keystream_twice [simp]: "apply_keystream cr key iv (apply_keystream cr key iv b) = b"
  by (rule nth_equalityI) (simp_all add: nth_apply_keystream xor.assoc)

lemma length_crypt [simp]: "length (crypt cr pl keys ssrc index) = length pl"
  by (simp add: crypt_def)

lemma crypt_twice [simp]: "crypt cr (crypt cr pl keys ssrc index) keys ssrc index = pl"
  by (simp add: crypt_def)

section \<open>Initialisation vectors\<close>




section \<open>Indices\<close>

lemma rollover_Inr: "unat index < 2 ^ 48 \<Longrightarrow> \<exists>roc. rollover index = Inr roc"
proof -
  assume "unat index < 2 ^ 48"
  then have "unat (drop_bit 16 index) < 4294967296"
    by (simp add: drop_bit_eq_div unat_div less_mult_imp_div_less)
  then show ?thesis by (simp add: rollover_def)
qed

lemma rollover_bound: "rollover index = Inr roc \<Longrightarrow> unat index < 2 ^ 48"
proof -
  assume "rollover index = Inr roc"
  then have "unat index div 65536 \<le> 4294967295"
    by (simp add: rollover_def drop_bit_eq_div unat_div split: if_splits)
  then show ?thesis using div_less_iff_less_mult [of 65536 "unat index" 4294967296] by simp
qed

lemma advance_Inr:
  assumes "advance s n = (Inr index, s')"
  shows "index = estimate_index (or_highest_index s) n" and "or_highest_index s' = Some index"
    and "unat index < 2 ^ 48" and "\<And>h. or_highest_index s = Some h \<Longrightarrow> h < index"
  using assms by (auto simp: advance_def Let_def MAX_SRTP_INDEX_def word_le_nat_alt not_less
      word_less_nat_alt split: if_splits option.splits)

lemma advance_Inl: "advance s n = (Inl e, s') \<Longrightarrow> s' = s"
  by (auto simp: advance_def Let_def split: if_splits)

section \<open>Protecting RTP\<close>

lemma protect_rtp_cases:
  assumes "protect_rtp cr ctx p = (r, ctx', c)"
  obtains (failed) e where "r = Inl e" "\<And>k. lookup_or or_default (sx_outbound_rtp ctx') k =
        lookup_or or_default (sx_outbound_rtp ctx) k"
      "\<exists>t. ctx' = ctx\<lparr>sx_outbound_rtp := t\<rparr>"
  | (sent) q s' index roc t where "r = Inr ()" "parse p = Inr q"
      "advance (lookup_or or_default (sx_outbound_rtp ctx) (h_ssrc (p_header q)))
         (h_sequence_number (p_header q)) = (Inr index, s')"
      "ctx' = ctx\<lparr>sx_outbound_rtp := hm_insert (h_ssrc (p_header q)) s' (sx_outbound_rtp ctx)\<rparr>"
      "rollover index = Inr roc"
      "t = take (p_header_len q) p @
         crypt cr (drop (p_header_len q) p) (sx_outbound_rtp_keys ctx) (h_ssrc (p_header q)) index"
      "c = t @ take (rtp_tag_len (sx_profile ctx)) (authenticate_rtp cr (sx_outbound_rtp_keys ctx) t roc)"
proof (cases "parse p")
  case (Inl e)
  show thesis by (rule failed) (use Inl assms in \<open>auto simp: protect_rtp_def intro: exI [of _ "sx_outbound_rtp ctx"]\<close>)
next
  case (Inr q)
  let ?s = "lookup_or or_default (sx_outbound_rtp ctx) (h_ssrc (p_header q))"
  obtain a s' where a: "advance ?s (h_sequence_number (p_header q)) = (a, s')" by fastforce
  show thesis
  proof (cases a)
    case (Inl e)
    with a have "s' = ?s" by (auto dest: advance_Inl)
    then show thesis
      using assms Inr a Inl by (intro failed [of e]) (auto simp: protect_rtp_def Let_def)
  next
    case (Inr index)
    with a have i: "advance ?s (h_sequence_number (p_header q)) = (Inr index, s')" by simp
    from rollover_Inr [OF advance_Inr(3) [OF i]] obtain roc where roc: "rollover index = Inr roc" by blast
    have "p_header_len q \<le> length p" using parse_parts(2) [OF \<open>parse p = Inr q\<close>] by simp
    then show thesis
      using assms \<open>parse p = Inr q\<close> i roc
      by (intro sent [OF _ \<open>parse p = Inr q\<close> i _ roc]) (auto simp: protect_rtp_def Let_def)
  qed
qed

text \<open>The receiver opens what the sender sealed, if it estimates the same, fresh index.\<close>

lemma open_protected:
  fixes R :: srtp_context and cr :: crypto
  assumes parsed: "parse p = Inr q" and roc: "rollover index = Inr roc"
  defines "ssrc \<equiv> h_ssrc (p_header q)" and "hl \<equiv> p_header_len q"
  defines "t \<equiv> take hl p @ crypt cr (drop hl p) (sx_inbound_rtp_keys R) ssrc index"
  assumes est: "estimate_index (rw_maximum (lookup_or rw_default (sx_inbound_rtp R) ssrc))
      (h_sequence_number (p_header q)) = index"
    and fresh: "rw_check (lookup_or rw_default (sx_inbound_rtp R) ssrc) index = Inr ()"
  shows "open_rtp cr R (t @ take (rtp_tag_len (sx_profile R))
      (authenticate_rtp cr (sx_inbound_rtp_keys R) t roc)) = Inr (ssrc, index, p)"
proof -
  let ?n = "rtp_tag_len (sx_profile R)"
  let ?tag = "authenticate_rtp cr (sx_inbound_rtp_keys R) t roc"
  have n: "length (take ?n ?tag) = ?n"
    by (cases "sx_profile R") (simp_all add: authenticate_rtp_def)
  have hl: "12 \<le> hl" "hl \<le> length p"
    using parse_parts(1,2) [OF parsed] by (simp_all add: hl_def)
  have "parse_header_length p = Inr hl"
    unfolding hl_def by (rule parse_header_length_agrees [OF parsed])
  then have h: "parse_header_length t = Inr hl"
    unfolding t_def by (rule parse_header_length_prefix(3))
  have "read_u16 p 2 = Inr (h_sequence_number (p_header q))" "read_u32 p 8 = Inr ssrc"
    using parsed unfolding parse_eq ssrc_def by simp_all
  then have r: "srtp_read_u16 p 2 = Inr (h_sequence_number (p_header q))" "srtp_read_u32 p 8 = Inr ssrc"
    by (simp_all add: read_u16_def read_u32_def srtp_read_u16_def srtp_read_u32_def read_be_Inr)
  have r': "srtp_read_u16 t 2 = Inr (h_sequence_number (p_header q))" "srtp_read_u32 t 8 = Inr ssrc"
    using r hl unfolding t_def srtp_read_u16_def srtp_read_u32_def by (simp_all add: read_be_take)
  have split: "take (length (t @ take ?n ?tag) - ?n) (t @ take ?n ?tag) = t"
    "drop (length (t @ take ?n ?tag) - ?n) (t @ take ?n ?tag) = take ?n ?tag"
    "\<not> length (t @ take ?n ?tag) < ?n"
    using n by simp_all
  have plain: "take hl t @ crypt cr (drop hl t) (sx_inbound_rtp_keys R) ssrc index = p"
    "\<not> hl < length t \<longrightarrow> hl = length t" "\<not> length t < hl"
    unfolding t_def using hl by simp_all
  show ?thesis
    unfolding open_rtp_def Let_def split h r' map_err_simps bind_r.simps est fresh roc if_False
      verify_tag_def
    using n by (simp add: plain parsed)
qed

section \<open>In-order delivery\<close>

text \<open>A sender and a receiver in step: same keys, and the receiver has seen up to the sender's
  highest index of every source.\<close>

definition in_step :: "srtp_context \<Rightarrow> srtp_context \<Rightarrow> bool" where
  "in_step S R \<longleftrightarrow> sx_profile S = sx_profile R \<and> sx_outbound_rtp_keys S = sx_inbound_rtp_keys R \<and>
     (\<forall>k. rw_maximum (lookup_or rw_default (sx_inbound_rtp R) k) =
        or_highest_index (lookup_or or_default (sx_outbound_rtp S) k))"

lemma in_step_new: "in_step (sx_new cr prof a b) (sx_new cr prof b' a)"
  by (simp add: in_step_def sx_new_def rw_default_def or_default_def)

lemma rw_accept_maximum:
  "(case rw_maximum w of None \<Rightarrow> True | Some m \<Rightarrow> m < i) \<Longrightarrow> rw_maximum (rw_accept w i) = Some i"
  by (simp add: rw_accept_def Let_def split: option.splits)

lemma rw_check_newer:
  "(case rw_maximum w of None \<Rightarrow> True | Some m \<Rightarrow> m < i) \<Longrightarrow> rw_check w i = Inr ()"
  by (simp add: rw_check_def split: option.splits)

lemma in_step_deliver:
  assumes sync: "in_step S R"
    and p: "protect_rtp cr S p = (r, S', c)"
  shows "case r of
      Inl _ \<Rightarrow> in_step S' R
    | Inr _ \<Rightarrow> \<exists>R'. unprotect_rtp cr R c = (Inr p, R') \<and> in_step S' R'"
  using p
proof (cases rule: protect_rtp_cases)
  case (failed e)
  then obtain t where "S' = S\<lparr>sx_outbound_rtp := t\<rparr>" by blast
  with failed sync show ?thesis by (simp add: in_step_def)
next
  case (sent q s' index roc t)
  let ?k = "h_ssrc (p_header q)"
  let ?w = "lookup_or rw_default (sx_inbound_rtp R) ?k"
  let ?s = "lookup_or or_default (sx_outbound_rtp S) ?k"
  have keys: "sx_profile S = sx_profile R" "sx_outbound_rtp_keys S = sx_inbound_rtp_keys R"
    and high: "rw_maximum ?w = or_highest_index ?s"
    using sync by (simp_all add: in_step_def)
  note adv = advance_Inr [OF sent(3)]
  have newer: "case rw_maximum ?w of None \<Rightarrow> True | Some m \<Rightarrow> m < index"
    unfolding high using adv(4) by (auto split: option.split)
  have "open_rtp cr R c = Inr (?k, index, p)"
    unfolding sent(7) sent(6) keys
    by (rule open_protected [OF sent(2) sent(5)])
      (use adv(1) high rw_check_newer [OF newer] in simp_all)
  then have "unprotect_rtp cr R c = (Inr p, R\<lparr>sx_inbound_rtp :=
      hm_insert ?k (rw_accept ?w index) (sx_inbound_rtp R)\<rparr>)" (is "_ = (_, ?R')")
    by (simp add: unprotect_rtp_def)
  moreover have "in_step S' ?R'"
    unfolding sent(4) using sync rw_accept_maximum [OF newer] adv(2) by (simp add: in_step_def)
  ultimately show ?thesis using sent(1) by simp
qed

section \<open>Protecting RTCP\<close>

lemma index_word:
  assumes "i \<le> MAX_SRTCP_INDEX"
  shows "(i OR 0x80000000) AND 0x80000000 \<noteq> 0" and "(i OR 0x80000000) AND MAX_SRTCP_INDEX = i"
proof -
  have e: "(0x80000000 :: u32) = 2 ^ 31" by simp
  have m: "MAX_SRTCP_INDEX = mask 31" by (simp add: MAX_SRTCP_INDEX_def mask_eq_exp_minus_1)
  have "unat i < 2 ^ 31" using assms by (simp add: MAX_SRTCP_INDEX_def word_le_nat_alt)
  then have i: "n < 31" if "bit i n" for n using bit_word_small [of i 31 n] that by blast
  have b: "bit (2 ^ 31 :: u32) n \<longleftrightarrow> n = 31" for n
    by (simp only: bit_exp_iff) (auto simp: possible_bit_def)
  have "bit (i OR 2 ^ 31) 31" by (simp only: bit_or_iff b simp_thms)
  then show "(i OR 0x80000000) AND 0x80000000 \<noteq> 0"
    unfolding e by (simp only: and_exp_eq_0_iff_not_bit simp_thms)
  show "(i OR 0x80000000) AND MAX_SRTCP_INDEX = i"
    unfolding e m
  proof (rule bit_word_eqI)
    fix n assume "n < LENGTH(32)"
    show "bit ((i OR 2 ^ 31) AND mask 31) n = bit i n"
      unfolding bit_and_iff bit_or_iff b bit_mask_iff using i [of n] \<open>n < LENGTH(32)\<close>
      by (auto simp: possible_bit_def)
  qed
qed

lemma protect_rtcp_cases:
  assumes "protect_rtcp cr ctx p = (r, ctx', c)"
  obtains (failed) e where "r = Inl e" "ctx' = ctx"
  | (sent) ps ssrc t where "r = Inr ()" "parse_compound p = Inr ps" "8 \<le> length p"
      "sx_outbound_rtcp_index ctx \<le> MAX_SRTCP_INDEX" "srtp_read_u32 p 4 = Inr ssrc"
      "ctx' = ctx\<lparr>sx_outbound_rtcp_index := sx_outbound_rtcp_index ctx + 1\<rparr>"
      "t = take 8 p @ crypt cr (drop 8 p) (sx_outbound_rtcp_keys ctx) ssrc
         (ucast (sx_outbound_rtcp_index ctx)) @ to_be (sx_outbound_rtcp_index ctx OR 0x80000000)"
      "c = t @ take (rtcp_tag_len (sx_profile ctx)) (authenticate cr (sx_outbound_rtcp_keys ctx) t)"
proof (cases "parse_compound p")
  case (Inl e)
  show thesis by (rule failed) (use Inl assms in \<open>auto simp: protect_rtcp_def\<close>)
next
  case (Inr ps)
  let ?i = "sx_outbound_rtcp_index ctx"
  consider "length p < 8" | "8 \<le> length p" "MAX_SRTCP_INDEX < ?i" | "8 \<le> length p" "?i \<le> MAX_SRTCP_INDEX"
    by (cases "length p < 8"; cases "MAX_SRTCP_INDEX < ?i") (auto simp: not_less)
  then show thesis
  proof cases
    case 1
    show thesis by (rule failed) (use 1 Inr assms in \<open>auto simp: protect_rtcp_def\<close>)
  next
    case 2
    show thesis by (rule failed) (use 2 Inr assms in \<open>auto simp: protect_rtcp_def\<close>)
  next
    case 3
    then have "srtp_read_u32 p 4 = Inr (from_be (take 4 (drop 4 p)))"
      by (simp add: srtp_read_u32_def read_be_Inr)
    moreover have "checked_add ?i 1 = Some (?i + 1)"
      using 3(2) by (simp add: checked_add_def MAX_SRTCP_INDEX_def word_le_nat_alt)
    moreover have "\<not> MAX_SRTCP_INDEX < ?i" using 3(2) by simp
    ultimately show thesis
      using assms 3 Inr by (intro sent [OF _ Inr 3]) (auto simp: protect_rtcp_def Let_def)
  qed
qed

lemma open_protected_rtcp:
  fixes R :: srtp_context and cr :: crypto
  assumes parsed: "parse_compound p = Inr ps" and len: "8 \<le> length p"
    and ssrc: "srtp_read_u32 p 4 = Inr ssrc" and i: "i \<le> MAX_SRTCP_INDEX"
  defines "t \<equiv> take 8 p @ crypt cr (drop 8 p) (sx_inbound_rtcp_keys R) ssrc (ucast i) @
    to_be (i OR 0x80000000)"
  assumes fresh: "rw_check (lookup_or rw_default (sx_inbound_rtcp R) ssrc) (ucast i) = Inr ()"
  shows "open_rtcp cr R (t @ take (rtcp_tag_len (sx_profile R))
      (authenticate cr (sx_inbound_rtcp_keys R) t)) = Inr (ssrc, ucast i, p)"
proof -
  let ?n = "rtcp_tag_len (sx_profile R)"
  let ?tag = "authenticate cr (sx_inbound_rtcp_keys R) t"
  have n: "length (take ?n ?tag) = ?n"
    by (cases "sx_profile R") (simp_all add: authenticate_def)
  have lt: "length t = length p + 4" unfolding t_def using len by simp
  define b where "b = take 8 p @ crypt cr (drop 8 p) (sx_inbound_rtcp_keys R) ssrc (ucast i)"
  have t: "t = b @ to_be (i OR 0x80000000)" and lb: "length b = length p"
    unfolding t_def b_def using len by simp_all
  have iw: "srtp_read_u32 t (length t - 4) = Inr (i OR 0x80000000)"
    unfolding lt t srtp_read_u32_def using lb by (simp add: wire_reads)
  have s: "srtp_read_u32 t 4 = Inr ssrc"
    using ssrc len unfolding t_def srtp_read_u32_def by (simp add: read_be_take)
  have split: "length (t @ take ?n ?tag) - ?n = length t" "take (length t) (t @ take ?n ?tag) = t"
    "drop (length t) (t @ take ?n ?tag) = take ?n ?tag"
    using n by simp_all
  have "take (length t - 4) t = b" unfolding lt t using lb by simp
  moreover have "take 8 b @ crypt cr (drop 8 b) (sx_inbound_rtcp_keys R) ssrc (ucast i) = p"
    unfolding b_def using len by simp
  ultimately show ?thesis
    unfolding open_rtcp_def Let_def split iw s bind_r.simps index_word(2) [OF i] fresh verify_tag_def
    using n lt len index_word(1) [OF i] by (simp add: parsed)
qed

definition rtcp_in_step :: "srtp_context \<Rightarrow> srtp_context \<Rightarrow> bool" where
  "rtcp_in_step S R \<longleftrightarrow> sx_profile S = sx_profile R \<and> sx_outbound_rtcp_keys S = sx_inbound_rtcp_keys R \<and>
     (\<forall>k m. rw_maximum (lookup_or rw_default (sx_inbound_rtcp R) k) = Some m \<longrightarrow>
        unat m < unat (sx_outbound_rtcp_index S))"

lemma rtcp_in_step_new: "rtcp_in_step (sx_new cr prof a b) (sx_new cr prof b' a)"
  by (simp add: rtcp_in_step_def sx_new_def rw_default_def)

lemma rtcp_in_step_deliver:
  assumes sync: "rtcp_in_step S R"
    and p: "protect_rtcp cr S p = (r, S', c)"
  shows "case r of
      Inl _ \<Rightarrow> rtcp_in_step S' R
    | Inr _ \<Rightarrow> \<exists>R'. unprotect_rtcp cr R c = (Inr p, R') \<and> rtcp_in_step S' R'"
  using p
proof (cases rule: protect_rtcp_cases)
  case (failed e)
  with sync show ?thesis by simp
next
  case (sent ps ssrc t)
  let ?i = "sx_outbound_rtcp_index S"
  let ?w = "lookup_or rw_default (sx_inbound_rtcp R) ssrc"
  have keys: "sx_profile S = sx_profile R" "sx_outbound_rtcp_keys S = sx_inbound_rtcp_keys R"
    using sync by (simp_all add: rtcp_in_step_def)
  have u: "unat (ucast ?i :: u64) = unat ?i" by (rule unat_ucast_up) simp
  have next_i: "unat (?i + 1) = unat ?i + 1"
    using sent(4) by (subst unat_add_no_wrap) (simp_all add: MAX_SRTCP_INDEX_def word_le_nat_alt)
  have newer: "case rw_maximum ?w of None \<Rightarrow> True | Some m \<Rightarrow> m < ucast ?i"
    using sync u by (auto simp: rtcp_in_step_def word_less_nat_alt split: option.split)
  have "open_rtcp cr R c = Inr (ssrc, ucast ?i, p)"
    unfolding sent(8) sent(7) keys
    by (rule open_protected_rtcp [OF sent(2,3,5,4) rw_check_newer [OF newer]])
  then have "unprotect_rtcp cr R c = (Inr p, R\<lparr>sx_inbound_rtcp :=
      hm_insert ssrc (rw_accept ?w (ucast ?i)) (sx_inbound_rtcp R)\<rparr>)" (is "_ = (_, ?R')")
    by (simp add: unprotect_rtcp_def)
  moreover have "rtcp_in_step S' ?R'"
    unfolding sent(6) using sync rw_accept_maximum [OF newer] u next_i
    by (auto simp: rtcp_in_step_def less_SucI)
  ultimately show ?thesis using sent(1) by simp
qed

section \<open>Streams\<close>

text \<open>What a sender emits for a sequence of packets, each packet it could seal with its sealed
  form, and what a receiver makes of a sequence of sealed packets.\<close>

fun seal_stream :: "('s \<Rightarrow> bytes \<Rightarrow> (srtp_error, unit) result \<times> 's \<times> bytes) \<Rightarrow> 's \<Rightarrow> bytes list \<Rightarrow>
    (bytes \<times> bytes) list" where
  "seal_stream seal S [] = []"
| "seal_stream seal S (p # ps) =
     (let (r, S', c) = seal S p in
      (case r of Inl _ \<Rightarrow> [] | Inr _ \<Rightarrow> [(p, c)]) @ seal_stream seal S' ps)"

fun unseal_stream :: "('r \<Rightarrow> bytes \<Rightarrow> (srtp_error, bytes) result \<times> 'r) \<Rightarrow> 'r \<Rightarrow> bytes list \<Rightarrow>
    (srtp_error, bytes) result list" where
  "unseal_stream unseal R [] = []"
| "unseal_stream unseal R (c # cs) = (let (r, R') = unseal R c in r # unseal_stream unseal R' cs)"

text \<open>The contract of a sealed channel: there is a relation between the two ends under which every
  sealed packet is opened to what was sealed, and which every operation keeps.\<close>

locale sealed_channel =
  fixes seal :: "'s \<Rightarrow> bytes \<Rightarrow> (srtp_error, unit) result \<times> 's \<times> bytes"
    and unseal :: "'r \<Rightarrow> bytes \<Rightarrow> (srtp_error, bytes) result \<times> 'r"
    and sync :: "'s \<Rightarrow> 'r \<Rightarrow> bool"
  assumes deliver: "sync S R \<Longrightarrow> seal S p = (r, S', c) \<Longrightarrow>
    (case r of Inl _ \<Rightarrow> sync S' R | Inr _ \<Rightarrow> \<exists>R'. unseal R c = (Inr p, R') \<and> sync S' R')"
begin

lemma stream_delivered:
  "sync S R \<Longrightarrow>
     unseal_stream unseal R (map snd (seal_stream seal S ps)) = map (Inr \<circ> fst) (seal_stream seal S ps)"
proof (induction ps arbitrary: S R)
  case Nil
  then show ?case by simp
next
  case (Cons p ps)
  obtain r S' c where p: "seal S p = (r, S', c)" using prod_cases3 by blast
  show ?case
  proof (cases r)
    case (Inl e)
    with deliver [OF Cons.prems p] Cons.IH p show ?thesis by simp
  next
    case (Inr u)
    with deliver [OF Cons.prems p] obtain R' where "unseal R c = (Inr p, R')" "sync S' R'" by auto
    with Cons.IH p Inr show ?thesis by simp
  qed
qed

end

interpretation rtp_channel: sealed_channel "protect_rtp cr" "unprotect_rtp cr" in_step for cr
  by unfold_locales (rule in_step_deliver)

interpretation rtcp_channel: sealed_channel "protect_rtcp cr" "unprotect_rtcp cr" rtcp_in_step for cr
  by unfold_locales (rule rtcp_in_step_deliver)

section \<open>Initialisation vectors are never reused\<close>















section \<open>The receivers accept no index twice\<close>

fun accepted :: "('r \<Rightarrow> bytes \<Rightarrow> (srtp_error, u32 \<times> u64 \<times> bytes) result) \<Rightarrow>
    ('r \<Rightarrow> bytes \<Rightarrow> (srtp_error, bytes) result \<times> 'r) \<Rightarrow> 'r \<Rightarrow> bytes list \<Rightarrow> (u32 \<times> u64) list" where
  "accepted opn unseal R [] = []"
| "accepted opn unseal R (c # cs) =
     (case opn R c of Inl _ \<Rightarrow> [] | Inr (ssrc, index, _) \<Rightarrow> [(ssrc, index)]) @
     accepted opn unseal (snd (unseal R c)) cs"

lemma open_rtp_checked:
  "open_rtp cr R c = Inr (ssrc, index, p) \<Longrightarrow>
     rw_check (lookup_or rw_default (sx_inbound_rtp R) ssrc) index = Inr ()"
  by (auto simp: open_rtp_def Let_def result_simps split: if_splits)

lemma open_rtcp_checked:
  "open_rtcp cr R c = Inr (ssrc, index, p) \<Longrightarrow>
     rw_check (lookup_or rw_default (sx_inbound_rtcp R) ssrc) index = Inr ()"
  by (auto simp: open_rtcp_def Let_def result_simps split: if_splits)

lemma accepted_rtp_distinct:
  "window.guards (sx_inbound_rtp R) log \<Longrightarrow>
     distinct (rev log @ accepted (open_rtp cr) (unprotect_rtp cr) R cs)"
proof (induction cs arbitrary: R log)
  case Nil
  then show ?case by (simp add: window.guards_def)
next
  case (Cons c cs)
  show ?case
  proof (cases "open_rtp cr R c")
    case (Inl e)
    with Cons show ?thesis by (simp add: unprotect_rtp_def)
  next
    case (Inr x)
    obtain k i p where x: "x = (k, i, p)" using prod_cases3 by blast
    have "window.guards (hm_insert k (rw_accept (lookup_or rw_default (sx_inbound_rtp R) k) i)
        (sx_inbound_rtp R)) ((k, i) # log)"
      by (rule window.guards_accept [OF Cons.prems]) (rule open_rtp_checked [OF Inr [unfolded x]])
    with Cons.IH [of "snd (unprotect_rtp cr R c)" "(k, i) # log"] Inr x show ?thesis
      by (simp add: unprotect_rtp_def)
  qed
qed

lemma accepted_rtcp_distinct:
  "window.guards (sx_inbound_rtcp R) log \<Longrightarrow>
     distinct (rev log @ accepted (open_rtcp cr) (unprotect_rtcp cr) R cs)"
proof (induction cs arbitrary: R log)
  case Nil
  then show ?case by (simp add: window.guards_def)
next
  case (Cons c cs)
  show ?case
  proof (cases "open_rtcp cr R c")
    case (Inl e)
    with Cons show ?thesis by (simp add: unprotect_rtcp_def)
  next
    case (Inr x)
    obtain k i p where x: "x = (k, i, p)" using prod_cases3 by blast
    have "window.guards (hm_insert k (rw_accept (lookup_or rw_default (sx_inbound_rtcp R) k) i)
        (sx_inbound_rtcp R)) ((k, i) # log)"
      by (rule window.guards_accept [OF Cons.prems]) (rule open_rtcp_checked [OF Inr [unfolded x]])
    with Cons.IH [of "snd (unprotect_rtcp cr R c)" "(k, i) # log"] Inr x show ?thesis
      by (simp add: unprotect_rtcp_def)
  qed
qed

section \<open>Properties\<close>

text \<open>Delivery. Two contexts are set up from the same exported keying material, one direction
  of one being the other direction of the other. Whatever packets the sender is asked to protect,
  those it does protect are recovered byte for byte by the receiver when they arrive in order, for
  RTP and for RTCP, for every profile, over any number of sources and rollovers. Nothing is assumed
  of the cipher and the MAC beyond being functions of the key, the vector and the message.\<close>

lemma srtp_delivers:
  "unseal_stream (unprotect_rtp cr) (sx_new cr prof b' a)
     (map snd (seal_stream (protect_rtp cr) (sx_new cr prof a b) packets)) =
     map (Inr \<circ> fst) (seal_stream (protect_rtp cr) (sx_new cr prof a b) packets) \<and>
   unseal_stream (unprotect_rtcp cr) (sx_new cr prof b' a)
     (map snd (seal_stream (protect_rtcp cr) (sx_new cr prof a b) packets)) =
     map (Inr \<circ> fst) (seal_stream (protect_rtcp cr) (sx_new cr prof a b) packets)"
  using rtp_channel.stream_delivered [OF in_step_new] rtcp_channel.stream_delivered [OF rtcp_in_step_new]
  by blast


text \<open>C37. No replay. Over the whole life of a receiving context, and whatever datagrams arrive,
  replayed, reordered or forged, no packet index of a source is accepted twice.\<close>

theorem srtp_no_replay:
  "distinct (accepted (open_rtp cr) (unprotect_rtp cr) (sx_new cr prof a b) datagrams) \<and>
   distinct (accepted (open_rtcp cr) (unprotect_rtcp cr) (sx_new cr prof a b) datagrams)"
proof -
  have "window.guards (sx_inbound_rtp (sx_new cr prof a b)) []"
    "window.guards (sx_inbound_rtcp (sx_new cr prof a b)) []"
    by (simp_all add: sx_new_def window.guards_empty)
  from accepted_rtp_distinct [OF this(1)] accepted_rtcp_distinct [OF this(2)] show ?thesis by simp
qed

end
