(* ===== verification/Media_Codec.thy ===== *)
theory Media_Codec
  imports Fluvora_Prelude
begin

text \<open>
  Inspection of encoded payloads for routing, \<open>crates/webrtc/media-codec/src/lib.rs\<close>: frame
  boundaries, keyframes and layer identifiers of VP8, VP9, H.264 and AV1 payload descriptors. A
  cursor the source advances is an argument and a result here.
\<close>

section \<open>Definitions\<close>

datatype codec = Opus | Vp8 | Vp9 | H264 | Av1 | UnknownCodec

record payload_info =
  pi_start_of_frame :: bool
  pi_end_of_frame :: bool
  pi_keyframe :: bool
  pi_temporal_id :: "u8 option"
  pi_spatial_id :: "u8 option"

datatype payload_error =
    EmptyPayload
  | TruncatedDescriptor
  | UnsupportedH264NalType u8
  | InvalidAggregationUnit

definition read_byte :: "bytes \<Rightarrow> nat \<Rightarrow> (payload_error, u8) result" where
  "read_byte pl position = ok_or TruncatedDescriptor (get_at pl position)"

definition mc_read_u16 :: "bytes \<Rightarrow> nat \<Rightarrow> (payload_error, u16) result" where
  "mc_read_u16 pl position = read_be TruncatedDescriptor pl position"

definition require_position :: "bytes \<Rightarrow> nat \<Rightarrow> (payload_error, unit) result" where
  "require_position pl position = (if position < length pl then Inr () else Inl TruncatedDescriptor)"

definition first_byte_of :: "bytes \<Rightarrow> (payload_error, u8) result" where
  "first_byte_of pl = (case pl of [] \<Rightarrow> Inl EmptyPayload | b # _ \<Rightarrow> Inr b)"

text \<open>The picture identifier VP8 and VP9 share: one or two bytes.\<close>

definition skip_picture_id :: "bytes \<Rightarrow> nat \<Rightarrow> (payload_error, nat) result" where
  "skip_picture_id pl position =
     bind_r (read_byte pl position) (\<lambda>picture_id.
     let position' = position + (if picture_id AND 0x80 \<noteq> 0 then 2 else 1) in
     bind_r (require_position pl position') (\<lambda>_. Inr position'))"

definition vp8_extension :: "bytes \<Rightarrow> nat \<Rightarrow> (payload_error, nat \<times> u8 option) result" where
  "vp8_extension pl position0 =
     bind_r (read_byte pl position0) (\<lambda>extension.
     bind_r (if extension AND 0x80 \<noteq> 0 then skip_picture_id pl (position0 + 1)
             else Inr (position0 + 1)) (\<lambda>position1.
     bind_r (if extension AND 0x40 \<noteq> 0
             then bind_r (require_position pl (position1 + 1)) (\<lambda>_. Inr (position1 + 1))
             else Inr position1) (\<lambda>position2.
     if extension AND 0x30 \<noteq> 0 then
       bind_r (read_byte pl position2) (\<lambda>layer.
         Inr (position2 + 1, if extension AND 0x20 \<noteq> 0 then Some (drop_bit 6 layer) else None))
     else Inr (position2, None))))"

definition inspect_vp8 :: "bytes \<Rightarrow> bool \<Rightarrow> (payload_error, payload_info) result" where
  "inspect_vp8 pl marker =
     bind_r (first_byte_of pl) (\<lambda>descriptor.
     let extended = (descriptor AND 0x80 \<noteq> 0);
         start = (descriptor AND 0x10 \<noteq> 0);
         partition_id = descriptor AND 0x0f in
     bind_r (if extended then vp8_extension pl 1 else Inr (1, None)) (\<lambda>(position, temporal_id).
     let first_partition_payload = (start \<and> partition_id = 0) in
     bind_r (if first_partition_payload
             then bind_r (read_byte pl position) (\<lambda>b. Inr (b AND 0x01 = 0))
             else Inr False) (\<lambda>keyframe.
       Inr \<lparr>pi_start_of_frame = first_partition_payload, pi_end_of_frame = marker,
            pi_keyframe = keyframe, pi_temporal_id = temporal_id, pi_spatial_id = None\<rparr>)))"

text \<open>The reference indices of a flexible VP9 inter picture.\<close>

function vp9_references :: "bytes \<Rightarrow> nat \<Rightarrow> (payload_error, nat) result" where
  "vp9_references pl position =
     bind_r (read_byte pl position) (\<lambda>reference.
     if reference AND 0x01 = 0 then Inr (position + 1) else vp9_references pl (position + 1))"
  by pat_completeness auto
termination
  by (relation "measure (\<lambda>(pl, position). length pl - position)")
    (auto simp: read_byte_def result_simps)

declare vp9_references.simps [simp del]

primrec vp9_groups :: "nat \<Rightarrow> bytes \<Rightarrow> nat \<Rightarrow> (payload_error, nat) result" where
  "vp9_groups 0 pl position = Inr position"
| "vp9_groups (Suc n) pl position =
     bind_r (read_byte pl position) (\<lambda>group.
     let position' = position + (1 + unat (group AND 0x03)) in
     bind_r (require_position pl position') (\<lambda>_. vp9_groups n pl position'))"

definition parse_vp9_scalability_structure :: "bytes \<Rightarrow> nat \<Rightarrow> (payload_error, nat) result" where
  "parse_vp9_scalability_structure pl position0 =
     bind_r (read_byte pl position0) (\<lambda>header.
     let spatial_layers = unat (drop_bit 5 header + 1) in
     bind_r (if header AND 0x10 \<noteq> 0
             then let position = position0 + 1 + spatial_layers * 4 in
               bind_r (require_position pl position) (\<lambda>_. Inr position)
             else Inr (position0 + 1)) (\<lambda>position1.
     if header AND 0x08 \<noteq> 0 then
       bind_r (read_byte pl position1) (\<lambda>groups. vp9_groups (unat groups) pl (position1 + 1))
     else Inr position1))"

definition vp9_layers ::
    "bytes \<Rightarrow> bool \<Rightarrow> nat \<Rightarrow> (payload_error, nat \<times> u8 option \<times> u8 option) result" where
  "vp9_layers pl flexible position =
     bind_r (read_byte pl position) (\<lambda>layer.
     bind_r (if \<not> flexible
             then bind_r (require_position pl (position + 1 + 1)) (\<lambda>_. Inr (position + 1 + 1))
             else Inr (position + 1)) (\<lambda>position'.
       Inr (position', Some (drop_bit 5 layer), Some (drop_bit 1 layer AND 0x07))))"

definition inspect_vp9 :: "bytes \<Rightarrow> bool \<Rightarrow> (payload_error, payload_info) result" where
  "inspect_vp9 pl marker =
     bind_r (first_byte_of pl) (\<lambda>descriptor.
     let inter_picture = (descriptor AND 0x40 \<noteq> 0);
         flexible = (descriptor AND 0x10 \<noteq> 0);
         begins_frame = (descriptor AND 0x08 \<noteq> 0);
         ends_frame = (descriptor AND 0x04 \<noteq> 0) in
     bind_r (if descriptor AND 0x80 \<noteq> 0 then skip_picture_id pl 1 else Inr 1) (\<lambda>position1.
     bind_r (if descriptor AND 0x20 \<noteq> 0 then vp9_layers pl flexible position1
             else Inr (position1, None, None)) (\<lambda>(position2, temporal_id, spatial_id).
     bind_r (if flexible \<and> inter_picture then vp9_references pl position2 else Inr position2)
       (\<lambda>position3.
     bind_r (if descriptor AND 0x02 \<noteq> 0 then parse_vp9_scalability_structure pl position3
             else Inr position3) (\<lambda>position4.
     bind_r (require_position pl position4) (\<lambda>_.
       Inr \<lparr>pi_start_of_frame = begins_frame, pi_end_of_frame = (ends_frame \<or> marker),
            pi_keyframe = (begins_frame \<and> \<not> inter_picture),
            pi_temporal_id = temporal_id, pi_spatial_id = spatial_id\<rparr>))))))"

text \<open>The loop over the aggregation units: whether one of them is an IDR slice, and their number.\<close>

function stap_a_units :: "bytes \<Rightarrow> nat \<Rightarrow> bool \<Rightarrow> nat \<Rightarrow> (payload_error, bool \<times> nat) result" where
  "stap_a_units pl position keyframe units =
     (if position < length pl then
        bind_r (mc_read_u16 pl position) (\<lambda>len.
        if unat len = 0 then Inl InvalidAggregationUnit
        else let start = position + 2; stop = start + unat len in
          bind_r (ok_or InvalidAggregationUnit (get_range pl start stop)) (\<lambda>unit.
            stap_a_units pl stop (keyframe \<or> unit ! 0 AND 0x1f = 5) (units + 1)))
      else Inr (keyframe, units))"
  by pat_completeness auto
termination
  by (relation "measure (\<lambda>(pl, position, _). length pl - position)") auto

declare stap_a_units.simps [simp del]

definition inspect_h264_stap_a :: "bytes \<Rightarrow> bool \<Rightarrow> (payload_error, payload_info) result" where
  "inspect_h264_stap_a pl marker =
     bind_r (stap_a_units pl 1 False 0) (\<lambda>(keyframe, units).
     if units = 0 then Inl InvalidAggregationUnit
     else Inr \<lparr>pi_start_of_frame = True, pi_end_of_frame = marker, pi_keyframe = keyframe,
               pi_temporal_id = None, pi_spatial_id = None\<rparr>)"

definition inspect_h264 :: "bytes \<Rightarrow> bool \<Rightarrow> (payload_error, payload_info) result" where
  "inspect_h264 pl marker =
     bind_r (first_byte_of pl) (\<lambda>nal_header.
     let nal_type = nal_header AND 0x1f in
     if 1 \<le> nal_type \<and> nal_type \<le> 23 then
       Inr \<lparr>pi_start_of_frame = True, pi_end_of_frame = marker, pi_keyframe = (nal_type = 5),
            pi_temporal_id = None, pi_spatial_id = None\<rparr>
     else if nal_type = 24 then inspect_h264_stap_a pl marker
     else if nal_type = 28 then
       bind_r (read_byte pl 1) (\<lambda>fu_header.
         Inr \<lparr>pi_start_of_frame = (fu_header AND 0x80 \<noteq> 0),
              pi_end_of_frame = (fu_header AND 0x40 \<noteq> 0 \<or> marker),
              pi_keyframe = (fu_header AND 0x1f = 5), pi_temporal_id = None, pi_spatial_id = None\<rparr>)
     else Inl (UnsupportedH264NalType nal_type))"

definition inspect_av1 :: "bytes \<Rightarrow> bool \<Rightarrow> (payload_error, payload_info) result" where
  "inspect_av1 pl marker =
     bind_r (first_byte_of pl) (\<lambda>aggregation.
     let continues_previous = (aggregation AND 0x80 \<noteq> 0);
         continues_next = (aggregation AND 0x40 \<noteq> 0);
         new_coded_sequence = (aggregation AND 0x08 \<noteq> 0) in
     if length pl = 1 then Inl TruncatedDescriptor
     else Inr \<lparr>pi_start_of_frame = (\<not> continues_previous),
               pi_end_of_frame = (\<not> continues_next \<or> marker),
               pi_keyframe = (\<not> continues_previous \<and> new_coded_sequence),
               pi_temporal_id = None, pi_spatial_id = None\<rparr>)"

fun inspect_payload :: "codec \<Rightarrow> bytes \<Rightarrow> bool \<Rightarrow> (payload_error, payload_info) result" where
  "inspect_payload Opus pl marker =
     Inr \<lparr>pi_start_of_frame = True, pi_end_of_frame = True, pi_keyframe = True,
          pi_temporal_id = None, pi_spatial_id = None\<rparr>"
| "inspect_payload Vp8 pl marker = inspect_vp8 pl marker"
| "inspect_payload Vp9 pl marker = inspect_vp9 pl marker"
| "inspect_payload H264 pl marker = inspect_h264 pl marker"
| "inspect_payload Av1 pl marker = inspect_av1 pl marker"
| "inspect_payload UnknownCodec pl marker =
     Inr \<lparr>pi_start_of_frame = False, pi_end_of_frame = marker, pi_keyframe = False,
          pi_temporal_id = None, pi_spatial_id = None\<rparr>"

section \<open>Aggregation packets\<close>

definition stap_a :: "u8 \<Rightarrow> bytes list \<Rightarrow> bytes" where
  "stap_a header units = header # concat (map (\<lambda>u. to_be (word_of_nat (length u) :: u16) @ u) units)"

definition aggregable :: "bytes list \<Rightarrow> bool" where
  "aggregable units \<longleftrightarrow> (\<forall>u\<in>set units. 0 < length u \<and> length u \<le> 65535)"

lemma stap_a_units_layout:
  "aggregable units \<Longrightarrow> position = length pre \<Longrightarrow>
     stap_a_units (pre @ concat (map (\<lambda>u. to_be (word_of_nat (length u) :: u16) @ u) units))
       position keyframe n =
     Inr (keyframe \<or> (\<exists>u\<in>set units. u ! 0 AND 0x1f = 5), n + length units)"
proof (induction units arbitrary: pre position keyframe n)
  case Nil
  then show ?case by (subst stap_a_units.simps) simp
next
  case (Cons u us)
  let ?w = "word_of_nat (length u) :: u16"
  let ?rest = "concat (map (\<lambda>u. to_be (word_of_nat (length u) :: u16) @ u) us)"
  have u: "0 < length u" "unat ?w = length u"
    using Cons.prems(1) by (auto simp: aggregable_def intro!: unat_word_of_nat_less)
  have ih: "stap_a_units ((pre @ to_be ?w @ u) @ ?rest) (position + 2 + length u)
      (keyframe \<or> u ! 0 AND 0x1f = 5) (n + 1) =
      Inr ((keyframe \<or> u ! 0 AND 0x1f = 5) \<or> (\<exists>u\<in>set us. u ! 0 AND 0x1f = 5), n + 1 + length us)"
    by (rule Cons.IH) (use Cons.prems in \<open>auto simp: aggregable_def\<close>)
  have "get_range ((pre @ to_be ?w) @ u @ ?rest) (position + 2) (position + 2 + length u) = Some u"
    by (rule get_range_mid) (simp_all add: Cons.prems(2))
  with ih u Cons.prems(2) show ?case
    by (subst stap_a_units.simps) (simp add: mc_read_u16_def wire_reads disj_assoc)
qed

lemma stap_a_units_Inr:
  "stap_a_units pl position keyframe n = Inr (k, m) \<Longrightarrow>
     \<exists>units. aggregable units \<and>
       drop position pl = concat (map (\<lambda>u. to_be (word_of_nat (length u) :: u16) @ u) units) \<and>
       m = n + length units"
proof (induction pl position keyframe n rule: stap_a_units.induct)
  case (1 pl position keyframe n)
  show ?case
  proof (cases "position < length pl")
    case False
    with "1.prems" show ?thesis
      by (intro exI [of _ "[]"]) (simp add: aggregable_def stap_a_units.simps [of pl position])
  next
    case True
    from "1.prems" True obtain len u where len: "mc_read_u16 pl position = Inr len" "unat len \<noteq> 0"
      and u: "get_range pl (position + 2) (position + 2 + unat len) = Some u"
      and rest: "stap_a_units pl (position + 2 + unat len) (keyframe \<or> u ! 0 AND 0x1f = 5) (n + 1) = Inr (k, m)"
      by (subst (asm) stap_a_units.simps) (auto simp: result_simps Let_def split: if_splits)
    have "ok_or InvalidAggregationUnit (get_range pl (position + 2) (position + 2 + unat len)) = Inr u"
      using u by simp
    from "1.IH" [OF True len refl refl this rest] obtain units where
      ih: "aggregable units" "m = n + 1 + length units"
      "drop (position + 2 + unat len) pl =
         concat (map (\<lambda>u. to_be (word_of_nat (length u) :: u16) @ u) units)" by blast
    have lu: "length u = unat len" using get_range_length [OF u] by simp
    then have ag: "aggregable (u # units)"
      using ih(1) len(2) unat_less_u16 [of len] by (auto simp: aggregable_def)
    have w: "to_be (word_of_nat (length u) :: u16) = take 2 (drop position pl)"
    proof -
      from len(1) have "position + 2 \<le> length pl" "len = from_be (take 2 (drop position pl))"
        by (simp_all add: mc_read_u16_def read_be_Inr)
      then show ?thesis using be16.enc_dec [of "take 2 (drop position pl)"] lu by simp
    qed
    have "drop position pl = take 2 (drop position pl) @ drop (position + 2) pl"
      by (rule drop_split)
    moreover have "drop (position + 2) pl = u @ drop (position + 2 + unat len) pl"
      using u drop_split [of "position + 2" pl "unat len"] by (simp only: get_range_Some) simp
    ultimately have "drop position pl =
        concat (map (\<lambda>u. to_be (word_of_nat (length u) :: u16) @ u) (u # units))"
      using w ih(3) by simp
    with ag ih(2) show ?thesis by (intro exI [of _ "u # units"]) simp
  qed
qed

lemma stap_a_exact:
  assumes "header AND 0x1f = 24"
  shows "inspect_h264 (header # rest) marker = Inr info \<longleftrightarrow>
    (\<exists>units. header # rest = stap_a header units \<and> units \<noteq> [] \<and> aggregable units \<and>
       info = \<lparr>pi_start_of_frame = True, pi_end_of_frame = marker,
         pi_keyframe = (\<exists>u\<in>set units. u ! 0 AND 0x1f = 5), pi_temporal_id = None, pi_spatial_id = None\<rparr>)"
    (is "?L \<longleftrightarrow> (\<exists>units. ?R units)")
proof -
  have h: "inspect_h264 (header # rest) marker = inspect_h264_stap_a (header # rest) marker"
    using assms by (simp add: inspect_h264_def first_byte_of_def Let_def)
  show ?thesis
  proof
    assume ?L
    then obtain k m where km: "stap_a_units (header # rest) 1 False 0 = Inr (k, m)" "m \<noteq> 0"
      and i: "info = \<lparr>pi_start_of_frame = True, pi_end_of_frame = marker, pi_keyframe = k,
         pi_temporal_id = None, pi_spatial_id = None\<rparr>"
      unfolding h inspect_h264_stap_a_def by (auto simp: result_simps split: if_splits)
    from stap_a_units_Inr [OF km(1)] obtain units where
      u: "aggregable units" "m = length units" "header # rest = stap_a header units"
      by (auto simp: stap_a_def)
    from stap_a_units_layout [OF u(1), of 1 "[header]" False 0] km(1) u(3)
    have "k = (\<exists>u\<in>set units. u ! 0 AND 0x1f = 5)" by (simp add: stap_a_def)
    with u km(2) i show "\<exists>units. ?R units" by (intro exI [of _ units]) auto
  next
    assume "\<exists>units. ?R units"
    then obtain units where u: "?R units" by blast
    then have "stap_a_units (header # rest) 1 False 0 =
        Inr (\<exists>u\<in>set units. u ! 0 AND 0x1f = 5, length units)"
      using stap_a_units_layout [of units 1 "[header]" False 0] by (simp add: stap_a_def)
    with u show ?L unfolding h by (simp add: inspect_h264_stap_a_def)
  qed
qed

lemma layer_bits_less:
  "unat (drop_bit 6 (b :: u8)) < 4" "unat (drop_bit 5 (b :: u8)) < 8"
  "unat (drop_bit 1 (b :: u8) AND 0x07) < 8"
proof -
  show "unat (drop_bit 6 b) < 4" "unat (drop_bit 5 b) < 8"
    using unat_byte_less [of b] by (simp_all add: drop_bit_eq_div unat_div less_mult_imp_div_less)
  have "(0x07 :: u8) = mask 3" by (simp add: mask_eq_exp_minus_1)
  then have "drop_bit 1 b AND 0x07 = take_bit 3 (drop_bit 1 b)" by (simp only: take_bit_eq_mask)
  then show "unat (drop_bit 1 b AND 0x07) < 8"
    using take_bit_nat_less_exp [of 3 "unat (drop_bit 1 b)"] by (simp add: unsigned_take_bit_eq)
qed

lemma vp8_extension_temporal: "vp8_extension pl p = Inr (q, Some t) \<Longrightarrow> unat t < 4"
  unfolding vp8_extension_def
  by (auto simp only: bind_r_eq_Inr prod.inject sum.inject option.inject layer_bits_less
      option.distinct split: if_splits)

lemma vp9_layers_bounds: "vp9_layers pl f p = Inr (q, t, s) \<Longrightarrow>
    unat (the t) < 8 \<and> unat (the s) < 8"
  unfolding vp9_layers_def
  by (auto simp only: bind_r_eq_Inr prod.inject sum.inject option.inject layer_bits_less
      option.sel option.distinct split: if_splits)

lemma inspect_vp9_Inr:
  assumes "inspect_vp9 pl marker = Inr info"
  shows "\<exists>layered f p1 p2. (if layered then vp9_layers pl f p1 else Inr (p1, None, None)) =
      Inr (p2, pi_temporal_id info, pi_spatial_id info) \<and>
    (pi_keyframe info \<longrightarrow> pi_start_of_frame info) \<and> (marker \<longrightarrow> pi_end_of_frame info)"
proof -
  from assms obtain d :: u8 and p1 x where
    l: "(if d AND 0x20 \<noteq> 0 then vp9_layers pl (d AND 0x10 \<noteq> 0) p1 else Inr (p1, None, None)) = Inr x"
    and r: "\<exists>p2. x = (p2, pi_temporal_id info, pi_spatial_id info)"
      "pi_keyframe info \<longrightarrow> pi_start_of_frame info" "marker \<longrightarrow> pi_end_of_frame info"
    unfolding inspect_vp9_def Let_def bind_r_eq_Inr
    by (elim exE conjE) (auto simp: bind_r_eq_Inr split: prod.splits)
  then show ?thesis by blast
qed

section \<open>Properties\<close>

text \<open>H.264 aggregation packets, exactly. A payload whose NAL type is 24 is accepted if and only
  if it is a sequence of one or more length-prefixed, non-empty units that fills the payload to its
  last byte, and it counts as a keyframe if and only if one of the units is an IDR slice.\<close>

lemma h264_aggregation_exact:
  assumes "header AND 0x1f = 24"
  shows "inspect_payload H264 (header # rest) marker = Inr info \<longleftrightarrow>
    (\<exists>units. header # rest = stap_a header units \<and> units \<noteq> [] \<and> aggregable units \<and>
       info = \<lparr>pi_start_of_frame = True, pi_end_of_frame = marker,
         pi_keyframe = (\<exists>u\<in>set units. u ! 0 AND 0x1f = 5), pi_temporal_id = None, pi_spatial_id = None\<rparr>)"
  using stap_a_exact [OF assms] by simp

lemma h264_aggregation_exact_witness:
  "inspect_payload H264 [24, 0, 2, 0x67, 1, 0, 1, 0x65] False =
     Inr \<lparr>pi_start_of_frame = True, pi_end_of_frame = False, pi_keyframe = True,
          pi_temporal_id = None, pi_spatial_id = None\<rparr>"
proof -
  let ?units = "[[0x67, 1], [0x65]] :: bytes list"
  have "(24 :: u8) AND 0x1f = 24" by simp
  moreover have "[24, 0, 2, 0x67, 1, 0, 1, 0x65] = stap_a 24 ?units"
    by (simp add: stap_a_def to_be_u16)
  moreover have "aggregable ?units" "?units \<noteq> []" by (simp_all add: aggregable_def)
  moreover have "\<exists>u\<in>set ?units. u ! 0 AND 0x1f = 5" by simp
  ultimately show ?thesis by (intro iffD2 [OF h264_aggregation_exact] exI [of _ ?units] conjI) simp_all
qed

text \<open>What the routing decision may rely on. For VP8, VP9, AV1 and Opus, a payload reported as a
  keyframe starts a frame; temporal identifiers are below 4 for VP8 and below 8 for VP9, spatial
  ones below 8, and H.264 and AV1 report none; and the marker always ends a frame.\<close>

lemma inspected_payload_sound:
  assumes "inspect_payload c pl marker = Inr info"
  shows "(pi_keyframe info \<and> c \<noteq> H264 \<longrightarrow> pi_start_of_frame info) \<and>
    (\<forall>t. pi_temporal_id info = Some t \<longrightarrow> c = Vp8 \<and> unat t < 4 \<or> c = Vp9 \<and> unat t < 8) \<and>
    (\<forall>s. pi_spatial_id info = Some s \<longrightarrow> c = Vp9 \<and> unat s < 8) \<and>
    (marker \<longrightarrow> pi_end_of_frame info)"
proof (cases c)
  case Vp8
  with assms show ?thesis
    by (auto simp: inspect_vp8_def result_simps Let_def dest: vp8_extension_temporal split: if_splits)
next
  case Vp9
  with assms inspect_vp9_Inr [of pl marker info] show ?thesis
    by (auto dest: vp9_layers_bounds split: if_splits)
next
  case H264
  with assms show ?thesis
    by (auto simp: inspect_h264_def inspect_h264_stap_a_def result_simps Let_def split: if_splits)
next
  case Av1
  with assms show ?thesis by (auto simp: inspect_av1_def result_simps Let_def split: if_splits)
qed (use assms in auto)

lemma inspected_payload_sound_witness:
  "\<exists>info. inspect_payload Vp8 [0x90, 0x20, 0xc0, 0x00] True = Inr info \<and> pi_keyframe info \<and>
     pi_start_of_frame info \<and> pi_end_of_frame info \<and> pi_temporal_id info = Some 3"
proof -
  have "\<exists>info. inspect_payload Vp8 [0x90, 0x20, 0xc0, 0x00] True = Inr info \<and> pi_keyframe info \<and>
      pi_temporal_id info = Some 3"
    by (simp add: inspect_vp8_def first_byte_of_def vp8_extension_def read_byte_def get_at_def Let_def)
  then obtain info where i: "inspect_payload Vp8 [0x90, 0x20, 0xc0, 0x00] True = Inr info"
    and k: "pi_keyframe info" "pi_temporal_id info = Some 3" by blast
  from inspected_payload_sound [OF i] i k show ?thesis by auto
qed

end
