(* ===== verification/Timed_Fifo.thy ===== *)
theory Timed_Fifo
  imports Fluvora_Prelude
begin

text \<open>
  The contract of a bounded queue of time-stamped entries, as the retransmission cache of the SFU
  and the send history of the bandwidth estimator both are: expiry removes entries from the front
  while they are too old, and a new entry is appended after entries have been removed from the
  front until there is room.
\<close>

locale timed_fifo =
  fixes entries :: "'s \<Rightarrow> 'a list"
    and stamp :: "'a \<Rightarrow> duration"
    and age :: "'s \<Rightarrow> duration"
    and capacity :: "'s \<Rightarrow> nat"
    and expire :: "duration \<Rightarrow> 's \<Rightarrow> 's"
    and push :: "duration \<Rightarrow> 'a \<Rightarrow> 's \<Rightarrow> 's"
  assumes entries_expire: "entries (expire now s) = dropWhile (\<lambda>x. now - stamp x > age s) (entries s)"
    and age_expire: "age (expire now s) = age s"
    and capacity_expire: "capacity (expire now s) = capacity s"
    and age_push: "age (push now x s) = age s"
    and capacity_push: "capacity (push now x s) = capacity s"
    and entries_push: "stamp x = now \<Longrightarrow> 0 < capacity s \<Longrightarrow>
      \<exists>k. entries (push now x s) = drop k (entries (expire now s)) @ [x] \<and>
        length (drop k (entries (expire now s))) < capacity s"
begin

text \<open>The queue is within its capacity and in order of time, with nothing from the future.\<close>

definition orderly :: "duration \<Rightarrow> 's \<Rightarrow> bool" where
  "orderly now s \<longleftrightarrow> length (entries s) \<le> capacity s \<and> sorted (map stamp (entries s)) \<and>
     (\<forall>x\<in>set (entries s). stamp x \<le> now)"

lemma orderly_later: "orderly now s \<Longrightarrow> now \<le> later \<Longrightarrow> orderly later s"
  by (auto simp: orderly_def)

lemma expire_suffix: "\<exists>k. entries (expire now s) = drop k (entries s)"
  unfolding entries_expire by (metis dropWhile_eq_drop)

lemma orderly_drop:
  "orderly now s \<Longrightarrow> length (drop k (entries s)) \<le> capacity s \<and>
     sorted (map stamp (drop k (entries s))) \<and> (\<forall>x\<in>set (drop k (entries s)). stamp x \<le> now)"
  by (auto simp: orderly_def drop_map [symmetric] sorted_wrt_drop dest: in_set_dropD)

lemma orderly_expire: "orderly now s \<Longrightarrow> orderly now (expire later s)"
  using expire_suffix [of later s] orderly_drop by (metis orderly_def capacity_expire)

lemma orderly_push:
  assumes "orderly now s" and "now \<le> later" and "stamp x = later" and "0 < capacity s"
  shows "orderly later (push later x s)"
proof -
  from entries_push [OF assms(3,4)] obtain k where
    e: "entries (push later x s) = drop k (entries (expire later s)) @ [x]"
    and n: "length (drop k (entries (expire later s))) < capacity s" by blast
  have "orderly later (expire later s)"
    by (rule orderly_expire [OF orderly_later [OF assms(1,2)]])
  from orderly_drop [OF this, of k] e n assms(3) show ?thesis
    by (auto simp: orderly_def capacity_push sorted_append)
qed

text \<open>After expiry exactly the entries within the age are left.\<close>

lemma expire_exact:
  assumes "orderly now s"
  shows "entries (expire later s) = filter (\<lambda>x. later - stamp x \<le> age s) (entries s)"
proof -
  have "dropWhile (\<lambda>x. later - stamp x > a) xs = filter (\<lambda>x. later - stamp x \<le> a) xs"
    if "sorted (map stamp xs)" for a and xs :: "'a list"
    using that
  proof (induction xs)
    case Nil
    then show ?case by simp
  next
    case (Cons x xs)
    show ?case
    proof (cases "later - stamp x > a")
      case True
      with Cons show ?thesis by simp
    next
      case False
      with Cons.prems have "\<forall>y\<in>set (x # xs). later - stamp y \<le> a" by auto
      then have "filter (\<lambda>x. later - stamp x \<le> a) (x # xs) = x # xs" by (simp only: filter_id_conv)
      with False show ?thesis by simp
    qed
  qed
  with assms show ?thesis by (simp add: entries_expire orderly_def)
qed

end

end
