(* ===== verification/Sfu_DownTrack.thy ===== *)
theory Sfu_DownTrack
  imports Rtc_Datagram Media_Codec Timed_Fifo
begin

text \<open>
  One subscriber's view of a published track, \<open>crates/webrtc/sfu-core/src/down_track.rs\<close>, with the
  data model and the errors of the crate, \<open>model.rs\<close> and \<open>error.rs\<close>: layer selection, the
  rewriting of sequence numbers, timestamps and identifiers, and the retransmission cache. An
  operation that returns an error after changing the state returns the changed state with it.
\<close>

section \<open>Data model\<close>

datatype participant_id = ParticipantId u128
datatype track_id = TrackId u64
datatype subscription_id = SubscriptionId u64
datatype media_kind = Audio | Video

record encoding =
  en_ssrc :: u32
  en_rid :: "rust_string option"
  en_spatial_layer :: u8
  en_max_bitrate_bps :: u64

record published_track =
  pt_id :: track_id
  pt_owner :: participant_id
  pt_kind :: media_kind
  pt_codec :: codec
  pt_clock_rate :: u32
  pt_payload_type :: u8
  pt_encodings :: "encoding list"

definition track_encoding :: "published_track \<Rightarrow> u8 \<Rightarrow> encoding option" where
  "track_encoding track spatial_layer = find (\<lambda>e. en_spatial_layer e = spatial_layer) (pt_encodings track)"

record layer =
  ly_spatial :: u8
  ly_temporal :: u8

record subscription_config =
  sc_id :: subscription_id
  sc_subscriber :: participant_id
  sc_track_id :: track_id
  sc_output_ssrc :: u32
  sc_output_payload_type :: u8
  sc_initial_layer :: layer
  sc_initial_sequence_number :: u16
  sc_initial_timestamp :: u32
  sc_extension_rewrites :: "extension_rewrite list"

record forwarded_packet =
  fp_subscriber :: participant_id
  fp_subscription_id :: subscription_id
  fp_packet :: bytes
  fp_layer :: layer
  fp_keyframe :: bool
  fp_retransmission :: bool

datatype sfu_event =
    LayerSwitched subscription_id "u8 option" u8
  | PliRequest track_id u32
  | TransportFeedback participant_id transport_wide_feedback

datatype sfu_error =
    DuplicateTrack track_id
  | DuplicateSubscription subscription_id
  | UnknownTrack track_id
  | UnknownSubscription subscription_id
  | UnknownSsrc u32
  | UnauthorizedParticipant participant_id
  | InvalidEncodings
  | SfuInvalidPayloadType u8
  | UnknownSpatialLayer u8
  | ResourceLimit string
  | SfuRtp rtp_error
  | SfuRtcp rtcp_error
  | SfuPayload payload_error

section \<open>Down-track\<close>

record cached_packet =
  cp_inserted_at :: duration
  cp_packet :: forwarded_packet

record down_track =
  dt_configuration :: subscription_config
  dt_target_layer :: layer
  dt_selected_spatial :: "u8 option"
  dt_current_input_ssrc :: "u32 option"
  dt_input_timestamp_base :: u32
  dt_output_timestamp_base :: u32
  dt_last_output_timestamp :: "u32 option"
  dt_timestamp_step :: u32
  dt_next_sequence_number :: u16
  dt_cache :: "cached_packet list"
  dt_cache_capacity :: nat
  dt_cache_age :: duration

datatype forward_decision =
    Forwarded forwarded_packet "sfu_event option"
  | Dropped bool

definition dt_new :: "subscription_config \<Rightarrow> published_track \<Rightarrow> nat \<Rightarrow> duration \<Rightarrow> down_track" where
  "dt_new configuration track cache_capacity cache_age =
     (let timestamp_step = max (case pt_kind track of Audio \<Rightarrow> pt_clock_rate track div 50
            | Video \<Rightarrow> pt_clock_rate track div 30) 1 in
      \<lparr>dt_configuration = configuration, dt_target_layer = sc_initial_layer configuration,
       dt_selected_spatial = None, dt_current_input_ssrc = None, dt_input_timestamp_base = 0,
       dt_output_timestamp_base = sc_initial_timestamp configuration,
       dt_last_output_timestamp = None, dt_timestamp_step = timestamp_step,
       dt_next_sequence_number = sc_initial_sequence_number configuration,
       dt_cache = [], dt_cache_capacity = cache_capacity, dt_cache_age = cache_age\<rparr>)"

definition dt_set_target_layer :: "layer \<Rightarrow> down_track \<Rightarrow> bool \<times> down_track" where
  "dt_set_target_layer l d =
     (if dt_target_layer d = l then (False, d) else (True, d\<lparr>dt_target_layer := l\<rparr>))"

definition rewrite_timestamp :: "u32 \<Rightarrow> bool \<Rightarrow> down_track \<Rightarrow> u32 \<times> down_track" where
  "rewrite_timestamp input_timestamp switched d =
     (let (output, d1) =
        (if dt_current_input_ssrc d = None then
           (dt_output_timestamp_base d, d\<lparr>dt_input_timestamp_base := input_timestamp\<rparr>)
         else if switched then
           let base = (case dt_last_output_timestamp d of None \<Rightarrow> dt_output_timestamp_base d
                 | Some t \<Rightarrow> t) + dt_timestamp_step d in
           (base, d\<lparr>dt_input_timestamp_base := input_timestamp, dt_output_timestamp_base := base\<rparr>)
         else (dt_output_timestamp_base d + (input_timestamp - dt_input_timestamp_base d), d));
          d2 = (case dt_last_output_timestamp d1 of None \<Rightarrow> d1
                | Some previous \<Rightarrow>
                    let step = output - previous in
                    if step > 0 \<and> step < 900000 then d1\<lparr>dt_timestamp_step := step\<rparr> else d1)
      in (output, d2\<lparr>dt_last_output_timestamp := Some output\<rparr>))"

definition expire_cache :: "duration \<Rightarrow> down_track \<Rightarrow> down_track" where
  "expire_cache now d =
     d\<lparr>dt_cache := dropWhile (\<lambda>c. now - cp_inserted_at c > dt_cache_age d) (dt_cache d)\<rparr>"

text \<open>\<open>while len >= capacity { pop_front }\<close>.\<close>

fun evict :: "nat \<Rightarrow> 'a list \<Rightarrow> 'a list" where
  "evict capacity [] = []"
| "evict capacity (x # xs) = (if length (x # xs) \<ge> capacity then evict capacity xs else x # xs)"

definition cache_packet :: "duration \<Rightarrow> forwarded_packet \<Rightarrow> down_track \<Rightarrow> down_track" where
  "cache_packet now p d =
     (let d1 = expire_cache now d in
      if dt_cache_capacity d1 = 0 then d1
      else d1\<lparr>dt_cache := evict (dt_cache_capacity d1) (dt_cache d1) @
        [\<lparr>cp_inserted_at = now, cp_packet = p\<rparr>]\<rparr>)"

definition forward :: "duration \<Rightarrow> published_track \<Rightarrow> u8 \<Rightarrow> payload_info \<Rightarrow> bytes \<Rightarrow> down_track \<Rightarrow>
    (sfu_error, forward_decision) result \<times> down_track" where
  "forward now track spatial_layer info input d =
     (let selected = dt_selected_spatial d;
          switching_to_target =
            (selected \<noteq> Some spatial_layer \<and> spatial_layer = ly_spatial (dt_target_layer d));
          continuing_selected = (selected = Some spatial_layer) in
      if \<not> continuing_selected \<and> \<not> switching_to_target then
        (Inr (Dropped (selected \<noteq> Some (ly_spatial (dt_target_layer d)))), d)
      else
        let requires_keyframe = (pt_kind track = Video \<and> \<not> continuing_selected) in
        if requires_keyframe \<and> \<not> (pi_keyframe info \<and> pi_start_of_frame info) then
          (Inr (Dropped True), d)
        else if (case pi_temporal_id info of None \<Rightarrow> False
                 | Some temporal \<Rightarrow> temporal > ly_temporal (dt_target_layer d)) then
          (Inr (Dropped False), d)
        else
          (case parse input of
             Inl e \<Rightarrow> (Inl (SfuRtp e), d)
           | Inr parsed \<Rightarrow>
               let ssrc = h_ssrc (p_header parsed);
                   switched = (dt_current_input_ssrc d \<noteq> Some ssrc);
                   previous_spatial = dt_selected_spatial d;
                   (output_timestamp, d1) =
                     rewrite_timestamp (h_timestamp (p_header parsed)) switched d;
                   output_sequence = dt_next_sequence_number d1;
                   d2 = d1\<lparr>dt_next_sequence_number := dt_next_sequence_number d1 + 1\<rparr>;
                   d3 = (if switched then d2\<lparr>dt_current_input_ssrc := Some ssrc,
                           dt_selected_spatial := Some spatial_layer\<rparr> else d2);
                   cfg = dt_configuration d3 in
               (case rewrite_apply
                   \<lparr>rw_marker = None, rw_payload_type = Some (sc_output_payload_type cfg),
                    rw_sequence_number = Some output_sequence, rw_timestamp = Some output_timestamp,
                    rw_ssrc = Some (sc_output_ssrc cfg)\<rparr> input of
                  (Inl e, _) \<Rightarrow> (Inl (SfuRtp e), d3)
                | (Inr _, rewritten) \<Rightarrow>
                    (case rewrite_header_extensions rewritten (sc_extension_rewrites cfg) of
                       Inl e \<Rightarrow> (Inl (SfuRtp e), d3)
                     | Inr out \<Rightarrow>
                         let forwarded = \<lparr>fp_subscriber = sc_subscriber cfg,
                               fp_subscription_id = sc_id cfg, fp_packet = out,
                               fp_layer = \<lparr>ly_spatial = spatial_layer, ly_temporal =
                                 (case pi_temporal_id info of None \<Rightarrow> 0 | Some t \<Rightarrow> t)\<rparr>,
                               fp_keyframe = pi_keyframe info, fp_retransmission = False\<rparr>;
                             event = (if switched
                               then Some (LayerSwitched (sc_id cfg) previous_spatial spatial_layer)
                               else None) in
                         (Inr (Forwarded forwarded event), cache_packet now forwarded d3)))))"

definition cached_as :: "u16 \<Rightarrow> cached_packet \<Rightarrow> bool" where
  "cached_as requested c =
     (case parse (fp_packet (cp_packet c)) of Inl _ \<Rightarrow> False
      | Inr p \<Rightarrow> h_sequence_number (p_header p) = requested)"

definition retransmit :: "duration \<Rightarrow> u16 list \<Rightarrow> down_track \<Rightarrow> forwarded_packet list \<times> down_track" where
  "retransmit now sequence_numbers d =
     (let d1 = expire_cache now d in
      (List.map_filter (\<lambda>requested.
         map_option (\<lambda>c. (cp_packet c)\<lparr>fp_retransmission := True\<rparr>)
           (find (cached_as requested) (rev (dt_cache d1)))) sequence_numbers, d1))"

section \<open>Frame lemmas\<close>

lemma rewrite_timestamp_keeps:
  assumes "rewrite_timestamp t switched d = (out, d')"
  shows "dt_configuration d' = dt_configuration d" "dt_target_layer d' = dt_target_layer d"
    "dt_selected_spatial d' = dt_selected_spatial d" "dt_current_input_ssrc d' = dt_current_input_ssrc d"
    "dt_next_sequence_number d' = dt_next_sequence_number d" "dt_cache d' = dt_cache d"
    "dt_cache_capacity d' = dt_cache_capacity d" "dt_cache_age d' = dt_cache_age d"
    "dt_last_output_timestamp d' = Some out"
  using assms unfolding rewrite_timestamp_def Let_def
  by (auto split: if_splits option.splits prod.splits)

lemma expire_cache_keeps [simp]:
  "dt_configuration (expire_cache now d) = dt_configuration d"
  "dt_target_layer (expire_cache now d) = dt_target_layer d"
  "dt_selected_spatial (expire_cache now d) = dt_selected_spatial d"
  "dt_current_input_ssrc (expire_cache now d) = dt_current_input_ssrc d"
  "dt_next_sequence_number (expire_cache now d) = dt_next_sequence_number d"
  "dt_cache_capacity (expire_cache now d) = dt_cache_capacity d"
  "dt_cache_age (expire_cache now d) = dt_cache_age d"
  "dt_last_output_timestamp (expire_cache now d) = dt_last_output_timestamp d"
  by (simp_all add: expire_cache_def)

lemma cache_packet_keeps [simp]:
  "dt_configuration (cache_packet now p d) = dt_configuration d"
  "dt_target_layer (cache_packet now p d) = dt_target_layer d"
  "dt_selected_spatial (cache_packet now p d) = dt_selected_spatial d"
  "dt_current_input_ssrc (cache_packet now p d) = dt_current_input_ssrc d"
  "dt_next_sequence_number (cache_packet now p d) = dt_next_sequence_number d"
  "dt_cache_capacity (cache_packet now p d) = dt_cache_capacity d"
  "dt_last_output_timestamp (cache_packet now p d) = dt_last_output_timestamp d"
  by (simp_all add: cache_packet_def Let_def)

lemma set_expire_cache: "set (dt_cache (expire_cache now d)) \<subseteq> set (dt_cache d)"
  by (auto simp: expire_cache_def dest: set_dropWhileD)

lemma length_expire_cache: "length (dt_cache (expire_cache now d)) \<le> length (dt_cache d)"
  by (simp add: expire_cache_def length_dropWhile_le)

lemma evict_bounds:
  "0 < n \<Longrightarrow> length (evict n xs) < n" "set (evict n xs) \<subseteq> set xs"
  by (induction xs) auto

lemma cache_packet_set:
  "set (dt_cache (cache_packet now p d)) \<subseteq>
     insert \<lparr>cp_inserted_at = now, cp_packet = p\<rparr> (set (dt_cache d))"
  using set_expire_cache [of now d] evict_bounds(2) [of "dt_cache_capacity d" "dt_cache (expire_cache now d)"]
  by (auto simp: cache_packet_def Let_def)

lemma cache_packet_length:
  "length (dt_cache d) \<le> dt_cache_capacity d \<Longrightarrow>
     length (dt_cache (cache_packet now p d)) \<le> dt_cache_capacity d"
  using length_expire_cache [of now d] evict_bounds(1) [of "dt_cache_capacity d" "dt_cache (expire_cache now d)"]
  by (auto simp: cache_packet_def Let_def Suc_le_eq)

section \<open>Forwarding one packet\<close>

text \<open>The state after a sequence number and a timestamp have been taken for an input packet.\<close>

definition consumed :: "u8 \<Rightarrow> header \<Rightarrow> down_track \<Rightarrow> u32 \<times> down_track" where
  "consumed spatial_layer h d =
     (let switched = (dt_current_input_ssrc d \<noteq> Some (h_ssrc h));
          (t, d1) = rewrite_timestamp (h_timestamp h) switched d;
          d2 = d1\<lparr>dt_next_sequence_number := dt_next_sequence_number d1 + 1\<rparr> in
      (t, if switched then d2\<lparr>dt_current_input_ssrc := Some (h_ssrc h),
            dt_selected_spatial := Some spatial_layer\<rparr> else d2))"

lemma consumed_keeps:
  assumes "consumed l h d = (t, d')"
  shows "dt_configuration d' = dt_configuration d" "dt_target_layer d' = dt_target_layer d"
    "dt_next_sequence_number d' = dt_next_sequence_number d + 1" "dt_cache d' = dt_cache d"
    "dt_cache_capacity d' = dt_cache_capacity d" "dt_cache_age d' = dt_cache_age d"
    "dt_current_input_ssrc d' = Some (h_ssrc h)" "dt_last_output_timestamp d' = Some t"
    "dt_selected_spatial d' = (if dt_current_input_ssrc d = Some (h_ssrc h)
       then dt_selected_spatial d else Some l)"
    "t = fst (rewrite_timestamp (h_timestamp h) (dt_current_input_ssrc d \<noteq> Some (h_ssrc h)) d)"
proof -
  obtain u d1 where r: "rewrite_timestamp (h_timestamp h) (dt_current_input_ssrc d \<noteq> Some (h_ssrc h)) d =
      (u, d1)" by fastforce
  note keeps = rewrite_timestamp_keeps [OF r]
  from assms r have "t = u" and d': "d' = (let d2 = d1\<lparr>dt_next_sequence_number := dt_next_sequence_number d1 + 1\<rparr>
      in if dt_current_input_ssrc d \<noteq> Some (h_ssrc h) then d2\<lparr>dt_current_input_ssrc := Some (h_ssrc h),
            dt_selected_spatial := Some l\<rparr> else d2)"
    by (auto simp: consumed_def Let_def)
  with keeps r show "dt_configuration d' = dt_configuration d" "dt_target_layer d' = dt_target_layer d"
    "dt_next_sequence_number d' = dt_next_sequence_number d + 1" "dt_cache d' = dt_cache d"
    "dt_cache_capacity d' = dt_cache_capacity d" "dt_cache_age d' = dt_cache_age d"
    "dt_current_input_ssrc d' = Some (h_ssrc h)" "dt_last_output_timestamp d' = Some t"
    "dt_selected_spatial d' = (if dt_current_input_ssrc d = Some (h_ssrc h)
       then dt_selected_spatial d else Some l)"
    "t = fst (rewrite_timestamp (h_timestamp h) (dt_current_input_ssrc d \<noteq> Some (h_ssrc h)) d)"
    by (simp_all add: Let_def)
qed

definition eligible :: "published_track \<Rightarrow> u8 \<Rightarrow> payload_info \<Rightarrow> down_track \<Rightarrow> bool" where
  "eligible track l info d \<longleftrightarrow>
     (dt_selected_spatial d = Some l \<or> l = ly_spatial (dt_target_layer d) \<and>
        (pt_kind track = Video \<longrightarrow> pi_keyframe info \<and> pi_start_of_frame info)) \<and>
     (\<forall>t. pi_temporal_id info = Some t \<longrightarrow> t \<le> ly_temporal (dt_target_layer d))"

definition output_rewrite :: "down_track \<Rightarrow> u32 \<Rightarrow> rewrite" where
  "output_rewrite d t =
     \<lparr>rw_marker = None, rw_payload_type = Some (sc_output_payload_type (dt_configuration d)),
      rw_sequence_number = Some (dt_next_sequence_number d), rw_timestamp = Some t,
      rw_ssrc = Some (sc_output_ssrc (dt_configuration d))\<rparr>"

lemma forward_not_eligible:
  "\<not> eligible track l info d \<Longrightarrow> \<exists>b. forward now track l info input d = (Inr (Dropped b), d)"
  unfolding forward_def eligible_def Let_def
  by (auto simp: not_le split: option.split)

lemma forward_eligible:
  assumes "eligible track l info d" and p: "parse input = Inr p"
    and c: "consumed l (p_header p) d = (t, d3)"
  shows "forward now track l info input d =
    (case rewrite_apply (output_rewrite d t) input of
       (Inl e, _) \<Rightarrow> (Inl (SfuRtp e), d3)
     | (Inr _, rewritten) \<Rightarrow>
         (case rewrite_header_extensions rewritten (sc_extension_rewrites (dt_configuration d)) of
            Inl e \<Rightarrow> (Inl (SfuRtp e), d3)
          | Inr out \<Rightarrow>
              let f = \<lparr>fp_subscriber = sc_subscriber (dt_configuration d),
                    fp_subscription_id = sc_id (dt_configuration d), fp_packet = out,
                    fp_layer = \<lparr>ly_spatial = l, ly_temporal =
                      (case pi_temporal_id info of None \<Rightarrow> 0 | Some t \<Rightarrow> t)\<rparr>,
                    fp_keyframe = pi_keyframe info, fp_retransmission = False\<rparr> in
              (Inr (Forwarded f (if dt_current_input_ssrc d \<noteq> Some (h_ssrc (p_header p))
                 then Some (LayerSwitched (sc_id (dt_configuration d)) (dt_selected_spatial d) l)
                 else None)), cache_packet now f d3)))"
proof -
  let ?sw = "dt_current_input_ssrc d \<noteq> Some (h_ssrc (p_header p))"
  obtain u d1 where r: "rewrite_timestamp (h_timestamp (p_header p)) ?sw d = (u, d1)" by fastforce
  note keeps = rewrite_timestamp_keeps [OF r]
  have c3: "t = u" "d3 = (if ?sw then d1\<lparr>dt_next_sequence_number := dt_next_sequence_number d + 1,
      dt_current_input_ssrc := Some (h_ssrc (p_header p)), dt_selected_spatial := Some l\<rparr>
      else d1\<lparr>dt_next_sequence_number := dt_next_sequence_number d + 1\<rparr>)"
    using c unfolding consumed_def Let_def r by (auto simp: keeps(5) split: if_splits)
  have cfg: "dt_configuration d3 = dt_configuration d" by (rule consumed_keeps(1) [OF c])
  have guards: "\<not> (dt_selected_spatial d \<noteq> Some l \<and>
      \<not> (dt_selected_spatial d \<noteq> Some l \<and> l = ly_spatial (dt_target_layer d)))"
    "\<not> ((pt_kind track = Video \<and> dt_selected_spatial d \<noteq> Some l) \<and>
        \<not> (pi_keyframe info \<and> pi_start_of_frame info))"
    "\<not> (case pi_temporal_id info of None \<Rightarrow> False
        | Some temporal \<Rightarrow> temporal > ly_temporal (dt_target_layer d))"
    using assms(1) by (auto simp: eligible_def split: option.splits)
  show ?thesis
    unfolding forward_def Let_def p sum.case r prod.case keeps(5)
    unfolding c3(2) [symmetric] c3(1) [symmetric] cfg output_rewrite_def
    by (simp only: guards if_False)
qed

lemma rewrite_header_extensions_keeps:
  assumes "rewrite_header_extensions input rs = Inr out" and "parse input = Inr p"
  shows "\<exists>q. parse out = Inr q \<and> p_header q = p_header p \<and> p_payload q = p_payload p \<and>
    p_padding_len q = p_padding_len p"
proof (cases "rs = []")
  case True
  with assms show ?thesis by (simp add: rewrite_header_extensions_def)
next
  case False
  from rewrite_header_extensions_parses [OF assms(1) this] assms(2) show ?thesis by auto
qed

lemma forward_Forwarded:
  assumes "forward now track l info input d = (Inr (Forwarded f ev), d')"
  shows "\<exists>p q t d3. parse input = Inr p \<and> eligible track l info d \<and>
    consumed l (p_header p) d = (t, d3) \<and> d' = cache_packet now f d3 \<and>
    parse (fp_packet f) = Inr q \<and> p_header q = rewrite_header (output_rewrite d t) (p_header p) \<and>
    p_payload q = p_payload p \<and> p_padding_len q = p_padding_len p \<and>
    fp_subscriber f = sc_subscriber (dt_configuration d) \<and>
    fp_subscription_id f = sc_id (dt_configuration d) \<and>
    \<not> fp_retransmission f \<and> ly_spatial (fp_layer f) = l \<and> fp_keyframe f = pi_keyframe info \<and>
    ev = (if dt_current_input_ssrc d \<noteq> Some (h_ssrc (p_header p))
      then Some (LayerSwitched (sc_id (dt_configuration d)) (dt_selected_spatial d) l) else None)"
proof -
  have el: "eligible track l info d"
    using forward_not_eligible [of track l info d now input] assms by (metis Pair_inject sum.inject(2) forward_decision.distinct(1))
  have "\<exists>p. parse input = Inr p"
  proof (cases "parse input")
    case (Inl e)
    with el assms show ?thesis
      by (auto simp: forward_def eligible_def Let_def split: if_splits option.splits)
  qed simp
  then obtain p where p: "parse input = Inr p" by blast
  obtain t d3 where c: "consumed l (p_header p) d = (t, d3)" by fastforce
  note fe = assms [unfolded forward_eligible [OF el p c]]
  obtain r rw where ra: "rewrite_apply (output_rewrite d t) input = (r, rw)" by fastforce
  with fe obtain u where r: "r = Inr u" by (cases r) auto
  have pt: "\<And>v. rw_payload_type (output_rewrite d t) = Some v \<Longrightarrow> v \<le> 127"
    using ra r p by (auto simp: rewrite_apply_def split: option.splits if_splits)
  from rewrite_apply_parses [where r = "output_rewrite d t", OF p pt] ra r
  have prw: "parse rw = Inr (p\<lparr>p_header := rewrite_header (output_rewrite d t) (p_header p)\<rparr>)" by auto
  obtain out where out: "rewrite_header_extensions rw (sc_extension_rewrites (dt_configuration d)) = Inr out"
    using fe unfolding ra r by (auto split: sum.splits)
  from rewrite_header_extensions_keeps [OF out prw] obtain q where q: "parse out = Inr q"
    "p_header q = rewrite_header (output_rewrite d t) (p_header p)" "p_payload q = p_payload p"
    "p_padding_len q = p_padding_len p" by auto
  from fe have "fp_packet f = out" "d' = cache_packet now f d3"
    "fp_subscriber f = sc_subscriber (dt_configuration d)"
    "fp_subscription_id f = sc_id (dt_configuration d)" "\<not> fp_retransmission f"
    "ly_spatial (fp_layer f) = l" "fp_keyframe f = pi_keyframe info"
    "ev = (if dt_current_input_ssrc d \<noteq> Some (h_ssrc (p_header p))
      then Some (LayerSwitched (sc_id (dt_configuration d)) (dt_selected_spatial d) l) else None)"
    unfolding ra r by (auto simp: out Let_def)
  with p el c q show ?thesis by blast
qed

lemma forward_Dropped: "forward now track l info input d = (Inr (Dropped b), d') \<Longrightarrow> d' = d"
proof -
  assume f: "forward now track l info input d = (Inr (Dropped b), d')"
  show ?thesis
  proof (cases "eligible track l info d")
    case False
    with forward_not_eligible [of track l info d now input] f show ?thesis by auto
  next
    case True
    show ?thesis
    proof (cases "parse input")
      case (Inl e)
      with f show ?thesis by (auto simp: forward_def Let_def split: if_splits)
    next
      case (Inr p)
      obtain t d3 where c: "consumed l (p_header p) d = (t, d3)" by fastforce
      from f show ?thesis
        unfolding forward_eligible [OF True Inr c] by (auto simp: Let_def split: prod.splits sum.splits)
    qed
  qed
qed

lemma forward_Inl:
  assumes "forward now track l info input d = (Inl e, d')"
  shows "d' = d \<or> (\<exists>p t. parse input = Inr p \<and> eligible track l info d \<and>
    consumed l (p_header p) d = (t, d'))"
proof (cases "eligible track l info d")
  case False
  with forward_not_eligible [of track l info d now input] assms show ?thesis by auto
next
  case True
  show ?thesis
  proof (cases "parse input")
    case (Inl e)
    with assms show ?thesis by (auto simp: forward_def Let_def split: if_splits)
  next
    case (Inr p)
    obtain t d3 where c: "consumed l (p_header p) d = (t, d3)" by fastforce
    from assms c True Inr show ?thesis
      unfolding forward_eligible [OF True Inr c] by (auto simp: Let_def split: prod.splits sum.splits)
  qed
qed

lemma rewrite_never_fails:
  assumes "sc_output_payload_type (dt_configuration d) \<le> 127" and "parse input = Inr p"
  shows "\<exists>out. rewrite_apply (output_rewrite d t) input = (Inr (), out)"
proof -
  have "\<And>v. rw_payload_type (output_rewrite d t) = Some v \<Longrightarrow> v \<le> 127"
    using assms(1) by (simp add: output_rewrite_def)
  from rewrite_apply_parses [where r = "output_rewrite d t", OF assms(2) this] show ?thesis by blast
qed

lemma forward_never_fails:
  assumes "sc_extension_rewrites (dt_configuration d) = []"
    and "sc_output_payload_type (dt_configuration d) \<le> 127" and "parse input = Inr p"
  shows "\<exists>x d'. forward now track l info input d = (Inr x, d')"
proof (cases "eligible track l info d")
  case False
  with forward_not_eligible show ?thesis by blast
next
  case True
  obtain t d3 where c: "consumed l (p_header p) d = (t, d3)" by fastforce
  from rewrite_never_fails [OF assms(2,3)] obtain out where
    "rewrite_apply (output_rewrite d t) input = (Inr (), out)" by blast
  then show ?thesis unfolding forward_eligible [OF True assms(3) c]
    by (simp add: assms(1) rewrite_header_extensions_def Let_def)
qed

text \<open>What becomes of an eligible packet is decided by the payload type of the subscription and by
  whether its extension rewrites succeed on the packet as it arrived.\<close>

lemma forward_outcome:
  assumes el: "eligible track l info d" and p: "parse input = Inr p"
    and c: "consumed l (p_header p) d = (t, d3)"
  shows "if sc_output_payload_type (dt_configuration d) \<le> 127 \<and>
      is_ok (rewrite_header_extensions input (sc_extension_rewrites (dt_configuration d)))
    then \<exists>f ev. forward now track l info input d = (Inr (Forwarded f ev), cache_packet now f d3)
    else \<exists>e. forward now track l info input d = (Inl (SfuRtp e), d3)"
proof (cases "sc_output_payload_type (dt_configuration d) \<le> 127")
  case False
  then have "\<exists>e. rewrite_apply (output_rewrite d t) input = (Inl e, input)"
    using p by (simp add: rewrite_apply_def output_rewrite_def)
  with False show ?thesis unfolding forward_eligible [OF el p c] by auto
next
  case True
  let ?rs = "sc_extension_rewrites (dt_configuration d)"
  have "\<And>v. rw_payload_type (output_rewrite d t) = Some v \<Longrightarrow> v \<le> 127"
    using True by (simp add: output_rewrite_def)
  from rewrite_apply_parses [where r = "output_rewrite d t", OF p this] obtain out where
    ra: "rewrite_apply (output_rewrite d t) input = (Inr (), out)"
    and out: "parse out = Inr (p\<lparr>p_header := rewrite_header (output_rewrite d t) (p_header p)\<rparr>)" by blast
  have same: "is_ok (rewrite_header_extensions out ?rs) = is_ok (rewrite_header_extensions input ?rs)"
    by (rule rewrite_header_extensions_ok_header [OF p out])
      (simp add: rewrite_header_def output_rewrite_def)
  show ?thesis
    unfolding forward_eligible [OF el p c] ra same [symmetric]
    using True by (cases "rewrite_header_extensions out ?rs") (simp_all add: Let_def)
qed

section \<open>The retransmission cache\<close>

lemma evict_suffix: "\<exists>k. evict n xs = drop k xs"
proof (induction xs)
  case Nil
  then show ?case by simp
next
  case (Cons x xs)
  then obtain k where "evict n xs = drop k xs" by blast
  then have "evict n (x # xs) = drop (if length (x # xs) \<ge> n then Suc k else 0) (x # xs)" by simp
  then show ?case by blast
qed

interpretation cache: timed_fifo dt_cache cp_inserted_at dt_cache_age dt_cache_capacity expire_cache
    "\<lambda>now c d. cache_packet now (cp_packet c) d"
proof
  fix now d and c :: cached_packet
  show "dt_cache (expire_cache now d) =
      dropWhile (\<lambda>x. now - cp_inserted_at x > dt_cache_age d) (dt_cache d)"
    by (simp add: expire_cache_def)
  show "dt_cache_age (cache_packet now (cp_packet c) d) = dt_cache_age d"
    by (simp add: cache_packet_def Let_def)
  assume c: "cp_inserted_at c = now" and pos: "0 < dt_cache_capacity d"
  let ?xs = "dt_cache (expire_cache now d)"
  obtain k where k: "evict (dt_cache_capacity d) ?xs = drop k ?xs" using evict_suffix by blast
  have "\<lparr>cp_inserted_at = now, cp_packet = cp_packet c\<rparr> = c" using c by (cases c) simp
  then have "dt_cache (cache_packet now (cp_packet c) d) = drop k ?xs @ [c]"
    using pos k by (simp add: cache_packet_def Let_def)
  moreover have "length (drop k ?xs) < dt_cache_capacity d"
    using evict_bounds(1) [OF pos, of ?xs] unfolding k by simp
  ultimately show "\<exists>k. dt_cache (cache_packet now (cp_packet c) d) =
      drop k (dt_cache (expire_cache now d)) @ [c] \<and>
      length (drop k (dt_cache (expire_cache now d))) < dt_cache_capacity d" by blast
qed (simp_all add: cache_packet_def Let_def)

section \<open>Histories of a down-track\<close>

datatype dt_op =
    OpForward duration published_track u8 payload_info bytes
  | OpTarget layer
  | OpRetransmit duration "u16 list"

fun dt_step :: "dt_op \<Rightarrow> down_track \<Rightarrow> forwarded_packet list \<times> down_track" where
  "dt_step (OpForward now track l info input) d =
     (case forward now track l info input d of
        (Inr (Forwarded f _), d') \<Rightarrow> ([f], d')
      | (_, d') \<Rightarrow> ([], d'))"
| "dt_step (OpTarget l) d = ([], snd (dt_set_target_layer l d))"
| "dt_step (OpRetransmit now sequence_numbers) d = retransmit now sequence_numbers d"

fun dt_run :: "dt_op list \<Rightarrow> down_track \<Rightarrow> forwarded_packet list \<times> down_track" where
  "dt_run [] d = ([], d)"
| "dt_run (op # ops) d =
     (let (out, d') = dt_step op d; (outs, d'') = dt_run ops d' in (out @ outs, d''))"

definition live :: "forwarded_packet list \<Rightarrow> forwarded_packet list" where
  "live = filter (\<lambda>f. \<not> fp_retransmission f)"

lemma live_append [simp]: "live (xs @ ys) = live xs @ live ys"
  by (simp add: live_def)

lemma live_retransmit [simp]: "live (fst (retransmit now ns d)) = []"
  by (auto simp: live_def retransmit_def Let_def filter_empty_conv List.map_filter_def)

lemma retransmit_keeps:
  "snd (retransmit now ns d) = expire_cache now d"
  by (simp add: retransmit_def Let_def)

lemma dt_set_target_layer_keeps [simp]:
  "dt_configuration (snd (dt_set_target_layer l d)) = dt_configuration d"
  "dt_next_sequence_number (snd (dt_set_target_layer l d)) = dt_next_sequence_number d"
  "dt_cache (snd (dt_set_target_layer l d)) = dt_cache d"
  "dt_cache_capacity (snd (dt_set_target_layer l d)) = dt_cache_capacity d"
  "dt_cache_age (snd (dt_set_target_layer l d)) = dt_cache_age d"
  by (simp_all add: dt_set_target_layer_def)

definition sealed_as :: "subscription_config \<Rightarrow> u16 \<Rightarrow> forwarded_packet \<Rightarrow> bool" where
  "sealed_as cfg n f \<longleftrightarrow> (\<exists>q. parse (fp_packet f) = Inr q \<and> h_sequence_number (p_header q) = n \<and>
     h_ssrc (p_header q) = sc_output_ssrc cfg \<and>
     h_payload_type (p_header q) = sc_output_payload_type cfg) \<and>
     fp_subscriber f = sc_subscriber cfg \<and> fp_subscription_id f = sc_id cfg"

lemma forward_without_rewrites:
  assumes "sc_extension_rewrites (dt_configuration d) = []"
    and "sc_output_payload_type (dt_configuration d) \<le> 127"
    and "forward now track l info input d = (Inl e, d')"
  shows "d' = d"
proof (rule ccontr)
  assume "d' \<noteq> d"
  with forward_Inl [OF assms(3)] obtain p t where p: "parse input = Inr p"
    and el: "eligible track l info d" and c: "consumed l (p_header p) d = (t, d')" by blast
  from rewrite_never_fails [OF assms(2) p] obtain out where
    "rewrite_apply (output_rewrite d t) input = (Inr (), out)" by blast
  with assms(3) show False
    unfolding forward_eligible [OF el p c] by (simp add: assms(1) rewrite_header_extensions_def Let_def)
qed

lemma dt_step_forward:
  assumes "dt_step (OpForward now track l info input) d = (out, d')"
  shows "(out = [] \<and> (\<exists>r. forward now track l info input d = (r, d') \<and> (\<forall>f e. r \<noteq> Inr (Forwarded f e)))) \<or>
    (\<exists>f e. out = [f] \<and> forward now track l info input d = (Inr (Forwarded f e), d'))"
proof -
  obtain r d1 where f: "forward now track l info input d = (r, d1)" by fastforce
  show ?thesis
  proof (cases r)
    case (Inl e)
    with f assms show ?thesis by auto
  next
    case (Inr x)
    with f assms show ?thesis by (cases x) auto
  qed
qed

lemma forward_seals:
  assumes "forward now track l info input d = (Inr (Forwarded f ev), d')"
  shows "sealed_as (dt_configuration d) (dt_next_sequence_number d) f" and "\<not> fp_retransmission f"
    and "dt_next_sequence_number d' = dt_next_sequence_number d + 1"
    and "dt_configuration d' = dt_configuration d"
proof -
  from forward_Forwarded [OF assms] obtain p q :: packet and t d3 where c: "consumed l (p_header p) d = (t, d3)"
    and d': "d' = cache_packet now f d3" and q: "parse (fp_packet f) = Inr q"
    and h: "p_header q = rewrite_header (output_rewrite d t) (p_header p)"
    and i: "fp_subscriber f = sc_subscriber (dt_configuration d)"
      "fp_subscription_id f = sc_id (dt_configuration d)" "\<not> fp_retransmission f"
    by blast
  show "sealed_as (dt_configuration d) (dt_next_sequence_number d) f"
    using q h i by (simp add: sealed_as_def rewrite_header_def output_rewrite_def)
  show "\<not> fp_retransmission f" by (rule i(3))
  show "dt_next_sequence_number d' = dt_next_sequence_number d + 1"
    and "dt_configuration d' = dt_configuration d"
    using consumed_keeps(1,3) [OF c] by (simp_all add: d')
qed

lemma dt_run_continuous:
  assumes "sc_extension_rewrites (dt_configuration d) = []"
    and "sc_output_payload_type (dt_configuration d) \<le> 127" and "dt_run ops d = (outs, d')"
  shows "\<forall>i < length (live outs). sealed_as (dt_configuration d)
    (dt_next_sequence_number d + word_of_nat i) (live outs ! i)"
  using assms
proof (induction ops arbitrary: d outs)
  case Nil
  then show ?case by (simp add: live_def)
next
  case (Cons op ops)
  obtain out d1 where s: "dt_step op d = (out, d1)" by fastforce
  obtain outs' d2 where r: "dt_run ops d1 = (outs', d2)" by fastforce
  from Cons.prems(3) s r have outs: "outs = out @ outs'" and r': "dt_run ops d1 = (outs', d')" by simp_all
  have step: "live out = [] \<and> dt_configuration d1 = dt_configuration d \<and>
      dt_next_sequence_number d1 = dt_next_sequence_number d \<or>
    (\<exists>f. live out = [f] \<and> sealed_as (dt_configuration d) (dt_next_sequence_number d) f \<and>
      dt_configuration d1 = dt_configuration d \<and> dt_next_sequence_number d1 = dt_next_sequence_number d + 1)"
  proof (cases op)
    case (OpForward now track l info input)
    from dt_step_forward [OF s [unfolded OpForward]] show ?thesis
    proof
      assume "out = [] \<and> (\<exists>r. forward now track l info input d = (r, d1) \<and> (\<forall>f e. r \<noteq> Inr (Forwarded f e)))"
      then obtain r where "out = []" and fr: "forward now track l info input d = (r, d1)"
        and n: "\<forall>f e. r \<noteq> Inr (Forwarded f e)" by blast
      have "d1 = d"
      proof (cases r)
        case (Inl e)
        with fr Cons.prems(1,2) show ?thesis by (intro forward_without_rewrites) auto
      next
        case (Inr x)
        with n fr show ?thesis by (cases x) (auto dest: forward_Dropped)
      qed
      with \<open>out = []\<close> show ?thesis by (simp add: live_def)
    next
      assume "\<exists>f e. out = [f] \<and> forward now track l info input d = (Inr (Forwarded f e), d1)"
      then obtain f e where "out = [f]" and f: "forward now track l info input d = (Inr (Forwarded f e), d1)"
        by blast
      with forward_seals [OF f] show ?thesis by (simp add: live_def)
    qed
  next
    case (OpTarget l)
    with s show ?thesis by (auto simp: live_def)
  next
    case (OpRetransmit now ns)
    with s live_retransmit [of now ns d] retransmit_keeps [of now ns d] show ?thesis by auto
  qed
  have cfg: "dt_configuration d1 = dt_configuration d" using step by auto
  note ih = Cons.IH [of d1 outs', unfolded cfg, OF Cons.prems(1,2) r']
  from step show ?case
  proof
    assume "live out = [] \<and> dt_configuration d1 = dt_configuration d \<and>
      dt_next_sequence_number d1 = dt_next_sequence_number d"
    with ih show ?thesis by (simp add: outs)
  next
    assume "\<exists>f. live out = [f] \<and> sealed_as (dt_configuration d) (dt_next_sequence_number d) f \<and>
      dt_configuration d1 = dt_configuration d \<and> dt_next_sequence_number d1 = dt_next_sequence_number d + 1"
    then obtain f where f: "live out = [f]" "sealed_as (dt_configuration d) (dt_next_sequence_number d) f"
      "dt_next_sequence_number d1 = dt_next_sequence_number d + 1" by blast
    show ?thesis
    proof (intro allI impI)
      fix i assume "i < length (live outs)"
      with f ih show "sealed_as (dt_configuration d) (dt_next_sequence_number d + word_of_nat i) (live outs ! i)"
        by (cases i) (simp_all add: outs add.assoc)
    qed
  qed
qed

section \<open>The cache over a history\<close>

fun op_time :: "duration \<Rightarrow> dt_op \<Rightarrow> duration" where
  "op_time t (OpForward now _ _ _ _) = now"
| "op_time t (OpTarget _) = t"
| "op_time t (OpRetransmit now _) = now"

fun clocked :: "duration \<Rightarrow> dt_op list \<Rightarrow> bool" where
  "clocked t [] = True"
| "clocked t (op # ops) = (t \<le> op_time t op \<and> clocked (op_time t op) ops)"

fun clock_after :: "duration \<Rightarrow> dt_op list \<Rightarrow> duration" where
  "clock_after t [] = t"
| "clock_after t (op # ops) = clock_after (op_time t op) ops"

lemma cache_orderly_packet:
  assumes "cache.orderly t d" and "t \<le> now"
  shows "cache.orderly now (cache_packet now f d)"
proof (cases "dt_cache_capacity d = 0")
  case True
  then have "cache_packet now f d = expire_cache now d" by (simp add: cache_packet_def Let_def)
  with cache.orderly_expire [OF cache.orderly_later [OF assms]] show ?thesis by simp
next
  case False
  with cache.orderly_push [OF assms, of "\<lparr>cp_inserted_at = now, cp_packet = f\<rparr>"] show ?thesis by simp
qed

lemma dt_step_cache:
  assumes "dt_step op d = (out, d')"
  shows "cp_packet ` set (dt_cache d') \<subseteq> cp_packet ` set (dt_cache d) \<union> set (live out)"
    and "dt_cache_capacity d' = dt_cache_capacity d" and "dt_cache_age d' = dt_cache_age d"
    and "cache.orderly t d \<Longrightarrow> t \<le> op_time t op \<Longrightarrow> cache.orderly (op_time t op) d'"
proof -
  have "cp_packet ` set (dt_cache d') \<subseteq> cp_packet ` set (dt_cache d) \<union> set (live out) \<and>
    dt_cache_capacity d' = dt_cache_capacity d \<and> dt_cache_age d' = dt_cache_age d \<and>
    (cache.orderly t d \<longrightarrow> t \<le> op_time t op \<longrightarrow> cache.orderly (op_time t op) d')"
  proof (cases op)
    case (OpForward now track l info input)
    from dt_step_forward [OF assms [unfolded OpForward]] show ?thesis
    proof
      assume "out = [] \<and> (\<exists>r. forward now track l info input d = (r, d') \<and> (\<forall>f e. r \<noteq> Inr (Forwarded f e)))"
      then obtain r where fr: "forward now track l info input d = (r, d')"
        and n: "\<forall>f e. r \<noteq> Inr (Forwarded f e)" by blast
      have "dt_cache d' = dt_cache d \<and> dt_cache_capacity d' = dt_cache_capacity d \<and>
          dt_cache_age d' = dt_cache_age d"
      proof (cases r)
        case (Inl e)
        with forward_Inl [of now track l info input d e d'] fr show ?thesis by (auto dest: consumed_keeps)
      next
        case (Inr x)
        with n fr show ?thesis by (cases x) (auto dest: forward_Dropped)
      qed
      then show ?thesis using OpForward by (auto simp: cache.orderly_def)
    next
      assume "\<exists>f e. out = [f] \<and> forward now track l info input d = (Inr (Forwarded f e), d')"
      then obtain f e where o: "out = [f]" and f: "forward now track l info input d = (Inr (Forwarded f e), d')"
        by blast
      from forward_Forwarded [OF f] obtain p :: packet and t' d3 where
        c: "consumed l (p_header p) d = (t', d3)" and d': "d' = cache_packet now f d3" by blast
      note k = consumed_keeps(4-6) [OF c]
      have "live out = [f]" using o forward_seals(2) [OF f] by (simp add: live_def)
      moreover have "cp_packet ` set (dt_cache d') \<subseteq> cp_packet ` set (dt_cache d) \<union> {f}"
        unfolding d' using cache_packet_set [of now f d3] k by auto
      moreover have "dt_cache_age d' = dt_cache_age d" "dt_cache_capacity d' = dt_cache_capacity d"
        unfolding d' using k by (simp_all add: cache_packet_def Let_def)
      moreover have "cache.orderly now d'" if "cache.orderly t d" "t \<le> now"
        unfolding d' using that k by (intro cache_orderly_packet) (auto simp: cache.orderly_def)
      ultimately show ?thesis using OpForward by simp
    qed
  next
    case (OpTarget l)
    with assms show ?thesis by (auto simp: cache.orderly_def)
  next
    case (OpRetransmit now ns)
    with assms have d': "d' = expire_cache now d" using retransmit_keeps [of now ns d] by simp
    show ?thesis
      unfolding d' using set_expire_cache [of now d] cache.orderly_expire cache.orderly_later OpRetransmit
      by auto
  qed
  then show "cp_packet ` set (dt_cache d') \<subseteq> cp_packet ` set (dt_cache d) \<union> set (live out)"
    and "dt_cache_capacity d' = dt_cache_capacity d" and "dt_cache_age d' = dt_cache_age d"
    and "cache.orderly t d \<Longrightarrow> t \<le> op_time t op \<Longrightarrow> cache.orderly (op_time t op) d'"
    by blast+
qed

lemma dt_run_cache:
  assumes "dt_run ops d = (outs, d')"
  shows "cp_packet ` set (dt_cache d') \<subseteq> cp_packet ` set (dt_cache d) \<union> set (live outs) \<and>
    dt_cache_capacity d' = dt_cache_capacity d \<and> dt_cache_age d' = dt_cache_age d \<and>
    (cache.orderly t d \<longrightarrow> clocked t ops \<longrightarrow> cache.orderly (clock_after t ops) d')"
  using assms
proof (induction ops arbitrary: d outs t)
  case Nil
  then show ?case by simp
next
  case (Cons op ops)
  obtain out d1 where s: "dt_step op d = (out, d1)" by fastforce
  obtain outs' d2 where r: "dt_run ops d1 = (outs', d2)" by fastforce
  from Cons.prems s r have outs: "outs = out @ outs'" and r': "dt_run ops d1 = (outs', d')" by simp_all
  note ih = Cons.IH [where t = "op_time t op", OF r']
  have "cp_packet ` set (dt_cache d') \<subseteq> cp_packet ` set (dt_cache d1) \<union> set (live outs')"
    using ih by (elim conjE)
  also have "\<dots> \<subseteq> (cp_packet ` set (dt_cache d) \<union> set (live out)) \<union> set (live outs')"
    using dt_step_cache(1) [OF s] by (intro Un_mono) simp_all
  finally have "cp_packet ` set (dt_cache d') \<subseteq> cp_packet ` set (dt_cache d) \<union> set (live outs)"
    by (simp add: outs Un_assoc)
  with ih dt_step_cache(2,3) [OF s] dt_step_cache(4) [OF s, of t] show ?case by simp
qed

lemma dt_step_keeps:
  assumes "dt_step op d = (out, d')"
  shows "dt_configuration d' = dt_configuration d"
    and "length (dt_cache d) \<le> dt_cache_capacity d \<Longrightarrow> length (dt_cache d') \<le> dt_cache_capacity d'"
proof -
  have "dt_configuration d' = dt_configuration d \<and>
    (length (dt_cache d) \<le> dt_cache_capacity d \<longrightarrow> length (dt_cache d') \<le> dt_cache_capacity d')"
  proof (cases op)
    case (OpForward now track l info input)
    from dt_step_forward [OF assms [unfolded OpForward]] show ?thesis
    proof
      assume "out = [] \<and> (\<exists>r. forward now track l info input d = (r, d') \<and> (\<forall>f e. r \<noteq> Inr (Forwarded f e)))"
      then obtain r where fr: "forward now track l info input d = (r, d')"
        and n: "\<forall>f e. r \<noteq> Inr (Forwarded f e)" by blast
      show ?thesis
      proof (cases r)
        case (Inl e)
        with forward_Inl [of now track l info input d e d'] fr show ?thesis
          by (auto simp: consumed_keeps(1,4,5))
      next
        case (Inr x)
        with n fr show ?thesis by (cases x) (auto dest: forward_Dropped)
      qed
    next
      assume "\<exists>f e. out = [f] \<and> forward now track l info input d = (Inr (Forwarded f e), d')"
      then obtain f e where f: "forward now track l info input d = (Inr (Forwarded f e), d')" by blast
      from forward_Forwarded [OF f] obtain p :: packet and t' d3 where
        c: "consumed l (p_header p) d = (t', d3)" and d': "d' = cache_packet now f d3" by blast
      from consumed_keeps [OF c] cache_packet_length [of d3 now f] show ?thesis by (simp add: d')
    qed
  next
    case (OpTarget l)
    with assms show ?thesis by auto
  next
    case (OpRetransmit now ns)
    with assms retransmit_keeps [of now ns d] have "d' = expire_cache now d" by simp
    with length_expire_cache [of now d] show ?thesis by simp
  qed
  then show "dt_configuration d' = dt_configuration d"
    and "length (dt_cache d) \<le> dt_cache_capacity d \<Longrightarrow> length (dt_cache d') \<le> dt_cache_capacity d'"
    by blast+
qed

lemma dt_run_keeps:
  assumes "dt_run ops d = (outs, d')"
  shows "dt_configuration d' = dt_configuration d \<and>
    (length (dt_cache d) \<le> dt_cache_capacity d \<longrightarrow> length (dt_cache d') \<le> dt_cache_capacity d')"
  using assms
proof (induction ops arbitrary: d outs)
  case Nil
  then show ?case by simp
next
  case (Cons op ops)
  obtain out d1 where s: "dt_step op d = (out, d1)" by fastforce
  obtain outs' d2 where r: "dt_run ops d1 = (outs', d2)" by fastforce
  with Cons.prems s have "dt_run ops d1 = (outs', d')" by simp
  from Cons.IH [OF this] dt_step_keeps [OF s] show ?case by simp
qed

lemma find_SomeD: "find P xs = Some x \<Longrightarrow> x \<in> set xs" "find P xs = Some x \<Longrightarrow> P x"
  by (induction xs) (auto split: if_splits)

text \<open>Everything a down-track sends goes to its subscriber, under its subscription.\<close>

definition addressed :: "subscription_config \<Rightarrow> forwarded_packet \<Rightarrow> bool" where
  "addressed cfg f \<longleftrightarrow> fp_subscriber f = sc_subscriber cfg \<and> fp_subscription_id f = sc_id cfg"

lemma retransmit_from_cache:
  assumes "retransmit now ns d = (rs, d')" and "r \<in> set rs"
  shows "\<exists>c\<in>set (dt_cache d). r = (cp_packet c)\<lparr>fp_retransmission := True\<rparr> \<and> (\<exists>n\<in>set ns. cached_as n c)"
proof -
  from assms obtain n c where n: "n \<in> set ns"
    and c: "find (cached_as n) (rev (dt_cache (expire_cache now d))) = Some c"
    and r: "r = (cp_packet c)\<lparr>fp_retransmission := True\<rparr>"
    by (auto simp: retransmit_def Let_def List.map_filter_def)
  from find_SomeD [OF c] set_expire_cache [of now d] n r show ?thesis by auto
qed

lemma dt_step_addressed:
  assumes s: "dt_step op d = (out, d')" and a: "\<forall>c\<in>set (dt_cache d). addressed (dt_configuration d) (cp_packet c)"
  shows "\<forall>f\<in>set out. addressed (dt_configuration d) f"
proof (cases op)
  case (OpForward now track l info input)
  from dt_step_forward [OF s [unfolded OpForward]] show ?thesis
    by (auto dest: forward_seals(1) simp: addressed_def sealed_as_def)
next
  case (OpTarget l)
  with s show ?thesis by auto
next
  case (OpRetransmit now ns)
  with s have "retransmit now ns d = (out, d')" by simp
  from retransmit_from_cache [OF this] a show ?thesis by (fastforce simp: addressed_def)
qed

lemma cached_all:
  assumes "f ` A \<subseteq> f ` B \<union> C" and "\<forall>b\<in>B. P (f b)" and "\<forall>c\<in>C. P c"
  shows "\<forall>a\<in>A. P (f a)"
proof
  fix a assume "a \<in> A"
  with assms(1) have "f a \<in> f ` B \<union> C" by blast
  with assms(2,3) show "P (f a)" by (elim UnE imageE) simp_all
qed

lemma dt_run_addressed:
  assumes "dt_run ops d = (outs, d')" and "\<forall>c\<in>set (dt_cache d). addressed (dt_configuration d) (cp_packet c)"
  shows "\<forall>f\<in>set outs. addressed (dt_configuration d) f"
    and "\<forall>c\<in>set (dt_cache d'). addressed (dt_configuration d) (cp_packet c)"
proof -
  show outs: "\<forall>f\<in>set outs. addressed (dt_configuration d) f" using assms
  proof (induction ops arbitrary: d outs)
    case Nil
    then show ?case by simp
  next
    case (Cons op ops)
    obtain out d1 where s: "dt_step op d = (out, d1)" by fastforce
    obtain outs' d2 where r: "dt_run ops d1 = (outs', d2)" by fastforce
    from Cons.prems s r have outs: "outs = out @ outs'" and r': "dt_run ops d1 = (outs', d')" by simp_all
    have o: "\<forall>f\<in>set out. addressed (dt_configuration d) f" by (rule dt_step_addressed [OF s Cons.prems(2)])
    have cfg: "dt_configuration d1 = dt_configuration d" by (rule dt_step_keeps(1) [OF s])
    have "\<forall>c\<in>set (dt_cache d1). addressed (dt_configuration d1) (cp_packet c)" unfolding cfg
      by (rule cached_all [OF dt_step_cache(1) [OF s] Cons.prems(2)]) (use o in \<open>simp add: live_def\<close>)
    from Cons.IH [OF r' this] o show ?case by (auto simp: outs cfg)
  qed
  show "\<forall>c\<in>set (dt_cache d'). addressed (dt_configuration d) (cp_packet c)"
    by (rule cached_all [OF dt_run_cache [OF assms(1), THEN conjunct1] assms(2)])
      (use outs in \<open>simp add: live_def\<close>)
qed

lemma dt_run_append:
  "dt_run (xs @ ys) d = (let (a, d1) = dt_run xs d; (b, d2) = dt_run ys d1 in (a @ b, d2))"
  by (induction xs arbitrary: d) (simp_all add: Let_def split: prod.split)

lemma orderly_new: "cache.orderly 0 (dt_new cfg track n a)"
  by (simp add: cache.orderly_def dt_new_def Let_def)

section \<open>Timestamps\<close>

lemma rewrite_timestamp_affine:
  assumes "rewrite_timestamp t switched d = (out, d')" and "dt_current_input_ssrc d = None \<Longrightarrow> switched"
  shows "out = dt_output_timestamp_base d' + (t - dt_input_timestamp_base d')"
    and "\<not> switched \<Longrightarrow> dt_output_timestamp_base d' = dt_output_timestamp_base d \<and>
      dt_input_timestamp_base d' = dt_input_timestamp_base d"
    and "switched \<Longrightarrow> dt_current_input_ssrc d \<noteq> None \<Longrightarrow> dt_last_output_timestamp d = Some previous \<Longrightarrow>
      out = previous + dt_timestamp_step d"
  using assms unfolding rewrite_timestamp_def Let_def
  by (auto split: if_splits option.splits prod.splits)

lemma forward_timestamps:
  assumes "forward now track l info input d = (Inr (Forwarded f ev), d')"
  shows "\<exists>p q. parse input = Inr p \<and> parse (fp_packet f) = Inr q \<and>
    h_timestamp (p_header q) = dt_output_timestamp_base d' +
      (h_timestamp (p_header p) - dt_input_timestamp_base d') \<and>
    dt_current_input_ssrc d' = Some (h_ssrc (p_header p)) \<and>
    (dt_current_input_ssrc d = Some (h_ssrc (p_header p)) \<longrightarrow>
       dt_output_timestamp_base d' = dt_output_timestamp_base d \<and>
       dt_input_timestamp_base d' = dt_input_timestamp_base d)"
proof -
  from forward_Forwarded [OF assms] obtain p q :: packet and t d3 where p: "parse input = Inr p"
    and c: "consumed l (p_header p) d = (t, d3)" and d': "d' = cache_packet now f d3"
    and q: "parse (fp_packet f) = Inr q" "p_header q = rewrite_header (output_rewrite d t) (p_header p)"
    by blast
  let ?sw = "dt_current_input_ssrc d \<noteq> Some (h_ssrc (p_header p))"
  obtain u d1 where r: "rewrite_timestamp (h_timestamp (p_header p)) ?sw d = (u, d1)" by fastforce
  have "t = u" using consumed_keeps(10) [OF c] r by simp
  moreover have "dt_output_timestamp_base d3 = dt_output_timestamp_base d1"
    "dt_input_timestamp_base d3 = dt_input_timestamp_base d1"
    using c r by (auto simp: consumed_def Let_def)
  ultimately have b: "dt_output_timestamp_base d' = dt_output_timestamp_base d1"
    "dt_input_timestamp_base d' = dt_input_timestamp_base d1"
    by (simp_all add: d' cache_packet_def expire_cache_def Let_def)
  from rewrite_timestamp_affine(1,2) [OF r] b \<open>t = u\<close> p q consumed_keeps(7) [OF c]
  show ?thesis by (auto simp: rewrite_header_def output_rewrite_def d')
qed

section \<open>Properties\<close>

text \<open>A subscriber sees one continuous stream. However the publisher's packets interleave, are
  lost, or switch between simulcast layers, the packets a down-track without extension rewrites
  forwards carry consecutive 16-bit sequence numbers from the configured start on, always under the
  subscription's own SSRC and payload type, and addressed to its subscriber.\<close>

lemma down_track_continuous:
  assumes "dt_run ops (dt_new cfg track capacity age) = (outs, d)"
    and "sc_extension_rewrites cfg = []" and "sc_output_payload_type cfg \<le> 127"
  shows "\<forall>i < length (live outs).
    sealed_as cfg (sc_initial_sequence_number cfg + word_of_nat i) (live outs ! i)"
  using dt_run_continuous [OF _ _ assms(1)] assms(2,3) by (simp add: dt_new_def Let_def)

text \<open>C18. The retransmission cache. After any history under a clock that does not run backwards, the
  cache holds at most its capacity; what a NACK retrieves are exact copies, marked as
  retransmissions, of packets this very down-track forwarded before, each no older than the cache
  age and carrying a requested sequence number; and every requested number still in the cache is
  answered.\<close>

theorem retransmissions_faithful:
  assumes "dt_run ops (dt_new cfg track capacity age) = (outs, d)" and "clocked 0 ops"
    and "clock_after 0 ops \<le> now" and "retransmit now ns d = (rs, d')"
  shows "length (dt_cache d') \<le> capacity \<and>
    (\<forall>r\<in>set rs. \<exists>c\<in>set (dt_cache d'). now - cp_inserted_at c \<le> age \<and> cp_packet c \<in> set (live outs) \<and>
       r = (cp_packet c)\<lparr>fp_retransmission := True\<rparr> \<and> (\<exists>n\<in>set ns. cached_as n c)) \<and>
    (\<forall>n\<in>set ns. (\<exists>c\<in>set (dt_cache d'). cached_as n c) \<longrightarrow>
       (\<exists>r\<in>set rs. \<exists>q. parse (fp_packet r) = Inr q \<and> h_sequence_number (p_header q) = n))"
proof -
  have init: "dt_cache (dt_new cfg track capacity age) = []"
    "dt_cache_capacity (dt_new cfg track capacity age) = capacity"
    "dt_cache_age (dt_new cfg track capacity age) = age"
    by (simp_all add: dt_new_def Let_def)
  from dt_run_cache [OF assms(1), where t = 0] orderly_new assms(2)
  have sub: "cp_packet ` set (dt_cache d) \<subseteq> set (live outs)" and cap: "dt_cache_capacity d = capacity"
    and age: "dt_cache_age d = age" and ord: "cache.orderly (clock_after 0 ops) d"
    unfolding init by simp_all
  have d': "d' = expire_cache now d" using assms(4) retransmit_keeps [of now ns d] by simp
  have young: "\<forall>c\<in>set (dt_cache d'). now - cp_inserted_at c \<le> age \<and> cp_packet c \<in> set (live outs)"
    unfolding d' using cache.expire_exact [OF ord, of now] age sub by auto
  have rs: "rs = List.map_filter (\<lambda>n. map_option (\<lambda>c. (cp_packet c)\<lparr>fp_retransmission := True\<rparr>)
      (find (cached_as n) (rev (dt_cache d')))) ns"
    using assms(4) by (simp add: retransmit_def Let_def d')
  have len: "length (dt_cache d') \<le> capacity"
    using cache.orderly_expire [OF ord, of now] cap by (simp add: cache.orderly_def d')
  have "\<exists>c\<in>set (dt_cache d'). now - cp_inserted_at c \<le> age \<and> cp_packet c \<in> set (live outs) \<and>
       r = (cp_packet c)\<lparr>fp_retransmission := True\<rparr> \<and> (\<exists>n\<in>set ns. cached_as n c)" if "r \<in> set rs" for r
  proof -
    from that obtain n c where n: "n \<in> set ns" and c: "find (cached_as n) (rev (dt_cache d')) = Some c"
      and r: "r = (cp_packet c)\<lparr>fp_retransmission := True\<rparr>"
      unfolding rs List.map_filter_def by auto
    from find_SomeD [OF c] have "c \<in> set (dt_cache d')" "cached_as n c" by simp_all
    with young n r show ?thesis by blast
  qed
  moreover have "\<exists>r\<in>set rs. \<exists>q. parse (fp_packet r) = Inr q \<and> h_sequence_number (p_header q) = n"
    if n: "n \<in> set ns" and c: "\<exists>c\<in>set (dt_cache d'). cached_as n c" for n
  proof -
    from c have "find (cached_as n) (rev (dt_cache d')) \<noteq> None" unfolding find_None_iff by auto
    then obtain x where x: "find (cached_as n) (rev (dt_cache d')) = Some x" by blast
    then have "cached_as n x" by (rule find_SomeD(2))
    moreover have "(cp_packet x)\<lparr>fp_retransmission := True\<rparr> \<in> set rs"
      unfolding rs List.map_filter_def using n x by force
    ultimately show ?thesis
      by (intro bexI [of _ "(cp_packet x)\<lparr>fp_retransmission := True\<rparr>"])
        (auto simp: cached_as_def split: sum.splits)
  qed
  ultimately show ?thesis using len by blast
qed

text \<open>Switching and pacing. A video packet of a layer that is not the selected one is forwarded
  only if that layer is the target and the packet starts a keyframe; no packet above the target
  temporal layer is forwarded; payload, marker, CSRCs and padding are untouched; and two packets
  forwarded one after the other from the same source are as far apart in time as they were at the
  publisher.\<close>

lemma forwarding_gated:
  assumes "forward now track l info input d = (Inr (Forwarded f ev), d')"
    and "forward now2 track2 l2 info2 input2 d' = (Inr (Forwarded f2 ev2), d'')"
  shows "\<exists>p q p2 q2. parse input = Inr p \<and> parse (fp_packet f) = Inr q \<and>
    parse input2 = Inr p2 \<and> parse (fp_packet f2) = Inr q2 \<and>
    (pt_kind track = Video \<and> dt_selected_spatial d \<noteq> Some l \<longrightarrow>
       pi_keyframe info \<and> pi_start_of_frame info \<and> l = ly_spatial (dt_target_layer d)) \<and>
    (\<forall>t. pi_temporal_id info = Some t \<longrightarrow> t \<le> ly_temporal (dt_target_layer d)) \<and>
    p_payload q = p_payload p \<and> p_padding_len q = p_padding_len p \<and>
    h_marker (p_header q) = h_marker (p_header p) \<and> h_csrcs (p_header q) = h_csrcs (p_header p) \<and>
    (h_ssrc (p_header p2) = h_ssrc (p_header p) \<longrightarrow>
       h_timestamp (p_header q2) - h_timestamp (p_header q) =
       h_timestamp (p_header p2) - h_timestamp (p_header p))"
proof -
  from forward_timestamps [OF assms(1)] obtain p q :: packet where p: "parse input = Inr p"
    and q: "parse (fp_packet f) = Inr q"
    and t: "h_timestamp (p_header q) = dt_output_timestamp_base d' +
      (h_timestamp (p_header p) - dt_input_timestamp_base d')"
    and s: "dt_current_input_ssrc d' = Some (h_ssrc (p_header p))" by blast
  from forward_timestamps [OF assms(2)] obtain p2 q2 :: packet where p2: "parse input2 = Inr p2"
    "parse (fp_packet f2) = Inr q2"
    and t2: "h_timestamp (p_header q2) = dt_output_timestamp_base d'' +
      (h_timestamp (p_header p2) - dt_input_timestamp_base d'')"
    and same: "dt_current_input_ssrc d' = Some (h_ssrc (p_header p2)) \<longrightarrow>
       dt_output_timestamp_base d'' = dt_output_timestamp_base d' \<and>
       dt_input_timestamp_base d'' = dt_input_timestamp_base d'" by blast
  from forward_Forwarded [OF assms(1)] p q obtain u where el: "eligible track l info d"
    and h: "p_header q = rewrite_header (output_rewrite d u) (p_header p)"
    and rest: "p_payload q = p_payload p" "p_padding_len q = p_padding_len p" by auto
  have "h_timestamp (p_header q2) - h_timestamp (p_header q) =
      h_timestamp (p_header p2) - h_timestamp (p_header p)" if "h_ssrc (p_header p2) = h_ssrc (p_header p)"
    using t t2 same s that by simp
  moreover have "h_marker (p_header q) = h_marker (p_header p)" "h_csrcs (p_header q) = h_csrcs (p_header p)"
    using h by (simp_all add: rewrite_header_def output_rewrite_def)
  ultimately show ?thesis using p q p2 el rest unfolding eligible_def by blast
qed


text \<open>C19. Nothing eligible is withheld. Take a well-formed packet of the selected layer, or one of the
  target layer that is audio or starts a keyframe, not above the target temporal layer. It is
  forwarded if the output payload type fits its seven bits (which \<open>subscribe\<close> demands) and the
  configured extension rewrites succeed on the packet as it arrived, in particular if none are
  configured; otherwise the call returns an RTP error, and in no case is the packet dropped silently. A
  forwarded packet carries the publisher's payload, is the newest entry of the retransmission cache
  if its capacity is not zero, and one from a new source makes its layer the selected one and reports
  the switch.\<close>

theorem forward_complete:
  assumes "parse input = Inr p"
    and "dt_selected_spatial d = Some l \<or> l = ly_spatial (dt_target_layer d) \<and>
      (pt_kind track = Audio \<or> pi_keyframe info \<and> pi_start_of_frame info)"
    and "\<forall>t. pi_temporal_id info = Some t \<longrightarrow> t \<le> ly_temporal (dt_target_layer d)"
  shows "if sc_output_payload_type (dt_configuration d) \<le> 127 \<and>
      is_ok (rewrite_header_extensions input (sc_extension_rewrites (dt_configuration d)))
    then \<exists>f ev d' q. forward now track l info input d = (Inr (Forwarded f ev), d') \<and>
      fp_keyframe f = pi_keyframe info \<and> parse (fp_packet f) = Inr q \<and> p_payload q = p_payload p \<and>
      (0 < dt_cache_capacity d \<longrightarrow> last (dt_cache d') = \<lparr>cp_inserted_at = now, cp_packet = f\<rparr>) \<and>
      (dt_current_input_ssrc d \<noteq> Some (h_ssrc (p_header p)) \<longrightarrow> dt_selected_spatial d' = Some l \<and>
         ev = Some (LayerSwitched (sc_id (dt_configuration d)) (dt_selected_spatial d) l))
    else \<exists>e d'. forward now track l info input d = (Inl (SfuRtp e), d')"
proof -
  have el: "eligible track l info d" using assms(2,3) by (auto simp: eligible_def)
  obtain t d3 where c: "consumed l (p_header p) d = (t, d3)" by fastforce
  note outcome = forward_outcome [OF el assms(1) c, of now]
  show ?thesis
  proof (cases "sc_output_payload_type (dt_configuration d) \<le> 127 \<and>
      is_ok (rewrite_header_extensions input (sc_extension_rewrites (dt_configuration d)))")
    case True
    with outcome obtain f ev where f: "forward now track l info input d =
        (Inr (Forwarded f ev), cache_packet now f d3)" by auto
    have "last (dt_cache (cache_packet now f d3)) = \<lparr>cp_inserted_at = now, cp_packet = f\<rparr>"
      if "0 < dt_cache_capacity d"
      using that consumed_keeps(5) [OF c] by (simp add: cache_packet_def Let_def)
    moreover from forward_Forwarded [OF f] assms(1) obtain q where "fp_keyframe f = pi_keyframe info"
      "parse (fp_packet f) = Inr q" "p_payload q = p_payload p"
      "dt_current_input_ssrc d \<noteq> Some (h_ssrc (p_header p)) \<Longrightarrow>
         ev = Some (LayerSwitched (sc_id (dt_configuration d)) (dt_selected_spatial d) l)" by auto
    ultimately show ?thesis using f True consumed_keeps(9) [OF c] by auto
  next
    case False
    with outcome show ?thesis by auto
  qed
qed

section \<open>A small run\<close>

definition sample_rtp :: "u8 \<Rightarrow> u8 \<Rightarrow> bytes" where
  "sample_rtp n t = [0x80, 111, 0, n, 0, 0, 0, t, 0, 0, 0, 77, 1, 2]"

definition sample_track :: published_track where
  "sample_track = \<lparr>pt_id = TrackId 1, pt_owner = ParticipantId 1, pt_kind = Audio, pt_codec = Opus,
     pt_clock_rate = 48000, pt_payload_type = 111,
     pt_encodings = [\<lparr>en_ssrc = 77, en_rid = None, en_spatial_layer = 0, en_max_bitrate_bps = 64000\<rparr>]\<rparr>"

definition sample_config :: subscription_config where
  "sample_config = \<lparr>sc_id = SubscriptionId 1, sc_subscriber = ParticipantId 2, sc_track_id = TrackId 1,
     sc_output_ssrc = 500, sc_output_payload_type = 96,
     sc_initial_layer = \<lparr>ly_spatial = 0, ly_temporal = 0\<rparr>, sc_initial_sequence_number = 65535,
     sc_initial_timestamp = 1000, sc_extension_rewrites = []\<rparr>"

definition sample_info :: payload_info where
  "sample_info = \<lparr>pi_start_of_frame = True, pi_end_of_frame = True, pi_keyframe = True,
     pi_temporal_id = None, pi_spatial_id = None\<rparr>"

definition sample_ops :: "dt_op list" where
  "sample_ops = [OpForward 3 sample_track 0 sample_info (sample_rtp 5 10),
     OpForward 4 sample_track 0 sample_info (sample_rtp 9 30)]"

definition sample_out :: "u8 \<Rightarrow> u8 \<Rightarrow> u8 \<Rightarrow> u8 \<Rightarrow> forwarded_packet" where
  "sample_out a b c d = \<lparr>fp_subscriber = ParticipantId 2, fp_subscription_id = SubscriptionId 1,
     fp_packet = [0x80, 96, a, b, 0, 0, c, d, 0, 0, 1, 244, 1, 2],
     fp_layer = \<lparr>ly_spatial = 0, ly_temporal = 0\<rparr>, fp_keyframe = True, fp_retransmission = False\<rparr>"

lemmas sample_defs = sample_rtp_def sample_track_def sample_config_def sample_info_def sample_out_def

lemmas sample_eval = sample_defs forward_def rewrite_apply_def rewrite_fields_def Rtp_Packet.splice_def
  rewrite_header_extensions_def rewrite_timestamp_def cache_packet_def expire_cache_def parse_eval Let_def

definition sample_state :: "u32 \<Rightarrow> u16 \<Rightarrow> cached_packet list \<Rightarrow> down_track" where
  "sample_state last_timestamp next_number cached =
     \<lparr>dt_configuration = sample_config, dt_target_layer = \<lparr>ly_spatial = 0, ly_temporal = 0\<rparr>,
      dt_selected_spatial = Some 0, dt_current_input_ssrc = Some 77, dt_input_timestamp_base = 10,
      dt_output_timestamp_base = 1000, dt_last_output_timestamp = Some last_timestamp,
      dt_timestamp_step = (if last_timestamp = 1000 then 960 else 20), dt_next_sequence_number = next_number,
      dt_cache = cached, dt_cache_capacity = 2, dt_cache_age = 5\<rparr>"

lemma sample_first:
  "forward 3 sample_track 0 sample_info (sample_rtp 5 10) (dt_new sample_config sample_track 2 5) =
     (Inr (Forwarded (sample_out 255 255 3 232) (Some (LayerSwitched (SubscriptionId 1) None 0))),
      sample_state 1000 0 [\<lparr>cp_inserted_at = 3, cp_packet = sample_out 255 255 3 232\<rparr>])"
  by (simp add: sample_eval dt_new_def sample_state_def)

lemma sample_second:
  "forward 4 sample_track 0 sample_info (sample_rtp 9 30)
       (sample_state 1000 0 [\<lparr>cp_inserted_at = 3, cp_packet = sample_out 255 255 3 232\<rparr>]) =
     (Inr (Forwarded (sample_out 0 0 3 252) None),
      sample_state 1020 1 [\<lparr>cp_inserted_at = 3, cp_packet = sample_out 255 255 3 232\<rparr>,
        \<lparr>cp_inserted_at = 4, cp_packet = sample_out 0 0 3 252\<rparr>])"
  by (simp add: sample_eval sample_state_def)

lemma sample_run:
  "dt_run sample_ops (dt_new sample_config sample_track 2 5) =
     ([sample_out 255 255 3 232, sample_out 0 0 3 252],
      sample_state 1020 1 [\<lparr>cp_inserted_at = 3, cp_packet = sample_out 255 255 3 232\<rparr>,
        \<lparr>cp_inserted_at = 4, cp_packet = sample_out 0 0 3 252\<rparr>])"
  by (simp add: sample_ops_def sample_first sample_second)

lemma sample_live: "live [sample_out 255 255 3 232, sample_out 0 0 3 252] =
    [sample_out 255 255 3 232, sample_out 0 0 3 252]"
  by (simp add: live_def sample_out_def)

lemma sample_retransmit:
  "retransmit 9 [4, 0] (sample_state 1020 1 [\<lparr>cp_inserted_at = 3, cp_packet = sample_out 255 255 3 232\<rparr>,
        \<lparr>cp_inserted_at = 4, cp_packet = sample_out 0 0 3 252\<rparr>]) =
     ([(sample_out 0 0 3 252)\<lparr>fp_retransmission := True\<rparr>],
      sample_state 1020 1 [\<lparr>cp_inserted_at = 4, cp_packet = sample_out 0 0 3 252\<rparr>])"
  by (simp add: retransmit_def cached_as_def List.map_filter_def sample_eval sample_state_def)

lemma down_track_continuous_witness:
  "sealed_as sample_config 65535 (sample_out 255 255 3 232) \<and>
   sealed_as sample_config 0 (sample_out 0 0 3 252)"
proof -
  have "\<forall>i < length (live [sample_out 255 255 3 232, sample_out 0 0 3 252]).
    sealed_as sample_config (sc_initial_sequence_number sample_config + word_of_nat i)
      (live [sample_out 255 255 3 232, sample_out 0 0 3 252] ! i)"
    by (rule down_track_continuous [OF sample_run]) (simp_all add: sample_config_def)
  note all = this [unfolded sample_live, rule_format]
  have "sc_initial_sequence_number sample_config + word_of_nat 0 = 65535"
    "sc_initial_sequence_number sample_config + word_of_nat 1 = 0" by (simp_all add: sample_config_def)
  with all [of 0] all [of 1] show ?thesis by (simp only: list.size nth_Cons_0 nth_Cons_Suc One_nat_def)
qed

theorem retransmissions_faithful_witness:
  "\<exists>c. cp_packet c = sample_out 0 0 3 252 \<and> 9 - cp_inserted_at c \<le> 5 \<and> cached_as 0 c"
proof -
  have "\<forall>r\<in>set [(sample_out 0 0 3 252)\<lparr>fp_retransmission := True\<rparr>].
    \<exists>c\<in>set (dt_cache (sample_state 1020 1 [\<lparr>cp_inserted_at = 4, cp_packet = sample_out 0 0 3 252\<rparr>])).
      9 - cp_inserted_at c \<le> 5 \<and> cp_packet c \<in> set (live [sample_out 255 255 3 232, sample_out 0 0 3 252]) \<and>
      r = (cp_packet c)\<lparr>fp_retransmission := True\<rparr> \<and> (\<exists>n\<in>set [4, 0]. cached_as n c)"
    using retransmissions_faithful [OF sample_run _ _ sample_retransmit]
    by (simp add: sample_ops_def)
  moreover have "\<not> cached_as 4 \<lparr>cp_inserted_at = 4, cp_packet = sample_out 0 0 3 252\<rparr>"
    by (simp add: cached_as_def sample_eval)
  ultimately show ?thesis
    by (intro exI [of _ "\<lparr>cp_inserted_at = 4, cp_packet = sample_out 0 0 3 252\<rparr>"])
      (auto simp: sample_state_def)
qed

lemma forwarding_gated_witness:
  "\<exists>p q p2 q2. parse (sample_rtp 5 10) = Inr p \<and> parse (fp_packet (sample_out 255 255 3 232)) = Inr q \<and>
     parse (sample_rtp 9 30) = Inr p2 \<and> parse (fp_packet (sample_out 0 0 3 252)) = Inr q2 \<and>
     p_payload q = p_payload p \<and>
     (h_ssrc (p_header p2) = h_ssrc (p_header p) \<longrightarrow>
      h_timestamp (p_header q2) - h_timestamp (p_header q) =
      h_timestamp (p_header p2) - h_timestamp (p_header p))"
  using forwarding_gated [OF sample_first sample_second] by blast

theorem forward_complete_witness:
  "(\<exists>f ev d'. forward 3 sample_track 0 sample_info (sample_rtp 5 10)
      (dt_new sample_config sample_track 2 5) = (Inr (Forwarded f ev), d') \<and>
    last (dt_cache d') = \<lparr>cp_inserted_at = 3, cp_packet = f\<rparr>) \<and>
   (\<exists>e d'. forward 3 sample_track 0 sample_info (sample_rtp 5 10)
      (dt_new (sample_config\<lparr>sc_extension_rewrites :=
         [\<lparr>xr_source_id = 1, xr_destination_id = Some 4, xr_replacement = None\<rparr>]\<rparr>) sample_track 2 5) =
      (Inl (SfuRtp e), d'))"
  (is "?A \<and> ?B")
proof -
  have "\<exists>p. parse (sample_rtp 5 10) = Inr p \<and> p_extension_format p = None" by (simp add: sample_eval)
  then obtain p where p: "parse (sample_rtp 5 10) = Inr p" "p_extension_format p = None" by blast
  let ?rs = "[\<lparr>xr_source_id = 1, xr_destination_id = Some 4, xr_replacement = None\<rparr>]"
  define d where "d = dt_new sample_config sample_track 2 5"
  define d2 where "d2 = dt_new (sample_config\<lparr>sc_extension_rewrites := ?rs\<rparr>) sample_track 2 5"
  note defs = dt_new_def sample_defs Let_def
  have c: "dt_cache_capacity d = 2" "sc_output_payload_type (dt_configuration d) \<le> 127"
    "sc_extension_rewrites (dt_configuration d) = []" "dt_selected_spatial d = None"
    "dt_target_layer d = \<lparr>ly_spatial = 0, ly_temporal = 0\<rparr>"
    "sc_extension_rewrites (dt_configuration d2) = ?rs" "dt_selected_spatial d2 = None"
    "dt_target_layer d2 = \<lparr>ly_spatial = 0, ly_temporal = 0\<rparr>"
    unfolding d_def d2_def by (simp_all add: defs)
  have i: "pt_kind sample_track = Audio" "pi_temporal_id sample_info = None" by (simp_all add: defs)
  have "is_ok (rewrite_header_extensions (sample_rtp 5 10) [])"
    by (simp add: rewrite_header_extensions_def)
  with forward_complete [OF p(1), of d 0 sample_track sample_info 3] c i
  have "\<exists>f ev d'. forward 3 sample_track 0 sample_info (sample_rtp 5 10) d = (Inr (Forwarded f ev), d') \<and>
      last (dt_cache d') = \<lparr>cp_inserted_at = 3, cp_packet = f\<rparr>" by auto
  moreover have "\<not> is_ok (rewrite_header_extensions (sample_rtp 5 10) ?rs)"
    by (simp add: rewrite_header_extensions_def p)
  with forward_complete [OF p(1), of d2 0 sample_track sample_info 3] c i
  have "\<exists>e d'. forward 3 sample_track 0 sample_info (sample_rtp 5 10) d2 = (Inl (SfuRtp e), d')" by auto
  ultimately show ?thesis unfolding d_def d2_def ..
qed

end
