(* ===== verification/Sfu_Room.thy ===== *)
theory Sfu_Room
  imports Rtcp Sfu_DownTrack
begin

text \<open>
  One room of the selective forwarding unit, \<open>crates/webrtc/sfu-core/src/room.rs\<close>: published
  tracks, the index from incoming SSRCs to simulcast layers, subscriptions with their indexes, and
  the throttling of keyframe requests. The five hash maps are kept as the code keeps them; where the
  code iterates over the values of a hash map, whose order the language does not fix, the order is an
  argument. Durations are in nanoseconds.
\<close>

section \<open>State\<close>

record room_config =
  rc_max_tracks :: nat
  rc_max_subscriptions :: nat
  rc_retransmission_cache_packets :: nat
  rc_retransmission_cache_age :: duration
  rc_pli_throttle :: duration

definition room_config_default :: room_config where
  "room_config_default = \<lparr>rc_max_tracks = 1024, rc_max_subscriptions = 16384,
     rc_retransmission_cache_packets = 2048, rc_retransmission_cache_age = 2000000000,
     rc_pli_throttle = 500000000\<rparr>"

record sfu_room =
  sr_configuration :: room_config
  sr_tracks :: "(track_id, published_track) hash_map"
  sr_ssrc_index :: "(u32, track_id \<times> u8) hash_map"
  sr_subscriptions :: "(subscription_id, down_track) hash_map"
  sr_track_subscriptions :: "(track_id, subscription_id list) hash_map"
  sr_output_ssrc_index :: "(u32, subscription_id) hash_map"
  sr_last_pli :: "(u32, duration) hash_map"

record forward_outcome =
  fo_packets :: "forwarded_packet list"
  fo_events :: "sfu_event list"

record control_output =
  co_retransmissions :: "forwarded_packet list"
  co_events :: "sfu_event list"

type_synonym value_order = "(subscription_id \<times> down_track) list \<Rightarrow> (subscription_id \<times> down_track) list"

abbreviation dt_subscriber :: "down_track \<Rightarrow> participant_id" where
  "dt_subscriber d \<equiv> sc_subscriber (dt_configuration d)"

abbreviation dt_track_id :: "down_track \<Rightarrow> track_id" where
  "dt_track_id d \<equiv> sc_track_id (dt_configuration d)"

abbreviation dt_output_ssrc :: "down_track \<Rightarrow> u32" where
  "dt_output_ssrc d \<equiv> sc_output_ssrc (dt_configuration d)"

definition sfu_new :: "room_config \<Rightarrow> sfu_room" where
  "sfu_new configuration =
     \<lparr>sr_configuration = configuration, sr_tracks = [], sr_ssrc_index = [], sr_subscriptions = [],
      sr_track_subscriptions = [], sr_output_ssrc_index = [], sr_last_pli = []\<rparr>"

section \<open>Publishing\<close>

definition validate_track :: "published_track \<Rightarrow> (sfu_error, unit) result" where
  "validate_track track =
     (if pt_encodings track = [] \<or> pt_clock_rate track = 0 then Inl InvalidEncodings
      else if \<not> is_rtcp_mux_safe_payload_type (pt_payload_type track)
        then Inl (SfuInvalidPayloadType (pt_payload_type track))
      else
        let unique_ssrcs = en_ssrc ` set (pt_encodings track);
            unique_layers = en_spatial_layer ` set (pt_encodings track) in
        if card unique_ssrcs \<noteq> length (pt_encodings track) \<or>
           card unique_layers \<noteq> length (pt_encodings track) then Inl InvalidEncodings
        else Inr ())"

definition publish :: "published_track \<Rightarrow> sfu_room \<Rightarrow> (sfu_error, unit) result \<times> sfu_room" where
  "publish track r =
     (case validate_track track of
        Inl e \<Rightarrow> (Inl e, r)
      | Inr _ \<Rightarrow>
          if hm_contains (sr_tracks r) (pt_id track) then (Inl (DuplicateTrack (pt_id track)), r)
          else if length (sr_tracks r) \<ge> rc_max_tracks (sr_configuration r)
            then (Inl (ResourceLimit ''published track''), r)
          else if \<exists>e\<in>set (pt_encodings track). hm_contains (sr_ssrc_index r) (en_ssrc e)
            then (Inl InvalidEncodings, r)
          else (Inr (), r
            \<lparr>sr_ssrc_index := foldl (\<lambda>m e. hm_insert (en_ssrc e) (pt_id track, en_spatial_layer e) m)
               (sr_ssrc_index r) (pt_encodings track),
             sr_tracks := hm_insert (pt_id track) track (sr_tracks r)\<rparr>))"

definition find_published_track :: "track_id \<Rightarrow> sfu_room \<Rightarrow> published_track option" where
  "find_published_track track r = hm_get (sr_tracks r) track"

definition remove_subscription :: "subscription_id \<Rightarrow> sfu_room \<Rightarrow> bool \<times> sfu_room" where
  "remove_subscription sid r =
     (case hm_get (sr_subscriptions r) sid of
        None \<Rightarrow> (False, r)
      | Some subscription \<Rightarrow>
          let r1 = r\<lparr>sr_subscriptions := hm_remove sid (sr_subscriptions r),
                sr_output_ssrc_index := hm_remove (dt_output_ssrc subscription) (sr_output_ssrc_index r)\<rparr> in
          (True,
           case hm_get (sr_track_subscriptions r1) (dt_track_id subscription) of
             None \<Rightarrow> r1
           | Some ids \<Rightarrow>
               let kept = filter (\<lambda>candidate. candidate \<noteq> sid) ids in
               r1\<lparr>sr_track_subscriptions :=
                 (if kept = [] then hm_remove (dt_track_id subscription) (sr_track_subscriptions r1)
                  else hm_insert (dt_track_id subscription) kept (sr_track_subscriptions r1))\<rparr>))"

definition unpublish :: "track_id \<Rightarrow> sfu_room \<Rightarrow> bool \<times> sfu_room" where
  "unpublish track_key r =
     (case hm_get (sr_tracks r) track_key of
        None \<Rightarrow> (False, r)
      | Some track \<Rightarrow>
          let r1 = r\<lparr>sr_tracks := hm_remove track_key (sr_tracks r)\<rparr>;
              r2 = foldl (\<lambda>q e. q\<lparr>sr_ssrc_index := hm_remove (en_ssrc e) (sr_ssrc_index q),
                sr_last_pli := hm_remove (en_ssrc e) (sr_last_pli q)\<rparr>) r1 (pt_encodings track) in
          (True,
           case hm_get (sr_track_subscriptions r2) track_key of
             None \<Rightarrow> r2
           | Some subscriptions \<Rightarrow>
               foldl (\<lambda>q sid. snd (remove_subscription sid q))
                 (r2\<lparr>sr_track_subscriptions := hm_remove track_key (sr_track_subscriptions r2)\<rparr>)
                 subscriptions))"

section \<open>Subscribing\<close>

definition subscribe :: "subscription_config \<Rightarrow> sfu_room \<Rightarrow> (sfu_error, unit) result \<times> sfu_room" where
  "subscribe configuration r =
     (if hm_contains (sr_subscriptions r) (sc_id configuration)
        then (Inl (DuplicateSubscription (sc_id configuration)), r)
      else if hm_contains (sr_output_ssrc_index r) (sc_output_ssrc configuration)
        then (Inl InvalidEncodings, r)
      else if \<not> is_rtcp_mux_safe_payload_type (sc_output_payload_type configuration)
        then (Inl (SfuInvalidPayloadType (sc_output_payload_type configuration)), r)
      else if length (sr_subscriptions r) \<ge> rc_max_subscriptions (sr_configuration r)
        then (Inl (ResourceLimit ''subscription''), r)
      else
        (case hm_get (sr_tracks r) (sc_track_id configuration) of
           None \<Rightarrow> (Inl (UnknownTrack (sc_track_id configuration)), r)
         | Some track \<Rightarrow>
             if track_encoding track (ly_spatial (sc_initial_layer configuration)) = None
               then (Inl (UnknownSpatialLayer (ly_spatial (sc_initial_layer configuration))), r)
             else
               let down_track = dt_new configuration track
                     (rc_retransmission_cache_packets (sr_configuration r))
                     (rc_retransmission_cache_age (sr_configuration r)) in
               (Inr (), r
                 \<lparr>sr_output_ssrc_index :=
                    hm_insert (sc_output_ssrc configuration) (sc_id configuration) (sr_output_ssrc_index r),
                  sr_track_subscriptions := hm_insert (sc_track_id configuration)
                    ((case hm_get (sr_track_subscriptions r) (sc_track_id configuration) of
                        None \<Rightarrow> [] | Some ids \<Rightarrow> ids) @ [sc_id configuration])
                    (sr_track_subscriptions r),
                  sr_subscriptions := hm_insert (sc_id configuration) down_track (sr_subscriptions r)\<rparr>)))"

definition unsubscribe :: "subscription_id \<Rightarrow> sfu_room \<Rightarrow> bool \<times> sfu_room" where
  "unsubscribe sid r = remove_subscription sid r"

section \<open>Keyframe requests and target layers\<close>

definition maybe_pli :: "duration \<Rightarrow> track_id \<Rightarrow> u32 \<Rightarrow> sfu_room \<Rightarrow> sfu_event option \<times> sfu_room" where
  "maybe_pli now track_key media_ssrc r =
     (if (case hm_get (sr_last_pli r) media_ssrc of
            None \<Rightarrow> False
          | Some previous \<Rightarrow> now - previous < rc_pli_throttle (sr_configuration r))
      then (None, r)
      else (Some (PliRequest track_key media_ssrc),
            r\<lparr>sr_last_pli := hm_insert media_ssrc now (sr_last_pli r)\<rparr>))"

definition room_set_target_layer :: "duration \<Rightarrow> participant_id \<Rightarrow> subscription_id \<Rightarrow> layer \<Rightarrow> sfu_room \<Rightarrow>
    (sfu_error, sfu_event list) result \<times> sfu_room" where
  "room_set_target_layer now subscriber sid l r =
     (case hm_get (sr_subscriptions r) sid of
        None \<Rightarrow> (Inl (UnknownSubscription sid), r)
      | Some down_track \<Rightarrow>
          if dt_subscriber down_track \<noteq> subscriber then (Inl (UnauthorizedParticipant subscriber), r)
          else
            let track_key = dt_track_id down_track;
                (changed, down_track') = dt_set_target_layer l down_track;
                r1 = r\<lparr>sr_subscriptions := hm_insert sid down_track' (sr_subscriptions r)\<rparr> in
            (case hm_get (sr_tracks r1) track_key of
               None \<Rightarrow> (Inl (UnknownTrack track_key), r1)
             | Some track \<Rightarrow>
                 (case track_encoding track (ly_spatial l) of
                    None \<Rightarrow> (Inl (UnknownSpatialLayer (ly_spatial l)), r1)
                  | Some enc \<Rightarrow>
                      if changed \<and> pt_kind track = Video then
                        (let (event, r2) = maybe_pli now track_key (en_ssrc enc) r1 in
                         (Inr (case event of None \<Rightarrow> [] | Some e \<Rightarrow> [e]), r2))
                      else (Inr [], r1))))"

section \<open>Media\<close>

text \<open>The loop of \<open>handle_rtp\<close> over the subscriptions of a track. An error ends it, with the
  down-tracks served so far, and the failing one, already changed.\<close>

fun forward_all :: "duration \<Rightarrow> published_track \<Rightarrow> u8 \<Rightarrow> payload_info \<Rightarrow> bytes \<Rightarrow> subscription_id list \<Rightarrow>
    (subscription_id, down_track) hash_map \<Rightarrow> forward_outcome \<Rightarrow> bool \<Rightarrow>
    (sfu_error, forward_outcome \<times> bool) result \<times> (subscription_id, down_track) hash_map" where
  "forward_all now track spatial_layer info input [] subscriptions out needs_pli =
     (Inr (out, needs_pli), subscriptions)"
| "forward_all now track spatial_layer info input (sid # ids) subscriptions out needs_pli =
     (case hm_get subscriptions sid of
        None \<Rightarrow> forward_all now track spatial_layer info input ids subscriptions out needs_pli
      | Some down_track \<Rightarrow>
          let (decision, down_track') = forward now track spatial_layer info input down_track;
              subscriptions' = hm_insert sid down_track' subscriptions in
          (case decision of
             Inl e \<Rightarrow> (Inl e, subscriptions')
           | Inr (Forwarded p event) \<Rightarrow>
               forward_all now track spatial_layer info input ids subscriptions'
                 (out\<lparr>fo_packets := fo_packets out @ [p],
                   fo_events := fo_events out @ (case event of None \<Rightarrow> [] | Some e \<Rightarrow> [e])\<rparr>) needs_pli
           | Inr (Dropped waiting_for_keyframe) \<Rightarrow>
               forward_all now track spatial_layer info input ids subscriptions' out
                 (needs_pli \<or> waiting_for_keyframe)))"

definition waiting_target :: "value_order \<Rightarrow> track_id \<Rightarrow> published_track \<Rightarrow>
    (subscription_id, down_track) hash_map \<Rightarrow> encoding option" where
  "waiting_target order track_key track subscriptions =
     (case find (\<lambda>(_, d). dt_track_id d = track_key \<and>
               dt_selected_spatial d \<noteq> Some (ly_spatial (dt_target_layer d))) (order subscriptions) of
        None \<Rightarrow> None
      | Some (_, d) \<Rightarrow> track_encoding track (ly_spatial (dt_target_layer d)))"

definition handle_rtp :: "value_order \<Rightarrow> duration \<Rightarrow> participant_id \<Rightarrow> bytes \<Rightarrow> sfu_room \<Rightarrow>
    (sfu_error, forward_outcome) result \<times> sfu_room" where
  "handle_rtp order now publisher input r =
     (case parse input of
        Inl e \<Rightarrow> (Inl (SfuRtp e), r)
      | Inr parsed \<Rightarrow>
          (case hm_get (sr_ssrc_index r) (h_ssrc (p_header parsed)) of
             None \<Rightarrow> (Inl (UnknownSsrc (h_ssrc (p_header parsed))), r)
           | Some (track_key, spatial_layer) \<Rightarrow>
               (case hm_get (sr_tracks r) track_key of
                  None \<Rightarrow> (Inl (UnknownTrack track_key), r)
                | Some track \<Rightarrow>
                    if pt_owner track \<noteq> publisher then (Inl (UnauthorizedParticipant publisher), r)
                    else if h_payload_type (p_header parsed) \<noteq> pt_payload_type track
                      then (Inl (SfuInvalidPayloadType (h_payload_type (p_header parsed))), r)
                    else
                      (case inspect_payload (pt_codec track) (p_payload parsed) (h_marker (p_header parsed)) of
                         Inl e \<Rightarrow> (Inl (SfuPayload e), r)
                       | Inr info \<Rightarrow>
                           let subscription_ids = (case hm_get (sr_track_subscriptions r) track_key of
                                 None \<Rightarrow> [] | Some ids \<Rightarrow> ids);
                               (res, subscriptions) = forward_all now track spatial_layer info input
                                 subscription_ids (sr_subscriptions r)
                                 \<lparr>fo_packets = [], fo_events = []\<rparr> False;
                               r1 = r\<lparr>sr_subscriptions := subscriptions\<rparr> in
                           (case res of
                              Inl e \<Rightarrow> (Inl e, r1)
                            | Inr (out, needs_pli) \<Rightarrow>
                                (case (if needs_pli
                                       then waiting_target order track_key track subscriptions
                                       else None) of
                                   None \<Rightarrow> (Inr out, r1)
                                 | Some target \<Rightarrow>
                                     let (event, r2) = maybe_pli now track_key (en_ssrc target) r1 in
                                     (Inr (out\<lparr>fo_events := fo_events out @
                                        (case event of None \<Rightarrow> [] | Some e \<Rightarrow> [e])\<rparr>), r2)))))))"

section \<open>Feedback\<close>

definition authorized_down_track :: "participant_id \<Rightarrow> u32 \<Rightarrow> sfu_room \<Rightarrow>
    (subscription_id \<times> down_track) option" where
  "authorized_down_track subscriber output_ssrc r =
     (case hm_get (sr_output_ssrc_index r) output_ssrc of
        None \<Rightarrow> None
      | Some sid \<Rightarrow>
          (case hm_get (sr_subscriptions r) sid of
             None \<Rightarrow> None
           | Some d \<Rightarrow> if dt_subscriber d = subscriber then Some (sid, d) else None))"

fun expand_entry :: "nat list \<Rightarrow> nack_entry \<Rightarrow> u16 list \<times> u16 set \<Rightarrow> u16 list \<times> u16 set" where
  "expand_entry [] entry (requested, seen) = (requested, seen)"
| "expand_entry (b # bits) entry (requested, seen) =
     (if ne_lost_packet_bitmask entry AND push_bit b 1 \<noteq> 0 then
        let sequence = ne_packet_id entry + word_of_nat (b + 1) in
        if sequence \<notin> seen
        then expand_entry bits entry (requested @ [sequence], insert sequence seen)
        else expand_entry bits entry (requested, seen)
      else expand_entry bits entry (requested, seen))"

definition expand_nack :: "nack_entry list \<Rightarrow> u16 list" where
  "expand_nack entries =
     fst (foldl (\<lambda>(requested, seen) entry.
        expand_entry [0..<16] entry
          (if ne_packet_id entry \<notin> seen
           then (requested @ [ne_packet_id entry], insert (ne_packet_id entry) seen)
           else (requested, seen))) ([], {}) entries)"

definition handle_rtcp_packet :: "duration \<Rightarrow> participant_id \<Rightarrow> rtcp_packet \<Rightarrow> control_output \<Rightarrow> sfu_room \<Rightarrow>
    control_output \<times> sfu_room" where
  "handle_rtcp_packet now subscriber pkt out r =
     (case pkt of
        GenericNack nack \<Rightarrow>
          let requested = expand_nack (gn_entries nack) in
          (case authorized_down_track subscriber (gn_media_ssrc nack) r of
             None \<Rightarrow> (out, r)
           | Some (sid, d) \<Rightarrow>
               let (packets, d') = retransmit now requested d in
               (out\<lparr>co_retransmissions := co_retransmissions out @ packets\<rparr>,
                r\<lparr>sr_subscriptions := hm_insert sid d' (sr_subscriptions r)\<rparr>))
      | PictureLossIndication pli \<Rightarrow>
          (case (case authorized_down_track subscriber (pli_media_ssrc pli) r of
                   None \<Rightarrow> None
                 | Some (_, d) \<Rightarrow>
                     (case hm_get (sr_tracks r) (dt_track_id d) of
                        None \<Rightarrow> None
                      | Some track \<Rightarrow>
                          map_option (\<lambda>enc. (pt_id track, en_ssrc enc))
                            (track_encoding track (case dt_selected_spatial d of
                               None \<Rightarrow> ly_spatial (dt_target_layer d) | Some s \<Rightarrow> s)))) of
             None \<Rightarrow> (out, r)
           | Some (track_key, media_ssrc) \<Rightarrow>
               let (event, r') = maybe_pli now track_key media_ssrc r in
               (out\<lparr>co_events := co_events out @ (case event of None \<Rightarrow> [] | Some e \<Rightarrow> [e])\<rparr>, r'))
      | TransportWideFeedback feedback \<Rightarrow>
          (out\<lparr>co_events := co_events out @ [TransportFeedback subscriber feedback]\<rparr>, r)
      | _ \<Rightarrow> (out, r))"

fun handle_rtcp_packets :: "duration \<Rightarrow> participant_id \<Rightarrow> rtcp_packet list \<Rightarrow> control_output \<Rightarrow> sfu_room \<Rightarrow>
    control_output \<times> sfu_room" where
  "handle_rtcp_packets now subscriber [] out r = (out, r)"
| "handle_rtcp_packets now subscriber (p # ps) out r =
     (let (out', r') = handle_rtcp_packet now subscriber p out r in
      handle_rtcp_packets now subscriber ps out' r')"

definition handle_rtcp :: "duration \<Rightarrow> participant_id \<Rightarrow> bytes \<Rightarrow> sfu_room \<Rightarrow>
    (sfu_error, control_output) result \<times> sfu_room" where
  "handle_rtcp now subscriber input r =
     (case parse_compound input of
        Inl e \<Rightarrow> (Inl (SfuRtcp e), r)
      | Inr packets \<Rightarrow>
          let (out, r') = handle_rtcp_packets now subscriber packets
                \<lparr>co_retransmissions = [], co_events = []\<rparr> r in
          (Inr out, r'))"

section \<open>Lost packets named by a NACK\<close>

text \<open>The 16-bit sequence numbers an entry names: its own, and one per bit of its bitmask.\<close>

definition nacked :: "nack_entry \<Rightarrow> u16 set" where
  "nacked entry = insert (ne_packet_id entry)
     {ne_packet_id entry + word_of_nat (b + 1) |b. b < 16 \<and> bit (ne_lost_packet_bitmask entry) b}"

lemma and_single_bit: "(m AND push_bit b 1 \<noteq> 0) = bit m b" for m :: u16
  by (simp add: push_bit_of_1 and_exp_eq_0_iff_not_bit)

lemma expand_entry_exact:
  assumes "distinct requested" and "seen = set requested"
  shows "case expand_entry bits entry (requested, seen) of (requested', seen') \<Rightarrow>
    distinct requested' \<and> seen' = set requested' \<and> set requested' = set requested \<union>
      {ne_packet_id entry + word_of_nat (b + 1) |b. b \<in> set bits \<and> bit (ne_lost_packet_bitmask entry) b}"
  using assms
proof (induction bits arbitrary: requested seen)
  case Nil
  then show ?case by simp
next
  case (Cons b bits)
  let ?n = "ne_packet_id entry + word_of_nat (b + 1)"
  let ?s = "\<lambda>bs. {ne_packet_id entry + word_of_nat (b + 1) |b. b \<in> set bs \<and> bit (ne_lost_packet_bitmask entry) b}"
  have s: "?s (b # bits) = (if bit (ne_lost_packet_bitmask entry) b then {?n} else {}) \<union> ?s bits" by auto
  show ?case
  proof (cases "bit (ne_lost_packet_bitmask entry) b \<and> ?n \<notin> seen")
    case True
    have "distinct (requested @ [?n])" "insert ?n seen = set (requested @ [?n])"
      using Cons.prems True by auto
    from Cons.IH [OF this] True show ?thesis
      unfolding s expand_entry.simps and_single_bit Let_def by (auto simp del: expand_entry.simps)
  next
    case False
    with Cons.IH [OF Cons.prems] Cons.prems show ?thesis
      unfolding s expand_entry.simps and_single_bit Let_def by (auto simp del: expand_entry.simps)
  qed
qed

lemma expand_nack_exact: "distinct (expand_nack entries) \<and> set (expand_nack entries) = \<Union> (nacked ` set entries)"
proof -
  let ?f = "\<lambda>(requested, seen) entry. expand_entry [0..<16] entry
          (if ne_packet_id entry \<notin> seen
           then (requested @ [ne_packet_id entry], insert (ne_packet_id entry) seen)
           else (requested, seen))"
  have "case foldl ?f (requested, seen) entries of (requested', seen') \<Rightarrow>
      distinct requested' \<and> seen' = set requested' \<and>
      set requested' = set requested \<union> \<Union> (nacked ` set entries)"
    if "distinct requested" "seen = set requested" for requested seen
    using that
  proof (induction entries arbitrary: requested seen)
    case Nil
    then show ?case by simp
  next
    case (Cons x xs)
    let ?n = "ne_packet_id x"
    obtain q v where qv: "?f (requested, seen) x = (q, v)" by fastforce
    have "distinct q \<and> v = set q \<and> set q = set requested \<union> nacked x"
    proof (cases "?n \<in> seen")
      case True
      with expand_entry_exact [where bits = "[0..<16]" and entry = x, OF Cons.prems] qv Cons.prems(2) show ?thesis
        by (auto simp: nacked_def)
    next
      case False
      with Cons.prems have "distinct (requested @ [?n])" "insert ?n seen = set (requested @ [?n])" by auto
      from expand_entry_exact [where bits = "[0..<16]" and entry = x, OF this] qv False show ?thesis
        by (auto simp: nacked_def)
    qed
    with Cons.IH [of q v] qv show ?case by auto
  qed
  from this [of "[]" "{}"] show ?thesis by (auto simp: expand_nack_def split: prod.splits)
qed

section \<open>The room invariant\<close>

text \<open>Tracks are valid and filed under their identifier, within the limit; the SSRC index lists
  exactly their encodings.\<close>

definition tracks_ok :: "sfu_room \<Rightarrow> bool" where
  "tracks_ok r \<longleftrightarrow>
     hm_wf (sr_tracks r) \<and> hm_wf (sr_ssrc_index r) \<and>
     length (sr_tracks r) \<le> rc_max_tracks (sr_configuration r) \<and>
     (\<forall>t track. hm_get (sr_tracks r) t = Some track \<longrightarrow> pt_id track = t \<and> validate_track track = Inr ()) \<and>
     (\<forall>s t l. hm_get (sr_ssrc_index r) s = Some (t, l) \<longleftrightarrow>
        (\<exists>track. hm_get (sr_tracks r) t = Some track \<and>
           (\<exists>e\<in>set (pt_encodings track). en_ssrc e = s \<and> en_spatial_layer e = l)))"

text \<open>A down-track keeps to the room's limits, and its cache to its subscriber.\<close>

definition dt_fits :: "room_config \<Rightarrow> down_track \<Rightarrow> bool" where
  "dt_fits c d \<longleftrightarrow> is_rtcp_mux_safe_payload_type (sc_output_payload_type (dt_configuration d)) \<and>
     dt_cache_capacity d = rc_retransmission_cache_packets c \<and>
     dt_cache_age d = rc_retransmission_cache_age c \<and> length (dt_cache d) \<le> dt_cache_capacity d \<and>
     (\<forall>c\<in>set (dt_cache d). addressed (dt_configuration d) (cp_packet c))"

text \<open>Every subscription is filed under its identifier, is for a published track, and is listed
  exactly once in each of the two indexes; the indexes list nothing else.\<close>

definition subscriptions_ok :: "sfu_room \<Rightarrow> bool" where
  "subscriptions_ok r \<longleftrightarrow>
     hm_wf (sr_subscriptions r) \<and> hm_wf (sr_track_subscriptions r) \<and> hm_wf (sr_output_ssrc_index r) \<and>
     length (sr_subscriptions r) \<le> rc_max_subscriptions (sr_configuration r) \<and>
     (\<forall>i d. hm_get (sr_subscriptions r) i = Some d \<longrightarrow>
        sc_id (dt_configuration d) = i \<and> hm_get (sr_tracks r) (dt_track_id d) \<noteq> None \<and>
        hm_get (sr_output_ssrc_index r) (dt_output_ssrc d) = Some i \<and>
        (\<exists>ids. hm_get (sr_track_subscriptions r) (dt_track_id d) = Some ids \<and> i \<in> set ids) \<and>
        dt_fits (sr_configuration r) d) \<and>
     (\<forall>s i. hm_get (sr_output_ssrc_index r) s = Some i \<longrightarrow>
        (\<exists>d. hm_get (sr_subscriptions r) i = Some d \<and> dt_output_ssrc d = s)) \<and>
     (\<forall>t ids. hm_get (sr_track_subscriptions r) t = Some ids \<longrightarrow> ids \<noteq> [] \<and> distinct ids \<and>
        (\<forall>i\<in>set ids. \<exists>d. hm_get (sr_subscriptions r) i = Some d \<and> dt_track_id d = t))"

text \<open>Keyframe requests are remembered only for live sources, so this map is bounded too.\<close>

definition pli_ok :: "sfu_room \<Rightarrow> bool" where
  "pli_ok r \<longleftrightarrow> hm_wf (sr_last_pli r) \<and>
     (\<forall>s. hm_get (sr_last_pli r) s \<noteq> None \<longrightarrow> hm_get (sr_ssrc_index r) s \<noteq> None)"

definition sfu_invariant :: "sfu_room \<Rightarrow> bool" where
  "sfu_invariant r \<longleftrightarrow> tracks_ok r \<and> subscriptions_ok r \<and> pli_ok r"

lemma sfu_invariantD:
  assumes "sfu_invariant r"
  shows "tracks_ok r" and "subscriptions_ok r" and "pli_ok r"
  using assms by (simp_all add: sfu_invariant_def)

lemma tracks_ok_cong:
  "sr_tracks r' = sr_tracks r \<Longrightarrow> sr_ssrc_index r' = sr_ssrc_index r \<Longrightarrow>
     sr_configuration r' = sr_configuration r \<Longrightarrow> tracks_ok r' = tracks_ok r"
  unfolding tracks_ok_def by presburger

lemma pli_ok_cong:
  "sr_last_pli r' = sr_last_pli r \<Longrightarrow> sr_ssrc_index r' = sr_ssrc_index r \<Longrightarrow> pli_ok r' = pli_ok r"
  unfolding pli_ok_def by presburger

lemma subscription_at:
  assumes "subscriptions_ok r" and "hm_get (sr_subscriptions r) i = Some d"
  shows "sc_id (dt_configuration d) = i" and "\<exists>track. hm_get (sr_tracks r) (dt_track_id d) = Some track"
    and "hm_get (sr_output_ssrc_index r) (dt_output_ssrc d) = Some i"
    and "\<exists>ids. hm_get (sr_track_subscriptions r) (dt_track_id d) = Some ids \<and> i \<in> set ids"
    and "dt_fits (sr_configuration r) d"
  using assms unfolding subscriptions_ok_def by blast+

lemma listed_subscriptions:
  assumes "subscriptions_ok r" and "hm_get (sr_track_subscriptions r) t = Some ids"
  shows "ids \<noteq> []" and "distinct ids"
    and "i \<in> set ids \<longleftrightarrow> (\<exists>d. hm_get (sr_subscriptions r) i = Some d \<and> dt_track_id d = t)"
proof -
  show "ids \<noteq> []" and "distinct ids" using assms unfolding subscriptions_ok_def by blast+
  show "i \<in> set ids \<longleftrightarrow> (\<exists>d. hm_get (sr_subscriptions r) i = Some d \<and> dt_track_id d = t)"
  proof
    assume "i \<in> set ids"
    with assms show "\<exists>d. hm_get (sr_subscriptions r) i = Some d \<and> dt_track_id d = t"
      unfolding subscriptions_ok_def by blast
  next
    assume "\<exists>d. hm_get (sr_subscriptions r) i = Some d \<and> dt_track_id d = t"
    then obtain d where "hm_get (sr_subscriptions r) i = Some d" "dt_track_id d = t" by blast
    with subscription_at(4) [OF assms(1)] assms(2) show "i \<in> set ids" by fastforce
  qed
qed

lemma track_encoding_in:
  "track_encoding track l = Some e \<Longrightarrow> e \<in> set (pt_encodings track) \<and> en_spatial_layer e = l"
  unfolding track_encoding_def by (auto dest: find_SomeD)

lemma validate_track_distinct:
  assumes "validate_track track = Inr ()"
  shows "distinct (map en_ssrc (pt_encodings track))" and "distinct (map en_spatial_layer (pt_encodings track))"
  using assms by (simp_all add: validate_track_def Let_def card_distinct split: if_splits)

section \<open>Operations keep the invariant\<close>

lemma sfu_new_invariant: "sfu_invariant (sfu_new c)"
  by (simp add: sfu_invariant_def tracks_ok_def subscriptions_ok_def pli_ok_def sfu_new_def)

lemma index_encodings:
  "hm_get (foldl (\<lambda>m e. hm_insert (en_ssrc e) (t, en_spatial_layer e) m) m es) s =
     (case find (\<lambda>e. en_ssrc e = s) (rev es) of Some e \<Rightarrow> Some (t, en_spatial_layer e) | None \<Rightarrow> hm_get m s)"
  "hm_wf m \<Longrightarrow> hm_wf (foldl (\<lambda>m e. hm_insert (en_ssrc e) (t, en_spatial_layer e) m) m es)"
  by (induction es rule: rev_induct) (auto split: option.splits)

lemma find_distinct:
  assumes "distinct (map f xs)"
  shows "find (\<lambda>x. f x = k) xs = Some x \<longleftrightarrow> x \<in> set xs \<and> f x = k"
  using assms by (induction xs) (auto simp: image_iff)

lemma publish_invariant:
  assumes inv: "sfu_invariant r" and p: "publish track r = (res, r')"
  shows "sfu_invariant r'"
proof (cases "r' = r")
  case True
  with inv show ?thesis by simp
next
  case False
  note tracks = sfu_invariantD(1) [OF inv] and subs = sfu_invariantD(2) [OF inv] and pli = sfu_invariantD(3) [OF inv]
  let ?idx = "foldl (\<lambda>m e. hm_insert (en_ssrc e) (pt_id track, en_spatial_layer e) m)
               (sr_ssrc_index r) (pt_encodings track)"
  from p False have v: "validate_track track = Inr ()" and f: "\<not> hm_contains (sr_tracks r) (pt_id track)"
    and room: "length (sr_tracks r) < rc_max_tracks (sr_configuration r)"
    and u: "\<forall>e\<in>set (pt_encodings track). \<not> hm_contains (sr_ssrc_index r) (en_ssrc e)"
    and r': "r' = r\<lparr>sr_ssrc_index := ?idx, sr_tracks := hm_insert (pt_id track) track (sr_tracks r)\<rparr>"
    by (auto simp: publish_def split: sum.splits if_splits)
  from f u have fresh: "hm_get (sr_tracks r) (pt_id track) = None"
    and unused: "\<forall>e\<in>set (pt_encodings track). hm_get (sr_ssrc_index r) (en_ssrc e) = None"
    unfolding hm_contains_def by blast+
  have d: "distinct (map en_ssrc (rev (pt_encodings track)))"
    using validate_track_distinct(1) [OF v] by (simp add: rev_map [symmetric])
  have idx: "hm_get ?idx s = Some (t, l) \<longleftrightarrow>
      (if t = pt_id track then \<exists>e\<in>set (pt_encodings track). en_ssrc e = s \<and> en_spatial_layer e = l
       else hm_get (sr_ssrc_index r) s = Some (t, l))" for s t l
  proof (cases "find (\<lambda>e. en_ssrc e = s) (rev (pt_encodings track))")
    case None
    then have "\<not> (\<exists>e\<in>set (pt_encodings track). en_ssrc e = s)" unfolding find_None_iff by auto
    moreover have "hm_get (sr_ssrc_index r) s \<noteq> Some (pt_id track, l)"
      using tracks fresh by (simp add: tracks_ok_def)
    ultimately show ?thesis using None by (auto simp: index_encodings)
  next
    case (Some e)
    then have e: "e \<in> set (pt_encodings track)" "en_ssrc e = s" using find_distinct [OF d] by simp_all
    have one: "e' = e" if "e' \<in> set (pt_encodings track)" "en_ssrc e' = s" for e'
      using Some find_distinct [OF d, of s e'] that by simp
    have a: "hm_get ?idx s = Some (pt_id track, en_spatial_layer e)" by (simp add: index_encodings Some)
    have b: "hm_get (sr_ssrc_index r) s = None" using unused e(1) unfolding e(2) [symmetric] by blast
    have c: "(\<exists>e\<in>set (pt_encodings track). en_ssrc e = s \<and> en_spatial_layer e = l) \<longleftrightarrow>
        en_spatial_layer e = l" using e one by metis
    show ?thesis unfolding a b c by auto
  qed
  have "hm_wf ?idx" using tracks by (intro index_encodings(2)) (simp add: tracks_ok_def)
  then have "tracks_ok r'"
    using tracks v room fresh unfolding tracks_ok_def r'
    by (simp add: hm_length_insert hm_contains_def idx)
  moreover have "subscriptions_ok r'" using subs unfolding subscriptions_ok_def r' by auto
  moreover have "pli_ok r'"
    using pli unfolding pli_ok_def r' by (auto simp: index_encodings split: option.splits)
  ultimately show ?thesis by (simp add: sfu_invariant_def)
qed

lemma remove_subscription_view:
  assumes "remove_subscription sid r = (b, r')"
  shows "sr_tracks r' = sr_tracks r" and "sr_ssrc_index r' = sr_ssrc_index r"
    and "sr_last_pli r' = sr_last_pli r" and "sr_configuration r' = sr_configuration r"
    and "sr_subscriptions r' = hm_remove sid (sr_subscriptions r)"
    and "hm_get (sr_output_ssrc_index r') s =
      (if \<exists>d. hm_get (sr_subscriptions r) sid = Some d \<and> dt_output_ssrc d = s then None
       else hm_get (sr_output_ssrc_index r) s)"
    and "hm_wf (sr_output_ssrc_index r) \<Longrightarrow> hm_wf (sr_output_ssrc_index r')"
    and "hm_wf (sr_track_subscriptions r) \<Longrightarrow> hm_wf (sr_track_subscriptions r')"
    and "hm_get (sr_track_subscriptions r') t =
      (case hm_get (sr_track_subscriptions r) t of None \<Rightarrow> None
       | Some ids \<Rightarrow>
           if \<exists>d. hm_get (sr_subscriptions r) sid = Some d \<and> dt_track_id d = t
           then (let kept = filter (\<lambda>c. c \<noteq> sid) ids in if kept = [] then None else Some kept)
           else Some ids)"
proof -
  have "sr_tracks r' = sr_tracks r \<and> sr_ssrc_index r' = sr_ssrc_index r \<and>
      sr_last_pli r' = sr_last_pli r \<and> sr_configuration r' = sr_configuration r \<and>
      sr_subscriptions r' = hm_remove sid (sr_subscriptions r)"
    using assms by (auto simp: remove_subscription_def Let_def delete_id [symmetric] map_of_eq_None_iff
        split: option.splits)
  then show "sr_tracks r' = sr_tracks r" and "sr_ssrc_index r' = sr_ssrc_index r"
    and "sr_last_pli r' = sr_last_pli r" and "sr_configuration r' = sr_configuration r"
    and "sr_subscriptions r' = hm_remove sid (sr_subscriptions r)" by simp_all
  show "hm_get (sr_output_ssrc_index r') s =
      (if \<exists>d. hm_get (sr_subscriptions r) sid = Some d \<and> dt_output_ssrc d = s then None
       else hm_get (sr_output_ssrc_index r) s)"
    and "hm_wf (sr_output_ssrc_index r) \<Longrightarrow> hm_wf (sr_output_ssrc_index r')"
    and "hm_wf (sr_track_subscriptions r) \<Longrightarrow> hm_wf (sr_track_subscriptions r')"
    using assms by (auto simp: remove_subscription_def Let_def split: option.splits if_splits)
  show "hm_get (sr_track_subscriptions r') t =
      (case hm_get (sr_track_subscriptions r) t of None \<Rightarrow> None
       | Some ids \<Rightarrow>
           if \<exists>d. hm_get (sr_subscriptions r) sid = Some d \<and> dt_track_id d = t
           then (let kept = filter (\<lambda>c. c \<noteq> sid) ids in if kept = [] then None else Some kept)
           else Some ids)"
    using assms by (auto simp: remove_subscription_def Let_def split: option.splits if_splits)
qed

lemma remove_subscription_ok:
  assumes ok: "subscriptions_ok r" and rm: "remove_subscription sid r = (b, r')"
  shows "subscriptions_ok r'"
proof -
  note view = remove_subscription_view [OF rm]
  have "length (sr_subscriptions r') \<le> rc_max_subscriptions (sr_configuration r')"
    using ok hm_length_remove [of sid "sr_subscriptions r"] unfolding view subscriptions_ok_def by linarith
  moreover have "hm_wf (sr_subscriptions r')" "hm_wf (sr_track_subscriptions r')" "hm_wf (sr_output_ssrc_index r')"
    using ok view(5,7,8) by (simp_all add: subscriptions_ok_def)
  moreover have "sc_id (dt_configuration d) = i \<and> hm_get (sr_tracks r') (dt_track_id d) \<noteq> None \<and>
        hm_get (sr_output_ssrc_index r') (dt_output_ssrc d) = Some i \<and>
        (\<exists>ids. hm_get (sr_track_subscriptions r') (dt_track_id d) = Some ids \<and> i \<in> set ids) \<and>
        dt_fits (sr_configuration r') d" if "hm_get (sr_subscriptions r') i = Some d" for i d
  proof -
    from that have i: "hm_get (sr_subscriptions r) i = Some d" "i \<noteq> sid" by (simp_all add: view split: if_splits)
    note at = subscription_at [OF ok i(1)]
    from at(4) obtain ids where ids: "hm_get (sr_track_subscriptions r) (dt_track_id d) = Some ids" "i \<in> set ids"
      by blast
    have "\<exists>ids. hm_get (sr_track_subscriptions r') (dt_track_id d) = Some ids \<and> i \<in> set ids"
      using ids i(2) by (auto simp: view(9) Let_def filter_empty_conv)
    moreover have "\<not> (\<exists>d'. hm_get (sr_subscriptions r) sid = Some d' \<and> dt_output_ssrc d' = dt_output_ssrc d)"
      using subscription_at(3) [OF ok] at(3) i(2) by fastforce
    ultimately show ?thesis using at by (simp add: view(1,4,6))
  qed
  moreover have "\<exists>d. hm_get (sr_subscriptions r') i = Some d \<and> dt_output_ssrc d = s"
    if "hm_get (sr_output_ssrc_index r') s = Some i" for s i
  proof -
    from that have "hm_get (sr_output_ssrc_index r) s = Some i"
      and n: "\<not> (\<exists>d. hm_get (sr_subscriptions r) sid = Some d \<and> dt_output_ssrc d = s)"
      by (simp_all add: view(6) split: if_splits)
    with ok obtain d where "hm_get (sr_subscriptions r) i = Some d" "dt_output_ssrc d = s"
      unfolding subscriptions_ok_def by blast
    with n show ?thesis by (auto simp: view(5))
  qed
  moreover have "ids \<noteq> [] \<and> distinct ids \<and>
        (\<forall>i\<in>set ids. \<exists>d. hm_get (sr_subscriptions r') i = Some d \<and> dt_track_id d = t)"
    if "hm_get (sr_track_subscriptions r') t = Some ids" for t ids
  proof -
    from that obtain ids0 where o: "hm_get (sr_track_subscriptions r) t = Some ids0"
      by (auto simp: view(9) split: option.splits)
    note l = listed_subscriptions [OF ok o]
    show ?thesis
    proof (cases "\<exists>d. hm_get (sr_subscriptions r) sid = Some d \<and> dt_track_id d = t")
      case True
      with that o have "ids = filter (\<lambda>c. c \<noteq> sid) ids0" "ids \<noteq> []"
        by (auto simp: view(9) Let_def split: if_splits)
      with l show ?thesis by (auto simp: view(5))
    next
      case False
      then have "ids = ids0" using that o by (simp only: view(9) option.case if_False option.inject)
      with l False show ?thesis by (auto simp: view(5))
    qed
  qed
  ultimately show ?thesis unfolding subscriptions_ok_def by blast
qed

lemma remove_subscription_invariant:
  assumes inv: "sfu_invariant r" and rm: "remove_subscription sid r = (b, r')"
  shows "sfu_invariant r'"
  using inv remove_subscription_ok [OF sfu_invariantD(2) [OF inv] rm] remove_subscription_view(1-4) [OF rm]
    tracks_ok_cong [of r' r] pli_ok_cong [of r' r] by (simp add: sfu_invariant_def)

lemma remove_all_view:
  defines "rest \<equiv> foldl (\<lambda>q sid. snd (remove_subscription sid q))"
  shows "sr_tracks (rest r ids) = sr_tracks r" and "sr_ssrc_index (rest r ids) = sr_ssrc_index r"
    and "sr_last_pli (rest r ids) = sr_last_pli r" and "sr_configuration (rest r ids) = sr_configuration r"
    and "hm_get (sr_subscriptions (rest r ids)) i =
      (if i \<in> set ids then None else hm_get (sr_subscriptions r) i)"
    and "hm_wf (sr_subscriptions r) \<Longrightarrow> hm_wf (sr_subscriptions (rest r ids))"
    and "length (sr_subscriptions (rest r ids)) \<le> length (sr_subscriptions r)"
    and "hm_get (sr_output_ssrc_index (rest r ids)) s =
      (if \<exists>i\<in>set ids. \<exists>d. hm_get (sr_subscriptions r) i = Some d \<and> dt_output_ssrc d = s then None
       else hm_get (sr_output_ssrc_index r) s)"
    and "hm_wf (sr_output_ssrc_index r) \<Longrightarrow> hm_wf (sr_output_ssrc_index (rest r ids))"
    and "hm_wf (sr_track_subscriptions r) \<Longrightarrow> hm_wf (sr_track_subscriptions (rest r ids))"
    and "\<forall>i\<in>set ids. \<forall>d. hm_get (sr_subscriptions r) i = Some d \<longrightarrow> dt_track_id d = t \<Longrightarrow>
      hm_get (sr_track_subscriptions r) t = None \<Longrightarrow>
      hm_get (sr_track_subscriptions (rest r ids)) t' = hm_get (sr_track_subscriptions r) t'"
proof -
  let ?P = "\<lambda>ids r. sr_tracks (rest r ids) = sr_tracks r \<and> sr_ssrc_index (rest r ids) = sr_ssrc_index r \<and>
    sr_last_pli (rest r ids) = sr_last_pli r \<and> sr_configuration (rest r ids) = sr_configuration r \<and>
    (\<forall>i. hm_get (sr_subscriptions (rest r ids)) i =
      (if i \<in> set ids then None else hm_get (sr_subscriptions r) i)) \<and>
    (hm_wf (sr_subscriptions r) \<longrightarrow> hm_wf (sr_subscriptions (rest r ids))) \<and>
    length (sr_subscriptions (rest r ids)) \<le> length (sr_subscriptions r) \<and>
    (\<forall>s. hm_get (sr_output_ssrc_index (rest r ids)) s =
      (if \<exists>i\<in>set ids. \<exists>d. hm_get (sr_subscriptions r) i = Some d \<and> dt_output_ssrc d = s then None
       else hm_get (sr_output_ssrc_index r) s)) \<and>
    (hm_wf (sr_output_ssrc_index r) \<longrightarrow> hm_wf (sr_output_ssrc_index (rest r ids))) \<and>
    (hm_wf (sr_track_subscriptions r) \<longrightarrow> hm_wf (sr_track_subscriptions (rest r ids))) \<and>
    ((\<forall>i\<in>set ids. \<forall>d. hm_get (sr_subscriptions r) i = Some d \<longrightarrow> dt_track_id d = t) \<longrightarrow>
      hm_get (sr_track_subscriptions r) t = None \<longrightarrow>
      (\<forall>t'. hm_get (sr_track_subscriptions (rest r ids)) t' = hm_get (sr_track_subscriptions r) t'))"
  have "?P ids r"
  proof (induction ids arbitrary: r)
    case Nil
    then show ?case by (simp add: rest_def)
  next
    case (Cons x xs)
    obtain b q where q: "remove_subscription x r = (b, q)" by fastforce
    note view = remove_subscription_view [OF q]
    have rest: "rest r (x # xs) = rest q xs" by (simp add: rest_def q)
    have subs: "hm_get (sr_subscriptions q) i = (if i = x then None else hm_get (sr_subscriptions r) i)" for i
      by (simp add: view(5))
    have len: "length (sr_subscriptions q) \<le> length (sr_subscriptions r)"
      by (simp add: view(5) hm_length_remove)
    have ts: "hm_get (sr_track_subscriptions q) t' = hm_get (sr_track_subscriptions r) t'"
      if "\<forall>i\<in>set (x # xs). \<forall>d. hm_get (sr_subscriptions r) i = Some d \<longrightarrow> dt_track_id d = t"
        "hm_get (sr_track_subscriptions r) t = None" for t'
      using that by (auto simp: view(9) split: option.splits)
    have outs: "(\<exists>i\<in>set (x # xs). \<exists>d. hm_get (sr_subscriptions r) i = Some d \<and> dt_output_ssrc d = s) \<longleftrightarrow>
        (\<exists>d. hm_get (sr_subscriptions r) x = Some d \<and> dt_output_ssrc d = s) \<or>
        (\<exists>i\<in>set xs. \<exists>d. hm_get (sr_subscriptions q) i = Some d \<and> dt_output_ssrc d = s)" for s
      using subs by (metis list.set_intros option.distinct(1) set_ConsD)
    note ih = Cons.IH [of q]
    have o: "hm_get (sr_output_ssrc_index (rest q xs)) s =
      (if \<exists>i\<in>set xs. \<exists>d. hm_get (sr_subscriptions q) i = Some d \<and> dt_output_ssrc d = s then None
       else hm_get (sr_output_ssrc_index q) s)" for s using ih by blast
    have "\<forall>i. hm_get (sr_subscriptions (rest q xs)) i =
      (if i \<in> set (x # xs) then None else hm_get (sr_subscriptions r) i)" using ih subs by auto
    moreover have "\<forall>s. hm_get (sr_output_ssrc_index (rest q xs)) s =
      (if \<exists>i\<in>set (x # xs). \<exists>d. hm_get (sr_subscriptions r) i = Some d \<and> dt_output_ssrc d = s then None
       else hm_get (sr_output_ssrc_index r) s)" unfolding outs by (simp only: o view(6) split: if_split) blast
    moreover have "(\<forall>i\<in>set (x # xs). \<forall>d. hm_get (sr_subscriptions r) i = Some d \<longrightarrow> dt_track_id d = t) \<longrightarrow>
      hm_get (sr_track_subscriptions r) t = None \<longrightarrow>
      (\<forall>t'. hm_get (sr_track_subscriptions (rest q xs)) t' = hm_get (sr_track_subscriptions r) t')"
    proof (intro impI)
      assume a: "\<forall>i\<in>set (x # xs). \<forall>d. hm_get (sr_subscriptions r) i = Some d \<longrightarrow> dt_track_id d = t"
        "hm_get (sr_track_subscriptions r) t = None"
      then have "\<forall>i\<in>set xs. \<forall>d. hm_get (sr_subscriptions q) i = Some d \<longrightarrow> dt_track_id d = t"
        by (auto simp: subs)
      with ih ts [OF a] a(2)
      show "\<forall>t'. hm_get (sr_track_subscriptions (rest q xs)) t' = hm_get (sr_track_subscriptions r) t'"
        by simp
    qed
    moreover have "sr_tracks (rest q xs) = sr_tracks r \<and> sr_ssrc_index (rest q xs) = sr_ssrc_index r \<and>
        sr_last_pli (rest q xs) = sr_last_pli r \<and> sr_configuration (rest q xs) = sr_configuration r"
      using ih view(1-4) by (elim conjE) (simp only: simp_thms)
    moreover have "hm_wf (sr_subscriptions r) \<longrightarrow> hm_wf (sr_subscriptions (rest q xs))"
      using ih hm_remove_wf [of "sr_subscriptions r" x] unfolding view(5) by (elim conjE) blast
    moreover have "length (sr_subscriptions (rest q xs)) \<le> length (sr_subscriptions r)"
      using ih len by (elim conjE) (rule le_trans)
    moreover have "hm_wf (sr_output_ssrc_index r) \<longrightarrow> hm_wf (sr_output_ssrc_index (rest q xs))"
      "hm_wf (sr_track_subscriptions r) \<longrightarrow> hm_wf (sr_track_subscriptions (rest q xs))"
      using ih view(7,8) by (elim conjE, blast)+
    ultimately show ?case unfolding rest by blast
  qed
  then show "sr_tracks (rest r ids) = sr_tracks r" and "sr_ssrc_index (rest r ids) = sr_ssrc_index r"
    and "sr_last_pli (rest r ids) = sr_last_pli r" and "sr_configuration (rest r ids) = sr_configuration r"
    and "hm_get (sr_subscriptions (rest r ids)) i =
      (if i \<in> set ids then None else hm_get (sr_subscriptions r) i)"
    and "hm_wf (sr_subscriptions r) \<Longrightarrow> hm_wf (sr_subscriptions (rest r ids))"
    and "length (sr_subscriptions (rest r ids)) \<le> length (sr_subscriptions r)"
    and "hm_get (sr_output_ssrc_index (rest r ids)) s =
      (if \<exists>i\<in>set ids. \<exists>d. hm_get (sr_subscriptions r) i = Some d \<and> dt_output_ssrc d = s then None
       else hm_get (sr_output_ssrc_index r) s)"
    and "hm_wf (sr_output_ssrc_index r) \<Longrightarrow> hm_wf (sr_output_ssrc_index (rest r ids))"
    and "hm_wf (sr_track_subscriptions r) \<Longrightarrow> hm_wf (sr_track_subscriptions (rest r ids))"
    and "\<forall>i\<in>set ids. \<forall>d. hm_get (sr_subscriptions r) i = Some d \<longrightarrow> dt_track_id d = t \<Longrightarrow>
      hm_get (sr_track_subscriptions r) t = None \<Longrightarrow>
      hm_get (sr_track_subscriptions (rest r ids)) t' = hm_get (sr_track_subscriptions r) t'"
    by blast+
qed

lemma unindex_view:
  defines "drop_all \<equiv> foldl (\<lambda>q e. q\<lparr>sr_ssrc_index := hm_remove (en_ssrc e) (sr_ssrc_index q),
                sr_last_pli := hm_remove (en_ssrc e) (sr_last_pli q)\<rparr>)"
  shows "sr_tracks (drop_all r es) = sr_tracks r" and "sr_configuration (drop_all r es) = sr_configuration r"
    and "sr_subscriptions (drop_all r es) = sr_subscriptions r"
    and "sr_track_subscriptions (drop_all r es) = sr_track_subscriptions r"
    and "sr_output_ssrc_index (drop_all r es) = sr_output_ssrc_index r"
    and "hm_get (sr_ssrc_index (drop_all r es)) s = (if s \<in> en_ssrc ` set es then None else hm_get (sr_ssrc_index r) s)"
    and "hm_get (sr_last_pli (drop_all r es)) s = (if s \<in> en_ssrc ` set es then None else hm_get (sr_last_pli r) s)"
    and "hm_wf (sr_ssrc_index r) \<Longrightarrow> hm_wf (sr_ssrc_index (drop_all r es))"
    and "hm_wf (sr_last_pli r) \<Longrightarrow> hm_wf (sr_last_pli (drop_all r es))"
  unfolding drop_all_def by (induction es arbitrary: r) simp_all

text \<open>What \<open>unpublish\<close> leaves behind, map by map.\<close>

lemma unpublish_view:
  assumes ok: "subscriptions_ok r" and t: "hm_get (sr_tracks r) k = Some track" and u: "unpublish k r = (b, r')"
  shows "sr_tracks r' = hm_remove k (sr_tracks r)" and "sr_configuration r' = sr_configuration r"
    and "hm_get (sr_ssrc_index r') s =
      (if s \<in> en_ssrc ` set (pt_encodings track) then None else hm_get (sr_ssrc_index r) s)"
    and "hm_get (sr_last_pli r') s =
      (if s \<in> en_ssrc ` set (pt_encodings track) then None else hm_get (sr_last_pli r) s)"
    and "hm_get (sr_subscriptions r') i = (case hm_get (sr_subscriptions r) i of None \<Rightarrow> None
       | Some d \<Rightarrow> if dt_track_id d = k then None else Some d)"
    and "hm_get (sr_track_subscriptions r') t' =
      (if t' = k then None else hm_get (sr_track_subscriptions r) t')"
    and "hm_get (sr_output_ssrc_index r') s =
      (if \<exists>i d. hm_get (sr_subscriptions r) i = Some d \<and> dt_track_id d = k \<and> dt_output_ssrc d = s then None
       else hm_get (sr_output_ssrc_index r) s)"
    and "length (sr_subscriptions r') \<le> length (sr_subscriptions r)"
    and "hm_wf (sr_ssrc_index r) \<Longrightarrow> hm_wf (sr_ssrc_index r')"
    and "hm_wf (sr_last_pli r) \<Longrightarrow> hm_wf (sr_last_pli r')"
    and "hm_wf (sr_subscriptions r')" and "hm_wf (sr_track_subscriptions r')"
    and "hm_wf (sr_output_ssrc_index r')"
proof -
  define r2 where "r2 = foldl (\<lambda>q e. q\<lparr>sr_ssrc_index := hm_remove (en_ssrc e) (sr_ssrc_index q),
                sr_last_pli := hm_remove (en_ssrc e) (sr_last_pli q)\<rparr>)
      (r\<lparr>sr_tracks := hm_remove k (sr_tracks r)\<rparr>) (pt_encodings track)"
  note v2 = unindex_view [of "r\<lparr>sr_tracks := hm_remove k (sr_tracks r)\<rparr>" "pt_encodings track", folded r2_def]
  define ids where "ids = (case hm_get (sr_track_subscriptions r) k of None \<Rightarrow> [] | Some ids \<Rightarrow> ids)"
  define r3 where "r3 = r2\<lparr>sr_track_subscriptions := hm_remove k (sr_track_subscriptions r2)\<rparr>"
  have "hm_remove k (sr_track_subscriptions r) = sr_track_subscriptions r"
    if "hm_get (sr_track_subscriptions r) k = None"
    using that by (simp add: map_of_eq_None_iff delete_id)
  moreover have "r2\<lparr>sr_track_subscriptions := sr_track_subscriptions r\<rparr> = r2"
    using v2(4) by (cases r2) simp
  ultimately have "snd (unpublish k r) = foldl (\<lambda>q sid. snd (remove_subscription sid q)) r3 ids"
    using t by (cases "hm_get (sr_track_subscriptions r) k")
      (simp_all add: unpublish_def Let_def r2_def [symmetric] r3_def ids_def v2(4))
  with u have r': "r' = foldl (\<lambda>q sid. snd (remove_subscription sid q)) r3 ids" by simp
  note v3 = remove_all_view [where r = r3 and ids = ids, folded r']
  have ids: "i \<in> set ids \<longleftrightarrow> (\<exists>d. hm_get (sr_subscriptions r) i = Some d \<and> dt_track_id d = k)" for i
  proof (cases "hm_get (sr_track_subscriptions r) k")
    case None
    with subscription_at(4) [OF ok, of i] show ?thesis by (auto simp: ids_def)
  next
    case (Some xs)
    from listed_subscriptions(3) [OF ok Some] Some show ?thesis by (simp add: ids_def)
  qed
  note s3 = r3_def v2
  show "sr_tracks r' = hm_remove k (sr_tracks r)" and "sr_configuration r' = sr_configuration r"
    and "hm_get (sr_ssrc_index r') s =
      (if s \<in> en_ssrc ` set (pt_encodings track) then None else hm_get (sr_ssrc_index r) s)"
    and "hm_get (sr_last_pli r') s =
      (if s \<in> en_ssrc ` set (pt_encodings track) then None else hm_get (sr_last_pli r) s)"
    and "length (sr_subscriptions r') \<le> length (sr_subscriptions r)"
    and "hm_wf (sr_ssrc_index r) \<Longrightarrow> hm_wf (sr_ssrc_index r')"
    and "hm_wf (sr_last_pli r) \<Longrightarrow> hm_wf (sr_last_pli r')"
    using v3(1-4,7) by (simp_all add: s3)
  show "hm_wf (sr_subscriptions r')" and "hm_wf (sr_track_subscriptions r')" and "hm_wf (sr_output_ssrc_index r')"
    using v3(6,9,10) ok by (simp_all add: s3 subscriptions_ok_def)
  show "hm_get (sr_subscriptions r') i = (case hm_get (sr_subscriptions r) i of None \<Rightarrow> None
       | Some d \<Rightarrow> if dt_track_id d = k then None else Some d)"
    using v3(5) [of i] ids [of i] by (auto simp: s3 split: option.splits)
  have "\<forall>i\<in>set ids. \<forall>d. hm_get (sr_subscriptions r3) i = Some d \<longrightarrow> dt_track_id d = k"
    using ids by (auto simp: s3)
  moreover have "hm_get (sr_track_subscriptions r3) k = None" by (simp add: r3_def)
  ultimately have "hm_get (sr_track_subscriptions r') t' = hm_get (sr_track_subscriptions r3) t'"
    by (rule v3(11))
  then show "hm_get (sr_track_subscriptions r') t' =
      (if t' = k then None else hm_get (sr_track_subscriptions r) t')" by (simp add: s3)
  have ex: "(\<exists>i\<in>set ids. \<exists>d. hm_get (sr_subscriptions r3) i = Some d \<and> dt_output_ssrc d = s) \<longleftrightarrow>
      (\<exists>i d. hm_get (sr_subscriptions r) i = Some d \<and> dt_track_id d = k \<and> dt_output_ssrc d = s)"
    unfolding Bex_def ids by (simp add: s3) fastforce
  have "sr_output_ssrc_index r3 = sr_output_ssrc_index r" by (simp add: s3)
  with v3(8) [of s] show "hm_get (sr_output_ssrc_index r') s =
      (if \<exists>i d. hm_get (sr_subscriptions r) i = Some d \<and> dt_track_id d = k \<and> dt_output_ssrc d = s then None
       else hm_get (sr_output_ssrc_index r) s)" unfolding ex by (simp only:)
qed

lemma unpublish_invariant:
  assumes inv: "sfu_invariant r" and u: "unpublish k r = (b, r')"
  shows "sfu_invariant r'"
proof (cases "hm_get (sr_tracks r) k")
  case None
  with u inv show ?thesis by (simp add: unpublish_def)
next
  case (Some track)
  note tracks = sfu_invariantD(1) [OF inv] and subs = sfu_invariantD(2) [OF inv] and pli = sfu_invariantD(3) [OF inv]
  note view = unpublish_view [OF subs Some u]
  have "length (sr_tracks r') \<le> rc_max_tracks (sr_configuration r')"
    using tracks hm_length_remove [of k "sr_tracks r"] unfolding view(1,2) tracks_ok_def by linarith
  moreover have "hm_get (sr_ssrc_index r') s = Some (t, l) \<longleftrightarrow>
        (\<exists>track. hm_get (sr_tracks r') t = Some track \<and>
           (\<exists>e\<in>set (pt_encodings track). en_ssrc e = s \<and> en_spatial_layer e = l))" for s t l
  proof -
    have idx: "hm_get (sr_ssrc_index r) s = Some (t, l) \<longleftrightarrow>
        (\<exists>track. hm_get (sr_tracks r) t = Some track \<and>
           (\<exists>e\<in>set (pt_encodings track). en_ssrc e = s \<and> en_spatial_layer e = l))" for t l
      using tracks by (simp only: tracks_ok_def)
    have "s \<in> en_ssrc ` set (pt_encodings track) \<longleftrightarrow> (\<exists>l. hm_get (sr_ssrc_index r) s = Some (k, l))"
      unfolding idx using Some by auto
    then show ?thesis unfolding view(1) view(3) using idx [of t l] Some by (auto split: if_splits)
  qed
  ultimately have "tracks_ok r'" using tracks view(9) unfolding tracks_ok_def view(1) by auto
  moreover have "subscriptions_ok r'"
  proof -
    have "length (sr_subscriptions r') \<le> rc_max_subscriptions (sr_configuration r')"
      using subs view(8) unfolding view(2) subscriptions_ok_def by linarith
    moreover have "sc_id (dt_configuration d) = i \<and> hm_get (sr_tracks r') (dt_track_id d) \<noteq> None \<and>
        hm_get (sr_output_ssrc_index r') (dt_output_ssrc d) = Some i \<and>
        (\<exists>ids. hm_get (sr_track_subscriptions r') (dt_track_id d) = Some ids \<and> i \<in> set ids) \<and>
        dt_fits (sr_configuration r') d" if "hm_get (sr_subscriptions r') i = Some d" for i d
    proof -
      from that have i: "hm_get (sr_subscriptions r) i = Some d" "dt_track_id d \<noteq> k"
        by (simp_all add: view(5) split: option.splits if_splits)
      note at = subscription_at [OF subs i(1)]
      have "\<not> (\<exists>j d'. hm_get (sr_subscriptions r) j = Some d' \<and> dt_track_id d' = k \<and> dt_output_ssrc d' = dt_output_ssrc d)"
        using subscription_at(3) [OF subs] at(3) i by fastforce
      then show ?thesis using at i(2) by (simp add: view(1,2,6,7))
    qed
    moreover have "\<exists>d. hm_get (sr_subscriptions r') i = Some d \<and> dt_output_ssrc d = s"
      if "hm_get (sr_output_ssrc_index r') s = Some i" for s i
    proof -
      from that have "hm_get (sr_output_ssrc_index r) s = Some i"
        and n: "\<not> (\<exists>j d. hm_get (sr_subscriptions r) j = Some d \<and> dt_track_id d = k \<and> dt_output_ssrc d = s)"
        by (simp_all add: view(7) split: if_splits)
      with subs obtain d where d: "hm_get (sr_subscriptions r) i = Some d" "dt_output_ssrc d = s"
        unfolding subscriptions_ok_def by blast
      with n have "dt_track_id d \<noteq> k" by blast
      with d show ?thesis by (simp add: view(5))
    qed
    moreover have "ids \<noteq> [] \<and> distinct ids \<and>
        (\<forall>i\<in>set ids. \<exists>d. hm_get (sr_subscriptions r') i = Some d \<and> dt_track_id d = t)"
      if "hm_get (sr_track_subscriptions r') t = Some ids" for t ids
    proof -
      from that have o: "hm_get (sr_track_subscriptions r) t = Some ids" "t \<noteq> k"
        by (simp_all add: view(6) split: if_splits)
      from listed_subscriptions [OF subs o(1)] o(2) show ?thesis by (fastforce simp: view(5))
    qed
    ultimately show ?thesis using view(11-13) unfolding subscriptions_ok_def by blast
  qed
  moreover have "pli_ok r'" using pli view(10) unfolding pli_ok_def by (simp add: view(3,4))
  ultimately show ?thesis by (simp add: sfu_invariant_def)
qed

lemma subscribe_cases:
  assumes "subscribe cfg r = (res, r')"
  obtains (refused) e where "res = Inl e" "r' = r"
  | (subscribed) track where "res = Inr ()" "hm_get (sr_subscriptions r) (sc_id cfg) = None"
      "hm_get (sr_output_ssrc_index r) (sc_output_ssrc cfg) = None"
      "is_rtcp_mux_safe_payload_type (sc_output_payload_type cfg)"
      "length (sr_subscriptions r) < rc_max_subscriptions (sr_configuration r)"
      "hm_get (sr_tracks r) (sc_track_id cfg) = Some track"
      "track_encoding track (ly_spatial (sc_initial_layer cfg)) \<noteq> None"
      "r' = r\<lparr>sr_output_ssrc_index := hm_insert (sc_output_ssrc cfg) (sc_id cfg) (sr_output_ssrc_index r),
         sr_track_subscriptions := hm_insert (sc_track_id cfg)
           ((case hm_get (sr_track_subscriptions r) (sc_track_id cfg) of None \<Rightarrow> [] | Some ids \<Rightarrow> ids) @ [sc_id cfg])
           (sr_track_subscriptions r),
         sr_subscriptions := hm_insert (sc_id cfg) (dt_new cfg track
           (rc_retransmission_cache_packets (sr_configuration r))
           (rc_retransmission_cache_age (sr_configuration r))) (sr_subscriptions r)\<rparr>"
  using assms unfolding subscribe_def Let_def
  by (auto simp: not_le hm_contains_def split: if_splits option.splits intro: refused subscribed)

lemma subscribe_invariant:
  assumes inv: "sfu_invariant r" and s: "subscribe cfg r = (res, r')"
  shows "sfu_invariant r'"
  using s
proof (cases rule: subscribe_cases)
  case refused
  with inv show ?thesis by simp
next
  case (subscribed track)
  note subs = sfu_invariantD(2) [OF inv]
  let ?ids = "case hm_get (sr_track_subscriptions r) (sc_track_id cfg) of None \<Rightarrow> [] | Some ids \<Rightarrow> ids"
  let ?d = "dt_new cfg track (rc_retransmission_cache_packets (sr_configuration r))
           (rc_retransmission_cache_age (sr_configuration r))"
  have new: "dt_configuration ?d = cfg" "dt_fits (sr_configuration r) ?d"
    using subscribed(4) by (simp_all add: dt_new_def Let_def dt_fits_def)
  have r'_maps: "sr_subscriptions r' = hm_insert (sc_id cfg) ?d (sr_subscriptions r)"
    "sr_output_ssrc_index r' = hm_insert (sc_output_ssrc cfg) (sc_id cfg) (sr_output_ssrc_index r)"
    "sr_track_subscriptions r' = hm_insert (sc_track_id cfg) (?ids @ [sc_id cfg]) (sr_track_subscriptions r)"
    "sr_tracks r' = sr_tracks r" "sr_ssrc_index r' = sr_ssrc_index r" "sr_last_pli r' = sr_last_pli r"
    "sr_configuration r' = sr_configuration r"
    by (simp_all add: subscribed(8))
  have ids: "distinct ?ids" "i \<in> set ?ids \<longleftrightarrow> (\<exists>d. hm_get (sr_subscriptions r) i = Some d \<and> dt_track_id d = sc_track_id cfg)" for i
    using listed_subscriptions [OF subs] subscription_at(4) [OF subs, of i]
    by (auto split: option.splits)
  have "sc_id (dt_configuration d) = i \<and> hm_get (sr_tracks r') (dt_track_id d) \<noteq> None \<and>
        hm_get (sr_output_ssrc_index r') (dt_output_ssrc d) = Some i \<and>
        (\<exists>ids. hm_get (sr_track_subscriptions r') (dt_track_id d) = Some ids \<and> i \<in> set ids) \<and>
        dt_fits (sr_configuration r') d" if "hm_get (sr_subscriptions r') i = Some d" for i d
  proof (cases "i = sc_id cfg")
    case True
    with that new subscribed(6) show ?thesis by (simp add: r'_maps)
  next
    case False
    with that have i: "hm_get (sr_subscriptions r) i = Some d" by (simp add: r'_maps)
    note at = subscription_at [OF subs i]
    have "dt_output_ssrc d \<noteq> sc_output_ssrc cfg" using at(3) subscribed(3) by auto
    moreover have "\<exists>ids. hm_get (sr_track_subscriptions r') (dt_track_id d) = Some ids \<and> i \<in> set ids"
      using at(4) by (auto simp: r'_maps)
    ultimately show ?thesis using at by (simp add: r'_maps(2,4,7))
  qed
  moreover have "\<exists>d. hm_get (sr_subscriptions r') i = Some d \<and> dt_output_ssrc d = s"
    if "hm_get (sr_output_ssrc_index r') s = Some i" for s i
  proof (cases "s = sc_output_ssrc cfg")
    case True
    with that new show ?thesis by (simp add: r'_maps)
  next
    case False
    with that subs obtain d where "hm_get (sr_subscriptions r) i = Some d" "dt_output_ssrc d = s"
      unfolding subscriptions_ok_def r'_maps by (metis hm_get_insert)
    with subscribed(2) show ?thesis by (auto simp: r'_maps)
  qed
  moreover have "ids \<noteq> [] \<and> distinct ids \<and>
        (\<forall>i\<in>set ids. \<exists>d. hm_get (sr_subscriptions r') i = Some d \<and> dt_track_id d = t)"
    if "hm_get (sr_track_subscriptions r') t = Some ids" for t ids
  proof (cases "t = sc_track_id cfg")
    case True
    with that have "ids = ?ids @ [sc_id cfg]" by (simp add: r'_maps)
    moreover have "sc_id cfg \<notin> set ?ids" using ids(2) [of "sc_id cfg"] subscribed(2) by simp
    moreover have "\<exists>d. hm_get (sr_subscriptions r') i = Some d \<and> dt_track_id d = t" if "i \<in> set ?ids" for i
      using that ids(2) [of i] subscribed(2) True by (auto simp: r'_maps(1))
    ultimately show ?thesis using ids(1) True new by (auto simp: r'_maps(1))
  next
    case False
    with that have "hm_get (sr_track_subscriptions r) t = Some ids" by (simp add: r'_maps)
    from listed_subscriptions [OF subs this] subscribed(2) show ?thesis by (fastforce simp: r'_maps(1))
  qed
  moreover have "length (sr_subscriptions r') \<le> rc_max_subscriptions (sr_configuration r')"
    using subscribed(2,5) by (simp add: r'_maps hm_length_insert hm_contains_def)
  moreover have "hm_wf (sr_subscriptions r')" "hm_wf (sr_track_subscriptions r')" "hm_wf (sr_output_ssrc_index r')"
    using subs by (simp_all add: r'_maps subscriptions_ok_def)
  ultimately have "subscriptions_ok r'" unfolding subscriptions_ok_def by blast
  with inv tracks_ok_cong [of r' r] pli_ok_cong [of r' r] r'_maps show ?thesis by (simp add: sfu_invariant_def)
qed

text \<open>One down-track got from another by some history of its own operations, with what it sent.\<close>

definition dt_evolves :: "down_track \<Rightarrow> forwarded_packet list \<Rightarrow> down_track \<Rightarrow> bool" where
  "dt_evolves d outs d' \<longleftrightarrow> (\<exists>ops. dt_run ops d = (outs, d'))"

lemma dt_evolves_refl [simp]: "dt_evolves d [] d"
  unfolding dt_evolves_def by (rule exI [of _ "[]"]) simp

lemma dt_evolves_step: "dt_step op d = (out, d') \<Longrightarrow> dt_evolves d out d'"
  unfolding dt_evolves_def by (rule exI [of _ "[op]"]) simp

lemma dt_evolves_trans:
  assumes "dt_evolves d a d1" and "dt_evolves d1 b d2"
  shows "dt_evolves d (a @ b) d2"
proof -
  from assms obtain xs ys where "dt_run xs d = (a, d1)" "dt_run ys d1 = (b, d2)"
    unfolding dt_evolves_def by blast
  then have "dt_run (xs @ ys) d = (a @ b, d2)" by (simp add: dt_run_append)
  then show ?thesis unfolding dt_evolves_def by blast
qed

lemma dt_evolves_keeps:
  assumes "dt_evolves d outs d'"
  shows "dt_configuration d' = dt_configuration d" and "dt_fits c d \<Longrightarrow> dt_fits c d'"
proof -
  from assms obtain ops where r: "dt_run ops d = (outs, d')" unfolding dt_evolves_def by blast
  show "dt_configuration d' = dt_configuration d" using dt_run_keeps [OF r] by simp
  then show "dt_fits c d \<Longrightarrow> dt_fits c d'"
    using dt_run_keeps [OF r] dt_run_cache [OF r] dt_run_addressed(2) [OF r] by (simp add: dt_fits_def)
qed

lemma dt_evolves_addressed: "dt_evolves d outs d' \<Longrightarrow> dt_fits c d \<Longrightarrow> \<forall>f\<in>set outs. addressed (dt_configuration d) f"
  unfolding dt_evolves_def dt_fits_def using dt_run_addressed(1) by blast

lemma dt_evolves_retransmit: "retransmit now ns d = (out, d') \<Longrightarrow> dt_evolves d out d'"
  by (rule dt_evolves_step [of "OpRetransmit now ns"]) simp

lemma dt_evolves_target: "dt_set_target_layer l d = (b, d') \<Longrightarrow> dt_evolves d [] d'"
  by (rule dt_evolves_step [of "OpTarget l"]) simp

definition forwarded_of :: "(sfu_error, forward_decision) result \<Rightarrow> forwarded_packet list" where
  "forwarded_of res = (case res of Inr (Forwarded f _) \<Rightarrow> [f] | _ \<Rightarrow> [])"

lemma dt_evolves_forward: "forward now track l info input d = (res, d') \<Longrightarrow> dt_evolves d (forwarded_of res) d'"
  by (rule dt_evolves_step [of "OpForward now track l info input"])
    (auto simp: forwarded_of_def split: sum.split forward_decision.split)

text \<open>The room invariant survives any evolution of the down-tracks.\<close>

lemma evolution_invariant:
  assumes inv: "sfu_invariant r" and wf: "hm_wf subs'" and len: "length subs' = length (sr_subscriptions r)"
    and ev: "\<And>i. case hm_get (sr_subscriptions r) i of None \<Rightarrow> hm_get subs' i = None
      | Some d \<Rightarrow> \<exists>outs d'. hm_get subs' i = Some d' \<and> dt_evolves d outs d'"
  shows "sfu_invariant (r\<lparr>sr_subscriptions := subs'\<rparr>)"
proof -
  note subs = sfu_invariantD(2) [OF inv]
  have old: "\<exists>d outs. hm_get (sr_subscriptions r) i = Some d \<and> dt_evolves d outs d'"
    if "hm_get subs' i = Some d'" for i d'
    using ev [of i] that by (auto split: option.splits)
  have new: "\<exists>d'. hm_get subs' i = Some d' \<and> dt_configuration d' = dt_configuration d"
    if "hm_get (sr_subscriptions r) i = Some d" for i d
    using ev [of i] that dt_evolves_keeps(1) by fastforce
  have "subscriptions_ok (r\<lparr>sr_subscriptions := subs'\<rparr>)"
    unfolding subscriptions_ok_def
  proof (simp, intro conjI allI impI)
    fix i d' assume "hm_get subs' i = Some d'"
    from old [OF this] obtain d outs where d: "hm_get (sr_subscriptions r) i = Some d" "dt_evolves d outs d'"
      by blast
    note at = subscription_at [OF subs d(1)] and keeps = dt_evolves_keeps [OF d(2)]
    show "sc_id (dt_configuration d') = i" "\<exists>y. hm_get (sr_tracks r) (dt_track_id d') = Some y"
      "hm_get (sr_output_ssrc_index r) (dt_output_ssrc d') = Some i"
      "\<exists>ids. hm_get (sr_track_subscriptions r) (dt_track_id d') = Some ids \<and> i \<in> set ids"
      "dt_fits (sr_configuration r) d'"
      using at keeps by simp_all
  next
    fix s i assume "hm_get (sr_output_ssrc_index r) s = Some i"
    with subs obtain d where "hm_get (sr_subscriptions r) i = Some d" "dt_output_ssrc d = s"
      unfolding subscriptions_ok_def by blast
    with new [of i d] show "\<exists>d. hm_get subs' i = Some d \<and> dt_output_ssrc d = s" by auto
  next
    fix t ids assume t: "hm_get (sr_track_subscriptions r) t = Some ids"
    note l = listed_subscriptions [OF subs t]
    show "ids \<noteq> []" "distinct ids" using l by simp_all
    show "\<forall>i\<in>set ids. \<exists>d. hm_get subs' i = Some d \<and> dt_track_id d = t" using l(3) new by fastforce
  qed (use subs wf len in \<open>simp_all add: subscriptions_ok_def\<close>)
  moreover have "tracks_ok (r\<lparr>sr_subscriptions := subs'\<rparr>)" "pli_ok (r\<lparr>sr_subscriptions := subs'\<rparr>)"
    using inv tracks_ok_cong [of "r\<lparr>sr_subscriptions := subs'\<rparr>" r]
      pli_ok_cong [of "r\<lparr>sr_subscriptions := subs'\<rparr>" r] by (simp_all add: sfu_invariant_def)
  ultimately show ?thesis by (simp add: sfu_invariant_def)
qed

lemma update_invariant:
  assumes inv: "sfu_invariant r" and "hm_get (sr_subscriptions r) sid = Some d" and "dt_evolves d outs d'"
  shows "sfu_invariant (r\<lparr>sr_subscriptions := hm_insert sid d' (sr_subscriptions r)\<rparr>)"
proof (rule evolution_invariant [OF inv])
  show "hm_wf (hm_insert sid d' (sr_subscriptions r))"
    using sfu_invariantD(2) [OF inv] by (simp add: subscriptions_ok_def)
  show "length (hm_insert sid d' (sr_subscriptions r)) = length (sr_subscriptions r)"
    using assms(2) by (simp add: hm_length_insert hm_contains_def)
  show "case hm_get (sr_subscriptions r) i of None \<Rightarrow> hm_get (hm_insert sid d' (sr_subscriptions r)) i = None
      | Some d \<Rightarrow> \<exists>outs d''. hm_get (hm_insert sid d' (sr_subscriptions r)) i = Some d'' \<and> dt_evolves d outs d''" for i
    using assms(2,3) by (auto split: option.split intro: dt_evolves_refl)
qed

lemma maybe_pli_invariant:
  assumes inv: "sfu_invariant r" and "maybe_pli now t s r = (e, r')" and "hm_get (sr_ssrc_index r) s \<noteq> None"
  shows "sfu_invariant r'"
proof (cases "r' = r")
  case True
  with inv show ?thesis by simp
next
  case False
  with assms(2) have r': "r' = r\<lparr>sr_last_pli := hm_insert s now (sr_last_pli r)\<rparr>"
    by (auto simp: maybe_pli_def split: if_splits)
  have "pli_ok r'" using sfu_invariantD(3) [OF inv] assms(3) by (simp add: pli_ok_def r')
  moreover have "tracks_ok r'" using tracks_ok_cong [of r' r] sfu_invariantD(1) [OF inv] by (simp add: r')
  moreover have "subscriptions_ok r'" using sfu_invariantD(2) [OF inv] by (simp add: subscriptions_ok_def r')
  ultimately show ?thesis by (simp add: sfu_invariant_def)
qed

lemma encoding_listed:
  "tracks_ok r \<Longrightarrow> hm_get (sr_tracks r) t = Some track \<Longrightarrow> e \<in> set (pt_encodings track) \<Longrightarrow>
     hm_get (sr_ssrc_index r) (en_ssrc e) = Some (t, en_spatial_layer e)"
  by (auto simp: tracks_ok_def)

lemma encoding_indexed:
  assumes "sfu_invariant r" and "hm_get (sr_tracks r) t = Some track" and "track_encoding track l = Some e"
  shows "hm_get (sr_ssrc_index r) (en_ssrc e) = Some (t, l)"
  using sfu_invariantD(1) [OF assms(1)] assms(2) track_encoding_in [OF assms(3)] by (auto simp: tracks_ok_def)

section \<open>Fan-out of one packet\<close>

definition events_of :: "(sfu_error, forward_decision) result \<Rightarrow> sfu_event list" where
  "events_of res = (case res of Inr (Forwarded _ (Some e)) \<Rightarrow> [e] | _ \<Rightarrow> [])"

definition waits :: "(sfu_error, forward_decision) result \<Rightarrow> bool" where
  "waits res = (case res of Inr (Dropped w) \<Rightarrow> w | _ \<Rightarrow> False)"

lemma forward_all_step:
  assumes "hm_get subs x = Some d" and "forward now track l info input d = (dec, d1)"
  shows "forward_all now track l info input (x # xs) subs out needs =
    (case dec of Inl e \<Rightarrow> (Inl e, hm_insert x d1 subs)
     | Inr _ \<Rightarrow> forward_all now track l info input xs (hm_insert x d1 subs)
         (out\<lparr>fo_packets := fo_packets out @ forwarded_of dec, fo_events := fo_events out @ events_of dec\<rparr>)
         (needs \<or> waits dec))"
proof (cases dec)
  case (Inl e)
  with assms show ?thesis by simp
next
  case (Inr y)
  with assms show ?thesis
    by (cases y) (simp_all add: forwarded_of_def events_of_def waits_def split: option.split)
qed

lemma forward_all_evolves:
  assumes "forward_all now track l info input ids subs out needs = (res, subs')" and "hm_wf subs"
  shows "hm_wf subs' \<and> length subs' = length subs \<and>
    (\<forall>i. case hm_get subs i of None \<Rightarrow> hm_get subs' i = None
      | Some d \<Rightarrow> \<exists>outs d'. hm_get subs' i = Some d' \<and> dt_evolves d outs d')"
  using assms
proof (induction ids arbitrary: subs out needs)
  case Nil
  then show ?case by (auto split: option.split intro: dt_evolves_refl)
next
  case (Cons x xs)
  show ?case
  proof (cases "hm_get subs x")
    case None
    with Cons show ?thesis by simp
  next
    case (Some d)
    obtain dec d1 where f: "forward now track l info input d = (dec, d1)" by fastforce
    let ?s = "hm_insert x d1 subs"
    have e: "dt_evolves d (forwarded_of dec) d1" by (rule dt_evolves_forward [OF f])
    have base: "hm_wf ?s" "length ?s = length subs"
      using Cons.prems(2) Some by (simp_all add: hm_length_insert hm_contains_def)
    have "hm_wf subs' \<and> length subs' = length ?s \<and>
      (\<forall>i. case hm_get ?s i of None \<Rightarrow> hm_get subs' i = None
        | Some d \<Rightarrow> \<exists>outs d'. hm_get subs' i = Some d' \<and> dt_evolves d outs d')"
    proof (cases dec)
      case (Inl e)
      with Cons.prems(1) have "subs' = ?s" unfolding forward_all_step [OF Some f] by simp
      with base(1) show ?thesis by (auto split: option.split intro: dt_evolves_refl)
    next
      case (Inr y)
      with Cons.prems(1) Cons.IH [OF _ base(1)] show ?thesis unfolding forward_all_step [OF Some f] by simp
    qed
    note all = this
    have m: "hm_wf subs'" "length subs' = length subs" using all base(2) by simp_all
    note g = all [THEN conjunct2, THEN conjunct2, rule_format]
    have "case hm_get subs i of None \<Rightarrow> hm_get subs' i = None
        | Some d \<Rightarrow> \<exists>outs d'. hm_get subs' i = Some d' \<and> dt_evolves d outs d'" for i
    proof (cases "i = x")
      case True
      with g [of x] Some dt_evolves_trans [OF e] show ?thesis by auto
    next
      case False
      with g [of i] show ?thesis by simp
    qed
    with m show ?thesis by blast
  qed
qed

lemma forward_all_exact:
  assumes "forward_all now track l info input ids subs out needs = (Inr (out', needs'), subs')" and "distinct ids"
  shows "(\<forall>i. hm_get subs' i = (if i \<in> set ids
      then map_option (\<lambda>d. snd (forward now track l info input d)) (hm_get subs i) else hm_get subs i)) \<and>
    fo_packets out' = fo_packets out @ concat (map (\<lambda>i. case hm_get subs i of None \<Rightarrow> []
      | Some d \<Rightarrow> forwarded_of (fst (forward now track l info input d))) ids)"
  using assms
proof (induction ids arbitrary: subs out needs)
  case Nil
  then show ?case by simp
next
  case (Cons x xs)
  show ?case
  proof (cases "hm_get subs x")
    case None
    with Cons show ?thesis by auto
  next
    case (Some d)
    obtain dec d1 where f: "forward now track l info input d = (dec, d1)" by fastforce
    let ?s = "hm_insert x d1 subs"
    have "\<exists>out2 needs2. forward_all now track l info input xs ?s out2 needs2 = (Inr (out', needs'), subs') \<and>
        fo_packets out2 = fo_packets out @ forwarded_of dec"
      using Cons.prems(1) unfolding forward_all_step [OF Some f] by (cases dec) auto
    then obtain out2 needs2 where
      rest: "forward_all now track l info input xs ?s out2 needs2 = (Inr (out', needs'), subs')"
      and o2: "fo_packets out2 = fo_packets out @ forwarded_of dec" by blast
    from Cons.prems(2) have d: "distinct xs" and x: "x \<notin> set xs" by simp_all
    have same: "map (\<lambda>i. case hm_get ?s i of None \<Rightarrow> []
        | Some d \<Rightarrow> forwarded_of (fst (forward now track l info input d))) xs =
      map (\<lambda>i. case hm_get subs i of None \<Rightarrow> []
        | Some d \<Rightarrow> forwarded_of (fst (forward now track l info input d))) xs"
      using x by (intro map_cong) auto
    note ih = Cons.IH [OF rest d, unfolded same]
    have "hm_get subs' i = (if i \<in> set (x # xs)
      then map_option (\<lambda>d. snd (forward now track l info input d)) (hm_get subs i) else hm_get subs i)" for i
      using ih [THEN conjunct1, rule_format, of i] x Some f by auto
    moreover have "fo_packets out' = fo_packets out @ concat (map (\<lambda>i. case hm_get subs i of None \<Rightarrow> []
      | Some d \<Rightarrow> forwarded_of (fst (forward now track l info input d))) (x # xs))"
      using ih [THEN conjunct2] o2 Some f by simp
    ultimately show ?thesis by blast
  qed
qed

lemma forward_all_total:
  assumes "\<And>i d. hm_get subs i = Some d \<Longrightarrow> \<exists>x d'. forward now track l info input d = (Inr x, d')" and "distinct ids"
  shows "\<exists>out' needs' subs'. forward_all now track l info input ids subs out needs = (Inr (out', needs'), subs')"
proof -
  have "\<exists>out' needs' subs'. forward_all now track l info input ids subs out needs = (Inr (out', needs'), subs')"
    if "\<And>i d. i \<in> set ids \<Longrightarrow> hm_get subs i = Some d \<Longrightarrow> \<exists>x d'. forward now track l info input d = (Inr x, d')"
    using that assms(2)
  proof (induction ids arbitrary: subs out needs)
    case Nil
    then show ?case by simp
  next
    case (Cons x xs)
    show ?case
    proof (cases "hm_get subs x")
      case None
      from Cons.prems have "\<exists>out' needs' subs'. forward_all now track l info input xs subs out needs =
          (Inr (out', needs'), subs')" by (intro Cons.IH) auto
      with None show ?thesis by simp
    next
      case (Some d)
      with Cons.prems(1) [of x d] obtain y d1 where f: "forward now track l info input d = (Inr y, d1)" by auto
      have "\<exists>out' needs' subs'. forward_all now track l info input xs (hm_insert x d1 subs) out2 needs2 =
          (Inr (out', needs'), subs')" for out2 needs2
        using Cons.prems(1) Cons.prems(2) by (intro Cons.IH) (auto split: if_splits)
      then show ?thesis unfolding forward_all_step [OF Some f] by simp
    qed
  qed
  with assms(1) show ?thesis by blast
qed

lemma handle_rtp_cases:
  assumes "handle_rtp order now publisher input r = (res, r')"
  obtains (rejected) e where "res = Inl e" "r' = r"
  | (routed) p k l track info ids fres subs' where "parse input = Inr p"
      "hm_get (sr_ssrc_index r) (h_ssrc (p_header p)) = Some (k, l)" "hm_get (sr_tracks r) k = Some track"
      "pt_owner track = publisher" "h_payload_type (p_header p) = pt_payload_type track"
      "inspect_payload (pt_codec track) (p_payload p) (h_marker (p_header p)) = Inr info"
      "ids = (case hm_get (sr_track_subscriptions r) k of None \<Rightarrow> [] | Some ids \<Rightarrow> ids)"
      "forward_all now track l info input ids (sr_subscriptions r) \<lparr>fo_packets = [], fo_events = []\<rparr> False =
        (fres, subs')"
      "(\<exists>e. fres = Inl e \<and> res = Inl e \<and> r' = r\<lparr>sr_subscriptions := subs'\<rparr>) \<or>
       (\<exists>out needs out'. fres = Inr (out, needs) \<and> res = Inr out' \<and> fo_packets out' = fo_packets out \<and>
          (fo_events out' = fo_events out \<and> r' = r\<lparr>sr_subscriptions := subs'\<rparr> \<or>
           (\<exists>l' enc ev. track_encoding track l' = Some enc \<and>
              maybe_pli now k (en_ssrc enc) (r\<lparr>sr_subscriptions := subs'\<rparr>) = (ev, r') \<and>
              fo_events out' = fo_events out @ (case ev of None \<Rightarrow> [] | Some e \<Rightarrow> [e]))))"
proof -
  show thesis
  proof (cases "r' = r \<and> (\<exists>e. res = Inl e)")
    case True
    with rejected show thesis by blast
  next
    case False
    from assms False obtain p k l track info where g: "parse input = Inr p"
      "hm_get (sr_ssrc_index r) (h_ssrc (p_header p)) = Some (k, l)" "hm_get (sr_tracks r) k = Some track"
      "pt_owner track = publisher" "h_payload_type (p_header p) = pt_payload_type track"
      "inspect_payload (pt_codec track) (p_payload p) (h_marker (p_header p)) = Inr info"
      unfolding handle_rtp_def by (auto split: sum.splits option.splits if_splits)
    define ids where "ids = (case hm_get (sr_track_subscriptions r) k of None \<Rightarrow> [] | Some ids \<Rightarrow> ids)"
    obtain fres subs' where fa: "forward_all now track l info input ids (sr_subscriptions r)
        \<lparr>fo_packets = [], fo_events = []\<rparr> False = (fres, subs')" by fastforce
    let ?r1 = "r\<lparr>sr_subscriptions := subs'\<rparr>"
    have e: "(res, r') = (case fres of
          Inl e \<Rightarrow> (Inl e, ?r1)
        | Inr (out, needs_pli) \<Rightarrow>
            (case (if needs_pli then waiting_target order k track subs' else None) of
               None \<Rightarrow> (Inr out, ?r1)
             | Some target \<Rightarrow>
                 let (event, r2) = maybe_pli now k (en_ssrc target) ?r1 in
                 (Inr (out\<lparr>fo_events := fo_events out @
                    (case event of None \<Rightarrow> [] | Some e \<Rightarrow> [e])\<rparr>), r2)))"
      using assms g fa unfolding handle_rtp_def Let_def by (simp add: ids_def)
    have enc: "\<exists>l'. track_encoding track l' = Some target"
      if "waiting_target order k track subs' = Some target" for target
      using that by (auto simp: waiting_target_def split: option.splits prod.splits)
    show thesis
    proof (rule routed [OF g ids_def fa], cases fres)
      case (Inl x)
      with e show "(\<exists>e. fres = Inl e \<and> res = Inl e \<and> r' = ?r1) \<or>
       (\<exists>out needs out'. fres = Inr (out, needs) \<and> res = Inr out' \<and> fo_packets out' = fo_packets out \<and>
          (fo_events out' = fo_events out \<and> r' = ?r1 \<or>
           (\<exists>l' enc ev. track_encoding track l' = Some enc \<and> maybe_pli now k (en_ssrc enc) ?r1 = (ev, r') \<and>
              fo_events out' = fo_events out @ (case ev of None \<Rightarrow> [] | Some e \<Rightarrow> [e]))))" by simp
    next
      case (Inr x)
      obtain out needs where x: "x = (out, needs)" by fastforce
      show "(\<exists>e. fres = Inl e \<and> res = Inl e \<and> r' = ?r1) \<or>
       (\<exists>out needs out'. fres = Inr (out, needs) \<and> res = Inr out' \<and> fo_packets out' = fo_packets out \<and>
          (fo_events out' = fo_events out \<and> r' = ?r1 \<or>
           (\<exists>l' enc ev. track_encoding track l' = Some enc \<and> maybe_pli now k (en_ssrc enc) ?r1 = (ev, r') \<and>
              fo_events out' = fo_events out @ (case ev of None \<Rightarrow> [] | Some e \<Rightarrow> [e]))))"
      proof (cases "if needs then waiting_target order k track subs' else None")
        case None
        with e Inr x show ?thesis by simp
      next
        case (Some target)
        then have "waiting_target order k track subs' = Some target" by (simp split: if_splits)
        from enc [OF this] obtain l' where l': "track_encoding track l' = Some target" by blast
        obtain ev r2 where m: "maybe_pli now k (en_ssrc target) ?r1 = (ev, r2)" by fastforce
        from e have "res = Inr (out\<lparr>fo_events := fo_events out @ (case ev of None \<Rightarrow> [] | Some e \<Rightarrow> [e])\<rparr>)" "r' = r2"
          unfolding Inr x by (simp_all add: Some m)
        with l' m Inr x show ?thesis by auto
      qed
    qed
  qed
qed

lemma handle_rtp_invariant:
  assumes inv: "sfu_invariant r" and h: "handle_rtp order now publisher input r = (res, r')"
  shows "sfu_invariant r'"
  using h
proof (cases rule: handle_rtp_cases)
  case rejected
  with inv show ?thesis by simp
next
  case (routed p k l track info ids fres subs')
  have "hm_wf (sr_subscriptions r)" using sfu_invariantD(2) [OF inv] by (simp add: subscriptions_ok_def)
  note ev = forward_all_evolves [OF routed(8) this]
  have inv1: "sfu_invariant (r\<lparr>sr_subscriptions := subs'\<rparr>)"
    using evolution_invariant [OF inv, of subs'] ev by blast
  from routed(9) show ?thesis
  proof (elim disjE exE conjE)
    fix l' enc e assume "track_encoding track l' = Some enc"
      and m: "maybe_pli now k (en_ssrc enc) (r\<lparr>sr_subscriptions := subs'\<rparr>) = (e, r')"
    with encoding_indexed [OF inv routed(3)] maybe_pli_invariant [OF inv1 m] show ?thesis by simp
  qed (use inv1 in simp_all)
qed

lemma room_set_target_layer_cases:
  assumes "room_set_target_layer now subscriber sid l r = (res, r')"
  obtains (refused) e where "res = Inl e" "r' = r"
  | (kept) d ch d' where "hm_get (sr_subscriptions r) sid = Some d" "dt_subscriber d = subscriber"
      "dt_set_target_layer l d = (ch, d')" "(\<exists>e. res = Inl e) \<or> res = Inr []"
      "r' = r\<lparr>sr_subscriptions := hm_insert sid d' (sr_subscriptions r)\<rparr>"
  | (asked) d ch d' track enc ev where "hm_get (sr_subscriptions r) sid = Some d" "dt_subscriber d = subscriber"
      "dt_set_target_layer l d = (ch, d')" "hm_get (sr_tracks r) (dt_track_id d) = Some track"
      "track_encoding track (ly_spatial l) = Some enc" "res = Inr (case ev of None \<Rightarrow> [] | Some e \<Rightarrow> [e])"
      "maybe_pli now (dt_track_id d) (en_ssrc enc)
         (r\<lparr>sr_subscriptions := hm_insert sid d' (sr_subscriptions r)\<rparr>) = (ev, r')"
proof (cases "hm_get (sr_subscriptions r) sid")
  case None
  with assms refused show thesis by (auto simp: room_set_target_layer_def)
next
  case (Some d)
  show thesis
  proof (cases "dt_subscriber d = subscriber")
    case False
    with Some assms refused show thesis by (auto simp: room_set_target_layer_def)
  next
    case True
    obtain ch d' where d': "dt_set_target_layer l d = (ch, d')" by fastforce
    let ?r1 = "r\<lparr>sr_subscriptions := hm_insert sid d' (sr_subscriptions r)\<rparr>"
    show thesis
    proof (cases "\<exists>track enc. hm_get (sr_tracks r) (dt_track_id d) = Some track \<and>
        track_encoding track (ly_spatial l) = Some enc \<and> ch \<and> pt_kind track = Video")
      case True
      then obtain track enc where t: "hm_get (sr_tracks r) (dt_track_id d) = Some track"
        "track_encoding track (ly_spatial l) = Some enc" "ch" "pt_kind track = Video" by blast
      obtain ev r2 where m: "maybe_pli now (dt_track_id d) (en_ssrc enc) ?r1 = (ev, r2)" by fastforce
      from assms Some \<open>dt_subscriber d = subscriber\<close> d' t m
      have "res = Inr (case ev of None \<Rightarrow> [] | Some e \<Rightarrow> [e])" "r' = r2"
        by (auto simp: room_set_target_layer_def)
      with asked [OF Some \<open>dt_subscriber d = subscriber\<close> d' t(1,2)] m show thesis by simp
    next
      case False
      with assms Some \<open>dt_subscriber d = subscriber\<close> d'
      have "(\<exists>e. res = Inl e) \<or> res = Inr []" "r' = ?r1"
        by (auto simp: room_set_target_layer_def Let_def split: option.splits if_splits)
      with kept [OF Some \<open>dt_subscriber d = subscriber\<close> d'] show thesis by simp
    qed
  qed
qed

lemma room_set_target_layer_invariant:
  assumes inv: "sfu_invariant r" and h: "room_set_target_layer now subscriber sid l r = (res, r')"
  shows "sfu_invariant r'"
  using h
proof (cases rule: room_set_target_layer_cases)
  case refused
  with inv show ?thesis by simp
next
  case (kept d ch d')
  from update_invariant [OF inv kept(1) dt_evolves_target [OF kept(3)]] kept(5) show ?thesis by simp
next
  case (asked d ch d' track enc ev)
  from encoding_indexed [OF inv asked(4,5)]
  show ?thesis
    by (intro maybe_pli_invariant [OF update_invariant [OF inv asked(1) dt_evolves_target [OF asked(3)]] asked(7)]) simp
qed

lemma authorized_down_trackD:
  assumes "authorized_down_track subscriber ssrc r = Some (sid, d)"
  shows "hm_get (sr_subscriptions r) sid = Some d" and "dt_subscriber d = subscriber"
  using assms by (auto simp: authorized_down_track_def split: option.splits if_splits)

lemma handle_rtcp_packet_cases:
  assumes "handle_rtcp_packet now subscriber pkt out r = (out', r')"
  obtains (nothing) es where "r' = r" "co_retransmissions out' = co_retransmissions out"
      "co_events out' = co_events out @ es" "\<forall>e\<in>set es. \<exists>f. e = TransportFeedback subscriber f"
  | (resent) nack sid d packets d' where "pkt = GenericNack nack"
      "authorized_down_track subscriber (gn_media_ssrc nack) r = Some (sid, d)"
      "retransmit now (expand_nack (gn_entries nack)) d = (packets, d')"
      "r' = r\<lparr>sr_subscriptions := hm_insert sid d' (sr_subscriptions r)\<rparr>"
      "co_retransmissions out' = co_retransmissions out @ packets" "co_events out' = co_events out"
  | (asked) sid d track l enc e where "hm_get (sr_subscriptions r) sid = Some d" "dt_subscriber d = subscriber"
      "hm_get (sr_tracks r) (dt_track_id d) = Some track" "track_encoding track l = Some enc"
      "maybe_pli now (pt_id track) (en_ssrc enc) r = (e, r')"
      "co_retransmissions out' = co_retransmissions out"
      "co_events out' = co_events out @ (case e of None \<Rightarrow> [] | Some e \<Rightarrow> [e])"
proof (cases pkt)
  case (GenericNack nack)
  show thesis
  proof (cases "authorized_down_track subscriber (gn_media_ssrc nack) r")
    case None
    show thesis
      by (rule nothing [of "[]"]) (use None assms GenericNack in \<open>auto simp: handle_rtcp_packet_def\<close>)
  next
    case (Some x)
    obtain sid d where x: "x = (sid, d)" by fastforce
    obtain packets d' where "retransmit now (expand_nack (gn_entries nack)) d = (packets, d')" by fastforce
    note re = this
    show thesis
      by (rule resent [OF GenericNack Some [unfolded x] re])
        (use Some x assms GenericNack re in \<open>auto simp: handle_rtcp_packet_def\<close>)
  qed
next
  case (PictureLossIndication pli)
  show thesis
  proof (cases "authorized_down_track subscriber (pli_media_ssrc pli) r")
    case None
    show thesis
      by (rule nothing [of "[]"]) (use None assms PictureLossIndication in \<open>auto simp: handle_rtcp_packet_def\<close>)
  next
    case (Some x)
    obtain sid d where x: "x = (sid, d)" by fastforce
    note auth = authorized_down_trackD [OF Some [unfolded x]]
    let ?l = "case dt_selected_spatial d of None \<Rightarrow> ly_spatial (dt_target_layer d) | Some s \<Rightarrow> s"
    show thesis
    proof (cases "\<exists>track enc. hm_get (sr_tracks r) (dt_track_id d) = Some track \<and> track_encoding track ?l = Some enc")
      case True
      then obtain track enc where t: "hm_get (sr_tracks r) (dt_track_id d) = Some track"
        "track_encoding track ?l = Some enc" by blast
      obtain e r2 where m: "maybe_pli now (pt_id track) (en_ssrc enc) r = (e, r2)" by fastforce
      with assms PictureLossIndication Some x t have "r' = r2" "co_retransmissions out' = co_retransmissions out"
        "co_events out' = co_events out @ (case e of None \<Rightarrow> [] | Some e \<Rightarrow> [e])"
        by (auto simp: handle_rtcp_packet_def)
      with asked [OF auth t] m show thesis by blast
    next
      case False
      show thesis
        by (rule nothing [of "[]"])
          (use False assms PictureLossIndication Some x in \<open>auto simp: handle_rtcp_packet_def split: option.splits\<close>)
    qed
  qed
next
  case (TransportWideFeedback f)
  show thesis
    by (rule nothing [of "[TransportFeedback subscriber f]"])
      (use assms TransportWideFeedback in \<open>auto simp: handle_rtcp_packet_def\<close>)
qed (rule nothing [of "[]"], use assms in \<open>auto simp: handle_rtcp_packet_def\<close>)+

text \<open>What one compound packet of feedback does: it resends to the sender of the feedback only, and
  touches only down-tracks of that subscriber.\<close>

definition sub_effect :: "participant_id \<Rightarrow> forwarded_packet list \<Rightarrow> down_track option \<Rightarrow> down_track option \<Rightarrow> bool" where
  "sub_effect subscriber sent x x' \<longleftrightarrow>
     (case x of None \<Rightarrow> x' = None \<and> sent = []
      | Some d \<Rightarrow> \<exists>d'. x' = Some d' \<and> dt_evolves d sent d' \<and> live sent = [] \<and>
          dt_next_sequence_number d' = dt_next_sequence_number d \<and> (dt_subscriber d \<noteq> subscriber \<longrightarrow> d' = d))"

definition rtcp_effect :: "participant_id \<Rightarrow> forwarded_packet list \<Rightarrow> sfu_room \<Rightarrow> sfu_room \<Rightarrow> bool" where
  "rtcp_effect subscriber sent r r' \<longleftrightarrow> sfu_invariant r' \<and>
     (\<forall>f\<in>set sent. fp_subscriber f = subscriber) \<and>
     (\<forall>i. sub_effect subscriber (filter (\<lambda>f. fp_subscription_id f = i) sent)
        (hm_get (sr_subscriptions r) i) (hm_get (sr_subscriptions r') i))"

lemma sub_effect_refl [simp]: "sub_effect subscriber [] x x"
  by (simp add: sub_effect_def live_def split: option.split)

lemma sub_effect_trans: "sub_effect s a x y \<Longrightarrow> sub_effect s b y z \<Longrightarrow> sub_effect s (a @ b) x z"
proof (cases x)
  case None
  assume "sub_effect s a x y" "sub_effect s b y z"
  with None show ?thesis by (simp add: sub_effect_def)
next
  case (Some d)
  assume 1: "sub_effect s a x y" and 2: "sub_effect s b y z"
  from 1 Some obtain d1 where y: "y = Some d1" and e1: "dt_evolves d a d1" "live a = []"
    "dt_next_sequence_number d1 = dt_next_sequence_number d" "dt_subscriber d \<noteq> s \<longrightarrow> d1 = d"
    by (auto simp: sub_effect_def)
  from 2 y obtain d2 where z: "z = Some d2" and e2: "dt_evolves d1 b d2" "live b = []"
    "dt_next_sequence_number d2 = dt_next_sequence_number d1" "dt_subscriber d1 \<noteq> s \<longrightarrow> d2 = d1"
    by (auto simp: sub_effect_def)
  have "dt_subscriber d \<noteq> s \<longrightarrow> d2 = d" using e1(4) e2(4) by auto
  with dt_evolves_trans [OF e1(1) e2(1)] e1(2,3) e2(2,3) Some z show ?thesis by (simp add: sub_effect_def)
qed

lemma rtcp_effect_refl:
  assumes "sfu_invariant r'" and "sr_subscriptions r' = sr_subscriptions r"
  shows "rtcp_effect subscriber [] r r'"
  using assms by (simp add: rtcp_effect_def)

lemma rtcp_effect_trans:
  assumes "rtcp_effect s a r r1" and "rtcp_effect s b r1 r2"
  shows "rtcp_effect s (a @ b) r r2"
  using assms sub_effect_trans by (fastforce simp: rtcp_effect_def)

lemma handle_rtcp_packet_effect:
  assumes inv: "sfu_invariant r" and h: "handle_rtcp_packet now subscriber pkt out r = (out', r')"
  shows "\<exists>sent. co_retransmissions out' = co_retransmissions out @ sent \<and> rtcp_effect subscriber sent r r'"
  using h
proof (cases rule: handle_rtcp_packet_cases)
  case nothing
  with inv show ?thesis by (auto intro: rtcp_effect_refl)
next
  case (resent nack sid d packets d')
  note auth = authorized_down_trackD [OF resent(2)]
  have ev: "dt_evolves d packets d'" by (rule dt_evolves_retransmit [OF resent(3)])
  have again: "live packets = []" "dt_next_sequence_number d' = dt_next_sequence_number d"
    using live_retransmit [of now "expand_nack (gn_entries nack)" d]
      retransmit_keeps [of now "expand_nack (gn_entries nack)" d] unfolding resent(3)
    by (simp_all add: expire_cache_def)
  note at = subscription_at [OF sfu_invariantD(2) [OF inv] auth(1)]
  have "\<forall>f\<in>set packets. addressed (dt_configuration d) f" by (rule dt_evolves_addressed [OF ev at(5)])
  then have a: "\<forall>f\<in>set packets. fp_subscriber f = subscriber \<and> fp_subscription_id f = sid"
    using auth(2) at(1) by (simp add: addressed_def)
  then have own: "filter (\<lambda>f. fp_subscription_id f = i) packets = (if i = sid then packets else [])" for i
    by (auto simp: filter_id_conv filter_empty_conv)
  have "rtcp_effect subscriber packets r r'"
    unfolding rtcp_effect_def own resent(4)
    using update_invariant [OF inv auth(1) ev] a auth ev again by (auto simp: sub_effect_def live_def split: option.split)
  with resent(5) show ?thesis by blast
next
  case (asked sid d track l enc e)
  have "sfu_invariant r'"
    using encoding_indexed [OF inv asked(3,4)] by (intro maybe_pli_invariant [OF inv asked(5)]) simp
  moreover have "sr_subscriptions r' = sr_subscriptions r"
    using asked(5) by (auto simp: maybe_pli_def split: if_splits)
  ultimately show ?thesis using asked(6) rtcp_effect_refl by fastforce
qed

lemma handle_rtcp_packets_effect:
  assumes "sfu_invariant r" and "handle_rtcp_packets now subscriber ps out r = (out', r')"
  shows "\<exists>sent. co_retransmissions out' = co_retransmissions out @ sent \<and> rtcp_effect subscriber sent r r'"
  using assms
proof (induction ps arbitrary: out r)
  case Nil
  then show ?case by (auto intro: rtcp_effect_refl)
next
  case (Cons p ps)
  obtain out1 r1 where s: "handle_rtcp_packet now subscriber p out r = (out1, r1)" by fastforce
  from handle_rtcp_packet_effect [OF Cons.prems(1) s] obtain a where
    a: "co_retransmissions out1 = co_retransmissions out @ a" "rtcp_effect subscriber a r r1" by blast
  then have "sfu_invariant r1" by (simp add: rtcp_effect_def)
  from Cons.IH [OF this] Cons.prems(2) s obtain b where
    "co_retransmissions out' = co_retransmissions out1 @ b" "rtcp_effect subscriber b r1 r'" by auto
  with a rtcp_effect_trans [OF a(2)] show ?case by (intro exI [of _ "a @ b"]) simp
qed

lemma handle_rtcp_effect:
  assumes inv: "sfu_invariant r" and h: "handle_rtcp now subscriber input r = (res, r')"
  shows "rtcp_effect subscriber (case res of Inl _ \<Rightarrow> [] | Inr out \<Rightarrow> co_retransmissions out) r r'"
proof (cases "parse_compound input")
  case (Inl e)
  with h inv show ?thesis by (auto simp: handle_rtcp_def intro: rtcp_effect_refl)
next
  case (Inr ps)
  obtain out r1 where p: "handle_rtcp_packets now subscriber ps \<lparr>co_retransmissions = [], co_events = []\<rparr> r = (out, r1)"
    by fastforce
  from handle_rtcp_packets_effect [OF inv p] have "rtcp_effect subscriber (co_retransmissions out) r r1" by auto
  with h Inr p show ?thesis by (auto simp: handle_rtcp_def)
qed

end
