(* ===== verification/Sfu_Room_Runs.thy ===== *)
theory Sfu_Room_Runs
  imports Sfu_Room
begin

text \<open>
  Histories of an SFU room: sequences of calls of its public operations, what they mean for one
  subscription, the throttling of keyframe requests, and the properties of a room.
\<close>

section \<open>Histories of a room\<close>

datatype sfu_op =
    DoPublish published_track
  | DoUnpublish track_id
  | DoSubscribe subscription_config
  | DoUnsubscribe subscription_id
  | DoSetTarget duration participant_id subscription_id layer
  | DoRtp value_order duration participant_id bytes
  | DoRtcp duration participant_id bytes

text \<open>A step gives the packets and events handed to the caller, none for a refused call.\<close>

fun sfu_step :: "sfu_op \<Rightarrow> sfu_room \<Rightarrow> (forwarded_packet list \<times> sfu_event list) \<times> sfu_room" where
  "sfu_step (DoPublish track) r = (([], []), snd (publish track r))"
| "sfu_step (DoUnpublish k) r = (([], []), snd (unpublish k r))"
| "sfu_step (DoSubscribe cfg) r = (([], []), snd (subscribe cfg r))"
| "sfu_step (DoUnsubscribe sid) r = (([], []), snd (unsubscribe sid r))"
| "sfu_step (DoSetTarget now subscriber sid l) r =
     (case room_set_target_layer now subscriber sid l r of (res, r') \<Rightarrow>
        (([], case res of Inl _ \<Rightarrow> [] | Inr events \<Rightarrow> events), r'))"
| "sfu_step (DoRtp order now publisher input) r =
     (case handle_rtp order now publisher input r of (res, r') \<Rightarrow>
        ((case res of Inl _ \<Rightarrow> ([], []) | Inr out \<Rightarrow> (fo_packets out, fo_events out)), r'))"
| "sfu_step (DoRtcp now subscriber input) r =
     (case handle_rtcp now subscriber input r of (res, r') \<Rightarrow>
        ((case res of Inl _ \<Rightarrow> ([], []) | Inr out \<Rightarrow> (co_retransmissions out, co_events out)), r'))"

fun sfu_run :: "sfu_op list \<Rightarrow> sfu_room \<Rightarrow> (forwarded_packet list \<times> sfu_event list) \<times> sfu_room" where
  "sfu_run [] r = (([], []), r)"
| "sfu_run (op # ops) r =
     (let ((p, e), r') = sfu_step op r; ((ps, es), r'') = sfu_run ops r' in ((p @ ps, e @ es), r''))"

lemma sfu_step_invariant:
  assumes inv: "sfu_invariant r" and s: "sfu_step op r = (out, r')"
  shows "sfu_invariant r'"
proof (cases op)
  case (DoPublish track)
  with s inv show ?thesis by (cases "publish track r") (auto intro: publish_invariant)
next
  case (DoUnpublish k)
  with s inv show ?thesis by (cases "unpublish k r") (auto intro: unpublish_invariant)
next
  case (DoSubscribe cfg)
  with s inv show ?thesis by (cases "subscribe cfg r") (auto intro: subscribe_invariant)
next
  case (DoUnsubscribe sid)
  with s inv show ?thesis
    by (cases "remove_subscription sid r") (auto simp: unsubscribe_def intro: remove_subscription_invariant)
next
  case (DoSetTarget now subscriber sid l)
  with s inv show ?thesis by (auto split: prod.splits intro: room_set_target_layer_invariant)
next
  case (DoRtp order now publisher input)
  with s inv show ?thesis by (auto split: prod.splits intro: handle_rtp_invariant)
next
  case (DoRtcp now subscriber input)
  with s inv show ?thesis by (auto split: prod.splits dest: handle_rtcp_effect simp: rtcp_effect_def)
qed

lemma sfu_run_rest: "sfu_step op r = (out, r') \<Longrightarrow> snd (sfu_run (op # ops) r) = snd (sfu_run ops r')"
  by (simp add: Let_def split: prod.split)

lemma sfu_run_invariant: "sfu_invariant r \<Longrightarrow> sfu_invariant (snd (sfu_run ops r))"
proof (induction ops arbitrary: r)
  case Nil
  then show ?case by simp
next
  case (Cons op ops)
  obtain p e r' where s: "sfu_step op r = ((p, e), r')" by (metis prod.exhaust)
  from Cons.IH [OF sfu_step_invariant [OF Cons.prems s]] sfu_run_rest [OF s] show ?case by simp
qed

text \<open>A failing \<open>handle_rtp\<close> returns no packets though down-tracks may have moved on. Forwarding does
  not fail when no subscription rewrites header extensions.\<close>

definition no_rewrites :: "sfu_room \<Rightarrow> bool" where
  "no_rewrites r \<longleftrightarrow>
     (\<forall>i d. hm_get (sr_subscriptions r) i = Some d \<longrightarrow> sc_extension_rewrites (dt_configuration d) = [])"

lemma mux_safe_7bit: "is_rtcp_mux_safe_payload_type pt \<Longrightarrow> pt \<le> 127"
  by (simp add: is_rtcp_mux_safe_payload_type_def)

lemma filter_concat_keyed:
  assumes "distinct xs" and "\<And>x y. x \<in> set xs \<Longrightarrow> y \<in> set (g x) \<Longrightarrow> key y = x"
  shows "filter (\<lambda>y. key y = k) (concat (map g xs)) = (if k \<in> set xs then g k else [])"
  using assms
proof (induction xs)
  case Nil
  then show ?case by simp
next
  case (Cons x xs)
  then have "filter (\<lambda>y. key y = k) (g x) = (if k = x then g x else [])"
    by (auto simp: filter_id_conv filter_empty_conv)
  with Cons show ?case by auto
qed

lemma distinct_concat_keyed:
  assumes "distinct xs" and "\<And>x y. x \<in> set xs \<Longrightarrow> y \<in> set (g x) \<Longrightarrow> key y = x"
    and "\<And>x. length (g x) \<le> 1"
  shows "distinct (map key (concat (map g xs)))"
  using assms(1,2)
proof (induction xs)
  case Nil
  then show ?case by simp
next
  case (Cons x xs)
  have "distinct (map key (g x))" using assms(3) [of x] by (cases "g x") auto
  moreover have "key ` set (g x) \<subseteq> {x}" using Cons.prems by auto
  moreover have "x \<notin> key ` set (concat (map g xs))"
  proof
    assume "x \<in> key ` set (concat (map g xs))"
    then obtain z y where "z \<in> set xs" "y \<in> set (g z)" "x = key y" by auto
    with Cons.prems(1) Cons.prems(2) [of z y] show False by simp
  qed
  moreover have "distinct (map key (concat (map g xs)))" using Cons by simp
  ultimately show ?case unfolding list.map concat.simps map_append distinct_append set_map by blast
qed

lemma forwarded_key:
  assumes "subscriptions_ok r"
    and "f \<in> set (case hm_get (sr_subscriptions r) i of None \<Rightarrow> []
      | Some d \<Rightarrow> forwarded_of (fst (forward now track l info input d)))"
  shows "fp_subscription_id f = i \<and> (\<exists>d. hm_get (sr_subscriptions r) i = Some d \<and> fp_subscriber f = dt_subscriber d)"
proof -
  from assms(2) obtain d where d: "hm_get (sr_subscriptions r) i = Some d"
    and f: "f \<in> set (forwarded_of (fst (forward now track l info input d)))"
    by (cases "hm_get (sr_subscriptions r) i") auto
  obtain dec d' where fw: "forward now track l info input d = (dec, d')" by fastforce
  note at = subscription_at [OF assms(1) d]
  from dt_evolves_addressed [OF dt_evolves_forward [OF fw] at(5)] f fw at(1) d show ?thesis
    by (auto simp: addressed_def)
qed

lemma forwarded_of_single: "length (forwarded_of res) \<le> 1"
  by (simp add: forwarded_of_def split: sum.split forward_decision.split)

lemma subscribed_ids:
  assumes "subscriptions_ok r"
  shows "distinct (case hm_get (sr_track_subscriptions r) k of None \<Rightarrow> [] | Some ids \<Rightarrow> ids)"
    and "i \<in> set (case hm_get (sr_track_subscriptions r) k of None \<Rightarrow> [] | Some ids \<Rightarrow> ids) \<longleftrightarrow>
      (\<exists>d. hm_get (sr_subscriptions r) i = Some d \<and> dt_track_id d = k)"
  using listed_subscriptions [OF assms, of k] subscription_at(4) [OF assms, of i] by (auto split: option.splits)

lemma forward_all_others:
  assumes "forward_all now track l info input ids subs out needs = (res, subs')" and "i \<notin> set ids"
  shows "hm_get subs' i = hm_get subs i"
  using assms
proof (induction ids arbitrary: subs out needs)
  case Nil
  then show ?case by simp
next
  case (Cons x xs)
  show ?case
  proof (cases "hm_get subs x")
    case None
    with Cons show ?thesis by simp
  next
    case (Some d)
    obtain dec d1 where f: "forward now track l info input d = (dec, d1)" by fastforce
    from Cons.prems have i: "i \<notin> set xs" "i \<noteq> x" by simp_all
    from Cons.prems(1) show ?thesis
      unfolding forward_all_step [OF Some f] using Cons.IH [OF _ i(1)] i(2) by (cases dec) auto
  qed
qed

text \<open>A routed packet reaches every subscription of the track, each by its own down-track.\<close>

lemma handle_rtp_fan_out:
  assumes inv: "sfu_invariant r" and nr: "no_rewrites r"
    and p: "parse input = Inr p" and k: "hm_get (sr_ssrc_index r) (h_ssrc (p_header p)) = Some (k, l)"
    and t: "hm_get (sr_tracks r) k = Some track" and o: "pt_owner track = publisher"
    and pt: "h_payload_type (p_header p) = pt_payload_type track"
    and info: "inspect_payload (pt_codec track) (p_payload p) (h_marker (p_header p)) = Inr info"
  shows "\<exists>out r'. handle_rtp order now publisher input r = (Inr out, r') \<and>
    (\<forall>i. case hm_get (sr_subscriptions r) i of
       None \<Rightarrow> hm_get (sr_subscriptions r') i = None \<and> filter (\<lambda>f. fp_subscription_id f = i) (fo_packets out) = []
     | Some d \<Rightarrow>
         if dt_track_id d = k
         then hm_get (sr_subscriptions r') i = Some (snd (forward now track l info input d)) \<and>
           filter (\<lambda>f. fp_subscription_id f = i) (fo_packets out) =
             forwarded_of (fst (forward now track l info input d))
         else hm_get (sr_subscriptions r') i = Some d \<and>
           filter (\<lambda>f. fp_subscription_id f = i) (fo_packets out) = [])"
proof -
  note subs = sfu_invariantD(2) [OF inv]
  define ids where "ids = (case hm_get (sr_track_subscriptions r) k of None \<Rightarrow> [] | Some ids \<Rightarrow> ids)"
  have ids: "distinct ids" "i \<in> set ids \<longleftrightarrow> (\<exists>d. hm_get (sr_subscriptions r) i = Some d \<and> dt_track_id d = k)" for i
    using subscribed_ids [OF subs, where k = k] by (simp_all add: ids_def)
  have "\<exists>x d'. forward now track l info input d = (Inr x, d')" if "hm_get (sr_subscriptions r) i = Some d" for i d
    using that nr subscription_at(5) [OF subs that] mux_safe_7bit
    by (intro forward_never_fails [OF _ _ p]) (auto simp: no_rewrites_def dt_fits_def)
  then have "\<exists>out needs subs'. forward_all now track l info input ids (sr_subscriptions r)
      \<lparr>fo_packets = [], fo_events = []\<rparr> False = (Inr (out, needs), subs')"
    using ids(1) by (rule forward_all_total)
  then obtain out needs subs' where
    fa: "forward_all now track l info input ids (sr_subscriptions r) \<lparr>fo_packets = [], fo_events = []\<rparr> False =
      (Inr (out, needs), subs')" by blast
  obtain res r' where h: "handle_rtp order now publisher input r = (res, r')" by fastforce
  have "\<exists>out'. res = Inr out' \<and> fo_packets out' = fo_packets out \<and> sr_subscriptions r' = subs'"
    using h fa p k t o pt info
    by (auto simp: handle_rtp_def ids_def [symmetric] maybe_pli_def Let_def split: option.splits if_splits)
  then obtain out' where out': "res = Inr out'" "fo_packets out' = fo_packets out" "sr_subscriptions r' = subs'"
    by blast
  let ?g = "\<lambda>i. case hm_get (sr_subscriptions r) i of None \<Rightarrow> []
      | Some d \<Rightarrow> forwarded_of (fst (forward now track l info input d))"
  note ex = forward_all_exact [OF fa ids(1)]
  have key: "fp_subscription_id f = i" if "f \<in> set (?g i)" for f i
    using forwarded_key [OF subs that] by blast
  have packets: "fo_packets out = concat (map ?g ids)" using ex [THEN conjunct2] by simp
  have own: "filter (\<lambda>f. fp_subscription_id f = i) (fo_packets out) = (if i \<in> set ids then ?g i else [])" for i
    unfolding packets by (rule filter_concat_keyed [OF ids(1)]) (rule key)
  have "case hm_get (sr_subscriptions r) i of
       None \<Rightarrow> hm_get (sr_subscriptions r') i = None \<and> filter (\<lambda>f. fp_subscription_id f = i) (fo_packets out') = []
     | Some d \<Rightarrow>
         if dt_track_id d = k
         then hm_get (sr_subscriptions r') i = Some (snd (forward now track l info input d)) \<and>
           filter (\<lambda>f. fp_subscription_id f = i) (fo_packets out') =
             forwarded_of (fst (forward now track l info input d))
         else hm_get (sr_subscriptions r') i = Some d \<and>
           filter (\<lambda>f. fp_subscription_id f = i) (fo_packets out') = []" for i
    using ex ids(2) [of i] own [of i] out' by (auto split: option.splits)
  with h out'(1) show ?thesis by blast
qed

section \<open>Sequence numbers taken by a step\<close>

text \<open>A call that loses packets: it reports an error after the down-tracks of some subscriptions have
  moved on.\<close>

fun rtp_loses :: "sfu_op \<Rightarrow> sfu_room \<Rightarrow> bool" where
  "rtp_loses (DoRtp order now publisher input) r =
     (case handle_rtp order now publisher input r of (res, r') \<Rightarrow> \<not> is_ok res \<and> r' \<noteq> r)"
| "rtp_loses _ r = False"

fun rtp_losses :: "sfu_op list \<Rightarrow> sfu_room \<Rightarrow> nat" where
  "rtp_losses [] r = 0"
| "rtp_losses (op # ops) r = of_bool (rtp_loses op r) + rtp_losses ops (snd (sfu_step op r))"

text \<open>What a step means for the numbering of one subscription: it is sent one new packet, under its
  next number; or none, and its next number stays; or none, in a call that loses packets, and its next
  number is spent.\<close>

definition takes_number :: "bool \<Rightarrow> down_track \<Rightarrow> forwarded_packet list \<Rightarrow> down_track \<Rightarrow> bool" where
  "takes_number lost d sent d' \<longleftrightarrow> dt_configuration d' = dt_configuration d \<and>
     ((\<exists>f. sent = [f] \<and> sealed_as (dt_configuration d) (dt_next_sequence_number d) f \<and>
         dt_next_sequence_number d' = dt_next_sequence_number d + 1) \<or>
      sent = [] \<and> dt_next_sequence_number d' = dt_next_sequence_number d \<or>
      sent = [] \<and> lost \<and> dt_next_sequence_number d' = dt_next_sequence_number d + 1)"

lemma takes_number_none [simp]: "takes_number lost d [] d"
  by (simp add: takes_number_def)

lemma forward_takes_number:
  assumes "forward now track l info input d = (res, d')"
  shows "takes_number (\<not> is_ok res) d (live (forwarded_of res)) d'"
proof (cases res)
  case (Inl e)
  have "dt_configuration d' = dt_configuration d \<and> (dt_next_sequence_number d' = dt_next_sequence_number d \<or>
      dt_next_sequence_number d' = dt_next_sequence_number d + 1)"
    using forward_Inl [OF assms [unfolded Inl]] consumed_keeps(1,3) by blast
  with Inl show ?thesis by (auto simp: takes_number_def forwarded_of_def live_def)
next
  case (Inr x)
  show ?thesis
  proof (cases x)
    case (Forwarded f ev)
    with forward_seals [OF assms [unfolded Inr Forwarded]] Inr show ?thesis
      by (simp add: takes_number_def forwarded_of_def live_def)
  next
    case (Dropped w)
    with forward_Dropped [OF assms [unfolded Inr Dropped]] Inr show ?thesis
      by (simp add: takes_number_def forwarded_of_def live_def)
  qed
qed

lemma forward_all_once:
  assumes "forward_all now track l info input ids subs out needs = (res, subs')" and "distinct ids"
    and "hm_get subs i = Some d"
  shows "hm_get subs' i = Some d \<or> hm_get subs' i = Some (snd (forward now track l info input d))"
  using assms
proof (induction ids arbitrary: subs out needs)
  case Nil
  then show ?case by simp
next
  case (Cons x xs)
  show ?case
  proof (cases "hm_get subs x")
    case None
    with Cons show ?thesis by auto
  next
    case (Some d0)
    obtain dec d1 where f: "forward now track l info input d0 = (dec, d1)" by fastforce
    note step = Cons.prems(1) [unfolded forward_all_step [OF Some f]]
    show ?thesis
    proof (cases dec)
      case (Inl e)
      with step Some f Cons.prems(3) show ?thesis by auto
    next
      case (Inr y)
      then obtain out2 needs2 where
        rest: "forward_all now track l info input xs (hm_insert x d1 subs) out2 needs2 = (res, subs')"
        using step by auto
      show ?thesis
      proof (cases "i = x")
        case True
        with forward_all_others [OF rest, of i] Cons.prems(2,3) Some f show ?thesis by simp
      next
        case False
        with Cons.IH [OF rest] Cons.prems(2,3) show ?thesis by simp
      qed
    qed
  qed
qed

lemma forward_all_ok:
  assumes "forward_all now track l info input ids subs out needs = (Inr y, subs')" and "distinct ids"
    and "i \<in> set ids" and "hm_get subs i = Some d"
  shows "is_ok (fst (forward now track l info input d))"
  using assms
proof (induction ids arbitrary: subs out needs)
  case Nil
  then show ?case by simp
next
  case (Cons x xs)
  show ?case
  proof (cases "hm_get subs x")
    case None
    with Cons show ?thesis by auto
  next
    case (Some d0)
    obtain dec d1 where f: "forward now track l info input d0 = (dec, d1)" by fastforce
    from Cons.prems(1) obtain z out2 needs2 where dec: "dec = Inr z"
      and rest: "forward_all now track l info input xs (hm_insert x d1 subs) out2 needs2 = (Inr y, subs')"
      unfolding forward_all_step [OF Some f] by (cases dec) auto
    show ?thesis
    proof (cases "i = x")
      case True
      with Some f dec Cons.prems(4) show ?thesis by simp
    next
      case False
      with Cons.IH [OF rest] Cons.prems(2-4) show ?thesis by simp
    qed
  qed
qed

lemma handle_rtp_takes_number:
  assumes inv: "sfu_invariant r" and h: "handle_rtp order now publisher input r = (res, r')"
    and d: "hm_get (sr_subscriptions r) i = Some d"
  shows "\<exists>d'. hm_get (sr_subscriptions r') i = Some d' \<and>
    takes_number (\<not> is_ok res \<and> r' \<noteq> r) d
      (live (filter (\<lambda>f. fp_subscription_id f = i) (case res of Inl _ \<Rightarrow> [] | Inr out \<Rightarrow> fo_packets out))) d'"
  using h
proof (cases rule: handle_rtp_cases)
  case (rejected e)
  with d show ?thesis by (simp add: live_def)
next
  case (routed p k l track info ids fres subs')
  note subs = sfu_invariantD(2) [OF inv]
  have ids: "distinct ids" using subscribed_ids(1) [OF subs, where k = k] by (simp add: routed(7))
  obtain dec d1 where f: "forward now track l info input d = (dec, d1)" by fastforce
  note one = forward_takes_number [OF f]
  show ?thesis
  proof (rule disjE [OF routed(9)])
    assume "\<exists>e. fres = Inl e \<and> res = Inl e \<and> r' = r\<lparr>sr_subscriptions := subs'\<rparr>"
    then obtain e where e: "fres = Inl e" "res = Inl e" "r' = r\<lparr>sr_subscriptions := subs'\<rparr>" by blast
    from forward_all_once [OF routed(8) ids d] f consider "hm_get subs' i = Some d" | "hm_get subs' i = Some d1" by auto
    then show ?thesis
    proof cases
      case 1
      with e show ?thesis by (simp add: live_def)
    next
      case 2
      have "sr_subscriptions r' = subs'" using e(3) by simp
      then have "r' \<noteq> r" if "dt_next_sequence_number d1 \<noteq> dt_next_sequence_number d" using 2 d that by auto
      moreover from one have "dt_configuration d1 = dt_configuration d"
        "dt_next_sequence_number d1 \<noteq> dt_next_sequence_number d \<Longrightarrow>
           dt_next_sequence_number d1 = dt_next_sequence_number d + 1"
        by (auto simp: takes_number_def)
      ultimately have "takes_number (\<not> is_ok res \<and> r' \<noteq> r) d [] d1" using e(2) by (auto simp: takes_number_def)
      then show ?thesis using 2 e by (auto simp: live_def)
    qed
  next
    assume "\<exists>out needs out'. fres = Inr (out, needs) \<and> res = Inr out' \<and> fo_packets out' = fo_packets out \<and>
          (fo_events out' = fo_events out \<and> r' = r\<lparr>sr_subscriptions := subs'\<rparr> \<or>
           (\<exists>l' enc ev. track_encoding track l' = Some enc \<and>
              maybe_pli now k (en_ssrc enc) (r\<lparr>sr_subscriptions := subs'\<rparr>) = (ev, r') \<and>
              fo_events out' = fo_events out @ (case ev of None \<Rightarrow> [] | Some e \<Rightarrow> [e])))"
    then obtain out needs out' where o: "fres = Inr (out, needs)" "res = Inr out'" "fo_packets out' = fo_packets out"
      and x: "fo_events out' = fo_events out \<and> r' = r\<lparr>sr_subscriptions := subs'\<rparr> \<or>
           (\<exists>l' enc ev. track_encoding track l' = Some enc \<and>
              maybe_pli now k (en_ssrc enc) (r\<lparr>sr_subscriptions := subs'\<rparr>) = (ev, r') \<and>
              fo_events out' = fo_events out @ (case ev of None \<Rightarrow> [] | Some e \<Rightarrow> [e]))"
      by (elim exE conjE) (rule that)
    from x have r': "sr_subscriptions r' = subs'" by (auto simp: maybe_pli_def split: if_splits)
    let ?g = "\<lambda>i. case hm_get (sr_subscriptions r) i of None \<Rightarrow> []
        | Some d \<Rightarrow> forwarded_of (fst (forward now track l info input d))"
    note ex = forward_all_exact [OF routed(8) [unfolded o(1)] ids]
    have "fo_packets out = concat (map ?g ids)" using ex [THEN conjunct2] by simp
    moreover have "filter (\<lambda>f. fp_subscription_id f = i) (concat (map ?g ids)) = (if i \<in> set ids then ?g i else [])"
      by (rule filter_concat_keyed [OF ids]) (use forwarded_key [OF subs] in blast)
    ultimately have own: "filter (\<lambda>f. fp_subscription_id f = i) (fo_packets out) =
        (if i \<in> set ids then forwarded_of dec else [])" using d f by simp
    show ?thesis
    proof (cases "i \<in> set ids")
      case True
      with forward_all_ok [OF routed(8) [unfolded o(1)] ids True d] f have "is_ok dec" by simp
      with one True ex [THEN conjunct1, rule_format, of i] own o r' d f show ?thesis by simp
    next
      case False
      with ex [THEN conjunct1, rule_format, of i] own o r' d show ?thesis by (simp add: live_def)
    qed
  qed
qed

lemma set_target_takes_number: "dt_set_target_layer l d = (b, d') \<Longrightarrow> takes_number False d [] d'"
  using dt_set_target_layer_keeps [of l d] by (simp add: takes_number_def)

lemma sfu_step_takes_number:
  assumes inv: "sfu_invariant r" and s: "sfu_step op r = ((pkts, evs), r')"
    and d: "hm_get (sr_subscriptions r) i = Some d"
    and keep: "op \<noteq> DoUnsubscribe i" "op \<noteq> DoUnpublish (dt_track_id d)"
  shows "\<exists>d'. hm_get (sr_subscriptions r') i = Some d' \<and>
    takes_number (rtp_loses op r) d (live (filter (\<lambda>f. fp_subscription_id f = i) pkts)) d'"
proof (cases op)
  case (DoPublish track)
  with s have "r' = snd (publish track r)" "pkts = []" by simp_all
  then have "sr_subscriptions r' = sr_subscriptions r" "pkts = []"
    by (simp_all add: publish_def split: sum.split)
  with d show ?thesis by (simp add: live_def)
next
  case (DoUnpublish k)
  obtain b where u: "unpublish k r = (b, r')" using s DoUnpublish by (cases "unpublish k r") simp
  have "hm_get (sr_subscriptions r') i = Some d"
  proof (cases "hm_get (sr_tracks r) k")
    case None
    with u d show ?thesis by (simp add: unpublish_def)
  next
    case (Some track)
    with unpublish_view(5) [OF sfu_invariantD(2) [OF inv] Some u, of i] d keep DoUnpublish show ?thesis by simp
  qed
  with s DoUnpublish show ?thesis by (simp add: live_def)
next
  case (DoSubscribe cfg)
  obtain res where u: "subscribe cfg r = (res, r')" using s DoSubscribe by (cases "subscribe cfg r") simp
  from u have "hm_get (sr_subscriptions r') i = Some d"
    by (cases rule: subscribe_cases) (use d in auto)
  with s DoSubscribe show ?thesis by (simp add: live_def)
next
  case (DoUnsubscribe sid)
  obtain b where u: "remove_subscription sid r = (b, r')"
    using s DoUnsubscribe by (cases "remove_subscription sid r") (simp add: unsubscribe_def)
  from remove_subscription_view(5) [OF u] d keep s DoUnsubscribe show ?thesis by (simp add: live_def)
next
  case (DoSetTarget now subscriber sid l)
  then have pkts: "pkts = []" and r': "r' = snd (room_set_target_layer now subscriber sid l r)"
    using s by (auto split: prod.splits)
  obtain res where h: "room_set_target_layer now subscriber sid l r = (res, r')"
    using r' by (cases "room_set_target_layer now subscriber sid l r") simp
  from h have "\<exists>d'. hm_get (sr_subscriptions r') i = Some d' \<and> takes_number False d [] d'"
  proof (cases rule: room_set_target_layer_cases)
    case refused
    with d show ?thesis by simp
  next
    case (kept x ch x')
    with d set_target_takes_number [OF kept(3)] show ?thesis by auto
  next
    case (asked x ch x' track enc ev)
    then have "sr_subscriptions r' = hm_insert sid x' (sr_subscriptions r)"
      by (auto simp: maybe_pli_def split: if_splits)
    with d asked(1) set_target_takes_number [OF asked(3)] show ?thesis by auto
  qed
  with pkts DoSetTarget show ?thesis by (simp add: live_def)
next
  case (DoRtp order now publisher input)
  obtain res where h: "handle_rtp order now publisher input r = (res, r')"
    using s DoRtp by (auto split: prod.splits)
  have "pkts = (case res of Inl _ \<Rightarrow> [] | Inr out \<Rightarrow> fo_packets out)"
    using s DoRtp h by (auto split: sum.splits)
  with handle_rtp_takes_number [OF inv h d] DoRtp h show ?thesis by simp
next
  case (DoRtcp now subscriber input)
  obtain res where h: "handle_rtcp now subscriber input r = (res, r')" using s DoRtcp by (auto split: prod.splits)
  have "pkts = (case res of Inl _ \<Rightarrow> [] | Inr out \<Rightarrow> co_retransmissions out)"
    using s DoRtcp h by (auto split: sum.splits)
  with handle_rtcp_effect [OF inv h] have
    "sub_effect subscriber (filter (\<lambda>f. fp_subscription_id f = i) pkts)
        (hm_get (sr_subscriptions r) i) (hm_get (sr_subscriptions r') i)" by (simp add: rtcp_effect_def)
  with d dt_evolves_keeps(1) DoRtcp show ?thesis by (auto simp: sub_effect_def takes_number_def)
qed

lemma sfu_step_removes:
  assumes inv: "sfu_invariant r" and s: "sfu_step op r = ((pkts, evs), r')"
    and d: "hm_get (sr_subscriptions r) i = Some d" and op: "op = DoUnsubscribe i \<or> op = DoUnpublish (dt_track_id d)"
  shows "hm_get (sr_subscriptions r') i = None"
  using op
proof
  assume "op = DoUnsubscribe i"
  with s obtain b where u: "remove_subscription i r = (b, r')"
    by (cases "remove_subscription i r") (simp add: unsubscribe_def)
  from remove_subscription_view(5) [OF u] show ?thesis by simp
next
  assume "op = DoUnpublish (dt_track_id d)"
  with s obtain b where u: "unpublish (dt_track_id d) r = (b, r')" by (cases "unpublish (dt_track_id d) r") simp
  note ok = sfu_invariantD(2) [OF inv]
  from subscription_at(2) [OF ok d] obtain track where "hm_get (sr_tracks r) (dt_track_id d) = Some track" by blast
  from unpublish_view(5) [OF ok this u, of i] d show ?thesis by simp
qed

lemma sfu_step_new:
  assumes inv: "sfu_invariant r" and s: "sfu_step op r = ((pkts, evs), r')"
    and "hm_get (sr_subscriptions r) i = None" and "hm_get (sr_subscriptions r') i = Some d"
  shows "op = DoSubscribe (dt_configuration d)"
proof (cases op)
  case (DoPublish track)
  with s have "sr_subscriptions r' = sr_subscriptions r" by (auto simp: publish_def split: sum.split)
  with assms(3,4) show ?thesis by simp
next
  case (DoUnpublish k)
  with s obtain b where u: "unpublish k r = (b, r')" by (cases "unpublish k r") simp
  show ?thesis
  proof (cases "hm_get (sr_tracks r) k")
    case None
    with u assms(3,4) show ?thesis by (simp add: unpublish_def)
  next
    case (Some track)
    from unpublish_view(5) [OF sfu_invariantD(2) [OF inv] Some u, of i] assms(3,4) show ?thesis by simp
  qed
next
  case (DoSubscribe cfg)
  with s obtain res where "subscribe cfg r = (res, r')" by (cases "subscribe cfg r") simp
  then show ?thesis
  proof (cases rule: subscribe_cases)
    case refused
    with assms(3,4) show ?thesis by simp
  next
    case (subscribed track)
    with assms(3,4) DoSubscribe show ?thesis by (auto simp: dt_new_def Let_def split: if_splits)
  qed
next
  case (DoUnsubscribe sid)
  with s obtain b where u: "remove_subscription sid r = (b, r')"
    by (cases "remove_subscription sid r") (simp add: unsubscribe_def)
  from remove_subscription_view(5) [OF u] assms(3,4) show ?thesis by (simp split: if_splits)
next
  case (DoSetTarget now subscriber sid l)
  with s obtain res where "room_set_target_layer now subscriber sid l r = (res, r')" by (auto split: prod.splits)
  then show ?thesis
    by (cases rule: room_set_target_layer_cases) (use assms(3,4) in \<open>auto simp: maybe_pli_def split: if_splits\<close>)
next
  case (DoRtp order now publisher input)
  with s obtain res where "handle_rtp order now publisher input r = (res, r')" by (auto split: prod.splits)
  then show ?thesis
  proof (cases rule: handle_rtp_cases)
    case rejected
    with assms(3,4) show ?thesis by simp
  next
    case (routed p k l track info ids fres subs')
    have "hm_wf (sr_subscriptions r)" using sfu_invariantD(2) [OF inv] by (simp add: subscriptions_ok_def)
    from forward_all_evolves [OF routed(8) this, THEN conjunct2, THEN conjunct2, rule_format, of i] assms(3)
    have "hm_get subs' i = None" by simp
    moreover have "sr_subscriptions r' = subs'" using routed(9) by (auto simp: maybe_pli_def split: if_splits)
    ultimately show ?thesis using assms(4) by simp
  qed
next
  case (DoRtcp now subscriber input)
  with s obtain res where "handle_rtcp now subscriber input r = (res, r')" by (auto split: prod.splits)
  from handle_rtcp_effect [OF inv this] have
    "\<exists>x. sub_effect subscriber x (hm_get (sr_subscriptions r) i) (hm_get (sr_subscriptions r') i)"
    by (auto simp: rtcp_effect_def)
  with assms(3,4) show ?thesis by (auto simp: sub_effect_def)
qed

lemma sfu_step_no_rewrites:
  assumes inv: "sfu_invariant r" and nr: "no_rewrites r" and s: "sfu_step op r = ((pkts, evs), r')"
    and op: "\<And>cfg. op = DoSubscribe cfg \<Longrightarrow> sc_extension_rewrites cfg = []"
  shows "no_rewrites r'"
  unfolding no_rewrites_def
proof (intro allI impI)
  fix i d' assume d': "hm_get (sr_subscriptions r') i = Some d'"
  show "sc_extension_rewrites (dt_configuration d') = []"
  proof (cases "hm_get (sr_subscriptions r) i")
    case (Some d)
    show ?thesis
    proof (cases "op = DoUnsubscribe i \<or> op = DoUnpublish (dt_track_id d)")
      case True
      with sfu_step_removes [OF inv s Some] d' show ?thesis by simp
    next
      case False
      with sfu_step_takes_number [OF inv s Some] d' have "dt_configuration d' = dt_configuration d"
        by (auto simp: takes_number_def)
      with nr Some show ?thesis by (simp add: no_rewrites_def)
    qed
  next
    case None
    with sfu_step_new [OF inv s None] d' op show ?thesis by auto
  qed
qed

lemma sfu_run_no_rewrites:
  assumes "sfu_invariant r" and "no_rewrites r"
    and "\<forall>cfg. DoSubscribe cfg \<in> set ops \<longrightarrow> sc_extension_rewrites cfg = []"
  shows "no_rewrites (snd (sfu_run ops r))"
  using assms
proof (induction ops arbitrary: r)
  case Nil
  then show ?case by simp
next
  case (Cons op ops)
  obtain p e r' where s: "sfu_step op r = ((p, e), r')" by (metis prod.exhaust)
  have "\<And>cfg. op = DoSubscribe cfg \<Longrightarrow> sc_extension_rewrites cfg = []"
    using Cons.prems(3) by (metis list.set_intros(1))
  with Cons.prems(1,2) s have "no_rewrites r'" by (rule sfu_step_no_rewrites)
  then have "no_rewrites (snd (sfu_run ops r'))"
    by (rule Cons.IH [OF sfu_step_invariant [OF Cons.prems(1) s]]) (use Cons.prems(3) in auto)
  with sfu_run_rest [OF s] show ?case by simp
qed

section \<open>Throttling of keyframe requests\<close>

fun sfu_op_time :: "sfu_op \<Rightarrow> duration option" where
  "sfu_op_time (DoSetTarget now _ _ _) = Some now"
| "sfu_op_time (DoRtp _ now _ _) = Some now"
| "sfu_op_time (DoRtcp now _ _) = Some now"
| "sfu_op_time _ = None"

definition throttled :: "duration \<Rightarrow> u32 \<Rightarrow> sfu_room \<Rightarrow> bool" where
  "throttled now s r \<longleftrightarrow> (\<exists>t. hm_get (sr_last_pli r) s = Some t \<and> now - t < rc_pli_throttle (sr_configuration r))"

text \<open>How events and the request times move together: a request for a source is issued only when it
  is not throttled, sets its time, and a throttled source keeps its time.\<close>

definition pli_effect :: "duration \<Rightarrow> sfu_event list \<Rightarrow> sfu_room \<Rightarrow> sfu_room \<Rightarrow> bool" where
  "pli_effect now es r r' \<longleftrightarrow> sr_configuration r' = sr_configuration r \<and>
     (\<forall>s. if \<exists>k. PliRequest k s \<in> set es
        then \<not> throttled now s r \<and> hm_get (sr_last_pli r') s = Some now
        else hm_get (sr_last_pli r') s = hm_get (sr_last_pli r) s)"

lemma pli_effect_none:
  assumes "\<forall>k s. PliRequest k s \<notin> set es" and "sr_last_pli r' = sr_last_pli r"
    and "sr_configuration r' = sr_configuration r"
  shows "pli_effect now es r r'"
  using assms by (simp add: pli_effect_def)

lemma pli_effect_maybe:
  assumes "maybe_pli now k s r = (e, r')" and "\<forall>k s. PliRequest k s \<notin> set es"
    and "sr_last_pli r0 = sr_last_pli r" and "sr_configuration r0 = sr_configuration r"
  shows "pli_effect now (es @ (case e of None \<Rightarrow> [] | Some e \<Rightarrow> [e])) r0 r'"
proof -
  have "throttled now s r0 \<longleftrightarrow> (case hm_get (sr_last_pli r) s of None \<Rightarrow> False
          | Some previous \<Rightarrow> now - previous < rc_pli_throttle (sr_configuration r))"
    using assms(3,4) by (simp add: throttled_def split: option.split)
  with assms show ?thesis
    by (cases "throttled now s r0") (auto simp: pli_effect_def maybe_pli_def)
qed

text \<open>Only the first of several requests made in one call can pass.\<close>

lemma pli_effect_trans:
  assumes "pli_effect now a r r1" and "pli_effect now b r1 r2" and "0 < rc_pli_throttle (sr_configuration r)"
  shows "pli_effect now (a @ b) r r2"
proof -
  have "if \<exists>k. PliRequest k s \<in> set (a @ b)
        then \<not> throttled now s r \<and> hm_get (sr_last_pli r2) s = Some now
        else hm_get (sr_last_pli r2) s = hm_get (sr_last_pli r) s" for s
  proof (cases "\<exists>k. PliRequest k s \<in> set a")
    case True
    with assms(1) have n: "\<not> throttled now s r" "hm_get (sr_last_pli r1) s = Some now"
      "sr_configuration r1 = sr_configuration r" by (auto simp: pli_effect_def dest: spec [of _ s])
    then have "throttled now s r1" using assms(3) by (simp add: throttled_def)
    with assms(2) have "\<nexists>k. PliRequest k s \<in> set b" "hm_get (sr_last_pli r2) s = hm_get (sr_last_pli r1) s"
      unfolding pli_effect_def by metis+
    with n True show ?thesis by auto
  next
    case False
    with assms(1) have n: "hm_get (sr_last_pli r1) s = hm_get (sr_last_pli r) s"
      "sr_configuration r1 = sr_configuration r" unfolding pli_effect_def by metis+
    then have "throttled now s r1 = throttled now s r" by (simp add: throttled_def)
    with assms(2) False n show ?thesis unfolding pli_effect_def by (metis (no_types, lifting) Un_iff set_append)
  qed
  moreover have "sr_configuration r2 = sr_configuration r" using assms(1,2) by (simp add: pli_effect_def)
  ultimately show ?thesis unfolding pli_effect_def by blast
qed

lemma forward_all_events:
  assumes "forward_all now track l info input ids subs out needs = (Inr (out', needs'), subs')"
    and "\<forall>k s. PliRequest k s \<notin> set (fo_events out)"
  shows "\<forall>k s. PliRequest k s \<notin> set (fo_events out')"
  using assms
proof (induction ids arbitrary: subs out needs)
  case Nil
  then show ?case by simp
next
  case (Cons x xs)
  show ?case
  proof (cases "hm_get subs x")
    case None
    with Cons show ?thesis by simp
  next
    case (Some d)
    obtain dec d1 where f: "forward now track l info input d = (dec, d1)" by fastforce
    have "\<forall>k s. PliRequest k s \<notin> set (events_of dec)"
    proof (cases "\<exists>g ev. dec = Inr (Forwarded g ev)")
      case True
      then obtain g ev where dec: "dec = Inr (Forwarded g ev)" by blast
      from forward_Forwarded [OF f [unfolded dec]] have "\<exists>b. ev = (if b then Some (LayerSwitched
          (sc_id (dt_configuration d)) (dt_selected_spatial d) l) else None)" by blast
      then show ?thesis by (auto simp: events_of_def dec split: option.splits if_splits)
    next
      case False
      then show ?thesis by (auto simp: events_of_def split: sum.split forward_decision.split)
    qed
    with Cons.prems(2) have q: "\<forall>k s. PliRequest k s \<notin> set (fo_events (out
        \<lparr>fo_packets := fo_packets out @ forwarded_of dec, fo_events := fo_events out @ events_of dec\<rparr>))"
      by simp
    from Cons.prems(1) show ?thesis
      unfolding forward_all_step [OF Some f] using Cons.IH [OF _ q] by (cases dec) simp_all
  qed
qed

lemma handle_rtcp_packets_pli:
  assumes "sfu_invariant r" and "handle_rtcp_packets now subscriber ps out r = (out', r')"
    and "0 < rc_pli_throttle (sr_configuration r)"
  shows "\<exists>es. co_events out' = co_events out @ es \<and> pli_effect now es r r'"
  using assms
proof (induction ps arbitrary: out r)
  case Nil
  then show ?case by (auto intro: pli_effect_none)
next
  case (Cons p ps)
  obtain out1 r1 where s: "handle_rtcp_packet now subscriber p out r = (out1, r1)" by fastforce
  have "\<exists>a. co_events out1 = co_events out @ a \<and> pli_effect now a r r1"
    using s
  proof (cases rule: handle_rtcp_packet_cases)
    case (nothing es)
    then show ?thesis by (fastforce intro: pli_effect_none)
  next
    case (resent nack sid d packets d')
    then show ?thesis by (auto intro: pli_effect_none)
  next
    case (asked sid d track l enc e)
    with pli_effect_maybe [OF asked(5), of "[]" r] show ?thesis by simp
  qed
  then obtain a where a: "co_events out1 = co_events out @ a" "pli_effect now a r r1" by blast
  have inv1: "sfu_invariant r1" using handle_rtcp_packet_effect [OF Cons.prems(1) s] by (auto simp: rtcp_effect_def)
  have c1: "0 < rc_pli_throttle (sr_configuration r1)" using a(2) Cons.prems(3) by (simp add: pli_effect_def)
  from Cons.prems(2) s have "handle_rtcp_packets now subscriber ps out1 r1 = (out', r')" by simp
  from Cons.IH [OF inv1 this c1] obtain b where
    "co_events out' = co_events out1 @ b" "pli_effect now b r1 r'" by blast
  with a pli_effect_trans [OF a(2) _ Cons.prems(3)] show ?case by (intro exI [of _ "a @ b"]) simp
qed

lemma sfu_step_pli:
  assumes inv: "sfu_invariant r" and s: "sfu_step op r = ((pkts, evs), r')" and t: "sfu_op_time op = Some now"
    and pos: "0 < rc_pli_throttle (sr_configuration r)"
  shows "pli_effect now evs r r'"
proof (cases op)
  case (DoSetTarget n subscriber sid l)
  then have n: "n = now" using t by simp
  obtain res where h: "room_set_target_layer now subscriber sid l r = (res, r')"
    and evs: "evs = (case res of Inl _ \<Rightarrow> [] | Inr events \<Rightarrow> events)" using s DoSetTarget n by (auto split: prod.splits)
  from h show ?thesis
  proof (cases rule: room_set_target_layer_cases)
    case (asked d ch d' track enc ev)
    with pli_effect_maybe [OF asked(7), of "[]" r] evs show ?thesis by simp
  qed (use evs in \<open>auto intro: pli_effect_none\<close>)
next
  case (DoRtp order n publisher input)
  then have n: "n = now" using t by simp
  obtain res where h: "handle_rtp order now publisher input r = (res, r')"
    and evs: "evs = (case res of Inl _ \<Rightarrow> [] | Inr out \<Rightarrow> fo_events out)"
    using s DoRtp n by (auto split: prod.splits sum.splits)
  from h show ?thesis
  proof (cases rule: handle_rtp_cases)
    case (rejected e)
    with evs show ?thesis by (simp add: pli_effect_none)
  next
    case (routed p k l track info ids fres subs')
    from routed(9) show ?thesis
    proof (elim disjE exE conjE)
      fix e assume "res = Inl e" "r' = r\<lparr>sr_subscriptions := subs'\<rparr>"
      with evs show ?thesis by (simp add: pli_effect_none)
    next
      fix out needs out' assume f: "fres = Inr (out, needs)" "res = Inr out'" "fo_events out' = fo_events out"
        "r' = r\<lparr>sr_subscriptions := subs'\<rparr>"
      from forward_all_events [OF routed(8) [unfolded f(1)]] f evs show ?thesis by (simp add: pli_effect_none)
    next
      fix out needs out' l' enc ev assume f: "fres = Inr (out, needs)" "res = Inr out'"
        and m: "maybe_pli now k (en_ssrc enc) (r\<lparr>sr_subscriptions := subs'\<rparr>) = (ev, r')"
        and e: "fo_events out' = fo_events out @ (case ev of None \<Rightarrow> [] | Some e \<Rightarrow> [e])"
      from forward_all_events [OF routed(8) [unfolded f(1)]] pli_effect_maybe [OF m, of "fo_events out" r] evs f e
      show ?thesis by simp
    qed
  qed
next
  case (DoRtcp n subscriber input)
  then have n: "n = now" using t by simp
  obtain res where h: "handle_rtcp now subscriber input r = (res, r')"
    and evs: "evs = (case res of Inl _ \<Rightarrow> [] | Inr out \<Rightarrow> co_events out)"
    using s DoRtcp n by (auto split: prod.splits sum.splits)
  show ?thesis
  proof (cases "parse_compound input")
    case (Inl e)
    with h evs show ?thesis by (auto simp: handle_rtcp_def intro: pli_effect_none)
  next
    case (Inr ps)
    obtain out r1 where p: "handle_rtcp_packets now subscriber ps \<lparr>co_retransmissions = [], co_events = []\<rparr> r = (out, r1)"
      by fastforce
    from handle_rtcp_packets_pli [OF inv p pos] h Inr p evs show ?thesis by (auto simp: handle_rtcp_def)
  qed
qed (use t in simp_all)

text \<open>A published track stays as it is until it is unpublished.\<close>

lemma sfu_step_track:
  assumes inv: "sfu_invariant r" and s: "sfu_step op r = (out, r')" and op: "op \<noteq> DoUnpublish k"
    and t: "hm_get (sr_tracks r) k = Some track"
  shows "hm_get (sr_tracks r') k = Some track \<and> sr_configuration r' = sr_configuration r"
proof (cases op)
  case (DoPublish x)
  with s t show ?thesis by (auto simp: publish_def hm_contains_def split: sum.split)
next
  case (DoUnpublish k')
  obtain b where u: "unpublish k' r = (b, r')" using s DoUnpublish by (cases "unpublish k' r") simp
  show ?thesis
  proof (cases "hm_get (sr_tracks r) k'")
    case None
    with u t show ?thesis by (auto simp: unpublish_def)
  next
    case (Some x)
    with unpublish_view(1,2) [OF sfu_invariantD(2) [OF inv] Some u] op t DoUnpublish show ?thesis by simp
  qed
next
  case (DoSubscribe cfg)
  obtain res where u: "subscribe cfg r = (res, r')" using s DoSubscribe by (cases "subscribe cfg r") simp
  then show ?thesis by (cases rule: subscribe_cases) (use t in auto)
next
  case (DoUnsubscribe sid)
  obtain b where u: "remove_subscription sid r = (b, r')"
    using s DoUnsubscribe by (cases "remove_subscription sid r") (simp add: unsubscribe_def)
  from remove_subscription_view(1,4) [OF u] t show ?thesis by simp
next
  case (DoSetTarget now subscriber sid l)
  obtain res where h: "room_set_target_layer now subscriber sid l r = (res, r')"
    using s DoSetTarget by (auto split: prod.splits)
  then show ?thesis
    by (cases rule: room_set_target_layer_cases) (use t in \<open>auto simp: maybe_pli_def split: if_splits\<close>)
next
  case (DoRtp order now publisher input)
  obtain res where h: "handle_rtp order now publisher input r = (res, r')" using s DoRtp by (auto split: prod.splits)
  then show ?thesis
    by (cases rule: handle_rtp_cases) (use t in \<open>auto simp: maybe_pli_def split: if_splits\<close>)
next
  case (DoRtcp now subscriber input)
  obtain res where h: "handle_rtcp now subscriber input r = (res, r')" using s DoRtcp by (auto split: prod.splits)
  have "sr_tracks r2 = sr_tracks r1 \<and> sr_configuration r2 = sr_configuration r1"
    if "handle_rtcp_packets now subscriber ps o1 r1 = (o2, r2)" for ps o1 r1 o2 r2
    using that
  proof (induction ps arbitrary: o1 r1)
    case Nil
    then show ?case by simp
  next
    case (Cons p ps)
    obtain o3 r3 where p: "handle_rtcp_packet now subscriber p o1 r1 = (o3, r3)" by fastforce
    then have "sr_tracks r3 = sr_tracks r1 \<and> sr_configuration r3 = sr_configuration r1"
      by (cases rule: handle_rtcp_packet_cases) (auto simp: maybe_pli_def split: if_splits)
    with Cons.IH [of o3 r3] Cons.prems p show ?case by simp
  qed
  with h t show ?thesis by (auto simp: handle_rtcp_def split: sum.splits prod.splits)
qed

lemma sfu_run_quiet:
  assumes "sfu_invariant r" and "sfu_run ops r = ((pkts, evs), r')" and "0 < rc_pli_throttle (sr_configuration r)"
    and "hm_get (sr_last_pli r) s = Some t" and "hm_get (sr_ssrc_index r) s = Some (k, l)"
    and "DoUnpublish k \<notin> set ops"
    and "\<forall>op\<in>set ops. \<forall>now. sfu_op_time op = Some now \<longrightarrow> now - t < rc_pli_throttle (sr_configuration r)"
  shows "\<forall>k. PliRequest k s \<notin> set evs"
  using assms
proof (induction ops arbitrary: r pkts evs)
  case Nil
  then show ?case by simp
next
  case (Cons op ops)
  obtain p e r1 where s: "sfu_step op r = ((p, e), r1)" by (metis prod.exhaust)
  obtain ps es r2 where rest: "sfu_run ops r1 = ((ps, es), r2)" by (metis prod.exhaust)
  from Cons.prems(2) s rest have evs: "evs = e @ es" and run: "sfu_run ops r1 = ((ps, es), r')" by simp_all
  have inv1: "sfu_invariant r1" by (rule sfu_step_invariant [OF Cons.prems(1) s])
  from sfu_invariantD(1) [OF Cons.prems(1)] Cons.prems(5) obtain track where track: "hm_get (sr_tracks r) k = Some track"
    and enc: "\<exists>e\<in>set (pt_encodings track). en_ssrc e = s \<and> en_spatial_layer e = l" by (auto simp: tracks_ok_def)
  have "op \<noteq> DoUnpublish k" using Cons.prems(6) by auto
  from sfu_step_track [OF Cons.prems(1) s this track] have t1: "hm_get (sr_tracks r1) k = Some track"
    and c1: "sr_configuration r1 = sr_configuration r" by simp_all
  have idx1: "hm_get (sr_ssrc_index r1) s = Some (k, l)"
    using sfu_invariantD(1) [OF inv1] t1 enc by (auto simp: tracks_ok_def)
  have quiet: "(\<forall>k. PliRequest k s \<notin> set e) \<and> hm_get (sr_last_pli r1) s = Some t"
  proof (cases "sfu_op_time op")
    case None
    have "sr_last_pli r1 = sr_last_pli r \<or> hm_get (sr_last_pli r1) s = Some t"
    proof (cases op)
      case (DoUnpublish k')
      obtain b where u: "unpublish k' r = (b, r1)" using s DoUnpublish by (cases "unpublish k' r") simp
      show ?thesis
      proof (cases "hm_get (sr_tracks r) k'")
        case None
        with u show ?thesis by (simp add: unpublish_def)
      next
        case (Some x)
        have "s \<notin> en_ssrc ` set (pt_encodings x)"
          using encoding_listed [OF sfu_invariantD(1) [OF Cons.prems(1)] Some] Cons.prems(5)
            \<open>op \<noteq> DoUnpublish k\<close> DoUnpublish by fastforce
        with unpublish_view(4) [OF sfu_invariantD(2) [OF Cons.prems(1)] Some u, of s] Cons.prems(4)
        show ?thesis by simp
      qed
    next
      case (DoSubscribe cfg)
      obtain res where "subscribe cfg r = (res, r1)" using s DoSubscribe by (cases "subscribe cfg r") simp
      then show ?thesis by (cases rule: subscribe_cases) auto
    next
      case (DoUnsubscribe sid)
      obtain b where u: "remove_subscription sid r = (b, r1)"
        using s DoUnsubscribe by (cases "remove_subscription sid r") (simp add: unsubscribe_def)
      from remove_subscription_view(3) [OF u] show ?thesis by simp
    qed (use None s in \<open>auto simp: publish_def split: sum.splits\<close>)
    moreover have "e = []" using None s by (cases op) auto
    ultimately show ?thesis using Cons.prems(4) by auto
  next
    case (Some now)
    have "now - t < rc_pli_throttle (sr_configuration r)" using Cons.prems(7) Some by simp
    with Cons.prems(4) have "throttled now s r" by (simp add: throttled_def)
    with sfu_step_pli [OF Cons.prems(1) s Some Cons.prems(3)] Cons.prems(4) show ?thesis
      unfolding pli_effect_def by metis
  qed
  have "\<forall>k. PliRequest k s \<notin> set es"
    by (rule Cons.IH [OF inv1 run _ _ idx1]) (use Cons.prems c1 quiet in auto)
  with quiet show ?case by (simp add: evs)
qed

section \<open>Properties\<close>

text \<open>C3. The room invariant. After any sequence of calls the room's maps agree: the SSRC index lists
  exactly the encodings of the published tracks, every subscription belongs to a published track and
  is listed once in each index, caches hold only their own subscriber's packets within their
  capacity, keyframe-request times are kept for live sources only, and the limits on tracks and
  subscriptions hold.\<close>

theorem sfu_room_invariant: "sfu_invariant (snd (sfu_run ops (sfu_new c)))"
  by (rule sfu_run_invariant [OF sfu_new_invariant])

text \<open>C8. Isolation of media. A packet that is accepted comes from the owner of the track its SSRC
  belongs to, and what goes out for it goes only to subscriptions of that very track, at most one
  packet each and addressed to the subscriber; other subscriptions are untouched. A participant that
  does not own the track is refused, and nothing changes.\<close>

theorem rtp_isolation:
  assumes "r = snd (sfu_run ops (sfu_new c))" and "handle_rtp order now publisher input r = (res, r')"
    and "parse input = Inr p" and "hm_get (sr_ssrc_index r) (h_ssrc (p_header p)) = Some (k, l)"
    and "hm_get (sr_tracks r) k = Some track"
  shows "if pt_owner track \<noteq> publisher then res = Inl (UnauthorizedParticipant publisher) \<and> r' = r
    else (\<forall>i d. hm_get (sr_subscriptions r) i = Some d \<longrightarrow> dt_track_id d \<noteq> k \<longrightarrow>
           hm_get (sr_subscriptions r') i = Some d) \<and>
      (\<forall>out. res = Inr out \<longrightarrow> distinct (map fp_subscription_id (fo_packets out)) \<and>
        (\<forall>f\<in>set (fo_packets out). \<exists>d. hm_get (sr_subscriptions r) (fp_subscription_id f) = Some d \<and>
           dt_track_id d = k \<and> fp_subscriber f = dt_subscriber d))"
proof (cases "pt_owner track = publisher")
  case False
  with assms(2-5) show ?thesis by (simp add: handle_rtp_def)
next
  case True
  have inv: "sfu_invariant r" unfolding assms(1) by (rule sfu_run_invariant [OF sfu_new_invariant])
  note subs = sfu_invariantD(2) [OF inv]
  from assms(2) have "(\<forall>i d. hm_get (sr_subscriptions r) i = Some d \<longrightarrow> dt_track_id d \<noteq> k \<longrightarrow>
           hm_get (sr_subscriptions r') i = Some d) \<and>
      (\<forall>out. res = Inr out \<longrightarrow> distinct (map fp_subscription_id (fo_packets out)) \<and>
        (\<forall>f\<in>set (fo_packets out). \<exists>d. hm_get (sr_subscriptions r) (fp_subscription_id f) = Some d \<and>
           dt_track_id d = k \<and> fp_subscriber f = dt_subscriber d))"
  proof (cases rule: handle_rtp_cases)
    case rejected
    then show ?thesis by simp
  next
    case (routed p' k' l' track' info ids fres subs')
    then have k': "p' = p" "k' = k" "l' = l" using assms(3,4) by simp_all
    have ids: "distinct ids" "i \<in> set ids \<longleftrightarrow> (\<exists>d. hm_get (sr_subscriptions r) i = Some d \<and> dt_track_id d = k)" for i
      using subscribed_ids [OF subs, where k = k] by (simp_all add: routed(7) k')
    have s': "sr_subscriptions r' = subs'" using routed(9) by (auto simp: maybe_pli_def split: if_splits)
    have "hm_get subs' i = Some d" if "hm_get (sr_subscriptions r) i = Some d" "dt_track_id d \<noteq> k" for i d
      using forward_all_others [OF routed(8), of i] that ids(2) [of i] by auto
    moreover have "distinct (map fp_subscription_id (fo_packets out)) \<and>
        (\<forall>f\<in>set (fo_packets out). \<exists>d. hm_get (sr_subscriptions r) (fp_subscription_id f) = Some d \<and>
           dt_track_id d = k \<and> fp_subscriber f = dt_subscriber d)" if out: "res = Inr out" for out
    proof -
      let ?g = "\<lambda>i. case hm_get (sr_subscriptions r) i of None \<Rightarrow> []
        | Some d \<Rightarrow> forwarded_of (fst (forward now track' l' info input d))"
      from routed(9) out obtain out1 needs where f: "fres = Inr (out1, needs)" "fo_packets out = fo_packets out1" by auto
      from forward_all_exact [OF routed(8) [unfolded f(1)] ids(1)] f(2)
      have packets: "fo_packets out = concat (map ?g ids)" by simp
      have key: "fp_subscription_id x = i \<and> (\<exists>d. hm_get (sr_subscriptions r) i = Some d \<and> fp_subscriber x = dt_subscriber d)"
        if "x \<in> set (?g i)" for x i by (rule forwarded_key [OF subs that])
      have "distinct (map fp_subscription_id (fo_packets out))"
        unfolding packets
        by (rule distinct_concat_keyed [OF ids(1)])
          (use key in \<open>blast, simp add: forwarded_of_single [unfolded One_nat_def] split: option.split\<close>)
      moreover have "\<exists>d. hm_get (sr_subscriptions r) (fp_subscription_id f) = Some d \<and>
           dt_track_id d = k \<and> fp_subscriber f = dt_subscriber d" if "f \<in> set (fo_packets out)" for f
      proof -
        from that obtain i where i: "i \<in> set ids" "f \<in> set (?g i)" unfolding packets by auto
        from key [OF i(2)] i(1) show ?thesis unfolding ids(2) by auto
      qed
      ultimately show ?thesis by blast
    qed
    ultimately show ?thesis by (simp add: s')
  qed
  with True show ?thesis by simp
qed

text \<open>Fan-out. In a room whose subscriptions rewrite no header extensions, a well-formed packet
  of the owner is accepted, and each subscription of the track handles it by its own down-track: its
  new state and the packets addressed to it are exactly those of forwarding it there, whatever the
  other subscriptions do.\<close>

lemma rtp_fan_out:
  assumes "r = snd (sfu_run ops (sfu_new c))" and "no_rewrites r"
    and "parse input = Inr p" and "hm_get (sr_ssrc_index r) (h_ssrc (p_header p)) = Some (k, l)"
    and "hm_get (sr_tracks r) k = Some track" and "pt_owner track = publisher"
    and "h_payload_type (p_header p) = pt_payload_type track"
    and "inspect_payload (pt_codec track) (p_payload p) (h_marker (p_header p)) = Inr info"
  shows "\<exists>out r'. handle_rtp order now publisher input r = (Inr out, r') \<and>
    (\<forall>i d. hm_get (sr_subscriptions r) i = Some d \<longrightarrow> dt_track_id d = k \<longrightarrow>
       hm_get (sr_subscriptions r') i = Some (snd (forward now track l info input d)) \<and>
       filter (\<lambda>f. fp_subscription_id f = i) (fo_packets out) =
         (case fst (forward now track l info input d) of Inr (Forwarded f _) \<Rightarrow> [f] | _ \<Rightarrow> []))"
proof -
  have "sfu_invariant r" unfolding assms(1) by (rule sfu_run_invariant [OF sfu_new_invariant])
  from handle_rtp_fan_out [OF this assms(2-8), where order = order and now = now] obtain out r' where
    h: "handle_rtp order now publisher input r = (Inr out, r')"
    and fan: "\<And>i. case hm_get (sr_subscriptions r) i of
       None \<Rightarrow> hm_get (sr_subscriptions r') i = None \<and> filter (\<lambda>f. fp_subscription_id f = i) (fo_packets out) = []
     | Some d \<Rightarrow>
         if dt_track_id d = k
         then hm_get (sr_subscriptions r') i = Some (snd (forward now track l info input d)) \<and>
           filter (\<lambda>f. fp_subscription_id f = i) (fo_packets out) =
             forwarded_of (fst (forward now track l info input d))
         else hm_get (sr_subscriptions r') i = Some d \<and>
           filter (\<lambda>f. fp_subscription_id f = i) (fo_packets out) = []" by blast
  have "hm_get (sr_subscriptions r') i = Some (snd (forward now track l info input d)) \<and>
      filter (\<lambda>f. fp_subscription_id f = i) (fo_packets out) = forwarded_of (fst (forward now track l info input d))"
    if "hm_get (sr_subscriptions r) i = Some d" "dt_track_id d = k" for i d
    using fan [of i] that by simp
  with h show ?thesis unfolding forwarded_of_def by blast
qed

text \<open>C9. Isolation of feedback. Whatever feedback a subscriber sends, packets are resent only to that
  subscriber, as retransmissions, and the down-tracks of other subscribers stay as they were.\<close>

theorem rtcp_isolation:
  assumes "r = snd (sfu_run ops (sfu_new c))" and "handle_rtcp now subscriber input r = (res, r')"
  shows "(\<forall>out. res = Inr out \<longrightarrow> (\<forall>f\<in>set (co_retransmissions out). fp_subscriber f = subscriber)) \<and>
    (\<forall>e. res = Inl e \<longrightarrow> r' = r) \<and>
    (\<forall>i d. hm_get (sr_subscriptions r) i = Some d \<longrightarrow> dt_subscriber d \<noteq> subscriber \<longrightarrow>
       hm_get (sr_subscriptions r') i = Some d)"
proof -
  have inv: "sfu_invariant r" unfolding assms(1) by (rule sfu_run_invariant [OF sfu_new_invariant])
  have e: "r' = r" if "res = Inl e" for e
    using assms(2) that by (auto simp: handle_rtcp_def split: sum.splits prod.splits)
  from handle_rtcp_effect [OF inv assms(2)] have
    sent: "\<forall>f\<in>set (case res of Inl _ \<Rightarrow> [] | Inr out \<Rightarrow> co_retransmissions out). fp_subscriber f = subscriber"
    and eff: "\<And>i. \<exists>s. sub_effect subscriber s (hm_get (sr_subscriptions r) i) (hm_get (sr_subscriptions r') i)"
    by (auto simp: rtcp_effect_def)
  have "hm_get (sr_subscriptions r') i = Some d"
    if "hm_get (sr_subscriptions r) i = Some d" "dt_subscriber d \<noteq> subscriber" for i d
    using eff [of i] that by (auto simp: sub_effect_def)
  with sent e show ?thesis by auto
qed

text \<open>Without extension rewrites no call loses packets.\<close>

lemma rtp_losses_no_rewrites:
  assumes "sfu_invariant r" and "no_rewrites r"
    and "\<forall>cfg. DoSubscribe cfg \<in> set ops \<longrightarrow> sc_extension_rewrites cfg = []"
  shows "rtp_losses ops r = 0"
  using assms
proof (induction ops arbitrary: r)
  case Nil
  then show ?case by simp
next
  case (Cons op ops)
  obtain p e r' where s: "sfu_step op r = ((p, e), r')" by (metis prod.exhaust)
  have "\<And>cfg. op = DoSubscribe cfg \<Longrightarrow> sc_extension_rewrites cfg = []"
    using Cons.prems(3) by (metis list.set_intros(1))
  with Cons.prems(1,2) s have "no_rewrites r'" by (rule sfu_step_no_rewrites)
  with Cons.IH [OF sfu_step_invariant [OF Cons.prems(1) s]] Cons.prems(3) have "rtp_losses ops r' = 0" by simp
  moreover have "\<not> rtp_loses op r"
  proof (cases op)
    case (DoRtp order now publisher input)
    obtain res r1 where h: "handle_rtp order now publisher input r = (res, r1)" by fastforce
    then have "is_ok res \<or> r1 = r"
    proof (cases rule: handle_rtp_cases)
      case (routed p k l track info ids fres subs')
      from handle_rtp_fan_out [OF Cons.prems(1,2) routed(1-6), where order = order and now = now] h show ?thesis by auto
    qed simp
    with DoRtp h show ?thesis by auto
  qed simp_all
  ultimately show ?case using s by simp
qed

text \<open>The numbers under which a subscription is sent new packets during a run: increasing, and spread no
  wider than the packets and the losses account for.\<close>

lemma sfu_run_numbers:
  assumes "sfu_invariant r" and "sfu_run ops r = ((pkts, evs), r')"
    and "hm_get (sr_subscriptions r) i = Some d" and "dt_next_sequence_number d = start + word_of_nat n"
    and "DoUnsubscribe i \<notin> set ops" and "DoUnpublish (dt_track_id d) \<notin> set ops"
    and "mine = live (filter (\<lambda>f. fp_subscription_id f = i) pkts)"
  shows "\<exists>ns. sorted_wrt (<) ns \<and> (\<forall>k\<in>set ns. n \<le> k \<and> k < n + length mine + rtp_losses ops r) \<and>
    list_all2 (\<lambda>k f. sealed_as (dt_configuration d) (start + word_of_nat k) f) ns mine"
  using assms
proof (induction ops arbitrary: r pkts evs d n mine)
  case Nil
  then show ?case by (intro exI [of _ "[]"]) (simp add: live_def)
next
  case (Cons op ops)
  obtain p e r1 where s: "sfu_step op r = ((p, e), r1)" by (metis prod.exhaust)
  obtain ps es r2 where rest: "sfu_run ops r1 = ((ps, es), r2)" by (metis prod.exhaust)
  from Cons.prems(2) s rest have pkts: "pkts = p @ ps" and run: "sfu_run ops r1 = ((ps, es), r')" by simp_all
  define sent where "sent = live (filter (\<lambda>f. fp_subscription_id f = i) p)"
  define more where "more = live (filter (\<lambda>f. fp_subscription_id f = i) ps)"
  have mine: "mine = sent @ more" by (simp add: Cons.prems(7) pkts sent_def more_def)
  have "op \<noteq> DoUnsubscribe i" "op \<noteq> DoUnpublish (dt_track_id d)" using Cons.prems(5,6) by auto
  from sfu_step_takes_number [OF Cons.prems(1) s Cons.prems(3) this] obtain d1 where
    d1: "hm_get (sr_subscriptions r1) i = Some d1" and t: "takes_number (rtp_loses op r) d sent d1"
    unfolding sent_def by blast
  from t have cfg: "dt_configuration d1 = dt_configuration d" by (simp add: takes_number_def)
  have ih: "\<exists>ns. sorted_wrt (<) ns \<and> (\<forall>k\<in>set ns. m \<le> k \<and> k < m + length more + rtp_losses ops r1) \<and>
      list_all2 (\<lambda>k f. sealed_as (dt_configuration d) (start + word_of_nat k) f) ns more"
    if "dt_next_sequence_number d1 = start + word_of_nat m" for m
    using Cons.IH [OF sfu_step_invariant [OF Cons.prems(1) s] run d1 that _ _ more_def] Cons.prems(5,6)
    by (simp add: cfg)
  have loss: "rtp_losses (op # ops) r = of_bool (rtp_loses op r) + rtp_losses ops r1" using s by simp
  have succ: "start + word_of_nat n + 1 = start + word_of_nat (n + 1)" by simp
  from t consider (sent) f where "sent = [f]" "sealed_as (dt_configuration d) (start + word_of_nat n) f"
      "dt_next_sequence_number d1 = start + word_of_nat (n + 1)"
    | (same) "sent = []" "dt_next_sequence_number d1 = start + word_of_nat n"
    | (lost) "sent = []" "rtp_loses op r" "dt_next_sequence_number d1 = start + word_of_nat (n + 1)"
    unfolding takes_number_def Cons.prems(4) succ by blast
  then show ?case
  proof cases
    case sent
    from ih [OF sent(3)] obtain ns where "sorted_wrt (<) ns"
      "\<forall>k\<in>set ns. n + 1 \<le> k \<and> k < n + 1 + length more + rtp_losses ops r1"
      "list_all2 (\<lambda>k f. sealed_as (dt_configuration d) (start + word_of_nat k) f) ns more" by blast
    with sent(1,2) show ?thesis unfolding loss mine by (intro exI [of _ "n # ns"]) fastforce
  next
    case same
    from ih [OF same(2)] obtain ns where "sorted_wrt (<) ns"
      "\<forall>k\<in>set ns. n \<le> k \<and> k < n + length more + rtp_losses ops r1"
      "list_all2 (\<lambda>k f. sealed_as (dt_configuration d) (start + word_of_nat k) f) ns more" by blast
    with same(1) show ?thesis unfolding loss mine by (intro exI [of _ ns]) fastforce
  next
    case lost
    from ih [OF lost(3)] obtain ns where "sorted_wrt (<) ns"
      "\<forall>k\<in>set ns. n + 1 \<le> k \<and> k < n + 1 + length more + rtp_losses ops r1"
      "list_all2 (\<lambda>k f. sealed_as (dt_configuration d) (start + word_of_nat k) f) ns more" by blast
    with lost(1,2) show ?thesis unfolding loss mine by (intro exI [of _ ns]) fastforce
  qed
qed

lemma increasing_from: "sorted_wrt (<) (ns :: nat list) \<Longrightarrow> i + j < length ns \<Longrightarrow> ns ! i + j \<le> ns ! (i + j)"
proof (induction j)
  case (Suc j)
  with sorted_wrt_nth_less [OF Suc.prems(1), of "i + j" "i + Suc j"] show ?case by simp
qed simp

lemma increasing_bound:
  assumes "sorted_wrt (<) (ns :: nat list)" and "\<forall>k\<in>set ns. k < length ns + m" and "i < length ns"
  shows "ns ! i \<le> i + m"
proof -
  define j where "j = length ns - 1 - i"
  have "ns ! i + j \<le> ns ! (i + j)" by (rule increasing_from [OF assms(1)]) (use assms(3) in \<open>simp add: j_def\<close>)
  moreover have "ns ! (i + j) < length ns + m" using assms(2,3) by (simp add: j_def)
  ultimately show ?thesis using assms(3) by (simp add: j_def)
qed

text \<open>C4. One stream per subscription. From the moment a subscription is accepted until it or its track is
  removed, through any interleaving of other tracks, subscribers, feedback, layer changes and losses,
  the packets it is sent for the first time carry its own SSRC and payload type, go to its subscriber,
  and are numbered from its configured start in increasing order; the numbers skipped before a packet
  are no more than the calls of \<open>handle_rtp\<close> that reported an error after some down-track had moved on.
  When neither this nor any other subscription rewrites header extensions there are no such calls, and
  the numbers are consecutive.\<close>

theorem subscriber_stream_continuous:
  assumes "subscribe cfg (snd (sfu_run before (sfu_new c))) = (Inr (), r)"
    and "DoUnsubscribe (sc_id cfg) \<notin> set after" and "DoUnpublish (sc_track_id cfg) \<notin> set after"
    and "sfu_run after r = ((packets, events), r')"
    and "mine = filter (\<lambda>f. fp_subscription_id f = sc_id cfg \<and> \<not> fp_retransmission f) packets"
  shows "(\<exists>n. (\<forall>i j. i < j \<and> j < length mine \<longrightarrow> n i < n j) \<and>
      (\<forall>i < length mine. n i \<le> i + rtp_losses after r \<and>
         sealed_as cfg (sc_initial_sequence_number cfg + word_of_nat (n i)) (mine ! i))) \<and>
    ((\<forall>cfg'. DoSubscribe cfg' \<in> set (before @ after) \<or> cfg' = cfg \<longrightarrow> sc_extension_rewrites cfg' = []) \<longrightarrow>
      rtp_losses after r = 0 \<and>
      (\<forall>i < length mine. sealed_as cfg (sc_initial_sequence_number cfg + word_of_nat i) (mine ! i)))"
proof -
  let ?r0 = "snd (sfu_run before (sfu_new c))"
  have inv0: "sfu_invariant ?r0" by (rule sfu_run_invariant [OF sfu_new_invariant])
  have inv: "sfu_invariant r" by (rule subscribe_invariant [OF inv0 assms(1)])
  from assms(1) obtain d where d: "hm_get (sr_subscriptions r) (sc_id cfg) = Some d"
    "dt_configuration d = cfg" "dt_next_sequence_number d = sc_initial_sequence_number cfg"
    by (cases rule: subscribe_cases) (auto simp: dt_new_def Let_def)
  have live: "mine = live (filter (\<lambda>f. fp_subscription_id f = sc_id cfg) packets)"
    unfolding assms(5) live_def filter_filter by (intro filter_cong) auto
  from sfu_run_numbers [OF inv assms(4) d(1), of "sc_initial_sequence_number cfg" 0 mine] d(2,3) assms(2,3) live
  obtain ns where ns: "sorted_wrt (<) ns" "\<forall>k\<in>set ns. k < length mine + rtp_losses after r"
    and sealed: "list_all2 (\<lambda>k f. sealed_as cfg (sc_initial_sequence_number cfg + word_of_nat k) f) ns mine"
    by auto
  have len: "length ns = length mine" by (rule list_all2_lengthD [OF sealed])
  have increasing: "\<forall>i j. i < j \<and> j < length mine \<longrightarrow> ns ! i < ns ! j"
    using sorted_wrt_nth_less [OF ns(1)] len by simp
  have numbered: "\<forall>i < length mine. ns ! i \<le> i + rtp_losses after r \<and>
      sealed_as cfg (sc_initial_sequence_number cfg + word_of_nat (ns ! i)) (mine ! i)"
    using increasing_bound [OF ns(1)] ns(2) len list_all2_nthD [OF sealed] by auto
  have none: "rtp_losses after r = 0"
    if nr: "\<forall>cfg'. DoSubscribe cfg' \<in> set (before @ after) \<or> cfg' = cfg \<longrightarrow> sc_extension_rewrites cfg' = []"
  proof -
    have "no_rewrites ?r0"
      by (rule sfu_run_no_rewrites [OF sfu_new_invariant]) (use nr in \<open>auto simp: no_rewrites_def sfu_new_def\<close>)
    moreover have "sfu_step (DoSubscribe cfg) ?r0 = (([], []), r)" using assms(1) by simp
    ultimately have "no_rewrites r" using sfu_step_no_rewrites [OF inv0] nr by (metis sfu_op.inject(3))
    then show ?thesis using nr by (intro rtp_losses_no_rewrites [OF inv]) auto
  qed
  have consecutive: "ns ! i = i" if "rtp_losses after r = 0" "i < length mine" for i
    using increasing_from [OF ns(1), of 0 i] numbered that len by (simp add: le_antisym)
  show ?thesis using increasing numbered none consecutive by metis
qed

text \<open>Expansion of NACKs. The sequence numbers looked up for a NACK are, without repetition,
  exactly the ones it names: each entry's own number and those its bitmask marks, with 16-bit
  wrap-around.\<close>

lemma nack_expansion_exact:
  "distinct (expand_nack entries) \<and>
   set (expand_nack entries) = (\<Union>e\<in>set entries. insert (ne_packet_id e)
     {ne_packet_id e + word_of_nat (b + 1) |b. b < 16 \<and> bit (ne_lost_packet_bitmask e) b})"
  using expand_nack_exact [of entries] by (simp add: nacked_def)

text \<open>C20. Keyframe requests are throttled. After a request for a source has been issued, no call made
  within the throttle interval issues another one for that source, whichever subscriber or code path
  asks, as long as its track is not unpublished.\<close>

theorem pli_throttled:
  assumes "r = snd (sfu_run before (sfu_new c))" and "0 < rc_pli_throttle (sr_configuration r)"
    and "sfu_step op r = ((packets, events), r1)" and "sfu_op_time op = Some t"
    and "PliRequest k s \<in> set events" and "hm_get (sr_ssrc_index r1) s = Some (k, l)"
    and "sfu_run after r1 = ((packets', events'), r2)" and "DoUnpublish k \<notin> set after"
    and "\<forall>op\<in>set after. \<forall>now. sfu_op_time op = Some now \<longrightarrow> now - t < rc_pli_throttle (sr_configuration r1)"
  shows "\<forall>k. PliRequest k s \<notin> set events'"
proof -
  have inv: "sfu_invariant r" unfolding assms(1) by (rule sfu_run_invariant [OF sfu_new_invariant])
  note eff = sfu_step_pli [OF inv assms(3,4,2)]
  with assms(5) have "hm_get (sr_last_pli r1) s = Some t" unfolding pli_effect_def by metis
  moreover have "0 < rc_pli_throttle (sr_configuration r1)" using eff assms(2) by (simp add: pli_effect_def)
  ultimately show ?thesis
    by (intro sfu_run_quiet [OF sfu_step_invariant [OF inv assms(3)] assms(7) _ _ assms(6,8,9)])
qed

section \<open>A small room\<close>

definition sample_room_config :: room_config where
  "sample_room_config = \<lparr>rc_max_tracks = 4, rc_max_subscriptions = 4, rc_retransmission_cache_packets = 2,
     rc_retransmission_cache_age = 5, rc_pli_throttle = 100\<rparr>"

definition sample_room :: "published_track \<Rightarrow> down_track \<Rightarrow> sfu_room" where
  "sample_room track d = \<lparr>sr_configuration = sample_room_config, sr_tracks = [(TrackId 1, track)],
     sr_ssrc_index = [(77, TrackId 1, 0)], sr_subscriptions = [(SubscriptionId 1, d)],
     sr_track_subscriptions = [(TrackId 1, [SubscriptionId 1])],
     sr_output_ssrc_index = [(500, SubscriptionId 1)], sr_last_pli = []\<rparr>"

definition sample_video :: published_track where
  "sample_video = sample_track\<lparr>pt_kind := Video, pt_codec := Vp8\<rparr>"

lemma sample_published:
  assumes "track = sample_track \<or> track = sample_video"
  shows "snd (sfu_run [DoPublish track] (sfu_new sample_room_config)) = (sfu_new sample_room_config)
    \<lparr>sr_tracks := [(TrackId 1, track)], sr_ssrc_index := [(77, TrackId 1, 0)]\<rparr>"
  using assms
  by (auto simp: publish_def validate_track_def is_rtcp_mux_safe_payload_type_def sample_track_def
      sample_video_def sfu_new_def hm_contains_def sample_room_config_def)

lemma sample_subscribed:
  assumes "track = sample_track \<or> track = sample_video"
  shows "subscribe sample_config ((sfu_new sample_room_config)
    \<lparr>sr_tracks := [(TrackId 1, track)], sr_ssrc_index := [(77, TrackId 1, 0)]\<rparr>) =
    (Inr (), sample_room track (dt_new sample_config track 2 5))"
  using assms
  by (auto simp: subscribe_def is_rtcp_mux_safe_payload_type_def sample_config_def hm_contains_def Let_def
      sfu_new_def sample_room_config_def sample_room_def track_encoding_def sample_video_def sample_track_def)

lemma sample_room_run:
  assumes "track = sample_track \<or> track = sample_video"
  shows "snd (sfu_run [DoPublish track, DoSubscribe sample_config] (sfu_new sample_room_config)) =
    sample_room track (dt_new sample_config track 2 5)"
  using sample_published [OF assms] sample_subscribed [OF assms] by simp

lemma sample_parsed:
  "\<exists>p. parse (sample_rtp n t) = Inr p \<and> h_ssrc (p_header p) = 77 \<and> h_payload_type (p_header p) = 111"
  by (simp add: sample_rtp_def parse_eval)

lemma sample_rtp_first:
  "handle_rtp order 3 (ParticipantId 1) (sample_rtp 5 10)
     (sample_room sample_track (dt_new sample_config sample_track 2 5)) =
   (Inr \<lparr>fo_packets = [sample_out 255 255 3 232],
         fo_events = [LayerSwitched (SubscriptionId 1) None 0]\<rparr>,
    sample_room sample_track (sample_state 1000 0 [\<lparr>cp_inserted_at = 3, cp_packet = sample_out 255 255 3 232\<rparr>]))"
proof -
  obtain p where p: "parse (sample_rtp 5 10) = Inr p" "h_ssrc (p_header p) = 77" "h_payload_type (p_header p) = 111"
    using sample_parsed by blast
  have "inspect_payload (pt_codec sample_track) x m = Inr sample_info" for x m
    by (simp add: sample_track_def sample_info_def)
  moreover have "pt_owner sample_track = ParticipantId 1" "pt_payload_type sample_track = 111"
    by (simp_all add: sample_track_def)
  ultimately show ?thesis using p by (simp add: handle_rtp_def sample_room_def sample_first)
qed

lemma sample_rtp_second:
  "handle_rtp order 4 (ParticipantId 1) (sample_rtp 9 30)
     (sample_room sample_track (sample_state 1000 0 [\<lparr>cp_inserted_at = 3, cp_packet = sample_out 255 255 3 232\<rparr>])) =
   (Inr \<lparr>fo_packets = [sample_out 0 0 3 252], fo_events = []\<rparr>,
    sample_room sample_track (sample_state 1020 1 [\<lparr>cp_inserted_at = 3, cp_packet = sample_out 255 255 3 232\<rparr>,
      \<lparr>cp_inserted_at = 4, cp_packet = sample_out 0 0 3 252\<rparr>]))"
proof -
  obtain p where p: "parse (sample_rtp 9 30) = Inr p" "h_ssrc (p_header p) = 77" "h_payload_type (p_header p) = 111"
    using sample_parsed by blast
  have "inspect_payload (pt_codec sample_track) x m = Inr sample_info" for x m
    by (simp add: sample_track_def sample_info_def)
  moreover have "pt_owner sample_track = ParticipantId 1" "pt_payload_type sample_track = 111"
    by (simp_all add: sample_track_def)
  ultimately show ?thesis using p by (simp add: handle_rtp_def sample_room_def sample_second)
qed

theorem rtp_isolation_witness:
  "distinct (map fp_subscription_id [sample_out 255 255 3 232]) \<and>
   handle_rtp (\<lambda>x. x) 3 (ParticipantId 7) (sample_rtp 5 10)
     (sample_room sample_track (dt_new sample_config sample_track 2 5)) =
   (Inl (UnauthorizedParticipant (ParticipantId 7)),
    sample_room sample_track (dt_new sample_config sample_track 2 5))"
proof -
  let ?r = "sample_room sample_track (dt_new sample_config sample_track 2 5)"
  obtain p where p: "parse (sample_rtp 5 10) = Inr p" "h_ssrc (p_header p) = 77" using sample_parsed by blast
  have r: "?r = snd (sfu_run [DoPublish sample_track, DoSubscribe sample_config] (sfu_new sample_room_config))"
    by (simp only: sample_room_run [OF disjI1 [OF refl]])
  have k: "hm_get (sr_ssrc_index ?r) (h_ssrc (p_header p)) = Some (TrackId 1, 0)" "hm_get (sr_tracks ?r) (TrackId 1) = Some sample_track"
    by (simp_all add: sample_room_def p)
  have o: "pt_owner sample_track = ParticipantId 1" by (simp add: sample_track_def)
  obtain res r' where h: "handle_rtp (\<lambda>x. x) 3 (ParticipantId 7) (sample_rtp 5 10) ?r = (res, r')" by fastforce
  from rtp_isolation [OF r sample_rtp_first [where order = "\<lambda>x. x"] p(1) k] rtp_isolation [OF r h p(1) k] o h
  show ?thesis by simp
qed

lemma rtp_fan_out_witness:
  "\<exists>out r'. handle_rtp (\<lambda>x. x) 3 (ParticipantId 1) (sample_rtp 5 10)
     (sample_room sample_track (dt_new sample_config sample_track 2 5)) = (Inr out, r') \<and>
   filter (\<lambda>f. fp_subscription_id f = SubscriptionId 1) (fo_packets out) = [sample_out 255 255 3 232]"
proof -
  let ?r = "sample_room sample_track (dt_new sample_config sample_track 2 5)"
  obtain p where p: "parse (sample_rtp 5 10) = Inr p" "h_ssrc (p_header p) = 77" "h_payload_type (p_header p) = 111"
    using sample_parsed by blast
  have r: "?r = snd (sfu_run [DoPublish sample_track, DoSubscribe sample_config] (sfu_new sample_room_config))"
    by (simp only: sample_room_run [OF disjI1 [OF refl]])
  have "hm_get (sr_ssrc_index ?r) (h_ssrc (p_header p)) = Some (TrackId 1, 0)"
    "hm_get (sr_tracks ?r) (TrackId 1) = Some sample_track" "no_rewrites ?r"
    "pt_owner sample_track = ParticipantId 1" "h_payload_type (p_header p) = pt_payload_type sample_track"
    "inspect_payload (pt_codec sample_track) (p_payload p) (h_marker (p_header p)) = Inr sample_info"
    by (simp_all add: sample_room_def p no_rewrites_def dt_new_def Let_def sample_config_def sample_track_def sample_info_def)
  note k = this
  have d: "hm_get (sr_subscriptions ?r) (SubscriptionId 1) = Some (dt_new sample_config sample_track 2 5)"
    "dt_track_id (dt_new sample_config sample_track 2 5) = TrackId 1"
    by (simp_all add: sample_room_def dt_new_def Let_def sample_config_def)
  from rtp_fan_out [OF r k(3) p(1) k(1,2,4,5,6), where order = "\<lambda>x. x" and now = 3] d show ?thesis
    by (auto simp: sample_first)
qed

theorem subscriber_stream_continuous_witness:
  "sealed_as sample_config 65535 (sample_out 255 255 3 232) \<and> sealed_as sample_config 0 (sample_out 0 0 3 252)"
proof -
  let ?after = "[DoRtp (\<lambda>x. x) 3 (ParticipantId 1) (sample_rtp 5 10), DoRtp (\<lambda>x. x) 4 (ParticipantId 1) (sample_rtp 9 30)]"
  have s: "subscribe sample_config (snd (sfu_run [DoPublish sample_track] (sfu_new sample_room_config))) =
      (Inr (), sample_room sample_track (dt_new sample_config sample_track 2 5))"
    using sample_published [of sample_track] sample_subscribed [of sample_track] by simp
  have run: "\<exists>es r'. sfu_run ?after (sample_room sample_track (dt_new sample_config sample_track 2 5)) =
      (([sample_out 255 255 3 232, sample_out 0 0 3 252], es), r')"
    by (simp add: sample_rtp_first sample_rtp_second)
  then obtain es r' where run: "sfu_run ?after (sample_room sample_track (dt_new sample_config sample_track 2 5)) =
      (([sample_out 255 255 3 232, sample_out 0 0 3 252], es), r')" by blast
  have mine: "[sample_out 255 255 3 232, sample_out 0 0 3 252] =
      filter (\<lambda>f. fp_subscription_id f = sc_id sample_config \<and> \<not> fp_retransmission f)
        [sample_out 255 255 3 232, sample_out 0 0 3 252]"
    by (simp add: sample_out_def sample_config_def)
  have "\<forall>cfg'. DoSubscribe cfg' \<in> set ([DoPublish sample_track] @ ?after) \<or> cfg' = sample_config \<longrightarrow>
      sc_extension_rewrites cfg' = []" by (auto simp: sample_config_def)
  with subscriber_stream_continuous [OF s _ _ run mine]
  have all: "i < length [sample_out 255 255 3 232, sample_out 0 0 3 252] \<Longrightarrow>
      sealed_as sample_config (sc_initial_sequence_number sample_config + word_of_nat i)
        ([sample_out 255 255 3 232, sample_out 0 0 3 252] ! i)" for i by simp
  have "sc_initial_sequence_number sample_config + word_of_nat 0 = 65535"
    "sc_initial_sequence_number sample_config + word_of_nat 1 = 0" by (simp_all add: sample_config_def)
  with all [of 0] all [of 1] show ?thesis
    by (simp only: list.size nth_Cons_0 nth_Cons_Suc One_nat_def)
qed

theorem pli_throttled_witness:
  "\<forall>k. PliRequest k 77 \<notin> set (snd (fst (sfu_run [DoSetTarget 20 (ParticipantId 2) (SubscriptionId 1)
      \<lparr>ly_spatial = 0, ly_temporal = 0\<rparr>]
     (snd (sfu_step (DoSetTarget 10 (ParticipantId 2) (SubscriptionId 1) \<lparr>ly_spatial = 0, ly_temporal = 1\<rparr>)
       (sample_room sample_video (dt_new sample_config sample_video 2 5)))))))"
proof -
  let ?r = "sample_room sample_video (dt_new sample_config sample_video 2 5)"
  let ?op = "DoSetTarget 10 (ParticipantId 2) (SubscriptionId 1) \<lparr>ly_spatial = 0, ly_temporal = 1\<rparr>"
  have r: "?r = snd (sfu_run [DoPublish sample_video, DoSubscribe sample_config] (sfu_new sample_room_config))"
    by (simp only: sample_room_run [OF disjI2 [OF refl]])
  have "\<exists>r1. sfu_step ?op ?r = (([], [PliRequest (TrackId 1) 77]), r1) \<and>
      hm_get (sr_ssrc_index r1) 77 = Some (TrackId 1, 0) \<and> rc_pli_throttle (sr_configuration r1) = 100"
    by (simp add: room_set_target_layer_def sample_room_def dt_new_def Let_def sample_config_def maybe_pli_def
        dt_set_target_layer_def track_encoding_def sample_video_def sample_track_def sample_room_config_def)
  then obtain r1 where s: "sfu_step ?op ?r = (([], [PliRequest (TrackId 1) 77]), r1)"
    and idx: "hm_get (sr_ssrc_index r1) 77 = Some (TrackId 1, 0)" and th: "rc_pli_throttle (sr_configuration r1) = 100"
    by (elim exE conjE) (rule that)
  obtain ps es r2 where run: "sfu_run [DoSetTarget 20 (ParticipantId 2) (SubscriptionId 1)
      \<lparr>ly_spatial = 0, ly_temporal = 0\<rparr>] r1 = ((ps, es), r2)" by (metis prod.exhaust)
  have "\<forall>k. PliRequest k 77 \<notin> set es"
  proof (rule pli_throttled [where t = 10, OF r _ s _ _ idx run])
    show "0 < rc_pli_throttle (sr_configuration ?r)" by (simp add: sample_room_def sample_room_config_def)
    show "\<forall>op\<in>set [DoSetTarget 20 (ParticipantId 2) (SubscriptionId 1) \<lparr>ly_spatial = 0, ly_temporal = 0\<rparr>].
        \<forall>now. sfu_op_time op = Some now \<longrightarrow> now - 10 < rc_pli_throttle (sr_configuration r1)"
      unfolding th by simp
  qed simp_all
  with s run show ?thesis by simp
qed

lemma distinct_singleton: "distinct xs \<Longrightarrow> set xs = {x} \<Longrightarrow> xs = [x]"
  by (cases xs) (auto simp: subset_singleton_iff)

definition sample_nack :: bytes where
  "sample_nack = [0x81, 205, 0, 3, 0, 0, 0, 9, 0, 0, 1, 244, 255, 255, 0, 0]"

theorem rtcp_isolation_witness:
  "\<exists>out r'. handle_rtcp 5 (ParticipantId 2) sample_nack (sample_room sample_track
      (sample_state 1000 0 [\<lparr>cp_inserted_at = 3, cp_packet = sample_out 255 255 3 232\<rparr>])) = (Inr out, r') \<and>
    co_retransmissions out \<noteq> [] \<and> (\<forall>f\<in>set (co_retransmissions out). fp_subscriber f = ParticipantId 2)"
proof -
  have n: "parse_compound sample_nack = Inr [GenericNack \<lparr>gn_sender_ssrc = 9, gn_media_ssrc = 500,
      gn_entries = [\<lparr>ne_packet_id = 65535, ne_lost_packet_bitmask = 0\<rparr>]\<rparr>]"
    by (simp add: sample_nack_def parse_compound_def parse_packets.simps parse_packet_def parse_nack_def
        parse_nack_entries.simps rtcp_read_u32_def rtcp_read_u16_def strip_padding_def map_ok_def Let_def wire_eval)
  let ?entry = "\<lparr>ne_packet_id = 65535, ne_lost_packet_bitmask = 0\<rparr> :: nack_entry"
  have e: "expand_nack [?entry] = [65535]"
    using expand_nack_exact [of "[?entry]"] by (simp add: nacked_def distinct_singleton)
  let ?d = "sample_state 1000 0 [\<lparr>cp_inserted_at = 3, cp_packet = sample_out 255 255 3 232\<rparr>]"
  let ?r = "sample_room sample_track ?d"
  have r: "?r = snd (sfu_run [DoPublish sample_track, DoSubscribe sample_config,
      DoRtp (\<lambda>x. x) 3 (ParticipantId 1) (sample_rtp 5 10)] (sfu_new sample_room_config))"
    using sample_published [of sample_track] sample_subscribed [of sample_track]
      sample_rtp_first [where order = "\<lambda>x. x"] by simp
  have t: "retransmit 5 [65535] ?d = ([(sample_out 255 255 3 232)\<lparr>fp_retransmission := True\<rparr>], ?d)"
    by (simp add: retransmit_def cached_as_def List.map_filter_def sample_eval sample_state_def)
  have a: "authorized_down_track (ParticipantId 2) 500 ?r = Some (SubscriptionId 1, ?d)"
    by (simp add: authorized_down_track_def sample_room_def sample_state_def sample_config_def)
  have "\<exists>out r'. handle_rtcp 5 (ParticipantId 2) sample_nack ?r = (Inr out, r') \<and> co_retransmissions out \<noteq> []"
    by (simp add: handle_rtcp_def n handle_rtcp_packet_def e a t)
  then obtain out r' where h: "handle_rtcp 5 (ParticipantId 2) sample_nack ?r = (Inr out, r')"
    and ne: "co_retransmissions out \<noteq> []" by blast
  from rtcp_isolation [OF r h] h ne show ?thesis by auto
qed

end
