(* ===== verification/Congestion_Control.thy ===== *)
theory Congestion_Control
  imports Rtcp_Twcc Sfu_DownTrack
begin

text \<open>
  The bandwidth estimator and the layer selector of \<open>crates/webrtc/congestion-control/src\<close>
  (\<open>estimator.rs\<close>, \<open>layer.rs\<close>). Bit rates are 64-bit words with the saturating operations of the
  code; signed 64-bit quantities are integers with the wrap-around of \<open>*\<close> and \<open>+\<close> and the
  saturation of the saturating operations written out; durations are in nanoseconds. \<open>None\<close> stands
  for a call that does not return: a panic of \<open>clamp\<close>, or a loop that does not end.
\<close>

section \<open>Signed 64-bit arithmetic\<close>

definition i64_min :: int where "i64_min = - (2 ^ 63)"
definition i64_max :: int where "i64_max = 2 ^ 63 - 1"

definition wrap_i64 :: "int \<Rightarrow> int" where
  "wrap_i64 x = (x + 2 ^ 63) mod 2 ^ 64 - 2 ^ 63"

definition sat_i64 :: "int \<Rightarrow> int" where
  "sat_i64 x = max i64_min (min x i64_max)"

text \<open>Division of signed integers truncates towards zero.\<close>

definition quot :: "int \<Rightarrow> int \<Rightarrow> int" where
  "quot a b = sgn a * sgn b * (\<bar>a\<bar> div \<bar>b\<bar>)"

definition as_micros :: "duration \<Rightarrow> nat" where "as_micros d = d div 1000"
definition as_millis :: "duration \<Rightarrow> nat" where "as_millis d = d div 1000000"

definition i64_try_from :: "nat \<Rightarrow> int" where
  "i64_try_from n = (if int n \<le> i64_max then int n else i64_max)"

section \<open>Estimator\<close>

record sent_packet =
  sp_sequence_number :: u16
  sp_sent_at :: duration
  sp_size_bytes :: nat

datatype bandwidth_usage = Underusing | Normal | Overusing

record estimate =
  es_target_bitrate_bps :: u64
  es_delivery_rate_bps :: u64
  es_loss_per_mille :: u16
  es_delay_trend_micros :: int
  es_usage :: bandwidth_usage
  es_matched_packets :: nat

record estimator_config =
  ec_initial_bitrate_bps :: u64
  ec_minimum_bitrate_bps :: u64
  ec_maximum_bitrate_bps :: u64
  ec_history_packets :: nat
  ec_history_age :: duration

definition estimator_config_default :: estimator_config where
  "estimator_config_default = \<lparr>ec_initial_bitrate_bps = 800000, ec_minimum_bitrate_bps = 50000,
     ec_maximum_bitrate_bps = 20000000, ec_history_packets = 16384, ec_history_age = 10000000000\<rparr>"

record bandwidth_estimator =
  be_configuration :: estimator_config
  be_history :: "sent_packet list"
  be_target_bitrate_bps :: u64
  be_delay_trend_micros :: int
  be_last_update :: "duration option"

record observation =
  ob_sent_at :: duration
  ob_size_bytes :: nat
  ob_received_at_micros :: "int option"

record metrics =
  mt_delivery_rate_bps :: u64
  mt_loss_per_mille :: u16
  mt_delay_sample_micros :: "int option"

definition u64_clamp :: "u64 \<Rightarrow> u64 \<Rightarrow> u64 \<Rightarrow> u64 option" where
  "u64_clamp lo hi x = (if lo > hi then None else Some (if x < lo then lo else if x > hi then hi else x))"

definition be_new :: "estimator_config \<Rightarrow> bandwidth_estimator option" where
  "be_new configuration =
     map_option (\<lambda>target. \<lparr>be_configuration = configuration, be_history = [],
         be_target_bitrate_bps = target, be_delay_trend_micros = 0, be_last_update = None\<rparr>)
       (u64_clamp (ec_minimum_bitrate_bps configuration) (ec_maximum_bitrate_bps configuration)
         (ec_initial_bitrate_bps configuration))"

definition expire_history :: "duration \<Rightarrow> bandwidth_estimator \<Rightarrow> bandwidth_estimator" where
  "expire_history now e = e\<lparr>be_history :=
     dropWhile (\<lambda>p. now - sp_sent_at p > ec_history_age (be_configuration e)) (be_history e)\<rparr>"

text \<open>\<open>while len >= limit { pop_front }\<close>; popping an empty queue leaves it empty.\<close>

partial_function (option) drain :: "nat \<Rightarrow> 'a list \<Rightarrow> 'a list option" where
  "drain limit xs = (if length xs \<ge> limit then drain limit (tl xs) else Some xs)"

definition register_sent :: "sent_packet \<Rightarrow> bandwidth_estimator \<Rightarrow> bandwidth_estimator option" where
  "register_sent p e =
     (let e1 = expire_history (sp_sent_at p) e; limit = ec_history_packets (be_configuration e1) in
      map_option (\<lambda>h. if limit > 0 then e1\<lparr>be_history := h @ [p]\<rparr> else e1\<lparr>be_history := h\<rparr>)
        (drain limit (be_history e1)))"

fun match_statuses :: "sent_packet list \<Rightarrow> u16 \<Rightarrow> nat \<Rightarrow> int \<Rightarrow> twcc_status list \<Rightarrow> observation list" where
  "match_statuses history base offset ticks [] = []"
| "match_statuses history base offset ticks (status # statuses) =
     (let sequence_number = base + (if offset < 65536 then word_of_nat offset else 0);
          sent = find (\<lambda>p. sp_sequence_number p = sequence_number) (rev history);
          (received, ticks') = (case status of
             NotReceived \<Rightarrow> (None, ticks)
           | ReceivedSmallDelta delta \<Rightarrow>
               (let t = wrap_i64 (ticks + uint delta) in (Some t, t))
           | ReceivedLargeDelta delta \<Rightarrow> (let t = wrap_i64 (ticks + sint delta) in (Some t, t)));
          rest = match_statuses history base (offset + 1) ticks' statuses
      in (case sent of
            None \<Rightarrow> rest
          | Some p \<Rightarrow> \<lparr>ob_sent_at = sp_sent_at p, ob_size_bytes = sp_size_bytes p,
              ob_received_at_micros = map_option (\<lambda>t. wrap_i64 (t * 250)) received\<rparr> # rest))"

definition match_feedback :: "transport_wide_feedback \<Rightarrow> bandwidth_estimator \<Rightarrow> observation list" where
  "match_feedback feedback e =
     match_statuses (be_history e) (tw_base_sequence_number feedback) 0 0 (tw_statuses feedback)"

definition delivery_rate :: "(observation \<times> int) list \<Rightarrow> u64" where
  "delivery_rate received =
     (if received = [] then 0
      else let receive_span = sat_i64 (snd (last received) - snd (hd received));
               send_span = i64_try_from
                 (as_micros (ob_sent_at (fst (last received)) - ob_sent_at (fst (hd received))));
               span_micros = max (max receive_span send_span) 1;
               size = sum_list (map (\<lambda>(o', _). ob_size_bytes o') received);
               rate = min (size * 8000000) (2 ^ 128 - 1) div nat span_micros
           in if rate < 2 ^ 64 then word_of_nat rate else - 1)"

fun delay_sums :: "(observation \<times> int) list \<Rightarrow> int \<Rightarrow> int \<Rightarrow> int \<times> int" where
  "delay_sums (a # b # rest) samples total_delay =
     (let send_delta = i64_try_from (as_micros (ob_sent_at (fst b) - ob_sent_at (fst a)));
          receive_delta = sat_i64 (snd b - snd a)
      in delay_sums (b # rest) (samples + 1)
           (sat_i64 (total_delay + sat_i64 (receive_delta - send_delta))))"
| "delay_sums _ samples total_delay = (samples, total_delay)"

definition delay_sample :: "(observation \<times> int) list \<Rightarrow> int option" where
  "delay_sample received =
     (let (samples, total_delay) = delay_sums received 0 0 in
      if samples > 0 then Some (quot total_delay samples) else None)"

definition calculate_metrics :: "observation list \<Rightarrow> metrics" where
  "calculate_metrics observations =
     (if observations = [] then
        \<lparr>mt_delivery_rate_bps = 0, mt_loss_per_mille = 0, mt_delay_sample_micros = None\<rparr>
      else
        let received = List.map_filter (\<lambda>ob. map_option (\<lambda>r. (ob, r)) (ob_received_at_micros ob)) observations;
            lost = length observations - length received;
            per_mille = min (lost * 1000) (2 ^ 64 - 1) div length observations
        in \<lparr>mt_delivery_rate_bps = delivery_rate received,
            mt_loss_per_mille = (if per_mille < 65536 then word_of_nat per_mille else - 1),
            mt_delay_sample_micros = delay_sample received\<rparr>)"

definition classify_usage :: "u16 \<Rightarrow> int \<Rightarrow> bandwidth_usage" where
  "classify_usage loss_per_mille delay_trend_micros =
     (if loss_per_mille > 100 \<or> delay_trend_micros > 15000 then Overusing
      else if loss_per_mille < 20 \<and> delay_trend_micros < 5000 then Underusing
      else Normal)"

definition update_target :: "duration \<Rightarrow> u64 \<Rightarrow> bandwidth_usage \<Rightarrow> bandwidth_estimator \<Rightarrow>
    bandwidth_estimator option" where
  "update_target now delivery_rate_bps usage e =
     (let target = (case usage of
          Overusing \<Rightarrow>
            let baseline = (if delivery_rate_bps > 0
                  then min (be_target_bitrate_bps e) delivery_rate_bps else be_target_bitrate_bps e)
            in saturating_mul baseline 85 div 100
        | Underusing \<Rightarrow>
            let elapsed_millis = (case be_last_update e of
                  None \<Rightarrow> 1000
                | Some t \<Rightarrow> max 1 (min (as_millis (now - t)) 5000));
                per_second = max (be_target_bitrate_bps e div 20) 10000;
                raised = unat per_second * elapsed_millis div 1000;
                increase = (if raised < 2 ^ 64 then word_of_nat raised else - 1);
                target = saturating_add (be_target_bitrate_bps e) increase
            in if delivery_rate_bps > 0 then min target (saturating_mul delivery_rate_bps 11 div 10)
               else target
        | Normal \<Rightarrow> be_target_bitrate_bps e)
      in map_option (\<lambda>t. e\<lparr>be_target_bitrate_bps := t\<rparr>)
           (u64_clamp (ec_minimum_bitrate_bps (be_configuration e))
             (ec_maximum_bitrate_bps (be_configuration e)) target))"

definition process_feedback :: "duration \<Rightarrow> transport_wide_feedback \<Rightarrow> bandwidth_estimator \<Rightarrow>
    (estimate \<times> bandwidth_estimator) option" where
  "process_feedback now feedback e =
     (let e1 = expire_history now e;
          observations = match_feedback feedback e1;
          m = calculate_metrics observations;
          e2 = (case mt_delay_sample_micros m of None \<Rightarrow> e1
                | Some sample \<Rightarrow> e1\<lparr>be_delay_trend_micros :=
                    quot (wrap_i64 (wrap_i64 (be_delay_trend_micros e1 * 7) + sample)) 8\<rparr>);
          usage = classify_usage (mt_loss_per_mille m) (be_delay_trend_micros e2)
      in map_option (\<lambda>e3. let e4 = e3\<lparr>be_last_update := Some now\<rparr> in
           (\<lparr>es_target_bitrate_bps = be_target_bitrate_bps e4, es_delivery_rate_bps = mt_delivery_rate_bps m,
             es_loss_per_mille = mt_loss_per_mille m, es_delay_trend_micros = be_delay_trend_micros e4,
             es_usage = usage, es_matched_packets = length observations\<rparr>, e4))
           (update_target now (mt_delivery_rate_bps m) usage e2))"

section \<open>Layer selector\<close>

record layer_option =
  lo_layer :: layer
  lo_minimum_bitrate_bps :: u64

record layer_selector =
  ls_current :: "layer option"
  ls_upgrade_candidate :: "(layer \<times> duration) option"
  ls_upgrade_hold :: duration
  ls_upgrade_headroom_percent :: u64

definition layer_selector_default :: layer_selector where
  "layer_selector_default = \<lparr>ls_current = None, ls_upgrade_candidate = None,
     ls_upgrade_hold = 2000000000, ls_upgrade_headroom_percent = 120\<rparr>"

definition layer_rate :: "layer_option list \<Rightarrow> layer \<Rightarrow> u64 option" where
  "layer_rate options l = map_option lo_minimum_bitrate_bps (find (\<lambda>opt. lo_layer opt = l) options)"

text \<open>The sort of the code is not stable: which order it gives equal keys is an argument.\<close>

definition affordable_option :: "layer_option list \<Rightarrow> u64 \<Rightarrow> layer_option option" where
  "affordable_option sorted_options target =
     (case find (\<lambda>opt. lo_minimum_bitrate_bps opt \<le> target) (rev sorted_options) of
        Some opt \<Rightarrow> Some opt
      | None \<Rightarrow> (case sorted_options of [] \<Rightarrow> None | opt # _ \<Rightarrow> Some opt))"

definition select_layer :: "(layer_option list \<Rightarrow> layer_option list) \<Rightarrow> duration \<Rightarrow> layer_option list \<Rightarrow>
    u64 \<Rightarrow> layer_selector \<Rightarrow> layer option \<times> layer_selector" where
  "select_layer srt now options target s =
     (let sorted_options = srt options in
      case affordable_option sorted_options target of
        None \<Rightarrow> (None, s)
      | Some affordable \<Rightarrow>
          (case ls_current s of
             None \<Rightarrow> (Some (lo_layer affordable), s\<lparr>ls_current := Some (lo_layer affordable)\<rparr>)
           | Some current \<Rightarrow>
               let current_rate = (case layer_rate sorted_options current of None \<Rightarrow> - 1 | Some r \<Rightarrow> r);
                   affordable_rate = lo_minimum_bitrate_bps affordable in
               if affordable_rate < current_rate then
                 (Some (lo_layer affordable),
                  s\<lparr>ls_current := Some (lo_layer affordable), ls_upgrade_candidate := None\<rparr>)
               else if affordable_rate = current_rate then (ls_current s, s\<lparr>ls_upgrade_candidate := None\<rparr>)
               else if target < saturating_mul affordable_rate (ls_upgrade_headroom_percent s) div 100
                 then (ls_current s, s\<lparr>ls_upgrade_candidate := None\<rparr>)
               else
                 let s' = (case ls_upgrade_candidate s of
                        Some (l, since) \<Rightarrow>
                          if l = lo_layer affordable \<and> now - since \<ge> ls_upgrade_hold s
                          then s\<lparr>ls_current := Some (lo_layer affordable), ls_upgrade_candidate := None\<rparr>
                          else if l = lo_layer affordable then s
                          else s\<lparr>ls_upgrade_candidate := Some (lo_layer affordable, now)\<rparr>
                      | None \<Rightarrow> s\<lparr>ls_upgrade_candidate := Some (lo_layer affordable, now)\<rparr>)
                 in (ls_current s', s')))"

section \<open>The send history\<close>

lemma drain_less:
  assumes "drain limit xs = Some ys"
  shows "length ys < limit \<and> (\<exists>k. ys = drop k xs)"
  using _ assms
proof (rule drain.raw_induct [where P = "\<lambda>limit xs ys. length ys < limit \<and> (\<exists>k. ys = drop k xs)"])
  fix f :: "nat \<Rightarrow> 'a list \<Rightarrow> 'a list option" and limit xs ys
  assume ih: "\<And>limit xs ys. f limit xs = Some ys \<Longrightarrow> length ys < limit \<and> (\<exists>k. ys = drop k xs)"
    and r: "(if limit \<le> length xs then f limit (tl xs) else Some xs) = Some ys"
  show "length ys < limit \<and> (\<exists>k. ys = drop k xs)"
  proof (cases "limit \<le> length xs")
    case True
    with r have "f limit (tl xs) = Some ys" by simp
    from ih [OF this] obtain k where "length ys < limit" "ys = drop k (tl xs)" by blast
    then show ?thesis by (metis drop_Suc)
  next
    case False
    with r have "ys = drop 0 xs" "length ys < limit" by simp_all
    then show ?thesis by blast
  qed
qed

lemma drain_returns: "0 < limit \<Longrightarrow> \<exists>ys. drain limit xs = Some ys"
proof (induction xs)
  case Nil
  then show ?case by (subst drain.simps) simp
next
  case (Cons x xs)
  then show ?case by (subst drain.simps) simp
qed

lemma drain_zero: "drain 0 xs = None"
  using drain_less [of 0 xs] by (cases "drain 0 xs") auto

lemma expire_history_keeps [simp]:
  "be_configuration (expire_history now e) = be_configuration e"
  "be_target_bitrate_bps (expire_history now e) = be_target_bitrate_bps e"
  "be_last_update (expire_history now e) = be_last_update e"
  "be_delay_trend_micros (expire_history now e) = be_delay_trend_micros e"
  by (simp_all add: expire_history_def)

lemma expire_history_length: "length (be_history (expire_history now e)) \<le> length (be_history e)"
  by (simp add: expire_history_def length_dropWhile_le)

lemma register_sent_Some:
  assumes "register_sent p e = Some e'"
  shows "be_configuration e' = be_configuration e" and "be_target_bitrate_bps e' = be_target_bitrate_bps e"
    and "0 < ec_history_packets (be_configuration e)"
    and "\<exists>k. be_history e' = drop k (be_history (expire_history (sp_sent_at p) e)) @ [p] \<and>
      length (drop k (be_history (expire_history (sp_sent_at p) e))) < ec_history_packets (be_configuration e)"
proof -
  let ?n = "ec_history_packets (be_configuration e)"
  from assms obtain h where h: "drain ?n (be_history (expire_history (sp_sent_at p) e)) = Some h"
    and e': "e' = (if ?n > 0 then (expire_history (sp_sent_at p) e)\<lparr>be_history := h @ [p]\<rparr>
      else (expire_history (sp_sent_at p) e)\<lparr>be_history := h\<rparr>)"
    by (auto simp: register_sent_def Let_def)
  have pos: "0 < ?n" using drain_less [OF h] by auto
  then show "0 < ?n" .
  from drain_less [OF h] obtain k where "h = drop k (be_history (expire_history (sp_sent_at p) e))" "length h < ?n"
    by blast
  with e' pos show "\<exists>k. be_history e' = drop k (be_history (expire_history (sp_sent_at p) e)) @ [p] \<and>
      length (drop k (be_history (expire_history (sp_sent_at p) e))) < ?n" by auto
  show "be_configuration e' = be_configuration e" and "be_target_bitrate_bps e' = be_target_bitrate_bps e"
    using e' by simp_all
qed

lemma register_sent_None: "register_sent p e = None \<longleftrightarrow> ec_history_packets (be_configuration e) = 0"
proof (cases "ec_history_packets (be_configuration e)")
  case 0
  then show ?thesis by (simp add: register_sent_def Let_def drain_zero)
next
  case (Suc n)
  with drain_returns [of "ec_history_packets (be_configuration e)"] show ?thesis
    by (auto simp: register_sent_def Let_def)
qed

definition record_sent :: "duration \<Rightarrow> sent_packet \<Rightarrow> bandwidth_estimator \<Rightarrow> bandwidth_estimator" where
  "record_sent now p e = (case register_sent p e of None \<Rightarrow> e | Some e' \<Rightarrow> e')"

interpretation history: timed_fifo be_history sp_sent_at "\<lambda>e. ec_history_age (be_configuration e)"
    "\<lambda>e. ec_history_packets (be_configuration e)" expire_history record_sent
proof
  fix now e and p :: sent_packet
  show "be_history (expire_history now e) =
      dropWhile (\<lambda>x. now - sp_sent_at x > ec_history_age (be_configuration e)) (be_history e)"
    by (simp add: expire_history_def)
  show "ec_history_age (be_configuration (record_sent now p e)) = ec_history_age (be_configuration e)"
    and "ec_history_packets (be_configuration (record_sent now p e)) = ec_history_packets (be_configuration e)"
    by (auto simp: record_sent_def register_sent_Some split: option.split)
  assume "sp_sent_at p = now" and "0 < ec_history_packets (be_configuration e)"
  moreover from this(2) obtain e' where e': "register_sent p e = Some e'"
    using register_sent_None [of p e] by fastforce
  ultimately show "\<exists>k. be_history (record_sent now p e) = drop k (be_history (expire_history now e)) @ [p] \<and>
        length (drop k (be_history (expire_history now e))) < ec_history_packets (be_configuration e)"
    using register_sent_Some(4) [OF e'] by (simp add: record_sent_def)
qed simp_all

section \<open>Histories of the estimator\<close>

datatype est_op = OpSent sent_packet | OpFeedback duration transport_wide_feedback

fun be_step :: "est_op \<Rightarrow> bandwidth_estimator \<Rightarrow> (estimate list \<times> bandwidth_estimator) option" where
  "be_step (OpSent p) e = map_option (Pair []) (register_sent p e)"
| "be_step (OpFeedback now fb) e = map_option (\<lambda>(x, e'). ([x], e')) (process_feedback now fb e)"

fun be_run :: "est_op list \<Rightarrow> bandwidth_estimator \<Rightarrow> (estimate list \<times> bandwidth_estimator) option" where
  "be_run [] e = Some ([], e)"
| "be_run (op # ops) e =
     (case be_step op e of None \<Rightarrow> None
      | Some (xs, e') \<Rightarrow> map_option (\<lambda>(ys, e''). (xs @ ys, e'')) (be_run ops e'))"

fun est_time :: "est_op \<Rightarrow> duration" where
  "est_time (OpSent p) = sp_sent_at p"
| "est_time (OpFeedback now _) = now"

definition est_clocked :: "est_op list \<Rightarrow> bool" where
  "est_clocked ops = sorted (map est_time ops)"

lemma u64_clamp_Some: "lo \<le> hi \<Longrightarrow> \<exists>y. u64_clamp lo hi x = Some y \<and> lo \<le> y \<and> y \<le> hi"
  by (auto simp: u64_clamp_def)

lemma u64_clampD: "u64_clamp lo hi x = Some y \<Longrightarrow> lo \<le> y \<and> y \<le> hi \<and> (y = x \<or> x < lo \<and> y = lo \<or> hi < x \<and> y = hi)"
  by (auto simp: u64_clamp_def split: if_splits)

definition est_ok :: "bandwidth_estimator \<Rightarrow> bool" where
  "est_ok e \<longleftrightarrow> ec_minimum_bitrate_bps (be_configuration e) \<le> be_target_bitrate_bps e \<and>
     be_target_bitrate_bps e \<le> ec_maximum_bitrate_bps (be_configuration e) \<and>
     length (be_history e) \<le> ec_history_packets (be_configuration e)"

lemma loss_bounded: "mt_loss_per_mille (calculate_metrics obs) \<le> 1000"
proof (cases "obs = []")
  case True
  then show ?thesis by (simp add: calculate_metrics_def)
next
  case False
  let ?r = "List.map_filter (\<lambda>ob. map_option (\<lambda>r. (ob, r)) (ob_received_at_micros ob)) obs"
  let ?x = "min ((length obs - length ?r) * 1000) (2 ^ 64 - 1) div length obs"
  have "?x \<le> (length obs - length ?r) * 1000 div length obs" by (intro div_le_mono) simp
  also have "\<dots> \<le> length obs * 1000 div length obs" by (intro div_le_mono) simp
  also have "\<dots> = 1000" using False by simp
  finally have x: "?x \<le> 1000" .
  then have "(word_of_nat ?x :: u16) \<le> 1000"
    unfolding word_le_nat_alt by (simp add: unat_of_nat)
  with x False show ?thesis by (simp add: calculate_metrics_def Let_def)
qed

lemma process_feedback_keeps:
  assumes "process_feedback now fb e = Some (x, e')"
  shows "be_configuration e' = be_configuration e"
    and "be_history e' = be_history (expire_history now e)"
    and "ec_minimum_bitrate_bps (be_configuration e) \<le> be_target_bitrate_bps e'"
    and "be_target_bitrate_bps e' \<le> ec_maximum_bitrate_bps (be_configuration e)"
    and "es_target_bitrate_bps x = be_target_bitrate_bps e'" and "es_loss_per_mille x \<le> 1000"
  using assms loss_bounded
  by (auto simp: process_feedback_def update_target_def Let_def dest!: u64_clampD split: option.splits)

lemma process_feedback_returns:
  assumes "ec_minimum_bitrate_bps (be_configuration e) \<le> ec_maximum_bitrate_bps (be_configuration e)"
  shows "\<exists>x e'. process_feedback now fb e = Some (x, e')"
proof -
  have "\<exists>e3. update_target now rate usage e2 = Some e3"
    if "be_configuration e2 = be_configuration e" for rate usage e2
    using u64_clamp_Some [OF assms] that by (fastforce simp: update_target_def Let_def)
  then show ?thesis by (fastforce simp: process_feedback_def Let_def split: option.split)
qed

lemma be_step_ok:
  assumes ok: "est_ok e" and pos: "0 < ec_history_packets (be_configuration e)"
  shows "\<exists>xs e'. be_step op e = Some (xs, e') \<and> be_configuration e' = be_configuration e \<and> est_ok e' \<and>
    (\<forall>x\<in>set xs. ec_minimum_bitrate_bps (be_configuration e) \<le> es_target_bitrate_bps x \<and>
       es_target_bitrate_bps x \<le> ec_maximum_bitrate_bps (be_configuration e) \<and> es_loss_per_mille x \<le> 1000) \<and>
    (\<forall>t. history.orderly t e \<longrightarrow> t \<le> est_time op \<longrightarrow> history.orderly (est_time op) e')"
proof (cases op)
  case (OpSent p)
  obtain e' where e': "register_sent p e = Some e'" using register_sent_None [of p e] pos by fastforce
  from register_sent_Some(4) [OF e'] obtain k where
    "be_history e' = drop k (be_history (expire_history (sp_sent_at p) e)) @ [p]"
    "length (drop k (be_history (expire_history (sp_sent_at p) e))) < ec_history_packets (be_configuration e)" by blast
  then have "length (be_history e') \<le> ec_history_packets (be_configuration e)" by simp
  with ok register_sent_Some(1,2) [OF e'] have "est_ok e'" by (simp add: est_ok_def)
  moreover have "history.orderly (sp_sent_at p) e'" if "history.orderly t e" "t \<le> sp_sent_at p" for t
    using history.orderly_push [OF that refl pos] e' by (simp add: record_sent_def)
  ultimately show ?thesis using e' OpSent register_sent_Some(1) [OF e'] by simp
next
  case (OpFeedback now fb)
  have "ec_minimum_bitrate_bps (be_configuration e) \<le> ec_maximum_bitrate_bps (be_configuration e)"
    using ok unfolding est_ok_def by (meson order_trans)
  from process_feedback_returns [OF this] obtain x e' where f: "process_feedback now fb e = Some (x, e')" by blast
  note keeps = process_feedback_keeps [OF f]
  have "est_ok e'"
    using keeps ok expire_history_length [of now e] by (simp add: est_ok_def)
  moreover have "history.orderly now e'" if "history.orderly t e" "t \<le> now" for t
    using history.orderly_expire [OF history.orderly_later [OF that], of now] keeps(1,2)
    by (simp add: history.orderly_def)
  ultimately show ?thesis using f OpFeedback keeps by simp
qed

lemma be_run_ok:
  assumes "est_ok e" and "0 < ec_history_packets (be_configuration e)"
  shows "\<exists>xs e'. be_run ops e = Some (xs, e') \<and> be_configuration e' = be_configuration e \<and> est_ok e' \<and>
    (\<forall>x\<in>set xs. ec_minimum_bitrate_bps (be_configuration e) \<le> es_target_bitrate_bps x \<and>
       es_target_bitrate_bps x \<le> ec_maximum_bitrate_bps (be_configuration e) \<and> es_loss_per_mille x \<le> 1000) \<and>
    (\<forall>t. history.orderly t e \<longrightarrow> sorted (t # map est_time ops) \<longrightarrow> history.orderly (last (t # map est_time ops)) e')"
  using assms
proof (induction ops arbitrary: e)
  case Nil
  then show ?case by simp
next
  case (Cons op ops)
  from be_step_ok [OF Cons.prems, of op] obtain xs e1 where s: "be_step op e = Some (xs, e1)"
    and c1: "be_configuration e1 = be_configuration e" and ok1: "est_ok e1"
    and xs: "\<forall>x\<in>set xs. ec_minimum_bitrate_bps (be_configuration e) \<le> es_target_bitrate_bps x \<and>
       es_target_bitrate_bps x \<le> ec_maximum_bitrate_bps (be_configuration e) \<and> es_loss_per_mille x \<le> 1000"
    and o1: "\<forall>t. history.orderly t e \<longrightarrow> t \<le> est_time op \<longrightarrow> history.orderly (est_time op) e1" by blast
  from Cons.IH [OF ok1] Cons.prems(2) obtain ys e2 where r: "be_run ops e1 = Some (ys, e2)"
    and c2: "be_configuration e2 = be_configuration e" and ok2: "est_ok e2"
    and ys: "\<forall>x\<in>set ys. ec_minimum_bitrate_bps (be_configuration e) \<le> es_target_bitrate_bps x \<and>
       es_target_bitrate_bps x \<le> ec_maximum_bitrate_bps (be_configuration e) \<and> es_loss_per_mille x \<le> 1000"
    and o2: "\<forall>t. history.orderly t e1 \<longrightarrow> sorted (t # map est_time ops) \<longrightarrow>
       history.orderly (last (t # map est_time ops)) e2"
    unfolding c1 by blast
  have "history.orderly (last (t # map est_time (op # ops))) e2"
    if "history.orderly t e" "sorted (t # map est_time (op # ops))" for t
    using that o1 o2 by simp
  with s r c2 ok2 xs ys show ?case by auto
qed

section \<open>Layer selection\<close>

definition sorts :: "(layer_option list \<Rightarrow> layer_option list) \<Rightarrow> bool" where
  "sorts srt \<longleftrightarrow> (\<forall>xs. mset (srt xs) = mset xs \<and> sorted (map lo_minimum_bitrate_bps (srt xs)))"

lemma affordable_option_best:
  assumes "sorted (map lo_minimum_bitrate_bps xs)" and "affordable_option xs target = Some a"
  shows "a \<in> set xs" and "lo_minimum_bitrate_bps a \<le> target \<or>
    (\<forall>x\<in>set xs. lo_minimum_bitrate_bps a \<le> lo_minimum_bitrate_bps x)"
    and "\<forall>x\<in>set xs. lo_minimum_bitrate_bps x \<le> target \<longrightarrow> lo_minimum_bitrate_bps x \<le> lo_minimum_bitrate_bps a"
proof -
  have "a \<in> set xs \<and> (lo_minimum_bitrate_bps a \<le> target \<or>
      (\<forall>x\<in>set xs. lo_minimum_bitrate_bps a \<le> lo_minimum_bitrate_bps x)) \<and>
    (\<forall>x\<in>set xs. lo_minimum_bitrate_bps x \<le> target \<longrightarrow> lo_minimum_bitrate_bps x \<le> lo_minimum_bitrate_bps a)"
    using assms
  proof (induction xs rule: rev_induct)
    case Nil
    then show ?case by (simp add: affordable_option_def)
  next
    case (snoc y ys)
    then have y: "\<forall>x\<in>set ys. lo_minimum_bitrate_bps x \<le> lo_minimum_bitrate_bps y"
      and s: "sorted (map lo_minimum_bitrate_bps ys)" by (auto simp: sorted_append)
    show ?case
    proof (cases "lo_minimum_bitrate_bps y \<le> target")
      case True
      with snoc.prems y show ?thesis by (simp add: affordable_option_def)
    next
      case False
      show ?thesis
      proof (cases "ys = []")
        case True
        with False snoc.prems show ?thesis by (simp add: affordable_option_def)
      next
        case ne: False
        with False snoc.prems(2) have "affordable_option ys target = Some a"
          by (auto simp: affordable_option_def split: option.splits list.splits)
        from snoc.IH [OF s this] y False show ?thesis by auto
      qed
    qed
  qed
  then show "a \<in> set xs" and "lo_minimum_bitrate_bps a \<le> target \<or>
    (\<forall>x\<in>set xs. lo_minimum_bitrate_bps a \<le> lo_minimum_bitrate_bps x)"
    and "\<forall>x\<in>set xs. lo_minimum_bitrate_bps x \<le> target \<longrightarrow> lo_minimum_bitrate_bps x \<le> lo_minimum_bitrate_bps a"
    by blast+
qed

type_synonym select_call = "duration \<times> layer_option list \<times> u64"

fun ls_run :: "(layer_option list \<Rightarrow> layer_option list) \<Rightarrow> select_call list \<Rightarrow> layer_selector \<Rightarrow> layer_selector" where
  "ls_run srt [] s = s"
| "ls_run srt ((now, options, target) # calls) s = ls_run srt calls (snd (select_layer srt now options target s))"

text \<open>A call in which the layer is the best affordable one with the required headroom. A call with
  no options at all leaves the selector as it is.\<close>

definition demands :: "(layer_option list \<Rightarrow> layer_option list) \<Rightarrow> layer \<Rightarrow> select_call \<Rightarrow> bool" where
  "demands srt l call \<longleftrightarrow> (case call of (now, options, target) \<Rightarrow>
     \<exists>a. affordable_option (srt options) target = Some a \<and> lo_layer a = l \<and>
       saturating_mul (lo_minimum_bitrate_bps a) 120 div 100 \<le> target)"

definition candidate_held :: "(layer_option list \<Rightarrow> layer_option list) \<Rightarrow> select_call list \<Rightarrow> layer_selector \<Rightarrow> bool" where
  "candidate_held srt calls s \<longleftrightarrow> ls_upgrade_headroom_percent s = 120 \<and> ls_upgrade_hold s = 2000000000 \<and>
     (ls_current s = None \<longrightarrow> ls_upgrade_candidate s = None) \<and>
     (\<forall>l since. ls_upgrade_candidate s = Some (l, since) \<longrightarrow>
       (\<exists>pre first mid. calls = pre @ first # mid \<and> fst first = since \<and> demands srt l first \<and>
         (\<forall>x\<in>set mid. fst (snd x) = [] \<or> demands srt l x)))"

lemma ls_run_append: "ls_run srt (xs @ ys) s = ls_run srt ys (ls_run srt xs s)"
  by (induction srt xs s rule: ls_run.induct) simp_all

lemma affordable_option_None:
  assumes "sorts srt"
  shows "affordable_option (srt options) target = None \<longleftrightarrow> options = []"
proof -
  have "srt options = [] \<longleftrightarrow> options = []"
    using assms by (metis mset_zero_iff sorts_def)
  then show ?thesis by (auto simp: affordable_option_def split: option.split list.split dest: find_SomeD)
qed

lemma candidate_held_extend:
  assumes "candidate_held srt calls s" and "fst (snd call) = [] \<or> (\<forall>l since. ls_upgrade_candidate s = Some (l, since) \<longrightarrow> demands srt l call)"
  shows "candidate_held srt (calls @ [call]) s"
  unfolding candidate_held_def
proof (intro conjI allI impI)
  fix l since assume c: "ls_upgrade_candidate s = Some (l, since)"
  with assms(1) obtain pre first mid where m: "calls = pre @ first # mid" "fst first = since" "demands srt l first"
    "\<forall>x\<in>set mid. fst (snd x) = [] \<or> demands srt l x" unfolding candidate_held_def by blast
  from assms(2) c have "fst (snd call) = [] \<or> demands srt l call" by blast
  with m show "\<exists>pre first mid. calls @ [call] = pre @ first # mid \<and> fst first = since \<and> demands srt l first \<and>
         (\<forall>x\<in>set mid. fst (snd x) = [] \<or> demands srt l x)"
    by (intro exI [of _ pre] exI [of _ first] exI [of _ "mid @ [call]"]) auto
qed (use assms(1) in \<open>auto simp: candidate_held_def\<close>)

text \<open>The three early returns that clear the candidate.\<close>

definition layer_cleared :: "(layer_option list \<Rightarrow> layer_option list) \<Rightarrow> layer_option list \<Rightarrow> u64 \<Rightarrow> layer \<Rightarrow>
    layer_option \<Rightarrow> bool" where
  "layer_cleared srt options target cur a \<longleftrightarrow>
     lo_minimum_bitrate_bps a \<le> (case layer_rate (srt options) cur of None \<Rightarrow> - 1 | Some r \<Rightarrow> r) \<or>
     target < saturating_mul (lo_minimum_bitrate_bps a) 120 div 100"

lemma select_layer_pressing:
  assumes "affordable_option (srt options) target = Some a" and "ls_current s = Some cur"
    and "\<not> layer_cleared srt options target cur a" and "ls_upgrade_headroom_percent s = 120"
  shows "snd (select_layer srt now options target s) = (case ls_upgrade_candidate s of
      Some (l, since) \<Rightarrow>
        if l = lo_layer a \<and> now - since \<ge> ls_upgrade_hold s
        then s\<lparr>ls_current := Some (lo_layer a), ls_upgrade_candidate := None\<rparr>
        else if l = lo_layer a then s else s\<lparr>ls_upgrade_candidate := Some (lo_layer a, now)\<rparr>
    | None \<Rightarrow> s\<lparr>ls_upgrade_candidate := Some (lo_layer a, now)\<rparr>)"
proof -
  let ?c = "case layer_rate (srt options) cur of None \<Rightarrow> - 1 | Some r \<Rightarrow> r"
  from assms(3) have "\<not> lo_minimum_bitrate_bps a < ?c" "lo_minimum_bitrate_bps a \<noteq> ?c"
    "\<not> target < saturating_mul (lo_minimum_bitrate_bps a) 120 div 100"
    by (auto simp: layer_cleared_def)
  then show ?thesis
    unfolding select_layer_def Let_def assms(1,2,4) option.case by (simp only: if_False snd_conv)
qed

lemma candidate_held_step:
  assumes srt: "sorts srt" and held: "candidate_held srt calls s"
  shows "candidate_held srt (calls @ [(now, options, target)]) (snd (select_layer srt now options target s))"
proof (cases "affordable_option (srt options) target")
  case None
  with affordable_option_None [OF srt] have "options = []" by simp
  with None held show ?thesis
    by (simp add: select_layer_def Let_def candidate_held_extend)
next
  case (Some a)
  let ?call = "(now, options, target)"
  let ?s' = "snd (select_layer srt now options target s)"
  have hr: "ls_upgrade_headroom_percent s = 120" using held by (simp add: candidate_held_def)
  have base: "ls_upgrade_headroom_percent ?s' = 120" "ls_upgrade_hold ?s' = 2000000000" "ls_current ?s' \<noteq> None"
    using held Some by (auto simp: candidate_held_def select_layer_def Let_def split: option.split if_splits)
  consider (cleared) "ls_upgrade_candidate ?s' = None" | (kept) "?s' = s" "demands srt (lo_layer a) ?call"
      "\<exists>since. ls_upgrade_candidate s = Some (lo_layer a, since)"
    | (started) "ls_upgrade_candidate ?s' = Some (lo_layer a, now)" "demands srt (lo_layer a) ?call"
  proof (cases "ls_current s")
    case None
    with held Some have "ls_upgrade_candidate ?s' = None" by (simp add: candidate_held_def select_layer_def)
    then show thesis by (rule cleared)
  next
    case cur: (Some cur)
    show thesis
    proof (cases "layer_cleared srt options target cur a")
      case True
      with Some cur hr have "ls_upgrade_candidate ?s' = None"
        by (auto simp: layer_cleared_def select_layer_def Let_def)
      then show thesis by (rule cleared)
    next
      case False
      then have d: "demands srt (lo_layer a) ?call"
        using Some by (simp add: layer_cleared_def demands_def not_less)
      note step = select_layer_pressing [OF Some cur False hr, where now = now]
      show thesis
      proof (cases "\<exists>since. ls_upgrade_candidate s = Some (lo_layer a, since)")
        case True
        then obtain since where c: "ls_upgrade_candidate s = Some (lo_layer a, since)" by blast
        show thesis
        proof (cases "now - since \<ge> ls_upgrade_hold s")
          case True
          with step c have "ls_upgrade_candidate ?s' = None" by simp
          then show thesis by (rule cleared)
        next
          case False
          with step c have "?s' = s" by simp
          from kept [OF this d] c show thesis by blast
        qed
      next
        case False
        with step have "ls_upgrade_candidate ?s' = Some (lo_layer a, now)"
          by (cases "ls_upgrade_candidate s") auto
        from started [OF this d] show thesis .
      qed
    qed
  qed
  then show ?thesis
  proof cases
    case cleared
    with base show ?thesis by (auto simp: candidate_held_def)
  next
    case kept
    from kept(2,3) have "fst (snd ?call) = [] \<or> (\<forall>l since. ls_upgrade_candidate s = Some (l, since) \<longrightarrow> demands srt l ?call)"
      by auto
    from candidate_held_extend [OF held this] kept(1) show ?thesis by simp
  next
    case started
    have "\<exists>pre first mid. calls @ [?call] = pre @ first # mid \<and> fst first = now \<and> demands srt (lo_layer a) first \<and>
         (\<forall>x\<in>set mid. fst (snd x) = [] \<or> demands srt (lo_layer a) x)"
      using started(2) by (intro exI [of _ calls] exI [of _ ?call] exI [of _ "[]"]) simp
    with started(1) base show ?thesis by (auto simp: candidate_held_def)
  qed
qed

lemma candidate_held_run:
  assumes "sorts srt" and "candidate_held srt before s"
  shows "candidate_held srt (before @ calls) (ls_run srt calls s)"
  using assms(2)
proof (induction calls arbitrary: before s)
  case Nil
  then show ?case by simp
next
  case (Cons call calls)
  obtain now options target where c: "call = (now, options, target)" by (metis prod.exhaust)
  from Cons.IH [OF candidate_held_step [OF assms(1) Cons.prems, of now options target]] show ?case by (simp add: c)
qed

lemma u64_clamp_le: "u64_clamp lo hi x = Some y \<Longrightarrow> unat y \<le> max (unat lo) (unat x)"
  by (auto simp: u64_clamp_def word_less_nat_alt split: if_splits)

lemma update_target_overuse:
  assumes "update_target now rate Overusing e = Some e'"
  shows "unat (be_target_bitrate_bps e') \<le> max (unat (ec_minimum_bitrate_bps (be_configuration e)))
    (unat (if rate > 0 then min (be_target_bitrate_bps e) rate else be_target_bitrate_bps e) * 85 div 100)"
proof -
  let ?b = "if rate > 0 then min (be_target_bitrate_bps e) rate else be_target_bitrate_bps e"
  have "unat (saturating_mul ?b 85 div 100) = unat (saturating_mul ?b 85) div 100"
    by (simp add: unat_div)
  also have "\<dots> \<le> unat ?b * 85 div 100" using unat_saturating_mul [of ?b 85] by (intro div_le_mono) simp
  finally have "unat (saturating_mul ?b 85 div 100) \<le> unat ?b * 85 div 100" .
  moreover have "u64_clamp (ec_minimum_bitrate_bps (be_configuration e)) (ec_maximum_bitrate_bps (be_configuration e))
      (saturating_mul ?b 85 div 100) = Some (be_target_bitrate_bps e')"
    using assms by (auto simp: update_target_def Let_def)
  ultimately show ?thesis using u64_clamp_le by (meson max.mono order.refl order_trans)
qed

lemma update_target_underuse:
  assumes "update_target now rate Underusing e = Some e'"
  shows "unat (be_target_bitrate_bps e') \<le> max (unat (ec_minimum_bitrate_bps (be_configuration e)))
      (unat (be_target_bitrate_bps e) + max (unat (be_target_bitrate_bps e) div 20) 10000 * 5)"
    and "rate > 0 \<Longrightarrow> unat (be_target_bitrate_bps e') \<le>
      max (unat (ec_minimum_bitrate_bps (be_configuration e))) (unat rate * 11 div 10)"
proof -
  define ms where "ms = (case be_last_update e of None \<Rightarrow> 1000
      | Some t \<Rightarrow> max 1 (min (as_millis (now - t)) 5000))"
  define ps where "ps = max (be_target_bitrate_bps e div 20) 10000"
  define inc :: u64 where "inc = (if unat ps * ms div 1000 < 2 ^ 64 then word_of_nat (unat ps * ms div 1000) else - 1)"
  define t where "t = saturating_add (be_target_bitrate_bps e) inc"
  define t' where "t' = (if rate > 0 then min t (saturating_mul rate 11 div 10) else t)"
  from assms have c: "u64_clamp (ec_minimum_bitrate_bps (be_configuration e)) (ec_maximum_bitrate_bps (be_configuration e)) t' =
      Some (be_target_bitrate_bps e')"
    unfolding update_target_def Let_def bandwidth_usage.case ms_def [symmetric] ps_def [symmetric]
      inc_def [symmetric] t_def [symmetric] t'_def [symmetric] by auto
  have "ms \<le> 5000" by (auto simp: ms_def split: option.split)
  have "unat inc \<le> unat ps * ms div 1000"
  proof (cases "unat ps * ms div 1000 < 2 ^ 64")
    case True
    then show ?thesis by (simp add: inc_def unat_word_of_nat_less)
  next
    case False
    have "unat inc < 2 ^ LENGTH(64)" by (rule unsigned_less)
    with False show ?thesis by simp
  qed
  also have "\<dots> \<le> unat ps * 5000 div 1000" using \<open>ms \<le> 5000\<close> by (intro div_le_mono mult_left_mono) simp_all
  also have "\<dots> = unat ps * 5" by simp
  also have "unat ps = max (unat (be_target_bitrate_bps e) div 20) 10000"
    by (auto simp: ps_def max_def word_le_nat_alt unat_div)
  finally have "unat inc \<le> max (unat (be_target_bitrate_bps e) div 20) 10000 * 5" .
  with unat_saturating_add [of "be_target_bitrate_bps e" inc]
  have t: "unat t \<le> unat (be_target_bitrate_bps e) + max (unat (be_target_bitrate_bps e) div 20) 10000 * 5"
    by (simp add: t_def)
  have "unat t' \<le> unat t" by (simp add: t'_def word_le_nat_alt [symmetric])
  with t u64_clamp_le [OF c]
  show "unat (be_target_bitrate_bps e') \<le> max (unat (ec_minimum_bitrate_bps (be_configuration e)))
      (unat (be_target_bitrate_bps e) + max (unat (be_target_bitrate_bps e) div 20) 10000 * 5)" by linarith
  assume "rate > 0"
  then have "unat t' \<le> unat (saturating_mul rate 11 div 10)" by (simp add: t'_def word_le_nat_alt [symmetric])
  also have "\<dots> = unat (saturating_mul rate 11) div 10" by (simp add: unat_div)
  also have "\<dots> \<le> unat rate * 11 div 10" using unat_saturating_mul [of rate 11] by (intro div_le_mono) simp
  finally show "unat (be_target_bitrate_bps e') \<le>
      max (unat (ec_minimum_bitrate_bps (be_configuration e))) (unat rate * 11 div 10)"
    using u64_clamp_le [OF c] by linarith
qed

lemma process_feedback_update:
  assumes "process_feedback now fb e = Some (x, e')"
  shows "\<exists>e2 e3. update_target now (es_delivery_rate_bps x) (es_usage x) e2 = Some e3 \<and>
    be_target_bitrate_bps e3 = be_target_bitrate_bps e' \<and> be_target_bitrate_bps e2 = be_target_bitrate_bps e \<and>
    be_configuration e2 = be_configuration e"
proof -
  define m where "m = calculate_metrics (match_feedback fb (expire_history now e))"
  define e2 where "e2 = (case mt_delay_sample_micros m of None \<Rightarrow> expire_history now e
      | Some sample \<Rightarrow> (expire_history now e)\<lparr>be_delay_trend_micros :=
          quot (wrap_i64 (wrap_i64 (be_delay_trend_micros (expire_history now e) * 7) + sample)) 8\<rparr>)"
  have "be_target_bitrate_bps e2 = be_target_bitrate_bps e" "be_configuration e2 = be_configuration e"
    by (simp_all add: e2_def split: option.split)
  moreover from assms obtain e3 where "update_target now (es_delivery_rate_bps x) (es_usage x) e2 = Some e3"
    "be_target_bitrate_bps e3 = be_target_bitrate_bps e'"
    unfolding process_feedback_def Let_def m_def [symmetric] e2_def [symmetric] by auto
  ultimately show ?thesis by blast
qed

section \<open>Properties\<close>

text \<open>C21. The estimator stays within its limits. With a floor below the ceiling and room for at
  least one packet in the history, creating the estimator and every later call return; every target
  bitrate lies between floor and ceiling and every loss between 0 and 1000 per mille; the history
  never exceeds its capacity; and, the clock not running backwards, the packets a feedback report
  is matched against were sent within the history age.\<close>

theorem estimator_bounded:
  assumes "ec_minimum_bitrate_bps c \<le> ec_maximum_bitrate_bps c" and "0 < ec_history_packets c"
  shows "\<exists>e0 xs e. be_new c = Some e0 \<and> be_run ops e0 = Some (xs, e) \<and>
    ec_minimum_bitrate_bps c \<le> be_target_bitrate_bps e \<and> be_target_bitrate_bps e \<le> ec_maximum_bitrate_bps c \<and>
    length (be_history e) \<le> ec_history_packets c \<and>
    (\<forall>x\<in>set xs. ec_minimum_bitrate_bps c \<le> es_target_bitrate_bps x \<and>
       es_target_bitrate_bps x \<le> ec_maximum_bitrate_bps c \<and> es_loss_per_mille x \<le> 1000) \<and>
    (sorted (map est_time ops) \<longrightarrow>
       (\<forall>now. \<forall>p\<in>set (be_history (expire_history now e)). now - sp_sent_at p \<le> ec_history_age c))"
proof -
  from u64_clamp_Some [OF assms(1)] obtain t where "u64_clamp (ec_minimum_bitrate_bps c) (ec_maximum_bitrate_bps c)
      (ec_initial_bitrate_bps c) = Some t" "ec_minimum_bitrate_bps c \<le> t" "t \<le> ec_maximum_bitrate_bps c" by blast
  then obtain e0 where e0: "be_new c = Some e0" "be_configuration e0 = c" "be_history e0 = []" "est_ok e0"
    by (auto simp: be_new_def est_ok_def)
  then have o: "history.orderly 0 e0" by (simp add: history.orderly_def)
  from be_run_ok [OF e0(4), of ops] assms(2) obtain xs e where r: "be_run ops e0 = Some (xs, e)"
    and e: "be_configuration e = c" "est_ok e"
    and xs: "\<forall>x\<in>set xs. ec_minimum_bitrate_bps c \<le> es_target_bitrate_bps x \<and>
       es_target_bitrate_bps x \<le> ec_maximum_bitrate_bps c \<and> es_loss_per_mille x \<le> 1000"
    and ord: "\<forall>t. history.orderly t e0 \<longrightarrow> sorted (t # map est_time ops) \<longrightarrow>
      history.orderly (last (t # map est_time ops)) e"
    unfolding e0(2) by blast
  have "now - sp_sent_at p \<le> ec_history_age c"
    if s: "sorted (map est_time ops)" and p: "p \<in> set (be_history (expire_history now e))" for now p
  proof -
    from ord o s have "history.orderly (last (0 # map est_time ops)) e" by simp
    from history.expire_exact [OF this, of now] p e(1) show ?thesis by auto
  qed
  with e0(1) r e xs show ?thesis by (auto simp: est_ok_def)
qed

text \<open>C22. Recording a sent packet returns exactly when the history may hold a packet: with a capacity
  of zero the eviction loop never ends.\<close>

theorem register_sent_returns_iff:
  "(\<exists>e'. register_sent p e = Some e') \<longleftrightarrow> ec_history_packets (be_configuration e) \<noteq> 0"
  using register_sent_None [of p e] by auto

text \<open>Additive increase, multiplicative decrease. On overuse the target falls to at most 85 per
  cent of itself, and of the delivery rate when one was measured, except for the floor; in normal use it is kept; on underuse
  it grows by at most five seconds of a twentieth (or 10 kbit/s) per second, and, when a delivery
  rate was measured, to at most 1.1 times that rate, except for the floor.\<close>

lemma estimator_aimd:
  assumes "process_feedback now fb e = Some (x, e')"
    and "ec_minimum_bitrate_bps (be_configuration e) \<le> be_target_bitrate_bps e"
    and "be_target_bitrate_bps e \<le> ec_maximum_bitrate_bps (be_configuration e)"
  shows "case es_usage x of
      Overusing \<Rightarrow> unat (be_target_bitrate_bps e') \<le> max (unat (ec_minimum_bitrate_bps (be_configuration e)))
        (unat (if es_delivery_rate_bps x > 0 then min (be_target_bitrate_bps e) (es_delivery_rate_bps x)
               else be_target_bitrate_bps e) * 85 div 100)
    | Normal \<Rightarrow> be_target_bitrate_bps e' = be_target_bitrate_bps e
    | Underusing \<Rightarrow>
        unat (be_target_bitrate_bps e') \<le> max (unat (ec_minimum_bitrate_bps (be_configuration e)))
          (unat (be_target_bitrate_bps e) + max (unat (be_target_bitrate_bps e) div 20) 10000 * 5) \<and>
        (es_delivery_rate_bps x > 0 \<longrightarrow> unat (be_target_bitrate_bps e') \<le>
          max (unat (ec_minimum_bitrate_bps (be_configuration e))) (unat (es_delivery_rate_bps x) * 11 div 10))"
proof -
  from process_feedback_update [OF assms(1)] obtain e2 e3 where
    u: "update_target now (es_delivery_rate_bps x) (es_usage x) e2 = Some e3"
    and t: "be_target_bitrate_bps e3 = be_target_bitrate_bps e'" "be_target_bitrate_bps e2 = be_target_bitrate_bps e"
      "be_configuration e2 = be_configuration e" by blast
  show ?thesis
  proof (cases "es_usage x")
    case Underusing
    with update_target_underuse [OF u [unfolded Underusing]] t show ?thesis by simp
  next
    case Normal
    with u t assms(2,3) show ?thesis by (auto simp: update_target_def Let_def u64_clamp_def split: if_splits)
  next
    case Overusing
    from update_target_overuse [OF u [unfolded Overusing]] show ?thesis
      unfolding t Overusing bandwidth_usage.case .
  qed
qed

text \<open>The layer that is selected is offered and can be afforded. Whatever was selected before, the
  result is one of the offered layers, and either its bitrate is within the target or no offered
  layer needs less.\<close>

lemma selected_layer_affordable:
  assumes "sorts srt" and "options \<noteq> []" and "\<forall>opt\<in>set options. lo_minimum_bitrate_bps opt \<noteq> - 1"
    and "select_layer srt now options target s = (res, s')"
  shows "ls_current s' = res \<and> (\<exists>opt\<in>set options. res = Some (lo_layer opt) \<and>
    (lo_minimum_bitrate_bps opt \<le> target \<or>
     (\<forall>other\<in>set options. lo_minimum_bitrate_bps opt \<le> lo_minimum_bitrate_bps other)))"
proof -
  have m: "set (srt options) = set options" and sorted: "sorted (map lo_minimum_bitrate_bps (srt options))"
    using assms(1) by (auto simp: sorts_def dest: mset_eq_setD)
  obtain a where a: "affordable_option (srt options) target = Some a"
    using affordable_option_None [OF assms(1), of options target] assms(2) by auto
  note best = affordable_option_best [OF sorted a, unfolded m]
  have cur: "ls_current s' = res" using assms(4) a
    by (auto simp: select_layer_def Let_def split: option.splits if_splits prod.splits)
  show ?thesis
  proof (cases "res = Some (lo_layer a)")
    case True
    with cur best show ?thesis by blast
  next
    case False
    let ?rate = "\<lambda>c. case layer_rate (srt options) c of None \<Rightarrow> - 1 | Some r \<Rightarrow> r"
    from False assms(4) a obtain c where c: "ls_current s = Some c" "res = Some c" "\<not> lo_minimum_bitrate_bps a < ?rate c"
      by (auto simp: select_layer_def Let_def split: option.splits if_splits prod.splits)
    have "layer_rate (srt options) c \<noteq> None"
    proof
      assume "layer_rate (srt options) c = None"
      with c(3) have "lo_minimum_bitrate_bps a = - 1" using word_order.extremum_unique [of "lo_minimum_bitrate_bps a"] by (simp add: not_less)
      with assms(3) best(1) show False by blast
    qed
    then obtain opt where opt: "find (\<lambda>opt. lo_layer opt = c) (srt options) = Some opt"
      by (auto simp: layer_rate_def)
    from find_SomeD [OF opt] have o: "opt \<in> set options" "lo_layer opt = c" by (simp_all add: m)
    from c(3) opt have "lo_minimum_bitrate_bps opt \<le> lo_minimum_bitrate_bps a" by (simp add: layer_rate_def not_less)
    with best(2) o c(2) cur show ?thesis by (auto intro!: bexI [of _ opt] intro: order_trans)
  qed
qed

text \<open>Upgrades are held back. When a call of the default selector moves from the current layer to
  one that needs a higher bitrate, then for at least two seconds before, from some earlier call on,
  that layer was the best affordable one in every call that offered any, with 20 per cent headroom.\<close>

lemma upgrade_held_back:
  assumes "sorts srt" and "s = ls_run srt calls layer_selector_default" and "ls_current s = Some current"
    and "layer_rate (srt options) current = Some rate" and "select_layer srt now options target s = (Some l, s')"
    and "l \<noteq> current" and "\<exists>opt\<in>set options. lo_layer opt = l \<and> rate < lo_minimum_bitrate_bps opt"
    and "\<forall>opt\<in>set options. lo_layer opt = l \<longrightarrow> rate < lo_minimum_bitrate_bps opt"
  shows "\<exists>pre first mid. calls = pre @ first # mid \<and> now - fst first \<ge> 2000000000 \<and>
    demands srt l first \<and> demands srt l (now, options, target) \<and>
    (\<forall>x\<in>set mid. fst (snd x) = [] \<or> demands srt l x)"
proof -
  have "candidate_held srt [] layer_selector_default" by (simp add: candidate_held_def layer_selector_default_def)
  from candidate_held_run [OF assms(1) this, of calls] assms(2) have held: "candidate_held srt calls s" by simp
  then have h: "ls_upgrade_headroom_percent s = 120" "ls_upgrade_hold s = 2000000000" by (simp_all add: candidate_held_def)
  have m: "set (srt options) = set options" and sorted: "sorted (map lo_minimum_bitrate_bps (srt options))"
    using assms(1) by (auto simp: sorts_def dest: mset_eq_setD)
  have "options \<noteq> []" using assms(7) by auto
  then obtain a where a: "affordable_option (srt options) target = Some a"
    using affordable_option_None [OF assms(1), of options target] by auto
  from affordable_option_best(1) [OF sorted a] m have ain: "a \<in> set options" by simp
  have cur: "ls_current s' = Some l" "s' = snd (select_layer srt now options target s)"
    using assms(5) a by (auto simp: select_layer_def Let_def split: option.splits if_splits prod.splits)
  have la: "l = lo_layer a" using assms(3,5,6) a
    by (auto simp: select_layer_def Let_def split: option.splits if_splits prod.splits)
  have "rate < lo_minimum_bitrate_bps a" using assms(8) ain la by simp
  have nc: "\<not> layer_cleared srt options target current a"
  proof
    assume "layer_cleared srt options target current a"
    with \<open>rate < lo_minimum_bitrate_bps a\<close> assms(3,4) a h(1) cur(2) have "ls_current s' = Some current"
      by (auto simp: layer_cleared_def select_layer_def Let_def)
    with cur(1) assms(6) show False by simp
  qed
  note step = select_layer_pressing [OF a assms(3) nc h(1), where now = now, folded cur(2)]
  obtain since where c: "ls_upgrade_candidate s = Some (l, since)" "now - since \<ge> 2000000000"
    using step cur(1) assms(3,6) h(2) la by (auto split: option.splits if_splits prod.splits)
  from held c(1) obtain pre first mid where f: "calls = pre @ first # mid" "fst first = since" "demands srt l first"
    "\<forall>x\<in>set mid. fst (snd x) = [] \<or> demands srt l x" unfolding candidate_held_def by blast
  have "demands srt l (now, options, target)"
    using nc a la by (simp add: layer_cleared_def demands_def not_less)
  with f c(2) show ?thesis by blast
qed

section \<open>Small runs\<close>

lemma sorts_sort_key: "sorts (sort_key lo_minimum_bitrate_bps)"
  by (simp add: sorts_def)

theorem estimator_bounded_witness:
  "\<exists>e0 xs e. be_new estimator_config_default = Some e0 \<and>
     be_run [OpSent \<lparr>sp_sequence_number = 1, sp_sent_at = 5, sp_size_bytes = 1200\<rparr>] e0 = Some (xs, e) \<and>
     50000 \<le> be_target_bitrate_bps e \<and> be_target_bitrate_bps e \<le> 20000000 \<and> length (be_history e) \<le> 16384"
proof -
  let ?c = estimator_config_default
  have "ec_minimum_bitrate_bps ?c \<le> ec_maximum_bitrate_bps ?c" "0 < ec_history_packets ?c"
    by (simp_all add: estimator_config_default_def)
  from estimator_bounded [OF this, of "[OpSent \<lparr>sp_sequence_number = 1, sp_sent_at = 5, sp_size_bytes = 1200\<rparr>]"]
  obtain e0 xs e where "be_new ?c = Some e0"
    "be_run [OpSent \<lparr>sp_sequence_number = 1, sp_sent_at = 5, sp_size_bytes = 1200\<rparr>] e0 = Some (xs, e)"
    "ec_minimum_bitrate_bps ?c \<le> be_target_bitrate_bps e" "be_target_bitrate_bps e \<le> ec_maximum_bitrate_bps ?c"
    "length (be_history e) \<le> ec_history_packets ?c" by blast
  then show ?thesis by (intro exI conjI) (simp_all add: estimator_config_default_def)
qed

definition sample_estimator :: bandwidth_estimator where
  "sample_estimator = \<lparr>be_configuration = estimator_config_default, be_history = [], be_target_bitrate_bps = 800000,
     be_delay_trend_micros = 0, be_last_update = None\<rparr>"

definition sample_feedback :: transport_wide_feedback where
  "sample_feedback = \<lparr>tw_sender_ssrc = 1, tw_media_ssrc = 2, tw_base_sequence_number = 0, tw_reference_time = 0,
     tw_feedback_packet_count = 0, tw_statuses = []\<rparr>"

lemma estimator_aimd_witness:
  "\<exists>x e'. process_feedback 0 sample_feedback sample_estimator = Some (x, e') \<and> es_usage x = Underusing \<and>
     be_target_bitrate_bps e' = 840000 \<and> unat (be_target_bitrate_bps e') \<le> 1000000"
proof -
  have "\<exists>x e'. process_feedback 0 sample_feedback sample_estimator = Some (x, e') \<and> es_usage x = Underusing \<and>
      be_target_bitrate_bps e' = 840000"
    by (simp add: process_feedback_def sample_feedback_def sample_estimator_def match_feedback_def expire_history_def
        calculate_metrics_def classify_usage_def update_target_def u64_clamp_def estimator_config_default_def
        saturating_add_def Let_def)
  then obtain x e' where p: "process_feedback 0 sample_feedback sample_estimator = Some (x, e')"
    and u: "es_usage x = Underusing" "be_target_bitrate_bps e' = 840000" by blast
  have "ec_minimum_bitrate_bps (be_configuration sample_estimator) \<le> be_target_bitrate_bps sample_estimator"
    "be_target_bitrate_bps sample_estimator \<le> ec_maximum_bitrate_bps (be_configuration sample_estimator)"
    by (simp_all add: sample_estimator_def estimator_config_default_def)
  from estimator_aimd [OF p this] u p show ?thesis
    by (auto simp: sample_estimator_def estimator_config_default_def)
qed

definition sample_layers :: "layer_option list" where
  "sample_layers = [\<lparr>lo_layer = \<lparr>ly_spatial = 1, ly_temporal = 0\<rparr>, lo_minimum_bitrate_bps = 1000\<rparr>,
     \<lparr>lo_layer = \<lparr>ly_spatial = 0, ly_temporal = 0\<rparr>, lo_minimum_bitrate_bps = 100\<rparr>]"

lemma sample_layers_sorted:
  "sort_key lo_minimum_bitrate_bps sample_layers =
     [\<lparr>lo_layer = \<lparr>ly_spatial = 0, ly_temporal = 0\<rparr>, lo_minimum_bitrate_bps = 100\<rparr>,
      \<lparr>lo_layer = \<lparr>ly_spatial = 1, ly_temporal = 0\<rparr>, lo_minimum_bitrate_bps = 1000\<rparr>]"
  by (simp add: sample_layers_def)

lemmas select_eval = select_layer_def affordable_option_def layer_rate_def layer_selector_default_def
  saturating_mul_def Let_def

lemma selected_layer_affordable_witness:
  "\<exists>opt\<in>set sample_layers. fst (select_layer (sort_key lo_minimum_bitrate_bps) 0 sample_layers 500 layer_selector_default) =
     Some (lo_layer opt) \<and> (lo_minimum_bitrate_bps opt \<le> 500 \<or>
       (\<forall>other\<in>set sample_layers. lo_minimum_bitrate_bps opt \<le> lo_minimum_bitrate_bps other))"
proof -
  obtain res s' where s: "select_layer (sort_key lo_minimum_bitrate_bps) 0 sample_layers 500 layer_selector_default = (res, s')"
    by fastforce
  have "sample_layers \<noteq> []" "\<forall>opt\<in>set sample_layers. lo_minimum_bitrate_bps opt \<noteq> - 1"
    by (simp_all add: sample_layers_def)
  from selected_layer_affordable [OF sorts_sort_key this s] s show ?thesis by simp
qed

lemma upgrade_held_back_witness:
  "\<exists>pre first mid. [(0, sample_layers, 500), (1, sample_layers, 2000)] = pre @ first # mid \<and>
     3000000000 - fst first \<ge> 2000000000 \<and>
     demands (sort_key lo_minimum_bitrate_bps) \<lparr>ly_spatial = 1, ly_temporal = 0\<rparr> first"
proof -
  let ?srt = "sort_key lo_minimum_bitrate_bps"
  let ?calls = "[(0, sample_layers, 500), (1, sample_layers, 2000)] :: select_call list"
  define s where "s = ls_run ?srt ?calls layer_selector_default"
  have s: "s = layer_selector_default\<lparr>ls_current := Some \<lparr>ly_spatial = 0, ly_temporal = 0\<rparr>,
      ls_upgrade_candidate := Some (\<lparr>ly_spatial = 1, ly_temporal = 0\<rparr>, 1)\<rparr>"
    by (simp add: s_def select_eval sample_layers_sorted)
  have sel: "\<exists>s'. select_layer ?srt 3000000000 sample_layers 2000 s = (Some \<lparr>ly_spatial = 1, ly_temporal = 0\<rparr>, s')"
    by (simp add: s select_eval sample_layers_sorted)
  then obtain s' where sel: "select_layer ?srt 3000000000 sample_layers 2000 s = (Some \<lparr>ly_spatial = 1, ly_temporal = 0\<rparr>, s')"
    by blast
  have "ls_current s = Some \<lparr>ly_spatial = 0, ly_temporal = 0\<rparr>"
    "layer_rate (?srt sample_layers) \<lparr>ly_spatial = 0, ly_temporal = 0\<rparr> = Some 100"
    by (simp_all add: s layer_rate_def sample_layers_sorted)
  note base = upgrade_held_back [OF sorts_sort_key s_def this sel]
  have "\<lparr>ly_spatial = 1, ly_temporal = 0\<rparr> \<noteq> (\<lparr>ly_spatial = 0, ly_temporal = 0\<rparr> :: layer)"
    "\<exists>opt\<in>set sample_layers. lo_layer opt = \<lparr>ly_spatial = 1, ly_temporal = 0\<rparr> \<and> 100 < lo_minimum_bitrate_bps opt"
    "\<forall>opt\<in>set sample_layers. lo_layer opt = \<lparr>ly_spatial = 1, ly_temporal = 0\<rparr> \<longrightarrow> 100 < lo_minimum_bitrate_bps opt"
    by (simp_all add: sample_layers_def)
  from base [OF this] show ?thesis by (elim exE conjE) (intro exI conjI, assumption+)
qed

end
