(* ===== verification/Sctp_Wire.thy ===== *)
theory Sctp_Wire
  imports Fluvora_Prelude
begin

text \<open>
  The wire format of the SCTP implementation in \<open>crates/webrtc/data-channel/src/lib.rs\<close>: the
  CRC32C checksum, packets with their chunks, and chunk parameters. \<open>(n + 3) & !3\<close> is
  \<open>round_up4\<close>. Shown: a packet that is built is read back, every change of a single byte is
  detected by the checksum, and a list of parameters is read back.
\<close>

section \<open>Errors and constants\<close>

datatype data_channel_error =
    InvalidConfiguration | MalformedPacket | InvalidChecksum | UnexpectedPort | MalformedChunk
  | InvalidVerificationTag | UnexpectedState | InvalidCookie | ReceiveWindowExceeded
  | InvalidFragmentSequence | InvalidDcep | InvalidUtf8 | MessageTooLarge | UnsupportedPpid u32
  | UnknownChannel | AssociationNotEstablished | SendWindowFull

definition COMMON_HEADER_LEN :: nat where "COMMON_HEADER_LEN = 12"
definition CHUNK_HEADER_LEN :: nat where "CHUNK_HEADER_LEN = 4"

lemmas header_lens = COMMON_HEADER_LEN_def CHUNK_HEADER_LEN_def

definition round_up4 :: "nat \<Rightarrow> nat" where
  "round_up4 n = (n + 3) div 4 * 4"

section \<open>Readers\<close>

definition sctp_read_u16 :: "bytes \<Rightarrow> nat \<Rightarrow> (data_channel_error, u16) result" where
  "sctp_read_u16 = read_be MalformedPacket"

definition sctp_read_u32 :: "bytes \<Rightarrow> nat \<Rightarrow> (data_channel_error, u32) result" where
  "sctp_read_u32 = read_be MalformedPacket"

definition read_u32_le :: "bytes \<Rightarrow> nat \<Rightarrow> (data_channel_error, u32) result" where
  "read_u32_le input offset =
     bind_r (ok_or MalformedPacket (get_range input offset (offset + 4))) (\<lambda>bs. Inr (from_be (rev bs)))"

definition to_le :: "u32 \<Rightarrow> bytes" where
  "to_le w = rev (to_be w)"

section \<open>Checksum\<close>

definition crc_bit :: "u32 \<Rightarrow> u32" where
  "crc_bit crc = drop_bit 1 crc XOR (0x82f63b78 AND (0 - (crc AND 1)))"

definition crc_byte :: "u32 \<Rightarrow> u8 \<Rightarrow> u32" where
  "crc_byte crc byte = (crc_bit ^^ 8) (crc XOR ucast byte)"

fun crc_from :: "nat \<Rightarrow> u32 \<Rightarrow> bytes \<Rightarrow> u32" where
  "crc_from index crc [] = crc"
| "crc_from index crc (supplied # rest) =
     crc_from (index + 1) (crc_byte crc (if 8 \<le> index \<and> index < 12 then 0 else supplied)) rest"

definition checksum :: "bytes \<Rightarrow> u32" where
  "checksum input = NOT (crc_from 0 (- 1) input)"

section \<open>Packets\<close>

record parsed_chunk =
  pc_kind :: u8
  pc_flags :: u8
  pc_value :: bytes

record parsed_packet =
  pk_source_port :: u16
  pk_destination_port :: u16
  pk_verification_tag :: u32
  pk_chunks :: "parsed_chunk list"

lemma round_up4_ge: "n \<le> round_up4 n"
  unfolding round_up4_def by linarith

function parse_chunks :: "bytes \<Rightarrow> nat \<Rightarrow> (data_channel_error, parsed_chunk list) result" where
  "parse_chunks input offset =
     (if offset < length input then
        if length input - offset < CHUNK_HEADER_LEN then Inl MalformedChunk
        else bind_r (sctp_read_u16 input (offset + 2)) (\<lambda>l.
          if unat l < CHUNK_HEADER_LEN \<or> unat l > length input - offset then Inl MalformedChunk
          else
            let following = offset + round_up4 (unat l) in
            if following > length input then Inl MalformedChunk
            else bind_r (parse_chunks input following) (\<lambda>rest.
              Inr (\<lparr>pc_kind = input ! offset, pc_flags = input ! (offset + 1),
                    pc_value = take (unat l - 4) (drop (offset + 4) input)\<rparr> # rest)))
      else Inr [])"
  by pat_completeness auto
termination
proof (relation "measure (\<lambda>(input, offset). length input - offset)", simp, goal_cases)
  case (1 input offset l following)
  then have "4 \<le> unat l" "offset + unat l \<le> length input" by (auto simp: header_lens)
  with round_up4_ge [of "unat l"] 1 show ?case by simp
qed

declare parse_chunks.simps [simp del]

definition sctp_parse :: "bytes \<Rightarrow> (data_channel_error, parsed_packet) result" where
  "sctp_parse input =
     (if \<not> (COMMON_HEADER_LEN + CHUNK_HEADER_LEN \<le> length input \<and> length input \<le> 65535)
      then Inl MalformedPacket
      else bind_r (read_u32_le input 8) (\<lambda>expected_checksum.
        if checksum input \<noteq> expected_checksum then Inl InvalidChecksum
        else bind_r (parse_chunks input COMMON_HEADER_LEN) (\<lambda>chunks.
          if chunks = [] then Inl MalformedPacket
          else bind_r (sctp_read_u16 input 0) (\<lambda>source_port.
            bind_r (sctp_read_u16 input 2) (\<lambda>destination_port.
            bind_r (sctp_read_u32 input 4) (\<lambda>verification_tag.
              Inr \<lparr>pk_source_port = source_port, pk_destination_port = destination_port,
                   pk_verification_tag = verification_tag, pk_chunks = chunks\<rparr>))))))"

definition build_packet :: "u16 \<Rightarrow> u16 \<Rightarrow> u32 \<Rightarrow> u8 \<Rightarrow> u8 \<Rightarrow> bytes \<Rightarrow> (data_channel_error, bytes) result" where
  "build_packet source_port destination_port verification_tag kind flags value =
     (let chunk_length = CHUNK_HEADER_LEN + length value in
      if chunk_length > 65535 then Inl MessageTooLarge
      else
        let padded_length = round_up4 chunk_length;
            packet_length = COMMON_HEADER_LEN + padded_length in
        if packet_length > 65535 then Inl MessageTooLarge
        else
          let packet = to_be source_port @ to_be destination_port @ to_be verification_tag @
                [0, 0, 0, 0, kind, flags] @ to_be (word_of_nat chunk_length :: u16) @ value @
                replicate (padded_length - chunk_length) 0
          in Inr (take 8 packet @ to_le (checksum packet) @ drop 12 packet))"

section \<open>Parameters\<close>

record parameter =
  pa_kind :: u16
  pa_value :: bytes

definition push_parameter :: "bytes \<Rightarrow> u16 \<Rightarrow> bytes \<Rightarrow> (data_channel_error, bytes) result" where
  "push_parameter output kind value =
     (let len = 4 + length value in
      if len > 65535 then Inl MessageTooLarge
      else Inr (output @ to_be kind @ to_be (word_of_nat len :: u16) @ value @
             replicate ((4 - len mod 4) mod 4) 0))"

function parse_parameters_at :: "bytes \<Rightarrow> nat \<Rightarrow> (data_channel_error, parameter list) result" where
  "parse_parameters_at input offset =
     (if offset < length input then
        if length input - offset < 4 then Inl MalformedChunk
        else bind_r (sctp_read_u16 input offset) (\<lambda>kind.
          bind_r (sctp_read_u16 input (offset + 2)) (\<lambda>l.
          if unat l < 4 \<or> offset + unat l > length input then Inl MalformedChunk
          else
            let p = \<lparr>pa_kind = kind, pa_value = take (unat l - 4) (drop (offset + 4) input)\<rparr> in
            if offset + unat l = length input then Inr [p]
            else bind_r (parse_parameters_at input (offset + round_up4 (unat l))) (\<lambda>rest. Inr (p # rest))))
      else if offset \<noteq> length input then Inl MalformedChunk else Inr [])"
  by pat_completeness auto
termination
proof (relation "measure (\<lambda>(input, offset). length input - offset)", simp, goal_cases)
  case (1 input offset kind l p)
  then have "4 \<le> unat l" "offset + unat l \<le> length input" by auto
  with round_up4_ge [of "unat l"] show ?case by simp
qed

declare parse_parameters_at.simps [simp del]

definition parse_parameters :: "bytes \<Rightarrow> (data_channel_error, parameter list) result" where
  "parse_parameters input = parse_parameters_at input 0"

fun chunks_exact2 :: "bytes \<Rightarrow> u16 list" where
  "chunks_exact2 (a # b # rest) = from_be [a, b] # chunks_exact2 rest"
| "chunks_exact2 _ = []"

definition parse_stream_numbers :: "bytes \<Rightarrow> u16 \<Rightarrow> (data_channel_error, u16 list option) result" where
  "parse_stream_numbers input stream_limit =
     (if input = [] then Inr None
      else if length input mod 2 \<noteq> 0 then Inl MalformedChunk
      else let streams = chunks_exact2 input in
        if \<exists>stream\<in>set streams. stream \<ge> stream_limit then Inl MalformedChunk
        else Inr (Some streams))"

section \<open>Sequence numbers\<close>

definition sequence_less_or_equal :: "u32 \<Rightarrow> u32 \<Rightarrow> bool" where
  "sequence_less_or_equal candidate reference \<longleftrightarrow> reference - candidate < 2147483648"

definition sequence_less_or_equal_u16 :: "u16 \<Rightarrow> u16 \<Rightarrow> bool" where
  "sequence_less_or_equal_u16 candidate reference \<longleftrightarrow> reference - candidate < 32768"

definition constant_time_equal :: "bytes \<Rightarrow> bytes \<Rightarrow> bool" where
  "constant_time_equal left right \<longleftrightarrow>
     (if length left \<noteq> length right then False
      else foldl (\<lambda>difference (l, r). difference OR (l XOR r)) 0 (zip left right) = 0)"


section \<open>The checksum detects every change of one byte\<close>

lemma bit_crc_bit_top: "bit (crc_bit x) 31 = bit x 0"
proof -
  have p: "bit (0x82f63b78 :: u32) 31" by (simp add: bit_numeral_rec)
  have "bit (- (x AND 1)) 31 = bit x 0"
    by (cases "bit x 0") (simp_all add: and_one_eq bit_0 mod2_eq_if)
  moreover have "\<not> bit (drop_bit 1 x) 31"
    using bit_imp_le_length [of x 32] by (auto simp: bit_drop_bit_eq)
  ultimately show ?thesis using p by (simp add: crc_bit_def bit_simps)
qed

lemma inj_crc_bit: "crc_bit x = crc_bit y \<longleftrightarrow> x = y"
proof
  assume eq: "crc_bit x = crc_bit y"
  then have b: "bit x 0 = bit y 0" using bit_crc_bit_top by metis
  then have a: "x AND 1 = y AND 1" by (simp add: and_one_eq bit_0 mod2_eq_if)
  have "drop_bit 1 x = crc_bit x XOR (0x82f63b78 AND (0 - (x AND 1)))"
    by (simp add: crc_bit_def xor.assoc)
  also have "\<dots> = crc_bit y XOR (0x82f63b78 AND (0 - (y AND 1)))" by (simp only: eq a)
  also have "\<dots> = drop_bit 1 y" by (simp add: crc_bit_def xor.assoc)
  finally have d: "drop_bit 1 x = drop_bit 1 y" .
  show "x = y"
  proof (rule bit_word_eqI)
    fix n
    show "bit x n = bit y n"
    proof (cases n)
      case (Suc m)
      from d have "bit (drop_bit 1 x) m = bit (drop_bit 1 y) m" by simp
      with Suc show ?thesis by (simp add: bit_drop_bit_eq)
    qed (simp add: b)
  qed
qed simp

lemma inj_crc_bits: "(crc_bit ^^ n) x = (crc_bit ^^ n) y \<longleftrightarrow> x = y"
  by (induction n) (simp_all add: inj_crc_bit)

lemma xor_cancel: "c XOR z = d XOR z \<longleftrightarrow> c = d" "z XOR c = z XOR d \<longleftrightarrow> c = d" for c d z :: "'a::len word"
  by (metis xor.assoc xor_self_eq xor.right_neutral) (metis xor.assoc xor_self_eq xor.left_neutral)

lemma inj_crc_byte: "crc_byte c b = crc_byte d b \<longleftrightarrow> c = d"
  by (simp add: crc_byte_def inj_crc_bits xor_cancel)

lemma inj_crc_byte2: "crc_byte c a = crc_byte c b \<longleftrightarrow> a = b"
proof -
  have "c XOR ucast a = c XOR ucast b \<longleftrightarrow> (ucast a :: u32) = ucast b" by (rule xor_cancel)
  also have "\<dots> \<longleftrightarrow> a = b"
  proof
    assume "(ucast a :: u32) = ucast b"
    then have "unat (ucast a :: u32) = unat (ucast b :: u32)" by simp
    then show "a = b" by (simp add: unat_ucast_up unsigned_word_eqI)
  qed simp
  finally show ?thesis by (simp add: crc_byte_def inj_crc_bits)
qed

lemma crc_from_append: "crc_from i c (xs @ ys) = crc_from (i + length xs) (crc_from i c xs) ys"
  by (induction xs arbitrary: i c) simp_all

lemma inj_crc_from: "crc_from i c xs = crc_from i d xs \<longleftrightarrow> c = d"
  by (induction xs arbitrary: i c d) (simp_all add: inj_crc_byte)

lemma checksum_change:
  assumes "i < length xs" and "\<not> (8 \<le> i \<and> i < 12)" and "b \<noteq> xs ! i"
  shows "checksum (xs[i := b]) \<noteq> checksum xs"
proof -
  let ?pre = "take i xs" and ?post = "drop (Suc i) xs"
  have "crc_from 0 (- 1) (xs[i := b]) = crc_from (i + 1) (crc_byte (crc_from 0 (- 1) ?pre) b) ?post"
    using assms by (auto simp: upd_conv_take_nth_drop crc_from_append)
  moreover have "crc_from 0 (- 1) xs = crc_from (i + 1) (crc_byte (crc_from 0 (- 1) ?pre) (xs ! i)) ?post"
    using assms(1,2) by (subst id_take_nth_drop [OF assms(1)]) (auto simp: crc_from_append)
  ultimately show ?thesis using assms(3) by (simp add: checksum_def inj_crc_from inj_crc_byte2)
qed

lemma checksum_field:
  assumes "length a = 8" and "length z = 4"
  shows "checksum (a @ z @ r) = checksum (a @ [0, 0, 0, 0] @ r)"
proof -
  from assms(2) obtain z0 z1 z2 z3 where "z = [z0, z1, z2, z3]"
    by (auto simp: length_Suc_conv numeral_eq_Suc)
  with assms(1) show ?thesis by (simp add: checksum_def crc_from_append)
qed


section \<open>Packets are read back\<close>

lemma round_up4_pad: "round_up4 n = n + pad4 n"
proof -
  have "n = 4 * (n div 4) + n mod 4" by simp
  with pad4_cases [of n] show ?thesis unfolding round_up4_def by (elim disjE conjE; simp; presburger)
qed

lemma length_to_le [simp]: "length (to_le w) = 4"
  by (simp add: to_le_def)

lemma read_u32_le_at: "length pre = offset \<Longrightarrow> read_u32_le (pre @ to_le w @ post) offset = Inr w"
  by (simp add: read_u32_le_def get_range_def to_le_def)

lemma build_packet_layout:
  assumes "build_packet source_port destination_port tag kind flags value = Inr p"
  obtains c where "p = (to_be source_port @ to_be destination_port @ to_be tag) @ to_le c @
      [kind, flags] @ to_be (word_of_nat (4 + length value) :: u16) @ value @ replicate (pad4 (4 + length value)) 0"
    and "checksum p = c" and "16 + length value + pad4 (4 + length value) \<le> 65535"
proof -
  let ?h = "to_be source_port @ to_be destination_port @ to_be tag"
  let ?r = "[kind, flags] @ to_be (word_of_nat (4 + length value) :: u16) @ value @ replicate (pad4 (4 + length value)) 0"
  let ?c = "checksum (?h @ [0, 0, 0, 0] @ ?r)"
  have h: "length ?h = 8" by simp
  have fits: "16 + length value + pad4 (4 + length value) \<le> 65535"
    using assms by (auto simp: build_packet_def Let_def header_lens round_up4_pad split: if_splits)
  have "p = take 8 (?h @ [0, 0, 0, 0] @ ?r) @ to_le ?c @ drop 12 (?h @ [0, 0, 0, 0] @ ?r)"
    using assms by (auto simp: build_packet_def Let_def header_lens round_up4_pad split: if_splits)
  then have p: "p = ?h @ to_le ?c @ ?r" by simp
  from checksum_field [OF h, of "to_le ?c" ?r] have "checksum p = ?c" unfolding p by simp
  from that [OF p this fits] show thesis .
qed

lemma unat_chunk_length: "n \<le> 65535 \<Longrightarrow> unat (word_of_nat n :: u16) = n"
  by (rule unat_word_of_nat_less) simp

lemma parse_chunks_single:
  assumes "length h = offset" and "unat (l :: u16) = 4 + length value"
    and p: "p = h @ [kind, flags] @ to_be l @ value @ replicate (pad4 (4 + length value)) 0"
  shows "parse_chunks p offset = Inr [\<lparr>pc_kind = kind, pc_flags = flags, pc_value = value\<rparr>]"
proof -
  have len: "length p = offset + (4 + length value + pad4 (4 + length value))" using assms(1) by (simp add: p)
  have "sctp_read_u16 p (offset + 2) = Inr l"
    using assms(1) by (simp add: p sctp_read_u16_def wire_reads)
  moreover have "take (length value) (drop (offset + 4) p) = value"
    using assms(1) by (simp add: p)
  moreover have "p ! offset = kind" "p ! (offset + 1) = flags"
    using assms(1) by (simp_all add: p nth_append)
  moreover have "parse_chunks p (length p) = Inr []" by (simp add: parse_chunks.simps)
  ultimately show ?thesis
    by (subst parse_chunks.simps) (simp add: assms(2) len header_lens round_up4_pad Let_def)
qed

lemma sctp_build_parse:
  assumes "build_packet source_port destination_port tag kind flags value = Inr p"
  shows "sctp_parse p = Inr \<lparr>pk_source_port = source_port, pk_destination_port = destination_port,
    pk_verification_tag = tag, pk_chunks = [\<lparr>pc_kind = kind, pc_flags = flags, pc_value = value\<rparr>]\<rparr>"
proof -
  let ?h = "to_be source_port @ to_be destination_port @ to_be tag"
  let ?r = "[kind, flags] @ to_be (word_of_nat (4 + length value) :: u16) @ value @ replicate (pad4 (4 + length value)) 0"
  from build_packet_layout [OF assms] obtain c where p: "p = ?h @ to_le c @ ?r" and c: "checksum p = c"
    and fits: "16 + length value + pad4 (4 + length value) \<le> 65535" .
  have l: "unat (word_of_nat (4 + length value) :: u16) = 4 + length value"
    using fits by (intro unat_chunk_length) simp
  have "read_u32_le p 8 = Inr c" unfolding p by (rule read_u32_le_at) simp
  moreover have "parse_chunks p 12 = Inr [\<lparr>pc_kind = kind, pc_flags = flags, pc_value = value\<rparr>]"
    by (rule parse_chunks_single [where h = "?h @ to_le c", OF _ l]) (simp_all add: p)
  moreover have "sctp_read_u16 p 0 = Inr source_port" "sctp_read_u16 p 2 = Inr destination_port"
    "sctp_read_u32 p 4 = Inr tag" unfolding p
    by (simp_all add: sctp_read_u16_def sctp_read_u32_def wire_reads)
  moreover have "16 \<le> length p" "length p \<le> 65535" using fits by (simp_all add: p)
  ultimately show ?thesis by (simp add: sctp_parse_def header_lens c)
qed

lemma parse_checksum:
  assumes "sctp_parse p = Inr parsed"
  shows "16 \<le> length p" and "length p \<le> 65535" and "read_u32_le p 8 = Inr (checksum p)"
  using assms by (auto simp: sctp_parse_def header_lens result_simps split: if_splits)

lemma read_u32_le_Inr:
  "12 \<le> length p \<Longrightarrow> read_u32_le p 8 = Inr w \<longleftrightarrow> take 4 (drop 8 p) = to_le w"
proof -
  assume "12 \<le> length p"
  then have "read_u32_le p 8 = Inr (from_be (rev (take 4 (drop 8 p))))" "length (rev (take 4 (drop 8 p))) = 4"
    by (simp_all add: read_u32_le_def get_range_def)
  then show ?thesis
    by (metis Inr_inject be32.dec_enc be32.enc_dec rev_swap to_le_def)
qed

lemma checksum_agree:
  assumes "12 \<le> length xs" and "length ys = length xs" and "take 8 ys = take 8 xs" and "drop 12 ys = drop 12 xs"
  shows "checksum ys = checksum xs"
proof -
  have split: "zs = take 8 zs @ take 4 (drop 8 zs) @ drop 12 zs" for zs :: bytes
    using drop_split [of 8 zs 4] by simp
  have field: "checksum zs = checksum (take 8 zs @ [0, 0, 0, 0] @ drop 12 zs)" if "12 \<le> length zs" for zs
    using checksum_field [of "take 8 zs" "take 4 (drop 8 zs)" "drop 12 zs"] split [of zs] that by simp
  from field [of xs] field [of ys] assms show ?thesis by simp
qed

lemma corruption_detected:
  assumes "sctp_parse p = Inr parsed" and "i < length p" and "b \<noteq> p ! i"
  shows "sctp_parse (p[i := b]) = Inl InvalidChecksum"
proof -
  note ok = parse_checksum [OF assms(1)]
  let ?q = "p[i := b]"
  have len: "12 \<le> length p" "12 \<le> length ?q" using ok(1) by simp_all
  obtain w where w: "read_u32_le ?q 8 = Inr w"
    using len(2) by (simp add: read_u32_le_def get_range_def)
  have field: "take 4 (drop 8 p) = to_le (checksum p)" "take 4 (drop 8 ?q) = to_le w"
    using read_u32_le_Inr len ok(3) w by blast+
  have "checksum ?q \<noteq> w"
  proof (cases "8 \<le> i \<and> i < 12")
    case True
    have cs: "checksum ?q = checksum p" using len(1) True by (intro checksum_agree) simp_all
    obtain j where "i = 8 + j" using True le_Suc_ex by blast
    with True assms(2,3) have "take 4 (drop 8 ?q) ! j \<noteq> take 4 (drop 8 p) ! j" by simp
    with field have "w \<noteq> checksum p" by metis
    with cs show ?thesis by simp
  next
    case False
    then have "take 4 (drop 8 ?q) = take 4 (drop 8 p)" by (auto simp: list_eq_iff_nth_eq nth_list_update)
    with field have "to_le w = to_le (checksum p)" by simp
    then have "w = checksum p" by (simp add: to_le_def be32.enc_inj)
    with checksum_change [OF assms(2) False assms(3)] show ?thesis by simp
  qed
  with w ok(1,2) show ?thesis by (simp add: sctp_parse_def header_lens)
qed


section \<open>Parameters are read back\<close>

definition parameter_bytes :: "parameter \<Rightarrow> bytes" where
  "parameter_bytes p = to_be (pa_kind p) @ to_be (word_of_nat (4 + length (pa_value p)) :: u16) @ pa_value p @
     replicate (pad4 (4 + length (pa_value p))) 0"

lemma push_parameter_Inr:
  "push_parameter output kind value = Inr output' \<longleftrightarrow>
     4 + length value \<le> 65535 \<and> output' = output @ parameter_bytes \<lparr>pa_kind = kind, pa_value = value\<rparr>"
  by (auto simp: push_parameter_def parameter_bytes_def Let_def pad4_def)

lemma parse_parameters_step:
  assumes "length pre = offset" and "unat (l :: u16) = 4 + length value"
    and p: "p = pre @ to_be kind @ to_be l @ value @ replicate (pad4 (4 + length value)) 0 @ rest"
  shows "parse_parameters_at p offset = bind_r (parse_parameters_at p (offset + (4 + length value + pad4 (4 + length value))))
    (\<lambda>ps. Inr (\<lparr>pa_kind = kind, pa_value = value\<rparr> # ps))"
proof -
  have len: "length p = offset + (4 + length value + pad4 (4 + length value)) + length rest"
    using assms(1) by (simp add: p)
  have reads: "sctp_read_u16 p offset = Inr kind" "sctp_read_u16 p (offset + 2) = Inr l"
    using assms(1) by (simp_all add: p sctp_read_u16_def wire_reads)
  have val: "take (length value) (drop (offset + 4) p) = value" using assms(1) by (simp add: p)
  show ?thesis
  proof (cases "offset + unat l = length p")
    case True
    then have stop: "offset + (4 + length value + pad4 (4 + length value)) = length p"
      "offset + (4 + length value) = length p" using len by (simp_all add: assms(2))
    have last: "parse_parameters_at p (length p) = Inr []" by (simp add: parse_parameters_at.simps)
    have "parse_parameters_at p offset = Inr [\<lparr>pa_kind = kind, pa_value = value\<rparr>]" using reads val
      by (subst parse_parameters_at.simps) (simp add: assms(2) stop(2) [symmetric] Let_def)
    then show ?thesis unfolding stop(1) last by simp
  next
    case False
    then show ?thesis using reads val
      by (subst parse_parameters_at.simps) (auto simp: assms(2) len Let_def round_up4_pad)
  qed
qed

text \<open>A parameter list may end with a parameter that is not padded, the padding being that of the chunk.\<close>

fun last_parameter_bytes :: "parameter option \<Rightarrow> bytes" where
  "last_parameter_bytes None = []"
| "last_parameter_bytes (Some p) =
     to_be (pa_kind p) @ to_be (word_of_nat (4 + length (pa_value p)) :: u16) @ pa_value p"

fun parameter_list :: "parameter list \<Rightarrow> parameter option \<Rightarrow> parameter list" where
  "parameter_list ps None = ps"
| "parameter_list ps (Some p) = ps @ [p]"

lemma parameter_list_Cons: "parameter_list (p # ps) final = p # parameter_list ps final"
  by (cases final) simp_all

lemma unat_parameter_length:
  "4 + length v \<le> 65535 \<Longrightarrow> unat (word_of_nat (4 + length v) :: u16) = 4 + length v"
  by (intro unat_chunk_length) simp

lemma parse_last_parameter:
  assumes "\<forall>p\<in>set_option final. 4 + length (pa_value p) \<le> 65535"
  shows "parse_parameters_at (pre @ last_parameter_bytes final) (length pre) = Inr (parameter_list [] final)"
proof (cases final)
  case None
  then show ?thesis by (simp add: parse_parameters_at.simps)
next
  case (Some q)
  define p where "p = pre @ last_parameter_bytes final"
  note l = unat_parameter_length [of "pa_value q"]
  have "sctp_read_u16 p (length pre) = Inr (pa_kind q)"
    "sctp_read_u16 p (length pre + 2) = Inr (word_of_nat (4 + length (pa_value q)))"
    by (simp_all add: p_def Some sctp_read_u16_def wire_reads)
  moreover have "length p = length pre + (4 + length (pa_value q))"
    "take (length (pa_value q)) (drop (length pre + 4) p) = pa_value q" by (simp_all add: p_def Some)
  ultimately have "parse_parameters_at p (length pre) = Inr [q]"
    using l assms Some by (subst parse_parameters_at.simps) (simp add: Let_def)
  then show ?thesis by (simp add: p_def Some)
qed

lemma parse_parameters_tail:
  assumes "\<forall>p\<in>set ps. 4 + length (pa_value p) \<le> 65535"
    and "\<forall>p\<in>set_option final. 4 + length (pa_value p) \<le> 65535" and "length pre = offset"
  shows "parse_parameters_at (pre @ concat (map parameter_bytes ps) @ last_parameter_bytes final) offset =
    Inr (parameter_list ps final)"
  using assms
proof (induction ps arbitrary: pre offset)
  case Nil
  then show ?case using parse_last_parameter [of final pre] by simp
next
  case (Cons p ps)
  note l = unat_parameter_length [of "pa_value p"]
  let ?tail = "concat (map parameter_bytes ps) @ last_parameter_bytes final"
  have eq: "pre @ concat (map parameter_bytes (p # ps)) @ last_parameter_bytes final =
      (pre @ parameter_bytes p) @ ?tail" by simp
  have "length (pre @ parameter_bytes p) = offset + (4 + length (pa_value p) + pad4 (4 + length (pa_value p)))"
    using Cons.prems(3) by (simp add: parameter_bytes_def)
  from Cons.IH [OF _ _ this] Cons.prems(1,2)
  have "parse_parameters_at ((pre @ parameter_bytes p) @ ?tail)
      (offset + (4 + length (pa_value p) + pad4 (4 + length (pa_value p)))) = Inr (parameter_list ps final)" by simp
  moreover have "parse_parameters_at ((pre @ parameter_bytes p) @ ?tail) offset =
      bind_r (parse_parameters_at ((pre @ parameter_bytes p) @ ?tail)
        (offset + (4 + length (pa_value p) + pad4 (4 + length (pa_value p)))))
        (\<lambda>qs. Inr (\<lparr>pa_kind = pa_kind p, pa_value = pa_value p\<rparr> # qs))"
    by (rule parse_parameters_step [OF Cons.prems(3) l]) (use Cons.prems(1) in \<open>simp_all add: parameter_bytes_def [of p]\<close>)
  ultimately show ?case unfolding eq by (simp add: parameter_list_Cons)
qed

lemma parse_parameters_roundtrip:
  assumes "\<forall>p\<in>set ps. 4 + length (pa_value p) \<le> 65535" and "length pre = offset"
  shows "parse_parameters_at (pre @ concat (map parameter_bytes ps)) offset = Inr ps"
  using parse_parameters_tail [of ps None, OF assms(1) _ assms(2)] by simp


section \<open>Integrity of packets\<close>

text \<open>C28. A packet that is built is parsed back to its ports, verification tag and chunk, and whatever
  single byte of it is changed on the way, checksum field included, the parser reports a checksum
  error.\<close>

theorem sctp_packet_integrity:
  assumes "build_packet source_port destination_port tag kind flags value = Inr p"
  shows "sctp_parse p = Inr \<lparr>pk_source_port = source_port, pk_destination_port = destination_port,
      pk_verification_tag = tag, pk_chunks = [\<lparr>pc_kind = kind, pc_flags = flags, pc_value = value\<rparr>]\<rparr> \<and>
    (\<forall>i b. i < length p \<longrightarrow> b \<noteq> p ! i \<longrightarrow> sctp_parse (p[i := b]) = Inl InvalidChecksum)"
  using sctp_build_parse [OF assms] corruption_detected by blast

theorem sctp_packet_integrity_witness:
  "\<exists>p. build_packet 5000 5000 1 11 0 [] = Inr p \<and> length p = 16 \<and>
     sctp_parse (p[12 := 12]) = Inl InvalidChecksum"
proof -
  obtain p where p: "build_packet 5000 5000 1 11 0 [] = Inr p"
    by (simp add: build_packet_def Let_def header_lens round_up4_def)
  from build_packet_layout [OF p] obtain c where l: "p = (to_be (5000 :: u16) @ to_be (5000 :: u16) @ to_be (1 :: u32)) @ to_le c @
      [11, 0] @ to_be (word_of_nat (4 + length ([] :: bytes)) :: u16) @ [] @ replicate (pad4 (4 + length ([] :: bytes))) 0"
    .
  have "length p = 16" "p ! 12 = 11" unfolding l by (simp_all add: nth_append pad4_def)
  with sctp_packet_integrity [OF p] p show ?thesis by simp
qed

end
