(* ===== verification/Utf8.thy ===== *)
theory Utf8
  imports Fluvora_Prelude
begin

text \<open>
  \<open>std::str::from_utf8\<close>: the well-formed byte sequences of UTF-8 (no overlong forms, no surrogates,
  nothing above U+10FFFF) and the scalar values they denote. Shown: decoding inverts encoding.
\<close>

definition is_continuation :: "u8 \<Rightarrow> bool" where
  "is_continuation b \<longleftrightarrow> 0x80 \<le> b \<and> b \<le> 0xBF"

definition cont_bits :: "u8 \<Rightarrow> nat" where
  "cont_bits b = unat b - 128"

fun from_utf8 :: "bytes \<Rightarrow> rust_string option" where
  "from_utf8 [] = Some []"
| "from_utf8 (b # bs) =
     (if b \<le> 0x7F then map_option (Cons (unat b)) (from_utf8 bs)
      else if 0xC2 \<le> b \<and> b \<le> 0xDF then
        (case bs of
           c1 # rest \<Rightarrow>
             if is_continuation c1
             then map_option (Cons ((unat b - 192) * 64 + cont_bits c1)) (from_utf8 rest)
             else None
         | [] \<Rightarrow> None)
      else if 0xE0 \<le> b \<and> b \<le> 0xEF then
        (case bs of
           c1 # c2 # rest \<Rightarrow>
             if is_continuation c1 \<and> is_continuation c2 \<and> (b = 0xE0 \<longrightarrow> 0xA0 \<le> c1) \<and> (b = 0xED \<longrightarrow> c1 \<le> 0x9F)
             then map_option (Cons ((unat b - 224) * 4096 + cont_bits c1 * 64 + cont_bits c2)) (from_utf8 rest)
             else None
         | _ \<Rightarrow> None)
      else if 0xF0 \<le> b \<and> b \<le> 0xF4 then
        (case bs of
           c1 # c2 # c3 # rest \<Rightarrow>
             if is_continuation c1 \<and> is_continuation c2 \<and> is_continuation c3 \<and>
                (b = 0xF0 \<longrightarrow> 0x90 \<le> c1) \<and> (b = 0xF4 \<longrightarrow> c1 \<le> 0x8F)
             then map_option (Cons ((unat b - 240) * 262144 + cont_bits c1 * 4096 + cont_bits c2 * 64 + cont_bits c3))
               (from_utf8 rest)
             else None
         | _ \<Rightarrow> None)
      else None)"

text \<open>A Unicode scalar value.\<close>

definition is_scalar :: "nat \<Rightarrow> bool" where
  "is_scalar c \<longleftrightarrow> c < 0xD800 \<or> (0xE000 \<le> c \<and> c < 0x110000)"

lemma byte_of_nat: "n < 256 \<Longrightarrow> unat (word_of_nat n :: u8) = n"
  by (rule unat_word_of_nat_less) simp

lemma byte_le: "n < 256 \<Longrightarrow> (numeral k \<le> (word_of_nat n :: u8)) = (unat (numeral k :: u8) \<le> n)"
  "n < 256 \<Longrightarrow> ((word_of_nat n :: u8) \<le> numeral k) = (n \<le> unat (numeral k :: u8))"
  "n < 256 \<Longrightarrow> ((word_of_nat n :: u8) = numeral k) = (n = unat (numeral k :: u8))"
  by (simp_all add: word_le_nat_alt word_unat_eq_iff unat_of_nat)

lemma continuation_bits:
  "n < 64 \<Longrightarrow> is_continuation (word_of_nat (128 + n)) \<and> cont_bits (word_of_nat (128 + n)) = n"
  by (simp add: is_continuation_def cont_bits_def byte_le byte_of_nat del: of_nat_add)

lemma from_utf8_char:
  assumes "is_scalar c"
  shows "from_utf8 (utf8_char c @ rest) = map_option (Cons c) (from_utf8 rest)"
proof -
  consider "c < 128" | "128 \<le> c" "c < 2048" | "2048 \<le> c" "c < 65536" | "65536 \<le> c" "c < 1114112"
    using assms unfolding is_scalar_def by linarith
  then show ?thesis
  proof cases
    case 1
    then show ?thesis by (simp add: utf8_char_def byte_le byte_of_nat)
  next
    case 2
    have "c div 64 * 64 + c mod 64 = c" by simp
    moreover have "2 \<le> c div 64" "c div 64 < 32" using 2 by linarith+
    ultimately show ?thesis using 2 continuation_bits [of "c mod 64"]
      by (simp add: utf8_char_def byte_le byte_of_nat del: of_nat_add)
  next
    case 3
    let ?m = "c div 64 mod 64"
    have d: "c div 4096 * 64 + ?m = c div 64" "c div 64 * 64 + c mod 64 = c"
      using div_mult2_eq [of c 64 64] by simp_all
    have m: "?m < 64" by simp
    have "c div 4096 * 4096 + ?m * 64 + c mod 64 = c" using d by linarith
    moreover have "c div 4096 < 16" using 3 by linarith
    moreover have "c div 4096 = 0 \<Longrightarrow> 32 \<le> ?m" using 3 d by linarith
    moreover have "c div 4096 = 13 \<Longrightarrow> ?m \<le> 31" using assms d m unfolding is_scalar_def by linarith
    ultimately show ?thesis using 3 continuation_bits [of "c mod 64"] continuation_bits [of ?m]
      by (simp add: utf8_char_def byte_le byte_of_nat del: of_nat_add)
  next
    case 4
    let ?m = "c div 64 mod 64" and ?k = "c div 4096 mod 64"
    have d: "c div 262144 * 64 + ?k = c div 4096" "c div 4096 * 64 + ?m = c div 64" "c div 64 * 64 + c mod 64 = c"
      using div_mult2_eq [of c 64 64] div_mult2_eq [of c 4096 64] by simp_all
    have k: "?k < 64" by simp
    have "c div 262144 * 262144 + ?k * 4096 + ?m * 64 + c mod 64 = c" using d by linarith
    moreover have "c div 262144 < 5" using 4 by linarith
    moreover have "c div 262144 = 0 \<Longrightarrow> 16 \<le> ?k" using 4 d by linarith
    moreover have "c div 262144 = 4 \<Longrightarrow> ?k \<le> 15" using 4 d by linarith
    ultimately show ?thesis using 4 continuation_bits [of "c mod 64"] continuation_bits [of ?m] continuation_bits [of ?k]
      by (simp add: utf8_char_def byte_le byte_of_nat del: of_nat_add)
  qed
qed

lemma from_utf8_str_bytes: "\<forall>c\<in>set s. is_scalar c \<Longrightarrow> from_utf8 (str_bytes s) = Some s"
  by (induction s) (simp_all add: str_bytes_def from_utf8_char)

end
