(* ===== verification/Sctp_Association.thy ===== *)
theory Sctp_Association
  imports Sctp_Wire Utf8
begin

text \<open>
  The SCTP association and the data-channel establishment protocol of
  \<open>crates/webrtc/data-channel/src/lib.rs\<close>. An operation on \<open>&mut self\<close> is a function from the
  association to a result and the association it leaves, also when it fails. The output a handler
  appends to is returned and concatenated by its caller. \<open>HashMap\<close> is an association list with
  distinct keys, \<open>BTreeMap\<close> one sorted by its keys; the order in which \<open>close_streams\<close> visits all
  channels is an argument.
\<close>

section \<open>Constants\<close>

definition TYPE_DATA :: u8 where "TYPE_DATA = 0"
definition TYPE_INIT :: u8 where "TYPE_INIT = 1"
definition TYPE_INIT_ACK :: u8 where "TYPE_INIT_ACK = 2"
definition TYPE_SACK :: u8 where "TYPE_SACK = 3"
definition TYPE_HEARTBEAT :: u8 where "TYPE_HEARTBEAT = 4"
definition TYPE_HEARTBEAT_ACK :: u8 where "TYPE_HEARTBEAT_ACK = 5"
definition TYPE_ABORT :: u8 where "TYPE_ABORT = 6"
definition TYPE_SHUTDOWN :: u8 where "TYPE_SHUTDOWN = 7"
definition TYPE_SHUTDOWN_ACK :: u8 where "TYPE_SHUTDOWN_ACK = 8"
definition TYPE_COOKIE_ECHO :: u8 where "TYPE_COOKIE_ECHO = 10"
definition TYPE_COOKIE_ACK :: u8 where "TYPE_COOKIE_ACK = 11"
definition TYPE_RE_CONFIG :: u8 where "TYPE_RE_CONFIG = 130"
definition TYPE_FORWARD_TSN :: u8 where "TYPE_FORWARD_TSN = 192"

lemmas chunk_types = TYPE_DATA_def TYPE_INIT_def TYPE_INIT_ACK_def TYPE_SACK_def TYPE_HEARTBEAT_def
  TYPE_HEARTBEAT_ACK_def TYPE_ABORT_def TYPE_SHUTDOWN_def TYPE_SHUTDOWN_ACK_def TYPE_COOKIE_ECHO_def
  TYPE_COOKIE_ACK_def TYPE_RE_CONFIG_def TYPE_FORWARD_TSN_def

definition PARAMETER_STATE_COOKIE :: u16 where "PARAMETER_STATE_COOKIE = 7"
definition PARAMETER_OUTGOING_RESET :: u16 where "PARAMETER_OUTGOING_RESET = 13"
definition PARAMETER_INCOMING_RESET :: u16 where "PARAMETER_INCOMING_RESET = 14"
definition PARAMETER_RECONFIG_RESPONSE :: u16 where "PARAMETER_RECONFIG_RESPONSE = 16"
definition PARAMETER_FORWARD_TSN_SUPPORTED :: u16 where "PARAMETER_FORWARD_TSN_SUPPORTED = 0xc000"
definition RECONFIG_SUCCESS_PERFORMED :: u32 where "RECONFIG_SUCCESS_PERFORMED = 1"
definition RECONFIG_ERROR_BAD_SEQUENCE :: u32 where "RECONFIG_ERROR_BAD_SEQUENCE = 5"

definition FLAG_DATA_END :: u8 where "FLAG_DATA_END = 1"
definition FLAG_DATA_BEGIN :: u8 where "FLAG_DATA_BEGIN = 2"
definition FLAG_DATA_UNORDERED :: u8 where "FLAG_DATA_UNORDERED = 4"

definition PPID_DCEP :: u32 where "PPID_DCEP = 50"
definition PPID_STRING :: u32 where "PPID_STRING = 51"
definition PPID_BINARY :: u32 where "PPID_BINARY = 53"
definition PPID_STRING_EMPTY :: u32 where "PPID_STRING_EMPTY = 56"
definition PPID_BINARY_EMPTY :: u32 where "PPID_BINARY_EMPTY = 57"

lemmas ppids = PPID_DCEP_def PPID_STRING_def PPID_BINARY_def PPID_STRING_EMPTY_def PPID_BINARY_EMPTY_def

definition DCEP_ACK :: u8 where "DCEP_ACK = 2"
definition DCEP_OPEN :: u8 where "DCEP_OPEN = 3"
definition DEFAULT_RECEIVE_WINDOW :: u32 where "DEFAULT_RECEIVE_WINDOW = 1048576"
definition MAX_DATA_PAYLOAD :: nat where "MAX_DATA_PAYLOAD = 1172"
definition MAX_PENDING_TSN :: nat where "MAX_PENDING_TSN = 1024"
definition MAX_OUTSTANDING :: nat where "MAX_OUTSTANDING = 256"
definition RETRANSMIT_AFTER :: duration where "RETRANSMIT_AFTER = 500000000"
definition MAX_RETRANSMISSIONS :: u32 where "MAX_RETRANSMISSIONS = 8"
definition MAX_PARTIAL_RETRANSMISSIONS :: u32 where "MAX_PARTIAL_RETRANSMISSIONS = 1024"
definition MAX_PARTIAL_LIFETIME :: duration where "MAX_PARTIAL_LIFETIME = 86400000000000"

section \<open>State\<close>

record association_config =
  ac_local_port :: u16
  ac_remote_port :: u16
  ac_verification_tag :: u32
  ac_initial_tsn :: u32
  ac_cookie :: bytes
  ac_maximum_channels :: nat
  ac_maximum_message_bytes :: nat

definition ac_validate :: "association_config \<Rightarrow> (data_channel_error, unit) result" where
  "ac_validate c =
     (if ac_local_port c = 0 \<or> ac_remote_port c = 0 \<or> ac_verification_tag c = 0 \<or>
         \<not> (16 \<le> length (ac_cookie c) \<and> length (ac_cookie c) \<le> 256) \<or>
         \<not> (1 \<le> ac_maximum_channels c \<and> ac_maximum_channels c \<le> 1024) \<or>
         \<not> (1 \<le> ac_maximum_message_bytes c \<and> ac_maximum_message_bytes c \<le> 256 * 1024)
      then Inl InvalidConfiguration else Inr ())"

datatype association_state = Listen | CookieWait | Established | Closed | Failed

datatype message_kind = Text | Binary

datatype channel_reliability = Reliable | MaxRetransmissions u32 | MaxPacketLifetime duration

datatype association_event =
    EventEstablished
  | ChannelOpened u16 rust_string rust_string bool channel_reliability
  | ChannelClosed u16
  | Message u16 message_kind bytes
  | EventClosed
  | DeliveryFailed u32
  | MessageAbandoned u16 u16

record association_output =
  ao_packets :: "bytes list"
  ao_events :: "association_event list"
  ao_retransmitted_packets :: u64

record channel =
  ch_ordered :: bool
  ch_reliability :: channel_reliability
  ch_next_outgoing_sequence :: u16

record data_chunk =
  dc_flags :: u8
  dc_tsn :: u32
  dc_stream_id :: u16
  dc_stream_sequence :: u16
  dc_ppid :: u32
  dc_payload :: bytes

record reassembly =
  ra_stream_sequence :: u16
  ra_ppid :: u32
  ra_payload :: bytes

record outstanding =
  ot_packet :: bytes
  ot_message_id :: u64
  ot_stream_id :: u16
  ot_stream_sequence :: u16
  ot_ordered :: bool
  ot_reliability :: channel_reliability
  ot_first_sent_at :: duration
  ot_sent_at :: duration
  ot_retransmissions :: u32

record abandoned =
  ab_stream_id :: u16
  ab_stream_sequence :: u16
  ab_ordered :: bool

record pending_forward_tsn =
  pf_new_cumulative_tsn :: u32
  pf_skipped_streams :: "(u16 \<times> u16) list"
  pf_sent_at :: duration

record outbound_message =
  om_stream_id :: u16
  om_stream_sequence :: u16
  om_ppid :: u32
  om_ordered :: bool
  om_reliability :: channel_reliability

type_synonym ('k, 'v) btree_map = "('k \<times> 'v) list"

record association =
  as_config :: association_config
  as_state :: association_state
  as_peer_verification_tag :: "u32 option"
  as_peer_initial_tsn :: "u32 option"
  as_cumulative_peer_tsn :: "u32 option"
  as_next_tsn :: u32
  as_outbound_cumulative_tsn :: u32
  as_next_message_id :: u64
  as_next_reconfig_sequence :: u32
  as_next_peer_reconfig_sequence :: "u32 option"
  as_peer_outbound_streams :: u16
  as_channels :: "(u16, channel) hash_map"
  as_pending_data :: "(u32, data_chunk) hash_map"
  as_reassembly :: "(u16, reassembly) hash_map"
  as_outstanding :: "(u32, outstanding) btree_map"
  as_abandoned :: "(u32, abandoned) btree_map"
  as_pending_forward_tsn :: "pending_forward_tsn option"
  as_peer_forward_tsn_supported :: bool

definition as_new :: "association_config \<Rightarrow> (data_channel_error, association) result" where
  "as_new config = bind_r (ac_validate config) (\<lambda>_.
     let first_tsn = ac_initial_tsn config in
     Inr \<lparr>as_config = config, as_state = Listen, as_peer_verification_tag = None,
       as_peer_initial_tsn = None, as_cumulative_peer_tsn = None, as_next_tsn = first_tsn,
       as_outbound_cumulative_tsn = first_tsn - 1, as_next_message_id = 0,
       as_next_reconfig_sequence = first_tsn, as_next_peer_reconfig_sequence = None,
       as_peer_outbound_streams = 0, as_channels = [], as_pending_data = [], as_reassembly = [],
       as_outstanding = [], as_abandoned = [], as_pending_forward_tsn = None,
       as_peer_forward_tsn_supported = False\<rparr>)"

section \<open>Sequencing\<close>

type_synonym 'a act = "association \<Rightarrow> (data_channel_error, 'a) result \<times> association"

definition ret_a :: "'a \<Rightarrow> 'a act" where "ret_a x s = (Inr x, s)"
definition lift_a :: "(data_channel_error, 'a) result \<Rightarrow> 'a act" where "lift_a r s = (r, s)"
definition read_a :: "(association \<Rightarrow> 'a) \<Rightarrow> 'a act" where "read_a f s = (Inr (f s), s)"
definition write_a :: "(association \<Rightarrow> association) \<Rightarrow> unit act" where "write_a f s = (Inr (), f s)"

definition bind_a :: "'a act \<Rightarrow> ('a \<Rightarrow> 'b act) \<Rightarrow> 'b act" where
  "bind_a m k s = (case m s of (Inl e, s') \<Rightarrow> (Inl e, s') | (Inr x, s') \<Rightarrow> k x s')"

definition no_output :: association_output where
  "no_output = \<lparr>ao_packets = [], ao_events = [], ao_retransmitted_packets = 0\<rparr>"

definition out_packet :: "bytes \<Rightarrow> association_output" where
  "out_packet p = no_output\<lparr>ao_packets := [p]\<rparr>"

definition out_event :: "association_event \<Rightarrow> association_output" where
  "out_event e = no_output\<lparr>ao_events := [e]\<rparr>"

definition out_append :: "association_output \<Rightarrow> association_output \<Rightarrow> association_output" where
  "out_append a b = \<lparr>ao_packets = ao_packets a @ ao_packets b, ao_events = ao_events a @ ao_events b,
     ao_retransmitted_packets = ao_retransmitted_packets a + ao_retransmitted_packets b\<rparr>"

fun bt_insert :: "'k::linorder \<Rightarrow> 'v \<Rightarrow> ('k, 'v) btree_map \<Rightarrow> ('k, 'v) btree_map" where
  "bt_insert k v [] = [(k, v)]"
| "bt_insert k v ((k', v') # m) =
     (if k < k' then (k, v) # (k', v') # m
      else if k = k' then (k, v) # m
      else (k', v') # bt_insert k v m)"

section \<open>Packets of the association\<close>

definition require_verification_tag :: "u32 \<Rightarrow> association \<Rightarrow> (data_channel_error, unit) result" where
  "require_verification_tag supplied s =
     (if supplied = ac_verification_tag (as_config s) then Inr () else Inl InvalidVerificationTag)"

definition peer_tag :: "association \<Rightarrow> (data_channel_error, u32) result" where
  "peer_tag s = ok_or UnexpectedState (as_peer_verification_tag s)"

definition packet_with_chunk :: "u32 \<Rightarrow> u8 \<Rightarrow> u8 \<Rightarrow> bytes \<Rightarrow> association \<Rightarrow> (data_channel_error, bytes) result" where
  "packet_with_chunk tag kind flags value s =
     build_packet (ac_local_port (as_config s)) (ac_remote_port (as_config s)) tag kind flags value"

definition packet_to_peer :: "u8 \<Rightarrow> u8 \<Rightarrow> bytes \<Rightarrow> association \<Rightarrow> (data_channel_error, bytes) result" where
  "packet_to_peer kind flags value s = bind_r (peer_tag s) (\<lambda>tag. packet_with_chunk tag kind flags value s)"

definition sack_deltas :: "u32 \<Rightarrow> u32 list \<Rightarrow> u16 list" where
  "sack_deltas cumulative tsns = sort (List.map_filter
     (\<lambda>tsn. let delta = tsn - cumulative in if delta < 65536 then Some (ucast delta) else None) tsns)"

definition add_gap :: "(u16 \<times> u16) list \<Rightarrow> u16 \<Rightarrow> (u16 \<times> u16) list" where
  "add_gap gaps delta =
     (if gaps \<noteq> [] \<and> delta = saturating_add (snd (last gaps)) 1
      then butlast gaps @ [(fst (last gaps), delta)] else gaps @ [(delta, delta)])"

definition build_sack :: "association \<Rightarrow> (data_channel_error, bytes) result" where
  "build_sack s = bind_r (ok_or UnexpectedState (as_cumulative_peer_tsn s)) (\<lambda>cumulative.
     let gaps = foldl add_gap [] (sack_deltas cumulative (map fst (as_pending_data s)));
         count = (if length gaps < 65536 then word_of_nat (length gaps) else - 1 :: u16);
         value = to_be cumulative @ to_be DEFAULT_RECEIVE_WINDOW @ to_be count @ to_be (0 :: u16) @
           concat (map (\<lambda>(start, stop). to_be start @ to_be stop) gaps)
     in packet_to_peer TYPE_SACK 0 value s)"

section \<open>Sending\<close>

function chunks_of :: "nat \<Rightarrow> 'a list \<Rightarrow> 'a list list" where
  "chunks_of n xs = (if xs = [] \<or> n = 0 then [] else take n xs # chunks_of n (drop n xs))"
  by pat_completeness auto
termination by (relation "measure (\<lambda>(n, xs). length xs)") auto

declare chunks_of.simps [simp del]

definition data_value :: "u32 \<Rightarrow> outbound_message \<Rightarrow> bytes \<Rightarrow> bytes" where
  "data_value tsn message fragment = to_be tsn @ to_be (om_stream_id message) @
     to_be (om_stream_sequence message) @ to_be (om_ppid message) @ fragment"

definition data_flags :: "bool \<Rightarrow> bool \<Rightarrow> bool \<Rightarrow> u8" where
  "data_flags ordered begins ends =
     (if ordered then 0 else FLAG_DATA_UNORDERED) OR (if begins then FLAG_DATA_BEGIN else 0) OR
     (if ends then FLAG_DATA_END else 0)"

fun enqueue_fragments :: "duration \<Rightarrow> outbound_message \<Rightarrow> u64 \<Rightarrow> nat \<Rightarrow> nat \<Rightarrow> bytes list \<Rightarrow> bytes list act" where
  "enqueue_fragments now message message_id fragment_count index [] s = (Inr [], s)"
| "enqueue_fragments now message message_id fragment_count index (fragment # fragments) s =
     (let flags = data_flags (om_ordered message) (index = 0) (index + 1 = fragment_count);
          tsn = as_next_tsn s;
          s1 = s\<lparr>as_next_tsn := tsn + 1\<rparr>
      in case packet_to_peer TYPE_DATA flags (data_value tsn message fragment) s1 of
           Inl e \<Rightarrow> (Inl e, s1)
         | Inr packet \<Rightarrow>
             let s2 = s1\<lparr>as_outstanding := bt_insert tsn
                   \<lparr>ot_packet = packet, ot_message_id = message_id, ot_stream_id = om_stream_id message,
                    ot_stream_sequence = om_stream_sequence message, ot_ordered = om_ordered message,
                    ot_reliability = om_reliability message, ot_first_sent_at = now, ot_sent_at = now,
                    ot_retransmissions = 0\<rparr> (as_outstanding s1)\<rparr> in
             (case enqueue_fragments now message message_id fragment_count (index + 1) fragments s2 of
                (Inl e, s3) \<Rightarrow> (Inl e, s3)
              | (Inr packets, s3) \<Rightarrow> (Inr (packet # packets), s3)))"

definition flight_span :: "association \<Rightarrow> nat" where
  "flight_span s = unat (as_next_tsn s - as_outbound_cumulative_tsn s) - 1"

definition enqueue_message :: "duration \<Rightarrow> outbound_message \<Rightarrow> bytes \<Rightarrow> bytes list act" where
  "enqueue_message now message payload s =
     (let fragments = chunks_of MAX_DATA_PAYLOAD payload in
      if length (as_outstanding s) + length fragments > MAX_OUTSTANDING \<or>
         flight_span s + length fragments > MAX_OUTSTANDING
      then (Inl SendWindowFull, s)
      else enqueue_fragments now message (as_next_message_id s) (length fragments) 0 fragments
             (s\<lparr>as_next_message_id := as_next_message_id s + 1\<rparr>))"

definition wire_payload :: "message_kind \<Rightarrow> bytes \<Rightarrow> u32 \<times> bytes" where
  "wire_payload kind payload =
     (case (kind, payload = []) of
        (Text, False) \<Rightarrow> (PPID_STRING, payload)
      | (Binary, False) \<Rightarrow> (PPID_BINARY, payload)
      | (Text, True) \<Rightarrow> (PPID_STRING_EMPTY, [0])
      | (Binary, True) \<Rightarrow> (PPID_BINARY_EMPTY, [0]))"

definition send_message :: "duration \<Rightarrow> u16 \<Rightarrow> message_kind \<Rightarrow> bytes \<Rightarrow> bytes list act" where
  "send_message now stream_id kind payload s =
     (if as_state s \<noteq> Established then (Inl AssociationNotEstablished, s)
      else if length payload > ac_maximum_message_bytes (as_config s) then (Inl MessageTooLarge, s)
      else if kind = Text \<and> from_utf8 payload = None then (Inl InvalidUtf8, s)
      else case hm_get (as_channels s) stream_id of
        None \<Rightarrow> (Inl UnknownChannel, s)
      | Some channel \<Rightarrow>
          let s1 = s\<lparr>as_channels := hm_insert stream_id
                (channel\<lparr>ch_next_outgoing_sequence := ch_next_outgoing_sequence channel + 1\<rparr>) (as_channels s)\<rparr>;
              (ppid, wire) = wire_payload kind payload
          in enqueue_message now
               \<lparr>om_stream_id = stream_id, om_stream_sequence = ch_next_outgoing_sequence channel,
                om_ppid = ppid, om_ordered = ch_ordered channel, om_reliability = ch_reliability channel\<rparr>
               wire s1)"

section \<open>Channels\<close>

fun close_each :: "u16 list \<Rightarrow> association \<Rightarrow> association_event list \<times> association" where
  "close_each [] s = ([], s)"
| "close_each (stream_id # stream_ids) s =
     (if hm_contains (as_channels s) stream_id then
        let s1 = s\<lparr>as_channels := hm_remove stream_id (as_channels s),
              as_reassembly := hm_remove stream_id (as_reassembly s)\<rparr>;
            (events, s2) = close_each stream_ids s1
        in (ChannelClosed stream_id # events, s2)
      else close_each stream_ids s)"

type_synonym key_order = "u16 list \<Rightarrow> u16 list"

definition close_streams :: "key_order \<Rightarrow> u16 list option \<Rightarrow> association \<Rightarrow> association_event list \<times> association" where
  "close_streams order streams s =
     close_each (case streams of None \<Rightarrow> order (map fst (as_channels s)) | Some ids \<Rightarrow> ids) s"

definition dcep_reliability :: "u8 \<Rightarrow> u32 \<Rightarrow> bool \<Rightarrow> (bool \<times> channel_reliability) option" where
  "dcep_reliability channel_type parameter partial =
     (if channel_type = 0x00 then Some (True, Reliable)
      else if channel_type = 0x80 then Some (False, Reliable)
      else if (channel_type = 0x01 \<or> channel_type = 0x81) \<and> partial \<and> parameter \<le> MAX_PARTIAL_RETRANSMISSIONS
        then Some (channel_type = 0x01, MaxRetransmissions parameter)
      else if (channel_type = 0x02 \<or> channel_type = 0x82) \<and> partial \<and>
          unat parameter * 1000000 \<le> MAX_PARTIAL_LIFETIME
        then Some (channel_type = 0x02, MaxPacketLifetime (unat parameter * 1000000))
      else None)"

definition handle_dcep :: "duration \<Rightarrow> u16 \<Rightarrow> bytes \<Rightarrow> association_output act" where
  "handle_dcep now stream_id payload s =
     (if (payload = [] \<or> hd payload \<noteq> DCEP_OPEN) \<or> length payload < 12 \<or> stream_id mod 2 \<noteq> 0 \<or>
         hm_contains (as_channels s) stream_id \<or>
         length (as_channels s) \<ge> ac_maximum_channels (as_config s)
      then (Inl InvalidDcep, s)
      else bind_a (lift_a (sctp_read_u32 payload 4)) (\<lambda>parameter.
        bind_a (lift_a (ok_or InvalidDcep
            (dcep_reliability (payload ! 1) parameter (as_peer_forward_tsn_supported s)))) (\<lambda>(ordered, reliability).
        bind_a (lift_a (sctp_read_u16 payload 8)) (\<lambda>label_length.
        bind_a (lift_a (sctp_read_u16 payload 10)) (\<lambda>protocol_length.
        bind_a (lift_a (guard_r (12 + unat label_length + unat protocol_length = length payload \<and>
            unat label_length \<le> 1024 \<and> unat protocol_length \<le> 1024) InvalidDcep)) (\<lambda>_.
        bind_a (lift_a (ok_or InvalidUtf8 (from_utf8 (take (unat label_length) (drop 12 payload))))) (\<lambda>label.
        bind_a (lift_a (ok_or InvalidUtf8 (from_utf8 (drop (12 + unat label_length) payload)))) (\<lambda>protocol.
        bind_a (write_a (\<lambda>s. s\<lparr>as_channels := hm_insert stream_id
            \<lparr>ch_ordered = ordered, ch_reliability = reliability, ch_next_outgoing_sequence = 0\<rparr>
            (as_channels s)\<rparr>)) (\<lambda>_.
        bind_a (enqueue_message now \<lparr>om_stream_id = stream_id, om_stream_sequence = 0, om_ppid = PPID_DCEP,
            om_ordered = True, om_reliability = Reliable\<rparr> [DCEP_ACK]) (\<lambda>packets.
        ret_a \<lparr>ao_packets = packets,
          ao_events = [ChannelOpened stream_id label protocol ordered reliability],
          ao_retransmitted_packets = 0\<rparr>))))))))) s)"

section \<open>Receiving data\<close>

definition handle_user_message :: "u16 \<Rightarrow> u32 \<Rightarrow> bytes \<Rightarrow> association \<Rightarrow> (data_channel_error, association_output) result" where
  "handle_user_message stream_id ppid payload s =
     (if \<not> hm_contains (as_channels s) stream_id then Inl UnknownChannel
      else bind_r (if ppid = PPID_STRING \<or> ppid = PPID_STRING_EMPTY then Inr Text
                   else if ppid = PPID_BINARY \<or> ppid = PPID_BINARY_EMPTY then Inr Binary
                   else Inl (UnsupportedPpid ppid)) (\<lambda>kind.
        let body = (if ppid = PPID_STRING_EMPTY \<or> ppid = PPID_BINARY_EMPTY then [] else payload) in
        if kind = Text \<and> from_utf8 body = None then Inl InvalidUtf8
        else if length body > ac_maximum_message_bytes (as_config s) then Inl MessageTooLarge
        else Inr (out_event (Message stream_id kind body))))"

definition reassemble :: "data_chunk \<Rightarrow> bool \<Rightarrow> bool \<Rightarrow> bytes option act" where
  "reassemble data begins ends s =
     (let s1 = (if begins then s\<lparr>as_reassembly := hm_insert (dc_stream_id data)
            \<lparr>ra_stream_sequence = dc_stream_sequence data, ra_ppid = dc_ppid data, ra_payload = []\<rparr>
            (as_reassembly s)\<rparr> else s)
      in case hm_get (as_reassembly s1) (dc_stream_id data) of
           None \<Rightarrow> (Inl InvalidFragmentSequence, s1)
         | Some assembly \<Rightarrow>
             if ra_stream_sequence assembly \<noteq> dc_stream_sequence data \<or> ra_ppid assembly \<noteq> dc_ppid data
             then (Inl InvalidFragmentSequence, s1)
             else if length (ra_payload assembly) + length (dc_payload data) >
                 ac_maximum_message_bytes (as_config s1)
             then (Inl MessageTooLarge, s1\<lparr>as_reassembly := hm_remove (dc_stream_id data) (as_reassembly s1)\<rparr>)
             else
               let payload = ra_payload assembly @ dc_payload data in
               if ends
               then (Inr (Some payload), s1\<lparr>as_reassembly := hm_remove (dc_stream_id data) (as_reassembly s1)\<rparr>)
               else (Inr None, s1\<lparr>as_reassembly := hm_insert (dc_stream_id data)
                      (assembly\<lparr>ra_payload := payload\<rparr>) (as_reassembly s1)\<rparr>))"

definition process_data_message :: "duration \<Rightarrow> data_chunk \<Rightarrow> association_output act" where
  "process_data_message now data s =
     (if dc_stream_id data \<ge> as_peer_outbound_streams s then (Inl UnknownChannel, s)
      else
        let begins = (dc_flags data AND FLAG_DATA_BEGIN \<noteq> 0);
            ends = (dc_flags data AND FLAG_DATA_END \<noteq> 0)
        in bind_a (if begins \<and> ends then ret_a (dc_payload data)
                   else bind_a (reassemble data begins ends)
                     (\<lambda>payload. ret_a (case payload of None \<Rightarrow> [] | Some p \<Rightarrow> p))) (\<lambda>payload.
          if \<not> ends then ret_a no_output
          else if dc_ppid data = PPID_DCEP then handle_dcep now (dc_stream_id data) payload
          else if dc_ppid data = PPID_STRING \<or> dc_ppid data = PPID_BINARY \<or>
              dc_ppid data = PPID_STRING_EMPTY \<or> dc_ppid data = PPID_BINARY_EMPTY
          then (\<lambda>s. (handle_user_message (dc_stream_id data) (dc_ppid data) payload s, s))
          else lift_a (Inl (UnsupportedPpid (dc_ppid data)))) s)"

lemma length_delete_less: "map_of m k = Some v \<Longrightarrow> length (AList.delete k m) < length m"
proof (induction m)
  case (Cons p m)
  show ?case
  proof (cases "fst p = k")
    case True
    then show ?thesis using hm_length_remove [of k m] by simp
  next
    case False
    with Cons show ?thesis by (cases p) simp
  qed
qed simp

function take_consecutive :: "u32 \<Rightarrow> (u32, data_chunk) hash_map \<Rightarrow> data_chunk list \<times> u32 \<times> (u32, data_chunk) hash_map" where
  "take_consecutive tsn pending =
     (case hm_get pending tsn of
        None \<Rightarrow> ([], tsn, pending)
      | Some data \<Rightarrow>
          let (deliverable, stop, rest) = take_consecutive (tsn + 1) (hm_remove tsn pending)
          in (data # deliverable, stop, rest))"
  by pat_completeness auto
termination
  by (relation "measure (\<lambda>(_, pending). length pending)") (simp_all add: length_delete_less)

declare take_consecutive.simps [simp del]

text \<open>\<open>cumulative_peer_tsn\<close> is the last number taken: it is unchanged when the loop takes nothing.\<close>

definition accept_data :: "data_chunk \<Rightarrow> data_chunk list act" where
  "accept_data data s =
     (case as_cumulative_peer_tsn s of
        None \<Rightarrow> (Inl UnexpectedState, s)
      | Some cumulative \<Rightarrow>
          let delta = dc_tsn data - cumulative in
          if delta = 0 \<or> delta \<ge> 2147483648 then (Inr [], s)
          else if unat delta > MAX_PENDING_TSN then (Inl ReceiveWindowExceeded, s)
          else if length (as_pending_data s) \<ge> MAX_PENDING_TSN \<and>
              \<not> hm_contains (as_pending_data s) (dc_tsn data)
            then (Inl ReceiveWindowExceeded, s)
          else
            let pending = (if hm_contains (as_pending_data s) (dc_tsn data) then as_pending_data s
                  else hm_insert (dc_tsn data) data (as_pending_data s));
                (deliverable, stop, rest) = take_consecutive (cumulative + 1) pending
            in (Inr deliverable, s\<lparr>as_pending_data := rest,
                  as_cumulative_peer_tsn := Some (if deliverable = [] then cumulative else stop - 1)\<rparr>))"

fun process_all :: "duration \<Rightarrow> data_chunk list \<Rightarrow> association_output act" where
  "process_all now [] = ret_a no_output"
| "process_all now (data # rest) =
     bind_a (process_data_message now data) (\<lambda>out.
     bind_a (process_all now rest) (\<lambda>out'. ret_a (out_append out out')))"

definition sack_a :: "association_output act" where
  "sack_a s = (bind_r (build_sack s) (\<lambda>packet. Inr (out_packet packet)), s)"

definition handle_data :: "duration \<Rightarrow> u8 \<Rightarrow> bytes \<Rightarrow> association_output act" where
  "handle_data now flags value s =
     (if as_state s \<noteq> Established \<or> length value < 12 then (Inl UnexpectedState, s)
      else bind_a (lift_a (sctp_read_u32 value 0)) (\<lambda>tsn.
        bind_a (lift_a (sctp_read_u16 value 4)) (\<lambda>stream_id.
        bind_a (lift_a (sctp_read_u16 value 6)) (\<lambda>stream_sequence.
        bind_a (lift_a (sctp_read_u32 value 8)) (\<lambda>ppid.
        bind_a (accept_data \<lparr>dc_flags = flags, dc_tsn = tsn, dc_stream_id = stream_id,
            dc_stream_sequence = stream_sequence, dc_ppid = ppid, dc_payload = drop 12 value\<rparr>) (\<lambda>deliverable.
        bind_a (process_all now deliverable) (\<lambda>out.
        bind_a sack_a (\<lambda>sack. ret_a (out_append out sack)))))))) s)"

section \<open>Acknowledgements and skipped numbers\<close>

fun sack_gap_loop :: "bytes \<Rightarrow> u32 \<Rightarrow> nat \<Rightarrow> nat \<Rightarrow> unit act" where
  "sack_gap_loop value cumulative index 0 s = (Inr (), s)"
| "sack_gap_loop value cumulative index (Suc n) s =
     (let offset = 12 + index * 4 in
      bind_a (lift_a (sctp_read_u16 value offset)) (\<lambda>start.
      bind_a (lift_a (sctp_read_u16 value (offset + 2))) (\<lambda>stop.
        if start = 0 \<or> stop < start then lift_a (Inl MalformedChunk)
        else bind_a (write_a (\<lambda>s. s\<lparr>as_outstanding :=
              foldl (\<lambda>m delta. hm_remove (cumulative + word_of_nat delta) m) (as_outstanding s)
                [unat start ..< Suc (unat stop)]\<rparr>)) (\<lambda>_.
          sack_gap_loop value cumulative (index + 1) n))) s)"

definition acknowledge :: "u32 \<Rightarrow> association \<Rightarrow> association" where
  "acknowledge cumulative s =
     s\<lparr>as_outbound_cumulative_tsn :=
         (if \<not> sequence_less_or_equal cumulative (as_outbound_cumulative_tsn s) then cumulative
          else as_outbound_cumulative_tsn s),
       as_outstanding := filter (\<lambda>(tsn, _). \<not> sequence_less_or_equal tsn cumulative) (as_outstanding s),
       as_abandoned := filter (\<lambda>(tsn, _). \<not> sequence_less_or_equal tsn cumulative) (as_abandoned s),
       as_pending_forward_tsn := (case as_pending_forward_tsn s of
           None \<Rightarrow> None
         | Some pending \<Rightarrow>
             if sequence_less_or_equal (pf_new_cumulative_tsn pending) cumulative then None else Some pending)\<rparr>"

definition handle_sack :: "bytes \<Rightarrow> unit act" where
  "handle_sack value s =
     (if length value < 12 then (Inl MalformedChunk, s)
      else bind_a (lift_a (sctp_read_u32 value 0)) (\<lambda>cumulative.
        bind_a (lift_a (sctp_read_u16 value 8)) (\<lambda>gap_count.
        bind_a (lift_a (sctp_read_u16 value 10)) (\<lambda>duplicate_count.
        if 12 + unat gap_count * 4 + unat duplicate_count * 4 > length value then lift_a (Inl MalformedChunk)
        else bind_a (write_a (acknowledge cumulative)) (\<lambda>_.
          sack_gap_loop value cumulative 0 (unat gap_count))))) s)"

lemma distance_decreases: "tsn \<noteq> next_tsn \<Longrightarrow> unat (next_tsn - (tsn + 1)) < unat (next_tsn - tsn)"
  for tsn next_tsn :: u32
proof -
  assume "tsn \<noteq> next_tsn"
  then have "next_tsn - tsn \<noteq> 0" by simp
  then have "unat (next_tsn - tsn - 1) < unat (next_tsn - tsn)"
    by (metis unat_minus_one diff_less unat_gt_0 zero_less_one)
  then show ?thesis by (simp add: diff_diff_eq)
qed

function forward_scan :: "(u32, outstanding) btree_map \<Rightarrow> (u32, abandoned) btree_map \<Rightarrow> u32 \<Rightarrow> u32 \<Rightarrow>
    bool \<Rightarrow> (u16, u16) btree_map \<Rightarrow> u32 \<times> bool \<times> (u16, u16) btree_map" where
  "forward_scan outs abandons next_tsn tsn saw skipped =
     (if tsn = next_tsn \<or> hm_contains outs tsn then (tsn, saw, skipped)
      else case hm_get abandons tsn of
        None \<Rightarrow> forward_scan outs abandons next_tsn (tsn + 1) saw skipped
      | Some a \<Rightarrow> forward_scan outs abandons next_tsn (tsn + 1) True
          (if ab_ordered a then bt_insert (ab_stream_id a) (ab_stream_sequence a) skipped else skipped))"
  by pat_completeness auto
termination
  by (relation "measure (\<lambda>(_, _, next_tsn, tsn, _, _). unat (next_tsn - tsn))") (simp_all add: distance_decreases)

declare forward_scan.simps [simp del]

definition build_forward_tsn :: "duration \<Rightarrow> bytes option act" where
  "build_forward_tsn now s =
     (let (stop, saw_abandoned, skipped_streams) = forward_scan (as_outstanding s) (as_abandoned s)
            (as_next_tsn s) (as_outbound_cumulative_tsn s + 1) False [];
          new_cumulative_tsn = stop - 1;
          should_send = (case as_pending_forward_tsn s of
              None \<Rightarrow> True
            | Some pending \<Rightarrow> pf_new_cumulative_tsn pending \<noteq> new_cumulative_tsn \<or>
                pf_skipped_streams pending \<noteq> skipped_streams \<or>
                now - pf_sent_at pending \<ge> RETRANSMIT_AFTER)
      in if \<not> saw_abandoned \<or> \<not> should_send then (Inr None, s)
         else case packet_to_peer TYPE_FORWARD_TSN 0 (to_be new_cumulative_tsn @
             concat (map (\<lambda>(stream_id, stream_sequence). to_be stream_id @ to_be stream_sequence) skipped_streams)) s of
           Inl e \<Rightarrow> (Inl e, s)
         | Inr packet \<Rightarrow> (Inr (Some packet), s\<lparr>as_pending_forward_tsn := Some
             \<lparr>pf_new_cumulative_tsn = new_cumulative_tsn, pf_skipped_streams = skipped_streams, pf_sent_at = now\<rparr>\<rparr>))"

lemma enqueue_fragments_frame:
  "\<exists>t outs. snd (enqueue_fragments now message message_id n index fragments s) = s\<lparr>as_next_tsn := t, as_outstanding := outs\<rparr>"
proof (induction fragments arbitrary: index s)
  case Nil
  show ?case by (rule exI [of _ "as_next_tsn s"], rule exI [of _ "as_outstanding s"]) simp
next
  case (Cons fragment fragments)
  let ?s1 = "s\<lparr>as_next_tsn := as_next_tsn s + 1\<rparr>"
  show ?case
  proof (cases "packet_to_peer TYPE_DATA (data_flags (om_ordered message) (index = 0) (index + 1 = n))
      (data_value (as_next_tsn s) message fragment) ?s1")
    case (Inl e)
    then show ?thesis
      by (intro exI [of _ "as_next_tsn s + 1"] exI [of _ "as_outstanding s"]) (simp add: Let_def)
  next
    case (Inr packet)
    define s2 where "s2 = ?s1\<lparr>as_outstanding := bt_insert (as_next_tsn s)
        \<lparr>ot_packet = packet, ot_message_id = message_id, ot_stream_id = om_stream_id message,
         ot_stream_sequence = om_stream_sequence message, ot_ordered = om_ordered message,
         ot_reliability = om_reliability message, ot_first_sent_at = now, ot_sent_at = now,
         ot_retransmissions = 0\<rparr> (as_outstanding s)\<rparr>"
    have "snd (enqueue_fragments now message message_id n index (fragment # fragments) s) =
        snd (enqueue_fragments now message message_id n (index + 1) fragments s2)"
      using Inr by (simp add: Let_def s2_def split: prod.split sum.split)
    moreover obtain t outs where "snd (enqueue_fragments now message message_id n (index + 1) fragments s2) =
        s2\<lparr>as_next_tsn := t, as_outstanding := outs\<rparr>" using Cons.IH by blast
    ultimately show ?thesis by (intro exI [of _ t] exI [of _ outs]) (simp add: s2_def)
  qed
qed

lemma enqueue_message_frame:
  "\<exists>t outs i. snd (enqueue_message now message payload s) =
     s\<lparr>as_next_tsn := t, as_outstanding := outs, as_next_message_id := i\<rparr>"
proof (cases "length (as_outstanding s) + length (chunks_of MAX_DATA_PAYLOAD payload) > MAX_OUTSTANDING \<or>
    flight_span s + length (chunks_of MAX_DATA_PAYLOAD payload) > MAX_OUTSTANDING")
  case True
  then show ?thesis
    by (intro exI [of _ "as_next_tsn s"] exI [of _ "as_outstanding s"] exI [of _ "as_next_message_id s"])
      (simp add: enqueue_message_def Let_def)
next
  case False
  let ?s1 = "s\<lparr>as_next_message_id := as_next_message_id s + 1\<rparr>"
  obtain t outs where "snd (enqueue_fragments now message (as_next_message_id s)
      (length (chunks_of MAX_DATA_PAYLOAD payload)) 0 (chunks_of MAX_DATA_PAYLOAD payload) ?s1) =
      ?s1\<lparr>as_next_tsn := t, as_outstanding := outs\<rparr>" using enqueue_fragments_frame by blast
  with False show ?thesis
    by (intro exI [of _ t] exI [of _ outs] exI [of _ "as_next_message_id s + 1"]) (simp add: enqueue_message_def Let_def)
qed

section \<open>Properties kept by an action\<close>

definition keeps :: "(association \<Rightarrow> bool) \<Rightarrow> 'a act \<Rightarrow> bool" where
  "keeps I m \<longleftrightarrow> (\<forall>s. I s \<longrightarrow> I (snd (m s)))"

named_theorems keeps_rules \<open>rules for actions that keep a property of the association\<close>

lemma keepsI: "(\<And>s. I s \<Longrightarrow> I (snd (m s))) \<Longrightarrow> keeps I m"
  by (simp add: keeps_def)

lemma keepsD: "keeps I m \<Longrightarrow> I s \<Longrightarrow> I (snd (m s))"
  by (simp add: keeps_def)

lemma keeps_pure [keeps_rules]: "keeps I (ret_a x)" "keeps I (lift_a r)" "keeps I (read_a f)" "keeps I (\<lambda>s. (g s, s))"
  by (simp_all add: keeps_def ret_a_def lift_a_def read_a_def)

lemma keeps_write: "(\<And>s. I s \<Longrightarrow> I (f s)) \<Longrightarrow> keeps I (write_a f)"
  by (simp add: keeps_def write_a_def)

lemma keeps_bind [keeps_rules]: "keeps I m \<Longrightarrow> (\<And>x. keeps I (k x)) \<Longrightarrow> keeps I (bind_a m k)"
  by (auto simp: keeps_def bind_a_def split: prod.split sum.split)

lemma keeps_if [keeps_rules]: "(c \<Longrightarrow> keeps I m) \<Longrightarrow> (\<not> c \<Longrightarrow> keeps I n) \<Longrightarrow> keeps I (if c then m else n)"
  by simp

lemma keeps_prod [keeps_rules]: "(\<And>x y. keeps I (k x y)) \<Longrightarrow> keeps I (case p of (x, y) \<Rightarrow> k x y)"
  by (cases p) simp

lemma keeps_guard:
  assumes "\<And>s. m s = (if c s then (Inl (e s), s) else n s s)" and "\<And>s. I s \<Longrightarrow> \<not> c s \<Longrightarrow> keeps I (n s)"
  shows "keeps I m"
  using assms by (auto simp: keeps_def)

lemma bind_a_simps [simp]:
  "bind_a (ret_a x) k = k x" "bind_a (lift_a (Inr x)) k = k x" "bind_a (lift_a (Inl e)) k = lift_a (Inl e)"
  by (simp_all add: bind_a_def ret_a_def lift_a_def fun_eq_iff)

text \<open>Processing a message changes nothing but channels, partial messages and the send queue.\<close>

definition untouched :: "(association \<Rightarrow> bool) \<Rightarrow> bool" where
  "untouched I \<longleftrightarrow> (\<forall>s channels rs tsn outs i. I s \<longrightarrow> I (s\<lparr>as_channels := channels, as_reassembly := rs,
     as_next_tsn := tsn, as_outstanding := outs, as_next_message_id := i\<rparr>))"

lemma untouchedD:
  assumes "untouched I" and "I s"
  shows "I (s\<lparr>as_channels := channels\<rparr>)" and "I (s\<lparr>as_reassembly := rs\<rparr>)"
    and "I (s\<lparr>as_next_tsn := tsn, as_outstanding := outs, as_next_message_id := i\<rparr>)"
proof -
  have all: "I (s\<lparr>as_channels := a, as_reassembly := b, as_next_tsn := t, as_outstanding := u, as_next_message_id := v\<rparr>)"
    for a b t u v using assms by (simp add: untouched_def)
  from all [where a = channels and b = "as_reassembly s" and t = "as_next_tsn s" and u = "as_outstanding s" and v = "as_next_message_id s"]
  show "I (s\<lparr>as_channels := channels\<rparr>)" by simp
  from all [where a = "as_channels s" and b = rs and t = "as_next_tsn s" and u = "as_outstanding s" and v = "as_next_message_id s"]
  show "I (s\<lparr>as_reassembly := rs\<rparr>)" by simp
  from all [where a = "as_channels s" and b = "as_reassembly s" and t = tsn and u = outs and v = i]
  show "I (s\<lparr>as_next_tsn := tsn, as_outstanding := outs, as_next_message_id := i\<rparr>)" by simp
qed

lemma enqueue_message_keeps: "untouched I \<Longrightarrow> keeps I (enqueue_message now message payload)"
proof (rule keepsI)
  fix s
  assume "untouched I" "I s"
  with enqueue_message_frame [of now message payload s] untouchedD(3)
  show "I (snd (enqueue_message now message payload s))" by metis
qed

lemma reassemble_frame:
  "snd (reassemble data b e s) = s\<lparr>as_reassembly := as_reassembly (snd (reassemble data b e s))\<rparr>"
  by (auto simp: reassemble_def Let_def split: option.split)

lemma reassemble_keeps: "untouched I \<Longrightarrow> keeps I (reassemble data b e)"
proof (rule keepsI)
  fix s
  assume "untouched I" "I s"
  from untouchedD(2) [OF this] show "I (snd (reassemble data b e s))" by (subst reassemble_frame)
qed

lemma process_data_message_keeps:
  assumes "untouched I"
  shows "keeps I (process_data_message now data)"
proof -
  have dcep: "keeps I (handle_dcep now stream_id payload)" for stream_id payload
    by (rule keeps_guard, rule handle_dcep_def)
      (intro keeps_rules enqueue_message_keeps keeps_write assms untouchedD(1) [OF assms])
  show ?thesis
    by (rule keeps_guard, rule process_data_message_def)
      (unfold Let_def, intro keeps_rules dcep reassemble_keeps assms)
qed

section \<open>Skipping to a number announced by the peer\<close>

function forward_loop :: "duration \<Rightarrow> u32 \<Rightarrow> association_output \<Rightarrow> association_output act" where
  "forward_loop now tsn out s =
     (case hm_get (as_pending_data s) tsn of
        None \<Rightarrow> (Inr out, s)
      | Some data \<Rightarrow>
          let s1 = s\<lparr>as_pending_data := hm_remove tsn (as_pending_data s)\<rparr> in
          (case process_data_message now data s1 of
             (Inl e, s2) \<Rightarrow> (Inl e, s2)
           | (Inr out', s2) \<Rightarrow>
               forward_loop now (tsn + 1) (out_append out out') (s2\<lparr>as_cumulative_peer_tsn := Some tsn\<rparr>)))"
  by pat_completeness auto
termination
proof (relation "measure (\<lambda>(_, _, _, s). length (as_pending_data s))", simp, goal_cases)
  case (1 now tsn out s data s1 r s2 out')
  let ?p = "hm_remove tsn (as_pending_data s)"
  have "as_pending_data (snd (process_data_message now data s1)) = ?p"
    using process_data_message_keeps [of "\<lambda>s. as_pending_data s = ?p" now data] 1
    by (simp add: keeps_def untouched_def)
  with 1 length_delete_less [of "as_pending_data s" tsn data] show ?case by (auto simp: prod_eq_iff)
qed

declare forward_loop.simps [simp del]

fun drop_reassemblies :: "bytes \<Rightarrow> nat \<Rightarrow> nat \<Rightarrow> unit act" where
  "drop_reassemblies value offset 0 s = (Inr (), s)"
| "drop_reassemblies value offset (Suc n) s =
     bind_a (lift_a (sctp_read_u16 value offset)) (\<lambda>stream_id.
     bind_a (lift_a (sctp_read_u16 value (offset + 2))) (\<lambda>stream_sequence.
     bind_a (write_a (\<lambda>s. case hm_get (as_reassembly s) stream_id of
         None \<Rightarrow> s
       | Some r \<Rightarrow> if sequence_less_or_equal_u16 (ra_stream_sequence r) stream_sequence
           then s\<lparr>as_reassembly := hm_remove stream_id (as_reassembly s)\<rparr> else s)) (\<lambda>_.
       drop_reassemblies value (offset + 4) n))) s"

definition handle_forward_tsn :: "duration \<Rightarrow> bytes \<Rightarrow> association_output act" where
  "handle_forward_tsn now value s =
     (if as_state s \<noteq> Established \<or> \<not> as_peer_forward_tsn_supported s \<or> length value < 4 \<or>
         (length value - 4) mod 4 \<noteq> 0
      then (Inl MalformedChunk, s)
      else bind_a (lift_a (sctp_read_u32 value 0)) (\<lambda>new_cumulative_tsn.
        bind_a (lift_a (ok_or UnexpectedState (as_cumulative_peer_tsn s))) (\<lambda>current.
        if sequence_less_or_equal new_cumulative_tsn current then sack_a
        else
          bind_a (drop_reassemblies value 4 ((length value - 4) div 4)) (\<lambda>_.
          bind_a (write_a (\<lambda>s. s\<lparr>as_pending_data :=
              filter (\<lambda>(tsn, _). \<not> sequence_less_or_equal tsn new_cumulative_tsn) (as_pending_data s),
              as_cumulative_peer_tsn := Some new_cumulative_tsn\<rparr>)) (\<lambda>_.
          bind_a (forward_loop now (new_cumulative_tsn + 1) no_output) (\<lambda>out.
          bind_a sack_a (\<lambda>sack. ret_a (out_append out sack))))))) s)"

section \<open>Stream resets\<close>

definition close_streams_a :: "key_order \<Rightarrow> u16 list option \<Rightarrow> association_event list act" where
  "close_streams_a order streams s = (let (events, s') = close_streams order streams s in (Inr events, s'))"

definition handle_outgoing_reset :: "key_order \<Rightarrow> bytes \<Rightarrow> bytes \<Rightarrow> (bytes \<times> association_event list) act" where
  "handle_outgoing_reset order value response s =
     (if length value < 12 \<or> (length value - 12) mod 2 \<noteq> 0 then (Inl MalformedChunk, s)
      else bind_a (lift_a (sctp_read_u32 value 0)) (\<lambda>request_sequence.
        bind_a (lift_a (ok_or UnexpectedState (as_next_peer_reconfig_sequence s))) (\<lambda>expected.
        bind_a (if request_sequence = expected then
            bind_a (write_a (\<lambda>s. s\<lparr>as_next_peer_reconfig_sequence := Some (expected + 1)\<rparr>)) (\<lambda>_.
            bind_a (lift_a (parse_stream_numbers (drop 12 value) (as_peer_outbound_streams s))) (\<lambda>streams.
            bind_a (close_streams_a order streams) (\<lambda>events. ret_a (RECONFIG_SUCCESS_PERFORMED, events))))
          else ret_a (RECONFIG_ERROR_BAD_SEQUENCE, [])) (\<lambda>(code, events).
        bind_a (lift_a (push_parameter response PARAMETER_RECONFIG_RESPONSE
            (to_be request_sequence @ to_be code))) (\<lambda>response'.
        ret_a (response', events))))) s)"

definition handle_incoming_reset :: "key_order \<Rightarrow> bytes \<Rightarrow> bytes \<Rightarrow> (bytes \<times> association_event list) act" where
  "handle_incoming_reset order value response s =
     (if length value < 4 \<or> (length value - 4) mod 2 \<noteq> 0 then (Inl MalformedChunk, s)
      else bind_a (lift_a (sctp_read_u32 value 0)) (\<lambda>peer_request_sequence.
        bind_a (lift_a (ok_or UnexpectedState (as_next_peer_reconfig_sequence s))) (\<lambda>expected.
        if peer_request_sequence \<noteq> expected then
          bind_a (lift_a (push_parameter response PARAMETER_RECONFIG_RESPONSE
              (to_be peer_request_sequence @ to_be RECONFIG_ERROR_BAD_SEQUENCE))) (\<lambda>response'.
          ret_a (response', []))
        else
          bind_a (write_a (\<lambda>s. s\<lparr>as_next_peer_reconfig_sequence := Some (expected + 1)\<rparr>)) (\<lambda>_.
          bind_a (lift_a (parse_stream_numbers (drop 4 value) (as_peer_outbound_streams s))) (\<lambda>streams.
          bind_a (close_streams_a order streams) (\<lambda>events.
          bind_a (read_a (\<lambda>s. to_be (as_next_reconfig_sequence s) @ to_be peer_request_sequence @
              to_be (as_next_tsn s - 1) @
              (case streams of None \<Rightarrow> [] | Some ids \<Rightarrow> concat (map to_be ids)))) (\<lambda>outgoing.
          bind_a (write_a (\<lambda>s. s\<lparr>as_next_reconfig_sequence := as_next_reconfig_sequence s + 1\<rparr>)) (\<lambda>_.
          bind_a (lift_a (push_parameter response PARAMETER_OUTGOING_RESET outgoing)) (\<lambda>response'.
          ret_a (response', events))))))))) s)"

fun reconfiguration_loop :: "key_order \<Rightarrow> parameter list \<Rightarrow> bytes \<Rightarrow> association_event list \<Rightarrow>
    (bytes \<times> association_event list) act" where
  "reconfiguration_loop order [] response events = ret_a (response, events)"
| "reconfiguration_loop order (p # ps) response events =
     (if pa_kind p = PARAMETER_OUTGOING_RESET then
        bind_a (handle_outgoing_reset order (pa_value p) response) (\<lambda>(response', events').
          reconfiguration_loop order ps response' (events @ events'))
      else if pa_kind p = PARAMETER_INCOMING_RESET then
        bind_a (handle_incoming_reset order (pa_value p) response) (\<lambda>(response', events').
          reconfiguration_loop order ps response' (events @ events'))
      else if pa_kind p = PARAMETER_RECONFIG_RESPONSE then
        if length (pa_value p) = 8 \<or> length (pa_value p) = 16 then reconfiguration_loop order ps response events
        else lift_a (Inl MalformedChunk)
      else ret_a (response, events))"

definition handle_reconfiguration :: "key_order \<Rightarrow> bytes \<Rightarrow> association_output act" where
  "handle_reconfiguration order value s =
     (if as_state s \<noteq> Established \<or> value = [] then (Inl UnexpectedState, s)
      else bind_a (lift_a (parse_parameters value)) (\<lambda>parameters.
        if parameters = [] \<or> length parameters > 2 then lift_a (Inl MalformedChunk)
        else bind_a (reconfiguration_loop order parameters [] []) (\<lambda>(response, events).
          if response = [] then ret_a (no_output\<lparr>ao_events := events\<rparr>)
          else bind_a (\<lambda>s. (packet_to_peer TYPE_RE_CONFIG 0 response s, s)) (\<lambda>packet.
            ret_a \<lparr>ao_packets = [packet], ao_events = events, ao_retransmitted_packets = 0\<rparr>))) s)"

section \<open>Handshake\<close>

definition reset_association :: "u32 \<Rightarrow> u32 \<Rightarrow> u16 \<Rightarrow> bool \<Rightarrow> association \<Rightarrow> association" where
  "reset_association tag initial_tsn outbound_streams partial s =
     s\<lparr>as_peer_forward_tsn_supported := partial,
       as_peer_verification_tag := Some tag,
       as_peer_initial_tsn := Some initial_tsn,
       as_cumulative_peer_tsn := Some (initial_tsn - 1),
       as_peer_outbound_streams := outbound_streams,
       as_pending_data := [], as_reassembly := [], as_outstanding := [], as_abandoned := [],
       as_pending_forward_tsn := None, as_channels := [],
       as_next_tsn := ac_initial_tsn (as_config s),
       as_outbound_cumulative_tsn := ac_initial_tsn (as_config s) - 1,
       as_next_message_id := 0,
       as_next_reconfig_sequence := ac_initial_tsn (as_config s),
       as_next_peer_reconfig_sequence := Some initial_tsn,
       as_state := CookieWait\<rparr>"

definition init_ack_value :: "u16 \<Rightarrow> association \<Rightarrow> (data_channel_error, bytes) result" where
  "init_ack_value inbound_streams s =
     (let c = as_config s;
          limit = (if ac_maximum_channels c < 65536 then word_of_nat (ac_maximum_channels c) else - 1 :: u16);
          streams = max (min limit inbound_streams) 1;
          fixed = to_be (ac_verification_tag c) @ to_be DEFAULT_RECEIVE_WINDOW @ to_be streams @ to_be streams @
            to_be (ac_initial_tsn c)
      in bind_r (push_parameter fixed PARAMETER_STATE_COOKIE (ac_cookie c)) (\<lambda>body.
         if as_peer_forward_tsn_supported s then push_parameter body PARAMETER_FORWARD_TSN_SUPPORTED []
         else Inr body))"

definition handle_init :: "u32 \<Rightarrow> bytes \<Rightarrow> association_output act" where
  "handle_init verification_tag value s =
     (if verification_tag \<noteq> 0 \<or> length value < 16 then (Inl MalformedChunk, s)
      else bind_a (lift_a (sctp_read_u32 value 0)) (\<lambda>tag.
        bind_a (lift_a (sctp_read_u16 value 8)) (\<lambda>outbound_streams.
        bind_a (lift_a (sctp_read_u16 value 10)) (\<lambda>inbound_streams.
        bind_a (lift_a (sctp_read_u32 value 12)) (\<lambda>initial_tsn.
        if tag = 0 \<or> outbound_streams = 0 \<or> inbound_streams = 0 then lift_a (Inl MalformedChunk)
        else bind_a (lift_a (parse_parameters (drop 16 value))) (\<lambda>parameters.
          bind_a (write_a (reset_association tag initial_tsn outbound_streams
            (\<exists>p\<in>set parameters. pa_kind p = PARAMETER_FORWARD_TSN_SUPPORTED \<and> pa_value p = []))) (\<lambda>_.
          bind_a (\<lambda>s. (init_ack_value inbound_streams s, s)) (\<lambda>init_ack.
          bind_a (\<lambda>s. (packet_with_chunk tag TYPE_INIT_ACK 0 init_ack s, s)) (\<lambda>packet.
          ret_a (out_packet packet))))))))) s)"

definition handle_cookie_echo :: "u32 \<Rightarrow> bytes \<Rightarrow> association_output act" where
  "handle_cookie_echo verification_tag cookie s =
     (if as_state s \<noteq> CookieWait then (Inl UnexpectedState, s)
      else bind_a (lift_a (require_verification_tag verification_tag s)) (\<lambda>_.
        if \<not> constant_time_equal cookie (ac_cookie (as_config s)) then lift_a (Inl InvalidCookie)
        else bind_a (write_a (\<lambda>s. s\<lparr>as_state := Established\<rparr>)) (\<lambda>_.
          bind_a (\<lambda>s. (packet_to_peer TYPE_COOKIE_ACK 0 [] s, s)) (\<lambda>packet.
          ret_a \<lparr>ao_packets = [packet], ao_events = [EventEstablished], ao_retransmitted_packets = 0\<rparr>))) s)"

section \<open>Packets and time\<close>

definition tagged :: "u32 \<Rightarrow> 'a act \<Rightarrow> 'a act" where
  "tagged verification_tag m s = bind_a (lift_a (require_verification_tag verification_tag s)) (\<lambda>_. m) s"

definition handle_chunk :: "key_order \<Rightarrow> duration \<Rightarrow> u32 \<Rightarrow> parsed_chunk \<Rightarrow> association_output act" where
  "handle_chunk order now tag chunk =
     (if pc_kind chunk = TYPE_INIT then handle_init tag (pc_value chunk)
      else if pc_kind chunk = TYPE_COOKIE_ECHO then handle_cookie_echo tag (pc_value chunk)
      else if pc_kind chunk = TYPE_DATA then tagged tag (handle_data now (pc_flags chunk) (pc_value chunk))
      else if pc_kind chunk = TYPE_SACK then
        tagged tag (bind_a (handle_sack (pc_value chunk)) (\<lambda>_. ret_a no_output))
      else if pc_kind chunk = TYPE_HEARTBEAT then
        tagged tag (bind_a (\<lambda>s. (packet_to_peer TYPE_HEARTBEAT_ACK 0 (pc_value chunk) s, s)) (\<lambda>packet.
          ret_a (out_packet packet)))
      else if pc_kind chunk = TYPE_ABORT then
        bind_a (write_a (\<lambda>s. s\<lparr>as_state := Closed\<rparr>)) (\<lambda>_. ret_a (out_event EventClosed))
      else if pc_kind chunk = TYPE_SHUTDOWN then
        tagged tag (bind_a (write_a (\<lambda>s. s\<lparr>as_state := Closed\<rparr>)) (\<lambda>_.
          bind_a (\<lambda>s. (packet_to_peer TYPE_SHUTDOWN_ACK 0 [] s, s)) (\<lambda>packet.
          ret_a \<lparr>ao_packets = [packet], ao_events = [EventClosed], ao_retransmitted_packets = 0\<rparr>)))
      else if pc_kind chunk = TYPE_RE_CONFIG then tagged tag (handle_reconfiguration order (pc_value chunk))
      else if pc_kind chunk = TYPE_FORWARD_TSN then tagged tag (handle_forward_tsn now (pc_value chunk))
      else ret_a no_output)"

fun handle_chunks :: "key_order \<Rightarrow> duration \<Rightarrow> u32 \<Rightarrow> parsed_chunk list \<Rightarrow> association_output act" where
  "handle_chunks order now tag [] = ret_a no_output"
| "handle_chunks order now tag (chunk # chunks) =
     bind_a (handle_chunk order now tag chunk) (\<lambda>out.
     bind_a (handle_chunks order now tag chunks) (\<lambda>out'. ret_a (out_append out out')))"

definition handle_packet :: "key_order \<Rightarrow> duration \<Rightarrow> bytes \<Rightarrow> association_output act" where
  "handle_packet order now packet s =
     bind_a (lift_a (sctp_parse packet)) (\<lambda>parsed.
       if pk_source_port parsed \<noteq> ac_remote_port (as_config s) \<or>
          pk_destination_port parsed \<noteq> ac_local_port (as_config s)
       then lift_a (Inl UnexpectedPort)
       else handle_chunks order now (pk_verification_tag parsed) (pk_chunks parsed)) s"

definition overdue :: "duration \<Rightarrow> outstanding \<Rightarrow> bool" where
  "overdue now ot \<longleftrightarrow> now - ot_sent_at ot \<ge> RETRANSMIT_AFTER"

definition should_abandon :: "duration \<Rightarrow> outstanding \<Rightarrow> bool" where
  "should_abandon now ot = (case ot_reliability ot of
       Reliable \<Rightarrow> False
     | MaxRetransmissions maximum \<Rightarrow> overdue now ot \<and> ot_retransmissions ot \<ge> maximum
     | MaxPacketLifetime lifetime \<Rightarrow> now - ot_first_sent_at ot \<ge> lifetime)"

text \<open>The pass over the outstanding chunks: what it leaves of them, the messages to abandon, the
  output, and whether delivery has failed, in which case the loop stops.\<close>

fun tick_pass :: "duration \<Rightarrow> (u32, outstanding) btree_map \<Rightarrow> (u64, u16 \<times> u16) btree_map \<Rightarrow> association_output \<Rightarrow>
    (u32, outstanding) btree_map \<times> (u64, u16 \<times> u16) btree_map \<times> association_output \<times> bool" where
  "tick_pass now [] drops out = ([], drops, out, False)"
| "tick_pass now ((tsn, ot) # rest) drops out =
     (if should_abandon now ot then
        let drops1 = (if hm_contains drops (ot_message_id ot) then drops
              else bt_insert (ot_message_id ot) (ot_stream_id ot, ot_stream_sequence ot) drops);
            (rest', drops', out', failed) = tick_pass now rest drops1 out
        in ((tsn, ot) # rest', drops', out', failed)
      else if \<not> overdue now ot then
        let (rest', drops', out', failed) = tick_pass now rest drops out
        in ((tsn, ot) # rest', drops', out', failed)
      else if ot_reliability ot = Reliable \<and> ot_retransmissions ot \<ge> MAX_RETRANSMISSIONS then
        ((tsn, ot) # rest, drops, out\<lparr>ao_events := ao_events out @ [DeliveryFailed tsn]\<rparr>, True)
      else
        let ot1 = ot\<lparr>ot_sent_at := now, ot_retransmissions := saturating_add (ot_retransmissions ot) 1\<rparr>;
            out1 = out\<lparr>ao_packets := ao_packets out @ [ot_packet ot],
              ao_retransmitted_packets := saturating_add (ao_retransmitted_packets out) 1\<rparr>;
            (rest', drops', out', failed) = tick_pass now rest drops out1
        in ((tsn, ot1) # rest', drops', out', failed))"

definition abandon_message :: "u64 \<Rightarrow> association \<Rightarrow> association" where
  "abandon_message message_id s =
     foldl (\<lambda>s (tsn, ot). s\<lparr>as_outstanding := hm_remove tsn (as_outstanding s),
         as_abandoned := bt_insert tsn \<lparr>ab_stream_id = ot_stream_id ot,
           ab_stream_sequence = ot_stream_sequence ot, ab_ordered = ot_ordered ot\<rparr> (as_abandoned s)\<rparr>)
       s (filter (\<lambda>(tsn, ot). ot_message_id ot = message_id) (as_outstanding s))"

definition abandon_messages :: "(u64, u16 \<times> u16) btree_map \<Rightarrow> association \<Rightarrow> association" where
  "abandon_messages drops s = foldl (\<lambda>s (message_id, _). abandon_message message_id s) s drops"

definition tick :: "duration \<Rightarrow> association \<Rightarrow> association_output \<times> association" where
  "tick now s =
     (if as_state s \<noteq> Established then (no_output, s)
      else
        let (outs, drops, out, failed) = tick_pass now (as_outstanding s) [] no_output;
            s1 = s\<lparr>as_outstanding := outs\<rparr> in
        if failed then (out, s1\<lparr>as_state := Failed\<rparr>)
        else
          let s2 = abandon_messages drops s1;
              out2 = out\<lparr>ao_events := ao_events out @
                map (\<lambda>(_, stream_id, stream_sequence). MessageAbandoned stream_id stream_sequence) drops\<rparr> in
          if as_peer_forward_tsn_supported s2 then
            (case build_forward_tsn now s2 of
               (Inr (Some packet), s3) \<Rightarrow> (out2\<lparr>ao_packets := ao_packets out2 @ [packet]\<rparr>, s3)
             | (_, s3) \<Rightarrow> (out2, s3))
          else (out2, s2))"

end
