(* ===== verification/Sctp_Invariant.thy ===== *)
theory Sctp_Invariant
  imports Sctp_Association
begin

text \<open>
  The resource bounds and the consistency of an SCTP association, kept by every operation of
  \<open>crates/webrtc/data-channel/src/lib.rs\<close>, and the properties of whole histories of calls.
\<close>

section \<open>Sorted maps\<close>

abbreviation bt_wf :: "('k::linorder, 'v) btree_map \<Rightarrow> bool" where
  "bt_wf m \<equiv> sorted_wrt (<) (map fst m)"

lemma set_bt_insert: "set (bt_insert k v m) \<subseteq> insert (k, v) (set m)"
  by (induction k v m rule: bt_insert.induct) auto

lemma fst_bt_insert: "fst ` set (bt_insert k v m) = insert k (fst ` set m)"
  by (induction k v m rule: bt_insert.induct) (simp_all, blast+)

lemma bt_insert_wf: "bt_wf m \<Longrightarrow> bt_wf (bt_insert k v m)"
proof (induction k v m rule: bt_insert.induct)
  case (2 k v k' v' m)
  show ?case
  proof (cases "k \<le> k'")
    case True
    with 2 show ?thesis by (auto simp: order_le_less)
  next
    case False
    have "\<forall>x\<in>fst ` set (bt_insert k v m). k' < x" unfolding fst_bt_insert using 2 False by auto
    with False 2 show ?thesis by auto
  qed
qed simp

lemma length_bt_insert: "length (bt_insert k v m) \<le> Suc (length m)"
  by (induction m) auto

lemma bt_delete_wf: "bt_wf m \<Longrightarrow> bt_wf (AList.delete k m)"
  by (simp add: AList.delete_eq sorted_wrt_map sorted_wrt_filter)

lemma bt_filter_wf: "bt_wf m \<Longrightarrow> bt_wf (filter f m)"
  by (simp add: sorted_wrt_map sorted_wrt_filter)

section \<open>The invariant\<close>

definition channels_ok :: "association_config \<Rightarrow> u16 \<Rightarrow> (u16, channel) hash_map \<Rightarrow> bool" where
  "channels_ok c streams channels \<longleftrightarrow> hm_wf channels \<and> length channels \<le> ac_maximum_channels c \<and>
     (\<forall>(stream_id, channel)\<in>set channels. stream_id mod 2 = 0 \<and> stream_id < streams)"

definition pending_ok :: "u32 option \<Rightarrow> (u32, data_chunk) hash_map \<Rightarrow> bool" where
  "pending_ok cumulative pending \<longleftrightarrow> hm_wf pending \<and> (\<forall>(tsn, data)\<in>set pending. dc_tsn data = tsn \<and>
     (\<exists>base. cumulative = Some base \<and> 1 \<le> unat (tsn - base) \<and> unat (tsn - base) \<le> MAX_PENDING_TSN))"

definition reassembly_ok :: "association_config \<Rightarrow> u16 \<Rightarrow> (u16, reassembly) hash_map \<Rightarrow> bool" where
  "reassembly_ok c streams rs \<longleftrightarrow> hm_wf rs \<and> (\<forall>(stream_id, r)\<in>set rs.
     length (ra_payload r) \<le> ac_maximum_message_bytes c \<and> stream_id < streams)"

text \<open>A stored packet is a DATA packet to the peer that carries the number it is stored under.\<close>

definition data_packet :: "association_config \<Rightarrow> u32 option \<Rightarrow> u32 \<Rightarrow> bytes \<Rightarrow> bool" where
  "data_packet c tag tsn packet \<longleftrightarrow> (\<exists>t flags rest. tag = Some t \<and>
     build_packet (ac_local_port c) (ac_remote_port c) t TYPE_DATA flags (to_be tsn @ rest) = Inr packet)"

definition outstanding_ok :: "association_config \<Rightarrow> u32 option \<Rightarrow> (u32, outstanding) btree_map \<Rightarrow> bool" where
  "outstanding_ok c tag outs \<longleftrightarrow> bt_wf outs \<and> (\<forall>(tsn, ot)\<in>set outs. data_packet c tag tsn (ot_packet ot))"

definition phase_ok :: "association_state \<Rightarrow> u32 option \<Rightarrow> u32 option \<Rightarrow> (u16, channel) hash_map \<Rightarrow> bool" where
  "phase_ok state tag cumulative channels \<longleftrightarrow>
     (tag = None \<longleftrightarrow> cumulative = None) \<and>
     (tag = None \<longrightarrow> (state = Listen \<or> state = Closed) \<and> channels = []) \<and>
     (state = Listen \<longrightarrow> tag = None)"

definition association_inv :: "association_config \<Rightarrow> association \<Rightarrow> bool" where
  "association_inv c s \<longleftrightarrow> as_config s = c \<and>
     channels_ok c (as_peer_outbound_streams s) (as_channels s) \<and>
     pending_ok (as_cumulative_peer_tsn s) (as_pending_data s) \<and>
     reassembly_ok c (as_peer_outbound_streams s) (as_reassembly s) \<and>
     outstanding_ok c (as_peer_verification_tag s) (as_outstanding s) \<and>
     length (as_outstanding s) \<le> MAX_OUTSTANDING \<and> bt_wf (as_abandoned s) \<and>
     phase_ok (as_state s) (as_peer_verification_tag s) (as_cumulative_peer_tsn s) (as_channels s)"

lemma empty_ok [simp]:
  "channels_ok c streams []" "pending_ok cumulative []" "reassembly_ok c streams []" "outstanding_ok c tag []"
  by (simp_all add: channels_ok_def pending_ok_def reassembly_ok_def outstanding_ok_def)

lemma pending_count:
  assumes "pending_ok cumulative pending"
  shows "length pending \<le> MAX_PENDING_TSN"
proof (cases pending)
  case (Cons p rest)
  then obtain c where c: "cumulative = Some c" using assms by (fastforce simp: pending_ok_def)
  let ?f = "\<lambda>tsn. unat (tsn - c)"
  have "inj_on ?f (fst ` set pending)" by (rule inj_onI) (metis unsigned_word_eqI diff_add_cancel)
  then have "card (fst ` set pending) = card (?f ` fst ` set pending)"
    by (simp add: card_image)
  also have "\<dots> \<le> card {1..MAX_PENDING_TSN}"
    using assms c by (intro card_mono) (fastforce simp: pending_ok_def)+
  finally have "card (set (map fst pending)) \<le> MAX_PENDING_TSN" by simp
  moreover have "distinct (map fst pending)" using assms by (simp add: pending_ok_def)
  ultimately show ?thesis by (metis distinct_card length_map)
qed simp

lemma as_new_inv: "as_new c = Inr s \<Longrightarrow> association_inv c s"
  by (auto simp: as_new_def Let_def result_simps association_inv_def phase_ok_def)


section \<open>Stepping through an action\<close>

text \<open>The state after a sequence of actions: checks and readings leave it as it is.\<close>

definition leaves :: "(association \<Rightarrow> bool) \<Rightarrow> 'r \<times> association \<Rightarrow> bool" where
  "leaves I r \<longleftrightarrow> I (snd r)"

named_theorems leaves_rules \<open>rules for the state an action leaves\<close>

lemma leaves_lift [leaves_rules]:
  "I s \<Longrightarrow> (\<And>x. r = Inr x \<Longrightarrow> leaves I (k x s)) \<Longrightarrow> leaves I (bind_a (lift_a r) k s)"
  by (cases r) (simp_all add: leaves_def lift_a_def)

lemma leaves_pure [leaves_rules]:
  "I s \<Longrightarrow> (\<And>x. f s = Inr x \<Longrightarrow> leaves I (k x s)) \<Longrightarrow> leaves I (bind_a (\<lambda>s. (f s, s)) k s)"
  by (cases "f s") (simp_all add: leaves_def bind_a_def)

lemma leaves_write [leaves_rules]: "leaves I (k () (f s)) \<Longrightarrow> leaves I (bind_a (write_a f) k s)"
  by (simp add: leaves_def bind_a_def write_a_def)

lemma leaves_read [leaves_rules]: "leaves I (k (f s) s) \<Longrightarrow> leaves I (bind_a (read_a f) k s)"
  by (simp add: leaves_def bind_a_def read_a_def)

lemma leaves_done [leaves_rules]:
  "I s \<Longrightarrow> leaves I (lift_a r s)" "I s \<Longrightarrow> leaves I (ret_a x s)" "I s \<Longrightarrow> leaves I (r, s)"
  by (simp_all add: leaves_def lift_a_def ret_a_def)

lemma leaves_if [leaves_rules]:
  "(b \<Longrightarrow> leaves I (m s)) \<Longrightarrow> (\<not> b \<Longrightarrow> leaves I (n s)) \<Longrightarrow> leaves I ((if b then m else n) s)"
  "(b \<Longrightarrow> leaves I x) \<Longrightarrow> (\<not> b \<Longrightarrow> leaves I y) \<Longrightarrow> leaves I (if b then x else y)"
  by simp_all

lemma leaves_prod [leaves_rules]:
  "(\<And>x y. p = (x, y) \<Longrightarrow> leaves I (k x y s)) \<Longrightarrow> leaves I ((case p of (x, y) \<Rightarrow> k x y) s)"
  by (cases p) simp

lemma leaves_ret: "leaves I (m s) \<Longrightarrow> leaves I (bind_a m (\<lambda>x. ret_a (g x)) s)"
  by (auto simp: leaves_def bind_a_def ret_a_def split: prod.split sum.split)

lemma leaves_bind:
  "leaves I (m s) \<Longrightarrow> (\<And>x s'. m s = (Inr x, s') \<Longrightarrow> I s' \<Longrightarrow> leaves J (k x s')) \<Longrightarrow> (\<And>s. I s \<Longrightarrow> J s) \<Longrightarrow>
     leaves J (bind_a m k s)"
  by (auto simp: leaves_def bind_a_def split: prod.split sum.split)

section \<open>Sending keeps the invariant\<close>

lemma inv_next_tsn: "association_inv c s \<Longrightarrow> association_inv c (s\<lparr>as_next_tsn := t\<rparr>)"
  by (simp add: association_inv_def)

lemma outstanding_ok_insert:
  assumes "outstanding_ok c tag outs" and "data_packet c tag tsn (ot_packet ot)"
  shows "outstanding_ok c tag (bt_insert tsn ot outs)"
  using assms set_bt_insert [of tsn ot outs] unfolding outstanding_ok_def by (blast intro: bt_insert_wf)

lemma packet_to_peer_Inr:
  "packet_to_peer kind flags value s = Inr packet \<longleftrightarrow> (\<exists>t. as_peer_verification_tag s = Some t \<and>
     build_packet (ac_local_port (as_config s)) (ac_remote_port (as_config s)) t kind flags value = Inr packet)"
  by (auto simp: packet_to_peer_def peer_tag_def packet_with_chunk_def result_simps)

lemma inv_insert_outstanding:
  assumes "association_inv c s" and "length (as_outstanding s) < MAX_OUTSTANDING"
    and "packet_to_peer TYPE_DATA flags (to_be tsn @ rest) s = Inr (ot_packet ot)"
  shows "association_inv c (s\<lparr>as_outstanding := bt_insert tsn ot (as_outstanding s)\<rparr>)"
proof -
  have "data_packet c (as_peer_verification_tag s) tsn (ot_packet ot)"
    using assms(1,3) by (auto simp: data_packet_def packet_to_peer_Inr association_inv_def)
  with assms(1,2) length_bt_insert [of tsn ot "as_outstanding s"] show ?thesis
    by (simp add: association_inv_def outstanding_ok_insert)
qed

lemma enqueue_fragments_inv:
  assumes "association_inv c s" and "length (as_outstanding s) + length fragments \<le> MAX_OUTSTANDING"
  shows "leaves (association_inv c) (enqueue_fragments now message message_id n index fragments s)"
  using assms
proof (induction fragments arbitrary: index s)
  case (Cons fragment fragments)
  let ?s1 = "s\<lparr>as_next_tsn := as_next_tsn s + 1\<rparr>"
  note i1 = inv_next_tsn [OF Cons.prems(1), of "as_next_tsn s + 1"]
  show ?case
  proof (cases "packet_to_peer TYPE_DATA (data_flags (om_ordered message) (index = 0) (index + 1 = n))
      (data_value (as_next_tsn s) message fragment) ?s1")
    case (Inl e)
    with i1 show ?thesis by (simp add: Let_def leaves_def)
  next
    case (Inr packet)
    define ot where "ot = \<lparr>ot_packet = packet, ot_message_id = message_id, ot_stream_id = om_stream_id message,
         ot_stream_sequence = om_stream_sequence message, ot_ordered = om_ordered message,
         ot_reliability = om_reliability message, ot_first_sent_at = now, ot_sent_at = now,
         ot_retransmissions = 0\<rparr>"
    define s2 where "s2 = ?s1\<lparr>as_outstanding := bt_insert (as_next_tsn s) ot (as_outstanding ?s1)\<rparr>"
    have "snd (enqueue_fragments now message message_id n index (fragment # fragments) s) =
        snd (enqueue_fragments now message message_id n (index + 1) fragments s2)"
      using Inr by (simp add: Let_def s2_def ot_def split: prod.split sum.split)
    moreover have "association_inv c s2" unfolding s2_def
      by (rule inv_insert_outstanding [OF i1, where flags = "data_flags (om_ordered message) (index = 0) (index + 1 = n)"])
        (use Inr Cons.prems(2) in \<open>simp_all add: ot_def data_value_def\<close>)
    moreover have "length (as_outstanding s2) + length fragments \<le> MAX_OUTSTANDING"
      using Cons.prems(2) length_bt_insert [of "as_next_tsn s" ot "as_outstanding s"] by (simp add: s2_def)
    ultimately show ?thesis using Cons.IH by (simp add: leaves_def)
  qed
qed (simp add: leaves_def)

lemma enqueue_message_inv:
  assumes "association_inv c s"
  shows "leaves (association_inv c) (enqueue_message now message payload s)"
proof -
  have "association_inv c (s\<lparr>as_next_message_id := as_next_message_id s + 1\<rparr>)"
    using assms by (simp add: association_inv_def)
  then show ?thesis using assms
    by (auto simp: enqueue_message_def Let_def intro!: leaves_done enqueue_fragments_inv)
qed

lemma channels_ok_insert:
  assumes "channels_ok c streams m" and "k mod 2 = 0" and "k < streams"
    and "hm_contains m k \<or> length m < ac_maximum_channels c"
  shows "channels_ok c streams (hm_insert k ch m)"
proof -
  have "i mod 2 = 0 \<and> i < streams" if "(i, x) \<in> set (hm_insert k ch m)" for i x
  proof -
    from that hm_insert_subset [of k ch m] have "(i, x) = (k, ch) \<or> (i, x) \<in> set m" by blast
    then show ?thesis
    proof
      assume "(i, x) = (k, ch)"
      with assms(2,3) show ?thesis by simp
    next
      assume "(i, x) \<in> set m"
      with assms(1) show ?thesis by (auto simp: channels_ok_def)
    qed
  qed
  moreover have "hm_wf (hm_insert k ch m)" using assms(1) by (simp add: channels_ok_def)
  moreover have "length (hm_insert k ch m) \<le> ac_maximum_channels c"
    using assms(1,4) by (auto simp: channels_ok_def hm_length_insert)
  ultimately show ?thesis by (auto simp: channels_ok_def)
qed

lemma send_message_inv:
  assumes "association_inv c s"
  shows "leaves (association_inv c) (send_message now stream_id kind payload s)"
proof (cases "hm_get (as_channels s) stream_id")
  case None
  with assms show ?thesis by (simp add: send_message_def leaves_def)
next
  case (Some channel)
  have "(stream_id, channel) \<in> set (as_channels s)" using Some by (rule map_of_SomeD)
  then have "stream_id mod 2 = 0" "stream_id < as_peer_outbound_streams s"
    using assms by (auto simp: association_inv_def channels_ok_def)
  then have "channels_ok c (as_peer_outbound_streams s) (hm_insert stream_id ch (as_channels s))" for ch
    using assms Some by (intro channels_ok_insert) (simp_all add: association_inv_def hm_contains_def)
  moreover have "as_channels s \<noteq> []" using Some by auto
  ultimately have "association_inv c (s\<lparr>as_channels := hm_insert stream_id ch (as_channels s)\<rparr>)" for ch
    using assms by (auto simp: association_inv_def phase_ok_def)
  with Some assms show ?thesis
    by (auto simp: send_message_def Let_def split: prod.split intro!: leaves_done enqueue_message_inv)
qed

section \<open>Receiving keeps the invariant\<close>

lemma unat_pred: "w \<noteq> 0 \<Longrightarrow> unat (w - 1) = unat w - 1" for w :: "'a::len word"
  by (rule unat_minus_one)

lemma pending_ok_step:
  assumes "pending_ok (Some (t - 1)) p"
  shows "pending_ok (Some t) (hm_remove t p)"
proof -
  have "dc_tsn d = k \<and> 1 \<le> unat (k - t) \<and> unat (k - t) \<le> MAX_PENDING_TSN"
    if kd: "(k, d) \<in> set (hm_remove t p)" for k d
  proof -
    have "(k, d) \<in> set p" "k \<noteq> t" using kd by (auto simp: AList.delete_eq)
    with assms have *: "dc_tsn d = k" "unat (k - (t - 1)) \<le> MAX_PENDING_TSN" by (auto simp: pending_ok_def)
    have "k - t \<noteq> 0" using \<open>k \<noteq> t\<close> by simp
    moreover have "k - (t - 1) = (k - t) + 1" by (simp add: algebra_simps)
    moreover have "k - t + 1 \<noteq> 0"
    proof
      assume "k - t + 1 = 0"
      then have "k - (t - 1) = 0" by (simp add: algebra_simps)
      with assms \<open>(k, d) \<in> set p\<close> show False by (auto simp: pending_ok_def)
    qed
    ultimately have "unat (k - (t - 1)) = unat (k - t) + 1" "unat (k - t) \<noteq> 0"
      using unat_pred [of "k - t + 1"] unat_gt_0 [of "k - t + 1"] unat_eq_0 [of "k - t"] by (simp_all only:) simp_all
    with * show ?thesis by simp
  qed
  moreover have "hm_wf (hm_remove t p)" using assms by (simp add: pending_ok_def)
  ultimately show ?thesis by (auto simp: pending_ok_def)
qed

lemma pending_ok_insert:
  "pending_ok (Some base) p \<Longrightarrow> 1 \<le> unat (dc_tsn d - base) \<Longrightarrow> unat (dc_tsn d - base) \<le> MAX_PENDING_TSN \<Longrightarrow>
     pending_ok (Some base) (hm_insert (dc_tsn d) d p)"
  using hm_insert_subset [of "dc_tsn d" d p] by (fastforce simp: pending_ok_def)

lemma take_consecutive_ok:
  assumes "pending_ok (Some (t - 1)) p" and "take_consecutive t p = (ds, stop, rest)"
  shows "pending_ok (Some (stop - 1)) rest" and "ds = [] \<Longrightarrow> stop = t"
proof -
  have "pending_ok (Some (stop - 1)) rest \<and> (ds = [] \<longrightarrow> stop = t)"
    using assms
  proof (induction t p arbitrary: ds rule: take_consecutive.induct)
    case (1 t p)
    show ?case
    proof (cases "hm_get p t")
      case None
      with 1(2,3) show ?thesis by (simp add: take_consecutive.simps)
    next
      case (Some d)
      with 1(3) obtain ds' where ds: "ds = d # ds'" and tk: "take_consecutive (t + 1) (hm_remove t p) = (ds', stop, rest)"
        by (subst (asm) take_consecutive.simps) (auto split: prod.splits)
      from 1(1) [OF Some _ tk] pending_ok_step [OF 1(2)] ds show ?thesis by simp
    qed
  qed
  then show "pending_ok (Some (stop - 1)) rest" and "ds = [] \<Longrightarrow> stop = t" by simp_all
qed

lemma delta_window:
  fixes delta :: u32
  assumes "\<not> (delta = 0 \<or> delta \<ge> 2147483648)" and "\<not> unat delta > MAX_PENDING_TSN"
  shows "1 \<le> unat delta" and "unat delta \<le> MAX_PENDING_TSN"
  using assms by (simp_all add: Suc_le_eq unat_gt_0)

lemma accept_data_inv:
  assumes "association_inv c s"
  shows "leaves (association_inv c) (accept_data data s)"
proof (cases "as_cumulative_peer_tsn s")
  case None
  with assms show ?thesis by (simp add: accept_data_def leaves_def)
next
  case (Some base)
  let ?delta = "dc_tsn data - base"
  define p where "p = (if hm_contains (as_pending_data s) (dc_tsn data) then as_pending_data s
      else hm_insert (dc_tsn data) data (as_pending_data s))"
  obtain ds stop rest where tk: "take_consecutive (base + 1) p = (ds, stop, rest)" by (cases "take_consecutive (base + 1) p") auto
  have old: "pending_ok (Some base) (as_pending_data s)" using assms Some by (simp add: association_inv_def)
  have "association_inv c (s\<lparr>as_pending_data := rest, as_cumulative_peer_tsn := Some (if ds = [] then base else stop - 1)\<rparr>)"
    if g: "\<not> (?delta = 0 \<or> ?delta \<ge> 2147483648)" "\<not> unat ?delta > MAX_PENDING_TSN"
  proof -
    have "pending_ok (Some base) p" using old pending_ok_insert [OF old delta_window [OF g]] by (simp add: p_def)
    then have "pending_ok (Some (base + 1 - 1)) p" by simp
    from take_consecutive_ok [OF this tk] show ?thesis using assms Some
      by (auto simp: association_inv_def phase_ok_def)
  qed
  with assms Some tk show ?thesis by (auto simp: leaves_def accept_data_def Let_def p_def [symmetric])
qed

lemma reassembly_ok_insert:
  "reassembly_ok c streams rs \<Longrightarrow> length (ra_payload r) \<le> ac_maximum_message_bytes c \<Longrightarrow> stream_id < streams \<Longrightarrow>
     reassembly_ok c streams (hm_insert stream_id r rs)"
  using hm_insert_subset [of stream_id r rs] by (fastforce simp: reassembly_ok_def)

lemma reassembly_ok_remove: "reassembly_ok c streams rs \<Longrightarrow> reassembly_ok c streams (hm_remove k rs)"
  using hm_remove_subset [of k rs] by (fastforce simp: reassembly_ok_def)

lemma reassemble_inv:
  assumes "association_inv c s" and "dc_stream_id data < as_peer_outbound_streams s"
  shows "leaves (association_inv c) (reassemble data begins ends s)"
proof -
  define s1 where "s1 = (if begins then s\<lparr>as_reassembly := hm_insert (dc_stream_id data)
      \<lparr>ra_stream_sequence = dc_stream_sequence data, ra_ppid = dc_ppid data, ra_payload = []\<rparr>
      (as_reassembly s)\<rparr> else s)"
  have s1: "association_inv c s1" "as_peer_outbound_streams s1 = as_peer_outbound_streams s"
    using assms by (simp_all add: s1_def association_inv_def reassembly_ok_insert)
  then have "association_inv c (s1\<lparr>as_reassembly := hm_remove k (as_reassembly s1)\<rparr>)" for k
    by (simp add: association_inv_def reassembly_ok_remove)
  moreover have "association_inv c (s1\<lparr>as_reassembly := hm_insert (dc_stream_id data) r (as_reassembly s1)\<rparr>)"
    if "length (ra_payload r) \<le> ac_maximum_message_bytes (as_config s1)" for r
    using s1 assms(2) that by (simp add: association_inv_def reassembly_ok_insert)
  ultimately show ?thesis using s1
    by (simp add: leaves_def reassemble_def s1_def [symmetric] Let_def split: option.split)
qed

lemma handle_dcep_inv:
  assumes "association_inv c s" and "stream_id < as_peer_outbound_streams s" and "as_peer_verification_tag s \<noteq> None"
  shows "leaves (association_inv c) (handle_dcep now stream_id payload s)"
proof -
  have insert: "association_inv c (s\<lparr>as_channels := hm_insert stream_id ch (as_channels s)\<rparr>)"
    if "\<not> hm_contains (as_channels s) stream_id" "length (as_channels s) < ac_maximum_channels (as_config s)"
      "stream_id mod 2 = 0" for ch
  proof -
    have "channels_ok c (as_peer_outbound_streams s) (hm_insert stream_id ch (as_channels s))"
      using assms that by (intro channels_ok_insert) (simp_all add: association_inv_def)
    with assms show ?thesis by (auto simp: association_inv_def phase_ok_def)
  qed
  show ?thesis unfolding handle_dcep_def
    by (intro leaves_rules leaves_ret enqueue_message_inv assms(1) insert) simp_all
qed

lemma process_data_message_inv:
  assumes "association_inv c s" and "as_peer_verification_tag s \<noteq> None"
  shows "leaves (association_inv c) (process_data_message now data s)"
proof -
  let ?J = "\<lambda>s'. association_inv c s' \<and> as_peer_outbound_streams s' = as_peer_outbound_streams s \<and>
    as_peer_verification_tag s' = as_peer_verification_tag s"
  have r: "leaves ?J (reassemble data b e s)" if "dc_stream_id data < as_peer_outbound_streams s" for b e
    using reassemble_inv [OF assms(1) that, of b e]
    by (auto simp: leaves_def reassemble_def Let_def split: option.split)
  show ?thesis unfolding process_data_message_def Let_def
  proof (intro leaves_if leaves_done assms(1))
    assume st: "\<not> as_peer_outbound_streams s \<le> dc_stream_id data"
    let ?b = "dc_flags data AND FLAG_DATA_BEGIN \<noteq> 0" and ?e = "dc_flags data AND FLAG_DATA_END \<noteq> 0"
    show "leaves (association_inv c) (bind_a (if ?b \<and> ?e then ret_a (dc_payload data)
        else bind_a (reassemble data ?b ?e) (\<lambda>payload. ret_a (case payload of None \<Rightarrow> [] | Some p \<Rightarrow> p)))
      (\<lambda>payload. if \<not> ?e then ret_a no_output
        else if dc_ppid data = PPID_DCEP then handle_dcep now (dc_stream_id data) payload
        else if dc_ppid data = PPID_STRING \<or> dc_ppid data = PPID_BINARY \<or>
            dc_ppid data = PPID_STRING_EMPTY \<or> dc_ppid data = PPID_BINARY_EMPTY
        then (\<lambda>s. (handle_user_message (dc_stream_id data) (dc_ppid data) payload s, s))
        else lift_a (Inl (UnsupportedPpid (dc_ppid data)))) s)"
    proof (rule leaves_bind [where I = ?J])
      show "leaves ?J ((if ?b \<and> ?e then ret_a (dc_payload data)
        else bind_a (reassemble data ?b ?e) (\<lambda>payload. ret_a (case payload of None \<Rightarrow> [] | Some p \<Rightarrow> p))) s)"
        using st assms(1) by (intro leaves_if leaves_done leaves_ret r) auto
    qed (use st assms(2) in \<open>intro leaves_rules handle_dcep_inv, auto\<close>)
  qed
qed


lemma keeps_leaves: "keeps I m \<Longrightarrow> I s \<Longrightarrow> leaves I (m s)"
  by (simp add: keeps_def leaves_def)

text \<open>The invariant of an association whose peer is known.\<close>

definition live_inv :: "association_config \<Rightarrow> association \<Rightarrow> bool" where
  "live_inv c s \<longleftrightarrow> association_inv c s \<and> as_peer_verification_tag s \<noteq> None"

lemma process_data_message_live: "keeps (live_inv c) (process_data_message now data)"
proof (rule keepsI)
  fix s
  assume s: "live_inv c s"
  have "keeps (\<lambda>s. as_peer_verification_tag s \<noteq> None) (process_data_message now data)"
    by (rule process_data_message_keeps) (simp add: untouched_def)
  with s process_data_message_inv [of c s now data]
  show "live_inv c (snd (process_data_message now data s))" by (simp add: live_inv_def keeps_def leaves_def)
qed

lemma process_all_live: "keeps (live_inv c) (process_all now ds)"
  by (induction ds) (auto intro!: keeps_rules process_data_message_live)

lemma sack_keeps: "keeps I sack_a"
  by (simp add: keeps_def sack_a_def)

lemma established_live: "association_inv c s \<Longrightarrow> as_state s = Established \<Longrightarrow> live_inv c s"
  by (auto simp: live_inv_def association_inv_def phase_ok_def)

lemma accept_data_live: "live_inv c s \<Longrightarrow> leaves (live_inv c) (accept_data data s)"
  using accept_data_inv [of c s data]
  by (auto simp: live_inv_def leaves_def accept_data_def Let_def split: option.splits prod.splits)

lemma leaves_mono: "leaves I r \<Longrightarrow> (\<And>s. I s \<Longrightarrow> J s) \<Longrightarrow> leaves J r"
  by (simp add: leaves_def)

lemma handle_data_inv:
  assumes "association_inv c s"
  shows "leaves (association_inv c) (handle_data now flags value s)"
proof (cases "as_state s = Established")
  case True
  have live: "live_inv c s" by (rule established_live [OF assms True])
  have "leaves (live_inv c) (handle_data now flags value s)" unfolding handle_data_def
    by (intro leaves_rules live leaves_bind [OF accept_data_live] keeps_leaves keeps_rules process_all_live sack_keeps) (simp_all add: live)
  then show ?thesis by (rule leaves_mono) (simp add: live_inv_def)
next
  case False
  with assms show ?thesis by (simp add: handle_data_def leaves_def)
qed

section \<open>Acknowledgements and skipped numbers keep the invariant\<close>

lemma outstanding_ok_subset:
  "outstanding_ok c tag outs \<Longrightarrow> set outs' \<subseteq> set outs \<Longrightarrow> bt_wf outs' \<Longrightarrow> outstanding_ok c tag outs'"
  by (auto simp: outstanding_ok_def)

lemma inv_fewer_outstanding:
  assumes "association_inv c s" and "set outs \<subseteq> set (as_outstanding s)" and "bt_wf outs"
    and "length outs \<le> length (as_outstanding s)"
  shows "association_inv c (s\<lparr>as_outstanding := outs\<rparr>)"
  using assms outstanding_ok_subset by (auto simp: association_inv_def)

lemma remove_all_less:
  "set (foldl (\<lambda>m d. hm_remove (f d) m) outs ds) \<subseteq> set outs \<and>
   (bt_wf outs \<longrightarrow> bt_wf (foldl (\<lambda>m d. hm_remove (f d) m) outs ds)) \<and>
   length (foldl (\<lambda>m d. hm_remove (f d) m) outs ds) \<le> length outs"
proof (induction ds arbitrary: outs)
  case (Cons d ds)
  from Cons.IH [of "hm_remove (f d) outs"] hm_remove_subset [of "f d" outs] hm_length_remove [of "f d" outs]
    bt_delete_wf [of outs "f d"] show ?case by auto
qed simp

lemma sack_gap_loop_inv: "keeps (association_inv c) (sack_gap_loop value cumulative index n)"
proof (induction n arbitrary: index)
  case 0
  show ?case by (simp add: keeps_def)
next
  case (Suc n)
  have w: "keeps (association_inv c) (write_a (\<lambda>s. s\<lparr>as_outstanding :=
      foldl (\<lambda>m d. hm_remove (f d) m) (as_outstanding s) ds\<rparr>))" for f and ds :: "nat list"
    by (rule keeps_write, rule inv_fewer_outstanding)
      (use remove_all_less [of f] in \<open>auto simp: association_inv_def outstanding_ok_def\<close>)
  show ?case
    by (rule keepsI, simp only: sack_gap_loop.simps Let_def)
      (rule keepsD [where I = "association_inv c"], intro keeps_rules w Suc.IH)
qed

lemma acknowledge_inv: "association_inv c s \<Longrightarrow> association_inv c (acknowledge cumulative s)"
proof -
  assume s: "association_inv c s"
  let ?f = "\<lambda>(tsn, _). \<not> sequence_less_or_equal tsn cumulative"
  have "outstanding_ok c (as_peer_verification_tag s) (filter ?f (as_outstanding s))"
    by (rule outstanding_ok_subset [of _ _ "as_outstanding s"])
      (use s in \<open>auto simp: association_inv_def outstanding_ok_def bt_filter_wf\<close>)
  moreover have "length (filter ?f (as_outstanding s)) \<le> MAX_OUTSTANDING"
    using s le_trans [OF length_filter_le] unfolding association_inv_def by blast
  ultimately show ?thesis using s by (simp add: acknowledge_def association_inv_def bt_filter_wf)
qed

lemma handle_sack_inv: "keeps (association_inv c) (handle_sack value)"
  by (rule keeps_guard, rule handle_sack_def)
    (intro keeps_rules sack_gap_loop_inv keeps_write acknowledge_inv)

lemma drop_reassemblies_inv: "keeps (association_inv c) (drop_reassemblies value offset n)"
proof (induction n arbitrary: offset)
  case 0
  show ?case by (simp add: keeps_def)
next
  case (Suc n)
  have w: "keeps (association_inv c) (write_a (\<lambda>s. case hm_get (as_reassembly s) stream_id of
      None \<Rightarrow> s | Some r \<Rightarrow> if sequence_less_or_equal_u16 (ra_stream_sequence r) stream_sequence
        then s\<lparr>as_reassembly := hm_remove stream_id (as_reassembly s)\<rparr> else s))" for stream_id stream_sequence
    by (rule keeps_write) (auto simp: association_inv_def reassembly_ok_remove split: option.split)
  show ?case
    by (rule keepsI, simp only: drop_reassemblies.simps)
      (rule keepsD [where I = "association_inv c"], intro keeps_rules w Suc.IH)
qed


lemma unat_neg: "b \<noteq> 0 \<Longrightarrow> unat b + unat (- b) = 2 ^ 32" for b :: u32
proof -
  assume "b \<noteq> 0"
  then have "0 < unat b" "unat b < 4294967296" "unat (- b) < 4294967296"
    using unat_less_u32 by (simp_all add: unat_gt_0)
  moreover have "(unat b + unat (- b)) mod 4294967296 = 0"
    using unat_word_ariths(1) [of b "- b"] by simp
  ultimately show ?thesis by (auto simp: mod_eq_0_iff_dvd elim!: dvdE)
qed

lemma forward_window:
  fixes tsn old_tsn new_tsn :: u32
  assumes "1 \<le> unat (tsn - old_tsn)" and "unat (tsn - old_tsn) \<le> MAX_PENDING_TSN"
    and "\<not> sequence_less_or_equal new_tsn old_tsn" and "\<not> sequence_less_or_equal tsn new_tsn"
  shows "1 \<le> unat (tsn - new_tsn) \<and> unat (tsn - new_tsn) \<le> MAX_PENDING_TSN"
proof -
  let ?a = "tsn - old_tsn" and ?b = "new_tsn - old_tsn"
  have nb: "\<not> - ?b < 2147483648" using assms(3) by (simp add: sequence_less_or_equal_def)
  then have "?b \<noteq> 0" by auto
  with unat_neg [OF this] nb have B: "unat ?b \<le> 2147483648" by (simp add: word_less_nat_alt)
  have d: "new_tsn - tsn = ?b - ?a" "tsn - new_tsn = ?a - ?b" by simp_all
  show ?thesis
  proof (cases "?a \<le> ?b")
    case True
    then have "unat (new_tsn - tsn) = unat ?b - unat ?a" by (simp only: d unat_sub)
    with assms(1) B have "unat (new_tsn - tsn) < 2147483648" by linarith
    with assms(4) show ?thesis by (simp add: sequence_less_or_equal_def word_less_nat_alt)
  next
    case False
    then have "unat (tsn - new_tsn) = unat ?a - unat ?b" by (simp only: d unat_sub)
    with False assms(2) show ?thesis unfolding word_le_nat_alt by linarith
  qed
qed

lemma pending_ok_forward:
  assumes "pending_ok (Some old_tsn) p" and "\<not> sequence_less_or_equal new_tsn old_tsn"
  shows "pending_ok (Some new_tsn) (filter (\<lambda>(tsn, _). \<not> sequence_less_or_equal tsn new_tsn) p)"
proof -
  have "distinct (map fst (filter f p))" for f
    using assms(1) by (simp add: pending_ok_def distinct_map_filter)
  moreover have "dc_tsn d = k \<and> 1 \<le> unat (k - new_tsn) \<and> unat (k - new_tsn) \<le> MAX_PENDING_TSN"
    if "(k, d) \<in> set p" "\<not> sequence_less_or_equal k new_tsn" for k d
    using forward_window [of k old_tsn new_tsn] assms that by (auto simp: pending_ok_def)
  ultimately show ?thesis by (auto simp: pending_ok_def)
qed

lemma forward_loop_inv:
  assumes "live_inv c s" and "as_cumulative_peer_tsn s = Some (tsn - 1)"
  shows "leaves (live_inv c) (forward_loop now tsn out s)"
  using assms
proof (induction now tsn out s rule: forward_loop.induct)
  case (1 now tsn out s)
  show ?case
  proof (cases "hm_get (as_pending_data s) tsn")
    case None
    with 1(2) show ?thesis by (simp add: forward_loop.simps leaves_def)
  next
    case (Some data)
    define s1 where "s1 = s\<lparr>as_pending_data := hm_remove tsn (as_pending_data s)\<rparr>"
    obtain r s2 where p: "process_data_message now data s1 = (r, s2)" by (cases "process_data_message now data s1")
    have step: "pending_ok (Some tsn) (hm_remove tsn (as_pending_data s))"
      using 1(2,3) by (intro pending_ok_step) (simp add: live_inv_def association_inv_def)
    then have "pending_ok (Some (tsn - 1)) (hm_remove tsn (as_pending_data s))"
      using 1(2,3) hm_remove_subset [of tsn "as_pending_data s"]
      by (fastforce simp: live_inv_def association_inv_def pending_ok_def)
    then have l1: "live_inv c s1" using 1(2,3) by (simp add: live_inv_def association_inv_def s1_def)
    with p have l2: "live_inv c s2" using keepsD [OF process_data_message_live l1, of now data] by simp
    have "keeps (\<lambda>s. as_pending_data s = as_pending_data s1) (process_data_message now data)"
      by (rule process_data_message_keeps) (simp add: untouched_def)
    from keepsD [OF this, of s1] p have "as_pending_data s2 = hm_remove tsn (as_pending_data s)" by (simp add: s1_def)
    with l2 step have l3: "live_inv c (s2\<lparr>as_cumulative_peer_tsn := Some tsn\<rparr>)"
      by (auto simp: live_inv_def association_inv_def phase_ok_def)
    show ?thesis
    proof (cases r)
      case (Inl e)
      with Some p l2 show ?thesis by (subst forward_loop.simps) (simp add: Let_def s1_def [symmetric] leaves_def)
    next
      case (Inr out')
      have "leaves (live_inv c) (forward_loop now (tsn + 1) (out_append out out') (s2\<lparr>as_cumulative_peer_tsn := Some tsn\<rparr>))"
        by (rule 1(1) [OF Some s1_def p [symmetric]]) (simp_all add: Inr l3)
      with Some p Inr show ?thesis by (subst forward_loop.simps) (simp add: Let_def s1_def [symmetric])
    qed
  qed
qed

lemma handle_forward_tsn_inv:
  assumes "association_inv c s"
  shows "leaves (association_inv c) (handle_forward_tsn now value s)"
proof (cases "as_state s = Established")
  case True
  have live: "live_inv c s" by (rule established_live [OF assms True])
  then have tag: "as_peer_verification_tag s \<noteq> None" by (simp add: live_inv_def)
  show ?thesis unfolding handle_forward_tsn_def
  proof (intro leaves_rules assms)
    fix new_tsn current
    assume cur: "ok_or UnexpectedState (as_cumulative_peer_tsn s) = Inr current"
    show "leaves (association_inv c) (sack_a s)" using assms by (simp add: sack_a_def leaves_def)
    assume new: "\<not> sequence_less_or_equal new_tsn current"
    let ?I = "\<lambda>s'. live_inv c s' \<and> as_cumulative_peer_tsn s' = Some current"
    have tags: "keeps (\<lambda>s'. as_peer_verification_tag s' \<noteq> None \<and> as_cumulative_peer_tsn s' = Some current)
        (drop_reassemblies value k n)" for k n
    proof (induction n arbitrary: k)
      case (Suc n)
      show ?case
        by (rule keepsI, simp only: drop_reassemblies.simps)
          (rule keepsD, intro keeps_rules keeps_write Suc.IH, auto split: option.split)
    qed (simp add: keeps_def)
    have "leaves ?I (drop_reassemblies value 4 ((length value - 4) div 4) s)"
      using keepsD [OF drop_reassemblies_inv assms] keepsD [OF tags] tag cur
      by (simp add: leaves_def live_inv_def result_simps)
    then show "leaves (association_inv c) (bind_a (drop_reassemblies value 4 ((length value - 4) div 4)) (\<lambda>_.
          bind_a (write_a (\<lambda>s. s\<lparr>as_pending_data :=
              filter (\<lambda>(tsn, _). \<not> sequence_less_or_equal tsn new_tsn) (as_pending_data s),
              as_cumulative_peer_tsn := Some new_tsn\<rparr>)) (\<lambda>_.
          bind_a (forward_loop now (new_tsn + 1) no_output) (\<lambda>out.
          bind_a sack_a (\<lambda>sack. ret_a (out_append out sack))))) s)"
    proof (rule leaves_bind, goal_cases)
      case (1 x s')
      then have "pending_ok (Some new_tsn) (filter (\<lambda>(tsn, _). \<not> sequence_less_or_equal tsn new_tsn) (as_pending_data s'))"
        using new by (intro pending_ok_forward [of current]) (auto simp: live_inv_def association_inv_def)
      with 1 have l: "live_inv c (s'\<lparr>as_pending_data :=
              filter (\<lambda>(tsn, _). \<not> sequence_less_or_equal tsn new_tsn) (as_pending_data s'),
              as_cumulative_peer_tsn := Some new_tsn\<rparr>)"
        by (auto simp: live_inv_def association_inv_def phase_ok_def)
      show ?case
      proof (rule leaves_write, rule leaves_bind [where I = "live_inv c"], rule forward_loop_inv [OF l])
        show "leaves (association_inv c) (bind_a sack_a (\<lambda>sack. ret_a (out_append out sack)) t)"
          if "live_inv c t" for out t
          using that by (intro keeps_leaves keeps_rules sack_keeps) (simp add: live_inv_def)
      qed (simp_all add: live_inv_def)
    qed (simp add: live_inv_def)
  qed
next
  case False
  with assms show ?thesis by (simp add: handle_forward_tsn_def leaves_def)
qed

section \<open>Resets, handshake and packets keep the invariant\<close>

lemma inv_remove_channel:
  "association_inv c s \<Longrightarrow> association_inv c (s\<lparr>as_channels := hm_remove k (as_channels s),
     as_reassembly := hm_remove k (as_reassembly s)\<rparr>)"
  using hm_remove_subset [of k "as_channels s"] hm_length_remove [of k "as_channels s"]
  by (fastforce simp: association_inv_def reassembly_ok_remove channels_ok_def phase_ok_def)

lemma close_each_inv: "association_inv c s \<Longrightarrow> association_inv c (snd (close_each ids s))"
proof (induction ids arbitrary: s)
  case (Cons i ids)
  from Cons.IH [OF inv_remove_channel [OF Cons.prems, of i]] Cons.IH [OF Cons.prems]
  show ?case by (auto simp: Let_def split: prod.split)
qed simp

lemma close_streams_inv: "keeps (association_inv c) (close_streams_a order streams)"
  using close_each_inv by (auto simp: keeps_def close_streams_a_def close_streams_def split: prod.split) (metis snd_conv)

lemma handle_reset_inv:
  "keeps (association_inv c) (handle_outgoing_reset order value response)"
  "keeps (association_inv c) (handle_incoming_reset order value response)"
proof -
  have w: "keeps (association_inv c) (write_a (\<lambda>s. s\<lparr>as_next_peer_reconfig_sequence := f s\<rparr>))"
    "keeps (association_inv c) (write_a (\<lambda>s. s\<lparr>as_next_reconfig_sequence := g s\<rparr>))" for f g
    by (rule keeps_write, simp add: association_inv_def)+
  show "keeps (association_inv c) (handle_outgoing_reset order value response)"
    by (rule keeps_guard, rule handle_outgoing_reset_def) (intro keeps_rules close_streams_inv w)
  show "keeps (association_inv c) (handle_incoming_reset order value response)"
    by (rule keeps_guard, rule handle_incoming_reset_def) (intro keeps_rules close_streams_inv w)
qed

lemma reconfiguration_loop_inv: "keeps (association_inv c) (reconfiguration_loop order ps response events)"
  by (induction ps arbitrary: response events) (auto intro!: keeps_rules handle_reset_inv)

lemma handle_reconfiguration_inv: "keeps (association_inv c) (handle_reconfiguration order value)"
  by (rule keeps_guard, rule handle_reconfiguration_def) (intro keeps_rules reconfiguration_loop_inv)

lemma reset_association_inv:
  "association_inv c s \<Longrightarrow> association_inv c (reset_association tag initial_tsn streams partial s)"
  by (simp add: association_inv_def reset_association_def phase_ok_def)

lemma handle_init_inv: "keeps (association_inv c) (handle_init tag value)"
  by (rule keeps_guard, rule handle_init_def) (intro keeps_rules keeps_write reset_association_inv)

lemma inv_state:
  "association_inv c s \<Longrightarrow> as_peer_verification_tag s \<noteq> None \<Longrightarrow> st \<noteq> Listen \<Longrightarrow> association_inv c (s\<lparr>as_state := st\<rparr>)"
  "association_inv c s \<Longrightarrow> association_inv c (s\<lparr>as_state := Closed\<rparr>)"
  by (auto simp: association_inv_def phase_ok_def)

lemma handle_cookie_echo_inv: "keeps (association_inv c) (handle_cookie_echo tag cookie)"
proof (rule keepsI)
  fix s
  assume s: "association_inv c s"
  have "leaves (association_inv c) (handle_cookie_echo tag cookie s)"
    unfolding handle_cookie_echo_def
    by (intro leaves_rules s) (use s in \<open>auto simp: association_inv_def phase_ok_def\<close>)
  then show "association_inv c (snd (handle_cookie_echo tag cookie s))" by (simp add: leaves_def)
qed


lemma tagged_keeps: "keeps I m \<Longrightarrow> keeps I (tagged tag m)"
  by (auto simp: keeps_def tagged_def bind_a_def lift_a_def split: sum.split)

lemma handle_chunk_inv: "keeps (association_inv c) (handle_chunk order now tag chunk)"
proof -
  have d: "keeps (association_inv c) (handle_data now flags v)"
    "keeps (association_inv c) (handle_forward_tsn now v)" for flags v
    using handle_data_inv handle_forward_tsn_inv by (auto simp: keeps_def leaves_def)
  show ?thesis unfolding handle_chunk_def
    by (intro keeps_rules tagged_keeps d handle_init_inv handle_cookie_echo_inv handle_sack_inv
        handle_reconfiguration_inv keeps_write inv_state)
qed

lemma handle_chunks_inv: "keeps (association_inv c) (handle_chunks order now tag chunks)"
  by (induction chunks) (auto intro!: keeps_rules handle_chunk_inv)

lemma handle_packet_inv: "association_inv c s \<Longrightarrow> association_inv c (snd (handle_packet order now packet s))"
proof -
  assume s: "association_inv c s"
  have "leaves (association_inv c) (handle_packet order now packet s)"
    unfolding handle_packet_def by (intro leaves_rules keeps_leaves handle_chunks_inv s)
  then show ?thesis by (simp add: leaves_def)
qed

section \<open>The clock keeps the invariant\<close>

text \<open>A pass over the outstanding chunks keeps their numbers and packets.\<close>

definition stored :: "(u32, outstanding) btree_map \<Rightarrow> (u32 \<times> bytes) list" where
  "stored outs = map (\<lambda>(tsn, ot). (tsn, ot_packet ot)) outs"

lemma tick_pass_stored: "tick_pass now outs drops out = (outs', drops', out', failed) \<Longrightarrow> stored outs' = stored outs"
proof (induction now outs drops out arbitrary: outs' rule: tick_pass.induct)
  case (2 now tsn ot rest drops out)
  then show ?case by (auto simp: stored_def Let_def split: if_splits prod.splits)
qed (simp add: stored_def)

lemma outstanding_ok_stored: "stored outs' = stored outs \<Longrightarrow> outstanding_ok c tag outs \<Longrightarrow> outstanding_ok c tag outs'"
proof -
  assume eq: "stored outs' = stored outs" and ok: "outstanding_ok c tag outs"
  have "map fst outs = map fst (stored outs)" for outs by (simp add: stored_def split_def comp_def)
  with eq have keys: "map fst outs' = map fst outs" by metis
  have "data_packet c tag k (ot_packet ot)" if "(k, ot) \<in> set outs'" for k ot
  proof -
    from that have "(k, ot_packet ot) \<in> set (stored outs)" unfolding eq [symmetric] by (force simp: stored_def)
    with ok show ?thesis by (auto simp: stored_def outstanding_ok_def)
  qed
  with keys ok show ?thesis by (auto simp: outstanding_ok_def)
qed

lemma length_stored: "length (stored outs) = length outs"
  by (simp add: stored_def)

lemma abandon_message_inv: "association_inv c s \<Longrightarrow> association_inv c (abandon_message message_id s)"
proof -
  assume "association_inv c s"
  moreover have "association_inv c (foldl (\<lambda>s (tsn, ot). s\<lparr>as_outstanding := hm_remove tsn (as_outstanding s),
         as_abandoned := bt_insert tsn \<lparr>ab_stream_id = ot_stream_id ot,
           ab_stream_sequence = ot_stream_sequence ot, ab_ordered = ot_ordered ot\<rparr> (as_abandoned s)\<rparr>) s xs)"
    if "association_inv c s" for s xs using that
  proof (induction xs arbitrary: s)
    case (Cons x xs)
    obtain tsn ot where x: "x = (tsn, ot)" by (cases x)
    have "association_inv c (s\<lparr>as_outstanding := hm_remove tsn (as_outstanding s)\<rparr>)"
      by (rule inv_fewer_outstanding [OF Cons.prems])
        (use Cons.prems hm_remove_subset [of tsn "as_outstanding s"] in \<open>auto simp: association_inv_def outstanding_ok_def bt_delete_wf hm_length_remove\<close>)
    then show ?case by (simp add: x) (rule Cons.IH, simp add: association_inv_def bt_insert_wf)
  qed simp
  ultimately show ?thesis by (simp add: abandon_message_def)
qed

lemma abandon_messages_inv: "association_inv c s \<Longrightarrow> association_inv c (abandon_messages drops s)"
  unfolding abandon_messages_def
  by (induction drops arbitrary: s) (auto simp: abandon_message_inv)

lemma build_forward_tsn_inv: "association_inv c s \<Longrightarrow> association_inv c (snd (build_forward_tsn now s))"
  by (auto simp: build_forward_tsn_def Let_def association_inv_def split: prod.split sum.split)

lemma tick_inv:
  assumes "association_inv c s"
  shows "association_inv c (snd (tick now s))"
proof (cases "as_state s = Established")
  case True
  obtain outs drops out failed where p: "tick_pass now (as_outstanding s) [] no_output = (outs, drops, out, failed)"
    by (metis prod.exhaust)
  from tick_pass_stored [OF p] have st: "stored outs = stored (as_outstanding s)" .
  from arg_cong [OF st, of length] have "length outs = length (as_outstanding s)" by (simp add: length_stored)
  with assms outstanding_ok_stored [OF st] have s1: "association_inv c (s\<lparr>as_outstanding := outs\<rparr>)"
    by (simp add: association_inv_def)
  have "live_inv c s" by (rule established_live [OF assms True])
  then have "association_inv c (s\<lparr>as_outstanding := outs, as_state := Failed\<rparr>)"
    using inv_state(1) [OF s1, of Failed] by (simp add: live_inv_def)
  moreover have "association_inv c (abandon_messages drops (s\<lparr>as_outstanding := outs\<rparr>))"
    by (rule abandon_messages_inv [OF s1])
  moreover note build_forward_tsn_inv [OF this, of now]
  ultimately show ?thesis using True p
    by (auto simp: tick_def Let_def split: prod.split sum.split option.split)
next
  case False
  with assms show ?thesis by (simp add: tick_def)
qed

section \<open>Histories of calls\<close>

datatype as_op =
    Receive key_order duration bytes
  | Send duration u16 message_kind bytes
  | Tick duration

text \<open>One call: the packets and events it produces; a call that fails produces none.\<close>

fun as_step :: "as_op \<Rightarrow> association \<Rightarrow> (bytes list \<times> association_event list) \<times> association" where
  "as_step (Receive order now packet) s =
     (case handle_packet order now packet s of
        (Inl e, s') \<Rightarrow> (([], []), s') | (Inr out, s') \<Rightarrow> ((ao_packets out, ao_events out), s'))"
| "as_step (Send now stream_id kind payload) s =
     (case send_message now stream_id kind payload s of
        (Inl e, s') \<Rightarrow> (([], []), s') | (Inr packets, s') \<Rightarrow> ((packets, []), s'))"
| "as_step (Tick now) s = (case tick now s of (out, s') \<Rightarrow> ((ao_packets out, ao_events out), s'))"

fun as_run :: "as_op list \<Rightarrow> association \<Rightarrow> association" where
  "as_run [] s = s"
| "as_run (op # ops) s = as_run ops (snd (as_step op s))"

lemma as_step_inv: "association_inv c s \<Longrightarrow> association_inv c (snd (as_step op s))"
proof (cases op)
  case (Receive order now packet)
  assume "association_inv c s"
  from handle_packet_inv [OF this, of order now packet] Receive show ?thesis by (auto split: prod.split sum.split)
next
  case (Send now stream_id kind payload)
  assume "association_inv c s"
  from send_message_inv [OF this, of now stream_id kind payload] Send show ?thesis
    by (auto simp: leaves_def split: prod.split sum.split)
next
  case (Tick now)
  assume "association_inv c s"
  from tick_inv [OF this, of now] Tick show ?thesis by (auto split: prod.split)
qed

lemma as_run_inv: "association_inv c s \<Longrightarrow> association_inv c (as_run ops s)"
  by (induction ops arbitrary: s) (simp_all add: as_step_inv)


section \<open>Every reachable association is within its bounds\<close>

lemma association_bounds:
  assumes "association_inv c s"
  shows "as_config s = c \<and>
    length (as_channels s) \<le> ac_maximum_channels c \<and>
    (\<forall>(stream_id, channel)\<in>set (as_channels s). even stream_id \<and> stream_id < as_peer_outbound_streams s) \<and>
    length (as_pending_data s) \<le> MAX_PENDING_TSN \<and>
    (\<forall>(stream_id, r)\<in>set (as_reassembly s). length (ra_payload r) \<le> ac_maximum_message_bytes c) \<and>
    length (as_outstanding s) \<le> MAX_OUTSTANDING \<and>
    (\<forall>(tsn, ot)\<in>set (as_outstanding s). \<exists>tag flags rest. as_peer_verification_tag s = Some tag \<and>
       sctp_parse (ot_packet ot) = Inr \<lparr>pk_source_port = ac_local_port c, pk_destination_port = ac_remote_port c,
         pk_verification_tag = tag, pk_chunks = [\<lparr>pc_kind = TYPE_DATA, pc_flags = flags, pc_value = to_be tsn @ rest\<rparr>]\<rparr>)"
proof -
  have "\<exists>tag flags rest. as_peer_verification_tag s = Some tag \<and>
       sctp_parse (ot_packet ot) = Inr \<lparr>pk_source_port = ac_local_port c, pk_destination_port = ac_remote_port c,
         pk_verification_tag = tag, pk_chunks = [\<lparr>pc_kind = TYPE_DATA, pc_flags = flags, pc_value = to_be tsn @ rest\<rparr>]\<rparr>"
    if m: "(tsn, ot) \<in> set (as_outstanding s)" for tsn ot
  proof -
    from assms m obtain tag flags rest where "as_peer_verification_tag s = Some tag"
      "build_packet (ac_local_port c) (ac_remote_port c) tag TYPE_DATA flags (to_be tsn @ rest) = Inr (ot_packet ot)"
      by (auto simp: association_inv_def outstanding_ok_def data_packet_def)
    with sctp_build_parse show ?thesis by blast
  qed
  moreover have "length (as_pending_data s) \<le> MAX_PENDING_TSN"
    using assms pending_count by (auto simp: association_inv_def)
  ultimately show ?thesis using assms
    by (auto simp: association_inv_def channels_ok_def reassembly_ok_def even_iff_mod_2_eq_zero)
qed

text \<open>C23. Resource bounds. Whatever packets arrive, whatever is sent and however time passes, an
  association never holds more channels than configured, all on even streams the peer has announced,
  never more than 1024 chunks waiting for a gap and 256 unacknowledged ones, and no partial message
  beyond the message limit; every stored packet parses and carries the number it is stored under.\<close>

theorem association_bounded:
  assumes "as_new c = Inr s0" and "s = as_run ops s0"
  shows "as_config s = c \<and>
    length (as_channels s) \<le> ac_maximum_channels c \<and>
    (\<forall>(stream_id, channel)\<in>set (as_channels s). even stream_id \<and> stream_id < as_peer_outbound_streams s) \<and>
    length (as_pending_data s) \<le> 1024 \<and>
    (\<forall>(stream_id, r)\<in>set (as_reassembly s). length (ra_payload r) \<le> ac_maximum_message_bytes c) \<and>
    length (as_outstanding s) \<le> 256 \<and>
    (\<forall>(tsn, ot)\<in>set (as_outstanding s). \<exists>tag flags rest. as_peer_verification_tag s = Some tag \<and>
       sctp_parse (ot_packet ot) = Inr \<lparr>pk_source_port = ac_local_port c, pk_destination_port = ac_remote_port c,
         pk_verification_tag = tag, pk_chunks = [\<lparr>pc_kind = TYPE_DATA, pc_flags = flags, pc_value = to_be tsn @ rest\<rparr>]\<rparr>)"
  using association_bounds [OF as_run_inv [OF as_new_inv [OF assms(1)]], of ops]
  by (simp add: assms(2) MAX_PENDING_TSN_def MAX_OUTSTANDING_def)

definition sample_config :: association_config where
  "sample_config = \<lparr>ac_local_port = 5000, ac_remote_port = 5000, ac_verification_tag = 7, ac_initial_tsn = 100,
     ac_cookie = replicate 16 85, ac_maximum_channels = 4, ac_maximum_message_bytes = 1024\<rparr>"

theorem association_bounded_witness:
  "\<exists>s0. as_new sample_config = Inr s0 \<and> length (as_channels (as_run [Tick 5] s0)) \<le> 4 \<and>
     length (as_outstanding (as_run [Tick 5] s0)) \<le> 256"
proof -
  obtain s0 where s0: "as_new sample_config = Inr s0"
    by (simp add: as_new_def ac_validate_def sample_config_def Let_def)
  from association_bounded [OF s0 refl, of "[Tick 5]"] s0 show ?thesis by (simp add: sample_config_def)
qed

end
