(* ===== verification/Data_Channel.thy ===== *)
theory Data_Channel
  imports Sctp_Invariant
begin

text \<open>
  What a data channel promises to its user, over the association of
  \<open>crates/webrtc/data-channel/src/lib.rs\<close>: chunks are delivered once and in order whatever the network
  does to them, a message that is sent is received, and nothing is delivered before the handshake.
\<close>

section \<open>In order, exactly once\<close>

fun accept_run :: "data_chunk list \<Rightarrow> association \<Rightarrow> data_chunk list \<times> association" where
  "accept_run [] s = ([], s)"
| "accept_run (data # rest) s =
     (let (r, s1) = accept_data data s; (out, s2) = accept_run rest s1
      in ((case r of Inl e \<Rightarrow> [] | Inr deliverable \<Rightarrow> deliverable) @ out, s2))"

text \<open>The chunks of a stream, numbered from the one after \<open>base\<close>.\<close>

definition numbered :: "u32 \<Rightarrow> data_chunk list \<Rightarrow> bool" where
  "numbered base xs \<longleftrightarrow> length xs < 2 ^ 31 \<and> (\<forall>i<length xs. dc_tsn (xs ! i) = base + 1 + word_of_nat i)"

lemma tsn_inj:
  fixes base :: u32
  assumes "base + 1 + word_of_nat i = base + 1 + word_of_nat j" and "i < 2 ^ 31" and "j < 2 ^ 31"
  shows "i = j"
proof -
  from assms(1) have "(word_of_nat i :: u32) = word_of_nat j" by simp
  then have "unat (word_of_nat i :: u32) = unat (word_of_nat j :: u32)" by simp
  with assms(2,3) show ?thesis by (simp add: unat_word_of_nat_less)
qed

text \<open>What is waiting when the first \<open>n\<close> chunks have been delivered.\<close>

definition waiting :: "u32 \<Rightarrow> data_chunk list \<Rightarrow> nat \<Rightarrow> (u32, data_chunk) hash_map \<Rightarrow> bool" where
  "waiting base xs n p \<longleftrightarrow> hm_wf p \<and> (\<forall>(tsn, d)\<in>set p. \<exists>i. n \<le> i \<and> i < length xs \<and>
     tsn = base + 1 + word_of_nat i \<and> d = xs ! i)"

lemma waiting_get:
  assumes "waiting base xs n p" and "numbered base xs" and "hm_get p (base + 1 + word_of_nat i) = Some d" and "i \<le> length xs"
  shows "n \<le> i" and "i < length xs" and "d = xs ! i"
proof -
  from map_of_SomeD [OF assms(3)] assms(1) obtain j where j: "n \<le> j" "j < length xs"
    "base + 1 + word_of_nat i = base + 1 + word_of_nat j" "d = xs ! j" by (auto simp: waiting_def)
  have "i < 2 ^ 31" "j < 2 ^ 31" using assms(2,4) j(2) by (simp_all add: numbered_def)
  with tsn_inj [OF j(3)] have "i = j" by blast
  with j show "n \<le> i" and "i < length xs" and "d = xs ! i" by simp_all
qed

lemma waiting_take:
  assumes "waiting base xs n p" and "numbered base xs" and "n \<le> length xs"
    and "take_consecutive (base + 1 + word_of_nat n) p = (ds, stop, rest)"
  shows "\<exists>m. n \<le> m \<and> m \<le> length xs \<and> ds = drop n (take m xs) \<and> stop = base + 1 + word_of_nat m \<and>
    waiting base xs m rest \<and> hm_get rest stop = None \<and>
    (\<forall>i. m \<le> i \<longrightarrow> i < length xs \<longrightarrow> hm_get rest (base + 1 + word_of_nat i) = hm_get p (base + 1 + word_of_nat i))"
  using assms
proof (induction "base + 1 + word_of_nat n :: u32" p arbitrary: n ds rule: take_consecutive.induct)
  case (1 p)
  let ?t = "base + 1 + word_of_nat n :: u32"
  show ?case
  proof (cases "hm_get p ?t")
    case None
    with 1 show ?thesis by (intro exI [of _ n]) (simp add: take_consecutive.simps)
  next
    case (Some d)
    from waiting_get [OF 1(2,3) Some 1(4)] have n: "n < length xs" "d = xs ! n" by simp_all
    from Some 1(5) obtain ds' where ds: "ds = d # ds'" and tk: "take_consecutive (?t + 1) (hm_remove ?t p) = (ds', stop, rest)"
      by (subst (asm) take_consecutive.simps) (auto split: prod.splits)
    have t: "?t + 1 = base + 1 + word_of_nat (Suc n)" by (simp add: algebra_simps)
    have "waiting base xs (Suc n) (hm_remove ?t p)"
    proof -
      have "\<exists>i\<ge>Suc n. i < length xs \<and> tsn = base + 1 + word_of_nat i \<and> e = xs ! i"
        if m: "(tsn, e) \<in> set (hm_remove ?t p)" for tsn e
      proof -
        from m have "(tsn, e) \<in> set p" "tsn \<noteq> ?t" by (auto simp: AList.delete_eq)
        with 1(2) obtain i where "n \<le> i" "i < length xs" "tsn = base + 1 + word_of_nat i" "e = xs ! i"
          by (auto simp: waiting_def)
        moreover with \<open>tsn \<noteq> ?t\<close> have "i \<noteq> n" by auto
        ultimately show ?thesis by (intro exI [of _ i]) simp
      qed
      moreover have "hm_wf (hm_remove ?t p)" using 1(2) by (simp add: waiting_def)
      ultimately show ?thesis by (auto simp: waiting_def)
    qed
    from 1(1) [OF Some t this 1(3) _ tk [unfolded t]] n(1) obtain m where
      m: "Suc n \<le> m" "m \<le> length xs" "ds' = drop (Suc n) (take m xs)" "stop = base + 1 + word_of_nat m"
        "waiting base xs m rest" "hm_get rest stop = None"
        "\<forall>i. m \<le> i \<longrightarrow> i < length xs \<longrightarrow> hm_get rest (base + 1 + word_of_nat i) = hm_get (hm_remove ?t p) (base + 1 + word_of_nat i)"
      by auto
    have "ds = drop n (take m xs)" using m(1,2,3) n
      by (simp add: ds) (metis Cons_nth_drop_Suc length_take min.absorb2 nth_take order_less_le_trans Suc_le_lessD)
    moreover have "base + 1 + word_of_nat i \<noteq> ?t" if "m \<le> i" "i < length xs" for i
      using tsn_inj [of base i n] that m(1,2) 1(3) by (auto simp: numbered_def)
    ultimately show ?thesis using m by (intro exI [of _ m]) simp
  qed
qed


definition received :: "u32 \<Rightarrow> data_chunk list \<Rightarrow> nat \<Rightarrow> association \<Rightarrow> bool" where
  "received base xs n s \<longleftrightarrow> n \<le> length xs \<and> as_cumulative_peer_tsn s = Some (base + word_of_nat n) \<and>
     waiting base xs n (as_pending_data s) \<and> hm_get (as_pending_data s) (base + 1 + word_of_nat n) = None"

text \<open>Chunk \<open>i\<close> has been delivered or waits for its turn.\<close>

definition kept :: "u32 \<Rightarrow> nat \<Rightarrow> association \<Rightarrow> nat \<Rightarrow> bool" where
  "kept base n s i \<longleftrightarrow> i < n \<or> hm_get (as_pending_data s) (base + 1 + word_of_nat i) \<noteq> None"

lemma delta_old:
  fixes base :: u32
  assumes "j < n" and "n < 2 ^ 31"
  defines "delta \<equiv> (base + 1 + word_of_nat j) - (base + word_of_nat n)"
  shows "delta = 0 \<or> delta \<ge> 2147483648"
proof -
  obtain k where k: "n = Suc (j + k)" using assms(1) less_imp_Suc_add by blast
  have d: "delta = - word_of_nat k" by (simp add: delta_def k)
  have u: "unat (word_of_nat k :: u32) = k" using assms(2) k by (simp add: unat_word_of_nat_less)
  show ?thesis
  proof (cases "(word_of_nat k :: u32) = 0")
    case True
    then show ?thesis by (simp add: d)
  next
    case False
    from unat_neg [OF this] u assms(2) k have "2147483648 \<le> unat delta" by (simp add: d)
    then show ?thesis by (simp add: word_le_nat_alt)
  qed
qed

lemma delta_new:
  fixes base :: u32
  assumes "n \<le> j" and "j < 2 ^ 31 - 1"
  defines "delta \<equiv> (base + 1 + word_of_nat j) - (base + word_of_nat n)"
  shows "unat delta = Suc (j - n)" and "\<not> (delta = 0 \<or> delta \<ge> 2147483648)"
proof -
  obtain k where k: "j = n + k" using assms(1) le_Suc_ex by blast
  have "delta = word_of_nat (Suc k)" by (simp add: delta_def k)
  then have u: "unat delta = Suc k" using assms(2) k by (simp only:) (rule unat_word_of_nat_less, simp)
  with k show "unat delta = Suc (j - n)" by simp
  show "\<not> (delta = 0 \<or> delta \<ge> 2147483648)"
    using u assms(2) k by (auto simp: word_le_nat_alt)
qed

lemma waiting_count:
  assumes "waiting base xs n p" and "numbered base xs" and "hm_get p (base + 1 + word_of_nat n) = None"
  shows "length p \<le> length xs - Suc n"
proof -
  let ?g = "\<lambda>i. base + 1 + word_of_nat i :: u32"
  have "fst ` set p \<subseteq> ?g ` {Suc n ..< length xs}"
  proof
    fix t
    assume t: "t \<in> fst ` set p"
    then obtain d where "(t, d) \<in> set p" by auto
    with assms(1) obtain i where i: "n \<le> i" "i < length xs" "t = ?g i" by (fastforce simp: waiting_def)
    have "i \<noteq> n" using t assms(3) i(3) by (auto simp: map_of_eq_None_iff)
    with i show "t \<in> ?g ` {Suc n ..< length xs}" by auto
  qed
  then have "card (fst ` set p) \<le> card (?g ` {Suc n ..< length xs})" by (intro card_mono) simp_all
  also have "\<dots> \<le> card {Suc n ..< length xs}" by (rule card_image_le) simp
  finally have "card (set (map fst p)) \<le> length xs - Suc n" by simp
  moreover have "distinct (map fst p)" using assms(1) by (simp add: waiting_def)
  ultimately show ?thesis by (metis distinct_card length_map)
qed

lemma accept_data_ok:
  assumes "as_cumulative_peer_tsn s = Some cum"
    and "\<not> (dc_tsn data - cum = 0 \<or> dc_tsn data - cum \<ge> 2147483648)"
    and "\<not> (unat (dc_tsn data - cum) > MAX_PENDING_TSN \<or>
      length (as_pending_data s) \<ge> MAX_PENDING_TSN \<and> \<not> hm_contains (as_pending_data s) (dc_tsn data))"
    and "take_consecutive (cum + 1) (if hm_contains (as_pending_data s) (dc_tsn data) then as_pending_data s
      else hm_insert (dc_tsn data) data (as_pending_data s)) = (ds, stop, rest)"
  shows "accept_data data s = (Inr ds, s\<lparr>as_pending_data := rest,
    as_cumulative_peer_tsn := Some (if ds = [] then cum else stop - 1)\<rparr>)"
  using assms(2-4) unfolding accept_data_def assms(1) option.case Let_def by (simp only: if_False de_Morgan_disj prod.case) auto

lemma accept_data_received:
  assumes "received base xs n s" and "numbered base xs" and "j < length xs" and "accept_data (xs ! j) s = (r, s1)"
  shows "\<exists>m. n \<le> m \<and> received base xs m s1 \<and>
    (case r of Inl e \<Rightarrow> [] | Inr deliverable \<Rightarrow> deliverable) = drop n (take m xs) \<and>
    (length xs \<le> MAX_PENDING_TSN \<longrightarrow> kept base m s1 j \<and> (\<forall>i<length xs. kept base n s i \<longrightarrow> kept base m s1 i))"
proof -
  let ?c = "base + word_of_nat n :: u32" and ?p = "as_pending_data s" and ?t = "base + 1 + word_of_nat j :: u32"
  have cum: "as_cumulative_peer_tsn s = Some ?c" and w: "waiting base xs n ?p" and n: "n \<le> length xs"
    and next_None: "hm_get ?p (base + 1 + word_of_nat n) = None" using assms(1) by (simp_all add: received_def)
  have len: "length xs < 2 ^ 31" and tsn: "dc_tsn (xs ! j) = ?t" using assms(2,3) by (simp_all add: numbered_def)
  have stay: "s1 = s \<Longrightarrow> (case r of Inl e \<Rightarrow> [] | Inr deliverable \<Rightarrow> deliverable) = [] \<Longrightarrow>
      (length xs \<le> MAX_PENDING_TSN \<longrightarrow> kept base n s j) \<Longrightarrow> ?thesis"
    using assms(1) by (intro exI [of _ n]) simp
  show ?thesis
  proof (cases "j < n")
    case True
    from delta_old [OF True, of base] n len have "?t - ?c = 0 \<or> ?t - ?c \<ge> 2147483648" by simp
    with assms(4) cum tsn True show ?thesis by (intro stay) (auto simp: accept_data_def Let_def kept_def)
  next
    case False
    note d = delta_new [of n j base]
    have jn: "n \<le> j" "j < 2 ^ 31 - 1" using False assms(3) len by simp_all
    show ?thesis
    proof (cases "unat (?t - ?c) > MAX_PENDING_TSN \<or> (length ?p \<ge> MAX_PENDING_TSN \<and> \<not> hm_contains ?p ?t)")
      case True
      have "\<not> length xs \<le> MAX_PENDING_TSN"
        using True d(1) [OF jn] waiting_count [OF w assms(2) next_None] assms(3) by auto
      moreover have "accept_data (xs ! j) s = (Inl ReceiveWindowExceeded, s)"
        using True d(2) [OF jn] cum by (auto simp: accept_data_def tsn Let_def)
      ultimately show ?thesis using assms(4) by (intro stay) auto
    next
      case ok: False
      define p where "p = (if hm_contains ?p ?t then ?p else hm_insert ?t (xs ! j) ?p)"
      obtain ds stop rest where tk: "take_consecutive (?c + 1) p = (ds, stop, rest)"
        by (cases "take_consecutive (?c + 1) p") auto
      have c1: "?c + 1 = base + 1 + word_of_nat n" by simp
      have wp: "waiting base xs n p"
        using w hm_insert_subset [of ?t "xs ! j" ?p] jn(1) assms(3)
        by (fastforce simp: p_def waiting_def)
      from waiting_take [OF wp assms(2) n tk [unfolded c1]] obtain m where
        m: "n \<le> m" "m \<le> length xs" "ds = drop n (take m xs)" "stop = base + 1 + word_of_nat m"
          "waiting base xs m rest" "hm_get rest stop = None"
          "\<forall>i. m \<le> i \<longrightarrow> i < length xs \<longrightarrow> hm_get rest (base + 1 + word_of_nat i) = hm_get p (base + 1 + word_of_nat i)"
        by blast
      have "r = Inr ds" and s1: "s1 = s\<lparr>as_pending_data := rest,
          as_cumulative_peer_tsn := Some (if ds = [] then ?c else stop - 1)\<rparr>"
        using assms(4) accept_data_ok [OF cum, of "xs ! j" ds stop rest, unfolded tsn, OF d(2) [OF jn] ok tk [unfolded p_def]]
        by simp_all
      have "(if ds = [] then ?c else stop - 1) = base + word_of_nat m" using m(1-4) by auto
      with s1 have "as_pending_data s1 = rest" "as_cumulative_peer_tsn s1 = Some (base + word_of_nat m)" by simp_all
      with m(2,4,5,6) have rec: "received base xs m s1" by (simp only: received_def)
      have keep: "kept base m s1 i" if "i < length xs" "i < n \<or> hm_get p (base + 1 + word_of_nat i) \<noteq> None" for i
        using that m(1,7) \<open>as_pending_data s1 = rest\<close> by (cases "m \<le> i") (auto simp: kept_def)
      have "hm_get p ?t \<noteq> None" by (simp add: p_def hm_contains_def)
      with keep [OF assms(3)] have "kept base m s1 j" by simp
      moreover have "kept base m s1 i" if "i < length xs" "kept base n s i" for i
        by (rule keep [OF that(1)]) (use that(2) in \<open>auto simp: kept_def p_def\<close>)
      ultimately show ?thesis using m(1,3) rec \<open>r = Inr ds\<close> by (intro exI [of _ m]) simp
    qed
  qed
qed

lemma accept_run_received:
  assumes "received base xs n s" and "numbered base xs" and "set ds \<subseteq> set xs" and "accept_run ds s = (out, s')"
  shows "\<exists>m. n \<le> m \<and> received base xs m s' \<and> out = drop n (take m xs) \<and>
    (length xs \<le> MAX_PENDING_TSN \<longrightarrow>
       (\<forall>i<length xs. (kept base n s i \<or> xs ! i \<in> set ds) \<longrightarrow> kept base m s' i))"
  using assms
proof (induction ds arbitrary: n s out)
  case Nil
  then show ?case by (intro exI [of _ n]) auto
next
  case (Cons d ds)
  from Cons.prems(3) obtain j where j: "j < length xs" "d = xs ! j" by (auto simp: in_set_conv_nth)
  obtain r s1 where a: "accept_data (xs ! j) s = (r, s1)" by (cases "accept_data (xs ! j) s")
  obtain out' where b: "accept_run ds s1 = (out', s')"
    and out: "out = (case r of Inl e \<Rightarrow> [] | Inr deliverable \<Rightarrow> deliverable) @ out'"
    using Cons.prems(4) a j(2) by (auto split: prod.splits)
  from accept_data_received [OF Cons.prems(1,2) j(1) a] obtain k where
    k: "n \<le> k" "received base xs k s1" "(case r of Inl e \<Rightarrow> [] | Inr deliverable \<Rightarrow> deliverable) = drop n (take k xs)"
      "length xs \<le> MAX_PENDING_TSN \<longrightarrow> kept base k s1 j \<and> (\<forall>i<length xs. kept base n s i \<longrightarrow> kept base k s1 i)" by blast
  from Cons.IH [OF k(2) Cons.prems(2) _ b] Cons.prems(3) obtain m where
    m: "k \<le> m" "received base xs m s'" "out' = drop k (take m xs)" "length xs \<le> MAX_PENDING_TSN \<longrightarrow>
       (\<forall>i<length xs. (kept base k s1 i \<or> xs ! i \<in> set ds) \<longrightarrow> kept base m s' i)" by auto
  have "out = drop n (take m xs)"
  proof -
    have "drop n (take k xs) @ drop k (take m xs) = drop n (take k (take m xs) @ drop k (take m xs))"
      using k(1,2) m(1) by (simp add: received_def min_def)
    then show ?thesis by (simp only: out k(3) m(3) append_take_drop_id)
  qed
  moreover have "kept base m s' i" if "length xs \<le> MAX_PENDING_TSN" "i < length xs"
      "kept base n s i \<or> xs ! i \<in> set (d # ds)" for i
  proof -
    have "dc_tsn (xs ! i) = base + 1 + word_of_nat i" "dc_tsn (xs ! j) = base + 1 + word_of_nat j"
      "i < 2 ^ 31" "j < 2 ^ 31" using Cons.prems(2) that(2) j(1) by (simp_all add: numbered_def)
    then have "xs ! i = xs ! j \<Longrightarrow> i = j" using tsn_inj [of base i j] by simp
    with that k(4) m(4) j(2) show ?thesis by auto
  qed
  ultimately show ?case using k(1) m(1,2) by (intro exI [of _ m]) auto
qed

text \<open>C24. In order and exactly once. When the chunks of a stream arrive, in any order and with any
  repetitions, what is delivered is a prefix of the stream. When all of them, at most a window of 1024,
  have arrived, the whole stream has been delivered and nothing is left waiting.\<close>

theorem data_in_order_exactly_once:
  assumes "as_cumulative_peer_tsn s = Some base" and "as_pending_data s = []" and "length xs < 2 ^ 31"
    and "\<forall>i<length xs. dc_tsn (xs ! i) = base + 1 + word_of_nat i" and "set ds \<subseteq> set xs"
  shows "\<exists>m\<le>length xs. fst (accept_run ds s) = take m xs \<and>
    as_cumulative_peer_tsn (snd (accept_run ds s)) = Some (base + word_of_nat m) \<and>
    (length xs \<le> 1024 \<and> set ds = set xs \<longrightarrow> m = length xs \<and> as_pending_data (snd (accept_run ds s)) = [])"
proof -
  obtain out s' where run: "accept_run ds s = (out, s')" by (cases "accept_run ds s")
  have num: "numbered base xs" using assms(3,4) by (simp add: numbered_def)
  have "received base xs 0 s" using assms(1,2) by (simp add: received_def waiting_def)
  from accept_run_received [OF this num assms(5) run] obtain m where
    m: "received base xs m s'" "out = take m xs" "length xs \<le> MAX_PENDING_TSN \<longrightarrow>
       (\<forall>i<length xs. xs ! i \<in> set ds \<longrightarrow> kept base m s' i)" by auto
  have "m = length xs \<and> as_pending_data s' = []" if all: "length xs \<le> 1024" "set ds = set xs"
  proof -
    have "m = length xs"
    proof (rule ccontr)
      assume "m \<noteq> length xs"
      with m(1) have "m < length xs" by (simp add: received_def)
      with m(3) all have "kept base m s' m" by (simp add: MAX_PENDING_TSN_def)
      with m(1) show False by (simp add: kept_def received_def)
    qed
    with waiting_count [OF _ num, of m "as_pending_data s'"] m(1) show ?thesis by (simp add: received_def)
  qed
  with m(1,2) run show ?thesis by (intro exI [of _ m]) (simp add: received_def)
qed

definition sample_chunk :: "u32 \<Rightarrow> data_chunk" where
  "sample_chunk tsn = \<lparr>dc_flags = 3, dc_tsn = tsn, dc_stream_id = 0, dc_stream_sequence = 0, dc_ppid = 53,
     dc_payload = [1]\<rparr>"

theorem data_in_order_exactly_once_witness:
  "\<exists>s. as_cumulative_peer_tsn s = Some 10 \<and>
     fst (accept_run [sample_chunk 12, sample_chunk 12, sample_chunk 11] s) = [sample_chunk 11, sample_chunk 12]"
proof -
  obtain s0 where "as_new sample_config = Inr s0"
    by (simp add: as_new_def ac_validate_def sample_config_def Let_def)
  define s where "s = s0\<lparr>as_cumulative_peer_tsn := Some 10, as_pending_data := []\<rparr>"
  let ?xs = "[sample_chunk 11, sample_chunk 12]" and ?ds = "[sample_chunk 12, sample_chunk 12, sample_chunk 11]"
  have "\<forall>i<length ?xs. dc_tsn (?xs ! i) = 10 + 1 + word_of_nat i"
    by (simp add: sample_chunk_def less_Suc_eq numeral_2_eq_2)
  from data_in_order_exactly_once [OF _ _ _ this, of s ?ds]
  have "fst (accept_run ?ds s) = ?xs" by (auto simp: s_def insert_commute)
  then show ?thesis by (intro exI [of _ s]) (simp add: s_def)
qed


section \<open>Messages arrive\<close>

text \<open>Two associations whose next DATA chunk from \<open>a\<close> is the one \<open>b\<close> waits for.\<close>

definition in_step :: "association \<Rightarrow> association \<Rightarrow> bool" where
  "in_step a b \<longleftrightarrow> ac_local_port (as_config a) = ac_remote_port (as_config b) \<and>
     ac_remote_port (as_config a) = ac_local_port (as_config b) \<and>
     as_peer_verification_tag a = Some (ac_verification_tag (as_config b)) \<and>
     as_state b = Established \<and> as_peer_verification_tag b \<noteq> None \<and>
     as_cumulative_peer_tsn b = Some (as_next_tsn a - 1) \<and> as_pending_data b = []"

fun receive_all :: "key_order \<Rightarrow> duration \<Rightarrow> bytes list \<Rightarrow> association_event list act" where
  "receive_all order now [] = ret_a []"
| "receive_all order now (packet # packets) =
     bind_a (handle_packet order now packet) (\<lambda>out.
     bind_a (receive_all order now packets) (\<lambda>events. ret_a (ao_events out @ events)))"

lemma build_packet_ok: "length v \<le> 65000 \<Longrightarrow> \<exists>p. build_packet sp dp tag kind flags v = Inr p"
  using pad4_less [of "4 + length v"] by (auto simp: build_packet_def Let_def header_lens round_up4_pad)

lemma build_sack_ok:
  assumes "as_peer_verification_tag s \<noteq> None" and "as_cumulative_peer_tsn s = Some base" and "as_pending_data s = []"
  shows "\<exists>p. sack_a s = (Inr (out_packet p), s)"
proof -
  obtain tag where "as_peer_verification_tag s = Some tag" using assms(1) by blast
  moreover have "\<exists>p. build_packet (ac_local_port (as_config s)) (ac_remote_port (as_config s)) tag TYPE_SACK 0
      (to_be base @ to_be DEFAULT_RECEIVE_WINDOW @ to_be (0 :: u16) @ to_be (0 :: u16)) = Inr p"
    by (rule build_packet_ok) simp
  then obtain p where "build_packet (ac_local_port (as_config s)) (ac_remote_port (as_config s)) tag TYPE_SACK 0
      (to_be base @ to_be DEFAULT_RECEIVE_WINDOW @ to_be (0 :: u16) @ to_be (0 :: u16)) = Inr p" by blast
  ultimately have "build_sack s = Inr p" using assms(2,3)
    by (simp add: build_sack_def sack_deltas_def packet_to_peer_def peer_tag_def packet_with_chunk_def Let_def List.map_filter_simps)
  then show ?thesis by (auto simp: sack_a_def)
qed

definition chunk_of :: "u8 \<Rightarrow> u32 \<Rightarrow> outbound_message \<Rightarrow> bytes \<Rightarrow> data_chunk" where
  "chunk_of flags tsn message fragment = \<lparr>dc_flags = flags, dc_tsn = tsn, dc_stream_id = om_stream_id message,
     dc_stream_sequence = om_stream_sequence message, dc_ppid = om_ppid message, dc_payload = fragment\<rparr>"

lemma data_value_reads:
  "sctp_read_u32 (data_value tsn message fragment) 0 = Inr tsn"
  "sctp_read_u16 (data_value tsn message fragment) 4 = Inr (om_stream_id message)"
  "sctp_read_u16 (data_value tsn message fragment) 6 = Inr (om_stream_sequence message)"
  "sctp_read_u32 (data_value tsn message fragment) 8 = Inr (om_ppid message)"
  "drop 12 (data_value tsn message fragment) = fragment" "12 \<le> length (data_value tsn message fragment)"
  by (simp_all add: data_value_def sctp_read_u16_def sctp_read_u32_def wire_reads)

lemma accept_next:
  assumes "as_cumulative_peer_tsn b = Some (tsn - 1)" and "as_pending_data b = []" and "dc_tsn data = tsn"
  shows "accept_data data b = (Inr [data], b\<lparr>as_cumulative_peer_tsn := Some tsn\<rparr>)"
proof -
  have d: "dc_tsn data - (tsn - 1) = 1" using assms(3) by simp
  have tk: "take_consecutive tsn [(tsn, data)] = ([data], tsn + 1, [])"
    by (simp add: take_consecutive.simps)
  have "accept_data data b = (Inr [data], b\<lparr>as_pending_data := [],
      as_cumulative_peer_tsn := Some (if [data] = [] then tsn - 1 else tsn + 1 - 1)\<rparr>)"
    by (rule accept_data_ok [OF assms(1)])
      (simp_all add: d assms(2,3) tk MAX_PENDING_TSN_def hm_contains_def word_le_nat_alt)
  with assms(2) show ?thesis by simp
qed

lemma handle_data_packet:
  assumes "build_packet (ac_remote_port (as_config b)) (ac_local_port (as_config b)) (ac_verification_tag (as_config b))
      TYPE_DATA flags (data_value tsn message fragment) = Inr packet"
    and "as_state b = Established" and "as_cumulative_peer_tsn b = Some (tsn - 1)" and "as_pending_data b = []"
    and "as_peer_verification_tag b \<noteq> None"
    and "process_data_message now (chunk_of flags tsn message fragment) (b\<lparr>as_cumulative_peer_tsn := Some tsn\<rparr>) = (Inr out, b')"
  shows "\<exists>out'. handle_packet order now packet b = (Inr out', b') \<and> ao_events out' = ao_events out \<and>
    as_pending_data b' = [] \<and> as_cumulative_peer_tsn b' = Some tsn \<and> as_peer_verification_tag b' \<noteq> None \<and>
    as_state b' = Established \<and> as_config b' = as_config b \<and> as_peer_outbound_streams b' = as_peer_outbound_streams b"
proof -
  let ?b1 = "b\<lparr>as_cumulative_peer_tsn := Some tsn\<rparr>" and ?d = "chunk_of flags tsn message fragment"
  have frame: "as_pending_data b' = [] \<and> as_cumulative_peer_tsn b' = Some tsn \<and> as_peer_verification_tag b' \<noteq> None \<and>
    as_state b' = Established \<and> as_config b' = as_config b \<and> as_peer_outbound_streams b' = as_peer_outbound_streams b"
  proof -
    let ?I = "\<lambda>s. as_pending_data s = [] \<and> as_cumulative_peer_tsn s = Some tsn \<and> as_peer_verification_tag s \<noteq> None \<and>
      as_state s = Established \<and> as_config s = as_config b \<and> as_peer_outbound_streams s = as_peer_outbound_streams b"
    have "keeps ?I (process_data_message now ?d)"
      by (rule process_data_message_keeps) (simp add: untouched_def)
    from keepsD [OF this, of ?b1] assms show ?thesis by simp
  qed
  then obtain p where sack: "sack_a b' = (Inr (out_packet p), b')" using build_sack_ok [of b' tsn] by auto
  have acc: "accept_data ?d b = (Inr [?d], ?b1)" by (rule accept_next [OF assms(3,4)]) (simp add: chunk_of_def)
  have "process_all now [?d] ?b1 = (Inr (out_append out no_output), b')"
    using assms(6) by (simp add: bind_a_def ret_a_def)
  then have hd: "handle_data now flags (data_value tsn message fragment) b =
      (Inr (out_append (out_append out no_output) (out_packet p)), b')"
    using assms(2) acc sack data_value_reads(6) [of tsn message fragment]
    by (simp add: handle_data_def data_value_reads chunk_of_def bind_a_def ret_a_def not_less)
  have "handle_packet order now packet b =
      (Inr (out_append (out_append (out_append out no_output) (out_packet p)) no_output), b')"
    using hd by (simp add: handle_packet_def sctp_build_parse [OF assms(1)] handle_chunk_def tagged_def
        require_verification_tag_def chunk_types bind_a_def ret_a_def lift_a_def)
  with frame show ?thesis by (simp add: out_append_def no_output_def out_packet_def)
qed

lemma data_flags_bits:
  "(data_flags ordered begins ends AND FLAG_DATA_BEGIN \<noteq> 0) = begins"
  "(data_flags ordered begins ends AND FLAG_DATA_END \<noteq> 0) = ends"
  by (cases ordered; cases begins; cases ends;
      simp add: data_flags_def FLAG_DATA_BEGIN_def FLAG_DATA_END_def FLAG_DATA_UNORDERED_def)+

text \<open>The message a complete payload becomes.\<close>

definition message_event :: "outbound_message \<Rightarrow> bytes \<Rightarrow> association_event" where
  "message_event message payload = Message (om_stream_id message)
     (if om_ppid message = PPID_STRING \<or> om_ppid message = PPID_STRING_EMPTY then Text else Binary)
     (if om_ppid message = PPID_STRING_EMPTY \<or> om_ppid message = PPID_BINARY_EMPTY then [] else payload)"

definition deliverable :: "outbound_message \<Rightarrow> bytes \<Rightarrow> association \<Rightarrow> bool" where
  "deliverable message payload b \<longleftrightarrow> hm_contains (as_channels b) (om_stream_id message) \<and>
     om_stream_id message < as_peer_outbound_streams b \<and>
     om_ppid message \<in> {PPID_STRING, PPID_BINARY, PPID_STRING_EMPTY, PPID_BINARY_EMPTY} \<and>
     (om_ppid message = PPID_STRING \<longrightarrow> from_utf8 payload \<noteq> None) \<and>
     length payload \<le> ac_maximum_message_bytes (as_config b)"

lemma handle_user_message_ok:
  "deliverable message payload b \<Longrightarrow> handle_user_message (om_stream_id message) (om_ppid message) payload b =
     Inr (out_event (message_event message payload))"
  by (auto simp: deliverable_def handle_user_message_def message_event_def ppids Let_def)

lemma reassemble_ok:
  assumes base: "base = (if begins then hm_insert (dc_stream_id d) \<lparr>ra_stream_sequence = dc_stream_sequence d,
      ra_ppid = dc_ppid d, ra_payload = []\<rparr> (as_reassembly b) else as_reassembly b)"
    and "hm_get base (dc_stream_id d) = Some r"
    and "ra_stream_sequence r = dc_stream_sequence d" and "ra_ppid r = dc_ppid d"
    and "length (ra_payload r) + length (dc_payload d) \<le> ac_maximum_message_bytes (as_config b)"
  shows "reassemble d begins ends b = (Inr (if ends then Some (ra_payload r @ dc_payload d) else None),
    b\<lparr>as_reassembly := if ends then hm_remove (dc_stream_id d) base
      else hm_insert (dc_stream_id d) (r\<lparr>ra_payload := ra_payload r @ dc_payload d\<rparr>) base\<rparr>)"
proof -
  have s1: "(if begins then b\<lparr>as_reassembly := hm_insert (dc_stream_id d) \<lparr>ra_stream_sequence = dc_stream_sequence d,
      ra_ppid = dc_ppid d, ra_payload = []\<rparr> (as_reassembly b)\<rparr> else b) = b\<lparr>as_reassembly := base\<rparr>"
    by (simp add: base)
  show ?thesis unfolding reassemble_def Let_def s1 using assms(2-5) by simp
qed

lemma process_fragment:
  assumes "deliverable message (acc @ fragment @ later) b"
    and "\<not> begins \<longrightarrow> hm_get (as_reassembly b) (om_stream_id message) =
      Some \<lparr>ra_stream_sequence = om_stream_sequence message, ra_ppid = om_ppid message, ra_payload = acc\<rparr>"
    and "begins \<longrightarrow> acc = []" and "ends \<longrightarrow> later = []"
  shows "\<exists>rs. process_data_message now (chunk_of (data_flags ordered begins ends) tsn message fragment) b =
    (Inr (if ends then out_event (message_event message (acc @ fragment)) else no_output), b\<lparr>as_reassembly := rs\<rparr>) \<and>
    (\<not> ends \<longrightarrow> hm_get rs (om_stream_id message) = Some \<lparr>ra_stream_sequence = om_stream_sequence message,
       ra_ppid = om_ppid message, ra_payload = acc @ fragment\<rparr>)"
proof -
  let ?d = "chunk_of (data_flags ordered begins ends) tsn message fragment"
  let ?sid = "om_stream_id message"
  have streams: "\<not> as_peer_outbound_streams b \<le> ?sid" using assms(1) by (simp add: deliverable_def not_le)
  have fits: "length acc + length fragment \<le> ac_maximum_message_bytes (as_config b)"
    using assms(1) by (simp add: deliverable_def)
  have user: "handle_user_message ?sid (om_ppid message) (acc @ fragment) (b\<lparr>as_reassembly := rs\<rparr>) =
      Inr (out_event (message_event message (acc @ fragment)))" if ends for rs
    using assms(1,4) that by (intro handle_user_message_ok) (simp add: deliverable_def)
  have ppid: "om_ppid message \<noteq> PPID_DCEP" "om_ppid message = PPID_STRING \<or> om_ppid message = PPID_BINARY \<or>
      om_ppid message = PPID_STRING_EMPTY \<or> om_ppid message = PPID_BINARY_EMPTY"
    using assms(1) by (auto simp: deliverable_def ppids)
  note eval = process_data_message_def chunk_of_def data_flags_bits bind_a_def ret_a_def
  show ?thesis
  proof (cases "begins \<and> ends")
    case True
    have "b\<lparr>as_reassembly := as_reassembly b\<rparr> = b" by simp
    with True assms(3) streams ppid user [of "as_reassembly b"] show ?thesis
      by (intro exI [of _ "as_reassembly b"]) (simp add: eval)
  next
    case False
    define base where "base = (if begins then hm_insert ?sid \<lparr>ra_stream_sequence = om_stream_sequence message,
        ra_ppid = om_ppid message, ra_payload = []\<rparr> (as_reassembly b) else as_reassembly b)"
    have g: "hm_get base ?sid = Some \<lparr>ra_stream_sequence = om_stream_sequence message, ra_ppid = om_ppid message, ra_payload = acc\<rparr>"
      using assms(2,3) by (simp add: base_def)
    define rs where "rs = (if ends then hm_remove ?sid base else hm_insert ?sid \<lparr>ra_stream_sequence = om_stream_sequence message,
        ra_ppid = om_ppid message, ra_payload = acc @ fragment\<rparr> base)"
    have re: "reassemble ?d begins ends b = (Inr (if ends then Some (acc @ fragment) else None), b\<lparr>as_reassembly := rs\<rparr>)"
      by (subst reassemble_ok [where base = base and r = "\<lparr>ra_stream_sequence = om_stream_sequence message,
            ra_ppid = om_ppid message, ra_payload = acc\<rparr>"])
        (simp_all add: base_def g [unfolded base_def] fits chunk_of_def rs_def)
    have "process_data_message now ?d b =
      (Inr (if ends then out_event (message_event message (acc @ fragment)) else no_output), b\<lparr>as_reassembly := rs\<rparr>)"
      using False streams ppid re user [of rs] by (auto simp: eval)
    then show ?thesis by (intro exI [of _ rs]) (simp add: rs_def)
  qed
qed

lemma enqueue_fragments_Cons:
  assumes "enqueue_fragments now message message_id n index (fragment # fragments) a = (Inr packets, a')"
  obtains packet packets' outs where "packets = packet # packets'"
    and "packet_to_peer TYPE_DATA (data_flags (om_ordered message) (index = 0) (index + 1 = n))
      (data_value (as_next_tsn a) message fragment) a = Inr packet"
    and "enqueue_fragments now message message_id n (index + 1) fragments
      (a\<lparr>as_next_tsn := as_next_tsn a + 1, as_outstanding := outs\<rparr>) = (Inr packets', a')"
proof -
  have same: "packet_to_peer kind flags v (a\<lparr>as_next_tsn := t\<rparr>) = packet_to_peer kind flags v a" for kind flags v t
    by (simp add: packet_to_peer_def peer_tag_def packet_with_chunk_def)
  from assms show thesis
    by (auto simp: Let_def same intro: that split: sum.splits prod.splits)
qed

lemma fragments_arrive:
  assumes "enqueue_fragments now message message_id n index fragments a = (Inr packets, a')"
    and "in_step a b" and "index + length fragments = n" and "fragments \<noteq> []"
    and "deliverable message (acc @ concat fragments) b"
    and "index \<noteq> 0 \<longrightarrow> hm_get (as_reassembly b) (om_stream_id message) =
      Some \<lparr>ra_stream_sequence = om_stream_sequence message, ra_ppid = om_ppid message, ra_payload = acc\<rparr>"
    and "index = 0 \<longrightarrow> acc = []"
  shows "\<exists>b'. receive_all order later packets b = (Inr [message_event message (acc @ concat fragments)], b') \<and>
    in_step a' b' \<and> as_channels b' = as_channels b \<and> as_config b' = as_config b \<and>
    as_peer_outbound_streams b' = as_peer_outbound_streams b"
  using assms
proof (induction fragments arbitrary: index a b packets acc)
  case (Cons fragment fragments)
  let ?tsn = "as_next_tsn a" and ?begins = "index = 0" and ?ends = "index + 1 = n"
  let ?flags = "data_flags (om_ordered message) ?begins ?ends"
  from Cons.prems(1) obtain packet packets' outs where packets: "packets = packet # packets'"
    and p: "packet_to_peer TYPE_DATA ?flags (data_value ?tsn message fragment) a = Inr packet"
    and rest: "enqueue_fragments now message message_id n (index + 1) fragments
      (a\<lparr>as_next_tsn := ?tsn + 1, as_outstanding := outs\<rparr>) = (Inr packets', a')"
    by (rule enqueue_fragments_Cons)
  note step = Cons.prems(2) [unfolded in_step_def]
  from p step have built: "build_packet (ac_remote_port (as_config b)) (ac_local_port (as_config b))
      (ac_verification_tag (as_config b)) TYPE_DATA ?flags (data_value ?tsn message fragment) = Inr packet"
    by (simp add: packet_to_peer_Inr)
  let ?b1 = "b\<lparr>as_cumulative_peer_tsn := Some ?tsn\<rparr>"
  have ends: "?ends \<longleftrightarrow> fragments = []" using Cons.prems(3) by auto
  have "deliverable message (acc @ fragment @ concat fragments) ?b1"
    using Cons.prems(5) by (simp add: deliverable_def)
  from process_fragment [OF this, of ?begins ?ends later "om_ordered message" ?tsn] Cons.prems(6,7) ends
  obtain rs where pd: "process_data_message later (chunk_of ?flags ?tsn message fragment) ?b1 =
      (Inr (if ?ends then out_event (message_event message (acc @ fragment)) else no_output), ?b1\<lparr>as_reassembly := rs\<rparr>)"
    and rs: "\<not> ?ends \<longrightarrow> hm_get rs (om_stream_id message) = Some \<lparr>ra_stream_sequence = om_stream_sequence message,
       ra_ppid = om_ppid message, ra_payload = acc @ fragment\<rparr>" by auto
  let ?b2 = "?b1\<lparr>as_reassembly := rs\<rparr>" and ?a2 = "a\<lparr>as_next_tsn := ?tsn + 1, as_outstanding := outs\<rparr>"
  obtain out where hp: "handle_packet order later packet b = (Inr out, ?b2)"
    and ev: "ao_events out = (if ?ends then [message_event message (acc @ fragment)] else [])"
    using handle_data_packet [OF built _ _ _ _ pd, of order] step
    by (auto simp: out_event_def no_output_def)
  have st2: "in_step ?a2 ?b2" using Cons.prems(2) by (simp add: in_step_def)
  show ?case
  proof (cases "fragments = []")
    case True
    with rest have "packets' = []" "a' = ?a2" by simp_all
    with True hp ev ends packets st2 show ?thesis
      by (intro exI [of _ ?b2]) (simp add: bind_a_def ret_a_def)
  next
    case False
    have "\<exists>b'. receive_all order later packets' ?b2 = (Inr [message_event message ((acc @ fragment) @ concat fragments)], b') \<and>
      in_step a' b' \<and> as_channels b' = as_channels ?b2 \<and> as_config b' = as_config ?b2 \<and>
      as_peer_outbound_streams b' = as_peer_outbound_streams ?b2"
      by (rule Cons.IH [OF rest st2]) (use False Cons.prems(3,5) rs ends in \<open>simp_all add: deliverable_def\<close>)
    with hp ev False ends packets show ?thesis by (auto simp: bind_a_def ret_a_def)
  qed
qed simp

lemma concat_chunks_of: "n > 0 \<Longrightarrow> concat (chunks_of n xs) = xs"
  by (induction n xs rule: chunks_of.induct) (subst chunks_of.simps, auto)

text \<open>C25. Messages arrive. When two associations are in step and a message is sent on a channel that
  the receiver has open, the packets of the message, handled in order, make the receiver deliver
  exactly this message, however many fragments it needed, and the associations are in step again.\<close>

theorem message_delivered:
  assumes "in_step a b" and "send_message now stream_id kind payload a = (Inr packets, a')"
    and "hm_contains (as_channels b) stream_id" and "stream_id < as_peer_outbound_streams b"
    and "max 1 (length payload) \<le> ac_maximum_message_bytes (as_config b)"
  shows "\<exists>b'. receive_all order later packets b = (Inr [Message stream_id kind payload], b') \<and>
    in_step a' b' \<and> as_channels b' = as_channels b"
proof -
  obtain channel where ch: "hm_get (as_channels a) stream_id = Some channel"
    and utf8: "kind = Text \<longrightarrow> from_utf8 payload \<noteq> None"
    using assms(2) by (auto simp: send_message_def split: if_splits option.splits)
  obtain ppid wire where w: "wire_payload kind payload = (ppid, wire)" by (cases "wire_payload kind payload")
  define message where "message = \<lparr>om_stream_id = stream_id, om_stream_sequence = ch_next_outgoing_sequence channel,
      om_ppid = ppid, om_ordered = ch_ordered channel, om_reliability = ch_reliability channel\<rparr>"
  let ?fragments = "chunks_of MAX_DATA_PAYLOAD wire"
  obtain cs i where enq: "enqueue_fragments now message (as_next_message_id a) (length ?fragments) 0 ?fragments
      (a\<lparr>as_channels := cs, as_next_message_id := i\<rparr>) = (Inr packets, a')"
    using assms(2) ch w
    by (auto simp: send_message_def enqueue_message_def message_def Let_def split: if_splits prod.splits)
  have step: "in_step (a\<lparr>as_channels := cs, as_next_message_id := i\<rparr>) b" using assms(1) by (simp add: in_step_def)
  have cat: "concat ?fragments = wire" by (rule concat_chunks_of) (simp add: MAX_DATA_PAYLOAD_def)
  have wire: "wire = (if payload = [] then [0] else payload)"
    "ppid = (if kind = Text then if payload = [] then PPID_STRING_EMPTY else PPID_STRING
       else if payload = [] then PPID_BINARY_EMPTY else PPID_BINARY)"
    using w by (cases kind; auto simp: wire_payload_def split: bool.splits)+
  have "?fragments \<noteq> []" using cat wire(1) by auto
  moreover have "deliverable message ([] @ concat ?fragments) b"
    using assms(3-5) utf8 unfolding cat by (auto simp: deliverable_def message_def wire ppids)
  moreover have "message_event message ([] @ concat ?fragments) = Message stream_id kind payload"
    unfolding cat by (cases kind) (auto simp: message_event_def message_def wire ppids)
  ultimately show ?thesis
    using fragments_arrive [OF enq step, where acc = "[]" and order = order and later = later] by auto
qed


section \<open>Nothing happens without the cookie\<close>

lemma or_eq_0: "a OR b = 0 \<longleftrightarrow> a = 0 \<and> b = 0" for a b :: u8
  by (metis or.left_neutral or.right_neutral or_eq_0_iff)

lemma constant_time_equal_iff: "constant_time_equal left right \<longleftrightarrow> left = right"
proof -
  have "foldl (\<lambda>difference (l, r). difference OR (l XOR r)) d (zip left right) = 0 \<longleftrightarrow> d = 0 \<and> left = right"
    if "length left = length right" for d :: u8 using that
  proof (induction left right arbitrary: d rule: list_induct2)
    case (Cons x xs y ys)
    have "x XOR y = 0 \<longleftrightarrow> x = y" by (metis xor_cancel(1) xor_self_eq)
    with Cons show ?case by (auto simp: or_eq_0)
  qed simp
  then show ?thesis by (auto simp: constant_time_equal_def)
qed

definition carries_cookie :: "association_config \<Rightarrow> bytes \<Rightarrow> bool" where
  "carries_cookie c packet \<longleftrightarrow> (\<exists>parsed. sctp_parse packet = Inr parsed \<and>
     pk_verification_tag parsed = ac_verification_tag c \<and>
     (\<exists>chunk\<in>set (pk_chunks parsed). pc_kind chunk = TYPE_COOKIE_ECHO \<and> pc_value chunk = ac_cookie c))"

fun as_events :: "as_op list \<Rightarrow> association \<Rightarrow> association_event list" where
  "as_events [] s = []"
| "as_events (op # ops) s = (case as_step op s of ((packets, events), s') \<Rightarrow> events @ as_events ops s')"

text \<open>The state an action leaves and the events it reports while the association is not established.\<close>

definition quiet :: "association_config \<Rightarrow> (data_channel_error, association_output) result \<times> association \<Rightarrow> bool" where
  "quiet c r \<longleftrightarrow> as_config (snd r) = c \<and> as_state (snd r) \<noteq> Established \<and>
     (\<forall>out. fst r = Inr out \<longrightarrow> set (ao_events out) \<subseteq> {EventClosed})"

lemma quiet_if: "(b \<Longrightarrow> quiet c (m s)) \<Longrightarrow> (\<not> b \<Longrightarrow> quiet c (n s)) \<Longrightarrow> quiet c ((if b then m else n) s)"
  by simp

lemma quiet_chunk:
  assumes "as_config s = c" and "as_state s \<noteq> Established"
    and "\<not> (tag = ac_verification_tag c \<and> pc_kind chunk = TYPE_COOKIE_ECHO \<and> pc_value chunk = ac_cookie c)"
  shows "quiet c (handle_chunk order now tag chunk s)"
proof -
  have init: "quiet c (handle_init tag v s)" for v
    using assms(1,2) unfolding handle_init_def
    by (auto simp: quiet_def bind_a_def lift_a_def write_a_def ret_a_def reset_association_def out_packet_def
        no_output_def split: sum.split)
  have cookie: "quiet c (handle_cookie_echo tag (pc_value chunk) s)" if "pc_kind chunk = TYPE_COOKIE_ECHO"
    using assms that unfolding handle_cookie_echo_def
    by (auto simp: quiet_def bind_a_def lift_a_def require_verification_tag_def constant_time_equal_iff)
  have sack: "as_state (snd (handle_sack v s)) = as_state s \<and> as_config (snd (handle_sack v s)) = as_config s" for v
  proof -
    have loop: "keeps (\<lambda>s'. as_state s' = as_state s \<and> as_config s' = as_config s) (sack_gap_loop v cum i n)" for cum i n
    proof (induction n arbitrary: i)
      case (Suc n)
      show ?case
        by (rule keepsI, simp only: sack_gap_loop.simps Let_def)
          (rule keepsD [where I = "\<lambda>s'. as_state s' = as_state s \<and> as_config s' = as_config s"],
            intro keeps_rules keeps_write Suc.IH, simp_all)
    qed (simp add: keeps_def)
    have "keeps (\<lambda>s'. as_state s' = as_state s \<and> as_config s' = as_config s) (handle_sack v)"
      by (rule keeps_guard, rule handle_sack_def)
        (intro keeps_rules loop keeps_write, simp add: acknowledge_def)
    from keepsD [OF this, of s] show ?thesis by simp
  qed
  have sack': "quiet c (bind_a (handle_sack v) (\<lambda>_. ret_a no_output) s)" for v
    using sack [of v] assms(1,2) by (auto simp: quiet_def bind_a_def ret_a_def no_output_def split: prod.split sum.split)
  have err: "quiet c (handle_data now fl v s)" "quiet c (handle_reconfiguration order v s)"
    "quiet c (handle_forward_tsn now v s)" for fl v
    using assms(1,2) by (simp_all add: quiet_def handle_data_def handle_reconfiguration_def handle_forward_tsn_def)
  have tag: "quiet c (tagged tag m s)" if "quiet c (m s)" for m
    using that assms(1,2) by (auto simp: tagged_def quiet_def bind_a_def lift_a_def split: sum.split)
  have other: "quiet c (bind_a (\<lambda>s. (packet_to_peer k fl v s, s)) (\<lambda>packet. ret_a (out_packet packet)) s)"
    "quiet c (bind_a (write_a (\<lambda>s. s\<lparr>as_state := Closed\<rparr>)) (\<lambda>_. ret_a (out_event EventClosed)) s)"
    "quiet c (bind_a (write_a (\<lambda>s. s\<lparr>as_state := Closed\<rparr>)) (\<lambda>_.
          bind_a (\<lambda>s. (packet_to_peer k fl v s, s)) (\<lambda>packet.
          ret_a \<lparr>ao_packets = [packet], ao_events = [EventClosed], ao_retransmitted_packets = 0\<rparr>)) s)"
    "quiet c (ret_a no_output s)" for k fl v
    using assms(1,2) by (auto simp: quiet_def bind_a_def write_a_def ret_a_def out_event_def out_packet_def no_output_def split: sum.split)
  show ?thesis unfolding handle_chunk_def by (intro quiet_if tag init cookie sack' err other)
qed

lemma quiet_chunks:
  assumes "as_config s = c" and "as_state s \<noteq> Established"
    and "\<not> (tag = ac_verification_tag c \<and> (\<exists>chunk\<in>set chunks. pc_kind chunk = TYPE_COOKIE_ECHO \<and> pc_value chunk = ac_cookie c))"
  shows "quiet c (handle_chunks order now tag chunks s)"
  using assms
proof (induction chunks arbitrary: s)
  case Nil
  then show ?case by (simp add: quiet_def ret_a_def no_output_def)
next
  case (Cons chunk chunks)
  obtain r s1 where h: "handle_chunk order now tag chunk s = (r, s1)" by (cases "handle_chunk order now tag chunk s")
  from quiet_chunk [OF Cons.prems(1,2), of tag chunk order now] Cons.prems(3) h have q: "quiet c (r, s1)" by auto
  then have "quiet c (handle_chunks order now tag chunks s1)" using Cons by (auto simp: quiet_def)
  with q h show ?case
    by (auto simp: quiet_def bind_a_def ret_a_def out_append_def split: sum.split prod.split)
qed

lemma quiet_step:
  assumes "as_config s = c" and "as_state s \<noteq> Established"
    and "\<forall>order now packet. op = Receive order now packet \<longrightarrow> \<not> carries_cookie c packet"
  shows "as_config (snd (as_step op s)) = c \<and> as_state (snd (as_step op s)) \<noteq> Established \<and>
    set (snd (fst (as_step op s))) \<subseteq> {EventClosed}"
proof (cases op)
  case (Receive order now packet)
  have "quiet c (handle_packet order now packet s)"
  proof (cases "sctp_parse packet")
    case (Inl e)
    with assms(1,2) show ?thesis by (simp add: handle_packet_def quiet_def lift_a_def)
  next
    case (Inr parsed)
    have "quiet c (handle_chunks order now (pk_verification_tag parsed) (pk_chunks parsed) s)"
      by (rule quiet_chunks) (use assms Receive Inr in \<open>auto simp: carries_cookie_def\<close>)
    with Inr assms(1,2) show ?thesis by (auto simp: handle_packet_def quiet_def lift_a_def)
  qed
  with Receive show ?thesis by (auto simp: quiet_def split: prod.split sum.split)
next
  case (Send now stream_id kind payload)
  with assms(1,2) show ?thesis by (simp add: send_message_def)
next
  case (Tick now)
  with assms(1,2) show ?thesis by (simp add: tick_def no_output_def)
qed

text \<open>C26. The cookie is required. From any state that is not established, be it new, reset by an INIT,
  closed or failed, and whatever happens, as long as no packet carries the association's own tag
  together with its cookie the association does not become established, and the application sees no
  channel and no message: the only event is that the association is closed.\<close>

theorem cookie_required:
  assumes "as_new c = Inr s0" and "s = as_run before s0" and "as_state s \<noteq> Established"
    and "\<forall>order now packet. Receive order now packet \<in> set ops \<longrightarrow> \<not> carries_cookie c packet"
  shows "as_state (as_run ops s) \<noteq> Established \<and> set (as_events ops s) \<subseteq> {EventClosed}"
proof -
  have "as_config s = c" using as_run_inv [OF as_new_inv [OF assms(1)], of before] assms(2)
    by (simp add: association_inv_def)
  then show ?thesis using assms(3,4)
  proof (induction ops arbitrary: s)
    case (Cons op ops)
    have nc: "\<forall>order now packet. op = Receive order now packet \<longrightarrow> \<not> carries_cookie c packet"
      using Cons.prems(3) by auto
    obtain ps es s1 where st: "as_step op s = ((ps, es), s1)" by (metis prod.exhaust)
    from quiet_step [OF Cons.prems(1,2) nc] st have q: "as_config s1 = c" "as_state s1 \<noteq> Established" "set es \<subseteq> {EventClosed}"
      by simp_all
    from Cons.IH [OF q(1,2)] Cons.prems(3) st q(3) show ?case by simp
  qed simp
qed


section \<open>The handshake completes\<close>

text \<open>The value of an INIT chunk: the fixed fields, then any parameters, the last of which may stand
  without its padding.\<close>

definition init_value :: "u32 \<Rightarrow> u32 \<Rightarrow> u16 \<Rightarrow> u16 \<Rightarrow> u32 \<Rightarrow> parameter list \<Rightarrow> parameter option \<Rightarrow> bytes" where
  "init_value tag window outbound inbound initial_tsn ps final =
     to_be tag @ to_be window @ to_be outbound @ to_be inbound @ to_be initial_tsn @
     concat (map parameter_bytes ps) @ last_parameter_bytes final"

text \<open>The parameter by which a peer says that it understands FORWARD TSN.\<close>

definition forward_tsn_parameter :: parameter where
  "forward_tsn_parameter = \<lparr>pa_kind = PARAMETER_FORWARD_TSN_SUPPORTED, pa_value = []\<rparr>"

definition cookie_parameter :: "association_config \<Rightarrow> parameter" where
  "cookie_parameter c = \<lparr>pa_kind = PARAMETER_STATE_COOKIE, pa_value = ac_cookie c\<rparr>"

lemma validated: "as_new c = Inr s0 \<Longrightarrow> length (ac_cookie c) \<le> 256 \<and> ac_verification_tag c \<noteq> 0"
  by (auto simp: as_new_def ac_validate_def result_simps split: if_splits)

lemma init_ack_ok:
  assumes "length (ac_cookie (as_config s)) \<le> 256"
  obtains body where "init_ack_value inbound s = Inr body" and "length body \<le> 65000"
    and "sctp_read_u32 body 0 = Inr (ac_verification_tag (as_config s))"
    and "parse_parameters (drop 16 body) = Inr (cookie_parameter (as_config s) #
      (if as_peer_forward_tsn_supported s then [forward_tsn_parameter] else []))"
proof -
  let ?c = "as_config s"
  let ?limit = "if ac_maximum_channels ?c < 65536 then word_of_nat (ac_maximum_channels ?c) else - 1 :: u16"
  let ?streams = "max (min ?limit inbound) 1"
  define fixed where "fixed = to_be (ac_verification_tag ?c) @ to_be DEFAULT_RECEIVE_WINDOW @ to_be ?streams @
      to_be ?streams @ to_be (ac_initial_tsn ?c)"
  define ps where "ps = (if as_peer_forward_tsn_supported s then [forward_tsn_parameter] else [])"
  define body where "body = fixed @ concat (map parameter_bytes (cookie_parameter ?c # ps))"
  have len: "length fixed = 16" by (simp add: fixed_def)
  have "push_parameter fixed PARAMETER_STATE_COOKIE (ac_cookie ?c) = Inr (fixed @ parameter_bytes (cookie_parameter ?c))"
    using assms by (simp add: push_parameter_Inr cookie_parameter_def)
  moreover have "push_parameter out PARAMETER_FORWARD_TSN_SUPPORTED [] =
      Inr (out @ parameter_bytes forward_tsn_parameter)" for out
    by (simp add: push_parameter_Inr forward_tsn_parameter_def)
  ultimately have "init_ack_value inbound s = Inr body"
    by (simp add: init_ack_value_def Let_def fixed_def [symmetric] body_def ps_def)
  moreover have "length body \<le> 65000"
    using assms pad4_less [of "4 + length (ac_cookie ?c)"] pad4_less [of 4] len
    by (simp add: body_def ps_def cookie_parameter_def forward_tsn_parameter_def parameter_bytes_def)
  moreover have "sctp_read_u32 body 0 = Inr (ac_verification_tag ?c)"
    by (simp add: body_def fixed_def sctp_read_u32_def wire_reads)
  moreover have "parse_parameters (drop 16 body) = Inr (cookie_parameter ?c # ps)"
    using parse_parameters_roundtrip [of "cookie_parameter ?c # ps" "[]" 0] assms len
    by (simp add: parse_parameters_def body_def cookie_parameter_def forward_tsn_parameter_def ps_def)
  ultimately show thesis using that by (simp add: ps_def)
qed

lemma init_value_reads:
  "sctp_read_u32 (init_value tag window outbound inbound initial_tsn ps final) 0 = Inr tag"
  "sctp_read_u16 (init_value tag window outbound inbound initial_tsn ps final) 8 = Inr outbound"
  "sctp_read_u16 (init_value tag window outbound inbound initial_tsn ps final) 10 = Inr inbound"
  "sctp_read_u32 (init_value tag window outbound inbound initial_tsn ps final) 12 = Inr initial_tsn"
  "\<not> length (init_value tag window outbound inbound initial_tsn ps final) < 16"
  by (simp_all add: init_value_def sctp_read_u16_def sctp_read_u32_def wire_reads)

lemma length_parameter_in_list:
  "p \<in> set ps \<Longrightarrow> 4 + length (pa_value p) \<le> length (concat (map parameter_bytes ps))"
  by (induction ps) (auto simp: parameter_bytes_def)

text \<open>Whatever fits in a packet has parameters that fit in their length fields, so they are read back.\<close>

lemma init_value_parameters:
  assumes "build_packet sp dp tag' kind flags (init_value tag window outbound inbound initial_tsn ps final) = Inr init"
  shows "parse_parameters (drop 16 (init_value tag window outbound inbound initial_tsn ps final)) =
    Inr (parameter_list ps final)"
proof -
  let ?params = "concat (map parameter_bytes ps) @ last_parameter_bytes final"
  from assms have fits: "length (init_value tag window outbound inbound initial_tsn ps final) \<le> 65535"
    by (auto simp: build_packet_def Let_def split: if_splits)
  then have n: "length ?params \<le> 65535" by (simp add: init_value_def)
  have "\<forall>p\<in>set ps. 4 + length (pa_value p) \<le> 65535"
    using n length_parameter_in_list [of _ ps] by fastforce
  moreover have "\<forall>p\<in>set_option final. 4 + length (pa_value p) \<le> 65535" using n by auto
  ultimately have "parse_parameters ?params = Inr (parameter_list ps final)"
    using parse_parameters_tail [of ps final "[]" 0] by (simp add: parse_parameters_def)
  then show ?thesis by (simp add: init_value_def)
qed

lemma handle_packet_single:
  assumes "build_packet (ac_remote_port (as_config s)) (ac_local_port (as_config s)) tag kind flags v = Inr packet"
    and "handle_chunk order now tag \<lparr>pc_kind = kind, pc_flags = flags, pc_value = v\<rparr> s = (Inr out, s')"
  shows "handle_packet order now packet s = (Inr (out_append out no_output), s')"
  using assms(2) by (simp add: handle_packet_def sctp_build_parse [OF assms(1)] bind_a_def ret_a_def)

lemma out_append_none: "out_append out no_output = out"
  by (simp add: out_append_def no_output_def)

lemma is_forward_tsn:
  "pa_kind p = PARAMETER_FORWARD_TSN_SUPPORTED \<and> pa_value p = [] \<longleftrightarrow> p = forward_tsn_parameter"
  by (cases p) (auto simp: forward_tsn_parameter_def)

lemma handle_init_ok:
  assumes "length (ac_cookie (as_config s)) \<le> 256" and "tag \<noteq> 0" and "outbound \<noteq> 0" and "inbound \<noteq> 0"
    and v: "v = init_value tag window outbound inbound initial_tsn ps final"
    and params: "parse_parameters (drop 16 v) = Inr (parameter_list ps final)"
    and flag: "flag = (forward_tsn_parameter \<in> set (parameter_list ps final))"
  obtains ack body where "handle_init 0 v s = (Inr (out_packet ack), reset_association tag initial_tsn outbound flag s)"
    and "build_packet (ac_local_port (as_config s)) (ac_remote_port (as_config s)) tag TYPE_INIT_ACK 0 body = Inr ack"
    and "sctp_read_u32 body 0 = Inr (ac_verification_tag (as_config s))"
    and "parse_parameters (drop 16 body) =
      Inr (cookie_parameter (as_config s) # (if flag then [forward_tsn_parameter] else []))"
proof -
  let ?s1 = "reset_association tag initial_tsn outbound flag s"
  have cfg: "as_config ?s1 = as_config s" "as_peer_forward_tsn_supported ?s1 = flag"
    by (simp_all add: reset_association_def)
  obtain body where b: "init_ack_value inbound ?s1 = Inr body" "length body \<le> 65000"
    "sctp_read_u32 body 0 = Inr (ac_verification_tag (as_config s))"
    "parse_parameters (drop 16 body) =
      Inr (cookie_parameter (as_config s) # (if flag then [forward_tsn_parameter] else []))"
    by (rule init_ack_ok [of ?s1 inbound, unfolded cfg, OF assms(1)])
  from build_packet_ok [OF b(2)] obtain ack where
    ack: "build_packet (ac_local_port (as_config s)) (ac_remote_port (as_config s)) tag TYPE_INIT_ACK 0 body = Inr ack" by blast
  have "(\<exists>p\<in>set (parameter_list ps final). pa_kind p = PARAMETER_FORWARD_TSN_SUPPORTED \<and> pa_value p = []) = flag"
    by (simp add: flag is_forward_tsn)
  with b ack assms(1-4) cfg params have "handle_init 0 v s = (Inr (out_packet ack), ?s1)"
    unfolding v
    by (simp add: handle_init_def init_value_reads bind_a_def write_a_def ret_a_def packet_with_chunk_def)
  with b ack that show thesis by blast
qed

text \<open>C27. The handshake completes. In whatever state an association is, an INIT with a non-zero tag and
  non-zero stream counts, any window, initial TSN and flags, and any list of parameters, known or
  not, the last one padded or not, is answered by an INIT ACK that carries the association's tag and
  its cookie, and says that FORWARD TSN is supported exactly if the INIT did; and a COOKIE ECHO with
  this tag and this cookie is then acknowledged and establishes the association.\<close>

theorem handshake_completes:
  assumes "as_new c = Inr s0" and "s = as_run ops s0" and "tag \<noteq> 0" and "outbound \<noteq> 0" and "inbound \<noteq> 0"
    and "build_packet (ac_remote_port c) (ac_local_port c) 0 TYPE_INIT flags
      (init_value tag window outbound inbound initial_tsn params final) = Inr init"
  shows "\<exists>out s1 ack body. handle_packet order now init s = (Inr out, s1) \<and> ao_packets out = [ack] \<and>
    sctp_parse ack = Inr \<lparr>pk_source_port = ac_local_port c, pk_destination_port = ac_remote_port c,
      pk_verification_tag = tag, pk_chunks = [\<lparr>pc_kind = TYPE_INIT_ACK, pc_flags = 0, pc_value = body\<rparr>]\<rparr> \<and>
    sctp_read_u32 body 0 = Inr (ac_verification_tag c) \<and>
    parse_parameters (drop 16 body) = Inr (cookie_parameter c #
      (if forward_tsn_parameter \<in> set (parameter_list params final) then [forward_tsn_parameter] else [])) \<and>
    (\<forall>echo flags' order' now'. build_packet (ac_remote_port c) (ac_local_port c) (ac_verification_tag c)
        TYPE_COOKIE_ECHO flags' (ac_cookie c) = Inr echo \<longrightarrow>
       (\<exists>out' s2. handle_packet order' now' echo s1 = (Inr out', s2) \<and> ao_events out' = [EventEstablished] \<and>
          as_state s2 = Established))"
proof -
  have cfg: "as_config s = c" using as_run_inv [OF as_new_inv [OF assms(1)], of ops] assms(2)
    by (simp add: association_inv_def)
  let ?flag = "forward_tsn_parameter \<in> set (parameter_list params final)"
  let ?s1 = "reset_association tag initial_tsn outbound ?flag s"
  have cookie: "length (ac_cookie (as_config s)) \<le> 256" using validated [OF assms(1)] cfg by simp
  obtain ack body where
    h: "handle_init 0 (init_value tag window outbound inbound initial_tsn params final) s = (Inr (out_packet ack), ?s1)"
    and ack: "build_packet (ac_local_port c) (ac_remote_port c) tag TYPE_INIT_ACK 0 body = Inr ack"
    and body: "sctp_read_u32 body 0 = Inr (ac_verification_tag c)"
      "parse_parameters (drop 16 body) = Inr (cookie_parameter c # (if ?flag then [forward_tsn_parameter] else []))"
    by (rule handle_init_ok [OF cookie assms(3-5) refl init_value_parameters [OF assms(6)] refl, unfolded cfg])
  have first: "handle_packet order now init s = (Inr (out_packet ack), ?s1)"
    using handle_packet_single [of s 0 TYPE_INIT flags "init_value tag window outbound inbound initial_tsn params final" init order now] h assms(6) cfg
    by (simp add: handle_chunk_def chunk_types out_append_none)
  have second: "\<exists>out' s2. handle_packet order' now' echo ?s1 = (Inr out', s2) \<and> ao_events out' = [EventEstablished] \<and>
      as_state s2 = Established"
    if e: "build_packet (ac_remote_port c) (ac_local_port c) (ac_verification_tag c) TYPE_COOKIE_ECHO flags' (ac_cookie c) = Inr echo"
    for echo flags' order' now'
  proof -
    have "\<exists>p. build_packet (ac_local_port c) (ac_remote_port c) tag TYPE_COOKIE_ACK 0 [] = Inr p"
      by (rule build_packet_ok) simp
    then obtain p where p: "build_packet (ac_local_port c) (ac_remote_port c) tag TYPE_COOKIE_ACK 0 [] = Inr p" by blast
    have "handle_cookie_echo (ac_verification_tag c) (ac_cookie c) ?s1 =
        (Inr \<lparr>ao_packets = [p], ao_events = [EventEstablished], ao_retransmitted_packets = 0\<rparr>, ?s1\<lparr>as_state := Established\<rparr>)"
      using cfg p by (simp add: handle_cookie_echo_def reset_association_def require_verification_tag_def
          constant_time_equal_iff bind_a_def write_a_def ret_a_def packet_to_peer_def peer_tag_def packet_with_chunk_def)
    with handle_packet_single [of ?s1 "ac_verification_tag c" TYPE_COOKIE_ECHO flags' "ac_cookie c" echo order' now'] e cfg
    show ?thesis by (simp add: reset_association_def handle_chunk_def chunk_types out_append_none)
  qed
  from first sctp_build_parse [OF ack] body second show ?thesis
    by (intro exI [of _ "out_packet ack"] exI [of _ ?s1] exI [of _ ack] exI [of _ body])
      (auto simp: out_packet_def)
qed


section \<open>Witnesses\<close>

definition sample_association :: association where
  "sample_association = \<lparr>as_config = sample_config, as_state = Established, as_peer_verification_tag = Some 7,
     as_peer_initial_tsn = Some 100, as_cumulative_peer_tsn = Some 99, as_next_tsn = 100,
     as_outbound_cumulative_tsn = 99, as_next_message_id = 0, as_next_reconfig_sequence = 100,
     as_next_peer_reconfig_sequence = Some 100, as_peer_outbound_streams = 4,
     as_channels = [(2, \<lparr>ch_ordered = True, ch_reliability = Reliable, ch_next_outgoing_sequence = 0\<rparr>)],
     as_pending_data = [], as_reassembly = [], as_outstanding = [], as_abandoned = [],
     as_pending_forward_tsn = None, as_peer_forward_tsn_supported = False\<rparr>"

theorem message_delivered_witness:
  "\<exists>packets a' b'. send_message 5 2 Binary [1, 2, 3] sample_association = (Inr packets, a') \<and>
     receive_all (\<lambda>keys. keys) 6 packets sample_association = (Inr [Message 2 Binary [1, 2, 3]], b')"
proof -
  let ?message = "\<lparr>om_stream_id = 2, om_stream_sequence = 0, om_ppid = PPID_BINARY, om_ordered = True, om_reliability = Reliable\<rparr>"
  have "\<exists>p. build_packet 5000 5000 7 TYPE_DATA (data_flags True True True) (data_value 100 ?message [1, 2, 3]) = Inr p"
    by (rule build_packet_ok) (simp add: data_value_def)
  then obtain p where p: "build_packet 5000 5000 7 TYPE_DATA (data_flags True True True) (data_value 100 ?message [1, 2, 3]) = Inr p" by blast
  have frag: "chunks_of MAX_DATA_PAYLOAD [1, 2, 3 :: u8] = [[1, 2, 3]]"
    by (simp add: chunks_of.simps MAX_DATA_PAYLOAD_def)
  have "\<exists>a'. send_message 5 2 Binary [1, 2, 3] sample_association = (Inr [p], a')"
    using p by (simp add: send_message_def enqueue_message_def frag wire_payload_def sample_association_def sample_config_def
        MAX_OUTSTANDING_def flight_span_def packet_to_peer_def peer_tag_def packet_with_chunk_def Let_def)
  then obtain a' where a': "send_message 5 2 Binary [1, 2, 3] sample_association = (Inr [p], a')" by blast
  have "in_step sample_association sample_association"
    by (simp add: in_step_def sample_association_def sample_config_def)
  from message_delivered [OF this a', where later = 6 and order = "\<lambda>keys. keys"] a' show ?thesis
    by (auto simp: sample_association_def sample_config_def hm_contains_def)
qed

theorem cookie_required_witness:
  "\<exists>s0. as_new sample_config = Inr s0 \<and>
     as_state (as_run [Receive (\<lambda>keys. keys) 0 [1, 2, 3], Tick 5] s0) \<noteq> Established"
proof -
  obtain s0 where s0: "as_new sample_config = Inr s0"
    by (simp add: as_new_def ac_validate_def sample_config_def Let_def)
  let ?ops = "[Receive (\<lambda>keys. keys) 0 [1, 2, 3], Tick 5]"
  have "s0 = as_run [] s0" by simp
  moreover have "as_state s0 \<noteq> Established" using s0 by (auto simp: as_new_def result_simps Let_def)
  moreover have "\<forall>order now packet. Receive order now packet \<in> set ?ops \<longrightarrow> \<not> carries_cookie sample_config packet"
    by (simp add: carries_cookie_def sctp_parse_def header_lens)
  ultimately have "as_state (as_run ?ops s0) \<noteq> Established" using cookie_required [OF s0] by blast
  with s0 show ?thesis by blast
qed

theorem handshake_completes_witness:
  "\<exists>s0 init out s1 ack body. as_new sample_config = Inr s0 \<and>
     build_packet 5000 5000 0 TYPE_INIT 0 (init_value 9 4096 4 4 50 [forward_tsn_parameter]
       (Some \<lparr>pa_kind = 0x8008, pa_value = [192, 130, 7]\<rparr>)) = Inr init \<and>
     handle_packet (\<lambda>keys. keys) 0 init s0 = (Inr out, s1) \<and> ao_packets out = [ack] \<and>
     parse_parameters (drop 16 body) = Inr [cookie_parameter sample_config, forward_tsn_parameter]"
proof -
  obtain s0 where s0: "as_new sample_config = Inr s0"
    by (simp add: as_new_def ac_validate_def sample_config_def Let_def)
  let ?v = "init_value 9 4096 4 4 50 [forward_tsn_parameter] (Some \<lparr>pa_kind = 0x8008, pa_value = [192, 130, 7]\<rparr>)"
  have "\<exists>p. build_packet 5000 5000 0 TYPE_INIT 0 ?v = Inr p"
    by (rule build_packet_ok) (simp add: init_value_def parameter_bytes_def forward_tsn_parameter_def pad4_def)
  then obtain init where i: "build_packet 5000 5000 0 TYPE_INIT 0 ?v = Inr init" by blast
  have ports: "ac_remote_port sample_config = 5000" "ac_local_port sample_config = 5000"
    by (simp_all add: sample_config_def)
  have r: "s0 = as_run [] s0" by simp
  have "\<exists>out s1 ack body. handle_packet (\<lambda>keys. keys) 0 init s0 = (Inr out, s1) \<and> ao_packets out = [ack] \<and>
     parse_parameters (drop 16 body) = Inr [cookie_parameter sample_config, forward_tsn_parameter]"
    using handshake_completes [OF s0 r, where tag = 9 and outbound = 4 and inbound = 4 and window = 4096
        and initial_tsn = 50 and flags = 0 and params = "[forward_tsn_parameter]"
        and final = "Some \<lparr>pa_kind = 0x8008, pa_value = [192, 130, 7]\<rparr>" and init = init
        and order = "\<lambda>keys. keys" and now = 0, unfolded ports] i
    by auto
  with s0 i show ?thesis by blast
qed


section \<open>Two consequences of the order of checks\<close>

text \<open>A message refused because the send window is full has already taken a stream sequence number:
  the next message on the channel leaves a gap that the peer of an ordered channel waits for.\<close>

lemma refused_message_spends_sequence:
  assumes "send_message now stream_id kind payload s = (Inl SendWindowFull, s')"
  obtains channel where "hm_get (as_channels s) stream_id = Some channel"
    and "hm_get (as_channels s') stream_id =
      Some (channel\<lparr>ch_next_outgoing_sequence := ch_next_outgoing_sequence channel + 1\<rparr>)"
proof -
  obtain channel where ch: "hm_get (as_channels s) stream_id = Some channel"
    using assms by (auto simp: send_message_def split: if_splits option.splits)
  let ?s1 = "s\<lparr>as_channels := hm_insert stream_id
      (channel\<lparr>ch_next_outgoing_sequence := ch_next_outgoing_sequence channel + 1\<rparr>) (as_channels s)\<rparr>"
  obtain message wire where "enqueue_message now message wire ?s1 = (Inl SendWindowFull, s')"
    using assms ch by (auto simp: send_message_def Let_def split: if_splits prod.splits)
  with enqueue_message_frame [of now message wire ?s1] have "as_channels s' = as_channels ?s1" by auto
  with ch that show thesis by simp
qed

text \<open>An acknowledgement beyond the last number sent is accepted, and then nothing can be sent.\<close>

lemma overrun_acknowledgement_blocks:
  assumes "as_outbound_cumulative_tsn s = as_next_tsn s + 1" and "payload \<noteq> []"
  shows "enqueue_message now message payload s = (Inl SendWindowFull, s)"
proof -
  have "flight_span s = 4294967294"
    unfolding flight_span_def assms(1) by (simp add: unat_minus_1)
  then show ?thesis by (simp add: enqueue_message_def MAX_OUTSTANDING_def)
qed

end
