(* ===== verification/Net_Address.thy ===== *)
theory Net_Address
  imports Fluvora_Prelude
begin

text \<open>
  The network addresses of \<open>std::net\<close> as the protocol crates use them. An address is the word of
  its octets in network order; \<open>octets\<close> is \<open>to_be\<close> and \<open>From<[u8; 16]>\<close> is \<open>from_be\<close>. A
  \<open>SocketAddr::V6\<close> also carries a flow label and a scope, which take part in equality;
  \<open>SocketAddr::new\<close> sets both to zero.
\<close>

datatype ip_addr = IpV4 u32 | IpV6 u128

datatype socket_addr =
    SockV4 (sock_v4: u32) (sock_port: u16)
  | SockV6 (sock_v6: u128) (sock_port: u16) (sock_flowinfo: u32) (sock_scope: u32)

fun sock_ip :: "socket_addr \<Rightarrow> ip_addr" where
  "sock_ip (SockV4 ip port) = IpV4 ip"
| "sock_ip (SockV6 ip port flowinfo scope) = IpV6 ip"

fun sock_new :: "ip_addr \<Rightarrow> u16 \<Rightarrow> socket_addr" where
  "sock_new (IpV4 ip) port = SockV4 ip port"
| "sock_new (IpV6 ip) port = SockV6 ip port 0 0"

fun same_family :: "ip_addr \<Rightarrow> ip_addr \<Rightarrow> bool" where
  "same_family (IpV4 _) (IpV4 _) = True"
| "same_family (IpV6 _) (IpV6 _) = True"
| "same_family _ _ = False"

text \<open>An address as it can travel in a message: without flow label and scope.\<close>

definition on_wire :: "socket_addr \<Rightarrow> socket_addr" where
  "on_wire a = sock_new (sock_ip a) (sock_port a)"

lemma sock_ip_new [simp]: "sock_ip (sock_new ip port) = ip"
  by (cases ip) simp_all

lemma sock_port_new [simp]: "sock_port (sock_new ip port) = port"
  by (cases ip) simp_all

lemma on_wire_same: "sock_ip (on_wire a) = sock_ip a \<and> sock_port (on_wire a) = sock_port a"
  by (simp add: on_wire_def)

lemma on_wire_idem [simp]: "on_wire (on_wire a) = on_wire a"
  by (simp add: on_wire_def)

lemma on_wire_v4 [simp]: "on_wire (SockV4 ip port) = SockV4 ip port"
  by (simp add: on_wire_def)

lemma same_family_sym: "same_family a b = same_family b a"
  by (cases a; cases b) simp_all

lemma same_family_trans: "same_family a b \<Longrightarrow> same_family b c \<Longrightarrow> same_family a c"
  by (cases a; cases b; cases c) simp_all

lemma same_family_refl [simp]: "same_family a a"
  by (cases a) simp_all

interpretation be96: wire_int 12 "to_be :: 96 word \<Rightarrow> bytes" from_be
  by (rule wire_int_be) simp_all

interpretation be128: wire_int 16 "to_be :: u128 \<Rightarrow> bytes" from_be
  by (rule wire_int_be) simp_all

lemmas be_round_wide [wire_simps, simp] = be96.dec_enc be128.dec_enc

end
