(* ===== verification/Stun_Message.thy ===== *)
theory Stun_Message
  imports Net_Address Bytes_Codec Utf8
begin

text \<open>
  The STUN codec of \<open>crates/webrtc/stun/src/lib.rs\<close>: message types, attributes, the parser with its
  ordering rules, the typed accessors, integrity and fingerprint, the builder and the XOR addresses.
  HMAC-SHA1, HMAC-SHA256 and CRC-32 come from crates outside the repository and are the fields of a
  record that the definitions take as an argument; a keyed MAC may refuse its key, as
  \<open>new_from_slice\<close> may. A \<open>TransactionId\<close> is the word of its twelve bytes. A borrowed attribute
  value is the bytes it borrows. The parser runs on the cursor and the builder on the bounded writer of
  \<open>Bytes_Codec\<close>; an error of either leaves the function and drops them.
\<close>

section \<open>Types\<close>

record stun_crypto =
  st_hmac_sha1 :: "bytes \<Rightarrow> (bytes \<Rightarrow> 160 word) option"
  st_hmac_sha256 :: "bytes \<Rightarrow> (bytes \<Rightarrow> 256 word) option"
  st_crc32 :: "bytes \<Rightarrow> u32"

type_synonym attribute_type = u16
type_synonym transaction_id = "96 word"

datatype attribute_length =
    ExactLength nat
  | LengthRange (al_minimum: nat) (al_maximum: nat) (al_multiple: nat)

datatype stun_error =
    MessageTooShort nat
  | InvalidMessageType u16
  | InvalidMethod u16
  | InvalidMessageLength nat nat
  | LengthNotAligned nat
  | InvalidMagicCookie u32
  | StunMessageTooLarge
  | InvalidAttributeLength attribute_type attribute_length nat
  | DuplicateAttribute attribute_type
  | AttributeAfterIntegrity attribute_type
  | FingerprintNotLast
  | StunInvalidUtf8 attribute_type
  | UnsupportedAddressFamily u8
  | InvalidErrorCode u16
  | ReasonPhraseTooLong nat
  | MissingAttribute attribute_type
  | InvalidIntegrityKey
  | IntegrityMismatch
  | FingerprintMismatch
  | StunDecode decode_error
  | StunEncode encode_error

definition HEADER_LEN :: nat where "HEADER_LEN = 20"
definition MAGIC_COOKIE :: u32 where "MAGIC_COOKIE = 0x2112a442"
definition FINGERPRINT_XOR :: u32 where "FINGERPRINT_XOR = 0x5354554e"
definition MAX_MESSAGE_LEN :: nat where "MAX_MESSAGE_LEN = HEADER_LEN + 65535"

section \<open>Methods and message types\<close>

definition method_new :: "u16 \<Rightarrow> (stun_error, u16) result" where
  "method_new v = (if v \<le> 0x0fff then Inr v else Inl (InvalidMethod v))"

definition BINDING :: u16 where "BINDING = 0x001"
definition ALLOCATE :: u16 where "ALLOCATE = 0x003"
definition REFRESH :: u16 where "REFRESH = 0x004"
definition SEND :: u16 where "SEND = 0x006"
definition DATA_METHOD :: u16 where "DATA_METHOD = 0x007"
definition CREATE_PERMISSION :: u16 where "CREATE_PERMISSION = 0x008"
definition CHANNEL_BIND :: u16 where "CHANNEL_BIND = 0x009"

datatype message_class = Request | Indication | SuccessResponse | ErrorResponse

definition class_from_raw :: "u16 \<Rightarrow> message_class" where
  "class_from_raw v =
     (if v = 0 then Request else if v = 1 then Indication
      else if v = 2 then SuccessResponse else ErrorResponse)"

fun class_code :: "message_class \<Rightarrow> u16" where
  "class_code Request = 0"
| "class_code Indication = 1"
| "class_code SuccessResponse = 2"
| "class_code ErrorResponse = 3"

record message_type =
  mt_method :: u16
  mt_class :: message_class

definition message_type_encode :: "message_type \<Rightarrow> u16" where
  "message_type_encode t =
     (let m = mt_method t; c = class_code (mt_class t) in
      (m AND 0x000f) OR push_bit 1 (m AND 0x0070) OR push_bit 2 (m AND 0x0f80)
        OR push_bit 4 (c AND 0x01) OR push_bit 7 (c AND 0x02))"

definition message_type_decode :: "u16 \<Rightarrow> (stun_error, message_type) result" where
  "message_type_decode v =
     (if v AND 0xc000 \<noteq> 0 then Inl (InvalidMessageType v)
      else
        let m = (v AND 0x000f) OR drop_bit 1 (v AND 0x00e0) OR drop_bit 2 (v AND 0x3e00);
            c = (drop_bit 4 v AND 0x01) OR (drop_bit 7 v AND 0x02)
        in Inr \<lparr>mt_method = m, mt_class = class_from_raw c\<rparr>)"

section \<open>Attribute types\<close>

definition MAPPED_ADDRESS :: attribute_type where [simp]: "MAPPED_ADDRESS = 0x0001"
definition USERNAME :: attribute_type where [simp]: "USERNAME = 0x0006"
definition MESSAGE_INTEGRITY :: attribute_type where [simp]: "MESSAGE_INTEGRITY = 0x0008"
definition ERROR_CODE :: attribute_type where [simp]: "ERROR_CODE = 0x0009"
definition UNKNOWN_ATTRIBUTES :: attribute_type where [simp]: "UNKNOWN_ATTRIBUTES = 0x000a"
definition CHANNEL_NUMBER :: attribute_type where [simp]: "CHANNEL_NUMBER = 0x000c"
definition LIFETIME :: attribute_type where [simp]: "LIFETIME = 0x000d"
definition XOR_PEER_ADDRESS :: attribute_type where [simp]: "XOR_PEER_ADDRESS = 0x0012"
definition DATA_ATTRIBUTE :: attribute_type where [simp]: "DATA_ATTRIBUTE = 0x0013"
definition REALM :: attribute_type where [simp]: "REALM = 0x0014"
definition NONCE :: attribute_type where [simp]: "NONCE = 0x0015"
definition XOR_RELAYED_ADDRESS :: attribute_type where [simp]: "XOR_RELAYED_ADDRESS = 0x0016"
definition REQUESTED_ADDRESS_FAMILY :: attribute_type where [simp]: "REQUESTED_ADDRESS_FAMILY = 0x0017"
definition REQUESTED_TRANSPORT :: attribute_type where [simp]: "REQUESTED_TRANSPORT = 0x0019"
definition DONT_FRAGMENT :: attribute_type where [simp]: "DONT_FRAGMENT = 0x001a"
definition MESSAGE_INTEGRITY_SHA256 :: attribute_type where [simp]: "MESSAGE_INTEGRITY_SHA256 = 0x001c"
definition XOR_MAPPED_ADDRESS :: attribute_type where [simp]: "XOR_MAPPED_ADDRESS = 0x0020"
definition RESERVATION_TOKEN :: attribute_type where [simp]: "RESERVATION_TOKEN = 0x0022"
definition PRIORITY :: attribute_type where [simp]: "PRIORITY = 0x0024"
definition USE_CANDIDATE :: attribute_type where [simp]: "USE_CANDIDATE = 0x0025"
definition SOFTWARE :: attribute_type where [simp]: "SOFTWARE = 0x8022"
definition ALTERNATE_SERVER :: attribute_type where [simp]: "ALTERNATE_SERVER = 0x8023"
definition FINGERPRINT :: attribute_type where [simp]: "FINGERPRINT = 0x8028"
definition ICE_CONTROLLED :: attribute_type where [simp]: "ICE_CONTROLLED = 0x8029"
definition ICE_CONTROLLING :: attribute_type where [simp]: "ICE_CONTROLLING = 0x802a"

definition is_comprehension_required :: "attribute_type \<Rightarrow> bool" where
  "is_comprehension_required t \<longleftrightarrow> t < 0x8000"

definition is_known :: "attribute_type \<Rightarrow> bool" where
  "is_known t \<longleftrightarrow> t \<in> set [MAPPED_ADDRESS, USERNAME, MESSAGE_INTEGRITY, ERROR_CODE,
     UNKNOWN_ATTRIBUTES, CHANNEL_NUMBER, LIFETIME, XOR_PEER_ADDRESS, DATA_ATTRIBUTE, REALM, NONCE,
     XOR_RELAYED_ADDRESS, REQUESTED_ADDRESS_FAMILY, REQUESTED_TRANSPORT, DONT_FRAGMENT,
     MESSAGE_INTEGRITY_SHA256, XOR_MAPPED_ADDRESS, RESERVATION_TOKEN, PRIORITY, USE_CANDIDATE,
     SOFTWARE, ALTERNATE_SERVER, FINGERPRINT, ICE_CONTROLLED, ICE_CONTROLLING]"

record raw_attribute =
  ra_type :: attribute_type
  ra_value :: bytes
  ra_start :: nat

record stun_message =
  ms_raw :: bytes
  ms_kind :: message_type
  ms_transaction_id :: transaction_id
  ms_attributes :: "raw_attribute list"

section \<open>Reading\<close>

text \<open>The \<open>?\<close> operator on a cursor that is local to the function: a decoding error is converted
  and leaves the function.\<close>

definition bind_c ::
    "(decode_error, 'a) result \<times> read_cursor \<Rightarrow> ('a \<Rightarrow> read_cursor \<Rightarrow> (stun_error, 'b) result) \<Rightarrow>
     (stun_error, 'b) result" where
  "bind_c m k = (case m of (Inl e, c) \<Rightarrow> Inl (StunDecode e) | (Inr x, c) \<Rightarrow> k x c)"

lemma bind_c_simps [simp]: "bind_c (Inl e, c) k = Inl (StunDecode e)" "bind_c (Inr x, c) k = k x c"
  by (simp_all add: bind_c_def)

lemma bind_c_cong [fundef_cong]:
  assumes "m = m'" and "\<And>x c. m' = (Inr x, c) \<Longrightarrow> k x c = k' x c"
  shows "bind_c m k = bind_c m' k'"
proof -
  obtain r c where "m' = (r, c)" by fastforce
  with assms show ?thesis by (cases r) simp_all
qed

lemma bind_c_eq_Inr: "bind_c m k = Inr y \<longleftrightarrow> (\<exists>x c. m = (Inr x, c) \<and> k x c = Inr y)"
proof -
  obtain r c where "m = (r, c)" by fastforce
  then show ?thesis by (cases r) auto
qed

definition require_len :: "attribute_type \<Rightarrow> bytes \<Rightarrow> nat \<Rightarrow> (stun_error, unit) result" where
  "require_len t v expected =
     (if length v = expected then Inr ()
      else Inl (InvalidAttributeLength t (ExactLength expected) (length v)))"

definition read_exact_u32 :: "bytes \<Rightarrow> attribute_type \<Rightarrow> (stun_error, u32) result" where
  "read_exact_u32 v t =
     bind_r (require_len t v 4) (\<lambda>_. bind_c (rc_read_u32 (rc_new v)) (\<lambda>x _. Inr x))"

definition parse_header :: "bytes \<Rightarrow> (stun_error, message_type \<times> transaction_id \<times> bytes) result" where
  "parse_header input =
     (if length input < HEADER_LEN then Inl (MessageTooShort (length input))
      else
        bind_c (rc_read_u16 (rc_new input)) (\<lambda>v c. bind_r (message_type_decode v) (\<lambda>kind.
        bind_c (rc_read_u16 c) (\<lambda>l c.
          if unat l mod 4 \<noteq> 0 then Inl (LengthNotAligned (unat l))
          else bind_c (rc_read_u32 c) (\<lambda>cookie c.
            if cookie \<noteq> MAGIC_COOKIE then Inl (InvalidMagicCookie cookie)
            else bind_c (rc_take 12 c) (\<lambda>bs c.
              if length bs \<noteq> 12 then Inl (MessageTooShort (length input))
              else
                let declared_len = HEADER_LEN + unat l in
                if declared_len \<noteq> length input
                then Inl (InvalidMessageLength declared_len (length input))
                else Inr (kind, from_be bs, rc_rest c)))))))"

record seen =
  seen_sha1 :: bool
  seen_sha256 :: bool
  seen_fingerprint :: bool

text \<open>The rules of one attribute given what has been seen before it.\<close>

definition check_attribute :: "seen \<Rightarrow> attribute_type \<Rightarrow> bytes \<Rightarrow> (stun_error, seen) result" where
  "check_attribute s t v =
     (if seen_fingerprint s then Inl FingerprintNotLast
      else if (seen_sha1 s \<or> seen_sha256 s) \<and> t \<notin> {MESSAGE_INTEGRITY_SHA256, FINGERPRINT}
      then Inl (AttributeAfterIntegrity t)
      else if t = MESSAGE_INTEGRITY then
        if seen_sha1 s then Inl (DuplicateAttribute t)
        else bind_r (require_len t v 20) (\<lambda>_. Inr (s\<lparr>seen_sha1 := True\<rparr>))
      else if t = MESSAGE_INTEGRITY_SHA256 then
        if seen_sha256 s then Inl (DuplicateAttribute t)
        else if \<not> (16 \<le> length v \<and> length v \<le> 32) \<or> length v mod 4 \<noteq> 0
        then Inl (InvalidAttributeLength t (LengthRange 16 32 4) (length v))
        else Inr (s\<lparr>seen_sha256 := True\<rparr>)
      else if t = FINGERPRINT then
        bind_r (require_len t v 4) (\<lambda>_. Inr (s\<lparr>seen_fingerprint := True\<rparr>))
      else if t \<in> {PRIORITY, CHANNEL_NUMBER, LIFETIME, REQUESTED_ADDRESS_FAMILY, REQUESTED_TRANSPORT} then
        bind_r (require_len t v 4) (\<lambda>_. Inr s)
      else if t \<in> {DONT_FRAGMENT, USE_CANDIDATE} then bind_r (require_len t v 0) (\<lambda>_. Inr s)
      else if t = RESERVATION_TOKEN then bind_r (require_len t v 8) (\<lambda>_. Inr s)
      else if t \<in> {XOR_MAPPED_ADDRESS, XOR_PEER_ADDRESS, XOR_RELAYED_ADDRESS} then
        if length v \<noteq> 8 \<and> length v \<noteq> 20
        then Inl (InvalidAttributeLength t (LengthRange 8 20 4) (length v))
        else Inr s
      else if t \<in> {ICE_CONTROLLED, ICE_CONTROLLING} then bind_r (require_len t v 8) (\<lambda>_. Inr s)
      else Inr s)"

lemma rc_take_remaining: "rc_take n c = (Inr bs, c') \<Longrightarrow> rc_remaining c' = rc_remaining c - n \<and> n \<le> rc_remaining c"
  by (auto simp: rc_take_def rc_remaining_def Let_def split: if_splits)

lemma rc_read_u16_remaining: "rc_read_u16 c = (Inr x, c') \<Longrightarrow> rc_remaining c' < rc_remaining c"
  by (auto simp: rc_read_u16_def rc_read_be_def Let_def dest: rc_take_remaining
      split: prod.splits sum.splits if_splits)

function parse_attributes_from ::
    "read_cursor \<Rightarrow> seen \<Rightarrow> (stun_error, raw_attribute list) result" where
  "parse_attributes_from body s =
     (if rc_is_empty body then Inr []
      else
        let start = HEADER_LEN + rc_position body in
        bind_c (rc_read_u16 body) (\<lambda>t c1.
        bind_c (rc_read_u16 c1) (\<lambda>value_len c2.
        bind_c (rc_take (unat value_len) c2) (\<lambda>v c3.
        bind_c (rc_take ((4 - unat value_len mod 4) mod 4) c3) (\<lambda>_ c4.
        bind_r (check_attribute s t v) (\<lambda>s'.
        bind_r (parse_attributes_from c4 s') (\<lambda>rest.
          Inr (\<lparr>ra_type = t, ra_value = v, ra_start = start\<rparr> # rest))))))))"
  by pat_completeness auto
termination
proof (relation "measure (\<lambda>(c, s). rc_remaining c)", goal_cases)
  case 1
  then show ?case by simp
next
  case (2 body s start t c1 l c2 v c3 pad c4 s')
  have "rc_remaining c1 < rc_remaining body" by (rule rc_read_u16_remaining) (rule 2(3))
  moreover have "rc_remaining c2 < rc_remaining c1" by (rule rc_read_u16_remaining) (rule 2(4))
  ultimately show ?case
    using rc_take_remaining [OF 2(5)] rc_take_remaining [OF 2(6)] by simp
qed

declare parse_attributes_from.simps [simp del]

definition parse_attributes :: "bytes \<Rightarrow> (stun_error, raw_attribute list) result" where
  "parse_attributes body_bytes =
     parse_attributes_from (rc_new body_bytes)
       \<lparr>seen_sha1 = False, seen_sha256 = False, seen_fingerprint = False\<rparr>"

definition message_parse :: "bytes \<Rightarrow> (stun_error, stun_message) result" where
  "message_parse input =
     bind_r (parse_header input) (\<lambda>(kind, transaction_id, body).
     bind_r (parse_attributes body) (\<lambda>attributes.
       Inr \<lparr>ms_raw = input, ms_kind = kind, ms_transaction_id = transaction_id,
            ms_attributes = attributes\<rparr>))"

section \<open>Addresses\<close>

text \<open>The most significant half of the cookie, which masks the port.\<close>

definition cookie_port :: u16 where
  "cookie_port = ucast (drop_bit 16 MAGIC_COOKIE)"

definition address_mask :: "transaction_id \<Rightarrow> bytes" where
  "address_mask t = to_be MAGIC_COOKIE @ to_be t"

fun encode_xor_address :: "socket_addr \<Rightarrow> transaction_id \<Rightarrow> bytes" where
  "encode_xor_address (SockV4 ip port) t =
     [0, 0x01] @ to_be (port XOR cookie_port) @ to_be (ip XOR MAGIC_COOKIE)"
| "encode_xor_address (SockV6 ip port flowinfo scope) t =
     [0, 0x02] @ to_be (port XOR cookie_port) @ map2 (XOR) (to_be ip) (address_mask t)"

definition decode_xor_address :: "bytes \<Rightarrow> transaction_id \<Rightarrow> (stun_error, socket_addr) result" where
  "decode_xor_address v t =
     bind_c (rc_read_u8 (rc_new v)) (\<lambda>_ c.
     bind_c (rc_read_u8 c) (\<lambda>family c.
     bind_c (rc_read_u16 c) (\<lambda>xor_port c.
       let port = xor_port XOR cookie_port in
       if family = 0x01 then
         bind_r (require_len XOR_MAPPED_ADDRESS v 8) (\<lambda>_.
         bind_c (rc_read_u32 c) (\<lambda>x _. Inr (sock_new (IpV4 (x XOR MAGIC_COOKIE)) port)))
       else if family = 0x02 then
         bind_r (require_len XOR_MAPPED_ADDRESS v 20) (\<lambda>_.
         bind_c (rc_take 16 c) (\<lambda>encoded _.
           Inr (sock_new (IpV6 (from_be (map2 (XOR) encoded (address_mask t)))) port)))
       else Inl (UnsupportedAddressFamily family))))"

section \<open>Accessors\<close>

definition attribute :: "stun_message \<Rightarrow> attribute_type \<Rightarrow> raw_attribute option" where
  "attribute m t = find (\<lambda>a. ra_type a = t) (ms_attributes m)"

text \<open>\<open>Option::transpose\<close> after a fallible conversion.\<close>

definition convert_attribute ::
    "(bytes \<Rightarrow> (stun_error, 'a) result) \<Rightarrow> stun_message \<Rightarrow> attribute_type \<Rightarrow> (stun_error, 'a option) result" where
  "convert_attribute f m t =
     (case attribute m t of None \<Rightarrow> Inr None | Some a \<Rightarrow> bind_r (f (ra_value a)) (\<lambda>x. Inr (Some x)))"

definition unknown_required_attributes :: "stun_message \<Rightarrow> attribute_type list" where
  "unknown_required_attributes m =
     filter (\<lambda>t. is_comprehension_required t \<and> \<not> is_known t) (map ra_type (ms_attributes m))"

definition msg_error_code :: "stun_message \<Rightarrow> (stun_error, (u16 \<times> rust_string) option) result" where
  "msg_error_code m =
     (case attribute m ERROR_CODE of None \<Rightarrow> Inr None
      | Some a \<Rightarrow>
          let v = ra_value a in
          if length v < 4 then Inl (InvalidAttributeLength ERROR_CODE (LengthRange 4 763 1) (length v))
          else
            bind_r (ok_or (InvalidErrorCode 0) (get_range v 0 2)) (\<lambda>reserved.
            if reserved \<noteq> [0, 0] then Inl (InvalidErrorCode 0)
            else
              let class = v ! 2 AND 0x07; number = v ! 3; code = ucast class * 100 + ucast number in
              if \<not> (300 \<le> code \<and> code \<le> 699) \<or> number > 99 then Inl (InvalidErrorCode code)
              else
                bind_r (ok_or (InvalidErrorCode code) (get_range v 4 (length v))) (\<lambda>reason_bytes.
                bind_r (ok_or (StunInvalidUtf8 ERROR_CODE) (from_utf8 reason_bytes)) (\<lambda>reason.
                  Inr (Some (code, reason))))))"

fun be16_chunks :: "bytes \<Rightarrow> u16 list" where
  "be16_chunks (a # b # rest) = from_be [a, b] # be16_chunks rest"
| "be16_chunks _ = []"

definition msg_unknown_attributes :: "stun_message \<Rightarrow> (stun_error, attribute_type list) result" where
  "msg_unknown_attributes m =
     (case attribute m UNKNOWN_ATTRIBUTES of None \<Rightarrow> Inr []
      | Some a \<Rightarrow>
          if length (ra_value a) mod 2 \<noteq> 0
          then Inl (InvalidAttributeLength UNKNOWN_ATTRIBUTES (LengthRange 0 65535 2) (length (ra_value a)))
          else Inr (be16_chunks (ra_value a)))"

definition utf8_attribute :: "stun_message \<Rightarrow> attribute_type \<Rightarrow> (stun_error, rust_string option) result" where
  "utf8_attribute m t = convert_attribute (\<lambda>v. ok_or (StunInvalidUtf8 t) (from_utf8 v)) m t"

definition u32_attribute :: "stun_message \<Rightarrow> attribute_type \<Rightarrow> (stun_error, u32 option) result" where
  "u32_attribute m t = convert_attribute (\<lambda>v. read_exact_u32 v t) m t"

definition u64_attribute :: "stun_message \<Rightarrow> attribute_type \<Rightarrow> (stun_error, u64 option) result" where
  "u64_attribute m t =
     convert_attribute (\<lambda>v. bind_c (rc_read_u64 (rc_new v)) (\<lambda>x c.
       if \<not> rc_is_empty c then Inl (InvalidAttributeLength t (ExactLength 8) (length v)) else Inr x)) m t"

definition msg_username :: "stun_message \<Rightarrow> (stun_error, rust_string option) result" where
  "msg_username m = utf8_attribute m USERNAME"

definition msg_realm :: "stun_message \<Rightarrow> (stun_error, rust_string option) result" where
  "msg_realm m = utf8_attribute m REALM"

definition msg_nonce :: "stun_message \<Rightarrow> (stun_error, rust_string option) result" where
  "msg_nonce m = utf8_attribute m NONCE"

definition msg_software :: "stun_message \<Rightarrow> (stun_error, rust_string option) result" where
  "msg_software m = utf8_attribute m SOFTWARE"

definition msg_priority :: "stun_message \<Rightarrow> (stun_error, u32 option) result" where
  "msg_priority m = u32_attribute m PRIORITY"

definition msg_use_candidate :: "stun_message \<Rightarrow> bool" where
  "msg_use_candidate m \<longleftrightarrow> attribute m USE_CANDIDATE \<noteq> None"

definition msg_ice_controlling :: "stun_message \<Rightarrow> (stun_error, u64 option) result" where
  "msg_ice_controlling m = u64_attribute m ICE_CONTROLLING"

definition msg_ice_controlled :: "stun_message \<Rightarrow> (stun_error, u64 option) result" where
  "msg_ice_controlled m = u64_attribute m ICE_CONTROLLED"

definition msg_xor_address :: "stun_message \<Rightarrow> attribute_type \<Rightarrow> (stun_error, socket_addr option) result" where
  "msg_xor_address m t = convert_attribute (\<lambda>v. decode_xor_address v (ms_transaction_id m)) m t"

definition msg_xor_mapped_address :: "stun_message \<Rightarrow> (stun_error, socket_addr option) result" where
  "msg_xor_mapped_address m = msg_xor_address m XOR_MAPPED_ADDRESS"

text \<open>\<open>collect\<close> into a \<open>Result\<close> stops at the first error.\<close>

fun collect_results :: "('e, 'a) result list \<Rightarrow> ('e, 'a list) result" where
  "collect_results [] = Inr []"
| "collect_results (r # rs) = bind_r r (\<lambda>x. bind_r (collect_results rs) (\<lambda>xs. Inr (x # xs)))"

definition msg_xor_addresses :: "stun_message \<Rightarrow> attribute_type \<Rightarrow> (stun_error, socket_addr list) result" where
  "msg_xor_addresses m t =
     collect_results (map (\<lambda>a. decode_xor_address (ra_value a) (ms_transaction_id m))
       (filter (\<lambda>a. ra_type a = t) (ms_attributes m)))"

section \<open>Integrity and fingerprint\<close>

definition integrity_input :: "stun_message \<Rightarrow> raw_attribute \<Rightarrow> (stun_error, bytes) result" where
  "integrity_input m a =
     (let stop = ra_start a + 4 + length (ra_value a) in
      if stop < HEADER_LEN \<or> stop - HEADER_LEN \<ge> 65536 then Inl StunMessageTooLarge
      else
        let adjusted_len = word_of_nat (stop - HEADER_LEN) :: u16 in
        bind_r (ok_or IntegrityMismatch (get_range (ms_raw m) 0 (ra_start a))) (\<lambda>prefix.
        bind_r (ok_or IntegrityMismatch (get_range prefix 2 4)) (\<lambda>_.
          Inr (take 2 prefix @ to_be adjusted_len @ drop 4 prefix))))"

definition verify_message_integrity_sha1 ::
    "stun_crypto \<Rightarrow> stun_message \<Rightarrow> bytes \<Rightarrow> (stun_error, unit) result" where
  "verify_message_integrity_sha1 cr m key =
     bind_r (ok_or (MissingAttribute MESSAGE_INTEGRITY) (attribute m MESSAGE_INTEGRITY)) (\<lambda>a.
     bind_r (integrity_input m a) (\<lambda>input.
     bind_r (ok_or InvalidIntegrityKey (st_hmac_sha1 cr key)) (\<lambda>mac.
       if to_be (mac input) = ra_value a then Inr () else Inl IntegrityMismatch)))"

text \<open>The slice \<open>output[..attribute.value.len()]\<close> is in range for every parsed message: the parser
  accepts at most 32 bytes (\<open>parsed_sha256_length\<close>).\<close>

definition verify_message_integrity_sha256 ::
    "stun_crypto \<Rightarrow> stun_message \<Rightarrow> bytes \<Rightarrow> (stun_error, unit) result" where
  "verify_message_integrity_sha256 cr m key =
     bind_r (ok_or (MissingAttribute MESSAGE_INTEGRITY_SHA256) (attribute m MESSAGE_INTEGRITY_SHA256)) (\<lambda>a.
     bind_r (integrity_input m a) (\<lambda>input.
     bind_r (ok_or InvalidIntegrityKey (st_hmac_sha256 cr key)) (\<lambda>mac.
       if ra_value a = take (length (ra_value a)) (to_be (mac input)) then Inr ()
       else Inl IntegrityMismatch)))"

definition verify_fingerprint :: "stun_crypto \<Rightarrow> stun_message \<Rightarrow> (stun_error, unit) result" where
  "verify_fingerprint cr m =
     bind_r (ok_or (MissingAttribute FINGERPRINT) (attribute m FINGERPRINT)) (\<lambda>a.
     bind_r (read_exact_u32 (ra_value a) (ra_type a)) (\<lambda>expected.
     bind_r (ok_or FingerprintMismatch (get_range (ms_raw m) 0 (ra_start a))) (\<lambda>prefix.
       if st_crc32 cr prefix XOR FINGERPRINT_XOR = expected then Inr () else Inl FingerprintMismatch)))"

section \<open>Builder\<close>

datatype integrity = Sha1Key bytes | Sha256Key bytes

record message_builder =
  mb_message_type :: message_type
  mb_transaction_id :: transaction_id
  mb_attributes :: "(attribute_type \<times> bytes) list"
  mb_integrity :: "integrity option"
  mb_fingerprint :: bool

definition builder_new :: "message_type \<Rightarrow> transaction_id \<Rightarrow> message_builder" where
  "builder_new t i = \<lparr>mb_message_type = t, mb_transaction_id = i, mb_attributes = [],
     mb_integrity = None, mb_fingerprint = False\<rparr>"

definition add_raw_attribute :: "attribute_type \<Rightarrow> bytes \<Rightarrow> message_builder \<Rightarrow> message_builder" where
  "add_raw_attribute t v b = b\<lparr>mb_attributes := mb_attributes b @ [(t, v)]\<rparr>"

definition add_username :: "rust_string \<Rightarrow> message_builder \<Rightarrow> message_builder" where
  "add_username s = add_raw_attribute USERNAME (str_bytes s)"

definition add_software :: "rust_string \<Rightarrow> message_builder \<Rightarrow> message_builder" where
  "add_software s = add_raw_attribute SOFTWARE (str_bytes s)"

definition add_priority :: "u32 \<Rightarrow> message_builder \<Rightarrow> message_builder" where
  "add_priority v = add_raw_attribute PRIORITY (to_be v)"

definition add_use_candidate :: "message_builder \<Rightarrow> message_builder" where
  "add_use_candidate = add_raw_attribute USE_CANDIDATE []"

definition add_ice_controlling :: "u64 \<Rightarrow> message_builder \<Rightarrow> message_builder" where
  "add_ice_controlling v = add_raw_attribute ICE_CONTROLLING (to_be v)"

definition add_ice_controlled :: "u64 \<Rightarrow> message_builder \<Rightarrow> message_builder" where
  "add_ice_controlled v = add_raw_attribute ICE_CONTROLLED (to_be v)"

definition add_xor_address :: "attribute_type \<Rightarrow> socket_addr \<Rightarrow> message_builder \<Rightarrow> message_builder" where
  "add_xor_address t a b = add_raw_attribute t (encode_xor_address a (mb_transaction_id b)) b"

definition add_xor_mapped_address :: "socket_addr \<Rightarrow> message_builder \<Rightarrow> message_builder" where
  "add_xor_mapped_address = add_xor_address XOR_MAPPED_ADDRESS"

definition add_error_code ::
    "u16 \<Rightarrow> rust_string \<Rightarrow> message_builder \<Rightarrow> (stun_error, message_builder) result" where
  "add_error_code code reason b =
     (let class = code div 100; number = code mod 100 in
      if \<not> (3 \<le> class \<and> class \<le> 6) then Inl (InvalidErrorCode code)
      else if str_len reason > 759 then Inl (ReasonPhraseTooLong (str_len reason))
      else Inr (add_raw_attribute ERROR_CODE
             ([0, 0, ucast class] @ [ucast number] @ str_bytes reason) b))"

definition add_unknown_attributes :: "attribute_type list \<Rightarrow> message_builder \<Rightarrow> message_builder" where
  "add_unknown_attributes ts =
     add_raw_attribute UNKNOWN_ATTRIBUTES (concat (map to_be (remdups_adj (sort ts))))"

definition with_integrity_sha1 :: "bytes \<Rightarrow> message_builder \<Rightarrow> message_builder" where
  "with_integrity_sha1 key b = b\<lparr>mb_integrity := Some (Sha1Key key)\<rparr>"

definition with_integrity_sha256 :: "bytes \<Rightarrow> message_builder \<Rightarrow> message_builder" where
  "with_integrity_sha256 key b = b\<lparr>mb_integrity := Some (Sha256Key key)\<rparr>"

definition with_fingerprint :: "message_builder \<Rightarrow> message_builder" where
  "with_fingerprint b = b\<lparr>mb_fingerprint := True\<rparr>"

section \<open>Encoding\<close>

definition bind_w ::
    "(encode_error, unit) result \<times> write_buffer \<Rightarrow> (write_buffer \<Rightarrow> (stun_error, 'b) result) \<Rightarrow>
     (stun_error, 'b) result" where
  "bind_w m k = (case m of (Inl e, w) \<Rightarrow> Inl (StunEncode e) | (Inr _, w) \<Rightarrow> k w)"

definition encode_attribute ::
    "attribute_type \<Rightarrow> bytes \<Rightarrow> write_buffer \<Rightarrow> (stun_error, write_buffer) result" where
  "encode_attribute t v w =
     (if length v \<ge> 65536 then Inl StunMessageTooLarge
      else
        bind_w (wb_write_u16 t w) (\<lambda>w.
        bind_w (wb_write_u16 (word_of_nat (length v)) w) (\<lambda>w.
        bind_w (wb_extend_from_slice v w) (\<lambda>w.
        bind_w (wb_extend_from_slice (replicate ((4 - length v mod 4) mod 4) 0) w) (\<lambda>w. Inr w)))))"

fun encode_attributes ::
    "(attribute_type \<times> bytes) list \<Rightarrow> write_buffer \<Rightarrow> (stun_error, write_buffer) result" where
  "encode_attributes [] w = Inr w"
| "encode_attributes ((t, v) # rest) w = bind_r (encode_attribute t v w) (encode_attributes rest)"

definition set_wire_length :: "nat \<Rightarrow> write_buffer \<Rightarrow> (stun_error, write_buffer) result" where
  "set_wire_length complete_len w =
     (if complete_len < HEADER_LEN \<or> complete_len - HEADER_LEN \<ge> 65536 then Inl StunMessageTooLarge
      else bind_w (wb_set_u16 2 (word_of_nat (complete_len - HEADER_LEN)) w) (\<lambda>w. Inr w))"

definition set_current_length :: "write_buffer \<Rightarrow> (stun_error, write_buffer) result" where
  "set_current_length w = set_wire_length (length (wb_bytes w)) w"

definition set_length_through_attribute :: "nat \<Rightarrow> write_buffer \<Rightarrow> (stun_error, write_buffer) result" where
  "set_length_through_attribute value_len w =
     (let additional = 4 + value_len + (4 - value_len mod 4) mod 4
      in set_wire_length (length (wb_bytes w) + additional) w)"

definition write_integrity ::
    "stun_crypto \<Rightarrow> integrity option \<Rightarrow> write_buffer \<Rightarrow> (stun_error, write_buffer) result" where
  "write_integrity cr i w =
     (case i of
        None \<Rightarrow> Inr w
      | Some (Sha1Key key) \<Rightarrow>
          bind_r (set_length_through_attribute 20 w) (\<lambda>w.
          bind_r (ok_or InvalidIntegrityKey (st_hmac_sha1 cr key)) (\<lambda>mac.
            encode_attribute MESSAGE_INTEGRITY (to_be (mac (wb_bytes w))) w))
      | Some (Sha256Key key) \<Rightarrow>
          bind_r (set_length_through_attribute 32 w) (\<lambda>w.
          bind_r (ok_or InvalidIntegrityKey (st_hmac_sha256 cr key)) (\<lambda>mac.
            encode_attribute MESSAGE_INTEGRITY_SHA256 (to_be (mac (wb_bytes w))) w)))"

definition write_fingerprint ::
    "stun_crypto \<Rightarrow> bool \<Rightarrow> write_buffer \<Rightarrow> (stun_error, write_buffer) result" where
  "write_fingerprint cr f w =
     (if f then
        bind_r (set_length_through_attribute 4 w) (\<lambda>w.
          encode_attribute FINGERPRINT (to_be (st_crc32 cr (wb_bytes w) XOR FINGERPRINT_XOR)) w)
      else set_current_length w)"

definition message_build :: "stun_crypto \<Rightarrow> message_builder \<Rightarrow> (stun_error, bytes) result" where
  "message_build cr b =
     bind_w (wb_write_u16 (message_type_encode (mb_message_type b)) (wb_with_limit MAX_MESSAGE_LEN)) (\<lambda>w.
     bind_w (wb_write_u16 0 w) (\<lambda>w.
     bind_w (wb_write_u32 MAGIC_COOKIE w) (\<lambda>w.
     bind_w (wb_extend_from_slice (to_be (mb_transaction_id b)) w) (\<lambda>w.
     bind_r (encode_attributes (mb_attributes b) w) (\<lambda>w.
     bind_r (write_integrity cr (mb_integrity b) w) (\<lambda>w.
     bind_r (write_fingerprint cr (mb_fingerprint b) w) (\<lambda>w. Inr (wb_bytes w))))))))"

end
