(* ===== verification/Stun.thy ===== *)
theory Stun
  imports Stun_Message
begin

text \<open>
  Correctness of the STUN codec: the wire layout of a built message, what the parser accepts, the
  round trip of a message through both, and what the integrity check covers.
\<close>

section \<open>Message types\<close>

lemma class_from_raw_code [simp]: "class_from_raw (class_code c) = c"
  by (cases c) (simp_all add: class_from_raw_def)

lemma class_code_from_raw: "unat v < 4 \<Longrightarrow> class_code (class_from_raw v) = v"
proof -
  assume "unat v < 4"
  then consider "unat v = 0" | "unat v = 1" | "unat v = 2" | "unat v = 3" by linarith
  then show ?thesis
    by cases (simp_all add: class_from_raw_def word_unat_eq_iff)
qed

definition type_bits :: "u16 \<Rightarrow> u16 \<Rightarrow> u16" where
  "type_bits m c = (m AND 0x000f) OR push_bit 1 (m AND 0x0070) OR push_bit 2 (m AND 0x0f80)
     OR push_bit 4 (c AND 0x01) OR push_bit 7 (c AND 0x02)"

definition method_bits :: "u16 \<Rightarrow> u16" where
  "method_bits v = (v AND 0x000f) OR drop_bit 1 (v AND 0x00e0) OR drop_bit 2 (v AND 0x3e00)"

definition class_bits :: "u16 \<Rightarrow> u16" where
  "class_bits v = (drop_bit 4 v AND 0x01) OR (drop_bit 7 v AND 0x02)"

text \<open>A mask is a block of bits.\<close>

lemma mask_blocks:
  "bit (0x000f :: u16) n \<longleftrightarrow> n < 4" "bit (0x0070 :: u16) n \<longleftrightarrow> 4 \<le> n \<and> n < 7"
  "bit (0x0f80 :: u16) n \<longleftrightarrow> 7 \<le> n \<and> n < 12" "bit (0x00e0 :: u16) n \<longleftrightarrow> 5 \<le> n \<and> n < 8"
  "bit (0x3e00 :: u16) n \<longleftrightarrow> 9 \<le> n \<and> n < 14" "bit (0xc000 :: u16) n \<longleftrightarrow> 14 \<le> n \<and> n < 16"
  "bit (0x0002 :: u16) n \<longleftrightarrow> n = 1"
proof -
  have "(0x000f :: u16) = mask 4" "(0x0070 :: u16) = push_bit 4 (mask 3)"
    "(0x0f80 :: u16) = push_bit 7 (mask 5)" "(0x00e0 :: u16) = push_bit 5 (mask 3)"
    "(0x3e00 :: u16) = push_bit 9 (mask 5)" "(0xc000 :: u16) = push_bit 14 (mask 2)"
    "(0x0002 :: u16) = push_bit 1 (mask 1)"
    by (simp_all add: mask_eq_exp_minus_1 push_bit_eq_mult)
  note blocks = this
  show "bit (0x000f :: u16) n \<longleftrightarrow> n < 4" unfolding blocks(1) by (auto simp: bit_simps)
  show "bit (0x0070 :: u16) n \<longleftrightarrow> 4 \<le> n \<and> n < 7" unfolding blocks(2) by (auto simp: bit_simps)
  show "bit (0x0f80 :: u16) n \<longleftrightarrow> 7 \<le> n \<and> n < 12" unfolding blocks(3) by (auto simp: bit_simps)
  show "bit (0x00e0 :: u16) n \<longleftrightarrow> 5 \<le> n \<and> n < 8" unfolding blocks(4) by (auto simp: bit_simps)
  show "bit (0x3e00 :: u16) n \<longleftrightarrow> 9 \<le> n \<and> n < 14" unfolding blocks(5) by (auto simp: bit_simps)
  show "bit (0xc000 :: u16) n \<longleftrightarrow> 14 \<le> n \<and> n < 16" unfolding blocks(6) by (auto simp: bit_simps)
  show "bit (0x0002 :: u16) n \<longleftrightarrow> n = 1" unfolding blocks(7) by (auto simp: bit_simps)
qed

lemma bit_push_u16: "bit (push_bit k (m :: u16)) n \<longleftrightarrow> k \<le> n \<and> n < 16 \<and> bit m (n - k)"
  by (auto simp: bit_push_bit_iff)

lemma bit_drop_u16: "bit (drop_bit k (m :: u16)) n \<longleftrightarrow> bit m (n + k)"
  by (simp add: bit_drop_bit_eq add.commute)

lemma bit_one_u16: "bit (1 :: u16) n \<longleftrightarrow> n = 0"
  by (auto simp: bit_1_iff)

lemmas bit_blocks = bit_or_iff bit_and_iff bit_push_u16 bit_drop_u16 mask_blocks bit_one_u16

lemma bit_type_bits:
  "bit (type_bits m c) n \<longleftrightarrow>
     (n < 4 \<and> bit m n) \<or> (5 \<le> n \<and> n < 8 \<and> bit m (n - 1)) \<or> (9 \<le> n \<and> n < 14 \<and> bit m (n - 2)) \<or>
     (n = 4 \<and> bit c 0) \<or> (n = 8 \<and> bit c 1)"
proof -
  have e1: "(1 \<le> n \<and> n < 16 \<and> bit m (n - 1) \<and> 4 \<le> n - 1 \<and> n - 1 < 7) = (5 \<le> n \<and> n < 8 \<and> bit m (n - 1))"
    by (cases "5 \<le> n \<and> n < 8") auto
  have e2: "(2 \<le> n \<and> n < 16 \<and> bit m (n - 2) \<and> 7 \<le> n - 2 \<and> n - 2 < 12) = (9 \<le> n \<and> n < 14 \<and> bit m (n - 2))"
    by (cases "9 \<le> n \<and> n < 14") auto
  have e3: "(4 \<le> n \<and> n < 16 \<and> bit c (n - 4) \<and> n - 4 = 0) = (n = 4 \<and> bit c 0)"
    by (cases "n = 4") auto
  have e4: "(7 \<le> n \<and> n < 16 \<and> bit c (n - 7) \<and> n - 7 = 1) = (n = 8 \<and> bit c 1)"
    by (cases "n = 8") auto
  show ?thesis unfolding type_bits_def bit_blocks e1 e2 e3 e4 disj_assoc
    by (simp only: conj_commute [of "n < 4"])
qed

lemma bit_method_bits:
  "bit (method_bits v) n \<longleftrightarrow>
     (n < 4 \<and> bit v n) \<or> (4 \<le> n \<and> n < 7 \<and> bit v (n + 1)) \<or> (7 \<le> n \<and> n < 12 \<and> bit v (n + 2))"
  unfolding method_bits_def bit_blocks by auto

lemma bit_class_bits: "bit (class_bits v) n \<longleftrightarrow> (n = 0 \<and> bit v 4) \<or> (n = 1 \<and> bit v 8)"
  unfolding class_bits_def bit_blocks by auto

lemma method_of_type_bits: "unat m < 2 ^ 12 \<Longrightarrow> method_bits (type_bits m c) = m"
proof (rule bit_word_eqI)
  fix n
  assume "unat m < 2 ^ 12"
  then have m: "12 \<le> n \<Longrightarrow> \<not> bit m n" using bit_word_small [of m 12 n] by fastforce
  consider "n < 4" | "4 \<le> n" "n < 7" | "7 \<le> n" "n < 12" | "12 \<le> n" by linarith
  then show "bit (method_bits (type_bits m c)) n = bit m n"
    by cases (use m in \<open>simp_all add: bit_method_bits bit_type_bits\<close>)
qed

lemma class_of_type_bits: "unat c < 2 ^ 2 \<Longrightarrow> class_bits (type_bits m c) = c"
proof (rule bit_word_eqI)
  fix n
  assume "unat c < 2 ^ 2"
  then have "bit c n \<Longrightarrow> n < 2" by (rule bit_word_small)
  moreover have "n < 2 \<longleftrightarrow> n = 0 \<or> n = 1" by auto
  ultimately show "bit (class_bits (type_bits m c)) n = bit c n"
    by (auto simp: bit_class_bits bit_type_bits)
qed

lemma top_bits_clear: "v AND 0xc000 = 0 \<longleftrightarrow> unat (v :: u16) < 2 ^ 14"
proof
  assume z: "v AND 0xc000 = 0"
  have "take_bit 14 v = v"
  proof (rule bit_word_eqI)
    fix n assume "n < LENGTH(16)"
    moreover have "bit (v AND 0xc000) n = False" using z by simp
    ultimately show "bit (take_bit 14 v) n = bit v n"
      unfolding bit_and_iff mask_blocks bit_take_bit_iff by auto
  qed
  then show "unat v < 2 ^ 14"
    by (metis take_bit_nat_less_exp unsigned_take_bit_eq)
next
  assume "unat v < 2 ^ 14"
  then have "bit v n \<Longrightarrow> n < 14" for n by (rule bit_word_small)
  then have "\<not> (bit v n \<and> 14 \<le> n \<and> n < 16)" for n by fastforce
  then have "\<not> bit (v AND 0xc000) n" for n unfolding bit_and_iff mask_blocks .
  then show "v AND 0xc000 = 0" by (intro bit_word_eqI) simp
qed

lemma unat_small_bits:
  assumes "\<And>n. bit (w :: u16) n \<Longrightarrow> n < k"
  shows "unat w < 2 ^ k"
proof -
  have "take_bit k w = w" by (rule bit_word_eqI) (auto simp: bit_take_bit_iff dest: assms)
  then show ?thesis by (metis take_bit_nat_less_exp unsigned_take_bit_eq)
qed

lemma message_type_encode_bits: "message_type_encode t = type_bits (mt_method t) (class_code (mt_class t))"
  by (simp add: message_type_encode_def type_bits_def Let_def)

lemma message_type_decode_bits:
  "message_type_decode v =
     (if unat v < 2 ^ 14 then Inr \<lparr>mt_method = method_bits v, mt_class = class_from_raw (class_bits v)\<rparr>
      else Inl (InvalidMessageType v))"
  unfolding message_type_decode_def Let_def method_bits_def [symmetric] class_bits_def [symmetric]
  by (simp add: top_bits_clear)

lemma class_code_less: "unat (class_code c) < 2 ^ 2"
  by (cases c) simp_all

lemma type_bits_less: "unat (type_bits m c) < 2 ^ 14"
  by (rule unat_small_bits) (auto simp: bit_type_bits)

lemma decode_encode_type:
  "unat (mt_method t) < 2 ^ 12 \<Longrightarrow> message_type_decode (message_type_encode t) = Inr t"
  unfolding message_type_decode_bits message_type_encode_bits
  by (simp add: type_bits_less class_of_type_bits class_code_less method_of_type_bits
      del: power_numeral)

lemma encode_decode_type:
  assumes "message_type_decode v = Inr t"
  shows "message_type_encode t = v \<and> unat (mt_method t) < 2 ^ 12"
proof -
  from assms have v: "unat v < 2 ^ 14" and t: "t = \<lparr>mt_method = method_bits v, mt_class = class_from_raw (class_bits v)\<rparr>"
    unfolding message_type_decode_bits by (auto split: if_splits)
  have "unat (class_bits v) < 2 ^ 2" by (rule unat_small_bits) (auto simp: bit_class_bits)
  then have c: "class_code (mt_class t) = class_bits v" by (simp add: t class_code_from_raw)
  have "type_bits (method_bits v) (class_bits v) = v"
  proof (rule bit_word_eqI)
    fix n
    have z: "14 \<le> n \<Longrightarrow> \<not> bit v n" using bit_word_small [OF v, of n] by fastforce
    consider "n < 4" | "n = 4" | "5 \<le> n" "n < 8" | "n = 8" | "9 \<le> n" "n < 14" | "14 \<le> n" by linarith
    then show "bit (type_bits (method_bits v) (class_bits v)) n = bit v n"
    proof cases
      case 3
      then obtain k where "n = Suc k" "4 \<le> k" "k < 7" by (cases n) auto
      then show ?thesis by (simp add: bit_type_bits bit_method_bits)
    next
      case 5
      define k where "k = n - 2"
      then have "n = k + 2" using 5 by simp
      with 5 show ?thesis by (simp add: bit_type_bits bit_method_bits)
    qed (use z in \<open>simp_all add: bit_type_bits bit_method_bits bit_class_bits\<close>)
  qed
  moreover have "unat (method_bits v) < 2 ^ 12" by (rule unat_small_bits) (auto simp: bit_method_bits)
  ultimately show ?thesis using c by (simp add: message_type_encode_bits t)
qed

section \<open>Layout\<close>

definition attribute_bytes :: "attribute_type \<times> bytes \<Rightarrow> bytes" where
  "attribute_bytes a =
     to_be (fst a) @ to_be (word_of_nat (length (snd a)) :: u16) @ snd a @ replicate (pad4 (length (snd a))) 0"

definition attributes_bytes :: "(attribute_type \<times> bytes) list \<Rightarrow> bytes" where
  "attributes_bytes xs = concat (map attribute_bytes xs)"

definition header_bytes :: "message_type \<Rightarrow> transaction_id \<Rightarrow> nat \<Rightarrow> bytes" where
  "header_bytes t i n =
     to_be (message_type_encode t) @ to_be (word_of_nat n :: u16) @ to_be MAGIC_COOKIE @ to_be i"

lemma length_header [simp]: "length (header_bytes t i n) = 20"
  by (simp add: header_bytes_def)

lemma length_attribute_bytes:
  "length (attribute_bytes a) = 4 + length (snd a) + pad4 (length (snd a))"
  by (simp add: attribute_bytes_def)

lemma attributes_bytes_simps [simp]:
  "attributes_bytes [] = []"
  "attributes_bytes (a # xs) = attribute_bytes a @ attributes_bytes xs"
  "attributes_bytes (xs @ ys) = attributes_bytes xs @ attributes_bytes ys"
  by (simp_all add: attributes_bytes_def)

lemma attributes_aligned: "length (attributes_bytes xs) mod 4 = 0"
proof (induction xs)
  case Nil
  then show ?case by simp
next
  case (Cons a xs)
  have "length (attributes_bytes (a # xs)) = 4 + ((length (snd a) + pad4 (length (snd a))) + length (attributes_bytes xs))"
    by (simp add: length_attribute_bytes)
  moreover have "(length (snd a) + pad4 (length (snd a))) mod 4 = 0" by (rule pad4_mod)
  ultimately show ?case using Cons.IH by presburger
qed

section \<open>What the builder writes\<close>

lemma bind_w_eq_Inr: "bind_w m k = Inr y \<longleftrightarrow> (\<exists>u w. m = (Inr u, w) \<and> k w = Inr y)"
proof -
  obtain r c where "m = (r, c)" by fastforce
  then show ?thesis by (cases r) (auto simp: bind_w_def)
qed

text \<open>A sequence of appends within the limit is one append.\<close>

lemma bind_w_extend:
  "bind_w (wb_extend_from_slice v w) k = Inr y \<longleftrightarrow>
     length (wb_bytes w) + length v \<le> wb_limit w \<and> k (w\<lparr>wb_bytes := wb_bytes w @ v\<rparr>) = Inr y"
  by (auto simp: bind_w_eq_Inr wb_extend_ok)

lemma encode_attribute_eq:
  "encode_attribute t v w = Inr w' \<longleftrightarrow>
     length v < 65536 \<and> length (wb_bytes w) + length (attribute_bytes (t, v)) \<le> wb_limit w \<and>
     w' = w\<lparr>wb_bytes := wb_bytes w @ attribute_bytes (t, v)\<rparr>"
  unfolding encode_attribute_def wb_defs pad4_def [symmetric]
  by (auto simp: bind_w_extend attribute_bytes_def)

lemma encode_attributes_eq:
  "encode_attributes xs w = Inr w' \<longleftrightarrow>
     (\<forall>a\<in>set xs. length (snd a) < 65536) \<and>
     (xs \<noteq> [] \<longrightarrow> length (wb_bytes w) + length (attributes_bytes xs) \<le> wb_limit w) \<and>
     w' = w\<lparr>wb_bytes := wb_bytes w @ attributes_bytes xs\<rparr>"
proof (induction xs arbitrary: w)
  case Nil
  then show ?case by auto
next
  case (Cons a xs)
  obtain t v where a: "a = (t, v)" by fastforce
  show ?case
    by (cases "xs = []") (auto simp: a bind_r_eq_Inr encode_attribute_eq Cons.IH)
qed

lemma set_wire_length_eq:
  assumes "wb_bytes w = header_bytes t i k @ rest"
  shows "set_wire_length n w = Inr w' \<longleftrightarrow>
     20 \<le> n \<and> n - 20 < 65536 \<and> w' = w\<lparr>wb_bytes := header_bytes t i (n - 20) @ rest\<rparr>"
  using assms
  by (auto simp: set_wire_length_def HEADER_LEN_def bind_w_eq_Inr wb_set_u16_def wb_set_slice_def
      get_range_def header_bytes_def)

text \<open>The attributes a builder adds after its own: the MAC and the fingerprint of what precedes them,
  with the length in the header set to the end of the added attribute.\<close>

fun integrity_attribute ::
    "stun_crypto \<Rightarrow> (nat \<Rightarrow> bytes) \<Rightarrow> bytes \<Rightarrow> integrity option \<Rightarrow> (attribute_type \<times> bytes) list option" where
  "integrity_attribute cr hdr body None = Some []"
| "integrity_attribute cr hdr body (Some (Sha1Key key)) =
     map_option (\<lambda>mac. [(MESSAGE_INTEGRITY, to_be (mac (hdr (length body + 24) @ body)))]) (st_hmac_sha1 cr key)"
| "integrity_attribute cr hdr body (Some (Sha256Key key)) =
     map_option (\<lambda>mac. [(MESSAGE_INTEGRITY_SHA256, to_be (mac (hdr (length body + 36) @ body)))])
       (st_hmac_sha256 cr key)"

definition fingerprint_attribute ::
    "stun_crypto \<Rightarrow> (nat \<Rightarrow> bytes) \<Rightarrow> bytes \<Rightarrow> bool \<Rightarrow> (attribute_type \<times> bytes) list" where
  "fingerprint_attribute cr hdr body f =
     (if f then [(FINGERPRINT, to_be (st_crc32 cr (hdr (length body + 8) @ body) XOR FINGERPRINT_XOR))] else [])"

definition built_attributes :: "stun_crypto \<Rightarrow> message_builder \<Rightarrow> (attribute_type \<times> bytes) list option" where
  "built_attributes cr b =
     (let hdr = header_bytes (mb_message_type b) (mb_transaction_id b); xs = mb_attributes b in
      map_option (\<lambda>ys. xs @ ys @ fingerprint_attribute cr hdr (attributes_bytes (xs @ ys)) (mb_fingerprint b))
        (integrity_attribute cr hdr (attributes_bytes xs) (mb_integrity b)))"

lemma length_attribute_bytes_word:
  "length (attribute_bytes (t, to_be (w160 :: 160 word))) = 24"
  "length (attribute_bytes (t, to_be (w256 :: 256 word))) = 36"
  "length (attribute_bytes (t, to_be (w32 :: u32))) = 8"
  by (simp_all add: length_attribute_bytes pad4_def)

lemma write_integrity_eq:
  assumes "wb_bytes w = header_bytes t i k @ body" and "wb_limit w = MAX_MESSAGE_LEN"
  shows "write_integrity cr x w = Inr w' \<longleftrightarrow>
     (\<exists>xs. integrity_attribute cr (header_bytes t i) body x = Some xs \<and>
        (xs \<noteq> [] \<longrightarrow> length body + length (attributes_bytes xs) < 65536) \<and>
        w' = w\<lparr>wb_bytes := header_bytes t i (if xs = [] then k else length body + length (attributes_bytes xs))
                @ body @ attributes_bytes xs\<rparr>)"
proof (cases x)
  case None
  have "w\<lparr>wb_bytes := header_bytes t i k @ body\<rparr> = w" using assms(1) by (cases w) simp
  with None show ?thesis by (auto simp: write_integrity_def)
next
  case (Some y)
  show ?thesis
  proof (cases y)
    case (Sha1Key key)
    show ?thesis
      by (cases "st_hmac_sha1 cr key")
        (auto simp: Some Sha1Key write_integrity_def bind_r_eq_Inr set_length_through_attribute_def
          set_wire_length_eq [OF assms(1)] assms encode_attribute_eq length_attribute_bytes_word
          MAX_MESSAGE_LEN_def HEADER_LEN_def add.commute [of 24 "length body"])
  next
    case (Sha256Key key)
    show ?thesis
      by (cases "st_hmac_sha256 cr key")
        (auto simp: Some Sha256Key write_integrity_def bind_r_eq_Inr set_length_through_attribute_def
          set_wire_length_eq [OF assms(1)] assms encode_attribute_eq length_attribute_bytes_word
          MAX_MESSAGE_LEN_def HEADER_LEN_def add.commute [of 36 "length body"])
  qed
qed

lemma write_fingerprint_eq:
  assumes "wb_bytes w = header_bytes t i k @ body" and "wb_limit w = MAX_MESSAGE_LEN"
  shows "write_fingerprint cr f w = Inr w' \<longleftrightarrow>
     (let n = length body + length (attributes_bytes (fingerprint_attribute cr (header_bytes t i) body f)) in
      n < 65536 \<and>
      w' = w\<lparr>wb_bytes := header_bytes t i n @ body @
              attributes_bytes (fingerprint_attribute cr (header_bytes t i) body f)\<rparr>)"
  by (cases f)
    (auto simp: write_fingerprint_def fingerprint_attribute_def bind_r_eq_Inr set_length_through_attribute_def
      set_current_length_def set_wire_length_eq [OF assms(1)] assms encode_attribute_eq length_attribute_bytes_word
      MAX_MESSAGE_LEN_def HEADER_LEN_def Let_def add.commute [of 8 "length body"])

lemma header_written:
  "bind_w (wb_write_u16 (message_type_encode t) (wb_with_limit MAX_MESSAGE_LEN)) (\<lambda>w.
     bind_w (wb_write_u16 0 w) (\<lambda>w. bind_w (wb_write_u32 MAGIC_COOKIE w) (\<lambda>w.
     bind_w (wb_extend_from_slice (to_be i) w) k))) = Inr y \<longleftrightarrow>
   k \<lparr>wb_bytes = header_bytes t i 0, wb_limit = MAX_MESSAGE_LEN\<rparr> = Inr y"
  by (simp add: wb_defs bind_w_extend wb_with_limit_def header_bytes_def MAX_MESSAGE_LEN_def HEADER_LEN_def)

lemma value_le_attributes: "a \<in> set xs \<Longrightarrow> length (snd a) \<le> length (attributes_bytes xs)"
  by (induction xs) (auto simp: length_attribute_bytes)

text \<open>When a message is built and what it looks like.\<close>

lemma message_build_eq:
  "message_build cr b = Inr bs \<longleftrightarrow>
     (\<exists>xs. built_attributes cr b = Some xs \<and> length (attributes_bytes xs) < 65536 \<and>
        bs = header_bytes (mb_message_type b) (mb_transaction_id b) (length (attributes_bytes xs)) @
             attributes_bytes xs)" (is "?L = ?R")
proof -
  let ?t = "mb_message_type b" and ?i = "mb_transaction_id b" and ?A = "mb_attributes b"
  let ?w0 = "\<lparr>wb_bytes = header_bytes ?t ?i 0 @ attributes_bytes ?A, wb_limit = MAX_MESSAGE_LEN\<rparr>"
  let ?H = "header_bytes ?t ?i"
  let ?w1 = "\<lambda>ys. ?w0\<lparr>wb_bytes := ?H (if ys = [] then 0 else length (attributes_bytes ?A) + length (attributes_bytes ys))
      @ attributes_bytes ?A @ attributes_bytes ys\<rparr>"
  let ?F = "\<lambda>ys. fingerprint_attribute cr ?H (attributes_bytes (?A @ ys)) (mb_fingerprint b)"
  have w0: "wb_bytes ?w0 = ?H 0 @ attributes_bytes ?A" "wb_limit ?w0 = MAX_MESSAGE_LEN" by simp_all
  have w1: "wb_bytes (?w1 ys) = ?H (if ys = [] then 0 else length (attributes_bytes ?A) + length (attributes_bytes ys))
      @ attributes_bytes (?A @ ys)" "wb_limit (?w1 ys) = MAX_MESSAGE_LEN" for ys by simp_all
  note fp = write_fingerprint_eq [OF w1]
  have small: "length (attributes_bytes ?A) < 65536 \<Longrightarrow> \<forall>a\<in>set ?A. length (snd a) < 65536"
    using value_le_attributes [of _ ?A] by (meson le_less_trans)
  have "?L \<longleftrightarrow> (\<exists>w1 w2. ((\<forall>a\<in>set ?A. length (snd a) < 65536) \<and>
          (?A \<noteq> [] \<longrightarrow> 20 + length (attributes_bytes ?A) \<le> MAX_MESSAGE_LEN)) \<and>
          write_integrity cr (mb_integrity b) ?w0 = Inr w1 \<and>
          write_fingerprint cr (mb_fingerprint b) w1 = Inr w2 \<and> bs = wb_bytes w2)"
    unfolding message_build_def header_written
    by (auto simp: bind_r_eq_Inr encode_attributes_eq)
  also have "\<dots> \<longleftrightarrow> (\<exists>ys. integrity_attribute cr ?H (attributes_bytes ?A) (mb_integrity b) = Some ys \<and>
      length (attributes_bytes (?A @ ys @ ?F ys)) < 65536 \<and>
      bs = ?H (length (attributes_bytes (?A @ ys @ ?F ys))) @ attributes_bytes (?A @ ys @ ?F ys))" (is "?M \<longleftrightarrow> ?N")
  proof
    assume ?M
    then obtain ys where "integrity_attribute cr ?H (attributes_bytes ?A) (mb_integrity b) = Some ys"
      and "\<exists>w2. write_fingerprint cr (mb_fingerprint b) (?w1 ys) = Inr w2 \<and> bs = wb_bytes w2"
      unfolding write_integrity_eq [OF w0] by blast
    then show ?N unfolding fp by (auto simp: Let_def add.assoc)
  next
    assume ?N
    then obtain ys where ys: "integrity_attribute cr ?H (attributes_bytes ?A) (mb_integrity b) = Some ys"
      and len: "length (attributes_bytes (?A @ ys @ ?F ys)) < 65536"
      and bs: "bs = ?H (length (attributes_bytes (?A @ ys @ ?F ys))) @ attributes_bytes (?A @ ys @ ?F ys)"
      by blast
    have "write_integrity cr (mb_integrity b) ?w0 = Inr (?w1 ys)"
      unfolding write_integrity_eq [OF w0] using ys len by auto
    moreover have "\<exists>w2. write_fingerprint cr (mb_fingerprint b) (?w1 ys) = Inr w2 \<and> bs = wb_bytes w2"
      unfolding fp using len bs by (auto simp: Let_def add.assoc)
    moreover have "length (attributes_bytes ?A) < 65536" using len by simp
    ultimately show ?M using small by (auto simp: MAX_MESSAGE_LEN_def HEADER_LEN_def)
  qed
  also have "\<dots> \<longleftrightarrow> ?R"
    by (auto simp: built_attributes_def Let_def)
  finally show ?thesis .
qed

section \<open>What the parser reads\<close>

fun placed :: "nat \<Rightarrow> (attribute_type \<times> bytes) list \<Rightarrow> raw_attribute list" where
  "placed start [] = []"
| "placed start (a # xs) =
     \<lparr>ra_type = fst a, ra_value = snd a, ra_start = start\<rparr> # placed (start + length (attribute_bytes a)) xs"

fun check_attributes :: "seen \<Rightarrow> (attribute_type \<times> bytes) list \<Rightarrow> (stun_error, seen) result" where
  "check_attributes s [] = Inr s"
| "check_attributes s (a # xs) = bind_r (check_attribute s (fst a) (snd a)) (\<lambda>s. check_attributes s xs)"

abbreviation nothing_seen :: seen where
  "nothing_seen \<equiv> \<lparr>seen_sha1 = False, seen_sha256 = False, seen_fingerprint = False\<rparr>"

lemma placed_append: "placed n (xs @ ys) = placed n xs @ placed (n + length (attributes_bytes xs)) ys"
  by (induction xs arbitrary: n) (simp_all add: add.assoc)

lemma bind_r_assoc: "bind_r (bind_r m f) g = bind_r m (\<lambda>x. bind_r (f x) g)"
  by (cases m) simp_all

lemma check_attributes_append:
  "check_attributes s (xs @ ys) = bind_r (check_attributes s xs) (\<lambda>s. check_attributes s ys)"
  by (induction xs arbitrary: s) (simp_all add: bind_r_assoc)

lemma placed_values: "map (\<lambda>a. (ra_type a, ra_value a)) (placed n xs) = xs"
  by (induction xs arbitrary: n) simp_all

lemma rc_position_add [simp]: "rc_position (c\<lparr>rc_offset := n\<rparr>) = n"
  by (simp add: rc_position_def)

lemma rc_position_new [simp]: "rc_position (rc_new bs) = 0"
  by (simp add: rc_position_def rc_new_def)

lemma rc_read_u16_at:
  assumes "rc_wf c" and "rc_rest c = to_be (v :: u16) @ rest"
  obtains c' where "rc_read_u16 c = (Inr v, c')" "rc_wf c'" "rc_rest c' = rest"
    "rc_position c' = rc_position c + 2"
proof -
  have "rc_read_u16 c = (Inr v, c\<lparr>rc_offset := rc_offset c + 2\<rparr>)"
    using rc_take_ok [OF assms] by (simp add: rc_read_u16_def rc_read_be_def)
  with that [of "c\<lparr>rc_offset := rc_offset c + 2\<rparr>"] rc_take_ok [OF assms] show ?thesis
    by (simp add: rc_position_def)
qed

lemma rc_take_at:
  assumes "rc_wf c" and "rc_rest c = bs @ rest" and "n = length bs"
  obtains c' where "rc_take n c = (Inr bs, c')" "rc_wf c'" "rc_rest c' = rest"
    "rc_position c' = rc_position c + n"
proof -
  show ?thesis
    by (rule that [of "c\<lparr>rc_offset := rc_offset c + n\<rparr>"])
      (use rc_take_ok [OF assms(1,2)] assms(3) in \<open>simp_all add: rc_position_def\<close>)
qed

lemma rc_empty_iff: "rc_wf c \<Longrightarrow> rc_is_empty c \<longleftrightarrow> rc_rest c = []"
  by (auto simp: rc_is_empty_def rc_remaining_def rc_rest_eq rc_wf_def)

lemma attribute_bytes_nonempty [simp]: "attribute_bytes a \<noteq> []"
proof -
  have "length (attribute_bytes a) \<noteq> 0" by (simp add: length_attribute_bytes)
  then show ?thesis by auto
qed

lemma parse_attributes_from_placed:
  assumes "rc_wf c" and "rc_rest c = attributes_bytes xs" and "\<forall>a\<in>set xs. length (snd a) < 65536"
    and "check_attributes s xs = Inr s'"
  shows "parse_attributes_from c s = Inr (placed (20 + rc_position c) xs)"
  using assms
proof (induction xs arbitrary: c s)
  case Nil
  then show ?case by (subst parse_attributes_from.simps) (simp add: rc_empty_iff)
next
  case (Cons a xs)
  obtain t v where a: "a = (t, v)" by fastforce
  have len: "unat (word_of_nat (length v) :: u16) = length v"
    using Cons.prems(3) a by (simp add: unat_word_of_nat_less)
  obtain s1 where s1: "check_attribute s t v = Inr s1" "check_attributes s1 xs = Inr s'"
    using Cons.prems(4) a by (auto simp: bind_r_eq_Inr)
  have rest: "rc_rest c = to_be t @ to_be (word_of_nat (length v) :: u16) @ v @
      replicate (pad4 (length v)) 0 @ attributes_bytes xs"
    using Cons.prems(2) a by (simp add: attribute_bytes_def)
  obtain c1 where c1: "rc_read_u16 c = (Inr t, c1)" "rc_wf c1" "rc_position c1 = rc_position c + 2"
    "rc_rest c1 = to_be (word_of_nat (length v) :: u16) @ v @ replicate (pad4 (length v)) 0 @ attributes_bytes xs"
    using rc_read_u16_at [OF Cons.prems(1) rest] by metis
  obtain c2 where c2: "rc_read_u16 c1 = (Inr (word_of_nat (length v)), c2)" "rc_wf c2"
    "rc_position c2 = rc_position c + 4" "rc_rest c2 = v @ replicate (pad4 (length v)) 0 @ attributes_bytes xs"
    using rc_read_u16_at [OF c1(2) c1(4)] c1(3) by (metis add.assoc numeral_Bit0)
  obtain c3 where c3: "rc_take (length v) c2 = (Inr v, c3)" "rc_wf c3"
    "rc_position c3 = rc_position c2 + length v" "rc_rest c3 = replicate (pad4 (length v)) 0 @ attributes_bytes xs"
    using rc_take_at [OF c2(2) c2(4) refl] by metis
  obtain c4 where c4: "rc_take (pad4 (length v)) c3 = (Inr (replicate (pad4 (length v)) 0), c4)" "rc_wf c4"
    "rc_position c4 = rc_position c3 + pad4 (length v)" "rc_rest c4 = attributes_bytes xs"
    using rc_take_at [OF c3(2) c3(4)] by (metis length_replicate)
  have pos: "rc_position c4 = rc_position c + length (attribute_bytes a)"
    by (simp add: c4(3) c3(3) c2(3) a length_attribute_bytes)
  have "parse_attributes_from c4 s1 = Inr (placed (20 + rc_position c4) xs)"
    using Cons.prems(3) by (intro Cons.IH c4 s1) simp
  moreover have "\<not> rc_is_empty c"
    using Cons.prems(1,2) by (simp add: rc_empty_iff)
  ultimately show ?case
    using c1(1) c2(1) c3(1) c4(1) s1(1)
    by (subst parse_attributes_from.simps)
      (simp add: Let_def len pad4_def [symmetric] pos a HEADER_LEN_def add.assoc)
qed

lemma rc_read_u32_at:
  assumes "rc_wf c" and "rc_rest c = to_be (v :: u32) @ rest"
  obtains c' where "rc_read_u32 c = (Inr v, c')" "rc_wf c'" "rc_rest c' = rest"
  using rc_read_be_ok [OF assms] that by (auto simp: rc_read_u32_def)

lemma parse_header_layout:
  assumes "unat (mt_method t) < 2 ^ 12" and "length body < 65536" and "length body mod 4 = 0"
  shows "parse_header (header_bytes t i (length body) @ body) = Inr (t, i, body)"
proof -
  let ?in = "header_bytes t i (length body) @ body" and ?l = "word_of_nat (length body) :: u16"
  have l: "unat ?l = length body" using assms(2) by (simp add: unat_word_of_nat_less)
  have "rc_rest (rc_new ?in) = to_be (message_type_encode t) @ to_be ?l @ to_be MAGIC_COOKIE @ to_be i @ body"
    by (simp add: header_bytes_def)
  then obtain c1 where c1: "rc_read_u16 (rc_new ?in) = (Inr (message_type_encode t), c1)" "rc_wf c1"
    "rc_rest c1 = to_be ?l @ to_be MAGIC_COOKIE @ to_be i @ body"
    using rc_read_u16_at [OF rc_wf_new] by metis
  obtain c2 where c2: "rc_read_u16 c1 = (Inr ?l, c2)" "rc_wf c2"
    "rc_rest c2 = to_be MAGIC_COOKIE @ to_be i @ body"
    using rc_read_u16_at [OF c1(2,3)] by metis
  obtain c3 where c3: "rc_read_u32 c2 = (Inr MAGIC_COOKIE, c3)" "rc_wf c3" "rc_rest c3 = to_be i @ body"
    using rc_read_u32_at [OF c2(2,3)] by metis
  obtain c4 where c4: "rc_take 12 c3 = (Inr (to_be i), c4)" "rc_wf c4" "rc_rest c4 = body"
    using rc_take_at [OF c3(2,3), of 12] by (metis be96.enc_length)
  show ?thesis
    using c1(1) c2(1) c3(1) c4(1,3) decode_encode_type [OF assms(1)]
    by (simp add: parse_header_def HEADER_LEN_def l assms(3) Let_def)
qed

lemma message_parse_layout:
  assumes "unat (mt_method t) < 2 ^ 12" and "length (attributes_bytes xs) < 65536"
    and "check_attributes nothing_seen xs = Inr s"
  shows "message_parse (header_bytes t i (length (attributes_bytes xs)) @ attributes_bytes xs) =
     Inr \<lparr>ms_raw = header_bytes t i (length (attributes_bytes xs)) @ attributes_bytes xs, ms_kind = t,
          ms_transaction_id = i, ms_attributes = placed 20 xs\<rparr>"
proof -
  have "\<forall>a\<in>set xs. length (snd a) < 65536"
    using value_le_attributes [of _ xs] assms(2) by (meson le_less_trans)
  then have "parse_attributes (attributes_bytes xs) = Inr (placed 20 xs)"
    using parse_attributes_from_placed [of "rc_new (attributes_bytes xs)" xs nothing_seen s] assms(3)
    by (simp add: parse_attributes_def)
  with parse_header_layout [OF assms(1,2) attributes_aligned] show ?thesis
    by (simp add: message_parse_def)
qed

section \<open>Looking up an attribute\<close>

lemma attribute_placed:
  "map_option ra_value (find (\<lambda>a. ra_type a = t) (placed n xs)) = map_of xs t"
  by (induction xs arbitrary: n) auto

lemma find_placed_append:
  "t \<notin> fst ` set xs \<Longrightarrow>
     find (\<lambda>a. ra_type a = t) (placed n (xs @ ys)) =
     find (\<lambda>a. ra_type a = t) (placed (n + length (attributes_bytes xs)) ys)"
  by (induction xs arbitrary: n) (auto simp: add.assoc)

text \<open>An attribute that a caller may add itself: not one of the three the builder appends, and of the
  length its type requires.\<close>

definition plain_attribute :: "attribute_type \<times> bytes \<Rightarrow> bool" where
  "plain_attribute a \<longleftrightarrow>
     fst a \<notin> {MESSAGE_INTEGRITY, MESSAGE_INTEGRITY_SHA256, FINGERPRINT} \<and>
     check_attribute nothing_seen (fst a) (snd a) = Inr nothing_seen"

lemma check_plain: "\<forall>a\<in>set xs. plain_attribute a \<Longrightarrow> check_attributes nothing_seen xs = Inr nothing_seen"
  by (induction xs) (simp_all add: plain_attribute_def)

lemma built_attributes_cases:
  assumes "built_attributes cr b = Some xs" and "\<forall>a\<in>set (mb_attributes b). plain_attribute a"
  obtains ys zs s where "xs = mb_attributes b @ ys @ zs"
    and "integrity_attribute cr (header_bytes (mb_message_type b) (mb_transaction_id b))
       (attributes_bytes (mb_attributes b)) (mb_integrity b) = Some ys"
    and "zs = fingerprint_attribute cr (header_bytes (mb_message_type b) (mb_transaction_id b))
       (attributes_bytes (mb_attributes b @ ys)) (mb_fingerprint b)"
    and "check_attributes nothing_seen xs = Inr s"
    and "fst ` set ys \<subseteq> {MESSAGE_INTEGRITY, MESSAGE_INTEGRITY_SHA256}" and "fst ` set zs \<subseteq> {FINGERPRINT}"
proof -
  let ?H = "header_bytes (mb_message_type b) (mb_transaction_id b)" and ?A = "mb_attributes b"
  obtain ys where ys: "integrity_attribute cr ?H (attributes_bytes ?A) (mb_integrity b) = Some ys"
    and xs: "xs = ?A @ ys @ fingerprint_attribute cr ?H (attributes_bytes (?A @ ys)) (mb_fingerprint b)"
    using assms(1) by (auto simp: built_attributes_def Let_def)
  have "\<exists>s. check_attributes nothing_seen ys = Inr s \<and> \<not> seen_fingerprint s \<and>
      fst ` set ys \<subseteq> {MESSAGE_INTEGRITY, MESSAGE_INTEGRITY_SHA256}"
    using ys by (cases "(cr, ?H, attributes_bytes ?A, mb_integrity b)" rule: integrity_attribute.cases)
      (auto simp: check_attribute_def require_len_def)
  then obtain s where s: "check_attributes nothing_seen ys = Inr s" "\<not> seen_fingerprint s"
    and yt: "fst ` set ys \<subseteq> {MESSAGE_INTEGRITY, MESSAGE_INTEGRITY_SHA256}" by blast
  obtain s' where "check_attributes s (fingerprint_attribute cr ?H (attributes_bytes (?A @ ys)) (mb_fingerprint b)) = Inr s'"
    using s(2) by (cases "mb_fingerprint b") (auto simp: fingerprint_attribute_def check_attribute_def require_len_def)
  with s(1) check_plain [OF assms(2)] have "check_attributes nothing_seen xs = Inr s'"
    by (simp add: xs check_attributes_append)
  moreover have "fst ` set (fingerprint_attribute cr ?H (attributes_bytes (?A @ ys)) (mb_fingerprint b)) \<subseteq> {FINGERPRINT}"
    by (auto simp: fingerprint_attribute_def)
  ultimately show ?thesis using that [OF xs ys refl _ yt] by blast
qed

text \<open>The bytes a MAC or a fingerprint is computed over are recovered from the message.\<close>

lemma integrity_input_layout:
  assumes "ms_raw m = header_bytes t i k @ body @ rest"
    and "a = \<lparr>ra_type = ty, ra_value = v, ra_start = 20 + length body\<rparr>" and "length body + 4 + length v < 65536"
  shows "integrity_input m a = Inr (header_bytes t i (length body + 4 + length v) @ body)"
proof -
  have "get_range (ms_raw m) 0 (20 + length body) = Some (header_bytes t i k @ body)"
    using get_range_prefix [of "header_bytes t i k @ body" rest] by (simp add: assms(1))
  moreover have "get_range (header_bytes t i k @ body) 2 4 = Some (to_be (word_of_nat k :: u16))"
    by (simp add: header_bytes_def get_range_def)
  ultimately show ?thesis
    using assms(3) by (simp add: integrity_input_def assms(2) HEADER_LEN_def header_bytes_def Let_def add.commute add.left_commute)
qed

lemma find_added:
  assumes "t \<notin> fst ` set xs"
  shows "find (\<lambda>a. ra_type a = t) (placed 20 (xs @ (t, v) # ys)) =
     Some \<lparr>ra_type = t, ra_value = v, ra_start = 20 + length (attributes_bytes xs)\<rparr>"
  using find_placed_append [OF assms, of 20 "(t, v) # ys"] by simp

lemma plain_not_added:
  assumes "\<forall>a\<in>set xs. plain_attribute a"
  shows "MESSAGE_INTEGRITY \<notin> fst ` set xs" "MESSAGE_INTEGRITY_SHA256 \<notin> fst ` set xs"
    "FINGERPRINT \<notin> fst ` set xs"
  using assms by (auto simp: plain_attribute_def)

lemma verify_sha1_built:
  assumes "ms_raw m = header_bytes t i k @ attributes_bytes xs @ rest"
    and "ms_attributes m = placed 20 (xs @ (MESSAGE_INTEGRITY, to_be (mac (header_bytes t i (length (attributes_bytes xs) + 24) @ attributes_bytes xs))) # ys)"
    and "MESSAGE_INTEGRITY \<notin> fst ` set xs" and "st_hmac_sha1 cr key = Some mac"
    and "length (attributes_bytes xs) + 24 < 65536"
  shows "verify_message_integrity_sha1 cr m key = Inr ()"
proof -
  let ?v = "to_be (mac (header_bytes t i (length (attributes_bytes xs) + 24) @ attributes_bytes xs))"
  let ?a = "\<lparr>ra_type = MESSAGE_INTEGRITY, ra_value = ?v, ra_start = 20 + length (attributes_bytes xs)\<rparr>"
  have "attribute m MESSAGE_INTEGRITY = Some ?a"
    unfolding attribute_def assms(2) by (rule find_added [OF assms(3)])
  moreover have "integrity_input m ?a = Inr (header_bytes t i (length (attributes_bytes xs) + 24) @ attributes_bytes xs)"
    using integrity_input_layout [OF assms(1) refl, of ?v] assms(5) by (simp add: add.commute)
  ultimately show ?thesis by (simp add: verify_message_integrity_sha1_def assms(4))
qed

lemma verify_sha256_built:
  assumes "ms_raw m = header_bytes t i k @ attributes_bytes xs @ rest"
    and "ms_attributes m = placed 20 (xs @ (MESSAGE_INTEGRITY_SHA256, to_be (mac (header_bytes t i (length (attributes_bytes xs) + 36) @ attributes_bytes xs))) # ys)"
    and "MESSAGE_INTEGRITY_SHA256 \<notin> fst ` set xs" and "st_hmac_sha256 cr key = Some mac"
    and "length (attributes_bytes xs) + 36 < 65536"
  shows "verify_message_integrity_sha256 cr m key = Inr ()"
proof -
  let ?v = "to_be (mac (header_bytes t i (length (attributes_bytes xs) + 36) @ attributes_bytes xs))"
  let ?a = "\<lparr>ra_type = MESSAGE_INTEGRITY_SHA256, ra_value = ?v, ra_start = 20 + length (attributes_bytes xs)\<rparr>"
  have "attribute m MESSAGE_INTEGRITY_SHA256 = Some ?a"
    unfolding attribute_def assms(2) by (rule find_added [OF assms(3)])
  moreover have "integrity_input m ?a = Inr (header_bytes t i (length (attributes_bytes xs) + 36) @ attributes_bytes xs)"
    using integrity_input_layout [OF assms(1) refl, of ?v] assms(5) by (simp add: add.commute)
  ultimately show ?thesis by (simp add: verify_message_integrity_sha256_def assms(4))
qed

lemma read_exact_u32_be [simp]: "read_exact_u32 (to_be w) t = Inr w"
proof -
  obtain c where "rc_read_u32 (rc_new (to_be w)) = (Inr w, c)"
    using rc_read_u32_at [of "rc_new (to_be w)" w "[]"] by auto
  then show ?thesis by (simp add: read_exact_u32_def require_len_def)
qed

lemma verify_fingerprint_built:
  assumes "ms_raw m = header_bytes t i (length (attributes_bytes xs) + 8) @ attributes_bytes xs @ rest"
    and "ms_attributes m = placed 20 (xs @ fingerprint_attribute cr (header_bytes t i) (attributes_bytes xs) True)"
    and "FINGERPRINT \<notin> fst ` set xs"
  shows "verify_fingerprint cr m = Inr ()"
proof -
  have "get_range (ms_raw m) 0 (20 + length (attributes_bytes xs)) =
      Some (header_bytes t i (length (attributes_bytes xs) + 8) @ attributes_bytes xs)"
    using get_range_prefix [of "header_bytes t i (length (attributes_bytes xs) + 8) @ attributes_bytes xs" rest]
    by (simp add: assms(1))
  with find_added [OF assms(3), where ys = "[]"] show ?thesis
    by (simp add: verify_fingerprint_def attribute_def assms(2) fingerprint_attribute_def)
qed

section \<open>Round trip of a message\<close>

fun integrity_verified :: "stun_crypto \<Rightarrow> stun_message \<Rightarrow> integrity option \<Rightarrow> bool" where
  "integrity_verified cr m None \<longleftrightarrow>
     attribute m MESSAGE_INTEGRITY = None \<and> attribute m MESSAGE_INTEGRITY_SHA256 = None"
| "integrity_verified cr m (Some (Sha1Key key)) \<longleftrightarrow>
     attribute m MESSAGE_INTEGRITY_SHA256 = None \<and> verify_message_integrity_sha1 cr m key = Inr ()"
| "integrity_verified cr m (Some (Sha256Key key)) \<longleftrightarrow>
     attribute m MESSAGE_INTEGRITY = None \<and> verify_message_integrity_sha256 cr m key = Inr ()"

text \<open>A message built from plain attributes is parsed; its view is what the builder was given.\<close>

definition reads_back :: "stun_crypto \<Rightarrow> message_builder \<Rightarrow> stun_message \<Rightarrow> bool" where
  "reads_back cr b m \<longleftrightarrow>
     ms_kind m = mb_message_type b \<and> ms_transaction_id m = mb_transaction_id b \<and>
     map (\<lambda>a. (ra_type a, ra_value a)) (filter (\<lambda>a. ra_type a \<notin> {MESSAGE_INTEGRITY, MESSAGE_INTEGRITY_SHA256, FINGERPRINT})
       (ms_attributes m)) = mb_attributes b \<and>
     integrity_verified cr m (mb_integrity b) \<and>
     (if mb_fingerprint b then verify_fingerprint cr m = Inr () else attribute m FINGERPRINT = None)"

lemma filter_placed:
  "map (\<lambda>a. (ra_type a, ra_value a)) (filter (\<lambda>a. P (ra_type a)) (placed n xs)) = filter (\<lambda>a. P (fst a)) xs"
  by (induction xs arbitrary: n) simp_all

lemma find_placed_None: "t \<notin> fst ` set xs \<Longrightarrow> find (\<lambda>a. ra_type a = t) (placed n xs) = None"
  by (induction xs arbitrary: n) auto

lemma filter_plain:
  assumes "\<forall>a\<in>set xs. plain_attribute a" and "fst ` set ys \<subseteq> {MESSAGE_INTEGRITY, MESSAGE_INTEGRITY_SHA256}"
    and "fst ` set zs \<subseteq> {FINGERPRINT}"
  shows "filter (\<lambda>a. fst a \<notin> {MESSAGE_INTEGRITY, MESSAGE_INTEGRITY_SHA256, FINGERPRINT}) (xs @ ys @ zs) = xs"
proof -
  have "filter (\<lambda>a. fst a \<notin> {MESSAGE_INTEGRITY, MESSAGE_INTEGRITY_SHA256, FINGERPRINT}) xs = xs"
    using assms(1) by (intro filter_True) (simp add: plain_attribute_def)
  moreover have "filter (\<lambda>a. fst a \<notin> {MESSAGE_INTEGRITY, MESSAGE_INTEGRITY_SHA256, FINGERPRINT}) ys = []"
    using assms(2) by (intro filter_False) blast
  moreover have "filter (\<lambda>a. fst a \<notin> {MESSAGE_INTEGRITY, MESSAGE_INTEGRITY_SHA256, FINGERPRINT}) zs = []"
    using assms(3) by (intro filter_False) blast
  ultimately show ?thesis by simp
qed

lemma integrity_reads_back:
  assumes raw: "ms_raw m = header_bytes t i k @ attributes_bytes (xs @ ys @ zs)"
    and at: "ms_attributes m = placed 20 (xs @ ys @ zs)"
    and len: "length (attributes_bytes (xs @ ys @ zs)) < 65536"
    and plain: "\<forall>a\<in>set xs. plain_attribute a" and zt: "fst ` set zs \<subseteq> {FINGERPRINT}"
    and ys: "integrity_attribute cr (header_bytes t i) (attributes_bytes xs) j = Some ys"
  shows "integrity_verified cr m j"
  using ys
proof (cases "(cr, header_bytes t i, attributes_bytes xs, j)" rule: integrity_attribute.cases)
  case (1 cr' hdr body)
  with ys have "ys = []" "j = None" by auto
  moreover have "MESSAGE_INTEGRITY \<notin> fst ` set (xs @ zs)" "MESSAGE_INTEGRITY_SHA256 \<notin> fst ` set (xs @ zs)"
    using plain_not_added [OF plain] zt by auto
  ultimately show ?thesis using find_placed_None unfolding attribute_def at by (simp add: attribute_def at)
next
  case (2 cr' hdr body key)
  then obtain mac where mac: "st_hmac_sha1 cr key = Some mac"
    and y: "ys = [(MESSAGE_INTEGRITY, to_be (mac (header_bytes t i (length (attributes_bytes xs) + 24) @ attributes_bytes xs)))]"
    using ys by auto
  have "verify_message_integrity_sha1 cr m key = Inr ()"
    by (rule verify_sha1_built [OF _ _ plain_not_added(1) [OF plain] mac, where rest = "attributes_bytes (ys @ zs)"])
      (use len in \<open>simp_all add: raw at y length_attribute_bytes_word\<close>)
  moreover have "MESSAGE_INTEGRITY_SHA256 \<notin> fst ` set (xs @ ys @ zs)"
    using plain_not_added [OF plain] zt by (auto simp: y)
  ultimately show ?thesis using 2 find_placed_None by (simp add: attribute_def at)
next
  case (3 cr' hdr body key)
  then obtain mac where mac: "st_hmac_sha256 cr key = Some mac"
    and y: "ys = [(MESSAGE_INTEGRITY_SHA256, to_be (mac (header_bytes t i (length (attributes_bytes xs) + 36) @ attributes_bytes xs)))]"
    using ys by auto
  have "verify_message_integrity_sha256 cr m key = Inr ()"
    by (rule verify_sha256_built [OF _ _ plain_not_added(2) [OF plain] mac, where rest = "attributes_bytes (ys @ zs)"])
      (use len in \<open>simp_all add: raw at y length_attribute_bytes_word\<close>)
  moreover have "MESSAGE_INTEGRITY \<notin> fst ` set (xs @ ys @ zs)"
    using plain_not_added [OF plain] zt by (auto simp: y)
  ultimately show ?thesis using 3 find_placed_None by (simp add: attribute_def at)
qed

lemma fingerprint_reads_back:
  assumes raw: "ms_raw m = header_bytes t i (length (attributes_bytes (xs @ zs))) @ attributes_bytes (xs @ zs)"
    and at: "ms_attributes m = placed 20 (xs @ zs)" and no: "FINGERPRINT \<notin> fst ` set xs"
    and zs: "zs = fingerprint_attribute cr (header_bytes t i) (attributes_bytes xs) f"
  shows "if f then verify_fingerprint cr m = Inr () else attribute m FINGERPRINT = None"
proof (cases f)
  case True
  then have "length (attributes_bytes (xs @ zs)) = length (attributes_bytes xs) + 8"
    by (simp add: zs fingerprint_attribute_def length_attribute_bytes_word)
  then have "verify_fingerprint cr m = Inr ()"
    by (intro verify_fingerprint_built [OF _ _ no, where rest = "attributes_bytes zs"])
      (simp_all add: raw at zs True)
  with True show ?thesis by simp
next
  case False
  then have "zs = []" by (simp add: zs fingerprint_attribute_def)
  with False show ?thesis using find_placed_None [OF no] by (simp add: attribute_def at)
qed

lemma stun_build_parse:
  assumes "message_build cr b = Inr bs" and "unat (mt_method (mb_message_type b)) < 2 ^ 12"
    and plain: "\<forall>a\<in>set (mb_attributes b). plain_attribute a"
  obtains m where "message_parse bs = Inr m" and "reads_back cr b m"
proof -
  let ?t = "mb_message_type b" and ?i = "mb_transaction_id b" and ?A = "mb_attributes b"
  obtain xs where xs: "built_attributes cr b = Some xs" and len: "length (attributes_bytes xs) < 65536"
    and bs: "bs = header_bytes ?t ?i (length (attributes_bytes xs)) @ attributes_bytes xs"
    using assms(1) by (auto simp: message_build_eq)
  from built_attributes_cases [OF xs plain] obtain ys zs s where x: "xs = ?A @ ys @ zs"
    and ys: "integrity_attribute cr (header_bytes ?t ?i) (attributes_bytes ?A) (mb_integrity b) = Some ys"
    and zs: "zs = fingerprint_attribute cr (header_bytes ?t ?i) (attributes_bytes (?A @ ys)) (mb_fingerprint b)"
    and s: "check_attributes nothing_seen xs = Inr s"
    and yt: "fst ` set ys \<subseteq> {MESSAGE_INTEGRITY, MESSAGE_INTEGRITY_SHA256}" and zt: "fst ` set zs \<subseteq> {FINGERPRINT}"
    by blast
  let ?m = "\<lparr>ms_raw = bs, ms_kind = ?t, ms_transaction_id = ?i, ms_attributes = placed 20 xs\<rparr>"
  have "message_parse bs = Inr ?m"
    unfolding bs by (rule message_parse_layout [OF assms(2) len s])
  moreover have "map (\<lambda>a. (ra_type a, ra_value a)) (filter (\<lambda>a. ra_type a \<notin> {MESSAGE_INTEGRITY, MESSAGE_INTEGRITY_SHA256, FINGERPRINT})
       (ms_attributes ?m)) = ?A"
    using filter_placed [where P = "\<lambda>t. t \<notin> {MESSAGE_INTEGRITY, MESSAGE_INTEGRITY_SHA256, FINGERPRINT}"]
      filter_plain [OF plain yt zt]
    by (simp only: stun_message.simps x)
  moreover have "integrity_verified cr ?m (mb_integrity b)"
    by (rule integrity_reads_back [OF _ _ _ plain zt ys]) (use len in \<open>simp_all add: bs x\<close>)
  moreover have "FINGERPRINT \<notin> fst ` set (?A @ ys)" using plain_not_added(3) [OF plain] yt by auto
  then have "if mb_fingerprint b then verify_fingerprint cr ?m = Inr () else attribute ?m FINGERPRINT = None"
    by (intro fingerprint_reads_back [OF _ _ _ zs]) (simp_all add: bs x)
  ultimately show ?thesis using that unfolding reads_back_def by simp
qed

section \<open>Soundness of the parser\<close>

text \<open>The bytes of an attribute on the wire: the padding may hold anything.\<close>

type_synonym segment = "attribute_type \<times> bytes \<times> bytes"

fun segment_bytes :: "segment \<Rightarrow> bytes" where
  "segment_bytes (t, v, p) = to_be t @ to_be (word_of_nat (length v) :: u16) @ v @ p"

fun segment_wf :: "segment \<Rightarrow> bool" where
  "segment_wf (t, v, p) \<longleftrightarrow> length v < 65536 \<and> length p = pad4 (length v)"

fun segments_at :: "nat \<Rightarrow> segment list \<Rightarrow> raw_attribute list" where
  "segments_at start [] = []"
| "segments_at start ((t, v, p) # xs) =
     \<lparr>ra_type = t, ra_value = v, ra_start = start\<rparr> # segments_at (start + length (segment_bytes (t, v, p))) xs"

abbreviation segments_bytes :: "segment list \<Rightarrow> bytes" where
  "segments_bytes xs \<equiv> concat (map segment_bytes xs)"

abbreviation seg_attribute :: "segment \<Rightarrow> attribute_type \<times> bytes" where
  "seg_attribute x \<equiv> (fst x, fst (snd x))"

lemma rc_take_rest:
  assumes "rc_wf c" and "rc_take n c = (Inr bs, c')"
  shows "rc_rest c = bs @ rc_rest c' \<and> rc_wf c' \<and> length bs = n \<and> rc_position c' = rc_position c + n"
proof -
  have c': "c' = c\<lparr>rc_offset := rc_offset c + n\<rparr>" and bs: "bs = take n (drop (rc_offset c) (rc_input c))"
    and n: "n \<le> rc_remaining c"
    using assms(2) by (auto simp: rc_take_def Let_def split: if_splits)
  have wf: "rc_wf c'" using rc_take_wf [OF assms] .
  have "rc_rest c' = drop n (drop (rc_offset c) (rc_input c))"
    using rc_rest_eq [OF wf] by (simp add: c' add.commute)
  then show ?thesis
    using wf n append_take_drop_id [of n "drop (rc_offset c) (rc_input c)"]
    by (simp add: rc_rest_eq [OF assms(1)] bs rc_remaining_def c' rc_position_def)
qed

lemma rc_read_u16_rest:
  assumes "rc_wf c" and "rc_read_u16 c = (Inr v, c')"
  shows "rc_rest c = to_be v @ rc_rest c' \<and> rc_wf c' \<and> rc_position c' = rc_position c + 2"
proof -
  obtain bs where "rc_take 2 c = (Inr bs, c')" and "length bs = 2" and "v = from_be bs"
    using assms(2) by (auto simp: rc_read_u16_def rc_read_be_def Let_def split: prod.splits sum.splits if_splits)
  with rc_take_rest [OF assms(1)] show ?thesis by (simp add: be16.enc_dec)
qed

lemma rc_read_u32_rest:
  assumes "rc_wf c" and "rc_read_u32 c = (Inr v, c')"
  shows "rc_rest c = to_be v @ rc_rest c' \<and> rc_wf c' \<and> rc_position c' = rc_position c + 4"
proof -
  obtain bs where "rc_take 4 c = (Inr bs, c')" and "length bs = 4" and "v = from_be bs"
    using assms(2) by (auto simp: rc_read_u32_def rc_read_be_def Let_def split: prod.splits sum.splits if_splits)
  with rc_take_rest [OF assms(1)] show ?thesis by (simp add: be32.enc_dec)
qed

lemma parse_attributes_from_sound:
  assumes "rc_wf c" and "parse_attributes_from c s = Inr as"
  shows "\<exists>xs s'. rc_rest c = segments_bytes xs \<and> list_all segment_wf xs \<and>
     as = segments_at (20 + rc_position c) xs \<and> check_attributes s (map seg_attribute xs) = Inr s'"
  using assms
proof (induction c s arbitrary: as rule: parse_attributes_from.induct)
  case (1 c s)
  show ?case
  proof (cases "rc_is_empty c")
    case True
    with 1 show ?thesis
      by (intro exI [of _ "[]"]) (simp add: parse_attributes_from.simps rc_empty_iff)
  next
    case False
    with "1.prems"(2) obtain t c1 l c2 v c3 p c4 s1 rest where
      r1: "rc_read_u16 c = (Inr t, c1)" and r2: "rc_read_u16 c1 = (Inr l, c2)" and
      r3: "rc_take (unat l) c2 = (Inr v, c3)" and r4: "rc_take ((4 - unat l mod 4) mod 4) c3 = (Inr p, c4)" and
      ck: "check_attribute s t v = Inr s1" and rec: "parse_attributes_from c4 s1 = Inr rest" and
      as: "as = \<lparr>ra_type = t, ra_value = v, ra_start = HEADER_LEN + rc_position c\<rparr> # rest"
      by (subst (asm) parse_attributes_from.simps) (auto simp: Let_def bind_c_eq_Inr bind_r_eq_Inr)
    note c1 = rc_read_u16_rest [OF "1.prems"(1) r1]
    note c2 = rc_read_u16_rest [OF c1 [THEN conjunct2, THEN conjunct1] r2]
    note c3 = rc_take_rest [OF c2 [THEN conjunct2, THEN conjunct1] r3]
    note c4 = rc_take_rest [OF c3 [THEN conjunct2, THEN conjunct1] r4]
    obtain xs s' where xs: "rc_rest c4 = segments_bytes xs" "list_all segment_wf xs"
      "rest = segments_at (20 + rc_position c4) xs" "check_attributes s1 (map seg_attribute xs) = Inr s'"
      using "1.IH" [OF False refl r1 r2 r3 r4 ck] c4 rec by blast
    have l: "word_of_nat (length v) = l" "length v < 65536"
      using c3 unsigned_less [of l] by auto
    have "pad4 (length v) = length p" using c3 c4 by (simp add: pad4_def)
    then show ?thesis
      using c1 c2 c3 c4 xs ck l
      by (intro exI [of _ "(t, v, p) # xs"] exI [of _ s']) (simp add: as HEADER_LEN_def add.assoc)
  qed
qed

lemma parse_header_sound:
  assumes "parse_header input = Inr (k, i, body)"
  obtains v where "message_type_decode v = Inr k" and "unat (word_of_nat (length body) :: u16) = length body"
    and "input = to_be v @ to_be (word_of_nat (length body) :: u16) @ to_be MAGIC_COOKIE @ to_be i @ body"
proof -
  from assms obtain v c1 l c2 c3 bs c4 where
    r1: "rc_read_u16 (rc_new input) = (Inr v, c1)" and k: "message_type_decode v = Inr k" and
    r2: "rc_read_u16 c1 = (Inr l, c2)" and r3: "rc_read_u32 c2 = (Inr MAGIC_COOKIE, c3)" and
    r4: "rc_take 12 c3 = (Inr bs, c4)" and len: "20 + unat l = length input" and
    i: "i = from_be bs" "body = rc_rest c4"
    by (auto simp: parse_header_def bind_c_eq_Inr bind_r_eq_Inr Let_def HEADER_LEN_def split: if_splits)
  note c1 = rc_read_u16_rest [OF rc_wf_new r1]
  note c2 = rc_read_u16_rest [OF c1 [THEN conjunct2, THEN conjunct1] r2]
  note c3 = rc_read_u32_rest [OF c2 [THEN conjunct2, THEN conjunct1] r3]
  note c4 = rc_take_rest [OF c3 [THEN conjunct2, THEN conjunct1] r4]
  have input: "input = to_be v @ to_be l @ to_be MAGIC_COOKIE @ bs @ body"
    using c1 c2 c3 c4 i by simp
  have "length input = 20 + length body"
    using arg_cong [OF input, of length] c4 by simp
  then have "length body = unat l" using len by simp
  then have "word_of_nat (length body) = l" by simp
  then show ?thesis
    using that [OF k] input i c4 \<open>length body = unat l\<close> by (simp add: be96.enc_dec)
qed

lemma message_parse_sound:
  assumes "message_parse bs = Inr m"
  obtains v xs s where "message_type_decode v = Inr (ms_kind m)" and "list_all segment_wf xs"
    and "ms_raw m = bs" and "ms_attributes m = segments_at 20 xs"
    and "check_attributes nothing_seen (map seg_attribute xs) = Inr s"
    and "length (segments_bytes xs) < 65536"
    and "bs = to_be v @ to_be (word_of_nat (length (segments_bytes xs)) :: u16) @ to_be MAGIC_COOKIE @
       to_be (ms_transaction_id m) @ segments_bytes xs"
proof -
  from assms obtain k i body as where h: "parse_header bs = Inr (k, i, body)"
    and as: "parse_attributes body = Inr as"
    and m: "m = \<lparr>ms_raw = bs, ms_kind = k, ms_transaction_id = i, ms_attributes = as\<rparr>"
    by (auto simp: message_parse_def bind_r_eq_Inr)
  from parse_header_sound [OF h] obtain v where v: "message_type_decode v = Inr k"
    and len: "unat (word_of_nat (length body) :: u16) = length body"
    and bs: "bs = to_be v @ to_be (word_of_nat (length body) :: u16) @ to_be MAGIC_COOKIE @ to_be i @ body" .
  have "length body < 65536" using len unat_less_u16 [of "word_of_nat (length body)"] by simp
  moreover obtain xs s where "body = segments_bytes xs" "list_all segment_wf xs" "as = segments_at 20 xs"
    "check_attributes nothing_seen (map seg_attribute xs) = Inr s"
    using parse_attributes_from_sound [of "rc_new body" nothing_seen as] as
    by (auto simp: parse_attributes_def)
  ultimately show ?thesis using that [of v xs s] v bs m by simp
qed

text \<open>Segments can be told apart: their concatenation determines them.\<close>

lemma segment_prefix_unique:
  assumes "segment_wf x" and "segment_wf y" and "segment_bytes x @ us = segment_bytes y @ vs"
  shows "x = y \<and> us = vs"
proof -
  obtain t v p t' v' p' where xy: "x = (t, v, p)" "y = (t', v', p')" by (metis prod_cases3)
  have "to_be t @ to_be (word_of_nat (length v) :: u16) @ (v @ p @ us) =
      to_be t' @ to_be (word_of_nat (length v') :: u16) @ (v' @ p' @ vs)"
    using assms(3) xy by simp
  then have t: "t = t'" and l: "(word_of_nat (length v) :: u16) = word_of_nat (length v')"
    and r: "v @ p @ us = v' @ p' @ vs"
    by (simp_all add: append_eq_append_conv be16.enc_inj)
  have "length v = length v'"
    using arg_cong [OF l, of unat] assms(1,2) xy by (simp add: unat_word_of_nat_less)
  with t r assms(1,2) xy show ?thesis by (simp add: append_eq_append_conv)
qed

lemma segment_bytes_nonempty: "segment_bytes x \<noteq> []"
proof (cases x)
  case (fields t v p)
  have "0 < length (segment_bytes (t, v, p))" by simp
  with fields show ?thesis by fastforce
qed

lemma segments_unique:
  assumes "list_all segment_wf xs" and "list_all segment_wf ys" and "segments_bytes xs = segments_bytes ys"
  shows "xs = ys"
  using assms
proof (induction xs arbitrary: ys)
  case Nil
  then show ?case by (cases ys) (auto simp: segment_bytes_nonempty)
next
  case (Cons x xs)
  show ?case
  proof (cases ys)
    case Nil
    with Cons.prems show ?thesis by (simp add: segment_bytes_nonempty)
  next
    case (Cons y zs)
    with Cons.prems segment_prefix_unique [of x y "segments_bytes xs" "segments_bytes zs"]
    show ?thesis using Cons.IH [of zs] by simp
  qed
qed

section \<open>What the integrity check covers\<close>

definition integrity_types :: "attribute_type set" where
  "integrity_types = {MESSAGE_INTEGRITY, MESSAGE_INTEGRITY_SHA256}"

text \<open>The attributes other than the MACs and the fingerprint, as a receiver sees them.\<close>

definition content :: "stun_message \<Rightarrow> (attribute_type \<times> bytes) list" where
  "content m =
     map (\<lambda>a. (ra_type a, ra_value a))
       (filter (\<lambda>a. ra_type a \<notin> {MESSAGE_INTEGRITY, MESSAGE_INTEGRITY_SHA256, FINGERPRINT}) (ms_attributes m))"

lemma segments_at_append:
  "segments_at n (xs @ ys) = segments_at n xs @ segments_at (n + length (segments_bytes xs)) ys"
  by (induction xs arbitrary: n) (auto simp: add.assoc)

lemma content_segments:
  "map (\<lambda>a. (ra_type a, ra_value a)) (filter (\<lambda>a. P (ra_type a)) (segments_at n xs)) =
     map seg_attribute (filter (\<lambda>x. P (fst x)) xs)"
  by (induction xs arbitrary: n) auto

lemma find_segments:
  assumes "find (\<lambda>a. ra_type a = t) (segments_at n xs) = Some a"
  obtains pre v p post where "xs = pre @ (t, v, p) # post"
    and "a = \<lparr>ra_type = t, ra_value = v, ra_start = n + length (segments_bytes pre)\<rparr>"
proof -
  have "\<exists>pre v p post. xs = pre @ (t, v, p) # post \<and>
      a = \<lparr>ra_type = t, ra_value = v, ra_start = n + length (segments_bytes pre)\<rparr>"
    using assms
  proof (induction xs arbitrary: n)
    case Nil
    then show ?case by simp
  next
    case (Cons x xs)
    obtain u w q where x: "x = (u, w, q)" by (rule prod_cases3)
    show ?case
    proof (cases "u = t")
      case True
      with Cons.prems x show ?thesis
        by (intro exI [of _ "[]"] exI [of _ w] exI [of _ q] exI [of _ xs]) simp
    next
      case False
      with Cons.prems x have "find (\<lambda>a. ra_type a = t) (segments_at (n + length (segment_bytes x)) xs) = Some a"
        by simp
      from Cons.IH [OF this] obtain pre v p post where "xs = pre @ (t, v, p) # post"
        "a = \<lparr>ra_type = t, ra_value = v, ra_start = n + length (segment_bytes x) + length (segments_bytes pre)\<rparr>"
        by blast
      then show ?thesis
        by (intro exI [of _ "x # pre"] exI [of _ v] exI [of _ p] exI [of _ post]) (simp add: add.assoc)
    qed
  qed
  with that show ?thesis by blast
qed

text \<open>After a MAC the parser accepts nothing that it does not protect itself.\<close>

lemma check_attribute_seen:
  assumes "check_attribute s t v = Inr s'"
  shows "seen_sha1 s \<or> seen_sha256 s \<Longrightarrow> t \<in> {MESSAGE_INTEGRITY_SHA256, FINGERPRINT}"
    and "seen_sha1 s \<or> seen_sha256 s \<Longrightarrow> seen_sha1 s' \<or> seen_sha256 s'"
    and "t \<in> integrity_types \<Longrightarrow> seen_sha1 s' \<or> seen_sha256 s'"
  using assms
  by (auto simp: check_attribute_def bind_r_eq_Inr integrity_types_def split: if_splits)

lemma check_attributes_seen:
  "check_attributes s xs = Inr s' \<Longrightarrow> seen_sha1 s \<or> seen_sha256 s \<Longrightarrow>
     fst ` set xs \<subseteq> {MESSAGE_INTEGRITY_SHA256, FINGERPRINT}"
proof (induction xs arbitrary: s)
  case Nil
  then show ?case by simp
next
  case (Cons x xs)
  then obtain s1 where s1: "check_attribute s (fst x) (snd x) = Inr s1" "check_attributes s1 xs = Inr s'"
    by (auto simp: bind_r_eq_Inr)
  with check_attribute_seen(1,2) [OF s1(1) Cons.prems(2)] Cons.IH [OF s1(2)] show ?case by simp
qed

lemma integrity_prefix:
  assumes "message_parse bs = Inr m" and "t \<in> integrity_types" and "attribute m t = Some a"
  obtains v pre where "message_type_decode v = Inr (ms_kind m)" and "list_all segment_wf pre"
    and "integrity_input m a = Inr (to_be v @ to_be (word_of_nat (length (segments_bytes pre) + 4 + length (ra_value a)) :: u16)
       @ to_be MAGIC_COOKIE @ to_be (ms_transaction_id m) @ segments_bytes pre)"
    and "content m = map seg_attribute (filter (\<lambda>x. fst x \<notin> {MESSAGE_INTEGRITY, MESSAGE_INTEGRITY_SHA256, FINGERPRINT}) pre)"
proof -
  let ?added = "{MESSAGE_INTEGRITY, MESSAGE_INTEGRITY_SHA256, FINGERPRINT}"
  from message_parse_sound [OF assms(1)] obtain v xs s where v: "message_type_decode v = Inr (ms_kind m)"
    and wf: "list_all segment_wf xs" and raw: "ms_raw m = bs" and at: "ms_attributes m = segments_at 20 xs"
    and ck: "check_attributes nothing_seen (map seg_attribute xs) = Inr s"
    and len: "length (segments_bytes xs) < 65536"
    and bs: "bs = to_be v @ to_be (word_of_nat (length (segments_bytes xs)) :: u16) @ to_be MAGIC_COOKIE @
       to_be (ms_transaction_id m) @ segments_bytes xs" .
  from assms(3) have "find (\<lambda>a. ra_type a = t) (segments_at 20 xs) = Some a"
    by (simp add: attribute_def at)
  then obtain pre w p post where x: "xs = pre @ (t, w, p) # post"
    and a: "a = \<lparr>ra_type = t, ra_value = w, ra_start = 20 + length (segments_bytes pre)\<rparr>"
    by (rule find_segments)
  have "fst ` set (map seg_attribute post) \<subseteq> {MESSAGE_INTEGRITY_SHA256, FINGERPRINT}"
    using ck assms(2) check_attribute_seen(3) check_attributes_seen
    by (fastforce simp: x check_attributes_append bind_r_eq_Inr)
  then have "\<forall>x\<in>set post. fst x \<in> ?added" by (auto simp: image_image)
  then have "filter (\<lambda>x. fst x \<notin> ?added) ((t, w, p) # post) = []"
    using assms(2) by (auto simp: integrity_types_def filter_empty_conv)
  then have "content m = map seg_attribute (filter (\<lambda>x. fst x \<notin> ?added) pre)"
    using content_segments [where P = "\<lambda>t. t \<notin> ?added"] by (simp add: content_def at x)
  moreover have "integrity_input m a = Inr (to_be v @ to_be (word_of_nat (length (segments_bytes pre) + 4 + length (ra_value a)) :: u16)
       @ to_be MAGIC_COOKIE @ to_be (ms_transaction_id m) @ segments_bytes pre)"
    using len by (simp add: integrity_input_def raw a bs x get_range_def HEADER_LEN_def Let_def add.commute add.left_commute)
  moreover have "list_all segment_wf pre" using wf x by simp
  ultimately show ?thesis using that [OF v] by blast
qed

text \<open>Every attribute of a parsed message passed its check.\<close>

lemma check_attributes_each:
  "check_attributes s xs = Inr s' \<Longrightarrow> a \<in> set xs \<Longrightarrow> \<exists>s1 s2. check_attribute s1 (fst a) (snd a) = Inr s2"
proof (induction xs arbitrary: s)
  case Nil
  then show ?case by simp
next
  case (Cons x xs)
  then obtain s1 where "check_attribute s (fst x) (snd x) = Inr s1" "check_attributes s1 xs = Inr s'"
    by (auto simp: bind_r_eq_Inr)
  with Cons.IH [of s1] Cons.prems(2) show ?case by auto
qed

lemma parsed_attribute_checked:
  assumes "message_parse bs = Inr m" and "attribute m t = Some a"
  shows "\<exists>s1 s2. check_attribute s1 t (ra_value a) = Inr s2"
proof -
  from message_parse_sound [OF assms(1)] obtain u xs s where "message_type_decode u = Inr (ms_kind m)"
    and "list_all segment_wf xs" and "ms_raw m = bs" and at: "ms_attributes m = segments_at 20 xs"
    and ck: "check_attributes nothing_seen (map seg_attribute xs) = Inr s"
    and "length (segments_bytes xs) < 65536"
    and "bs = to_be u @ to_be (word_of_nat (length (segments_bytes xs)) :: u16) @ to_be MAGIC_COOKIE @
       to_be (ms_transaction_id m) @ segments_bytes xs" .
  have "find (\<lambda>a. ra_type a = t) (segments_at 20 xs) = Some a"
    using assms(2) unfolding attribute_def at .
  then obtain pre v p post where x: "xs = pre @ (t, v, p) # post"
    and "a = \<lparr>ra_type = t, ra_value = v, ra_start = 20 + length (segments_bytes pre)\<rparr>"
    by (rule find_segments)
  then have "ra_value a = v" and "(t, v) \<in> set (map seg_attribute xs)" by simp_all
  with check_attributes_each [OF ck, of "(t, v)"] show ?thesis by simp
qed

text \<open>The parser accepts no MAC longer than its digest, so truncating the digest never fails; the
  typed attributes it accepts have the length their readers expect.\<close>

lemma parsed_sha256_length:
  "message_parse bs = Inr m \<Longrightarrow> attribute m MESSAGE_INTEGRITY_SHA256 = Some a \<Longrightarrow> length (ra_value a) \<le> 32"
  by (drule (1) parsed_attribute_checked) (auto simp: check_attribute_def split: if_splits)

lemma parsed_lengths:
  assumes "message_parse bs = Inr m"
  shows "attribute m PRIORITY = Some a \<Longrightarrow> length (ra_value a) = 4"
    and "attribute m ICE_CONTROLLING = Some a \<Longrightarrow> length (ra_value a) = 8"
    and "attribute m ICE_CONTROLLED = Some a \<Longrightarrow> length (ra_value a) = 8"
  by (drule parsed_attribute_checked [OF assms];
      auto simp: check_attribute_def require_len_def bind_r_eq_Inr split: if_splits)+

lemma length_segments: "4 * length xs \<le> length (segments_bytes xs)"
  by (induction xs) auto

lemma length_segments_at: "length (segments_at n xs) = length xs"
  by (induction xs arbitrary: n) auto

lemma parsed_attribute_count:
  assumes "message_parse bs = Inr m"
  shows "4 * length (ms_attributes m) < 65536"
proof (rule message_parse_sound [OF assms])
  fix xs
  assume "ms_attributes m = segments_at 20 xs" and "length (segments_bytes xs) < 65536"
  with length_segments [of xs] show ?thesis by (simp add: length_segments_at)
qed

text \<open>The first attribute of a type is found in the content of the message.\<close>

lemma attribute_content:
  assumes "t \<notin> {MESSAGE_INTEGRITY, MESSAGE_INTEGRITY_SHA256, FINGERPRINT}"
  shows "map_option ra_value (attribute m t) = map_of (content m) t"
proof -
  have "map_option ra_value (find (\<lambda>a. ra_type a = t) as) =
      map_of (map (\<lambda>a. (ra_type a, ra_value a)) (filter (\<lambda>a. ra_type a \<notin> {MESSAGE_INTEGRITY, MESSAGE_INTEGRITY_SHA256, FINGERPRINT}) as)) t" for as
    using assms by (induction as) auto
  then show ?thesis by (simp only: attribute_def content_def)
qed

lemma added_not_unknown:
  "t \<in> {MESSAGE_INTEGRITY, MESSAGE_INTEGRITY_SHA256, FINGERPRINT} \<Longrightarrow> \<not> (is_comprehension_required t \<and> \<not> is_known t)"
  by (auto simp: is_known_def)

lemma unknown_content:
  "unknown_required_attributes m =
     filter (\<lambda>t. is_comprehension_required t \<and> \<not> is_known t) (map fst (content m))"
proof -
  have "filter (\<lambda>t. is_comprehension_required t \<and> \<not> is_known t) (map ra_type as) =
      filter (\<lambda>t. is_comprehension_required t \<and> \<not> is_known t)
        (map ra_type (filter (\<lambda>a. ra_type a \<notin> {MESSAGE_INTEGRITY, MESSAGE_INTEGRITY_SHA256, FINGERPRINT}) as))" for as
  proof (induction as)
    case Nil
    then show ?case by simp
  next
    case (Cons a as)
    then show ?case using added_not_unknown [of "ra_type a"] by (simp split: if_split del: insert_iff)
  qed
  then show ?thesis by (simp add: unknown_required_attributes_def content_def comp_def del: insert_iff)
qed

lemma reads_back_content: "reads_back cr b m \<Longrightarrow> content m = mb_attributes b"
  by (simp add: reads_back_def content_def)

section \<open>Addresses\<close>

lemma word_xor_cancel: "(a XOR m) XOR m = (a :: 'a::len word)"
  by (simp add: xor.assoc)

lemma map2_xor_cancel:
  "length ms = length bs \<Longrightarrow> map2 (XOR) (map2 (XOR) bs ms) ms = (bs :: bytes)"
proof (induction bs ms rule: list_induct2')
  case (4 b bs m ms)
  then show ?case by (simp add: word_xor_cancel)
qed simp_all

lemma rc_read_u8_at:
  assumes "rc_wf c" and "rc_rest c = v # rest"
  obtains c' where "rc_read_u8 c = (Inr v, c')" "rc_wf c'" "rc_rest c' = rest"
  using rc_read_u8_ok [of c v rest] assms that by auto

lemma length_address_mask [simp]: "length (address_mask t) = 16"
  by (simp add: address_mask_def)

lemma xor_address_roundtrip: "decode_xor_address (encode_xor_address a t) t = Inr (on_wire a)"
proof (cases a)
  case (SockV4 ip port)
  let ?v = "encode_xor_address a t"
  have "rc_rest (rc_new ?v) = 0 # 1 # to_be (port XOR cookie_port) @ to_be (ip XOR MAGIC_COOKIE) @ []"
    by (simp add: SockV4)
  then obtain c1 where c1: "rc_read_u8 (rc_new ?v) = (Inr 0, c1)" "rc_wf c1"
    "rc_rest c1 = 1 # to_be (port XOR cookie_port) @ to_be (ip XOR MAGIC_COOKIE) @ []"
    using rc_read_u8_at [OF rc_wf_new] by metis
  obtain c2 where c2: "rc_read_u8 c1 = (Inr 1, c2)" "rc_wf c2"
    "rc_rest c2 = to_be (port XOR cookie_port) @ to_be (ip XOR MAGIC_COOKIE) @ []"
    using rc_read_u8_at [OF c1(2,3)] by metis
  obtain c3 where c3: "rc_read_u16 c2 = (Inr (port XOR cookie_port), c3)" "rc_wf c3"
    "rc_rest c3 = to_be (ip XOR MAGIC_COOKIE) @ []"
    using rc_read_u16_at [OF c2(2,3)] by metis
  obtain c4 where c4: "rc_read_u32 c3 = (Inr (ip XOR MAGIC_COOKIE), c4)"
    using rc_read_u32_at [OF c3(2,3)] by metis
  show ?thesis
    using c1(1) c2(1) c3(1) c4
    by (simp add: decode_xor_address_def Let_def require_len_def word_xor_cancel SockV4)
next
  case (SockV6 ip port flowinfo scope)
  let ?v = "encode_xor_address a t" and ?e = "map2 (XOR) (to_be ip) (address_mask t)"
  have "rc_rest (rc_new ?v) = 0 # 2 # to_be (port XOR cookie_port) @ ?e @ []"
    by (simp add: SockV6)
  then obtain c1 where c1: "rc_read_u8 (rc_new ?v) = (Inr 0, c1)" "rc_wf c1"
    "rc_rest c1 = 2 # to_be (port XOR cookie_port) @ ?e @ []"
    using rc_read_u8_at [OF rc_wf_new] by metis
  obtain c2 where c2: "rc_read_u8 c1 = (Inr 2, c2)" "rc_wf c2"
    "rc_rest c2 = to_be (port XOR cookie_port) @ ?e @ []"
    using rc_read_u8_at [OF c1(2,3)] by metis
  obtain c3 where c3: "rc_read_u16 c2 = (Inr (port XOR cookie_port), c3)" "rc_wf c3" "rc_rest c3 = ?e @ []"
    using rc_read_u16_at [OF c2(2,3)] by metis
  have e: "length ?e = 16" by simp
  obtain c4 where c4: "rc_take 16 c3 = (Inr ?e, c4)"
    using rc_take_at [OF c3(2,3), of 16] e by metis
  have "from_be (map2 (XOR) ?e (address_mask t)) = ip"
    using map2_xor_cancel [of "address_mask t" "to_be ip"] by simp
  then show ?thesis
    using c1(1) c2(1) c3(1) c4
    by (simp add: decode_xor_address_def Let_def require_len_def word_xor_cancel SockV6 on_wire_def)
qed

section \<open>Round trips of values\<close>

lemma to_be_u16_pair: "\<exists>a b. to_be (w :: u16) = [a, b]"
proof -
  have "length (to_be w) = 2" by simp
  then show ?thesis by (auto simp: length_Suc_conv numeral_2_eq_2 simp del: length_to_be)
qed

lemma be16_chunks_concat: "be16_chunks (concat (map to_be ws)) = ws"
proof (induction ws)
  case Nil
  then show ?case by simp
next
  case (Cons w ws)
  obtain a b where ab: "to_be w = [a, b]" using to_be_u16_pair by blast
  then have "from_be [a, b] = w" using be16.dec_enc [of w] by simp
  with ab Cons.IH show ?case by simp
qed

lemma unknown_attributes_roundtrip:
  assumes "map_of (content m) UNKNOWN_ATTRIBUTES = Some (concat (map to_be (ws :: u16 list)))"
  shows "msg_unknown_attributes m = Inr ws"
proof -
  obtain a where a: "attribute m UNKNOWN_ATTRIBUTES = Some a" "ra_value a = concat (map to_be ws)"
    using assms attribute_content [of UNKNOWN_ATTRIBUTES m] by auto
  have "length (concat (map to_be ws)) = 2 * length ws" by (induction ws) simp_all
  with a show ?thesis by (simp add: msg_unknown_attributes_def be16_chunks_concat)
qed

lemma code_digits:
  assumes "300 \<le> code" and "code \<le> (699 :: u16)"
  shows "3 \<le> code div 100" "code div 100 \<le> 6" "(ucast (code mod 100) :: u8) \<le> 99"
    "ucast ((ucast (code div 100) :: u8) AND 0x07) * 100 + ucast (ucast (code mod 100) :: u8) = code"
proof -
  have c: "300 \<le> unat code" "unat code \<le> 699" using assms by (simp_all add: word_le_nat_alt)
  have d: "unat (code div 100) = unat code div 100" "unat (code mod 100) = unat code mod 100"
    by (simp_all add: unat_div unat_mod)
  show "3 \<le> code div 100" "code div 100 \<le> 6" using c d by (simp_all add: word_le_nat_alt)
  have m: "unat (ucast (code mod 100) :: u8) = unat code mod 100"
    using d by (simp add: unsigned_ucast_eq take_bit_nat_eq_self)
  then show "(ucast (code mod 100) :: u8) \<le> 99" by (simp add: word_le_nat_alt)
  have q: "unat (ucast (code div 100) :: u8) = unat code div 100"
    using c d by (simp add: unsigned_ucast_eq take_bit_nat_eq_self)
  then have "unat (ucast (code div 100) :: u8) < 2 ^ 3" using c by simp
  then have e: "(ucast (code div 100) :: u8) AND 0x07 = ucast (code div 100)"
    using take_bit_word_small [of "ucast (code div 100) :: u8" 3] by (simp add: take_bit_eq_mask mask_eq_exp_minus_1)
  have "unat (ucast (ucast (code div 100) :: u8) * 100 + ucast (ucast (code mod 100) :: u8) :: u16) = unat code"
    using c q m by (simp add: unat_word_ariths unat_ucast_up take_bit_nat_eq_self)
  then show "ucast ((ucast (code div 100) :: u8) AND 0x07) * 100 + ucast (ucast (code mod 100) :: u8) = code"
    unfolding e by (simp only: word_unat_eq_iff)
qed

lemma error_code_roundtrip:
  assumes "map_of (content m) ERROR_CODE =
      Some ([0, 0, ucast (code div 100)] @ [ucast (code mod 100)] @ str_bytes reason)"
    and "300 \<le> code" and "code \<le> 699" and "\<forall>c\<in>set reason. is_scalar c"
  shows "msg_error_code m = Inr (Some (code, reason))"
proof -
  obtain a where "attribute m ERROR_CODE = Some a"
    "ra_value a = [0, 0, ucast (code div 100)] @ [ucast (code mod 100)] @ str_bytes reason"
    using assms(1) attribute_content [of ERROR_CODE m] by auto
  with code_digits [OF assms(2,3)] assms(2,3) show ?thesis
    by (simp add: msg_error_code_def Let_def get_range_def from_utf8_str_bytes [OF assms(4)] not_less)
qed

section \<open>Properties\<close>

text \<open>C34. A message that the builder produces from plain attributes is accepted by the parser, which
  returns its type, its transaction and its attributes in order; the MAC that was asked for verifies
  under the same key and so does the fingerprint, and neither is there if it was not asked for.\<close>

theorem stun_message_roundtrip:
  assumes "message_build cr b = Inr bs" and "unat (mt_method (mb_message_type b)) < 2 ^ 12"
    and "\<forall>a\<in>set (mb_attributes b). plain_attribute a"
  shows "\<exists>m. message_parse bs = Inr m \<and> reads_back cr b m"
  using stun_build_parse [OF assms] by metis

definition sample_crypto :: stun_crypto where
  "sample_crypto = \<lparr>st_hmac_sha1 = (\<lambda>key. Some (\<lambda>d. word_of_nat (length key + length d))),
     st_hmac_sha256 = (\<lambda>key. Some (\<lambda>d. word_of_nat (length key + length d))),
     st_crc32 = (\<lambda>d. word_of_nat (length d))\<rparr>"

definition sample_stun_builder :: message_builder where
  "sample_stun_builder =
     with_fingerprint (with_integrity_sha1 [1, 2, 3] (add_use_candidate (add_priority 7
       (add_username [97, 58, 98] (builder_new \<lparr>mt_method = BINDING, mt_class = Request\<rparr> 5)))))"

lemmas sample_builder_defs = sample_stun_builder_def builder_new_def add_raw_attribute_def add_username_def
  add_priority_def add_use_candidate_def with_integrity_sha1_def with_fingerprint_def str_bytes_def
  utf8_char_def BINDING_def

lemma sample_builder_ok:
  "\<exists>bs. message_build sample_crypto sample_stun_builder = Inr bs"
  "unat (mt_method (mb_message_type sample_stun_builder)) < 2 ^ 12"
  "\<forall>a\<in>set (mb_attributes sample_stun_builder). plain_attribute a"
  by (simp_all add: message_build_eq built_attributes_def sample_builder_defs sample_crypto_def
      fingerprint_attribute_def length_attribute_bytes pad4_def plain_attribute_def check_attribute_def
      require_len_def)

theorem stun_message_roundtrip_witness:
  "\<exists>bs m. message_build sample_crypto sample_stun_builder = Inr bs \<and> message_parse bs = Inr m \<and>
     reads_back sample_crypto sample_stun_builder m"
  using sample_builder_ok stun_message_roundtrip by blast

text \<open>C35. The input of a MAC determines everything a receiver acts on: two accepted messages whose
  MESSAGE-INTEGRITY (or MESSAGE-INTEGRITY-SHA256) is computed over the same bytes have the same type,
  the same transaction and the same attributes, up to MACs and fingerprint. Nothing can be added,
  removed or changed around a MAC that stays valid.\<close>

theorem mac_input_determines_content:
  assumes "message_parse bs1 = Inr m1" and "message_parse bs2 = Inr m2"
    and "t \<in> integrity_types" and "attribute m1 t = Some a1" and "attribute m2 t = Some a2"
    and "integrity_input m1 a1 = integrity_input m2 a2"
  shows "ms_kind m1 = ms_kind m2 \<and> ms_transaction_id m1 = ms_transaction_id m2 \<and> content m1 = content m2"
proof -
  obtain v1 p1 where 1: "message_type_decode v1 = Inr (ms_kind m1)" "list_all segment_wf p1"
    "integrity_input m1 a1 = Inr (to_be v1 @ to_be (word_of_nat (length (segments_bytes p1) + 4 + length (ra_value a1)) :: u16)
       @ to_be MAGIC_COOKIE @ to_be (ms_transaction_id m1) @ segments_bytes p1)"
    "content m1 = map seg_attribute (filter (\<lambda>x. fst x \<notin> {MESSAGE_INTEGRITY, MESSAGE_INTEGRITY_SHA256, FINGERPRINT}) p1)"
    by (rule integrity_prefix [OF assms(1,3,4)])
  obtain v2 p2 where 2: "message_type_decode v2 = Inr (ms_kind m2)" "list_all segment_wf p2"
    "integrity_input m2 a2 = Inr (to_be v2 @ to_be (word_of_nat (length (segments_bytes p2) + 4 + length (ra_value a2)) :: u16)
       @ to_be MAGIC_COOKIE @ to_be (ms_transaction_id m2) @ segments_bytes p2)"
    "content m2 = map seg_attribute (filter (\<lambda>x. fst x \<notin> {MESSAGE_INTEGRITY, MESSAGE_INTEGRITY_SHA256, FINGERPRINT}) p2)"
    by (rule integrity_prefix [OF assms(2,3,5)])
  have "v1 = v2" and "ms_transaction_id m1 = ms_transaction_id m2" and "segments_bytes p1 = segments_bytes p2"
    using assms(6) unfolding 1(3) 2(3)
    by (simp_all add: append_eq_append_conv be16.enc_inj be96.enc_inj)
  with 1 2 segments_unique [OF 1(2) 2(2)] show ?thesis by simp
qed

text \<open>The same request without and with a fingerprint.\<close>

definition sample_attributes :: "bool \<Rightarrow> (attribute_type \<times> bytes) list" where
  "sample_attributes fingerprinted =
     [(PRIORITY, [0, 0, 0, 7]), (MESSAGE_INTEGRITY, replicate 20 9)] @
     (if fingerprinted then [(FINGERPRINT, [1, 2, 3, 4])] else [])"

definition sample_message :: "bool \<Rightarrow> bytes" where
  "sample_message f =
     header_bytes \<lparr>mt_method = BINDING, mt_class = Request\<rparr> 5 (length (attributes_bytes (sample_attributes f))) @
     attributes_bytes (sample_attributes f)"

lemma sample_message_parsed:
  "\<exists>m. message_parse (sample_message f) = Inr m \<and> content m = [(PRIORITY, [0, 0, 0, 7])] \<and>
     (\<exists>a. attribute m MESSAGE_INTEGRITY = Some a \<and>
        integrity_input m a = Inr (header_bytes \<lparr>mt_method = BINDING, mt_class = Request\<rparr> 5 32 @
          attributes_bytes [(PRIORITY, [0, 0, 0, 7])]))"
proof -
  let ?t = "\<lparr>mt_method = BINDING, mt_class = Request\<rparr>" and ?xs = "sample_attributes f"
  have "message_parse (sample_message f) =
      Inr \<lparr>ms_raw = sample_message f, ms_kind = ?t, ms_transaction_id = 5, ms_attributes = placed 20 ?xs\<rparr>" (is "_ = Inr ?m")
    unfolding sample_message_def
    by (rule message_parse_layout [where s = "\<lparr>seen_sha1 = True, seen_sha256 = False, seen_fingerprint = f\<rparr>"])
      (simp_all add: BINDING_def sample_attributes_def length_attribute_bytes pad4_def check_attribute_def require_len_def)
  moreover have "content ?m = [(PRIORITY, [0, 0, 0, 7])]"
    by (simp add: content_def sample_attributes_def)
  moreover have "attribute ?m MESSAGE_INTEGRITY = Some \<lparr>ra_type = MESSAGE_INTEGRITY, ra_value = replicate 20 9, ra_start = 28\<rparr>"
    by (simp add: attribute_def sample_attributes_def length_attribute_bytes pad4_def)
  moreover have "integrity_input ?m \<lparr>ra_type = MESSAGE_INTEGRITY, ra_value = replicate 20 9, ra_start = 28\<rparr> =
      Inr (header_bytes ?t 5 32 @ attributes_bytes [(PRIORITY, [0, 0, 0, 7])])"
    by (subst integrity_input_layout [where body = "attributes_bytes [(PRIORITY, [0, 0, 0, 7])]" and
          rest = "drop 8 (attributes_bytes ?xs)" and v = "replicate 20 9" and ty = MESSAGE_INTEGRITY])
      (simp_all add: sample_message_def sample_attributes_def length_attribute_bytes pad4_def attribute_bytes_def)
  ultimately show ?thesis by blast
qed

theorem mac_input_determines_content_witness:
  "\<exists>m1 m2. sample_message False \<noteq> sample_message True \<and> message_parse (sample_message False) = Inr m1 \<and>
     message_parse (sample_message True) = Inr m2 \<and> content m1 = content m2 \<and> content m1 \<noteq> []"
proof -
  obtain m1 a1 where m1: "message_parse (sample_message False) = Inr m1" "content m1 = [(PRIORITY, [0, 0, 0, 7])]"
    and a1: "attribute m1 MESSAGE_INTEGRITY = Some a1"
      "integrity_input m1 a1 = Inr (header_bytes \<lparr>mt_method = BINDING, mt_class = Request\<rparr> 5 32 @ attributes_bytes [(PRIORITY, [0, 0, 0, 7])])"
    using sample_message_parsed by blast
  obtain m2 a2 where m2: "message_parse (sample_message True) = Inr m2"
    and a2: "attribute m2 MESSAGE_INTEGRITY = Some a2"
      "integrity_input m2 a2 = Inr (header_bytes \<lparr>mt_method = BINDING, mt_class = Request\<rparr> 5 32 @ attributes_bytes [(PRIORITY, [0, 0, 0, 7])])"
    using sample_message_parsed by blast
  have "content m1 = content m2"
    using mac_input_determines_content [OF m1(1) m2 _ a1(1) a2(1)] a1(2) a2(2) by (simp add: integrity_types_def)
  moreover have "length (sample_message False) \<noteq> length (sample_message True)"
    by (simp add: sample_message_def sample_attributes_def length_attribute_bytes pad4_def)
  then have "sample_message False \<noteq> sample_message True" by metis
  ultimately show ?thesis using m1 m2 by auto
qed

end
