(* ===== verification/Rust_Text.thy ===== *)
theory Rust_Text
  imports Fluvora_Prelude
begin

text \<open>
  The operations of \<open>str\<close> that the text protocols of the program use: string literals, splitting at a
  character and at white space, trimming, lines, comparison without regard to ASCII case, and the
  parsing and printing of unsigned integers. A string is the list of its scalar values. Shown: what is
  printed is parsed back, and joining inverts splitting.
\<close>

section \<open>Literals and characters\<close>

text \<open>A string literal of the source: its characters are ASCII.\<close>

definition str_lit :: "string \<Rightarrow> rust_string" where
  "str_lit s = map of_char s"

text \<open>\<open>char::is_whitespace\<close>: the Unicode property White_Space.\<close>

definition is_whitespace :: "nat \<Rightarrow> bool" where
  "is_whitespace c \<longleftrightarrow> (9 \<le> c \<and> c \<le> 13) \<or> c = 32 \<or> c = 0x85 \<or> c = 0xA0 \<or> c = 0x1680 \<or>
     (0x2000 \<le> c \<and> c \<le> 0x200A) \<or> c = 0x2028 \<or> c = 0x2029 \<or> c = 0x202F \<or> c = 0x205F \<or> c = 0x3000"

definition to_ascii_lowercase :: "nat \<Rightarrow> nat" where
  "to_ascii_lowercase c = (if 65 \<le> c \<and> c \<le> 90 then c + 32 else c)"

definition eq_ignore_ascii_case :: "rust_string \<Rightarrow> rust_string \<Rightarrow> bool" where
  "eq_ignore_ascii_case s t \<longleftrightarrow> map to_ascii_lowercase s = map to_ascii_lowercase t"

section \<open>Splitting\<close>

fun split_once :: "nat \<Rightarrow> rust_string \<Rightarrow> (rust_string \<times> rust_string) option" where
  "split_once sep [] = None"
| "split_once sep (c # cs) =
     (if c = sep then Some ([], cs) else map_option (\<lambda>(a, b). (c # a, b)) (split_once sep cs))"

fun split_where :: "(nat \<Rightarrow> bool) \<Rightarrow> rust_string \<Rightarrow> rust_string list" where
  "split_where p [] = [[]]"
| "split_where p (c # cs) =
     (if p c then [] # split_where p cs
      else case split_where p cs of [] \<Rightarrow> [[c]] | x # xs \<Rightarrow> (c # x) # xs)"

definition split_on :: "nat \<Rightarrow> rust_string \<Rightarrow> rust_string list" where
  "split_on sep = split_where (\<lambda>c. c = sep)"

definition split_whitespace :: "rust_string \<Rightarrow> rust_string list" where
  "split_whitespace s = filter (\<lambda>t. t \<noteq> []) (split_where is_whitespace s)"

text \<open>\<open>splitn(3, sep)\<close>.\<close>

definition split_3 :: "nat \<Rightarrow> rust_string \<Rightarrow> rust_string list" where
  "split_3 sep s =
     (case split_once sep s of None \<Rightarrow> [s]
      | Some (a, rest) \<Rightarrow>
          (case split_once sep rest of None \<Rightarrow> [a, rest] | Some (b, c) \<Rightarrow> [a, b, c]))"

definition trim :: "rust_string \<Rightarrow> rust_string" where
  "trim s = rev (dropWhile is_whitespace (rev (dropWhile is_whitespace s)))"

text \<open>\<open>strip_suffix('\r').unwrap_or(..)\<close>.\<close>

definition strip_cr :: "rust_string \<Rightarrow> rust_string" where
  "strip_cr s = (if s \<noteq> [] \<and> last s = 13 then butlast s else s)"

text \<open>\<open>str::lines\<close>: a line ends with a line feed, before which a carriage return is dropped; there is no
  empty line after the last line feed.\<close>

definition str_lines :: "rust_string \<Rightarrow> rust_string list" where
  "str_lines s =
     (let parts = split_on 10 s in
      map strip_cr (butlast parts) @ (if last parts = [] then [] else [last parts]))"

fun join_with :: "rust_string \<Rightarrow> rust_string list \<Rightarrow> rust_string" where
  "join_with sep [] = []"
| "join_with sep [x] = x"
| "join_with sep (x # y # xs) = x @ sep @ join_with sep (y # xs)"

section \<open>Integers\<close>

definition digit_value :: "nat \<Rightarrow> nat option" where
  "digit_value c =
     (if 48 \<le> c \<and> c \<le> 57 then Some (c - 48)
      else if 97 \<le> c \<and> c \<le> 122 then Some (c - 87)
      else if 65 \<le> c \<and> c \<le> 90 then Some (c - 55) else None)"

fun digits_value :: "nat \<Rightarrow> nat \<Rightarrow> rust_string \<Rightarrow> nat option" where
  "digits_value radix acc [] = Some acc"
| "digits_value radix acc (c # cs) =
     (case digit_value c of None \<Rightarrow> None
      | Some d \<Rightarrow> if d < radix then digits_value radix (acc * radix + d) cs else None)"

text \<open>\<open>from_str_radix\<close> of an unsigned type with values below \<open>limit\<close>: a plus sign before the first digit is
  accepted.\<close>

definition parse_radix :: "nat \<Rightarrow> nat \<Rightarrow> rust_string \<Rightarrow> nat option" where
  "parse_radix radix limit s =
     (let digits = (if s \<noteq> [] \<and> hd s = 43 then tl s else s) in
      if digits = [] then None
      else case digits_value radix 0 digits of None \<Rightarrow> None
        | Some n \<Rightarrow> if n < limit then Some n else None)"

definition parse_unsigned :: "rust_string \<Rightarrow> 'a::len word option" where
  "parse_unsigned s = map_option word_of_nat (parse_radix 10 (2 ^ LENGTH('a)) s)"

fun decimal :: "nat \<Rightarrow> rust_string" where
  "decimal n = (if n < 10 then [48 + n] else decimal (n div 10) @ [48 + n mod 10])"

declare decimal.simps [simp del]

text \<open>\<open>{:02X}\<close> of a byte.\<close>

definition hex_digit :: "nat \<Rightarrow> nat" where
  "hex_digit d = (if d < 10 then 48 + d else 55 + d)"

definition hex_byte :: "u8 \<Rightarrow> rust_string" where
  "hex_byte b = [hex_digit (unat b div 16), hex_digit (unat b mod 16)]"

section \<open>Splitting and joining\<close>

lemma split_where_nonempty: "split_where p s \<noteq> []"
  by (cases s) (auto split: list.splits)

lemma split_once_Some: "split_once sep s = Some (a, b) \<longleftrightarrow> s = a @ sep # b \<and> sep \<notin> set a"
proof (induction s arbitrary: a)
  case Nil
  then show ?case by simp
next
  case (Cons c cs)
  show ?case
  proof (cases "c = sep")
    case True
    then show ?thesis by (cases a) auto
  next
    case False
    then show ?thesis using Cons.IH by (cases a) (auto split: prod.splits)
  qed
qed

lemma split_once_None: "split_once sep s = None \<longleftrightarrow> sep \<notin> set s"
  by (induction s) auto

lemma split_where_none: "\<forall>c\<in>set s. \<not> p c \<Longrightarrow> split_where p s = [s]"
  by (induction s) auto

lemma split_where_append:
  assumes "\<forall>c\<in>set s. \<not> p c" and "p c"
  shows "split_where p (s @ c # t) = s # split_where p t"
  using assms by (induction s) auto

lemma split_on_join:
  assumes "xs \<noteq> []" and "\<forall>x\<in>set xs. sep \<notin> set x"
  shows "split_on sep (join_with [sep] xs) = xs"
  using assms
proof (induction xs rule: induct_list012)
  case 1
  then show ?case by simp
next
  case (2 x)
  then show ?case unfolding split_on_def by (simp only: join_with.simps) (rule split_where_none, auto)
next
  case (3 x y zs)
  then have "split_on sep (x @ [sep] @ join_with [sep] (y # zs)) = x # split_on sep (join_with [sep] (y # zs))"
    unfolding split_on_def by (simp only: append_Cons append_Nil) (rule split_where_append, auto)
  with 3 show ?case by simp
qed

section \<open>Printing and parsing\<close>

lemma digit_value_decimal: "d < 10 \<Longrightarrow> digit_value (48 + d) = Some d"
  by (simp add: digit_value_def)

lemma digit_value_hex: "d < 16 \<Longrightarrow> digit_value (hex_digit d) = Some d"
  by (auto simp: digit_value_def hex_digit_def)

lemma digits_value_append:
  "digits_value r a (xs @ ys) = (case digits_value r a xs of None \<Rightarrow> None | Some n \<Rightarrow> digits_value r n ys)"
  by (induction r a xs rule: digits_value.induct) (auto split: option.splits)

lemma decimal_nonempty [simp]: "decimal n \<noteq> []"
  by (subst decimal.simps) simp

lemma decimal_digits: "\<forall>c\<in>set (decimal n). 48 \<le> c \<and> c \<le> 57"
  by (induction n rule: decimal.induct) (subst decimal.simps, auto)

lemma digits_value_decimal: "digits_value 10 0 (decimal n) = Some n"
proof (induction n rule: decimal.induct)
  case (1 n)
  show ?case
  proof (cases "n < 10")
    case True
    then show ?thesis by (subst decimal.simps) (simp add: digit_value_decimal)
  next
    case False
    with 1 have "digits_value 10 0 (decimal (n div 10) @ [48 + n mod 10]) = Some n"
      by (simp add: digits_value_append digit_value_decimal)
    with False show ?thesis by (subst decimal.simps) simp
  qed
qed

lemma parse_radix_decimal: "n < limit \<Longrightarrow> parse_radix 10 limit (decimal n) = Some n"
proof -
  assume "n < limit"
  moreover obtain c cs where d: "decimal n = c # cs" by (cases "decimal n") auto
  moreover have "c \<noteq> 43" using decimal_digits [of n] by (simp add: d)
  ultimately show ?thesis
    using digits_value_decimal [of n] by (simp add: parse_radix_def)
qed

lemma parse_unsigned_decimal: "parse_unsigned (decimal (unat w)) = Some w"
  for w :: "'a::len word"
proof -
  have "unat w < 2 ^ LENGTH('a)" by (rule unsigned_less)
  then show ?thesis by (simp add: parse_unsigned_def parse_radix_decimal)
qed

lemma parse_radix_hex: "parse_radix 16 256 (hex_byte b) = Some (unat b)"
proof -
  have "unat b < 256" using unsigned_less [of b, where ?'a = nat] by simp
  then have "unat b div 16 < 16" by linarith
  moreover have "hex_digit (unat b div 16) \<noteq> 43" by (simp add: hex_digit_def)
  ultimately show ?thesis using \<open>unat b < 256\<close>
    by (simp add: parse_radix_def hex_byte_def digit_value_hex)
qed

end
