(* ===== verification/Ice_Lite.thy ===== *)
theory Ice_Lite
  imports Stun Rust_Text
begin

text \<open>
  The ICE-lite agent of \<open>crates/webrtc/ice-lite/src\<close>: credentials and configuration
  (\<open>config.rs\<close>), and the agent that answers connectivity checks, keeps candidate pairs and watches
  consent (\<open>agent.rs\<close>). \<open>handle_datagram\<close> returns its result with the agent it leaves behind, so
  that what a failing call changes is part of the model. The local and remote addresses and the time
  are arguments of every call, as in the code.
\<close>

section \<open>Configuration\<close>

definition MIN_PASSWORD_BYTES :: nat where "MIN_PASSWORD_BYTES = 22"
definition MAX_CREDENTIAL_BYTES :: nat where "MAX_CREDENTIAL_BYTES = 256"

record credentials =
  cd_username_fragment :: rust_string
  cd_password :: bytes

datatype credential_error =
    InvalidUsernameFragmentLength nat
  | UsernameFragmentContainsColon
  | InvalidPasswordLength nat

definition credentials_new :: "rust_string \<Rightarrow> bytes \<Rightarrow> (credential_error, credentials) result" where
  "credentials_new username_fragment password =
     (if username_fragment = [] \<or> str_len username_fragment > MAX_CREDENTIAL_BYTES
      then Inl (InvalidUsernameFragmentLength (str_len username_fragment))
      else if 58 \<in> set username_fragment then Inl UsernameFragmentContainsColon
      else if \<not> (MIN_PASSWORD_BYTES \<le> length password \<and> length password \<le> MAX_CREDENTIAL_BYTES)
      then Inl (InvalidPasswordLength (length password))
      else Inr \<lparr>cd_username_fragment = username_fragment, cd_password = password\<rparr>)"

record configuration =
  cf_local_credentials :: credentials
  cf_remote_credentials :: credentials
  cf_tie_breaker :: u64
  cf_consent_timeout :: duration
  cf_failure_timeout :: duration
  cf_max_candidate_pairs :: nat

definition configuration_new :: "credentials \<Rightarrow> credentials \<Rightarrow> u64 \<Rightarrow> configuration" where
  "configuration_new local_credentials remote_credentials tie_breaker =
     \<lparr>cf_local_credentials = local_credentials, cf_remote_credentials = remote_credentials,
      cf_tie_breaker = tie_breaker, cf_consent_timeout = 30 * 1000000000,
      cf_failure_timeout = 60 * 1000000000, cf_max_candidate_pairs = 64\<rparr>"

section \<open>Agent\<close>

datatype ice_state = IceNew | IceConnected | IceCompleted | IceDisconnected | IceFailed

datatype integrity_algorithm = AlgSha1 | AlgSha256

record candidate_pair =
  cp_local :: socket_addr
  cp_remote :: socket_addr
  cp_priority :: u32
  cp_nominated :: bool
  cp_last_authenticated :: duration

datatype ice_event = StateChanged ice_state ice_state | SelectedPair candidate_pair

record transmit =
  tm_source :: socket_addr
  tm_destination :: socket_addr
  tm_payload :: bytes

record handle_output =
  ho_transmit :: transmit
  ho_events :: "ice_event list"

record agent =
  ag_configuration :: configuration
  ag_state :: ice_state
  ag_pairs :: "candidate_pair list"
  ag_selected_pair :: "candidate_pair option"
  ag_last_authenticated :: "duration option"

datatype ice_error =
    IceStun stun_error
  | NotBindingRequest
  | InvalidUsername
  | MissingPriority
  | CandidatePairLimit
  | RestartRequired

definition agent_new :: "configuration \<Rightarrow> agent" where
  "agent_new c = \<lparr>ag_configuration = c, ag_state = IceNew, ag_pairs = [], ag_selected_pair = None,
     ag_last_authenticated = None\<rparr>"

definition restart :: "configuration \<Rightarrow> agent \<Rightarrow> agent" where
  "restart c a = a\<lparr>ag_configuration := c, ag_state := IceNew, ag_pairs := [], ag_selected_pair := None,
     ag_last_authenticated := None\<rparr>"

definition validate_message_type :: "stun_message \<Rightarrow> (ice_error, unit) result" where
  "validate_message_type m =
     (if mt_method (ms_kind m) = BINDING \<and> mt_class (ms_kind m) = Request then Inr ()
      else Inl NotBindingRequest)"

definition expected_username :: "agent \<Rightarrow> rust_string" where
  "expected_username a =
     cd_username_fragment (cf_local_credentials (ag_configuration a)) @ [58] @
     cd_username_fragment (cf_remote_credentials (ag_configuration a))"

abbreviation local_password :: "agent \<Rightarrow> bytes" where
  "local_password a \<equiv> cd_password (cf_local_credentials (ag_configuration a))"

definition ice_authenticate ::
    "stun_crypto \<Rightarrow> agent \<Rightarrow> stun_message \<Rightarrow> (ice_error, integrity_algorithm) result" where
  "ice_authenticate cr a m =
     bind_r (map_err IceStun (msg_username m)) (\<lambda>username.
     if username \<noteq> Some (expected_username a) then Inl InvalidUsername
     else
       bind_r
         (if attribute m MESSAGE_INTEGRITY_SHA256 \<noteq> None then
            bind_r (map_err IceStun (verify_message_integrity_sha256 cr m (local_password a))) (\<lambda>_. Inr AlgSha256)
          else
            bind_r (map_err IceStun (verify_message_integrity_sha1 cr m (local_password a))) (\<lambda>_. Inr AlgSha1))
         (\<lambda>algorithm.
            if attribute m FINGERPRINT \<noteq> None
            then bind_r (map_err IceStun (verify_fingerprint cr m)) (\<lambda>_. Inr algorithm)
            else Inr algorithm))"

definition add_integrity :: "message_builder \<Rightarrow> integrity_algorithm \<Rightarrow> bytes \<Rightarrow> message_builder" where
  "add_integrity b algorithm password =
     (case algorithm of AlgSha1 \<Rightarrow> with_integrity_sha1 password b
      | AlgSha256 \<Rightarrow> with_integrity_sha256 password b)"

definition error_builder :: "transaction_id \<Rightarrow> u16 \<Rightarrow> rust_string \<Rightarrow> (ice_error, message_builder) result" where
  "error_builder i code reason =
     map_err IceStun (add_error_code code reason
       (builder_new \<lparr>mt_method = BINDING, mt_class = ErrorResponse\<rparr> i))"

definition error_output ::
    "stun_crypto \<Rightarrow> agent \<Rightarrow> message_builder \<Rightarrow> integrity_algorithm \<Rightarrow> socket_addr \<Rightarrow> socket_addr \<Rightarrow>
     (ice_error, handle_output) result" where
  "error_output cr a b algorithm loc remote =
     bind_r (map_err IceStun (message_build cr (with_fingerprint (add_integrity b algorithm (local_password a))))) (\<lambda>payload.
       Inr \<lparr>ho_transmit = \<lparr>tm_source = loc, tm_destination = remote, tm_payload = payload\<rparr>, ho_events = []\<rparr>)"

definition semantic_error_response ::
    "stun_crypto \<Rightarrow> agent \<Rightarrow> stun_message \<Rightarrow> integrity_algorithm \<Rightarrow> socket_addr \<Rightarrow> socket_addr \<Rightarrow>
     (ice_error, handle_output option) result" where
  "semantic_error_response cr a m algorithm loc remote =
     (let unknown = unknown_required_attributes m in
      if unknown \<noteq> [] then
        bind_r (error_builder (ms_transaction_id m) 420 (str_lit ''Unknown Attribute'')) (\<lambda>b.
        bind_r (error_output cr a (add_unknown_attributes unknown b) algorithm loc remote) (\<lambda>out. Inr (Some out)))
      else
        bind_r (map_err IceStun (msg_ice_controlling m)) (\<lambda>controlling.
        bind_r (map_err IceStun (msg_ice_controlled m)) (\<lambda>controlled.
        if controlled \<noteq> None \<or> controlling = None then
          bind_r (error_builder (ms_transaction_id m) 487 (str_lit ''Role Conflict'')) (\<lambda>b.
          bind_r (error_output cr a (add_ice_controlled (cf_tie_breaker (ag_configuration a)) b) algorithm loc remote)
            (\<lambda>out. Inr (Some out)))
        else
          bind_r (map_err IceStun (msg_priority m)) (\<lambda>priority.
          if priority = None then
            bind_r (error_builder (ms_transaction_id m) 400 (str_lit ''Bad Request'')) (\<lambda>b.
            bind_r (error_output cr a b algorithm loc remote) (\<lambda>out. Inr (Some out)))
          else Inr None))))"

definition success_response ::
    "stun_crypto \<Rightarrow> agent \<Rightarrow> stun_message \<Rightarrow> socket_addr \<Rightarrow> integrity_algorithm \<Rightarrow> (ice_error, bytes) result" where
  "success_response cr a m remote algorithm =
     (let b = add_xor_mapped_address remote
          (builder_new \<lparr>mt_method = BINDING, mt_class = SuccessResponse\<rparr> (ms_transaction_id m))
      in map_err IceStun (message_build cr (with_fingerprint (add_integrity b algorithm (local_password a)))))"

text \<open>The first pair with these addresses, updated in place.\<close>

fun refresh_pair ::
    "duration \<Rightarrow> socket_addr \<Rightarrow> socket_addr \<Rightarrow> u32 \<Rightarrow> bool \<Rightarrow> candidate_pair list \<Rightarrow>
     (candidate_pair \<times> candidate_pair list) option" where
  "refresh_pair now loc remote priority nominated [] = None"
| "refresh_pair now loc remote priority nominated (p # ps) =
     (if cp_local p = loc \<and> cp_remote p = remote then
        let p' = p\<lparr>cp_priority := priority, cp_nominated := cp_nominated p \<or> nominated, cp_last_authenticated := now\<rparr>
        in Some (p', p' # ps)
      else map_option (\<lambda>(q, qs). (q, p # qs)) (refresh_pair now loc remote priority nominated ps))"

definition select_pair :: "bool \<Rightarrow> candidate_pair \<Rightarrow> agent \<Rightarrow> ice_event list \<times> agent" where
  "select_pair nominated pair a =
     (if nominated \<and> ag_selected_pair a \<noteq> Some pair
      then ([SelectedPair pair], a\<lparr>ag_selected_pair := Some pair\<rparr>)
      else ([], a))"

definition record_valid_pair ::
    "duration \<Rightarrow> socket_addr \<Rightarrow> socket_addr \<Rightarrow> u32 \<Rightarrow> bool \<Rightarrow> agent \<Rightarrow>
     (ice_error, ice_event list) result \<times> agent" where
  "record_valid_pair now loc remote priority nominated a =
     (let a1 = a\<lparr>ag_last_authenticated := Some now\<rparr> in
      case refresh_pair now loc remote priority nominated (ag_pairs a1) of
        Some (pair, pairs) \<Rightarrow>
          (let (events, a2) = select_pair nominated pair (a1\<lparr>ag_pairs := pairs\<rparr>) in (Inr events, a2))
      | None \<Rightarrow>
          if length (ag_pairs a1) \<ge> cf_max_candidate_pairs (ag_configuration a1)
          then (Inl CandidatePairLimit, a1)
          else
            let pair = \<lparr>cp_local = loc, cp_remote = remote, cp_priority = priority, cp_nominated = nominated,
                        cp_last_authenticated = now\<rparr>;
                (events, a2) = select_pair nominated pair (a1\<lparr>ag_pairs := ag_pairs a1 @ [pair]\<rparr>)
            in (Inr events, a2))"

definition transition :: "ice_state \<Rightarrow> agent \<Rightarrow> ice_event list \<times> agent" where
  "transition target a =
     (if ag_state a = target then ([], a)
      else ([StateChanged (ag_state a) target], a\<lparr>ag_state := target\<rparr>))"

definition transition_after_check :: "bool \<Rightarrow> agent \<Rightarrow> ice_event list \<times> agent" where
  "transition_after_check nominated a =
     transition (if nominated \<or> ag_selected_pair a \<noteq> None then IceCompleted else IceConnected) a"

definition handle_check ::
    "stun_crypto \<Rightarrow> duration \<Rightarrow> socket_addr \<Rightarrow> socket_addr \<Rightarrow> stun_message \<Rightarrow> integrity_algorithm \<Rightarrow> agent \<Rightarrow>
     (ice_error, handle_output) result \<times> agent" where
  "handle_check cr now loc remote m algorithm a =
     (case bind_r (map_err IceStun (msg_priority m)) (ok_or MissingPriority) of
        Inl e \<Rightarrow> (Inl e, a)
      | Inr priority \<Rightarrow>
          let nominated = msg_use_candidate m in
          (case record_valid_pair now loc remote priority nominated a of
             (Inl e, a1) \<Rightarrow> (Inl e, a1)
           | (Inr events, a1) \<Rightarrow>
               (case success_response cr a1 m remote algorithm of
                  Inl e \<Rightarrow> (Inl e, a1)
                | Inr payload \<Rightarrow>
                    let (changes, a2) = transition_after_check nominated a1 in
                    (Inr \<lparr>ho_transmit = \<lparr>tm_source = loc, tm_destination = remote, tm_payload = payload\<rparr>,
                          ho_events = events @ changes\<rparr>, a2))))"

definition handle_datagram ::
    "stun_crypto \<Rightarrow> duration \<Rightarrow> socket_addr \<Rightarrow> socket_addr \<Rightarrow> bytes \<Rightarrow> agent \<Rightarrow>
     (ice_error, handle_output) result \<times> agent" where
  "handle_datagram cr now loc remote input a =
     (if ag_state a = IceFailed then (Inl RestartRequired, a)
      else
        case bind_r (map_err IceStun (message_parse input)) (\<lambda>m.
             bind_r (validate_message_type m) (\<lambda>_.
             bind_r (ice_authenticate cr a m) (\<lambda>algorithm.
             bind_r (semantic_error_response cr a m algorithm loc remote) (\<lambda>out. Inr (m, algorithm, out))))) of
          Inl e \<Rightarrow> (Inl e, a)
        | Inr (m, algorithm, Some out) \<Rightarrow> (Inr out, a)
        | Inr (m, algorithm, None) \<Rightarrow> handle_check cr now loc remote m algorithm a)"

definition ice_tick :: "duration \<Rightarrow> agent \<Rightarrow> ice_event list \<times> agent" where
  "ice_tick now a =
     (case ag_last_authenticated a of
        None \<Rightarrow> ([], a)
      | Some last_authenticated \<Rightarrow>
          let elapsed = now - last_authenticated in
          if elapsed \<ge> cf_failure_timeout (ag_configuration a) then transition IceFailed a
          else if elapsed \<ge> cf_consent_timeout (ag_configuration a) then transition IceDisconnected a
          else ([], a))"

section \<open>Replies\<close>

fun key_accepted :: "stun_crypto \<Rightarrow> integrity_algorithm \<Rightarrow> bytes \<Rightarrow> bool" where
  "key_accepted cr AlgSha1 key \<longleftrightarrow> st_hmac_sha1 cr key \<noteq> None"
| "key_accepted cr AlgSha256 key \<longleftrightarrow> st_hmac_sha256 cr key \<noteq> None"

fun verified_with :: "stun_crypto \<Rightarrow> integrity_algorithm \<Rightarrow> stun_message \<Rightarrow> bytes \<Rightarrow> bool" where
  "verified_with cr AlgSha1 m key \<longleftrightarrow> verify_message_integrity_sha1 cr m key = Inr ()"
| "verified_with cr AlgSha256 m key \<longleftrightarrow> verify_message_integrity_sha256 cr m key = Inr ()"

lemma verified_key_accepted: "verified_with cr alg m key \<Longrightarrow> key_accepted cr alg key"
  by (cases alg)
    (auto simp: verify_message_integrity_sha1_def verify_message_integrity_sha256_def bind_r_eq_Inr ok_or_eq_Inr)

text \<open>What an accepted check has shown: the username of this generation, a MAC under the local
  password, and a correct fingerprint if there is one.\<close>

definition authentic :: "stun_crypto \<Rightarrow> agent \<Rightarrow> stun_message \<Rightarrow> integrity_algorithm \<Rightarrow> bool" where
  "authentic cr a m alg \<longleftrightarrow>
     msg_username m = Inr (Some (expected_username a)) \<and> verified_with cr alg m (local_password a) \<and>
     (attribute m FINGERPRINT \<noteq> None \<longrightarrow> verify_fingerprint cr m = Inr ()) \<and>
     alg = (if attribute m MESSAGE_INTEGRITY_SHA256 \<noteq> None then AlgSha256 else AlgSha1)"

lemma unit_result: "(m :: ('e, unit) result) = Inr u \<longleftrightarrow> m = Inr ()"
  by simp

lemma ice_authenticate_eq: "ice_authenticate cr a m = Inr alg \<longleftrightarrow> authentic cr a m alg"
  unfolding ice_authenticate_def authentic_def
  by (cases "attribute m MESSAGE_INTEGRITY_SHA256"; cases "attribute m FINGERPRINT")
    (auto simp: bind_r_eq_Inr map_err_eq_Inr)

lemma signed_build_ok:
  assumes "key_accepted cr alg key" and "mb_integrity b = None"
    and "length (attributes_bytes (mb_attributes b)) + 44 < 65536"
  shows "\<exists>bs. message_build cr (with_fingerprint (add_integrity b alg key)) = Inr bs"
  using assms
  by (cases alg)
    (auto simp: message_build_eq built_attributes_def add_integrity_def with_fingerprint_def
      with_integrity_sha1_def with_integrity_sha256_def fingerprint_attribute_def
      length_attribute_bytes_word Let_def)

definition signed_reply :: "stun_crypto \<Rightarrow> agent \<Rightarrow> stun_message \<Rightarrow> integrity_algorithm \<Rightarrow> stun_message \<Rightarrow> bool" where
  "signed_reply cr a m alg reply \<longleftrightarrow>
     mt_method (ms_kind reply) = BINDING \<and> ms_transaction_id reply = ms_transaction_id m \<and>
     verified_with cr alg reply (local_password a) \<and> verify_fingerprint cr reply = Inr ()"

lemma signed_build_parsed:
  assumes "key_accepted cr alg (local_password a)"
    and b: "mb_message_type b = \<lparr>mt_method = BINDING, mt_class = cl\<rparr>" "mb_transaction_id b = ms_transaction_id m"
      "mb_integrity b = None"
    and plain: "\<forall>x\<in>set (mb_attributes b). plain_attribute x"
    and len: "length (attributes_bytes (mb_attributes b)) + 44 < 65536"
  shows "\<exists>bs reply. message_build cr (with_fingerprint (add_integrity b alg (local_password a))) = Inr bs \<and>
     message_parse bs = Inr reply \<and> signed_reply cr a m alg reply \<and> mt_class (ms_kind reply) = cl \<and>
     content reply = mb_attributes b"
proof -
  let ?b = "with_fingerprint (add_integrity b alg (local_password a))"
  obtain bs where bs: "message_build cr ?b = Inr bs" using signed_build_ok [OF assms(1) b(3) len] by blast
  have f: "mb_message_type ?b = mb_message_type b" "mb_transaction_id ?b = mb_transaction_id b"
    "mb_attributes ?b = mb_attributes b" "mb_fingerprint ?b"
    "mb_integrity ?b = Some (case alg of AlgSha1 \<Rightarrow> Sha1Key (local_password a) | AlgSha256 \<Rightarrow> Sha256Key (local_password a))"
    by (cases alg; simp add: with_fingerprint_def add_integrity_def with_integrity_sha1_def with_integrity_sha256_def)+
  obtain reply where reply: "message_parse bs = Inr reply" "reads_back cr ?b reply"
    by (rule stun_build_parse [OF bs]) (simp_all add: f b plain BINDING_def)
  have "signed_reply cr a m alg reply"
    using reply(2) f b by (cases alg) (simp_all add: reads_back_def signed_reply_def)
  moreover have "content reply = mb_attributes b" using reads_back_content [OF reply(2)] f by simp
  moreover have "mt_class (ms_kind reply) = cl" using reply(2) f b by (simp add: reads_back_def)
  ultimately show ?thesis using bs reply(1) by blast
qed

lemma length_xor_address: "length (encode_xor_address x t) = 8 \<or> length (encode_xor_address x t) = 20"
  by (cases x) simp_all

lemma plain_xor_mapped: "plain_attribute (XOR_MAPPED_ADDRESS, encode_xor_address x t)"
  using length_xor_address [of x t] by (auto simp: plain_attribute_def check_attribute_def)

lemma success_response_ok:
  assumes "key_accepted cr alg (local_password a)"
  shows "\<exists>bs reply. success_response cr a m remote alg = Inr bs \<and> message_parse bs = Inr reply \<and>
     signed_reply cr a m alg reply \<and> mt_class (ms_kind reply) = SuccessResponse \<and>
     msg_xor_mapped_address reply = Inr (Some (on_wire remote))"
proof -
  let ?v = "encode_xor_address remote (ms_transaction_id m)"
  let ?b = "add_xor_mapped_address remote (builder_new \<lparr>mt_method = BINDING, mt_class = SuccessResponse\<rparr> (ms_transaction_id m))"
  have b: "mb_message_type ?b = \<lparr>mt_method = BINDING, mt_class = SuccessResponse\<rparr>"
    "mb_transaction_id ?b = ms_transaction_id m" "mb_integrity ?b = None"
    "mb_attributes ?b = [(XOR_MAPPED_ADDRESS, ?v)]"
    by (simp_all add: add_xor_mapped_address_def add_xor_address_def add_raw_attribute_def builder_new_def)
  have "length (attribute_bytes (XOR_MAPPED_ADDRESS, ?v)) \<le> 24"
    using length_xor_address [of remote "ms_transaction_id m"] by (auto simp: length_attribute_bytes pad4_def)
  then obtain bs reply where r: "message_build cr (with_fingerprint (add_integrity ?b alg (local_password a))) = Inr bs"
    "message_parse bs = Inr reply" "signed_reply cr a m alg reply" "mt_class (ms_kind reply) = SuccessResponse"
    "content reply = mb_attributes ?b"
    using signed_build_parsed [OF assms b(1,2,3)] plain_xor_mapped b(4) by fastforce
  have "map_option ra_value (attribute reply XOR_MAPPED_ADDRESS) = Some ?v"
    using attribute_content [of XOR_MAPPED_ADDRESS reply] r(5) b(4) by simp
  then obtain x where x: "attribute reply XOR_MAPPED_ADDRESS = Some x" "ra_value x = ?v" by auto
  have "ms_transaction_id reply = ms_transaction_id m" using r(3) by (simp add: signed_reply_def)
  with x have "msg_xor_mapped_address reply = Inr (Some (on_wire remote))"
    by (simp add: msg_xor_mapped_address_def msg_xor_address_def convert_attribute_def xor_address_roundtrip del: XOR_MAPPED_ADDRESS_def)
  with r show ?thesis by (auto simp: success_response_def Let_def)
qed

text \<open>The three errors the agent can report.\<close>

definition error_reply ::
    "stun_crypto \<Rightarrow> agent \<Rightarrow> stun_message \<Rightarrow> integrity_algorithm \<Rightarrow> socket_addr \<Rightarrow> socket_addr \<Rightarrow> u16 \<Rightarrow> handle_output \<Rightarrow> bool" where
  "error_reply cr a m alg loc remote code out \<longleftrightarrow>
     (\<exists>payload reply reason.
        out = \<lparr>ho_transmit = \<lparr>tm_source = loc, tm_destination = remote, tm_payload = payload\<rparr>, ho_events = []\<rparr> \<and>
        message_parse payload = Inr reply \<and> signed_reply cr a m alg reply \<and>
        mt_class (ms_kind reply) = ErrorResponse \<and> msg_error_code reply = Inr (Some (code, reason)))"

lemma plain_simple:
  "plain_attribute (ERROR_CODE, v)" "plain_attribute (UNKNOWN_ATTRIBUTES, v)"
  "plain_attribute (ICE_CONTROLLED, to_be (x :: u64))"
  by (simp_all add: plain_attribute_def check_attribute_def require_len_def)

lemma error_builder_ok:
  assumes "300 \<le> code" and "code \<le> 699" and "str_len reason \<le> 759"
  shows "error_builder i code reason =
     Inr (add_raw_attribute ERROR_CODE ([0, 0, ucast (code div 100)] @ [ucast (code mod 100)] @ str_bytes reason)
       (builder_new \<lparr>mt_method = BINDING, mt_class = ErrorResponse\<rparr> i))"
  using code_digits(1,2) [OF assms(1,2)] assms(3)
  by (simp add: error_builder_def add_error_code_def Let_def)

lemma error_output_ok:
  assumes key: "key_accepted cr alg (local_password a)"
    and code: "300 \<le> code" "code \<le> 699" and reason: "str_len reason \<le> 759" "\<forall>c\<in>set reason. is_scalar c"
    and b: "b = add_raw_attribute ERROR_CODE ([0, 0, ucast (code div 100)] @ [ucast (code mod 100)] @ str_bytes reason)
       (builder_new \<lparr>mt_method = BINDING, mt_class = ErrorResponse\<rparr> (ms_transaction_id m))"
    and b': "b' = b\<lparr>mb_attributes := mb_attributes b @ xs\<rparr>"
    and xs: "\<forall>x\<in>set xs. plain_attribute x" "length (attributes_bytes xs) \<le> 64000"
  shows "\<exists>out. error_output cr a b' alg loc remote = Inr out \<and> error_reply cr a m alg loc remote code out"
proof -
  let ?v = "[0, 0, ucast (code div 100)] @ [ucast (code mod 100)] @ str_bytes reason"
  have b1: "mb_message_type b' = \<lparr>mt_method = BINDING, mt_class = ErrorResponse\<rparr>"
    "mb_transaction_id b' = ms_transaction_id m" "mb_integrity b' = None"
    "mb_attributes b' = (ERROR_CODE, ?v) # xs"
    by (simp_all add: b b' add_raw_attribute_def builder_new_def)
  have "\<forall>x\<in>set (mb_attributes b'). plain_attribute x"
    using xs(1) plain_simple(1) by (simp add: b1(4) del: ERROR_CODE_def)
  moreover have "length (attributes_bytes (mb_attributes b')) + 44 < 65536"
    using xs(2) reason(1) pad4_less [of "length ?v"] by (simp add: b1(4) length_attribute_bytes str_len_def)
  ultimately obtain bs reply where r: "message_build cr (with_fingerprint (add_integrity b' alg (local_password a))) = Inr bs"
    "message_parse bs = Inr reply" "signed_reply cr a m alg reply" "mt_class (ms_kind reply) = ErrorResponse"
    "content reply = mb_attributes b'"
    using signed_build_parsed [OF key b1(1,2,3)] by blast
  have "msg_error_code reply = Inr (Some (code, reason))"
    by (rule error_code_roundtrip [OF _ code reason(2)]) (simp add: r(5) b1(4))
  with r show ?thesis by (auto simp: error_output_def error_reply_def)
qed

lemma u64_attribute_total:
  assumes "\<And>x. attribute m t = Some x \<Longrightarrow> length (ra_value x) = 8"
  shows "\<exists>v. u64_attribute m t = Inr v \<and> (v = None \<longleftrightarrow> attribute m t = None)"
proof (cases "attribute m t")
  case None
  then show ?thesis by (simp add: u64_attribute_def convert_attribute_def)
next
  case (Some x)
  have "rc_rest (rc_new (ra_value x)) = to_be (from_be (ra_value x) :: u64) @ []"
    using assms [OF Some] by (simp add: be64.enc_dec)
  then obtain c where "rc_read_u64 (rc_new (ra_value x)) = (Inr (from_be (ra_value x)), c)" "rc_wf c" "rc_rest c = []"
    using rc_read_be_ok [of "rc_new (ra_value x)" "from_be (ra_value x) :: u64" "[]"] by (auto simp: rc_read_u64_def)
  then show ?thesis by (simp add: u64_attribute_def convert_attribute_def Some rc_empty_iff)
qed

lemma u32_attribute_total:
  assumes "\<And>x. attribute m t = Some x \<Longrightarrow> length (ra_value x) = 4"
  shows "\<exists>v. u32_attribute m t = Inr v \<and> (v = None \<longleftrightarrow> attribute m t = None)"
proof (cases "attribute m t")
  case None
  then show ?thesis by (simp add: u32_attribute_def convert_attribute_def)
next
  case (Some x)
  then have "ra_value x = to_be (from_be (ra_value x) :: u32)" using assms by (simp add: be32.enc_dec)
  then have "read_exact_u32 (ra_value x) t = Inr (from_be (ra_value x))" by (metis read_exact_u32_be)
  then show ?thesis by (simp add: u32_attribute_def convert_attribute_def Some)
qed

lemma parsed_values:
  assumes "message_parse bs = Inr m"
  shows "\<exists>v. msg_ice_controlling m = Inr v \<and> (v = None \<longleftrightarrow> attribute m ICE_CONTROLLING = None)"
    and "\<exists>v. msg_ice_controlled m = Inr v \<and> (v = None \<longleftrightarrow> attribute m ICE_CONTROLLED = None)"
    and "\<exists>v. msg_priority m = Inr v \<and> (v = None \<longleftrightarrow> attribute m PRIORITY = None)"
  unfolding msg_ice_controlling_def msg_ice_controlled_def msg_priority_def
  by (rule u64_attribute_total, erule parsed_lengths [OF assms])+
    (rule u32_attribute_total, erule parsed_lengths [OF assms])

text \<open>A check the agent accepts, and the error code for the others.\<close>

definition valid_check :: "stun_message \<Rightarrow> bool" where
  "valid_check m \<longleftrightarrow> unknown_required_attributes m = [] \<and> attribute m ICE_CONTROLLING \<noteq> None \<and>
     attribute m ICE_CONTROLLED = None \<and> attribute m PRIORITY \<noteq> None"

definition check_error :: "stun_message \<Rightarrow> u16" where
  "check_error m =
     (if unknown_required_attributes m \<noteq> [] then 420
      else if attribute m ICE_CONTROLLED \<noteq> None \<or> attribute m ICE_CONTROLLING = None then 487 else 400)"

lemma str_lit_ok:
  "str_len (str_lit ''Unknown Attribute'') \<le> 759" "\<forall>c\<in>set (str_lit ''Unknown Attribute''). is_scalar c"
  "str_len (str_lit ''Role Conflict'') \<le> 759" "\<forall>c\<in>set (str_lit ''Role Conflict''). is_scalar c"
  "str_len (str_lit ''Bad Request'') \<le> 759" "\<forall>c\<in>set (str_lit ''Bad Request''). is_scalar c"
  by (simp_all add: str_len_def str_bytes_def str_lit_def utf8_char_def is_scalar_def)

lemma length_unknown: "length (unknown_required_attributes m) \<le> length (ms_attributes m)"
  unfolding unknown_required_attributes_def by (metis length_filter_le length_map)

lemma length_concat_u16: "length (concat (map to_be (ws :: u16 list))) = 2 * length ws"
  by (induction ws) simp_all

lemma unknown_small:
  assumes "message_parse bs = Inr m"
  shows "length (attributes_bytes [(UNKNOWN_ATTRIBUTES,
     concat (map to_be (remdups_adj (sort (unknown_required_attributes m)))))]) \<le> 64000"
proof -
  let ?ws = "remdups_adj (sort (unknown_required_attributes m))"
  have "length ?ws \<le> length (ms_attributes m)"
    using remdups_adj_length [of "sort (unknown_required_attributes m)"] length_unknown [of m] by simp
  then have "2 * length ?ws \<le> 32768" using parsed_attribute_count [OF assms] by simp
  then show ?thesis using pad4_less [of "2 * length ?ws"] by (simp add: length_attribute_bytes length_concat_u16)
qed

lemma semantic_error_response_ok:
  assumes key: "key_accepted cr alg (local_password a)" and m: "message_parse bs = Inr m"
  shows "if valid_check m then semantic_error_response cr a m alg loc remote = Inr None
     else \<exists>out. semantic_error_response cr a m alg loc remote = Inr (Some out) \<and>
            error_reply cr a m alg loc remote (check_error m) out"
proof -
  let ?B = "\<lambda>(code :: u16) reason. add_raw_attribute ERROR_CODE ([0, 0, ucast (code div 100)] @ [ucast (code mod 100)] @ str_bytes reason)
       (builder_new \<lparr>mt_method = BINDING, mt_class = ErrorResponse\<rparr> (ms_transaction_id m))"
  from parsed_values(1) [OF m] obtain cg where cg: "msg_ice_controlling m = Inr cg" "cg = None \<longleftrightarrow> attribute m ICE_CONTROLLING = None"
    by (elim exE conjE)
  from parsed_values(2) [OF m] obtain cd where cd: "msg_ice_controlled m = Inr cd" "cd = None \<longleftrightarrow> attribute m ICE_CONTROLLED = None"
    by (elim exE conjE)
  from parsed_values(3) [OF m] obtain pr where pr: "msg_priority m = Inr pr" "pr = None \<longleftrightarrow> attribute m PRIORITY = None"
    by (elim exE conjE)
  consider "unknown_required_attributes m \<noteq> []"
    | "unknown_required_attributes m = []" "cd \<noteq> None \<or> cg = None"
    | "unknown_required_attributes m = []" "cd = None" "cg \<noteq> None" "pr = None" | "valid_check m"
    using cg(2) cd(2) pr(2) unfolding valid_check_def by argo
  then show ?thesis
  proof cases
    case 1
    let ?b = "add_unknown_attributes (unknown_required_attributes m) (?B 420 (str_lit ''Unknown Attribute''))"
    let ?xs = "[(UNKNOWN_ATTRIBUTES, concat (map to_be (remdups_adj (sort (unknown_required_attributes m)))))]"
    have "\<exists>out. error_output cr a ?b alg loc remote = Inr out \<and> error_reply cr a m alg loc remote 420 out"
    proof (rule error_output_ok [OF key _ _ str_lit_ok(1,2) refl, where xs = ?xs])
      show "\<forall>x\<in>set ?xs. plain_attribute x" using plain_simple(2) by (simp del: UNKNOWN_ATTRIBUTES_def)
      show "length (attributes_bytes ?xs) \<le> 64000" by (rule unknown_small [OF m])
    qed (simp_all add: add_unknown_attributes_def add_raw_attribute_def)
    then obtain out where "error_output cr a ?b alg loc remote = Inr out" "error_reply cr a m alg loc remote 420 out"
      by blast
    with 1 show ?thesis
      using error_builder_ok [of 420, OF _ _ str_lit_ok(1)]
      by (simp add: semantic_error_response_def Let_def valid_check_def check_error_def)
  next
    case 2
    let ?b = "add_ice_controlled (cf_tie_breaker (ag_configuration a)) (?B 487 (str_lit ''Role Conflict''))"
    let ?xs = "[(ICE_CONTROLLED, to_be (cf_tie_breaker (ag_configuration a)))]"
    have "\<exists>out. error_output cr a ?b alg loc remote = Inr out \<and> error_reply cr a m alg loc remote 487 out"
    proof (rule error_output_ok [OF key _ _ str_lit_ok(3,4) refl, where xs = ?xs])
      show "\<forall>x\<in>set ?xs. plain_attribute x" using plain_simple(3) by (simp del: ICE_CONTROLLED_def)
    qed (simp_all add: add_ice_controlled_def add_raw_attribute_def length_attribute_bytes pad4_def)
    then obtain out where "error_output cr a ?b alg loc remote = Inr out" "error_reply cr a m alg loc remote 487 out"
      by blast
    then have "semantic_error_response cr a m alg loc remote = Inr (Some out)"
      using error_builder_ok [of 487, OF _ _ str_lit_ok(3)] 2
      by (simp add: semantic_error_response_def Let_def cg(1) cd(1))
    moreover have "\<not> valid_check m" and "check_error m = 487"
      using 2 cg(2) cd(2) by (auto simp: valid_check_def check_error_def)
    ultimately show ?thesis using \<open>error_reply cr a m alg loc remote 487 out\<close> by simp
  next
    case 3
    let ?b = "?B 400 (str_lit ''Bad Request'')"
    have "\<exists>out. error_output cr a ?b alg loc remote = Inr out \<and> error_reply cr a m alg loc remote 400 out"
      by (rule error_output_ok [OF key _ _ str_lit_ok(5,6) refl, where xs = "[]"]) simp_all
    then obtain out where "error_output cr a ?b alg loc remote = Inr out" "error_reply cr a m alg loc remote 400 out"
      by blast
    then have "semantic_error_response cr a m alg loc remote = Inr (Some out)"
      using error_builder_ok [of 400, OF _ _ str_lit_ok(5)] 3
      by (auto simp: semantic_error_response_def Let_def cg(1) cd(1) pr(1))
    moreover have "\<not> valid_check m" and "check_error m = 400"
      using 3 cg(2) cd(2) pr(2) by (auto simp: valid_check_def check_error_def)
    ultimately show ?thesis using \<open>error_reply cr a m alg loc remote 400 out\<close> by simp
  next
    case 4
    then have "cg \<noteq> None" "cd = None" "pr \<noteq> None" "unknown_required_attributes m = []"
      using cg(2) cd(2) pr(2) by (auto simp: valid_check_def)
    then have "semantic_error_response cr a m alg loc remote = Inr None"
      by (auto simp: semantic_error_response_def Let_def cg(1) cd(1) pr(1))
    with 4 show ?thesis by simp
  qed
qed

section \<open>Candidate pairs\<close>

abbreviation endpoints :: "candidate_pair \<Rightarrow> socket_addr \<times> socket_addr" where
  "endpoints p \<equiv> (cp_local p, cp_remote p)"

definition pair_now :: "duration \<Rightarrow> socket_addr \<Rightarrow> socket_addr \<Rightarrow> u32 \<Rightarrow> candidate_pair \<Rightarrow> bool" where
  "pair_now now loc remote priority p \<longleftrightarrow>
     endpoints p = (loc, remote) \<and> cp_priority p = priority \<and> cp_last_authenticated p = now"

lemma refresh_pair_None:
  "refresh_pair now loc remote priority nominated ps = None \<longleftrightarrow> (loc, remote) \<notin> endpoints ` set ps"
  by (induction ps) (auto simp: Let_def)

lemma refresh_pair_Some:
  assumes "refresh_pair now loc remote priority nominated ps = Some (q, qs)"
  shows "map endpoints qs = map endpoints ps" and "q \<in> set qs" and "pair_now now loc remote priority q"
    and "nominated \<Longrightarrow> cp_nominated q"
    and "\<forall>p\<in>set ps. \<exists>p'\<in>set qs. endpoints p' = endpoints p \<and> (cp_nominated p \<longrightarrow> cp_nominated p')"
proof -
  have "map endpoints qs = map endpoints ps \<and> q \<in> set qs \<and> pair_now now loc remote priority q \<and>
      (nominated \<longrightarrow> cp_nominated q) \<and>
      (\<forall>p\<in>set ps. \<exists>p'\<in>set qs. endpoints p' = endpoints p \<and> (cp_nominated p \<longrightarrow> cp_nominated p'))"
    using assms
  proof (induction ps arbitrary: qs)
    case Nil
    then show ?case by simp
  next
    case (Cons p ps)
    show ?case
    proof (cases "cp_local p = loc \<and> cp_remote p = remote")
      case True
      with Cons.prems show ?thesis by (auto simp: Let_def pair_now_def)
    next
      case False
      with Cons.prems obtain rs where "refresh_pair now loc remote priority nominated ps = Some (q, rs)" "qs = p # rs"
        by auto
      with Cons.IH show ?thesis by auto
    qed
  qed
  then show "map endpoints qs = map endpoints ps" "q \<in> set qs" "pair_now now loc remote priority q"
    "nominated \<Longrightarrow> cp_nominated q"
    "\<forall>p\<in>set ps. \<exists>p'\<in>set qs. endpoints p' = endpoints p \<and> (cp_nominated p \<longrightarrow> cp_nominated p')"
    by simp_all
qed

text \<open>A check that is refused because its pair does not fit still counts as consent.\<close>

lemma refused_pair_renews_consent:
  assumes "(loc, remote) \<notin> endpoints ` set (ag_pairs a)"
    and "cf_max_candidate_pairs (ag_configuration a) \<le> length (ag_pairs a)"
  shows "record_valid_pair now loc remote priority nominated a =
     (Inl CandidatePairLimit, a\<lparr>ag_last_authenticated := Some now\<rparr>)"
  using assms refresh_pair_None [of now loc remote priority nominated "ag_pairs a"]
  by (simp add: record_valid_pair_def Let_def)

section \<open>Invariant\<close>

text \<open>On the fields the invariant depends on: the state, the limit, the pairs, the selection.\<close>

definition pairs_inv :: "nat \<Rightarrow> candidate_pair list \<Rightarrow> candidate_pair option \<Rightarrow> bool" where
  "pairs_inv limit pairs selected \<longleftrightarrow>
     length pairs \<le> limit \<and> distinct (map endpoints pairs) \<and>
     (case selected of None \<Rightarrow> True
      | Some p \<Rightarrow> cp_nominated p \<and> (\<exists>q\<in>set pairs. endpoints q = endpoints p \<and> cp_nominated q))"

definition state_inv :: "ice_state \<Rightarrow> candidate_pair list \<Rightarrow> candidate_pair option \<Rightarrow> duration option \<Rightarrow> bool" where
  "state_inv st pairs selected authenticated \<longleftrightarrow>
     (st = IceNew \<longrightarrow> pairs = [] \<and> selected = None) \<and>
     (st = IceConnected \<longrightarrow> pairs \<noteq> [] \<and> selected = None) \<and>
     (st = IceCompleted \<longrightarrow> selected \<noteq> None) \<and>
     (authenticated = None \<longrightarrow> st = IceNew)"

definition agent_inv :: "agent \<Rightarrow> bool" where
  "agent_inv a \<longleftrightarrow>
     pairs_inv (cf_max_candidate_pairs (ag_configuration a)) (ag_pairs a) (ag_selected_pair a) \<and>
     state_inv (ag_state a) (ag_pairs a) (ag_selected_pair a) (ag_last_authenticated a)"

text \<open>What recording a pair does.\<close>

lemma record_valid_pair_cases:
  assumes "record_valid_pair now loc remote priority nominated a = (r, a')"
  obtains (limit) "r = Inl CandidatePairLimit" "a' = a\<lparr>ag_last_authenticated := Some now\<rparr>"
      "(loc, remote) \<notin> endpoints ` set (ag_pairs a)"
      "length (ag_pairs a) \<ge> cf_max_candidate_pairs (ag_configuration a)"
    | (recorded) events pair pairs where "r = Inr events" "pair_now now loc remote priority pair" "pair \<in> set pairs"
      "a' = a\<lparr>ag_last_authenticated := Some now, ag_pairs := pairs,
              ag_selected_pair := if nominated then Some pair else ag_selected_pair a\<rparr>"
      "nominated \<Longrightarrow> cp_nominated pair"
      "events = (if nominated \<and> ag_selected_pair a \<noteq> Some pair then [SelectedPair pair] else [])"
      "map endpoints pairs = map endpoints (ag_pairs a) \<or>
       (loc, remote) \<notin> endpoints ` set (ag_pairs a) \<and>
       length (ag_pairs a) < cf_max_candidate_pairs (ag_configuration a) \<and> pairs = ag_pairs a @ [pair]"
      "\<forall>p\<in>set (ag_pairs a). \<exists>p'\<in>set pairs. endpoints p' = endpoints p \<and> (cp_nominated p \<longrightarrow> cp_nominated p')"
proof (cases "refresh_pair now loc remote priority nominated (ag_pairs a)")
  case None
  note new = None [unfolded refresh_pair_None]
  show ?thesis
  proof (cases "length (ag_pairs a) \<ge> cf_max_candidate_pairs (ag_configuration a)")
    case True
    with assms limit new show ?thesis by (simp add: record_valid_pair_def Let_def None)
  next
    case False
    let ?p = "\<lparr>cp_local = loc, cp_remote = remote, cp_priority = priority, cp_nominated = nominated, cp_last_authenticated = now\<rparr>"
    show ?thesis
      by (rule recorded [of "if nominated \<and> ag_selected_pair a \<noteq> Some ?p then [SelectedPair ?p] else []" ?p "ag_pairs a @ [?p]"])
        (use new False assms in \<open>auto simp: record_valid_pair_def Let_def select_pair_def None pair_now_def
          split: if_splits\<close>)
  qed
next
  case (Some qr)
  obtain q qs where qr: "qr = (q, qs)" by fastforce
  note f = refresh_pair_Some [OF Some [unfolded qr]]
  show ?thesis
    by (rule recorded [of "if nominated \<and> ag_selected_pair a \<noteq> Some q then [SelectedPair q] else []" q qs])
      (use f Some qr assms in \<open>auto simp: record_valid_pair_def Let_def select_pair_def split: if_splits\<close>)
qed

section \<open>Handling a datagram\<close>

definition checked :: "stun_crypto \<Rightarrow> agent \<Rightarrow> bytes \<Rightarrow> stun_message \<Rightarrow> integrity_algorithm \<Rightarrow> bool" where
  "checked cr a input m alg \<longleftrightarrow>
     ag_state a \<noteq> IceFailed \<and> message_parse input = Inr m \<and>
     ms_kind m = \<lparr>mt_method = BINDING, mt_class = Request\<rparr> \<and> authentic cr a m alg"

lemma validate_message_type_eq:
  "validate_message_type m = Inr u \<longleftrightarrow> ms_kind m = \<lparr>mt_method = BINDING, mt_class = Request\<rparr>"
  by (cases "ms_kind m") (auto simp: validate_message_type_def)

lemma checked_key: "checked cr a input m alg \<Longrightarrow> key_accepted cr alg (local_password a)"
  by (auto simp: checked_def authentic_def dest: verified_key_accepted)

lemma handle_unchecked:
  assumes "\<nexists>m alg. checked cr a input m alg"
  shows "\<exists>e. handle_datagram cr now loc remote input a = (Inl e, a)"
proof (cases "ag_state a = IceFailed")
  case True
  then show ?thesis by (simp add: handle_datagram_def)
next
  case False
  let ?r = "bind_r (map_err IceStun (message_parse input)) (\<lambda>m. bind_r (validate_message_type m) (\<lambda>_.
     bind_r (ice_authenticate cr a m) (\<lambda>alg. bind_r (semantic_error_response cr a m alg loc remote) (\<lambda>out. Inr (m, alg, out)))))"
  have "?r \<noteq> Inr x" for x
  proof
    assume "?r = Inr x"
    then obtain m alg where "message_parse input = Inr m" "validate_message_type m = Inr ()" "ice_authenticate cr a m = Inr alg"
      by (auto simp: bind_r_eq_Inr map_err_eq_Inr)
    then have "checked cr a input m alg"
      using False by (simp add: checked_def ice_authenticate_eq validate_message_type_eq)
    with assms show False by blast
  qed
  then obtain e where "?r = Inl e" by (cases ?r) auto
  with False show ?thesis by (simp add: handle_datagram_def)
qed

lemma handle_checked:
  assumes "checked cr a input m alg"
  shows "handle_datagram cr now loc remote input a =
     (case semantic_error_response cr a m alg loc remote of
        Inl e \<Rightarrow> (Inl e, a) | Inr (Some out) \<Rightarrow> (Inr out, a)
      | Inr None \<Rightarrow> handle_check cr now loc remote m alg a)"
proof -
  from assms have "ice_authenticate cr a m = Inr alg" "validate_message_type m = Inr ()"
    "message_parse input = Inr m" "ag_state a \<noteq> IceFailed"
    by (simp_all add: checked_def ice_authenticate_eq validate_message_type_eq)
  then show ?thesis
    by (cases "semantic_error_response cr a m alg loc remote") (auto simp: handle_datagram_def split: option.splits)
qed

lemma handle_invalid:
  assumes "checked cr a input m alg" and "\<not> valid_check m"
  shows "\<exists>out. handle_datagram cr now loc remote input a = (Inr out, a) \<and>
     error_reply cr a m alg loc remote (check_error m) out"
proof -
  have "message_parse input = Inr m" using assms(1) by (simp add: checked_def)
  from semantic_error_response_ok [OF checked_key [OF assms(1)] this, of loc remote] assms(2)
  obtain out where "semantic_error_response cr a m alg loc remote = Inr (Some out)"
    "error_reply cr a m alg loc remote (check_error m) out" by auto
  then show ?thesis by (simp add: handle_checked [OF assms(1)])
qed

text \<open>The answer to a valid check.\<close>

definition success_reply ::
    "stun_crypto \<Rightarrow> agent \<Rightarrow> stun_message \<Rightarrow> integrity_algorithm \<Rightarrow> socket_addr \<Rightarrow> socket_addr \<Rightarrow> transmit \<Rightarrow> bool" where
  "success_reply cr a m alg loc remote tm \<longleftrightarrow>
     tm_source tm = loc \<and> tm_destination tm = remote \<and>
     (\<exists>reply. message_parse (tm_payload tm) = Inr reply \<and> signed_reply cr a m alg reply \<and>
        mt_class (ms_kind reply) = SuccessResponse \<and>
        msg_xor_mapped_address reply = Inr (Some (on_wire remote)))"

lemma record_keeps_configuration:
  "record_valid_pair now loc remote priority nominated a = (r, a') \<Longrightarrow> ag_configuration a' = ag_configuration a"
  by (erule record_valid_pair_cases) simp_all

lemma handle_valid:
  assumes "checked cr a input m alg" and "valid_check m"
  obtains (limit) priority a1 where "msg_priority m = Inr (Some priority)"
      "record_valid_pair now loc remote priority (msg_use_candidate m) a = (Inl CandidatePairLimit, a1)"
      "handle_datagram cr now loc remote input a = (Inl CandidatePairLimit, a1)"
    | (answered) priority events a1 tm changes a2 where "msg_priority m = Inr (Some priority)"
      "record_valid_pair now loc remote priority (msg_use_candidate m) a = (Inr events, a1)"
      "transition_after_check (msg_use_candidate m) a1 = (changes, a2)" "success_reply cr a m alg loc remote tm"
      "handle_datagram cr now loc remote input a = (Inr \<lparr>ho_transmit = tm, ho_events = events @ changes\<rparr>, a2)"
proof -
  have m: "message_parse input = Inr m" using assms(1) by (simp add: checked_def)
  note key = checked_key [OF assms(1)]
  from semantic_error_response_ok [OF key m, of loc remote] assms(2)
  have sem: "semantic_error_response cr a m alg loc remote = Inr None" by simp
  from parsed_values(3) [OF m] assms(2) obtain priority where priority: "msg_priority m = Inr (Some priority)"
    by (auto simp: valid_check_def)
  have h: "handle_datagram cr now loc remote input a = handle_check cr now loc remote m alg a"
    by (simp add: handle_checked [OF assms(1)] sem)
  obtain r a1 where rec: "record_valid_pair now loc remote priority (msg_use_candidate m) a = (r, a1)" by fastforce
  show ?thesis
  proof (cases r)
    case (Inl e)
    with rec have "e = CandidatePairLimit" by (auto elim: record_valid_pair_cases)
    with Inl priority rec h limit show ?thesis by (simp add: handle_check_def Let_def)
  next
    case (Inr events)
    have pw: "local_password a1 = local_password a" using record_keeps_configuration [OF rec] by simp
    obtain bs reply where r: "success_response cr a1 m remote alg = Inr bs" "message_parse bs = Inr reply"
      "signed_reply cr a1 m alg reply" "mt_class (ms_kind reply) = SuccessResponse"
      "msg_xor_mapped_address reply = Inr (Some (on_wire remote))"
      using success_response_ok [of cr alg a1 m remote] key pw by auto
    obtain changes a2 where t: "transition_after_check (msg_use_candidate m) a1 = (changes, a2)" by fastforce
    let ?tm = "\<lparr>tm_source = loc, tm_destination = remote, tm_payload = bs\<rparr>"
    have "success_reply cr a m alg loc remote ?tm"
      using r pw by (auto simp: success_reply_def signed_reply_def)
    moreover have "handle_datagram cr now loc remote input a = (Inr \<lparr>ho_transmit = ?tm, ho_events = events @ changes\<rparr>, a2)"
      using rec Inr priority t r(1) by (simp add: h handle_check_def Let_def)
    ultimately show ?thesis using answered priority rec Inr t by blast
  qed
qed

section \<open>Histories\<close>

datatype ice_input =
    Datagram duration socket_addr socket_addr bytes
  | TickAt duration
  | RestartWith configuration

fun ice_step :: "stun_crypto \<Rightarrow> ice_input \<Rightarrow> agent \<Rightarrow> agent" where
  "ice_step cr (Datagram now loc remote input) a = snd (handle_datagram cr now loc remote input a)"
| "ice_step cr (TickAt now) a = snd (ice_tick now a)"
| "ice_step cr (RestartWith c) a = restart c a"

definition ice_run :: "stun_crypto \<Rightarrow> agent \<Rightarrow> ice_input list \<Rightarrow> agent" where
  "ice_run cr a inputs = fold (ice_step cr) inputs a"

lemma agent_inv_new: "agent_inv (agent_new c)"
  by (simp add: agent_inv_def agent_new_def pairs_inv_def state_inv_def)

lemma agent_inv_restart: "agent_inv (restart c a)"
  by (simp add: agent_inv_def restart_def pairs_inv_def state_inv_def)

lemma transition_simps [simp]:
  "ag_state (snd (transition s a)) = s" "ag_pairs (snd (transition s a)) = ag_pairs a"
  "ag_selected_pair (snd (transition s a)) = ag_selected_pair a"
  "ag_last_authenticated (snd (transition s a)) = ag_last_authenticated a"
  "ag_configuration (snd (transition s a)) = ag_configuration a"
  by (auto simp: transition_def)

lemma agent_inv_tick: "agent_inv a \<Longrightarrow> agent_inv (snd (ice_tick now a))"
  by (cases "ag_last_authenticated a") (auto simp: ice_tick_def agent_inv_def state_inv_def Let_def)

lemma pairs_inv_record:
  assumes "pairs_inv limit ps sel" and "pair \<in> set qs" and "nominated \<Longrightarrow> cp_nominated pair"
    and "pair_now now loc remote priority pair"
    and "map endpoints qs = map endpoints ps \<or>
       (loc, remote) \<notin> endpoints ` set ps \<and> length ps < limit \<and> qs = ps @ [pair]"
    and "\<forall>p\<in>set ps. \<exists>p'\<in>set qs. endpoints p' = endpoints p \<and> (cp_nominated p \<longrightarrow> cp_nominated p')"
  shows "pairs_inv limit qs (if nominated then Some pair else sel)"
proof -
  have "length qs \<le> limit \<and> distinct (map endpoints qs)"
    using assms(5)
  proof
    assume e: "map endpoints qs = map endpoints ps"
    have "length qs = length ps" using arg_cong [OF e, of length] by simp
    then show ?thesis using assms(1) by (simp add: e pairs_inv_def)
  next
    assume "(loc, remote) \<notin> endpoints ` set ps \<and> length ps < limit \<and> qs = ps @ [pair]"
    with assms(1,4) show ?thesis by (auto simp: pairs_inv_def pair_now_def)
  qed
  moreover have "case (if nominated then Some pair else sel) of None \<Rightarrow> True
      | Some p \<Rightarrow> cp_nominated p \<and> (\<exists>q\<in>set qs. endpoints q = endpoints p \<and> cp_nominated q)"
  proof (cases nominated)
    case True
    with assms(2,3) show ?thesis by auto
  next
    case False
    show ?thesis
    proof (cases sel)
      case None
      with False show ?thesis by simp
    next
      case (Some p)
      then obtain q where "q \<in> set ps" "endpoints q = endpoints p" "cp_nominated q" "cp_nominated p"
        using assms(1) by (auto simp: pairs_inv_def)
      then have "\<exists>q'\<in>set qs. endpoints q' = endpoints p \<and> cp_nominated q'" using assms(6) by metis
      with False Some \<open>cp_nominated p\<close> show ?thesis by simp
    qed
  qed
  ultimately show ?thesis unfolding pairs_inv_def by blast
qed

lemma agent_inv_recorded:
  assumes "agent_inv a" and "record_valid_pair now loc remote priority nominated a = (Inr events, a1)"
    and "transition_after_check nominated a1 = (changes, a2)"
  shows "agent_inv a2 \<and> ag_state a2 \<in> {IceConnected, IceCompleted} \<and> ag_last_authenticated a2 = Some now \<and>
     (\<exists>p\<in>set (ag_pairs a2). pair_now now loc remote priority p)"
  using assms(2)
proof (cases rule: record_valid_pair_cases)
  case limit
  then show ?thesis by simp
next
  case (recorded ev pair pairs)
  have a2: "a2 = snd (transition (if nominated \<or> ag_selected_pair a1 \<noteq> None then IceCompleted else IceConnected) a1)"
    using assms(3) by (simp add: transition_after_check_def)
  have inv: "pairs_inv (cf_max_candidate_pairs (ag_configuration a)) pairs (if nominated then Some pair else ag_selected_pair a)"
    using assms(1) by (intro pairs_inv_record [OF _ recorded(3,5,2,7,8)]) (simp_all add: agent_inv_def)
  have f: "ag_pairs a2 = pairs" "ag_selected_pair a2 = (if nominated then Some pair else ag_selected_pair a)"
    "ag_last_authenticated a2 = Some now" "ag_configuration a2 = ag_configuration a"
    "ag_state a2 = (if nominated \<or> ag_selected_pair a \<noteq> None then IceCompleted else IceConnected)"
    by (simp_all add: a2 recorded(4))
  have "pairs \<noteq> []" using recorded(3) by auto
  then have "agent_inv a2" using inv by (auto simp: agent_inv_def f state_inv_def)
  then show ?thesis using f recorded(2,3) by auto
qed

lemma agent_inv_handle:
  assumes "agent_inv a"
  shows "agent_inv (snd (handle_datagram cr now loc remote input a))"
proof (cases "\<exists>m alg. checked cr a input m alg")
  case False
  then obtain e where "handle_datagram cr now loc remote input a = (Inl e, a)" using handle_unchecked by blast
  with assms show ?thesis by simp
next
  case True
  then obtain m alg where c: "checked cr a input m alg" by blast
  show ?thesis
  proof (cases "valid_check m")
    case False
    from handle_invalid [OF c this, of now loc remote] assms show ?thesis by auto
  next
    case True
    from c True show ?thesis
    proof (cases rule: handle_valid [where now = now and loc = loc and remote = remote])
      case (limit priority a1)
      have "a1 = a\<lparr>ag_last_authenticated := Some now\<rparr>"
        using limit(2) by (rule record_valid_pair_cases) simp_all
      with assms show ?thesis by (simp add: limit(3) agent_inv_def state_inv_def)
    next
      case (answered priority events a1 tm changes a2)
      with agent_inv_recorded [OF assms answered(2,3)] show ?thesis by simp
    qed
  qed
qed

lemma agent_inv_step: "agent_inv a \<Longrightarrow> agent_inv (ice_step cr i a)"
  by (cases i) (simp_all add: agent_inv_handle agent_inv_tick agent_inv_restart)

lemma agent_inv_run: "agent_inv a \<Longrightarrow> agent_inv (ice_run cr a inputs)"
  unfolding ice_run_def by (induction inputs arbitrary: a) (simp_all add: agent_inv_step)

text \<open>Ticks without traffic.\<close>

lemma ticks_state:
  assumes "ag_last_authenticated a = Some t" and "ag_state a \<noteq> IceFailed"
    and "cf_consent_timeout (ag_configuration a) \<le> cf_failure_timeout (ag_configuration a)"
  shows "sorted instants \<Longrightarrow> instants \<noteq> [] \<Longrightarrow>
     ag_state (fold (\<lambda>now a. snd (ice_tick now a)) instants a) =
       (if cf_failure_timeout (ag_configuration a) \<le> last instants - t then IceFailed
        else if cf_consent_timeout (ag_configuration a) \<le> last instants - t then IceDisconnected
        else ag_state a) \<and>
     ag_last_authenticated (fold (\<lambda>now a. snd (ice_tick now a)) instants a) = Some t \<and>
     ag_configuration (fold (\<lambda>now a. snd (ice_tick now a)) instants a) = ag_configuration a"
proof (induction instants rule: rev_induct)
  case Nil
  then show ?case by simp
next
  case (snoc now instants)
  show ?case
  proof (cases "instants = []")
    case True
    with assms show ?thesis by (simp add: ice_tick_def Let_def)
  next
    case False
    let ?b = "fold (\<lambda>now a. snd (ice_tick now a)) instants a"
    have s: "sorted instants" and le: "last instants \<le> now"
      using snoc.prems(1) False by (simp_all add: sorted_append)
    note ih = snoc.IH [OF s False]
    have "last instants - t \<le> now - t" using le by (rule diff_le_mono)
    with ih assms(3) show ?thesis by (simp add: ice_tick_def Let_def)
  qed
qed

section \<open>Properties\<close>

text \<open>Over every history of datagrams, ticks and restarts the agent keeps at most the configured
  number of candidate pairs, one for each local and remote address; a selected pair was nominated and
  is among them; New has no pair, Connected has pairs but no selection, Completed has a selection, and
  every state but New follows an authenticated check.\<close>

lemma ice_agent_invariant: "agent_inv (ice_run cr (agent_new c) inputs)"
  by (rule agent_inv_run) (rule agent_inv_new)

text \<open>A first check of a controlling peer, which nominates the pair or not.\<close>

definition sample_agent :: agent where
  "sample_agent = agent_new (configuration_new
     \<lparr>cd_username_fragment = str_lit ''ab'', cd_password = replicate 22 1\<rparr>
     \<lparr>cd_username_fragment = str_lit ''cd'', cd_password = replicate 22 2\<rparr> 3)"

definition sample_check :: "bool \<Rightarrow> message_builder" where
  "sample_check nominate = with_fingerprint (with_integrity_sha1 (replicate 22 1)
     ((if nominate then add_use_candidate else id) (add_ice_controlling 9 (add_priority 7 (add_username (str_lit ''ab:cd'')
       (builder_new \<lparr>mt_method = BINDING, mt_class = Request\<rparr> 5))))))"

lemmas sample_check_defs = sample_check_def builder_new_def add_raw_attribute_def add_username_def
  add_priority_def add_use_candidate_def add_ice_controlling_def with_integrity_sha1_def
  with_fingerprint_def str_lit_def str_bytes_def utf8_char_def BINDING_def

lemma sample_check_attributes:
  "mb_attributes (sample_check nominate) =
     [(USERNAME, str_bytes (str_lit ''ab:cd'')), (PRIORITY, to_be (7 :: u32)), (ICE_CONTROLLING, to_be (9 :: u64))] @
     (if nominate then [(USE_CANDIDATE, [])] else [])"
  by (simp add: sample_check_def builder_new_def add_raw_attribute_def add_username_def add_priority_def
      add_use_candidate_def add_ice_controlling_def with_integrity_sha1_def with_fingerprint_def)

lemma sample_check_read:
  "\<exists>bs m. checked sample_crypto sample_agent bs m AlgSha1 \<and> valid_check m \<and> msg_use_candidate m = nominate"
proof -
  have plain: "\<forall>x\<in>set (mb_attributes (sample_check nominate)). plain_attribute x"
    by (simp add: sample_check_attributes plain_attribute_def check_attribute_def require_len_def)
  obtain bs where bs: "message_build sample_crypto (sample_check nominate) = Inr bs"
    by (cases nominate; auto simp: message_build_eq built_attributes_def sample_check_defs sample_crypto_def
        fingerprint_attribute_def length_attribute_bytes pad4_def)
  obtain m where m: "message_parse bs = Inr m" "reads_back sample_crypto (sample_check nominate) m"
    by (rule stun_build_parse [OF bs _ plain]) (cases nominate; simp add: sample_check_defs)+
  have c: "content m = mb_attributes (sample_check nominate)" by (rule reads_back_content [OF m(2)])
  have i: "mb_integrity (sample_check nominate) = Some (Sha1Key (replicate 22 1))" "mb_fingerprint (sample_check nominate)"
    "mb_message_type (sample_check nominate) = \<lparr>mt_method = BINDING, mt_class = Request\<rparr>"
    by (simp_all add: sample_check_def builder_new_def add_raw_attribute_def add_username_def add_priority_def
        add_use_candidate_def add_ice_controlling_def with_integrity_sha1_def with_fingerprint_def)
  have at: "map_option ra_value (attribute m t) = map_of (mb_attributes (sample_check nominate)) t"
    if "t \<notin> {MESSAGE_INTEGRITY, MESSAGE_INTEGRITY_SHA256, FINGERPRINT}" for t
    using attribute_content [OF that, of m] c by simp
  obtain u where "attribute m USERNAME = Some u" "ra_value u = str_bytes (str_lit ''ab:cd'')"
    using at [of USERNAME] by (auto simp: sample_check_attributes)
  then have "msg_username m = Inr (Some (str_lit ''ab:cd''))"
    by (simp add: msg_username_def utf8_attribute_def convert_attribute_def from_utf8_str_bytes str_lit_def is_scalar_def)
  moreover have "expected_username sample_agent = str_lit ''ab:cd''"
    by (simp add: expected_username_def sample_agent_def agent_new_def configuration_new_def str_lit_def)
  ultimately have "checked sample_crypto sample_agent bs m AlgSha1"
    using m i by (simp add: checked_def authentic_def reads_back_def sample_agent_def agent_new_def configuration_new_def)
  moreover have "unknown_required_attributes m = []"
    by (simp add: unknown_content c sample_check_attributes is_known_def)
  moreover have "attribute m ICE_CONTROLLING \<noteq> None" "attribute m ICE_CONTROLLED = None" "attribute m PRIORITY \<noteq> None"
    using at [of ICE_CONTROLLING] at [of ICE_CONTROLLED] at [of PRIORITY]
    by (cases nominate; auto simp: sample_check_attributes)+
  moreover have "msg_use_candidate m = nominate"
    using at [of USE_CANDIDATE] by (cases nominate; auto simp: sample_check_attributes msg_use_candidate_def)
  ultimately show ?thesis unfolding valid_check_def by blast
qed

lemma sample_checked: "\<exists>bs m. checked sample_crypto sample_agent bs m AlgSha1 \<and> valid_check m \<and> msg_use_candidate m"
  using sample_check_read [of True] by simp

text \<open>C29. The agent acts on authenticated checks only: when a datagram changes anything or gets a
  response, the generation has not failed and the datagram is a Binding request that carries the
  username of this generation, a MAC under the local password and, if it has a fingerprint, a correct
  one.\<close>

theorem ice_acts_on_authenticated_checks:
  assumes "handle_datagram cr now loc remote input a = (r, a')" and "a' \<noteq> a \<or> is_ok r"
  shows "\<exists>m. ag_state a \<noteq> IceFailed \<and> message_parse input = Inr m \<and>
     ms_kind m = \<lparr>mt_method = BINDING, mt_class = Request\<rparr> \<and>
     msg_username m = Inr (Some (expected_username a)) \<and>
     (if attribute m MESSAGE_INTEGRITY_SHA256 \<noteq> None
      then verify_message_integrity_sha256 cr m (local_password a) = Inr ()
      else verify_message_integrity_sha1 cr m (local_password a) = Inr ()) \<and>
     (attribute m FINGERPRINT \<noteq> None \<longrightarrow> verify_fingerprint cr m = Inr ())"
proof -
  have "\<exists>m alg. checked cr a input m alg"
  proof (rule ccontr)
    assume "\<not> ?thesis"
    then obtain e where "handle_datagram cr now loc remote input a = (Inl e, a)" using handle_unchecked by blast
    with assms show False by auto
  qed
  then obtain m alg where "checked cr a input m alg" by blast
  then show ?thesis
    unfolding checked_def authentic_def by (intro exI [of _ m]) (auto split: if_splits)
qed

theorem ice_acts_on_authenticated_checks_witness:
  "\<exists>bs r a'. handle_datagram sample_crypto 7 (SockV4 1 2) (SockV4 3 4) bs sample_agent = (r, a') \<and> is_ok r \<and>
     (\<exists>m. message_parse bs = Inr m \<and> msg_username m = Inr (Some (str_lit ''ab:cd'')))"
proof -
  obtain bs m where "checked sample_crypto sample_agent bs m AlgSha1" "valid_check m" using sample_checked by blast
  then obtain out a' where h: "handle_datagram sample_crypto 7 (SockV4 1 2) (SockV4 3 4) bs sample_agent = (Inr out, a')"
    by (rule handle_valid) (auto elim!: record_valid_pair_cases simp: sample_agent_def agent_new_def configuration_new_def)
  have "expected_username sample_agent = str_lit ''ab:cd''"
    by (simp add: expected_username_def sample_agent_def agent_new_def configuration_new_def str_lit_def)
  then have "\<exists>m. message_parse bs = Inr m \<and> msg_username m = Inr (Some (str_lit ''ab:cd''))"
    using ice_acts_on_authenticated_checks [OF h] by auto
  with h show ?thesis by (intro exI [of _ bs] exI [of _ "Inr out"] exI [of _ a']) simp
qed

text \<open>C30. An authenticated check is answered: unless a new pair does not fit, the response goes back to
  where the check came from, repeats its transaction and carries a MAC under the local password and a
  fingerprint that the peer verifies. A valid check gets its own address in the success response, its
  pair is recorded, consent is renewed and the agent is Connected or Completed; any other check gets the
  error for what is wrong with it and changes nothing.\<close>

theorem ice_check_answered:
  assumes "checked cr a input m alg" and "agent_inv a"
    and "(loc, remote) \<in> endpoints ` set (ag_pairs a) \<or> length (ag_pairs a) < cf_max_candidate_pairs (ag_configuration a)"
  shows "\<exists>out a'. handle_datagram cr now loc remote input a = (Inr out, a') \<and>
     (if valid_check m
      then success_reply cr a m alg loc remote (ho_transmit out) \<and> ag_state a' \<in> {IceConnected, IceCompleted} \<and>
           ag_last_authenticated a' = Some now \<and>
           (\<exists>p\<in>set (ag_pairs a'). endpoints p = (loc, remote) \<and> cp_last_authenticated p = now)
      else error_reply cr a m alg loc remote (check_error m) out \<and> a' = a)"
proof (cases "valid_check m")
  case False
  from handle_invalid [OF assms(1) this, of now loc remote] False show ?thesis by auto
next
  case True
  from assms(1) True show ?thesis
  proof (cases rule: handle_valid [where now = now and loc = loc and remote = remote])
    case (limit priority a1)
    from limit(2) assms(3) show ?thesis by (auto elim!: record_valid_pair_cases)
  next
    case (answered priority events a1 tm changes a2)
    with agent_inv_recorded [OF assms(2) answered(2,3)] True show ?thesis by (auto simp: pair_now_def)
  qed
qed

theorem ice_check_answered_witness:
  "\<exists>bs m out a'. valid_check m \<and> handle_datagram sample_crypto 7 (SockV4 1 2) (SockV4 3 4) bs sample_agent = (Inr out, a') \<and>
     success_reply sample_crypto sample_agent m AlgSha1 (SockV4 1 2) (SockV4 3 4) (ho_transmit out) \<and>
     ag_last_authenticated a' = Some 7"
proof -
  obtain bs m where c: "checked sample_crypto sample_agent bs m AlgSha1" and v: "valid_check m"
    using sample_checked by blast
  have "agent_inv sample_agent" unfolding sample_agent_def by (rule agent_inv_new)
  moreover have "length (ag_pairs sample_agent) < cf_max_candidate_pairs (ag_configuration sample_agent)"
    by (simp add: sample_agent_def agent_new_def configuration_new_def)
  ultimately show ?thesis
    using ice_check_answered [OF c, of "SockV4 1 2" "SockV4 3 4" 7] v by auto
qed

text \<open>Consent. While only the timer runs, the state after the ticks is a function of the time since
  the last authenticated check: unchanged before the consent timeout, Disconnected from it on, Failed
  from the failure timeout on; and in Failed every datagram is refused, whatever it holds.\<close>

lemma ice_consent_expires:
  assumes "ag_last_authenticated a = Some t" and "ag_state a \<noteq> IceFailed" and "sorted instants" and "instants \<noteq> []"
    and "cf_consent_timeout (ag_configuration a) \<le> cf_failure_timeout (ag_configuration a)"
  defines "b \<equiv> fold (\<lambda>now a. snd (ice_tick now a)) instants a"
  shows "ag_state b =
       (if cf_failure_timeout (ag_configuration a) \<le> last instants - t then IceFailed
        else if cf_consent_timeout (ag_configuration a) \<le> last instants - t then IceDisconnected
        else ag_state a) \<and>
     (ag_state b = IceFailed \<longrightarrow> handle_datagram cr now loc remote input b = (Inl RestartRequired, b))"
  using ticks_state [OF assms(1,2,5,3,4)] unfolding b_def by (simp add: handle_datagram_def)

lemma ice_consent_expires_witness:
  "ag_state (fold (\<lambda>now a. snd (ice_tick now a)) [20000000000, 40000000000, 70000000000]
     (sample_agent\<lparr>ag_state := IceConnected, ag_last_authenticated := Some 5\<rparr>)) = IceFailed"
  using ice_consent_expires [of "sample_agent\<lparr>ag_state := IceConnected, ag_last_authenticated := Some 5\<rparr>" 5
      "[20000000000, 40000000000, 70000000000]"]
  by (simp add: sample_agent_def agent_new_def configuration_new_def)

end
