(* ===== verification/Dtls.thy ===== *)
theory Dtls
  imports Srtp Rust_Text
begin

text \<open>
  The DTLS adapter, \<open>crates/webrtc/dtls-adapter/src\<close>: certificate fingerprints, the split of the
  exported keying material by role, and the session that drives OpenSSL datagram by datagram. OpenSSL and
  SHA-256 come from crates outside the repository and are the fields of a record over the type of its
  streams, which the definitions take as an argument; the text of a handshake error is left out. The
  loop that reads application data runs as long as OpenSSL delivers records, so it is a partial function.
  The blocking variant on a connected socket, which is input and output, is left out.

  Shown: printed fingerprints are parsed back, the two roles get each other's keys, and a session
  releases keying material at most once and only when the certificate of the peer has the fingerprint
  that was signalled.
\<close>

section \<open>Errors, roles and profiles\<close>

datatype dtls_error =
    UnsupportedFingerprintAlgorithm rust_string
  | InvalidFingerprint
  | InvalidExporterLength nat nat
  | UnsupportedSrtpProfile rust_string
  | PeerFingerprintMismatch
  | MissingPeerCertificate
  | DtlsSrtp srtp_error
  | OpenSslFailure
  | HandshakeFailed

datatype dtls_role = DtlsClient | DtlsServer

datatype dtls_srtp_profile = DtlsAes128CmSha1_80 | DtlsAes128CmSha1_32

definition profile_parse_name :: "rust_string \<Rightarrow> (dtls_error, dtls_srtp_profile) result" where
  "profile_parse_name name =
     (if name = str_lit ''SRTP_AES128_CM_SHA1_80'' then Inr DtlsAes128CmSha1_80
      else if name = str_lit ''SRTP_AES128_CM_SHA1_32'' then Inr DtlsAes128CmSha1_32
      else Inl (UnsupportedSrtpProfile name))"

fun to_protection_profile :: "dtls_srtp_profile \<Rightarrow> protection_profile" where
  "to_protection_profile DtlsAes128CmSha1_80 = Aes128CmSha1_80"
| "to_protection_profile DtlsAes128CmSha1_32 = Aes128CmSha1_32"

record directional_keying_material =
  dk_profile :: protection_profile
  dk_outbound :: keying_material
  dk_inbound :: keying_material

definition EXPORTER_LEN :: nat where "EXPORTER_LEN = 2 * (16 + 14)"

definition split_srtp_exporter ::
    "dtls_srtp_profile \<Rightarrow> dtls_role \<Rightarrow> bytes \<Rightarrow> (dtls_error, directional_keying_material) result" where
  "split_srtp_exporter prof local_role exported =
     (if length exported \<noteq> EXPORTER_LEN then Inl (InvalidExporterLength EXPORTER_LEN (length exported))
      else
        let client_key = take 16 exported; server_key = take 16 (drop 16 exported);
            client_salt = take 14 (drop 32 exported); server_salt = take 14 (drop 46 exported) in
        bind_r (map_err DtlsSrtp (km_new client_key client_salt)) (\<lambda>client.
        bind_r (map_err DtlsSrtp (km_new server_key server_salt)) (\<lambda>server.
        let (outbound, inbound) = (case local_role of DtlsClient \<Rightarrow> (client, server) | DtlsServer \<Rightarrow> (server, client))
        in Inr \<lparr>dk_profile = to_protection_profile prof, dk_outbound = outbound, dk_inbound = inbound\<rparr>)))"

section \<open>Fingerprints\<close>

fun parse_octets :: "nat \<Rightarrow> rust_string list \<Rightarrow> (dtls_error, bytes \<times> rust_string list) result" where
  "parse_octets 0 parts = Inr ([], parts)"
| "parse_octets (Suc n) [] = Inl InvalidFingerprint"
| "parse_octets (Suc n) (part # parts) =
     (if str_len part \<noteq> 2 then Inl InvalidFingerprint
      else
        bind_r (ok_or InvalidFingerprint (parse_radix 16 256 part)) (\<lambda>b.
        bind_r (parse_octets n parts) (\<lambda>(bs, rest). Inr (word_of_nat b # bs, rest))))"

definition fingerprint_parse :: "rust_string \<Rightarrow> rust_string \<Rightarrow> (dtls_error, bytes) result" where
  "fingerprint_parse algorithm value_text =
     (if \<not> eq_ignore_ascii_case algorithm (str_lit ''sha-256'')
      then Inl (UnsupportedFingerprintAlgorithm algorithm)
      else
        bind_r (parse_octets 32 (split_on 58 value_text)) (\<lambda>(bs, parts).
          if parts \<noteq> [] then Inl InvalidFingerprint else Inr bs))"

definition fingerprint_display :: "bytes \<Rightarrow> rust_string" where
  "fingerprint_display f = join_with [58] (map hex_byte f)"

section \<open>Sessions over OpenSSL\<close>

record datagram_io =
  dio_inbound :: "bytes list"
  dio_outbound :: "bytes list"

definition with_input :: "bytes \<Rightarrow> datagram_io" where
  "with_input input = \<lparr>dio_inbound = [input], dio_outbound = []\<rparr>"

definition push_input :: "bytes \<Rightarrow> datagram_io \<Rightarrow> datagram_io" where
  "push_input input io = io\<lparr>dio_inbound := dio_inbound io @ [input]\<rparr>"

definition take_output :: "datagram_io \<Rightarrow> bytes list \<times> datagram_io" where
  "take_output io = (dio_outbound io, io\<lparr>dio_outbound := []\<rparr>)"

datatype 's handshake_result = HandshakeDone 's | HandshakeWouldBlock 's | HandshakeError | HandshakeSetupError

datatype read_result = ReadRecord bytes | ReadBlocked | ReadFailed

record 's openssl =
  os_setup :: "(dtls_error, unit) result"
  os_accept :: "datagram_io \<Rightarrow> 's handshake_result"
  os_handshake :: "'s \<Rightarrow> 's handshake_result"
  os_io :: "'s \<Rightarrow> datagram_io"
  os_set_io :: "datagram_io \<Rightarrow> 's \<Rightarrow> 's"
  os_read :: "'s \<Rightarrow> read_result \<times> 's"
  os_write :: "bytes \<Rightarrow> 's \<Rightarrow> nat option \<times> 's"
  os_peer_certificate :: "'s \<Rightarrow> (dtls_error, bytes) result option"
  os_srtp_profile :: "'s \<Rightarrow> rust_string option"
  os_export :: "'s \<Rightarrow> (dtls_error, bytes) result"
  os_sha256 :: "bytes \<Rightarrow> 256 word"

definition from_certificate_der :: "'s openssl \<Rightarrow> bytes \<Rightarrow> bytes" where
  "from_certificate_der os der = to_be (os_sha256 os der)"

definition verify_peer_and_export ::
    "'s openssl \<Rightarrow> 's \<Rightarrow> bytes \<Rightarrow> (dtls_error, directional_keying_material \<times> bytes) result" where
  "verify_peer_and_export os stream expected =
     bind_r (case os_peer_certificate os stream of None \<Rightarrow> Inl MissingPeerCertificate | Some der \<Rightarrow> der) (\<lambda>der.
     let peer_fingerprint = from_certificate_der os der in
     if peer_fingerprint \<noteq> expected then Inl PeerFingerprintMismatch
     else
       bind_r (ok_or (UnsupportedSrtpProfile (str_lit ''none'')) (os_srtp_profile os stream)) (\<lambda>selected.
       bind_r (profile_parse_name selected) (\<lambda>prof.
       bind_r (os_export os stream) (\<lambda>exported.
       bind_r (split_srtp_exporter prof DtlsServer exported) (\<lambda>keying.
         Inr (keying, peer_fingerprint))))))"

datatype 's dtls_state = DtlsNew | DtlsHandshaking 's | DtlsEstablished 's | DtlsFailed

record 's dtls_session =
  ds_expected_peer_fingerprint :: bytes
  ds_state :: "'s dtls_state"

record datagram_progress =
  dp_outbound_datagrams :: "bytes list"
  dp_established_keying_material :: "directional_keying_material option"
  dp_application_data :: "bytes list"

definition datagram_session :: "bytes \<Rightarrow> 's dtls_session" where
  "datagram_session expected = \<lparr>ds_expected_peer_fingerprint = expected, ds_state = DtlsNew\<rparr>"

definition empty_progress :: datagram_progress where
  "empty_progress = \<lparr>dp_outbound_datagrams = [], dp_established_keying_material = None, dp_application_data = []\<rparr>"

text \<open>\<open>get_mut().take_output()\<close> of a stream.\<close>

definition drain_output :: "'s openssl \<Rightarrow> 's \<Rightarrow> bytes list \<times> 's" where
  "drain_output os stream = (let (out, io) = take_output (os_io os stream) in (out, os_set_io os io stream))"

definition feed :: "'s openssl \<Rightarrow> bytes option \<Rightarrow> 's \<Rightarrow> 's" where
  "feed os input stream =
     (case input of None \<Rightarrow> stream | Some d \<Rightarrow> os_set_io os (push_input d (os_io os stream)) stream)"

text \<open>The state has been replaced by \<open>Failed\<close> before this is called.\<close>

definition handle_handshake_result ::
    "'s openssl \<Rightarrow> 's handshake_result \<Rightarrow> 's dtls_session \<Rightarrow>
     (dtls_error, datagram_progress) result \<times> 's dtls_session" where
  "handle_handshake_result os r d =
     (case r of
        HandshakeDone stream0 \<Rightarrow>
          let (out, stream) = drain_output os stream0 in
          (case verify_peer_and_export os stream (ds_expected_peer_fingerprint d) of
             Inl e \<Rightarrow> (Inl e, d)
           | Inr (keying, _) \<Rightarrow>
               (Inr \<lparr>dp_outbound_datagrams = out, dp_established_keying_material = Some keying, dp_application_data = []\<rparr>,
                d\<lparr>ds_state := DtlsEstablished stream\<rparr>))
      | HandshakeWouldBlock stream0 \<Rightarrow>
          let (out, stream) = drain_output os stream0 in
          (Inr \<lparr>dp_outbound_datagrams = out, dp_established_keying_material = None, dp_application_data = []\<rparr>,
           d\<lparr>ds_state := DtlsHandshaking stream\<rparr>)
      | HandshakeError \<Rightarrow> (Inl HandshakeFailed, d)
      | HandshakeSetupError \<Rightarrow> (Inl OpenSslFailure, d))"

text \<open>The loop over \<open>ssl_read\<close>.\<close>

partial_function (option) read_records ::
    "'s openssl \<Rightarrow> bytes list \<Rightarrow> 's \<Rightarrow> ((dtls_error, bytes list) result \<times> 's) option" where
  "read_records os acc stream =
     (case fst (os_read os stream) of
        ReadRecord plaintext \<Rightarrow> read_records os (acc @ [plaintext]) (snd (os_read os stream))
      | ReadBlocked \<Rightarrow> Some (Inr acc, snd (os_read os stream))
      | ReadFailed \<Rightarrow> Some (Inl HandshakeFailed, snd (os_read os stream)))"

definition dtls_step ::
    "'s openssl \<Rightarrow> bytes option \<Rightarrow> 's dtls_session \<Rightarrow>
     ((dtls_error, datagram_progress) result \<times> 's dtls_session) option" where
  "dtls_step os input d0 =
     (let d = d0\<lparr>ds_state := DtlsFailed\<rparr> in
      case ds_state d0 of
        DtlsNew \<Rightarrow>
          (case input of
             None \<Rightarrow> Some (Inr empty_progress, d\<lparr>ds_state := DtlsNew\<rparr>)
           | Some datagram \<Rightarrow>
               (case os_setup os of
                  Inl e \<Rightarrow> Some (Inl e, d)
                | Inr _ \<Rightarrow> Some (handle_handshake_result os (os_accept os (with_input datagram)) d)))
      | DtlsHandshaking stream \<Rightarrow>
          Some (handle_handshake_result os (os_handshake os (feed os input stream)) d)
      | DtlsEstablished stream \<Rightarrow>
          map_option (\<lambda>(r, stream).
            case r of
              Inl e \<Rightarrow> (Inl e, d)
            | Inr application_data \<Rightarrow>
                let (out, stream) = drain_output os stream in
                (Inr \<lparr>dp_outbound_datagrams = out, dp_established_keying_material = None,
                      dp_application_data = application_data\<rparr>,
                 d\<lparr>ds_state := DtlsEstablished stream\<rparr>))
            (read_records os [] (feed os input stream))
      | DtlsFailed \<Rightarrow> Some (Inl HandshakeFailed, d))"

definition MAX_DTLS_DATAGRAM_BYTES :: nat where "MAX_DTLS_DATAGRAM_BYTES = 65535"

definition dtls_handle_datagram ::
    "'s openssl \<Rightarrow> bytes \<Rightarrow> 's dtls_session \<Rightarrow>
     ((dtls_error, datagram_progress) result \<times> 's dtls_session) option" where
  "dtls_handle_datagram os input d =
     (if input = [] \<or> length input > MAX_DTLS_DATAGRAM_BYTES then Some (Inl HandshakeFailed, d)
      else dtls_step os (Some input) d)"

definition dtls_poll ::
    "'s openssl \<Rightarrow> 's dtls_session \<Rightarrow> ((dtls_error, datagram_progress) result \<times> 's dtls_session) option" where
  "dtls_poll os d = dtls_step os None d"

definition dtls_is_established :: "'s dtls_session \<Rightarrow> bool" where
  "dtls_is_established d = (case ds_state d of DtlsEstablished _ \<Rightarrow> True | _ \<Rightarrow> False)"

definition write_application_data ::
    "'s openssl \<Rightarrow> bytes \<Rightarrow> 's dtls_session \<Rightarrow> (dtls_error, bytes list) result \<times> 's dtls_session" where
  "write_application_data os pl d =
     (if pl = [] \<or> length pl > MAX_DTLS_DATAGRAM_BYTES then (Inl HandshakeFailed, d)
      else
        case ds_state d of
          DtlsEstablished stream0 \<Rightarrow>
            let (written, stream1) = os_write os pl stream0; (out, stream) = drain_output os stream1 in
            ((case written of None \<Rightarrow> Inl HandshakeFailed
              | Some n \<Rightarrow> if n = length pl then Inr out else Inl HandshakeFailed),
             d\<lparr>ds_state := DtlsEstablished stream\<rparr>)
        | _ \<Rightarrow> (Inl HandshakeFailed, d))"

section \<open>Fingerprints and keys\<close>

lemma str_len_hex_byte: "str_len (hex_byte b) = 2"
proof -
  have "unat b < 256" using unsigned_less [of b, where ?'a = nat] by simp
  then have "unat b div 16 < 16" by linarith
  moreover have "unat b mod 16 < 16" by simp
  ultimately have "hex_digit (unat b div 16) < 128" "hex_digit (unat b mod 16) < 128"
    unfolding hex_digit_def by (auto simp del: mod_less_divisor)
  then show ?thesis by (simp add: str_len_def str_bytes_def hex_byte_def utf8_char_def)
qed

lemma hex_byte_no_colon: "58 \<notin> set (hex_byte b)"
  by (simp add: hex_byte_def hex_digit_def)

lemma parse_octets_hex: "parse_octets (length f) (map hex_byte f) = Inr (f, [])"
  by (induction f) (simp_all add: str_len_hex_byte parse_radix_hex)

text \<open>A printed fingerprint is parsed back, whatever the case of the algorithm.\<close>

lemma fingerprint_roundtrip:
  assumes "length f = 32" and "eq_ignore_ascii_case algorithm (str_lit ''sha-256'')"
  shows "fingerprint_parse algorithm (fingerprint_display f) = Inr f"
proof -
  have "split_on 58 (fingerprint_display f) = map hex_byte f"
    unfolding fingerprint_display_def using assms(1) by (intro split_on_join) (auto simp: hex_byte_no_colon)
  with parse_octets_hex [of f] assms show ?thesis by (simp add: fingerprint_parse_def)
qed

text \<open>An octet may also be a plus sign and one digit, since \<open>from_str_radix\<close> takes a sign.\<close>

lemma signed_octet_accepted: "parse_octets 1 [str_lit ''+5''] = Inr ([5], [])"
  by (simp add: str_lit_def str_len_def str_bytes_def utf8_char_def parse_radix_def digit_value_def)

text \<open>The two ends of a handshake export the same bytes; each one's outbound keys are the other's
  inbound keys.\<close>

lemma roles_mirror:
  assumes "split_srtp_exporter prof role exported = Inr c" and "split_srtp_exporter prof role' exported = Inr s"
    and "role \<noteq> role'"
  shows "dk_outbound c = dk_inbound s \<and> dk_inbound c = dk_outbound s \<and> dk_profile c = dk_profile s"
  using assms by (cases role; cases role') (auto simp: split_srtp_exporter_def Let_def bind_r_eq_Inr map_err_eq_Inr split: if_splits)

lemma split_exporter_ok: "length exported = 60 \<Longrightarrow> is_ok (split_srtp_exporter prof role exported)"
  by (cases role) (simp_all add: split_srtp_exporter_def EXPORTER_LEN_def km_new_def map_err_def Let_def is_ok_def)

section \<open>Histories of a session\<close>

datatype dtls_call = DatagramCall bytes | PollCall | WriteCall bytes

fun released :: "(dtls_error, datagram_progress) result \<Rightarrow> directional_keying_material list" where
  "released (Inl _) = []"
| "released (Inr p) = (case dp_established_keying_material p of None \<Rightarrow> [] | Some k \<Rightarrow> [k])"

fun dtls_call_step :: "'s openssl \<Rightarrow> dtls_call \<Rightarrow> 's dtls_session \<Rightarrow>
    (directional_keying_material list \<times> 's dtls_session) option" where
  "dtls_call_step os (DatagramCall input) d = map_option (map_prod released id) (dtls_handle_datagram os input d)"
| "dtls_call_step os PollCall d = map_option (map_prod released id) (dtls_poll os d)"
| "dtls_call_step os (WriteCall pl) d = Some ([], snd (write_application_data os pl d))"

fun dtls_run :: "'s openssl \<Rightarrow> dtls_call list \<Rightarrow> 's dtls_session \<Rightarrow>
    (directional_keying_material list \<times> 's dtls_session) option" where
  "dtls_run os [] d = Some ([], d)"
| "dtls_run os (c # cs) d =
     (case dtls_call_step os c d of None \<Rightarrow> None
      | Some (ks, d') \<Rightarrow> map_option (map_prod ((@) ks) id) (dtls_run os cs d'))"

text \<open>What must hold for keys to be released.\<close>

definition keys_verified :: "'s openssl \<Rightarrow> bytes \<Rightarrow> directional_keying_material \<Rightarrow> bool" where
  "keys_verified os expected keys \<longleftrightarrow>
     (\<exists>stream der name prof exported. os_peer_certificate os stream = Some (Inr der) \<and>
        from_certificate_der os der = expected \<and> os_srtp_profile os stream = Some name \<and>
        profile_parse_name name = Inr prof \<and> os_export os stream = Inr exported \<and>
        split_srtp_exporter prof DtlsServer exported = Inr keys)"

definition spent :: "'s dtls_session \<Rightarrow> bool" where
  "spent d = (case ds_state d of DtlsNew \<Rightarrow> False | DtlsHandshaking _ \<Rightarrow> False | _ \<Rightarrow> True)"

definition moves :: "'s openssl \<Rightarrow> 's dtls_session \<Rightarrow> directional_keying_material list \<Rightarrow> 's dtls_session \<Rightarrow> bool" where
  "moves os d ks d' \<longleftrightarrow>
     ds_expected_peer_fingerprint d' = ds_expected_peer_fingerprint d \<and>
     (ks = [] \<and> (dtls_is_established d' \<longrightarrow> dtls_is_established d) \<and> (spent d \<longrightarrow> spent d') \<or>
      (\<exists>k. ks = [k] \<and> \<not> spent d \<and> spent d' \<and>
         keys_verified os (ds_expected_peer_fingerprint d) k))"

lemma verify_peer_verified: "verify_peer_and_export os stream expected = Inr (k, f) \<Longrightarrow> keys_verified os expected k"
proof -
  assume "verify_peer_and_export os stream expected = Inr (k, f)"
  then obtain der name prof exported where "os_peer_certificate os stream = Some (Inr der)"
    "from_certificate_der os der = expected" "os_srtp_profile os stream = Some name"
    "profile_parse_name name = Inr prof" "os_export os stream = Inr exported"
    "split_srtp_exporter prof DtlsServer exported = Inr k"
    unfolding verify_peer_and_export_def
    by (auto simp: bind_r_eq_Inr ok_or_eq_Inr Let_def split: option.splits if_splits)
  then show ?thesis unfolding keys_verified_def by blast
qed

lemma handshake_moves:
  assumes "handle_handshake_result os h (d\<lparr>ds_state := DtlsFailed\<rparr>) = (r, d')" and "\<not> spent d"
  shows "moves os d (released r) d'"
proof (cases h)
  case (HandshakeDone stream0)
  obtain out stream where o: "drain_output os stream0 = (out, stream)" by fastforce
  show ?thesis
  proof (cases "verify_peer_and_export os stream (ds_expected_peer_fingerprint d)")
    case (Inl e)
    with assms HandshakeDone o show ?thesis
      by (auto simp: handle_handshake_result_def moves_def dtls_is_established_def)
  next
    case (Inr kf)
    obtain k f where kf: "kf = (k, f)" by fastforce
    from verify_peer_verified [OF Inr [unfolded kf]] assms HandshakeDone o Inr kf show ?thesis
      by (auto simp: handle_handshake_result_def moves_def spent_def)
  qed
qed (use assms in \<open>auto simp: handle_handshake_result_def moves_def dtls_is_established_def split: prod.splits\<close>)

lemma dtls_step_moves:
  assumes "dtls_step os input d = Some (r, d')"
  shows "moves os d (released r) d'"
proof (cases "ds_state d")
  case DtlsNew
  show ?thesis
  proof (cases input)
    case None
    with assms DtlsNew show ?thesis
      by (auto simp: dtls_step_def moves_def empty_progress_def dtls_is_established_def spent_def)
  next
    case (Some datagram)
    show ?thesis
    proof (cases "os_setup os")
      case (Inl e)
      with assms DtlsNew Some show ?thesis by (auto simp: dtls_step_def moves_def dtls_is_established_def spent_def)
    next
      case (Inr u)
      with assms DtlsNew Some have "handle_handshake_result os (os_accept os (with_input datagram)) (d\<lparr>ds_state := DtlsFailed\<rparr>) = (r, d')"
        by (simp add: dtls_step_def)
      then show ?thesis by (rule handshake_moves) (simp add: spent_def DtlsNew)
    qed
  qed
next
  case (DtlsHandshaking stream)
  with assms have "handle_handshake_result os (os_handshake os (feed os input stream)) (d\<lparr>ds_state := DtlsFailed\<rparr>) = (r, d')"
    by (simp add: dtls_step_def)
  then show ?thesis by (rule handshake_moves) (simp add: spent_def DtlsHandshaking)
next
  case (DtlsEstablished stream)
  obtain out stream' where io: "drain_output os stream1 = (out stream1, stream' stream1)" for stream1
    by (rule that [of "\<lambda>s. fst (drain_output os s)" "\<lambda>s. snd (drain_output os s)"]) simp
  from assms DtlsEstablished obtain rr stream1 where "read_records os [] (feed os input stream) = Some (rr, stream1)"
    by (auto simp: dtls_step_def Let_def)
  with assms DtlsEstablished io show ?thesis
    by (cases rr) (auto simp: dtls_step_def moves_def dtls_is_established_def spent_def Let_def)
next
  case DtlsFailed
  with assms show ?thesis by (auto simp: dtls_step_def moves_def dtls_is_established_def spent_def)
qed

lemma write_moves: "moves os d [] (snd (write_application_data os pl d))"
  by (cases "ds_state d")
    (auto simp: write_application_data_def moves_def dtls_is_established_def spent_def Let_def split: prod.splits)

lemma moves_refl: "moves os d [] d"
  by (simp add: moves_def)

lemma dtls_call_moves:
  assumes "dtls_call_step os c d = Some (ks, d')"
  shows "moves os d ks d'"
proof (cases c)
  case (DatagramCall input)
  with assms show ?thesis
    by (auto simp: dtls_handle_datagram_def moves_refl dest: dtls_step_moves split: if_splits)
next
  case PollCall
  with assms show ?thesis by (auto simp: dtls_poll_def dest: dtls_step_moves)
next
  case (WriteCall pl)
  with assms write_moves show ?thesis by auto
qed

lemma established_spent: "dtls_is_established d \<Longrightarrow> spent d"
  by (auto simp: dtls_is_established_def spent_def split: dtls_state.splits)

lemma moves_trans:
  assumes "moves os d ks d1" and "moves os d1 ks' d2"
  shows "moves os d (ks @ ks') d2"
proof -
  have e: "ds_expected_peer_fingerprint d1 = ds_expected_peer_fingerprint d"
    "ds_expected_peer_fingerprint d2 = ds_expected_peer_fingerprint d"
    using assms by (simp_all add: moves_def)
  consider "ks = []" "ks' = []" | k where "ks = []" "ks' = [k]" | k where "ks = [k]" "ks' = []"
    | k k' where "ks = [k]" "ks' = [k']"
    using assms unfolding moves_def by blast
  then show ?thesis
  proof cases
    case 4
    with assms established_spent [of d1] show ?thesis by (simp add: moves_def)
  qed (use assms e established_spent [of d1] in \<open>auto simp: moves_def\<close>)
qed

lemma dtls_run_moves: "dtls_run os calls d = Some (ks, d') \<Longrightarrow> moves os d ks d'"
proof (induction calls arbitrary: d ks)
  case Nil
  then show ?case by (simp add: moves_refl)
next
  case (Cons c cs)
  from Cons.prems obtain ks1 d1 ks2 where "dtls_call_step os c d = Some (ks1, d1)"
    "dtls_run os cs d1 = Some (ks2, d')" "ks = ks1 @ ks2"
    by (auto split: option.splits)
  with dtls_call_moves Cons.IH moves_trans show ?case by metis
qed

text \<open>The loop ends when OpenSSL hands out finitely many records.\<close>

lemma read_records_returns:
  assumes "\<And>stream p stream'. os_read os stream = (ReadRecord p, stream') \<Longrightarrow> size_of stream' < (size_of stream :: nat)"
  shows "\<exists>r stream'. read_records os acc stream = Some (r, stream')"
proof (induction "size_of stream" arbitrary: acc stream rule: less_induct)
  case less
  obtain r stream' where o: "os_read os stream = (r, stream')" by fastforce
  show ?case
  proof (cases r)
    case (ReadRecord p)
    with less [of stream' "acc @ [p]"] assms o show ?thesis by (subst read_records.simps) simp
  qed (use o in \<open>subst read_records.simps; simp\<close>)+
qed

section \<open>Properties\<close>

text \<open>C13. Keys are released once and only to the peer that was signalled: over every history of datagrams,
  polls and writes a DTLS session hands out SRTP keying material at most once; it is established only
  after it has; and the material was exported from a handshake in which the SHA-256 digest of the
  certificate of the peer is the fingerprint the session was created with, under a profile the
  program supports.\<close>

theorem dtls_keys_verified_once:
  assumes "dtls_run os calls (datagram_session expected) = Some (ks, d)"
  shows "length ks \<le> 1 \<and> (dtls_is_established d \<longrightarrow> length ks = 1) \<and>
     (\<forall>k\<in>set ks. \<exists>stream der name prof exported. os_peer_certificate os stream = Some (Inr der) \<and>
        from_certificate_der os der = expected \<and> os_srtp_profile os stream = Some name \<and>
        profile_parse_name name = Inr prof \<and> os_export os stream = Inr exported \<and>
        split_srtp_exporter prof DtlsServer exported = Inr k)"
proof -
  from dtls_run_moves [OF assms] have m: "moves os (datagram_session expected) ks d" .
  have "\<forall>k\<in>set ks. keys_verified os expected k"
    using m by (auto simp: moves_def datagram_session_def)
  moreover have "length ks \<le> 1 \<and> (dtls_is_established d \<longrightarrow> length ks = 1)"
    using m by (auto simp: moves_def datagram_session_def dtls_is_established_def)
  ultimately show ?thesis unfolding keys_verified_def by blast
qed

definition sample_openssl :: "datagram_io openssl" where
  "sample_openssl = \<lparr>os_setup = Inr (), os_accept = HandshakeWouldBlock, os_handshake = HandshakeDone,
     os_io = (\<lambda>io. io), os_set_io = (\<lambda>io _. io), os_read = (\<lambda>io. (ReadBlocked, io)),
     os_write = (\<lambda>pl io. (Some (length pl), io)), os_peer_certificate = (\<lambda>_. Some (Inr [1, 2])),
     os_srtp_profile = (\<lambda>_. Some (str_lit ''SRTP_AES128_CM_SHA1_80'')),
     os_export = (\<lambda>_. Inr (replicate 60 9)), os_sha256 = (\<lambda>d. word_of_nat (length d))\<rparr>"

theorem dtls_keys_verified_once_witness:
  "\<exists>k d. dtls_run sample_openssl [DatagramCall [22], DatagramCall [22], PollCall]
     (datagram_session (from_certificate_der sample_openssl [1, 2])) = Some ([k], d) \<and> dtls_is_established d"
proof -
  let ?d = "datagram_session (from_certificate_der sample_openssl [1, 2])"
  let ?calls = "[DatagramCall [22], DatagramCall [22], PollCall]"
  have "is_ok (split_srtp_exporter DtlsAes128CmSha1_80 DtlsServer (replicate 60 9))" by (rule split_exporter_ok) simp
  then obtain k where k: "split_srtp_exporter DtlsAes128CmSha1_80 DtlsServer (replicate 60 9) = Inr k"
    by (auto simp: is_ok_iff)
  then have v: "verify_peer_and_export sample_openssl s (from_certificate_der sample_openssl [1, 2]) =
      Inr (k, from_certificate_der sample_openssl [1, 2])" for s
    unfolding verify_peer_and_export_def
    by (simp add: sample_openssl_def from_certificate_der_def profile_parse_name_def str_lit_def)
  have r: "read_records sample_openssl [] s = Some (Inr [], s)" for s
    by (subst read_records.simps) (simp add: sample_openssl_def)
  obtain ks d where run: "dtls_run sample_openssl ?calls ?d = Some (ks, d)" and est: "dtls_is_established d"
    using v r by (auto simp: dtls_handle_datagram_def dtls_poll_def dtls_step_def datagram_session_def
        MAX_DTLS_DATAGRAM_BYTES_def handle_handshake_result_def drain_output_def take_output_def feed_def
        sample_openssl_def with_input_def push_input_def dtls_is_established_def Let_def)
  from dtls_keys_verified_once [OF run] est have "length ks = 1" by blast
  then obtain k where "ks = [k]" by (cases ks) auto
  with run est show ?thesis by blast
qed

end
