(* ===== verification/Rtc_Session.thy ===== *)
theory Rtc_Session
  imports Ice_Lite Rtc_Datagram Dtls
begin

text \<open>
  The composite transport session, \<open>crates/webrtc/rtc-session/src/lib.rs\<close>: it routes datagrams to the
  ICE-lite agent, to DTLS or to SRTP, follows the agent's state, keeps the nominated pair and the SRTP
  context. The cryptography of STUN and of SRTP are arguments. An error leaves the changes that were
  made before it.

  Shown: the session agrees with its agent over every history; media, DTLS records and outbound packets
  only pass between addresses that the remote peer has nominated with an authenticated check, and media
  is opened with keys that DTLS installed; what one session protects, its peer delivers.
\<close>

section \<open>Definitions\<close>

datatype session_state =
    SessionNew | SessionDtlsHandshaking | SessionConnected | SessionDisconnected | SessionFailed | SessionClosed

datatype session_action =
    TransmitAction transmit
  | DtlsInput bytes
  | InboundRtp bytes
  | InboundRtcp bytes "rtcp_packet list"
  | SessionStateChanged session_state session_state

datatype session_error =
    SessionIce ice_error
  | SessionSrtp srtp_error
  | SessionRtp rtp_error
  | SessionRtcp rtcp_error
  | UnexpectedDatagram datagram_kind
  | TupleMismatch
  | SrtpNotReady
  | NoSelectedPair
  | InvalidState session_state
  | ClosedSession

record session =
  se_ice :: agent
  se_state :: session_state
  se_selected_local :: "socket_addr option"
  se_selected_remote :: "socket_addr option"
  se_srtp :: "srtp_context option"

definition session_new :: "agent \<Rightarrow> session" where
  "session_new ice = \<lparr>se_ice = ice, se_state = SessionNew, se_selected_local = None, se_selected_remote = None,
     se_srtp = None\<rparr>"

definition session_transition :: "session_state \<Rightarrow> session \<Rightarrow> session_action list \<times> session" where
  "session_transition target s =
     (if target = se_state s then ([], s)
      else ([SessionStateChanged (se_state s) target], s\<lparr>se_state := target\<rparr>))"

definition require_selected_tuple :: "socket_addr \<Rightarrow> socket_addr \<Rightarrow> session \<Rightarrow> (session_error, unit) result" where
  "require_selected_tuple loc remote s =
     (if se_selected_local s = Some loc \<and> se_selected_remote s = Some remote then Inr () else Inl TupleMismatch)"

definition selected_transmit :: "bytes \<Rightarrow> session \<Rightarrow> (session_error, transmit) result" where
  "selected_transmit pl s =
     bind_r (ok_or NoSelectedPair (se_selected_local s)) (\<lambda>source.
     bind_r (ok_or NoSelectedPair (se_selected_remote s)) (\<lambda>destination.
       Inr \<lparr>tm_source = source, tm_destination = destination, tm_payload = pl\<rparr>))"

fun ice_target :: "ice_state \<Rightarrow> session \<Rightarrow> session_state" where
  "ice_target IceNew s = SessionNew"
| "ice_target IceConnected s = se_state s"
| "ice_target IceCompleted s =
     (if se_state s \<in> {SessionNew, SessionDisconnected} then
        if se_srtp s \<noteq> None then SessionConnected else SessionDtlsHandshaking
      else se_state s)"
| "ice_target IceDisconnected s = SessionDisconnected"
| "ice_target IceFailed s = SessionFailed"

fun apply_ice_event :: "ice_event \<Rightarrow> session_action list \<times> session \<Rightarrow> session_action list \<times> session" where
  "apply_ice_event (SelectedPair pair) (actions, s) =
     (actions, s\<lparr>se_selected_local := Some (cp_local pair), se_selected_remote := Some (cp_remote pair)\<rparr>)"
| "apply_ice_event (StateChanged from to) (actions, s) =
     (let (changes, s) = session_transition (ice_target to s) s in (actions @ changes, s))"

definition apply_ice_events :: "ice_event list \<Rightarrow> session_action list \<times> session \<Rightarrow> session_action list \<times> session" where
  "apply_ice_events events = fold apply_ice_event events"

definition session_handle_stun ::
    "stun_crypto \<Rightarrow> duration \<Rightarrow> socket_addr \<Rightarrow> socket_addr \<Rightarrow> bytes \<Rightarrow> session \<Rightarrow>
     (session_error, session_action list) result \<times> session" where
  "session_handle_stun st now loc remote input s =
     (case handle_datagram st now loc remote input (se_ice s) of
        (Inl e, ice) \<Rightarrow> (Inl (SessionIce e), s\<lparr>se_ice := ice\<rparr>)
      | (Inr out, ice) \<Rightarrow>
          let (actions, s) = apply_ice_events (ho_events out) ([TransmitAction (ho_transmit out)], s\<lparr>se_ice := ice\<rparr>)
          in (Inr actions, s))"

definition session_handle_datagram ::
    "crypto \<Rightarrow> stun_crypto \<Rightarrow> duration \<Rightarrow> socket_addr \<Rightarrow> socket_addr \<Rightarrow> bytes \<Rightarrow> session \<Rightarrow>
     (session_error, session_action list) result \<times> session" where
  "session_handle_datagram cr st now loc remote input s =
     (if se_state s = SessionClosed then (Inl ClosedSession, s)
      else
        case classify input of
          DgStun \<Rightarrow> session_handle_stun st now loc remote input s
        | DgDtls \<Rightarrow>
            (case require_selected_tuple loc remote s of
               Inl e \<Rightarrow> (Inl e, s)
             | Inr _ \<Rightarrow>
                 if se_state s \<notin> {SessionDtlsHandshaking, SessionConnected} then (Inl (UnexpectedDatagram DgDtls), s)
                 else (Inr [DtlsInput input], s))
        | DgRtp \<Rightarrow>
            (case bind_r (require_selected_tuple loc remote s) (\<lambda>_. ok_or SrtpNotReady (se_srtp s)) of
               Inl e \<Rightarrow> (Inl e, s)
             | Inr ctx \<Rightarrow>
                 let (r, ctx) = unprotect_rtp cr ctx input; s = s\<lparr>se_srtp := Some ctx\<rparr> in
                 (bind_r (map_err SessionSrtp r) (\<lambda>plaintext.
                  bind_r (map_err SessionRtp (parse plaintext)) (\<lambda>_. Inr [InboundRtp plaintext])), s))
        | DgRtcp \<Rightarrow>
            (case bind_r (require_selected_tuple loc remote s) (\<lambda>_. ok_or SrtpNotReady (se_srtp s)) of
               Inl e \<Rightarrow> (Inl e, s)
             | Inr ctx \<Rightarrow>
                 let (r, ctx) = unprotect_rtcp cr ctx input; s = s\<lparr>se_srtp := Some ctx\<rparr> in
                 (bind_r (map_err SessionSrtp r) (\<lambda>plaintext.
                  bind_r (map_err SessionRtcp (parse_compound plaintext)) (\<lambda>packets.
                    Inr [InboundRtcp plaintext packets])), s))
        | kind \<Rightarrow> (Inl (UnexpectedDatagram kind), s))"

definition session_tick :: "duration \<Rightarrow> session \<Rightarrow> session_action list \<times> session" where
  "session_tick now s =
     (let (events, ice) = ice_tick now (se_ice s) in apply_ice_events events ([], s\<lparr>se_ice := ice\<rparr>))"

definition install_dtls_keying_material ::
    "crypto \<Rightarrow> directional_keying_material \<Rightarrow> session \<Rightarrow>
     (session_error, session_action list) result \<times> session" where
  "install_dtls_keying_material cr keying s =
     (if se_state s \<noteq> SessionDtlsHandshaking then (Inl (InvalidState (se_state s)), s)
      else
        let (actions, s) = session_transition SessionConnected
              (s\<lparr>se_srtp := Some (sx_new cr (dk_profile keying) (dk_outbound keying) (dk_inbound keying))\<rparr>)
        in (Inr actions, s))"

definition session_protect ::
    "(srtp_context \<Rightarrow> bytes \<Rightarrow> (srtp_error, unit) result \<times> srtp_context \<times> bytes) \<Rightarrow>
     bytes \<Rightarrow> session \<Rightarrow> (session_error, transmit) result \<times> session" where
  "session_protect seal packet s =
     (case se_srtp s of
        None \<Rightarrow> (Inl SrtpNotReady, s)
      | Some ctx \<Rightarrow>
          let (r, ctx, packet) = seal ctx packet; s = s\<lparr>se_srtp := Some ctx\<rparr> in
          (bind_r (map_err SessionSrtp r) (\<lambda>_. selected_transmit packet s), s))"

definition session_protect_rtp :: "crypto \<Rightarrow> bytes \<Rightarrow> session \<Rightarrow> (session_error, transmit) result \<times> session" where
  "session_protect_rtp cr = session_protect (protect_rtp cr)"

definition session_protect_rtcp :: "crypto \<Rightarrow> bytes \<Rightarrow> session \<Rightarrow> (session_error, transmit) result \<times> session" where
  "session_protect_rtcp cr = session_protect (protect_rtcp cr)"

definition transmit_dtls :: "bytes \<Rightarrow> session \<Rightarrow> (session_error, transmit) result" where
  "transmit_dtls pl s = selected_transmit pl s"

definition session_close :: "session \<Rightarrow> session_action list \<times> session" where
  "session_close s = session_transition SessionClosed (s\<lparr>se_srtp := None\<rparr>)"

definition restart_ice :: "configuration \<Rightarrow> session \<Rightarrow> session" where
  "restart_ice c s = s\<lparr>se_ice := restart c (se_ice s), se_selected_local := None, se_selected_remote := None,
     se_state := SessionNew\<rparr>"

section \<open>Histories\<close>

datatype session_call =
    SessionDatagram duration socket_addr socket_addr bytes
  | SessionTick duration
  | InstallKeys directional_keying_material
  | ProtectRtp bytes
  | ProtectRtcp bytes
  | CloseSession
  | RestartIce configuration

fun session_step :: "crypto \<Rightarrow> stun_crypto \<Rightarrow> session_call \<Rightarrow> session \<Rightarrow> session" where
  "session_step cr st (SessionDatagram now loc remote input) s = snd (session_handle_datagram cr st now loc remote input s)"
| "session_step cr st (SessionTick now) s = snd (session_tick now s)"
| "session_step cr st (InstallKeys keying) s = snd (install_dtls_keying_material cr keying s)"
| "session_step cr st (ProtectRtp p) s = snd (session_protect_rtp cr p s)"
| "session_step cr st (ProtectRtcp p) s = snd (session_protect_rtcp cr p s)"
| "session_step cr st CloseSession s = snd (session_close s)"
| "session_step cr st (RestartIce c) s = restart_ice c s"

definition session_run :: "crypto \<Rightarrow> stun_crypto \<Rightarrow> session_call list \<Rightarrow> session \<Rightarrow> session" where
  "session_run cr st calls s = fold (session_step cr st) calls s"

section \<open>What the agent tells the session\<close>

text \<open>A datagram that nominates its pair under a configuration: an authenticated Binding request with
  USE-CANDIDATE.\<close>

definition nominating :: "stun_crypto \<Rightarrow> configuration \<Rightarrow> bytes \<Rightarrow> bool" where
  "nominating st c input \<longleftrightarrow>
     (\<exists>m alg. message_parse input = Inr m \<and> ms_kind m = \<lparr>mt_method = BINDING, mt_class = Request\<rparr> \<and>
        authentic st (agent_new c) m alg \<and> msg_use_candidate m)"

lemma agent_new_configuration [simp]: "ag_configuration (agent_new c) = c"
  by (simp add: agent_new_def)

lemma checked_authentic: "checked st a input m alg \<Longrightarrow> authentic st (agent_new (ag_configuration a)) m alg"
  unfolding checked_def authentic_def expected_username_def agent_new_configuration by blast

text \<open>The events of one datagram: at most a selection of its own addresses, then at most a change of
  state.\<close>

definition selection_event :: "stun_crypto \<Rightarrow> socket_addr \<Rightarrow> socket_addr \<Rightarrow> bytes \<Rightarrow> agent \<Rightarrow> ice_event list \<Rightarrow> agent \<Rightarrow> bool" where
  "selection_event st loc remote input a sel a' \<longleftrightarrow>
     sel = [] \<and> ag_selected_pair a' = ag_selected_pair a \<or>
     (\<exists>p. sel = [SelectedPair p] \<and> ag_selected_pair a' = Some p \<and> endpoints p = (loc, remote) \<and>
        nominating st (ag_configuration a) input)"

definition change_event :: "agent \<Rightarrow> ice_event list \<Rightarrow> agent \<Rightarrow> bool" where
  "change_event a changes a' \<longleftrightarrow>
     changes = [] \<and> ag_state a' = ag_state a \<or>
     changes = [StateChanged (ag_state a) (ag_state a')] \<and> ag_state a' \<noteq> ag_state a"

lemma ice_datagram_effect:
  assumes "handle_datagram st now loc remote input a = (r, a')"
  shows "ag_configuration a' = ag_configuration a \<and>
     (case r of Inl e \<Rightarrow> ag_state a' = ag_state a \<and> ag_selected_pair a' = ag_selected_pair a
      | Inr out \<Rightarrow> \<exists>sel changes. ho_events out = sel @ changes \<and> selection_event st loc remote input a sel a' \<and>
          change_event a changes a' \<and> (ag_state a' = ag_state a \<or> ag_state a' \<in> {IceConnected, IceCompleted}))"
proof (cases "\<exists>m alg. checked st a input m alg")
  case False
  then obtain e where "handle_datagram st now loc remote input a = (Inl e, a)" using handle_unchecked by blast
  with assms show ?thesis by auto
next
  case True
  then obtain m alg where c: "checked st a input m alg" by blast
  show ?thesis
  proof (cases "valid_check m")
    case False
    from handle_invalid [OF c this, of now loc remote] assms show ?thesis
      by (auto simp: error_reply_def selection_event_def change_event_def)
  next
    case True
    from c True show ?thesis
    proof (cases rule: handle_valid [where now = now and loc = loc and remote = remote])
      case (limit priority a1)
      have "a1 = a\<lparr>ag_last_authenticated := Some now\<rparr>"
        using limit(2) by (rule record_valid_pair_cases) simp_all
      with limit(3) assms show ?thesis by auto
    next
      case (answered priority events a1 tm changes a2)
      let ?nom = "msg_use_candidate m"
      from answered(2) obtain pair pairs where ev: "events = (if ?nom \<and> ag_selected_pair a \<noteq> Some pair then [SelectedPair pair] else [])"
        and a1: "a1 = a\<lparr>ag_last_authenticated := Some now, ag_pairs := pairs,
          ag_selected_pair := if ?nom then Some pair else ag_selected_pair a\<rparr>" and pn: "pair_now now loc remote priority pair"
        by (rule record_valid_pair_cases) auto
      let ?t = "if ?nom \<or> ag_selected_pair a1 \<noteq> None then IceCompleted else IceConnected"
      have a2: "a2 = snd (transition ?t a1)" "changes = fst (transition ?t a1)"
        using answered(3) by (simp_all add: transition_after_check_def)
      have "?nom \<Longrightarrow> nominating st (ag_configuration a) input"
        using c checked_authentic [OF c] unfolding nominating_def checked_def by blast
      then have "selection_event st loc remote input a events a2"
        unfolding a2(1) selection_event_def using pn by (auto simp: ev a1 pair_now_def)
      moreover have "change_event a changes a2"
        unfolding a2 change_event_def by (simp add: transition_def a1)
      moreover have "ag_state a2 \<in> {IceConnected, IceCompleted}" "ag_configuration a2 = ag_configuration a"
        unfolding a2 by (simp_all add: a1)
      ultimately show ?thesis using answered(5) assms by auto
    qed
  qed
qed

lemma ice_tick_effect:
  assumes "ice_tick now a = (changes, a')"
  shows "ag_configuration a' = ag_configuration a \<and> ag_selected_pair a' = ag_selected_pair a \<and>
     change_event a changes a' \<and> (ag_state a' = ag_state a \<or> ag_state a' \<in> {IceDisconnected, IceFailed})"
  using assms
  by (cases "ag_last_authenticated a") (auto simp: ice_tick_def change_event_def transition_def Let_def split: if_splits)

section \<open>Invariant\<close>

definition selected_agrees :: "socket_addr option \<Rightarrow> socket_addr option \<Rightarrow> candidate_pair option \<Rightarrow> bool" where
  "selected_agrees loc remote pair \<longleftrightarrow>
     loc = map_option cp_local pair \<and> remote = map_option cp_remote pair"

fun state_agrees :: "session_state \<Rightarrow> ice_state \<Rightarrow> bool \<Rightarrow> bool" where
  "state_agrees SessionNew ice keyed \<longleftrightarrow> ice \<in> {IceNew, IceConnected}"
| "state_agrees SessionDtlsHandshaking ice keyed \<longleftrightarrow> ice = IceCompleted \<and> \<not> keyed"
| "state_agrees SessionConnected ice keyed \<longleftrightarrow> ice = IceCompleted \<and> keyed"
| "state_agrees SessionDisconnected ice keyed \<longleftrightarrow> ice \<in> {IceDisconnected, IceConnected}"
| "state_agrees SessionFailed ice keyed \<longleftrightarrow> ice = IceFailed"
| "state_agrees SessionClosed ice keyed \<longleftrightarrow> \<not> keyed"

definition session_inv :: "session \<Rightarrow> bool" where
  "session_inv s \<longleftrightarrow>
     agent_inv (se_ice s) \<and>
     selected_agrees (se_selected_local s) (se_selected_remote s) (ag_selected_pair (se_ice s)) \<and>
     state_agrees (se_state s) (ag_state (se_ice s)) (se_srtp s \<noteq> None)"

text \<open>Applying the events of the agent to the session.\<close>

lemma apply_events_simps [simp]:
  "apply_ice_events [] x = x"
  "apply_ice_events (e # es) x = apply_ice_events es (apply_ice_event e x)"
  "apply_ice_events (es @ fs) x = apply_ice_events fs (apply_ice_events es x)"
  by (simp_all add: apply_ice_events_def)

lemma session_transition_simps [simp]:
  "se_state (snd (session_transition t s)) = t" "se_ice (snd (session_transition t s)) = se_ice s"
  "se_selected_local (snd (session_transition t s)) = se_selected_local s"
  "se_selected_remote (snd (session_transition t s)) = se_selected_remote s"
  "se_srtp (snd (session_transition t s)) = se_srtp s"
  by (auto simp: session_transition_def)

lemma apply_change:
  "snd (apply_ice_event (StateChanged f t) (actions, s)) = snd (session_transition (ice_target t s) s)"
  by (simp add: Let_def split: prod.splits)

lemma apply_selection:
  assumes "selection_event st loc remote input a sel a'"
    and "selected_agrees (se_selected_local s) (se_selected_remote s) (ag_selected_pair a)"
    and "apply_ice_events sel (actions, s) = (actions', s')"
  shows "selected_agrees (se_selected_local s') (se_selected_remote s') (ag_selected_pair a') \<and>
     se_state s' = se_state s \<and> se_srtp s' = se_srtp s \<and> se_ice s' = se_ice s \<and> actions' = actions"
  using assms by (auto simp: selection_event_def selected_agrees_def)

lemma apply_state_change:
  assumes "change_event a changes a'" and "state_agrees (se_state s) (ag_state a) keyed" and "keyed = (se_srtp s \<noteq> None)"
    and "ag_state a' = ag_state a \<or> ag_state a' \<in> {IceConnected, IceCompleted} \<and> ag_state a \<noteq> IceFailed \<and> se_state s \<noteq> SessionClosed \<and>
        (ag_state a' = IceConnected \<longrightarrow> ag_state a \<noteq> IceCompleted) \<or>
      ag_state a' \<in> {IceDisconnected, IceFailed}"
    and "apply_ice_events changes (actions, s) = (actions', s')"
  shows "state_agrees (se_state s') (ag_state a') keyed \<and> se_selected_local s' = se_selected_local s \<and>
     se_selected_remote s' = se_selected_remote s \<and> se_srtp s' = se_srtp s \<and> se_ice s' = se_ice s"
proof (cases "ag_state a' = ag_state a")
  case True
  with assms show ?thesis by (auto simp: change_event_def)
next
  case False
  with assms(1,5) have s': "s' = snd (session_transition (ice_target (ag_state a') s) s)"
    using apply_change [of "ag_state a" "ag_state a'" actions s] by (auto simp: change_event_def)
  from assms(2-4) False show ?thesis
    unfolding s' by (cases "se_state s"; cases "ag_state a'") auto
qed


lemma session_inv_stun:
  assumes "session_inv s" and "se_state s \<noteq> SessionClosed" and "session_handle_stun st now loc remote input s = (r, s')"
  shows "session_inv s'"
proof -
  let ?a = "se_ice s"
  obtain q a' where h: "handle_datagram st now loc remote input ?a = (q, a')" by fastforce
  note eff = ice_datagram_effect [OF h]
  have inv': "agent_inv a'" and inv: "agent_inv ?a"
    using agent_inv_handle [of ?a st now loc remote input] assms(1) h by (simp_all add: session_inv_def)
  show ?thesis
  proof (cases q)
    case (Inl e)
    with assms h eff inv' show ?thesis by (auto simp: session_handle_stun_def session_inv_def)
  next
    case (Inr out)
    with eff obtain sel changes where ev: "ho_events out = sel @ changes" and sel: "selection_event st loc remote input ?a sel a'"
      and ch: "change_event ?a changes a'" and to: "ag_state a' = ag_state ?a \<or> ag_state a' \<in> {IceConnected, IceCompleted}"
      by auto
    let ?x = "([TransmitAction (ho_transmit out)], s\<lparr>se_ice := a'\<rparr>)"
    obtain acts1 s1 where s1: "apply_ice_events sel ?x = (acts1, s1)" by fastforce
    obtain acts2 s2 where s2: "apply_ice_events changes (acts1, s1) = (acts2, s2)" by fastforce
    have s': "s' = s2" using assms(3) h Inr ev s1 s2 by (simp add: session_handle_stun_def)
    have "selected_agrees (se_selected_local (s\<lparr>se_ice := a'\<rparr>)) (se_selected_remote (s\<lparr>se_ice := a'\<rparr>)) (ag_selected_pair ?a)"
      using assms(1) by (simp add: session_inv_def)
    note one = apply_selection [OF sel this s1]
    have keyed: "state_agrees (se_state s1) (ag_state ?a) (se_srtp s1 \<noteq> None)"
      using assms(1) one by (simp add: session_inv_def)
    have "ag_state a' = IceConnected \<longrightarrow> ag_state ?a \<noteq> IceCompleted"
      using inv inv' sel by (auto simp: agent_inv_def state_inv_def selection_event_def)
    moreover have "ag_state a' \<noteq> ag_state ?a \<longrightarrow> ag_state ?a \<noteq> IceFailed"
      using h Inr by (auto simp: handle_datagram_def)
    ultimately have "ag_state a' = ag_state ?a \<or> ag_state a' \<in> {IceConnected, IceCompleted} \<and> ag_state ?a \<noteq> IceFailed \<and>
        se_state s1 \<noteq> SessionClosed \<and> (ag_state a' = IceConnected \<longrightarrow> ag_state ?a \<noteq> IceCompleted) \<or>
      ag_state a' \<in> {IceDisconnected, IceFailed}"
      using to one assms(2) by auto
    from apply_state_change [OF ch keyed refl this s2] one inv' show ?thesis
      unfolding s' session_inv_def by simp
  qed
qed

lemma session_inv_tick: "session_inv s \<Longrightarrow> session_inv (snd (session_tick now s))"
proof -
  assume inv: "session_inv s"
  obtain changes a' where t: "ice_tick now (se_ice s) = (changes, a')" by fastforce
  note eff = ice_tick_effect [OF t]
  obtain acts s' where s': "apply_ice_events changes ([], s\<lparr>se_ice := a'\<rparr>) = (acts, s')" by fastforce
  have "state_agrees (se_state (s\<lparr>se_ice := a'\<rparr>)) (ag_state (se_ice s)) (se_srtp (s\<lparr>se_ice := a'\<rparr>) \<noteq> None)"
    using inv by (simp add: session_inv_def)
  from apply_state_change [OF _ this refl _ s', of a'] eff
  have "state_agrees (se_state s') (ag_state a') (se_srtp s' \<noteq> None) \<and> se_selected_local s' = se_selected_local s \<and>
      se_selected_remote s' = se_selected_remote s \<and> se_ice s' = a'" by auto
  moreover have "agent_inv a'" using agent_inv_tick [of "se_ice s" now] inv t by (simp add: session_inv_def)
  ultimately show ?thesis
    using inv eff s' t by (simp add: session_tick_def session_inv_def)
qed

text \<open>Calls that only touch the SRTP context, keyed or not as before.\<close>

lemma session_inv_srtp:
  assumes "session_inv s" and "se_srtp s \<noteq> None"
  shows "session_inv (s\<lparr>se_srtp := Some ctx\<rparr>)"
  using assms by (simp add: session_inv_def)

lemma session_inv_protect: "session_inv s \<Longrightarrow> session_inv (snd (session_protect seal p s))"
  by (auto simp: session_protect_def session_inv_srtp Let_def split: option.splits prod.splits)

lemma session_handle_cases:
  assumes "session_handle_datagram cr st now loc remote input s = (r, s')"
  obtains (refused) e where "r = Inl e" "s' = s"
    | (stun) "se_state s \<noteq> SessionClosed" "classify input = DgStun" "session_handle_stun st now loc remote input s = (r, s')"
    | (dtls) "se_selected_local s = Some loc" "se_selected_remote s = Some remote" "r = Inr [DtlsInput input]" "s' = s"
        "se_state s \<in> {SessionDtlsHandshaking, SessionConnected}"
    | (rtp) ctx q ctx' where "se_selected_local s = Some loc" "se_selected_remote s = Some remote" "se_srtp s = Some ctx"
        "unprotect_rtp cr ctx input = (q, ctx')" "s' = s\<lparr>se_srtp := Some ctx'\<rparr>"
        "r = bind_r (map_err SessionSrtp q) (\<lambda>p. bind_r (map_err SessionRtp (parse p)) (\<lambda>_. Inr [InboundRtp p]))"
    | (rtcp) ctx q ctx' where "se_selected_local s = Some loc" "se_selected_remote s = Some remote" "se_srtp s = Some ctx"
        "unprotect_rtcp cr ctx input = (q, ctx')" "s' = s\<lparr>se_srtp := Some ctx'\<rparr>"
        "r = bind_r (map_err SessionSrtp q) (\<lambda>p. bind_r (map_err SessionRtcp (parse_compound p)) (\<lambda>ps. Inr [InboundRtcp p ps]))"
proof (cases "se_state s = SessionClosed")
  case True
  with assms refused [of ClosedSession] show ?thesis by (auto simp: session_handle_datagram_def)
next
  case False
  note open_session = this
  show ?thesis
  proof (cases "classify input")
    case DgStun
    with assms open_session stun show ?thesis by (simp add: session_handle_datagram_def)
  next
    case DgDtls
    with assms open_session show ?thesis
      by (cases "require_selected_tuple loc remote s")
        (auto simp: session_handle_datagram_def require_selected_tuple_def split: if_splits intro: refused dtls)
  next
    case DgRtp
    show ?thesis
    proof (cases "bind_r (require_selected_tuple loc remote s) (\<lambda>_. ok_or SrtpNotReady (se_srtp s))")
      case (Inl e)
      with assms open_session DgRtp refused [of e] show ?thesis by (auto simp: session_handle_datagram_def)
    next
      case (Inr ctx)
      obtain q ctx' where u: "unprotect_rtp cr ctx input = (q, ctx')" by fastforce
      from Inr have "se_selected_local s = Some loc" "se_selected_remote s = Some remote" "se_srtp s = Some ctx"
        by (auto simp: bind_r_eq_Inr ok_or_eq_Inr require_selected_tuple_def split: if_splits)
      with rtp u Inr assms open_session DgRtp show ?thesis by (simp add: session_handle_datagram_def)
    qed
  next
    case DgRtcp
    show ?thesis
    proof (cases "bind_r (require_selected_tuple loc remote s) (\<lambda>_. ok_or SrtpNotReady (se_srtp s))")
      case (Inl e)
      with assms open_session DgRtcp refused [of e] show ?thesis by (auto simp: session_handle_datagram_def)
    next
      case (Inr ctx)
      obtain q ctx' where u: "unprotect_rtcp cr ctx input = (q, ctx')" by fastforce
      from Inr have "se_selected_local s = Some loc" "se_selected_remote s = Some remote" "se_srtp s = Some ctx"
        by (auto simp: bind_r_eq_Inr ok_or_eq_Inr require_selected_tuple_def split: if_splits)
      with rtcp u Inr assms open_session DgRtcp show ?thesis by (simp add: session_handle_datagram_def)
    qed
  qed (use assms open_session refused in \<open>auto simp: session_handle_datagram_def\<close>)
qed

lemma session_inv_datagram:
  assumes "session_inv s" and "session_handle_datagram cr st now loc remote input s = (r, s')"
  shows "session_inv s'"
  using assms(2)
proof (cases rule: session_handle_cases)
  case stun
  then show ?thesis using session_inv_stun [OF assms(1)] by blast
qed (use assms(1) session_inv_srtp in \<open>simp_all\<close>)

lemma session_inv_new: "session_inv (session_new (agent_new c))"
  by (simp add: session_inv_def session_new_def agent_inv_new selected_agrees_def) (simp add: agent_new_def)

lemma session_inv_restart: "session_inv (restart_ice c s)"
  by (simp add: session_inv_def restart_ice_def agent_inv_restart selected_agrees_def) (simp add: restart_def)

lemma session_inv_close: "session_inv s \<Longrightarrow> session_inv (snd (session_close s))"
  by (simp add: session_inv_def session_close_def)

lemma session_inv_install: "session_inv s \<Longrightarrow> session_inv (snd (install_dtls_keying_material cr keying s))"
  by (auto simp: session_inv_def install_dtls_keying_material_def session_transition_def)

lemma session_inv_step: "session_inv s \<Longrightarrow> session_inv (session_step cr st c s)"
proof (cases c)
  case (SessionDatagram now loc remote input)
  assume "session_inv s"
  with SessionDatagram show ?thesis
    using session_inv_datagram [of s cr st now loc remote input] by (metis prod.collapse session_step.simps(1))
qed (simp_all add: session_inv_tick session_inv_install session_protect_rtp_def session_protect_rtcp_def
  session_inv_protect session_inv_close session_inv_restart)

lemma session_inv_run: "session_inv s \<Longrightarrow> session_inv (session_run cr st calls s)"
  unfolding session_run_def by (induction calls arbitrary: s) (simp_all add: session_inv_step)


section \<open>Nominated addresses and installed keys\<close>

text \<open>What a history has established: the configuration of the current ICE generation, the pairs of
  addresses that authenticated checks have nominated in it, both computed from the calls alone, and the
  keying material that was installed last and accepted, if the session was not closed since.\<close>

fun nominated_by :: "stun_crypto \<Rightarrow> session_call \<Rightarrow>
    configuration \<times> (socket_addr \<times> socket_addr) set \<Rightarrow> configuration \<times> (socket_addr \<times> socket_addr) set" where
  "nominated_by st (SessionDatagram now loc remote input) (c, pairs) =
     (c, if nominating st c input then insert (loc, remote) pairs else pairs)"
| "nominated_by st (RestartIce c') (c, pairs) = (c', {})"
| "nominated_by st _ (c, pairs) = (c, pairs)"

fun keys_given :: "crypto \<Rightarrow> session \<Rightarrow> session_call \<Rightarrow> directional_keying_material option \<Rightarrow>
    directional_keying_material option" where
  "keys_given cr s (InstallKeys keying) keys =
     (if is_ok (fst (install_dtls_keying_material cr keying s)) then Some keying else keys)"
| "keys_given cr s CloseSession keys = None"
| "keys_given cr s _ keys = keys"

fun keys_installed :: "crypto \<Rightarrow> stun_crypto \<Rightarrow> session_call list \<Rightarrow> session \<Rightarrow>
    directional_keying_material option \<Rightarrow> directional_keying_material option" where
  "keys_installed cr st [] s keys = keys"
| "keys_installed cr st (call # calls) s keys =
     keys_installed cr st calls (session_step cr st call s) (keys_given cr s call keys)"

definition keyed_with :: "crypto \<Rightarrow> directional_keying_material \<Rightarrow> srtp_context \<Rightarrow> bool" where
  "keyed_with cr k ctx \<longleftrightarrow> sx_profile ctx = dk_profile k \<and>
     sx_inbound_rtp_keys ctx = derive_srtp cr (dk_inbound k) \<and> sx_inbound_rtcp_keys ctx = derive_srtcp cr (dk_inbound k) \<and>
     sx_outbound_rtp_keys ctx = derive_srtp cr (dk_outbound k) \<and> sx_outbound_rtcp_keys ctx = derive_srtcp cr (dk_outbound k)"

definition established ::
    "crypto \<Rightarrow> configuration \<Rightarrow> (socket_addr \<times> socket_addr) set \<Rightarrow> directional_keying_material option \<Rightarrow> session \<Rightarrow> bool" where
  "established cr c pairs keys s \<longleftrightarrow>
     ag_configuration (se_ice s) = c \<and>
     (\<forall>loc remote. se_selected_local s = Some loc \<longrightarrow> se_selected_remote s = Some remote \<longrightarrow> (loc, remote) \<in> pairs) \<and>
     (\<forall>ctx. se_srtp s = Some ctx \<longrightarrow> (\<exists>k. keys = Some k \<and> keyed_with cr k ctx))"

lemma unprotect_keyed:
  "unprotect_rtp cr ctx input = (q, ctx') \<Longrightarrow> keyed_with cr k ctx' = keyed_with cr k ctx"
  "unprotect_rtcp cr ctx input = (q, ctx') \<Longrightarrow> keyed_with cr k ctx' = keyed_with cr k ctx"
  by (auto simp: unprotect_rtp_def unprotect_rtcp_def keyed_with_def split: sum.splits)

lemma protect_keyed:
  "protect_rtp cr ctx p = (r, ctx', c) \<Longrightarrow> keyed_with cr k ctx' = keyed_with cr k ctx"
  "protect_rtcp cr ctx p = (r, ctx', c) \<Longrightarrow> keyed_with cr k ctx' = keyed_with cr k ctx"
proof -
  assume "protect_rtp cr ctx p = (r, ctx', c)"
  then show "keyed_with cr k ctx' = keyed_with cr k ctx"
    by (cases rule: protect_rtp_cases) (auto simp: keyed_with_def)
next
  assume "protect_rtcp cr ctx p = (r, ctx', c)"
  then show "keyed_with cr k ctx' = keyed_with cr k ctx"
    by (cases rule: protect_rtcp_cases) (auto simp: keyed_with_def)
qed

lemma established_srtp:
  assumes "established cr c pairs keys s" and "se_srtp s = Some ctx" and "\<And>k. keyed_with cr k ctx' = keyed_with cr k ctx"
  shows "established cr c pairs keys (s\<lparr>se_srtp := Some ctx'\<rparr>)"
  using assms by (simp add: established_def)

lemma established_protect:
  assumes "established cr c pairs keys s" and "\<And>ctx r ctx' p'. seal ctx p = (r, ctx', p') \<Longrightarrow> (\<And>k. keyed_with cr k ctx' = keyed_with cr k ctx)"
  shows "established cr c pairs keys (snd (session_protect seal p s))"
proof (cases "se_srtp s")
  case None
  with assms(1) show ?thesis by (simp add: session_protect_def)
next
  case (Some ctx)
  obtain r ctx' p' where e: "seal ctx p = (r, ctx', p')" using prod_cases3 by blast
  from established_srtp [OF assms(1) Some assms(2) [OF e]] Some e show ?thesis by (simp add: session_protect_def Let_def)
qed

lemma session_transition_established:
  "established cr c pairs keys (snd (session_transition t s)) = established cr c pairs keys s"
  by (simp add: established_def)

lemma apply_change_established:
  assumes "change_event a changes a'" and "apply_ice_events changes (acts, s) = (acts', s')"
  shows "established cr c pairs keys s' = established cr c pairs keys s"
proof -
  have "s' = s \<or> (\<exists>t. s' = snd (session_transition t s))"
    using assms apply_change [of "ag_state a" "ag_state a'" acts s] by (auto simp: change_event_def)
  then show ?thesis by (auto simp: session_transition_established)
qed

lemma established_stun:
  assumes "established cr c pairs keys s" and "session_handle_stun st now loc remote input s = (r, s')"
  shows "established cr c (if nominating st c input then insert (loc, remote) pairs else pairs) keys s'"
    (is "established cr c ?pairs keys s'")
proof -
  have up: "established cr c ?pairs keys s" using assms(1) by (auto simp: established_def)
  let ?a = "se_ice s"
  obtain q a' where h: "handle_datagram st now loc remote input ?a = (q, a')" by fastforce
  note eff = ice_datagram_effect [OF h]
  have base: "established cr c ?pairs keys (s\<lparr>se_ice := a'\<rparr>)" using up eff by (simp add: established_def)
  show ?thesis
  proof (cases q)
    case (Inl e)
    with assms(2) h base show ?thesis by (simp add: session_handle_stun_def)
  next
    case (Inr out)
    with eff obtain sel changes where ev: "ho_events out = sel @ changes" and sel: "selection_event st loc remote input ?a sel a'"
      and ch: "change_event ?a changes a'" by auto
    obtain acts1 s1 where s1: "apply_ice_events sel ([TransmitAction (ho_transmit out)], s\<lparr>se_ice := a'\<rparr>) = (acts1, s1)" by fastforce
    obtain acts2 s2 where s2: "apply_ice_events changes (acts1, s1) = (acts2, s2)" by fastforce
    have "established cr c ?pairs keys s1"
      using base sel s1 up by (auto simp: selection_event_def established_def)
    with apply_change_established [OF ch s2] assms(2) h Inr ev s1 s2 show ?thesis
      by (simp add: session_handle_stun_def)
  qed
qed

lemma established_tick: "established cr c pairs keys s \<Longrightarrow> established cr c pairs keys (snd (session_tick now s))"
proof -
  assume e: "established cr c pairs keys s"
  obtain changes a' where t: "ice_tick now (se_ice s) = (changes, a')" by fastforce
  obtain acts s' where s': "apply_ice_events changes ([], s\<lparr>se_ice := a'\<rparr>) = (acts, s')" by fastforce
  have "established cr c pairs keys (s\<lparr>se_ice := a'\<rparr>)" using e ice_tick_effect [OF t] by (simp add: established_def)
  with apply_change_established [OF _ s'] ice_tick_effect [OF t] s' t show ?thesis
    by (auto simp: session_tick_def)
qed

lemma established_datagram:
  assumes "established cr c pairs keys s" and "session_handle_datagram cr st now loc remote input s = (r, s')"
  shows "established cr c (if nominating st c input then insert (loc, remote) pairs else pairs) keys s'"
proof -
  have mono: "established cr c (if nominating st c input then insert (loc, remote) pairs else pairs) keys t"
    if "established cr c pairs keys t" for t
    using that by (auto simp: established_def)
  from assms(2) show ?thesis
  proof (cases rule: session_handle_cases)
    case (refused e)
    with mono assms(1) show ?thesis by simp
  next
    case stun
    then show ?thesis using established_stun [OF assms(1)] by blast
  next
    case dtls
    with mono assms(1) show ?thesis by simp
  next
    case (rtp ctx q ctx')
    with established_srtp [OF assms(1) rtp(3) unprotect_keyed(1) [OF rtp(4)]] mono show ?thesis by simp
  next
    case (rtcp ctx q ctx')
    with established_srtp [OF assms(1) rtcp(3) unprotect_keyed(2) [OF rtcp(4)]] mono show ?thesis by simp
  qed
qed

lemma keyed_with_new: "keyed_with cr k (sx_new cr (dk_profile k) (dk_outbound k) (dk_inbound k))"
  by (simp add: keyed_with_def sx_new_def)

lemma established_step:
  assumes "established cr c pairs keys s" and "nominated_by st call (c, pairs) = (c', pairs')"
  shows "established cr c' pairs' (keys_given cr s call keys) (session_step cr st call s)"
proof (cases call)
  case (SessionDatagram now loc remote input)
  with assms(2) established_datagram [OF assms(1), of st now loc remote input] show ?thesis
    by (metis keys_given.simps(3) nominated_by.simps(1) old.prod.inject prod.collapse session_step.simps(1))
next
  case (SessionTick now)
  with assms established_tick show ?thesis by simp
next
  case (InstallKeys k)
  show ?thesis
  proof (cases "se_state s = SessionDtlsHandshaking")
    case False
    with assms InstallKeys show ?thesis by (simp add: install_dtls_keying_material_def)
  next
    case True
    have "established cr c pairs (Some k)
        (s\<lparr>se_srtp := Some (sx_new cr (dk_profile k) (dk_outbound k) (dk_inbound k))\<rparr>)"
      using assms(1) keyed_with_new [of cr k] by (simp add: established_def)
    with True assms(2) InstallKeys session_transition_established [of cr c pairs "Some k" SessionConnected]
    show ?thesis by (simp add: install_dtls_keying_material_def split: prod.splits) (metis snd_conv)
  qed
next
  case (ProtectRtp p)
  with assms established_protect [OF assms(1) protect_keyed(1)] show ?thesis by (simp add: session_protect_rtp_def)
next
  case (ProtectRtcp p)
  with assms established_protect [OF assms(1) protect_keyed(2)] show ?thesis by (simp add: session_protect_rtcp_def)
next
  case CloseSession
  with assms show ?thesis by (simp add: session_close_def session_transition_established established_def)
next
  case (RestartIce c1)
  with assms show ?thesis by (simp add: restart_ice_def established_def restart_def)
qed

lemma established_run:
  assumes "established cr c pairs keys s" and "fold (nominated_by st) calls (c, pairs) = (c', pairs')"
  shows "established cr c' pairs' (keys_installed cr st calls s keys) (session_run cr st calls s)"
  using assms
proof (induction calls arbitrary: c pairs keys s)
  case Nil
  then show ?case by (simp add: session_run_def)
next
  case (Cons call calls)
  obtain c1 pairs1 where n: "nominated_by st call (c, pairs) = (c1, pairs1)" by fastforce
  from Cons.IH [OF established_step [OF Cons.prems(1) n]] Cons.prems(2) n show ?case
    by (simp add: session_run_def)
qed


section \<open>Connecting\<close>

lemma classify_binding:
  assumes "message_parse input = Inr m" and "ms_kind m = \<lparr>mt_method = BINDING, mt_class = Request\<rparr>"
  shows "classify input = DgStun"
proof -
  obtain v xs where v: "message_type_decode v = Inr (ms_kind m)"
    and input: "input = to_be v @ to_be (word_of_nat (length (segments_bytes xs)) :: u16) @ to_be MAGIC_COOKIE @
      to_be (ms_transaction_id m) @ segments_bytes xs"
    by (rule message_parse_sound [OF assms(1)])
  have "v = message_type_encode (ms_kind m)" using encode_decode_type [OF v] by simp
  then have "v = 1" by (simp add: assms(2) message_type_encode_def BINDING_def)
  then have v: "to_be v = [0, 1]" by (simp add: to_be_u16)
  have cookie: "to_be MAGIC_COOKIE = [0x21, 0x12, 0xa4, 0x42]" by (simp add: MAGIC_COOKIE_def to_be_u32)
  have "get_range input 4 8 = Some [0x21, 0x12, 0xa4, 0x42]" "length input \<ge> 20"
    unfolding input v cookie by (simp_all add: get_range_def)
  then have "is_stun input" by (simp add: is_stun_def)
  moreover have "\<exists>tail. input = 0 # tail" unfolding input v by simp
  ultimately show ?thesis unfolding classify_def by auto
qed

text \<open>A nominating check takes a new session to the DTLS handshake on its own addresses.\<close>

lemma nomination_starts_dtls:
  assumes "checked st (se_ice s) input m alg" and "valid_check m" and "msg_use_candidate m"
    and "session_inv s" and "se_state s = SessionNew" and "se_srtp s = None"
    and "length (ag_pairs (se_ice s)) < cf_max_candidate_pairs (ag_configuration (se_ice s))"
  obtains actions s' where "session_handle_datagram cr st now loc remote input s = (Inr actions, s')"
    and "se_state s' = SessionDtlsHandshaking" and "se_selected_local s' = Some loc" and "se_selected_remote s' = Some remote"
    and "se_srtp s' = None" and "session_inv s'"
proof -
  let ?a = "se_ice s"
  have k: "message_parse input = Inr m" "ms_kind m = \<lparr>mt_method = BINDING, mt_class = Request\<rparr>"
    using assms(1) by (simp_all add: checked_def)
  have st: "ag_selected_pair ?a = None" "ag_state ?a \<noteq> IceCompleted"
    using assms(4,5) by (auto simp: session_inv_def agent_inv_def state_inv_def)
  obtain r s' where h: "session_handle_datagram cr st now loc remote input s = (r, s')" by fastforce
  then have h': "session_handle_stun st now loc remote input s = (r, s')"
    using assms(5) classify_binding [OF k] by (simp add: session_handle_datagram_def)
  from assms(1,2) show ?thesis
  proof (cases rule: handle_valid [where now = now and loc = loc and remote = remote])
    case (limit priority a1)
    from limit(2) assms(7) show ?thesis by (auto elim!: record_valid_pair_cases)
  next
    case (answered priority events a1 tm changes a2)
    from answered(2) obtain pair pairs where ev: "events = [SelectedPair pair]" and pn: "pair_now now loc remote priority pair"
      and a1: "ag_selected_pair a1 = Some pair" "ag_state a1 = ag_state ?a"
      using assms(3) st by (auto elim!: record_valid_pair_cases)
    have "changes = [StateChanged (ag_state ?a) IceCompleted]"
      using answered(3) assms(3) a1 st by (auto simp: transition_after_check_def transition_def)
    then have "is_ok r \<and> se_state s' = SessionDtlsHandshaking \<and> se_selected_local s' = Some loc \<and> se_selected_remote s' = Some remote \<and> se_srtp s' = None"
      using h' answered(5) ev pn assms(5,6) by (auto simp: session_handle_stun_def session_transition_def pair_now_def is_ok_def)
    moreover have "session_inv s'" by (rule session_inv_datagram [OF assms(4) h])
    ultimately show ?thesis using that h by (auto simp: is_ok_iff)
  qed
qed

lemma sample_connects:
  "\<exists>bs m s. checked sample_crypto sample_agent bs m AlgSha1 \<and> msg_use_candidate m \<and>
     session_run cr sample_crypto [SessionDatagram 7 (SockV4 1 2) (SockV4 3 4) bs] (session_new sample_agent) = s \<and>
     se_state s = SessionDtlsHandshaking \<and> se_selected_local s = Some (SockV4 1 2) \<and>
     se_selected_remote s = Some (SockV4 3 4) \<and> se_srtp s = None \<and> session_inv s"
proof -
  let ?s = "session_new sample_agent"
  obtain bs m where c: "checked sample_crypto sample_agent bs m AlgSha1" "valid_check m" "msg_use_candidate m"
    using sample_checked by blast
  have inv: "session_inv ?s" unfolding sample_agent_def by (rule session_inv_new)
  have n: "se_ice ?s = sample_agent" "se_state ?s = SessionNew" "se_srtp ?s = None" by (simp_all add: session_new_def)
  have room: "length (ag_pairs (se_ice ?s)) < cf_max_candidate_pairs (ag_configuration (se_ice ?s))"
    unfolding n(1) by (simp add: sample_agent_def agent_new_def configuration_new_def)
  obtain actions s' where h: "session_handle_datagram cr sample_crypto 7 (SockV4 1 2) (SockV4 3 4) bs ?s = (Inr actions, s')"
    and s': "se_state s' = SessionDtlsHandshaking" "se_selected_local s' = Some (SockV4 1 2)"
      "se_selected_remote s' = Some (SockV4 3 4)" "se_srtp s' = None" "session_inv s'"
    using nomination_starts_dtls [of sample_crypto ?s bs m AlgSha1, unfolded n(1)] c inv n(2,3) room unfolding n(1) by metis
  have "session_run cr sample_crypto [SessionDatagram 7 (SockV4 1 2) (SockV4 3 4) bs] ?s = s'"
    using h by (simp add: session_run_def)
  with c s' show ?thesis by blast
qed

section \<open>Delivery between two sessions\<close>

fun session_send :: "crypto \<Rightarrow> bytes list \<Rightarrow> session \<Rightarrow> (bytes \<times> transmit) list" where
  "session_send cr [] s = []"
| "session_send cr (p # ps) s =
     (case session_protect_rtp cr p s of
        (Inl _, s') \<Rightarrow> session_send cr ps s'
      | (Inr t, s') \<Rightarrow> (p, t) # session_send cr ps s')"

fun session_receive ::
    "crypto \<Rightarrow> stun_crypto \<Rightarrow> duration \<Rightarrow> socket_addr \<Rightarrow> socket_addr \<Rightarrow> bytes list \<Rightarrow> session \<Rightarrow>
     (session_error, session_action list) result list" where
  "session_receive cr st now loc remote [] s = []"
| "session_receive cr st now loc remote (d # ds) s =
     (let (r, s') = session_handle_datagram cr st now loc remote d s in r # session_receive cr st now loc remote ds s')"

lemma classify_rtp_prefix:
  assumes "classify p = DgRtp" and "take 2 c = take 2 p"
  shows "classify c = DgRtp"
proof -
  obtain a b rest where p: "p = a # b # rest" and a: "128 \<le> a" "a \<le> 191" and b: "\<not> (192 \<le> b \<and> b \<le> 223)"
    using assms(1) by (cases p; cases "tl p") (auto simp: classify_def split: if_splits)
  then obtain rest' where c: "c = a # b # rest'" using assms(2) by (cases c; cases "tl c") (auto simp: numeral_2_eq_2)
  have "drop_bit 6 a = 2" using a by (simp add: version_2_range)
  from classify_version_2 [OF this] b show ?thesis by (auto simp: c)
qed

definition session_in_step :: "socket_addr \<Rightarrow> socket_addr \<Rightarrow> session \<Rightarrow> session \<Rightarrow> bool" where
  "session_in_step loc remote A B \<longleftrightarrow>
     se_selected_local A \<noteq> None \<and> se_selected_remote A \<noteq> None \<and> se_state B \<noteq> SessionClosed \<and>
     se_selected_local B = Some loc \<and> se_selected_remote B = Some remote \<and>
     (\<exists>S R. se_srtp A = Some S \<and> se_srtp B = Some R \<and> in_step S R)"

lemma session_deliver:
  assumes sync: "session_in_step loc remote A B" and p: "session_protect_rtp cr p A = (r, A')" and c: "classify p = DgRtp"
  shows "case r of Inl _ \<Rightarrow> session_in_step loc remote A' B
    | Inr t \<Rightarrow> \<exists>B'. session_handle_datagram cr st now loc remote (tm_payload t) B = (Inr [InboundRtp p], B') \<and>
        session_in_step loc remote A' B'"
proof -
  from sync obtain S R where S: "se_srtp A = Some S" and R: "se_srtp B = Some R" and SR: "in_step S R"
    by (auto simp: session_in_step_def)
  obtain q S' d where seal: "protect_rtp cr S p = (q, S', d)" using prod_cases3 by blast
  note deliver = in_step_deliver [OF SR seal]
  have A': "A' = A\<lparr>se_srtp := Some S'\<rparr>" and r: "r = bind_r (map_err SessionSrtp q) (\<lambda>_. selected_transmit d (A\<lparr>se_srtp := Some S'\<rparr>))"
    using p seal S by (auto simp: session_protect_rtp_def session_protect_def Let_def)
  show ?thesis
  proof (cases q)
    case (Inl e)
    with deliver sync R show ?thesis by (simp add: r A' session_in_step_def)
  next
    case (Inr u)
    with deliver obtain R' where u: "unprotect_rtp cr R d = (Inr p, R')" "in_step S' R'" by auto
    from sync obtain l m where lm: "se_selected_local A = Some l" "se_selected_remote A = Some m"
      by (auto simp: session_in_step_def)
    have t: "r = Inr \<lparr>tm_source = l, tm_destination = m, tm_payload = d\<rparr>"
      by (simp add: r Inr selected_transmit_def lm)
    from seal Inr obtain x where x: "parse p = Inr x" and d: "\<exists>tail. d = take (p_header_len x) p @ tail"
      by (auto elim!: protect_rtp_cases)
    have "12 \<le> p_header_len x" "p_header_len x \<le> length p"
      using parse_parts [OF x] by auto
    then have "take 2 d = take 2 p" using d by auto
    with c have "classify d = DgRtp" by (rule classify_rtp_prefix)
    then have "session_handle_datagram cr st now loc remote d B = (Inr [InboundRtp p], B\<lparr>se_srtp := Some R'\<rparr>)"
      using sync R u(1) x by (simp add: session_handle_datagram_def session_in_step_def require_selected_tuple_def)
    moreover have "session_in_step loc remote A' (B\<lparr>se_srtp := Some R'\<rparr>)"
      using sync u(2) lm by (simp add: A' session_in_step_def)
    ultimately show ?thesis by (simp add: t)
  qed
qed

lemma session_stream_delivered:
  assumes "session_in_step loc remote A B" and "\<forall>p\<in>set ps. classify p = DgRtp"
  shows "session_receive cr st now loc remote (map (\<lambda>x. tm_payload (snd x)) (session_send cr ps A)) B =
     map (\<lambda>x. Inr [InboundRtp (fst x)]) (session_send cr ps A)"
  using assms
proof (induction ps arbitrary: A B)
  case Nil
  then show ?case by simp
next
  case (Cons p ps)
  obtain r A' where p: "session_protect_rtp cr p A = (r, A')" by fastforce
  have c: "classify p = DgRtp" using Cons.prems(2) by simp
  show ?case
  proof (cases r)
    case (Inl e)
    with session_deliver [OF Cons.prems(1) p c] Cons.IH Cons.prems(2) p show ?thesis by simp
  next
    case (Inr t)
    with session_deliver [OF Cons.prems(1) p c, of st now] obtain B' where
      "session_handle_datagram cr st now loc remote (tm_payload t) B = (Inr [InboundRtp p], B')"
      "session_in_step loc remote A' B'" by auto
    with Cons.IH Cons.prems(2) p Inr show ?thesis by simp
  qed
qed


section \<open>Actions\<close>

text \<open>What a session may do with a datagram, given the nominated pairs and the keys of its history.\<close>

fun action_allowed ::
    "crypto \<Rightarrow> stun_crypto \<Rightarrow> configuration \<Rightarrow> (socket_addr \<times> socket_addr) set \<Rightarrow> directional_keying_material option \<Rightarrow>
     socket_addr \<Rightarrow> socket_addr \<Rightarrow> bytes \<Rightarrow> session_action \<Rightarrow> bool" where
  "action_allowed cr st c pairs keys loc remote input (TransmitAction t) \<longleftrightarrow>
     tm_source t = loc \<and> tm_destination t = remote \<and>
     (\<exists>m alg. message_parse input = Inr m \<and> authentic st (agent_new c) m alg)"
| "action_allowed cr st c pairs keys loc remote input (DtlsInput b) \<longleftrightarrow> b = input \<and> (loc, remote) \<in> pairs"
| "action_allowed cr st c pairs keys loc remote input (InboundRtp p) \<longleftrightarrow>
     (loc, remote) \<in> pairs \<and> (\<exists>k ctx. keys = Some k \<and> keyed_with cr k ctx \<and> fst (unprotect_rtp cr ctx input) = Inr p)"
| "action_allowed cr st c pairs keys loc remote input (InboundRtcp p packets) \<longleftrightarrow>
     (loc, remote) \<in> pairs \<and> (\<exists>k ctx. keys = Some k \<and> keyed_with cr k ctx \<and> fst (unprotect_rtcp cr ctx input) = Inr p) \<and>
     parse_compound p = Inr packets"
| "action_allowed cr st c pairs keys loc remote input (SessionStateChanged from to) \<longleftrightarrow> from \<noteq> to"

lemma transition_actions: "act \<in> set (fst (session_transition t s)) \<Longrightarrow> \<exists>to. act = SessionStateChanged (se_state s) to \<and> se_state s \<noteq> to"
  by (auto simp: session_transition_def split: if_splits)

lemma apply_event_actions:
  "act \<in> set (fst (apply_ice_event e (acts, s))) \<Longrightarrow> act \<in> set acts \<or> (\<exists>from to. act = SessionStateChanged from to \<and> from \<noteq> to)"
proof (cases e)
  case (StateChanged f t)
  assume "act \<in> set (fst (apply_ice_event e (acts, s)))"
  with StateChanged transition_actions [of act "ice_target t s" s] show ?thesis by (auto split: prod.splits)
qed simp

lemma apply_events_actions:
  "act \<in> set (fst (apply_ice_events es (acts, s))) \<Longrightarrow> act \<in> set acts \<or> (\<exists>from to. act = SessionStateChanged from to \<and> from \<noteq> to)"
proof (induction es arbitrary: acts s)
  case Nil
  then show ?case by simp
next
  case (Cons e es)
  obtain acts1 s1 where e: "apply_ice_event e (acts, s) = (acts1, s1)" by fastforce
  from Cons.IH [of acts1 s1] Cons.prems e apply_event_actions [of _ e acts s] show ?case by auto
qed

lemma ice_answers:
  assumes "handle_datagram st now loc remote input a = (Inr out, a')"
  shows "tm_source (ho_transmit out) = loc \<and> tm_destination (ho_transmit out) = remote \<and>
     (\<exists>m alg. message_parse input = Inr m \<and> authentic st (agent_new (ag_configuration a)) m alg)"
proof -
  have "\<exists>m alg. checked st a input m alg" using assms handle_unchecked [of st a input now loc remote] by auto
  then obtain m alg where c: "checked st a input m alg" by blast
  have "tm_source (ho_transmit out) = loc \<and> tm_destination (ho_transmit out) = remote"
  proof (cases "valid_check m")
    case False
    from handle_invalid [OF c this, of now loc remote] assms show ?thesis by (auto simp: error_reply_def)
  next
    case True
    from c True assms show ?thesis
      by (cases rule: handle_valid [where now = now and loc = loc and remote = remote]) (auto simp: success_reply_def)
  qed
  with c checked_authentic [OF c] show ?thesis by (auto simp: checked_def)
qed

lemma actions_allowed:
  assumes "established cr c pairs keys s" and "session_handle_datagram cr st now loc remote input s = (Inr actions, s')"
    and "act \<in> set actions"
  shows "action_allowed cr st c pairs keys loc remote input act"
proof -
  have c: "ag_configuration (se_ice s) = c" using assms(1) by (simp add: established_def)
  have sel: "(loc, remote) \<in> pairs" if "se_selected_local s = Some loc" "se_selected_remote s = Some remote"
    using assms(1) that by (simp add: established_def)
  have keys: "\<exists>k. keys = Some k \<and> keyed_with cr k ctx" if "se_srtp s = Some ctx" for ctx
    using assms(1) that by (simp add: established_def)
  from assms(2) show ?thesis
  proof (cases rule: session_handle_cases)
    case (refused e)
    then show ?thesis by simp
  next
    case stun
    then obtain out a' where h: "handle_datagram st now loc remote input (se_ice s) = (Inr out, a')"
      and acts: "actions = fst (apply_ice_events (ho_events out) ([TransmitAction (ho_transmit out)], s\<lparr>se_ice := a'\<rparr>))"
      by (auto simp: session_handle_stun_def split: prod.splits sum.splits)
    from assms(3) have "act = TransmitAction (ho_transmit out) \<or> (\<exists>from to. act = SessionStateChanged from to \<and> from \<noteq> to)"
      unfolding acts by (auto dest: apply_events_actions)
    then show ?thesis using ice_answers [OF h] c by auto
  next
    case dtls
    with sel assms(3) show ?thesis by simp
  next
    case (rtp ctx q ctx')
    from rtp(6) [symmetric] obtain p where p: "q = Inr p" "actions = [InboundRtp p]"
      by (auto simp: bind_r_eq_Inr map_err_eq_Inr)
    obtain k where "keys = Some k" "keyed_with cr k ctx" using keys [OF rtp(3)] by blast
    moreover have "fst (unprotect_rtp cr ctx input) = Inr p" by (simp add: rtp(4) p(1))
    ultimately show ?thesis using p sel [OF rtp(1,2)] assms(3) by auto
  next
    case (rtcp ctx q ctx')
    from rtcp(6) [symmetric] obtain p ps where p: "q = Inr p" "parse_compound p = Inr ps" "actions = [InboundRtcp p ps]"
      by (auto simp: bind_r_eq_Inr map_err_eq_Inr)
    obtain k where "keys = Some k" "keyed_with cr k ctx" using keys [OF rtcp(3)] by blast
    moreover have "fst (unprotect_rtcp cr ctx input) = Inr p" by (simp add: rtcp(4) p(1))
    ultimately show ?thesis using p sel [OF rtcp(1,2)] assms(3) by auto
  qed
qed

lemma selected_transmit_pairs:
  assumes "established cr c pairs keys s" and "selected_transmit pl s = Inr t"
  shows "(tm_source t, tm_destination t) \<in> pairs"
  using assms by (auto simp: selected_transmit_def bind_r_eq_Inr ok_or_eq_Inr established_def)

lemma established_new: "established cr c {} None (session_new (agent_new c))"
  by (simp add: established_def session_new_def)

section \<open>Properties\<close>

text \<open>C10. Traffic only passes on authenticated paths and under verified keys. After every history of
  calls, what a session does with a datagram is bound to that history: a STUN answer goes back to where
  an authenticated check came from; a DTLS record or media is only taken from a pair of addresses that an
  authenticated check with USE-CANDIDATE has nominated in the current ICE generation; media is what SRTP
  opens under the inbound keys of the keying material that was last accepted by
  \<open>install_dtls_keying_material\<close>, the session not having been closed since; and every packet that the
  session protects or wraps is addressed to a nominated pair.\<close>

theorem session_traffic_authenticated:
  fixes cr :: crypto
  assumes "fold (nominated_by st) calls (c0, {}) = (c, pairs)"
  defines "s \<equiv> session_run cr st calls (session_new (agent_new c0))" 
    and "keys \<equiv> keys_installed cr st calls (session_new (agent_new c0)) None"
  shows "(\<forall>act. session_handle_datagram cr st now loc remote input s = (Inr actions, s') \<and> act \<in> set actions \<longrightarrow>
       action_allowed cr st c pairs keys loc remote input act) \<and>
     (fst (session_protect_rtp cr p s) = Inr t \<or> fst (session_protect_rtcp cr p s) = Inr t \<or> transmit_dtls p s = Inr t \<longrightarrow>
       (tm_source t, tm_destination t) \<in> pairs)"
proof -
  have e: "established cr c pairs keys s"
    unfolding s_def keys_def by (rule established_run [OF established_new assms(1)])
  have out: "(tm_source t, tm_destination t) \<in> pairs"
    if sent: "fst (session_protect seal p s) = Inr t" and kept: "\<And>ctx r ctx' p'. seal ctx p = (r, ctx', p') \<Longrightarrow> (\<And>k. keyed_with cr k ctx' = keyed_with cr k ctx)"
    for seal
  proof -
    obtain ctx where ctx: "se_srtp s = Some ctx" using sent by (cases "se_srtp s") (auto simp: session_protect_def)
    obtain r ctx' pl where seal: "seal ctx p = (r, ctx', pl)" using prod_cases3 by blast
    have "selected_transmit pl (snd (session_protect seal p s)) = Inr t"
      using sent ctx seal by (auto simp: session_protect_def Let_def bind_r_eq_Inr)
    moreover have "established cr c pairs keys (snd (session_protect seal p s))"
      by (rule established_protect [OF e]) (rule kept)
    ultimately show ?thesis by (rule selected_transmit_pairs [rotated])
  qed
  have "transmit_dtls p s = Inr t \<Longrightarrow> (tm_source t, tm_destination t) \<in> pairs"
    unfolding transmit_dtls_def by (rule selected_transmit_pairs [OF e])
  moreover have "fst (session_protect (protect_rtp cr) p s) = Inr t \<Longrightarrow> (tm_source t, tm_destination t) \<in> pairs"
    by (rule out) (assumption, rule protect_keyed)
  moreover have "fst (session_protect (protect_rtcp cr) p s) = Inr t \<Longrightarrow> (tm_source t, tm_destination t) \<in> pairs"
    by (rule out) (assumption, rule protect_keyed)
  ultimately show ?thesis
    using actions_allowed [OF e] unfolding session_protect_rtp_def session_protect_rtcp_def by blast
qed

definition sample_srtp_crypto :: crypto where
  "sample_srtp_crypto = \<lparr>cr_keystream = (\<lambda>key iv i. word_of_nat i), cr_hmac = (\<lambda>key d. word_of_nat (length d))\<rparr>"

theorem session_traffic_authenticated_witness:
  "\<exists>bs s. s = session_run sample_srtp_crypto sample_crypto [SessionDatagram 7 (SockV4 1 2) (SockV4 3 4) bs] (session_new sample_agent) \<and>
     transmit_dtls [22] s = Inr \<lparr>tm_source = SockV4 1 2, tm_destination = SockV4 3 4, tm_payload = [22]\<rparr> \<and>
     (SockV4 1 2, SockV4 3 4) \<in> snd (fold (nominated_by sample_crypto) [SessionDatagram 7 (SockV4 1 2) (SockV4 3 4) bs]
        (ag_configuration sample_agent, {}))"
proof -
  obtain bs m s where s: "session_run sample_srtp_crypto sample_crypto [SessionDatagram 7 (SockV4 1 2) (SockV4 3 4) bs] (session_new sample_agent) = s"
    "se_selected_local s = Some (SockV4 1 2)" "se_selected_remote s = Some (SockV4 3 4)"
    using sample_connects by blast
  let ?calls = "[SessionDatagram 7 (SockV4 1 2) (SockV4 3 4) bs]" and ?c0 = "ag_configuration sample_agent"
  have a: "agent_new ?c0 = sample_agent" by (simp add: sample_agent_def)
  obtain c pairs where n: "fold (nominated_by sample_crypto) ?calls (?c0, {}) = (c, pairs)" by fastforce
  have t: "transmit_dtls [22] s = Inr \<lparr>tm_source = SockV4 1 2, tm_destination = SockV4 3 4, tm_payload = [22]\<rparr>"
    by (simp add: transmit_dtls_def selected_transmit_def s)
  have "(SockV4 1 2, SockV4 3 4) \<in> pairs"
    using session_traffic_authenticated [OF n, of sample_srtp_crypto _ _ _ _ _ _ "[22]" "\<lparr>tm_source = SockV4 1 2, tm_destination = SockV4 3 4, tm_payload = [22]\<rparr>"]
      t s(1) unfolding a by simp
  then show ?thesis using t s(1) by (intro exI [of _ bs] exI [of _ s]) (simp only: n snd_conv simp_thms)
qed

text \<open>A check that does not nominate, on a session with no nominated pair, makes the agent connected and
  leaves the state of the session as it is.\<close>

lemma unnominated_check:
  assumes "checked st (se_ice s) input m alg" and "valid_check m" and "\<not> msg_use_candidate m"
    and "se_state s \<noteq> SessionClosed" and "ag_selected_pair (se_ice s) = None"
    and "length (ag_pairs (se_ice s)) < cf_max_candidate_pairs (ag_configuration (se_ice s))"
  obtains actions s' where "session_handle_datagram cr st now loc remote input s = (Inr actions, s')"
    and "se_state s' = se_state s" and "ag_state (se_ice s') = IceConnected" and "ag_selected_pair (se_ice s') = None"
    and "ag_last_authenticated (se_ice s') = Some now" and "ag_configuration (se_ice s') = ag_configuration (se_ice s)"
    and "length (ag_pairs (se_ice s')) \<le> length (ag_pairs (se_ice s)) + 1"
proof -
  let ?a = "se_ice s"
  have k: "message_parse input = Inr m" "ms_kind m = \<lparr>mt_method = BINDING, mt_class = Request\<rparr>"
    using assms(1) by (simp_all add: checked_def)
  have stun: "session_handle_datagram cr st now loc remote input s = session_handle_stun st now loc remote input s"
    using assms(4) classify_binding [OF k] by (simp add: session_handle_datagram_def)
  from assms(1,2) show ?thesis
  proof (cases rule: handle_valid [where now = now and loc = loc and remote = remote])
    case (limit priority a1)
    from limit(2) assms(6) show ?thesis by (auto elim!: record_valid_pair_cases)
  next
    case (answered priority events a1 tm changes a2)
    from answered(2) have a1: "events = []" "ag_selected_pair a1 = None" "ag_state a1 = ag_state ?a"
      "ag_last_authenticated a1 = Some now" "ag_configuration a1 = ag_configuration ?a"
      "length (ag_pairs a1) \<le> length (ag_pairs ?a) + 1"
      using assms(3,5) by (auto elim!: record_valid_pair_cases dest: arg_cong [where f = length])
    have a2: "a2 = snd (transition IceConnected a1)" "changes = fst (transition IceConnected a1)"
      using answered(3) assms(3) a1 by (simp_all add: transition_after_check_def)
    obtain actions s' where r: "apply_ice_events changes ([TransmitAction tm], s\<lparr>se_ice := a2\<rparr>) = (actions, s')" by fastforce
    have "se_state s' = se_state s \<and> se_ice s' = a2"
      using r a2(2) by (auto simp: transition_def session_transition_def split: if_splits)
    moreover have "session_handle_stun st now loc remote input s = (Inr actions, s')"
      using answered(5) a1(1) r by (simp add: session_handle_stun_def)
    ultimately show ?thesis using that stun a1 a2(1) by simp
  qed
qed

lemma checked_again:
  assumes "checked st a input m alg" and "ag_configuration a' = ag_configuration a" and "ag_state a' \<noteq> IceFailed"
  shows "checked st a' input m alg"
proof -
  have "expected_username a' = expected_username a" "local_password a' = local_password a"
    using assms(2) by (simp_all add: expected_username_def)
  with assms(1,3) show ?thesis unfolding checked_def authentic_def by metis
qed

lemma session_tick_expired:
  assumes "ag_last_authenticated (se_ice s) = Some t" and "ag_state (se_ice s) = IceConnected"
    and "cf_consent_timeout (ag_configuration (se_ice s)) \<le> now - t"
    and "now - t < cf_failure_timeout (ag_configuration (se_ice s))"
  shows "se_state (snd (session_tick now s)) = SessionDisconnected"
    and "se_ice (snd (session_tick now s)) = (se_ice s)\<lparr>ag_state := IceDisconnected\<rparr>"
  using assms by (auto simp: session_tick_def ice_tick_def transition_def session_transition_def Let_def)

text \<open>A session stays disconnected while its agent is connected again: the checks resume after consent
  has expired, and no pair was nominated.\<close>

lemma disconnected_while_connected:
  "\<exists>bs s. s = session_run cr sample_crypto [SessionDatagram 7 (SockV4 1 2) (SockV4 3 4) bs,
       SessionTick 40000000007, SessionDatagram 40000000008 (SockV4 1 2) (SockV4 3 4) bs] (session_new sample_agent) \<and>
     se_state s = SessionDisconnected \<and> ag_state (se_ice s) = IceConnected"
proof -
  let ?s = "session_new sample_agent" and ?l = "SockV4 1 2" and ?r = "SockV4 3 4"
  obtain bs m where c: "checked sample_crypto sample_agent bs m AlgSha1" "valid_check m" "\<not> msg_use_candidate m"
    using sample_check_read [of False] by blast
  have n: "se_ice ?s = sample_agent" "se_state ?s \<noteq> SessionClosed" by (simp_all add: session_new_def)
  have a: "ag_selected_pair sample_agent = None" "ag_pairs sample_agent = []"
    "cf_max_candidate_pairs (ag_configuration sample_agent) = 64"
    "cf_consent_timeout (ag_configuration sample_agent) = 30000000000"
    "cf_failure_timeout (ag_configuration sample_agent) = 60000000000"
    by (simp_all add: sample_agent_def agent_new_def configuration_new_def)
  obtain x1 s1 where s1: "session_handle_datagram cr sample_crypto 7 ?l ?r bs ?s = (Inr x1, s1)"
    "ag_state (se_ice s1) = IceConnected" "ag_selected_pair (se_ice s1) = None"
    "ag_last_authenticated (se_ice s1) = Some 7" "ag_configuration (se_ice s1) = ag_configuration sample_agent"
    "length (ag_pairs (se_ice s1)) \<le> 1"
    by (rule unnominated_check [of sample_crypto ?s bs m AlgSha1 cr 7 ?l ?r]) (use c n a in \<open>simp_all\<close>)
  define s2 where "s2 = snd (session_tick 40000000007 s1)"
  have s2: "se_state s2 = SessionDisconnected" "se_ice s2 = (se_ice s1)\<lparr>ag_state := IceDisconnected\<rparr>"
    unfolding s2_def using session_tick_expired [OF s1(4,2), of 40000000007] a s1(5) by simp_all
  have c2: "checked sample_crypto (se_ice s2) bs m AlgSha1"
    by (rule checked_again [OF c(1)]) (simp_all add: s2 s1)
  obtain x3 s3 where s3: "session_handle_datagram cr sample_crypto 40000000008 ?l ?r bs s2 = (Inr x3, s3)"
    "se_state s3 = SessionDisconnected" "ag_state (se_ice s3) = IceConnected"
    by (rule unnominated_check [OF c2 c(2,3), of cr 40000000008 ?l ?r]) (use s1 s2 a in \<open>simp_all\<close>)
  show ?thesis
    using s1(1) s3 s2_def by (intro exI [of _ bs] exI [of _ s3]) (simp add: session_run_def)
qed

text \<open>C12. The session agrees with its agent over every history: its selected addresses are those of the
  agent's selected pair; it is handshaking or connected exactly on a completed agent, without and with
  keys; failed only when the agent is; a closed session holds no keys. A disconnected session has a
  disconnected agent, or an agent that is connected again by a check that nominated no pair; in the
  second case no address is selected, so nothing can be sent or received but STUN. That second case
  does occur.\<close>

theorem session_invariant:
  assumes "s = session_run cr st calls (session_new (agent_new c))"
  shows "session_inv s \<and>
    (se_state s = SessionDisconnected \<longrightarrow> ag_state (se_ice s) = IceDisconnected \<or>
       ag_state (se_ice s) = IceConnected \<and> se_selected_local s = None \<and> se_selected_remote s = None)"
proof -
  have "session_inv s" unfolding assms by (rule session_inv_run) (rule session_inv_new)
  then show ?thesis by (auto simp: session_inv_def agent_inv_def state_inv_def selected_agrees_def)
qed

theorem session_invariant_witness:
  "\<exists>bs s. s = session_run sample_srtp_crypto sample_crypto [SessionDatagram 7 (SockV4 1 2) (SockV4 3 4) bs,
       SessionTick 40000000007, SessionDatagram 40000000008 (SockV4 1 2) (SockV4 3 4) bs] (session_new sample_agent) \<and>
     se_state s = SessionDisconnected \<and> ag_state (se_ice s) = IceConnected \<and> se_selected_local s = None"
proof -
  obtain bs s where s: "s = session_run sample_srtp_crypto sample_crypto [SessionDatagram 7 (SockV4 1 2) (SockV4 3 4) bs,
       SessionTick 40000000007, SessionDatagram 40000000008 (SockV4 1 2) (SockV4 3 4) bs] (session_new sample_agent)"
    and d: "se_state s = SessionDisconnected" "ag_state (se_ice s) = IceConnected"
    using disconnected_while_connected by blast
  have "sample_agent = agent_new (ag_configuration sample_agent)" by (simp add: sample_agent_def)
  with session_invariant [of s sample_srtp_crypto sample_crypto _ "ag_configuration sample_agent"] s d
  have "se_selected_local s = None" by (metis ice_state.distinct)
  with s d show ?thesis by blast
qed

text \<open>C11. Media arrives, in either direction. Two sessions whose DTLS handshakes exported the same bytes,
  one in the role of the client and one in that of the server, deliver the stream: the packets that the first protects, sent one by one to the second on its
  selected pair, come out as exactly the packets that went in, in order, each classified as RTP,
  authenticated, decrypted and parsed.\<close>

theorem session_media_delivered:
  assumes "split_srtp_exporter prof role exported = Inr kc" and "split_srtp_exporter prof role' exported = Inr ks"
    and "role \<noteq> role'" and "install_dtls_keying_material cr kc A0 = (Inr xa, A)" and "install_dtls_keying_material cr ks B0 = (Inr xb, B)"
    and "session_inv A0" and "se_selected_local B = Some loc" and "se_selected_remote B = Some remote"
    and "\<forall>p\<in>set ps. classify p = DgRtp"
  shows "session_receive cr st now loc remote (map (\<lambda>x. tm_payload (snd x)) (session_send cr ps A)) B =
     map (\<lambda>x. Inr [InboundRtp (fst x)]) (session_send cr ps A)"
proof -
  have A: "A = snd (session_transition SessionConnected (A0\<lparr>se_srtp := Some (sx_new cr (dk_profile kc) (dk_outbound kc) (dk_inbound kc))\<rparr>))"
    and a0: "se_state A0 = SessionDtlsHandshaking"
    using assms(4) by (auto simp: install_dtls_keying_material_def split: if_splits prod.splits)
  have B: "B = snd (session_transition SessionConnected (B0\<lparr>se_srtp := Some (sx_new cr (dk_profile ks) (dk_outbound ks) (dk_inbound ks))\<rparr>))"
    using assms(5) by (auto simp: install_dtls_keying_material_def split: if_splits prod.splits)
  have "in_step (sx_new cr (dk_profile kc) (dk_outbound kc) (dk_inbound kc)) (sx_new cr (dk_profile ks) (dk_outbound ks) (dk_inbound ks))"
    using roles_mirror [OF assms(1,2,3)] in_step_new by metis
  moreover have "se_selected_local A0 \<noteq> None" "se_selected_remote A0 \<noteq> None"
    using assms(6) a0 by (auto simp: session_inv_def agent_inv_def state_inv_def selected_agrees_def)
  ultimately have "session_in_step loc remote A B"
    using assms(7,8) unfolding session_in_step_def A B by simp
  then show ?thesis using assms(9) by (rule session_stream_delivered)
qed

lemma fresh_protect_ok:
  assumes "parse p = Inr q"
  shows "\<exists>ctx c. protect_rtp cr (sx_new cr prof out inb) p = (Inr (), ctx, c)"
proof -
  let ?i = "ucast (h_sequence_number (p_header q)) :: u64"
  have small: "unat ?i < 65536" using unat_less_u16 by (simp add: unat_ucast_up)
  have i: "\<not> MAX_SRTP_INDEX < ?i" using small by (simp add: MAX_SRTP_INDEX_def word_less_nat_alt)
  have "unat (drop_bit 16 ?i) \<le> 4294967295" using small by (simp add: drop_bit_eq_div unat_div)
  then have r: "rollover ?i = Inr (ucast (drop_bit 16 ?i))" by (simp add: rollover_def)
  have l: "\<not> length p < p_header_len q" using parse_parts(2) [OF assms] by simp
  show ?thesis
    using i r l by (simp add: protect_rtp_def assms advance_def sx_new_def or_default_def estimate_index_def Let_def)
qed

theorem session_media_delivered_witness:
  "\<exists>A B. session_receive sample_srtp_crypto sample_crypto 9 (SockV4 1 2) (SockV4 3 4)
       (map (\<lambda>x. tm_payload (snd x)) (session_send sample_srtp_crypto [sample_packet] A)) B =
     [Inr [InboundRtp sample_packet]]"
proof -
  let ?cr = sample_srtp_crypto
  obtain bs m s where s: "se_state s = SessionDtlsHandshaking" "se_selected_local s = Some (SockV4 1 2)"
    "se_selected_remote s = Some (SockV4 3 4)" "session_inv s"
    using sample_connects by blast
  have "is_ok (split_srtp_exporter DtlsAes128CmSha1_80 role (replicate 60 9))" for role by (rule split_exporter_ok) simp
  then obtain kc ks where k: "split_srtp_exporter DtlsAes128CmSha1_80 DtlsClient (replicate 60 9) = Inr kc"
    "split_srtp_exporter DtlsAes128CmSha1_80 DtlsServer (replicate 60 9) = Inr ks"
    by (metis is_ok_iff)
  obtain xa A xb B where i: "install_dtls_keying_material ?cr kc s = (Inr xa, A)" "install_dtls_keying_material ?cr ks s = (Inr xb, B)"
    using s(1) by (auto simp: install_dtls_keying_material_def session_transition_def)
  have A: "se_srtp A = Some (sx_new ?cr (dk_profile kc) (dk_outbound kc) (dk_inbound kc))"
    "se_selected_local A = Some (SockV4 1 2)" "se_selected_remote A = Some (SockV4 3 4)"
    using i(1) s by (auto simp: install_dtls_keying_material_def session_transition_def)
  have B: "se_selected_local B = Some (SockV4 1 2)" "se_selected_remote B = Some (SockV4 3 4)"
    using i(2) s by (auto simp: install_dtls_keying_material_def session_transition_def)
  obtain q where "parse sample_packet = Inr q" using parse_accounts_for_input_witness by blast
  from fresh_protect_ok [OF this, of ?cr "dk_profile kc" "dk_outbound kc" "dk_inbound kc"]
  obtain t where "session_send ?cr [sample_packet] A = [(sample_packet, t)]"
    by (auto simp: session_protect_rtp_def session_protect_def A selected_transmit_def)
  moreover have "\<forall>p\<in>set [sample_packet]. classify p = DgRtp" using mux_unambiguous_witness by simp
  ultimately show ?thesis
    using session_media_delivered [OF k _ i s(4) B, of "[sample_packet]" sample_crypto 9] by (intro exI [of _ A] exI [of _ B]) simp
qed

text \<open>A closed session does not stay closed: \<open>tick\<close> has no guard, so that the expiry of consent moves it
  to Disconnected, where a new nominating check starts a DTLS handshake again.\<close>

lemma closed_session_reopens:
  assumes "se_state s = SessionClosed" and "ice_tick now (se_ice s) = ([StateChanged IceCompleted IceDisconnected], a)"
  shows "session_tick now s = ([SessionStateChanged SessionClosed SessionDisconnected],
     s\<lparr>se_ice := a, se_state := SessionDisconnected\<rparr>)"
  using assms by (simp add: session_tick_def session_transition_def)

end
