(* ===== verification/Turn.thy ===== *)
theory Turn
  imports Net_Address
begin

text \<open>
  The TURN primitives of \<open>crates/webrtc/turn/src/lib.rs\<close>: credentials, ChannelData frames, and the
  allocation with its permissions and channel bindings. MD5, HMAC-SHA1 and Base64 come from crates
  outside the repository and are the fields of a record that the definitions take as an argument. The
  order in which a hash map is iterated is an argument too. A \<open>Duration\<close> is a number of nanoseconds;
  \<open>saturating_add\<close> on it is addition, since the clock is monotonic time far below the limit of
  \<open>Duration\<close>. Shown: frames are read back, an allocation stays within its bounds and never binds a
  peer or a channel twice, and the permissions in force are exactly those installed in the last five
  minutes.
\<close>

section \<open>Constants and errors\<close>

abbreviation seconds :: "nat \<Rightarrow> duration" where
  "seconds n \<equiv> n * 1000000000"

definition DEFAULT_ALLOCATION_LIFETIME :: duration where "DEFAULT_ALLOCATION_LIFETIME = seconds (10 * 60)"
definition MAX_ALLOCATION_LIFETIME :: duration where "MAX_ALLOCATION_LIFETIME = seconds (60 * 60)"
definition PERMISSION_LIFETIME :: duration where "PERMISSION_LIFETIME = seconds (5 * 60)"
definition CHANNEL_LIFETIME :: duration where "CHANNEL_LIFETIME = seconds (10 * 60)"
definition MIN_CHANNEL_NUMBER :: u16 where "MIN_CHANNEL_NUMBER = 0x4000"
definition MAX_CHANNEL_NUMBER :: u16 where "MAX_CHANNEL_NUMBER = 0x4fff"
definition MAX_PERMISSIONS :: nat where "MAX_PERMISSIONS = 64"
definition MAX_CHANNELS :: nat where "MAX_CHANNELS = 64"

datatype turn_error =
    TruncatedChannelData | TrailingChannelData | InvalidChannelNumber u16 | DataTooLarge
  | PeerAddressFamilyMismatch | ChannelConflict | Capacity | InvalidCredential

section \<open>Credentials\<close>

record turn_crypto =
  tc_md5 :: "bytes \<Rightarrow> 128 word"
  tc_hmac_sha1 :: "bytes \<Rightarrow> (bytes \<Rightarrow> 160 word) option"
  tc_base64 :: "bytes \<Rightarrow> rust_string"

definition long_term_key :: "turn_crypto \<Rightarrow> rust_string \<Rightarrow> rust_string \<Rightarrow> rust_string \<Rightarrow> bytes" where
  "long_term_key cr username realm password =
     to_be (tc_md5 cr (str_bytes username @ [58] @ str_bytes realm @ [58] @ str_bytes password))"

definition rest_credential_password :: "turn_crypto \<Rightarrow> bytes \<Rightarrow> rust_string \<Rightarrow> (turn_error, rust_string) result" where
  "rest_credential_password cr secret username =
     (if length secret < 32 \<or> username = [] \<or> str_len username > 512 then Inl InvalidCredential
      else
        bind_r (ok_or InvalidCredential (tc_hmac_sha1 cr secret)) (\<lambda>mac.
          Inr (tc_base64 cr (to_be (mac (str_bytes username))))))"

section \<open>ChannelData\<close>

record channel_data =
  ch_channel_number :: u16
  ch_data :: bytes

definition channel_number_ok :: "u16 \<Rightarrow> bool" where
  "channel_number_ok n \<longleftrightarrow> MIN_CHANNEL_NUMBER \<le> n \<and> n \<le> MAX_CHANNEL_NUMBER"

definition channel_data_parse :: "bytes \<Rightarrow> (turn_error, channel_data) result" where
  "channel_data_parse datagram =
     bind_r (ok_or TruncatedChannelData (get_range datagram 0 4)) (\<lambda>header.
     let channel_number = from_be [header ! 0, header ! 1] in
     if \<not> channel_number_ok channel_number then Inl (InvalidChannelNumber channel_number)
     else
       let len = unat (from_be [header ! 2, header ! 3] :: u16); stop = 4 + len in
       bind_r (ok_or TruncatedChannelData (get_range datagram 4 stop)) (\<lambda>data.
       bind_r (ok_or TruncatedChannelData (get_range datagram stop (length datagram))) (\<lambda>padding.
       if length padding > 3 \<or> (\<exists>b\<in>set padding. b \<noteq> 0) then Inl TrailingChannelData
       else Inr \<lparr>ch_channel_number = channel_number, ch_data = data\<rparr>)))"

definition channel_data_encode :: "u16 \<Rightarrow> bytes \<Rightarrow> (turn_error, bytes) result" where
  "channel_data_encode channel_number data =
     (if \<not> channel_number_ok channel_number then Inl (InvalidChannelNumber channel_number)
      else if length data \<ge> 65536 then Inl DataTooLarge
      else Inr (to_be channel_number @ to_be (word_of_nat (length data) :: u16) @ data))"

section \<open>Allocation\<close>

record channel_binding =
  cb_peer :: socket_addr
  cb_expires_at :: duration

record allocation =
  al_username :: rust_string
  al_client_address :: socket_addr
  al_relayed_address :: socket_addr
  al_expires_at :: duration
  al_permissions :: "(ip_addr, duration) hash_map"
  al_channels :: "(u16, channel_binding) hash_map"

datatype peer_routing = ChannelRoute u16 | DataIndication

definition allocation_new :: "duration \<Rightarrow> rust_string \<Rightarrow> socket_addr \<Rightarrow> socket_addr \<Rightarrow> allocation" where
  "allocation_new now username client_address relayed_address =
     \<lparr>al_username = username, al_client_address = client_address, al_relayed_address = relayed_address,
      al_expires_at = now + DEFAULT_ALLOCATION_LIFETIME, al_permissions = [], al_channels = []\<rparr>"

text \<open>\<open>u32::try_from(seconds).unwrap_or(u32::MAX)\<close>.\<close>

definition secs_u32 :: "duration \<Rightarrow> u32" where
  "secs_u32 d = (let s = d div 1000000000 in if s < 2 ^ 32 then word_of_nat s else - 1)"

definition remaining_lifetime :: "duration \<Rightarrow> allocation \<Rightarrow> u32" where
  "remaining_lifetime now a = secs_u32 (al_expires_at a - now)"

definition expired :: "duration \<Rightarrow> allocation \<Rightarrow> bool" where
  "expired now a \<longleftrightarrow> now \<ge> al_expires_at a"

definition refresh :: "duration \<Rightarrow> u32 option \<Rightarrow> allocation \<Rightarrow> u32 \<times> allocation" where
  "refresh now requested_seconds a =
     (let requested = min (case requested_seconds of None \<Rightarrow> DEFAULT_ALLOCATION_LIFETIME
                           | Some s \<Rightarrow> seconds (unat s)) MAX_ALLOCATION_LIFETIME
      in (secs_u32 requested, a\<lparr>al_expires_at := now + requested\<rparr>))"

definition expire_children :: "duration \<Rightarrow> allocation \<Rightarrow> allocation" where
  "expire_children now a =
     a\<lparr>al_permissions := filter (\<lambda>(_, expires_at). expires_at > now) (al_permissions a),
       al_channels := filter (\<lambda>(_, binding). cb_expires_at binding > now) (al_channels a)\<rparr>"

definition create_permissions ::
    "duration \<Rightarrow> socket_addr list \<Rightarrow> allocation \<Rightarrow> (turn_error, unit) result \<times> allocation" where
  "create_permissions now peers a0 =
     (let a = expire_children now a0 in
      if peers = [] \<or> (\<exists>peer\<in>set peers. \<not> same_family (sock_ip peer) (sock_ip (al_relayed_address a)))
      then (Inl PeerAddressFamilyMismatch, a)
      else
        let additional = length (remdups (filter (\<lambda>ip. \<not> hm_contains (al_permissions a) ip) (map sock_ip peers))) in
        if length (al_permissions a) + additional > MAX_PERMISSIONS then (Inl Capacity, a)
        else
          let expires_at = now + PERMISSION_LIFETIME in
          (Inr (), a\<lparr>al_permissions :=
             fold (\<lambda>peer m. hm_insert (sock_ip peer) expires_at m) peers (al_permissions a)\<rparr>))"

definition bind_channel ::
    "duration \<Rightarrow> u16 \<Rightarrow> socket_addr \<Rightarrow> allocation \<Rightarrow> (turn_error, unit) result \<times> allocation" where
  "bind_channel now channel_number peer a0 =
     (let a = expire_children now a0 in
      if \<not> channel_number_ok channel_number then (Inl (InvalidChannelNumber channel_number), a)
      else if \<not> same_family (sock_ip peer) (sock_ip (al_relayed_address a))
      then (Inl PeerAddressFamilyMismatch, a)
      else if (case hm_get (al_channels a) channel_number of None \<Rightarrow> False | Some binding \<Rightarrow> cb_peer binding \<noteq> peer) \<or>
              (\<exists>(number, binding)\<in>set (al_channels a). number \<noteq> channel_number \<and> cb_peer binding = peer)
      then (Inl ChannelConflict, a)
      else if \<not> hm_contains (al_channels a) channel_number \<and> length (al_channels a) \<ge> MAX_CHANNELS
      then (Inl Capacity, a)
      else
        case create_permissions now [peer] a of
          (Inl e, a') \<Rightarrow> (Inl e, a')
        | (Inr _, a') \<Rightarrow>
            (Inr (), a'\<lparr>al_channels := hm_insert channel_number
               \<lparr>cb_peer = peer, cb_expires_at = now + CHANNEL_LIFETIME\<rparr> (al_channels a')\<rparr>))"

definition channel_peer :: "duration \<Rightarrow> u16 \<Rightarrow> allocation \<Rightarrow> socket_addr option \<times> allocation" where
  "channel_peer now channel_number a0 =
     (let a = expire_children now a0 in
      (case hm_get (al_channels a) channel_number of
         None \<Rightarrow> None
       | Some binding \<Rightarrow>
           if hm_contains (al_permissions a) (sock_ip (cb_peer binding)) then Some (cb_peer binding) else None, a))"

definition permits :: "duration \<Rightarrow> socket_addr \<Rightarrow> allocation \<Rightarrow> bool \<times> allocation" where
  "permits now peer a0 =
     (let a = expire_children now a0 in
      (hm_contains (al_permissions a) (sock_ip peer) \<and>
       same_family (sock_ip peer) (sock_ip (al_relayed_address a)), a))"

type_synonym channel_order = "(u16 \<times> channel_binding) list \<Rightarrow> (u16 \<times> channel_binding) list"

definition peer_route :: "channel_order \<Rightarrow> duration \<Rightarrow> socket_addr \<Rightarrow> allocation \<Rightarrow> peer_routing option \<times> allocation" where
  "peer_route order now peer a0 =
     (let (permitted, a) = permits now peer a0 in
      if \<not> permitted then (None, a)
      else
        (case find (\<lambda>(number, binding). cb_peer binding = peer) (order (al_channels a)) of
           Some (number, binding) \<Rightarrow> Some (ChannelRoute number)
         | None \<Rightarrow> Some DataIndication, a))"

section \<open>ChannelData round trip\<close>

lemma be16_pair: "length bs = 2 \<Longrightarrow> [bs ! 0, bs ! 1] = (bs :: bytes)"
  by (auto simp: length_Suc_conv numeral_2_eq_2)

lemma channel_header:
  "get_range (to_be (n :: u16) @ to_be (l :: u16) @ rest) 0 4 = Some (to_be n @ to_be l)"
  "from_be [(to_be n @ to_be l) ! 0, (to_be n @ to_be l) ! 1] = n"
  "from_be [(to_be n @ to_be l) ! 2, (to_be n @ to_be l) ! 3] = l"
proof -
  show "get_range (to_be n @ to_be l @ rest) 0 4 = Some (to_be n @ to_be l)"
    by (simp add: get_range_def)
  show "from_be [(to_be n @ to_be l) ! 0, (to_be n @ to_be l) ! 1] = n"
    using be16_pair [of "to_be n"] by (simp add: nth_append)
  show "from_be [(to_be n @ to_be l) ! 2, (to_be n @ to_be l) ! 3] = l"
    using be16_pair [of "to_be l"] by (simp add: nth_append)
qed

lemma channel_data_read:
  assumes "channel_number_ok n" and "length data < 65536"
  shows "channel_data_parse (to_be n @ to_be (word_of_nat (length data) :: u16) @ data @ padding) =
     (if length padding > 3 \<or> (\<exists>b\<in>set padding. b \<noteq> 0) then Inl TrailingChannelData
      else Inr \<lparr>ch_channel_number = n, ch_data = data\<rparr>)"
proof -
  let ?l = "word_of_nat (length data) :: u16"
  let ?d = "to_be n @ to_be ?l @ data @ padding"
  have l: "unat ?l = length data" using assms(2) by (simp add: unat_word_of_nat_less)
  have g: "get_range ?d 4 (4 + length data) = Some data" "get_range ?d (4 + length data) (length ?d) = Some padding"
    by (simp_all add: get_range_def)
  have "channel_data_parse ?d =
      (if length padding > 3 \<or> (\<exists>b\<in>set padding. b \<noteq> 0) then Inl TrailingChannelData
       else Inr \<lparr>ch_channel_number = n, ch_data = data\<rparr>)"
    unfolding channel_data_parse_def channel_header(1) ok_or_simps bind_r.simps Let_def channel_header(2,3) l g
    using assms(1) by simp
  then show ?thesis .
qed

lemma channel_data_sound:
  assumes "channel_data_parse d = Inr c"
  shows "\<exists>padding. d = to_be (ch_channel_number c) @ to_be (word_of_nat (length (ch_data c)) :: u16) @ ch_data c @ padding \<and>
     length padding \<le> 3 \<and> set padding \<subseteq> {0} \<and> channel_number_ok (ch_channel_number c) \<and> length (ch_data c) < 65536"
proof -
  let ?n = "from_be [take 4 d ! 0, take 4 d ! 1] :: u16" and ?l = "from_be [take 4 d ! 2, take 4 d ! 3] :: u16"
  from assms have len: "4 + unat ?l \<le> length d" and n: "channel_number_ok ?n"
    and c: "c = \<lparr>ch_channel_number = ?n, ch_data = take (unat ?l) (drop 4 d)\<rparr>"
    and p: "length (drop (4 + unat ?l) d) \<le> 3" "set (drop (4 + unat ?l) d) \<subseteq> {0}"
    by (auto simp: channel_data_parse_def bind_r_eq_Inr ok_or_eq_Inr get_range_Some Let_def not_less split: if_splits)
  have h: "take 4 d = [d ! 0, d ! 1] @ [d ! 2, d ! 3]"
    using len by (intro nth_equalityI) (auto simp: nth_append nth_Cons' numeral_eq_Suc less_Suc_eq)
  have "to_be ?n = [d ! 0, d ! 1]" "to_be ?l = [d ! 2, d ! 3]" using h by (simp_all add: be16.enc_dec)
  then have "take 4 d = to_be ?n @ to_be ?l" using h by simp
  then have "d = to_be ?n @ to_be ?l @ take (unat ?l) (drop 4 d) @ drop (4 + unat ?l) d"
    by (metis append.assoc append_take_drop_id drop_split)
  moreover have "length (take (unat ?l) (drop 4 d)) = unat ?l" using len by simp
  ultimately show ?thesis
    using c n p unat_less_u16 [of ?l] by (intro exI [of _ "drop (4 + unat ?l) d"]) simp
qed

section \<open>Hash maps\<close>

lemma hm_filter_wf: "hm_wf m \<Longrightarrow> hm_wf (filter P m)"
  by (rule distinct_map_filter)

lemma hm_get_filter:
  "hm_wf m \<Longrightarrow> hm_get (filter (\<lambda>(k, v). P v) m) k = Some v \<longleftrightarrow> hm_get m k = Some v \<and> P v"
  by (simp add: hm_wf_get_iff hm_filter_wf)

lemma hm_length_card: "hm_wf m \<Longrightarrow> length m = card (fst ` set m)"
  by (metis distinct_card length_map set_map)

lemma hm_insert_all:
  fixes peers :: "socket_addr list" and e :: duration
  defines "ins \<equiv> \<lambda>m. fold (\<lambda>peer m. hm_insert (sock_ip peer) e m) peers m"
  shows "hm_wf m \<Longrightarrow> hm_wf (ins m)" and "fst ` set (ins m) = fst ` set m \<union> sock_ip ` set peers"
    and "hm_get (ins m) ip = (if ip \<in> sock_ip ` set peers then Some e else hm_get m ip)"
proof -
  have "(hm_wf m \<longrightarrow> hm_wf (fold (\<lambda>peer m. hm_insert (sock_ip peer) e m) peers m)) \<and>
      fst ` set (fold (\<lambda>peer m. hm_insert (sock_ip peer) e m) peers m) = fst ` set m \<union> sock_ip ` set peers \<and>
      hm_get (fold (\<lambda>peer m. hm_insert (sock_ip peer) e m) peers m) ip =
        (if ip \<in> sock_ip ` set peers then Some e else hm_get m ip)" for m
  proof (induction peers arbitrary: m)
    case Nil
    then show ?case by simp
  next
    case (Cons p ps)
    from Cons.IH [of "hm_insert (sock_ip p) e m"] show ?case by (auto simp: dom_update)
  qed
  then show "hm_wf m \<Longrightarrow> hm_wf (ins m)" "fst ` set (ins m) = fst ` set m \<union> sock_ip ` set peers"
    "hm_get (ins m) ip = (if ip \<in> sock_ip ` set peers then Some e else hm_get m ip)"
    unfolding ins_def by simp_all
qed

lemma hm_insert_all_length:
  fixes e :: duration
  assumes "hm_wf m"
  shows "length (fold (\<lambda>peer m. hm_insert (sock_ip peer) e m) peers m) \<le>
     length m + length (remdups (filter (\<lambda>ip. \<not> hm_contains m ip) (map sock_ip peers)))"
proof -
  let ?new = "set (remdups (filter (\<lambda>ip. \<not> hm_contains m ip) (map sock_ip peers)))"
  have "fst ` set m \<union> sock_ip ` set peers = fst ` set m \<union> ?new" by (auto simp: hm_contains_iff)
  then have "card (fst ` set m \<union> sock_ip ` set peers) \<le> card (fst ` set m) + card ?new"
    by (simp only: card_Un_le)
  moreover have "card ?new = length (remdups (filter (\<lambda>ip. \<not> hm_contains m ip) (map sock_ip peers)))"
    by (rule distinct_card) simp
  ultimately show ?thesis
    using hm_length_card [OF assms] hm_length_card [OF hm_insert_all(1) [OF assms]] hm_insert_all(2) by metis
qed

section \<open>Invariant\<close>

definition permissions_inv :: "ip_addr \<Rightarrow> (ip_addr, duration) hash_map \<Rightarrow> bool" where
  "permissions_inv relay m \<longleftrightarrow>
     hm_wf m \<and> length m \<le> MAX_PERMISSIONS \<and> (\<forall>ip\<in>fst ` set m. same_family ip relay)"

definition channels_inv :: "ip_addr \<Rightarrow> (u16, channel_binding) hash_map \<Rightarrow> bool" where
  "channels_inv relay m \<longleftrightarrow>
     hm_wf m \<and> length m \<le> MAX_CHANNELS \<and> distinct (map (\<lambda>c. cb_peer (snd c)) m) \<and>
     (\<forall>(n, b)\<in>set m. channel_number_ok n \<and> same_family (sock_ip (cb_peer b)) relay)"

definition allocation_inv :: "allocation \<Rightarrow> bool" where
  "allocation_inv a \<longleftrightarrow>
     permissions_inv (sock_ip (al_relayed_address a)) (al_permissions a) \<and>
     channels_inv (sock_ip (al_relayed_address a)) (al_channels a)"

lemma permissions_inv_filter: "permissions_inv relay m \<Longrightarrow> permissions_inv relay (filter P m)"
  by (auto simp: permissions_inv_def hm_filter_wf intro: order_trans [OF length_filter_le])

lemma channels_inv_filter: "channels_inv relay m \<Longrightarrow> channels_inv relay (filter P m)"
  using distinct_map_filter [of "\<lambda>c. cb_peer (snd c)" m P]
  by (auto simp: channels_inv_def hm_filter_wf intro: order_trans [OF length_filter_le])

lemma expire_children_simps [simp]:
  "al_relayed_address (expire_children now a) = al_relayed_address a"
  "al_permissions (expire_children now a) = filter (\<lambda>(_, e). e > now) (al_permissions a)"
  "al_channels (expire_children now a) = filter (\<lambda>(_, b). cb_expires_at b > now) (al_channels a)"
  by (simp_all add: expire_children_def)

lemma expire_children_inv: "allocation_inv a \<Longrightarrow> allocation_inv (expire_children now a)"
  by (simp add: allocation_inv_def permissions_inv_filter channels_inv_filter)

lemma create_permissions_cases:
  assumes "create_permissions now peers a = (r, a')"
  obtains (refused) e where "r = Inl e" "a' = expire_children now a"
    | (created) "r = Inr ()" "peers \<noteq> []"
      "\<forall>peer\<in>set peers. same_family (sock_ip peer) (sock_ip (al_relayed_address a))"
      "length (al_permissions (expire_children now a)) + length (remdups
         (filter (\<lambda>ip. \<not> hm_contains (al_permissions (expire_children now a)) ip) (map sock_ip peers))) \<le> MAX_PERMISSIONS"
      "a' = (expire_children now a)\<lparr>al_permissions :=
         fold (\<lambda>peer m. hm_insert (sock_ip peer) (now + PERMISSION_LIFETIME) m) peers
           (al_permissions (expire_children now a))\<rparr>"
proof (cases "peers = [] \<or> (\<exists>peer\<in>set peers. \<not> same_family (sock_ip peer) (sock_ip (al_relayed_address a)))")
  case True
  with assms have "r = Inl PeerAddressFamilyMismatch" "a' = expire_children now a"
    by (auto simp: create_permissions_def Let_def)
  then show ?thesis by (rule refused)
next
  case False
  note peers = this
  let ?m = "al_permissions (expire_children now a)"
  let ?n = "length ?m + length (remdups (filter (\<lambda>ip. \<not> hm_contains ?m ip) (map sock_ip peers)))"
  show ?thesis
  proof (cases "?n > MAX_PERMISSIONS")
    case True
    with peers assms have "r = Inl Capacity" "a' = expire_children now a"
      by (auto simp: create_permissions_def Let_def)
    then show ?thesis by (rule refused)
  next
    case False
    with peers assms created show ?thesis by (simp add: create_permissions_def Let_def not_less)
  qed
qed

lemma create_permissions_inv:
  assumes "allocation_inv a" and "create_permissions now peers a = (r, a')"
  shows "allocation_inv a'"
  using assms(2)
proof (cases rule: create_permissions_cases)
  case (refused e)
  with assms(1) show ?thesis by (simp add: expire_children_inv)
next
  case created
  let ?m = "al_permissions (expire_children now a)"
  have m: "permissions_inv (sock_ip (al_relayed_address a)) ?m"
    using expire_children_inv [OF assms(1), of now] unfolding allocation_inv_def by (simp del: expire_children_simps(2,3))
  then have "hm_wf ?m" by (simp add: permissions_inv_def)
  note wf = this
  let ?m' = "fold (\<lambda>peer m. hm_insert (sock_ip peer) (now + PERMISSION_LIFETIME) m) peers ?m"
  have "length ?m' \<le> MAX_PERMISSIONS"
    using hm_insert_all_length [OF wf] created(4) by (rule order_trans)
  moreover have "\<forall>ip\<in>fst ` set ?m'. same_family ip (sock_ip (al_relayed_address a))"
    using m created(3) unfolding hm_insert_all(2) permissions_inv_def by blast
  ultimately have "permissions_inv (sock_ip (al_relayed_address a)) ?m'"
    using hm_insert_all(1) [OF wf] unfolding permissions_inv_def by blast
  then show ?thesis
    using expire_children_inv [OF assms(1), of now] unfolding allocation_inv_def created(5)
    by (simp del: expire_children_simps(2))
qed

lemma expire_idem [simp]: "expire_children now (expire_children now a) = expire_children now a"
  by (simp add: expire_children_def)

text \<open>A chain of guards that refuse in the same way.\<close>

lemma refuse_cases:
  "\<not> p \<or> \<not> q \<or> c \<or> f \<Longrightarrow>
     \<exists>e. (if \<not> p then (Inl e1, x) else if \<not> q then (Inl e2, x) else if c then (Inl e3, x) else if f then (Inl e4, x) else y) = (Inl e, x)"
  by auto

lemma accept_cases:
  "\<not> (\<not> p \<or> \<not> q \<or> c \<or> f) \<Longrightarrow>
     (if \<not> p then u else if \<not> q then v else if c then w else if f then z else y) = y"
  by auto

lemma bind_channel_cases:
  assumes "bind_channel now n peer a = (r, a')"
  obtains (refused) e where "r = Inl e" "a' = expire_children now a"
    | (bound) a1 where "r = Inr ()" "channel_number_ok n"
      "same_family (sock_ip peer) (sock_ip (al_relayed_address a))"
      "\<forall>b. hm_get (al_channels (expire_children now a)) n = Some b \<longrightarrow> cb_peer b = peer"
      "\<forall>(k, b)\<in>set (al_channels (expire_children now a)). k \<noteq> n \<longrightarrow> cb_peer b \<noteq> peer"
      "hm_contains (al_channels (expire_children now a)) n \<or> length (al_channels (expire_children now a)) < MAX_CHANNELS"
      "create_permissions now [peer] a = (Inr (), a1)"
      "a' = a1\<lparr>al_channels := hm_insert n \<lparr>cb_peer = peer, cb_expires_at = now + CHANNEL_LIFETIME\<rparr>
         (al_channels (expire_children now a))\<rparr>"
proof -
  let ?a = "expire_children now a"
  have again: "create_permissions now [peer] ?a = create_permissions now [peer] a"
    by (simp add: create_permissions_def)
  let ?conflict = "(case hm_get (al_channels ?a) n of None \<Rightarrow> False | Some binding \<Rightarrow> cb_peer binding \<noteq> peer) \<or>
     (\<exists>(number, binding)\<in>set (al_channels ?a). number \<noteq> n \<and> cb_peer binding = peer)"
  let ?full = "\<not> hm_contains (al_channels ?a) n \<and> length (al_channels ?a) \<ge> MAX_CHANNELS"
  have eq: "bind_channel now n peer a =
     (if \<not> channel_number_ok n then (Inl (InvalidChannelNumber n), ?a)
      else if \<not> same_family (sock_ip peer) (sock_ip (al_relayed_address a)) then (Inl PeerAddressFamilyMismatch, ?a)
      else if ?conflict then (Inl ChannelConflict, ?a)
      else if ?full then (Inl Capacity, ?a)
      else case create_permissions now [peer] a of (Inl e, a') \<Rightarrow> (Inl e, a')
        | (Inr _, a') \<Rightarrow> (Inr (), a'\<lparr>al_channels := hm_insert n
            \<lparr>cb_peer = peer, cb_expires_at = now + CHANNEL_LIFETIME\<rparr> (al_channels a')\<rparr>))"
    by (simp only: bind_channel_def Let_def again expire_children_simps(1))
  show ?thesis
  proof (cases "\<not> channel_number_ok n \<or> \<not> same_family (sock_ip peer) (sock_ip (al_relayed_address a)) \<or> ?conflict \<or> ?full")
    case True
    then have "\<exists>e. bind_channel now n peer a = (Inl e, ?a)" unfolding eq by (rule refuse_cases)
    then obtain e where "r = Inl e" "a' = ?a" using assms by auto
    then show ?thesis by (rule refused)
  next
    case False
    note ok = False [unfolded de_Morgan_disj not_not]
    obtain q a1 where c: "create_permissions now [peer] a = (q, a1)" by fastforce
    have eq1: "bind_channel now n peer a = (case create_permissions now [peer] a of (Inl e, a') \<Rightarrow> (Inl e, a')
        | (Inr _, a') \<Rightarrow> (Inr (), a'\<lparr>al_channels := hm_insert n
            \<lparr>cb_peer = peer, cb_expires_at = now + CHANNEL_LIFETIME\<rparr> (al_channels a')\<rparr>))"
      unfolding eq using False by (rule accept_cases)
    from c show ?thesis
    proof (cases rule: create_permissions_cases)
      case (refused e)
      with eq1 c assms that(1) show ?thesis by simp
    next
      case created
      have "al_channels a1 = al_channels ?a" by (simp add: created(5))
      then have r: "r = Inr ()" and a': "a' = a1\<lparr>al_channels := hm_insert n
          \<lparr>cb_peer = peer, cb_expires_at = now + CHANNEL_LIFETIME\<rparr> (al_channels ?a)\<rparr>"
        using eq1 c created(1) assms by auto
      have get: "\<forall>b. hm_get (al_channels ?a) n = Some b \<longrightarrow> cb_peer b = peer"
        using ok by (auto simp del: expire_children_simps split: option.splits)
      have other: "\<forall>(k, b)\<in>set (al_channels ?a). k \<noteq> n \<longrightarrow> cb_peer b \<noteq> peer" using ok by blast
      have room: "hm_contains (al_channels ?a) n \<or> length (al_channels ?a) < MAX_CHANNELS"
        using ok by (simp only: not_le de_Morgan_conj not_not)
      have c1: "create_permissions now [peer] a = (Inr (), a1)" using c created(1) by simp
      show ?thesis by (rule bound [OF r _ _ get other room c1 a']) (use ok in simp_all)
    qed
  qed
qed

lemma hm_insert_peers:
  assumes "\<forall>b. hm_get m n = Some b \<longrightarrow> cb_peer b = q" and "cb_peer v = q"
  shows "map (\<lambda>c. cb_peer (snd c)) (hm_insert n v m) =
     (if hm_contains m n then map (\<lambda>c. cb_peer (snd c)) m else map (\<lambda>c. cb_peer (snd c)) m @ [q])"
  using assms(1)
proof (induction m)
  case Nil
  then show ?case by (simp add: hm_contains_def assms(2))
next
  case (Cons x m)
  obtain k b where x: "x = (k, b)" by fastforce
  show ?case
  proof (cases "k = n")
    case True
    with Cons.prems x assms(2) show ?thesis by (simp add: hm_contains_def)
  next
    case False
    then have "hm_get (x # m) n = hm_get m n" by (simp add: x)
    then have "\<forall>b. hm_get m n = Some b \<longrightarrow> cb_peer b = q" using Cons.prems by (simp only:)
    note ih = Cons.IH [OF this]
    have "hm_contains (x # m) n = hm_contains m n" using False by (simp add: hm_contains_def x)
    then show ?thesis using False ih by (simp add: x)
  qed
qed

lemma channels_inv_insert:
  assumes "channels_inv relay m" and "channel_number_ok n" and "same_family (sock_ip (cb_peer v)) relay"
    and get: "\<forall>b. hm_get m n = Some b \<longrightarrow> cb_peer b = cb_peer v"
    and other: "\<forall>(k, b)\<in>set m. k \<noteq> n \<longrightarrow> cb_peer b \<noteq> cb_peer v"
    and room: "hm_contains m n \<or> length m < MAX_CHANNELS"
  shows "channels_inv relay (hm_insert n v m)"
proof -
  have "distinct (map (\<lambda>c. cb_peer (snd c)) (hm_insert n v m))"
  proof (cases "hm_contains m n")
    case True
    with assms(1) show ?thesis unfolding hm_insert_peers [OF get refl] by (simp add: channels_inv_def)
  next
    case False
    then have "\<forall>(k, b)\<in>set m. cb_peer b \<noteq> cb_peer v" using other by (force simp: hm_contains_iff)
    with False assms(1) show ?thesis unfolding hm_insert_peers [OF get refl] by (auto simp: channels_inv_def)
  qed
  moreover have "length (hm_insert n v m) \<le> MAX_CHANNELS"
    using assms(1) room by (auto simp: hm_length_insert channels_inv_def)
  moreover have "hm_wf (hm_insert n v m)" using assms(1) by (simp add: channels_inv_def)
  moreover have "set (hm_insert n v m) \<subseteq> insert (n, v) (set m)" by (induction m) auto
  then have "\<forall>(k, b)\<in>set (hm_insert n v m). channel_number_ok k \<and> same_family (sock_ip (cb_peer b)) relay"
    using assms(1-3) unfolding channels_inv_def by blast
  ultimately show ?thesis unfolding channels_inv_def by blast
qed

lemma bind_channel_inv:
  assumes "allocation_inv a" and "bind_channel now n peer a = (r, a')"
  shows "allocation_inv a'"
  using assms(2)
proof (cases rule: bind_channel_cases)
  case (refused e)
  with assms(1) show ?thesis by (simp add: expire_children_inv)
next
  case (bound a1)
  have inv1: "allocation_inv a1" by (rule create_permissions_inv [OF assms(1) bound(7)])
  have relay: "al_relayed_address a1 = al_relayed_address a"
    using bound(7) by (rule create_permissions_cases) simp_all
  have "channels_inv (sock_ip (al_relayed_address a)) (al_channels (expire_children now a))"
    using expire_children_inv [OF assms(1), of now] by (simp add: allocation_inv_def)
  then have "channels_inv (sock_ip (al_relayed_address a)) (hm_insert n
      \<lparr>cb_peer = peer, cb_expires_at = now + CHANNEL_LIFETIME\<rparr> (al_channels (expire_children now a)))"
    by (rule channels_inv_insert) (use bound in \<open>simp_all del: expire_children_simps\<close>)
  with inv1 show ?thesis by (simp add: allocation_inv_def bound(8) relay del: expire_children_simps)
qed

section \<open>Histories\<close>

datatype turn_call =
    RefreshCall duration "u32 option"
  | CreatePermissionsCall duration "socket_addr list"
  | BindChannelCall duration u16 socket_addr
  | ChannelPeerCall duration u16
  | PermitsCall duration socket_addr
  | PeerRouteCall duration socket_addr

fun call_time :: "turn_call \<Rightarrow> duration" where
  "call_time (RefreshCall t _) = t"
| "call_time (CreatePermissionsCall t _) = t"
| "call_time (BindChannelCall t _ _) = t"
| "call_time (ChannelPeerCall t _) = t"
| "call_time (PermitsCall t _) = t"
| "call_time (PeerRouteCall t _) = t"

text \<open>A call on an allocation; the permissions it asked for are logged when it succeeds.\<close>

fun turn_step :: "channel_order \<Rightarrow> turn_call \<Rightarrow> (duration \<times> ip_addr) set \<times> allocation \<Rightarrow>
    (duration \<times> ip_addr) set \<times> allocation" where
  "turn_step order (RefreshCall t s) (lg, a) = (lg, snd (refresh t s a))"
| "turn_step order (CreatePermissionsCall t peers) (lg, a) =
     (case create_permissions t peers a of
        (Inl _, a') \<Rightarrow> (lg, a') | (Inr _, a') \<Rightarrow> (lg \<union> {t} \<times> sock_ip ` set peers, a'))"
| "turn_step order (BindChannelCall t n peer) (lg, a) =
     (case bind_channel t n peer a of
        (Inl _, a') \<Rightarrow> (lg, a') | (Inr _, a') \<Rightarrow> (insert (t, sock_ip peer) lg, a'))"
| "turn_step order (ChannelPeerCall t n) (lg, a) = (lg, snd (channel_peer t n a))"
| "turn_step order (PermitsCall t peer) (lg, a) = (lg, snd (permits t peer a))"
| "turn_step order (PeerRouteCall t peer) (lg, a) = (lg, snd (peer_route order t peer a))"

definition turn_run :: "channel_order \<Rightarrow> turn_call list \<Rightarrow> allocation \<Rightarrow> (duration \<times> ip_addr) set \<times> allocation" where
  "turn_run order calls a = fold (turn_step order) calls ({}, a)"

lemma queries_expire:
  "snd (channel_peer now n a) = expire_children now a" "snd (permits now peer a) = expire_children now a"
  "snd (peer_route order now peer a) = expire_children now a"
  by (simp_all add: channel_peer_def permits_def peer_route_def Let_def)

lemma refresh_inv: "allocation_inv (snd (refresh now s a)) = allocation_inv a"
  by (simp add: refresh_def Let_def allocation_inv_def)

lemma turn_step_inv: "allocation_inv a \<Longrightarrow> allocation_inv (snd (turn_step order c (lg, a)))"
proof (cases c)
  case (CreatePermissionsCall t peers)
  assume "allocation_inv a"
  moreover obtain r a' where "create_permissions t peers a = (r, a')" by fastforce
  ultimately show ?thesis using create_permissions_inv CreatePermissionsCall by (auto split: sum.splits)
next
  case (BindChannelCall t n peer)
  assume "allocation_inv a"
  moreover obtain r a' where "bind_channel t n peer a = (r, a')" by fastforce
  ultimately show ?thesis using bind_channel_inv BindChannelCall by (auto split: sum.splits)
qed (simp_all add: refresh_inv queries_expire expire_children_inv)

lemma turn_run_inv: "allocation_inv a \<Longrightarrow> allocation_inv (snd (fold (turn_step order) calls (lg, a)))"
proof (induction calls arbitrary: lg a)
  case Nil
  then show ?case by simp
next
  case (Cons c calls)
  obtain lg' a' where "turn_step order c (lg, a) = (lg', a')" by fastforce
  with Cons.IH [of a' lg'] turn_step_inv [OF Cons.prems, of order c lg] show ?case by simp
qed

lemma allocation_inv_new: "allocation_inv (allocation_new now username client relayed)"
  by (simp add: allocation_inv_def allocation_new_def permissions_inv_def channels_inv_def)

section \<open>Permissions in force\<close>

text \<open>The map answers, for every later instant, exactly what the log of installed permissions says.\<close>

definition in_force :: "(ip_addr, duration) hash_map \<Rightarrow> duration \<Rightarrow> ip_addr \<Rightarrow> bool" where
  "in_force m now ip \<longleftrightarrow> (\<exists>e. hm_get m ip = Some e \<and> now < e)"

definition installed :: "(duration \<times> ip_addr) set \<Rightarrow> duration \<Rightarrow> ip_addr \<Rightarrow> bool" where
  "installed lg now ip \<longleftrightarrow> (\<exists>t. (t, ip) \<in> lg \<and> now < t + PERMISSION_LIFETIME)"

definition tracks_log :: "duration \<Rightarrow> (duration \<times> ip_addr) set \<Rightarrow> (ip_addr, duration) hash_map \<Rightarrow> bool" where
  "tracks_log clock lg m \<longleftrightarrow>
     hm_wf m \<and> (\<forall>p\<in>lg. fst p \<le> clock) \<and> (\<forall>now ip. clock \<le> now \<longrightarrow> in_force m now ip = installed lg now ip)"

lemma in_force_filter:
  assumes "hm_wf m" and "t \<le> now"
  shows "in_force (filter (\<lambda>(_, e). t < e) m) now ip = in_force m now ip"
  unfolding in_force_def hm_get_filter [OF assms(1)] using assms(2) by (metis le_less_trans)

lemma tracks_expire: "tracks_log clock lg m \<Longrightarrow> clock \<le> t \<Longrightarrow> tracks_log t lg (filter (\<lambda>(_, e). t < e) m)"
  unfolding tracks_log_def by (auto simp: in_force_filter hm_filter_wf intro: order_trans)

lemma tracks_insert:
  assumes "tracks_log t lg m"
  shows "tracks_log t (lg \<union> {t} \<times> sock_ip ` set peers)
     (fold (\<lambda>peer m. hm_insert (sock_ip peer) (t + PERMISSION_LIFETIME) m) peers m)"
proof -
  let ?lg = "lg \<union> {t} \<times> sock_ip ` set peers"
  let ?m = "fold (\<lambda>peer m. hm_insert (sock_ip peer) (t + PERMISSION_LIFETIME) m) peers m"
  have old: "\<forall>p\<in>lg. fst p \<le> t" and same: "\<And>now ip. t \<le> now \<Longrightarrow> in_force m now ip = installed lg now ip"
    using assms by (simp_all add: tracks_log_def)
  have "in_force ?m now ip = installed ?lg now ip" if "t \<le> now" for now ip
  proof (cases "ip \<in> sock_ip ` set peers")
    case True
    then have "in_force ?m now ip \<longleftrightarrow> now < t + PERMISSION_LIFETIME"
      by (simp add: in_force_def hm_insert_all(3))
    moreover have "installed ?lg now ip \<longleftrightarrow> now < t + PERMISSION_LIFETIME"
      using True old by (fastforce simp: installed_def)
    ultimately show ?thesis by simp
  next
    case False
    then have "in_force ?m now ip = in_force m now ip" "installed ?lg now ip = installed lg now ip"
      by (simp_all add: in_force_def hm_insert_all(3) installed_def)
    with same [OF that] show ?thesis by simp
  qed
  moreover have "hm_wf ?m" using assms by (intro hm_insert_all(1)) (simp add: tracks_log_def)
  ultimately show ?thesis using old unfolding tracks_log_def by auto
qed

lemma tracks_create:
  assumes "tracks_log clock lg (al_permissions a)" and "clock \<le> t" and "create_permissions t peers a = (r, a')"
  shows "tracks_log t (if is_ok r then lg \<union> {t} \<times> sock_ip ` set peers else lg) (al_permissions a')"
  using assms(3)
proof (cases rule: create_permissions_cases)
  case (refused e)
  with tracks_expire [OF assms(1,2)] show ?thesis by simp
next
  case created
  with tracks_insert [OF tracks_expire [OF assms(1,2)], of peers] show ?thesis by simp
qed

lemma tracks_bind:
  assumes "tracks_log clock lg (al_permissions a)" and "clock \<le> t" and "bind_channel t n peer a = (r, a')"
  shows "tracks_log t (if is_ok r then insert (t, sock_ip peer) lg else lg) (al_permissions a')"
  using assms(3)
proof (cases rule: bind_channel_cases)
  case (refused e)
  with tracks_expire [OF assms(1,2)] show ?thesis by simp
next
  case (bound a1)
  with tracks_create [OF assms(1,2) bound(7)] show ?thesis by simp
qed

lemma tracks_later: "tracks_log clock lg m \<Longrightarrow> clock \<le> t \<Longrightarrow> tracks_log t lg m"
  by (auto simp: tracks_log_def intro: order_trans)

lemma tracks_step:
  assumes "tracks_log clock lg (al_permissions a)" and "clock \<le> call_time c" and "turn_step order c (lg, a) = (lg', a')"
  shows "tracks_log (call_time c) lg' (al_permissions a')"
proof (cases c)
  case (RefreshCall t s)
  with assms tracks_later [OF assms(1,2)] show ?thesis by (auto simp: refresh_def Let_def)
next
  case (CreatePermissionsCall t peers)
  obtain r b where "create_permissions t peers a = (r, b)" by fastforce
  with tracks_create [OF assms(1) _ this] assms(2,3) CreatePermissionsCall show ?thesis by (cases r) auto
next
  case (BindChannelCall t n peer)
  obtain r b where "bind_channel t n peer a = (r, b)" by fastforce
  with tracks_bind [OF assms(1) _ this] assms(2,3) BindChannelCall show ?thesis by (cases r) auto
qed (use assms tracks_expire [OF assms(1,2)] in \<open>auto simp: queries_expire\<close>)

lemma tracks_run:
  assumes "tracks_log clock lg (al_permissions a)" and "sorted (clock # map call_time calls)"
    and "fold (turn_step order) calls (lg, a) = (lg', a')"
  shows "tracks_log (last (clock # map call_time calls)) lg' (al_permissions a')"
  using assms
proof (induction calls arbitrary: clock lg a)
  case Nil
  then show ?case by simp
next
  case (Cons c calls)
  obtain lg1 a1 where step: "turn_step order c (lg, a) = (lg1, a1)" by fastforce
  have "tracks_log (call_time c) lg1 (al_permissions a1)"
    using Cons.prems(2) by (intro tracks_step [OF Cons.prems(1) _ step]) simp
  from Cons.IH [OF this] Cons.prems(2,3) step show ?case by simp
qed

lemma permits_in_force:
  assumes "allocation_inv a"
  shows "fst (permits now peer a) = in_force (al_permissions a) now (sock_ip peer)"
proof -
  have wf: "hm_wf (al_permissions a)" and fam: "\<forall>ip\<in>fst ` set (al_permissions a). same_family ip (sock_ip (al_relayed_address a))"
    using assms by (simp_all add: allocation_inv_def permissions_inv_def)
  have "hm_contains (filter (\<lambda>(_, e). now < e) (al_permissions a)) (sock_ip peer) = in_force (al_permissions a) now (sock_ip peer)"
    by (auto simp: hm_contains_def in_force_def hm_get_filter [OF wf])
  moreover have "in_force (al_permissions a) now (sock_ip peer) \<Longrightarrow> same_family (sock_ip peer) (sock_ip (al_relayed_address a))"
    using fam by (force simp: in_force_def dest: map_of_SomeD)
  ultimately show ?thesis by (auto simp: permits_def Let_def)
qed

section \<open>Routes\<close>

lemma find_unique:
  assumes "set ys = set xs" and "inj_on f (set xs)"
  shows "find (\<lambda>x. f x = p) ys = Some x \<longleftrightarrow> x \<in> set xs \<and> f x = p"
proof
  assume "find (\<lambda>x. f x = p) ys = Some x"
  then have "x \<in> set ys" "f x = p" by (auto simp: find_Some_iff)
  with assms(1) show "x \<in> set xs \<and> f x = p" by simp
next
  assume x: "x \<in> set xs \<and> f x = p"
  then obtain y where y: "find (\<lambda>x. f x = p) ys = Some y"
    using assms(1) by (cases "find (\<lambda>x. f x = p) ys") (auto simp: find_None_iff)
  then have "y \<in> set xs" "f y = p" using assms(1) by (auto simp: find_Some_iff)
  with x assms(2) y show "find (\<lambda>x. f x = p) ys = Some x" by (metis inj_onD)
qed

definition bound_to :: "allocation \<Rightarrow> duration \<Rightarrow> u16 \<Rightarrow> socket_addr \<Rightarrow> bool" where
  "bound_to a now n peer \<longleftrightarrow>
     (\<exists>b. hm_get (al_channels a) n = Some b \<and> now < cb_expires_at b \<and> cb_peer b = peer)"

lemma channel_peer_eq:
  assumes "allocation_inv a"
  shows "fst (channel_peer now n a) = Some peer \<longleftrightarrow>
     bound_to a now n peer \<and> in_force (al_permissions a) now (sock_ip peer)"
proof -
  have wf: "hm_wf (al_channels a)" "hm_wf (al_permissions a)"
    using assms by (simp_all add: allocation_inv_def channels_inv_def permissions_inv_def)
  have get: "hm_get (filter (\<lambda>(_, b). now < cb_expires_at b) (al_channels a)) n = Some b \<longleftrightarrow>
      hm_get (al_channels a) n = Some b \<and> now < cb_expires_at b" for b
    by (rule hm_get_filter [OF wf(1)])
  have "hm_contains (filter (\<lambda>(_, e). now < e) (al_permissions a)) ip = in_force (al_permissions a) now ip" for ip
    by (auto simp: hm_contains_def in_force_def hm_get_filter [OF wf(2)])
  then have "fst (channel_peer now n a) = Some peer \<longleftrightarrow>
      (\<exists>b. hm_get (filter (\<lambda>(_, b). now < cb_expires_at b) (al_channels a)) n = Some b \<and>
         in_force (al_permissions a) now (sock_ip (cb_peer b)) \<and> cb_peer b = peer)"
    by (auto simp: channel_peer_def Let_def split: option.splits if_splits)
  also have "\<dots> \<longleftrightarrow> bound_to a now n peer \<and> in_force (al_permissions a) now (sock_ip peer)"
    unfolding get bound_to_def by blast
  finally show ?thesis .
qed

lemma peer_route_eq:
  assumes "allocation_inv a" and "\<And>xs. mset (order xs) = mset xs"
  shows "fst (peer_route order now peer a) = Some (ChannelRoute n) \<longleftrightarrow>
     bound_to a now n peer \<and> in_force (al_permissions a) now (sock_ip peer)"
proof -
  let ?xs = "filter (\<lambda>(_, b). now < cb_expires_at b) (al_channels a)"
  have inv: "channels_inv (sock_ip (al_relayed_address a)) ?xs"
    using expire_children_inv [OF assms(1), of now] by (simp add: allocation_inv_def)
  then have wf: "hm_wf ?xs" and "inj_on (\<lambda>c. cb_peer (snd c)) (set ?xs)"
    by (simp_all add: channels_inv_def distinct_map)
  moreover have "set (order ?xs) = set ?xs" using assms(2) by (rule mset_eq_setD)
  ultimately have f: "find (\<lambda>c. cb_peer (snd c) = peer) (order ?xs) = Some (n, b) \<longleftrightarrow> hm_get ?xs n = Some b \<and> cb_peer b = peer" for b
    using find_unique [of "order ?xs" ?xs "\<lambda>c. cb_peer (snd c)" peer "(n, b)"] by (simp add: hm_wf_get_iff)
  have "fst (peer_route order now peer a) = Some (ChannelRoute n) \<longleftrightarrow>
      in_force (al_permissions a) now (sock_ip peer) \<and> (\<exists>b. find (\<lambda>c. cb_peer (snd c) = peer) (order ?xs) = Some (n, b))"
  proof -
    have "(\<lambda>(number :: u16, binding :: channel_binding). cb_peer binding = peer) = (\<lambda>c. cb_peer (snd c) = peer)"
      by (simp add: fun_eq_iff)
    note view = this
    show ?thesis
      using permits_in_force [OF assms(1), of now peer] unfolding peer_route_def view
      by (auto simp: permits_def Let_def split: option.splits if_splits)
  qed
  also have "\<dots> \<longleftrightarrow> bound_to a now n peer \<and> in_force (al_permissions a) now (sock_ip peer)"
  proof -
    have "hm_wf (al_channels a)" using assms(1) by (simp add: allocation_inv_def channels_inv_def)
    from hm_get_filter [OF this]
    have g: "hm_get ?xs n = Some b \<longleftrightarrow> hm_get (al_channels a) n = Some b \<and> now < cb_expires_at b" for b .
    show ?thesis unfolding f g bound_to_def conj_assoc by (rule conj_commute)
  qed
  finally show ?thesis .
qed

section \<open>Properties\<close>

text \<open>Over every history of calls an allocation holds at most 64 permissions and 64 channels; every
  channel number is in the range of TURN, no channel has two peers and no peer two channels, and every
  permission and every peer is of the address family of the relay.\<close>

lemma turn_allocation_invariant:
  "allocation_inv (snd (turn_run order calls (allocation_new now username client relayed)))"
  unfolding turn_run_def by (rule turn_run_inv) (rule allocation_inv_new)

text \<open>C31. The permissions in force are exactly those that were installed, by CreatePermission or by a
  channel binding, in the last five minutes: after calls in the order of time, a Send indication to a
  peer, or a datagram from it, is let through at a later instant if and only if a successful call
  installed its address less than the lifetime of a permission before.\<close>

theorem turn_permissions_exact:
  assumes "sorted (start # map call_time calls)" and "last (start # map call_time calls) \<le> now"
    and "turn_run order calls (allocation_new start username client relayed) = (lg, a)"
  shows "fst (permits now peer a) \<longleftrightarrow> (\<exists>t. (t, sock_ip peer) \<in> lg \<and> now < t + PERMISSION_LIFETIME)"
proof -
  let ?a = "allocation_new start username client relayed"
  have "tracks_log start {} (al_permissions ?a)"
    by (simp add: tracks_log_def allocation_new_def in_force_def installed_def)
  from tracks_run [OF this assms(1)] assms(3)
  have "tracks_log (last (start # map call_time calls)) lg (al_permissions a)" by (simp only: turn_run_def)
  moreover have "allocation_inv a"
    using turn_run_inv [OF allocation_inv_new [of start username client relayed], of order calls "{}"] assms(3)
    by (simp add: turn_run_def)
  ultimately show ?thesis
    using assms(2) permits_in_force by (simp add: tracks_log_def installed_def)
qed

theorem turn_permissions_exact_witness:
  "fst (permits (seconds 299) (SockV4 7 9) (snd (turn_run (\<lambda>xs. xs) [CreatePermissionsCall 0 [SockV4 7 8]]
     (allocation_new 0 [97] (SockV4 1 2) (SockV4 3 4))))) \<and>
   \<not> fst (permits (seconds 300) (SockV4 7 9) (snd (turn_run (\<lambda>xs. xs) [CreatePermissionsCall 0 [SockV4 7 8]]
     (allocation_new 0 [97] (SockV4 1 2) (SockV4 3 4)))))"
proof -
  let ?run = "turn_run (\<lambda>xs. xs) [CreatePermissionsCall 0 [SockV4 7 8]] (allocation_new 0 [97] (SockV4 1 2) (SockV4 3 4))"
  have lg: "fst ?run = {(0, IpV4 7)}"
    by (simp add: turn_run_def create_permissions_def allocation_new_def expire_children_def hm_contains_def
        MAX_PERMISSIONS_def Let_def)
  have "?run = (fst ?run, snd ?run)" by simp
  note exact = turn_permissions_exact [OF _ _ this]
  show ?thesis
    using exact [of "seconds 299" "SockV4 7 9"] exact [of "seconds 300" "SockV4 7 9"]
    by (simp add: lg PERMISSION_LIFETIME_def)
qed

text \<open>C32. The two directions of a channel agree: a client's ChannelData on channel n is relayed to a peer
  at some instant if and only if a datagram from that peer is then sent to the client as ChannelData on
  channel n, in whatever order the hash map of channels is iterated.\<close>

theorem turn_routes_agree:
  assumes "allocation_inv a" and "\<And>xs. mset (order xs) = mset xs"
  shows "fst (channel_peer now n a) = Some peer \<longleftrightarrow> fst (peer_route order now peer a) = Some (ChannelRoute n)"
  using channel_peer_eq [OF assms(1)] peer_route_eq [OF assms] by simp

theorem turn_routes_agree_witness:
  "let a = snd (bind_channel 0 0x4000 (SockV4 7 8) (allocation_new 0 [97] (SockV4 1 2) (SockV4 3 4))) in
   fst (channel_peer 5 0x4000 a) = Some (SockV4 7 8) \<and>
   fst (peer_route rev 5 (SockV4 7 8) a) = Some (ChannelRoute 0x4000)"
proof -
  let ?new = "allocation_new 0 [97] (SockV4 1 2) (SockV4 3 4)"
  let ?a = "snd (bind_channel 0 0x4000 (SockV4 7 8) ?new)"
  obtain r b where "bind_channel 0 0x4000 (SockV4 7 8) ?new = (r, b)" by fastforce
  with bind_channel_inv [OF allocation_inv_new this] have "allocation_inv ?a" by simp
  moreover have "fst (channel_peer 5 0x4000 ?a) = Some (SockV4 7 8)"
    by (simp add: channel_peer_def bind_channel_def create_permissions_def allocation_new_def expire_children_def
        hm_contains_def channel_number_ok_def MIN_CHANNEL_NUMBER_def MAX_CHANNEL_NUMBER_def MAX_CHANNELS_def
        MAX_PERMISSIONS_def PERMISSION_LIFETIME_def CHANNEL_LIFETIME_def Let_def)
  ultimately show ?thesis
    using turn_routes_agree [of ?a rev 5 "0x4000" "SockV4 7 8"] by (simp add: Let_def)
qed

text \<open>A ChannelData frame that is encoded is read back with its channel and its data, also when up to
  three zero bytes of padding follow it; and every datagram that is accepted is such a frame.\<close>

lemma channel_data_roundtrip:
  "channel_data_parse d = Inr \<lparr>ch_channel_number = n, ch_data = data\<rparr> \<longleftrightarrow>
     (\<exists>frame padding. channel_data_encode n data = Inr frame \<and> d = frame @ padding \<and>
        length padding \<le> 3 \<and> set padding \<subseteq> {0})" (is "?L = ?R")
proof
  assume ?L
  from channel_data_sound [OF this] obtain padding where
    "d = to_be n @ to_be (word_of_nat (length data) :: u16) @ data @ padding" "length padding \<le> 3" "set padding \<subseteq> {0}"
    "channel_number_ok n" "length data < 65536" by auto
  then show ?R
    by (intro exI [of _ "to_be n @ to_be (word_of_nat (length data) :: u16) @ data"] exI [of _ padding])
      (simp add: channel_data_encode_def)
next
  assume ?R
  then obtain frame padding where e: "channel_data_encode n data = Inr frame" and d: "d = frame @ padding"
    and p: "length padding \<le> 3" "set padding \<subseteq> {0}" by blast
  from e have f: "frame = to_be n @ to_be (word_of_nat (length data) :: u16) @ data"
    and ok: "channel_number_ok n" "length data < 65536"
    by (auto simp: channel_data_encode_def split: if_splits)
  from p channel_data_read [OF ok, of padding] show ?L by (auto simp: d f)
qed

end
