(* ===== verification/Turn_Nonce.thy ===== *)
theory Turn_Nonce
  imports Net_Address
begin

text \<open>
  The nonces of the TURN server, \<open>crates/services/turn-server/src/nonce.rs\<close>: a time stamp and the
  address of the client under a MAC. HMAC-SHA256 and Base64 come from crates outside the repository
  and are the fields of a record that the definitions take as an argument; that Base64 decodes what it
  encoded is a hypothesis where it is used. Shown: an issued nonce is accepted from its client and from
  nobody else, until its lifetime is over.
\<close>

record nonce_crypto =
  nc_hmac_sha256 :: "bytes \<Rightarrow> (bytes \<Rightarrow> 256 word) option"
  nc_encode :: "bytes \<Rightarrow> rust_string"
  nc_decode :: "rust_string \<Rightarrow> bytes option"

datatype nonce_error = InvalidNonceConfiguration | InvalidNonce | StaleNonce

record nonce_manager =
  nm_secret :: bytes
  nm_lifetime :: duration

definition TAG_BYTES :: nat where "TAG_BYTES = 32"

definition nonce_manager_new :: "bytes \<Rightarrow> duration \<Rightarrow> (nonce_error, nonce_manager) result" where
  "nonce_manager_new secret lifetime =
     (if length secret < 32 \<or> lifetime = 0 \<or> lifetime > 60 * 60 * 1000000000
      then Inl InvalidNonceConfiguration
      else Inr \<lparr>nm_secret = secret, nm_lifetime = lifetime\<rparr>)"

fun nonce_payload :: "u64 \<Rightarrow> ip_addr \<Rightarrow> bytes" where
  "nonce_payload timestamp (IpV4 address) = to_be timestamp @ [4] @ to_be address"
| "nonce_payload timestamp (IpV6 address) = to_be timestamp @ [6] @ to_be address"

definition nonce_issue ::
    "nonce_crypto \<Rightarrow> nonce_manager \<Rightarrow> u64 \<Rightarrow> ip_addr \<Rightarrow> (nonce_error, rust_string) result" where
  "nonce_issue cr m now_seconds client_ip =
     (let payload = nonce_payload now_seconds client_ip in
      bind_r (ok_or InvalidNonceConfiguration (nc_hmac_sha256 cr (nm_secret m))) (\<lambda>mac.
        Inr (nc_encode cr (payload @ to_be (mac payload)))))"

definition nonce_validate ::
    "nonce_crypto \<Rightarrow> nonce_manager \<Rightarrow> rust_string \<Rightarrow> u64 \<Rightarrow> ip_addr \<Rightarrow> (nonce_error, unit) result" where
  "nonce_validate cr m nonce now_seconds client_ip =
     bind_r (ok_or InvalidNonce (nc_decode cr nonce)) (\<lambda>decoded.
     let payload_length = length (nonce_payload 0 client_ip) in
     if length decoded \<noteq> payload_length + TAG_BYTES then Inl InvalidNonce
     else
       let payload = take payload_length decoded; tag = drop payload_length decoded in
       bind_r (ok_or InvalidNonce (get_range payload 0 8)) (\<lambda>timestamp_bytes.
       let timestamp = from_be timestamp_bytes in
       if payload \<noteq> nonce_payload timestamp client_ip then Inl InvalidNonce
       else
         bind_r (ok_or InvalidNonceConfiguration (nc_hmac_sha256 cr (nm_secret m))) (\<lambda>mac.
         if to_be (mac payload) \<noteq> tag then Inl InvalidNonce
         else if timestamp > now_seconds \<or> unat now_seconds - unat timestamp > nm_lifetime m div 1000000000
         then Inl StaleNonce
         else Inr ())))"

lemma length_nonce_payload:
  "length (nonce_payload t ip) = (case ip of IpV4 _ \<Rightarrow> 13 | IpV6 _ \<Rightarrow> 25)"
  by (cases ip) simp_all

lemma nonce_payload_prefix: "get_range (nonce_payload t ip) 0 8 = Some (to_be t)"
  by (cases ip) (simp_all add: get_range_def)

lemma nonce_payload_ip: "nonce_payload t ip = nonce_payload t ip' \<longleftrightarrow> ip = ip'"
  by (cases ip; cases ip') (simp_all add: be32.enc_inj be128.enc_inj)

text \<open>What is validated: the decoded nonce is the payload of a time stamp under the MAC.\<close>

lemma nonce_validate_payload:
  assumes "nc_decode cr nonce = Some (nonce_payload t ip @ to_be w)" and "nc_hmac_sha256 cr (nm_secret m) = Some mac"
  shows "nonce_validate cr m nonce now ip' =
     (if ip' = ip then
        if to_be (mac (nonce_payload t ip)) \<noteq> to_be (w :: 256 word) then Inl InvalidNonce
        else if now < t \<or> unat now - unat t > nm_lifetime m div 1000000000 then Inl StaleNonce else Inr ()
      else Inl InvalidNonce)"
proof (cases "length (nonce_payload 0 ip') = length (nonce_payload t ip)")
  case True
  then have eq: "length (nonce_payload 0 ip') = length (nonce_payload t ip)" .
  have parts: "take (length (nonce_payload t ip)) (nonce_payload t ip @ to_be w) = nonce_payload t ip"
    "drop (length (nonce_payload t ip)) (nonce_payload t ip @ to_be w) = to_be w" by simp_all
  have len: "length (nonce_payload t ip @ to_be w) = length (nonce_payload t ip) + TAG_BYTES"
    by (simp add: TAG_BYTES_def)
  have "(nonce_payload t ip \<noteq> nonce_payload t ip') = (ip' \<noteq> ip)" using nonce_payload_ip [of t ip ip'] by auto
  then show ?thesis
    unfolding nonce_validate_def assms Let_def ok_or_simps bind_r.simps eq len parts nonce_payload_prefix be64.dec_enc
    by simp
next
  case False
  then have "ip' \<noteq> ip" by (auto simp: length_nonce_payload split: ip_addr.splits)
  with False show ?thesis
    by (simp add: nonce_validate_def assms Let_def TAG_BYTES_def)
qed

section \<open>Properties\<close>

text \<open>C33. A nonce is bound to its client and to its lifetime: a nonce that the server issued is valid for
  the address it was issued to from the second it was issued until the lifetime, in whole seconds, is
  over; before and after it is stale, and from every other address it is invalid.\<close>

theorem nonce_bound_to_client:
  assumes "nonce_issue cr m t ip = Inr nonce" and "\<And>bs. nc_decode cr (nc_encode cr bs) = Some bs"
  shows "nonce_validate cr m nonce now ip' =
     (if ip' \<noteq> ip then Inl InvalidNonce
      else if unat t \<le> unat now \<and> unat now \<le> unat t + nm_lifetime m div 1000000000 then Inr ()
      else Inl StaleNonce)"
proof -
  from assms(1) obtain mac where mac: "nc_hmac_sha256 cr (nm_secret m) = Some mac"
    and n: "nonce = nc_encode cr (nonce_payload t ip @ to_be (mac (nonce_payload t ip)))"
    by (auto simp: nonce_issue_def Let_def bind_r_eq_Inr ok_or_eq_Inr)
  have "nc_decode cr nonce = Some (nonce_payload t ip @ to_be (mac (nonce_payload t ip)))"
    by (simp add: n assms(2))
  from nonce_validate_payload [OF this mac] show ?thesis
    by (auto simp: word_less_nat_alt)
qed

definition sample_nonce_crypto :: nonce_crypto where
  "sample_nonce_crypto = \<lparr>nc_hmac_sha256 = (\<lambda>key. Some (\<lambda>d. word_of_nat (length key + length d))),
     nc_encode = map unat, nc_decode = (\<lambda>s. Some (map word_of_nat s))\<rparr>"

theorem nonce_bound_to_client_witness:
  "\<exists>m nonce. nonce_manager_new (replicate 32 7) (600 * 1000000000) = Inr m \<and>
     nonce_issue sample_nonce_crypto m 1000 (IpV4 9) = Inr nonce \<and>
     nonce_validate sample_nonce_crypto m nonce 1600 (IpV4 9) = Inr () \<and>
     nonce_validate sample_nonce_crypto m nonce 1601 (IpV4 9) = Inl StaleNonce \<and>
     nonce_validate sample_nonce_crypto m nonce 1001 (IpV4 8) = Inl InvalidNonce"
proof -
  let ?m = "\<lparr>nm_secret = replicate 32 7, nm_lifetime = 600000000000\<rparr>"
  obtain nonce where n: "nonce_issue sample_nonce_crypto ?m 1000 (IpV4 9) = Inr nonce"
    by (simp add: nonce_issue_def sample_nonce_crypto_def Let_def)
  have "nc_decode sample_nonce_crypto (nc_encode sample_nonce_crypto bs) = Some bs" for bs
    by (simp add: sample_nonce_crypto_def comp_def)
  note exact = nonce_bound_to_client [OF n this]
  show ?thesis
    by (rule exI [of _ ?m], rule exI [of _ nonce]) (simp add: n exact nonce_manager_new_def)
qed

end
