(* ===== verification/Turn_Server.thy ===== *)
theory Turn_Server
  imports Stun Turn Turn_Nonce Rust_Text
begin

text \<open>
  The request handling of the TURN server, \<open>crates/services/turn-server/src/server.rs\<close>: addresses a
  relay may reach, the bandwidth limiter, authentication, the handlers of all requests, indications and
  ChannelData, the relay of peer datagrams, expiry, and the framing of control streams.

  The server is a record; a handler takes it and returns its result, its effects and the server it
  leaves behind, also when it fails. Effects are datagrams to clients and peers and the start and stop
  of relay tasks. What the handlers read from outside is an argument: the readings of the clocks (one
  field for each reading in the code), the outcome of binding relay sockets and of sending, the random
  transaction of an indication, and the cryptographic functions. A socket is known by its port. The
  map of allocations is behind a mutex, so that a handler is a sequence of atomic sections; an Allocate
  request has two of them, which are separate definitions. Accepting connections, TLS, the status
  service and the rendering of metrics are input and output and left out; the counters are kept.
\<close>

section \<open>Addresses\<close>

definition octet :: "u32 \<Rightarrow> nat \<Rightarrow> nat" where
  "octet ip i = unat (to_be ip ! i)"

definition v4_is_private :: "u32 \<Rightarrow> bool" where
  "v4_is_private ip \<longleftrightarrow> octet ip 0 = 10 \<or> (octet ip 0 = 172 \<and> 16 \<le> octet ip 1 \<and> octet ip 1 \<le> 31) \<or>
     (octet ip 0 = 192 \<and> octet ip 1 = 168)"

definition segment16 :: "u128 \<Rightarrow> nat \<Rightarrow> u16" where
  "segment16 ip i = from_be [to_be ip ! (2 * i), to_be ip ! (2 * i + 1)]"

definition to_ipv4_mapped :: "u128 \<Rightarrow> u32 option" where
  "to_ipv4_mapped ip =
     (let o16 = to_be ip in
      if take 12 o16 = replicate 10 0 @ [0xff, 0xff] then Some (from_be (drop 12 o16)) else None)"

fun is_unspecified :: "ip_addr \<Rightarrow> bool" where
  "is_unspecified (IpV4 ip) \<longleftrightarrow> ip = 0"
| "is_unspecified (IpV6 ip) \<longleftrightarrow> ip = 0"

fun is_multicast :: "ip_addr \<Rightarrow> bool" where
  "is_multicast (IpV4 ip) \<longleftrightarrow> (224 \<le> octet ip 0 \<and> octet ip 0 \<le> 239) \<or> ip = 0xffffffff"
| "is_multicast (IpV6 ip) \<longleftrightarrow> segment16 ip 0 AND 0xff00 = 0xff00 \<or> ip = 0"

definition is_private_v4 :: "u32 \<Rightarrow> bool" where
  "is_private_v4 ip \<longleftrightarrow>
     (let first = octet ip 0; second = octet ip 1; third = octet ip 2 in
      first = 127 \<or> (first = 169 \<and> second = 254) \<or> v4_is_private ip \<or> first = 0 \<or>
      (first = 100 \<and> 64 \<le> second \<and> second \<le> 127) \<or>
      (first = 192 \<and> second = 0 \<and> third = 0) \<or> (first = 192 \<and> second = 0 \<and> third = 2) \<or>
      (first = 192 \<and> second = 88 \<and> third = 99) \<or> (first = 198 \<and> (second = 18 \<or> second = 19)) \<or>
      (first = 198 \<and> second = 51 \<and> third = 100) \<or> (first = 203 \<and> second = 0 \<and> third = 113) \<or> first \<ge> 240)"

fun is_private_peer :: "ip_addr \<Rightarrow> bool" where
  "is_private_peer (IpV4 ip) \<longleftrightarrow> is_private_v4 ip"
| "is_private_peer (IpV6 ip) \<longleftrightarrow>
     ip = 1 \<or> segment16 ip 0 AND 0xffc0 = 0xfe80 \<or> segment16 ip 0 AND 0xfe00 = 0xfc00 \<or>
     (segment16 ip 0 = 0x2001 \<and> segment16 ip 1 = 0x0db8) \<or> segment16 ip 0 AND 0xffc0 = 0xfec0 \<or>
     (case to_ipv4_mapped ip of None \<Rightarrow> False | Some a \<Rightarrow> is_private_v4 a)"

definition concrete_ip_matches :: "ip_addr \<Rightarrow> ip_addr \<Rightarrow> bool" where
  "concrete_ip_matches candidate configured \<longleftrightarrow> \<not> is_unspecified configured \<and> candidate = configured"

section \<open>Configuration and state\<close>

definition MAX_DATAGRAM_BYTES :: nat where "MAX_DATAGRAM_BYTES = 65535"
definition MAX_RELAY_DATA_BYTES :: nat where "MAX_RELAY_DATA_BYTES = 65000"

definition SERVER_SOFTWARE :: rust_string where "SERVER_SOFTWARE = str_lit ''Fluvora TURN 0.1''"

record server_config =
  sc_control_bind :: socket_addr
  sc_status_bind :: socket_addr
  sc_advertised_ip :: ip_addr
  sc_relay_bind_ip :: ip_addr
  sc_relay_port_min :: u16
  sc_relay_port_max :: u16
  sc_allow_private_peers :: bool
  sc_maximum_relay_bytes_per_second :: u64
  sc_username :: rust_string
  sc_password :: rust_string
  sc_realm :: rust_string
  sc_nonce_secret :: bytes
  sc_rest_secret :: bytes
  sc_maximum_allocations :: nat
  sc_maximum_allocations_per_ip :: nat
  sc_tls_bind :: "socket_addr option"

datatype server_error =
    ServerInvalidConfiguration | MalformedRequest | ServerIo | ServerStun stun_error | ServerTurn turn_error
  | ConnectionIdExhausted

record bandwidth_limiter =
  bl_available_bytes :: u64
  bl_updated_at :: duration

definition limiter_new :: "u64 \<Rightarrow> duration \<Rightarrow> bandwidth_limiter" where
  "limiter_new bytes_per_second now =
     \<lparr>bl_available_bytes = saturating_mul bytes_per_second 2, bl_updated_at = now\<rparr>"

definition u64_of_nat :: "nat \<Rightarrow> u64" where
  "u64_of_nat n = (if n < 2 ^ 64 then word_of_nat n else - 1)"

definition consume :: "duration \<Rightarrow> nat \<Rightarrow> u64 \<Rightarrow> bandwidth_limiter \<Rightarrow> bool \<times> bandwidth_limiter" where
  "consume now n bytes_per_second l =
     (let elapsed = now - bl_updated_at l;
          replenished = min (unat bytes_per_second * elapsed) (2 ^ 128 - 1) div 1000000000;
          l = (if replenished \<noteq> 0
               then l\<lparr>bl_available_bytes := min (saturating_add (bl_available_bytes l) (u64_of_nat replenished))
                        (saturating_mul bytes_per_second 2),
                      bl_updated_at := now\<rparr>
               else l);
          b = u64_of_nat n
      in if b > bl_available_bytes l then (False, l)
         else (True, l\<lparr>bl_available_bytes := bl_available_bytes l - b\<rparr>))"

datatype client_key = UdpClient (client_address: socket_addr) | TcpClient u64 (client_address: socket_addr)

datatype client_sender = UdpSender socket_addr | TcpSender u64

record managed_allocation =
  ma_allocation :: allocation
  ma_relay_port :: u16
  ma_allocate_transaction :: transaction_id
  ma_allocate_response :: bytes
  ma_control_sender :: client_sender
  ma_bandwidth :: bandwidth_limiter

record server_metrics =
  me_allocations_created :: u64
  me_allocations_rejected :: u64
  me_client_bytes_relayed :: u64
  me_peer_bytes_relayed :: u64
  me_dropped_datagrams :: u64
  me_authentication_failures :: u64
  me_rate_limited_datagrams :: u64

record turn_server =
  ts_configuration :: server_config
  ts_allocations :: "(client_key, managed_allocation) hash_map"
  ts_nonce :: nonce_manager
  ts_credential_key :: bytes
  ts_metrics :: server_metrics
  ts_next_relay_port :: u16

record server_crypto =
  sv_stun :: stun_crypto
  sv_turn :: turn_crypto
  sv_nonce :: nonce_crypto

datatype bind_outcome = Bound u16 | AddrInUse | BindFailed

record server_io =
  io_bind :: "socket_addr \<Rightarrow> bind_outcome"
  io_sent :: bool

record clocks =
  ck_elapsed :: duration
  ck_credential :: u64
  ck_nonce :: u64
  ck_challenge :: u64

datatype turn_effect =
    ToClient client_sender bytes
  | ToPeer u16 socket_addr bytes
  | StartRelay client_key u16
  | CancelRelay u16

definition valid_relay_port_range :: "u16 \<Rightarrow> u16 \<Rightarrow> nat \<Rightarrow> bool" where
  "valid_relay_port_range minimum maximum allocations \<longleftrightarrow>
     (if minimum = 0 \<or> maximum = 0 then minimum = 0 \<and> maximum = 0
      else minimum \<le> maximum \<and>
           unat (saturating_add (if minimum \<le> maximum then maximum - minimum else 0) 1) \<ge> allocations)"

text \<open>\<open>TurnServer::bind\<close>: \<open>sockets\<close> is the outcome of binding the sockets and loading the certificate.\<close>

definition server_new ::
    "server_crypto \<Rightarrow> (server_error, unit) result \<Rightarrow> server_config \<Rightarrow> (server_error, turn_server) result" where
  "server_new cr sockets c =
     (if \<not> same_family (sc_advertised_ip c) (sc_relay_bind_ip c) \<or> sc_maximum_allocations c = 0 \<or>
         sc_maximum_allocations_per_ip c = 0 \<or> sc_maximum_allocations_per_ip c > sc_maximum_allocations c \<or>
         sc_maximum_relay_bytes_per_second c < u64_of_nat MAX_RELAY_DATA_BYTES \<or>
         \<not> valid_relay_port_range (sc_relay_port_min c) (sc_relay_port_max c) (sc_maximum_allocations c)
      then Inl ServerInvalidConfiguration
      else
        bind_r sockets (\<lambda>_.
        bind_r (map_err (\<lambda>_. ServerInvalidConfiguration) (nonce_manager_new (sc_nonce_secret c) (10 * 60 * 1000000000))) (\<lambda>nonce.
          Inr \<lparr>ts_configuration = c, ts_allocations = [], ts_nonce = nonce,
               ts_credential_key = long_term_key (sv_turn cr) (sc_username c) (sc_realm c) (sc_password c),
               ts_metrics = \<lparr>me_allocations_created = 0, me_allocations_rejected = 0, me_client_bytes_relayed = 0,
                 me_peer_bytes_relayed = 0, me_dropped_datagrams = 0, me_authentication_failures = 0,
                 me_rate_limited_datagrams = 0\<rparr>,
               ts_next_relay_port = sc_relay_port_min c\<rparr>)))"

definition is_server_endpoint :: "server_config \<Rightarrow> socket_addr \<Rightarrow> bool" where
  "is_server_endpoint c peer \<longleftrightarrow>
     (sock_ip peer = sc_advertised_ip c \<or> concrete_ip_matches (sock_ip peer) (sock_ip (sc_control_bind c)) \<or>
      concrete_ip_matches (sock_ip peer) (sock_ip (sc_status_bind c)) \<or>
      concrete_ip_matches (sock_ip peer) (sc_relay_bind_ip c) \<or>
      (case sc_tls_bind c of None \<Rightarrow> False | Some tls \<Rightarrow> concrete_ip_matches (sock_ip peer) (sock_ip tls))) \<and>
     (sock_port peer = sock_port (sc_control_bind c) \<or> sock_port peer = sock_port (sc_status_bind c) \<or>
      (case sc_tls_bind c of None \<Rightarrow> False | Some tls \<Rightarrow> sock_port peer = sock_port tls) \<or>
      (sc_relay_port_min c \<noteq> 0 \<and> sc_relay_port_min c \<le> sock_port peer \<and> sock_port peer \<le> sc_relay_port_max c))"

definition safe_peer :: "server_config \<Rightarrow> socket_addr \<Rightarrow> bool" where
  "safe_peer c peer \<longleftrightarrow>
     \<not> (sock_port peer = 0 \<or> is_unspecified (sock_ip peer) \<or> is_multicast (sock_ip peer) \<or>
        (\<not> sc_allow_private_peers c \<and> is_private_peer (sock_ip peer)) \<or> is_server_endpoint c peer)"


section \<open>Relay ports\<close>

text \<open>\<open>Bound p\<close> is a socket whose \<open>local_addr\<close> has port \<open>p\<close>; a failure of \<open>local_addr\<close> is an input/output
  error like a failure to bind.\<close>

fun bind_relay_ports ::
    "server_io \<Rightarrow> server_config \<Rightarrow> u16 \<Rightarrow> nat \<Rightarrow> u16 \<Rightarrow> (server_error, u16) result \<times> u16" where
  "bind_relay_ports io c port_count 0 candidate = (Inl ServerIo, candidate)"
| "bind_relay_ports io c port_count (Suc k) candidate =
     (let offset = (candidate - sc_relay_port_min c) mod port_count; port = sc_relay_port_min c + offset in
      case io_bind io (sock_new (sc_relay_bind_ip c) port) of
        Bound p \<Rightarrow> (Inr p, candidate + 1)
      | AddrInUse \<Rightarrow> bind_relay_ports io c port_count k (candidate + 1)
      | BindFailed \<Rightarrow> (Inl ServerIo, candidate + 1))"

definition relay_port_count :: "server_config \<Rightarrow> u16" where
  "relay_port_count c =
     saturating_add (if sc_relay_port_min c \<le> sc_relay_port_max c then sc_relay_port_max c - sc_relay_port_min c else 0) 1"

definition bind_relay_socket :: "server_io \<Rightarrow> turn_server \<Rightarrow> (server_error, u16) result \<times> turn_server" where
  "bind_relay_socket io s =
     (let c = ts_configuration s in
      if sc_relay_port_min c = 0 then
        (case io_bind io (sock_new (sc_relay_bind_ip c) 0) of Bound p \<Rightarrow> (Inr p, s) | _ \<Rightarrow> (Inl ServerIo, s))
      else
        let port_count = relay_port_count c;
            (r, candidate) = bind_relay_ports io c port_count (unat port_count) (ts_next_relay_port s)
        in (r, s\<lparr>ts_next_relay_port := candidate\<rparr>))"

section \<open>Sending\<close>

definition tcp_padding :: "bytes \<Rightarrow> bytes" where
  "tcp_padding frame =
     (if frame \<noteq> [] \<and> hd frame AND 0xc0 = 0x40 then replicate ((4 - length frame mod 4) mod 4) 0 else [])"

fun wire_frame :: "client_sender \<Rightarrow> bytes \<Rightarrow> bytes" where
  "wire_frame (UdpSender _) frame = frame"
| "wire_frame (TcpSender _) frame = frame @ tcp_padding frame"

definition client_send :: "server_io \<Rightarrow> client_sender \<Rightarrow> bytes \<Rightarrow> (server_error, unit) result \<times> turn_effect list" where
  "client_send io sender frame =
     (if io_sent io then Inr () else Inl ServerIo, [ToClient sender (wire_frame sender frame)])"

definition count :: "(server_metrics \<Rightarrow> server_metrics) \<Rightarrow> turn_server \<Rightarrow> turn_server" where
  "count f s = s\<lparr>ts_metrics := f (ts_metrics s)\<rparr>"

definition put_allocation :: "client_key \<Rightarrow> managed_allocation \<Rightarrow> turn_server \<Rightarrow> turn_server" where
  "put_allocation client a s = s\<lparr>ts_allocations := hm_insert client a (ts_allocations s)\<rparr>"

section \<open>Responses\<close>

definition build_response :: "server_crypto \<Rightarrow> message_builder \<Rightarrow> (server_error, bytes) result" where
  "build_response cr b = map_err ServerStun (message_build (sv_stun cr) b)"

definition binding_response :: "server_crypto \<Rightarrow> stun_message \<Rightarrow> socket_addr \<Rightarrow> (server_error, bytes) result" where
  "binding_response cr m client =
     build_response cr (with_fingerprint (add_software SERVER_SOFTWARE (add_xor_mapped_address client
       (builder_new \<lparr>mt_method = BINDING, mt_class = SuccessResponse\<rparr> (ms_transaction_id m)))))"

definition allocation_success ::
    "server_crypto \<Rightarrow> stun_message \<Rightarrow> socket_addr \<Rightarrow> socket_addr \<Rightarrow> u32 \<Rightarrow> bytes \<Rightarrow> (server_error, bytes) result" where
  "allocation_success cr m relayed_address mapped_address lifetime key =
     build_response cr (with_fingerprint (with_integrity_sha1 key (add_software SERVER_SOFTWARE
       (add_raw_attribute LIFETIME (to_be lifetime) (add_xor_mapped_address mapped_address
         (add_xor_address XOR_RELAYED_ADDRESS relayed_address
           (builder_new \<lparr>mt_method = ALLOCATE, mt_class = SuccessResponse\<rparr> (ms_transaction_id m))))))))"

definition lifetime_success :: "server_crypto \<Rightarrow> stun_message \<Rightarrow> u32 \<Rightarrow> bytes \<Rightarrow> (server_error, bytes) result" where
  "lifetime_success cr m lifetime key =
     build_response cr (with_fingerprint (with_integrity_sha1 key (add_software SERVER_SOFTWARE
       (add_raw_attribute LIFETIME (to_be lifetime)
         (builder_new \<lparr>mt_method = REFRESH, mt_class = SuccessResponse\<rparr> (ms_transaction_id m))))))"

definition empty_success :: "server_crypto \<Rightarrow> stun_message \<Rightarrow> bytes \<Rightarrow> (server_error, bytes) result" where
  "empty_success cr m key =
     build_response cr (with_fingerprint (with_integrity_sha1 key (add_software SERVER_SOFTWARE
       (builder_new \<lparr>mt_method = mt_method (ms_kind m), mt_class = SuccessResponse\<rparr> (ms_transaction_id m)))))"

definition authenticated_error ::
    "server_crypto \<Rightarrow> stun_message \<Rightarrow> u16 \<Rightarrow> rust_string \<Rightarrow> bytes option \<Rightarrow> attribute_type list option \<Rightarrow>
     (server_error, bytes) result" where
  "authenticated_error cr m code reason key unknown =
     bind_r (map_err ServerStun (add_error_code code reason
       (builder_new \<lparr>mt_method = mt_method (ms_kind m), mt_class = ErrorResponse\<rparr> (ms_transaction_id m)))) (\<lambda>b.
     let b = (case unknown of None \<Rightarrow> b | Some ts \<Rightarrow> add_unknown_attributes ts b);
         b = add_software SERVER_SOFTWARE b;
         b = (case key of None \<Rightarrow> b | Some k \<Rightarrow> with_integrity_sha1 k b)
     in build_response cr (with_fingerprint b))"

text \<open>\<open>random\<close> is the transaction drawn by \<open>getrandom\<close>, or none if it fails.\<close>

definition data_indication ::
    "server_crypto \<Rightarrow> transaction_id option \<Rightarrow> socket_addr \<Rightarrow> bytes \<Rightarrow> (stun_error, bytes) result" where
  "data_indication cr random peer data =
     bind_r (ok_or InvalidIntegrityKey random) (\<lambda>transaction.
       message_build (sv_stun cr) (with_fingerprint (add_raw_attribute DATA_ATTRIBUTE data (add_xor_address XOR_PEER_ADDRESS peer
         (builder_new \<lparr>mt_method = DATA_METHOD, mt_class = Indication\<rparr> transaction)))))"

section \<open>Attributes of requests\<close>

definition four_bytes :: "raw_attribute \<Rightarrow> (server_error, bytes) result" where
  "four_bytes a = (if length (ra_value a) = 4 then Inr (ra_value a) else Inl MalformedRequest)"

definition requested_transport :: "stun_message \<Rightarrow> (server_error, u8 option) result" where
  "requested_transport m =
     (case attribute m REQUESTED_TRANSPORT of None \<Rightarrow> Inr None
      | Some a \<Rightarrow> bind_r (four_bytes a) (\<lambda>v.
          if drop 1 v \<noteq> [0, 0, 0] then Inl MalformedRequest else Inr (Some (v ! 0))))"

definition request_u32 :: "stun_message \<Rightarrow> attribute_type \<Rightarrow> (server_error, u32 option) result" where
  "request_u32 m t =
     (case attribute m t of None \<Rightarrow> Inr None | Some a \<Rightarrow> bind_r (four_bytes a) (\<lambda>v. Inr (Some (from_be v))))"

definition channel_number :: "stun_message \<Rightarrow> (server_error, u16 option) result" where
  "channel_number m =
     (case attribute m CHANNEL_NUMBER of None \<Rightarrow> Inr None
      | Some a \<Rightarrow> bind_r (four_bytes a) (\<lambda>v.
          if drop 2 v \<noteq> [0, 0] then Inl MalformedRequest else Inr (Some (from_be [v ! 0, v ! 1]))))"

section \<open>Authentication\<close>

record authentication =
  au_username :: rust_string
  au_key :: bytes

datatype auth_rejection = Unauthorized | StaleNonceRejection

definition is_ascii_hexdigit :: "nat \<Rightarrow> bool" where
  "is_ascii_hexdigit c \<longleftrightarrow> (48 \<le> c \<and> c \<le> 57) \<or> (65 \<le> c \<and> c \<le> 70) \<or> (97 \<le> c \<and> c \<le> 102)"

definition credential_key :: "server_crypto \<Rightarrow> u64 \<Rightarrow> turn_server \<Rightarrow> rust_string \<Rightarrow> bytes option" where
  "credential_key cr now s username =
     (let c = ts_configuration s in
      if username = sc_username c then Some (ts_credential_key s)
      else
        case split_once 58 username of None \<Rightarrow> None
        | Some (expires_text, subject) \<Rightarrow>
            (case (parse_unsigned expires_text :: u64 option) of None \<Rightarrow> None
             | Some expires \<Rightarrow>
                 if subject = [] \<or> str_len subject > 128 \<or> \<not> list_all is_ascii_hexdigit subject \<or> expires \<le> now \<or>
                    expires > saturating_add now 86400
                 then None
                 else
                   case rest_credential_password (sv_turn cr) (sc_rest_secret c) username of
                     Inl _ \<Rightarrow> None
                   | Inr password \<Rightarrow> Some (long_term_key (sv_turn cr) username (sc_realm c) password)))"

definition present :: "(stun_error, rust_string option) result \<Rightarrow> (auth_rejection, rust_string) result" where
  "present r = bind_r (map_err (\<lambda>_. Unauthorized) r) (ok_or Unauthorized)"

definition server_authenticate ::
    "server_crypto \<Rightarrow> clocks \<Rightarrow> turn_server \<Rightarrow> ip_addr \<Rightarrow> stun_message \<Rightarrow> (auth_rejection, authentication) result" where
  "server_authenticate cr ck s client_ip m =
     bind_r (present (msg_username m)) (\<lambda>username.
     bind_r (present (msg_realm m)) (\<lambda>realm.
     bind_r (present (msg_nonce m)) (\<lambda>nonce.
     if realm \<noteq> sc_realm (ts_configuration s) then Inl Unauthorized
     else
       bind_r (ok_or Unauthorized (credential_key cr (ck_credential ck) s username)) (\<lambda>key.
       case nonce_validate (sv_nonce cr) (ts_nonce s) nonce (ck_nonce ck) client_ip of
         Inl StaleNonce \<Rightarrow> Inl StaleNonceRejection
       | Inl _ \<Rightarrow> Inl Unauthorized
       | Inr _ \<Rightarrow>
           bind_r (map_err (\<lambda>_. Unauthorized) (verify_message_integrity_sha1 (sv_stun cr) m key)) (\<lambda>_.
           bind_r (if attribute m FINGERPRINT \<noteq> None
                   then map_err (\<lambda>_. Unauthorized) (verify_fingerprint (sv_stun cr) m) else Inr ()) (\<lambda>_.
             Inr \<lparr>au_username = username, au_key = key\<rparr>))))))"

definition challenge_response ::
    "server_crypto \<Rightarrow> u64 \<Rightarrow> turn_server \<Rightarrow> ip_addr \<Rightarrow> stun_message \<Rightarrow> auth_rejection \<Rightarrow> (server_error, bytes) result" where
  "challenge_response cr now s client_ip m rejection =
     (let (code, reason) = (case rejection of Unauthorized \<Rightarrow> (401, str_lit ''Unauthorized'')
                            | StaleNonceRejection \<Rightarrow> (438, str_lit ''Stale Nonce'')) in
      bind_r (map_err (\<lambda>_. ServerInvalidConfiguration) (nonce_issue (sv_nonce cr) (ts_nonce s) now client_ip)) (\<lambda>nonce.
      bind_r (map_err ServerStun (add_error_code code reason
        (builder_new \<lparr>mt_method = mt_method (ms_kind m), mt_class = ErrorResponse\<rparr> (ms_transaction_id m)))) (\<lambda>b.
        build_response cr (with_fingerprint (add_software SERVER_SOFTWARE (add_raw_attribute NONCE (str_bytes nonce)
          (add_raw_attribute REALM (str_bytes (sc_realm (ts_configuration s))) b)))))))"


section \<open>Requests\<close>

definition refuse :: "server_crypto \<Rightarrow> stun_message \<Rightarrow> authentication \<Rightarrow> u16 \<Rightarrow> string \<Rightarrow> (server_error, bytes) result" where
  "refuse cr m auth code reason = authenticated_error cr m code (str_lit reason) (Some (au_key auth)) None"

text \<open>\<open>handle_allocate\<close>, first section under the lock: either a response or permission to go on.\<close>

datatype admission = Answer "(server_error, bytes) result" | Admitted

definition allocate_admit ::
    "server_crypto \<Rightarrow> client_key \<Rightarrow> stun_message \<Rightarrow> authentication \<Rightarrow> turn_server \<Rightarrow> admission \<times> turn_server" where
  "allocate_admit cr client m auth s =
     (case hm_get (ts_allocations s) client of
        Some existing \<Rightarrow>
          if ma_allocate_transaction existing = ms_transaction_id m
          then (Answer (Inr (ma_allocate_response existing)), s)
          else (Answer (refuse cr m auth 437 ''Allocation Mismatch''), s)
      | None \<Rightarrow>
          let from_ip = length (filter (\<lambda>(key, _). sock_ip (client_address key) = sock_ip (client_address client)) (ts_allocations s)) in
          if length (ts_allocations s) \<ge> sc_maximum_allocations (ts_configuration s) \<or>
             from_ip \<ge> sc_maximum_allocations_per_ip (ts_configuration s)
          then (Answer (refuse cr m auth 486 ''Allocation Quota Reached''),
                count (\<lambda>x. x\<lparr>me_allocations_rejected := me_allocations_rejected x + 1\<rparr>) s)
          else (Admitted, s))"

text \<open>From the bound socket on, with the second section under the lock.\<close>

definition allocate_commit ::
    "server_crypto \<Rightarrow> duration \<Rightarrow> client_key \<Rightarrow> client_sender \<Rightarrow> stun_message \<Rightarrow> authentication \<Rightarrow> u16 \<Rightarrow> turn_server \<Rightarrow>
     (server_error, bytes) result \<times> turn_effect list \<times> turn_server" where
  "allocate_commit cr now client sender m auth relay_port s =
     (let relayed_address = sock_new (sc_advertised_ip (ts_configuration s)) relay_port;
          allocation = allocation_new now (au_username auth) (client_address client) relayed_address in
      case allocation_success cr m relayed_address (client_address client) (remaining_lifetime now allocation) (au_key auth) of
        Inl e \<Rightarrow> (Inl e, [], s)
      | Inr response \<Rightarrow>
          if hm_contains (ts_allocations s) client then (refuse cr m auth 437 ''Allocation Mismatch'', [], s)
          else
            let s1 = put_allocation client
                  \<lparr>ma_allocation = allocation, ma_relay_port = relay_port, ma_allocate_transaction = ms_transaction_id m,
                   ma_allocate_response = response, ma_control_sender = sender,
                   ma_bandwidth = limiter_new (sc_maximum_relay_bytes_per_second (ts_configuration s)) now\<rparr> s
            in (Inr response, [StartRelay client relay_port],
                count (\<lambda>x. x\<lparr>me_allocations_created := me_allocations_created x + 1\<rparr>) s1))"

definition handle_allocate ::
    "server_crypto \<Rightarrow> server_io \<Rightarrow> duration \<Rightarrow> client_key \<Rightarrow> client_sender \<Rightarrow> stun_message \<Rightarrow> authentication \<Rightarrow> turn_server \<Rightarrow>
     (server_error, bytes) result \<times> turn_effect list \<times> turn_server" where
  "handle_allocate cr io now client sender m auth s =
     (case requested_transport m of
        Inl e \<Rightarrow> (Inl e, [], s)
      | Inr transport \<Rightarrow>
          if transport \<noteq> Some 17 then (refuse cr m auth 442 ''Unsupported Transport Protocol'', [], s)
          else
            case allocate_admit cr client m auth s of
              (Answer r, s1) \<Rightarrow> (r, [], s1)
            | (Admitted, s1) \<Rightarrow>
                (case bind_relay_socket io s1 of
                   (Inl e, s2) \<Rightarrow> (Inl e, [], s2)
                 | (Inr port, s2) \<Rightarrow> allocate_commit cr now client sender m auth port s2))"

definition handle_refresh ::
    "server_crypto \<Rightarrow> duration \<Rightarrow> client_key \<Rightarrow> stun_message \<Rightarrow> authentication \<Rightarrow> turn_server \<Rightarrow>
     (server_error, bytes) result \<times> turn_effect list \<times> turn_server" where
  "handle_refresh cr now client m auth s =
     (case request_u32 m LIFETIME of
        Inl e \<Rightarrow> (Inl e, [], s)
      | Inr requested_lifetime \<Rightarrow>
          (case hm_get (ts_allocations s) client of
             None \<Rightarrow> (refuse cr m auth 437 ''Allocation Mismatch'', [], s)
           | Some existing \<Rightarrow>
               if al_username (ma_allocation existing) \<noteq> au_username auth
               then (refuse cr m auth 441 ''Wrong Credentials'', [], s)
               else
                 let (lifetime, allocation) =
                       (if requested_lifetime = Some 0 then (0, ma_allocation existing)
                        else refresh now requested_lifetime (ma_allocation existing));
                     s1 = put_allocation client (existing\<lparr>ma_allocation := allocation\<rparr>) s
                 in (case lifetime_success cr m lifetime (au_key auth) of
                       Inl e \<Rightarrow> (Inl e, [], s1)
                     | Inr response \<Rightarrow>
                         if lifetime = 0
                         then (Inr response, [CancelRelay (ma_relay_port existing)],
                               s1\<lparr>ts_allocations := hm_remove client (ts_allocations s1)\<rparr>)
                         else (Inr response, [], s1))))"

text \<open>The part that the two handlers share: the allocation of the client under its own credentials,
  an operation on it, and the response to its result.\<close>

definition on_allocation ::
    "server_crypto \<Rightarrow> client_key \<Rightarrow> stun_message \<Rightarrow> authentication \<Rightarrow>
     (allocation \<Rightarrow> (turn_error, unit) result \<times> allocation) \<Rightarrow> (turn_error \<Rightarrow> bool) \<Rightarrow> turn_server \<Rightarrow>
     (server_error, bytes) result \<times> turn_effect list \<times> turn_server" where
  "on_allocation cr client m auth operate bad_request s =
     (case hm_get (ts_allocations s) client of
        None \<Rightarrow> (refuse cr m auth 437 ''Allocation Mismatch'', [], s)
      | Some existing \<Rightarrow>
          if al_username (ma_allocation existing) \<noteq> au_username auth
          then (refuse cr m auth 441 ''Wrong Credentials'', [], s)
          else
            let (r, allocation) = operate (ma_allocation existing);
                s1 = put_allocation client (existing\<lparr>ma_allocation := allocation\<rparr>) s
            in ((case r of
                   Inr _ \<Rightarrow> empty_success cr m (au_key auth)
                 | Inl e \<Rightarrow>
                     if e = PeerAddressFamilyMismatch then refuse cr m auth 443 ''Peer Address Family Mismatch''
                     else if e = Capacity then refuse cr m auth 508 ''Insufficient Capacity''
                     else if bad_request e then refuse cr m auth 400 ''Bad Request''
                     else Inl (ServerTurn e)), [], s1))"

definition handle_create_permission ::
    "server_crypto \<Rightarrow> duration \<Rightarrow> client_key \<Rightarrow> stun_message \<Rightarrow> authentication \<Rightarrow> turn_server \<Rightarrow>
     (server_error, bytes) result \<times> turn_effect list \<times> turn_server" where
  "handle_create_permission cr now client m auth s =
     (case msg_xor_addresses m XOR_PEER_ADDRESS of
        Inl e \<Rightarrow> (Inl (ServerStun e), [], s)
      | Inr peers \<Rightarrow>
          if peers = [] \<or> \<not> list_all (safe_peer (ts_configuration s)) peers
          then (refuse cr m auth 400 ''Bad Request'', [], s)
          else on_allocation cr client m auth (create_permissions now peers) (\<lambda>_. False) s)"

fun channel_bad_request :: "turn_error \<Rightarrow> bool" where
  "channel_bad_request (InvalidChannelNumber _) = True"
| "channel_bad_request ChannelConflict = True"
| "channel_bad_request _ = False"

definition handle_channel_bind ::
    "server_crypto \<Rightarrow> duration \<Rightarrow> client_key \<Rightarrow> stun_message \<Rightarrow> authentication \<Rightarrow> turn_server \<Rightarrow>
     (server_error, bytes) result \<times> turn_effect list \<times> turn_server" where
  "handle_channel_bind cr now client m auth s =
     (case channel_number m of
        Inl e \<Rightarrow> (Inl e, [], s)
      | Inr channel \<Rightarrow>
          (case msg_xor_address m XOR_PEER_ADDRESS of
             Inl e \<Rightarrow> (Inl (ServerStun e), [], s)
           | Inr peer \<Rightarrow>
               (case (channel, peer) of
                  (Some channel, Some peer) \<Rightarrow>
                    if \<not> safe_peer (ts_configuration s) peer
                    then (refuse cr m auth 403 ''Forbidden Peer Address'', [], s)
                    else on_allocation cr client m auth (bind_channel now channel peer) channel_bad_request s
                | _ \<Rightarrow> (refuse cr m auth 400 ''Bad Request'', [], s))))"

definition handle_authenticated_request ::
    "server_crypto \<Rightarrow> server_io \<Rightarrow> clocks \<Rightarrow> client_key \<Rightarrow> client_sender \<Rightarrow> stun_message \<Rightarrow> turn_server \<Rightarrow>
     (server_error, bytes) result \<times> turn_effect list \<times> turn_server" where
  "handle_authenticated_request cr io ck client sender m s =
     (case server_authenticate cr ck s (sock_ip (client_address client)) m of
        Inl rejection \<Rightarrow>
          let s1 = count (\<lambda>x. x\<lparr>me_authentication_failures := me_authentication_failures x + 1\<rparr>) s
          in (challenge_response cr (ck_challenge ck) s1 (sock_ip (client_address client)) m rejection, [], s1)
      | Inr auth \<Rightarrow>
          let unknown = unknown_required_attributes m; method = mt_method (ms_kind m) in
          if unknown \<noteq> [] then
            (authenticated_error cr m 420 (str_lit ''Unknown Attribute'') (Some (au_key auth)) (Some unknown), [], s)
          else if method = ALLOCATE then handle_allocate cr io (ck_elapsed ck) client sender m auth s
          else if method = REFRESH then handle_refresh cr (ck_elapsed ck) client m auth s
          else if method = CREATE_PERMISSION then handle_create_permission cr (ck_elapsed ck) client m auth s
          else if method = CHANNEL_BIND then handle_channel_bind cr (ck_elapsed ck) client m auth s
          else (refuse cr m auth 400 ''Bad Request'', [], s))"

section \<open>Data\<close>

definition relay_to_peer ::
    "server_io \<Rightarrow> u16 \<Rightarrow> socket_addr \<Rightarrow> bytes \<Rightarrow> turn_server \<Rightarrow>
     (server_error, unit) result \<times> turn_effect list \<times> turn_server" where
  "relay_to_peer io port peer data s =
     (if io_sent io
      then (Inr (), [ToPeer port peer data],
            count (\<lambda>x. x\<lparr>me_client_bytes_relayed := me_client_bytes_relayed x + u64_of_nat (length data)\<rparr>) s)
      else (Inl ServerIo, [ToPeer port peer data], s))"

definition rate_limited :: "turn_server \<Rightarrow> turn_server" where
  "rate_limited = count (\<lambda>x. x\<lparr>me_rate_limited_datagrams := me_rate_limited_datagrams x + 1\<rparr>)"

text \<open>The lock section of a datagram from the client: the peer its route gives, if any, and the
  allowance for its bytes.\<close>

definition spend ::
    "duration \<Rightarrow> nat \<Rightarrow> client_key \<Rightarrow> managed_allocation \<Rightarrow> turn_server \<Rightarrow> bool \<times> turn_server" where
  "spend now n client existing s =
     (let (allowed, bandwidth) = consume now n (sc_maximum_relay_bytes_per_second (ts_configuration s)) (ma_bandwidth existing);
          s1 = put_allocation client (existing\<lparr>ma_bandwidth := bandwidth\<rparr>) s
      in (allowed, if allowed then s1 else rate_limited s1))"

definition handle_send_indication ::
    "server_io \<Rightarrow> duration \<Rightarrow> client_key \<Rightarrow> stun_message \<Rightarrow> turn_server \<Rightarrow>
     (server_error, unit) result \<times> turn_effect list \<times> turn_server" where
  "handle_send_indication io now client m s =
     (case msg_xor_address m XOR_PEER_ADDRESS of
        Inl e \<Rightarrow> (Inl (ServerStun e), [], s)
      | Inr None \<Rightarrow> (Inr (), [], s)
      | Inr (Some peer) \<Rightarrow>
          (case attribute m DATA_ATTRIBUTE of
             None \<Rightarrow> (Inr (), [], s)
           | Some data_attribute \<Rightarrow>
               let data = ra_value data_attribute in
               if length data > MAX_RELAY_DATA_BYTES \<or> \<not> safe_peer (ts_configuration s) peer then (Inr (), [], s)
               else
                 case hm_get (ts_allocations s) client of
                   None \<Rightarrow> (Inr (), [], s)
                 | Some existing \<Rightarrow>
                     let (permitted, allocation) = permits now peer (ma_allocation existing);
                         existing = existing\<lparr>ma_allocation := allocation\<rparr>;
                         s1 = put_allocation client existing s in
                     if \<not> permitted then (Inr (), [], s1)
                     else
                       let (allowed, s2) = spend now (length data) client existing s1 in
                       if allowed then relay_to_peer io (ma_relay_port existing) peer data s2 else (Inr (), [], s2)))"

definition handle_channel_data ::
    "server_io \<Rightarrow> duration \<Rightarrow> client_key \<Rightarrow> bytes \<Rightarrow> turn_server \<Rightarrow>
     (server_error, unit) result \<times> turn_effect list \<times> turn_server" where
  "handle_channel_data io now client datagram s =
     (case channel_data_parse datagram of
        Inl e \<Rightarrow> (Inl (ServerTurn e), [], s)
      | Inr cd \<Rightarrow>
          if length (ch_data cd) > MAX_RELAY_DATA_BYTES then (Inl (ServerTurn DataTooLarge), [], s)
          else
            case hm_get (ts_allocations s) client of
              None \<Rightarrow> (Inr (), [], s)
            | Some existing \<Rightarrow>
                let (route, allocation) = channel_peer now (ch_channel_number cd) (ma_allocation existing);
                    existing = existing\<lparr>ma_allocation := allocation\<rparr>;
                    s1 = put_allocation client existing s in
                (case route of
                   None \<Rightarrow> (Inr (), [], s1)
                 | Some peer \<Rightarrow>
                     let (allowed, s2) = spend now (length (ch_data cd)) client existing s1 in
                     if allowed then relay_to_peer io (ma_relay_port existing) peer (ch_data cd) s2 else (Inr (), [], s2)))"

text \<open>One round of \<open>relay_peer_datagrams\<close>, for a datagram that the relay socket of \<open>client\<close> received.\<close>

definition relay_peer_datagram ::
    "server_crypto \<Rightarrow> server_io \<Rightarrow> channel_order \<Rightarrow> transaction_id option \<Rightarrow> duration \<Rightarrow> client_key \<Rightarrow> socket_addr \<Rightarrow> bytes \<Rightarrow>
     turn_server \<Rightarrow> turn_effect list \<times> turn_server" where
  "relay_peer_datagram cr io order random now client peer data s =
     (if length data > MAX_RELAY_DATA_BYTES
      then ([], count (\<lambda>x. x\<lparr>me_dropped_datagrams := me_dropped_datagrams x + 1\<rparr>) s)
      else
        case hm_get (ts_allocations s) client of
          None \<Rightarrow> ([], s)
        | Some existing \<Rightarrow>
            let (route, allocation) = peer_route order now peer (ma_allocation existing);
                existing = existing\<lparr>ma_allocation := allocation\<rparr>;
                s1 = put_allocation client existing s in
            (case route of
               None \<Rightarrow> ([], s1)
             | Some route \<Rightarrow>
                 let (allowed, s2) = spend now (length data) client existing s1 in
                 if \<not> allowed then ([], s2)
                 else
                   case (case route of ChannelRoute channel \<Rightarrow> map_err ServerTurn (channel_data_encode channel data)
                         | DataIndication \<Rightarrow> map_err ServerStun (data_indication cr random peer data)) of
                     Inl _ \<Rightarrow> ([], s2)
                   | Inr packet \<Rightarrow>
                       let (sent, effects) = client_send io (ma_control_sender existing) packet in
                       (effects,
                        if is_ok sent
                        then count (\<lambda>x. x\<lparr>me_peer_bytes_relayed := me_peer_bytes_relayed x + u64_of_nat (length data)\<rparr>) s2
                        else s2)))"

section \<open>Dispatch, expiry and the end of a connection\<close>

definition handle_stun ::
    "server_crypto \<Rightarrow> server_io \<Rightarrow> clocks \<Rightarrow> client_key \<Rightarrow> client_sender \<Rightarrow> bytes \<Rightarrow> turn_server \<Rightarrow>
     (server_error, unit) result \<times> turn_effect list \<times> turn_server" where
  "handle_stun cr io ck client sender datagram s =
     (case message_parse datagram of
        Inl e \<Rightarrow> (Inl (ServerStun e), [], s)
      | Inr m \<Rightarrow>
          let kind = ms_kind m; respond = (\<lambda>(r, effects, s).
                case r of
                  Inl e \<Rightarrow> (Inl e, effects, s)
                | Inr response \<Rightarrow> let (sent, out) = client_send io sender response in (sent, effects @ out, s)) in
          if mt_method kind = BINDING \<and> mt_class kind = Request
          then respond (binding_response cr m (client_address client), [], s)
          else if mt_class kind = Indication \<and> mt_method kind = SEND
          then handle_send_indication io (ck_elapsed ck) client m s
          else if mt_class kind = Request then respond (handle_authenticated_request cr io ck client sender m s)
          else (Inr (), [], s))"

definition handle_client_frame ::
    "server_crypto \<Rightarrow> server_io \<Rightarrow> clocks \<Rightarrow> client_key \<Rightarrow> client_sender \<Rightarrow> bytes \<Rightarrow> turn_server \<Rightarrow> turn_effect list \<times> turn_server" where
  "handle_client_frame cr io ck client sender datagram s =
     (let (r, effects, s1) =
           (if datagram \<noteq> [] \<and> hd datagram AND 0xc0 = 0x40 then handle_channel_data io (ck_elapsed ck) client datagram s
            else handle_stun cr io ck client sender datagram s)
      in (effects,
          if is_ok r then s1 else count (\<lambda>x. x\<lparr>me_dropped_datagrams := me_dropped_datagrams x + 1\<rparr>) s1))"

text \<open>\<open>order\<close> is the order in which the map is iterated.\<close>

definition remove_expired ::
    "((client_key \<times> managed_allocation) list \<Rightarrow> (client_key \<times> managed_allocation) list) \<Rightarrow> duration \<Rightarrow> turn_server \<Rightarrow>
     turn_effect list \<times> turn_server" where
  "remove_expired order now s =
     (let gone = filter (\<lambda>(client, a). expired now (ma_allocation a)) (order (ts_allocations s)) in
      (map (\<lambda>(client, a). CancelRelay (ma_relay_port a)) gone,
       s\<lparr>ts_allocations := fold hm_remove (map fst gone) (ts_allocations s)\<rparr>))"

text \<open>The end of \<open>handle_control_stream\<close>.\<close>

definition control_stream_closed :: "client_key \<Rightarrow> turn_server \<Rightarrow> turn_effect list \<times> turn_server" where
  "control_stream_closed client s =
     (case hm_get (ts_allocations s) client of
        None \<Rightarrow> ([], s)
      | Some a \<Rightarrow> ([CancelRelay (ma_relay_port a)], s\<lparr>ts_allocations := hm_remove client (ts_allocations s)\<rparr>))"

section \<open>Frames of a control stream\<close>

text \<open>\<open>read_turn_tcp_frame\<close> on the bytes still to come before the stream ends; the end inside a frame is an
  input/output error.\<close>

definition read_turn_tcp_frame :: "bytes \<Rightarrow> (server_error, bytes option) result \<times> bytes" where
  "read_turn_tcp_frame input =
     (if length input < 4 then (Inr None, [])
      else
        let prefix = take 4 input;
            body_length = unat (from_be [prefix ! 2, prefix ! 3] :: u16);
            channel_data = (prefix ! 0 AND 0xc0 = 0x40);
            stun = (prefix ! 0 AND 0xc0 = 0) in
        if \<not> channel_data \<and> \<not> stun then (Inl MalformedRequest, drop 4 input)
        else if \<not> channel_data \<and> body_length mod 4 \<noteq> 0 then (Inl MalformedRequest, drop 4 input)
        else
          let total_length = (if channel_data then 4 + (body_length + 3) div 4 * 4 else 20 + body_length) in
          if \<not> (4 \<le> total_length \<and> total_length \<le> MAX_DATAGRAM_BYTES + 4) then (Inl MalformedRequest, drop 4 input)
          else if length input < total_length then (Inl ServerIo, [])
          else (Inr (Some (take total_length input)), drop total_length input))"

text \<open>The frames that \<open>handle_control_stream\<close> hands to \<open>handle_client_frame\<close>, one after the other, until
  the stream ends or has a malformed frame.\<close>

lemma read_turn_tcp_frame_shorter:
  assumes "read_turn_tcp_frame input = (Inr (Some frame), rest)"
  shows "input = frame @ rest" and "4 \<le> length frame"
  using assms unfolding read_turn_tcp_frame_def by (auto simp: Let_def split: if_splits)

function stream_frames :: "bytes \<Rightarrow> bytes list" where
  "stream_frames input =
     (case read_turn_tcp_frame input of
        (Inr (Some frame), rest) \<Rightarrow> frame # stream_frames rest
      | _ \<Rightarrow> [])"
  by pat_completeness auto
termination
proof (relation "measure length")
  fix input r rest o' frame
  assume "(r, rest) = read_turn_tcp_frame input" "r = Inr o'" "o' = Some frame"
  then have "read_turn_tcp_frame input = (Inr (Some frame), rest)" by simp
  from read_turn_tcp_frame_shorter [OF this] show "(rest, input) \<in> measure length" by auto
qed simp

end
