(* ===== verification/Turn_Relay.thy ===== *)
theory Turn_Relay
  imports Turn_Server "HOL-Library.Sublist"
begin

text \<open>
  Parts of the TURN server on their own: the bandwidth limiter over any sequence of datagrams, the choice of
  relay ports, and the framing of control streams.
\<close>

section \<open>Bandwidth\<close>

text \<open>The limiter on its own: the datagrams one allocation asks for, with the time of each, and the bytes
  that were let through.\<close>

fun consume_all :: "u64 \<Rightarrow> (duration \<times> nat) list \<Rightarrow> bandwidth_limiter \<Rightarrow> nat \<times> bandwidth_limiter" where
  "consume_all bps [] l = (0, l)"
| "consume_all bps ((now, n) # calls) l =
     (let (allowed, l1) = consume now n bps l; (sent, l2) = consume_all bps calls l1
      in ((if allowed then n else 0) + sent, l2))"

lemma unat_u64_of_nat: "unat (u64_of_nat n) \<le> n" "n < 2 ^ 64 \<Longrightarrow> unat (u64_of_nat n) = n"
proof -
  show eq: "unat (u64_of_nat n) = n" if "n < 2 ^ 64" using that by (simp add: u64_of_nat_def unat_word_of_nat_less)
  show "unat (u64_of_nat n) \<le> n"
  proof (cases "n < 2 ^ 64")
    case False
    then show ?thesis by (simp add: u64_of_nat_def unat_minus_1)
  qed (simp add: eq)
qed

lemma unat_min: "unat (min a b) = min (unat a) (unat (b :: 'a :: len word))"
  by (auto simp: min_def word_le_nat_alt)

definition refill :: "duration \<Rightarrow> u64 \<Rightarrow> bandwidth_limiter \<Rightarrow> bandwidth_limiter" where
  "refill now bps l =
     (let replenished = min (unat bps * (now - bl_updated_at l)) (2 ^ 128 - 1) div 1000000000 in
      if replenished \<noteq> 0
      then l\<lparr>bl_available_bytes := min (saturating_add (bl_available_bytes l) (u64_of_nat replenished))
               (saturating_mul bps 2), bl_updated_at := now\<rparr>
      else l)"

lemma consume_refill:
  "consume now n bps l =
     (if u64_of_nat n > bl_available_bytes (refill now bps l) then (False, refill now bps l)
      else (True, (refill now bps l)\<lparr>bl_available_bytes := bl_available_bytes (refill now bps l) - u64_of_nat n\<rparr>))"
  unfolding consume_def refill_def Let_def by (rule refl)

lemma refill_bound:
  "1000000000 * unat (bl_available_bytes (refill now bps l)) + unat bps * bl_updated_at l \<le>
     1000000000 * unat (bl_available_bytes l) + unat bps * bl_updated_at (refill now bps l)"
  "bl_updated_at l \<le> bl_updated_at (refill now bps l)"
  "bl_updated_at (refill now bps l) \<in> {bl_updated_at l, now}"
proof -
  let ?e = "now - bl_updated_at l"
  let ?r = "min (unat bps * ?e) (2 ^ 128 - 1) div 1000000000"
  have "1000000000 * unat (bl_available_bytes (refill now bps l)) + unat bps * bl_updated_at l \<le>
     1000000000 * unat (bl_available_bytes l) + unat bps * bl_updated_at (refill now bps l) \<and>
     bl_updated_at l \<le> bl_updated_at (refill now bps l) \<and> bl_updated_at (refill now bps l) \<in> {bl_updated_at l, now}"
  proof (cases "?r = 0")
    case True
    then have "refill now bps l = l" by (simp add: refill_def Let_def)
    then show ?thesis by simp
  next
    case False
    then have later: "bl_updated_at l < now" by (cases "?e = 0") simp_all
    have "1000000000 * ?r \<le> min (unat bps * ?e) (2 ^ 128 - 1)" by (rule times_div_less_eq_dividend)
    then have "1000000000 * ?r \<le> unat bps * ?e" by linarith
    moreover have "unat (u64_of_nat ?r) \<le> ?r" by (rule unat_u64_of_nat)
    moreover have "unat (min (saturating_add (bl_available_bytes l) (u64_of_nat ?r)) (saturating_mul bps 2)) \<le>
        unat (bl_available_bytes l) + unat (u64_of_nat ?r)"
      unfolding unat_min unat_saturating_add by linarith
    ultimately have "1000000000 * unat (min (saturating_add (bl_available_bytes l) (u64_of_nat ?r)) (saturating_mul bps 2)) \<le>
        1000000000 * unat (bl_available_bytes l) + unat bps * ?e" by linarith
    moreover have "unat bps * bl_updated_at l + unat bps * ?e = unat bps * now"
      using later by (simp flip: distrib_left)
    moreover have "refill now bps l = l\<lparr>bl_available_bytes := min (saturating_add (bl_available_bytes l) (u64_of_nat ?r))
        (saturating_mul bps 2), bl_updated_at := now\<rparr>"
      unfolding refill_def Let_def using False by (rule if_P)
    ultimately show ?thesis using later by simp
  qed
  then show "1000000000 * unat (bl_available_bytes (refill now bps l)) + unat bps * bl_updated_at l \<le>
     1000000000 * unat (bl_available_bytes l) + unat bps * bl_updated_at (refill now bps l)"
    "bl_updated_at l \<le> bl_updated_at (refill now bps l)"
    "bl_updated_at (refill now bps l) \<in> {bl_updated_at l, now}" by blast+
qed

lemma consume_bound:
  assumes "consume now n bps l = (allowed, l')" and "n < 2 ^ 64"
  shows "1000000000 * (unat (bl_available_bytes l') + (if allowed then n else 0)) + unat bps * bl_updated_at l \<le>
     1000000000 * unat (bl_available_bytes l) + unat bps * bl_updated_at l'"
    and "bl_updated_at l' \<in> {bl_updated_at l, now}"
proof -
  let ?l = "refill now bps l"
  have r: "1000000000 * unat (bl_available_bytes ?l) + unat bps * bl_updated_at l \<le>
      1000000000 * unat (bl_available_bytes l) + unat bps * bl_updated_at ?l" by (rule refill_bound)
  have "unat (bl_available_bytes l') + (if allowed then n else 0) = unat (bl_available_bytes ?l)" and u: "bl_updated_at l' = bl_updated_at ?l"
    using assms unat_u64_of_nat(2) [OF assms(2)]
    by (auto simp: consume_refill not_less word_le_nat_alt unat_sub split: if_splits)
  with r show "1000000000 * (unat (bl_available_bytes l') + (if allowed then n else 0)) + unat bps * bl_updated_at l \<le>
     1000000000 * unat (bl_available_bytes l) + unat bps * bl_updated_at l'" by simp
  show "bl_updated_at l' \<in> {bl_updated_at l, now}" unfolding u by (rule refill_bound)
qed

lemma consume_all_bound:
  assumes "consume_all bps calls l = (sent, l')" and "list_all (\<lambda>(now, n). now \<le> T \<and> n < 2 ^ 64) calls"
    and "bl_updated_at l \<le> T"
  shows "1000000000 * (unat (bl_available_bytes l') + sent) + unat bps * bl_updated_at l \<le>
     1000000000 * unat (bl_available_bytes l) + unat bps * T"
  using assms
proof (induction calls arbitrary: l sent)
  case Nil
  then show ?case by (auto intro!: add_mono mult_le_mono2)
next
  case (Cons c calls)
  obtain now n where c: "c = (now, n)" by fastforce
  obtain allowed l1 where step: "consume now n bps l = (allowed, l1)" by fastforce
  obtain rest where rest: "consume_all bps calls l1 = (rest, l')" and sent: "sent = (if allowed then n else 0) + rest"
    using Cons.prems(1) c step by (auto split: prod.splits)
  have "now \<le> T" "n < 2 ^ 64" using Cons.prems(2) c by simp_all
  note b = consume_bound [OF step this(2)]
  have "1000000000 * (unat (bl_available_bytes l') + rest) + unat bps * bl_updated_at l1 \<le>
      1000000000 * unat (bl_available_bytes l1) + unat bps * T"
    using b(2) \<open>now \<le> T\<close> Cons.prems(2,3) c by (intro Cons.IH [OF rest]) auto
  with b(1) show ?case unfolding sent by (simp only: distrib_left)
qed

lemma full_after_pause:
  assumes "n \<le> 2 * unat bps" and "2 * unat bps < 2 ^ 64" and "bl_updated_at l + 2000000000 \<le> now"
  shows "fst (consume now n bps l)"
proof (cases "n = 0")
  case True
  then show ?thesis by (simp add: consume_refill u64_of_nat_def)
next
  case False
  let ?m = "min (unat bps * (now - bl_updated_at l)) (2 ^ 128 - 1)"
  have "unat bps * 2000000000 \<le> unat bps * (now - bl_updated_at l)" using assms(3) by (intro mult_le_mono2) simp
  moreover have "unat bps * 2000000000 \<le> 2 ^ 128 - 1" using assms(2) by simp
  ultimately have "2 * unat bps * 1000000000 \<le> ?m" by simp
  then have r: "2 * unat bps \<le> ?m div 1000000000" by (simp add: less_eq_div_iff_mult_less_eq)
  have two: "unat (saturating_mul bps 2) = 2 * unat bps" using assms(2) by (simp add: unat_saturating_mul)
  have "2 * unat bps \<le> unat (u64_of_nat (?m div 1000000000))"
    using r assms(2) unat_u64_of_nat(2) [of "?m div 1000000000"]
    by (cases "?m div 1000000000 < 2 ^ 64") (auto simp: u64_of_nat_def unat_minus_1)
  then have "unat (bl_available_bytes (refill now bps l)) = 2 * unat bps"
    using r False assms(1,2) by (simp add: refill_def Let_def unat_min unat_saturating_add two)
  moreover have "unat (u64_of_nat n) \<le> 2 * unat bps" using unat_u64_of_nat(1) [of n] assms(1) by linarith
  ultimately show ?thesis by (simp add: consume_refill word_less_nat_alt)
qed

lemma saturating_double: "unat (saturating_mul b 2 :: u64) \<le> 2 * unat b"
  by (simp add: unat_saturating_mul)

text \<open>The bandwidth of an allocation. Over any sequence of datagrams, whatever their sizes and times
  up to some instant, the bytes relayed for one allocation are at most two seconds' worth of the
  configured rate plus the rate times the age of the allocation. After two quiet seconds a whole burst is
  allowed again. Clocks that run backwards do not help: no order of the times is assumed.\<close>

lemma relay_bandwidth_bounded:
  assumes "list_all (\<lambda>(now, n). now \<le> T \<and> n < 2 ^ 64) calls" and "t0 \<le> T"
    and "consume_all bps calls (limiter_new bps t0) = (sent, l)"
  shows "seconds 1 * sent \<le> unat bps * (seconds 2 + (T - t0)) \<and>
    (n \<le> 2 * unat bps \<and> 2 * unat bps < 2 ^ 64 \<and> bl_updated_at l + seconds 2 \<le> now \<longrightarrow> fst (consume now n bps l))"
proof (intro conjI impI)
  have "1000000000 * (unat (bl_available_bytes l) + sent) + unat bps * t0 \<le>
      1000000000 * unat (saturating_mul bps 2) + unat bps * T"
    using consume_all_bound [OF assms(3,1)] assms(2) by (simp add: limiter_new_def)
  moreover have "unat bps * T = unat bps * t0 + unat bps * (T - t0)" using assms(2) by (simp flip: distrib_left)
  ultimately show "seconds 1 * sent \<le> unat bps * (seconds 2 + (T - t0))"
    using saturating_double [of bps] by (simp add: distrib_left)
qed (auto intro: full_after_pause)

text \<open>A witness: at 100 bytes per second, five datagrams of 90 bytes, three of which are let through.\<close>

lemma relay_bandwidth_bounded_witness:
  "consume_all 100 [(0, 90), (0, 90), (0, 90), (seconds 1, 90), (seconds 1, 90)] (limiter_new 100 0) =
     (270, \<lparr>bl_available_bytes = 30, bl_updated_at = seconds 1\<rparr>) \<and>
   seconds 1 * 270 \<le> unat (100 :: u64) * (seconds 2 + (seconds 1 - 0)) \<and>
   fst (consume (seconds 3) 200 100 \<lparr>bl_available_bytes = 30, bl_updated_at = seconds 1\<rparr>)"
proof -
  have run: "consume_all 100 [(0, 90), (0, 90), (0, 90), (seconds 1, 90), (seconds 1, 90)] (limiter_new 100 0) =
      (270, \<lparr>bl_available_bytes = 30, bl_updated_at = seconds 1\<rparr>)"
    by (simp add: limiter_new_def consume_def saturating_mul_def saturating_add_def u64_of_nat_def)
  from relay_bandwidth_bounded [OF _ _ run, of "seconds 1" 200 "seconds 3"] run show ?thesis by simp
qed

section \<open>Frames of a control stream\<close>

lemma top_two_bits: "b AND 0xc0 = push_bit 6 (word_of_nat (unat b div 64) :: u8)"
proof -
  have "(0xc0 :: u8) = push_bit 6 (mask 2)" by (simp add: mask_eq_decr_exp push_bit_eq_mult)
  then have "b AND 0xc0 = push_bit 6 (drop_bit 6 b)" by (auto simp: bit_eq_iff bit_simps)
  moreover have "unat (drop_bit 6 b) = unat b div 64" by (simp add: drop_bit_eq_div unat_div)
  then have "(word_of_nat (unat (drop_bit 6 b)) :: u8) = word_of_nat (unat b div 64)" by (rule arg_cong)
  ultimately show ?thesis by simp
qed

lemma padded_length: "4 + (n + 3) div 4 * 4 = 4 + n + (4 - (4 + n) mod 4) mod (4 :: nat)"
proof -
  define q where "q = n div 4"
  have n: "n = 4 * q + n mod 4" by (simp add: q_def)
  have "n mod 4 < 4" by simp
  then consider "n mod 4 = 0" | "n mod 4 = 1" | "n mod 4 = 2" | "n mod 4 = 3" by linarith
  then obtain r where r: "n = 4 * q + r" "r = 0 \<or> r = 1 \<or> r = 2 \<or> r = 3" using n by metis
  from r(2) show ?thesis unfolding r(1) by (elim disjE) simp_all
qed

lemma stun_frame:
  assumes "message_parse d = Inr m"
  shows "20 \<le> length d" and "d ! 0 AND 0xc0 = 0" and "length d = 20 + unat (from_be [d ! 2, d ! 3] :: u16)"
    and "unat (from_be [d ! 2, d ! 3] :: u16) mod 4 = 0"
proof -
  from assms obtain k i body where h: "parse_header d = Inr (k, i, body)"
    by (auto simp: message_parse_def bind_r_eq_Inr)
  obtain v where v: "message_type_decode v = Inr k" and len: "unat (word_of_nat (length body) :: u16) = length body"
    and d: "d = to_be v @ to_be (word_of_nat (length body) :: u16) @ to_be MAGIC_COOKIE @ to_be i @ body"
    by (rule parse_header_sound [OF h])
  have four: "[d ! 2, d ! 3] = to_be (word_of_nat (length body) :: u16)"
    unfolding d by (simp add: to_be_u16)
  show total: "length d = 20 + unat (from_be [d ! 2, d ! 3] :: u16)" unfolding four by (simp add: len d)
  then show "20 \<le> length d" by simp
  have "unat v < 2 ^ 14" using v by (auto simp: message_type_decode_def top_bits_clear split: if_splits)
  then have "unat v div 256 < 64" by simp
  then have "unat (d ! 0) < 64" unfolding d by (simp add: to_be_u16 unat_word_of_nat_less)
  then show "d ! 0 AND 0xc0 = 0" by (simp add: top_two_bits)
  from h obtain l where "unat l mod 4 = 0" "20 + unat (l :: u16) = length d"
    by (auto simp: parse_header_def bind_c_eq_Inr bind_r_eq_Inr Let_def HEADER_LEN_def split: if_splits)
  with total show "unat (from_be [d ! 2, d ! 3] :: u16) mod 4 = 0" by simp
qed

lemma read_stun:
  assumes "message_parse d = Inr m" and "length d \<le> MAX_DATAGRAM_BYTES"
  shows "read_turn_tcp_frame (wire_frame (TcpSender i) d @ rest) = (Inr (Some d), rest)"
proof -
  note f = stun_frame [OF assms(1)]
  have ne: "d \<noteq> []" using f(1) by auto
  have pad: "tcp_padding d = []" using f(2) ne by (simp add: tcp_padding_def hd_conv_nth)
  have at: "take 4 (d @ rest) ! k = d ! k" if "k < 4" for k using f(1) that by (simp add: nth_append)
  show ?thesis
    unfolding wire_frame.simps pad append_Nil2 read_turn_tcp_frame_def Let_def
    using f assms(2) by (simp add: at MAX_DATAGRAM_BYTES_def)
qed

lemma channel_first_byte:
  assumes "channel_number_ok n"
  shows "to_be n ! 0 AND 0xc0 = 0x40"
proof -
  have "0x4000 \<le> unat n" "unat n \<le> 0x4fff"
    using assms by (simp_all add: channel_number_ok_def MIN_CHANNEL_NUMBER_def MAX_CHANNEL_NUMBER_def word_le_nat_alt)
  then have "unat (to_be n ! 0) div 64 = 1" by (simp add: to_be_u16 unat_word_of_nat_less)
  then show ?thesis by (simp add: top_two_bits)
qed

lemma read_channel_data:
  assumes "channel_data_encode n data = Inr d" and "length data \<le> MAX_RELAY_DATA_BYTES"
  shows "read_turn_tcp_frame (wire_frame (TcpSender i) d @ rest) = (Inr (Some (wire_frame (TcpSender i) d)), rest)"
    and "channel_data_parse (wire_frame (TcpSender i) d) = Inr \<lparr>ch_channel_number = n, ch_data = data\<rparr>"
proof -
  let ?l = "word_of_nat (length data) :: u16"
  have n: "channel_number_ok n" and len: "length data < 65536" and d: "d = to_be n @ to_be ?l @ data"
    using assms(1) by (auto simp: channel_data_encode_def split: if_splits)
  have l: "unat ?l = length data" using len by (simp add: unat_word_of_nat_less)
  let ?pad = "replicate ((4 - length d mod 4) mod 4) (0 :: u8)"
  have d0: "d ! 0 = to_be n ! 0" and ne: "d \<noteq> []" unfolding d by (simp_all add: nth_append) (simp add: to_be_u16)
  have wire: "wire_frame (TcpSender i) d = d @ ?pad"
    using channel_first_byte [OF n] d0 ne by (simp add: tcp_padding_def hd_conv_nth)
  have "[d ! 2, d ! 3] = to_be ?l" unfolding d by (simp add: to_be_u16)
  then have four: "unat (from_be [d ! 2, d ! 3] :: u16) = length data" by (simp add: l)
  have ld: "length d = 4 + length data" by (simp add: d)
  have at: "take 4 (d @ xs) ! k = d ! k" if "k < 4" for k xs using that by (simp add: ld nth_append)
  have total: "4 + (length data + 3) div 4 * 4 = length (d @ ?pad)" using padded_length [of "length data"] by (simp add: ld del: mod_add_self1 mod_add_self2)
  show "read_turn_tcp_frame (wire_frame (TcpSender i) d @ rest) = (Inr (Some (wire_frame (TcpSender i) d)), rest)"
    unfolding wire read_turn_tcp_frame_def Let_def append_assoc
    using assms(2) channel_first_byte [OF n] total
    by (simp add: at four d0 ld MAX_DATAGRAM_BYTES_def MAX_RELAY_DATA_BYTES_def)
  have small: "\<not> 3 < (4 - length data mod 4) mod (4 :: nat)" by (simp add: not_less less_Suc_eq_le [symmetric])
  show "channel_data_parse (wire_frame (TcpSender i) d) = Inr \<lparr>ch_channel_number = n, ch_data = data\<rparr>"
    unfolding wire using channel_data_read [OF n len, of ?pad] small by (simp add: d)
qed

declare stream_frames.simps [simp del]

definition sendable :: "bytes \<Rightarrow> bool" where
  "sendable d \<longleftrightarrow>
     (\<exists>m. message_parse d = Inr m \<and> length d \<le> MAX_DATAGRAM_BYTES) \<or>
     (\<exists>n data. channel_data_encode n data = Inr d \<and> length data \<le> MAX_RELAY_DATA_BYTES)"

lemma wire_stun: "message_parse d = Inr m \<Longrightarrow> wire_frame (TcpSender i) d = d"
  using stun_frame [of d m] by (cases d) (simp_all add: tcp_padding_def)

lemma read_sendable:
  assumes "sendable d"
  shows "read_turn_tcp_frame (wire_frame (TcpSender i) d @ rest) = (Inr (Some (wire_frame (TcpSender i) d)), rest)"
  using assms unfolding sendable_def
proof (elim disjE exE conjE)
  fix m assume "message_parse d = Inr m" "length d \<le> MAX_DATAGRAM_BYTES"
  then show ?thesis using read_stun [of d m i rest] by (simp add: wire_stun del: wire_frame.simps)
qed (rule read_channel_data)

lemma stream_frames_sendable:
  "list_all sendable ds \<Longrightarrow>
     stream_frames (concat (map (wire_frame (TcpSender i)) ds) @ rest) = map (wire_frame (TcpSender i)) ds @ stream_frames rest"
proof (induction ds)
  case (Cons d ds)
  then show ?case using stream_frames.simps [of "wire_frame (TcpSender i) d @ concat (map (wire_frame (TcpSender i)) ds) @ rest"]
    by (simp add: read_sendable del: wire_frame.simps)
qed simp

text \<open>The length of a frame, as its first four bytes give it.\<close>

definition announced :: "bytes \<Rightarrow> nat option" where
  "announced start =
     (let body_length = unat (from_be [start ! 2, start ! 3] :: u16); top = start ! 0 AND 0xc0;
          n = (if top = 0x40 then 4 + (body_length + 3) div 4 * 4 else 20 + body_length) in
      if (top = 0x40 \<or> top = 0 \<and> body_length mod 4 = 0) \<and> 4 \<le> n \<and> n \<le> MAX_DATAGRAM_BYTES + 4 then Some n else None)"

lemma read_frame_iff:
  "read_turn_tcp_frame input = (Inr (Some frame), rest) \<longleftrightarrow>
     4 \<le> length input \<and> (\<exists>n. announced (take 4 input) = Some n \<and> n \<le> length input \<and> frame = take n input \<and> rest = drop n input)"
proof (cases "4 \<le> length input")
  case True
  define start where "start = take 4 input"
  show ?thesis using True unfolding read_turn_tcp_frame_def announced_def start_def [symmetric] Let_def
    by (auto simp: not_less)
qed (simp add: read_turn_tcp_frame_def)

lemma read_frame_extends:
  assumes "read_turn_tcp_frame input = (Inr (Some frame), rest)"
  shows "read_turn_tcp_frame (input @ tail) = (Inr (Some frame), rest @ tail)"
  using assms unfolding read_frame_iff by (elim conjE exE) (simp add: take_append)

lemma stream_frames_prefix: "prefix (stream_frames input) (stream_frames (input @ tail))"
proof (induction input rule: stream_frames.induct)
  case (1 input)
  show ?case
  proof (cases "\<exists>frame rest. read_turn_tcp_frame input = (Inr (Some frame), rest)")
    case True
    then obtain frame rest where r: "read_turn_tcp_frame input = (Inr (Some frame), rest)" by auto
    have "prefix (stream_frames rest) (stream_frames (rest @ tail))" by (rule 1 [OF r [symmetric]]) simp_all
    then show ?thesis
      using stream_frames.simps [of input] stream_frames.simps [of "input @ tail"] by (simp add: r read_frame_extends [OF r])
  next
    case False
    then have "stream_frames input = []"
      using stream_frames.simps [of input] by (auto split: prod.splits sum.splits option.splits)
    then show ?thesis by simp
  qed
qed

text \<open>The control stream keeps frames. Whatever messages and ChannelData frames the server puts on a TCP or
  TLS connection, one after the other, a reader of the stream gets exactly these frames in order; they parse to
  the same message or to the same channel and data, padding removed; and a stream that is cut anywhere gives a
  prefix of them, never a frame that was not sent.\<close>

lemma control_stream_roundtrip:
  fixes i :: u64
  assumes "list_all sendable ds"
  defines "stream \<equiv> concat (map (wire_frame (TcpSender i)) ds)"
  shows "stream_frames stream = map (wire_frame (TcpSender i)) ds \<and>
     prefix (stream_frames (take k stream)) (map (wire_frame (TcpSender i)) ds) \<and>
     (\<forall>d m. message_parse d = Inr m \<longrightarrow> message_parse (wire_frame (TcpSender i) d) = Inr m) \<and>
     (\<forall>n data d. channel_data_encode n data = Inr d \<and> length data \<le> MAX_RELAY_DATA_BYTES \<longrightarrow>
        channel_data_parse (wire_frame (TcpSender i) d) = Inr \<lparr>ch_channel_number = n, ch_data = data\<rparr>)"
proof -
  have end_: "stream_frames [] = []" using stream_frames.simps [of "[]"] by (simp add: read_turn_tcp_frame_def)
  have whole: "stream_frames stream = map (wire_frame (TcpSender i)) ds"
    using stream_frames_sendable [OF assms(1), of i "[]"] by (simp add: stream_def end_)
  moreover have "prefix (stream_frames (take k stream)) (stream_frames (take k stream @ drop k stream))"
    by (rule stream_frames_prefix)
  ultimately show ?thesis using wire_stun read_channel_data(2) by (simp del: wire_frame.simps)
qed

text \<open>A witness: a binding request and three bytes on a channel.\<close>

definition sample_stream :: "bytes list" where
  "sample_stream =
     [header_bytes \<lparr>mt_method = BINDING, mt_class = Request\<rparr> 9 0, [0x40, 1, 0, 3, 7, 8, 9]]"

lemma sample_stream_sendable: "list_all sendable sample_stream"
proof -
  have "\<exists>m. message_parse (sample_stream ! 0) = Inr m"
    using message_parse_layout [of "\<lparr>mt_method = BINDING, mt_class = Request\<rparr>" "[]" nothing_seen 9]
    by (simp add: sample_stream_def BINDING_def)
  then have "sendable (sample_stream ! 0)"
    by (auto simp: sendable_def sample_stream_def header_bytes_def MAX_DATAGRAM_BYTES_def)
  moreover have "channel_data_encode 0x4001 [7, 8, 9] = Inr (sample_stream ! 1)"
    by (simp add: sample_stream_def channel_data_encode_def channel_number_ok_def MIN_CHANNEL_NUMBER_def MAX_CHANNEL_NUMBER_def to_be_u16)
  then have "sendable (sample_stream ! 1)"
    unfolding sendable_def by (intro disjI2 exI [of _ "0x4001 :: u16"] exI [of _ "[7, 8, 9] :: bytes"]) (simp add: MAX_RELAY_DATA_BYTES_def)
  ultimately show ?thesis by (simp add: sample_stream_def)
qed

lemma control_stream_roundtrip_witness:
  "stream_frames (concat (map (wire_frame (TcpSender 0)) sample_stream)) = map (wire_frame (TcpSender 0)) sample_stream \<and>
   length (concat (map (wire_frame (TcpSender 0)) sample_stream)) = 28"
  using control_stream_roundtrip [OF sample_stream_sendable, where i = 0 and k = 0]
  by (simp add: sample_stream_def tcp_padding_def header_bytes_def to_be_u16 message_type_encode_def BINDING_def)

section \<open>Relay ports\<close>

text \<open>The ports that one search tries, in order, and what it makes of the outcomes.\<close>

definition relay_candidates :: "server_config \<Rightarrow> nat \<Rightarrow> u16 \<Rightarrow> u16 list" where
  "relay_candidates c k candidate =
     map (\<lambda>j. sc_relay_port_min c + (candidate + word_of_nat j - sc_relay_port_min c) mod relay_port_count c) [0..<k]"

fun first_bound :: "server_io \<Rightarrow> ip_addr \<Rightarrow> u16 list \<Rightarrow> (server_error, u16) result" where
  "first_bound io ip [] = Inl ServerIo"
| "first_bound io ip (p # ps) =
     (case io_bind io (sock_new ip p) of Bound q \<Rightarrow> Inr q | AddrInUse \<Rightarrow> first_bound io ip ps | BindFailed \<Rightarrow> Inl ServerIo)"

lemma relay_candidates_Suc:
  "relay_candidates c (Suc k) candidate =
     (sc_relay_port_min c + (candidate - sc_relay_port_min c) mod relay_port_count c) # relay_candidates c k (candidate + 1)"
proof -
  have "[0..<Suc k] = 0 # map Suc [0..<k]" by (simp add: map_Suc_upt upt_conv_Cons del: upt_Suc)
  moreover have "candidate + word_of_nat (Suc j) = candidate + 1 + word_of_nat j" for j by (simp add: add.assoc)
  ultimately show ?thesis by (simp add: relay_candidates_def add.assoc del: upt_Suc)
qed

lemma bind_relay_ports_eq:
  "fst (bind_relay_ports io c (relay_port_count c) k candidate) = first_bound io (sc_relay_bind_ip c) (relay_candidates c k candidate)"
proof (induction k arbitrary: candidate)
  case 0
  then show ?case by (simp add: relay_candidates_def)
next
  case (Suc k)
  then show ?case by (simp add: relay_candidates_Suc Let_def split: bind_outcome.split)
qed

lemma relay_port_count_nat:
  assumes "sc_relay_port_min c \<noteq> 0" and "sc_relay_port_min c \<le> sc_relay_port_max c"
  shows "unat (relay_port_count c) = Suc (unat (sc_relay_port_max c) - unat (sc_relay_port_min c))"
proof -
  have "unat (sc_relay_port_max c - sc_relay_port_min c) = unat (sc_relay_port_max c) - unat (sc_relay_port_min c)"
    using assms(2) by (simp add: unat_sub word_le_nat_alt)
  moreover have "0 < unat (sc_relay_port_min c)" using assms(1) by (simp add: unat_gt_0)
  ultimately show ?thesis
    using assms(2) unat_less_u16 [of "sc_relay_port_max c"] by (simp add: relay_port_count_def unat_saturating_add)
qed

lemma candidate_port:
  assumes "sc_relay_port_min c \<noteq> 0" and "sc_relay_port_min c \<le> sc_relay_port_max c"
  shows "unat (sc_relay_port_min c + x mod relay_port_count c) = unat (sc_relay_port_min c) + unat x mod unat (relay_port_count c)"
    and "sc_relay_port_min c + x mod relay_port_count c \<in> {sc_relay_port_min c..sc_relay_port_max c}"
proof -
  let ?min = "unat (sc_relay_port_min c)" and ?n = "unat (relay_port_count c)"
  note n = relay_port_count_nat [OF assms]
  have "unat x mod ?n < ?n" unfolding n by simp
  moreover have "?min \<le> unat (sc_relay_port_max c)" using assms(2) by (simp add: word_le_nat_alt)
  ultimately have small: "?min + unat x mod ?n \<le> unat (sc_relay_port_max c)" using n by linarith
  then show eq: "unat (sc_relay_port_min c + x mod relay_port_count c) = ?min + unat x mod ?n"
    using unat_less_u16 [of "sc_relay_port_max c"] by (subst unat_add_no_wrap) (simp_all add: unat_mod)
  show "sc_relay_port_min c + x mod relay_port_count c \<in> {sc_relay_port_min c..sc_relay_port_max c}"
    using small by (simp add: word_le_nat_alt eq)
qed

lemma residues_complete:
  fixes n :: nat
  assumes "0 < n" and "r < n"
  obtains j where "j < n" "(x + j) mod n = r"
proof
  show "(r + (n - x mod n)) mod n < n" using assms(1) by simp
  have "x mod n \<le> n" using assms(1) by (simp add: less_imp_le)
  have "(x + (r + (n - x mod n)) mod n) mod n = (x mod n + (r + (n - x mod n))) mod n" by (simp add: mod_simps)
  also have "\<dots> = (r + n) mod n" using \<open>x mod n \<le> n\<close> by (simp add: add.commute add.left_commute)
  finally show "(x + (r + (n - x mod n)) mod n) mod n = r" using assms(2) by simp
qed

text \<open>Every port tried lies in the configured range; and as long as the distance of the counter from the start of
  the range does not wrap around during the search, every port of the range is tried.\<close>

lemma relay_candidates_range:
  assumes "sc_relay_port_min c \<noteq> 0" and "sc_relay_port_min c \<le> sc_relay_port_max c"
  shows "set (relay_candidates c k candidate) \<subseteq> {sc_relay_port_min c..sc_relay_port_max c}"
  unfolding relay_candidates_def using candidate_port(2) [OF assms] by (auto simp del: atLeastAtMost_iff)

lemma relay_candidates_complete:
  assumes "sc_relay_port_min c \<noteq> 0" and "sc_relay_port_min c \<le> sc_relay_port_max c"
    and room: "unat (candidate - sc_relay_port_min c) + unat (relay_port_count c) \<le> 2 ^ 16"
  shows "set (relay_candidates c (unat (relay_port_count c)) candidate) = {sc_relay_port_min c..sc_relay_port_max c}"
proof
  show "set (relay_candidates c (unat (relay_port_count c)) candidate) \<subseteq> {sc_relay_port_min c..sc_relay_port_max c}"
    by (rule relay_candidates_range [OF assms(1,2)])
  let ?n = "unat (relay_port_count c)" and ?x = "unat (candidate - sc_relay_port_min c)"
  show "{sc_relay_port_min c..sc_relay_port_max c} \<subseteq> set (relay_candidates c ?n candidate)"
  proof
    fix p assume "p \<in> {sc_relay_port_min c..sc_relay_port_max c}"
    then have p: "unat (sc_relay_port_min c) \<le> unat p" "unat p \<le> unat (sc_relay_port_max c)" by (simp_all add: word_le_nat_alt)
    note n = relay_port_count_nat [OF assms(1,2)]
    have "0 < ?n" "unat p - unat (sc_relay_port_min c) < ?n" using p n by simp_all
    then obtain j where j: "j < ?n" "(?x + j) mod ?n = unat p - unat (sc_relay_port_min c)" by (rule residues_complete)
    have "unat (candidate - sc_relay_port_min c + word_of_nat j) = ?x + j"
    proof -
      have "unat (word_of_nat j :: u16) = j" using j(1) unat_less_u16 [of "relay_port_count c"] by (simp add: unat_word_of_nat_less)
      then show ?thesis using room j(1) by (subst unat_add_no_wrap) simp_all
    qed
    then have "unat (sc_relay_port_min c + (candidate + word_of_nat j - sc_relay_port_min c) mod relay_port_count c) = unat p"
      using j(2) p(1) by (simp add: candidate_port(1) [OF assms(1,2)] diff_add_eq)
    then have "p = sc_relay_port_min c + (candidate + word_of_nat j - sc_relay_port_min c) mod relay_port_count c"
      by (metis unsigned_word_eqI)
    with j(1) show "p \<in> set (relay_candidates c ?n candidate)" unfolding relay_candidates_def by auto
  qed
qed

lemma first_bound_fails:
  "first_bound io ip ps = Inl e \<Longrightarrow>
     (\<forall>p\<in>set ps. io_bind io (sock_new ip p) = AddrInUse) \<or> (\<exists>p\<in>set ps. io_bind io (sock_new ip p) = BindFailed)"
  by (induction ps) (auto split: bind_outcome.splits)

lemma bind_relay_socket_complete:
  assumes "sc_relay_port_min (ts_configuration s) \<noteq> 0"
    and "sc_relay_port_min (ts_configuration s) \<le> sc_relay_port_max (ts_configuration s)"
    and "unat (ts_next_relay_port s - sc_relay_port_min (ts_configuration s)) + unat (relay_port_count (ts_configuration s)) \<le> 2 ^ 16"
    and "fst (bind_relay_socket io s) = Inl e"
    and "\<And>p. io_bind io (sock_new (sc_relay_bind_ip (ts_configuration s)) p) \<noteq> BindFailed"
  shows "\<forall>p\<in>{sc_relay_port_min (ts_configuration s)..sc_relay_port_max (ts_configuration s)}.
     io_bind io (sock_new (sc_relay_bind_ip (ts_configuration s)) p) = AddrInUse"
proof -
  let ?c = "ts_configuration s"
  have "first_bound io (sc_relay_bind_ip ?c) (relay_candidates ?c (unat (relay_port_count ?c)) (ts_next_relay_port s)) = Inl e"
    using assms(1,4) bind_relay_ports_eq [of io ?c "unat (relay_port_count ?c)" "ts_next_relay_port s"]
    by (simp add: bind_relay_socket_def Let_def split: prod.splits)
  from first_bound_fails [OF this] assms(5) show ?thesis
    unfolding relay_candidates_complete [OF assms(1-3)] by blast
qed

text \<open>When the counter does come round to the start of the range during a search, a port can be missed: here the
  range has three ports, the third is free, and the search tries the first twice and reports that the range is
  exhausted.\<close>

definition sample_server_config :: server_config where
  "sample_server_config =
     \<lparr>sc_control_bind = SockV4 0 3478, sc_status_bind = SockV4 0 8090, sc_advertised_ip = IpV4 0x08080808,
      sc_relay_bind_ip = IpV4 0, sc_relay_port_min = 50000, sc_relay_port_max = 50002, sc_allow_private_peers = False,
      sc_maximum_relay_bytes_per_second = 1000000, sc_username = str_lit ''user'', sc_password = str_lit ''pass'',
      sc_realm = str_lit ''realm'', sc_nonce_secret = replicate 32 7, sc_rest_secret = replicate 32 9,
      sc_maximum_allocations = 3, sc_maximum_allocations_per_ip = 2, sc_tls_bind = None\<rparr>"

lemma relay_port_missed:
  "io_bind io (SockV4 0 50002) = Bound 50002 \<Longrightarrow> io_bind io (SockV4 0 50000) = AddrInUse \<Longrightarrow>
     io_bind io (SockV4 0 50001) = AddrInUse \<Longrightarrow>
     fst (bind_relay_ports io sample_server_config (relay_port_count sample_server_config) 3 49999) = Inl ServerIo"
  unfolding bind_relay_ports_eq
  by (simp add: relay_candidates_def relay_port_count_def sample_server_config_def saturating_add_def upt_rec)

end
