(* ===== verification/Turn_Service.thy ===== *)
theory Turn_Service
  imports Turn_Relay
begin

text \<open>
  What the TURN server guarantees, over the handlers of \<open>Turn_Server\<close>: its invariant and quotas over
  histories of frames, peer datagrams, maintenance and closed streams; that only an authenticated request
  grants anything and only to its own client; that data leaves the server only for safe and permitted
  peers; that the relay stays within its bandwidth; and that frames survive the control stream.
\<close>

section \<open>Invariant\<close>

definition channels_safe :: "server_config \<Rightarrow> allocation \<Rightarrow> bool" where
  "channels_safe c a \<longleftrightarrow> (\<forall>(n, b)\<in>set (al_channels a). safe_peer c (cb_peer b))"

definition allocation_safe :: "server_config \<Rightarrow> u16 \<Rightarrow> allocation \<Rightarrow> bool" where
  "allocation_safe c port a \<longleftrightarrow>
     allocation_inv a \<and> channels_safe c a \<and> al_relayed_address a = sock_new (sc_advertised_ip c) port"

definition managed_inv :: "server_config \<Rightarrow> managed_allocation \<Rightarrow> bool" where
  "managed_inv c a \<longleftrightarrow>
     allocation_safe c (ma_relay_port a) (ma_allocation a) \<and>
     bl_available_bytes (ma_bandwidth a) \<le> saturating_mul (sc_maximum_relay_bytes_per_second c) 2"

definition allocations_inv :: "server_config \<Rightarrow> (client_key, managed_allocation) hash_map \<Rightarrow> bool" where
  "allocations_inv c m \<longleftrightarrow> hm_wf m \<and> (\<forall>k a. hm_get m k = Some a \<longrightarrow> managed_inv c a)"

definition server_inv :: "turn_server \<Rightarrow> bool" where
  "server_inv s \<longleftrightarrow> allocations_inv (ts_configuration s) (ts_allocations s)"

lemma count_simps [simp]:
  "ts_allocations (count f s) = ts_allocations s" "ts_configuration (count f s) = ts_configuration s"
  "ts_nonce (count f s) = ts_nonce s" "ts_credential_key (count f s) = ts_credential_key s"
  by (simp_all add: count_def)

lemma rate_limited_simps [simp]:
  "ts_allocations (rate_limited s) = ts_allocations s" "ts_configuration (rate_limited s) = ts_configuration s"
  "ts_nonce (rate_limited s) = ts_nonce s" "ts_credential_key (rate_limited s) = ts_credential_key s"
  by (simp_all add: rate_limited_def)

lemma put_allocation_simps [simp]:
  "ts_configuration (put_allocation k a s) = ts_configuration s"
  "ts_nonce (put_allocation k a s) = ts_nonce s" "ts_credential_key (put_allocation k a s) = ts_credential_key s"
  "ts_allocations (put_allocation k a s) = hm_insert k a (ts_allocations s)"
  by (simp_all add: put_allocation_def)

lemma allocations_inv_insert: "allocations_inv c m \<Longrightarrow> managed_inv c a \<Longrightarrow> allocations_inv c (hm_insert k a m)"
  by (simp add: allocations_inv_def)

lemma allocations_inv_remove: "allocations_inv c m \<Longrightarrow> allocations_inv c (hm_remove k m)"
  by (simp add: allocations_inv_def)

lemma allocations_inv_removes: "allocations_inv c m \<Longrightarrow> allocations_inv c (fold hm_remove ks m)"
  by (induction ks arbitrary: m) (simp_all add: allocations_inv_remove)

lemma allocations_inv_get: "allocations_inv c m \<Longrightarrow> hm_get m k = Some a \<Longrightarrow> managed_inv c a"
  by (simp add: allocations_inv_def)

text \<open>Every operation of an allocation keeps it safe.\<close>

lemma channels_safe_filter: "channels_safe c a \<Longrightarrow> channels_safe c (expire_children now a)"
  by (auto simp: channels_safe_def)

lemma allocation_safe_expire: "allocation_safe c port a \<Longrightarrow> allocation_safe c port (expire_children now a)"
  by (simp add: allocation_safe_def expire_children_inv channels_safe_filter)

lemma allocation_safe_refresh: "allocation_safe c port a \<Longrightarrow> allocation_safe c port (snd (refresh now r a))"
  by (simp add: allocation_safe_def refresh_inv) (simp add: refresh_def channels_safe_def Let_def)

lemma allocation_safe_create:
  assumes "allocation_safe c port a" and "create_permissions now peers a = (r, a')"
  shows "allocation_safe c port a'"
proof -
  have "allocation_inv a'" using assms by (auto simp: allocation_safe_def intro: create_permissions_inv)
  moreover from assms(2) have "al_channels a' = al_channels (expire_children now a)" "al_relayed_address a' = al_relayed_address a"
    by (auto elim!: create_permissions_cases)
  ultimately show ?thesis
    using assms(1) channels_safe_filter [of c a now] by (simp add: allocation_safe_def channels_safe_def)
qed

lemma allocation_safe_bind:
  assumes "allocation_safe c port a" and "bind_channel now n peer a = (r, a')" and "safe_peer c peer"
  shows "allocation_safe c port a'"
  using assms(2)
proof (cases rule: bind_channel_cases)
  case (refused e)
  with assms(1) show ?thesis by (simp add: allocation_safe_expire)
next
  case (bound a1)
  let ?b = "\<lparr>cb_peer = peer, cb_expires_at = now + CHANNEL_LIFETIME\<rparr>"
  let ?m = "al_channels (expire_children now a)"
  have "allocation_inv a'" using assms by (auto simp: allocation_safe_def intro: bind_channel_inv)
  moreover have "al_relayed_address a' = al_relayed_address a"
    using allocation_safe_create [OF assms(1) bound(7)] assms(1) bound(8) by (simp add: allocation_safe_def)
  moreover have "set (al_channels a') \<subseteq> insert (n, ?b) (set ?m)"
    unfolding bound(8) using hm_insert_subset [of n ?b ?m] by simp
  ultimately show ?thesis
    using assms(1,3) channels_safe_filter [of c a now] by (auto simp: allocation_safe_def channels_safe_def)
qed

lemma allocation_safe_new:
  "allocation_safe c port (allocation_new now username client (sock_new (sc_advertised_ip c) port))"
  unfolding allocation_safe_def channels_safe_def
  by (simp only: allocation_inv_new) (simp add: allocation_new_def)


lemma queries_safe:
  assumes "allocation_safe c port a"
  shows "allocation_safe c port (snd (permits now peer a))" and "allocation_safe c port (snd (channel_peer now n a))"
    and "allocation_safe c port (snd (peer_route order now peer a))"
  using allocation_safe_expire [OF assms] by (simp_all add: queries_expire)

lemma consume_bounded:
  assumes "bl_available_bytes l \<le> saturating_mul bps 2" and "consume now n bps l = (allowed, l')"
  shows "bl_available_bytes l' \<le> saturating_mul bps 2"
proof -
  let ?r = "min (unat bps * (now - bl_updated_at l)) (2 ^ 128 - 1) div 1000000000"
  define l1 where "l1 = (if ?r \<noteq> 0
     then l\<lparr>bl_available_bytes := min (saturating_add (bl_available_bytes l) (u64_of_nat ?r)) (saturating_mul bps 2),
            bl_updated_at := now\<rparr> else l)"
  have l1: "bl_available_bytes l1 \<le> saturating_mul bps 2" using assms(1) by (simp add: l1_def)
  have "(allowed, l') = (if u64_of_nat n > bl_available_bytes l1 then (False, l1)
      else (True, l1\<lparr>bl_available_bytes := bl_available_bytes l1 - u64_of_nat n\<rparr>))"
    unfolding l1_def assms(2) [symmetric] consume_def Let_def by (rule refl)
  then consider "l' = l1" | "u64_of_nat n \<le> bl_available_bytes l1" "bl_available_bytes l' = bl_available_bytes l1 - u64_of_nat n"
    by (auto split: if_splits)
  then show ?thesis
  proof cases
    case 2
    then have "bl_available_bytes l' \<le> bl_available_bytes l1" by (simp add: word_le_nat_alt unat_sub)
    with l1 show ?thesis by (rule order_trans [rotated])
  qed (use l1 in simp)
qed

lemma managed_inv_allocation:
  "managed_inv c a \<Longrightarrow> allocation_safe c (ma_relay_port a) b \<Longrightarrow> managed_inv c (a\<lparr>ma_allocation := b\<rparr>)"
  by (simp add: managed_inv_def)

lemma managed_inv_bandwidth:
  "managed_inv c a \<Longrightarrow> consume now n (sc_maximum_relay_bytes_per_second c) (ma_bandwidth a) = (allowed, b) \<Longrightarrow>
     managed_inv c (a\<lparr>ma_bandwidth := b\<rparr>)"
  by (auto simp: managed_inv_def intro: consume_bounded)

section \<open>What a step does to the allocations\<close>

text \<open>A managed allocation as another one leaves it without new authority: it may only have lost
  permissions and channels and changed its allowance.\<close>

definition shrinks :: "managed_allocation \<Rightarrow> managed_allocation \<Rightarrow> bool" where
  "shrinks a b \<longleftrightarrow>
     al_username (ma_allocation b) = al_username (ma_allocation a) \<and>
     al_client_address (ma_allocation b) = al_client_address (ma_allocation a) \<and>
     al_relayed_address (ma_allocation b) = al_relayed_address (ma_allocation a) \<and>
     al_expires_at (ma_allocation b) = al_expires_at (ma_allocation a) \<and>
     set (al_permissions (ma_allocation b)) \<subseteq> set (al_permissions (ma_allocation a)) \<and>
     set (al_channels (ma_allocation b)) \<subseteq> set (al_channels (ma_allocation a)) \<and>
     ma_relay_port b = ma_relay_port a \<and> ma_allocate_transaction b = ma_allocate_transaction a \<and>
     ma_allocate_response b = ma_allocate_response a \<and> ma_control_sender b = ma_control_sender a"

definition no_new_authority :: "turn_server \<Rightarrow> turn_server \<Rightarrow> bool" where
  "no_new_authority s s' \<longleftrightarrow>
     ts_configuration s' = ts_configuration s \<and>
     (\<forall>k b. hm_get (ts_allocations s') k = Some b \<longrightarrow> (\<exists>a. hm_get (ts_allocations s) k = Some a \<and> shrinks a b))"

lemma shrinks_refl: "shrinks a a"
  by (simp add: shrinks_def)

lemma shrinks_expire: "shrinks a (a\<lparr>ma_allocation := expire_children now (ma_allocation a)\<rparr>)"
  by (auto simp: shrinks_def expire_children_def)

lemma shrinks_bandwidth: "shrinks a (b\<lparr>ma_bandwidth := l\<rparr>) = shrinks a b"
  by (simp add: shrinks_def)

lemma no_new_authority_refl: "no_new_authority s s"
  by (auto simp: no_new_authority_def shrinks_refl)

lemma no_new_authority_put:
  "hm_get (ts_allocations s) k = Some a \<Longrightarrow> shrinks a b \<Longrightarrow> no_new_authority s (put_allocation k b s)"
  by (auto simp: no_new_authority_def shrinks_refl)

lemma no_new_authority_same:
  "no_new_authority s s1 \<Longrightarrow> ts_allocations s2 = ts_allocations s1 \<Longrightarrow> ts_configuration s2 = ts_configuration s1 \<Longrightarrow>
     no_new_authority s s2"
  by (simp add: no_new_authority_def)

lemma put_put: "put_allocation k b (put_allocation k a s) = put_allocation k b s"
  by (simp add: put_allocation_def update_swap)

section \<open>The data path\<close>

text \<open>What a datagram of a client or of a peer may do: nothing to the allocations; or only drop what has
  expired and refill the allowance; or be relayed, against the allowance, between the client and a
  permitted peer.\<close>

definition touch :: "duration \<Rightarrow> bandwidth_limiter \<Rightarrow> managed_allocation \<Rightarrow> managed_allocation" where
  "touch now l a = a\<lparr>ma_allocation := expire_children now (ma_allocation a), ma_bandwidth := l\<rparr>"

definition permitted_peer :: "duration \<Rightarrow> managed_allocation \<Rightarrow> socket_addr \<Rightarrow> bool" where
  "permitted_peer now a peer \<longleftrightarrow> in_force (al_permissions (ma_allocation a)) now (sock_ip peer)"

definition same_allocations :: "turn_server \<Rightarrow> turn_server \<Rightarrow> bool" where
  "same_allocations s s' \<longleftrightarrow>
     ts_configuration s' = ts_configuration s \<and> ts_allocations s' = ts_allocations s \<and>
     ts_nonce s' = ts_nonce s \<and> ts_credential_key s' = ts_credential_key s"

inductive data_step ::
    "duration \<Rightarrow> client_key \<Rightarrow> turn_server \<Rightarrow> turn_effect list \<Rightarrow> turn_server \<Rightarrow> bool"
  for now :: duration and client :: client_key and s :: turn_server where
  ignored: "same_allocations s s' \<Longrightarrow> data_step now client s [] s'"
| dropped: "hm_get (ts_allocations s) client = Some a \<Longrightarrow>
     l = ma_bandwidth a \<or> consume now n (sc_maximum_relay_bytes_per_second (ts_configuration s)) (ma_bandwidth a) = (ok, l) \<Longrightarrow>
     same_allocations (put_allocation client (touch now l a) s) s' \<Longrightarrow> data_step now client s [] s'"
| relayed: "hm_get (ts_allocations s) client = Some a \<Longrightarrow>
     consume now (length data) (sc_maximum_relay_bytes_per_second (ts_configuration s)) (ma_bandwidth a) = (True, l) \<Longrightarrow>
     same_allocations (put_allocation client (touch now l a) s) s' \<Longrightarrow>
     permitted_peer now a peer \<Longrightarrow> length data \<le> MAX_RELAY_DATA_BYTES \<Longrightarrow>
     effect = ToPeer (ma_relay_port a) peer data \<and> safe_peer (ts_configuration s) peer \<or>
     effect = ToClient (ma_control_sender a) frame \<Longrightarrow>
     data_step now client s [effect] s'"

lemma same_allocations_refl [simp]: "same_allocations s s"
  by (simp add: same_allocations_def)

lemma same_allocations_count [simp]:
  "same_allocations s (count f s') = same_allocations s s'" "same_allocations s (rate_limited s') = same_allocations s s'"
  by (simp_all add: same_allocations_def)

lemma spend_result:
  assumes "spend now n client (a\<lparr>ma_allocation := expire_children now (ma_allocation a)\<rparr>) s = (allowed, s')"
  obtains l where "consume now n (sc_maximum_relay_bytes_per_second (ts_configuration s)) (ma_bandwidth a) = (allowed, l)"
    "same_allocations (put_allocation client (touch now l a) s) s'"
proof -
  obtain ok l where c: "consume now n (sc_maximum_relay_bytes_per_second (ts_configuration s)) (ma_bandwidth a) = (ok, l)"
    by fastforce
  with assms have "allowed = ok" "same_allocations (put_allocation client (touch now l a) s) s'"
    by (auto simp: spend_def touch_def same_allocations_def Let_def split: if_splits)
  with c that show ?thesis by simp
qed

lemma relay_to_peer_result:
  assumes "relay_to_peer io port peer data s = (r, effects, s')"
  shows "effects = [ToPeer port peer data]" and "same_allocations s s'"
  using assms by (auto simp: relay_to_peer_def same_allocations_def split: if_splits)

text \<open>The rest of each handler once the allocation and the peer are known.\<close>

lemma relay_step:
  assumes a: "hm_get (ts_allocations s) client = Some a"
    and peer: "permitted_peer now a peer" "safe_peer (ts_configuration s) peer" "length data \<le> MAX_RELAY_DATA_BYTES"
    and step: "(let (allowed, s2) = spend now (length data) client (a\<lparr>ma_allocation := expire_children now (ma_allocation a)\<rparr>)
          (put_allocation client (a\<lparr>ma_allocation := expire_children now (ma_allocation a)\<rparr>) s) in
        if allowed then relay_to_peer io (ma_relay_port (a\<lparr>ma_allocation := expire_children now (ma_allocation a)\<rparr>)) peer data s2
        else (Inr (), [], s2)) = (r, effects, s')"
  shows "data_step now client s effects s'"
proof -
  let ?s1 = "put_allocation client (a\<lparr>ma_allocation := expire_children now (ma_allocation a)\<rparr>) s"
  obtain allowed s2 where sp: "spend now (length data) client (a\<lparr>ma_allocation := expire_children now (ma_allocation a)\<rparr>) ?s1 = (allowed, s2)"
    by fastforce
  obtain l where l: "consume now (length data) (sc_maximum_relay_bytes_per_second (ts_configuration s)) (ma_bandwidth a) = (allowed, l)"
    and s2: "same_allocations (put_allocation client (touch now l a) s) s2"
    by (rule spend_result [OF sp]) (simp add: put_put)
  show ?thesis
  proof (cases allowed)
    case True
    then have "relay_to_peer io (ma_relay_port a) peer data s2 = (r, effects, s')" using step sp by simp
    from relay_to_peer_result [OF this] s2
    have "effects = [ToPeer (ma_relay_port a) peer data]" "same_allocations (put_allocation client (touch now l a) s) s'"
      by (simp_all add: same_allocations_def)
    with relayed [OF a _ _ peer(1,3)] l True peer(2) show ?thesis by simp
  next
    case False
    then have "effects = []" "s' = s2" using step sp by simp_all
    with dropped [OF a disjI2 [OF l] s2] show ?thesis by simp
  qed
qed

lemma dropped_expire:
  assumes "hm_get (ts_allocations s) client = Some a"
  shows "data_step now client s [] (put_allocation client (a\<lparr>ma_allocation := expire_children now (ma_allocation a)\<rparr>) s)"
  by (rule dropped [OF assms, of "ma_bandwidth a"]) (simp_all add: touch_def)

lemma server_inv_get: "server_inv s \<Longrightarrow> hm_get (ts_allocations s) k = Some a \<Longrightarrow> managed_inv (ts_configuration s) a"
  by (auto simp: server_inv_def intro: allocations_inv_get)

lemma managed_inv_parts:
  assumes "managed_inv c a"
  shows "allocation_inv (ma_allocation a)" and "channels_safe c (ma_allocation a)"
  using assms by (simp_all add: managed_inv_def allocation_safe_def)

lemma send_indication_step:
  assumes inv: "server_inv s" and h: "handle_send_indication io now client m s = (r, effects, s')"
  shows "data_step now client s effects s'"
proof -
  have quiet: "data_step now client s effects s'" if "(q, [], s) = (r, effects, s')" for q
    using that by (auto intro: ignored)
  show ?thesis
  proof (cases "msg_xor_address m XOR_PEER_ADDRESS")
    case (Inl e)
    with h show ?thesis by (intro quiet) (simp add: handle_send_indication_def)
  next
    case (Inr address)
    note address = this
    show ?thesis
    proof (cases "\<exists>peer d. address = Some peer \<and> attribute m DATA_ATTRIBUTE = Some d \<and>
        length (ra_value d) \<le> MAX_RELAY_DATA_BYTES \<and> safe_peer (ts_configuration s) peer")
      case False
      with h address show ?thesis
        by (intro quiet) (auto simp: handle_send_indication_def Let_def split: option.splits if_splits)
    next
      case True
      then obtain peer d where p: "address = Some peer" "attribute m DATA_ATTRIBUTE = Some d"
        "length (ra_value d) \<le> MAX_RELAY_DATA_BYTES" "safe_peer (ts_configuration s) peer" by auto
      show ?thesis
      proof (cases "hm_get (ts_allocations s) client")
        case None
        with h address p show ?thesis by (intro quiet) (simp add: handle_send_indication_def)
      next
        case (Some a)
        note perm = permits_in_force [OF managed_inv_parts(1) [OF server_inv_get [OF inv Some]], of now peer]
        have pair: "permits now peer (ma_allocation a) = (permitted_peer now a peer, expire_children now (ma_allocation a))"
          using perm queries_expire(2) [of now peer "ma_allocation a"] by (simp add: prod_eq_iff permitted_peer_def)
        let ?b = "a\<lparr>ma_allocation := expire_children now (ma_allocation a)\<rparr>"
        have eq: "(if \<not> permitted_peer now a peer then (Inr (), [], put_allocation client ?b s)
            else let (allowed, s2) = spend now (length (ra_value d)) client ?b (put_allocation client ?b s) in
              if allowed then relay_to_peer io (ma_relay_port ?b) peer (ra_value d) s2 else (Inr (), [], s2)) = (r, effects, s')"
          using h address p Some by (simp add: handle_send_indication_def pair Let_def)
        show ?thesis
        proof (cases "permitted_peer now a peer")
          case True
          with eq show ?thesis by (intro relay_step [OF Some True p(4,3)]) simp
        next
          case False
          with eq dropped_expire [OF Some, of now] show ?thesis by simp
        qed
      qed
    qed
  qed
qed

lemma channel_data_step:
  assumes inv: "server_inv s" and h: "handle_channel_data io now client datagram s = (r, effects, s')"
  shows "data_step now client s effects s'"
proof -
  have quiet: "data_step now client s effects s'" if "(q, [], s) = (r, effects, s')" for q
    using that by (auto intro: ignored)
  show ?thesis
  proof (cases "channel_data_parse datagram")
    case (Inl e)
    with h show ?thesis by (intro quiet) (simp add: handle_channel_data_def)
  next
    case (Inr cd)
    note cd = this
    show ?thesis
    proof (cases "length (ch_data cd) \<le> MAX_RELAY_DATA_BYTES \<and> hm_get (ts_allocations s) client \<noteq> None")
      case False
      with h cd show ?thesis by (intro quiet) (auto simp: handle_channel_data_def split: if_splits)
    next
      case True
      then obtain a where len: "length (ch_data cd) \<le> MAX_RELAY_DATA_BYTES" and a: "hm_get (ts_allocations s) client = Some a"
        by auto
      let ?b = "a\<lparr>ma_allocation := expire_children now (ma_allocation a)\<rparr>"
      obtain route where route: "channel_peer now (ch_channel_number cd) (ma_allocation a) = (route, expire_children now (ma_allocation a))"
        using queries_expire(1) [of now "ch_channel_number cd" "ma_allocation a"] by (metis prod.collapse)
      have eq: "(case route of None \<Rightarrow> (Inr (), [], put_allocation client ?b s)
          | Some peer \<Rightarrow> let (allowed, s2) = spend now (length (ch_data cd)) client ?b (put_allocation client ?b s) in
              if allowed then relay_to_peer io (ma_relay_port ?b) peer (ch_data cd) s2 else (Inr (), [], s2)) = (r, effects, s')"
        using h cd len a by (cases route) (simp_all add: handle_channel_data_def route Let_def not_less)
      show ?thesis
      proof (cases route)
        case None
        with eq dropped_expire [OF a, of now] show ?thesis by simp
      next
        case (Some peer)
        note m = managed_inv_parts [OF server_inv_get [OF inv a]]
        from route Some have "bound_to (ma_allocation a) now (ch_channel_number cd) peer \<and>
            in_force (al_permissions (ma_allocation a)) now (sock_ip peer)"
          using channel_peer_eq [OF m(1), of now "ch_channel_number cd" peer] by simp
        then have perm: "permitted_peer now a peer" and bound: "\<exists>b. (ch_channel_number cd, b) \<in> set (al_channels (ma_allocation a)) \<and> cb_peer b = peer"
          by (auto simp: permitted_peer_def bound_to_def dest: map_of_SomeD)
        have "safe_peer (ts_configuration s) peer" using bound m(2) unfolding channels_safe_def by blast
        with eq Some show ?thesis by (intro relay_step [OF a perm _ len]) simp_all
      qed
    qed
  qed
qed

lemma peer_route_permitted:
  assumes "allocation_inv (ma_allocation a)" and "peer_route order now peer (ma_allocation a) = (Some route, b)"
  shows "permitted_peer now a peer"
  using assms permits_in_force [OF assms(1), of now peer]
  by (auto simp: peer_route_def permitted_peer_def split: prod.splits if_splits)

lemma peer_datagram_step:
  assumes inv: "server_inv s" and h: "relay_peer_datagram cr io order random now client peer data s = (effects, s')"
  shows "data_step now client s effects s'"
proof (cases "length data \<le> MAX_RELAY_DATA_BYTES \<and> hm_get (ts_allocations s) client \<noteq> None")
  case False
  with h have "effects = []" "same_allocations s s'"
    by (auto simp: relay_peer_datagram_def split: if_splits)
  then show ?thesis by (simp add: ignored)
next
  case True
  then obtain a where len: "length data \<le> MAX_RELAY_DATA_BYTES" and a: "hm_get (ts_allocations s) client = Some a"
    by auto
  let ?b = "a\<lparr>ma_allocation := expire_children now (ma_allocation a)\<rparr>"
  obtain route where route: "peer_route order now peer (ma_allocation a) = (route, expire_children now (ma_allocation a))"
    using queries_expire(3) [of order now peer "ma_allocation a"] by (metis prod.collapse)
  show ?thesis
  proof (cases route)
    case None
    with h len a route dropped_expire [OF a, of now] show ?thesis by (auto simp: relay_peer_datagram_def not_less)
  next
    case (Some via)
    have perm: "permitted_peer now a peer"
      by (rule peer_route_permitted [OF managed_inv_parts(1) [OF server_inv_get [OF inv a]] route [unfolded Some]])
    obtain allowed s2 where sp: "spend now (length data) client ?b (put_allocation client ?b s) = (allowed, s2)" by fastforce
    obtain l where l: "consume now (length data) (sc_maximum_relay_bytes_per_second (ts_configuration s)) (ma_bandwidth a) = (allowed, l)"
      and s2: "same_allocations (put_allocation client (touch now l a) s) s2"
      by (rule spend_result [OF sp]) (simp add: put_put)
    note h' = h [unfolded relay_peer_datagram_def a option.case route Some Let_def prod.case sp]
    from h' len consider "effects = []" "s' = s2"
      | frame where "allowed" "effects = [ToClient (ma_control_sender a) frame]" "same_allocations s2 s'"
      by (auto simp: not_less client_send_def same_allocations_def Let_def split: if_splits sum.splits)
    then show ?thesis
    proof cases
      case 1
      with dropped [OF a disjI2 [OF l] s2] show ?thesis by simp
    next
      case (2 frame)
      with s2 have "same_allocations (put_allocation client (touch now l a) s) s'" by (simp add: same_allocations_def)
      with 2 l relayed [OF a _ _ perm len, of l s' "ToClient (ma_control_sender a) frame" frame] show ?thesis by simp
    qed
  qed
qed

lemma peer_datagram_sends:
  assumes inv: "server_inv s" and h: "relay_peer_datagram cr io order random now client peer data s = (effects, s')" and "effects \<noteq> []"
  shows "\<exists>a. hm_get (ts_allocations s) client = Some a \<and> effects \<in> (\<lambda>f. [ToClient (ma_control_sender a) f]) ` UNIV \<and>
     permitted_peer now a peer \<and> length data \<le> MAX_RELAY_DATA_BYTES"
proof -
  from h assms(3) obtain a where len: "length data \<le> MAX_RELAY_DATA_BYTES" and a: "hm_get (ts_allocations s) client = Some a"
    by (auto simp: relay_peer_datagram_def split: if_splits option.splits)
  obtain route where route: "peer_route order now peer (ma_allocation a) = (route, expire_children now (ma_allocation a))"
    using queries_expire(3) [of order now peer "ma_allocation a"] by (metis prod.collapse)
  from h assms(3) len a route have "\<exists>via. route = Some via" by (cases route) (auto simp: relay_peer_datagram_def not_less)
  then obtain via where via: "route = Some via" ..
  have "permitted_peer now a peer"
    by (rule peer_route_permitted [OF managed_inv_parts(1) [OF server_inv_get [OF inv a]] route [unfolded via]])
  moreover have "effects \<in> (\<lambda>f. [ToClient (ma_control_sender a) f]) ` UNIV"
    using h assms(3) len a route via
    by (auto simp: relay_peer_datagram_def client_send_def not_less Let_def split: prod.splits if_splits sum.splits)
  ultimately show ?thesis using a len by blast
qed

lemma touch_inv:
  assumes "managed_inv c a" and "l = ma_bandwidth a \<or> consume now n (sc_maximum_relay_bytes_per_second c) (ma_bandwidth a) = (ok, l)"
  shows "managed_inv c (touch now l a)"
proof -
  have "managed_inv c (a\<lparr>ma_bandwidth := l\<rparr>)" using assms by (auto intro: managed_inv_bandwidth)
  then show ?thesis by (simp add: touch_def managed_inv_def allocation_safe_expire)
qed

lemma server_inv_put:
  "server_inv s \<Longrightarrow> managed_inv (ts_configuration s) a \<Longrightarrow> server_inv (put_allocation k a s)"
  by (simp add: server_inv_def allocations_inv_insert)

lemma server_inv_same: "same_allocations s s' \<Longrightarrow> server_inv s' = server_inv s"
  by (simp add: same_allocations_def server_inv_def)

lemma data_step_inv:
  assumes "data_step now client s effects s'" and "server_inv s"
  shows "server_inv s'"
  using assms(1)
proof cases
  case ignored
  with assms(2) show ?thesis by (simp add: server_inv_same)
next
  case (dropped a l n ok)
  with server_inv_put [OF assms(2) touch_inv [OF server_inv_get [OF assms(2) dropped(2)] dropped(3)]]
  show ?thesis by (simp add: server_inv_same)
next
  case (relayed a data l)
  with server_inv_put [OF assms(2) touch_inv [OF server_inv_get [OF assms(2) relayed(2)] disjI2 [OF relayed(3)]]]
  show ?thesis by (simp add: server_inv_same)
qed

lemma shrinks_touch: "shrinks a (touch now l a)"
  using shrinks_expire [of a now] by (simp add: touch_def shrinks_bandwidth)

lemma no_new_authority_data:
  assumes "data_step now client s effects s'"
  shows "no_new_authority s s'"
  using assms
proof cases
  case ignored
  then show ?thesis by (intro no_new_authority_same [OF no_new_authority_refl]) (simp_all add: same_allocations_def)
next
  case (dropped a l)
  then show ?thesis
    by (intro no_new_authority_same [OF no_new_authority_put [OF dropped(2) shrinks_touch]]) (simp_all add: same_allocations_def)
next
  case (relayed a data l)
  then show ?thesis
    by (intro no_new_authority_same [OF no_new_authority_put [OF relayed(2) shrinks_touch]]) (simp_all add: same_allocations_def)
qed

section \<open>Requests\<close>

text \<open>What an authenticated request may do to the allocations: nothing; create the allocation of its
  client within the quotas; or change or release the one that belongs to its user name.\<close>

definition within_quota :: "client_key \<Rightarrow> turn_server \<Rightarrow> bool" where
  "within_quota client s \<longleftrightarrow>
     length (ts_allocations s) < sc_maximum_allocations (ts_configuration s) \<and>
     length (filter (\<lambda>(key, _). sock_ip (client_address key) = sock_ip (client_address client)) (ts_allocations s))
       < sc_maximum_allocations_per_ip (ts_configuration s)"

definition owned :: "rust_string \<Rightarrow> managed_allocation \<Rightarrow> bool" where
  "owned username a \<longleftrightarrow> al_username (ma_allocation a) = username"

inductive request_step ::
    "rust_string \<Rightarrow> client_key \<Rightarrow> turn_server \<Rightarrow> turn_effect list \<Rightarrow> turn_server \<Rightarrow> bool"
  for username :: rust_string and client :: client_key and s :: turn_server where
  unchanged: "same_allocations s s' \<Longrightarrow> request_step username client s [] s'"
| created: "hm_get (ts_allocations s) client = None \<Longrightarrow> within_quota client s \<Longrightarrow> owned username a \<Longrightarrow>
     managed_inv (ts_configuration s) a \<Longrightarrow> same_allocations (put_allocation client a s) s' \<Longrightarrow>
     request_step username client s [StartRelay client (ma_relay_port a)] s'"
| updated: "hm_get (ts_allocations s) client = Some a \<Longrightarrow> owned username a \<Longrightarrow> al_username b = username \<Longrightarrow>
     (managed_inv (ts_configuration s) a \<Longrightarrow> allocation_safe (ts_configuration s) (ma_relay_port a) b) \<Longrightarrow>
     same_allocations (put_allocation client (a\<lparr>ma_allocation := b\<rparr>) s) s' \<Longrightarrow> request_step username client s [] s'"
| released: "hm_get (ts_allocations s) client = Some a \<Longrightarrow> owned username a \<Longrightarrow>
     same_allocations (s\<lparr>ts_allocations := hm_remove client (ts_allocations s)\<rparr>) s' \<Longrightarrow>
     request_step username client s [CancelRelay (ma_relay_port a)] s'"

lemma bind_relay_socket_same: "bind_relay_socket io s = (r, s') \<Longrightarrow> same_allocations s s'"
  by (auto simp: bind_relay_socket_def same_allocations_def Let_def split: if_splits bind_outcome.splits prod.splits)

lemma allocate_admit_result:
  assumes "allocate_admit cr client m auth s = (x, s')"
  shows "same_allocations s s'" and "x = Admitted \<Longrightarrow> hm_get (ts_allocations s) client = None \<and> within_quota client s"
  using assms by (auto simp: allocate_admit_def within_quota_def not_le Let_def split: option.splits if_splits)

lemma within_quota_same: "same_allocations s s' \<Longrightarrow> within_quota client s' = within_quota client s"
  by (simp add: same_allocations_def within_quota_def)

lemma limiter_new_bounded: "bl_available_bytes (limiter_new b now) \<le> saturating_mul b 2"
  by (simp add: limiter_new_def)

lemma commit_step:
  assumes h: "allocate_commit cr now client sender m auth port s = (r, effects, s')"
    and free: "hm_get (ts_allocations s) client = None" "within_quota client s"
  shows "request_step (au_username auth) client s effects s'"
proof -
  let ?relayed = "sock_new (sc_advertised_ip (ts_configuration s)) port"
  let ?a = "allocation_new now (au_username auth) (client_address client) ?relayed"
  show ?thesis
  proof (cases "allocation_success cr m ?relayed (client_address client) (remaining_lifetime now ?a) (au_key auth)")
    case (Inl e)
    with h have "effects = []" "s' = s" by (simp_all add: allocate_commit_def Let_def)
    then show ?thesis by (simp add: unchanged)
  next
    case (Inr response)
    let ?m = "\<lparr>ma_allocation = ?a, ma_relay_port = port, ma_allocate_transaction = ms_transaction_id m,
        ma_allocate_response = response, ma_control_sender = sender,
        ma_bandwidth = limiter_new (sc_maximum_relay_bytes_per_second (ts_configuration s)) now\<rparr>"
    have "effects = [StartRelay client (ma_relay_port ?m)]" "same_allocations (put_allocation client ?m s) s'"
      using h Inr free(1) by (auto simp: allocate_commit_def Let_def hm_contains_def)
    moreover have "managed_inv (ts_configuration s) ?m"
      by (simp add: managed_inv_def allocation_safe_new limiter_new_bounded)
    moreover have "owned (au_username auth) ?m" by (simp add: owned_def allocation_new_def)
    ultimately show ?thesis using created [OF free, of "au_username auth" ?m] by simp
  qed
qed

lemma request_step_from:
  assumes "request_step username client s1 effects s'" and "same_allocations s s1"
  shows "request_step username client s effects s'"
proof -
  have eq: "ts_configuration s1 = ts_configuration s" "ts_allocations s1 = ts_allocations s"
    "ts_nonce s1 = ts_nonce s" "ts_credential_key s1 = ts_credential_key s" using assms(2) by (simp_all add: same_allocations_def)
  have trans: "same_allocations s1 t = same_allocations s t" for t by (simp add: same_allocations_def eq)
  have put: "same_allocations (put_allocation client a s1) t = same_allocations (put_allocation client a s) t" for a t
    by (simp add: same_allocations_def eq)
  have remove: "same_allocations (s1\<lparr>ts_allocations := hm_remove client (ts_allocations s1)\<rparr>) t =
      same_allocations (s\<lparr>ts_allocations := hm_remove client (ts_allocations s)\<rparr>) t" for t
    by (simp add: same_allocations_def eq)
  from assms(1) show ?thesis
  proof cases
    case unchanged
    then show ?thesis by (simp add: request_step.unchanged trans)
  next
    case (created a)
    then show ?thesis using within_quota_same [OF assms(2)]
      by (simp add: request_step.created put eq)
  next
    case (updated a b)
    have "request_step username client s [] s'"
      by (rule request_step.updated [of s client a username b]) (use updated in \<open>simp_all add: put eq\<close>)
    with updated(1) show ?thesis by simp
  next
    case (released a)
    with remove [of s'] have "request_step username client s [CancelRelay (ma_relay_port a)] s'"
      by (intro request_step.released) (simp_all add: eq)
    with released(1) show ?thesis by simp
  qed
qed

lemma allocate_step:
  assumes "handle_allocate cr io now client sender m auth s = (r, effects, s')"
  shows "request_step (au_username auth) client s effects s'"
proof -
  have quiet: ?thesis if "effects = []" "same_allocations s s'" using that by (simp add: unchanged)
  obtain x s1 where admit: "allocate_admit cr client m auth s = (x, s1)" by fastforce
  note s1 = allocate_admit_result [OF admit]
  show ?thesis
  proof (cases "requested_transport m = Inr (Some 17) \<and> x = Admitted")
    case False
    with assms admit s1(1) show ?thesis
      by (intro quiet) (auto simp: handle_allocate_def split: sum.splits if_splits admission.splits)
  next
    case True
    obtain p s2 where b: "bind_relay_socket io s1 = (p, s2)" by fastforce
    have s2: "same_allocations s s2"
      using s1(1) bind_relay_socket_same [OF b] by (simp add: same_allocations_def)
    show ?thesis
    proof (cases p)
      case (Inl e)
      with True assms admit b s2 show ?thesis by (intro quiet) (simp_all add: handle_allocate_def)
    next
      case (Inr port)
      with True assms admit b have c: "allocate_commit cr now client sender m auth port s2 = (r, effects, s')"
        by (simp add: handle_allocate_def)
      have "hm_get (ts_allocations s2) client = None" "within_quota client s2"
        using s1(2) True s2 within_quota_same [OF s2] by (simp_all add: same_allocations_def)
      from request_step_from [OF commit_step [OF c this] s2] show ?thesis .
    qed
  qed
qed

lemma refresh_step:
  assumes "handle_refresh cr now client m auth s = (r, effects, s')"
  shows "request_step (au_username auth) client s effects s'"
proof -
  have quiet: ?thesis if "effects = []" "s' = s" using that by (simp add: unchanged)
  show ?thesis
  proof (cases "request_u32 m LIFETIME")
    case (Inl e)
    with assms show ?thesis by (intro quiet) (simp_all add: handle_refresh_def)
  next
    case (Inr requested)
    note lifetime = this
    show ?thesis
    proof (cases "\<exists>a. hm_get (ts_allocations s) client = Some a \<and> owned (au_username auth) a")
      case False
      with assms lifetime show ?thesis
        by (intro quiet) (auto simp: handle_refresh_def owned_def split: option.splits)
    next
      case True
      then obtain a where a: "hm_get (ts_allocations s) client = Some a" "owned (au_username auth) a" by auto
      obtain t b where op: "(if requested = Some 0 then (0, ma_allocation a) else refresh now requested (ma_allocation a)) = (t, b)"
        by fastforce
      then have b: "b = ma_allocation a \<or> b = snd (refresh now requested (ma_allocation a))" by (auto split: if_splits)
      let ?s1 = "put_allocation client (a\<lparr>ma_allocation := b\<rparr>) s"
      have "(case lifetime_success cr m t (au_key auth) of Inl e \<Rightarrow> (Inl e, [], ?s1)
          | Inr response \<Rightarrow> if t = 0 then (Inr response, [CancelRelay (ma_relay_port a)],
              ?s1\<lparr>ts_allocations := hm_remove client (ts_allocations ?s1)\<rparr>) else (Inr response, [], ?s1)) = (r, effects, s')"
        using assms lifetime a by (simp add: handle_refresh_def owned_def op Let_def [of "put_allocation client _ s"])
      then consider "effects = []" "s' = ?s1"
        | "effects = [CancelRelay (ma_relay_port a)]" "s' = ?s1\<lparr>ts_allocations := hm_remove client (ts_allocations ?s1)\<rparr>"
        by (auto split: sum.splits if_splits)
      then show ?thesis
      proof cases
        case 1
        have "al_username b = au_username auth" using b a(2) by (auto simp: owned_def refresh_def Let_def)
        moreover have "allocation_safe (ts_configuration s) (ma_relay_port a) b" if "managed_inv (ts_configuration s) a"
          using b that by (auto simp: managed_inv_def intro: allocation_safe_refresh)
        ultimately show ?thesis using 1 updated [OF a, of b s'] by simp
      next
        case 2
        have "hm_remove client (hm_insert client (a\<lparr>ma_allocation := b\<rparr>) (ts_allocations s)) = hm_remove client (ts_allocations s)"
          by (simp add: AList.delete_update_same)
        with 2 have "same_allocations (s\<lparr>ts_allocations := hm_remove client (ts_allocations s)\<rparr>) s'"
          by (simp add: same_allocations_def)
        with 2 released [OF a, of s'] show ?thesis by simp
      qed
    qed
  qed
qed

lemma on_allocation_step:
  assumes h: "on_allocation cr client m auth operate bad s = (r, effects, s')"
    and keeps: "\<And>a q b. operate a = (q, b) \<Longrightarrow> al_username b = al_username a"
    and safe: "\<And>port a q b. allocation_safe (ts_configuration s) port a \<Longrightarrow> operate a = (q, b) \<Longrightarrow>
      allocation_safe (ts_configuration s) port b"
  shows "request_step (au_username auth) client s effects s'"
proof (cases "\<exists>a. hm_get (ts_allocations s) client = Some a \<and> owned (au_username auth) a")
  case False
  with h have "effects = []" "s' = s" by (auto simp: on_allocation_def owned_def split: option.splits)
  then show ?thesis by (simp add: unchanged)
next
  case True
  then obtain a where a: "hm_get (ts_allocations s) client = Some a" "owned (au_username auth) a" by auto
  obtain q b where op: "operate (ma_allocation a) = (q, b)" by fastforce
  have "effects = []" "s' = put_allocation client (a\<lparr>ma_allocation := b\<rparr>) s"
    using h a by (auto simp: on_allocation_def owned_def op Let_def)
  moreover have "al_username b = au_username auth" using keeps [OF op] a(2) by (simp add: owned_def)
  moreover have "allocation_safe (ts_configuration s) (ma_relay_port a) b" if "managed_inv (ts_configuration s) a"
    by (rule safe [OF _ op]) (use that in \<open>simp add: managed_inv_def\<close>)
  ultimately show ?thesis using updated [OF a, of b s'] by simp
qed

lemma expire_username [simp]: "al_username (expire_children now a) = al_username a"
  by (simp add: expire_children_def)

lemma create_permissions_username: "create_permissions now peers a = (q, b) \<Longrightarrow> al_username b = al_username a"
  by (erule create_permissions_cases) simp_all

lemma bind_channel_username:
  assumes "bind_channel now n peer a = (q, b)"
  shows "al_username b = al_username a"
  using assms by (cases rule: bind_channel_cases) (simp_all add: create_permissions_username)

lemma create_permission_step:
  assumes "handle_create_permission cr now client m auth s = (r, effects, s')"
  shows "request_step (au_username auth) client s effects s'"
proof -
  consider "effects = []" "s' = s"
    | peers where "on_allocation cr client m auth (create_permissions now peers) (\<lambda>_. False) s = (r, effects, s')"
    using assms by (auto simp: handle_create_permission_def split: sum.splits if_splits)
  then show ?thesis
  proof cases
    case 2
    then show ?thesis
      by (rule on_allocation_step) (auto intro: create_permissions_username allocation_safe_create)
  qed (simp add: unchanged)
qed

lemma channel_bind_step:
  assumes "handle_channel_bind cr now client m auth s = (r, effects, s')"
  shows "request_step (au_username auth) client s effects s'"
proof -
  consider "effects = []" "s' = s"
    | n peer where "safe_peer (ts_configuration s) peer"
      "on_allocation cr client m auth (bind_channel now n peer) channel_bad_request s = (r, effects, s')"
    using assms by (auto simp: handle_channel_bind_def split: sum.splits option.splits if_splits)
  then show ?thesis
  proof cases
    case 2
    from 2(2) show ?thesis
      by (rule on_allocation_step) (use 2(1) in \<open>auto intro: bind_channel_username allocation_safe_bind\<close>)
  qed (simp add: unchanged)
qed

lemma authenticated_request_step:
  assumes "handle_authenticated_request cr io ck client sender m s = (r, effects, s')"
  shows "case server_authenticate cr ck s (sock_ip (client_address client)) m of
       Inl _ \<Rightarrow> effects = [] \<and> same_allocations s s'
     | Inr auth \<Rightarrow> request_step (au_username auth) client s effects s'"
proof (cases "server_authenticate cr ck s (sock_ip (client_address client)) m")
  case (Inl e)
  with assms show ?thesis by (auto simp: handle_authenticated_request_def Let_def)
next
  case (Inr auth)
  note h = assms [unfolded handle_authenticated_request_def Inr sum.case Let_def]
  have "request_step (au_username auth) client s effects s'"
    using h by (auto intro: unchanged allocate_step refresh_step create_permission_step channel_bind_step split: if_splits)
  with Inr show ?thesis by simp
qed

lemma same_allocations_trans: "same_allocations s s1 \<Longrightarrow> same_allocations s1 s2 \<Longrightarrow> same_allocations s s2"
  by (simp add: same_allocations_def)

lemma data_step_to:
  assumes "data_step now client s effects s1" and "same_allocations s1 s'"
  shows "data_step now client s effects s'"
  using assms(1) by cases (blast intro: data_step.intros same_allocations_trans assms(2))+

lemma request_step_to:
  assumes "request_step username client s effects s1" and "same_allocations s1 s'"
  shows "request_step username client s effects s'"
  using assms(1)
proof cases
  case unchanged
  then show ?thesis by (simp add: request_step.unchanged same_allocations_trans [OF _ assms(2)])
next
  case (created a)
  with request_step.created [OF created(2-5) same_allocations_trans [OF created(6) assms(2)]] show ?thesis by simp
next
  case (updated a b)
  with request_step.updated [OF updated(2-5) same_allocations_trans [OF updated(6) assms(2)]] show ?thesis by simp
next
  case (released a)
  with request_step.released [OF released(2,3) same_allocations_trans [OF released(4) assms(2)]] show ?thesis by simp
qed

definition replies :: "client_sender \<Rightarrow> turn_effect list \<Rightarrow> bool" where
  "replies sender effects \<longleftrightarrow> set effects \<subseteq> range (ToClient sender)"

definition respond_with :: "server_io \<Rightarrow> client_sender \<Rightarrow> (server_error, bytes) result \<times> turn_effect list \<times> turn_server \<Rightarrow>
    (server_error, unit) result \<times> turn_effect list \<times> turn_server" where
  "respond_with io sender = (\<lambda>(r, effects, s).
     case r of
       Inl e \<Rightarrow> (Inl e, effects, s)
     | Inr response \<Rightarrow> let (sent, out) = client_send io sender response in (sent, effects @ out, s))"

lemma respond_with_result:
  assumes "respond_with io sender (r, es, s1) = (q, effects, s')"
  obtains out where "effects = es @ out" "replies sender out" "s' = s1"
proof (cases r)
  case (Inl e)
  with assms that [of "[]"] show ?thesis by (simp add: respond_with_def replies_def)
next
  case (Inr response)
  with assms have "effects = es @ [ToClient sender (wire_frame sender response)]" "s' = s1"
    by (auto simp: respond_with_def client_send_def)
  with that show ?thesis by (simp add: replies_def)
qed

text \<open>One frame of a client.\<close>

inductive frame_step :: "server_crypto \<Rightarrow> clocks \<Rightarrow> client_key \<Rightarrow> client_sender \<Rightarrow> bytes \<Rightarrow> turn_server \<Rightarrow>
    turn_effect list \<Rightarrow> turn_server \<Rightarrow> bool"
  for cr :: server_crypto and ck :: clocks and client :: client_key and sender :: client_sender and d :: bytes
    and s :: turn_server where
  data: "data_step (ck_elapsed ck) client s effects s' \<Longrightarrow> frame_step cr ck client sender d s effects s'"
| answer: "same_allocations s s' \<Longrightarrow> replies sender out \<Longrightarrow> frame_step cr ck client sender d s out s'"
| request: "message_parse d = Inr m \<Longrightarrow> mt_class (ms_kind m) = Request \<Longrightarrow>
     server_authenticate cr ck s (sock_ip (client_address client)) m = Inr auth \<Longrightarrow>
     request_step (au_username auth) client s effects s' \<Longrightarrow> replies sender out \<Longrightarrow>
     frame_step cr ck client sender d s (effects @ out) s'"

lemma frame_step_to:
  assumes "frame_step cr ck client sender d s effects s1" and "same_allocations s1 s'"
  shows "frame_step cr ck client sender d s effects s'"
  using assms(1)
  by cases (blast intro: frame_step.intros same_allocations_trans [OF _ assms(2)] data_step_to [OF _ assms(2)]
      request_step_to [OF _ assms(2)])+

lemma stun_step:
  assumes inv: "server_inv s" and h: "handle_stun cr io ck client sender d s = (r, effects, s')"
  shows "frame_step cr ck client sender d s effects s'"
proof (cases "message_parse d")
  case (Inl e)
  with h show ?thesis by (auto simp: handle_stun_def replies_def intro: answer)
next
  case (Inr m)
  note h = h [unfolded handle_stun_def Inr sum.case Let_def, folded respond_with_def [unfolded Let_def]]
  let ?kind = "ms_kind m"
  consider "respond_with io sender (binding_response cr m (client_address client), [], s) = (r, effects, s')"
    | "handle_send_indication io (ck_elapsed ck) client m s = (r, effects, s')"
    | "mt_class ?kind = Request" "respond_with io sender (handle_authenticated_request cr io ck client sender m s) = (r, effects, s')"
    | "effects = []" "s' = s"
    using h by (auto split: if_splits)
  then show ?thesis
  proof cases
    case 1
    then obtain out where "effects = [] @ out" "replies sender out" "s' = s" by (rule respond_with_result)
    then show ?thesis by (simp add: answer)
  next
    case 2
    then show ?thesis by (intro data send_indication_step [OF inv])
  next
    case 3
    obtain q es s1 where a: "handle_authenticated_request cr io ck client sender m s = (q, es, s1)" by (metis prod_cases3)
    obtain out where out: "effects = es @ out" "replies sender out" "s' = s1"
      using 3(2) unfolding a by (rule respond_with_result)
    show ?thesis
    proof (cases "server_authenticate cr ck s (sock_ip (client_address client)) m")
      case (Inl e)
      with authenticated_request_step [OF a] out show ?thesis by (simp add: answer)
    next
      case (Inr auth)
      with authenticated_request_step [OF a] have "request_step (au_username auth) client s es s1" by simp
      from request [OF \<open>message_parse d = Inr m\<close> 3(1) Inr this out(2)] out(1,3) show ?thesis by simp
    qed
  qed (simp_all add: answer replies_def)
qed

lemma client_frame_step:
  assumes "server_inv s" and "handle_client_frame cr io ck client sender d s = (effects, s')"
  shows "frame_step cr ck client sender d s effects s'"
proof -
  obtain r s1 where "(if d \<noteq> [] \<and> hd d AND 0xc0 = 0x40 then handle_channel_data io (ck_elapsed ck) client d s
      else handle_stun cr io ck client sender d s) = (r, effects, s1)" and s': "same_allocations s1 s'"
    using assms(2) by (auto simp: handle_client_frame_def split: prod.splits if_splits)
  then have "frame_step cr ck client sender d s effects s1"
    by (auto intro: data channel_data_step [OF assms(1)] stun_step [OF assms(1)] split: if_splits)
  then show ?thesis using s' by (rule frame_step_to)
qed

section \<open>Histories\<close>

datatype service_call =
    ClientFrame server_io clocks client_key client_sender bytes
  | PeerDatagram server_io channel_order "transaction_id option" duration client_key socket_addr bytes
  | Maintenance "(client_key \<times> managed_allocation) list \<Rightarrow> (client_key \<times> managed_allocation) list" duration
  | StreamClosed client_key

fun service_step :: "server_crypto \<Rightarrow> service_call \<Rightarrow> turn_server \<Rightarrow> turn_effect list \<times> turn_server" where
  "service_step cr (ClientFrame io ck client sender d) s = handle_client_frame cr io ck client sender d s"
| "service_step cr (PeerDatagram io order random now client peer data) s =
     relay_peer_datagram cr io order random now client peer data s"
| "service_step cr (Maintenance order now) s = remove_expired order now s"
| "service_step cr (StreamClosed client) s = control_stream_closed client s"

primrec service_run :: "server_crypto \<Rightarrow> service_call list \<Rightarrow> turn_server \<Rightarrow> turn_effect list \<times> turn_server" where
  "service_run cr [] s = ([], s)"
| "service_run cr (c # calls) s =
     (let (effects, s1) = service_step cr c s; (later, s2) = service_run cr calls s1 in (effects @ later, s2))"

definition from_ip :: "ip_addr \<Rightarrow> (client_key, managed_allocation) hash_map \<Rightarrow> nat" where
  "from_ip ip m = length (filter (\<lambda>(key, _). sock_ip (client_address key) = ip) m)"

definition quotas :: "turn_server \<Rightarrow> bool" where
  "quotas s \<longleftrightarrow>
     length (ts_allocations s) \<le> sc_maximum_allocations (ts_configuration s) \<and>
     (\<forall>ip. from_ip ip (ts_allocations s) \<le> sc_maximum_allocations_per_ip (ts_configuration s))"

lemma from_ip_existing:
  "hm_contains m k \<Longrightarrow> from_ip ip (hm_insert k a m) = from_ip ip m \<and> length (hm_insert k a m) = length m"
proof (induction m)
  case (Cons x m)
  obtain k' v where "x = (k', v)" by fastforce
  with Cons show ?case by (auto simp: from_ip_def hm_contains_def)
qed (simp add: hm_contains_def)

lemma from_ip_remove: "from_ip ip (hm_remove k m) \<le> from_ip ip m"
proof (induction m)
  case (Cons x m)
  obtain k' v where "x = (k', v)" by fastforce
  with Cons show ?case by (auto simp: from_ip_def)
qed (simp add: from_ip_def)

lemma quotas_same: "same_allocations s s' \<Longrightarrow> quotas s' = quotas s"
  by (simp add: same_allocations_def quotas_def)

lemma quotas_put: "hm_get (ts_allocations s) k = Some a \<Longrightarrow> quotas (put_allocation k b s) = quotas s"
  using from_ip_existing [of "ts_allocations s" k] by (simp add: quotas_def hm_contains_def)

lemma quotas_create:
  assumes "quotas s" and "within_quota client s" and "hm_get (ts_allocations s) client = None"
  shows "quotas (put_allocation client a s)"
proof -
  have "hm_insert client a (ts_allocations s) = ts_allocations s @ [(client, a)]"
    using assms(3) by (simp add: hm_insert_fresh map_of_eq_None_iff)
  then show ?thesis using assms(1,2) by (auto simp: quotas_def within_quota_def from_ip_def)
qed

lemma quotas_remove:
  assumes "quotas s" and "ts_configuration s' = ts_configuration s" and "ts_allocations s' = hm_remove k (ts_allocations s)"
  shows "quotas s'"
  using assms hm_length_remove [of k "ts_allocations s"] from_ip_remove [of _ k "ts_allocations s"]
  by (auto simp: quotas_def intro: order_trans)

lemma data_step_quotas: "data_step now client s effects s' \<Longrightarrow> quotas s \<Longrightarrow> quotas s'"
  by (erule data_step.cases) (auto simp: quotas_same dest: quotas_put)

lemma request_step_quotas:
  assumes "request_step username client s effects s'" and "quotas s"
  shows "quotas s'"
  using assms(1)
proof cases
  case unchanged
  then show ?thesis using assms(2) by (simp add: quotas_same)
next
  case (created a)
  then show ?thesis using quotas_create [OF assms(2) created(3,2)] by (simp add: quotas_same)
next
  case (updated a b)
  then show ?thesis using quotas_put [OF updated(2)] assms(2) by (simp add: quotas_same)
next
  case (released a)
  then show ?thesis by (intro quotas_remove [OF assms(2), of s' client]) (simp_all add: same_allocations_def)
qed

lemma request_step_inv:
  assumes "request_step username client s effects s'" and "server_inv s"
  shows "server_inv s'"
  using assms(1)
proof cases
  case unchanged
  then show ?thesis using assms(2) by (simp add: server_inv_same)
next
  case (created a)
  then show ?thesis using server_inv_put [OF assms(2) created(5)] by (simp add: server_inv_same)
next
  case (updated a b)
  have "managed_inv (ts_configuration s) (a\<lparr>ma_allocation := b\<rparr>)"
    using server_inv_get [OF assms(2) updated(2)] updated(5) by (auto intro: managed_inv_allocation)
  from server_inv_put [OF assms(2) this] updated(6) show ?thesis by (simp add: server_inv_same)
next
  case (released a)
  then show ?thesis using assms(2) by (simp add: server_inv_def allocations_inv_remove same_allocations_def)
qed

definition service_ok :: "turn_server \<Rightarrow> bool" where
  "service_ok s \<longleftrightarrow> server_inv s \<and> quotas s"

lemma service_ok_same: "same_allocations s s' \<Longrightarrow> service_ok s' = service_ok s"
  by (simp add: service_ok_def server_inv_same quotas_same)

lemma frame_step_ok:
  assumes "frame_step cr ck client sender d s effects s'" and "service_ok s"
  shows "service_ok s'"
  using assms(1)
proof cases
  case data
  then show ?thesis using assms(2) by (auto simp: service_ok_def intro: data_step_inv data_step_quotas)
next
  case answer
  then show ?thesis using assms(2) by (simp add: service_ok_same)
next
  case (request m auth)
  then show ?thesis using assms(2) by (auto simp: service_ok_def intro: request_step_inv request_step_quotas)
qed

lemma service_ok_removes:
  "service_ok s \<Longrightarrow> service_ok (s\<lparr>ts_allocations := fold hm_remove ks (ts_allocations s)\<rparr>)"
proof (induction ks arbitrary: s)
  case (Cons k ks)
  let ?s = "s\<lparr>ts_allocations := hm_remove k (ts_allocations s)\<rparr>"
  have "service_ok ?s"
    using Cons.prems quotas_remove [of s ?s k] by (simp add: service_ok_def server_inv_def allocations_inv_remove)
  from Cons.IH [OF this] show ?case by simp
qed simp

lemma service_step_ok:
  assumes "service_ok s" and "service_step cr c s = (effects, s')"
  shows "service_ok s'"
proof (cases c)
  case (ClientFrame io ck client sender d)
  with assms have "frame_step cr ck client sender d s effects s'" by (auto simp: service_ok_def intro: client_frame_step)
  then show ?thesis using assms(1) by (rule frame_step_ok)
next
  case (PeerDatagram io order random now client peer data)
  with assms have "data_step now client s effects s'" by (auto simp: service_ok_def intro: peer_datagram_step)
  with assms(1) show ?thesis by (auto simp: service_ok_def intro: data_step_inv data_step_quotas)
next
  case (Maintenance order now)
  with assms service_ok_removes [OF assms(1)] show ?thesis by (auto simp: remove_expired_def Let_def)
next
  case (StreamClosed client)
  with assms service_ok_removes [OF assms(1), of "[client]"] show ?thesis
    by (auto simp: control_stream_closed_def split: option.splits)
qed

lemma service_run_ok: "service_ok s \<Longrightarrow> service_run cr calls s = (effects, s') \<Longrightarrow> service_ok s'"
proof (induction calls arbitrary: s effects)
  case (Cons c calls)
  obtain es s1 where c: "service_step cr c s = (es, s1)" by fastforce
  with Cons.prems Cons.IH [OF service_step_ok [OF Cons.prems(1) c]] show ?case by (auto split: prod.splits)
qed simp

lemma server_new_ok: "server_new cr sockets c = Inr s \<Longrightarrow> service_ok s"
  by (auto simp: server_new_def bind_r_eq_Inr service_ok_def server_inv_def allocations_inv_def quotas_def from_ip_def
      split: if_splits)

section \<open>Relay tasks\<close>

text \<open>The ports whose relay task was started and not yet told to stop.\<close>

fun relay_balance :: "turn_effect \<Rightarrow> u16 multiset \<Rightarrow> u16 multiset" where
  "relay_balance (StartRelay client port) ports = add_mset port ports"
| "relay_balance (CancelRelay port) ports = ports - {#port#}"
| "relay_balance _ ports = ports"

definition live_ports :: "(client_key, managed_allocation) hash_map \<Rightarrow> u16 multiset" where
  "live_ports m = image_mset (\<lambda>x. ma_relay_port (snd x)) (mset m)"

lemma live_ports_existing:
  "hm_get m k = Some a \<Longrightarrow> ma_relay_port b = ma_relay_port a \<Longrightarrow> live_ports (hm_insert k b m) = live_ports m"
proof (induction m)
  case (Cons x m)
  obtain k' v where "x = (k', v)" by fastforce
  with Cons show ?case by (auto simp: live_ports_def split: if_splits)
qed simp

lemma live_ports_fresh:
  "hm_get m k = None \<Longrightarrow> live_ports (hm_insert k a m) = add_mset (ma_relay_port a) (live_ports m)"
  by (simp add: hm_insert_fresh map_of_eq_None_iff live_ports_def)

lemma live_ports_remove:
  "hm_wf m \<Longrightarrow> hm_get m k = Some a \<Longrightarrow> live_ports (hm_remove k m) = live_ports m - {#ma_relay_port a#}"
proof (induction m)
  case (Cons x m)
  obtain k' v where x: "x = (k', v)" by fastforce
  show ?case
  proof (cases "k' = k")
    case True
    with Cons.prems x have "k \<notin> fst ` set m" "v = a" by auto
    with True x show ?thesis by (simp add: live_ports_def)
  next
    case False
    with Cons x have "live_ports (hm_remove k m) = live_ports m - {#ma_relay_port a#}" "(k, a) \<in> set m"
      by (auto dest: map_of_SomeD)
    moreover then have "ma_relay_port a \<in># live_ports m" by (force simp: live_ports_def)
    ultimately show ?thesis using False x by (simp add: live_ports_def)
  qed
qed simp

lemma balance_replies: "replies sender out \<Longrightarrow> fold relay_balance out ports = ports"
proof (induction out)
  case (Cons e out)
  then show ?case by (auto simp: replies_def)
qed simp

lemma balance_data:
  assumes "data_step now client s effects s'"
  shows "fold relay_balance effects (live_ports (ts_allocations s)) = live_ports (ts_allocations s')"
  using assms
proof cases
  case ignored
  then show ?thesis by (simp add: same_allocations_def)
next
  case (dropped a l)
  with live_ports_existing [OF dropped(2), of "touch now l a"] show ?thesis by (simp add: same_allocations_def touch_def)
next
  case (relayed a data l peer effect)
  with live_ports_existing [OF relayed(2), of "touch now l a"] show ?thesis by (auto simp: same_allocations_def touch_def)
qed

lemma server_inv_wf: "server_inv s \<Longrightarrow> hm_wf (ts_allocations s)"
  by (simp add: server_inv_def allocations_inv_def)

lemma balance_request:
  assumes "request_step username client s effects s'" and "hm_wf (ts_allocations s)"
  shows "fold relay_balance effects (live_ports (ts_allocations s)) = live_ports (ts_allocations s')"
  using assms(1)
proof cases
  case unchanged
  then show ?thesis by (simp add: same_allocations_def)
next
  case (created a)
  with live_ports_fresh [OF created(2)] show ?thesis by (simp add: same_allocations_def)
next
  case (updated a b)
  with live_ports_existing [OF updated(2), of "a\<lparr>ma_allocation := b\<rparr>"] show ?thesis by (simp add: same_allocations_def)
next
  case (released a)
  with live_ports_remove [OF assms(2) released(2)] show ?thesis by (simp add: same_allocations_def)
qed

lemma balance_removes:
  assumes "hm_wf m" and "distinct (map fst gone)" and "set gone \<subseteq> set m"
  shows "fold relay_balance (map (\<lambda>(client, a). CancelRelay (ma_relay_port a)) gone) (live_ports m) =
     live_ports (fold hm_remove (map fst gone) m)"
  using assms
proof (induction gone arbitrary: m)
  case (Cons x gone)
  obtain k a where x: "x = (k, a)" by fastforce
  with Cons.prems have "hm_get m k = Some a" by (simp add: hm_wf_get_iff)
  note l = live_ports_remove [OF Cons.prems(1) this]
  have "set gone \<subseteq> set (hm_remove k m)" using Cons.prems(2,3) x by (force simp: AList.delete_eq)
  from Cons.IH [OF hm_remove_wf [OF Cons.prems(1)] _ this] Cons.prems(2) l x show ?case by simp
qed simp

fun fair_call :: "service_call \<Rightarrow> bool" where
  "fair_call (Maintenance order now) \<longleftrightarrow> (\<forall>xs. mset (order xs) = mset xs)"
| "fair_call _ \<longleftrightarrow> True"

lemma balance_step:
  assumes "server_inv s" and "service_step cr c s = (effects, s')" and "fair_call c"
  shows "fold relay_balance effects (live_ports (ts_allocations s)) = live_ports (ts_allocations s')"
proof (cases c)
  case (ClientFrame io ck client sender d)
  with assms(2) have "frame_step cr ck client sender d s effects s'" using client_frame_step [OF assms(1)] by simp
  then show ?thesis
  proof cases
    case data
    then show ?thesis by (rule balance_data)
  next
    case answer
    then show ?thesis by (simp add: balance_replies same_allocations_def)
  next
    case (request m auth es out)
    with balance_request [OF request(5) server_inv_wf [OF assms(1)]] show ?thesis by (simp add: balance_replies)
  qed
next
  case (PeerDatagram io order random now client peer data)
  with assms have "data_step now client s effects s'" by (auto intro: peer_datagram_step)
  then show ?thesis by (rule balance_data)
next
  case (Maintenance order now)
  note wf = server_inv_wf [OF assms(1)]
  have perm: "mset (order (ts_allocations s)) = mset (ts_allocations s)" using assms(3) Maintenance by simp
  then have "distinct (map fst (order (ts_allocations s)))" using wf by (metis mset_eq_imp_distinct_iff mset_map)
  with balance_removes [OF wf, of "filter (\<lambda>(client, a). expired now (ma_allocation a)) (order (ts_allocations s))"]
    mset_eq_setD [OF perm] assms(2) Maintenance
  show ?thesis by (auto simp: remove_expired_def Let_def distinct_map_filter)
next
  case (StreamClosed client)
  with assms(2) live_ports_remove [OF server_inv_wf [OF assms(1)]] show ?thesis
    by (auto simp: control_stream_closed_def split: option.splits)
qed

lemma balance_run:
  assumes "service_ok s" and "service_run cr calls s = (effects, s')" and "list_all fair_call calls"
  shows "fold relay_balance effects (live_ports (ts_allocations s)) = live_ports (ts_allocations s')"
  using assms
proof (induction calls arbitrary: s effects)
  case (Cons c calls)
  obtain es s1 where c: "service_step cr c s = (es, s1)" by fastforce
  from Cons.prems(2) c obtain later where r: "service_run cr calls s1 = (later, s')" and e: "effects = es @ later"
    by (auto split: prod.splits)
  have "fold relay_balance es (live_ports (ts_allocations s)) = live_ports (ts_allocations s1)"
    using Cons.prems by (intro balance_step [OF _ c]) (simp_all add: service_ok_def)
  with Cons.IH [OF service_step_ok [OF Cons.prems(1) c] r] Cons.prems(3) e show ?case by simp
qed simp


section \<open>Two Allocate requests at once\<close>

text \<open>The requests of two connections are handled by two tasks. The quota is checked in the first section under
  the lock and the allocation is inserted in the second one, so that two clients that are both admitted while
  one place is left are both served: the limit of allocations is exceeded. The histories above handle one
  request after the other.\<close>

lemma allocate_commit_length:
  assumes "allocate_commit cr now client sender m auth port s = (Inr response, effects, s')"
    and "effects \<noteq> []"
  shows "length (ts_allocations s') = Suc (length (ts_allocations s))" and "ts_configuration s' = ts_configuration s"
  using assms by (auto simp: allocate_commit_def put_allocation_def count_def hm_length_insert Let_def
      split: sum.splits if_splits)

lemma quota_race:
  assumes "allocate_admit cr c1 m1 a1 s = (Admitted, s)" and "allocate_admit cr c2 m2 a2 s = (Admitted, s)"
    and "allocate_commit cr now1 c1 sender1 m1 a1 p1 s = (Inr r1, [StartRelay c1 p1], s1)"
    and "allocate_commit cr now2 c2 sender2 m2 a2 p2 s1 = (Inr r2, [StartRelay c2 p2], s2)"
    and "Suc (length (ts_allocations s)) = sc_maximum_allocations (ts_configuration s)"
  shows "length (ts_allocations s2) > sc_maximum_allocations (ts_configuration s2)"
  using allocate_commit_length [OF assms(3)] allocate_commit_length [OF assms(4)] assms(5) by simp

end
