(* ===== verification/Turn_Exchange.thy ===== *)
theory Turn_Exchange
  imports Turn_Service
begin

text \<open>
  The TURN server seen by a client and by its operator: requests as a client builds them are accepted, an
  exchange of an allocation, a permission and data reaches the peer and comes back, and the properties of the
  server over its histories.
\<close>

section \<open>Requests of a client\<close>

definition turn_request ::
    "u16 \<Rightarrow> (attribute_type \<times> bytes) list \<Rightarrow> rust_string \<Rightarrow> rust_string \<Rightarrow> rust_string \<Rightarrow> bytes \<Rightarrow> transaction_id \<Rightarrow> message_builder" where
  "turn_request method attributes username realm nonce key t =
     \<lparr>mb_message_type = \<lparr>mt_method = method, mt_class = Request\<rparr>, mb_transaction_id = t,
      mb_attributes = attributes @ [(USERNAME, str_bytes username), (REALM, str_bytes realm), (NONCE, str_bytes nonce)],
      mb_integrity = Some (Sha1Key key), mb_fingerprint = True\<rparr>"

definition request_attributes :: "(attribute_type \<times> bytes) list \<Rightarrow> bool" where
  "request_attributes attributes \<longleftrightarrow>
     (\<forall>a\<in>set attributes. plain_attribute a \<and> fst a \<notin> {USERNAME, REALM, NONCE} \<and> is_known (fst a))"

text \<open>What a client holds: a user name with its key, and a nonce of the server that is still valid.\<close>

definition credentialed :: "server_crypto \<Rightarrow> clocks \<Rightarrow> turn_server \<Rightarrow> ip_addr \<Rightarrow> rust_string \<Rightarrow> rust_string \<Rightarrow> bytes \<Rightarrow> bool" where
  "credentialed cr ck s ip username nonce key \<longleftrightarrow>
     (\<forall>c\<in>set username \<union> set (sc_realm (ts_configuration s)) \<union> set nonce. is_scalar c) \<and>
     credential_key cr (ck_credential ck) s username = Some key \<and>
     nonce_validate (sv_nonce cr) (ts_nonce s) nonce (ck_nonce ck) ip = Inr ()"

lemma credentialed_same:
  assumes "ts_configuration s' = ts_configuration s" and "ts_nonce s' = ts_nonce s" and "ts_credential_key s' = ts_credential_key s"
  shows "credentialed cr ck s' ip username nonce key = credentialed cr ck s ip username nonce key"
  unfolding credentialed_def credential_key_def assms by (rule refl)

lemma attribute_value:
  assumes "map_of (content m) t = Some v" and "t \<notin> {MESSAGE_INTEGRITY, MESSAGE_INTEGRITY_SHA256, FINGERPRINT}"
  obtains a where "attribute m t = Some a" and "ra_value a = v"
  using attribute_content [OF assms(2), of m] assms(1) by (cases "attribute m t") auto

lemma attribute_none:
  assumes "map_of (content m) t = None" and "t \<notin> {MESSAGE_INTEGRITY, MESSAGE_INTEGRITY_SHA256, FINGERPRINT}"
  shows "attribute m t = None"
  using attribute_content [OF assms(2), of m] assms(1) by simp

lemma utf8_attribute_value:
  assumes "map_of (content m) t = Some (str_bytes x)" and "t \<notin> {MESSAGE_INTEGRITY, MESSAGE_INTEGRITY_SHA256, FINGERPRINT}"
    and "\<forall>c\<in>set x. is_scalar c"
  shows "utf8_attribute m t = Inr (Some x)"
  by (rule attribute_value [OF assms(1,2)]) (simp add: utf8_attribute_def convert_attribute_def from_utf8_str_bytes [OF assms(3)])

lemma known_attributes:
  assumes "\<forall>a\<in>set (content m). is_known (fst a)"
  shows "unknown_required_attributes m = []"
proof -
  have "is_known (ra_type a)" if "a \<in> set (ms_attributes m)" for a
  proof (cases "ra_type a \<in> {MESSAGE_INTEGRITY, MESSAGE_INTEGRITY_SHA256, FINGERPRINT}")
    case True
    then show ?thesis by (auto simp: is_known_def)
  next
    case False
    with that have "(ra_type a, ra_value a) \<in> set (content m)" by (auto simp: content_def)
    with assms show ?thesis by force
  qed
  then show ?thesis by (auto simp: unknown_required_attributes_def)
qed

lemma turn_request_accepted:
  assumes build: "message_build (sv_stun cr) (turn_request method attributes username (sc_realm (ts_configuration s)) nonce key t) = Inr bs"
    and meth: "unat method < 2 ^ 12" and attrs: "request_attributes attributes"
    and cred: "credentialed cr ck s ip username nonce key"
  obtains m where "message_parse bs = Inr m" and "ms_kind m = \<lparr>mt_method = method, mt_class = Request\<rparr>"
    and "ms_transaction_id m = t" and "\<And>u. u \<notin> {USERNAME, REALM, NONCE} \<Longrightarrow> map_of (content m) u = map_of attributes u"
    and "\<And>u. u \<notin> {USERNAME, REALM, NONCE} \<Longrightarrow> filter (\<lambda>a. fst a = u) (content m) = filter (\<lambda>a. fst a = u) attributes"
    and "server_authenticate cr ck s ip m = Inr \<lparr>au_username = username, au_key = key\<rparr>"
    and "unknown_required_attributes m = []"
proof -
  let ?realm = "sc_realm (ts_configuration s)"
  let ?b = "turn_request method attributes username ?realm nonce key t"
  let ?own = "[(USERNAME, str_bytes username), (REALM, str_bytes ?realm), (NONCE, str_bytes nonce)]"
  have b: "mb_message_type ?b = \<lparr>mt_method = method, mt_class = Request\<rparr>" "mb_transaction_id ?b = t"
    "mb_attributes ?b = attributes @ ?own" "mb_integrity ?b = Some (Sha1Key key)" "mb_fingerprint ?b"
    by (simp_all add: turn_request_def)
  have "plain_attribute a" if "a \<in> set ?own" for a
    using that by (auto simp: plain_attribute_def check_attribute_def)
  then have plain: "\<forall>a\<in>set (mb_attributes ?b). plain_attribute a"
    using attrs unfolding b(3) request_attributes_def by auto
  obtain m where m: "message_parse bs = Inr m" and rb: "reads_back (sv_stun cr) ?b m"
    by (rule stun_build_parse [OF build _ plain]) (use meth in \<open>simp_all add: b(1)\<close>)
  have c: "content m = attributes @ ?own" using reads_back_content [OF rb] b(3) by simp
  have kind: "ms_kind m = \<lparr>mt_method = method, mt_class = Request\<rparr>" "ms_transaction_id m = t"
    and ok: "verify_message_integrity_sha1 (sv_stun cr) m key = Inr ()" "verify_fingerprint (sv_stun cr) m = Inr ()"
    using rb by (simp_all add: reads_back_def b)
  have other: "map_of attributes u = None" if "u \<in> {USERNAME, REALM, NONCE}" for u
    using attrs that by (force simp: request_attributes_def map_of_eq_None_iff)
  have own: "map_of (content m) USERNAME = Some (str_bytes username)" "map_of (content m) REALM = Some (str_bytes ?realm)"
    "map_of (content m) NONCE = Some (str_bytes nonce)"
    using other [of USERNAME] other [of REALM] other [of NONCE] unfolding c by (simp_all add: map_add_Some_iff)
  have scalar: "\<forall>c\<in>set username. is_scalar c" "\<forall>c\<in>set ?realm. is_scalar c" "\<forall>c\<in>set nonce. is_scalar c"
    using cred by (auto simp: credentialed_def)
  have "msg_username m = Inr (Some username)" "msg_realm m = Inr (Some ?realm)" "msg_nonce m = Inr (Some nonce)"
    unfolding msg_username_def msg_realm_def msg_nonce_def
    by (rule utf8_attribute_value [OF own(1) _ scalar(1)], simp, rule utf8_attribute_value [OF own(2) _ scalar(2)], simp,
        rule utf8_attribute_value [OF own(3) _ scalar(3)], simp)
  then have auth: "server_authenticate cr ck s ip m = Inr \<lparr>au_username = username, au_key = key\<rparr>"
    using cred ok by (simp add: server_authenticate_def present_def credentialed_def)
  have "map_of (content m) u = map_of attributes u" if "u \<notin> {USERNAME, REALM, NONCE}" for u
    using that unfolding c by (auto simp: map_add_def split: option.splits)
  moreover have "filter (\<lambda>a. fst a = u) (content m) = filter (\<lambda>a. fst a = u) attributes" if "u \<notin> {USERNAME, REALM, NONCE}" for u
    using that unfolding c by auto
  moreover have "\<forall>a\<in>set (content m). is_known (fst a)"
    using attrs unfolding c request_attributes_def by (auto simp: is_known_def)
  ultimately show ?thesis using that [OF m kind _ _ auth] known_attributes by blast
qed

section \<open>Allocate\<close>

lemma build_signed:
  assumes "mb_integrity b = Some (Sha1Key key)" and "mb_fingerprint b" and "st_hmac_sha1 (sv_stun cr) key = Some mac"
    and "length (attributes_bytes (mb_attributes b)) < 60000"
  shows "\<exists>d. build_response cr b = Inr d"
proof -
  obtain xs where xs: "built_attributes (sv_stun cr) b = Some xs" and "length (attributes_bytes xs) = length (attributes_bytes (mb_attributes b)) + 32"
    using assms(1-3) by (auto simp: built_attributes_def fingerprint_attribute_def Let_def length_attribute_bytes_word)
  then have "\<exists>d. message_build (sv_stun cr) b = Inr d" using assms(4) by (auto simp: message_build_eq)
  then show ?thesis by (auto simp: build_response_def)
qed

lemma length_encode_xor_address: "length (encode_xor_address a t) \<le> 20" "length (encode_xor_address a t) \<in> {8, 20}"
  by (cases a; simp add: address_mask_def)+

lemma length_attribute_bytes_le: "length (attribute_bytes (t, v)) \<le> length v + 7"
  by (simp add: length_attribute_bytes pad4_def)

lemma allocation_success_built:
  assumes "st_hmac_sha1 (sv_stun cr) key = Some mac"
  shows "\<exists>d. allocation_success cr m relayed mapped lifetime key = Inr d"
proof -
  let ?b = "with_fingerprint (with_integrity_sha1 key (add_software SERVER_SOFTWARE
       (add_raw_attribute LIFETIME (to_be lifetime) (add_xor_mapped_address mapped
         (add_xor_address XOR_RELAYED_ADDRESS relayed
           (builder_new \<lparr>mt_method = ALLOCATE, mt_class = SuccessResponse\<rparr> (ms_transaction_id m)))))))"
  let ?t = "ms_transaction_id m"
  have b: "mb_integrity ?b = Some (Sha1Key key)" "mb_fingerprint ?b"
    "mb_attributes ?b = [(XOR_RELAYED_ADDRESS, encode_xor_address relayed ?t), (XOR_MAPPED_ADDRESS, encode_xor_address mapped ?t),
       (LIFETIME, to_be lifetime), (SOFTWARE, str_bytes SERVER_SOFTWARE)]"
    by (simp_all add: with_fingerprint_def with_integrity_sha1_def add_software_def add_raw_attribute_def
        add_xor_mapped_address_def add_xor_address_def builder_new_def)
  have "length (str_bytes SERVER_SOFTWARE) = 16"
    by (simp add: SERVER_SOFTWARE_def str_lit_def str_bytes_def utf8_char_def)
  then have "length (attributes_bytes (mb_attributes ?b)) < 60000"
    using length_encode_xor_address(1) [of relayed ?t] length_encode_xor_address(1) [of mapped ?t]
      length_attribute_bytes_le [of XOR_RELAYED_ADDRESS "encode_xor_address relayed ?t"]
      length_attribute_bytes_le [of XOR_MAPPED_ADDRESS "encode_xor_address mapped ?t"]
      length_attribute_bytes_le [of LIFETIME "to_be lifetime"] length_attribute_bytes_le [of SOFTWARE "str_bytes SERVER_SOFTWARE"]
    unfolding b(3) by simp
  from build_signed [OF b(1,2) assms this] show ?thesis by (simp add: allocation_success_def)
qed

lemma stun_dispatch:
  assumes "message_parse bs = Inr m"
  shows "handle_client_frame cr io ck client sender bs s =
    (let (r, effects, s1) = handle_stun cr io ck client sender bs s in
     (effects, if is_ok r then s1 else count (\<lambda>x. x\<lparr>me_dropped_datagrams := me_dropped_datagrams x + 1\<rparr>) s1))"
proof -
  have no: "\<not> (bs \<noteq> [] \<and> hd bs AND 0xc0 = 0x40)"
    using stun_frame(2) [OF assms] by (cases bs) simp_all
  show ?thesis unfolding handle_client_frame_def if_not_P [OF no] by (rule refl)
qed

text \<open>A request whose handler answers is answered.\<close>

lemma request_answered:
  assumes m: "message_parse bs = Inr m" "ms_kind m = \<lparr>mt_method = method, mt_class = Request\<rparr>" "method \<noteq> BINDING"
    and h: "handle_authenticated_request cr io ck client sender m s = (Inr response, effects, s1)" and sent: "io_sent io"
  shows "handle_client_frame cr io ck client sender bs s = (effects @ [ToClient sender (wire_frame sender response)], s1)"
  unfolding stun_dispatch [OF m(1)] using m h sent by (simp add: handle_stun_def client_send_def is_ok_def)

definition transport_udp :: "(attribute_type \<times> bytes) list" where
  "transport_udp = [(REQUESTED_TRANSPORT, [17, 0, 0, 0])]"

lemma transport_udp_ok: "request_attributes transport_udp"
  by (simp add: request_attributes_def transport_udp_def plain_attribute_def check_attribute_def require_len_def is_known_def)

lemma allocate_served:
  assumes build: "message_build (sv_stun cr) (turn_request ALLOCATE transport_udp username (sc_realm (ts_configuration s)) nonce key t) = Inr bs"
    and cred: "credentialed cr ck s (sock_ip (client_address client)) username nonce key"
    and mac: "st_hmac_sha1 (sv_stun cr) key = Some mac" and sent: "io_sent io"
    and free: "hm_get (ts_allocations s) client = None" "within_quota client s"
    and port: "fst (bind_relay_socket io s) = Inr port"
  obtains response a s' where
    "handle_client_frame cr io ck client sender bs s = ([StartRelay client port, ToClient sender (wire_frame sender response)], s')"
    and "ma_allocation a = allocation_new (ck_elapsed ck) username (client_address client) (sock_new (sc_advertised_ip (ts_configuration s)) port)"
    and "ma_relay_port a = port" and "ma_control_sender a = sender"
    and "ma_bandwidth a = limiter_new (sc_maximum_relay_bytes_per_second (ts_configuration s)) (ck_elapsed ck)"
    and "same_allocations (put_allocation client a s) s'"
proof -
  let ?auth = "\<lparr>au_username = username, au_key = key\<rparr>"
  obtain m where m: "message_parse bs = Inr m" "ms_kind m = \<lparr>mt_method = ALLOCATE, mt_class = Request\<rparr>"
    and c: "map_of (content m) REQUESTED_TRANSPORT = map_of transport_udp REQUESTED_TRANSPORT"
    and auth: "server_authenticate cr ck s (sock_ip (client_address client)) m = Inr ?auth"
    and known: "unknown_required_attributes m = []"
    by (rule turn_request_accepted [OF build _ transport_udp_ok cred]) (simp_all add: ALLOCATE_def)
  have "map_of (content m) REQUESTED_TRANSPORT = Some [17, 0, 0, 0]" using c by (simp add: transport_udp_def)
  then obtain x where x: "attribute m REQUESTED_TRANSPORT = Some x" "ra_value x = [17, 0, 0, 0]"
    by (rule attribute_value) simp
  then have transport: "requested_transport m = Inr (Some 17)"
    by (simp add: requested_transport_def four_bytes_def)
  have admit: "allocate_admit cr client m ?auth s = (Admitted, s)"
    using free by (auto simp: allocate_admit_def within_quota_def Let_def)
  obtain s1 where bind: "bind_relay_socket io s = (Inr port, s1)" using port by (cases "bind_relay_socket io s") auto
  have s1: "same_allocations s s1" by (rule bind_relay_socket_same [OF bind])
  let ?relayed = "sock_new (sc_advertised_ip (ts_configuration s)) port"
  let ?al = "allocation_new (ck_elapsed ck) username (client_address client) ?relayed"
  obtain response where response: "allocation_success cr m ?relayed (client_address client) (remaining_lifetime (ck_elapsed ck) ?al) key = Inr response"
    using allocation_success_built [OF mac] by blast
  let ?a = "\<lparr>ma_allocation = ?al, ma_relay_port = port, ma_allocate_transaction = ms_transaction_id m,
      ma_allocate_response = response, ma_control_sender = sender,
      ma_bandwidth = limiter_new (sc_maximum_relay_bytes_per_second (ts_configuration s)) (ck_elapsed ck)\<rparr>"
  let ?s' = "count (\<lambda>x. x\<lparr>me_allocations_created := me_allocations_created x + 1\<rparr>) (put_allocation client ?a s1)"
  have "allocate_commit cr (ck_elapsed ck) client sender m ?auth port s1 = (Inr response, [StartRelay client port], ?s')"
    using s1 free(1) response by (simp add: allocate_commit_def same_allocations_def hm_contains_def Let_def)
  then have "handle_authenticated_request cr io ck client sender m s = (Inr response, [StartRelay client port], ?s')"
    using m(2) auth known by (simp add: handle_authenticated_request_def handle_allocate_def transport admit bind)
  from request_answered [OF m(1,2) _ this sent]
  have "handle_client_frame cr io ck client sender bs s = ([StartRelay client port, ToClient sender (wire_frame sender response)], ?s')"
    by (simp add: ALLOCATE_def BINDING_def del: wire_frame.simps)
  then show ?thesis by (rule that [of response ?s' ?a]) (use s1 in \<open>simp_all add: same_allocations_def\<close>)
qed

section \<open>Permissions and data\<close>

lemma attribute_values:
  assumes "t \<notin> {MESSAGE_INTEGRITY, MESSAGE_INTEGRITY_SHA256, FINGERPRINT}"
  shows "map ra_value (filter (\<lambda>a. ra_type a = t) (ms_attributes m)) = map snd (filter (\<lambda>a. fst a = t) (content m))"
proof -
  have "map ra_value (filter (\<lambda>a. ra_type a = t) as) = map snd (filter (\<lambda>a. fst a = t)
      (map (\<lambda>a. (ra_type a, ra_value a)) (filter (\<lambda>a. ra_type a \<notin> {MESSAGE_INTEGRITY, MESSAGE_INTEGRITY_SHA256, FINGERPRINT}) as)))" for as
    using assms by (induction as) auto
  then show ?thesis by (simp only: content_def)
qed

lemma xor_peer_read:
  assumes "on_wire peer = peer" and "filter (\<lambda>a. fst a = XOR_PEER_ADDRESS) (content m) = [(XOR_PEER_ADDRESS, encode_xor_address peer t)]"
    and "ms_transaction_id m = t"
  shows "msg_xor_addresses m XOR_PEER_ADDRESS = Inr [peer]" and "msg_xor_address m XOR_PEER_ADDRESS = Inr (Some peer)"
proof -
  note r = xor_address_roundtrip [of peer t, unfolded assms(1)]
  have v: "map ra_value (filter (\<lambda>a. ra_type a = XOR_PEER_ADDRESS) (ms_attributes m)) = [encode_xor_address peer t]"
    using attribute_values [of XOR_PEER_ADDRESS m] assms(2) by simp
  then obtain x where x: "filter (\<lambda>a. ra_type a = XOR_PEER_ADDRESS) (ms_attributes m) = [x]" "ra_value x = encode_xor_address peer t"
    by auto
  then show "msg_xor_addresses m XOR_PEER_ADDRESS = Inr [peer]" by (simp add: msg_xor_addresses_def assms(3) r)
  have "find (\<lambda>a. ra_type a = XOR_PEER_ADDRESS) (ms_attributes m) = Some x"
    using x(1) by (induction "ms_attributes m") (auto simp: find_Some_iff filter_eq_Cons_iff find_dropWhile split: if_splits)
  then show "msg_xor_address m XOR_PEER_ADDRESS = Inr (Some peer)"
    by (simp add: msg_xor_address_def convert_attribute_def attribute_def assms(3) x(2) r)
qed

lemma empty_success_built:
  assumes "st_hmac_sha1 (sv_stun cr) key = Some mac"
  shows "\<exists>d. empty_success cr m key = Inr d"
proof -
  let ?b = "with_fingerprint (with_integrity_sha1 key (add_software SERVER_SOFTWARE
       (builder_new \<lparr>mt_method = mt_method (ms_kind m), mt_class = SuccessResponse\<rparr> (ms_transaction_id m))))"
  have b: "mb_integrity ?b = Some (Sha1Key key)" "mb_fingerprint ?b" "mb_attributes ?b = [(SOFTWARE, str_bytes SERVER_SOFTWARE)]"
    by (simp_all add: with_fingerprint_def with_integrity_sha1_def add_software_def add_raw_attribute_def builder_new_def)
  have "length (str_bytes SERVER_SOFTWARE) = 16"
    by (simp add: SERVER_SOFTWARE_def str_lit_def str_bytes_def utf8_char_def)
  then have "length (attributes_bytes (mb_attributes ?b)) < 60000"
    using length_attribute_bytes_le [of SOFTWARE "str_bytes SERVER_SOFTWARE"] unfolding b(3) by simp
  from build_signed [OF b(1,2) assms this] show ?thesis by (simp add: empty_success_def)
qed

definition xor_peer :: "socket_addr \<Rightarrow> transaction_id \<Rightarrow> (attribute_type \<times> bytes) list" where
  "xor_peer peer t = [(XOR_PEER_ADDRESS, encode_xor_address peer t)]"

lemma xor_peer_plain: "plain_attribute (XOR_PEER_ADDRESS, encode_xor_address peer t)"
  using length_encode_xor_address(2) [of peer t] by (auto simp: plain_attribute_def check_attribute_def)

lemma data_plain: "plain_attribute (DATA_ATTRIBUTE, data)"
  by (simp add: plain_attribute_def check_attribute_def)

lemma xor_peer_ok: "request_attributes (xor_peer peer t)"
  using xor_peer_plain [of peer t] by (simp add: request_attributes_def xor_peer_def is_known_def)

lemma create_permissions_one:
  assumes "same_family (sock_ip peer) (sock_ip (al_relayed_address a))" and "length (al_permissions a) < MAX_PERMISSIONS"
  obtains b where "create_permissions now [peer] a = (Inr (), b)"
    and "hm_get (al_permissions b) (sock_ip peer) = Some (now + PERMISSION_LIFETIME)"
    and "al_channels b = al_channels (expire_children now a)" and "al_username b = al_username a"
    and "al_relayed_address b = al_relayed_address a"
proof -
  let ?m = "al_permissions (expire_children now a)"
  let ?n = "length ?m + length (remdups (filter (\<lambda>ip. \<not> hm_contains ?m ip) (map sock_ip [peer])))"
  have "length ?m \<le> length (al_permissions a)" by simp
  moreover have "length (remdups (filter (\<lambda>ip. \<not> hm_contains ?m ip) (map sock_ip [peer]))) \<le> 1" by simp
  ultimately have room: "\<not> ?n > MAX_PERMISSIONS" using assms(2) by linarith
  have "\<exists>b. create_permissions now [peer] a = (Inr (), b) \<and> hm_get (al_permissions b) (sock_ip peer) = Some (now + PERMISSION_LIFETIME) \<and>
     al_channels b = al_channels (expire_children now a) \<and> al_username b = al_username a \<and> al_relayed_address b = al_relayed_address a"
    unfolding create_permissions_def Let_def if_not_P [OF room] using assms(1) by simp
  then show ?thesis using that by blast
qed

lemma permission_served:
  assumes build: "message_build (sv_stun cr) (turn_request CREATE_PERMISSION (xor_peer peer t) username (sc_realm (ts_configuration s)) nonce key t) = Inr bs"
    and cred: "credentialed cr ck s (sock_ip (client_address client)) username nonce key"
    and mac: "st_hmac_sha1 (sv_stun cr) key = Some mac" and sent: "io_sent io"
    and a: "hm_get (ts_allocations s) client = Some a" "owned username a" "length (al_permissions (ma_allocation a)) < MAX_PERMISSIONS"
    and peer: "on_wire peer = peer" "safe_peer (ts_configuration s) peer"
      "same_family (sock_ip peer) (sock_ip (al_relayed_address (ma_allocation a)))"
  obtains response b where
    "handle_client_frame cr io ck client sender bs s =
       ([ToClient sender (wire_frame sender response)], put_allocation client (a\<lparr>ma_allocation := b\<rparr>) s)"
    and "hm_get (al_permissions b) (sock_ip peer) = Some (ck_elapsed ck + PERMISSION_LIFETIME)"
    and "al_channels b = al_channels (expire_children (ck_elapsed ck) (ma_allocation a))"
    and "al_relayed_address b = al_relayed_address (ma_allocation a)"
proof -
  let ?auth = "\<lparr>au_username = username, au_key = key\<rparr>"
  obtain m where m: "message_parse bs = Inr m" "ms_kind m = \<lparr>mt_method = CREATE_PERMISSION, mt_class = Request\<rparr>"
    and t: "ms_transaction_id m = t"
    and c: "filter (\<lambda>a. fst a = XOR_PEER_ADDRESS) (content m) = filter (\<lambda>a. fst a = XOR_PEER_ADDRESS) (xor_peer peer t)"
    and auth: "server_authenticate cr ck s (sock_ip (client_address client)) m = Inr ?auth"
    and known: "unknown_required_attributes m = []"
    by (rule turn_request_accepted [OF build _ xor_peer_ok cred]) (simp_all add: CREATE_PERMISSION_def)
  have peers: "msg_xor_addresses m XOR_PEER_ADDRESS = Inr [peer]"
    by (rule xor_peer_read(1) [OF peer(1) _ t]) (use c in \<open>simp add: xor_peer_def\<close>)
  obtain b where b: "create_permissions (ck_elapsed ck) [peer] (ma_allocation a) = (Inr (), b)"
    and facts: "hm_get (al_permissions b) (sock_ip peer) = Some (ck_elapsed ck + PERMISSION_LIFETIME)"
      "al_channels b = al_channels (expire_children (ck_elapsed ck) (ma_allocation a))"
      "al_relayed_address b = al_relayed_address (ma_allocation a)"
    by (rule create_permissions_one [OF peer(3) a(3)])
  obtain response where response: "empty_success cr m key = Inr response" using empty_success_built [OF mac] by blast
  have "handle_authenticated_request cr io ck client sender m s = (Inr response, [], put_allocation client (a\<lparr>ma_allocation := b\<rparr>) s)"
    using m(2) auth known a peer(2) response peers
    by (simp add: handle_authenticated_request_def handle_create_permission_def on_allocation_def b owned_def Let_def
        ALLOCATE_def REFRESH_def CREATE_PERMISSION_def)
  from request_answered [OF m(1,2) _ this sent] that [OF _ facts] show ?thesis
    by (simp add: CREATE_PERMISSION_def BINDING_def del: wire_frame.simps)
qed

definition send_indication :: "socket_addr \<Rightarrow> bytes \<Rightarrow> transaction_id \<Rightarrow> message_builder" where
  "send_indication peer data t =
     \<lparr>mb_message_type = \<lparr>mt_method = SEND, mt_class = Indication\<rparr>, mb_transaction_id = t,
      mb_attributes = xor_peer peer t @ [(DATA_ATTRIBUTE, data)], mb_integrity = None, mb_fingerprint = True\<rparr>"

lemma consume_accepts:
  assumes "n \<le> unat (bl_available_bytes l)" and "bl_available_bytes l \<le> saturating_mul bps 2"
  obtains l' where "consume now n bps l = (True, l')" and "unat (bl_available_bytes l) \<le> unat (bl_available_bytes l') + n"
    and "bl_available_bytes l' \<le> saturating_mul bps 2"
proof -
  have more_bytes: "unat (bl_available_bytes l) \<le> unat (bl_available_bytes (refill now bps l))"
    using assms(2) unat_less_u64 [of "bl_available_bytes l"]
    by (auto simp: refill_def Let_def unat_min unat_saturating_add word_le_nat_alt)
  have n: "unat (u64_of_nat n) = n" using assms(1) unat_less_u64 [of "bl_available_bytes l"] by (intro unat_u64_of_nat(2)) simp
  let ?l = "(refill now bps l)\<lparr>bl_available_bytes := bl_available_bytes (refill now bps l) - u64_of_nat n\<rparr>"
  have ok: "u64_of_nat n \<le> bl_available_bytes (refill now bps l)" using more_bytes assms(1) n by (simp add: word_le_nat_alt)
  then have c: "consume now n bps l = (True, ?l)" by (simp add: consume_refill)
  moreover have "unat (bl_available_bytes l) \<le> unat (bl_available_bytes ?l) + n"
    using ok more_bytes n by (simp add: unat_sub word_le_nat_alt)
  moreover have "bl_available_bytes ?l \<le> saturating_mul bps 2" by (rule consume_bounded [OF assms(2) c])
  ultimately show ?thesis by (rule that)
qed

lemma send_relayed:
  assumes build: "message_build (sv_stun cr) (send_indication peer data t) = Inr bs" and inv: "server_inv s" and sent: "io_sent io"
    and a: "hm_get (ts_allocations s) client = Some a" "permitted_peer (ck_elapsed ck) a peer"
    and peer: "on_wire peer = peer" "safe_peer (ts_configuration s) peer" and len: "length data \<le> MAX_RELAY_DATA_BYTES"
    and allowed: "consume (ck_elapsed ck) (length data) (sc_maximum_relay_bytes_per_second (ts_configuration s)) (ma_bandwidth a) = (True, l)"
  obtains s' where "handle_client_frame cr io ck client sender bs s = ([ToPeer (ma_relay_port a) peer data], s')"
    and "same_allocations (put_allocation client (touch (ck_elapsed ck) l a) s) s'"
proof -
  let ?b = "send_indication peer data t" and ?now = "ck_elapsed ck"
  have b: "mb_message_type ?b = \<lparr>mt_method = SEND, mt_class = Indication\<rparr>" "mb_transaction_id ?b = t"
    "mb_attributes ?b = [(XOR_PEER_ADDRESS, encode_xor_address peer t), (DATA_ATTRIBUTE, data)]"
    by (simp_all add: send_indication_def xor_peer_def)
  have plain: "\<forall>x\<in>set (mb_attributes ?b). plain_attribute x"
    using xor_peer_plain [of peer t] data_plain [of data] unfolding b(3) by simp
  obtain m where m: "message_parse bs = Inr m" and rb: "reads_back (sv_stun cr) ?b m"
    by (rule stun_build_parse [OF build _ plain]) (simp_all add: b(1) SEND_def)
  have c: "content m = [(XOR_PEER_ADDRESS, encode_xor_address peer t), (DATA_ATTRIBUTE, data)]"
    using reads_back_content [OF rb] b(3) by simp
  have kind: "ms_kind m = \<lparr>mt_method = SEND, mt_class = Indication\<rparr>" "ms_transaction_id m = t"
    using rb by (simp_all add: reads_back_def b)
  have addr: "msg_xor_address m XOR_PEER_ADDRESS = Inr (Some peer)"
    by (rule xor_peer_read(2) [OF peer(1) _ kind(2)]) (simp add: c)
  have "map_of (content m) DATA_ATTRIBUTE = Some data" by (simp add: c)
  then obtain x where x: "attribute m DATA_ATTRIBUTE = Some x" "ra_value x = data" by (rule attribute_value) simp
  have perm: "permits ?now peer (ma_allocation a) = (True, expire_children ?now (ma_allocation a))"
    using permits_in_force [OF managed_inv_parts(1) [OF server_inv_get [OF inv a(1)]], of ?now peer] a(2)
      queries_expire(2) [of ?now peer "ma_allocation a"] by (simp add: prod_eq_iff permitted_peer_def)
  let ?e = "a\<lparr>ma_allocation := expire_children ?now (ma_allocation a)\<rparr>"
  obtain s2 where s2: "spend ?now (length data) client ?e (put_allocation client ?e s) = (True, s2)"
    using allowed by (simp add: spend_def)
  have same: "same_allocations (put_allocation client (touch ?now l a) s) s2"
    by (rule spend_result [OF s2]) (use allowed in \<open>simp add: put_put\<close>)
  let ?s' = "count (\<lambda>x. x\<lparr>me_client_bytes_relayed := me_client_bytes_relayed x + u64_of_nat (length data)\<rparr>) s2"
  have "handle_send_indication io ?now client m s = (Inr (), [ToPeer (ma_relay_port a) peer data], ?s')"
    using addr x a(1) len peer(2) sent s2 by (simp add: handle_send_indication_def perm relay_to_peer_def)
  then have "handle_client_frame cr io ck client sender bs s = ([ToPeer (ma_relay_port a) peer data], ?s')"
    unfolding stun_dispatch [OF m] using m kind(1) by (simp add: handle_stun_def SEND_def BINDING_def is_ok_def)
  then show ?thesis by (rule that) (use same in simp)
qed

lemma build_unsigned:
  assumes "mb_integrity b = None" and "mb_fingerprint b" and "length (attributes_bytes (mb_attributes b)) < 65528"
  shows "\<exists>d. message_build cr b = Inr d"
proof -
  obtain xs where xs: "built_attributes cr b = Some xs" and "length (attributes_bytes xs) = length (attributes_bytes (mb_attributes b)) + 8"
    using assms(1,2) by (auto simp: built_attributes_def fingerprint_attribute_def Let_def length_attribute_bytes_word)
  then show ?thesis using assms(3) by (auto simp: message_build_eq)
qed

lemma peer_data_returned:
  assumes inv: "server_inv s" and sent: "io_sent io"
    and a: "hm_get (ts_allocations s) client = Some a" "permitted_peer now a peer" "al_channels (ma_allocation a) = []"
    and peer: "on_wire peer = peer" and len: "length data \<le> MAX_RELAY_DATA_BYTES"
    and allowed: "fst (consume now (length data) (sc_maximum_relay_bytes_per_second (ts_configuration s)) (ma_bandwidth a))"
    and order: "order [] = []"
  obtains d m where
    "fst (relay_peer_datagram cr io order (Some t) now client peer data s) = [ToClient (ma_control_sender a) (wire_frame (ma_control_sender a) d)]"
    and "message_parse d = Inr m" and "ms_kind m = \<lparr>mt_method = DATA_METHOD, mt_class = Indication\<rparr>"
    and "msg_xor_address m XOR_PEER_ADDRESS = Inr (Some peer)" and "map_option ra_value (attribute m DATA_ATTRIBUTE) = Some data"
proof -
  define B where "B = with_fingerprint (add_raw_attribute DATA_ATTRIBUTE data (add_xor_address XOR_PEER_ADDRESS peer
         (builder_new \<lparr>mt_method = DATA_METHOD, mt_class = Indication\<rparr> t)))"
  have b: "mb_message_type B = \<lparr>mt_method = DATA_METHOD, mt_class = Indication\<rparr>" "mb_transaction_id B = t"
    "mb_attributes B = [(XOR_PEER_ADDRESS, encode_xor_address peer t), (DATA_ATTRIBUTE, data)]" "mb_integrity B = None" "mb_fingerprint B"
    by (simp_all add: B_def with_fingerprint_def add_raw_attribute_def add_xor_address_def builder_new_def)
  have "length (attributes_bytes (mb_attributes B)) \<le> 65034"
    using length_attribute_bytes_le [of XOR_PEER_ADDRESS "encode_xor_address peer t"] length_encode_xor_address(1) [of peer t]
      length_attribute_bytes_le [of DATA_ATTRIBUTE data] len unfolding b(3) MAX_RELAY_DATA_BYTES_def by simp
  then have "\<exists>d. message_build (sv_stun cr) B = Inr d" by (intro build_unsigned [OF b(4,5)]) simp
  then obtain d where d: "message_build (sv_stun cr) B = Inr d" by blast
  have plain: "\<forall>x\<in>set (mb_attributes B). plain_attribute x"
    using xor_peer_plain [of peer t] data_plain [of data] unfolding b(3) by simp
  obtain m where m: "message_parse d = Inr m" and rb: "reads_back (sv_stun cr) B m"
    by (rule stun_build_parse [OF d _ plain]) (simp_all add: b(1) DATA_METHOD_def)
  have c: "content m = [(XOR_PEER_ADDRESS, encode_xor_address peer t), (DATA_ATTRIBUTE, data)]"
    using reads_back_content [OF rb] b(3) by simp
  have kind: "ms_kind m = \<lparr>mt_method = DATA_METHOD, mt_class = Indication\<rparr>" "ms_transaction_id m = t"
    using rb by (simp_all add: reads_back_def b)
  have addr: "msg_xor_address m XOR_PEER_ADDRESS = Inr (Some peer)"
    by (rule xor_peer_read(2) [OF peer _ kind(2)]) (simp add: c)
  have value_: "map_option ra_value (attribute m DATA_ATTRIBUTE) = Some data"
    using attribute_content [of DATA_ATTRIBUTE m] by (simp add: c)
  have perm: "permits now peer (ma_allocation a) = (True, expire_children now (ma_allocation a))"
    using permits_in_force [OF managed_inv_parts(1) [OF server_inv_get [OF inv a(1)]], of now peer] a(2)
      queries_expire(2) [of now peer "ma_allocation a"] by (simp add: prod_eq_iff permitted_peer_def)
  have route: "peer_route order now peer (ma_allocation a) = (Some DataIndication, expire_children now (ma_allocation a))"
    by (simp add: peer_route_def perm a(3) order)
  let ?e = "a\<lparr>ma_allocation := expire_children now (ma_allocation a)\<rparr>"
  obtain l where "consume now (length data) (sc_maximum_relay_bytes_per_second (ts_configuration s)) (ma_bandwidth a) = (True, l)"
    using allowed by (metis prod.collapse)
  then obtain s2 where s2: "spend now (length data) client ?e (put_allocation client ?e s) = (True, s2)"
    by (simp add: spend_def)
  have "data_indication cr (Some t) peer data = Inr d" using d by (simp add: data_indication_def B_def)
  then have "fst (relay_peer_datagram cr io order (Some t) now client peer data s) = [ToClient (ma_control_sender a) (wire_frame (ma_control_sender a) d)]"
    using a(1) len s2 by (simp add: relay_peer_datagram_def route client_send_def not_less del: wire_frame.simps)
  then show ?thesis by (rule that [OF _ m kind(1) addr value_])
qed

section \<open>Configuration\<close>

definition same_setup :: "turn_server \<Rightarrow> turn_server \<Rightarrow> bool" where
  "same_setup s s' \<longleftrightarrow>
     ts_configuration s' = ts_configuration s \<and> ts_nonce s' = ts_nonce s \<and> ts_credential_key s' = ts_credential_key s"

lemma same_setup_simps [simp]:
  "same_setup s s" "same_setup s (put_allocation k a s') = same_setup s s'" "same_allocations s' t \<Longrightarrow> same_setup s t = same_setup s s'"
  by (simp_all add: same_setup_def same_allocations_def)

lemma data_step_setup: "data_step now client s effects s' \<Longrightarrow> same_setup s s'"
  by (erule data_step.cases) (simp_all add: same_setup_def same_allocations_def)

lemma request_step_setup: "request_step username client s effects s' \<Longrightarrow> same_setup s s'"
  by (erule request_step.cases) (simp_all add: same_setup_def same_allocations_def)

lemma frame_step_setup: "frame_step cr ck client sender d s effects s' \<Longrightarrow> same_setup s s'"
  by (erule frame_step.cases) (simp_all add: data_step_setup request_step_setup)

lemma service_step_setup:
  assumes "server_inv s" and "service_step cr c s = (effects, s')"
  shows "same_setup s s'"
proof (cases c)
  case (ClientFrame io ck client sender d)
  with assms show ?thesis by (auto intro: frame_step_setup client_frame_step)
next
  case (PeerDatagram io order random now client peer data)
  with assms show ?thesis by (auto intro: data_step_setup peer_datagram_step)
next
  case (Maintenance order now)
  with assms show ?thesis by (auto simp: remove_expired_def same_setup_def Let_def)
next
  case (StreamClosed client)
  with assms show ?thesis by (auto simp: control_stream_closed_def same_setup_def split: option.splits)
qed

lemma service_run_setup: "service_ok s \<Longrightarrow> service_run cr calls s = (effects, s') \<Longrightarrow> same_setup s s'"
proof (induction calls arbitrary: s effects)
  case (Cons c calls)
  obtain es s1 where c: "service_step cr c s = (es, s1)" by fastforce
  from Cons.prems(2) c obtain later where r: "service_run cr calls s1 = (later, s')" by (auto split: prod.splits)
  have "same_setup s s1" using Cons.prems(1) by (intro service_step_setup [OF _ c]) (simp add: service_ok_def)
  with Cons.IH [OF service_step_ok [OF Cons.prems(1) c] r] show ?case by (simp add: same_setup_def)
qed simp

text \<open>A server that has been running: the states that histories reach.\<close>

definition running :: "server_crypto \<Rightarrow> server_config \<Rightarrow> service_call list \<Rightarrow> turn_effect list \<Rightarrow> turn_server \<Rightarrow> bool" where
  "running cr c calls effects s \<longleftrightarrow>
     (\<exists>s0. server_new cr (Inr ()) c = Inr s0 \<and> service_run cr calls s0 = (effects, s))"

lemma running_facts:
  assumes "running cr c calls effects s"
  shows "service_ok s" and "ts_configuration s = c" and "65000 \<le> unat (sc_maximum_relay_bytes_per_second c)"
proof -
  obtain s0 where s0: "server_new cr (Inr ()) c = Inr s0" and r: "service_run cr calls s0 = (effects, s)"
    using assms by (auto simp: running_def)
  show "service_ok s" by (rule service_run_ok [OF server_new_ok [OF s0] r])
  have new: "ts_configuration s0 = c" "\<not> sc_maximum_relay_bytes_per_second c < u64_of_nat MAX_RELAY_DATA_BYTES"
    using s0 by (auto simp: server_new_def bind_r_eq_Inr split: if_splits)
  with service_run_setup [OF server_new_ok [OF s0] r] show "ts_configuration s = c" by (simp add: same_setup_def)
  show "65000 \<le> unat (sc_maximum_relay_bytes_per_second c)"
    using new(2) by (simp add: word_less_nat_alt unat_u64_of_nat MAX_RELAY_DATA_BYTES_def not_less)
qed

section \<open>Properties\<close>

lemma in_force_expire:
  "hm_get m ip = Some e \<Longrightarrow> hm_wf m \<Longrightarrow> t < e \<Longrightarrow> hm_get (filter (\<lambda>(_, e). t < e) m) ip = Some e"
  by (simp add: hm_get_filter)

lemma service_run_append:
  "service_run cr (xs @ ys) s = (let (e1, s1) = service_run cr xs s; (e2, s2) = service_run cr ys s1 in (e1 @ e2, s2))"
  by (induction xs arbitrary: s) (simp_all split: prod.splits)

lemma exchange_opened:
  assumes ok: "service_ok s" "ts_configuration s = c" and free: "hm_get (ts_allocations s) client = None" "within_quota client s"
    and io: "fst (bind_relay_socket io s) = Inr port" "io_sent io"
    and mac: "st_hmac_sha1 (sv_stun cr) key = Some mac"
    and cred: "credentialed cr ck1 s (sock_ip (client_address client)) username nonce key"
      "credentialed cr ck2 s (sock_ip (client_address client)) username nonce key"
    and build: "message_build (sv_stun cr) (turn_request ALLOCATE transport_udp username (sc_realm c) nonce key t1) = Inr bs1"
      "message_build (sv_stun cr) (turn_request CREATE_PERMISSION (xor_peer peer t2) username (sc_realm c) nonce key t2) = Inr bs2"
    and peer: "on_wire peer = peer" "safe_peer c peer" "same_family (sock_ip peer) (sc_advertised_ip c)"
  obtains r1 r2 a s2 where
    "service_run cr [ClientFrame io ck1 client sender bs1, ClientFrame io ck2 client sender bs2] s =
       ([StartRelay client port, ToClient sender r1, ToClient sender r2], s2)"
    and "service_ok s2" and "ts_configuration s2 = c" and "hm_get (ts_allocations s2) client = Some a"
    and "ma_relay_port a = port" and "ma_control_sender a = sender" and "al_channels (ma_allocation a) = []"
    and "hm_get (al_permissions (ma_allocation a)) (sock_ip peer) = Some (ck_elapsed ck2 + PERMISSION_LIFETIME)"
    and "ma_bandwidth a = limiter_new (sc_maximum_relay_bytes_per_second c) (ck_elapsed ck1)"
proof -
  let ?bps = "sc_maximum_relay_bytes_per_second c"
  obtain r1 a s1 where step1: "handle_client_frame cr io ck1 client sender bs1 s =
      ([StartRelay client port, ToClient sender (wire_frame sender r1)], s1)"
    and a: "ma_allocation a = allocation_new (ck_elapsed ck1) username (client_address client) (sock_new (sc_advertised_ip c) port)"
      "ma_relay_port a = port" "ma_control_sender a = sender" "ma_bandwidth a = limiter_new ?bps (ck_elapsed ck1)"
    and s1: "same_allocations (put_allocation client a s) s1"
    by (rule allocate_served [OF build(1) [folded ok(2)] cred(1) mac io(2) free io(1), of sender, unfolded ok(2)])
  have get1: "hm_get (ts_allocations s1) client = Some a" and c1: "ts_configuration s1 = c"
    using s1 ok(2) by (simp_all add: same_allocations_def)
  have cred2: "credentialed cr ck2 s1 (sock_ip (client_address client)) username nonce key"
    using cred(2) s1 by (subst credentialed_same [of s1 s]) (simp_all add: same_allocations_def)
  have fields: "al_permissions (ma_allocation a) = []" "al_channels (ma_allocation a) = []" "owned username a"
    "al_relayed_address (ma_allocation a) = sock_new (sc_advertised_ip c) port"
    by (simp_all add: a(1) allocation_new_def owned_def)
  obtain r2 b where step2: "handle_client_frame cr io ck2 client sender bs2 s1 =
      ([ToClient sender (wire_frame sender r2)], put_allocation client (a\<lparr>ma_allocation := b\<rparr>) s1)"
    and b: "hm_get (al_permissions b) (sock_ip peer) = Some (ck_elapsed ck2 + PERMISSION_LIFETIME)"
      "al_channels b = al_channels (expire_children (ck_elapsed ck2) (ma_allocation a))"
    by (rule permission_served [OF build(2) [folded c1] cred2 mac io(2) get1 fields(3) _ peer(1) peer(2) [folded c1], of sender])
      (use peer(3) in \<open>simp_all add: fields MAX_PERMISSIONS_def\<close>)
  let ?calls = "[ClientFrame io ck1 client sender bs1, ClientFrame io ck2 client sender bs2]"
  have run: "service_run cr ?calls s =
      ([StartRelay client port, ToClient sender (wire_frame sender r1), ToClient sender (wire_frame sender r2)],
       put_allocation client (a\<lparr>ma_allocation := b\<rparr>) s1)"
    using step1 step2 by (simp del: wire_frame.simps)
  show ?thesis
    by (rule that [OF run service_run_ok [OF ok(1) run], of "a\<lparr>ma_allocation := b\<rparr>"])
      (use a(2-4) b in \<open>simp_all add: c1 fields(2)\<close>)
qed

lemma exchange_data:
  assumes ok: "service_ok s" "ts_configuration s = c" "65000 \<le> unat (sc_maximum_relay_bytes_per_second c)"
    and a: "hm_get (ts_allocations s) client = Some a" "al_channels (ma_allocation a) = []"
      "hm_get (al_permissions (ma_allocation a)) (sock_ip peer) = Some e"
      "ma_bandwidth a = limiter_new (sc_maximum_relay_bytes_per_second c) t0"
    and build: "message_build (sv_stun cr) (send_indication peer data t3) = Inr bs" and sent: "io_sent io"
    and peer: "on_wire peer = peer" "safe_peer c peer"
    and len: "length data \<le> MAX_RELAY_DATA_BYTES" "length answer \<le> MAX_RELAY_DATA_BYTES"
    and time: "ck_elapsed ck < e" "now < e" and order: "order [] = []"
  obtains d m s' where
    "service_run cr [ClientFrame io ck client sender bs, PeerDatagram io order (Some t4) now client peer answer] s =
       ([ToPeer (ma_relay_port a) peer data, ToClient (ma_control_sender a) (wire_frame (ma_control_sender a) d)], s')"
    and "message_parse d = Inr m" and "ms_kind m = \<lparr>mt_method = DATA_METHOD, mt_class = Indication\<rparr>"
    and "msg_xor_address m XOR_PEER_ADDRESS = Inr (Some peer)" and "map_option ra_value (attribute m DATA_ATTRIBUTE) = Some answer"
proof -
  let ?bps = "sc_maximum_relay_bytes_per_second c"
  have inv: "server_inv s" using ok(1) by (simp add: service_ok_def)
  have perm: "permitted_peer (ck_elapsed ck) a peer" using a(3) time(1) by (simp add: permitted_peer_def in_force_def)
  have full: "130000 \<le> unat (bl_available_bytes (ma_bandwidth a))" "bl_available_bytes (ma_bandwidth a) \<le> saturating_mul ?bps 2"
    using ok(3) by (simp_all add: a(4) limiter_new_def unat_saturating_mul)
  obtain l where l: "consume (ck_elapsed ck) (length data) ?bps (ma_bandwidth a) = (True, l)"
    "unat (bl_available_bytes (ma_bandwidth a)) \<le> unat (bl_available_bytes l) + length data" "bl_available_bytes l \<le> saturating_mul ?bps 2"
    by (rule consume_accepts [OF _ full(2), of "length data" "ck_elapsed ck"]) (use full(1) len(1) in \<open>simp_all add: MAX_RELAY_DATA_BYTES_def\<close>)
  obtain s3 where step3: "handle_client_frame cr io ck client sender bs s = ([ToPeer (ma_relay_port a) peer data], s3)"
    and s3: "same_allocations (put_allocation client (touch (ck_elapsed ck) l a) s) s3"
    by (rule send_relayed [OF build inv sent a(1) perm peer(1) _ len(1), of l sender]) (use l(1) peer(2) in \<open>simp_all add: ok(2)\<close>)
  have inv3: "server_inv s3"
    using service_step_ok [OF ok(1), of cr "ClientFrame io ck client sender bs"] step3 by (simp add: service_ok_def)
  let ?a = "touch (ck_elapsed ck) l a"
  have get3: "hm_get (ts_allocations s3) client = Some ?a" and c3: "ts_configuration s3 = c"
    using s3 ok(2) by (simp_all add: same_allocations_def)
  have "hm_wf (al_permissions (ma_allocation a))"
    using managed_inv_parts(1) [OF server_inv_get [OF inv a(1)]] by (simp add: allocation_inv_def permissions_inv_def)
  from in_force_expire [OF a(3) this time(1)] have perm4: "permitted_peer now ?a peer"
    using time(2) by (simp add: permitted_peer_def in_force_def touch_def)
  have chan: "al_channels (ma_allocation ?a) = []" by (simp add: touch_def a(2))
  have acc: "fst (consume now (length answer) (sc_maximum_relay_bytes_per_second (ts_configuration s3)) (ma_bandwidth ?a))"
    by (rule consume_accepts [OF _ l(3), of "length answer" now]) (use full(1) l(2) len in \<open>simp_all add: MAX_RELAY_DATA_BYTES_def touch_def c3\<close>)
  show ?thesis
  proof (rule peer_data_returned [where order = order, OF inv3 sent get3 perm4 chan peer(1) len(2) acc order, of cr t4])
    fix d m
    assume "fst (relay_peer_datagram cr io order (Some t4) now client peer answer s3) =
        [ToClient (ma_control_sender ?a) (wire_frame (ma_control_sender ?a) d)]"
    then obtain s4 where "relay_peer_datagram cr io order (Some t4) now client peer answer s3 =
        ([ToClient (ma_control_sender a) (wire_frame (ma_control_sender a) d)], s4)"
      by (auto simp: touch_def prod_eq_iff simp del: wire_frame.simps)
    moreover assume "message_parse d = Inr m" "ms_kind m = \<lparr>mt_method = DATA_METHOD, mt_class = Indication\<rparr>"
      "msg_xor_address m XOR_PEER_ADDRESS = Inr (Some peer)" "map_option ra_value (attribute m DATA_ATTRIBUTE) = Some answer"
    ultimately show ?thesis using step3 by (intro that [of d s4 m]) (simp_all del: wire_frame.simps)
  qed
qed

lemma no_new_authority_removes:
  assumes "ts_configuration s' = ts_configuration s" and "ts_allocations s' = fold hm_remove ks (ts_allocations s)"
  shows "no_new_authority s s'"
proof -
  have keep: "hm_get (fold hm_remove ks m) k = Some a \<Longrightarrow> hm_get m k = Some a" for m :: "(client_key, managed_allocation) hash_map" and k a
  proof (induction ks arbitrary: m)
    case (Cons k' ks)
    have "hm_get (hm_remove k' m) k = Some a" by (rule Cons.IH) (use Cons.prems in simp)
    then show ?case by (simp split: if_splits)
  qed simp
  show ?thesis unfolding no_new_authority_def
  proof (intro conjI allI impI)
    show "ts_configuration s' = ts_configuration s" by (rule assms(1))
    fix k b assume "hm_get (ts_allocations s') k = Some b"
    then have "hm_get (ts_allocations s) k = Some b" unfolding assms(2) by (rule keep)
    then show "\<exists>a. hm_get (ts_allocations s) k = Some a \<and> shrinks a b" using shrinks_refl by blast
  qed
qed

text \<open>C15. Data leaves only where it may. On a running server the only step that sends a datagram to a peer is the
  frame of a client that has an allocation; the datagram leaves the relay port of that allocation, goes to a peer
  that the server considers safe and for which a permission of that allocation is in force at that moment, and
  has at most 65000 bytes. A datagram of a peer that is passed on goes to the client of the allocation only, and
  only while a permission for the peer is in force.\<close>

theorem turn_relay_confined:
  assumes run: "running cr c calls effects s" and step: "service_step cr call s = (out, s')"
  shows "(\<forall>port peer data. ToPeer port peer data \<in> set out \<longrightarrow>
       (\<exists>io ck client sender d a. call = ClientFrame io ck client sender d \<and> hm_get (ts_allocations s) client = Some a \<and>
          port = ma_relay_port a \<and> safe_peer c peer \<and> in_force (al_permissions (ma_allocation a)) (ck_elapsed ck) (sock_ip peer) \<and>
          length data \<le> 65000)) \<and>
     (\<forall>io order random now client peer data sender frame.
        call = PeerDatagram io order random now client peer data \<and> ToClient sender frame \<in> set out \<longrightarrow>
        (\<exists>a. hm_get (ts_allocations s) client = Some a \<and> sender = ma_control_sender a \<and>
           in_force (al_permissions (ma_allocation a)) now (sock_ip peer) \<and> length data \<le> 65000))"
proof -
  note ok = running_facts [OF run]
  have inv: "server_inv s" using ok(1) by (simp add: service_ok_def)
  have sends: "\<exists>io ck client sender d a. call = ClientFrame io ck client sender d \<and> hm_get (ts_allocations s) client = Some a \<and>
      port = ma_relay_port a \<and> safe_peer c peer \<and> in_force (al_permissions (ma_allocation a)) (ck_elapsed ck) (sock_ip peer) \<and>
      length data \<le> 65000" if "ToPeer port peer data \<in> set out" for port peer data
  proof (cases call)
    case (ClientFrame io ck client sender d)
    with step have "frame_step cr ck client sender d s out s'" using client_frame_step [OF inv] by simp
    then have "data_step (ck_elapsed ck) client s out s'"
      using that by cases (auto simp: replies_def elim: request_step.cases)
    then show ?thesis using that ClientFrame ok(2)
      by cases (auto simp: permitted_peer_def MAX_RELAY_DATA_BYTES_def)
  next
    case (PeerDatagram io order random now client p x)
    with step that show ?thesis
      by (auto simp: relay_peer_datagram_def client_send_def Let_def split: if_splits option.splits prod.splits sum.splits)
  next
    case (Maintenance order now)
    with step that show ?thesis by (auto simp: remove_expired_def Let_def)
  next
    case (StreamClosed client)
    with step that show ?thesis by (auto simp: control_stream_closed_def split: option.splits)
  qed
  have returns: "\<exists>a. hm_get (ts_allocations s) client = Some a \<and> sender = ma_control_sender a \<and>
      in_force (al_permissions (ma_allocation a)) now (sock_ip peer) \<and> length data \<le> 65000"
    if "call = PeerDatagram io order random now client peer data" "ToClient sender frame \<in> set out"
    for io order random now client peer data sender frame
  proof -
    have "relay_peer_datagram cr io order random now client peer data s = (out, s')" "out \<noteq> []" using step that by auto
    from peer_datagram_sends [OF inv this] that(2) show ?thesis by (auto simp: permitted_peer_def MAX_RELAY_DATA_BYTES_def)
  qed
  show ?thesis using sends returns by (intro conjI allI impI) (blast, metis)
qed

lemma bind_r_cases:
  assumes "bind_r r f = Inr y"
  obtains x where "r = Inr x" and "f x = Inr y"
  using assms by (cases r) auto

lemma present_cases:
  assumes "present r = Inr x"
  obtains "r = Inr (Some x)"
  using assms by (cases r) (auto simp: present_def ok_or_eq_Inr)

lemma authenticate_sound:
  assumes "server_authenticate cr ck s ip m = Inr auth"
  shows "msg_username m = Inr (Some (au_username auth))" and "credential_key cr (ck_credential ck) s (au_username auth) = Some (au_key auth)"
    and "verify_message_integrity_sha1 (sv_stun cr) m (au_key auth) = Inr ()"
    and "\<exists>nonce. msg_nonce m = Inr (Some nonce) \<and> nonce_validate (sv_nonce cr) (ts_nonce s) nonce (ck_nonce ck) ip = Inr ()"
proof -
  obtain username realm nonce where m: "msg_username m = Inr (Some username)" "msg_nonce m = Inr (Some nonce)"
    and rest: "(if realm \<noteq> sc_realm (ts_configuration s) then Inl Unauthorized
     else
       bind_r (ok_or Unauthorized (credential_key cr (ck_credential ck) s username)) (\<lambda>key.
       case nonce_validate (sv_nonce cr) (ts_nonce s) nonce (ck_nonce ck) ip of
         Inl StaleNonce \<Rightarrow> Inl StaleNonceRejection
       | Inl _ \<Rightarrow> Inl Unauthorized
       | Inr _ \<Rightarrow>
           bind_r (map_err (\<lambda>_. Unauthorized) (verify_message_integrity_sha1 (sv_stun cr) m key)) (\<lambda>_.
           bind_r (if attribute m FINGERPRINT \<noteq> None
                   then map_err (\<lambda>_. Unauthorized) (verify_fingerprint (sv_stun cr) m) else Inr ()) (\<lambda>_.
             Inr \<lparr>au_username = username, au_key = key\<rparr>)))) = Inr auth"
    using assms unfolding server_authenticate_def by (elim bind_r_cases present_cases) blast
  obtain key where key: "credential_key cr (ck_credential ck) s username = Some key"
    and valid: "nonce_validate (sv_nonce cr) (ts_nonce s) nonce (ck_nonce ck) ip = Inr ()"
    and verified: "verify_message_integrity_sha1 (sv_stun cr) m key = Inr ()" and auth: "auth = \<lparr>au_username = username, au_key = key\<rparr>"
    using rest by (auto simp: ok_or_eq_Inr map_err_eq_Inr elim!: bind_r_cases split: if_splits sum.splits nonce_error.splits)
  show "msg_username m = Inr (Some (au_username auth))" "credential_key cr (ck_credential ck) s (au_username auth) = Some (au_key auth)"
    "verify_message_integrity_sha1 (sv_stun cr) m (au_key auth) = Inr ()"
    "\<exists>nonce. msg_nonce m = Inr (Some nonce) \<and> nonce_validate (sv_nonce cr) (ts_nonce s) nonce (ck_nonce ck) ip = Inr ()"
    using m key valid verified by (simp_all add: auth)
qed

lemma request_step_frame:
  assumes "request_step username client s effects s'"
  shows "k \<noteq> client \<Longrightarrow> hm_get (ts_allocations s') k = hm_get (ts_allocations s) k"
    and "\<not> no_new_authority s s' \<Longrightarrow> \<exists>b. hm_get (ts_allocations s') client = Some b \<and> owned username b"
    and "hm_get (ts_allocations s) client = Some a \<Longrightarrow> \<not> owned username a \<Longrightarrow> ts_allocations s' = ts_allocations s"
proof -
  show "k \<noteq> client \<Longrightarrow> hm_get (ts_allocations s') k = hm_get (ts_allocations s) k"
    using assms by cases (simp_all add: same_allocations_def)
  show "hm_get (ts_allocations s) client = Some a \<Longrightarrow> \<not> owned username a \<Longrightarrow> ts_allocations s' = ts_allocations s"
    using assms by cases (auto simp: same_allocations_def)
  assume new: "\<not> no_new_authority s s'"
  from assms show "\<exists>b. hm_get (ts_allocations s') client = Some b \<and> owned username b"
  proof cases
    case unchanged
    then have "no_new_authority s s'" by (intro no_new_authority_same [OF no_new_authority_refl]) (simp_all add: same_allocations_def)
    with new show ?thesis by simp
  next
    case (created a)
    then show ?thesis by (simp add: same_allocations_def)
  next
    case (updated a b)
    then show ?thesis by (simp add: same_allocations_def owned_def)
  next
    case (released a)
    then have "no_new_authority s s'" by (intro no_new_authority_removes [of s' s "[client]"]) (simp_all add: same_allocations_def)
    with new show ?thesis by simp
  qed
qed

text \<open>C14. Only its owner changes an allocation. On a running server, a step either grants nothing: every allocation
  was there before with the same owner, addresses and expiry, and has lost permissions and channels at most; or
  it is a request of a client whose message integrity verifies under the key of its user name, with a nonce
  that the server accepts for its address at that moment. Such a request changes no allocation of
  another client, leaves an allocation with its own user name, and leaves the allocations alone when the one of
  its client belongs to another user.\<close>

theorem turn_authority:
  assumes run: "running cr c calls effects s" and step: "service_step cr call s = (out, s')"
  shows "no_new_authority s s' \<or>
     (\<exists>io ck client sender d m username key nonce b. call = ClientFrame io ck client sender d \<and> message_parse d = Inr m \<and>
        mt_class (ms_kind m) = Request \<and> msg_username m = Inr (Some username) \<and> msg_nonce m = Inr (Some nonce) \<and>
        credential_key cr (ck_credential ck) s username = Some key \<and>
        nonce_validate (sv_nonce cr) (ts_nonce s) nonce (ck_nonce ck) (sock_ip (client_address client)) = Inr () \<and>
        verify_message_integrity_sha1 (sv_stun cr) m key = Inr () \<and>
        (\<forall>k. k \<noteq> client \<longrightarrow> hm_get (ts_allocations s') k = hm_get (ts_allocations s) k) \<and>
        hm_get (ts_allocations s') client = Some b \<and> al_username (ma_allocation b) = username \<and>
        (\<forall>a. hm_get (ts_allocations s) client = Some a \<and> al_username (ma_allocation a) \<noteq> username \<longrightarrow>
           ts_allocations s' = ts_allocations s))"
proof (cases "no_new_authority s s'")
  case False
  have inv: "server_inv s" using running_facts(1) [OF run] by (simp add: service_ok_def)
  from False step have "\<exists>io ck client sender d. call = ClientFrame io ck client sender d"
  proof (cases call)
    case (PeerDatagram io order random now client peer data)
    with step have "data_step now client s out s'" by (auto intro: peer_datagram_step [OF inv])
    with False no_new_authority_data show ?thesis by blast
  next
    case (Maintenance order now)
    with step False show ?thesis by (auto simp: remove_expired_def Let_def intro: no_new_authority_removes)
  next
    case (StreamClosed client)
    with step False no_new_authority_removes [of s' s "[client]"] no_new_authority_refl show ?thesis
      by (auto simp: control_stream_closed_def split: option.splits)
  qed simp
  then obtain io ck client sender d where call: "call = ClientFrame io ck client sender d" by blast
  with step have "frame_step cr ck client sender d s out s'" using client_frame_step [OF inv] by simp
  then show ?thesis
  proof cases
    case data
    with False no_new_authority_data show ?thesis by blast
  next
    case answer
    then have "no_new_authority s s'" by (intro no_new_authority_same [OF no_new_authority_refl]) (simp_all add: same_allocations_def)
    with False show ?thesis by simp
  next
    case (request m auth es extra)
    note sound = authenticate_sound [OF request(4)]
    obtain nonce where nonce: "msg_nonce m = Inr (Some nonce)"
      "nonce_validate (sv_nonce cr) (ts_nonce s) nonce (ck_nonce ck) (sock_ip (client_address client)) = Inr ()"
      using sound(4) by blast
    obtain b where b: "hm_get (ts_allocations s') client = Some b" "al_username (ma_allocation b) = au_username auth"
      using request_step_frame(2) [OF request(5) False] by (auto simp: owned_def)
    show ?thesis
      by (rule disjI2, rule exI [of _ io], rule exI [of _ ck], rule exI [of _ client], rule exI [of _ sender], rule exI [of _ d],
          rule exI [of _ m], rule exI [of _ "au_username auth"], rule exI [of _ "au_key auth"], rule exI [of _ nonce], rule exI [of _ b])
        (use call request(2,3) sound(1-3) nonce b request_step_frame(1,3) [OF request(5)] in \<open>auto simp: owned_def\<close>)
  qed
qed simp


text \<open>C16. The server relays for its clients. On a server that has been running in any way, a client without an
  allocation that holds valid credentials and a valid nonce and is within the quotas gets one, on the port that
  was bound; after a permission for a peer that is safe and of the right address family, a Send indication
  reaches the peer from that port with exactly its data, and while the permission lasts a datagram of the peer
  comes back to the client as a Data indication with the address of the peer and exactly its data.\<close>

theorem turn_relays_for_client:
  assumes run: "running cr c calls effects s" and free: "hm_get (ts_allocations s) client = None" "within_quota client s"
    and io: "fst (bind_relay_socket io s) = Inr port" "io_sent io"
    and mac: "st_hmac_sha1 (sv_stun cr) key = Some mac"
    and cred: "credentialed cr ck1 s (sock_ip (client_address client)) username nonce key"
      "credentialed cr ck2 s (sock_ip (client_address client)) username nonce key"
    and build: "message_build (sv_stun cr) (turn_request ALLOCATE transport_udp username (sc_realm c) nonce key t1) = Inr bs1"
      "message_build (sv_stun cr) (turn_request CREATE_PERMISSION (xor_peer peer t2) username (sc_realm c) nonce key t2) = Inr bs2"
      "message_build (sv_stun cr) (send_indication peer data t3) = Inr bs3"
    and peer: "on_wire peer = peer" "safe_peer c peer" "same_family (sock_ip peer) (sc_advertised_ip c)"
    and len: "length data \<le> MAX_RELAY_DATA_BYTES" "length answer \<le> MAX_RELAY_DATA_BYTES"
    and time: "ck_elapsed ck3 < ck_elapsed ck2 + PERMISSION_LIFETIME" "now < ck_elapsed ck2 + PERMISSION_LIFETIME"
    and order: "\<And>xs. mset (order xs) = mset xs"
  shows "\<exists>r1 r2 d m s'. service_run cr
      [ClientFrame io ck1 client sender bs1, ClientFrame io ck2 client sender bs2, ClientFrame io ck3 client sender bs3,
       PeerDatagram io order (Some t4) now client peer answer] s =
      ([StartRelay client port, ToClient sender r1, ToClient sender r2, ToPeer port peer data,
        ToClient sender (wire_frame sender d)], s') \<and>
     message_parse d = Inr m \<and> ms_kind m = \<lparr>mt_method = DATA_METHOD, mt_class = Indication\<rparr> \<and>
     msg_xor_address m XOR_PEER_ADDRESS = Inr (Some peer) \<and> map_option ra_value (attribute m DATA_ATTRIBUTE) = Some answer"
proof -
  note ok = running_facts [OF run]
  let ?first = "[ClientFrame io ck1 client sender bs1, ClientFrame io ck2 client sender bs2]"
  let ?then = "[ClientFrame io ck3 client sender bs3, PeerDatagram io order (Some t4) now client peer answer]"
  obtain r1 r2 a s2 where first: "service_run cr ?first s = ([StartRelay client port, ToClient sender r1, ToClient sender r2], s2)"
    and s2: "service_ok s2" "ts_configuration s2 = c" "hm_get (ts_allocations s2) client = Some a"
    and a: "ma_relay_port a = port" "ma_control_sender a = sender" "al_channels (ma_allocation a) = []"
      "hm_get (al_permissions (ma_allocation a)) (sock_ip peer) = Some (ck_elapsed ck2 + PERMISSION_LIFETIME)"
      "ma_bandwidth a = limiter_new (sc_maximum_relay_bytes_per_second c) (ck_elapsed ck1)"
    by (rule exchange_opened [OF ok(1,2) free io mac cred build(1,2) peer])
  have "order [] = []" using order [of "[]"] by simp
  then obtain d m s' where "service_run cr ?then s2 = ([ToPeer port peer data, ToClient sender (wire_frame sender d)], s')"
    and d: "message_parse d = Inr m" "ms_kind m = \<lparr>mt_method = DATA_METHOD, mt_class = Indication\<rparr>"
      "msg_xor_address m XOR_PEER_ADDRESS = Inr (Some peer)" "map_option ra_value (attribute m DATA_ATTRIBUTE) = Some answer"
    by (rule exchange_data [OF s2(1,2) ok(3) s2(3) a(3-5) build(3) io(2) peer(1,2) len time, unfolded a(1,2)])
  with service_run_append [of cr ?first ?then s] first
  have "service_run cr (?first @ ?then) s = ([StartRelay client port, ToClient sender r1, ToClient sender r2, ToPeer port peer data,
      ToClient sender (wire_frame sender d)], s')"
    by (simp del: wire_frame.simps)
  with d show ?thesis
    by (intro exI [of _ r1] exI [of _ r2] exI [of _ d] exI [of _ m] exI [of _ s']) (simp del: wire_frame.simps)
qed

section \<open>A concrete exchange\<close>

definition sample_server_crypto :: server_crypto where
  "sample_server_crypto =
     \<lparr>sv_stun = sample_crypto,
      sv_turn = \<lparr>tc_md5 = (\<lambda>d. word_of_nat (length d)), tc_hmac_sha1 = (\<lambda>key. Some (\<lambda>d. word_of_nat (length d))), tc_base64 = map unat\<rparr>,
      sv_nonce = sample_nonce_crypto\<rparr>"

definition sample_io :: server_io where
  "sample_io = \<lparr>io_bind = (\<lambda>a. Bound (sock_port a)), io_sent = True\<rparr>"

definition sample_clocks :: "duration \<Rightarrow> clocks" where
  "sample_clocks t = \<lparr>ck_elapsed = t, ck_credential = 1000, ck_nonce = 1000, ck_challenge = 1000\<rparr>"

definition sample_client :: client_key where "sample_client = UdpClient (SockV4 0x02020202 4000)"
definition sample_sender :: client_sender where "sample_sender = UdpSender (SockV4 0x02020202 4000)"
definition sample_peer :: socket_addr where "sample_peer = SockV4 0x01010101 5000"

definition sample_nonce :: rust_string where
  "sample_nonce = map unat (nonce_payload 1000 (IpV4 0x02020202) @ to_be (word_of_nat (32 + 13) :: 256 word))"

definition sample_key :: bytes where "sample_key = to_be (word_of_nat 15 :: 128 word)"

definition sample_server :: turn_server where
  "sample_server =
     \<lparr>ts_configuration = sample_server_config, ts_allocations = [],
      ts_nonce = \<lparr>nm_secret = replicate 32 7, nm_lifetime = 600000000000\<rparr>, ts_credential_key = sample_key,
      ts_metrics = \<lparr>me_allocations_created = 0, me_allocations_rejected = 0, me_client_bytes_relayed = 0,
        me_peer_bytes_relayed = 0, me_dropped_datagrams = 0, me_authentication_failures = 0, me_rate_limited_datagrams = 0\<rparr>,
      ts_next_relay_port = 50000\<rparr>"

lemma sample_server_new: "server_new sample_server_crypto (Inr ()) sample_server_config = Inr sample_server"
  by (simp add: server_new_def sample_server_def sample_server_config_def sample_server_crypto_def sample_key_def
      long_term_key_def nonce_manager_new_def valid_relay_port_range_def saturating_add_def u64_of_nat_def
      MAX_RELAY_DATA_BYTES_def str_lit_def str_bytes_def utf8_char_def)

lemma sample_credentialed:
  "credentialed sample_server_crypto (sample_clocks t) sample_server (sock_ip (client_address sample_client)) (str_lit ''user'') sample_nonce sample_key"
proof -
  have "is_scalar c" if "c < 256" for c using that by (simp add: is_scalar_def)
  moreover have "\<forall>c\<in>set sample_nonce. c < 256" using unsigned_less [where 'b = 8 and 'a = nat] by (auto simp: sample_nonce_def)
  ultimately have "\<forall>c\<in>set sample_nonce. is_scalar c" by blast
  moreover have "nc_decode sample_nonce_crypto sample_nonce = Some (nonce_payload 1000 (IpV4 0x02020202) @ to_be (word_of_nat (32 + 13) :: 256 word))"
    by (simp add: sample_nonce_crypto_def sample_nonce_def comp_def)
  from nonce_validate_payload [OF this, of "ts_nonce sample_server"]
  have "nonce_validate sample_nonce_crypto (ts_nonce sample_server) sample_nonce 1000 (IpV4 0x02020202) = Inr ()"
    by (simp add: sample_server_def sample_nonce_crypto_def)
  ultimately show ?thesis
    by (simp add: credentialed_def sample_client_def sample_clocks_def credential_key_def sample_server_def sample_server_config_def
        sample_server_crypto_def is_scalar_def str_lit_def)
qed

lemma length_utf8_char: "length (utf8_char c) \<le> 4"
  by (simp add: utf8_char_def)

lemma length_str_bytes: "length (str_bytes s) \<le> 4 * length s"
proof (induction s)
  case (Cons c s)
  then show ?case using length_utf8_char [of c] by (simp add: str_bytes_def)
qed (simp add: str_bytes_def)

lemma sample_request_built:
  assumes "length (attributes_bytes attributes) \<le> 100"
  shows "\<exists>bs. message_build sample_crypto (turn_request method attributes (str_lit ''user'') (sc_realm sample_server_config) sample_nonce sample_key t) = Inr bs"
proof -
  let ?b = "turn_request method attributes (str_lit ''user'') (sc_realm sample_server_config) sample_nonce sample_key t"
  have "length sample_nonce = 45" by (simp add: sample_nonce_def)
  then have "length (attributes_bytes (mb_attributes ?b)) < 60000"
    using assms length_str_bytes [of sample_nonce] length_str_bytes [of "str_lit ''user''"] length_str_bytes [of "str_lit ''realm''"]
      length_attribute_bytes_le [of USERNAME "str_bytes (str_lit ''user'')"] length_attribute_bytes_le [of REALM "str_bytes (str_lit ''realm'')"]
      length_attribute_bytes_le [of NONCE "str_bytes sample_nonce"]
    by (simp add: turn_request_def sample_server_config_def str_lit_def)
  moreover have "st_hmac_sha1 (sv_stun sample_server_crypto) sample_key = Some (\<lambda>d. word_of_nat (length sample_key + length d))"
    by (simp add: sample_server_crypto_def sample_crypto_def)
  ultimately have "\<exists>d. build_response sample_server_crypto ?b = Inr d"
    by (intro build_signed [of ?b sample_key]) (simp_all add: turn_request_def)
  then show ?thesis by (auto simp: build_response_def sample_server_crypto_def map_err_eq_Inr)
qed

lemma sample_facts:
  "running sample_server_crypto sample_server_config [] [] sample_server"
  "hm_get (ts_allocations sample_server) sample_client = None" "within_quota sample_client sample_server"
  "fst (bind_relay_socket sample_io sample_server) = Inr 50000" "io_sent sample_io"
  "on_wire sample_peer = sample_peer" "safe_peer sample_server_config sample_peer"
  "same_family (sock_ip sample_peer) (sc_advertised_ip sample_server_config)"
  "st_hmac_sha1 (sv_stun sample_server_crypto) sample_key = Some (\<lambda>d. word_of_nat (length sample_key + length d))"
proof -
  show "running sample_server_crypto sample_server_config [] [] sample_server"
    using sample_server_new by (simp add: running_def)
  show "hm_get (ts_allocations sample_server) sample_client = None" "within_quota sample_client sample_server"
    by (simp_all add: sample_server_def within_quota_def sample_server_config_def)
  have n: "unat (relay_port_count sample_server_config) = 3"
    by (simp add: relay_port_count_def sample_server_config_def saturating_add_def)
  have "fst (bind_relay_ports sample_io sample_server_config (relay_port_count sample_server_config) 3 50000) = Inr 50000"
    unfolding bind_relay_ports_eq
    by (simp add: relay_candidates_def relay_port_count_def sample_server_config_def saturating_add_def upt_rec sample_io_def)
  then have "fst (bind_relay_ports sample_io (ts_configuration sample_server) (relay_port_count sample_server_config)
      (unat (relay_port_count sample_server_config)) (ts_next_relay_port sample_server)) = Inr 50000"
    unfolding n by (simp add: sample_server_def)
  moreover have "ts_configuration sample_server = sample_server_config" "sc_relay_port_min sample_server_config = 50000"
    by (simp_all add: sample_server_def sample_server_config_def)
  ultimately show "fst (bind_relay_socket sample_io sample_server) = Inr 50000"
    by (auto simp: bind_relay_socket_def Let_def split: prod.splits)
  show "io_sent sample_io" "on_wire sample_peer = sample_peer" "same_family (sock_ip sample_peer) (sc_advertised_ip sample_server_config)"
    by (simp_all add: sample_io_def sample_peer_def sample_server_config_def)
  have "to_be (0x01010101 :: u32) = [1, 1, 1, 1]" by (simp add: to_be_u32)
  then show "safe_peer sample_server_config sample_peer"
    by (simp add: safe_peer_def sample_peer_def sample_server_config_def is_private_v4_def v4_is_private_def octet_def
        is_server_endpoint_def concrete_ip_matches_def)
  show "st_hmac_sha1 (sv_stun sample_server_crypto) sample_key = Some (\<lambda>d. word_of_nat (length sample_key + length d))"
    by (simp add: sample_server_crypto_def sample_crypto_def)
qed

definition sample_allocate :: message_builder where
  "sample_allocate = turn_request ALLOCATE transport_udp (str_lit ''user'') (sc_realm sample_server_config) sample_nonce sample_key 1"

definition sample_permission :: message_builder where
  "sample_permission =
     turn_request CREATE_PERMISSION (xor_peer sample_peer 2) (str_lit ''user'') (sc_realm sample_server_config) sample_nonce sample_key 2"

lemma sample_messages:
  obtains bs1 bs2 bs3 where "message_build (sv_stun sample_server_crypto) sample_allocate = Inr bs1"
    and "message_build (sv_stun sample_server_crypto) sample_permission = Inr bs2"
    and "message_build (sv_stun sample_server_crypto) (send_indication sample_peer [1, 2, 3] 3) = Inr bs3"
proof -
  have stun: "sv_stun sample_server_crypto = sample_crypto" by (simp add: sample_server_crypto_def)
  have peer: "length (attribute_bytes (XOR_PEER_ADDRESS, encode_xor_address sample_peer t)) = 12" for t
    by (simp add: sample_peer_def length_attribute_bytes pad4_def)
  have "\<exists>bs. message_build sample_crypto sample_allocate = Inr bs" unfolding sample_allocate_def
    by (rule sample_request_built) (simp add: transport_udp_def length_attribute_bytes pad4_def)
  moreover have "\<exists>bs. message_build sample_crypto sample_permission = Inr bs" unfolding sample_permission_def
    by (rule sample_request_built) (use peer [of 2] in \<open>simp add: xor_peer_def\<close>)
  moreover have "\<exists>bs. message_build sample_crypto (send_indication sample_peer [1, 2, 3] 3) = Inr bs"
    using peer [of 3] length_attribute_bytes_le [of DATA_ATTRIBUTE "[1, 2, 3]"]
    by (intro build_unsigned) (simp_all add: send_indication_def xor_peer_def)
  ultimately show ?thesis using that stun by auto
qed

text \<open>A witness: an allocation, a permission, three bytes to the peer and two bytes back.\<close>

theorem turn_relays_for_client_witness:
  "\<exists>bs1 bs2 bs3 r1 r2 d m s'. service_run sample_server_crypto
      [ClientFrame sample_io (sample_clocks 5) sample_client sample_sender bs1,
       ClientFrame sample_io (sample_clocks 6) sample_client sample_sender bs2,
       ClientFrame sample_io (sample_clocks 7) sample_client sample_sender bs3,
       PeerDatagram sample_io id (Some 4) 8 sample_client sample_peer [9, 9]] sample_server =
      ([StartRelay sample_client 50000, ToClient sample_sender r1, ToClient sample_sender r2, ToPeer 50000 sample_peer [1, 2, 3],
        ToClient sample_sender (wire_frame sample_sender d)], s') \<and>
     message_parse d = Inr m \<and> msg_xor_address m XOR_PEER_ADDRESS = Inr (Some sample_peer)"
proof -
  obtain bs1 bs2 bs3 where build: "message_build (sv_stun sample_server_crypto) sample_allocate = Inr bs1"
    "message_build (sv_stun sample_server_crypto) sample_permission = Inr bs2"
    "message_build (sv_stun sample_server_crypto) (send_indication sample_peer [1, 2, 3] 3) = Inr bs3"
    by (rule sample_messages)
  have "\<exists>r1 r2 d m s'. service_run sample_server_crypto
      [ClientFrame sample_io (sample_clocks 5) sample_client sample_sender bs1,
       ClientFrame sample_io (sample_clocks 6) sample_client sample_sender bs2,
       ClientFrame sample_io (sample_clocks 7) sample_client sample_sender bs3,
       PeerDatagram sample_io id (Some 4) 8 sample_client sample_peer [9, 9]] sample_server =
      ([StartRelay sample_client 50000, ToClient sample_sender r1, ToClient sample_sender r2, ToPeer 50000 sample_peer [1, 2, 3],
        ToClient sample_sender (wire_frame sample_sender d)], s') \<and>
     message_parse d = Inr m \<and> ms_kind m = \<lparr>mt_method = DATA_METHOD, mt_class = Indication\<rparr> \<and>
     msg_xor_address m XOR_PEER_ADDRESS = Inr (Some sample_peer) \<and> map_option ra_value (attribute m DATA_ATTRIBUTE) = Some [9, 9]"
    by (rule turn_relays_for_client [OF sample_facts(1-5) sample_facts(9) sample_credentialed sample_credentialed
          build(1) [unfolded sample_allocate_def] build(2) [unfolded sample_permission_def] build(3) sample_facts(6-8)])
      (simp_all add: MAX_RELAY_DATA_BYTES_def sample_clocks_def PERMISSION_LIFETIME_def)
  then show ?thesis by blast
qed

text \<open>The state of the sample server after the first two frames.\<close>

lemma sample_opened:
  obtains bs1 bs2 r1 r2 a s where
    "message_build (sv_stun sample_server_crypto) sample_allocate = Inr bs1"
    "service_run sample_server_crypto [ClientFrame sample_io (sample_clocks 5) sample_client sample_sender bs1,
       ClientFrame sample_io (sample_clocks 6) sample_client sample_sender bs2] sample_server =
       ([StartRelay sample_client 50000, ToClient sample_sender r1, ToClient sample_sender r2], s)"
    and "service_ok s" and "ts_configuration s = sample_server_config" and "hm_get (ts_allocations s) sample_client = Some a"
    and "ma_relay_port a = 50000" and "al_channels (ma_allocation a) = []"
    and "hm_get (al_permissions (ma_allocation a)) (sock_ip sample_peer) = Some (6 + PERMISSION_LIFETIME)"
    and "ma_bandwidth a = limiter_new (sc_maximum_relay_bytes_per_second sample_server_config) 5"
proof -
  obtain bs1 bs2 bs3 where build: "message_build (sv_stun sample_server_crypto) sample_allocate = Inr bs1"
    "message_build (sv_stun sample_server_crypto) sample_permission = Inr bs2"
    "message_build (sv_stun sample_server_crypto) (send_indication sample_peer [1, 2, 3] 3) = Inr bs3"
    by (rule sample_messages)
  note facts = running_facts [OF sample_facts(1)]
  show ?thesis
    by (rule exchange_opened [OF facts(1,2) sample_facts(2-5) sample_facts(9) sample_credentialed [of 5] sample_credentialed [of 6]
          build(1) [unfolded sample_allocate_def] build(2) [unfolded sample_permission_def] sample_facts(6-8), of sample_sender],
        rule that [OF build(1)]) (simp_all add: sample_clocks_def)
qed

theorem turn_relay_confined_witness:
  "\<exists>calls effects s ck d out s' a.
     running sample_server_crypto sample_server_config calls effects s \<and>
     service_step sample_server_crypto (ClientFrame sample_io ck sample_client sample_sender d) s = (out, s') \<and>
     ToPeer 50000 sample_peer [1, 2, 3] \<in> set out \<and> hm_get (ts_allocations s) sample_client = Some a \<and>
     in_force (al_permissions (ma_allocation a)) (ck_elapsed ck) (sock_ip sample_peer)"
proof -
  obtain bs1 bs2 r1 r2 a s where run: "service_run sample_server_crypto [ClientFrame sample_io (sample_clocks 5) sample_client sample_sender bs1,
       ClientFrame sample_io (sample_clocks 6) sample_client sample_sender bs2] sample_server =
       ([StartRelay sample_client 50000, ToClient sample_sender r1, ToClient sample_sender r2], s)"
    and s: "service_ok s" "ts_configuration s = sample_server_config" "hm_get (ts_allocations s) sample_client = Some a"
    and a: "ma_relay_port a = 50000" "al_channels (ma_allocation a) = []"
      "hm_get (al_permissions (ma_allocation a)) (sock_ip sample_peer) = Some (6 + PERMISSION_LIFETIME)"
      "ma_bandwidth a = limiter_new (sc_maximum_relay_bytes_per_second sample_server_config) 5"
    by (rule sample_opened)
  obtain bs where build: "message_build (sv_stun sample_server_crypto) (send_indication sample_peer [1, 2, 3] 3) = Inr bs"
    by (rule sample_messages)
  have perm: "permitted_peer 7 a sample_peer" using a(3) by (simp add: permitted_peer_def in_force_def PERMISSION_LIFETIME_def)
  obtain l where "consume 7 (length [1, 2, 3 :: u8]) (sc_maximum_relay_bytes_per_second sample_server_config) (ma_bandwidth a) = (True, l)"
    by (rule consume_accepts [of "length [1, 2, 3 :: u8]" "ma_bandwidth a" "sc_maximum_relay_bytes_per_second sample_server_config" 7])
      (simp_all add: a(4) limiter_new_def sample_server_config_def saturating_mul_def)
  then obtain s' where step: "handle_client_frame sample_server_crypto sample_io (sample_clocks 7) sample_client sample_sender bs s =
      ([ToPeer (ma_relay_port a) sample_peer [1, 2, 3]], s')"
    using send_relayed [OF build _ sample_facts(5) s(3) _ sample_facts(6), of "sample_clocks 7" l sample_sender] s(1,2) perm sample_facts(7)
    by (auto simp: service_ok_def sample_clocks_def MAX_RELAY_DATA_BYTES_def)
  have running: "running sample_server_crypto sample_server_config [ClientFrame sample_io (sample_clocks 5) sample_client sample_sender bs1,
       ClientFrame sample_io (sample_clocks 6) sample_client sample_sender bs2]
       [StartRelay sample_client 50000, ToClient sample_sender r1, ToClient sample_sender r2] s"
    unfolding running_def using sample_server_new run by blast
  from step have service: "service_step sample_server_crypto (ClientFrame sample_io (sample_clocks 7) sample_client sample_sender bs) s =
      ([ToPeer 50000 sample_peer [1, 2, 3]], s')" by (simp add: a(1))
  from turn_relay_confined [OF running service] have "in_force (al_permissions (ma_allocation a)) 7 (sock_ip sample_peer)"
    using s(3) by (auto simp: sample_clocks_def)
  with running service s(3) show ?thesis
    by (intro exI conjI) (assumption, assumption, simp, assumption, simp add: sample_clocks_def)
qed

theorem turn_authority_witness:
  "\<exists>ck d out s' m nonce b.
     service_step sample_server_crypto (ClientFrame sample_io ck sample_client sample_sender d) sample_server = (out, s') \<and>
     message_parse d = Inr m \<and> msg_nonce m = Inr (Some nonce) \<and> hm_get (ts_allocations s') sample_client = Some b \<and>
     msg_username m = Inr (Some (al_username (ma_allocation b)))"
proof -
  obtain bs where build: "message_build (sv_stun sample_server_crypto) sample_allocate = Inr bs" by (rule sample_messages)
  obtain r a s' where step: "handle_client_frame sample_server_crypto sample_io (sample_clocks 5) sample_client sample_sender bs sample_server =
      ([StartRelay sample_client 50000, ToClient sample_sender (wire_frame sample_sender r)], s')"
    and s': "same_allocations (put_allocation sample_client a sample_server) s'"
    by (rule allocate_served [OF build [unfolded sample_allocate_def running_facts(2) [OF sample_facts(1), symmetric]]
          sample_credentialed sample_facts(9,5,2,3,4), where sender = sample_sender])
  then have service: "service_step sample_server_crypto (ClientFrame sample_io (sample_clocks 5) sample_client sample_sender bs) sample_server =
      ([StartRelay sample_client 50000, ToClient sample_sender (wire_frame sample_sender r)], s')" by simp
  have "\<not> no_new_authority sample_server s'"
    using s' by (auto simp: no_new_authority_def same_allocations_def sample_server_def dest: spec [of _ sample_client])
  with turn_authority [OF sample_facts(1) service] service show ?thesis by blast
qed


end
