(* ===== verification/Spec2Isabelle.thy ===== *)
theory Spec2Isabelle
  imports Bytes_Codec Domain_Room Rtp_Packet Rtp_Sequence Rtcp Rtc_Datagram Srtp Media_Codec Sfu_Room_Runs Congestion_Control Data_Channel Rtc_Session Turn_Exchange
begin

text \<open>
  Fluvora is a streaming platform: WebRTC clients send media to a selective forwarding unit (SFU),
  which forwards it to the subscribers of a room; a control plane keeps the rooms and their members;
  media services record, transcode and serve the streams. The development models the parts that
  decide what happens to a packet or to a room: the aggregate of the control plane and the protocol
  and forwarding crates of the media plane. Definitions keep the names of the Rust items.

  \<^bold>\<open>Path of a packet.\<close> A datagram from a socket is classified (\<open>rtc-datagram\<close>); SRTP is opened
  (\<open>srtp\<close>); the RTP packet is parsed (\<open>rtp\<close>) and its payload inspected (\<open>media-codec\<close>); the
  room (\<open>sfu-core\<close>) hands it to the down-track of every subscription, which rewrites and caches it;
  it is protected again and sent. Feedback travels the other way as RTCP (\<open>rtcp\<close>): NACKs are
  answered from the cache, keyframe requests become throttled PLIs, transport-wide feedback drives the
  bandwidth estimator, whose target drives the layer selector (\<open>congestion-control\<close>), which sets
  the target layer of the subscription. Before any of this the session (\<open>rtc-session\<close>) is set up: an
  authenticated connectivity check (\<open>stun\<close>, \<open>ice-lite\<close>) nominates a pair of addresses, the DTLS
  handshake on it (\<open>dtls-adapter\<close>) yields the SRTP keys, and data channels (\<open>data-channel\<close>) run inside
  DTLS. Clients behind a firewall reach the node through the relay (\<open>turn\<close>, \<open>turn-server\<close>).

  \<^bold>\<open>Theories\<close> (sources under \<open>src/crates\<close>).
  \<^item> \<open>Fluvora_Prelude\<close>: machine integers, byte strings, \<open>Result\<close> with early return, checked
    slices, network byte order, hash maps as association lists with distinct keys, UTF-8 lengths.
  \<^item> \<open>Bytes_Codec\<close> (\<open>foundation/bytes-codec\<close>): the checked cursor and the bounded writer.
  \<^item> \<open>Domain_Room\<close> (\<open>foundation/domain\<close>): the room aggregate. Commands are decided to events,
    events applied to the state; restoration from events and from snapshots; histories for
    idempotency. Shown: the invariant of the aggregate over all command sequences, event sourcing
    rebuilds the state, idempotency, authorisation, snapshot round trip and soundness.
  \<^item> \<open>Rtp_Extension\<close>, \<open>Rtp_Packet\<close>, \<open>Rtp_Sequence\<close> (\<open>webrtc/rtp\<close>): parser, builder,
    in-place rewriting, header extensions, sequence and timestamp extension. Shown: round trips,
    exactness of the rewrites, recovery of 64-bit indices.
  \<^item> \<open>Rtcp_Twcc\<close>, \<open>Rtcp\<close> (\<open>webrtc/rtcp\<close>): every packet type, transport-wide feedback,
    compound packets. Shown: the compound round trip.
  \<^item> \<open>Rtc_Datagram\<close> (\<open>webrtc/rtc-datagram\<close>): demultiplexing. Shown: packets of the RTP builder and
    the RTCP encoder are classified as such.
  \<^item> \<open>Srtp_Replay\<close>, \<open>Srtp\<close> (\<open>webrtc/srtp\<close>): key derivation, protection and replay windows.
    The AES keystream and HMAC-SHA1 come from crates outside the repository and are arguments.
    Shown: the keystreams of sealed packets start at distinct vectors, no replay, delivery; the bitmap window refines the set of indices.
  \<^item> \<open>Media_Codec\<close> (\<open>webrtc/media-codec\<close>): payload descriptors of the five codecs.
  \<^item> \<open>Timed_Fifo\<close>: the contract of a queue with a capacity and an age limit, interpreted for the
    retransmission cache of a down-track and for the send history of the estimator.
  \<^item> \<open>Sfu_DownTrack\<close>, \<open>Sfu_Room\<close>, \<open>Sfu_Room_Runs\<close> (\<open>webrtc/sfu-core\<close>): the down-track, the
    room with its five maps, and histories of calls. Shown: the invariant of the maps, isolation of
    publishers and subscribers, fan-out, what becomes of an eligible packet, the numbering of each
    subscriber's stream with and without extension rewrites, fidelity of retransmissions, gating by
    keyframes, throttling of keyframe requests.
  \<^item> \<open>Congestion_Control\<close> (\<open>webrtc/congestion-control\<close>): bandwidth estimator and layer selector.
    Shown: bounds, increase and decrease of the target, affordability and delayed upgrades.
  \<^item> \<open>Sctp_Wire\<close>, \<open>Utf8\<close>, \<open>Sctp_Association\<close>, \<open>Sctp_Invariant\<close>, \<open>Data_Channel\<close>
    (\<open>webrtc/data-channel\<close>): the checksum, chunk and parameter codec, the validation of UTF-8
    (\<open>std::str::from_utf8\<close>, used for the labels and protocols of channels), the SCTP association
    with its handshake, its send and receive queues and the DCEP messages, and histories of calls.
    Operations are actions that read and write the association and may fail half way; what each
    leaves alone is proved by a small calculus of rules for sequencing. Shown: a flipped packet is
    refused, the queues of the association stay bounded over every history, every message is
    delivered once and in order, nothing is accepted before a valid cookie, and an INIT with any
    parameters leads to an established association.
  \<^item> \<open>Net_Address\<close>: the addresses of \<open>std::net\<close>.
  \<^item> \<open>Stun_Message\<close>, \<open>Stun\<close> (\<open>webrtc/stun\<close>): the message codec, integrity and fingerprint.
    HMAC and CRC-32 are arguments. Shown: the exact layout of a built message and the segments of a
    parsed one, the round trip, and that the input of a MAC determines all a receiver acts on.
  \<^item> \<open>Ice_Lite\<close> (\<open>webrtc/ice-lite\<close>): the agent that answers connectivity checks. Shown: its
    invariant over all histories, that only authenticated checks have an effect, that they are
    answered with a response the peer verifies, and how consent expires.
  \<^item> \<open>Turn\<close> (\<open>webrtc/turn\<close>), \<open>Turn_Nonce\<close> (\<open>services/turn-server\<close>): allocation, ChannelData,
    credentials and nonces. Shown: the invariant of the allocation, that the permissions in force are
    those of the last five minutes, that both directions of a channel agree, the frame round trip,
    and that a nonce is bound to its client.
  \<^item> \<open>Turn_Server\<close>, \<open>Turn_Relay\<close>, \<open>Turn_Service\<close>, \<open>Turn_Exchange\<close> (\<open>services/turn-server\<close>): the
    handlers of the server over a record of its state, with effects as a list; bandwidth, relay ports
    and stream framing; the steps a frame can make, as inductive relations, and the invariant over
    histories of calls handled one after the other; and whole exchanges with a client. Shown: who may
    change an allocation, where data may go, that an authorised client is served, quotas, the
    bandwidth bound, the round trip of the control stream.
  \<^item> \<open>Rust_Text\<close>: the string functions of the standard library that the server and the fingerprints use.
  \<^item> \<open>Dtls\<close> (\<open>webrtc/dtls-adapter\<close>): fingerprints, the split of the exporter and the datagram-driven
    session, with OpenSSL and SHA-256 as arguments. Shown: keys are released at most once and only after
    the fingerprint was verified.
  \<^item> \<open>Rtc_Session\<close> (\<open>webrtc/rtc-session\<close>): the session that composes ICE, DTLS and SRTP. Shown: its
    invariant, that traffic passes only on authenticated paths and under the keys last accepted, and
    that media is delivered from one session to another, in either direction.

  \<^bold>\<open>Conventions.\<close> Errors are the left summand of a result. Operations on \<open>&mut self\<close> take and
  return the state, also when they fail. The iteration order of a hash map and the order an unstable
  sort gives to equal keys are arguments. Loops over input recurse on the list or on the remaining
  length; no fuel is used. Two loops may not end: eviction of the send history at capacity zero, and
  reading records from OpenSSL. They are partial functions into the option type, and
  when each of them returns is a theorem. Durations are
  nanoseconds. Arithmetic keeps the width of the code where it can overflow.

  \<^bold>\<open>Not modelled.\<close> SDP negotiation is text parsing and comes next. The blocking accept of the DTLS
  adapter and its OpenSSL context are calls of a foreign library. The tasks of the TURN server are
  modelled one call at a time; that two Allocate requests can interleave is shown separately. Its
  sockets, TLS and status pages, and the other services,
  the stores, observability, the media pipeline and the tools are HTTP, database, process and file
  input and output around these crates; the SDKs are clients of their interfaces. Text formatting of
  errors and the encoding of identifiers by serde are left out of the modelled crates.
\<close>

end
